(* ===== verification/Prelude.thy ===== *)
theory Prelude
  imports Main "HOL-Library.Word" "HOL-Library.Monad_Syntax"
begin

text \<open>
  The shared vocabulary of the development: the machine integers of
  \<^verbatim>\<open>base/basictypes.h\<close>, blocks of memory as byte lists with the two directions of
  \<^verbatim>\<open>memcpy\<close>, and the list and word lemmas that the component theories rest on.

  Conventions. A \<^verbatim>\<open>size_t\<close> is a \<open>nat\<close> (the sizes of objects in memory never reach
  \<open>2 ^ 64\<close>); a \<^verbatim>\<open>uint8/16/32/64\<close> is a word of that width and wraps as in C++. An operation
  whose C++ original can reach undefined behaviour (a read past a buffer, the front of an empty
  list, a shift by the width or more) returns an option, with \<open>None\<close> for that outcome.
  \<^verbatim>\<open>ASSERT\<close> is the release build's: it does nothing, and where continuing past a failed one would be
  undefined the model returns \<open>None\<close>.
\<close>

unbundle bit_operations_syntax

type_synonym u8 = "8 word"
type_synonym u16 = "16 word"
type_synonym u32 = "32 word"
type_synonym u64 = "64 word"
type_synonym byte = "8 word"

text \<open>Collections of the development: unfolding of memory accesses, of ring-buffer indices, and
  the definitions of the components' invariants.\<close>

named_theorems mem_simps
named_theorems ring_simps
named_theorems inv_defs

section \<open>Minimum and maximum as the code writes them\<close>

definition std_min :: "'a::ord \<Rightarrow> 'a \<Rightarrow> 'a" where
  "std_min a b = (if b < a then b else a)"

definition std_max :: "'a::ord \<Rightarrow> 'a \<Rightarrow> 'a" where
  "std_max a b = (if a < b then b else a)"

lemma std_min_eq [simp]: "std_min a b = min a (b::'a::linorder)"
  by (auto simp: std_min_def min_def)

lemma std_max_eq [simp]: "std_max a b = max a (b::'a::linorder)"
  by (auto simp: std_max_def max_def)

section \<open>Memory blocks\<close>

definition mem_read :: "byte list \<Rightarrow> nat \<Rightarrow> nat \<Rightarrow> byte list" where
  "mem_read m pos n = take n (drop pos m)"

definition mem_write :: "byte list \<Rightarrow> nat \<Rightarrow> byte list \<Rightarrow> byte list" where
  "mem_write m pos src = take pos m @ src @ drop (pos + length src) m"

lemma length_mem_read [mem_simps]: "pos + n \<le> length m \<Longrightarrow> length (mem_read m pos n) = n"
  by (simp add: mem_read_def)

lemma length_mem_write [mem_simps]:
  "pos + length src \<le> length m \<Longrightarrow> length (mem_write m pos src) = length m"
  by (simp add: mem_write_def)

lemma mem_read_0 [simp]: "mem_read m pos 0 = []"
  by (simp add: mem_read_def)

lemma mem_write_Nil [simp]: "mem_write m pos [] = m"
  by (simp add: mem_write_def)

lemma nth_mem_read [mem_simps]: "pos + n \<le> length m \<Longrightarrow> i < n \<Longrightarrow> mem_read m pos n ! i = m ! (pos + i)"
  by (simp add: mem_read_def)

lemma nth_mem_write [mem_simps]:
  assumes "pos + length src \<le> length m" "i < length m"
  shows "mem_write m pos src ! i =
    (if pos \<le> i \<and> i < pos + length src then src ! (i - pos) else m ! i)"
  using assms by (auto simp: mem_write_def nth_append not_less min_def)

lemma mem_read_write_same:
  "pos + length src \<le> length m \<Longrightarrow> mem_read (mem_write m pos src) pos (length src) = src"
  by (simp add: mem_read_def mem_write_def)

lemma mem_read_split:
  "mem_read m pos (a + b) = mem_read m pos a @ mem_read m (pos + a) b"
  by (simp add: mem_read_def take_add add.commute)

section \<open>Lists at numeral positions\<close>

lemma list_update_Cons_numeral [simp]:
  "(x # xs)[numeral k := v] = x # xs[pred_numeral k := v]"
  by (simp add: numeral_eq_Suc)

lemma list_of_length2: "length m = 2 \<longleftrightarrow> (\<exists>a b. m = [a, b])"
  by (auto simp: numeral_eq_Suc length_Suc_conv)

lemma list_of_length4: "length m = 4 \<longleftrightarrow> (\<exists>a b c d. m = [a, b, c, d])"
  by (auto simp: numeral_eq_Suc length_Suc_conv)

lemma list_of_length8: "length m = 8 \<longleftrightarrow> (\<exists>a b c d e f g k. m = [a, b, c, d, e, f, g, k])"
  by (auto simp: numeral_eq_Suc length_Suc_conv)

section \<open>Words\<close>

lemma unat_lt: "unat (w :: 'a::len word) < 2 ^ LENGTH('a)"
  by (fact unsigned_less)

lemma unat_lt32: "unat (w :: u32) < 4294967296"
  using unat_lt [of w] by simp

lemma uint_lt32: "0 \<le> uint (w :: u32) \<and> uint w < 4294967296"
  using uint_bounded [of w] by simp

lemma unat_sub_le_nat: "(b::'a::len word) \<le> a \<Longrightarrow> unat (a - b) = unat a - unat b"
  by (rule unat_sub) 

lemma of_nat_unat_id [simp]: "(word_of_nat (unat w) :: 'a::len word) = w"
  by simp

lemma unat_of_nat_lt: "n < 2 ^ LENGTH('a::len) \<Longrightarrow> unat (word_of_nat n :: 'a word) = n"
  by (simp add: unat_of_nat take_bit_nat_eq_self)

end
