(* ===== verification/Byte_Order.thy ===== *)
theory Byte_Order
  imports Prelude
begin

text \<open>
  \<^verbatim>\<open>base/byteorder.h\<close>: reading and writing numbers in memory in big- and little-endian
  order, and the conversions between host and network order. Memory is a byte list; the host's
  own byte order is the argument \<open>h\<close> (\<open>True\<close> for a big-endian host) of whatever loads or stores a
  whole integer, so every statement below holds on both kinds of host.
\<close>

section \<open>Single bytes\<close>

definition Set8 :: "byte list \<Rightarrow> nat \<Rightarrow> u8 \<Rightarrow> byte list" where
  "Set8 memory offset v = memory[offset := v]"

definition Get8 :: "byte list \<Rightarrow> nat \<Rightarrow> u8" where
  "Get8 memory offset = memory ! offset"

section \<open>Big-endian order\<close>

definition SetBE16 :: "byte list \<Rightarrow> u16 \<Rightarrow> byte list" where
  "SetBE16 memory v =
     (let memory = Set8 memory 0 (ucast (drop_bit 8 v));
          memory = Set8 memory 1 (ucast (drop_bit 0 v))
      in memory)"

definition SetBE32 :: "byte list \<Rightarrow> u32 \<Rightarrow> byte list" where
  "SetBE32 memory v =
     (let memory = Set8 memory 0 (ucast (drop_bit 24 v));
          memory = Set8 memory 1 (ucast (drop_bit 16 v));
          memory = Set8 memory 2 (ucast (drop_bit 8 v));
          memory = Set8 memory 3 (ucast (drop_bit 0 v))
      in memory)"

definition SetBE64 :: "byte list \<Rightarrow> u64 \<Rightarrow> byte list" where
  "SetBE64 memory v =
     (let memory = Set8 memory 0 (ucast (drop_bit 56 v));
          memory = Set8 memory 1 (ucast (drop_bit 48 v));
          memory = Set8 memory 2 (ucast (drop_bit 40 v));
          memory = Set8 memory 3 (ucast (drop_bit 32 v));
          memory = Set8 memory 4 (ucast (drop_bit 24 v));
          memory = Set8 memory 5 (ucast (drop_bit 16 v));
          memory = Set8 memory 6 (ucast (drop_bit 8 v));
          memory = Set8 memory 7 (ucast (drop_bit 0 v))
      in memory)"

definition GetBE16 :: "byte list \<Rightarrow> u16" where
  "GetBE16 memory = push_bit 8 (ucast (Get8 memory 0)) OR push_bit 0 (ucast (Get8 memory 1))"

definition GetBE32 :: "byte list \<Rightarrow> u32" where
  "GetBE32 memory =
     push_bit 24 (ucast (Get8 memory 0)) OR
     push_bit 16 (ucast (Get8 memory 1)) OR
     push_bit 8 (ucast (Get8 memory 2)) OR
     push_bit 0 (ucast (Get8 memory 3))"

definition GetBE64 :: "byte list \<Rightarrow> u64" where
  "GetBE64 memory =
     push_bit 56 (ucast (Get8 memory 0)) OR
     push_bit 48 (ucast (Get8 memory 1)) OR
     push_bit 40 (ucast (Get8 memory 2)) OR
     push_bit 32 (ucast (Get8 memory 3)) OR
     push_bit 24 (ucast (Get8 memory 4)) OR
     push_bit 16 (ucast (Get8 memory 5)) OR
     push_bit 8 (ucast (Get8 memory 6)) OR
     push_bit 0 (ucast (Get8 memory 7))"

section \<open>Little-endian order\<close>

definition SetLE16 :: "byte list \<Rightarrow> u16 \<Rightarrow> byte list" where
  "SetLE16 memory v =
     (let memory = Set8 memory 0 (ucast (drop_bit 0 v));
          memory = Set8 memory 1 (ucast (drop_bit 8 v))
      in memory)"

definition SetLE32 :: "byte list \<Rightarrow> u32 \<Rightarrow> byte list" where
  "SetLE32 memory v =
     (let memory = Set8 memory 0 (ucast (drop_bit 0 v));
          memory = Set8 memory 1 (ucast (drop_bit 8 v));
          memory = Set8 memory 2 (ucast (drop_bit 16 v));
          memory = Set8 memory 3 (ucast (drop_bit 24 v))
      in memory)"

definition SetLE64 :: "byte list \<Rightarrow> u64 \<Rightarrow> byte list" where
  "SetLE64 memory v =
     (let memory = Set8 memory 0 (ucast (drop_bit 0 v));
          memory = Set8 memory 1 (ucast (drop_bit 8 v));
          memory = Set8 memory 2 (ucast (drop_bit 16 v));
          memory = Set8 memory 3 (ucast (drop_bit 24 v));
          memory = Set8 memory 4 (ucast (drop_bit 32 v));
          memory = Set8 memory 5 (ucast (drop_bit 40 v));
          memory = Set8 memory 6 (ucast (drop_bit 48 v));
          memory = Set8 memory 7 (ucast (drop_bit 56 v))
      in memory)"

definition GetLE16 :: "byte list \<Rightarrow> u16" where
  "GetLE16 memory = push_bit 0 (ucast (Get8 memory 0)) OR push_bit 8 (ucast (Get8 memory 1))"

definition GetLE32 :: "byte list \<Rightarrow> u32" where
  "GetLE32 memory =
     push_bit 0 (ucast (Get8 memory 0)) OR
     push_bit 8 (ucast (Get8 memory 1)) OR
     push_bit 16 (ucast (Get8 memory 2)) OR
     push_bit 24 (ucast (Get8 memory 3))"

definition GetLE64 :: "byte list \<Rightarrow> u64" where
  "GetLE64 memory =
     push_bit 0 (ucast (Get8 memory 0)) OR
     push_bit 8 (ucast (Get8 memory 1)) OR
     push_bit 16 (ucast (Get8 memory 2)) OR
     push_bit 24 (ucast (Get8 memory 3)) OR
     push_bit 32 (ucast (Get8 memory 4)) OR
     push_bit 40 (ucast (Get8 memory 5)) OR
     push_bit 48 (ucast (Get8 memory 6)) OR
     push_bit 56 (ucast (Get8 memory 7))"

section \<open>Integers of the host in memory\<close>

text \<open>
  The image of an integer variable in memory, and the integer a given image stands for: what a
  \<^verbatim>\<open>reinterpret_cast\<close> between an integer and its bytes does on a host of byte order \<open>h\<close>.
\<close>

definition host_store16 :: "bool \<Rightarrow> u16 \<Rightarrow> byte list" where
  "host_store16 h v = (if h then SetBE16 (replicate 2 0) v else SetLE16 (replicate 2 0) v)"

definition host_store32 :: "bool \<Rightarrow> u32 \<Rightarrow> byte list" where
  "host_store32 h v = (if h then SetBE32 (replicate 4 0) v else SetLE32 (replicate 4 0) v)"

definition host_store64 :: "bool \<Rightarrow> u64 \<Rightarrow> byte list" where
  "host_store64 h v = (if h then SetBE64 (replicate 8 0) v else SetLE64 (replicate 8 0) v)"

definition host_load16 :: "bool \<Rightarrow> byte list \<Rightarrow> u16" where
  "host_load16 h m = (if h then GetBE16 m else GetLE16 m)"

definition host_load32 :: "bool \<Rightarrow> byte list \<Rightarrow> u32" where
  "host_load32 h m = (if h then GetBE32 m else GetLE32 m)"

definition host_load64 :: "bool \<Rightarrow> byte list \<Rightarrow> u64" where
  "host_load64 h m = (if h then GetBE64 m else GetLE64 m)"

definition IsHostBigEndian :: "bool \<Rightarrow> bool" where
  "IsHostBigEndian h = (0 = Get8 (host_store32 h 1) 0)"

definition HostToNetwork16 :: "bool \<Rightarrow> u16 \<Rightarrow> u16" where
  "HostToNetwork16 h n = host_load16 h (SetBE16 (replicate 2 0) n)"

definition HostToNetwork32 :: "bool \<Rightarrow> u32 \<Rightarrow> u32" where
  "HostToNetwork32 h n = host_load32 h (SetBE32 (replicate 4 0) n)"

definition HostToNetwork64 :: "bool \<Rightarrow> u64 \<Rightarrow> u64" where
  "HostToNetwork64 h n = host_load64 h (SetBE64 (replicate 8 0) n)"

definition NetworkToHost16 :: "bool \<Rightarrow> u16 \<Rightarrow> u16" where
  "NetworkToHost16 h n = GetBE16 (host_store16 h n)"

definition NetworkToHost32 :: "bool \<Rightarrow> u32 \<Rightarrow> u32" where
  "NetworkToHost32 h n = GetBE32 (host_store32 h n)"

definition NetworkToHost64 :: "bool \<Rightarrow> u64 \<Rightarrow> u64" where
  "NetworkToHost64 h n = GetBE64 (host_store64 h n)"

lemmas byte_defs = Set8_def Get8_def SetBE16_def SetBE32_def SetBE64_def GetBE16_def GetBE32_def
  GetBE64_def SetLE16_def SetLE32_def SetLE64_def GetLE16_def GetLE32_def GetLE64_def Let_def

section \<open>The bytes a store leaves behind\<close>

text \<open>Over a block of the right size a store overwrites every byte, so its result depends on
  the value only.\<close>

definition be16 :: "u16 \<Rightarrow> byte list" where "be16 v = [ucast (drop_bit 8 v), ucast v]"

definition be32 :: "u32 \<Rightarrow> byte list" where
  "be32 v = [ucast (drop_bit 24 v), ucast (drop_bit 16 v), ucast (drop_bit 8 v), ucast v]"

definition be64 :: "u64 \<Rightarrow> byte list" where
  "be64 v = [ucast (drop_bit 56 v), ucast (drop_bit 48 v), ucast (drop_bit 40 v),
     ucast (drop_bit 32 v), ucast (drop_bit 24 v), ucast (drop_bit 16 v), ucast (drop_bit 8 v),
     ucast v]"

lemma length_be [simp]: "length (be16 v) = 2" "length (be32 w) = 4" "length (be64 x) = 8"
  by (simp_all add: be16_def be32_def be64_def)

lemma SetBE16_bytes: "length m = 2 \<Longrightarrow> SetBE16 m v = be16 v"
  by (auto simp: list_of_length2 byte_defs be16_def)

lemma SetBE32_bytes: "length m = 4 \<Longrightarrow> SetBE32 m v = be32 v"
  by (auto simp: list_of_length4 byte_defs be32_def)

lemma SetBE64_bytes: "length m = 8 \<Longrightarrow> SetBE64 m v = be64 v"
  by (auto simp: list_of_length8 byte_defs be64_def)

lemma SetLE16_bytes: "length m = 2 \<Longrightarrow> SetLE16 m v = rev (be16 v)"
  by (auto simp: list_of_length2 byte_defs be16_def)

lemma SetLE32_bytes: "length m = 4 \<Longrightarrow> SetLE32 m v = rev (be32 v)"
  by (auto simp: list_of_length4 byte_defs be32_def)

lemma SetLE64_bytes: "length m = 8 \<Longrightarrow> SetLE64 m v = rev (be64 v)"
  by (auto simp: list_of_length8 byte_defs be64_def)

section \<open>Round trips\<close>

text \<open>A word is put together again byte by byte: the low \<open>k\<close> bits and the byte above them give
  the low \<open>k + 8\<close> bits.\<close>

lemma push_byte_or_low:
  "push_bit k (take_bit 8 (drop_bit k v)) OR take_bit k v = take_bit (k + 8) (v :: 'a::len word)"
  by (rule bit_word_eqI) (auto simp: bit_simps)

lemma ucast_byte16: "(ucast (ucast (w::u16) :: byte) :: u16) = take_bit 8 w"
  by (rule bit_word_eqI) (auto simp: bit_simps)

lemma ucast_byte32: "(ucast (ucast (w::u32) :: byte) :: u32) = take_bit 8 w"
  by (rule bit_word_eqI) (auto simp: bit_simps)

lemma ucast_byte64: "(ucast (ucast (w::u64) :: byte) :: u64) = take_bit 8 w"
  by (rule bit_word_eqI) (auto simp: bit_simps)

lemma take_bit_width [simp]:
  "take_bit 16 (a::u16) = a" "take_bit 32 (b::u32) = b" "take_bit 64 (c::u64) = c"
  by (rule bit_word_eqI, auto simp: bit_simps dest: bit_imp_le_length)+

lemmas byte_join = push_byte_or_low [of 8, simplified] push_byte_or_low [of 16, simplified]
  push_byte_or_low [of 24, simplified] push_byte_or_low [of 32, simplified]
  push_byte_or_low [of 40, simplified] push_byte_or_low [of 48, simplified]
  push_byte_or_low [of 56, simplified]

lemma GetBE16_be16 [simp]: "GetBE16 (be16 v @ r) = v"
  by (simp add: byte_defs be16_def ucast_byte16 byte_join)

lemma GetBE32_be32 [simp]: "GetBE32 (be32 v @ r) = v"
  by (simp add: byte_defs be32_def ucast_byte32 byte_join)

lemma GetBE64_be64 [simp]: "GetBE64 (be64 v @ r) = v"
  by (simp add: byte_defs be64_def ucast_byte64 byte_join)

lemmas GetBE_be [simp] = GetBE16_be16 [of _ "[]", simplified] GetBE32_be32 [of _ "[]", simplified]
  GetBE64_be64 [of _ "[]", simplified]

lemma GetLE16_rev: "length m = 2 \<Longrightarrow> GetLE16 m = GetBE16 (rev m)"
  by (auto simp: list_of_length2 byte_defs or.commute)

lemma GetLE32_rev: "length m = 4 \<Longrightarrow> GetLE32 m = GetBE32 (rev m)"
  by (auto simp: list_of_length4 byte_defs ac_simps)

lemma GetLE64_rev: "length m = 8 \<Longrightarrow> GetLE64 m = GetBE64 (rev m)"
  by (auto simp: list_of_length8 byte_defs ac_simps)

text \<open>In the other direction a block of the right size is the image of the number read from it.\<close>

lemma ucast_or_byte [simp]: "(ucast (a OR b :: 'a::len word) :: byte) = ucast a OR ucast b"
  by (rule bit_word_eqI) (auto simp: bit_simps)

lemma be16_GetBE16: "length m = 2 \<Longrightarrow> be16 (GetBE16 m) = m"
  unfolding list_of_length2
  by (elim exE, simp add: byte_defs be16_def, intro conjI; rule bit_word_eqI; auto simp: bit_simps dest: bit_imp_le_length)

lemma be32_GetBE32: "length m = 4 \<Longrightarrow> be32 (GetBE32 m) = m"
  unfolding list_of_length4
  by (elim exE, simp add: byte_defs be32_def, intro conjI; rule bit_word_eqI; auto simp: bit_simps dest: bit_imp_le_length)

lemma be64_GetBE64: "length m = 8 \<Longrightarrow> be64 (GetBE64 m) = m"
  unfolding list_of_length8
  by (elim exE, simp add: byte_defs be64_def, intro conjI; rule bit_word_eqI; auto simp: bit_simps dest: bit_imp_le_length)

section \<open>Fixed-width encodings as an interface\<close>

text \<open>What the users of a byte order rely on: an encoding of a fixed width with a decoding that
  inverts it on both sides.\<close>

locale fixed_codec =
  fixes enc :: "'a \<Rightarrow> byte list"
    and dec :: "byte list \<Rightarrow> 'a"
    and width :: nat
  assumes length_enc: "length (enc v) = width"
    and dec_enc: "dec (enc v) = v"
    and enc_dec: "length m = width \<Longrightarrow> enc (dec m) = m"
begin

lemma enc_eq_iff: "enc v = enc w \<longleftrightarrow> v = w"
  by (metis dec_enc)

lemma dec_eq_iff: "length m = width \<Longrightarrow> dec m = v \<longleftrightarrow> m = enc v"
  using dec_enc enc_dec by metis

lemma dec_take_enc: "dec (take width (enc v @ r)) = v"
  by (simp add: length_enc dec_enc)

lemma drop_enc: "drop width (enc v @ r) = r"
  by (simp add: length_enc)

end

interpretation big16: fixed_codec be16 GetBE16 2
  by unfold_locales (simp_all add: be16_GetBE16)

interpretation big32: fixed_codec be32 GetBE32 4
  by unfold_locales (simp_all add: be32_GetBE32)

interpretation big64: fixed_codec be64 GetBE64 8
  by unfold_locales (simp_all add: be64_GetBE64)

lemmas SetBE_bytes = SetBE16_bytes SetBE32_bytes SetBE64_bytes
lemmas SetLE_bytes = SetLE16_bytes SetLE32_bytes SetLE64_bytes

interpretation host16: fixed_codec "host_store16 h" "host_load16 h" 2
  by unfold_locales
    (auto simp: host_store16_def host_load16_def SetBE_bytes SetLE_bytes GetLE16_rev be16_GetBE16)

interpretation host32: fixed_codec "host_store32 h" "host_load32 h" 4
  by unfold_locales
    (auto simp: host_store32_def host_load32_def SetBE_bytes SetLE_bytes GetLE32_rev be32_GetBE32)

interpretation host64: fixed_codec "host_store64 h" "host_load64 h" 8
  by unfold_locales
    (auto simp: host_store64_def host_load64_def SetBE_bytes SetLE_bytes GetLE64_rev be64_GetBE64)

section \<open>Network order\<close>

text \<open>A value converted to network order is big-endian in memory on either kind of host, and a
  network-order value loaded from memory converts back to the big-endian number.\<close>

lemma store_HostToNetwork [simp]:
  "host_store16 h (HostToNetwork16 h a) = be16 a"
  "host_store32 h (HostToNetwork32 h b) = be32 b"
  "host_store64 h (HostToNetwork64 h c) = be64 c"
  by (simp_all add: HostToNetwork16_def HostToNetwork32_def HostToNetwork64_def SetBE_bytes
      host16.enc_dec host32.enc_dec host64.enc_dec)

lemma NetworkToHost_load [simp]:
  "length m = 2 \<Longrightarrow> NetworkToHost16 h (host_load16 h m) = GetBE16 m"
  "length m = 4 \<Longrightarrow> NetworkToHost32 h (host_load32 h m) = GetBE32 m"
  "length m = 8 \<Longrightarrow> NetworkToHost64 h (host_load64 h m) = GetBE64 m"
  by (simp_all add: NetworkToHost16_def NetworkToHost32_def NetworkToHost64_def
      host16.enc_dec host32.enc_dec host64.enc_dec)

lemma IsHostBigEndian_iff [simp]: "IsHostBigEndian h = h"
  by (simp add: IsHostBigEndian_def host_store32_def SetBE_bytes SetLE_bytes be32_def Get8_def)

lemma NetworkToHost_HostToNetwork [simp]:
  "NetworkToHost16 h (HostToNetwork16 h a) = a" "NetworkToHost32 h (HostToNetwork32 h b) = b"
  "NetworkToHost64 h (HostToNetwork64 h c) = c"
  by (simp_all add: NetworkToHost16_def NetworkToHost32_def NetworkToHost64_def)

lemma HostToNetwork_NetworkToHost:
  "HostToNetwork16 h (NetworkToHost16 h a) = a" "HostToNetwork32 h (NetworkToHost32 h b) = b"
  "HostToNetwork64 h (NetworkToHost64 h c) = c"
  by (simp_all add: NetworkToHost16_def NetworkToHost32_def NetworkToHost64_def HostToNetwork16_def HostToNetwork32_def
      HostToNetwork64_def SetBE_bytes be16_GetBE16 be32_GetBE32 be64_GetBE64 host16.length_enc host32.length_enc
      host64.length_enc host16.dec_enc host32.dec_enc host64.dec_enc)

section \<open>Properties\<close>

text \<open>Conversion to network order and back is the identity in both directions at every width, and the
  converted value lies in memory as the big-endian bytes that \<^verbatim>\<open>SetBE\<close> stores and \<^verbatim>\<open>GetBE\<close> reads, whatever
  the host's byte order.\<close>

theorem host_to_network_roundtrip:
  "NetworkToHost16 h (HostToNetwork16 h a) = a \<and> HostToNetwork16 h (NetworkToHost16 h a) = a \<and>
   NetworkToHost32 h (HostToNetwork32 h b) = b \<and> HostToNetwork32 h (NetworkToHost32 h b) = b \<and>
   NetworkToHost64 h (HostToNetwork64 h c) = c \<and> HostToNetwork64 h (NetworkToHost64 h c) = c \<and>
   host_store16 h (HostToNetwork16 h a) = SetBE16 (replicate 2 0) a \<and> GetBE16 (SetBE16 (replicate 2 0) a) = a \<and>
   host_store32 h (HostToNetwork32 h b) = SetBE32 (replicate 4 0) b \<and> GetBE32 (SetBE32 (replicate 4 0) b) = b \<and>
   host_store64 h (HostToNetwork64 h c) = SetBE64 (replicate 8 0) c \<and> GetBE64 (SetBE64 (replicate 8 0) c) = c"
  by (simp add: HostToNetwork_NetworkToHost SetBE_bytes)

end
