(* ===== verification/Time_Utils.thy ===== *)
theory Time_Utils
  imports Prelude
begin

text \<open>
  \<^verbatim>\<open>base/timeutils.cc\<close>: comparing 32-bit millisecond clocks that wrap. The file holds two
  implementations of each comparison, chosen by \<^verbatim>\<open>EFFICIENT_IMPLEMENTATION\<close>: signed differences
  (compiled) and the interval test \<open>TimeIsBetween\<close> (the readable one). Both are modelled; the
  functions without a suffix are the compiled ones, and the lemmas say when the two agree.
\<close>

definition HALF :: u32 where "HALF = 0x80000000"

definition TimeIsBetween :: "u32 \<Rightarrow> u32 \<Rightarrow> u32 \<Rightarrow> bool" where
  "TimeIsBetween earlier middle later =
     (if earlier \<le> later then earlier \<le> middle \<and> middle \<le> later
      else \<not> (later < middle \<and> middle < earlier))"

definition TimeIsLaterOrEqual :: "u32 \<Rightarrow> u32 \<Rightarrow> bool" where
  "TimeIsLaterOrEqual earlier later =
     (let diff = sint (later - earlier) in diff \<ge> 0 \<and> (word_of_int diff :: u32) < HALF)"

definition TimeIsLaterOrEqual_ref :: "u32 \<Rightarrow> u32 \<Rightarrow> bool" where
  "TimeIsLaterOrEqual_ref earlier later = TimeIsBetween earlier later (earlier + HALF)"

definition TimeIsLater :: "u32 \<Rightarrow> u32 \<Rightarrow> bool" where
  "TimeIsLater earlier later =
     (let diff = sint (later - earlier) in diff > 0 \<and> (word_of_int diff :: u32) < HALF)"

definition TimeIsLater_ref :: "u32 \<Rightarrow> u32 \<Rightarrow> bool" where
  "TimeIsLater_ref earlier later = (\<not> TimeIsBetween later earlier (later + HALF))"

definition TimeDiff :: "u32 \<Rightarrow> u32 \<Rightarrow> int" where
  "TimeDiff later earlier = sint (later - earlier)"

definition TimeDiff_ref :: "u32 \<Rightarrow> u32 \<Rightarrow> int" where
  "TimeDiff_ref later earlier =
     (if TimeIsBetween earlier later (earlier + HALF)
      then if earlier \<le> later then int (unat (later - earlier))
           else int (unat (later + (0xFFFFFFFF - earlier) + 1))
      else if later \<le> earlier then - int (unat (earlier - later))
           else - int (unat (earlier + (0xFFFFFFFF - later) + 1)))"

text \<open>The functions that read the clock take its value \<open>now\<close>.\<close>

definition TimeAfter :: "u32 \<Rightarrow> int \<Rightarrow> u32" where
  "TimeAfter now elapsed = now + word_of_int elapsed"

definition TimeSince :: "u32 \<Rightarrow> u32 \<Rightarrow> int" where
  "TimeSince now earlier = TimeDiff now earlier"

definition TimeUntil :: "u32 \<Rightarrow> u32 \<Rightarrow> int" where
  "TimeUntil now later = TimeDiff later now"

definition TimeMax :: "u32 \<Rightarrow> u32 \<Rightarrow> u32" where
  "TimeMax ts1 ts2 = (if TimeIsLaterOrEqual ts1 ts2 then ts2 else ts1)"

definition TimeMin :: "u32 \<Rightarrow> u32 \<Rightarrow> u32" where
  "TimeMin ts1 ts2 = (if TimeIsLaterOrEqual ts1 ts2 then ts1 else ts2)"

section \<open>Distances on the clock\<close>

text \<open>Every comparison is a statement about the unsigned distance \<open>later - earlier\<close>.\<close>

lemma sint_u32:
  "sint (d :: u32) = (if uint d < 2147483648 then uint d else uint d - 4294967296)"
proof (cases "uint d < 2147483648")
  case True
  then show ?thesis
    by (simp add: sint_uint signed_take_bit_eq_take_bit_shift take_bit_eq_mod)
next
  case False
  have "(uint d + 2147483648) mod 4294967296 = (uint d - 2147483648) mod 4294967296"
    using mod_add_self2 [of "uint d - 2147483648" "4294967296"] by (simp add: add.commute)
  also have "\<dots> = uint d - 2147483648"
    using False uint_lt32 [of d] by simp
  finally show ?thesis using False
    by (simp add: sint_uint signed_take_bit_eq_take_bit_shift take_bit_eq_mod)
qed

lemma uint_diff_u32:
  "uint (l - e :: u32) = (if uint e \<le> uint l then uint l - uint e else uint l + 4294967296 - uint e)"
  using uint_lt32 [of e] uint_lt32 [of l] by (simp add: uint_sub_if' word_le_def)

lemma TimeIsBetween_dist: "TimeIsBetween e m l \<longleftrightarrow> uint (m - e) \<le> uint (l - e)"
  using uint_lt32 [of l] uint_lt32 [of m] uint_lt32 [of e]
  by (auto simp: TimeIsBetween_def word_le_def word_less_def uint_diff_u32 split: if_splits)
    (use uint_lt32 [of l] uint_lt32 [of m] in linarith)+

lemma nonneg_sint_lt_HALF: "0 \<le> sint (d::u32) \<Longrightarrow> (word_of_int (sint d) :: u32) < HALF"
  using uint_lt32 [of d]
  by (auto simp: sint_u32 HALF_def word_less_def unsigned_of_int take_bit_eq_mod split: if_splits)

lemma TimeIsLaterOrEqual_dist: "TimeIsLaterOrEqual e l \<longleftrightarrow> uint (l - e) < 2147483648"
proof -
  have "TimeIsLaterOrEqual e l \<longleftrightarrow> 0 \<le> sint (l - e)"
    using nonneg_sint_lt_HALF [of "l - e"] by (auto simp: TimeIsLaterOrEqual_def Let_def)
  then show ?thesis using uint_lt32 [of "l - e"] by (auto simp: sint_u32)
qed

lemma TimeIsLater_dist: "TimeIsLater e l \<longleftrightarrow> 0 < uint (l - e) \<and> uint (l - e) < 2147483648"
proof -
  have "TimeIsLater e l \<longleftrightarrow> 0 < sint (l - e)"
    using nonneg_sint_lt_HALF [of "l - e"] by (auto simp: TimeIsLater_def Let_def)
  then show ?thesis using uint_lt32 [of "l - e"] by (auto simp: sint_u32)
qed

lemma eq_HALF_iff: "d = HALF \<longleftrightarrow> uint d = 2147483648"
  by (simp add: HALF_def word_uint_eq_iff)

lemma uint_HALF: "uint HALF = 2147483648"
  by (simp add: HALF_def)

section \<open>The compiled comparisons against the interval test\<close>

lemma TimeIsLaterOrEqual_ref_dist: "TimeIsLaterOrEqual_ref e l \<longleftrightarrow> uint (l - e) \<le> 2147483648"
  by (simp add: TimeIsLaterOrEqual_ref_def TimeIsBetween_dist uint_HALF)

lemma TimeIsLater_ref_dist: "TimeIsLater_ref e l \<longleftrightarrow> 0 < uint (l - e) \<and> uint (l - e) < 2147483648"
  using uint_lt32 [of l] uint_lt32 [of e]
  by (auto simp: TimeIsLater_ref_def TimeIsBetween_dist uint_HALF uint_diff_u32 split: if_splits)
    (use uint_lt32 [of l] in linarith)

lemma TimeDiff_ref_dist:
  "TimeDiff_ref l e = (if uint (l - e) \<le> 2147483648 then uint (l - e) else uint (l - e) - 4294967296)"
proof -
  have comp: "b + (0xFFFFFFFF - a) + 1 = b - a" for a b :: u32
  proof -
    have "(0xFFFFFFFF :: u32) = - 1" by simp
    then show ?thesis by (simp only:) simp
  qed
  have neg: "uint (l - e) \<noteq> 0 \<Longrightarrow> uint (e - l) = 4294967296 - uint (l - e)"
    using uint_lt32 [of l] uint_lt32 [of e] by (auto simp: uint_diff_u32 split: if_splits)
  have "TimeDiff_ref l e =
      (if uint (l - e) \<le> 2147483648 then uint (l - e) else - uint (e - l))"
    unfolding TimeDiff_ref_def TimeIsBetween_dist comp by (simp add: uint_HALF)
  with neg show ?thesis by auto
qed

lemma TimeDiff_dist:
  "TimeDiff l e = (if uint (l - e) < 2147483648 then uint (l - e) else uint (l - e) - 4294967296)"
  by (simp add: TimeDiff_def sint_u32)

section \<open>Properties\<close>

text \<open>The compiled comparisons equal the interval test everywhere except at a distance of exactly half
  the clock: there the compiled \<^verbatim>\<open>TimeIsLaterOrEqual\<close> is false where the other is true, and the compiled
  \<^verbatim>\<open>TimeDiff\<close> is lower by \<open>2 ^ 32\<close>; \<^verbatim>\<open>TimeIsLater\<close> agrees everywhere.\<close>

theorem time_implementations_agree:
  "TimeIsLaterOrEqual earlier later = (TimeIsLaterOrEqual_ref earlier later \<and> later - earlier \<noteq> HALF) \<and>
   TimeIsLater earlier later = TimeIsLater_ref earlier later \<and>
   TimeDiff later earlier = TimeDiff_ref later earlier - (if later - earlier = HALF then 2 ^ 32 else 0)"
  by (auto simp: TimeIsLaterOrEqual_dist TimeIsLaterOrEqual_ref_dist TimeIsLater_dist TimeIsLater_ref_dist
      TimeDiff_dist TimeDiff_ref_dist eq_HALF_iff)

lemma uint_word_of_int32:
  "- (2 ^ 31) \<le> d \<Longrightarrow> d < 2 ^ 31 \<Longrightarrow> uint (word_of_int d :: u32) = (if 0 \<le> d then d else d + 2 ^ 32)"
proof -
  assume d: "- (2 ^ 31) \<le> d" "d < 2 ^ 31"
  have "d mod 2 ^ 32 = (if 0 \<le> d then d else d + 2 ^ 32)"
    using d mod_add_self2 [of d "2 ^ 32"] by (auto simp del: mod_add_self2)
  with d(1) show ?thesis by (simp add: unsigned_of_int take_bit_eq_mod)
qed

text \<open>The comparisons order points of a wrapping clock: an offset of at most half the clock in either
  direction is recovered by \<^verbatim>\<open>TimeDiff\<close> and its sign decides \<^verbatim>\<open>TimeIsLater\<close> and \<^verbatim>\<open>TimeIsLaterOrEqual\<close>,
  wherever the clock stands and whether or not it wraps in between.\<close>

theorem time_offset:
  assumes "- (2 ^ 31) \<le> d" "d < 2 ^ 31"
  shows "TimeDiff (t + word_of_int d) t = d \<and>
    TimeIsLater t (t + word_of_int d) = (0 < d) \<and> TimeIsLaterOrEqual t (t + word_of_int d) = (0 \<le> d)"
  using assms
  by (auto simp: TimeDiff_dist TimeIsLater_dist TimeIsLaterOrEqual_dist uint_word_of_int32)

theorem time_offset_witness:
  "TimeDiff (0xFFFFFFFF + word_of_int 5) 0xFFFFFFFF = 5 \<and>
    TimeIsLater 0xFFFFFFFF (0xFFFFFFFF + word_of_int 5) = (0 < (5 :: int)) \<and>
    TimeIsLaterOrEqual 0xFFFFFFFF (0xFFFFFFFF + word_of_int 5) = (0 \<le> (5 :: int))"
  by (rule time_offset) simp_all

end
