(* ===== verification/Byte_Buffer.thy ===== *)
theory Byte_Buffer
  imports Byte_Order
begin

text \<open>
  \<^verbatim>\<open>base/bytebuffer.h\<close> and \<^verbatim>\<open>base/bytebuffer.cc\<close>: a growable byte buffer with a read end and a
  write end, and typed reads and writes in network or host order. The model keeps the code's
  fields: the allocated block, its size, the two positions and the version that invalidates saved
  read positions. \<open>Contents\<close> is the abstract value, the bytes written and not yet read; the lemmas
  show that every operation acts on it as the header's comments promise and keeps the block's
  bounds. Memory from \<^verbatim>\<open>new char[]\<close> has no particular contents; the model fills it with zeros and
  no statement depends on them.
\<close>

datatype ByteOrder = ORDER_NETWORK | ORDER_HOST

record byte_buffer =
  bb_bytes :: "byte list"
  bb_size :: nat
  bb_start :: nat
  bb_end :: nat
  bb_version :: int
  bb_byte_order :: ByteOrder

record ReadPosition =
  pos_start :: nat
  pos_version :: int

definition DEFAULT_SIZE :: nat where "DEFAULT_SIZE = 4096"

section \<open>Construction and observation\<close>

definition Construct :: "byte list option \<Rightarrow> nat \<Rightarrow> ByteOrder \<Rightarrow> byte_buffer" where
  "Construct bytes len byte_order =
     (let block = replicate len 0
      in case bytes of
           Some src \<Rightarrow> \<lparr>bb_bytes = mem_write block 0 (take len src), bb_size = len, bb_start = 0,
                        bb_end = len, bb_version = 0, bb_byte_order = byte_order\<rparr>
         | None \<Rightarrow> \<lparr>bb_bytes = block, bb_size = len, bb_start = 0, bb_end = 0, bb_version = 0,
                    bb_byte_order = byte_order\<rparr>)"

definition ByteBuffer_new :: byte_buffer where
  "ByteBuffer_new = Construct None DEFAULT_SIZE ORDER_NETWORK"

definition ByteBuffer_order :: "ByteOrder \<Rightarrow> byte_buffer" where
  "ByteBuffer_order byte_order = Construct None DEFAULT_SIZE byte_order"

definition ByteBuffer_of :: "byte list \<Rightarrow> byte_buffer" where
  "ByteBuffer_of bytes = Construct (Some bytes) (length bytes) ORDER_NETWORK"

definition ByteBuffer_of_order :: "byte list \<Rightarrow> ByteOrder \<Rightarrow> byte_buffer" where
  "ByteBuffer_of_order bytes byte_order = Construct (Some bytes) (length bytes) byte_order"

definition Length :: "byte_buffer \<Rightarrow> nat" where "Length b = bb_end b - bb_start b"

definition Capacity :: "byte_buffer \<Rightarrow> nat" where "Capacity b = bb_size b - bb_start b"

text \<open>\<^verbatim>\<open>Data()\<close> is a pointer to the unread bytes; with \<^verbatim>\<open>Length()\<close> it denotes them.\<close>

definition Contents :: "byte_buffer \<Rightarrow> byte list" where
  "Contents b = mem_read (bb_bytes b) (bb_start b) (Length b)"

section \<open>Reading\<close>

definition ReadBytes :: "nat \<Rightarrow> byte_buffer \<Rightarrow> (byte list \<times> byte_buffer) option" where
  "ReadBytes len b =
     (if len > Length b then None
      else Some (mem_read (bb_bytes b) (bb_start b) len, b\<lparr>bb_start := bb_start b + len\<rparr>))"

definition ReadString :: "byte list \<Rightarrow> nat \<Rightarrow> byte_buffer \<Rightarrow> (byte list \<times> byte_buffer) option" where
  "ReadString val len b =
     (if len > Length b then None
      else Some (val @ mem_read (bb_bytes b) (bb_start b) len, b\<lparr>bb_start := bb_start b + len\<rparr>))"

definition ReadUInt8 :: "byte_buffer \<Rightarrow> (u8 \<times> byte_buffer) option" where
  "ReadUInt8 b = (case ReadBytes 1 b of None \<Rightarrow> None | Some (v, b') \<Rightarrow> Some (hd v, b'))"

definition ReadUInt16 :: "bool \<Rightarrow> byte_buffer \<Rightarrow> (u16 \<times> byte_buffer) option" where
  "ReadUInt16 h b =
     (case ReadBytes 2 b of
        None \<Rightarrow> None
      | Some (m, b') \<Rightarrow>
          (let v = host_load16 h m
           in Some (if bb_byte_order b = ORDER_NETWORK then NetworkToHost16 h v else v, b')))"

definition ReadUInt24 :: "bool \<Rightarrow> byte_buffer \<Rightarrow> (u32 \<times> byte_buffer) option" where
  "ReadUInt24 h b =
     (let read_into = (if bb_byte_order b = ORDER_NETWORK \<or> IsHostBigEndian h then 1 else 0)
      in case ReadBytes 3 b of
           None \<Rightarrow> None
         | Some (m, b') \<Rightarrow>
             (let v = host_load32 h (mem_write (host_store32 h 0) read_into m)
              in Some (if bb_byte_order b = ORDER_NETWORK then NetworkToHost32 h v else v, b')))"

definition ReadUInt32 :: "bool \<Rightarrow> byte_buffer \<Rightarrow> (u32 \<times> byte_buffer) option" where
  "ReadUInt32 h b =
     (case ReadBytes 4 b of
        None \<Rightarrow> None
      | Some (m, b') \<Rightarrow>
          (let v = host_load32 h m
           in Some (if bb_byte_order b = ORDER_NETWORK then NetworkToHost32 h v else v, b')))"

definition ReadUInt64 :: "bool \<Rightarrow> byte_buffer \<Rightarrow> (u64 \<times> byte_buffer) option" where
  "ReadUInt64 h b =
     (case ReadBytes 8 b of
        None \<Rightarrow> None
      | Some (m, b') \<Rightarrow>
          (let v = host_load64 h m
           in Some (if bb_byte_order b = ORDER_NETWORK then NetworkToHost64 h v else v, b')))"

section \<open>Writing\<close>

definition Resize :: "nat \<Rightarrow> byte_buffer \<Rightarrow> byte_buffer" where
  "Resize new_size b =
     (let len = std_min (bb_end b - bb_start b) new_size;
          data = mem_read (bb_bytes b) (bb_start b) len;
          b1 = (if new_size \<le> bb_size b
                then b\<lparr>bb_bytes := mem_write (bb_bytes b) 0 data\<rparr>
                else (let size' = std_max new_size (3 * bb_size b div 2)
                      in b\<lparr>bb_size := size', bb_bytes := mem_write (replicate size' 0) 0 data\<rparr>))
      in b1\<lparr>bb_start := 0, bb_end := len, bb_version := bb_version b1 + 1\<rparr>)"

text \<open>\<^verbatim>\<open>ReserveWriteBuffer\<close> returns a pointer to the reserved bytes: their position in the block.\<close>

definition ReserveWriteBuffer :: "nat \<Rightarrow> byte_buffer \<Rightarrow> nat \<times> byte_buffer" where
  "ReserveWriteBuffer len b =
     (let b1 = (if Length b + len > Capacity b then Resize (Length b + len) b else b)
      in (bb_end b1, b1\<lparr>bb_end := bb_end b1 + len\<rparr>))"

definition WriteBytes :: "byte list \<Rightarrow> byte_buffer \<Rightarrow> byte_buffer" where
  "WriteBytes val b =
     (let (start, b1) = ReserveWriteBuffer (length val) b
      in b1\<lparr>bb_bytes := mem_write (bb_bytes b1) start val\<rparr>)"

definition WriteString :: "byte list \<Rightarrow> byte_buffer \<Rightarrow> byte_buffer" where
  "WriteString val b = WriteBytes val b"

definition WriteUInt8 :: "u8 \<Rightarrow> byte_buffer \<Rightarrow> byte_buffer" where
  "WriteUInt8 val b = WriteBytes [val] b"

definition WriteUInt16 :: "bool \<Rightarrow> u16 \<Rightarrow> byte_buffer \<Rightarrow> byte_buffer" where
  "WriteUInt16 h val b =
     (let v = (if bb_byte_order b = ORDER_NETWORK then HostToNetwork16 h val else val)
      in WriteBytes (host_store16 h v) b)"

definition WriteUInt24 :: "bool \<Rightarrow> u32 \<Rightarrow> byte_buffer \<Rightarrow> byte_buffer" where
  "WriteUInt24 h val b =
     (let v = (if bb_byte_order b = ORDER_NETWORK then HostToNetwork32 h val else val);
          start = (if bb_byte_order b = ORDER_NETWORK \<or> IsHostBigEndian h then 1 else 0)
      in WriteBytes (mem_read (host_store32 h v) start 3) b)"

definition WriteUInt32 :: "bool \<Rightarrow> u32 \<Rightarrow> byte_buffer \<Rightarrow> byte_buffer" where
  "WriteUInt32 h val b =
     (let v = (if bb_byte_order b = ORDER_NETWORK then HostToNetwork32 h val else val)
      in WriteBytes (host_store32 h v) b)"

definition WriteUInt64 :: "bool \<Rightarrow> u64 \<Rightarrow> byte_buffer \<Rightarrow> byte_buffer" where
  "WriteUInt64 h val b =
     (let v = (if bb_byte_order b = ORDER_NETWORK then HostToNetwork64 h val else val)
      in WriteBytes (host_store64 h v) b)"

section \<open>Positions\<close>

definition Consume :: "nat \<Rightarrow> byte_buffer \<Rightarrow> byte_buffer option" where
  "Consume n b = (if n > Length b then None else Some (b\<lparr>bb_start := bb_start b + n\<rparr>))"

definition GetReadPosition :: "byte_buffer \<Rightarrow> ReadPosition" where
  "GetReadPosition b = \<lparr>pos_start = bb_start b, pos_version = bb_version b\<rparr>"

definition SetReadPosition :: "ReadPosition \<Rightarrow> byte_buffer \<Rightarrow> byte_buffer option" where
  "SetReadPosition position b =
     (if pos_version position \<noteq> bb_version b then None else Some (b\<lparr>bb_start := pos_start position\<rparr>))"

definition Clear :: "byte_buffer \<Rightarrow> byte_buffer" where
  "Clear b = b\<lparr>bb_bytes := replicate (bb_size b) 0, bb_start := 0, bb_end := 0, bb_version := bb_version b + 1\<rparr>"

section \<open>The invariant and the abstract value\<close>

definition buffer_ok :: "byte_buffer \<Rightarrow> bool" where
  "buffer_ok b \<longleftrightarrow> length (bb_bytes b) = bb_size b \<and> bb_start b \<le> bb_end b \<and> bb_end b \<le> bb_size b"

lemma buffer_ok_Construct [simp]: "buffer_ok (Construct None len ord)"
  "buffer_ok (Construct (Some src) (length src) ord)"
  by (auto simp: Construct_def buffer_ok_def Let_def mem_simps)

lemma buffer_new_ok [simp]: "buffer_ok ByteBuffer_new" "buffer_ok (ByteBuffer_order ord)"
  "buffer_ok (ByteBuffer_of bs)" "buffer_ok (ByteBuffer_of_order bs ord)"
  by (simp_all add: ByteBuffer_new_def ByteBuffer_order_def ByteBuffer_of_def ByteBuffer_of_order_def)

lemma Contents_new [simp]: "Contents ByteBuffer_new = []" "Contents (ByteBuffer_order ord) = []"
  "Contents (ByteBuffer_of bs) = bs" "Contents (ByteBuffer_of_order bs ord) = bs"
  by (simp_all add: ByteBuffer_new_def ByteBuffer_order_def ByteBuffer_of_def ByteBuffer_of_order_def
      Construct_def Contents_def Length_def mem_read_def mem_write_def)

lemma byte_order_new [simp]: "bb_byte_order ByteBuffer_new = ORDER_NETWORK"
  "bb_byte_order (ByteBuffer_order ord) = ord" "bb_byte_order (ByteBuffer_of bs) = ORDER_NETWORK"
  "bb_byte_order (ByteBuffer_of_order bs ord) = ord"
  by (simp_all add: ByteBuffer_new_def ByteBuffer_order_def ByteBuffer_of_def ByteBuffer_of_order_def
      Construct_def)

lemma length_Contents [simp]: "buffer_ok b \<Longrightarrow> length (Contents b) = Length b"
  by (simp add: Contents_def buffer_ok_def Length_def mem_simps)

lemma ReadBytes_spec:
  "buffer_ok b \<Longrightarrow> ReadBytes n b =
     (if n > length (Contents b) then None
      else Some (take n (Contents b), b\<lparr>bb_start := bb_start b + n\<rparr>))"
  by (auto simp: ReadBytes_def Contents_def mem_read_def min_def buffer_ok_def Length_def)

lemma advance_ok: "buffer_ok b \<Longrightarrow> n \<le> length (Contents b) \<Longrightarrow>
    buffer_ok (b\<lparr>bb_start := bb_start b + n\<rparr>) \<and> Contents (b\<lparr>bb_start := bb_start b + n\<rparr>) = drop n (Contents b)"
  by (auto simp: buffer_ok_def Contents_def Length_def mem_read_def drop_take add.commute)

lemma Resize_ok:
  assumes "buffer_ok b"
  shows "buffer_ok (Resize n b) \<and> Contents (Resize n b) = take n (Contents b) \<and>
    bb_start (Resize n b) = 0 \<and> bb_end (Resize n b) = min (Length b) n \<and> n \<le> bb_size (Resize n b) \<and> bb_byte_order (Resize n b) = bb_byte_order b"
  using assms
  by (auto simp: buffer_ok_def Contents_def Length_def Resize_def Let_def mem_read_def mem_write_def
      min_def max_def)

lemma WriteBytes_ok:
  assumes "buffer_ok b"
  shows "buffer_ok (WriteBytes val b)" "Contents (WriteBytes val b) = Contents b @ val"
    "bb_byte_order (WriteBytes val b) = bb_byte_order b"
proof -
  define b1 where "b1 = (if Length b + length val > Capacity b then Resize (Length b + length val) b else b)"
  have w: "WriteBytes val b = b1\<lparr>bb_end := bb_end b1 + length val,
      bb_bytes := mem_write (bb_bytes b1) (bb_end b1) val\<rparr>"
    by (simp add: WriteBytes_def ReserveWriteBuffer_def b1_def Let_def)
  have b1: "buffer_ok b1" "Contents b1 = Contents b" "bb_end b1 + length val \<le> bb_size b1"
    "bb_byte_order b1 = bb_byte_order b"
    using assms Resize_ok [OF assms, of "Length b + length val"]
    by (auto simp: b1_def buffer_ok_def Capacity_def Length_def Contents_def mem_read_def split: if_splits)
      arith
  then have len: "bb_end b1 + length val \<le> length (bb_bytes b1)" by (simp add: buffer_ok_def)
  show "buffer_ok (WriteBytes val b)"
    using b1 len by (simp add: w buffer_ok_def mem_simps)
  show "bb_byte_order (WriteBytes val b) = bb_byte_order b"
    by (simp add: w b1)
  have "Contents (WriteBytes val b) = Contents b1 @ val"
    using b1(1) len by (simp add: w Contents_def Length_def buffer_ok_def mem_read_def mem_write_def drop_take)
  then show "Contents (WriteBytes val b) = Contents b @ val" by (simp add: b1)
qed

section \<open>A byte channel\<close>

text \<open>
  What the message codecs rely on: bytes are appended at one end and taken from the other, a
  read of more than is there fails and changes nothing, and the contents do not depend on where
  the block holds them.
\<close>

locale byte_channel =
  fixes put :: "byte list \<Rightarrow> 'b \<Rightarrow> 'b"
    and get :: "nat \<Rightarrow> 'b \<Rightarrow> (byte list \<times> 'b) option"
    and contents :: "'b \<Rightarrow> byte list"
    and ok :: "'b \<Rightarrow> bool"
  assumes ok_put: "ok b \<Longrightarrow> ok (put v b)"
    and contents_put: "ok b \<Longrightarrow> contents (put v b) = contents b @ v"
    and get_None: "ok b \<Longrightarrow> get n b = None \<longleftrightarrow> length (contents b) < n"
    and get_Some: "ok b \<Longrightarrow> get n b = Some (v, b') \<Longrightarrow>
      ok b' \<and> v = take n (contents b) \<and> contents b' = drop n (contents b)"
begin

text \<open>A sequence of writes arrives as the concatenation of its parts.\<close>

lemma contents_puts: "ok b \<Longrightarrow>
    ok (fold put vs b) \<and> contents (fold put vs b) = contents b @ concat vs"
  by (induction vs arbitrary: b) (simp_all add: ok_put contents_put)

lemma get_exact:
  assumes "ok b" "contents b = v @ r"
  obtains b' where "get (length v) b = Some (v, b')" "ok b'" "contents b' = r"
proof -
  from assms get_None [of b "length v"] have "get (length v) b \<noteq> None" by simp
  then obtain w b' where g: "get (length v) b = Some (w, b')" by auto
  with get_Some [OF assms(1) g] assms(2) that show ?thesis by simp
qed

lemma put_get:
  assumes "ok b" "contents b = []"
  shows "\<exists>b'. get (length v) (put v b) = Some (v, b') \<and> ok b' \<and> contents b' = []"
  using get_exact [of "put v b" v "[]"] assms by (metis append_Nil append_Nil2 contents_put ok_put)

lemma get_shrinks: "ok b \<Longrightarrow> get n b = Some (v, b') \<Longrightarrow> length (contents b') + n = length (contents b)"
  using get_Some get_None by (metis length_drop le_add_diff_inverse2 not_less option.distinct(1))

end

interpretation bb: byte_channel WriteBytes ReadBytes Contents buffer_ok
proof unfold_locales
  show "buffer_ok b \<Longrightarrow> ReadBytes n b = None \<longleftrightarrow> length (Contents b) < n" for b n
    by (simp add: ReadBytes_spec)
  show "buffer_ok b \<Longrightarrow> ReadBytes n b = Some (v, b') \<Longrightarrow>
      buffer_ok b' \<and> v = take n (Contents b) \<and> Contents b' = drop n (Contents b)" for b n v b'
    using advance_ok [of b n] by (auto simp: ReadBytes_spec split: if_splits)
qed (simp_all add: WriteBytes_ok)

section \<open>Typed reads and writes on the contents\<close>

lemma ReadString_spec: "ReadString val n b = map_option (\<lambda>(v, b'). (val @ v, b')) (ReadBytes n b)"
  by (simp add: ReadString_def ReadBytes_def)

lemma ReadBytes_order: "ReadBytes n b = Some (v, b') \<Longrightarrow> bb_byte_order b' = bb_byte_order b"
  by (auto simp: ReadBytes_def split: if_splits)

lemma Consume_spec: "Consume n b = map_option snd (ReadBytes n b)"
  by (simp add: Consume_def ReadBytes_def)

abbreviation net :: "byte_buffer \<Rightarrow> bool" where
  "net b \<equiv> buffer_ok b \<and> bb_byte_order b = ORDER_NETWORK"

lemma write_net [simp]:
  assumes "net b"
  shows "WriteUInt16 h v16 b = WriteBytes (be16 v16) b"
    "WriteUInt32 h v32 b = WriteBytes (be32 v32) b"
    "WriteUInt64 h v64 b = WriteBytes (be64 v64) b"
  using assms by (simp_all add: WriteUInt16_def WriteUInt32_def WriteUInt64_def)

lemma write_net_24: "net b \<Longrightarrow> WriteUInt24 h v b = WriteBytes (tl (be32 v)) b"
  by (simp add: WriteUInt24_def mem_read_def be32_def)

text \<open>Reading from a network-order buffer, by the number of bytes left in it.\<close>

lemma read_net:
  assumes "net b"
  shows "ReadUInt16 h b = map_option (\<lambda>(m, b'). (GetBE16 m, b')) (ReadBytes 2 b)"
    "ReadUInt32 h b = map_option (\<lambda>(m, b'). (GetBE32 m, b')) (ReadBytes 4 b)"
    "ReadUInt64 h b = map_option (\<lambda>(m, b'). (GetBE64 m, b')) (ReadBytes 8 b)"
  using assms
  by (simp_all add: ReadUInt16_def ReadUInt32_def ReadUInt64_def ReadBytes_spec)

section \<open>Properties\<close>

text \<open>C34: the buffer is a byte channel. From a well-formed buffer every operation leaves a well-formed one;
  a write appends its bytes to the contents however the block has to grow, a read takes bytes from the front
  and fails exactly when there are too few, \<^verbatim>\<open>Resize\<close> keeps what fits and \<^verbatim>\<open>Clear\<close> empties.\<close>

theorem ByteBuffer_is_channel:
  assumes "buffer_ok b"
  shows "buffer_ok (WriteBytes v b) \<and> Contents (WriteBytes v b) = Contents b @ v \<and>
    (case ReadBytes n b of
       None \<Rightarrow> length (Contents b) < n \<and> Consume n b = None
     | Some (w, b') \<Rightarrow> w @ Contents b' = Contents b \<and> length w = n \<and> buffer_ok b' \<and> Consume n b = Some b') \<and>
    buffer_ok (Resize n b) \<and> Contents (Resize n b) = take n (Contents b) \<and> n \<le> Capacity (Resize n b) \<and>
    buffer_ok (Clear b) \<and> Contents (Clear b) = []"
proof -
  have "(case ReadBytes n b of
       None \<Rightarrow> length (Contents b) < n \<and> Consume n b = None
     | Some (w, b') \<Rightarrow> w @ Contents b' = Contents b \<and> length w = n \<and> buffer_ok b' \<and> Consume n b = Some b')"
    using assms advance_ok [OF assms, of n] by (simp add: Consume_spec ReadBytes_spec)
  moreover have "buffer_ok (Clear b) \<and> Contents (Clear b) = []"
    by (simp add: Clear_def buffer_ok_def Contents_def Length_def)
  ultimately show ?thesis
    using Resize_ok [OF assms, of n] by (simp add: WriteBytes_ok [OF assms] Capacity_def)
qed

theorem ByteBuffer_is_channel_witness:
  "\<exists>b. Contents b = [1, 2, 3] \<and> Contents (WriteBytes [4] b) = [1, 2, 3, 4] \<and> Contents (Resize 2 b) = [1, 2]"
  using ByteBuffer_is_channel [of "ByteBuffer_of [1, 2, 3]" "[4]" 2]
  by (intro exI [of _ "ByteBuffer_of [1, 2, 3]"]) simp

text \<open>What a typed read does to a buffer that holds exactly the bytes of one typed write.\<close>

lemma read_written:
  assumes "buffer_ok b" "Contents b = []" "length v = n"
  obtains b' where "ReadBytes n (WriteBytes v b) = Some (v, b')" "Contents b' = []"
  using bb.put_get [OF assms(1,2), of v] assms(3) by blast

lemma host_store_zero: "host_store32 h 0 = [0, 0, 0, 0]"
  by (simp add: host_store32_def SetBE_bytes SetLE_bytes be32_def)

lemma join_24: "push_bit 16 (take_bit 8 (drop_bit 16 v)) OR (push_bit 8 (take_bit 8 (drop_bit 8 v)) OR take_bit 8 v) =
    take_bit 24 (v :: u32)"
  by (simp add: byte_join)

lemma load_24_big: "GetBE32 (mem_write [0, 0, 0, 0] 1 (mem_read (be32 v) 1 3)) = take_bit 24 v"
  using join_24 [of v] by (simp add: mem_read_def mem_write_def be32_def byte_defs ucast_byte32)

lemma load_24_little: "GetLE32 (mem_write [0, 0, 0, 0] 0 (mem_read (rev (be32 v)) 0 3)) = take_bit 24 v"
  using join_24 [of v] by (simp add: mem_read_def mem_write_def be32_def byte_defs ucast_byte32 ac_simps)

lemma read_written_24:
  assumes "buffer_ok b" "Contents b = []"
  shows "map_option fst (ReadUInt24 h (WriteUInt24 h v b)) = Some (take_bit 24 v)"
proof -
  define m where "m = mem_read (host_store32 h (if bb_byte_order b = ORDER_NETWORK then HostToNetwork32 h v else v))
      (if bb_byte_order b = ORDER_NETWORK \<or> h then 1 else 0) 3"
  have "length m = 3" by (simp add: m_def length_mem_read host32.length_enc)
  from read_written [OF assms this] obtain b' where r: "ReadBytes 3 (WriteBytes m b) = Some (m, b')" by auto
  have ord: "bb_byte_order (WriteBytes m b) = bb_byte_order b" by (simp add: WriteBytes_ok [OF assms(1)])
  have len: "length (mem_write [0, 0, 0, 0] 1 m) = 4" using \<open>length m = 3\<close> by (simp add: length_mem_write)
  have "ReadUInt24 h (WriteUInt24 h v b) = Some (take_bit 24 v, b')"
  proof (cases "bb_byte_order b")
    case ORDER_NETWORK
    then show ?thesis using r ord len
      by (simp add: ReadUInt24_def WriteUInt24_def host_store_zero m_def load_24_big [simplified])
  next
    case ORDER_HOST
    then show ?thesis using r ord
      using load_24_big [of v] load_24_little [of v] host_store_zero [of h]
      by (cases h) (simp_all add: ReadUInt24_def WriteUInt24_def m_def host_load32_def host_store32_def
          SetBE_bytes SetLE_bytes)
  qed
  then show ?thesis by simp
qed

text \<open>A typed value written to an empty buffer is read back unchanged, on hosts of either byte order and
  for buffers of either byte order; of a 24-bit write the low 24 bits come back.\<close>

theorem typed_write_read:
  assumes "buffer_ok b" "Contents b = []"
  shows "map_option fst (ReadUInt8 (WriteUInt8 v8 b)) = Some v8 \<and>
    map_option fst (ReadUInt16 h (WriteUInt16 h v16 b)) = Some v16 \<and>
    map_option fst (ReadUInt24 h (WriteUInt24 h v32 b)) = Some (take_bit 24 v32) \<and>
    map_option fst (ReadUInt32 h (WriteUInt32 h v32 b)) = Some v32 \<and>
    map_option fst (ReadUInt64 h (WriteUInt64 h v64 b)) = Some v64"
proof -
  note w = WriteBytes_ok [OF assms(1)] and r = read_written [OF assms]
  have "map_option fst (ReadUInt8 (WriteUInt8 v8 b)) = Some v8"
    by (rule r [of "[v8]" 1]) (simp_all add: ReadUInt8_def WriteUInt8_def)
  moreover have "map_option fst (ReadUInt16 h (WriteUInt16 h v16 b)) = Some v16"
    by (rule r [OF host16.length_enc, of h "if bb_byte_order b = ORDER_NETWORK then HostToNetwork16 h v16 else v16"])
      (simp add: ReadUInt16_def WriteUInt16_def w host16.dec_enc host16.length_enc)
  moreover have "map_option fst (ReadUInt32 h (WriteUInt32 h v32 b)) = Some v32"
    by (rule r [OF host32.length_enc, of h "if bb_byte_order b = ORDER_NETWORK then HostToNetwork32 h v32 else v32"])
      (simp add: ReadUInt32_def WriteUInt32_def w host32.dec_enc host32.length_enc)
  moreover have "map_option fst (ReadUInt64 h (WriteUInt64 h v64 b)) = Some v64"
    by (rule r [OF host64.length_enc, of h "if bb_byte_order b = ORDER_NETWORK then HostToNetwork64 h v64 else v64"])
      (simp add: ReadUInt64_def WriteUInt64_def w host64.dec_enc host64.length_enc)
  ultimately show ?thesis using read_written_24 [OF assms] by simp
qed

theorem typed_write_read_witness:
  "map_option fst (ReadUInt24 False (WriteUInt24 False 0x01020304 ByteBuffer_new)) = Some (take_bit 24 0x01020304)"
  using typed_write_read [of ByteBuffer_new 0 False 0 "0x01020304" 0] by simp

text \<open>A saved read position brings back what was read since: after a read, restoring the position gives
  the buffer before the read, and after further writes it gives the old contents followed by the written bytes,
  unless a write had to move the block, in which case restoring fails.\<close>

theorem read_position_restores:
  assumes "buffer_ok b" "ReadBytes n b = Some (v, b1)"
  shows "SetReadPosition (GetReadPosition b) b1 = Some b \<and>
    (case SetReadPosition (GetReadPosition b) (WriteBytes w b1) of
       None \<Rightarrow> Length b1 + length w > Capacity b1
     | Some b2 \<Rightarrow> buffer_ok b2 \<and> Contents b2 = Contents b @ w)"
proof -
  have n: "n \<le> Length b" and b1: "b1 = b\<lparr>bb_start := bb_start b + n\<rparr>"
    using assms(2) by (auto simp: ReadBytes_def split: if_splits)
  have ok: "length (bb_bytes b) = bb_size b" "bb_start b \<le> bb_end b" "bb_end b \<le> bb_size b"
    using assms(1) by (auto simp: buffer_ok_def)
  have "case SetReadPosition (GetReadPosition b) (WriteBytes w b1) of
       None \<Rightarrow> Length b1 + length w > Capacity b1
     | Some b2 \<Rightarrow> buffer_ok b2 \<and> Contents b2 = Contents b @ w"
  proof (cases "Length b1 + length w > Capacity b1")
    case True
    then have "bb_version (WriteBytes w b1) = bb_version b + 1"
      by (simp add: WriteBytes_def ReserveWriteBuffer_def Resize_def Let_def b1)
    with True show ?thesis by (simp add: SetReadPosition_def GetReadPosition_def)
  next
    case False
    then have fits: "bb_end b + length w \<le> bb_size b"
      using n ok by (simp add: b1 Length_def Capacity_def)
    have "WriteBytes w b1 = b1\<lparr>bb_end := bb_end b + length w, bb_bytes := mem_write (bb_bytes b) (bb_end b) w\<rparr>"
      using False by (simp add: WriteBytes_def ReserveWriteBuffer_def Let_def b1)
    then have "SetReadPosition (GetReadPosition b) (WriteBytes w b1) =
        Some (b\<lparr>bb_end := bb_end b + length w, bb_bytes := mem_write (bb_bytes b) (bb_end b) w\<rparr>)"
      by (simp add: SetReadPosition_def GetReadPosition_def b1)
    then show ?thesis using ok fits
      by (simp add: buffer_ok_def Contents_def Length_def mem_read_def mem_write_def drop_take)
  qed
  then show ?thesis by (simp add: SetReadPosition_def GetReadPosition_def b1)
qed

theorem read_position_restores_witness:
  "SetReadPosition (GetReadPosition (ByteBuffer_of [1, 2])) ((ByteBuffer_of [1, 2])\<lparr>bb_start := 1\<rparr>) =
     Some (ByteBuffer_of [1, 2])"
proof -
  have "ReadBytes 1 (ByteBuffer_of [1, 2]) = Some ([1], (ByteBuffer_of [1, 2])\<lparr>bb_start := 1\<rparr>)"
    by (simp add: ReadBytes_def ByteBuffer_of_def Construct_def Length_def mem_read_def mem_write_def)
  from read_position_restores [OF buffer_new_ok(3) this] show ?thesis by blast
qed

end
