(* ===== verification/Fifo_Buffer.thy ===== *)
theory Fifo_Buffer
  imports Prelude
begin

text \<open>
  \<^verbatim>\<open>base/stream.h\<close> and \<^verbatim>\<open>base/stream.cc\<close>, class \<^verbatim>\<open>FifoBuffer\<close>: a ring buffer between a
  writer and a reader, with reads and writes at an offset beyond the current positions (what
  PseudoTcp uses for retransmission and for segments that arrive out of order). The record keeps
  the code's fields; \<open>fb_posted\<close> is the list of events given to \<^verbatim>\<open>PostEvent\<close>, newest first. The
  lock \<^verbatim>\<open>crit_\<close> makes each operation atomic and has no counterpart.
\<close>

datatype StreamState = SS_CLOSED | SS_OPENING | SS_OPEN
datatype StreamResult = SR_ERROR | SR_SUCCESS | SR_BLOCK | SR_EOS
datatype StreamEvent = SE_OPEN | SE_READ | SE_WRITE | SE_CLOSE

record fifo_buffer =
  fb_state :: StreamState
  fb_buffer :: "byte list"
  fb_buffer_length :: nat
  fb_data_length :: nat
  fb_read_position :: nat
  fb_posted :: "StreamEvent list"

definition FifoBuffer_new :: "nat \<Rightarrow> fifo_buffer" where
  "FifoBuffer_new n = \<lparr>fb_state = SS_OPEN, fb_buffer = replicate n 0, fb_buffer_length = n,
     fb_data_length = 0, fb_read_position = 0, fb_posted = []\<rparr>"

definition PostEvent :: "StreamEvent \<Rightarrow> fifo_buffer \<Rightarrow> fifo_buffer" where
  "PostEvent e f = f\<lparr>fb_posted := e # fb_posted f\<rparr>"

definition GetBuffered :: "fifo_buffer \<Rightarrow> nat" where
  "GetBuffered f = fb_data_length f"

definition GetWriteRemaining :: "fifo_buffer \<Rightarrow> nat" where
  "GetWriteRemaining f = fb_buffer_length f - fb_data_length f"

definition SetCapacity :: "nat \<Rightarrow> fifo_buffer \<Rightarrow> bool \<times> fifo_buffer" where
  "SetCapacity new_size f =
     (if fb_data_length f > new_size then (False, f)
      else if new_size \<noteq> fb_buffer_length f then
        (let copy = fb_data_length f;
             tail_copy = std_min copy (fb_buffer_length f - fb_read_position f);
             buffer = replicate new_size 0;
             buffer = mem_write buffer 0 (mem_read (fb_buffer f) (fb_read_position f) tail_copy);
             buffer = mem_write buffer tail_copy (mem_read (fb_buffer f) 0 (copy - tail_copy))
         in (True, f\<lparr>fb_buffer := buffer, fb_read_position := 0, fb_buffer_length := new_size\<rparr>))
      else (True, f))"

definition ReadOffsetLocked :: "nat \<Rightarrow> nat \<Rightarrow> fifo_buffer \<Rightarrow> StreamResult \<times> byte list" where
  "ReadOffsetLocked bytes offset f =
     (if offset \<ge> fb_data_length f
      then (if fb_state f \<noteq> SS_CLOSED then SR_BLOCK else SR_EOS, [])
      else
        (let available = fb_data_length f - offset;
             read_position = (fb_read_position f + offset) mod fb_buffer_length f;
             copy = std_min bytes available;
             tail_copy = std_min copy (fb_buffer_length f - read_position);
             p = mem_read (fb_buffer f) read_position tail_copy
                 @ mem_read (fb_buffer f) 0 (copy - tail_copy)
         in (SR_SUCCESS, p)))"

definition WriteOffsetLocked ::
    "byte list \<Rightarrow> nat \<Rightarrow> fifo_buffer \<Rightarrow> StreamResult \<times> nat \<times> fifo_buffer" where
  "WriteOffsetLocked p offset f =
     (if fb_state f = SS_CLOSED then (SR_EOS, 0, f)
      else if fb_data_length f + offset \<ge> fb_buffer_length f then (SR_BLOCK, 0, f)
      else
        (let available = fb_buffer_length f - fb_data_length f - offset;
             write_position =
               (fb_read_position f + fb_data_length f + offset) mod fb_buffer_length f;
             copy = std_min (length p) available;
             tail_copy = std_min copy (fb_buffer_length f - write_position);
             buffer = mem_write (fb_buffer f) write_position (take tail_copy p);
             buffer = mem_write buffer 0 (take (copy - tail_copy) (drop tail_copy p))
         in (SR_SUCCESS, copy, f\<lparr>fb_buffer := buffer\<rparr>)))"

definition ReadOffset :: "nat \<Rightarrow> nat \<Rightarrow> fifo_buffer \<Rightarrow> StreamResult \<times> byte list" where
  "ReadOffset bytes offset f = ReadOffsetLocked bytes offset f"

definition WriteOffset :: "byte list \<Rightarrow> nat \<Rightarrow> fifo_buffer \<Rightarrow> StreamResult \<times> nat \<times> fifo_buffer" where
  "WriteOffset p offset f = WriteOffsetLocked p offset f"

definition FifoBuffer_GetState :: "fifo_buffer \<Rightarrow> StreamState" where
  "FifoBuffer_GetState f = fb_state f"

definition FifoBuffer_Read :: "nat \<Rightarrow> fifo_buffer \<Rightarrow> StreamResult \<times> byte list \<times> fifo_buffer" where
  "FifoBuffer_Read bytes f =
     (let was_writable = fb_data_length f < fb_buffer_length f;
          (result, p) = ReadOffsetLocked bytes 0 f;
          copy = length p
      in if result = SR_SUCCESS then
           (let f = f\<lparr>fb_read_position := (fb_read_position f + copy) mod fb_buffer_length f,
                      fb_data_length := fb_data_length f - copy\<rparr>;
                f = (if \<not> was_writable \<and> copy > 0 then PostEvent SE_WRITE f else f)
            in (result, p, f))
         else (result, [], f))"

definition FifoBuffer_Write :: "byte list \<Rightarrow> fifo_buffer \<Rightarrow> StreamResult \<times> nat \<times> fifo_buffer" where
  "FifoBuffer_Write p f =
     (let was_readable = fb_data_length f > 0;
          (result, copy, f) = WriteOffsetLocked p 0 f
      in if result = SR_SUCCESS then
           (let f = f\<lparr>fb_data_length := fb_data_length f + copy\<rparr>;
                f = (if \<not> was_readable \<and> copy > 0 then PostEvent SE_READ f else f)
            in (result, copy, f))
         else (result, 0, f))"

definition FifoBuffer_Close :: "fifo_buffer \<Rightarrow> fifo_buffer" where
  "FifoBuffer_Close f = f\<lparr>fb_state := SS_CLOSED\<rparr>"

text \<open>\<^verbatim>\<open>GetReadData\<close> returns a pointer into the block and the number of bytes readable there
  without wrapping; \<^verbatim>\<open>GetWriteBuffer\<close> likewise for writing, and it may move the read position of an
  empty buffer.\<close>

definition GetReadData :: "fifo_buffer \<Rightarrow> nat \<times> nat" where
  "GetReadData f =
     (fb_read_position f,
      if fb_read_position f + fb_data_length f \<le> fb_buffer_length f then fb_data_length f
      else fb_buffer_length f - fb_read_position f)"

definition ConsumeReadData :: "nat \<Rightarrow> fifo_buffer \<Rightarrow> fifo_buffer option" where
  "ConsumeReadData n f =
     (if n > fb_data_length f \<or> fb_buffer_length f = 0 then None
      else
        (let was_writable = fb_data_length f < fb_buffer_length f;
             f = f\<lparr>fb_read_position := (fb_read_position f + n) mod fb_buffer_length f,
                   fb_data_length := fb_data_length f - n\<rparr>
         in Some (if \<not> was_writable \<and> n > 0 then PostEvent SE_WRITE f else f)))"

definition GetWriteBuffer :: "fifo_buffer \<Rightarrow> (nat \<times> nat) option \<times> fifo_buffer" where
  "GetWriteBuffer f =
     (if fb_state f = SS_CLOSED then (None, f)
      else
        (let f = (if fb_data_length f = 0 then f\<lparr>fb_read_position := 0\<rparr> else f);
             write_position = (fb_read_position f + fb_data_length f) mod fb_buffer_length f;
             n = (if write_position > fb_read_position f \<or> fb_data_length f = 0
                  then fb_buffer_length f - write_position
                  else fb_read_position f - write_position)
         in (Some (write_position, n), f)))"

definition ConsumeWriteBuffer :: "nat \<Rightarrow> fifo_buffer \<Rightarrow> fifo_buffer option" where
  "ConsumeWriteBuffer n f =
     (if n > fb_buffer_length f - fb_data_length f then None
      else
        (let was_readable = fb_data_length f > 0;
             f = f\<lparr>fb_data_length := fb_data_length f + n\<rparr>
         in Some (if \<not> was_readable \<and> n > 0 then PostEvent SE_READ f else f)))"

section \<open>The ring\<close>

definition fifo_ok :: "fifo_buffer \<Rightarrow> bool" where
  "fifo_ok f \<longleftrightarrow> 0 < fb_buffer_length f \<and> length (fb_buffer f) = fb_buffer_length f \<and>
     fb_data_length f \<le> fb_buffer_length f \<and> fb_read_position f < fb_buffer_length f"

text \<open>The byte \<open>i\<close> places after the read position, and the readable bytes in order: the
  abstract value of the buffer. Places from \<open>fb_data_length\<close> on are the free part, where bytes that
  arrived early are kept.\<close>

definition ring_at :: "fifo_buffer \<Rightarrow> nat \<Rightarrow> byte" where
  "ring_at f i = fb_buffer f ! ((fb_read_position f + i) mod fb_buffer_length f)"

definition fifo_contents :: "fifo_buffer \<Rightarrow> byte list" where
  "fifo_contents f = map (ring_at f) [0..<fb_data_length f]"

lemma length_fifo_contents [simp]: "length (fifo_contents f) = fb_data_length f"
  by (simp add: fifo_contents_def)

section \<open>Copying around the end of the block\<close>

lemma ring_mod [ring_simps]:
  "r < N \<Longrightarrow> i < N \<Longrightarrow> (r + i) mod N = (if r + i < N then r + i else r + i - N)" for N :: nat
  by (simp add: mod_if)

lemma ring_index_inj:
  "r < N \<Longrightarrow> i < N \<Longrightarrow> j < N \<Longrightarrow> (r + i) mod N = (r + j) mod N \<longleftrightarrow> i = j" for N :: nat
  by (auto simp: ring_mod split: if_splits)

text \<open>The two \<^verbatim>\<open>memcpy\<close> calls of a read deliver the ring's bytes in order; those of a write
  replace exactly the places they name.\<close>

lemma ring_read:
  assumes "length m = N" "r < N" "n \<le> N"
  shows "mem_read m r (min n (N - r)) @ mem_read m 0 (n - min n (N - r)) =
    map (\<lambda>i. m ! ((r + i) mod N)) [0..<n]"
proof (cases "n \<le> N - r")
  case True
  then show ?thesis
    using assms by (intro nth_equalityI) (auto simp: mem_read_def)
next
  case False
  then have "min n (N - r) = N - r" by simp
  moreover have "length (mem_read m r (N - r)) = N - r" "length (mem_read m 0 (n - (N - r))) = n - (N - r)"
    using assms False by (auto simp: mem_read_def)
  ultimately show ?thesis
    using assms False
    by (intro nth_equalityI) (auto simp: nth_append nth_mem_read ring_mod add.commute)
qed

definition ring_store :: "byte list \<Rightarrow> nat \<Rightarrow> nat \<Rightarrow> byte list \<Rightarrow> byte list" where
  "ring_store m N w p =
     (let t = min (length p) (N - w)
      in mem_write (mem_write m w (take t p)) 0 (drop t p))"

lemma length_ring_store:
  assumes "length m = N" "w < N" "length p \<le> N"
  shows "length (ring_store m N w p) = N"
  using assms by (simp add: ring_store_def Let_def length_mem_write min_def)

lemma nth_ring_store:
  assumes "length m = N" "w < N" "length p \<le> N" "i < N"
  shows "ring_store m N w p ! ((w + i) mod N) =
    (if i < length p then p ! i else m ! ((w + i) mod N))"
proof -
  define t where "t = min (length p) (N - w)"
  define k where "k = (w + i) mod N"
  have t: "w + t \<le> N" "t \<le> length p" "length (take t p) = t" using assms by (auto simp: t_def)
  have k: "k < N" using assms by (simp add: k_def)
  have len1: "length (mem_write m w (take t p)) = N" using assms t by (simp add: length_mem_write)
  have len2: "length (drop t p) \<le> N" using assms by simp
  have "ring_store m N w p ! k =
      (if k < length p - t then drop t p ! k
       else if w \<le> k \<and> k < w + t then take t p ! (k - w) else m ! k)"
    using assms t k len1 len2
    by (simp add: ring_store_def Let_def flip: t_def)
      (simp add: nth_mem_write len1)
  also have "\<dots> = (if i < length p then p ! i else m ! k)"
  proof (cases "w + i < N")
    case True
    then have "k = w + i" using assms by (simp add: k_def)
    then show ?thesis using True assms by (auto simp: t_def min_def split: if_splits)
  next
    case False
    then have "k = w + i - N" using assms by (simp add: k_def ring_mod)
    then show ?thesis using False assms by (auto simp: t_def min_def split: if_splits)
  qed
  finally show ?thesis by (simp add: k_def)
qed

section \<open>What the operations do to the ring\<close>

lemma ring_at_shift: "ring_at (f\<lparr>fb_read_position := (fb_read_position f + n) mod fb_buffer_length f\<rparr>) i
    = ring_at f (n + i)"
  by (simp add: ring_at_def mod_add_left_eq add.assoc)

lemma ring_at_update [simp]: "ring_at (f\<lparr>fb_data_length := d\<rparr>) = ring_at f"
  "ring_at (PostEvent e f) = ring_at f" "ring_at (f\<lparr>fb_state := s\<rparr>) = ring_at f"
  by (simp_all add: ring_at_def PostEvent_def fun_eq_iff)

lemma ring_slice:
  assumes "fifo_ok f" "k + n \<le> fb_buffer_length f"
  shows "mem_read (fb_buffer f) ((fb_read_position f + k) mod fb_buffer_length f)
        (min n (fb_buffer_length f - (fb_read_position f + k) mod fb_buffer_length f)) @
      mem_read (fb_buffer f) 0
        (n - min n (fb_buffer_length f - (fb_read_position f + k) mod fb_buffer_length f)) =
    map (ring_at f) [k..<k + n]"
proof -
  let ?N = "fb_buffer_length f"
  have "map (\<lambda>i. fb_buffer f ! (((fb_read_position f + k) mod ?N + i) mod ?N)) [0..<n] =
      map (ring_at f) [k..<k + n]"
    by (intro nth_equalityI) (simp_all add: ring_at_def mod_add_left_eq add.assoc)
  then show ?thesis
    using assms by (subst ring_read) (auto simp: fifo_ok_def)
qed

lemma ReadOffset_spec:
  assumes "fifo_ok f"
  shows "ReadOffsetLocked n k f =
    (if k \<ge> fb_data_length f then (if fb_state f \<noteq> SS_CLOSED then SR_BLOCK else SR_EOS, [])
     else (SR_SUCCESS, take n (drop k (fifo_contents f))))"
proof (cases "k \<ge> fb_data_length f")
  case False
  define c where "c = min n (fb_data_length f - k)"
  have "k + c \<le> fb_buffer_length f" using assms False by (auto simp: c_def fifo_ok_def)
  moreover have "map (ring_at f) [k..<k + c] = take n (drop k (fifo_contents f))"
    using False by (auto simp: fifo_contents_def drop_map take_map c_def min_def)
  ultimately show ?thesis
    using False ring_slice [OF assms, of k c]
    by (simp add: ReadOffsetLocked_def Let_def c_def)
qed (simp add: ReadOffsetLocked_def)

lemma WriteOffset_spec:
  assumes "fifo_ok f" "fb_state f \<noteq> SS_CLOSED" "fb_data_length f + k < fb_buffer_length f"
    "c = min (length p) (fb_buffer_length f - fb_data_length f - k)"
  shows "WriteOffsetLocked p k f = (SR_SUCCESS, c, f\<lparr>fb_buffer := ring_store (fb_buffer f)
      (fb_buffer_length f) ((fb_read_position f + (fb_data_length f + k)) mod fb_buffer_length f) (take c p)\<rparr>)"
proof -
  have "take (c - t) (drop t p) = drop t (take c p)" for t
    by (simp add: drop_take)
  moreover have "take (min c t) p = take (min c t) (take c p)" for t by simp
  moreover have "length (take c p) = c" using assms by simp
  ultimately show ?thesis
    using assms by (simp add: WriteOffsetLocked_def Let_def ring_store_def add.assoc)
qed

text \<open>A write at offset \<open>k\<close> stores its bytes \<open>k\<close> places after the readable ones and touches
  nothing else.\<close>

lemma ring_store_at:
  assumes "fifo_ok f" "d + length p \<le> fb_buffer_length f" "i < fb_buffer_length f"
  shows "ring_at (f\<lparr>fb_buffer := ring_store (fb_buffer f) (fb_buffer_length f)
        ((fb_read_position f + d) mod fb_buffer_length f) p\<rparr>) i =
    (if d \<le> i \<and> i < d + length p then p ! (i - d) else ring_at f i)"
proof -
  let ?N = "fb_buffer_length f" and ?r = "fb_read_position f"
  define j where "j = (if d \<le> i then i - d else i + ?N - d)"
  have N: "0 < ?N" "length (fb_buffer f) = ?N" using assms by (auto simp: fifo_ok_def)
  have dN: "d \<le> ?N" and j: "j < ?N" using assms by (auto simp: j_def)
  have idx: "((?r + d) mod ?N + j) mod ?N = (?r + i) mod ?N"
  proof (cases "d \<le> i")
    case True
    have "((?r + d) mod ?N + (i - d)) mod ?N = (?r + d + (i - d)) mod ?N"
      by (rule mod_add_left_eq)
    with True show ?thesis by (simp add: j_def)
  next
    case False
    have "((?r + d) mod ?N + j) mod ?N = (?r + d + (i + ?N - d)) mod ?N"
      using False by (simp add: j_def mod_add_left_eq)
    also have "?r + d + (i + ?N - d) = ?r + i + ?N" using dN by simp
    finally show ?thesis by simp
  qed
  have "ring_store (fb_buffer f) ?N ((?r + d) mod ?N) p ! (((?r + d) mod ?N + j) mod ?N) =
      (if j < length p then p ! j else fb_buffer f ! (((?r + d) mod ?N + j) mod ?N))"
    using N assms j by (intro nth_ring_store) auto
  moreover have "j < length p \<longleftrightarrow> d \<le> i \<and> i < d + length p"
    using assms by (auto simp: j_def)
  ultimately show ?thesis
    by (simp add: ring_at_def idx) (simp add: j_def)
qed

lemma fifo_ok_store:
  assumes "fifo_ok f" "length p \<le> fb_buffer_length f"
  shows "fifo_ok (f\<lparr>fb_buffer := ring_store (fb_buffer f) (fb_buffer_length f)
      ((fb_read_position f + d) mod fb_buffer_length f) p\<rparr>)"
  using assms by (auto simp: fifo_ok_def length_ring_store)

lemma fifo_ok_new [simp]: "0 < n \<Longrightarrow> fifo_ok (FifoBuffer_new n)"
  by (simp add: fifo_ok_def FifoBuffer_new_def)

lemma fifo_ok_update [simp]: "fifo_ok (PostEvent e f) = fifo_ok f" "fifo_ok (f\<lparr>fb_state := s\<rparr>) = fifo_ok f"
  by (simp_all add: fifo_ok_def PostEvent_def)

lemma PostEvent_fields [simp]: "fb_state (PostEvent e f) = fb_state f"
  "fb_buffer_length (PostEvent e f) = fb_buffer_length f" "fb_data_length (PostEvent e f) = fb_data_length f"
  "fb_read_position (PostEvent e f) = fb_read_position f" "fb_buffer (PostEvent e f) = fb_buffer f"
  by (simp_all add: PostEvent_def)

lemma WriteOffset_Some:
  assumes "fifo_ok f" "fb_state f \<noteq> SS_CLOSED" "fb_data_length f + k < fb_buffer_length f"
    "WriteOffset p k f = (r, c, f')"
  shows "r = SR_SUCCESS \<and> c = min (length p) (fb_buffer_length f - fb_data_length f - k) \<and>
    fifo_ok f' \<and> fb_state f' = fb_state f \<and> fb_data_length f' = fb_data_length f \<and>
    fb_buffer_length f' = fb_buffer_length f \<and>
    (\<forall>i < fb_buffer_length f. ring_at f' i =
       (if fb_data_length f + k \<le> i \<and> i < fb_data_length f + k + c
        then p ! (i - (fb_data_length f + k)) else ring_at f i))"
proof -
  define c0 where "c0 = min (length p) (fb_buffer_length f - fb_data_length f - k)"
  have fits: "fb_data_length f + k + length (take c0 p) \<le> fb_buffer_length f"
    "length (take c0 p) = c0" using assms(3) by (auto simp: c0_def)
  from WriteOffset_spec [OF assms(1-3) c0_def] assms(4)
  have r: "r = SR_SUCCESS" "c = c0" and f': "f' = f\<lparr>fb_buffer := ring_store (fb_buffer f)
      (fb_buffer_length f) ((fb_read_position f + (fb_data_length f + k)) mod fb_buffer_length f) (take c0 p)\<rparr>"
    by (auto simp: WriteOffset_def)
  have "c0 \<le> fb_buffer_length f" using fits by simp
  with fifo_ok_store [OF assms(1), of "take c0 p"] fits have "fifo_ok f'" by (simp add: f')
  moreover have "\<forall>i < fb_buffer_length f. ring_at f' i =
      (if fb_data_length f + k \<le> i \<and> i < fb_data_length f + k + c0
       then p ! (i - (fb_data_length f + k)) else ring_at f i)"
    using ring_store_at [OF assms(1) fits(1)] fits(2) by (auto simp: f')
  ultimately show ?thesis
    using c0_def by (simp add: r f')
qed

lemma ConsumeReadData_spec:
  assumes "fifo_ok f" "n \<le> fb_data_length f"
  obtains f' where "ConsumeReadData n f = Some f'" "fifo_ok f'" "fb_state f' = fb_state f"
    "fb_buffer_length f' = fb_buffer_length f" "fb_data_length f' = fb_data_length f - n"
    "\<And>i. ring_at f' i = ring_at f (n + i)"
proof -
  define g where "g = f\<lparr>fb_read_position := (fb_read_position f + n) mod fb_buffer_length f,
                   fb_data_length := fb_data_length f - n\<rparr>"
  define f' where "f' = (if \<not> fb_data_length f < fb_buffer_length f \<and> n > 0 then PostEvent SE_WRITE g else g)"
  have "ConsumeReadData n f = Some f'"
    using assms by (simp add: ConsumeReadData_def fifo_ok_def Let_def g_def f'_def)
  moreover have "fifo_ok g" using assms by (auto simp: fifo_ok_def g_def)
  moreover have "ring_at g i = ring_at f (n + i)" for i
    using ring_at_shift [of f n i] by (simp add: g_def ring_at_def)
  ultimately show ?thesis by (intro that [of f']) (simp_all add: f'_def, simp_all add: g_def)
qed

lemma ConsumeWriteBuffer_spec:
  assumes "fifo_ok f" "n \<le> fb_buffer_length f - fb_data_length f"
  obtains f' where "ConsumeWriteBuffer n f = Some f'" "fifo_ok f'" "fb_state f' = fb_state f"
    "fb_buffer_length f' = fb_buffer_length f" "fb_data_length f' = fb_data_length f + n"
    "ring_at f' = ring_at f"
proof -
  define g where "g = f\<lparr>fb_data_length := fb_data_length f + n\<rparr>"
  define f' where "f' = (if \<not> fb_data_length f > 0 \<and> n > 0 then PostEvent SE_READ g else g)"
  have "ConsumeWriteBuffer n f = Some f'"
    using assms by (simp add: ConsumeWriteBuffer_def Let_def g_def f'_def)
  moreover have "fifo_ok g" using assms by (auto simp: fifo_ok_def g_def)
  moreover have "ring_at g = ring_at f" by (simp add: g_def)
  ultimately show ?thesis by (intro that [of f']) (simp_all add: f'_def, simp_all add: g_def)
qed

section \<open>Writes ahead of the readable bytes, as an interface\<close>

text \<open>
  The contract PseudoTcp relies on. A buffer is a row of cells, of which the first \<open>count\<close> are
  readable and \<open>cap\<close> exist. Bytes can be stored ahead of the readable cells at an offset; growing
  the readable part then exposes whatever the cells hold, and dropping bytes shifts the row.
\<close>

locale offset_fifo =
  fixes cell :: "'f \<Rightarrow> nat \<Rightarrow> byte"
    and count :: "'f \<Rightarrow> nat"
    and cap :: "'f \<Rightarrow> nat"
    and ok :: "'f \<Rightarrow> bool"
    and read_offset :: "nat \<Rightarrow> nat \<Rightarrow> 'f \<Rightarrow> StreamResult \<times> byte list"
    and write_offset :: "byte list \<Rightarrow> nat \<Rightarrow> 'f \<Rightarrow> StreamResult \<times> nat \<times> 'f"
    and drop_read :: "nat \<Rightarrow> 'f \<Rightarrow> 'f option"
    and grow :: "nat \<Rightarrow> 'f \<Rightarrow> 'f option"
  assumes count_le_cap: "ok f \<Longrightarrow> count f \<le> cap f"
    and read_law: "ok f \<Longrightarrow> k < count f \<Longrightarrow>
      read_offset n k f = (SR_SUCCESS, map (cell f) [k..<k + min n (count f - k)])"
    and write_law: "ok f \<Longrightarrow> count f + k < cap f \<Longrightarrow> write_offset p k f = (r, c, f') \<Longrightarrow>
      r = SR_SUCCESS \<and> c = min (length p) (cap f - count f - k) \<and> ok f' \<and>
      count f' = count f \<and> cap f' = cap f \<and>
      (\<forall>i < cap f. cell f' i =
         (if count f + k \<le> i \<and> i < count f + k + c then p ! (i - (count f + k)) else cell f i))"
    and drop_law: "ok f \<Longrightarrow> n \<le> count f \<Longrightarrow>
      \<exists>f'. drop_read n f = Some f' \<and> ok f' \<and> cap f' = cap f \<and> count f' = count f - n \<and>
           (\<forall>i. cell f' i = cell f (n + i))"
    and grow_law: "ok f \<Longrightarrow> n \<le> cap f - count f \<Longrightarrow>
      \<exists>f'. grow n f = Some f' \<and> ok f' \<and> cap f' = cap f \<and> count f' = count f + n \<and>
           (\<forall>i. cell f' i = cell f i)"
begin

text \<open>A stored block that is exposed at once is appended.\<close>

lemma store_and_grow:
  assumes "ok f" "p \<noteq> []" "length p \<le> cap f - count f" "write_offset p 0 f = (r, c, f1)"
  obtains f' where "r = SR_SUCCESS" "c = length p" "grow (length p) f1 = Some f'" "ok f'"
    "cap f' = cap f" "count f' = count f + length p"
    "map (cell f') [0..<count f'] = map (cell f) [0..<count f] @ p"
    "\<And>i. count f' \<le> i \<Longrightarrow> i < cap f \<Longrightarrow> cell f' i = cell f i"
proof -
  have lt: "count f + 0 < cap f" using assms(2,3) by (cases p) auto
  note w = write_law [OF assms(1) lt assms(4)]
  then have c: "c = length p" using assms(3) by simp
  from w have "ok f1" "length p \<le> cap f1 - count f1" using assms(3) by auto
  from grow_law [OF this] obtain f' where f': "grow (length p) f1 = Some f'" "ok f'" "cap f' = cap f1"
    "count f' = count f1 + length p" "\<forall>i. cell f' i = cell f1 i" by blast
  have "map (cell f') [0..<count f + length p] = map (cell f) [0..<count f] @ p"
    using w c f' assms(3) lt by (intro nth_equalityI) (auto simp: nth_append)
  with that [of f'] f' w c show ?thesis by auto
qed

text \<open>Growing over cells that hold the bytes \<open>q\<close> appends \<open>q\<close>.\<close>

lemma grow_exposes:
  assumes "ok f" "length q \<le> cap f - count f"
    "\<And>i. i < length q \<Longrightarrow> cell f (count f + i) = q ! i"
  obtains f' where "grow (length q) f = Some f'" "ok f'" "cap f' = cap f"
    "count f' = count f + length q" "map (cell f') [0..<count f'] = map (cell f) [0..<count f] @ q"
    "\<And>i. cell f' i = cell f i"
proof -
  from grow_law [OF assms(1,2)] obtain f' where f': "grow (length q) f = Some f'" "ok f'"
    "cap f' = cap f" "count f' = count f + length q" "\<forall>i. cell f' i = cell f i" by blast
  have "cell f i = q ! (i - count f)" if "count f \<le> i" "i < count f + length q" for i
    using assms(3) [of "i - count f"] that by auto
  then have "map (cell f') [0..<count f + length q] = map (cell f) [0..<count f] @ q"
    using f' by (intro nth_equalityI) (auto simp: nth_append)
  with that [of f'] f' show ?thesis by auto
qed

end

definition open_fifo :: "fifo_buffer \<Rightarrow> bool" where
  "open_fifo f \<longleftrightarrow> fifo_ok f \<and> fb_state f = SS_OPEN"

interpretation fb: offset_fifo ring_at fb_data_length fb_buffer_length open_fifo
  ReadOffset WriteOffset ConsumeReadData ConsumeWriteBuffer
proof unfold_locales
  show "open_fifo f \<Longrightarrow> fb_data_length f \<le> fb_buffer_length f" for f
    by (simp add: open_fifo_def fifo_ok_def)
  show "open_fifo f \<Longrightarrow> k < fb_data_length f \<Longrightarrow>
      ReadOffset n k f = (SR_SUCCESS, map (ring_at f) [k..<k + min n (fb_data_length f - k)])" for f n k
    by (auto simp: open_fifo_def ReadOffset_def ReadOffset_spec fifo_contents_def drop_map take_map min_def)
  show "open_fifo f \<Longrightarrow> n \<le> fb_data_length f \<Longrightarrow>
      \<exists>f'. ConsumeReadData n f = Some f' \<and> open_fifo f' \<and> fb_buffer_length f' = fb_buffer_length f \<and>
        fb_data_length f' = fb_data_length f - n \<and> (\<forall>i. ring_at f' i = ring_at f (n + i))" for f n
    unfolding open_fifo_def by (elim conjE, rule ConsumeReadData_spec) auto
  show "open_fifo f \<Longrightarrow> n \<le> fb_buffer_length f - fb_data_length f \<Longrightarrow>
      \<exists>f'. ConsumeWriteBuffer n f = Some f' \<and> open_fifo f' \<and> fb_buffer_length f' = fb_buffer_length f \<and>
        fb_data_length f' = fb_data_length f + n \<and> (\<forall>i. ring_at f' i = ring_at f i)" for f n
    unfolding open_fifo_def by (elim conjE, rule ConsumeWriteBuffer_spec) auto
next
  fix f k p r c f'
  assume f: "open_fifo f" and k: "fb_data_length f + k < fb_buffer_length f"
    and w: "WriteOffset p k f = (r, c, f')"
  from f have "fifo_ok f" "fb_state f \<noteq> SS_CLOSED" by (simp_all add: open_fifo_def)
  note W = WriteOffset_Some [OF this k w]
  then have "open_fifo f'" using f by (simp add: open_fifo_def)
  with W show "r = SR_SUCCESS \<and> c = min (length p) (fb_buffer_length f - fb_data_length f - k) \<and>
      open_fifo f' \<and> fb_data_length f' = fb_data_length f \<and> fb_buffer_length f' = fb_buffer_length f \<and>
      (\<forall>i < fb_buffer_length f. ring_at f' i =
         (if fb_data_length f + k \<le> i \<and> i < fb_data_length f + k + c
          then p ! (i - (fb_data_length f + k)) else ring_at f i))"
    by (elim conjE) (intro conjI, assumption+)
qed

section \<open>Refinement of a bounded byte queue\<close>

text \<open>
  The specification: a queue of at most \<open>q_cap\<close> bytes. Reading takes from the front, writing
  appends what fits, resizing fails if the bytes would not fit.
\<close>

record queue_spec =
  q_bytes :: "byte list"
  q_cap :: nat
  q_closed :: bool

definition spec_read :: "nat \<Rightarrow> queue_spec \<Rightarrow> StreamResult \<times> byte list \<times> queue_spec" where
  "spec_read n q =
     (if q_bytes q = [] then (if q_closed q then SR_EOS else SR_BLOCK, [], q)
      else (SR_SUCCESS, take n (q_bytes q), q\<lparr>q_bytes := drop n (q_bytes q)\<rparr>))"

definition spec_write :: "byte list \<Rightarrow> queue_spec \<Rightarrow> StreamResult \<times> nat \<times> queue_spec" where
  "spec_write p q =
     (if q_closed q then (SR_EOS, 0, q)
      else if q_cap q \<le> length (q_bytes q) then (SR_BLOCK, 0, q)
      else (let c = min (length p) (q_cap q - length (q_bytes q))
            in (SR_SUCCESS, c, q\<lparr>q_bytes := q_bytes q @ take c p\<rparr>)))"

definition spec_resize :: "nat \<Rightarrow> queue_spec \<Rightarrow> bool \<times> queue_spec" where
  "spec_resize n q = (if n < length (q_bytes q) then (False, q) else (True, q\<lparr>q_cap := n\<rparr>))"

definition fifo_abs :: "fifo_buffer \<Rightarrow> queue_spec" where
  "fifo_abs f = \<lparr>q_bytes = fifo_contents f, q_cap = fb_buffer_length f, q_closed = (fb_state f = SS_CLOSED)\<rparr>"

lemma fifo_contents_Nil: "fifo_contents f = [] \<longleftrightarrow> fb_data_length f = 0"
  by (simp add: fifo_contents_def)

lemma fifo_contents_PostEvent [simp]: "fifo_contents (PostEvent e f) = fifo_contents f"
  by (simp add: fifo_contents_def)

lemma fifo_contents_drop:
  assumes "n \<le> fb_data_length f" "fb_data_length f' = fb_data_length f - n"
    "\<And>i. ring_at f' i = ring_at f (n + i)"
  shows "fifo_contents f' = drop n (fifo_contents f)"
  using assms by (intro nth_equalityI) (auto simp: fifo_contents_def)

lemma FifoBuffer_Read_refines:
  assumes "fifo_ok f" "FifoBuffer_Read n f = (r, p, f')"
  shows "fifo_ok f' \<and> spec_read n (fifo_abs f) = (r, p, fifo_abs f') \<and> fb_state f' = fb_state f \<and>
    fb_buffer_length f' = fb_buffer_length f \<and> length p \<le> fb_data_length f \<and>
    fb_data_length f' = fb_data_length f - length p \<and>
    (\<forall>i. ring_at f' i = ring_at f (length p + i))"
proof (cases "fb_data_length f = 0")
  case True
  then show ?thesis
    using assms by (auto simp: FifoBuffer_Read_def ReadOffset_spec spec_read_def fifo_abs_def fifo_contents_Nil)
next
  case False
  define c where "c = length (take n (fifo_contents f))"
  define g where "g = f\<lparr>fb_read_position := (fb_read_position f + c) mod fb_buffer_length f,
      fb_data_length := fb_data_length f - c\<rparr>"
  have c: "c \<le> fb_data_length f" "drop c (fifo_contents f) = drop n (fifo_contents f)"
    by (auto simp: c_def min_def)
  have rg: "ring_at g i = ring_at f (c + i)" for i
    using ring_at_shift [of f c i] by (simp add: g_def ring_at_def)
  have g: "fifo_ok g" using assms(1) c by (auto simp: g_def fifo_ok_def)
  have "fifo_contents g = drop c (fifo_contents f)"
    using c rg by (intro fifo_contents_drop) (simp_all add: g_def)
  moreover have "r = SR_SUCCESS" "p = take n (fifo_contents f)"
    "f' = (if \<not> fb_data_length f < fb_buffer_length f \<and> c > 0 then PostEvent SE_WRITE g else g)"
    using assms False by (auto simp: FifoBuffer_Read_def ReadOffset_spec Let_def g_def c_def fifo_contents_Nil)
  ultimately show ?thesis
    using g False c rg
    by (simp add: spec_read_def fifo_abs_def fifo_contents_Nil c_def) (auto simp: g_def c_def)
qed

lemma FifoBuffer_Write_refines:
  assumes "fifo_ok f" "FifoBuffer_Write p f = (r, c, f')"
  shows "fifo_ok f' \<and> spec_write p (fifo_abs f) = (r, c, fifo_abs f') \<and> fb_state f' = fb_state f \<and>
    fb_buffer_length f' = fb_buffer_length f \<and> fb_data_length f' = fb_data_length f + c"
proof (cases "fb_state f = SS_CLOSED \<or> fb_buffer_length f \<le> fb_data_length f")
  case True
  then show ?thesis
    using assms by (auto simp: FifoBuffer_Write_def WriteOffsetLocked_def spec_write_def fifo_abs_def)
next
  case False
  then have op: "fb_state f \<noteq> SS_CLOSED" and lt: "fb_data_length f + 0 < fb_buffer_length f" by auto
  obtain r1 c1 f1 where w: "WriteOffset p 0 f = (r1, c1, f1)" by (cases "WriteOffset p 0 f") auto
  note W = WriteOffset_Some [OF assms(1) op lt w]
  then have r1: "r1 = SR_SUCCESS" by blast
  define g where "g = f1\<lparr>fb_data_length := fb_data_length f1 + c1\<rparr>"
  have f': "r = SR_SUCCESS" "c = c1"
    "f' = (if \<not> fb_data_length f > 0 \<and> c1 > 0 then PostEvent SE_READ g else g)"
    using assms(2) w r1 by (auto simp: FifoBuffer_Write_def WriteOffset_def g_def Let_def)
  from W have c1: "c1 = min (length p) (fb_buffer_length f - fb_data_length f)"
    and f1: "fifo_ok f1" "fb_state f1 = fb_state f" "fb_data_length f1 = fb_data_length f"
      "fb_buffer_length f1 = fb_buffer_length f"
    and at: "\<And>i. i < fb_buffer_length f \<Longrightarrow> ring_at f1 i =
      (if fb_data_length f \<le> i \<and> i < fb_data_length f + c1 then p ! (i - fb_data_length f) else ring_at f i)"
    by (simp_all only: add_0_right diff_zero simp_thms)
  have "fb_data_length f + c1 \<le> fb_buffer_length f" using c1 lt by simp
  then have at': "ring_at f1 i = (if fb_data_length f \<le> i then p ! (i - fb_data_length f) else ring_at f i)"
    if "i < fb_data_length f + c1" for i
    using at [of i] that by simp
  have g: "fifo_ok g" "fb_state g = fb_state f" "fb_buffer_length g = fb_buffer_length f"
    "fb_data_length g = fb_data_length f + c1"
    using f1 lt c1 by (auto simp: g_def fifo_ok_def)
  have "fifo_contents g = fifo_contents f @ take c1 p"
  proof (rule nth_equalityI)
    show "length (fifo_contents g) = length (fifo_contents f @ take c1 p)" using g c1 by simp
    fix i assume "i < length (fifo_contents g)"
    then have "i < fb_data_length f + c1" using g by simp
    then show "fifo_contents g ! i = (fifo_contents f @ take c1 p) ! i"
      using at' [of i] g by (auto simp: fifo_contents_def nth_append g_def)
  qed
  then have "spec_write p (fifo_abs f) = (SR_SUCCESS, c1, fifo_abs g)"
    using g c1 op lt by (simp add: spec_write_def fifo_abs_def Let_def)
  moreover have "fifo_abs (PostEvent e g) = fifo_abs g" for e by (simp add: fifo_abs_def)
  ultimately show ?thesis using g f' by simp
qed

lemma SetCapacity_refines:
  assumes "fifo_ok f" "0 < n" "SetCapacity n f = (res, f')"
  shows "fifo_ok f' \<and> spec_resize n (fifo_abs f) = (res, fifo_abs f') \<and> fb_state f' = fb_state f \<and>
    fb_data_length f' = fb_data_length f"
proof (cases "n < fb_data_length f \<or> n = fb_buffer_length f")
  case True
  then show ?thesis
    using assms by (auto simp: SetCapacity_def spec_resize_def fifo_abs_def)
next
  case False
  let ?N = "fb_buffer_length f" and ?r = "fb_read_position f" and ?d = "fb_data_length f"
  define t where "t = min ?d (?N - ?r)"
  define a where "a = mem_read (fb_buffer f) ?r t"
  define b where "b = mem_read (fb_buffer f) 0 (?d - t)"
  have ok: "?r < ?N" "length (fb_buffer f) = ?N" "?d \<le> ?N" using assms(1) by (auto simp: fifo_ok_def)
  have la: "length a = t" and lb: "length b = ?d - t" and td: "t \<le> ?d"
    using ok by (auto simp: a_def b_def t_def mem_read_def)
  have ab: "a @ b = fifo_contents f"
    using ring_slice [OF assms(1), of 0 ?d] ok
    by (simp add: a_def b_def t_def fifo_contents_def)
  define m where "m = mem_write (mem_write (replicate n 0) 0 a) t b"
  have m: "m = (a @ b) @ replicate (n - ?d) 0"
    using la lb td False by (simp add: m_def mem_write_def)
  have f': "res" "f' = f\<lparr>fb_buffer := m, fb_read_position := 0, fb_buffer_length := n\<rparr>"
    using assms(3) False by (auto simp: SetCapacity_def Let_def m_def a_def b_def t_def)
  have "fifo_contents f' = a @ b"
    using False la lb td by (intro nth_equalityI) (auto simp: f' m fifo_contents_def ring_at_def nth_append)
  moreover have "fifo_ok f'" using False assms(2) la lb td by (simp add: f' m fifo_ok_def)
  ultimately show ?thesis
    using False ab f' by (auto simp: spec_resize_def fifo_abs_def)
qed

section \<open>Whole runs\<close>

text \<open>Any interleaving of reads, writes, resizes and a close, run on the ring and on the queue.\<close>

datatype fifo_op = OpRead nat | OpWrite "byte list" | OpResize nat | OpClose
datatype fifo_out = OutRead StreamResult "byte list" | OutWrite StreamResult nat | OutResize bool | OutClose

fun fifo_step :: "fifo_op \<Rightarrow> fifo_buffer \<Rightarrow> fifo_out \<times> fifo_buffer" where
  "fifo_step (OpRead n) f = (case FifoBuffer_Read n f of (r, p, f') \<Rightarrow> (OutRead r p, f'))"
| "fifo_step (OpWrite p) f = (case FifoBuffer_Write p f of (r, c, f') \<Rightarrow> (OutWrite r c, f'))"
| "fifo_step (OpResize n) f = (case SetCapacity n f of (res, f') \<Rightarrow> (OutResize res, f'))"
| "fifo_step OpClose f = (OutClose, FifoBuffer_Close f)"

fun spec_step :: "fifo_op \<Rightarrow> queue_spec \<Rightarrow> fifo_out \<times> queue_spec" where
  "spec_step (OpRead n) q = (case spec_read n q of (r, p, q') \<Rightarrow> (OutRead r p, q'))"
| "spec_step (OpWrite p) q = (case spec_write p q of (r, c, q') \<Rightarrow> (OutWrite r c, q'))"
| "spec_step (OpResize n) q = (case spec_resize n q of (res, q') \<Rightarrow> (OutResize res, q'))"
| "spec_step OpClose q = (OutClose, q\<lparr>q_closed := True\<rparr>)"

fun run_ops :: "('op \<Rightarrow> 's \<Rightarrow> 'out \<times> 's) \<Rightarrow> 'op list \<Rightarrow> 's \<Rightarrow> 'out list \<times> 's" where
  "run_ops step [] s = ([], s)"
| "run_ops step (x # xs) s =
     (let (y, s1) = step x s; (ys, s2) = run_ops step xs s1 in (y # ys, s2))"

fun op_ok :: "fifo_op \<Rightarrow> bool" where
  "op_ok (OpResize n) = (0 < n)"
| "op_ok _ = True"

lemma fifo_step_refines:
  assumes "fifo_ok f" "op_ok x" "fifo_step x f = (y, f')"
  shows "fifo_ok f' \<and> spec_step x (fifo_abs f) = (y, fifo_abs f')"
  using assms
  by (cases x)
    (auto simp: fifo_abs_def [of "FifoBuffer_Close _"] FifoBuffer_Close_def fifo_contents_def fifo_abs_def
      dest: FifoBuffer_Read_refines FifoBuffer_Write_refines SetCapacity_refines split: prod.splits)

lemma fifo_abs_new: "fifo_abs (FifoBuffer_new n) = \<lparr>q_bytes = [], q_cap = n, q_closed = False\<rparr>"
  by (simp add: fifo_abs_def FifoBuffer_new_def fifo_contents_def)

lemma run_ops_refines:
  assumes "fifo_ok f" "list_all op_ok xs" "run_ops fifo_step xs f = (ys, f')"
  shows "fifo_ok f' \<and> run_ops spec_step xs (fifo_abs f) = (ys, fifo_abs f')"
  using assms
proof (induction xs arbitrary: f ys f')
  case (Cons x xs)
  obtain y f1 where st: "fifo_step x f = (y, f1)" by (cases "fifo_step x f")
  obtain zs f2 where ru: "run_ops fifo_step xs f1 = (zs, f2)" by (cases "run_ops fifo_step xs f1")
  from fifo_step_refines [OF Cons.prems(1) _ st] Cons.prems(2)
  have f1: "fifo_ok f1" "spec_step x (fifo_abs f) = (y, fifo_abs f1)" by simp_all
  with Cons.IH [OF f1(1) _ ru] Cons.prems show ?case
    by (simp add: st ru)
qed simp

section \<open>Properties\<close>

text \<open>C15: FifoBuffer refines a bounded byte queue. Started with any positive capacity, every
  sequence of reads, writes, resizes (to positive sizes) and closes gives the same results on the
  ring buffer, with its wrap-around copying, as on a plain queue of bytes, and the ring's readable
  bytes are the queue's bytes at the end.\<close>

theorem FifoBuffer_refines_queue:
  assumes "0 < n" "list_all op_ok xs" "run_ops fifo_step xs (FifoBuffer_new n) = (ys, f)"
  shows "run_ops spec_step xs \<lparr>q_bytes = [], q_cap = n, q_closed = False\<rparr> = (ys, fifo_abs f) \<and>
    fifo_contents f = q_bytes (fifo_abs f) \<and> fifo_ok f"
  using run_ops_refines [OF _ assms(2,3)] assms(1) by (simp add: fifo_abs_new) (simp add: fifo_abs_def)

theorem FifoBuffer_refines_queue_witness:
  "\<exists>ys f. run_ops fifo_step [OpWrite [1, 2, 3], OpRead 2, OpWrite [4, 5, 6], OpRead 9] (FifoBuffer_new 4)
     = (ys, f) \<and>
   run_ops spec_step [OpWrite [1, 2, 3], OpRead 2, OpWrite [4, 5, 6], OpRead 9]
     \<lparr>q_bytes = [], q_cap = 4, q_closed = False\<rparr> = (ys, fifo_abs f) \<and>
   ys ! 3 = OutRead SR_SUCCESS [3, 4, 5, 6]"
proof -
  let ?xs = "[OpWrite [1, 2, 3], OpRead 2, OpWrite [4, 5, 6], OpRead 9]"
  obtain ys f where r: "run_ops fifo_step ?xs (FifoBuffer_new 4) = (ys, f)"
    by (cases "run_ops fifo_step ?xs (FifoBuffer_new 4)")
  have "run_ops spec_step ?xs \<lparr>q_bytes = [], q_cap = 4, q_closed = False\<rparr> = (ys, fifo_abs f)"
    using FifoBuffer_refines_queue [OF _ _ r] by simp
  moreover have "fst (run_ops spec_step ?xs \<lparr>q_bytes = [], q_cap = 4, q_closed = False\<rparr>) ! 3 =
      OutRead SR_SUCCESS [3, 4, 5, 6]"
    by (simp add: spec_write_def spec_read_def)
  ultimately show ?thesis using r by auto
qed

end
