(* ===== verification/Crc32.thy ===== *)
theory Crc32
  imports Prelude
begin

text \<open>
  \<^verbatim>\<open>base/crc32.h\<close> and \<^verbatim>\<open>base/crc32.cc\<close>: the checksum of the STUN FINGERPRINT attribute, computed
  with a table that the first call fills in. The static table is part of the state: all zeros
  before the first call. The lemmas show that it is filled once and to the same values, that the
  table-driven loop computes the bit-serial division by the reversed polynomial, and that a
  checksum can be continued over consecutive pieces.
\<close>

definition kCrc32Polynomial :: u32 where "kCrc32Polynomial = 0xEDB88320"

text \<open>One round of the inner loop of \<^verbatim>\<open>EnsureCrc32TableInited\<close>.\<close>

definition crc_bit :: "u32 \<Rightarrow> u32" where
  "crc_bit c = (if c AND 1 \<noteq> 0 then kCrc32Polynomial XOR drop_bit 1 c else drop_bit 1 c)"

definition EnsureCrc32TableInited :: "u32 list \<Rightarrow> u32 list" where
  "EnsureCrc32TableInited kCrc32Table =
     (if kCrc32Table ! (length kCrc32Table - 1) \<noteq> 0 then kCrc32Table
      else map (\<lambda>i. (crc_bit ^^ 8) (word_of_nat i)) [0..<length kCrc32Table])"

definition crc_step :: "u32 list \<Rightarrow> u32 \<Rightarrow> u8 \<Rightarrow> u32" where
  "crc_step kCrc32Table c u = kCrc32Table ! unat ((c XOR ucast u) AND 0xFF) XOR drop_bit 8 c"

definition UpdateCrc32 :: "u32 list \<Rightarrow> u32 \<Rightarrow> byte list \<Rightarrow> u32 \<times> u32 list" where
  "UpdateCrc32 kCrc32Table start buf =
     (let table = EnsureCrc32TableInited kCrc32Table;
          c = start XOR 0xFFFFFFFF;
          c = foldl (crc_step table) c buf
      in (c XOR 0xFFFFFFFF, table))"

definition crc_table_zero :: "u32 list" where "crc_table_zero = replicate 256 0"

definition ComputeCrc32 :: "byte list \<Rightarrow> u32" where
  "ComputeCrc32 buf = fst (UpdateCrc32 crc_table_zero 0 buf)"

section \<open>The table\<close>

definition crc_table :: "u32 list" where
  "crc_table = map (\<lambda>i. (crc_bit ^^ 8) (word_of_nat i)) [0..<256]"

lemma length_crc_table [simp]: "length crc_table = 256"
  by (simp add: crc_table_def)

lemma funpow8: "(f ^^ 8) x = f (f (f (f (f (f (f (f x)))))))"
  by (simp add: numeral_eq_Suc)

lemma crc_table_nth: "i < 256 \<Longrightarrow> crc_table ! i = (crc_bit ^^ 8) (word_of_nat i)"
  by (simp add: crc_table_def)

lemma crc_table_last: "crc_table ! 255 = 0x2D02EF8D"
  by (simp add: crc_table_nth funpow8 crc_bit_def kCrc32Polynomial_def)

lemma EnsureCrc32TableInited_eq:
  "t = crc_table_zero \<or> t = crc_table \<Longrightarrow> EnsureCrc32TableInited t = crc_table"
  using crc_table_last
  by (auto simp: EnsureCrc32TableInited_def crc_table_zero_def crc_table_def)

section \<open>The bit-serial division\<close>

lemma and_1_bit: "(c AND 1 \<noteq> 0) = bit c 0" for c :: u32
  by (simp add: and_one_eq bit_0 odd_iff_mod_2_eq_one flip: mod_2_eq_odd)

lemma crc_bit_xor: "crc_bit (a XOR b) = crc_bit a XOR crc_bit b"
  by (rule bit_word_eqI) (auto simp: crc_bit_def and_1_bit bit_simps)

lemma crc_bits_xor: "(crc_bit ^^ n) (a XOR b) = (crc_bit ^^ n) a XOR (crc_bit ^^ n) b"
  by (induction n arbitrary: a b) (simp_all add: crc_bit_xor)

lemma crc_bits_high: "(\<And>i. i < n \<Longrightarrow> \<not> bit c i) \<Longrightarrow> (crc_bit ^^ n) c = drop_bit n c"
proof (induction n)
  case (Suc n)
  then have "(crc_bit ^^ Suc n) c = crc_bit (drop_bit n c)" by simp
  also have "\<dots> = drop_bit (Suc n) c"
    using Suc.prems [of n] by (simp add: crc_bit_def and_1_bit bit_drop_bit_eq drop_bit_drop_bit flip: drop_bit_Suc)
  finally show ?case .
qed simp

definition crc_step_ref :: "u32 \<Rightarrow> u8 \<Rightarrow> u32" where
  "crc_step_ref c u = (crc_bit ^^ 8) (c XOR ucast u)"

text \<open>The table lookup and the shift do eight rounds at once: the low byte's contribution is
  looked up, the higher bits only move down.\<close>

lemma crc_step_table: "crc_step crc_table c u = crc_step_ref c u"
proof -
  let ?x = "c XOR ucast u"
  let ?hi = "?x AND NOT (mask 8)"
  have ff: "(0xFF :: u32) = mask 8" by (simp add: mask_eq_exp_minus_1)
  have lo: "unat (take_bit 8 ?x) < 256"
    using unsigned_take_bit_eq [of 8 ?x, where 'a = nat] by (simp add: take_bit_eq_mod)
  have split: "?x = take_bit 8 ?x XOR ?hi"
    by (rule bit_word_eqI) (auto simp: bit_simps)
  have hi: "(crc_bit ^^ 8) ?hi = drop_bit 8 ?hi"
    by (rule crc_bits_high) (simp add: bit_simps)
  have "drop_bit 8 ?hi = drop_bit 8 c"
    by (rule bit_word_eqI) (auto simp: bit_simps dest: bit_imp_le_length)
  with split hi have "crc_step_ref c u = (crc_bit ^^ 8) (take_bit 8 ?x) XOR drop_bit 8 c"
    unfolding crc_step_ref_def by (metis crc_bits_xor)
  with lo show ?thesis by (simp add: crc_step_def crc_table_nth ff take_bit_eq_mask)
qed

definition crc_ref :: "u32 \<Rightarrow> byte list \<Rightarrow> u32" where
  "crc_ref start buf = foldl crc_step_ref (start XOR 0xFFFFFFFF) buf XOR 0xFFFFFFFF"

lemma UpdateCrc32_ref:
  assumes "t = crc_table_zero \<or> t = crc_table"
  shows "UpdateCrc32 t start buf = (crc_ref start buf, crc_table)"
proof -
  have "foldl (crc_step crc_table) c buf = foldl crc_step_ref c buf" for c
    by (induction buf arbitrary: c) (simp_all add: crc_step_table)
  then show ?thesis
    using assms by (simp add: UpdateCrc32_def EnsureCrc32TableInited_eq crc_ref_def Let_def)
qed

section \<open>Injectivity\<close>

lemma crc_bit_zero: "crc_bit x = 0 \<Longrightarrow> x = 0"
proof -
  assume z: "crc_bit x = 0"
  have top: "bit (crc_bit x) 31 \<longleftrightarrow> bit x 0"
    by (auto simp: crc_bit_def and_1_bit bit_simps kCrc32Polynomial_def dest: bit_imp_le_length)
  with z have b0: "\<not> bit x 0" by simp
  with z have d: "drop_bit 1 x = 0" by (simp add: crc_bit_def and_1_bit)
  show "x = 0"
  proof (rule bit_word_eqI)
    fix n
    have "bit x n = bit (drop_bit 1 x) (n - 1)" if "n \<noteq> 0"
      using that by (simp add: bit_drop_bit_eq)
    with b0 d show "bit x n = bit 0 n" by (cases "n = 0") simp_all
  qed
qed

lemma xor_right_cancel: "(a XOR k = b XOR k) \<longleftrightarrow> a = b" for a b k :: "'a::len word"
  by (metis xor.assoc xor.right_neutral xor_self_eq)

lemma xor_left_cancel: "(k XOR a = k XOR b) \<longleftrightarrow> a = b" for a b k :: "'a::len word"
  by (simp add: xor.commute [of k] xor_right_cancel)

lemma inj_crc_bits: "(crc_bit ^^ n) a = (crc_bit ^^ n) b \<longleftrightarrow> a = b"
proof -
  have one: "crc_bit a = crc_bit b \<Longrightarrow> a = b" for a b
    using crc_bit_zero [of "a XOR b"] xor_right_cancel [of a b b] by (simp add: crc_bit_xor)
  show ?thesis by (induction n arbitrary: a b) (auto dest: one)
qed

lemma ucast_byte_inj: "(ucast (u :: u8) :: u32) = ucast v \<longleftrightarrow> u = v"
proof
  assume e: "(ucast u :: u32) = ucast v"
  show "u = v"
  proof (rule bit_word_eqI)
    fix n assume "n < LENGTH(8)"
    then have "bit u n = bit (ucast u :: u32) n" "bit v n = bit (ucast v :: u32) n"
      by (simp_all add: bit_ucast_iff)
    with e show "bit u n = bit v n" by simp
  qed
qed simp

lemma crc_fold_inj: "foldl crc_step_ref a buf = foldl crc_step_ref b buf \<longleftrightarrow> a = b"
  by (induction buf arbitrary: a b) (simp_all add: crc_step_ref_def inj_crc_bits xor_right_cancel)

text \<open>A change confined to one byte is always detected: two messages of the same length that differ in exactly one
  byte have different checksums.\<close>

lemma crc_detects_byte:
  assumes "x \<noteq> y"
  shows "ComputeCrc32 (pre @ x # post) \<noteq> ComputeCrc32 (pre @ y # post)"
  using assms
  by (simp add: ComputeCrc32_def UpdateCrc32_ref crc_ref_def xor_right_cancel crc_fold_inj
      crc_step_ref_def inj_crc_bits xor_left_cancel ucast_byte_inj)

section \<open>Properties\<close>

text \<open>C35: the table-driven CRC-32 equals the bit-serial one. Whether the static table is still
  zero or already filled, UpdateCrc32 returns the checksum of dividing bit by bit by the reversed
  polynomial, leaves the filled table behind, and continues: the checksum of a concatenation is
  the checksum of the second piece started from that of the first.\<close>

theorem UpdateCrc32_correct:
  assumes "t = crc_table_zero \<or> t = crc_table"
  shows "UpdateCrc32 t start buf = (crc_ref start buf, crc_table) \<and>
    fst (UpdateCrc32 crc_table (fst (UpdateCrc32 t start a)) b) = fst (UpdateCrc32 t start (a @ b))"
  using assms by (simp add: UpdateCrc32_ref crc_ref_def xor.assoc)

theorem UpdateCrc32_correct_witness:
  "UpdateCrc32 crc_table_zero 0 [49] = (crc_ref 0 [49], crc_table) \<and>
   fst (UpdateCrc32 crc_table (fst (UpdateCrc32 crc_table_zero 0 [49])) [50]) =
     fst (UpdateCrc32 crc_table_zero 0 [49, 50])"
  using UpdateCrc32_correct [OF disjI1 [OF refl], of 0 "[49]" "[49]" "[50]"]
  unfolding append.simps .

end
