(* ===== verification/Ip_Address.thy ===== *)
theory Ip_Address
  imports Byte_Order
begin

text \<open>
  \<^verbatim>\<open>base/ipaddress.h\<close> and \<^verbatim>\<open>base/ipaddress.cc\<close>: the version-agnostic IP address. The class is a family
  and a union of an \<^verbatim>\<open>in_addr\<close> and an \<^verbatim>\<open>in6_addr\<close>; the model keeps the union as its 16 bytes of memory, of
  which an IPv4 address uses the first four, so that code which looks at an IPv4 address through
  \<^verbatim>\<open>ipv6_address\<close> behaves as it does in C++. Functions that read the union as host integers take the
  byte order \<open>h\<close> of the host. Parsing and printing (\<^verbatim>\<open>inet_pton\<close>, \<^verbatim>\<open>inet_ntop\<close>) belong to the system's
  resolver library: they are parameters of the functions that call them.
\<close>

datatype addr_family = AF_UNSPEC | AF_INET | AF_INET6

record ip_address =
  ip_family :: addr_family
  ip_u :: "byte list"

type_synonym in_addr = "byte list"
type_synonym in6_addr = "byte list"

section \<open>Construction and access\<close>

definition IPAddress_unspec :: ip_address where
  "IPAddress_unspec = \<lparr>ip_family = AF_UNSPEC, ip_u = replicate 16 0\<rparr>"

definition IPAddress_v4 :: "in_addr \<Rightarrow> ip_address" where
  "IPAddress_v4 ip4 = \<lparr>ip_family = AF_INET, ip_u = mem_write (replicate 16 0) 0 ip4\<rparr>"

definition IPAddress_v6 :: "in6_addr \<Rightarrow> ip_address" where
  "IPAddress_v6 ip6 = \<lparr>ip_family = AF_INET6, ip_u = ip6\<rparr>"

definition IPAddress_u32 :: "bool \<Rightarrow> u32 \<Rightarrow> ip_address" where
  "IPAddress_u32 h ip_in_host_byte_order =
     \<lparr>ip_family = AF_INET,
      ip_u = mem_write (replicate 16 0) 0 (host_store32 h (HostToNetwork32 h ip_in_host_byte_order))\<rparr>"

definition ipv4_address :: "ip_address \<Rightarrow> in_addr" where
  "ipv4_address ip = mem_read (ip_u ip) 0 4"

definition ipv6_address :: "ip_address \<Rightarrow> in6_addr" where
  "ipv6_address ip = ip_u ip"

text \<open>\<^verbatim>\<open>s_addr\<close>, and the view of an \<^verbatim>\<open>in6_addr\<close> as four 32-bit integers.\<close>

definition s_addr :: "bool \<Rightarrow> in_addr \<Rightarrow> u32" where
  "s_addr h a = host_load32 h a"

definition v6_as_ints :: "bool \<Rightarrow> in6_addr \<Rightarrow> nat \<Rightarrow> u32" where
  "v6_as_ints h a i = host_load32 h (mem_read a (4 * i) 4)"

definition set_v6_int :: "bool \<Rightarrow> in6_addr \<Rightarrow> nat \<Rightarrow> u32 \<Rightarrow> in6_addr" where
  "set_v6_int h a i v = mem_write a (4 * i) (host_store32 h v)"

definition v4AddressAsHostOrderInteger :: "bool \<Rightarrow> ip_address \<Rightarrow> u32" where
  "v4AddressAsHostOrderInteger h ip =
     (if ip_family ip = AF_INET then NetworkToHost32 h (s_addr h (ipv4_address ip)) else 0)"

definition IPAddress_Size :: "ip_address \<Rightarrow> nat" where
  "IPAddress_Size ip = (case ip_family ip of AF_INET \<Rightarrow> 4 | AF_INET6 \<Rightarrow> 16 | AF_UNSPEC \<Rightarrow> 0)"

section \<open>Comparison\<close>

text \<open>The sign of \<^verbatim>\<open>memcmp\<close> on two blocks of the same length.\<close>

fun memcmp :: "byte list \<Rightarrow> byte list \<Rightarrow> int" where
  "memcmp (x # xs) (y # ys) = (if x < y then -1 else if y < x then 1 else memcmp xs ys)"
| "memcmp _ _ = 0"

definition IPAddress_eq :: "ip_address \<Rightarrow> ip_address \<Rightarrow> bool" where
  "IPAddress_eq a b =
     (if ip_family a \<noteq> ip_family b then False
      else if ip_family a = AF_INET then memcmp (ipv4_address a) (ipv4_address b) = 0
      else if ip_family a = AF_INET6 then memcmp (ipv6_address a) (ipv6_address b) = 0
      else ip_family a = AF_UNSPEC)"

definition IPAddress_less :: "bool \<Rightarrow> ip_address \<Rightarrow> ip_address \<Rightarrow> bool" where
  "IPAddress_less h a b =
     (if ip_family a \<noteq> ip_family b then
        (if ip_family a = AF_UNSPEC then True
         else if ip_family a = AF_INET \<and> ip_family b = AF_INET6 then True
         else False)
      else case ip_family a of
             AF_INET \<Rightarrow> NetworkToHost32 h (s_addr h (ipv4_address a)) < NetworkToHost32 h (s_addr h (ipv4_address b))
           | AF_INET6 \<Rightarrow> memcmp (ipv6_address a) (ipv6_address b) < 0
           | AF_UNSPEC \<Rightarrow> False)"

definition IPAddress_neq :: "ip_address \<Rightarrow> ip_address \<Rightarrow> bool" where
  "IPAddress_neq a b = (\<not> IPAddress_eq a b)"

definition IPAddress_greater :: "bool \<Rightarrow> ip_address \<Rightarrow> ip_address \<Rightarrow> bool" where
  "IPAddress_greater h a b = (IPAddress_neq a b \<and> \<not> IPAddress_less h a b)"

section \<open>Classification\<close>

definition kV4MappedPrefix :: in6_addr where
  "kV4MappedPrefix = [0, 0, 0, 0, 0, 0, 0, 0, 0, 0, 0xFF, 0xFF, 0, 0, 0, 0]"

definition k6To4Prefix :: in6_addr where "k6To4Prefix = [0x20, 0x02] @ replicate 14 0"

definition kTeredoPrefix :: in6_addr where "kTeredoPrefix = [0x20, 0x01, 0x00, 0x00] @ replicate 12 0"

definition kV4CompatibilityPrefix :: in6_addr where "kV4CompatibilityPrefix = replicate 16 0"

definition k6BonePrefix :: in6_addr where "k6BonePrefix = [0x3f, 0xfe] @ replicate 14 0"

definition INADDR_ANY :: u32 where "INADDR_ANY = 0"

definition INADDR_LOOPBACK :: u32 where "INADDR_LOOPBACK = 0x7F000001"

definition in6addr_any :: in6_addr where "in6addr_any = replicate 16 0"

definition in6addr_loopback :: in6_addr where "in6addr_loopback = replicate 15 0 @ [1]"

definition IsPrivateV4 :: "u32 \<Rightarrow> bool" where
  "IsPrivateV4 ip \<longleftrightarrow>
     drop_bit 24 ip = 127 \<or> drop_bit 24 ip = 10 \<or> drop_bit 20 ip = (push_bit 4 172 OR 1) \<or>
     drop_bit 16 ip = (push_bit 8 192 OR 168) \<or> drop_bit 16 ip = (push_bit 8 169 OR 254)"

definition ExtractMappedAddress :: "in6_addr \<Rightarrow> in_addr" where
  "ExtractMappedAddress in6 = mem_read in6 12 4"

definition IPIsHelper :: "ip_address \<Rightarrow> in6_addr \<Rightarrow> nat \<Rightarrow> bool" where
  "IPIsHelper ip tomatch len =
     (let addr = ipv6_address ip
      in memcmp (mem_read addr 0 (drop_bit 3 len)) (mem_read tomatch 0 (drop_bit 3 len)) = 0)"

definition IPIs6Bone :: "ip_address \<Rightarrow> bool" where "IPIs6Bone ip = IPIsHelper ip k6BonePrefix 16"

definition IPIs6To4 :: "ip_address \<Rightarrow> bool" where "IPIs6To4 ip = IPIsHelper ip k6To4Prefix 16"

definition IPIsSiteLocal :: "ip_address \<Rightarrow> bool" where
  "IPIsSiteLocal ip =
     (let addr = ipv6_address ip in addr ! 0 = 0xFE \<and> (addr ! 1 AND 0xC0) = 0xC0)"

definition IPIsULA :: "ip_address \<Rightarrow> bool" where
  "IPIsULA ip = (let addr = ipv6_address ip in (addr ! 0 AND 0xFE) = 0xFC)"

definition IPIsTeredo :: "ip_address \<Rightarrow> bool" where "IPIsTeredo ip = IPIsHelper ip kTeredoPrefix 32"

definition IPIsV4Compatibility :: "ip_address \<Rightarrow> bool" where
  "IPIsV4Compatibility ip = IPIsHelper ip kV4CompatibilityPrefix 96"

definition IPIsV4Mapped :: "ip_address \<Rightarrow> bool" where
  "IPIsV4Mapped ip = IPIsHelper ip kV4MappedPrefix 96"

definition IPIsAny :: "bool \<Rightarrow> ip_address \<Rightarrow> bool" where
  "IPIsAny h ip = (case ip_family ip of
       AF_INET \<Rightarrow> IPAddress_eq ip (IPAddress_u32 h INADDR_ANY)
     | AF_INET6 \<Rightarrow> IPAddress_eq ip (IPAddress_v6 in6addr_any)
     | AF_UNSPEC \<Rightarrow> False)"

definition IPIsLoopback :: "bool \<Rightarrow> ip_address \<Rightarrow> bool" where
  "IPIsLoopback h ip = (case ip_family ip of
       AF_INET \<Rightarrow> IPAddress_eq ip (IPAddress_u32 h INADDR_LOOPBACK)
     | AF_INET6 \<Rightarrow> IPAddress_eq ip (IPAddress_v6 in6addr_loopback)
     | AF_UNSPEC \<Rightarrow> False)"

definition IPIsPrivate :: "bool \<Rightarrow> ip_address \<Rightarrow> bool" where
  "IPIsPrivate h ip = (case ip_family ip of
       AF_INET \<Rightarrow> IsPrivateV4 (v4AddressAsHostOrderInteger h ip)
     | AF_INET6 \<Rightarrow> (let v6 = ipv6_address ip in (v6 ! 0 = 0xFE \<and> v6 ! 1 = 0x80) \<or> IPIsLoopback h ip)
     | AF_UNSPEC \<Rightarrow> False)"

definition IPIsUnspec :: "ip_address \<Rightarrow> bool" where "IPIsUnspec ip = (ip_family ip = AF_UNSPEC)"

definition HashIP :: "bool \<Rightarrow> ip_address \<Rightarrow> u64" where
  "HashIP h ip = (case ip_family ip of
       AF_INET \<Rightarrow> ucast (s_addr h (ipv4_address ip))
     | AF_INET6 \<Rightarrow> (let v6addr = ipv6_address ip
                    in ucast (v6_as_ints h v6addr 0 XOR v6_as_ints h v6addr 1 XOR v6_as_ints h v6addr 2 XOR
                         v6_as_ints h v6addr 3))
     | AF_UNSPEC \<Rightarrow> 0)"

definition IPAddressPrecedence :: "bool \<Rightarrow> ip_address \<Rightarrow> int" where
  "IPAddressPrecedence h ip =
     (if ip_family ip = AF_INET then 30
      else if ip_family ip = AF_INET6 then
        (if IPIsLoopback h ip then 60
         else if IPIsULA ip then 50
         else if IPIsV4Mapped ip then 30
         else if IPIs6To4 ip then 20
         else if IPIsTeredo ip then 10
         else if IPIsV4Compatibility ip \<or> IPIsSiteLocal ip \<or> IPIs6Bone ip then 1
         else 40)
      else 0)"

section \<open>Conversion\<close>

definition Normalized :: "ip_address \<Rightarrow> ip_address" where
  "Normalized ip =
     (if ip_family ip \<noteq> AF_INET6 then ip
      else if \<not> IPIsV4Mapped ip then ip
      else IPAddress_v4 (ExtractMappedAddress (ip_u ip)))"

definition AsIPv6Address :: "ip_address \<Rightarrow> ip_address" where
  "AsIPv6Address ip =
     (if ip_family ip \<noteq> AF_INET then ip
      else IPAddress_v6 (mem_write kV4MappedPrefix 12 (ipv4_address ip)))"

text \<open>The inner loop of \<^verbatim>\<open>TruncateIP\<close> over the four integers of an IPv6 address.\<close>

definition truncate_step :: "bool \<Rightarrow> int \<Rightarrow> u32 \<Rightarrow> in6_addr \<Rightarrow> nat \<Rightarrow> in6_addr" where
  "truncate_step h position inner_mask v6addr i =
     (if int i = position
      then let host_order_inner = NetworkToHost32 h (v6_as_ints h v6addr i)
           in set_v6_int h v6addr i (HostToNetwork32 h (host_order_inner AND inner_mask))
      else if int i > position then set_v6_int h v6addr i 0
      else v6addr)"

definition TruncateIP :: "bool \<Rightarrow> ip_address \<Rightarrow> int \<Rightarrow> ip_address" where
  "TruncateIP h ip len =
     (if len < 0 then IPAddress_unspec
      else if ip_family ip = AF_INET then
        (if len > 31 then ip
         else if len = 0 then IPAddress_u32 h INADDR_ANY
         else let mask = push_bit (nat (32 - len)) (0xFFFFFFFF :: u32);
                  host_order_ip = NetworkToHost32 h (s_addr h (ipv4_address ip))
              in IPAddress_v4 (host_store32 h (HostToNetwork32 h (host_order_ip AND mask))))
      else if ip_family ip = AF_INET6 then
        (if len > 127 then ip
         else if len = 0 then IPAddress_v6 in6addr_any
         else let position = len div 32;
                  inner_length = 32 - (len - position * 32);
                  inner_mask = ucast (push_bit (nat inner_length) (0xFFFFFFFF :: u64))
              in IPAddress_v6 (foldl (truncate_step h position inner_mask) (ipv6_address ip) [0..<4]))
      else IPAddress_unspec)"

text \<open>The search for the first integer of an IPv6 mask that is not all ones.\<close>

function first_partial :: "bool \<Rightarrow> in6_addr \<Rightarrow> nat \<Rightarrow> nat" where
  "first_partial h v6addr i =
     (if i < 4 then (if v6_as_ints h v6addr i \<noteq> 0xFFFFFFFF then i else first_partial h v6addr (i + 1)) else i)"
  by pat_completeness auto

termination
  by (relation "measure (\<lambda>(h, v6addr, i). 4 - i)") auto

declare first_partial.simps [simp del]

text \<open>The count of trailing zeros of a word that is not zero.\<close>

definition trailing_zeroes :: "u32 \<Rightarrow> u32" where
  "trailing_zeroes w =
     (let zeroes = 32;
          word_to_count = w AND (- w);
          zeroes = (if word_to_count \<noteq> 0 then zeroes - 1 else zeroes);
          zeroes = (if word_to_count AND 0x0000FFFF \<noteq> 0 then zeroes - 16 else zeroes);
          zeroes = (if word_to_count AND 0x00FF00FF \<noteq> 0 then zeroes - 8 else zeroes);
          zeroes = (if word_to_count AND 0x0F0F0F0F \<noteq> 0 then zeroes - 4 else zeroes);
          zeroes = (if word_to_count AND 0x33333333 \<noteq> 0 then zeroes - 2 else zeroes);
          zeroes = (if word_to_count AND 0x55555555 \<noteq> 0 then zeroes - 1 else zeroes)
      in zeroes)"

definition CountIPMaskBits :: "bool \<Rightarrow> ip_address \<Rightarrow> int" where
  "CountIPMaskBits h msk =
     (let finish = (\<lambda>word_to_count bits.
            if word_to_count = 0 then bits
            else sint (word_of_int bits + (32 - trailing_zeroes word_to_count) :: u32))
      in case ip_family msk of
           AF_INET \<Rightarrow> finish (NetworkToHost32 h (s_addr h (ipv4_address msk))) 0
         | AF_INET6 \<Rightarrow>
             (let v6addr = ipv6_address msk;
                  i = first_partial h v6addr 0
              in finish (if i < 4 then NetworkToHost32 h (v6_as_ints h v6addr i) else 0) (int i * 32))
         | AF_UNSPEC \<Rightarrow> 0)"

section \<open>Text\<close>

text \<open>\<open>ntop\<close> and \<open>pton\<close> stand for the system's \<^verbatim>\<open>inet_ntop\<close> and \<^verbatim>\<open>inet_pton\<close>: the text of an address, or no
  text; the bytes an address text denotes in a family, or nothing.\<close>

definition IPFromString :: "(addr_family \<Rightarrow> string \<Rightarrow> byte list option) \<Rightarrow> string \<Rightarrow> bool \<times> ip_address" where
  "IPFromString pton str =
     (case pton AF_INET str of
        Some addr \<Rightarrow> (True, IPAddress_v4 addr)
      | None \<Rightarrow> (case pton AF_INET6 str of
                  None \<Rightarrow> (False, IPAddress_unspec)
                | Some addr6 \<Rightarrow> (True, IPAddress_v6 addr6)))"

text \<open>An \<^verbatim>\<open>addrinfo\<close> as far as it is read: whether it and its \<^verbatim>\<open>ai_addr\<close> are there, the family of the
  socket address and the address bytes in it; families other than the two are \<open>AF_UNSPEC\<close> here.\<close>

definition IPFromAddrInfo :: "(addr_family \<times> byte list) option option \<Rightarrow> ip_address option" where
  "IPFromAddrInfo info =
     (case info of
        None \<Rightarrow> None
      | Some None \<Rightarrow> None
      | Some (Some (sa_family, addr)) \<Rightarrow>
          (if sa_family = AF_INET then Some (IPAddress_v4 addr)
           else if sa_family = AF_INET6 then Some (IPAddress_v6 addr)
           else None))"

definition IPAddress_ToString :: "(addr_family \<Rightarrow> byte list \<Rightarrow> string option) \<Rightarrow> ip_address \<Rightarrow> string" where
  "IPAddress_ToString ntop ip =
     (if ip_family ip \<noteq> AF_INET \<and> ip_family ip \<noteq> AF_INET6 then []
      else let src = (if ip_family ip = AF_INET6 then ipv6_address ip else ipv4_address ip)
           in case ntop (ip_family ip) src of None \<Rightarrow> [] | Some buf \<Rightarrow> buf)"

text \<open>\<^verbatim>\<open>std::string::rfind\<close>: the last position of a character.\<close>

definition rfind :: "string \<Rightarrow> char \<Rightarrow> nat option" where
  "rfind str c = List.find (\<lambda>i. str ! i = c) (rev [0..<length str])"

definition IPAddress_ToSensitiveString ::
    "bool \<Rightarrow> (addr_family \<Rightarrow> byte list \<Rightarrow> string option) \<Rightarrow> bool \<Rightarrow> ip_address \<Rightarrow> string" where
  "IPAddress_ToSensitiveString h ntop strip_sensitive ip =
     (if \<not> strip_sensitive then IPAddress_ToString ntop ip
      else case ip_family ip of
             AF_INET \<Rightarrow> (let address = IPAddress_ToString ntop ip
                         in case rfind address CHR ''.'' of
                              None \<Rightarrow> []
                            | Some find_pos \<Rightarrow> take find_pos address @ ''.x'')
           | AF_INET6 \<Rightarrow> IPAddress_ToString ntop (TruncateIP h ip (128 - 80))
           | AF_UNSPEC \<Rightarrow> [])"

section \<open>Well-formed addresses\<close>

text \<open>What the constructors build: sixteen bytes, zero beyond the address.\<close>

definition ip_ok :: "ip_address \<Rightarrow> bool" where
  "ip_ok ip \<longleftrightarrow> length (ip_u ip) = 16 \<and>
     (ip_family ip = AF_INET \<longrightarrow> drop 4 (ip_u ip) = replicate 12 0) \<and>
     (ip_family ip = AF_UNSPEC \<longrightarrow> ip_u ip = replicate 16 0)"

lemma ip_ok_new [simp]:
  "ip_ok IPAddress_unspec" "length a = 4 \<Longrightarrow> ip_ok (IPAddress_v4 a)" "length b = 16 \<Longrightarrow> ip_ok (IPAddress_v6 b)"
  "ip_ok (IPAddress_u32 h w)"
  by (simp_all add: ip_ok_def IPAddress_unspec_def IPAddress_v4_def IPAddress_v6_def IPAddress_u32_def mem_write_def
      drop_Cons numeral_eq_Suc)

lemma ip_family_new [simp]:
  "ip_family IPAddress_unspec = AF_UNSPEC" "ip_family (IPAddress_v4 a) = AF_INET"
  "ip_family (IPAddress_v6 b) = AF_INET6" "ip_family (IPAddress_u32 h w) = AF_INET"
  by (simp_all add: IPAddress_unspec_def IPAddress_v4_def IPAddress_v6_def IPAddress_u32_def)

lemma ip_bytes_new [simp]:
  "length a = 4 \<Longrightarrow> ipv4_address (IPAddress_v4 a) = a" "ipv6_address (IPAddress_v6 b) = b"
  "ipv4_address (IPAddress_u32 h w) = be32 w"
  by (simp_all add: IPAddress_v4_def IPAddress_v6_def IPAddress_u32_def ipv4_address_def ipv6_address_def mem_read_def
      mem_write_def)

lemma length_ipv4 [simp]: "ip_ok ip \<Longrightarrow> length (ipv4_address ip) = 4"
  by (simp add: ip_ok_def ipv4_address_def mem_read_def)

lemma length_ipv6 [simp]: "ip_ok ip \<Longrightarrow> length (ipv6_address ip) = 16"
  by (simp add: ip_ok_def ipv6_address_def)

text \<open>A well-formed address is its family and its address bytes.\<close>

lemma ip_cases:
  assumes "ip_ok ip"
  obtains "ip = IPAddress_unspec"
  | a where "ip = IPAddress_v4 a" "length a = 4"
  | b where "ip = IPAddress_v6 b" "length b = 16"
proof (cases "ip_family ip")
  case AF_UNSPEC
  then show thesis using assms that(1) by (cases ip) (simp add: ip_ok_def IPAddress_unspec_def)
next
  case AF_INET
  then have "ip_u ip = take 4 (ip_u ip) @ replicate 12 0"
    using assms append_take_drop_id [of 4 "ip_u ip"] by (simp add: ip_ok_def)
  then show thesis using AF_INET assms that(2) [of "take 4 (ip_u ip)"]
    by (cases ip) (simp add: ip_ok_def IPAddress_v4_def mem_write_def)
next
  case AF_INET6
  then show thesis using assms that(3) [of "ip_u ip"] by (cases ip) (simp add: ip_ok_def IPAddress_v6_def)
qed

section \<open>Order\<close>

text \<open>What a container keyed by a type relies on: a comparison that is a strict order up to an equality, the
  contract of \<^verbatim>\<open>std::map\<close>'s key comparison.\<close>

locale key_order =
  fixes lt :: "'a \<Rightarrow> 'a \<Rightarrow> bool"
    and eq :: "'a \<Rightarrow> 'a \<Rightarrow> bool"
    and ok :: "'a \<Rightarrow> bool"
  assumes lt_trans: "ok a \<Longrightarrow> ok b \<Longrightarrow> ok c \<Longrightarrow> lt a b \<Longrightarrow> lt b c \<Longrightarrow> lt a c"
    and eq_iff: "ok a \<Longrightarrow> ok b \<Longrightarrow> eq a b \<longleftrightarrow> \<not> lt a b \<and> \<not> lt b a"
    and eq_trans: "ok a \<Longrightarrow> ok b \<Longrightarrow> ok c \<Longrightarrow> eq a b \<Longrightarrow> eq b c \<Longrightarrow> eq a c"
    and lt_irrefl: "ok a \<Longrightarrow> \<not> lt a a"
begin

lemma eq_refl: "ok a \<Longrightarrow> eq a a"
  by (simp add: eq_iff lt_irrefl)

lemma eq_sym: "ok a \<Longrightarrow> ok b \<Longrightarrow> eq a b = eq b a"
  by (auto simp: eq_iff)

lemma lt_asym: "ok a \<Longrightarrow> ok b \<Longrightarrow> lt a b \<Longrightarrow> \<not> lt b a"
  using lt_trans lt_irrefl by blast

lemma lt_eq_trans: "ok a \<Longrightarrow> ok b \<Longrightarrow> ok c \<Longrightarrow> lt a b \<Longrightarrow> eq b c \<Longrightarrow> lt a c"
  using lt_trans eq_iff eq_trans eq_sym lt_asym by metis

lemma eq_lt_trans: "ok a \<Longrightarrow> ok b \<Longrightarrow> ok c \<Longrightarrow> eq a b \<Longrightarrow> lt b c \<Longrightarrow> lt a c"
  using lt_trans eq_iff eq_trans eq_sym lt_asym by metis

text \<open>Exactly one of the three relations holds.\<close>

lemma trichotomy: "ok a \<Longrightarrow> ok b \<Longrightarrow>
    (lt a b \<or> eq a b \<or> lt b a) \<and> \<not> (lt a b \<and> eq a b) \<and> \<not> (lt a b \<and> lt b a) \<and> \<not> (eq a b \<and> lt b a)"
  using eq_iff lt_asym by blast

end

lemma memcmp_zero: "length a = length b \<Longrightarrow> memcmp a b = 0 \<longleftrightarrow> a = b"
  by (induction a b rule: list_induct2) auto

lemma memcmp_swap: "length a = length b \<Longrightarrow> memcmp b a = - memcmp a b"
  by (induction a b rule: list_induct2) auto

lemma memcmp_neither: "length a = length b \<Longrightarrow> \<not> memcmp a b < 0 \<and> \<not> memcmp b a < 0 \<longleftrightarrow> a = b"
  using memcmp_swap [of a b] memcmp_zero [of a b] by auto

lemma memcmp_trans:
  "length a = length b \<Longrightarrow> length b = length c \<Longrightarrow> memcmp a b < 0 \<Longrightarrow> memcmp b c < 0 \<Longrightarrow> memcmp a c < 0"
  by (induction a b c rule: list_induct3) (auto split: if_splits)

lemma net_s_addr [simp]: "length a = 4 \<Longrightarrow> NetworkToHost32 h (s_addr h a) = GetBE32 a"
  by (simp add: s_addr_def)

lemma GetBE32_eq_iff: "length a = 4 \<Longrightarrow> length b = 4 \<Longrightarrow> GetBE32 a = GetBE32 b \<longleftrightarrow> a = b"
  by (metis big32.enc_dec)

lemma GetBE32_neither:
  "length a = 4 \<Longrightarrow> length b = 4 \<Longrightarrow> \<not> GetBE32 a < GetBE32 b \<and> \<not> GetBE32 b < GetBE32 a \<longleftrightarrow> a = b"
  using GetBE32_eq_iff [of a b] by auto

lemma IPAddress_less_new [simp]:
  "IPAddress_less h IPAddress_unspec ip \<longleftrightarrow> ip_family ip \<noteq> AF_UNSPEC"
  "\<not> IPAddress_less h ip IPAddress_unspec"
  "length a = 4 \<Longrightarrow> length b = 4 \<Longrightarrow> IPAddress_less h (IPAddress_v4 a) (IPAddress_v4 b) \<longleftrightarrow> GetBE32 a < GetBE32 b"
  "IPAddress_less h (IPAddress_v4 a) (IPAddress_v6 c)" "\<not> IPAddress_less h (IPAddress_v6 c) (IPAddress_v4 a)"
  "IPAddress_less h (IPAddress_v6 c) (IPAddress_v6 d) \<longleftrightarrow> memcmp c d < 0"
  by (auto simp: IPAddress_less_def split: addr_family.splits)

lemma IPAddress_new_eq_iff [simp]:
  "length a = 4 \<Longrightarrow> length b = 4 \<Longrightarrow> IPAddress_v4 a = IPAddress_v4 b \<longleftrightarrow> a = b"
  "IPAddress_v6 c = IPAddress_v6 d \<longleftrightarrow> c = d"
  "IPAddress_v4 a \<noteq> IPAddress_v6 c" "IPAddress_v6 c \<noteq> IPAddress_v4 a"
  "IPAddress_unspec \<noteq> IPAddress_v4 a" "IPAddress_v4 a \<noteq> IPAddress_unspec"
  "IPAddress_unspec \<noteq> IPAddress_v6 c" "IPAddress_v6 c \<noteq> IPAddress_unspec"
  by (simp_all add: IPAddress_v4_def IPAddress_v6_def IPAddress_unspec_def mem_write_def)

text \<open>\<^verbatim>\<open>operator==\<close> is equality of well-formed addresses.\<close>

lemma IPAddress_eq_iff: "ip_ok a \<Longrightarrow> ip_ok b \<Longrightarrow> IPAddress_eq a b \<longleftrightarrow> a = b"
  by (erule ip_cases; erule ip_cases) (simp_all add: IPAddress_eq_def memcmp_zero)

lemma IPAddress_less_trans:
  "ip_ok a \<Longrightarrow> ip_ok b \<Longrightarrow> ip_ok c \<Longrightarrow> IPAddress_less h a b \<Longrightarrow> IPAddress_less h b c \<Longrightarrow> IPAddress_less h a c"
  by (erule ip_cases; erule ip_cases; erule ip_cases) (auto elim: memcmp_trans [rotated 2])

lemma IPAddress_eq_less: "ip_ok a \<Longrightarrow> ip_ok b \<Longrightarrow> a = b \<longleftrightarrow> \<not> IPAddress_less h a b \<and> \<not> IPAddress_less h b a"
  by (erule ip_cases; erule ip_cases)
    (simp_all add: memcmp_neither GetBE32_neither)

interpretation ip: key_order "IPAddress_less h" IPAddress_eq ip_ok
proof unfold_locales
  show "ip_ok a \<Longrightarrow> \<not> IPAddress_less h a a" for a using IPAddress_eq_less [of a a] by blast
qed (auto simp: IPAddress_eq_iff IPAddress_eq_less intro: IPAddress_less_trans)

section \<open>Bits of an address\<close>

text \<open>The 32-bit groups of an address in network order, and its bits counted from the first one sent.\<close>

definition ip_word :: "byte list \<Rightarrow> nat \<Rightarrow> u32" where
  "ip_word u i = GetBE32 (mem_read u (4 * i) 4)"

definition ip_bit :: "ip_address \<Rightarrow> nat \<Rightarrow> bool" where
  "ip_bit ip i = bit (ip_word (ip_u ip) (i div 32)) (31 - i mod 32)"

lemma mem_read_write_other:
  "length a = 16 \<Longrightarrow> i < 4 \<Longrightarrow> j < 4 \<Longrightarrow> length src = 4 \<Longrightarrow>
     mem_read (mem_write a (4 * i) src) (4 * j) 4 = (if i = j then src else mem_read a (4 * j) 4)"
  by (rule nth_equalityI) (auto simp: mem_simps)

lemma ip_word_set [simp]:
  "length a = 16 \<Longrightarrow> i < 4 \<Longrightarrow> j < 4 \<Longrightarrow>
     ip_word (set_v6_int h a i v) j = (if i = j then NetworkToHost32 h v else ip_word a j)"
  by (simp add: ip_word_def set_v6_int_def mem_read_write_other host32.length_enc NetworkToHost32_def)

lemma length_set_v6_int [simp]: "length a = 16 \<Longrightarrow> i < 4 \<Longrightarrow> length (set_v6_int h a i v) = 16"
  by (simp add: set_v6_int_def length_mem_write host32.length_enc)

lemma net_v6_as_ints [simp]:
  "length a = 16 \<Longrightarrow> i < 4 \<Longrightarrow> NetworkToHost32 h (v6_as_ints h a i) = ip_word a i"
  by (simp add: v6_as_ints_def ip_word_def length_mem_read)

lemma NetworkToHost32_0 [simp]: "NetworkToHost32 h 0 = 0"
  by (simp add: NetworkToHost32_def host_store32_def SetBE_bytes SetLE_bytes be32_def byte_defs)

lemma truncate_step_word:
  assumes "length a = 16" "i < 4"
  shows "length (truncate_step h p m a i) = 16"
    "j < 4 \<Longrightarrow> ip_word (truncate_step h p m a i) j =
      (if i = j then if int i = p then ip_word a i AND m else if int i > p then 0 else ip_word a i else ip_word a j)"
  using assms by (simp_all add: truncate_step_def Let_def)

lemma truncate_words:
  assumes "length a = 16" "j < 4"
  shows "ip_word (foldl (truncate_step h p m) a [0..<4]) j =
      (if int j = p then ip_word a j AND m else if int j > p then 0 else ip_word a j)"
    "length (foldl (truncate_step h p m) a [0..<4]) = 16"
proof -
  have u: "[0..<4] = [0, 1, 2, 3 :: nat]" by (simp add: upt_rec)
  show "length (foldl (truncate_step h p m) a [0..<4]) = 16"
    using assms(1) by (simp add: u truncate_step_word(1))
  show "ip_word (foldl (truncate_step h p m) a [0..<4]) j =
      (if int j = p then ip_word a j AND m else if int j > p then 0 else ip_word a j)"
  proof -
    consider "j = 0" | "j = 1" | "j = 2" | "j = 3" using assms(2) by linarith
    then show ?thesis using assms by cases (simp_all add: u truncate_step_word)
  qed
qed

lemma all_ones: "(0xFFFFFFFF :: u32) = mask 32" "(0xFFFFFFFF :: u64) = mask 32"
  by (simp_all add: mask_eq_exp_minus_1)

lemma bit_inner_mask:
  "n < 32 \<Longrightarrow> bit (ucast (push_bit k (0xFFFFFFFF :: u64)) :: u32) n \<longleftrightarrow> k \<le> n"
  unfolding all_ones by (auto simp: bit_simps)

lemma bit_v4_mask: "n < 32 \<Longrightarrow> bit (push_bit k (0xFFFFFFFF :: u32)) n \<longleftrightarrow> k \<le> n"
  unfolding all_ones by (auto simp: bit_simps)

lemma ip_word_v4 [simp]: "length a = 4 \<Longrightarrow> ip_word (ip_u (IPAddress_v4 a)) 0 = GetBE32 a"
  by (simp add: ip_word_def IPAddress_v4_def mem_read_def mem_write_def)

lemma ip_word_u32 [simp]: "ip_word (ip_u (IPAddress_u32 h w)) 0 = w"
  by (simp add: ip_word_def IPAddress_u32_def mem_read_def mem_write_def)

lemma ip_bit_truncate_v4:
  assumes "length a = 4" "0 \<le> n" "i < 32"
  shows "ip_bit (TruncateIP h (IPAddress_v4 a) n) i \<longleftrightarrow> int i < n \<and> ip_bit (IPAddress_v4 a) i"
proof -
  consider "n > 31" | "n = 0" | "0 < n" "n \<le> 31" using assms(2) by linarith
  then show ?thesis
  proof cases
    case 1
    then show ?thesis using assms(3) by (simp add: TruncateIP_def)
  next
    case 2
    then show ?thesis using assms by (simp add: TruncateIP_def ip_bit_def INADDR_ANY_def)
  next
    case 3
    have "nat (32 - n) \<le> 31 - i \<longleftrightarrow> int i < n" using 3 assms(3) by linarith
    with 3 show ?thesis using assms bit_v4_mask [of "31 - i" "nat (32 - n)"]
      by (auto simp: TruncateIP_def ip_bit_def bit_and_iff Let_def)
  qed
qed

lemma ip_bit_truncate_v6:
  assumes "length a = 16" "0 \<le> n" "i < 128"
  shows "ip_bit (TruncateIP h (IPAddress_v6 a) n) i \<longleftrightarrow> int i < n \<and> ip_bit (IPAddress_v6 a) i"
proof -
  have j: "i div 32 < 4" using assms(3) by linarith
  consider "n > 127" | "n = 0" | "0 < n" "n \<le> 127" using assms(2) by linarith
  then show ?thesis
  proof cases
    case 1
    then show ?thesis using assms(3) by (simp add: TruncateIP_def)
  next
    case 2
    have "ip_word (replicate 16 0) (i div 32) = 0"
      using j by (simp add: ip_word_def mem_read_def byte_defs)
    with 2 show ?thesis by (simp add: TruncateIP_def ip_bit_def IPAddress_v6_def in6addr_any_def)
  next
    case 3
    let ?p = "n div 32" and ?k = "nat (32 - (n - n div 32 * 32))"
    have "ip_bit (TruncateIP h (IPAddress_v6 a) n) i \<longleftrightarrow>
        bit (if int (i div 32) = ?p then ip_word a (i div 32) AND ucast (push_bit ?k (0xFFFFFFFF :: u64))
             else if int (i div 32) > ?p then 0 else ip_word a (i div 32)) (31 - i mod 32)"
      using 3 assms(1) truncate_words(1) [OF assms(1) j, of h ?p]
      by (simp add: TruncateIP_def ip_bit_def IPAddress_v6_def ipv6_address_def Let_def)
    also have "\<dots> \<longleftrightarrow> int i < n \<and> bit (ip_word a (i div 32)) (31 - i mod 32)"
    proof -
      consider "int (i div 32) < ?p" | "int (i div 32) = ?p" | "int (i div 32) > ?p" by linarith
      then show ?thesis
      proof cases
        case 1
        then have "int i < n" by linarith
        with 1 show ?thesis by simp
      next
        case 2
        define q r s where "q = i div 32" and "r = i mod 32" and "s = n mod 32"
        have "i = 32 * q + r" "r < 32" "n = 32 * int q + s" "0 \<le> s" "s < 32"
          using 2 by (simp_all add: q_def r_def s_def)
        moreover have "n - n div 32 * 32 = s" by (simp add: s_def minus_div_mult_eq_mod)
        ultimately have "?k \<le> 31 - i mod 32 \<longleftrightarrow> int i < n" by (simp add: le_diff_conv2) linarith
        with 2 show ?thesis using bit_inner_mask [of "31 - i mod 32" ?k] by (auto simp: bit_and_iff)
      next
        case 3
        then have "\<not> int i < n" by linarith
        with 3 show ?thesis by simp
      qed
    qed
    finally show ?thesis by (simp add: ip_bit_def IPAddress_v6_def)
  qed
qed

section \<open>Masks\<close>

lemma lowest_bit_isolated:
  assumes "bit (w :: u32) t" "\<And>i. i < t \<Longrightarrow> \<not> bit w i"
  shows "w AND - w = push_bit t 1"
proof -
  define v where "v = drop_bit t w"
  have "bit w n \<Longrightarrow> t \<le> n" for n using assms(2) [of n] by linarith
  then have w: "w = push_bit t v"
    by (intro bit_word_eqI) (auto simp: v_def bit_simps)
  have "odd v" using assms(1) by (simp add: v_def bit_iff_odd_drop_bit)
  then have "NOT v + 1 = NOT v OR 1" by (simp add: or_one_eq)
  then have "- v = NOT v OR 1" by (simp add: minus_eq_not_plus_1)
  then have "v AND - v = 1" using \<open>odd v\<close> by (simp add: bit.conj_disj_distrib and_one_eq mod_2_eq_odd)
  moreover have "- w = push_bit t (- v)" by (simp add: w push_bit_minus)
  ultimately show ?thesis by (simp add: w flip: push_bit_and)
qed

lemma trailing_zeroes_spec:
  assumes "bit (w :: u32) t" "\<And>i. i < t \<Longrightarrow> \<not> bit w i"
  shows "trailing_zeroes w = word_of_nat t"
proof -
  have "t < 32" using assms(1) by (auto dest: bit_imp_le_length)
  then have "t \<in> set [0..<32]" by simp
  moreover have "\<forall>t \<in> set [0..<32]. \<forall>w. w AND - w = push_bit t 1 \<longrightarrow> trailing_zeroes w = word_of_nat t"
    by (simp add: upt_rec trailing_zeroes_def Let_def)
  ultimately show ?thesis using lowest_bit_isolated [OF assms] by blast
qed

text \<open>A word whose first \<open>k\<close> bits are set and the others clear, as the mask counter treats it.\<close>

lemma count_word:
  assumes "\<And>i. i < 32 \<Longrightarrow> bit (w :: u32) (31 - i) \<longleftrightarrow> i < k" "k \<le> 32" "0 \<le> b" "b \<le> 96"
  shows "(if w = 0 then b else sint (word_of_int b + (32 - trailing_zeroes w) :: u32)) = b + int k"
proof (cases "k = 0")
  case True
  have "w = 0"
  proof (rule bit_word_eqI)
    fix n assume "n < LENGTH(32)"
    then show "bit w n = bit 0 n" using assms(1) [of "31 - n"] True by simp
  qed
  with True show ?thesis by simp
next
  case False
  have b: "bit w (32 - k)" using assms(1) [of "k - 1"] assms(2) False by simp
  moreover have "\<not> bit w i" if "i < 32 - k" for i
    using assms(1) [of "31 - i"] that by simp
  ultimately have "trailing_zeroes w = word_of_nat (32 - k)" by (rule trailing_zeroes_spec)
  moreover have "(32 - word_of_nat (32 - k) :: u32) = word_of_int (int k)"
    using assms(2) by (simp add: of_nat_diff)
  moreover have "w \<noteq> 0" using b by auto
  moreover have "sint (word_of_int (b + int k) :: u32) = b + int k"
    using assms(2-4) by (simp add: signed_of_int signed_take_bit_int_eq_self del: of_int_add)
  ultimately show ?thesis by simp
qed

lemma ones_iff: "(w :: u32) = 0xFFFFFFFF \<longleftrightarrow> (\<forall>i<32. bit w (31 - i))"
proof
  assume all: "\<forall>i<32. bit w (31 - i)"
  show "w = 0xFFFFFFFF" unfolding all_ones
  proof (rule bit_word_eqI)
    fix n assume "n < LENGTH(32)"
    then show "bit w n = bit (mask 32 :: u32) n" using all [rule_format, of "31 - n"] by (simp add: bit_simps)
  qed
next
  show "\<forall>i<32. bit w (31 - i)" if "w = 0xFFFFFFFF"
    using that unfolding all_ones by (auto simp: bit_simps)
qed

lemma v6_int_ones: "length a = 16 \<Longrightarrow> i < 4 \<Longrightarrow> v6_as_ints h a i = 0xFFFFFFFF \<longleftrightarrow> ip_word a i = 0xFFFFFFFF"
proof -
  assume a: "length a = 16" "i < 4"
  have "NetworkToHost32 h 0xFFFFFFFF = 0xFFFFFFFF"
    by (simp add: NetworkToHost32_def host_store32_def SetBE_bytes SetLE_bytes be32_def byte_defs)
  then show ?thesis using net_v6_as_ints [OF a, of h] by (metis HostToNetwork_NetworkToHost(2))
qed

lemma first_partial_spec:
  assumes "length a = 16" "\<And>j. j < k \<Longrightarrow> ip_word a j = 0xFFFFFFFF" "k \<le> 4" "k < 4 \<Longrightarrow> ip_word a k \<noteq> 0xFFFFFFFF" "i \<le> k"
  shows "first_partial h a i = k"
  using assms(5)
proof (induction "k - i" arbitrary: i)
  case 0
  then show ?case using assms(3,4) v6_int_ones [OF assms(1), of k h] by (simp add: first_partial.simps)
next
  case (Suc n)
  then have "i < k" "first_partial h a (i + 1) = k" by auto
  then show ?case using assms(2,3) v6_int_ones [OF assms(1), of i h] by (subst first_partial.simps) simp
qed

lemma count_v4:
  assumes "length a = 4" "\<And>i. i < 32 \<Longrightarrow> ip_bit (IPAddress_v4 a) i \<longleftrightarrow> i < n" "n \<le> 32"
  shows "CountIPMaskBits h (IPAddress_v4 a) = int n"
  using assms count_word [of "GetBE32 a" n 0] by (simp add: CountIPMaskBits_def ip_bit_def)

lemma count_v6:
  assumes "length a = 16" "\<And>i. i < 128 \<Longrightarrow> ip_bit (IPAddress_v6 a) i \<longleftrightarrow> i < n" "n \<le> 128"
  shows "CountIPMaskBits h (IPAddress_v6 a) = int n"
proof -
  have word: "bit (ip_word a j) (31 - r) \<longleftrightarrow> 32 * j + r < n" if "j < 4" "r < 32" for j r
  proof -
    have "32 * j + r < 128" using that by linarith
    from assms(2) [OF this] that show ?thesis by (simp add: ip_bit_def IPAddress_v6_def)
  qed
  define k where "k = n div 32"
  have k: "k \<le> 4" using assms(3) by (simp add: k_def)
  have full: "ip_word a j = 0xFFFFFFFF" if "j < k" for j
  proof -
    have "32 * j + r < n" if "r < 32" for r using \<open>j < k\<close> that unfolding k_def by linarith
    then show ?thesis using word [of j] k that by (simp add: ones_iff)
  qed
  have part: "bit (ip_word a k) (31 - r) \<longleftrightarrow> r < n mod 32" if "k < 4" "r < 32" for r
  proof -
    have "n = 32 * k + n mod 32" by (simp add: k_def)
    with word [OF that] show ?thesis by linarith
  qed
  have "k < 4 \<Longrightarrow> ip_word a k \<noteq> 0xFFFFFFFF"
    using part [of 31] by (auto simp: ones_iff intro: exI [of _ 31])
  with first_partial_spec [OF assms(1) full k] have f: "first_partial h a 0 = k" by simp
  show ?thesis
  proof (cases "k < 4")
    case True
    have "int k * 32 + int (n mod 32) = int n" using div_mult_mod_eq [of n 32] unfolding k_def by linarith
    with True show ?thesis using count_word [of "ip_word a k" "n mod 32" "int k * 32"] part f assms(1)
      by (simp add: CountIPMaskBits_def)
  next
    case False
    then have "n = 128" using assms(3) k by (simp add: k_def)
    with False show ?thesis using f k by (simp add: CountIPMaskBits_def k_def)
  qed
qed

section \<open>Mapped addresses and private ranges\<close>

lemma mapped_iff: "length b = 16 \<Longrightarrow> IPIsV4Mapped (IPAddress_v6 b) \<longleftrightarrow> take 12 b = take 12 kV4MappedPrefix"
  by (simp add: IPIsV4Mapped_def IPIsHelper_def mem_read_def memcmp_zero kV4MappedPrefix_def drop_bit_eq_div)

lemma AsIPv6_mapped:
  "length a = 4 \<Longrightarrow> AsIPv6Address (IPAddress_v4 a) = IPAddress_v6 (take 12 kV4MappedPrefix @ a)"
  by (simp add: AsIPv6Address_def mem_write_def kV4MappedPrefix_def)

lemma Normalized_mapped:
  "length b = 16 \<Longrightarrow> take 12 b = take 12 kV4MappedPrefix \<Longrightarrow> Normalized (IPAddress_v6 b) = IPAddress_v4 (drop 12 b)"
  using mapped_iff [of b] by (simp add: Normalized_def ExtractMappedAddress_def mem_read_def) (simp add: IPAddress_v6_def)

lemma drop_bit_be32:
  "drop_bit 24 (GetBE32 [a, b, c, d]) = ucast a"
  "drop_bit 16 (GetBE32 [a, b, c, d]) = push_bit 8 (ucast a) OR ucast b"
  "drop_bit 20 (GetBE32 [a, b, c, d]) = push_bit 4 (ucast a) OR drop_bit 4 (ucast b)"
  by (rule bit_word_eqI; auto simp: byte_defs bit_simps dest: bit_imp_le_length)+

text \<open>The bytes and nibbles of such a group determine it.\<close>

lemma byte_pair:
  "(ucast (drop_bit 8 (push_bit 8 (ucast a) OR ucast b :: u32)) :: byte) = a"
  "(ucast (push_bit 8 (ucast a) OR ucast b :: u32) :: byte) = b" for a b :: byte
  by (rule bit_word_eqI; auto simp: bit_simps dest: bit_imp_le_length)+

lemma nibble_pair:
  "(ucast (drop_bit 4 (push_bit 4 (ucast a) OR drop_bit 4 (ucast b) :: u32)) :: byte) = a"
  "(ucast (take_bit 4 (push_bit 4 (ucast a) OR drop_bit 4 (ucast b) :: u32)) :: byte) = drop_bit 4 b" for a b :: byte
  by (rule bit_word_eqI; auto simp: bit_simps dest: bit_imp_le_length)+

lemma byte_back: "(ucast (ucast (a :: byte) :: u32) :: byte) = a"
  by (rule bit_word_eqI) (auto simp: bit_simps dest: bit_imp_le_length)

lemma byte_eq: "(ucast (a :: byte) :: u32) = ucast a' \<longleftrightarrow> a = a'"
  by (metis byte_back)

lemma byte_pair_eq:
  "(push_bit 8 (ucast a) OR ucast b :: u32) = push_bit 8 (ucast a') OR ucast b' \<longleftrightarrow> a = a' \<and> b = b'" for a b a' b' :: byte
  by (metis byte_pair)

lemma nibble_pair_eq:
  "(push_bit 4 (ucast a) OR drop_bit 4 (ucast b) :: u32) = push_bit 4 (ucast a') OR drop_bit 4 (ucast b') \<longleftrightarrow>
     a = a' \<and> drop_bit 4 b = drop_bit 4 b'" for a b a' b' :: byte
proof
  show "a = a' \<and> drop_bit 4 b = drop_bit 4 b'"
    if "(push_bit 4 (ucast a) OR drop_bit 4 (ucast b) :: u32) = push_bit 4 (ucast a') OR drop_bit 4 (ucast b')"
    using that by (metis nibble_pair)
next
  assume e: "a = a' \<and> drop_bit 4 b = drop_bit 4 b'"
  have "(drop_bit 4 (ucast b) :: u32) = ucast (drop_bit 4 b)" for b :: byte
    by (rule bit_word_eqI) (auto simp: bit_simps dest: bit_imp_le_length)
  with e show "(push_bit 4 (ucast a) OR drop_bit 4 (ucast b) :: u32) = push_bit 4 (ucast a') OR drop_bit 4 (ucast b')"
    by simp
qed

section \<open>Properties\<close>

text \<open>Truncating an address to \<open>n\<close> bits keeps exactly its first \<open>n\<close> bits and clears the rest, for both
  families, on hosts of either byte order, and for every \<open>n\<close> including the group boundaries; the family and
  well-formedness are kept.\<close>

theorem TruncateIP_bits:
  assumes "ip_ok ip" "0 \<le> n" "i < 8 * IPAddress_Size ip"
  shows "ip_bit (TruncateIP h ip n) i \<longleftrightarrow> int i < n \<and> ip_bit ip i"
  using assms(1)
proof (cases rule: ip_cases)
  case 1
  then show ?thesis using assms(3) by (simp add: IPAddress_Size_def)
next
  case (2 a)
  then show ?thesis using assms(2,3) by (simp add: IPAddress_Size_def ip_bit_truncate_v4)
next
  case (3 b)
  then show ?thesis using assms(2,3) by (simp add: IPAddress_Size_def ip_bit_truncate_v6)
qed

theorem TruncateIP_bits_witness:
  "ip_bit (TruncateIP False (IPAddress_u32 False 0xC0A80101) 8) 9 \<longleftrightarrow>
     int 9 < 8 \<and> ip_bit (IPAddress_u32 False 0xC0A80101) 9"
  by (rule TruncateIP_bits) (simp_all add: IPAddress_Size_def)

text \<open>The prefix length of a netmask: a mask whose first \<open>n\<close> bits are set and whose others are clear is
  counted as \<open>n\<close>, for IPv4 and IPv6.\<close>

theorem CountIPMaskBits_netmask:
  assumes "ip_ok m" "\<And>i. i < 8 * IPAddress_Size m \<Longrightarrow> ip_bit m i \<longleftrightarrow> i < n" "n \<le> 8 * IPAddress_Size m"
  shows "CountIPMaskBits h m = int n"
  using assms(1)
proof (cases rule: ip_cases)
  case 1
  then show ?thesis using assms(3) by (simp add: IPAddress_Size_def CountIPMaskBits_def)
next
  case (2 a)
  then show ?thesis using assms(2,3) by (simp add: IPAddress_Size_def count_v4)
next
  case (3 b)
  then show ?thesis using assms(2,3) by (simp add: IPAddress_Size_def count_v6)
qed

theorem CountIPMaskBits_netmask_witness: "CountIPMaskBits True (IPAddress_u32 True 0xFFFF0000) = int 16"
proof (rule CountIPMaskBits_netmask)
  fix i assume "i < 8 * IPAddress_Size (IPAddress_u32 True 0xFFFF0000)"
  then have "i < 32" by (simp add: IPAddress_Size_def)
  then have "bit (push_bit 16 (0xFFFFFFFF :: u32)) (31 - i) \<longleftrightarrow> i < 16"
    by (subst bit_v4_mask) auto
  moreover have "push_bit 16 (0xFFFFFFFF :: u32) = 0xFFFF0000" by simp
  ultimately show "ip_bit (IPAddress_u32 True 0xFFFF0000) i \<longleftrightarrow> i < 16"
    using \<open>i < 32\<close> by (simp only: ip_bit_def ip_word_u32 div_less mod_less)
qed (simp_all add: IPAddress_Size_def)

text \<open>A mask with a gap is counted up to its last set bit, although the header's comment promises that bits
  after the first zero are not counted: 255.0.255.0 gives 24, not 8.\<close>

theorem CountIPMaskBits_gap: "CountIPMaskBits h (IPAddress_u32 h 0xFF00FF00) = 24"
proof -
  have "trailing_zeroes 0xFF00FF00 = 8" by (simp add: trailing_zeroes_def)
  then show ?thesis by (simp add: CountIPMaskBits_def)
qed

text \<open>The address comparison is a strict total order on well-formed addresses, so that addresses can key
  ordered containers: \<^verbatim>\<open>operator==\<close> is equality, exactly one of less, equal and greater holds, and less is
  transitive.\<close>

theorem IPAddress_order:
  assumes "ip_ok a" "ip_ok b" "ip_ok c"
  shows "IPAddress_eq a b = (a = b) \<and>
    (IPAddress_less h a b \<or> a = b \<or> IPAddress_less h b a) \<and> \<not> (IPAddress_less h a b \<and> IPAddress_less h b a) \<and>
    \<not> IPAddress_less h a a \<and> IPAddress_greater h a b = IPAddress_less h b a \<and>
    (IPAddress_less h a b \<and> IPAddress_less h b c \<longrightarrow> IPAddress_less h a c)"
  using ip.trichotomy [OF assms(1,2), of h] ip.lt_irrefl [OF assms(1)] ip.lt_trans [OF assms]
    IPAddress_eq_iff [OF assms(1,2)]
  by (auto simp: IPAddress_greater_def IPAddress_neq_def)

theorem IPAddress_order_witness:
  "IPAddress_less False (IPAddress_u32 False 1) (IPAddress_u32 False 2) \<and>
   \<not> IPAddress_less False (IPAddress_u32 False 2) (IPAddress_u32 False 1)"
proof -
  have "IPAddress_less False (IPAddress_u32 False 1) (IPAddress_u32 False 2)" by (simp add: IPAddress_less_def)
  then show ?thesis
    using IPAddress_order [of "IPAddress_u32 False 1" "IPAddress_u32 False 2" "IPAddress_u32 False 3" False] by simp
qed

text \<open>Mapping an IPv4 address into IPv6 and normalising gives it back, and normalising then mapping gives back
  a mapped IPv6 address; other addresses are left alone by both.\<close>

theorem mapped_roundtrip:
  assumes "ip_ok ip"
  shows "(if ip_family ip = AF_INET then Normalized (AsIPv6Address ip) = ip \<and> IPIsV4Mapped (AsIPv6Address ip)
      else AsIPv6Address ip = ip) \<and>
    (if ip_family ip = AF_INET6 \<and> IPIsV4Mapped ip then AsIPv6Address (Normalized ip) = ip else Normalized ip = ip)"
  using assms
proof (cases rule: ip_cases)
  case 1
  then show ?thesis by (simp add: AsIPv6Address_def Normalized_def)
next
  case (2 a)
  have k: "length (take 12 kV4MappedPrefix) = 12" by (simp add: kV4MappedPrefix_def)
  with 2 show ?thesis
    by (simp add: AsIPv6_mapped Normalized_mapped mapped_iff) (simp add: Normalized_def)
next
  case (3 b)
  then show ?thesis
  proof (cases "IPIsV4Mapped ip")
    case True
    with 3 have t: "take 12 b = take 12 kV4MappedPrefix" by (simp add: mapped_iff)
    then have "take 12 kV4MappedPrefix @ drop 12 b = b" by (metis append_take_drop_id)
    moreover have "AsIPv6Address ip = ip" using 3 by (simp add: AsIPv6Address_def)
    ultimately show ?thesis using 3 t True by (simp add: Normalized_mapped AsIPv6_mapped)
  next
    case False
    with 3 show ?thesis by (simp add: Normalized_def AsIPv6Address_def)
  qed
qed

theorem mapped_roundtrip_witness: "Normalized (AsIPv6Address (IPAddress_v4 [192, 168, 0, 1])) = IPAddress_v4 [192, 168, 0, 1]"
  using mapped_roundtrip [of "IPAddress_v4 [192, 168, 0, 1]"] by simp

text \<open>The IPv4 addresses treated as private are exactly loopback 127/8, 10/8, 172.16/12, 192.168/16 and the
  link-local 169.254/16.\<close>

theorem private_v4_ranges:
  "IPIsPrivate h (IPAddress_v4 [a, b, c, d]) \<longleftrightarrow>
     a = 127 \<or> a = 10 \<or> a = 172 \<and> drop_bit 4 b = 1 \<or> a = 192 \<and> b = 168 \<or> a = 169 \<and> b = 254"
  using byte_eq [of a 127] byte_eq [of a 10] nibble_pair_eq [of a b 172 16] byte_pair_eq [of a b 192 168]
    byte_pair_eq [of a b 169 254]
  by (simp add: IPIsPrivate_def IsPrivateV4_def v4AddressAsHostOrderInteger_def drop_bit_be32)

end
