(* ===== verification/Socket_Address.thy ===== *)
theory Socket_Address
  imports Ip_Address "HOL-Library.List_Lexorder" "HOL-Library.Char_ord"
begin

text \<open>
  \<^verbatim>\<open>base/socketaddress.h\<close> and \<^verbatim>\<open>base/socketaddress.cc\<close>: a host (name, address or both) and a port. The
  model keeps the class's five fields. The system's \<^verbatim>\<open>inet_pton\<close> and \<^verbatim>\<open>inet_ntop\<close> are the parameters \<open>pton\<close> and
  \<open>ntop\<close>; \<^verbatim>\<open>strtoul\<close> and the decimal output of a port are modelled. The \<^verbatim>\<open>sockaddr\<close> structures keep the fields
  the code reads and writes, with the port as the host integer that holds it in network order.
\<close>

record socket_address =
  sa_hostname :: string
  sa_ip :: ip_address
  sa_port :: u16
  sa_scope_id :: int
  sa_literal :: bool

record sockaddr_in =
  sin_family :: addr_family
  sin_port :: u16
  sin_addr :: in_addr

record sockaddr_storage =
  ss_family :: addr_family
  ss_port :: u16
  ss_addr :: "byte list"
  ss_scope_id :: int

section \<open>Strings of the standard library\<close>

definition c_str :: "string \<Rightarrow> string" where
  "c_str s = takeWhile (\<lambda>c. c \<noteq> CHR 0x00) s"

text \<open>\<^verbatim>\<open>std::string::find\<close>: the first position of a character from a given one on.\<close>

definition find_from :: "string \<Rightarrow> char \<Rightarrow> nat \<Rightarrow> nat option" where
  "find_from str c pos = List.find (\<lambda>i. str ! i = c) [pos..<length str]"

definition digit_char :: "nat \<Rightarrow> char" where "digit_char d = char_of (48 + d)"

fun decimal :: "nat \<Rightarrow> string" where
  "decimal n = (if n < 10 then [digit_char n] else decimal (n div 10) @ [digit_char (n mod 10)])"

declare decimal.simps [simp del]

definition is_digit :: "char \<Rightarrow> bool" where "is_digit c \<longleftrightarrow> 48 \<le> (of_char c :: nat) \<and> (of_char c :: nat) \<le> 57"

definition is_space :: "char \<Rightarrow> bool" where
  "is_space c \<longleftrightarrow> of_char c \<in> {9, 10, 11, 12, 13, 32 :: nat}"

definition digits_value :: "string \<Rightarrow> nat" where
  "digits_value ds = foldl (\<lambda>v c. 10 * v + (of_char c - 48)) 0 ds"

text \<open>\<^verbatim>\<open>strtoul\<close> to base ten with a 64-bit \<^verbatim>\<open>unsigned long\<close>: leading space, an optional sign that negates modulo
  \<open>2 ^ 64\<close>, digits up to the first other character, and the largest value when they do not fit.\<close>

definition strtoul :: "string \<Rightarrow> nat" where
  "strtoul str =
     (let s = dropWhile is_space (c_str str);
          neg = (s \<noteq> [] \<and> hd s = CHR ''-'');
          t = (if s \<noteq> [] \<and> (hd s = CHR ''-'' \<or> hd s = CHR ''+'') then tl s else s);
          v = digits_value (takeWhile is_digit t)
      in if v \<ge> 2 ^ 64 then 2 ^ 64 - 1 else if neg then (2 ^ 64 - v) mod 2 ^ 64 else v)"

section \<open>Construction and setters\<close>

definition SocketAddress_Clear :: "socket_address \<Rightarrow> socket_address" where
  "SocketAddress_Clear a =
     a\<lparr>sa_hostname := [], sa_literal := False, sa_ip := IPAddress_unspec, sa_port := 0, sa_scope_id := 0\<rparr>"

definition SocketAddress_nil :: socket_address where
  "SocketAddress_nil =
     \<lparr>sa_hostname = [], sa_ip = IPAddress_unspec, sa_port = 0, sa_scope_id = 0, sa_literal = False\<rparr>"

definition SetIP_u32 :: "bool \<Rightarrow> u32 \<Rightarrow> socket_address \<Rightarrow> socket_address" where
  "SetIP_u32 h ip_as_host_order_integer a =
     a\<lparr>sa_hostname := [], sa_literal := False, sa_ip := IPAddress_u32 h ip_as_host_order_integer, sa_scope_id := 0\<rparr>"

definition SetIP :: "ip_address \<Rightarrow> socket_address \<Rightarrow> socket_address" where
  "SetIP ip a = a\<lparr>sa_hostname := [], sa_literal := False, sa_ip := ip, sa_scope_id := 0\<rparr>"

definition SetIP_host ::
    "(addr_family \<Rightarrow> string \<Rightarrow> byte list option) \<Rightarrow> string \<Rightarrow> socket_address \<Rightarrow> socket_address" where
  "SetIP_host pton hostname a =
     (let a1 = a\<lparr>sa_hostname := hostname\<rparr>;
          (literal, ip) = IPFromString (\<lambda>f s. pton f (c_str s)) hostname;
          a2 = a1\<lparr>sa_ip := ip, sa_literal := literal\<rparr>;
          a3 = (if \<not> literal then a2\<lparr>sa_ip := IPAddress_unspec\<rparr> else a2)
      in a3\<lparr>sa_scope_id := 0\<rparr>)"

definition SetResolvedIP_u32 :: "bool \<Rightarrow> u32 \<Rightarrow> socket_address \<Rightarrow> socket_address" where
  "SetResolvedIP_u32 h ip_as_host_order_integer a =
     a\<lparr>sa_ip := IPAddress_u32 h ip_as_host_order_integer, sa_scope_id := 0\<rparr>"

definition SetResolvedIP :: "ip_address \<Rightarrow> socket_address \<Rightarrow> socket_address" where
  "SetResolvedIP ip a = a\<lparr>sa_ip := ip, sa_scope_id := 0\<rparr>"

definition SetPort :: "int \<Rightarrow> socket_address \<Rightarrow> socket_address" where
  "SetPort port a = a\<lparr>sa_port := word_of_int port\<rparr>"

definition SetScopeID :: "int \<Rightarrow> socket_address \<Rightarrow> socket_address" where
  "SetScopeID i a = a\<lparr>sa_scope_id := i\<rparr>"

definition SocketAddress_host ::
    "(addr_family \<Rightarrow> string \<Rightarrow> byte list option) \<Rightarrow> string \<Rightarrow> int \<Rightarrow> socket_address" where
  "SocketAddress_host pton hostname port = SetPort port (SetIP_host pton hostname SocketAddress_nil)"

definition SocketAddress_u32 :: "bool \<Rightarrow> u32 \<Rightarrow> int \<Rightarrow> socket_address" where
  "SocketAddress_u32 h ip_as_host_order_integer port =
     SetPort port (SetIP (IPAddress_u32 h ip_as_host_order_integer) SocketAddress_nil)"

definition SocketAddress_ip :: "ip_address \<Rightarrow> int \<Rightarrow> socket_address" where
  "SocketAddress_ip ip port = SetPort port (SetIP ip SocketAddress_nil)"

definition SocketAddress_assign :: "socket_address \<Rightarrow> socket_address \<Rightarrow> socket_address" where
  "SocketAddress_assign addr a =
     a\<lparr>sa_hostname := sa_hostname addr, sa_ip := sa_ip addr, sa_port := sa_port addr, sa_literal := sa_literal addr,
       sa_scope_id := sa_scope_id addr\<rparr>"

section \<open>Queries\<close>

definition IsNil :: "socket_address \<Rightarrow> bool" where
  "IsNil a = (sa_hostname a = [] \<and> IPIsUnspec (sa_ip a) \<and> 0 = sa_port a)"

definition IsComplete :: "bool \<Rightarrow> socket_address \<Rightarrow> bool" where
  "IsComplete h a = (\<not> IPIsAny h (sa_ip a) \<and> 0 \<noteq> sa_port a)"

definition SocketAddress_ip_u32 :: "bool \<Rightarrow> socket_address \<Rightarrow> u32" where
  "SocketAddress_ip_u32 h a = v4AddressAsHostOrderInteger h (sa_ip a)"

definition IsAnyIP :: "bool \<Rightarrow> socket_address \<Rightarrow> bool" where
  "IsAnyIP h a = IPIsAny h (sa_ip a)"

definition IsLoopbackIP :: "bool \<Rightarrow> socket_address \<Rightarrow> bool" where
  "IsLoopbackIP h a = (IPIsLoopback h (sa_ip a) \<or> IPIsAny h (sa_ip a) \<and> c_str (sa_hostname a) = ''localhost'')"

definition IsPrivateIP :: "bool \<Rightarrow> socket_address \<Rightarrow> bool" where
  "IsPrivateIP h a = IPIsPrivate h (sa_ip a)"

definition IsUnresolvedIP :: "socket_address \<Rightarrow> bool" where
  "IsUnresolvedIP a = (IPIsUnspec (sa_ip a) \<and> \<not> sa_literal a \<and> sa_hostname a \<noteq> [])"

definition EqualIPs :: "bool \<Rightarrow> socket_address \<Rightarrow> socket_address \<Rightarrow> bool" where
  "EqualIPs h a addr =
     (IPAddress_eq (sa_ip a) (sa_ip addr) \<and> (\<not> IPIsAny h (sa_ip a) \<or> sa_hostname a = sa_hostname addr))"

definition EqualPorts :: "socket_address \<Rightarrow> socket_address \<Rightarrow> bool" where
  "EqualPorts a addr = (sa_port a = sa_port addr)"

definition SocketAddress_eq :: "bool \<Rightarrow> socket_address \<Rightarrow> socket_address \<Rightarrow> bool" where
  "SocketAddress_eq h a addr = (EqualIPs h a addr \<and> EqualPorts a addr)"

definition SocketAddress_less :: "bool \<Rightarrow> socket_address \<Rightarrow> socket_address \<Rightarrow> bool" where
  "SocketAddress_less h a addr =
     (if IPAddress_less h (sa_ip a) (sa_ip addr) then True
      else if IPAddress_less h (sa_ip addr) (sa_ip a) then False
      else if IsAnyIP h addr \<and> sa_hostname a < sa_hostname addr then True
      else if IsAnyIP h addr \<and> sa_hostname addr < sa_hostname a then False
      else sa_port a < sa_port addr)"

text \<open>The port is promoted to a 32-bit \<^verbatim>\<open>int\<close> before it is shifted, and the result is sign-extended to \<^verbatim>\<open>size_t\<close>.\<close>

definition SocketAddress_Hash :: "bool \<Rightarrow> socket_address \<Rightarrow> u64" where
  "SocketAddress_Hash h a =
     (let hash = 0 XOR HashIP h (sa_ip a);
          port = (ucast (sa_port a) :: u32)
      in hash XOR scast (port OR push_bit 16 port))"

section \<open>Text\<close>

definition HostAsURIString :: "(addr_family \<Rightarrow> byte list \<Rightarrow> string option) \<Rightarrow> socket_address \<Rightarrow> string" where
  "HostAsURIString ntop a =
     (if \<not> sa_literal a \<and> sa_hostname a \<noteq> [] then sa_hostname a
      else if ip_family (sa_ip a) = AF_INET6 then ''['' @ IPAddress_ToString ntop (sa_ip a) @ '']''
      else IPAddress_ToString ntop (sa_ip a))"

definition HostAsSensitiveURIString ::
    "bool \<Rightarrow> (addr_family \<Rightarrow> byte list \<Rightarrow> string option) \<Rightarrow> bool \<Rightarrow> socket_address \<Rightarrow> string" where
  "HostAsSensitiveURIString h ntop strip_sensitive a =
     (if \<not> sa_literal a \<and> sa_hostname a \<noteq> [] then sa_hostname a
      else if ip_family (sa_ip a) = AF_INET6
           then ''['' @ IPAddress_ToSensitiveString h ntop strip_sensitive (sa_ip a) @ '']''
      else IPAddress_ToSensitiveString h ntop strip_sensitive (sa_ip a))"

definition PortAsString :: "socket_address \<Rightarrow> string" where
  "PortAsString a = decimal (unat (sa_port a))"

definition SocketAddress_ToString :: "(addr_family \<Rightarrow> byte list \<Rightarrow> string option) \<Rightarrow> socket_address \<Rightarrow> string" where
  "SocketAddress_ToString ntop a = HostAsURIString ntop a @ '':'' @ decimal (unat (sa_port a))"

definition SocketAddress_ToSensitiveString ::
    "bool \<Rightarrow> (addr_family \<Rightarrow> byte list \<Rightarrow> string option) \<Rightarrow> bool \<Rightarrow> socket_address \<Rightarrow> string" where
  "SocketAddress_ToSensitiveString h ntop strip_sensitive a =
     HostAsSensitiveURIString h ntop strip_sensitive a @ '':'' @ decimal (unat (sa_port a))"

text \<open>\<^verbatim>\<open>FromString\<close> returns its boolean and the changed address; \<open>None\<close> is the exception that \<^verbatim>\<open>at(0)\<close> throws on an
  empty string. The result of \<^verbatim>\<open>strtoul\<close> is narrowed to \<^verbatim>\<open>int\<close> on its way into \<^verbatim>\<open>SetPort\<close>.\<close>

definition port_arg :: "nat \<Rightarrow> int" where
  "port_arg v = sint (word_of_nat v :: u32)"

definition FromString ::
    "(addr_family \<Rightarrow> string \<Rightarrow> byte list option) \<Rightarrow> string \<Rightarrow> socket_address \<Rightarrow> (bool \<times> socket_address) option" where
  "FromString pton str a =
     (if str = [] then None
      else if str ! 0 = CHR ''['' then
        (case rfind str CHR '']'' of
           Some closebracket \<Rightarrow>
             (case find_from str CHR '':'' closebracket of
                Some colon \<Rightarrow>
                  (if colon > closebracket
                   then let a1 = SetPort (port_arg (strtoul (drop (colon + 1) str))) a
                        in Some (True, SetIP_host pton (take (closebracket - 1) (drop 1 str)) a1)
                   else Some (False, a))
              | None \<Rightarrow> Some (False, a))
         | None \<Rightarrow> Some (True, a))
      else
        (case find_from str CHR '':'' 0 of
           None \<Rightarrow> Some (False, a)
         | Some pos \<Rightarrow>
             let a1 = SetPort (port_arg (strtoul (drop (pos + 1) str))) a
             in Some (True, SetIP_host pton (take pos str) a1)))"

definition IPToString :: "bool \<Rightarrow> (addr_family \<Rightarrow> byte list \<Rightarrow> string option) \<Rightarrow> u32 \<Rightarrow> string" where
  "IPToString h ntop ip_as_host_order_integer = IPAddress_ToString ntop (IPAddress_u32 h ip_as_host_order_integer)"

definition IPToSensitiveString :: "bool \<Rightarrow> (addr_family \<Rightarrow> byte list \<Rightarrow> string option) \<Rightarrow> bool \<Rightarrow> u32 \<Rightarrow> string" where
  "IPToSensitiveString h ntop strip_sensitive ip_as_host_order_integer =
     IPAddress_ToSensitiveString h ntop strip_sensitive (IPAddress_u32 h ip_as_host_order_integer)"

definition StringToIP_u32 :: "bool \<Rightarrow> (addr_family \<Rightarrow> string \<Rightarrow> byte list option) \<Rightarrow> string \<Rightarrow> u32 option" where
  "StringToIP_u32 h pton hostname =
     (case pton AF_INET (c_str hostname) of
        None \<Rightarrow> None
      | Some addr \<Rightarrow> Some (NetworkToHost32 h (s_addr h addr)))"

definition StringToIP :: "(addr_family \<Rightarrow> string \<Rightarrow> byte list option) \<Rightarrow> string \<Rightarrow> ip_address option" where
  "StringToIP pton hostname =
     (case pton AF_INET (c_str hostname) of
        Some addr4 \<Rightarrow> Some (IPAddress_v4 addr4)
      | None \<Rightarrow> (case pton AF_INET6 (c_str hostname) of
                  Some addr6 \<Rightarrow> Some (IPAddress_v6 addr6)
                | None \<Rightarrow> None))"

definition StringToIP_default :: "bool \<Rightarrow> (addr_family \<Rightarrow> string \<Rightarrow> byte list option) \<Rightarrow> string \<Rightarrow> u32" where
  "StringToIP_default h pton hostname = (case StringToIP_u32 h pton hostname of None \<Rightarrow> 0 | Some ip \<Rightarrow> ip)"

section \<open>Socket structures\<close>

definition ToSockAddr :: "bool \<Rightarrow> socket_address \<Rightarrow> sockaddr_in" where
  "ToSockAddr h a =
     (let zero = \<lparr>sin_family = AF_UNSPEC, sin_port = 0, sin_addr = replicate 4 0\<rparr>
      in if ip_family (sa_ip a) \<noteq> AF_INET then zero
         else let saddr = zero\<lparr>sin_family := AF_INET, sin_port := HostToNetwork16 h (sa_port a)\<rparr>
              in if IPIsAny h (sa_ip a) then saddr\<lparr>sin_addr := host_store32 h INADDR_ANY\<rparr>
                 else saddr\<lparr>sin_addr := ipv4_address (sa_ip a)\<rparr>)"

definition FromSockAddr :: "bool \<Rightarrow> sockaddr_in \<Rightarrow> socket_address \<Rightarrow> bool \<times> socket_address" where
  "FromSockAddr h saddr a =
     (if sin_family saddr \<noteq> AF_INET then (False, a)
      else let a1 = SetIP_u32 h (NetworkToHost32 h (s_addr h (sin_addr saddr))) a;
               a2 = SetPort (int (unat (NetworkToHost16 h (sin_port saddr)))) a1
           in (True, a2\<lparr>sa_literal := False\<rparr>))"

definition ToSockAddrStorageHelper ::
    "bool \<Rightarrow> ip_address \<Rightarrow> u16 \<Rightarrow> int \<Rightarrow> nat \<times> sockaddr_storage" where
  "ToSockAddrStorageHelper h ip port scope_id =
     (let addr = \<lparr>ss_family = ip_family ip, ss_port = 0, ss_addr = [], ss_scope_id = 0\<rparr>
      in if ss_family addr = AF_INET6
         then (28, addr\<lparr>ss_addr := ipv6_address ip, ss_port := HostToNetwork16 h port, ss_scope_id := scope_id\<rparr>)
         else if ss_family addr = AF_INET
         then (16, addr\<lparr>ss_addr := ipv4_address ip, ss_port := HostToNetwork16 h port\<rparr>)
         else (0, addr))"

definition ToDualStackSockAddrStorage :: "bool \<Rightarrow> socket_address \<Rightarrow> nat \<times> sockaddr_storage" where
  "ToDualStackSockAddrStorage h a =
     ToSockAddrStorageHelper h (AsIPv6Address (sa_ip a)) (sa_port a) (sa_scope_id a)"

definition ToSockAddrStorage :: "bool \<Rightarrow> socket_address \<Rightarrow> nat \<times> sockaddr_storage" where
  "ToSockAddrStorage h a = ToSockAddrStorageHelper h (sa_ip a) (sa_port a) (sa_scope_id a)"

definition SocketAddressFromSockAddrStorage :: "bool \<Rightarrow> sockaddr_storage \<Rightarrow> socket_address option" where
  "SocketAddressFromSockAddrStorage h addr =
     (if ss_family addr = AF_INET
      then Some (SocketAddress_ip (IPAddress_v4 (ss_addr addr)) (int (unat (NetworkToHost16 h (ss_port addr)))))
      else if ss_family addr = AF_INET6
      then Some (SetScopeID (ss_scope_id addr)
             (SocketAddress_ip (IPAddress_v6 (ss_addr addr)) (int (unat (NetworkToHost16 h (ss_port addr))))))
      else None)"

definition EmptySocketAddressWithFamily :: "bool \<Rightarrow> addr_family \<Rightarrow> socket_address" where
  "EmptySocketAddressWithFamily h family =
     (if family = AF_INET then SocketAddress_ip (IPAddress_u32 h INADDR_ANY) 0
      else if family = AF_INET6 then SocketAddress_ip (IPAddress_v6 in6addr_any) 0
      else SocketAddress_nil)"

section \<open>Order\<close>

definition sa_ok :: "socket_address \<Rightarrow> bool" where
  "sa_ok a = ip_ok (sa_ip a)"

text \<open>The comparison is lexicographic: the address, then the name where the address is the wildcard, then the
  port.\<close>

definition sa_name :: "bool \<Rightarrow> socket_address \<Rightarrow> string" where
  "sa_name h a = (if IPIsAny h (sa_ip a) then sa_hostname a else [])"

lemma SocketAddress_less_lex:
  assumes "sa_ok a" "sa_ok b"
  shows "SocketAddress_less h a b \<longleftrightarrow> IPAddress_less h (sa_ip a) (sa_ip b) \<or>
    sa_ip a = sa_ip b \<and> (sa_name h a < sa_name h b \<or> sa_name h a = sa_name h b \<and> sa_port a < sa_port b)"
proof -
  note ok = assms [unfolded sa_ok_def]
  consider "IPAddress_less h (sa_ip a) (sa_ip b)" | "IPAddress_less h (sa_ip b) (sa_ip a)" | "sa_ip a = sa_ip b"
    using IPAddress_eq_less [OF ok] by blast
  then show ?thesis
  proof cases
    case 2
    then have "\<not> IPAddress_less h (sa_ip a) (sa_ip b)" "sa_ip a \<noteq> sa_ip b"
      using ip.lt_asym [OF ok(2,1)] IPAddress_eq_less [OF ok] by blast+
    with 2 show ?thesis by (simp add: SocketAddress_less_def)
  next
    case 3
    then have "\<not> IPAddress_less h (sa_ip b) (sa_ip b)" using ip.lt_irrefl [OF ok(2)] by simp
    with 3 show ?thesis by (auto simp: SocketAddress_less_def sa_name_def IsAnyIP_def)
  qed (simp add: SocketAddress_less_def)
qed

lemma SocketAddress_eq_lex:
  "sa_ok a \<Longrightarrow> sa_ok b \<Longrightarrow> SocketAddress_eq h a b \<longleftrightarrow>
     sa_ip a = sa_ip b \<and> sa_name h a = sa_name h b \<and> sa_port a = sa_port b"
  by (auto simp: SocketAddress_eq_def EqualIPs_def EqualPorts_def sa_ok_def sa_name_def IPAddress_eq_iff)

interpretation sa: key_order "SocketAddress_less h" "SocketAddress_eq h" sa_ok
proof unfold_locales
  fix a b c assume ok: "sa_ok a" "sa_ok b" "sa_ok c" "SocketAddress_less h a b" "SocketAddress_less h b c"
  then show "SocketAddress_less h a c"
    using ip.lt_trans [of "sa_ip a" "sa_ip b" "sa_ip c" h]
    by (auto simp: SocketAddress_less_lex sa_ok_def dest: order.strict_trans)
next
  fix a b assume ok: "sa_ok a" "sa_ok b"
  have "sa_ip a = sa_ip b \<longleftrightarrow> \<not> IPAddress_less h (sa_ip a) (sa_ip b) \<and> \<not> IPAddress_less h (sa_ip b) (sa_ip a)"
    using ok IPAddress_eq_less unfolding sa_ok_def by blast
  then show "SocketAddress_eq h a b \<longleftrightarrow> \<not> SocketAddress_less h a b \<and> \<not> SocketAddress_less h b a"
    using ok by (auto simp: SocketAddress_less_lex SocketAddress_eq_lex)
next
  fix a assume "sa_ok a"
  then show "\<not> SocketAddress_less h a a"
    using ip.lt_irrefl [of "sa_ip a"] by (simp add: SocketAddress_less_lex sa_ok_def)
qed (auto simp: SocketAddress_eq_lex)

section \<open>Decimal ports\<close>

lemma of_digit_char: "d < 10 \<Longrightarrow> (of_char (digit_char d) :: nat) = 48 + d"
  by (simp add: digit_char_def)

lemma is_digit_char [simp]: "d < 10 \<Longrightarrow> is_digit (digit_char d)"
  by (simp add: is_digit_def of_digit_char)

lemma decimal_digits: "list_all is_digit (decimal n) \<and> decimal n \<noteq> []"
proof (induction n rule: decimal.induct)
  case (1 n)
  then show ?case by (subst (1 2) decimal.simps) auto
qed

lemma digits_value_snoc: "digits_value (ds @ [c]) = 10 * digits_value ds + (of_char c - 48)"
  by (simp add: digits_value_def)

lemma digits_value_decimal: "digits_value (decimal n) = n"
proof (induction n rule: decimal.induct)
  case (1 n)
  then show ?case
    by (subst decimal.simps) (simp add: digits_value_snoc of_digit_char, simp add: digits_value_def of_digit_char)
qed

lemma digit_not: "is_digit c \<Longrightarrow> c \<noteq> CHR 0x00 \<and> \<not> is_space c \<and> c \<noteq> CHR ''-'' \<and> c \<noteq> CHR ''+'' \<and> c \<noteq> CHR '':'' \<and> c \<noteq> CHR '']''"
  by (auto simp: is_digit_def is_space_def)

lemma strtoul_decimal:
  assumes "n < 2 ^ 64"
  shows "strtoul (decimal n) = n"
proof -
  have d: "\<forall>c \<in> set (decimal n). is_digit c" "decimal n \<noteq> []"
    using decimal_digits [of n] by (auto simp: list_all_iff)
  then have c: "c_str (decimal n) = decimal n" unfolding c_str_def takeWhile_eq_all_conv by (auto dest: digit_not)
  have h: "is_digit (hd (decimal n))" using d by simp
  then have sp: "dropWhile is_space (decimal n) = decimal n" using d(2) digit_not by (cases "decimal n") auto
  have tw: "takeWhile is_digit (decimal n) = decimal n" using d(1) by (simp add: takeWhile_eq_all_conv)
  show ?thesis
    using assms digit_not [OF h] d(2) unfolding strtoul_def c Let_def sp by (simp add: tw digits_value_decimal del: takeWhile_eq_all_conv)
qed

lemma find_from_at:
  assumes "pos \<le> k" "k < length str" "str ! k = c" "\<And>i. pos \<le> i \<Longrightarrow> i < k \<Longrightarrow> str ! i \<noteq> c"
  shows "find_from str c pos = Some k"
  unfolding find_from_def find_Some_iff
  using assms by (intro exI [of _ "k - pos"]) auto

lemma rfind_at:
  assumes "k < length str" "str ! k = c" "\<And>i. k < i \<Longrightarrow> i < length str \<Longrightarrow> str ! i \<noteq> c"
  shows "rfind str c = Some k"
  unfolding rfind_def find_Some_iff
  using assms by (intro exI [of _ "length str - Suc k"]) (auto simp: rev_nth)

lemma port_arg_small: "n < 65536 \<Longrightarrow> port_arg n = int n"
  by (simp add: port_arg_def signed_of_nat signed_take_bit_int_eq_self)

lemma port_arg_u16: "word_of_int (port_arg (unat (p :: u16))) = p"
  using port_arg_small [of "unat p"] unat_lt [of p] by simp

lemma strtoul_port: "strtoul (decimal (unat (p :: u16))) = unat p"
  using unat_lt [of p] by (intro strtoul_decimal) simp

text \<open>What \<^verbatim>\<open>FromString\<close> finds in the two forms that \<^verbatim>\<open>ToString\<close> produces.\<close>

lemma FromString_plain:
  assumes "t \<noteq> []" "hd t \<noteq> CHR ''[''" "CHR '':'' \<notin> set t"
  shows "FromString pton (t @ '':'' @ decimal (unat p)) a = Some (True, SetIP_host pton t (a\<lparr>sa_port := p\<rparr>))"
proof -
  let ?s = "t @ '':'' @ decimal (unat p)"
  have "find_from ?s CHR '':'' 0 = Some (length t)"
    using assms(3) by (intro find_from_at) (auto simp: nth_append in_set_conv_nth)
  moreover have "?s ! 0 \<noteq> CHR ''[''" using assms(1,2) by (simp add: nth_append hd_conv_nth)
  ultimately show ?thesis by (simp add: FromString_def SetPort_def strtoul_port port_arg_u16)
qed

lemma FromString_bracket:
  assumes "CHR '']'' \<notin> set t"
  shows "FromString pton (''['' @ t @ '']'' @ '':'' @ decimal (unat p)) a =
    Some (True, SetIP_host pton t (a\<lparr>sa_port := p\<rparr>))"
proof -
  let ?s = "''['' @ t @ '']'' @ '':'' @ decimal (unat p)"
  have dig: "is_digit (decimal (unat p) ! i)" if "i < length (decimal (unat p))" for i
    using decimal_digits [of "unat p"] that by (simp add: list_all_length)
  have "rfind ?s CHR '']'' = Some (Suc (length t))"
  proof (rule rfind_at)
    fix i assume i: "Suc (length t) < i" "i < length ?s"
    define j where "j = i - (length t + 3)"
    show "?s ! i \<noteq> CHR '']''"
    proof (cases "i = length t + 2")
      case True
      then show ?thesis by (simp add: nth_append)
    next
      case False
      then have "i = length t + 3 + j" "j < length (decimal (unat p))" using i by (auto simp: j_def)
      then show ?thesis using digit_not [OF dig] by (simp add: nth_append numeral_3_eq_3)
    qed
  qed (simp_all add: nth_append)
  moreover have "find_from ?s CHR '':'' (Suc (length t)) = Some (length t + 2)"
  proof (rule find_from_at)
    fix i assume "Suc (length t) \<le> i" "i < length t + 2"
    then have "i = Suc (length t)" by simp
    then show "?s ! i \<noteq> CHR '':''" by (simp add: nth_append)
  qed (simp_all add: nth_append)
  ultimately show ?thesis
    by (simp add: FromString_def SetPort_def strtoul_port port_arg_u16)
qed

section \<open>Properties\<close>

text \<open>Socket addresses can key ordered and hashed containers: exactly one of less, equal and greater holds for
  any two, less is transitive and respects equality, and equal addresses have equal hash values.\<close>

theorem SocketAddress_order:
  assumes "sa_ok a" "sa_ok b" "sa_ok c"
  shows "(SocketAddress_less h a b \<or> SocketAddress_eq h a b \<or> SocketAddress_less h b a) \<and>
    \<not> (SocketAddress_less h a b \<and> SocketAddress_eq h a b) \<and> \<not> (SocketAddress_less h a b \<and> SocketAddress_less h b a) \<and>
    (SocketAddress_less h a b \<and> SocketAddress_less h b c \<longrightarrow> SocketAddress_less h a c) \<and>
    (SocketAddress_less h a b \<and> SocketAddress_eq h b c \<longrightarrow> SocketAddress_less h a c) \<and>
    (SocketAddress_eq h a b \<longrightarrow> SocketAddress_Hash h a = SocketAddress_Hash h b)"
proof -
  have "SocketAddress_eq h a b \<longrightarrow> SocketAddress_Hash h a = SocketAddress_Hash h b"
    using assms by (simp add: SocketAddress_eq_lex SocketAddress_Hash_def)
  then show ?thesis
    using sa.trichotomy [OF assms(1,2), of h] sa.lt_trans [OF assms, of h] sa.lt_eq_trans [OF assms, of h] by blast
qed

theorem SocketAddress_order_witness:
  "SocketAddress_less False (SocketAddress_u32 False 1 80) (SocketAddress_u32 False 1 443) \<and>
   \<not> SocketAddress_less False (SocketAddress_u32 False 1 443) (SocketAddress_u32 False 1 80)"
proof -
  have ok: "sa_ok (SocketAddress_u32 False x p)" for x p
    by (simp add: sa_ok_def SocketAddress_u32_def SetPort_def SetIP_def)
  have "SocketAddress_less False (SocketAddress_u32 False 1 80) (SocketAddress_u32 False 1 443)"
    by (simp add: SocketAddress_less_lex [OF ok ok])
      (simp add: SocketAddress_u32_def SetPort_def SetIP_def sa_name_def SocketAddress_nil_def)
  then show ?thesis using SocketAddress_order [OF ok ok ok] by blast
qed

text \<open>The text of an address is read back: where the system prints the address as \<open>t\<close> and reads \<open>t\<close> as that
  address (and not as one of the other family), \<^verbatim>\<open>FromString\<close> applied to \<^verbatim>\<open>ToString\<close>'s result, whatever the
  target held before, restores address and port, for IPv4 and for bracketed IPv6.\<close>

theorem address_text_roundtrip:
  assumes "ip_ok ip" "ip_family ip = AF_INET \<or> ip_family ip = AF_INET6"
    "bytes = (if ip_family ip = AF_INET6 then ipv6_address ip else ipv4_address ip)"
    "ntop (ip_family ip) bytes = Some t" "pton (ip_family ip) t = Some bytes"
    "ip_family ip = AF_INET6 \<Longrightarrow> pton AF_INET t = None"
    "CHR 0x00 \<notin> set t" "if ip_family ip = AF_INET then t \<noteq> [] \<and> hd t \<noteq> CHR ''['' \<and> CHR '':'' \<notin> set t else CHR '']'' \<notin> set t"
  shows "FromString pton (SocketAddress_ToString ntop (SocketAddress_ip ip (int (unat p)))) a =
    Some (True, \<lparr>sa_hostname = t, sa_ip = ip, sa_port = p, sa_scope_id = 0, sa_literal = True\<rparr>)"
proof -
  have c: "c_str t = t" using assms(7) by (simp add: c_str_def takeWhile_eq_all_conv) blast
  have set: "SetIP_host pton t (a\<lparr>sa_port := p\<rparr>) =
      \<lparr>sa_hostname = t, sa_ip = ip, sa_port = p, sa_scope_id = 0, sa_literal = True\<rparr>"
    using assms(1)
    by (cases rule: ip_cases) (use assms(2-6) c in \<open>cases a; simp add: SetIP_host_def IPFromString_def\<close>)+
  have str: "IPAddress_ToString ntop ip = t" using assms(2-4) by (auto simp: IPAddress_ToString_def)
  show ?thesis
  proof (cases "ip_family ip = AF_INET")
    case True
    then show ?thesis using assms(8) FromString_plain [of t pton p a] set str
      by (simp add: SocketAddress_ToString_def HostAsURIString_def SocketAddress_ip_def SetPort_def SetIP_def
          SocketAddress_nil_def)
  next
    case False
    then have "ip_family ip = AF_INET6" using assms(2) by blast
    then show ?thesis using assms(8) FromString_bracket [of t pton p a] set str
      by (simp add: SocketAddress_ToString_def HostAsURIString_def SocketAddress_ip_def SetPort_def SetIP_def
          SocketAddress_nil_def)
  qed
qed

theorem address_text_roundtrip_witness:
  "FromString (\<lambda>f s. if f = AF_INET \<and> s = ''1.2.3.4'' then Some [1, 2, 3, 4] else None)
     (SocketAddress_ToString (\<lambda>f b. if f = AF_INET \<and> b = [1, 2, 3, 4] then Some ''1.2.3.4'' else None)
       (SocketAddress_ip (IPAddress_v4 [1, 2, 3, 4]) (int (unat (80 :: u16))))) SocketAddress_nil =
   Some (True, \<lparr>sa_hostname = ''1.2.3.4'', sa_ip = IPAddress_v4 [1, 2, 3, 4], sa_port = 80, sa_scope_id = 0,
     sa_literal = True\<rparr>)"
  by (rule address_text_roundtrip [where bytes = "[1, 2, 3, 4]"]) simp_all

text \<open>Two addresses that name different hosts not yet resolved compare as equal when their ports agree: the
  comparison of names is reserved for the wildcard address, which an unresolved address no longer has.\<close>

theorem unresolved_hosts_equal:
  assumes "\<And>f. pton f (c_str x) = None" "\<And>f. pton f (c_str y) = None" "x \<noteq> []" "y \<noteq> []"
  shows "IsUnresolvedIP (SocketAddress_host pton x p) \<and> IsUnresolvedIP (SocketAddress_host pton y p) \<and>
    SocketAddress_eq h (SocketAddress_host pton x p) (SocketAddress_host pton y p)"
  using assms
  by (simp add: SocketAddress_host_def SetIP_host_def SetPort_def IPFromString_def IsUnresolvedIP_def IPIsUnspec_def
      SocketAddress_eq_def EqualIPs_def EqualPorts_def IPAddress_eq_def IPIsAny_def)

theorem unresolved_hosts_equal_witness:
  "SocketAddress_eq False (SocketAddress_host (\<lambda>_ _. None) ''a.example'' 80) (SocketAddress_host (\<lambda>_ _. None) ''b.example'' 80)"
  using unresolved_hosts_equal [of "\<lambda>_ _. None" "''a.example''" "''b.example''" 80 False] by simp

text \<open>Addresses survive the socket structures: written to a \<^verbatim>\<open>sockaddr_storage\<close> and read back, an IPv4 or IPv6
  address keeps its address and port (and an IPv6 one its scope), the size tells the family, and the dual-stack form
  of an IPv4 address is read back as its mapped address; an address of no family is refused.\<close>

theorem sockaddr_storage_roundtrip:
  assumes "sa_ok a"
  shows "case ip_family (sa_ip a) of
      AF_UNSPEC \<Rightarrow> fst (ToSockAddrStorage h a) = 0 \<and> SocketAddressFromSockAddrStorage h (snd (ToSockAddrStorage h a)) = None
    | AF_INET \<Rightarrow> fst (ToSockAddrStorage h a) = 16 \<and>
        SocketAddressFromSockAddrStorage h (snd (ToSockAddrStorage h a)) =
          Some (SocketAddress_ip (sa_ip a) (int (unat (sa_port a)))) \<and>
        map_option (Normalized \<circ> sa_ip) (SocketAddressFromSockAddrStorage h (snd (ToDualStackSockAddrStorage h a))) =
          Some (sa_ip a)
    | AF_INET6 \<Rightarrow> fst (ToSockAddrStorage h a) = 28 \<and>
        SocketAddressFromSockAddrStorage h (snd (ToSockAddrStorage h a)) =
          Some (SetScopeID (sa_scope_id a) (SocketAddress_ip (sa_ip a) (int (unat (sa_port a)))))"
  using assms unfolding sa_ok_def
proof (cases rule: ip_cases)
  case (2 b)
  then show ?thesis using AsIPv6_mapped [of b] Normalized_mapped [of "take 12 kV4MappedPrefix @ b"]
    by (simp add: ToSockAddrStorage_def ToDualStackSockAddrStorage_def ToSockAddrStorageHelper_def
        SocketAddressFromSockAddrStorage_def SocketAddress_ip_def SetPort_def SetIP_def SetScopeID_def kV4MappedPrefix_def)
qed (simp_all add: ToSockAddrStorage_def ToSockAddrStorageHelper_def SocketAddressFromSockAddrStorage_def)

theorem sockaddr_storage_roundtrip_witness:
  "SocketAddressFromSockAddrStorage True (snd (ToSockAddrStorage True (SocketAddress_ip (IPAddress_v4 [1, 2, 3, 4]) 80))) =
     Some (SocketAddress_ip (IPAddress_v4 [1, 2, 3, 4]) 80)"
  using sockaddr_storage_roundtrip [of "SocketAddress_ip (IPAddress_v4 [1, 2, 3, 4]) 80" True]
  by (simp add: sa_ok_def SocketAddress_ip_def SetPort_def SetIP_def)

end
