(* ===== verification/Block_Hash.thy ===== *)
theory Block_Hash
  imports Byte_Order
begin

text \<open>
  What the two built-in digests share (\<^verbatim>\<open>base/sha1.cc\<close>, \<^verbatim>\<open>base/md5.cc\<close>): a message is cut into blocks of 64
  bytes that a compression function folds into a state, a context keeps the bytes of the unfinished block and the
  number of bits seen so far in two 32-bit words, and the padded last block carries that number. The definitions
  here are the specification side; the contexts of the two digests are shown to satisfy \<open>absorbed\<close>.
\<close>

definition blocks :: "byte list \<Rightarrow> byte list list" where
  "blocks m = map (\<lambda>i. take 64 (drop (64 * i) m)) [0..<length m div 64]"

definition unfinished :: "byte list \<Rightarrow> byte list" where
  "unfinished m = drop (64 * (length m div 64)) m"

lemma length_unfinished [simp]: "length (unfinished m) = length m mod 64"
  by (simp add: unfinished_def minus_mult_div_eq_mod)

lemma blocks_short [simp]: "length m < 64 \<Longrightarrow> blocks m = []"
  by (simp add: blocks_def)

lemma unfinished_short [simp]: "length m < 64 \<Longrightarrow> unfinished m = m"
  by (simp add: unfinished_def)

lemma blocks_step:
  assumes "64 \<le> length m"
  shows "blocks m = take 64 m # blocks (drop 64 m)" "unfinished m = unfinished (drop 64 m)"
proof -
  define k where "k = length (drop 64 m) div 64"
  have k: "length m div 64 = Suc k"
    using assms by (simp add: k_def)
  have "map f [0..<Suc k] = f 0 # map (\<lambda>i. f (Suc i)) [0..<k]" for f :: "nat \<Rightarrow> byte list"
    by (simp add: upt_conv_Cons comp_def del: upt_Suc flip: map_Suc_upt)
  from this [of "\<lambda>i. take 64 (drop (64 * i) m)"] show "blocks m = take 64 m # blocks (drop 64 m)"
    unfolding blocks_def k k_def [symmetric] by (simp add: add.commute)
  show "unfinished m = unfinished (drop 64 m)"
    unfolding unfinished_def k k_def [symmetric] by (simp add: add.commute)
qed

lemma blocks_Cons: "length b = 64 \<Longrightarrow> blocks (b @ r) = b # blocks r"
  using blocks_step(1) [of "b @ r"] by simp

lemma blocks_append:
  "blocks (m @ d) = blocks m @ blocks (unfinished m @ d)" "unfinished (m @ d) = unfinished (unfinished m @ d)"
proof (induction m rule: length_induct)
  case (1 m)
  { case 1
    show ?case
    proof (cases "64 \<le> length m")
      case True
      then show ?thesis using "1.IH" [rule_format, of "drop 64 m"] blocks_step [of "m @ d"] blocks_step [OF True] by simp
    qed simp
  next
    case 2
    show ?case
    proof (cases "64 \<le> length m")
      case True
      then show ?thesis using "1.IH" [rule_format, of "drop 64 m"] blocks_step [of "m @ d"] blocks_step [OF True] by simp
    qed simp }
qed

section \<open>The two-word bit counter\<close>

text \<open>The two words hold the number of bits of \<open>n\<close> bytes modulo \<open>2 ^ 64\<close>.\<close>

definition bit_count :: "u32 \<Rightarrow> u32 \<Rightarrow> nat \<Rightarrow> bool" where
  "bit_count low high n \<longleftrightarrow> low = word_of_nat (8 * n) \<and> high = word_of_nat (8 * n div 2 ^ 32)"

lemma bit_count_0 [simp]: "bit_count 0 0 0"
  by (simp add: bit_count_def)

lemma word_sum_carry:
  fixes a b :: nat
  shows "(word_of_nat (a + b) :: u32) < word_of_nat b \<longleftrightarrow> (a mod 2 ^ 32 + b mod 2 ^ 32) div 2 ^ 32 = 1"
    "(word_of_nat (a + b) :: u32) < word_of_nat a \<longleftrightarrow> (a mod 2 ^ 32 + b mod 2 ^ 32) div 2 ^ 32 = 1"
proof -
  define x y where "x = a mod 2 ^ 32" and "y = b mod 2 ^ 32"
  have b: "x < 4294967296" "y < 4294967296" by (simp_all add: x_def y_def)
  have "(a + b) mod 2 ^ 32 = (x + y) mod 2 ^ 32" by (simp add: x_def y_def mod_add_eq)
  then have s: "(a + b) mod 2 ^ 32 = (if x + y < 4294967296 then x + y else x + y - 4294967296)"
    using b by (simp add: le_mod_geq)
  have d: "(x + y) div 2 ^ 32 = 1 \<longleftrightarrow> \<not> x + y < 4294967296"
    using b by (auto simp: le_div_geq)
  have u: "(word_of_nat u :: u32) < word_of_nat v \<longleftrightarrow> u mod 2 ^ 32 < v mod 2 ^ 32" for u v
    by (simp add: word_less_nat_alt unat_of_nat take_bit_eq_mod)
  show "(word_of_nat (a + b) :: u32) < word_of_nat b \<longleftrightarrow> (a mod 2 ^ 32 + b mod 2 ^ 32) div 2 ^ 32 = 1"
    "(word_of_nat (a + b) :: u32) < word_of_nat a \<longleftrightarrow> (a mod 2 ^ 32 + b mod 2 ^ 32) div 2 ^ 32 = 1"
    unfolding u s d x_def [symmetric] y_def [symmetric] using b by auto
qed

lemma high_word_sum:
  fixes n k :: nat
  shows "8 * (n + k) div 2 ^ 32 = 8 * n div 2 ^ 32 + k div 2 ^ 29 + (8 * n mod 2 ^ 32 + 8 * k mod 2 ^ 32) div 2 ^ 32"
proof -
  have "8 * k div 2 ^ 32 = k div 2 ^ 29" using div_mult2_eq [of "8 * k" 8 "2 ^ 29"] by simp
  then show ?thesis using div_add1_eq [of "8 * n" "8 * k" "2 ^ 32"] by (simp add: algebra_simps)
qed

text \<open>Adding to the counter with the carry detected in either of the two ways the digests use.\<close>

lemma bit_count_add:
  assumes "bit_count low high n"
  shows "bit_count (low + word_of_nat (8 * k))
      ((if low + word_of_nat (8 * k) < word_of_nat (8 * k) then high + 1 else high) + word_of_nat (k div 2 ^ 29)) (n + k)"
    "bit_count (low + word_of_nat (8 * k))
      ((if low + word_of_nat (8 * k) < low then high + 1 else high) + word_of_nat (k div 2 ^ 29)) (n + k)"
proof -
  let ?c = "(8 * n mod 2 ^ 32 + 8 * k mod 2 ^ 32) div (2 :: nat) ^ 32"
  have "?c < 2" by (simp add: less_mult_imp_div_less)
  then have c: "?c = 0 \<or> ?c = 1" by linarith
  have l: "low + word_of_nat (8 * k) = word_of_nat (8 * n + 8 * k)" "low = word_of_nat (8 * n)"
    "high = word_of_nat (8 * n div 2 ^ 32)"
    using assms by (simp_all add: bit_count_def)
  have "word_of_nat (8 * (n + k) div 2 ^ 32) = high + word_of_nat (k div 2 ^ 29) + word_of_nat ?c"
    by (simp only: high_word_sum l of_nat_add)
  then have step: "(if P then high + 1 else high) + word_of_nat (k div 2 ^ 29) = word_of_nat (8 * (n + k) div 2 ^ 32)"
    if "P \<longleftrightarrow> ?c = 1" for P
    using c that by (auto simp: add.commute add.left_commute simp del: of_nat_mult)
  have low: "low + word_of_nat (8 * k) = word_of_nat (8 * (n + k))" by (simp add: l(2) algebra_simps)
  show "bit_count (low + word_of_nat (8 * k))
      ((if low + word_of_nat (8 * k) < word_of_nat (8 * k) then high + 1 else high) + word_of_nat (k div 2 ^ 29)) (n + k)"
    unfolding bit_count_def by (intro conjI low step) (simp only: l(1) word_sum_carry)
  show "bit_count (low + word_of_nat (8 * k))
      ((if low + word_of_nat (8 * k) < low then high + 1 else high) + word_of_nat (k div 2 ^ 29)) (n + k)"
    unfolding bit_count_def by (intro conjI low step)
      (use word_sum_carry(2) [of "8 * n" "8 * k"] in \<open>simp only: l(2) of_nat_add\<close>)
qed

lemma bit_count_index:
  assumes "bit_count low high n"
  shows "unat (drop_bit 3 low AND 63) = n mod 64"
proof -
  have m: "(63 :: u32) = mask 6" by (simp add: mask_eq_exp_minus_1)
  have "unat (drop_bit 3 low AND 63) = take_bit 6 (drop_bit 3 (unat low))"
    unfolding m take_bit_eq_mask [symmetric] by (simp only: unsigned_take_bit_eq unsigned_drop_bit_eq)
      (simp add: take_bit_drop_bit)
  also have "\<dots> = (8 * n mod 2 ^ 32) div 8 mod 64"
    using assms by (simp add: bit_count_def unat_of_nat take_bit_eq_mod drop_bit_eq_div del: of_nat_mult)
  also have "(8 * n mod 2 ^ 32) div 8 = n mod 2 ^ 29"
    using mod_mult_mult1 [of 8 n "2 ^ 29"] by simp
  finally show ?thesis by (simp add: mod_mod_cancel)
qed

lemma finalcount_bytes:
  assumes "bit_count low high n"
  shows "be32 high @ be32 low = be64 (word_of_nat (8 * n))"
proof -
  have l: "low = ucast (word_of_nat (8 * n) :: u64)"
    using assms by (simp add: bit_count_def unsigned_of_nat word_of_nat_eq_iff del: of_nat_mult)
  have "unat (drop_bit 32 (word_of_nat (8 * n) :: u64)) = (8 * n mod 2 ^ 64) div 2 ^ 32"
    by (simp only: unsigned_drop_bit_eq) (simp add: unat_of_nat take_bit_eq_mod drop_bit_eq_div del: of_nat_mult)
  also have "\<dots> = 8 * n div 2 ^ 32 mod 2 ^ 32" using mod_mult2_eq [of "8 * n" "2 ^ 32" "2 ^ 32"] by simp
  finally have "unat (drop_bit 32 (word_of_nat (8 * n) :: u64)) = unat high"
    using assms by (simp add: bit_count_def unat_of_nat take_bit_eq_mod del: of_nat_mult)
  then have h: "high = ucast (drop_bit 32 (word_of_nat (8 * n) :: u64))"
    by (metis of_nat_unat of_nat_unat_id)
  show ?thesis unfolding l h be64_def be32_def
    by (simp, intro conjI; rule bit_word_eqI; auto simp: bit_simps)
qed

section \<open>What a context has absorbed\<close>

text \<open>The state folded over the finished blocks, the bytes of the unfinished one, and the count.\<close>

definition absorbed ::
    "('s \<Rightarrow> byte list \<Rightarrow> 's) \<Rightarrow> 's \<Rightarrow> byte list \<Rightarrow> 's \<Rightarrow> u32 \<Rightarrow> u32 \<Rightarrow> byte list \<Rightarrow> bool" where
  "absorbed compress init m state low high buffer \<longleftrightarrow>
     state = foldl compress init (blocks m) \<and> bit_count low high (length m) \<and> length buffer = 64 \<and>
     take (length m mod 64) buffer = unfinished m"

lemma absorbed_more:
  assumes "absorbed compress init m state low high buffer" "x = unfinished m @ d"
    "state' = foldl compress state (blocks x)" "bit_count low' high' (length m + length d)"
    "length buffer' = 64" "take (length x mod 64) buffer' = unfinished x"
  shows "absorbed compress init (m @ d) state' low' high' buffer'"
proof -
  have "length (m @ d) mod 64 = length x mod 64" by (simp add: assms(2) mod_add_left_eq)
  then show ?thesis
    using assms(1,3-6) unfolding absorbed_def assms(2) blocks_append [of m d] by simp
qed

text \<open>The padding of a message: a one bit, zeros up to eight bytes before the end of a block, and the length.\<close>

definition zeros_for :: "nat \<Rightarrow> nat" where
  "zeros_for n = (119 - n mod 64) mod 64"

lemma zeros_for_pad: "(n + 1 + zeros_for n + 8) mod 64 = 0"
proof -
  define r where "r = n mod 64"
  have "(n + 1 + zeros_for n + 8) mod 64 = (r + 9 + zeros_for n) mod 64"
    using mod_add_left_eq [of n 64 "9 + zeros_for n"] by (simp add: r_def ac_simps)
  moreover have "r < 64" by (simp add: r_def)
  ultimately show ?thesis by (cases "r \<le> 55") (auto simp: zeros_for_def r_def [symmetric] le_mod_geq)
qed

definition pad_with :: "(u64 \<Rightarrow> byte list) \<Rightarrow> byte list \<Rightarrow> byte list" where
  "pad_with enc m = m @ [0x80] @ replicate (zeros_for (length m)) 0 @ enc (word_of_nat (8 * length m))"

end
