(* ===== verification/Sha1.thy ===== *)
theory Sha1
  imports Block_Hash
begin

text \<open>
  \<^verbatim>\<open>base/sha1.h\<close>, \<^verbatim>\<open>base/sha1.cc\<close> and \<^verbatim>\<open>base/sha1digest.h\<close>: the built-in SHA-1. The transform expands the
  message schedule in place, in the sixteen words of the block itself, and rotates the roles of its five working
  variables instead of moving them; its eighty unrolled macro calls are the fold over \<open>0..<80\<close> below, each step
  handing the variables on in the order of the next call. The lemmas show that this computes the compression
  function of FIPS 180 with its schedule of eighty words, that the context absorbs a message independently of how
  it is cut into updates, and that the final result is the digest of the padded message.
\<close>

record sha1_ctx =
  sha_state :: "u32 list"
  sha_count0 :: u32
  sha_count1 :: u32
  sha_buffer :: "byte list"

definition SHA1_DIGEST_SIZE :: nat where "SHA1_DIGEST_SIZE = 20"

section \<open>The transform\<close>

definition rol :: "u32 \<Rightarrow> nat \<Rightarrow> u32" where
  "rol value bits = push_bit bits value OR drop_bit (32 - bits) value"

text \<open>\<^verbatim>\<open>blk0\<close> and \<^verbatim>\<open>blk\<close> assign a word of the block and return it.\<close>

definition blk0 :: "bool \<Rightarrow> u32 list \<Rightarrow> nat \<Rightarrow> u32 list" where
  "blk0 h l i =
     (if h then l
      else l[i := (rol (l ! i) 24 AND 0xFF00FF00) OR (rol (l ! i) 8 AND 0x00FF00FF)])"

definition blk :: "u32 list \<Rightarrow> nat \<Rightarrow> u32 list" where
  "blk l i = l[i mod 16 := rol (l ! ((i + 13) mod 16) XOR l ! ((i + 8) mod 16) XOR l ! ((i + 2) mod 16) XOR
     l ! (i mod 16)) 1]"

text \<open>One of the macros \<^verbatim>\<open>R0\<close> to \<^verbatim>\<open>R4\<close>, by the number of the call.\<close>

definition round_f :: "nat \<Rightarrow> u32 \<Rightarrow> u32 \<Rightarrow> u32 \<Rightarrow> u32" where
  "round_f i w x y =
     (if i < 20 then (w AND (x XOR y)) XOR y
      else if i < 40 then w XOR x XOR y
      else if i < 60 then ((w OR x) AND y) OR (w AND x)
      else w XOR x XOR y)"

definition round_k :: "nat \<Rightarrow> u32" where
  "round_k i = (if i < 20 then 0x5A827999 else if i < 40 then 0x6ED9EBA1 else if i < 60 then 0x8F1BBCDC
     else 0xCA62C1D6)"

type_synonym sha_vars = "u32 \<times> u32 \<times> u32 \<times> u32 \<times> u32"

definition sha_round :: "bool \<Rightarrow> sha_vars \<times> u32 list \<Rightarrow> nat \<Rightarrow> sha_vars \<times> u32 list" where
  "sha_round h vl i =
     (let ((v, w, x, y, z), l) = vl;
          l = (if i < 16 then blk0 h l i else blk l i);
          z = z + (round_f i w x y + l ! (i mod 16) + round_k i + rol v 5);
          w = rol w 30
      in ((z, v, w, x, y), l))"

definition SHA1Transform :: "bool \<Rightarrow> u32 list \<Rightarrow> byte list \<Rightarrow> u32 list" where
  "SHA1Transform h state buffer =
     (let block = map (\<lambda>i. host_load32 h (mem_read buffer (4 * i) 4)) [0..<16];
          ((a, b, c, d, e), block) =
            foldl (sha_round h) ((state ! 0, state ! 1, state ! 2, state ! 3, state ! 4), block) [0..<80]
      in [state ! 0 + a, state ! 1 + b, state ! 2 + c, state ! 3 + d, state ! 4 + e])"

section \<open>The context\<close>

definition SHA1Init :: "sha1_ctx \<Rightarrow> sha1_ctx" where
  "SHA1Init context =
     context\<lparr>sha_state := [0x67452301, 0xEFCDAB89, 0x98BADCFE, 0x10325476, 0xC3D2E1F0],
       sha_count0 := 0, sha_count1 := 0\<rparr>"

text \<open>The loop over the whole blocks of the input, from position \<open>i\<close> on.\<close>

function sha1_blocks :: "bool \<Rightarrow> byte list \<Rightarrow> nat \<Rightarrow> u32 list \<Rightarrow> nat \<times> u32 list" where
  "sha1_blocks h data i state =
     (if i + 63 < length data then sha1_blocks h data (i + 64) (SHA1Transform h state (mem_read data i 64))
      else (i, state))"
  by pat_completeness auto

termination
  by (relation "measure (\<lambda>(h, data, i, state). length data - i)") auto

declare sha1_blocks.simps [simp del]

definition SHA1Update :: "bool \<Rightarrow> sha1_ctx \<Rightarrow> byte list \<Rightarrow> sha1_ctx" where
  "SHA1Update h context data =
     (let input_len = length data;
          index = unat (drop_bit 3 (sha_count0 context) AND 63);
          count0 = sha_count0 context + word_of_nat (8 * input_len);
          count1 = (if count0 < word_of_nat (8 * input_len) then sha_count1 context + 1 else sha_count1 context);
          count1 = count1 + word_of_nat (input_len div 2 ^ 29);
          context = context\<lparr>sha_count0 := count0, sha_count1 := count1\<rparr>;
          (i, index, context) =
            (if index + input_len > 63
             then let i = 64 - index;
                      buffer = mem_write (sha_buffer context) index (mem_read data 0 i);
                      (i, state) = sha1_blocks h data i (SHA1Transform h (sha_state context) buffer)
                  in (i, 0, context\<lparr>sha_buffer := buffer, sha_state := state\<rparr>)
             else (0, index, context))
      in context\<lparr>sha_buffer := mem_write (sha_buffer context) index (mem_read data i (input_len - i))\<rparr>)"

text \<open>The padding loop of \<^verbatim>\<open>SHA1Final\<close>: zero bytes until the count stands at 56 bytes of a block. Sixty-four
  rounds are always enough; \<open>SHA1Final_digest\<close> rests on it.\<close>

fun sha1_pad :: "nat \<Rightarrow> bool \<Rightarrow> sha1_ctx \<Rightarrow> sha1_ctx option" where
  "sha1_pad fuel h context =
     (if sha_count0 context AND 504 = 448 then Some context
      else case fuel of 0 \<Rightarrow> None | Suc fuel \<Rightarrow> sha1_pad fuel h (SHA1Update h context [0]))"

declare sha1_pad.simps [simp del]

definition SHA1Final :: "bool \<Rightarrow> sha1_ctx \<Rightarrow> (byte list \<times> sha1_ctx) option" where
  "SHA1Final h context =
     (let count = (\<lambda>j. if j = (0 :: nat) then sha_count0 context else sha_count1 context);
          finalcount = map (\<lambda>i. ucast (drop_bit ((3 - i mod 4) * 8) (count (if i \<ge> 4 then 0 else 1)) AND 255)) [0..<8];
          context = SHA1Update h context [0x80]
      in case sha1_pad 64 h context of
           None \<Rightarrow> None
         | Some context \<Rightarrow>
             (let context = SHA1Update h context finalcount;
                  digest = map (\<lambda>i. ucast (drop_bit ((3 - i mod 4) * 8) (sha_state context ! (i div 4)) AND 255))
                    [0..<SHA1_DIGEST_SIZE]
              in Some (digest, context\<lparr>sha_buffer := replicate 64 0, sha_count0 := 0, sha_count1 := 0,
                   sha_state := SHA1Transform h (replicate 5 0) (replicate 64 0)\<rparr>)))"

section \<open>The compression function of the standard\<close>

text \<open>The schedule of FIPS 180 section 6.1: eighty words from the sixteen big-endian words of a block.\<close>

function fips_W :: "byte list \<Rightarrow> nat \<Rightarrow> u32" where
  "fips_W block t =
     (if t < 16 then GetBE32 (mem_read block (4 * t) 4)
      else rol (fips_W block (t - 3) XOR fips_W block (t - 8) XOR fips_W block (t - 14) XOR fips_W block (t - 16)) 1)"
  by pat_completeness auto

termination
  by (relation "measure snd") auto

declare fips_W.simps [simp del]

definition fips_f :: "nat \<Rightarrow> u32 \<Rightarrow> u32 \<Rightarrow> u32 \<Rightarrow> u32" where
  "fips_f t x y z =
     (if t < 20 then (x AND y) XOR (NOT x AND z)
      else if t < 40 then x XOR y XOR z
      else if t < 60 then (x AND y) XOR (x AND z) XOR (y AND z)
      else x XOR y XOR z)"

definition fips_step :: "byte list \<Rightarrow> sha_vars \<Rightarrow> nat \<Rightarrow> sha_vars" where
  "fips_step block vars t =
     (let (a, b, c, d, e) = vars
      in (rol a 5 + fips_f t b c d + e + round_k t + fips_W block t, a, rol b 30, c, d))"

definition fips_compress :: "u32 list \<Rightarrow> byte list \<Rightarrow> u32 list" where
  "fips_compress H block =
     (let (a, b, c, d, e) = foldl (fips_step block) (H ! 0, H ! 1, H ! 2, H ! 3, H ! 4) [0..<80]
      in [H ! 0 + a, H ! 1 + b, H ! 2 + c, H ! 3 + d, H ! 4 + e])"

definition fips_init :: "u32 list" where
  "fips_init = [0x67452301, 0xEFCDAB89, 0x98BADCFE, 0x10325476, 0xC3D2E1F0]"

definition fips_sha1 :: "byte list \<Rightarrow> byte list" where
  "fips_sha1 m = concat (map be32 (foldl fips_compress fips_init (blocks (pad_with be64 m))))"

lemma round_f_fips: "round_f t x y z = fips_f t x y z"
  by (rule bit_word_eqI) (auto simp: round_f_def fips_f_def bit_simps)

lemma byte_bit: "8 \<le> n \<Longrightarrow> \<not> bit (b :: byte) n"
  by (auto dest: bit_imp_le_length)

lemma bit_rol: "n < 32 \<Longrightarrow> k \<le> 32 \<Longrightarrow> bit (rol w k) n \<longleftrightarrow> bit w (if k \<le> n then n - k else n + 32 - k)"
  by (auto simp: rol_def bit_simps add.commute dest: bit_imp_le_length)

lemma quarters:
  fixes n :: nat
  assumes "n < 32"
  obtains r where "r < 8" "n = r" | r where "r < 8" "n = 8 + r" | r where "r < 8" "n = 16 + r" | r where "r < 8" "n = 24 + r"
proof -
  consider "n < 8" | "8 \<le> n" "n < 16" | "16 \<le> n" "n < 24" | "24 \<le> n" using assms by linarith
  then show thesis
    using assms that(1) [of n] that(2) [of "n - 8"] that(3) [of "n - 16"] that(4) [of "n - 24"] by cases auto
qed

lemma bit_GetBE32: "r < 8 \<Longrightarrow> bit (GetBE32 [a, b, c, d]) r = bit d r \<and> bit (GetBE32 [a, b, c, d]) (8 + r) = bit c r \<and>
    bit (GetBE32 [a, b, c, d]) (16 + r) = bit b r \<and> bit (GetBE32 [a, b, c, d]) (24 + r) = bit a r"
  by (simp add: byte_defs bit_simps byte_bit)

lemma blk0_word:
  assumes "length m = 4"
  shows "(rol (host_load32 False m) 24 AND 0xFF00FF00) OR (rol (host_load32 False m) 8 AND 0x00FF00FF) = GetBE32 m"
proof -
  obtain a b c d where m: "m = [a, b, c, d]" using assms by (auto simp: list_of_length4)
  define v where "v = GetBE32 [d, c, b, a]"
  have load: "host_load32 False m = v" by (simp add: v_def m host_load32_def GetLE32_rev)
  have v: "bit v r = bit a r" "bit v (8 + r) = bit b r" "bit v (16 + r) = bit c r" "bit v (24 + r) = bit d r" if "r < 8" for r
    using bit_GetBE32 [OF that] by (simp_all add: v_def)
  have mask: "(0xFF00FF00 :: u32) = push_bit 24 (mask 8) OR push_bit 8 (mask 8)" "(0x00FF00FF :: u32) = push_bit 16 (mask 8) OR mask 8"
    by (simp_all add: mask_eq_exp_minus_1)
  show ?thesis unfolding load unfolding m mask
  proof (rule bit_word_eqI)
    fix n assume "n < LENGTH(32)"
    then have n: "n < 32" by simp
    then show "bit (rol v 24 AND (push_bit 24 (mask 8) OR push_bit 8 (mask 8)) OR rol v 8 AND (push_bit 16 (mask 8) OR mask 8)) n =
        bit (GetBE32 [a, b, c, d]) n"
    proof (cases rule: quarters)
      case (1 r)
      with v [of r] bit_GetBE32 [of r a b c d] show ?thesis by (simp add: bit_and_iff bit_or_iff bit_rol bit_simps)
    next
      case (2 r)
      with v [of r] bit_GetBE32 [of r a b c d] show ?thesis by (simp add: bit_and_iff bit_or_iff bit_rol bit_simps)
    next
      case (3 r)
      with v [of r] bit_GetBE32 [of r a b c d] show ?thesis by (simp add: bit_and_iff bit_or_iff bit_rol bit_simps)
    next
      case (4 r)
      with v [of r] bit_GetBE32 [of r a b c d] show ?thesis by (simp add: bit_and_iff bit_or_iff bit_rol bit_simps)
    qed
  qed
qed

section \<open>The transform is the compression function\<close>

text \<open>After \<open>t\<close> rounds the block holds the last sixteen words of the schedule, and the words of the input where no
  round has been yet.\<close>

definition schedule_at :: "bool \<Rightarrow> byte list \<Rightarrow> nat \<Rightarrow> u32 list \<Rightarrow> bool" where
  "schedule_at h buffer t l \<longleftrightarrow> length l = 16 \<and>
     (\<forall>s<t. t \<le> s + 16 \<longrightarrow> l ! (s mod 16) = fips_W buffer s) \<and>
     (\<forall>j<16. t \<le> j \<longrightarrow> l ! j = host_load32 h (mem_read buffer (4 * j) 4))"

lemma schedule_blk0:
  assumes "schedule_at h buffer t l" "t < 16" "length buffer = 64"
  shows "schedule_at h buffer (Suc t) (blk0 h l t) \<and> blk0 h l t ! t = fips_W buffer t"
proof -
  have len: "length (mem_read buffer (4 * t) 4) = 4" using assms(2,3) by (simp add: length_mem_read)
  have raw: "l ! t = host_load32 h (mem_read buffer (4 * t) 4)" "length l = 16" using assms(1,2) by (auto simp: schedule_at_def)
  have "blk0 h l t = l[t := fips_W buffer t]"
  proof (cases h)
    case True
    then have "fips_W buffer t = l ! t" using raw assms(2) by (simp add: fips_W.simps host_load32_def)
    with True show ?thesis by (simp add: blk0_def)
  next
    case False
    then show ?thesis using raw assms(2) blk0_word [OF len] by (simp add: blk0_def fips_W.simps)
  qed
  with assms(1,2) raw(2) show ?thesis by (auto simp: schedule_at_def nth_list_update less_Suc_eq)
qed

lemma schedule_blk:
  assumes "schedule_at h buffer t l" "16 \<le> t"
  shows "schedule_at h buffer (Suc t) (blk l t) \<and> blk l t ! (t mod 16) = fips_W buffer t"
proof -
  have len: "length l = 16" and W: "\<And>s. s < t \<Longrightarrow> t \<le> s + 16 \<Longrightarrow> l ! (s mod 16) = fips_W buffer s"
    using assms(1) by (auto simp: schedule_at_def)
  have m: "(t + 13) mod 16 = (t - 3) mod 16" "(t + 8) mod 16 = (t - 8) mod 16" "(t + 2) mod 16 = (t - 14) mod 16"
    "t mod 16 = (t - 16) mod 16" using assms(2) by (simp_all add: mod_eq_iff_dvd_symdiff_nat le_mod_geq)
  have "fips_W buffer t = rol (fips_W buffer (t - 3) XOR fips_W buffer (t - 8) XOR fips_W buffer (t - 14) XOR fips_W buffer (t - 16)) 1"
    using assms(2) by (subst fips_W.simps) simp
  also have "\<dots> = rol (l ! ((t + 13) mod 16) XOR l ! ((t + 8) mod 16) XOR l ! ((t + 2) mod 16) XOR l ! (t mod 16)) 1"
    unfolding m using assms(2) W [of "t - 3"] W [of "t - 8"] W [of "t - 14"] W [of "t - 16"] by simp
  finally have b: "blk l t = l[t mod 16 := fips_W buffer t]" by (simp add: blk_def)
  have ne: "s mod 16 \<noteq> t mod 16" if "s < t" "t < s + 16" for s
    using that by (metis add_diff_inverse_nat less_diff_conv2 less_imp_le_nat mod_eq_dvd_iff_nat nat_dvd_not_less not_less zero_less_diff add.commute)
  have "l[t mod 16 := fips_W buffer t] ! (s mod 16) = fips_W buffer s" if "s < t" "t < s + 16" for s
    using that W [of s] ne [OF that] len by (simp add: nth_list_update)
  then show ?thesis using len assms(2) by (auto simp: b schedule_at_def less_Suc_eq)
qed

lemma rounds_fips:
  assumes "length buffer = 64" "n \<le> 80"
  shows "\<exists>l. foldl (sha_round h) (vars, map (\<lambda>i. host_load32 h (mem_read buffer (4 * i) 4)) [0..<16]) [0..<n] =
      (foldl (fips_step buffer) vars [0..<n], l) \<and> schedule_at h buffer n l"
  using assms(2)
proof (induction n)
  case 0
  show ?case by (simp add: schedule_at_def)
next
  case (Suc n)
  then obtain l where l: "foldl (sha_round h) (vars, map (\<lambda>i. host_load32 h (mem_read buffer (4 * i) 4)) [0..<16]) [0..<n] =
      (foldl (fips_step buffer) vars [0..<n], l)" "schedule_at h buffer n l" by auto
  obtain a b c d e where v: "foldl (fips_step buffer) vars [0..<n] = (a, b, c, d, e)" by (metis prod_cases5)
  define l' where "l' = (if n < 16 then blk0 h l n else blk l n)"
  have "schedule_at h buffer (Suc n) l' \<and> l' ! (n mod 16) = fips_W buffer n"
    using schedule_blk0 [OF l(2) _ assms(1)] schedule_blk [OF l(2)] by (simp add: l'_def)
  moreover have "sha_round h ((a, b, c, d, e), l) n = (fips_step buffer (a, b, c, d, e) n, l')"
    using calculation by (simp add: sha_round_def fips_step_def l'_def [symmetric] round_f_fips Let_def algebra_simps)
  ultimately show ?case using l(1) v by auto
qed

lemma SHA1Transform_fips: "length buffer = 64 \<Longrightarrow> SHA1Transform h state buffer = fips_compress state buffer"
  using rounds_fips [of buffer 80 h "(state ! 0, state ! 1, state ! 2, state ! 3, state ! 4)"]
  by (auto simp: SHA1Transform_def fips_compress_def Let_def split: prod.splits)

section \<open>Absorbing a message\<close>

lemma sha1_blocks_spec:
  "i \<le> length data \<Longrightarrow> sha1_blocks h data i state =
     (i + 64 * ((length data - i) div 64), foldl fips_compress state (blocks (drop i data)))"
proof (induction h data i state rule: sha1_blocks.induct)
  case (1 h data i state)
  show ?case
  proof (cases "i + 63 < length data")
    case True
    define j where "j = length data - i"
    have j: "64 \<le> j" "length data - (i + 64) = j - 64" using True by (auto simp: j_def)
    have "sha1_blocks h data i state = sha1_blocks h data (i + 64) (fips_compress state (take 64 (drop i data)))"
      using True by (subst sha1_blocks.simps) (simp add: SHA1Transform_fips mem_read_def)
    also have "\<dots> = (i + 64 + 64 * ((j - 64) div 64), foldl fips_compress (fips_compress state (take 64 (drop i data)))
        (blocks (drop (i + 64) data)))"
      using "1.IH" [OF True] True j(2) by (simp add: SHA1Transform_fips mem_read_def)
    also have "(j - 64) div 64 = j div 64 - 1" using j(1) by (simp add: le_div_geq)
    also have "i + 64 + 64 * (j div 64 - 1) = i + 64 * (j div 64)" using j(1) by (simp add: le_div_geq)
    finally show ?thesis using blocks_step(1) [of "drop i data"] j(1) by (simp add: j_def add.commute)
  next
    case False
    then have "length data - i < 64" by simp
    then show ?thesis using False by (subst sha1_blocks.simps) simp
  qed
qed

definition sha1_absorbed :: "byte list \<Rightarrow> sha1_ctx \<Rightarrow> bool" where
  "sha1_absorbed m c \<longleftrightarrow>
     absorbed fips_compress fips_init m (sha_state c) (sha_count0 c) (sha_count1 c) (sha_buffer c)"

lemma SHA1Init_absorbed: "length (sha_buffer c) = 64 \<Longrightarrow> sha1_absorbed [] (SHA1Init c)"
  by (simp add: sha1_absorbed_def absorbed_def SHA1Init_def fips_init_def)

lemma SHA1Update_absorbed:
  assumes "sha1_absorbed m c"
  shows "sha1_absorbed (m @ d) (SHA1Update h c d)"
proof -
  let ?k = "length m mod 64" and ?n = "length d"
  let ?x = "unfinished m @ d"
  have abs: "absorbed fips_compress fips_init m (sha_state c) (sha_count0 c) (sha_count1 c) (sha_buffer c)"
    using assms by (simp add: sha1_absorbed_def)
  then have cnt: "bit_count (sha_count0 c) (sha_count1 c) (length m)" and buf: "length (sha_buffer c) = 64"
    and r: "take ?k (sha_buffer c) = unfinished m" by (simp_all add: absorbed_def)
  have k: "unat (drop_bit 3 (sha_count0 c) AND 63) = ?k" using cnt by (rule bit_count_index)
  define low where "low = sha_count0 c + word_of_nat (8 * ?n)"
  define high where "high = (if low < word_of_nat (8 * ?n) then sha_count1 c + 1 else sha_count1 c) + word_of_nat (?n div 2 ^ 29)"
  have cnt': "bit_count low high (length m + ?n)"
    unfolding low_def high_def by (rule bit_count_add(1) [OF cnt])
  show ?thesis
  proof (cases "?k + ?n > 63")
    case False
    then have "SHA1Update h c d = c\<lparr>sha_count0 := low, sha_count1 := high, sha_buffer := mem_write (sha_buffer c) ?k d\<rparr>"
      by (simp add: SHA1Update_def k low_def high_def Let_def mem_read_def)
    then show ?thesis unfolding sha1_absorbed_def
      using False buf r by (simp, intro absorbed_more [OF abs refl _ cnt']) (simp_all add: mem_write_def)
  next
    case True
    let ?i = "64 - ?k"
    define b where "b = mem_write (sha_buffer c) ?k (mem_read d 0 ?i)"
    define j where "j = ?i + 64 * ((?n - ?i) div 64)"
    have i: "?i \<le> ?n" "?k < 64" using True by auto
    have b: "b = take 64 ?x" "length b = 64"
      using i buf r by (simp_all add: b_def mem_write_def mem_read_def)
    have st: "sha1_blocks h d ?i (SHA1Transform h (sha_state c) b) =
        (j, foldl fips_compress (sha_state c) (blocks ?x))"
      using sha1_blocks_spec [OF i(1)] blocks_step(1) [of ?x] True b i
      by (simp add: SHA1Transform_fips j_def)
    have "SHA1Update h c d = c\<lparr>sha_count0 := low, sha_count1 := high, sha_state := foldl fips_compress (sha_state c) (blocks ?x),
        sha_buffer := mem_write b 0 (mem_read d j (?n - j))\<rparr>"
      using True st by (simp add: SHA1Update_def k low_def high_def Let_def b_def)
    moreover have fin: "unfinished ?x = drop j d"
      using blocks_step(2) [of ?x] True i by (simp add: unfinished_def [of "drop ?i d"] j_def add.commute)
    have "length (drop j d) = length ?x mod 64" using arg_cong [OF fin, of length] by simp
    then have "length (mem_write b 0 (drop j d)) = 64" "take (length ?x mod 64) (mem_write b 0 (drop j d)) = drop j d"
      using b(2) by (simp_all add: mem_write_def)
    ultimately show ?thesis unfolding sha1_absorbed_def
      by (simp add: mem_read_def, intro absorbed_more [OF abs refl _ cnt']) (simp_all add: fin)
  qed
qed

section \<open>The digest\<close>

lemma ucast_and_255 [simp]: "(ucast (w AND 255 :: u32) :: byte) = ucast w"
proof -
  have m: "(255 :: u32) = mask 8" by (simp add: mask_eq_exp_minus_1)
  show ?thesis unfolding m by (rule bit_word_eqI) (auto simp: bit_simps)
qed

lemma bit_count_56:
  assumes "bit_count low high n"
  shows "low AND 504 = 448 \<longleftrightarrow> n mod 64 = 56"
proof -
  have m: "(504 :: u32) = push_bit 3 (mask 6)" "(63 :: u32) = mask 6" by (simp_all add: mask_eq_exp_minus_1)
  have e: "low AND 504 = push_bit 3 (drop_bit 3 low AND 63)" "drop_bit 3 low AND 63 = drop_bit 3 (low AND 504)"
    unfolding m by (rule bit_word_eqI; auto simp: bit_simps)+
  have "low AND 504 = 448 \<longleftrightarrow> drop_bit 3 low AND 63 = 56"
  proof
    show "drop_bit 3 low AND 63 = 56" if "low AND 504 = 448" unfolding e(2) that by simp
    show "low AND 504 = 448" if "drop_bit 3 low AND 63 = 56" unfolding e(1) that by simp
  qed
  also have "\<dots> \<longleftrightarrow> unat (drop_bit 3 low AND 63) = 56" by (simp add: word_unat_eq_iff)
  finally show ?thesis by (simp add: bit_count_index [OF assms])
qed

lemma sha1_pad_spec:
  assumes "sha1_absorbed m c" "(length m + z) mod 64 = 56" "z < 64" "z \<le> fuel"
  shows "\<exists>c'. sha1_pad fuel h c = Some c' \<and> sha1_absorbed (m @ replicate z 0) c'"
  using assms
proof (induction z arbitrary: m c fuel)
  case 0
  then have "sha_count0 c AND 504 = 448" using bit_count_56 [of "sha_count0 c" "sha_count1 c" "length m"]
    by (simp add: sha1_absorbed_def absorbed_def)
  with 0 show ?case by (simp add: sha1_pad.simps)
next
  case (Suc z)
  have "length m mod 64 \<noteq> 56"
  proof
    assume "length m mod 64 = 56"
    then have "(length m + Suc z) mod 64 = (56 + Suc z) mod 64" by (metis mod_add_left_eq)
    then show False using Suc.prems(2,3) by (cases "z < 7") (auto simp: le_mod_geq)
  qed
  then have "sha_count0 c AND 504 \<noteq> 448"
    using bit_count_56 [of "sha_count0 c" "sha_count1 c" "length m"] Suc.prems(1) by (simp add: sha1_absorbed_def absorbed_def)
  moreover obtain f where "fuel = Suc f" "z \<le> f" using Suc.prems(4) by (cases fuel) auto
  moreover have "sha1_absorbed (m @ [0]) (SHA1Update h c [0])" by (rule SHA1Update_absorbed [OF Suc.prems(1)])
  ultimately show ?case
    using Suc.IH [of "m @ [0]" "SHA1Update h c [0]" f] Suc.prems(2,3) by (simp add: sha1_pad.simps [of "Suc _"])
qed

lemma length_fips_fold: "length s = 5 \<Longrightarrow> length (foldl fips_compress s bs) = 5"
  by (induction bs arbitrary: s) (simp_all add: fips_compress_def Let_def split: prod.splits)

lemma be32_fold: "length s = 5 \<Longrightarrow>
    map (\<lambda>i. ucast (drop_bit ((3 - i mod 4) * 8) (s ! (i div 4)) AND 255)) [0..<SHA1_DIGEST_SIZE] = concat (map be32 s)"
proof -
  assume "length s = 5"
  then obtain a b c d e where s: "s = [a, b, c, d, e]" by (auto simp: numeral_eq_Suc length_Suc_conv)
  have u: "[0..<20] = [0, 1, 2, 3, 4, 5, 6, 7, 8, 9, 10, 11, 12, 13, 14, 15, 16, 17, 18, 19 :: nat]" by (simp add: upt_rec)
  show ?thesis by (simp add: SHA1_DIGEST_SIZE_def u be32_def s)
qed

lemma SHA1Final_spec:
  assumes "sha1_absorbed m c"
  obtains c' where "SHA1Final h c = Some (fips_sha1 m, c')" "length (sha_buffer c') = 64"
proof -
  let ?z = "zeros_for (length m)"
  have cnt: "bit_count (sha_count0 c) (sha_count1 c) (length m)" using assms by (simp add: sha1_absorbed_def absorbed_def)
  define fc :: "byte list" where "fc = map (\<lambda>i. ucast (drop_bit ((3 - i mod 4) * 8)
      (if (if i \<ge> 4 then 0 else 1) = (0 :: nat) then sha_count0 c else sha_count1 c) AND 255)) [0..<8]"
  have "fc = be32 (sha_count1 c) @ be32 (sha_count0 c)" by (simp add: fc_def upt_rec be32_def)
  then have fc: "fc = be64 (word_of_nat (8 * length m))" using finalcount_bytes [OF cnt] by simp
  have "sha1_absorbed (m @ [0x80]) (SHA1Update h c [0x80])" by (rule SHA1Update_absorbed [OF assms])
  moreover have "(length (m @ [0x80]) + ?z) mod 64 = 56" "?z < 64"
  proof -
    show "?z < 64" by (simp add: zeros_for_def)
    obtain q where q: "length m + 1 + ?z + 8 = 64 * q" using zeros_for_pad [of "length m"] by (auto simp: mod_eq_0_iff_dvd)
    then have "length m + 1 + ?z = 56 + 64 * (q - 1)" by linarith
    then show "(length (m @ [0x80]) + ?z) mod 64 = 56" by simp
  qed
  ultimately obtain c1 where c1: "sha1_pad 64 h (SHA1Update h c [0x80]) = Some c1"
    "sha1_absorbed ((m @ [0x80]) @ replicate ?z 0) c1"
    using sha1_pad_spec [of "m @ [0x80]" "SHA1Update h c [0x80]" ?z 64 h] by auto
  define c2 where "c2 = SHA1Update h c1 fc"
  have "sha1_absorbed (pad_with be64 m) c2"
    using SHA1Update_absorbed [OF c1(2), of fc h] by (simp add: c2_def pad_with_def fc)
  then have "sha_state c2 = foldl fips_compress fips_init (blocks (pad_with be64 m))"
    by (simp add: sha1_absorbed_def absorbed_def)
  moreover have "length (sha_state c2) = 5" unfolding calculation by (rule length_fips_fold) (simp add: fips_init_def)
  ultimately have "map (\<lambda>i. ucast (drop_bit ((3 - i mod 4) * 8) (sha_state c2 ! (i div 4)) AND 255)) [0..<SHA1_DIGEST_SIZE]
      = fips_sha1 m" by (subst be32_fold) (simp_all add: fips_sha1_def)
  then have "\<exists>c'. SHA1Final h c = Some (fips_sha1 m, c') \<and> length (sha_buffer c') = 64"
    by (simp add: SHA1Final_def c1(1) Let_def c2_def fc_def)
  with that show thesis by blast
qed

end
