(* ===== verification/Md5.thy ===== *)
theory Md5
  imports Block_Hash
begin

text \<open>
  \<^verbatim>\<open>base/md5.h\<close>, \<^verbatim>\<open>base/md5.cc\<close> and \<^verbatim>\<open>base/md5digest.h\<close>: the built-in MD5. The context's input block is an
  array of sixteen 32-bit words that is filled bytewise; the model keeps its bytes, and reading it as words depends
  on the byte order \<open>h\<close> of the host, which \<^verbatim>\<open>ByteReverse\<close> compensates on big-endian hosts. The sixty-four
  unrolled steps of the transform are rows of a table, each step handing the four working variables on in the order
  of the next one. The lemmas show that the steps are those of RFC 1321 and that the context computes the digest of
  the padded message on hosts of either byte order, however the message is cut into updates.
\<close>

record md5_context =
  md5_buf :: "u32 list"
  md5_bits0 :: u32
  md5_bits1 :: u32
  md5_in :: "byte list"

section \<open>The transform\<close>

definition F1 :: "u32 \<Rightarrow> u32 \<Rightarrow> u32 \<Rightarrow> u32" where "F1 x y z = z XOR (x AND (y XOR z))"
definition F2 :: "u32 \<Rightarrow> u32 \<Rightarrow> u32 \<Rightarrow> u32" where "F2 x y z = F1 z x y"
definition F3 :: "u32 \<Rightarrow> u32 \<Rightarrow> u32 \<Rightarrow> u32" where "F3 x y z = x XOR y XOR z"
definition F4 :: "u32 \<Rightarrow> u32 \<Rightarrow> u32 \<Rightarrow> u32" where "F4 x y z = y XOR (x OR NOT z)"

type_synonym md5_vars = "u32 \<times> u32 \<times> u32 \<times> u32"

definition MD5STEP ::
    "(u32 \<Rightarrow> u32 \<Rightarrow> u32 \<Rightarrow> u32) \<Rightarrow> md5_vars \<Rightarrow> u32 \<Rightarrow> nat \<Rightarrow> md5_vars" where
  "MD5STEP f vars data s =
     (let (w, x, y, z) = vars;
          w = w + (f x y z + data);
          w = push_bit s w OR drop_bit (32 - s) w;
          w = w + x
      in (z, w, x, y))"

text \<open>The index of the input word, the constant and the shift of each step, in the order of the calls.\<close>

definition md5_steps :: "(nat \<times> u32 \<times> nat) list" where
  "md5_steps =
    [(0, 0xd76aa478, 7), (1, 0xe8c7b756, 12), (2, 0x242070db, 17), (3, 0xc1bdceee, 22),
     (4, 0xf57c0faf, 7), (5, 0x4787c62a, 12), (6, 0xa8304613, 17), (7, 0xfd469501, 22),
     (8, 0x698098d8, 7), (9, 0x8b44f7af, 12), (10, 0xffff5bb1, 17), (11, 0x895cd7be, 22),
     (12, 0x6b901122, 7), (13, 0xfd987193, 12), (14, 0xa679438e, 17), (15, 0x49b40821, 22),
     (1, 0xf61e2562, 5), (6, 0xc040b340, 9), (11, 0x265e5a51, 14), (0, 0xe9b6c7aa, 20),
     (5, 0xd62f105d, 5), (10, 0x02441453, 9), (15, 0xd8a1e681, 14), (4, 0xe7d3fbc8, 20),
     (9, 0x21e1cde6, 5), (14, 0xc33707d6, 9), (3, 0xf4d50d87, 14), (8, 0x455a14ed, 20),
     (13, 0xa9e3e905, 5), (2, 0xfcefa3f8, 9), (7, 0x676f02d9, 14), (12, 0x8d2a4c8a, 20),
     (5, 0xfffa3942, 4), (8, 0x8771f681, 11), (11, 0x6d9d6122, 16), (14, 0xfde5380c, 23),
     (1, 0xa4beea44, 4), (4, 0x4bdecfa9, 11), (7, 0xf6bb4b60, 16), (10, 0xbebfbc70, 23),
     (13, 0x289b7ec6, 4), (0, 0xeaa127fa, 11), (3, 0xd4ef3085, 16), (6, 0x04881d05, 23),
     (9, 0xd9d4d039, 4), (12, 0xe6db99e5, 11), (15, 0x1fa27cf8, 16), (2, 0xc4ac5665, 23),
     (0, 0xf4292244, 6), (7, 0x432aff97, 10), (14, 0xab9423a7, 15), (5, 0xfc93a039, 21),
     (12, 0x655b59c3, 6), (3, 0x8f0ccc92, 10), (10, 0xffeff47d, 15), (1, 0x85845dd1, 21),
     (8, 0x6fa87e4f, 6), (15, 0xfe2ce6e0, 10), (6, 0xa3014314, 15), (13, 0x4e0811a1, 21),
     (4, 0xf7537e82, 6), (11, 0xbd3af235, 10), (2, 0x2ad7d2bb, 15), (9, 0xeb86d391, 21)]"

definition md5_round :: "u32 list \<Rightarrow> md5_vars \<Rightarrow> nat \<Rightarrow> md5_vars" where
  "md5_round inw vars i =
     (let (k, t, s) = md5_steps ! i;
          f = (if i < 16 then F1 else if i < 32 then F2 else if i < 48 then F3 else F4)
      in MD5STEP f vars (inw ! k + t) s)"

definition MD5Transform :: "u32 list \<Rightarrow> u32 list \<Rightarrow> u32 list" where
  "MD5Transform buf inw =
     (let (a, b, c, d) = foldl (md5_round inw) (buf ! 0, buf ! 1, buf ! 2, buf ! 3) [0..<64]
      in [buf ! 0 + a, buf ! 1 + b, buf ! 2 + c, buf ! 3 + d])"

section \<open>The context\<close>

definition md5_words :: "bool \<Rightarrow> byte list \<Rightarrow> u32 list" where
  "md5_words h inb = map (\<lambda>i. host_load32 h (mem_read inb (4 * i) 4)) [0..<16]"

definition ByteReverse :: "bool \<Rightarrow> byte list \<Rightarrow> nat \<Rightarrow> byte list" where
  "ByteReverse h inb len =
     (if \<not> h then inb
      else foldl (\<lambda>inb i. mem_write inb (4 * i) (host_store32 h (GetLE32 (mem_read inb (4 * i) 4)))) inb [0..<len])"

definition MD5Init :: "md5_context \<Rightarrow> md5_context" where
  "MD5Init ctx = ctx\<lparr>md5_buf := [0x67452301, 0xefcdab89, 0x98badcfe, 0x10325476], md5_bits0 := 0, md5_bits1 := 0\<rparr>"

text \<open>The loop over the whole blocks; it leaves the last of them in the context's input.\<close>

function md5_blocks :: "bool \<Rightarrow> md5_context \<Rightarrow> byte list \<Rightarrow> md5_context \<times> byte list" where
  "md5_blocks h ctx buf =
     (if length buf \<ge> 64
      then let inb = ByteReverse h (mem_write (md5_in ctx) 0 (mem_read buf 0 64)) 16
           in md5_blocks h (ctx\<lparr>md5_in := inb, md5_buf := MD5Transform (md5_buf ctx) (md5_words h inb)\<rparr>) (drop 64 buf)
      else (ctx, buf))"
  by pat_completeness auto

termination
  by (relation "measure (\<lambda>(h, ctx, buf). length buf)") auto

declare md5_blocks.simps [simp del]

definition MD5Update :: "bool \<Rightarrow> md5_context \<Rightarrow> byte list \<Rightarrow> md5_context" where
  "MD5Update h ctx buf =
     (let len = length buf;
          t = md5_bits0 ctx;
          bits0 = t + word_of_nat (8 * len);
          bits1 = (if bits0 < t then md5_bits1 ctx + 1 else md5_bits1 ctx);
          bits1 = bits1 + word_of_nat (len div 2 ^ 29);
          ctx = ctx\<lparr>md5_bits0 := bits0, md5_bits1 := bits1\<rparr>;
          t = unat (drop_bit 3 t AND 0x3f)
      in if t \<noteq> 0 \<and> len < 64 - t
         then ctx\<lparr>md5_in := mem_write (md5_in ctx) t buf\<rparr>
         else let (ctx, buf) =
                    (if t \<noteq> 0
                     then let inb = ByteReverse h (mem_write (md5_in ctx) t (mem_read buf 0 (64 - t))) 16
                          in (ctx\<lparr>md5_in := inb, md5_buf := MD5Transform (md5_buf ctx) (md5_words h inb)\<rparr>,
                              drop (64 - t) buf)
                     else (ctx, buf));
                  (ctx, buf) = md5_blocks h ctx buf
              in ctx\<lparr>md5_in := mem_write (md5_in ctx) 0 buf\<rparr>)"

definition MD5Final :: "bool \<Rightarrow> md5_context \<Rightarrow> byte list \<times> md5_context" where
  "MD5Final h ctx =
     (let count = unat (drop_bit 3 (md5_bits0 ctx) AND 0x3F);
          inb = mem_write (md5_in ctx) count [0x80];
          p = count + 1;
          count = 64 - 1 - count;
          (inb, buf) =
            (if count < 8
             then let inb = ByteReverse h (mem_write inb p (replicate count 0)) 16
                  in (mem_write inb 0 (replicate 56 0), MD5Transform (md5_buf ctx) (md5_words h inb))
             else (mem_write inb p (replicate (count - 8) 0), md5_buf ctx));
          inb = ByteReverse h inb 14;
          inb = mem_write inb (4 * 14) (host_store32 h (md5_bits0 ctx));
          inb = mem_write inb (4 * 15) (host_store32 h (md5_bits1 ctx));
          buf = MD5Transform buf (md5_words h inb);
          digest = ByteReverse h (concat (map (host_store32 h) buf)) 4
      in (digest, ctx\<lparr>md5_buf := replicate 4 0, md5_bits0 := 0, md5_bits1 := 0, md5_in := replicate 64 0\<rparr>))"

section \<open>The compression function of the standard\<close>

text \<open>RFC 1321: the auxiliary functions, the word used in each step and the shift amounts by their patterns; the
  constants are those of the table.\<close>

definition rfc_f :: "nat \<Rightarrow> u32 \<Rightarrow> u32 \<Rightarrow> u32 \<Rightarrow> u32" where
  "rfc_f i x y z =
     (if i < 16 then (x AND y) OR (NOT x AND z)
      else if i < 32 then (x AND z) OR (y AND NOT z)
      else if i < 48 then x XOR y XOR z
      else y XOR (x OR NOT z))"

definition rfc_index :: "nat \<Rightarrow> nat" where
  "rfc_index i = (if i < 16 then i else if i < 32 then (5 * i + 1) mod 16 else if i < 48 then (3 * i + 5) mod 16
     else (7 * i) mod 16)"

definition rfc_shift :: "nat \<Rightarrow> nat" where
  "rfc_shift i = (if i < 16 then [7, 12, 17, 22] else if i < 32 then [5, 9, 14, 20]
     else if i < 48 then [4, 11, 16, 23] else [6, 10, 15, 21]) ! (i mod 4)"

definition rfc_step :: "byte list \<Rightarrow> md5_vars \<Rightarrow> nat \<Rightarrow> md5_vars" where
  "rfc_step block vars i =
     (let (a, b, c, d) = vars;
          sum = a + rfc_f i b c d + GetLE32 (mem_read block (4 * rfc_index i) 4) + fst (snd (md5_steps ! i))
      in (d, b + (push_bit (rfc_shift i) sum OR drop_bit (32 - rfc_shift i) sum), b, c))"

definition rfc_compress :: "u32 list \<Rightarrow> byte list \<Rightarrow> u32 list" where
  "rfc_compress buf block =
     (let (a, b, c, d) = foldl (rfc_step block) (buf ! 0, buf ! 1, buf ! 2, buf ! 3) [0..<64]
      in [buf ! 0 + a, buf ! 1 + b, buf ! 2 + c, buf ! 3 + d])"

definition rfc_init :: "u32 list" where
  "rfc_init = [0x67452301, 0xefcdab89, 0x98badcfe, 0x10325476]"

definition le64 :: "u64 \<Rightarrow> byte list" where "le64 v = rev (be64 v)"

definition rfc_md5 :: "byte list \<Rightarrow> byte list" where
  "rfc_md5 m = concat (map (\<lambda>w. rev (be32 w)) (foldl rfc_compress rfc_init (blocks (pad_with le64 m))))"

lemma F_rfc: "(if i < 16 then F1 else if i < 32 then F2 else if i < 48 then F3 else F4) x y z = rfc_f i x y z"
  by (rule bit_word_eqI) (auto simp: F1_def F2_def F3_def F4_def rfc_f_def bit_simps)

lemma steps_rfc: "i < 64 \<Longrightarrow> fst (md5_steps ! i) = rfc_index i \<and> snd (snd (md5_steps ! i)) = rfc_shift i"
proof -
  assume "i < 64"
  have "\<forall>i \<in> set [0..<64]. fst (md5_steps ! i) = rfc_index i \<and> snd (snd (md5_steps ! i)) = rfc_shift i"
    by code_simp
  with \<open>i < 64\<close> show ?thesis by simp
qed

lemma round_rfc:
  assumes "i < 64" "\<And>k. k < 16 \<Longrightarrow> inw ! k = GetLE32 (mem_read block (4 * k) 4)"
  shows "md5_round inw vars i = rfc_step block vars i"
proof -
  obtain w x y z where v: "vars = (w, x, y, z)" by (metis prod_cases4)
  obtain k t s where r: "md5_steps ! i = (k, t, s)" by (metis prod_cases3)
  have "k = rfc_index i" "s = rfc_shift i" using steps_rfc [OF assms(1)] r by simp_all
  moreover have "rfc_index i < 16" by (simp add: rfc_index_def)
  ultimately show ?thesis using assms(2) [of k] F_rfc [of i x y z]
    by (simp add: md5_round_def rfc_step_def MD5STEP_def v r algebra_simps)
qed

lemma MD5Transform_rfc:
  assumes "\<And>k. k < 16 \<Longrightarrow> inw ! k = GetLE32 (mem_read block (4 * k) 4)"
  shows "MD5Transform buf inw = rfc_compress buf block"
proof -
  have "foldl (md5_round inw) v [0..<64] = foldl (rfc_step block) v [0..<64]" for v
    using round_rfc [OF _ assms] by (intro foldl_cong) auto
  then show ?thesis by (simp add: MD5Transform_def rfc_compress_def)
qed

section \<open>Words of the block on either kind of host\<close>

lemma slot_write:
  assumes "4 * i + 4 \<le> length b" "4 * j + 4 \<le> length b" "length v = 4"
  shows "mem_read (mem_write b (4 * i) v) (4 * j) 4 = (if j = i then v else mem_read b (4 * j) 4)"
proof (rule nth_equalityI)
  show "length (mem_read (mem_write b (4 * i) v) (4 * j) 4) = length (if j = i then v else mem_read b (4 * j) 4)"
    using assms by (simp add: mem_simps)
  fix k assume "k < length (mem_read (mem_write b (4 * i) v) (4 * j) 4)"
  then have k: "k < 4" using assms by (simp add: mem_simps)
  have "j = i \<or> 4 * j + k < 4 * i \<or> 4 * i + 4 \<le> 4 * j + k" using k by linarith
  with assms k show "mem_read (mem_write b (4 * i) v) (4 * j) 4 ! k = (if j = i then v else mem_read b (4 * j) 4) ! k"
    by (auto simp: mem_simps)
qed

lemma host_store32_bytes: "host_store32 h v = (if h then be32 v else rev (be32 v))"
  by (simp add: host_store32_def SetBE_bytes SetLE_bytes)

lemma host_store_LE: "length m = 4 \<Longrightarrow> host_store32 True (GetLE32 m) = rev m"
  by (simp add: host_store32_bytes GetLE32_rev be32_GetBE32)

lemma ByteReverse_slots:
  assumes "4 * n \<le> length b"
  shows "length (ByteReverse h b n) = length b"
    "4 * j + 4 \<le> length b \<Longrightarrow> mem_read (ByteReverse h b n) (4 * j) 4 =
      (if h \<and> j < n then rev (mem_read b (4 * j) 4) else mem_read b (4 * j) 4)"
proof -
  define r where "r n = foldl (\<lambda>b i. mem_write b (4 * i) (host_store32 True (GetLE32 (mem_read b (4 * i) 4)))) b [0..<n]" for n
  have step: "length (r n) = length b \<and> (\<forall>j. 4 * j + 4 \<le> length b \<longrightarrow>
      mem_read (r n) (4 * j) 4 = (if j < n then rev (mem_read b (4 * j) 4) else mem_read b (4 * j) 4))"
    using assms
  proof (induction n)
    case 0
    show ?case by (simp add: r_def)
  next
    case (Suc n)
    then have IH: "length (r n) = length b" "\<And>j. 4 * j + 4 \<le> length b \<Longrightarrow>
      mem_read (r n) (4 * j) 4 = (if j < n then rev (mem_read b (4 * j) 4) else mem_read b (4 * j) 4)" by auto
    have n: "4 * n + 4 \<le> length b" using Suc.prems by simp
    have "r (Suc n) = mem_write (r n) (4 * n) (rev (mem_read b (4 * n) 4))"
      using n IH by (simp add: r_def [of "Suc n"] r_def [of n, symmetric] host_store_LE length_mem_read)
    then show ?case using IH n slot_write [of n "r n" _ "rev (mem_read b (4 * n) 4)"]
      by (auto simp: length_mem_write length_mem_read less_Suc_eq)
  qed
  have e: "ByteReverse h b n = (if h then r n else b)" by (simp add: ByteReverse_def r_def)
  show "length (ByteReverse h b n) = length b" using step by (simp add: e)
  show "4 * j + 4 \<le> length b \<Longrightarrow> mem_read (ByteReverse h b n) (4 * j) 4 =
      (if h \<and> j < n then rev (mem_read b (4 * j) 4) else mem_read b (4 * j) 4)" using step by (simp add: e)
qed

lemma host_load_rev: "length m = 4 \<Longrightarrow> host_load32 h (if h then rev m else m) = GetLE32 m"
  by (simp add: host_load32_def GetLE32_rev)

lemma nth_md5_words: "k < 16 \<Longrightarrow> md5_words h b ! k = host_load32 h (mem_read b (4 * k) 4)"
  by (simp add: md5_words_def)

lemma transform_block:
  assumes "length b = 64"
  shows "MD5Transform buf (md5_words h (ByteReverse h b 16)) = rfc_compress buf b"
proof (rule MD5Transform_rfc)
  fix k :: nat assume "k < 16"
  then show "md5_words h (ByteReverse h b 16) ! k = GetLE32 (mem_read b (4 * k) 4)"
    using assms host_load_rev [of "mem_read b (4 * k) 4" h] by (simp add: nth_md5_words ByteReverse_slots length_mem_read)
qed

text \<open>The last block: fourteen words of the message in the order of the standard, and the count as two words of
  the host.\<close>

lemma transform_last_block:
  assumes "length b = 64"
  shows "MD5Transform buf (md5_words h (mem_write (mem_write (ByteReverse h b 14) (4 * 14) (host_store32 h low))
      (4 * 15) (host_store32 h high))) = rfc_compress buf (take 56 b @ rev (be32 low) @ rev (be32 high))"
proof (rule MD5Transform_rfc)
  fix k :: nat assume k: "k < 16"
  let ?r = "ByteReverse h b 14" and ?s = "take 56 b @ rev (be32 low) @ rev (be32 high)"
  have len: "length ?r = 64" "length (mem_write ?r (4 * 14) (host_store32 h low)) = 64"
    using assms ByteReverse_slots(1) [of 14 b h] by (simp_all add: length_mem_write host32.length_enc)
  have "md5_words h (mem_write (mem_write ?r (4 * 14) (host_store32 h low)) (4 * 15) (host_store32 h high)) ! k =
      host_load32 h (if k = 15 then host_store32 h high else if k = 14 then host_store32 h low else mem_read ?r (4 * k) 4)"
    using k len slot_write [of 15 "mem_write ?r (4 * 14) (host_store32 h low)" k "host_store32 h high"]
      slot_write [of 14 ?r k "host_store32 h low"] by (simp add: nth_md5_words host32.length_enc)
  also have "\<dots> = (if k = 15 then high else if k = 14 then low else GetLE32 (mem_read b (4 * k) 4))"
    using k assms host_load_rev [of "mem_read b (4 * k) 4" h]
    by (auto simp: host32.dec_enc ByteReverse_slots length_mem_read)
  also have "\<dots> = GetLE32 (mem_read ?s (4 * k) 4)"
  proof -
    have "k < 14 \<or> k = 14 \<or> k = 15" using k by linarith
    moreover have "mem_read ?s (4 * k) 4 = mem_read b (4 * k) 4" if "k < 14"
      using that assms by (simp add: mem_read_def drop_take min_def) arith
    moreover have "mem_read ?s 56 4 = rev (be32 low)" "mem_read ?s 60 4 = rev (be32 high)"
      using assms by (simp_all add: mem_read_def)
    ultimately show ?thesis by (auto simp: GetLE32_rev)
  qed
  finally show "md5_words h (mem_write (mem_write ?r (4 * 14) (host_store32 h low)) (4 * 15) (host_store32 h high)) ! k =
      GetLE32 (mem_read ?s (4 * k) 4)" .
qed

section \<open>Absorbing a message\<close>

lemma md5_blocks_spec:
  "length (md5_in c) = 64 \<Longrightarrow> \<exists>inb. length inb = 64 \<and> md5_blocks h c d =
     (c\<lparr>md5_in := inb, md5_buf := foldl rfc_compress (md5_buf c) (blocks d)\<rparr>, unfinished d)"
proof (induction h c d rule: md5_blocks.induct)
  case (1 h c d)
  show ?case
  proof (cases "64 \<le> length d")
    case True
    define b where "b = mem_write (md5_in c) 0 (mem_read d 0 64)"
    define c' where "c' = c\<lparr>md5_in := ByteReverse h b 16, md5_buf := MD5Transform (md5_buf c) (md5_words h (ByteReverse h b 16))\<rparr>"
    have b: "b = take 64 d" "length b = 64" using True "1.prems" by (simp_all add: b_def mem_write_def mem_read_def)
    have "length (md5_in c') = 64" "md5_buf c' = rfc_compress (md5_buf c) (take 64 d)"
      using b ByteReverse_slots(1) [of 16 b h] transform_block [OF b(2)] by (simp_all add: c'_def)
    moreover have "md5_blocks h c d = md5_blocks h c' (drop 64 d)"
      using True by (subst md5_blocks.simps) (simp add: c'_def b_def Let_def)
    ultimately show ?thesis
      using "1.IH" [OF True refl] True blocks_step [OF True]
      by (fastforce simp: c'_def b_def)
  next
    case False
    then show ?thesis using "1.prems" by (subst md5_blocks.simps) (auto intro!: exI [of _ "md5_in c"])
  qed
qed

definition md5_absorbed :: "byte list \<Rightarrow> md5_context \<Rightarrow> bool" where
  "md5_absorbed m c \<longleftrightarrow> absorbed rfc_compress rfc_init m (md5_buf c) (md5_bits0 c) (md5_bits1 c) (md5_in c)"

lemma MD5Init_absorbed: "length (md5_in c) = 64 \<Longrightarrow> md5_absorbed [] (MD5Init c)"
  by (simp add: md5_absorbed_def absorbed_def MD5Init_def rfc_init_def)

lemma MD5Update_absorbed:
  assumes "md5_absorbed m c"
  shows "md5_absorbed (m @ d) (MD5Update h c d)"
proof -
  let ?k = "length m mod 64" and ?n = "length d"
  let ?x = "unfinished m @ d"
  have abs: "absorbed rfc_compress rfc_init m (md5_buf c) (md5_bits0 c) (md5_bits1 c) (md5_in c)"
    using assms by (simp add: md5_absorbed_def)
  then have cnt: "bit_count (md5_bits0 c) (md5_bits1 c) (length m)" and buf: "length (md5_in c) = 64"
    and r: "take ?k (md5_in c) = unfinished m" by (simp_all add: absorbed_def)
  have k: "unat (drop_bit 3 (md5_bits0 c) AND 63) = ?k" "?k < 64" using cnt by (simp_all add: bit_count_index)
  define low where "low = md5_bits0 c + word_of_nat (8 * ?n)"
  define high where "high = (if low < md5_bits0 c then md5_bits1 c + 1 else md5_bits1 c) + word_of_nat (?n div 2 ^ 29)"
  define c1 where "c1 = c\<lparr>md5_bits0 := low, md5_bits1 := high\<rparr>"
  have cnt': "bit_count low high (length m + ?n)"
    unfolding low_def high_def by (rule bit_count_add(2) [OF cnt])
  have final: "md5_absorbed (m @ d) (c1\<lparr>md5_buf := foldl rfc_compress (md5_buf c) (blocks ?x), md5_in := mem_write inb 0 (unfinished ?x)\<rparr>)"
    if "length inb = 64" for inb
    unfolding md5_absorbed_def c1_def using that
    by (simp, intro absorbed_more [OF abs refl _ cnt']) (simp_all add: mem_write_def del: unfinished_short)
  consider "?k \<noteq> 0" "?n < 64 - ?k" | "?k \<noteq> 0" "\<not> ?n < 64 - ?k" | "?k = 0" by blast
  then show ?thesis
  proof cases
    case 1
    then have "MD5Update h c d = c1\<lparr>md5_in := mem_write (md5_in c) ?k d\<rparr>"
      by (simp add: MD5Update_def k low_def high_def c1_def Let_def)
    then show ?thesis unfolding md5_absorbed_def c1_def
      using 1 buf r by (simp, intro absorbed_more [OF abs refl _ cnt']) (simp_all add: mem_write_def)
  next
    case 2
    define b where "b = mem_write (md5_in c) ?k (mem_read d 0 (64 - ?k))"
    have b: "b = take 64 ?x" "length b = 64" using 2 buf r k(2) by (simp_all add: b_def mem_write_def mem_read_def)
    define c2 where "c2 = c1\<lparr>md5_in := ByteReverse h b 16, md5_buf := MD5Transform (md5_buf c) (md5_words h (ByteReverse h b 16))\<rparr>"
    have c2: "length (md5_in c2) = 64" "md5_buf c2 = rfc_compress (md5_buf c) b"
      using b ByteReverse_slots(1) [of 16 b h] transform_block [OF b(2)] by (simp_all add: c2_def)
    obtain inb where inb: "length inb = 64" "md5_blocks h c2 (drop (64 - ?k) d) =
        (c2\<lparr>md5_in := inb, md5_buf := foldl rfc_compress (md5_buf c2) (blocks (drop (64 - ?k) d))\<rparr>, unfinished (drop (64 - ?k) d))"
      using md5_blocks_spec [OF c2(1)] by blast
    have x: "64 \<le> length ?x" "drop 64 ?x = drop (64 - ?k) d" using 2 k(2) by simp_all
    have "MD5Update h c d = (let (ctx, buf) = md5_blocks h c2 (drop (64 - ?k) d) in ctx\<lparr>md5_in := mem_write (md5_in ctx) 0 buf\<rparr>)"
      using 2 by (simp add: MD5Update_def k low_def high_def c1_def c2_def b_def Let_def)
    also have "\<dots> = c1\<lparr>md5_buf := foldl rfc_compress (md5_buf c) (blocks ?x), md5_in := mem_write inb 0 (unfinished ?x)\<rparr>"
      unfolding inb(2) blocks_step [OF x(1)] x(2) using b(1) c2(2) by (simp add: c2_def c1_def)
    finally show ?thesis using final [OF inb(1)] by simp
  next
    case 3
    have "length (md5_in c1) = 64" using buf by (simp add: c1_def)
    then obtain inb where inb: "length inb = 64" "md5_blocks h c1 d =
        (c1\<lparr>md5_in := inb, md5_buf := foldl rfc_compress (md5_buf c1) (blocks d)\<rparr>, unfinished d)"
      using md5_blocks_spec by blast
    have "MD5Update h c d = (let (ctx, buf) = md5_blocks h c1 d in ctx\<lparr>md5_in := mem_write (md5_in ctx) 0 buf\<rparr>)"
      using 3 by (simp add: MD5Update_def k low_def high_def c1_def Let_def)
    moreover have "unfinished m = []" using 3 by (simp flip: length_0_conv)
    ultimately show ?thesis using final [OF inb(1)] unfolding inb(2) by (simp add: c1_def)
  qed
qed

section \<open>The digest\<close>

lemma length_rfc_fold: "length s = 4 \<Longrightarrow> length (foldl rfc_compress s bs) = 4"
  by (induction bs arbitrary: s) (simp_all add: rfc_compress_def Let_def split: prod.splits)

lemma digest_bytes:
  assumes "length s = 4"
  shows "ByteReverse h (concat (map (host_store32 h) s)) 4 = concat (map (\<lambda>w. rev (be32 w)) s)"
proof (cases h)
  case False
  then show ?thesis by (simp add: ByteReverse_def host_store32_bytes cong: map_cong)
next
  case True
  obtain a b c d where s: "s = [a, b, c, d]" using assms by (auto simp: list_of_length4)
  let ?m = "be32 a @ be32 b @ be32 c @ be32 d" and ?r = "ByteReverse h (concat (map (host_store32 h) s)) 4"
  have m: "concat (map (host_store32 h) s) = ?m" by (simp add: s True host_store32_bytes)
  have len: "length ?r = 16" unfolding m by (subst ByteReverse_slots) simp_all
  have slot: "mem_read ?r (4 * j) 4 = rev (mem_read ?m (4 * j) 4)" if "j < 4" for j
    using that True unfolding m by (subst ByteReverse_slots) simp_all
  have "?r = mem_read ?r 0 (4 + (4 + (4 + 4)))" using len by (simp add: mem_read_def)
  also have "\<dots> = mem_read ?r 0 4 @ mem_read ?r 4 4 @ mem_read ?r 8 4 @ mem_read ?r 12 4"
    unfolding mem_read_split by simp
  also have "\<dots> = rev (be32 a) @ rev (be32 b) @ rev (be32 c) @ rev (be32 d)"
    using slot [of 0] slot [of 1] slot [of 2] slot [of 3] by (simp add: mem_read_def)
  finally show ?thesis by (simp add: s)
qed

text \<open>The blocks that the padding adds: one, or two when the count no longer fits behind the message.\<close>

lemma padded_blocks:
  assumes "length u = k" "k < 64" "length e = 8"
  shows "k \<le> 55 \<Longrightarrow> blocks (u @ [0x80] @ replicate (zeros_for k) 0 @ e) = [(u @ [0x80] @ replicate (55 - k) 0) @ e]"
    "55 < k \<Longrightarrow> blocks (u @ [0x80] @ replicate (zeros_for k) 0 @ e) =
      [u @ [0x80] @ replicate (63 - k) 0, replicate 56 0 @ e]"
proof -
  assume "k \<le> 55"
  then have z: "zeros_for k = 55 - k" by (simp add: zeros_for_def le_mod_geq)
  show "blocks (u @ [0x80] @ replicate (zeros_for k) 0 @ e) = [(u @ [0x80] @ replicate (55 - k) 0) @ e]"
    unfolding z using assms \<open>k \<le> 55\<close> by (subst blocks_step) simp_all
next
  assume k: "55 < k"
  then have z: "zeros_for k = (63 - k) + 56" using assms(2) by (simp add: zeros_for_def)
  have "u @ [0x80] @ replicate (zeros_for k) 0 @ e = (u @ [0x80] @ replicate (63 - k) 0) @ replicate 56 0 @ e"
    unfolding z replicate_add by simp
  moreover have "length (u @ [0x80 :: byte] @ replicate (63 - k) 0) = 64" using assms k by simp
  moreover have "blocks (replicate 56 0 @ e) = [replicate 56 0 @ e]" using assms(3) by (subst blocks_step) simp_all
  ultimately show "blocks (u @ [0x80] @ replicate (zeros_for k) 0 @ e) =
      [u @ [0x80] @ replicate (63 - k) 0, replicate 56 0 @ e]"
    by (simp only: blocks_Cons)
qed

lemma MD5Final_spec:
  assumes "md5_absorbed m c"
  obtains c' where "MD5Final h c = (rfc_md5 m, c')" "length (md5_in c') = 64"
proof -
  let ?k = "length m mod 64" and ?e = "rev (be32 (md5_bits0 c)) @ rev (be32 (md5_bits1 c))"
  define inb where "inb = mem_write (md5_in c) ?k [0x80]"
  have cnt: "bit_count (md5_bits0 c) (md5_bits1 c) (length m)" and len: "length (md5_in c) = 64"
    and u: "take ?k (md5_in c) = unfinished m" and st: "md5_buf c = foldl rfc_compress rfc_init (blocks m)"
    using assms by (simp_all add: md5_absorbed_def absorbed_def)
  have k: "unat (drop_bit 3 (md5_bits0 c) AND 63) = ?k" "?k < 64" using cnt by (simp_all add: bit_count_index)
  have e: "le64 (word_of_nat (8 * length m)) = ?e" using finalcount_bytes [OF cnt] by (simp add: le64_def flip: rev_append)
  have inb: "inb = unfinished m @ [0x80] @ drop (?k + 1) (md5_in c)" using u k(2) by (simp add: inb_def mem_write_def)
  define last where "last = (if 63 - ?k < 8
      then (mem_write (ByteReverse h (mem_write inb (?k + 1) (replicate (63 - ?k) 0)) 16) 0 (replicate 56 0),
        MD5Transform (md5_buf c) (md5_words h (ByteReverse h (mem_write inb (?k + 1) (replicate (63 - ?k) 0)) 16)))
      else (mem_write inb (?k + 1) (replicate (63 - ?k - 8) 0), md5_buf c))"
  define buf where "buf = MD5Transform (snd last) (md5_words h (mem_write (mem_write (ByteReverse h (fst last) 14) (4 * 14)
      (host_store32 h (md5_bits0 c))) (4 * 15) (host_store32 h (md5_bits1 c))))"
  have zf: "zeros_for (length m) = zeros_for ?k" by (simp add: zeros_for_def)
  have pad: "blocks (pad_with le64 m) = blocks m @ blocks (unfinished m @ [0x80] @ replicate (zeros_for ?k) 0 @ ?e)"
    unfolding pad_with_def e zf by (rule blocks_append)
  have "length (fst last) = 64 \<and> rfc_compress (snd last) (take 56 (fst last) @ ?e) = foldl rfc_compress rfc_init (blocks (pad_with le64 m))"
  proof (cases "55 < ?k")
    case True
    let ?b = "unfinished m @ [0x80] @ replicate (63 - ?k) 0"
    have b: "mem_write inb (?k + 1) (replicate (63 - ?k) 0) = ?b" "length ?b = 64" using inb len k(2) by (simp_all add: mem_write_def)
    have r: "length (ByteReverse h ?b 16) = 64" using b(2) by (simp add: ByteReverse_slots del: append.simps)
    have "last = (mem_write (ByteReverse h ?b 16) 0 (replicate 56 0), rfc_compress (md5_buf c) ?b)"
      unfolding last_def b(1) transform_block [OF b(2)] using True k(2) by (simp only: if_P split: if_splits)
    then show ?thesis unfolding pad using True r st padded_blocks(2) [of "unfinished m" ?k ?e] k(2)
      by (simp add: mem_write_def)
  next
    case False
    define j where "j = 55 - ?k"
    have j: "63 - ?k - 8 = j" "\<not> 63 - ?k < 8" "?k + 1 + j = 56" using False by (simp_all add: j_def)
    have "mem_write inb (?k + 1) (replicate j 0) = unfinished m @ [0x80] @ replicate j 0 @ drop (?k + 1 + j) (md5_in c)"
      unfolding inb by (simp add: mem_write_def add.commute)
    then have "last = (unfinished m @ [0x80] @ replicate j 0 @ drop 56 (md5_in c), md5_buf c)"
      using j by (simp add: last_def)
    moreover have "take 56 (unfinished m @ [0x80] @ replicate j 0 @ drop 56 (md5_in c)) = unfinished m @ [0x80] @ replicate j 0"
      unfolding j(3) [symmetric] by simp
    ultimately show ?thesis unfolding pad using False len st j padded_blocks(1) [of "unfinished m" ?k ?e] k(2)
      by (simp add: j_def)
  qed
  then have "buf = foldl rfc_compress rfc_init (blocks (pad_with le64 m))"
    using transform_last_block [of "fst last"] by (simp add: buf_def)
  moreover have "MD5Final h c = (ByteReverse h (concat (map (host_store32 h) buf)) 4,
      c\<lparr>md5_buf := replicate 4 0, md5_bits0 := 0, md5_bits1 := 0, md5_in := replicate 64 0\<rparr>)"
    unfolding MD5Final_def buf_def last_def inb_def by (simp add: k Let_def)
  ultimately have "MD5Final h c = (rfc_md5 m, c\<lparr>md5_buf := replicate 4 0, md5_bits0 := 0, md5_bits1 := 0, md5_in := replicate 64 0\<rparr>)"
    using digest_bytes [OF length_rfc_fold, of rfc_init h "blocks (pad_with le64 m)"] by (simp add: rfc_md5_def rfc_init_def)
  then show thesis by (rule that) simp
qed

end
