(* ===== verification/String_Encode.thy ===== *)
theory String_Encode
  imports Prelude
begin

text \<open>
  \<^verbatim>\<open>base/stringencode.cc\<close>: escaping, percent and hexadecimal encodings, UTF-8, and the splitting of strings.
  Characters are bytes. The encoders fill a caller's buffer from its first byte on and return how many bytes they
  put there before the terminating NUL; the model collects those bytes in the list \<open>out\<close>, whose length is the
  code's \<^verbatim>\<open>bufpos\<close>, and writes \<open>out\<close> and the NUL into the buffer in the end. A write past the buffer would lengthen
  it, so that the locale \<open>buffer_filler\<close> below, which every encoder satisfies, rules it out.
\<close>

section \<open>Digits\<close>

definition HEX :: "byte list" where
  "HEX = [48, 49, 50, 51, 52, 53, 54, 55, 56, 57, 97, 98, 99, 100, 101, 102]"

definition hex_encode_digit :: "u8 \<Rightarrow> byte" where
  "hex_encode_digit val = (if val < 16 then HEX ! unat val else 33)"

text \<open>Every letter is taken for a digit, also those after F.\<close>

definition hex_decode_digit :: "byte \<Rightarrow> u8 option" where
  "hex_decode_digit ch =
     (if ch \<ge> 48 \<and> ch \<le> 57 then Some (ch - 48)
      else if ch \<ge> 65 \<and> ch \<le> 90 then Some ((ch - 65) + 10)
      else if ch \<ge> 97 \<and> ch \<le> 122 then Some ((ch - 97) + 10)
      else None)"

definition high_digit :: "byte \<Rightarrow> byte" where "high_digit ch = hex_encode_digit (drop_bit 4 ch AND 0xF)"

definition low_digit :: "byte \<Rightarrow> byte" where "low_digit ch = hex_encode_digit (ch AND 0xF)"

definition digits_byte :: "byte \<Rightarrow> byte \<Rightarrow> byte option" where
  "digits_byte c1 c2 =
     (case hex_decode_digit c1 of
        None \<Rightarrow> None
      | Some h1 \<Rightarrow> (case hex_decode_digit c2 of None \<Rightarrow> None | Some h2 \<Rightarrow> Some (push_bit 4 h1 OR h2)))"

section \<open>Escaping\<close>

definition terminate :: "byte list \<Rightarrow> byte list \<Rightarrow> nat \<times> byte list" where
  "terminate buffer out = (length out, mem_write buffer 0 (out @ [0]))"

text \<open>\<^verbatim>\<open>strchr\<close> also finds the NUL that ends the string it searches.\<close>

definition strchr :: "byte list \<Rightarrow> byte \<Rightarrow> bool" where
  "strchr str ch \<longleftrightarrow> ch \<in> set str \<or> ch = 0"

fun escape_loop :: "nat \<Rightarrow> byte list \<Rightarrow> byte \<Rightarrow> byte list \<Rightarrow> byte list \<Rightarrow> byte list" where
  "escape_loop buflen illegal esc [] out = out"
| "escape_loop buflen illegal esc (ch # src) out =
     (if \<not> length out + 1 < buflen then out
      else if ch = esc \<or> strchr illegal ch
      then (if length out + 2 \<ge> buflen then out else escape_loop buflen illegal esc src (out @ [esc, ch]))
      else escape_loop buflen illegal esc src (out @ [ch]))"

definition escape :: "byte list \<Rightarrow> byte \<Rightarrow> byte list \<Rightarrow> byte list \<Rightarrow> nat \<times> byte list" where
  "escape illegal esc buffer source =
     (if length buffer \<le> 0 then (0, buffer)
      else terminate buffer (escape_loop (length buffer) illegal esc source []))"

fun unescape_loop :: "nat \<Rightarrow> byte \<Rightarrow> byte list \<Rightarrow> byte list \<Rightarrow> byte list" where
  "unescape_loop buflen esc [] out = out"
| "unescape_loop buflen esc (ch # src) out =
     (if \<not> length out + 1 < buflen then out
      else if ch = esc \<and> src \<noteq> [] then unescape_loop buflen esc (tl src) (out @ [hd src])
      else unescape_loop buflen esc src (out @ [ch]))"

definition unescape :: "byte \<Rightarrow> byte list \<Rightarrow> byte list \<Rightarrow> nat \<times> byte list" where
  "unescape esc buffer source =
     (if length buffer \<le> 0 then (0, buffer)
      else terminate buffer (unescape_loop (length buffer) esc source []))"

fun encode_loop :: "nat \<Rightarrow> byte list \<Rightarrow> byte \<Rightarrow> byte list \<Rightarrow> byte list \<Rightarrow> byte list" where
  "encode_loop buflen illegal esc [] out = out"
| "encode_loop buflen illegal esc (ch # src) out =
     (if \<not> length out + 1 < buflen then out
      else if ch \<noteq> esc \<and> \<not> strchr illegal ch then encode_loop buflen illegal esc src (out @ [ch])
      else if length out + 3 \<ge> buflen then out
      else encode_loop buflen illegal esc src (out @ [esc, high_digit ch, low_digit ch]))"

definition encode :: "byte list \<Rightarrow> byte \<Rightarrow> byte list \<Rightarrow> byte list \<Rightarrow> nat \<times> byte list" where
  "encode illegal esc buffer source =
     (if length buffer \<le> 0 then (0, buffer)
      else terminate buffer (encode_loop (length buffer) illegal esc source []))"

text \<open>The two digits behind an escape character, when there are two more characters and both are digits.\<close>

definition two_digits :: "byte list \<Rightarrow> byte option" where
  "two_digits src = (case src of c1 # c2 # _ \<Rightarrow> digits_byte c1 c2 | _ \<Rightarrow> None)"

fun decode_loop :: "nat \<Rightarrow> byte \<Rightarrow> byte list \<Rightarrow> byte list \<Rightarrow> byte list" where
  "decode_loop buflen esc [] out = out"
| "decode_loop buflen esc (ch # src) out =
     (if \<not> length out + 1 < buflen then out
      else case (if ch = esc then two_digits src else None) of
             Some b \<Rightarrow> decode_loop buflen esc (drop 2 src) (out @ [b])
           | None \<Rightarrow> decode_loop buflen esc src (out @ [ch]))"

definition decode :: "byte \<Rightarrow> byte list \<Rightarrow> byte list \<Rightarrow> nat \<times> byte list" where
  "decode esc buffer source =
     (if length buffer \<le> 0 then (0, buffer)
      else terminate buffer (decode_loop (length buffer) esc source []))"

section \<open>URLs\<close>

definition ASCII_CLASS :: "nat list" where
  "ASCII_CLASS =
    [1,1,1,1,1,1,1,1,1,1,1,1,1,1,1,1,1,1,1,1,1,1,1,1,1,1,1,1,1,1,1,1,
     1,0,3,1,1,1,3,2,0,0,0,1,1,0,0,1,0,0,0,0,0,0,0,0,0,0,1,1,3,1,3,1,
     1,0,0,0,0,0,0,0,0,0,0,0,0,0,0,0,0,0,0,0,0,0,0,0,0,0,0,1,1,1,1,0,
     1,0,0,0,0,0,0,0,0,0,0,0,0,0,0,0,0,0,0,0,0,0,0,0,0,0,0,1,1,1,0,1]"

definition URL_UNSAFE :: nat where "URL_UNSAFE = 1"

definition url_unsafe :: "byte \<Rightarrow> bool" where
  "url_unsafe ch = (ch < 128 \<and> (ASCII_CLASS ! unat ch) AND URL_UNSAFE \<noteq> 0)"

fun url_encode_loop :: "nat \<Rightarrow> byte list \<Rightarrow> byte list \<Rightarrow> byte list" where
  "url_encode_loop buflen [] out = out"
| "url_encode_loop buflen (ch # src) out =
     (if \<not> length out + 1 < buflen then out
      else if url_unsafe ch
      then (if length out + 3 \<ge> buflen then out
            else url_encode_loop buflen src (out @ [37, high_digit ch, low_digit ch]))
      else url_encode_loop buflen src (out @ [ch]))"

text \<open>Without a buffer the URL coders return the size that is always enough.\<close>

definition url_encode :: "byte list option \<Rightarrow> byte list \<Rightarrow> nat \<times> byte list" where
  "url_encode buffer source =
     (case buffer of
        None \<Rightarrow> (length source * 3 + 1, [])
      | Some buffer \<Rightarrow>
          if length buffer \<le> 0 then (0, buffer)
          else terminate buffer (url_encode_loop (length buffer) source []))"

fun url_decode_loop :: "nat \<Rightarrow> byte list \<Rightarrow> byte list \<Rightarrow> byte list" where
  "url_decode_loop buflen [] out = out"
| "url_decode_loop buflen (ch # src) out =
     (if \<not> length out + 1 < buflen then out
      else if ch = 43 then url_decode_loop buflen src (out @ [32])
      else case (if ch = 37 then two_digits src else None) of
             Some b \<Rightarrow> url_decode_loop buflen (drop 2 src) (out @ [b])
           | None \<Rightarrow> url_decode_loop buflen src (out @ [ch]))"

definition url_decode :: "byte list option \<Rightarrow> byte list \<Rightarrow> nat \<times> byte list" where
  "url_decode buffer source =
     (case buffer of
        None \<Rightarrow> (length source + 1, [])
      | Some buffer \<Rightarrow>
          if length buffer \<le> 0 then (0, buffer)
          else terminate buffer (url_decode_loop (length buffer) source []))"

text \<open>\<^verbatim>\<open>s_transform\<close> asks the coder for the size, and keeps what it then puts into a buffer of that size.\<close>

definition s_transform :: "byte list \<Rightarrow> (byte list option \<Rightarrow> byte list \<Rightarrow> nat \<times> byte list) \<Rightarrow> byte list" where
  "s_transform source t =
     (let maxlen = fst (t None source);
          (len, buffer) = t (Some (replicate maxlen 0)) source
      in take len buffer)"

definition transform ::
    "nat \<Rightarrow> byte list \<Rightarrow> (byte list option \<Rightarrow> byte list \<Rightarrow> nat \<times> byte list) \<Rightarrow> nat \<times> byte list" where
  "transform maxlen source t =
     (let (length, buffer) = t (Some (replicate (maxlen + 1) 0)) source
      in (length, take length buffer))"

section \<open>Hexadecimal strings\<close>

fun hex_encode_loop :: "byte \<Rightarrow> byte list \<Rightarrow> byte list \<Rightarrow> byte list" where
  "hex_encode_loop delimiter [] out = out"
| "hex_encode_loop delimiter (ch # src) out =
     (let out = out @ [high_digit ch, low_digit ch]
      in hex_encode_loop delimiter src (if delimiter \<noteq> 0 \<and> src \<noteq> [] then out @ [delimiter] else out))"

definition hex_encode_with_delimiter :: "byte \<Rightarrow> byte list \<Rightarrow> byte list \<Rightarrow> nat \<times> byte list" where
  "hex_encode_with_delimiter delimiter buffer source =
     (if length buffer = 0 then (0, buffer)
      else let needed = (if delimiter \<noteq> 0 then length source * 3 else length source * 2 + 1)
           in if length buffer < needed then (0, buffer)
              else terminate buffer (hex_encode_loop delimiter source []))"

definition hex_encode_buffer :: "byte list \<Rightarrow> byte list \<Rightarrow> nat \<times> byte list" where
  "hex_encode_buffer buffer source = hex_encode_with_delimiter 0 buffer source"

definition hex_encode_string_with_delimiter :: "byte list \<Rightarrow> byte \<Rightarrow> byte list" where
  "hex_encode_string_with_delimiter source delimiter =
     (let kBufferSize = length source * 3;
          (len, buffer) = hex_encode_with_delimiter delimiter (replicate kBufferSize 0) source
      in take len buffer)"

definition hex_encode :: "byte list \<Rightarrow> byte list" where
  "hex_encode source = hex_encode_string_with_delimiter source 0"

text \<open>The decoding loop; \<open>None\<close> is its \<^verbatim>\<open>return 0\<close>, which leaves the bytes written so far in the buffer.\<close>

fun hex_decode_loop :: "byte \<Rightarrow> byte list \<Rightarrow> byte list \<Rightarrow> bool \<times> byte list" where
  "hex_decode_loop delimiter [] out = (True, out)"
| "hex_decode_loop delimiter [c] out = (False, out)"
| "hex_decode_loop delimiter (c1 # c2 # src) out =
     (case digits_byte c1 c2 of
        None \<Rightarrow> (False, out)
      | Some b \<Rightarrow>
          (if delimiter \<noteq> 0 \<and> length src > 1
           then (if hd src \<noteq> delimiter then (False, out @ [b]) else hex_decode_loop delimiter (tl src) (out @ [b]))
           else hex_decode_loop delimiter src (out @ [b])))"

definition hex_decode_with_delimiter :: "byte \<Rightarrow> byte list \<Rightarrow> byte list \<Rightarrow> nat \<times> byte list" where
  "hex_decode_with_delimiter delimiter buffer source =
     (if length buffer = 0 then (0, buffer)
      else let needed = (if delimiter \<noteq> 0 then (length source + 1) div 3 else length source div 2)
           in if length buffer < needed then (0, buffer)
              else let (success, out) = hex_decode_loop delimiter source []
                   in (if success then length out else 0, mem_write buffer 0 out))"

definition hex_decode_buffer :: "byte list \<Rightarrow> byte list \<Rightarrow> nat \<times> byte list" where
  "hex_decode_buffer buffer source = hex_decode_with_delimiter 0 buffer source"

section \<open>Splitting\<close>

text \<open>\<open>last\<close> and \<open>i\<close> as in the loops, which run over the positions of the source.\<close>

definition substr :: "byte list \<Rightarrow> nat \<Rightarrow> nat \<Rightarrow> byte list" where
  "substr s pos len = take len (drop pos s)"

definition tokenize_step :: "byte list \<Rightarrow> byte \<Rightarrow> byte list list \<times> nat \<Rightarrow> nat \<Rightarrow> byte list list \<times> nat" where
  "tokenize_step source delimiter st i =
     (let (fields, last) = st
      in if source ! i = delimiter
         then (if i \<noteq> last then fields @ [substr source last (i - last)] else fields, i + 1)
         else (fields, last))"

definition tokenize :: "byte list \<Rightarrow> byte \<Rightarrow> byte list list" where
  "tokenize source delimiter =
     (let (fields, last) = foldl (tokenize_step source delimiter) ([], 0) [0..<length source]
      in if last \<noteq> length source then fields @ [substr source last (length source - last)] else fields)"

definition tokenize_append :: "byte list \<Rightarrow> byte \<Rightarrow> byte list list \<Rightarrow> byte list list" where
  "tokenize_append source delimiter fields = fields @ tokenize source delimiter"

text \<open>Between marks nothing is split; the character before an opening mark is dropped, as the code takes it for a
  delimiter.\<close>

definition find_byte :: "byte list \<Rightarrow> byte \<Rightarrow> nat \<Rightarrow> nat option" where
  "find_byte s c pos = List.find (\<lambda>i. s ! i = c) [pos..<length s]"

lemma find_byte_bound: "find_byte s c pos = Some i \<Longrightarrow> pos \<le> i \<and> i < length s"
  by (auto simp: find_byte_def find_Some_iff)

function tokenize_marks :: "byte list \<Rightarrow> byte \<Rightarrow> byte \<Rightarrow> byte \<Rightarrow> byte list list \<Rightarrow> byte list list" where
  "tokenize_marks remain_source delimiter start_mark end_mark fields =
     (case (if remain_source = [] then None else find_byte remain_source start_mark 0) of
        None \<Rightarrow> tokenize_append remain_source delimiter fields
      | Some start_pos \<Rightarrow>
          (let pre_mark = (if start_pos > 0 then substr remain_source 0 (start_pos - 1) else [])
           in case find_byte remain_source end_mark (start_pos + 1) of
                None \<Rightarrow> tokenize_append remain_source delimiter fields
              | Some end_pos \<Rightarrow>
                  tokenize_marks (drop (end_pos + 1) remain_source) delimiter start_mark end_mark
                    (tokenize_append pre_mark delimiter fields @
                     [substr remain_source (start_pos + 1) (end_pos - (start_pos + 1))])))"
  by pat_completeness auto

termination
  by (relation "measure (\<lambda>(s, _). length s)") (auto dest: find_byte_bound split: if_splits)

declare tokenize_marks.simps [simp del]

definition split_step :: "byte list \<Rightarrow> byte \<Rightarrow> byte list list \<times> nat \<Rightarrow> nat \<Rightarrow> byte list list \<times> nat" where
  "split_step source delimiter st i =
     (let (fields, last) = st
      in if source ! i = delimiter then (fields @ [substr source last (i - last)], i + 1) else (fields, last))"

definition split :: "byte list \<Rightarrow> byte \<Rightarrow> byte list list" where
  "split source delimiter =
     (let (fields, last) = foldl (split_step source delimiter) ([], 0) [0..<length source]
      in fields @ [substr source last (length source - last)])"

definition make_char_safe_for_filename :: "byte \<Rightarrow> byte" where
  "make_char_safe_for_filename c =
     (if sint c < 32 then 95 else if c \<in> {60, 62, 58, 34, 47, 92, 124, 42, 63} then 95 else c)"

section \<open>UTF-8\<close>

definition utf8_decode :: "byte list \<Rightarrow> (nat \<times> u64) option" where
  "utf8_decode s =
     (if s ! 0 AND 0x80 = 0 then Some (1, ucast (s ! 0))
      else if length s < 2 \<or> s ! 1 AND 0xC0 \<noteq> 0x80 then None
      else let value16 = ucast (s ! 1 AND 0x3F) :: u64
      in if s ! 0 AND 0xE0 = 0xC0 then Some (2, push_bit 6 (ucast (s ! 0 AND 0x1F)) OR value16)
      else if length s < 3 \<or> s ! 2 AND 0xC0 \<noteq> 0x80 then None
      else let value16 = push_bit 6 value16 OR ucast (s ! 2 AND 0x3F)
      in if s ! 0 AND 0xF0 = 0xE0 then Some (3, push_bit 12 (ucast (s ! 0 AND 0x0F)) OR value16)
      else if length s < 4 \<or> s ! 3 AND 0xC0 \<noteq> 0x80 then None
      else let value16 = push_bit 6 value16 OR ucast (s ! 3 AND 0x3F)
      in if s ! 0 AND 0xF8 = 0xF0 then Some (4, push_bit 18 (ucast (s ! 0 AND 0x07)) OR value16)
      else None)"

definition utf8_encode :: "nat \<Rightarrow> u64 \<Rightarrow> byte list" where
  "utf8_encode buflen val =
     (if val \<le> 0x7F \<and> buflen \<ge> 1 then [ucast val]
      else if val \<le> 0x7FF \<and> buflen \<ge> 2 then [0xC0 OR ucast (drop_bit 6 val), 0x80 OR ucast (val AND 0x3F)]
      else if val \<le> 0xFFFF \<and> buflen \<ge> 3
      then [0xE0 OR ucast (drop_bit 12 val), 0x80 OR ucast (drop_bit 6 val AND 0x3F), 0x80 OR ucast (val AND 0x3F)]
      else if val \<le> 0x1FFFFF \<and> buflen \<ge> 4
      then [0xF0 OR ucast (drop_bit 18 val), 0x80 OR ucast (drop_bit 12 val AND 0x3F),
            0x80 OR ucast (drop_bit 6 val AND 0x3F), 0x80 OR ucast (val AND 0x3F)]
      else [])"

section \<open>Filling a buffer\<close>

text \<open>What the callers of the encoders rely on: the buffer keeps its size, and what is returned is the length of a
  NUL-terminated string in it.\<close>

locale buffer_filler =
  fixes fill :: "byte list \<Rightarrow> byte list \<Rightarrow> nat \<times> byte list"
  assumes fill_size: "length (snd (fill buffer source)) = length buffer"
    and fill_count: "buffer \<noteq> [] \<Longrightarrow> fst (fill buffer source) < length buffer"
    and fill_nul: "0 < fst (fill buffer source) \<Longrightarrow> snd (fill buffer source) ! fst (fill buffer source) = 0"
begin

lemma result_string:
  assumes "buffer \<noteq> []"
  shows "length (take (fst (fill buffer source)) (snd (fill buffer source))) = fst (fill buffer source)"
  using fill_count [OF assms, of source] fill_size [of buffer source] by simp

end

lemma terminate_fills:
  assumes "length out < length buffer"
  shows "length (snd (terminate buffer out)) = length buffer \<and> fst (terminate buffer out) < length buffer \<and>
    snd (terminate buffer out) ! fst (terminate buffer out) = 0 \<and>
    take (fst (terminate buffer out)) (snd (terminate buffer out)) = out"
  using assms by (simp add: terminate_def mem_write_def nth_append)

text \<open>Each loop leaves room for the NUL.\<close>

lemma escape_loop_room: "length out < n \<Longrightarrow> length (escape_loop n illegal esc src out) < n"
  by (induction src arbitrary: out) auto

lemma unescape_loop_room: "length out < n \<Longrightarrow> length (unescape_loop n esc src out) < n"
  by (induction n esc src out rule: unescape_loop.induct) auto

lemma encode_loop_room: "length out < n \<Longrightarrow> length (encode_loop n illegal esc src out) < n"
  by (induction src arbitrary: out) auto

lemma decode_loop_room: "length out < n \<Longrightarrow> length (decode_loop n esc src out) < n"
  by (induction n esc src out rule: decode_loop.induct) (auto split: option.splits)

lemma url_encode_loop_room: "length out < n \<Longrightarrow> length (url_encode_loop n src out) < n"
  by (induction src arbitrary: out) auto

lemma url_decode_loop_room: "length out < n \<Longrightarrow> length (url_decode_loop n src out) < n"
  by (induction n src out rule: url_decode_loop.induct) (auto split: option.splits)

definition hexed :: "byte \<Rightarrow> byte list \<Rightarrow> byte list" where
  "hexed d src = hex_encode_loop d src []"

lemma hex_encode_loop_append: "hex_encode_loop d src (a @ b) = a @ hex_encode_loop d src b"
proof (induction src arbitrary: b)
  case (Cons ch src)
  then show ?case using Cons.IH [of "b @ [high_digit ch, low_digit ch]"]
      Cons.IH [of "b @ [high_digit ch, low_digit ch, d]"] by (simp add: Let_def)
qed simp

lemma hexed_Cons: "hexed d (ch # src) = [high_digit ch, low_digit ch] @ (if d \<noteq> 0 \<and> src \<noteq> [] then [d] else []) @ hexed d src"
  using hex_encode_loop_append [of d src "[high_digit ch, low_digit ch]" "[]"]
    hex_encode_loop_append [of d src "[high_digit ch, low_digit ch, d]" "[]"]
  by (auto simp: hexed_def)

lemma hexed_Nil [simp]: "hexed d [] = []"
  by (simp add: hexed_def)

lemma length_hexed: "length (hexed d src) = (if d \<noteq> 0 then 3 * length src - 1 else 2 * length src)"
  by (induction src) (auto simp: hexed_Cons Suc_diff_le)

lemma hex_encode_with_delimiter_spec:
  "hex_encode_with_delimiter d buffer source =
     (if buffer = [] \<or> length buffer < (if d \<noteq> 0 then 3 * length source else 2 * length source + 1) then (0, buffer)
      else terminate buffer (hexed d source))"
  by (simp add: hex_encode_with_delimiter_def hexed_def mult.commute)

interpretation escape: buffer_filler "escape illegal esc"
  by unfold_locales (auto simp: escape_def terminate_fills escape_loop_room)

interpretation unescape: buffer_filler "unescape esc"
  by unfold_locales (auto simp: unescape_def terminate_fills unescape_loop_room)

interpretation encode: buffer_filler "encode illegal esc"
  by unfold_locales (auto simp: encode_def terminate_fills encode_loop_room)

interpretation decode: buffer_filler "decode esc"
  by unfold_locales (auto simp: decode_def terminate_fills decode_loop_room)

interpretation url_encode: buffer_filler "\<lambda>buffer. url_encode (Some buffer)"
  by unfold_locales (auto simp: url_encode_def terminate_fills url_encode_loop_room)

interpretation url_decode: buffer_filler "\<lambda>buffer. url_decode (Some buffer)"
  by unfold_locales (auto simp: url_decode_def terminate_fills url_decode_loop_room)

lemma hexed_room: "buffer \<noteq> [] \<Longrightarrow> \<not> length buffer < (if d \<noteq> 0 then 3 * length source else 2 * length source + 1) \<Longrightarrow>
    length (hexed d source) < length buffer"
  by (cases source) (auto simp: length_hexed split: if_splits)

interpretation hex: buffer_filler "hex_encode_with_delimiter d"
  by unfold_locales (auto simp: hex_encode_with_delimiter_spec hexed_room terminate_fills)

section \<open>Round trips\<close>

lemma hex_digit_roundtrip:
  assumes "v < 16"
  shows "hex_decode_digit (hex_encode_digit v) = Some v"
proof -
  have "\<forall>n \<in> set [0..<16]. hex_decode_digit (hex_encode_digit (word_of_nat n)) = Some (word_of_nat n :: byte)"
    by code_simp
  moreover have "unat v < 16" using assms by (simp add: word_less_nat_alt)
  ultimately show ?thesis by (metis atLeastLessThan_iff of_nat_unat_id set_upt zero_le)
qed

lemma digits_byte_roundtrip [simp]: "digits_byte (high_digit ch) (low_digit ch) = Some ch"
proof -
  have m: "(15 :: byte) = mask 4" by (simp add: mask_eq_exp_minus_1)
  have lt: "w AND 15 < (16 :: byte)" for w
    using word_and_le1 [of w 15] by (simp add: order.strict_trans1)
  have "push_bit 4 (drop_bit 4 ch AND 15) OR (ch AND 15) = ch"
    unfolding m by (rule bit_word_eqI) (auto simp: bit_simps)
  then show ?thesis by (simp add: digits_byte_def high_digit_def low_digit_def hex_digit_roundtrip lt)
qed

text \<open>With room to spare a loop appends the code of each byte.\<close>

lemma escape_loop_all:
  "length out + 2 * length src < n \<Longrightarrow> escape_loop n illegal esc src out =
     out @ concat (map (\<lambda>ch. if ch = esc \<or> strchr illegal ch then [esc, ch] else [ch]) src)"
  by (induction src arbitrary: out) auto

lemma encode_loop_all:
  "length out + 3 * length src < n \<Longrightarrow> encode_loop n illegal esc src out =
     out @ concat (map (\<lambda>ch. if ch = esc \<or> strchr illegal ch then [esc, high_digit ch, low_digit ch] else [ch]) src)"
  by (induction src arbitrary: out) auto

lemma url_encode_loop_all:
  "length out + 3 * length src < n \<Longrightarrow> url_encode_loop n src out =
     out @ concat (map (\<lambda>ch. if url_unsafe ch then [37, high_digit ch, low_digit ch] else [ch]) src)"
  by (induction src arbitrary: out) auto

lemma unescape_loop_inverse:
  "length out + length src < n \<Longrightarrow>
   unescape_loop n esc (concat (map (\<lambda>ch. if ch = esc \<or> P ch then [esc, ch] else [ch]) src)) out = out @ src"
  by (induction src arbitrary: out) auto

lemma decode_loop_inverse:
  "length out + length src < n \<Longrightarrow>
   decode_loop n esc (concat (map (\<lambda>ch. if ch = esc \<or> P ch then [esc, high_digit ch, low_digit ch] else [ch]) src)) out =
     out @ src"
  by (induction src arbitrary: out) (auto simp: two_digits_def)

lemma url_unsafe_marks: "url_unsafe 37" "url_unsafe 43"
  by (simp_all add: url_unsafe_def ASCII_CLASS_def URL_UNSAFE_def)

lemma url_decode_loop_inverse:
  "length out + length src < n \<Longrightarrow>
   url_decode_loop n (concat (map (\<lambda>ch. if url_unsafe ch then [37, high_digit ch, low_digit ch] else [ch]) src)) out =
     out @ src"
  by (induction src arbitrary: out) (auto simp: two_digits_def url_unsafe_marks)

lemma hex_decode_loop_inverse: "hex_decode_loop d (hexed d src) out = (True, out @ src)"
proof (induction src arbitrary: out)
  case (Cons ch src)
  show ?case
  proof (cases "d \<noteq> 0 \<and> src \<noteq> []")
    case True
    then have "1 < length (d # hexed d src)" by (cases src) (auto simp: hexed_Cons)
    with True show ?thesis by (simp add: hexed_Cons [of d ch] Cons.IH)
  next
    case False
    then have "hexed d (ch # src) = high_digit ch # low_digit ch # hexed d src" "\<not> (d \<noteq> 0 \<and> 1 < length (hexed d src))"
      by (auto simp: hexed_Cons [of d ch])
    then show ?thesis by (auto simp: Cons.IH)
  qed
qed simp

lemma hex_encode_string_spec: "hex_encode_string_with_delimiter source d = hexed d source"
proof (cases "source = []")
  case False
  have "length (hexed d source) < 3 * length source" using False by (cases source) (auto simp: length_hexed)
  then show ?thesis using False terminate_fills [of "hexed d source" "replicate (length source * 3) 0"]
    by (auto simp: hex_encode_string_with_delimiter_def hex_encode_with_delimiter_spec Let_def mult.commute
        split: prod.splits)
qed (simp add: hex_encode_string_with_delimiter_def hex_encode_with_delimiter_def)

section \<open>Splitting and joining\<close>

fun join :: "byte \<Rightarrow> byte list list \<Rightarrow> byte list" where
  "join d [] = []"
| "join d [f] = f"
| "join d (f # g # fs) = f @ d # join d (g # fs)"

lemma join_snoc: "join d (fs @ [f]) = concat (map (\<lambda>g. g @ [d]) fs) @ f"
proof (induction fs)
  case (Cons g fs)
  then show ?case by (cases fs) simp_all
qed simp

lemma split_states:
  "n \<le> length s \<Longrightarrow> \<exists>fields l. foldl (split_step s d) ([], 0) [0..<n] = (fields, l) \<and>
     foldl (tokenize_step s d) ([], 0) [0..<n] = (filter (\<lambda>f. f \<noteq> []) fields, l) \<and> l \<le> n \<and>
     take n s = concat (map (\<lambda>f. f @ [d]) fields) @ substr s l (n - l) \<and>
     d \<notin> set (substr s l (n - l)) \<and> (\<forall>f \<in> set fields. d \<notin> set f)"
proof (induction n)
  case (Suc n)
  then obtain fields l where IH: "foldl (split_step s d) ([], 0) [0..<n] = (fields, l)"
    "foldl (tokenize_step s d) ([], 0) [0..<n] = (filter (\<lambda>f. f \<noteq> []) fields, l)" "l \<le> n"
    "take n s = concat (map (\<lambda>f. f @ [d]) fields) @ substr s l (n - l)" "d \<notin> set (substr s l (n - l))"
    "\<forall>f \<in> set fields. d \<notin> set f" by auto
  have n: "n < length s" using Suc.prems by simp
  have len: "length (substr s l (n - l)) = n - l" using IH(3) n by (simp add: substr_def)
  have empty: "substr s l (n - l) = [] \<longleftrightarrow> n = l" using len IH(3) by auto
  have next': "take (Suc n) s = take n s @ [s ! n]" using n by (rule take_Suc_conv_app_nth)
  have grow: "substr s l (Suc n - l) = substr s l (n - l) @ [s ! n]"
    using IH(3) n by (simp add: substr_def Suc_diff_le take_Suc_conv_app_nth)
  show ?case
  proof (cases "s ! n = d")
    case True
    have "foldl (split_step s d) ([], 0) [0..<Suc n] = (fields @ [substr s l (n - l)], Suc n)"
      using IH(1) True by (simp add: split_step_def [of s d "(fields, l)" n])
    moreover have "foldl (tokenize_step s d) ([], 0) [0..<Suc n] = (filter (\<lambda>f. f \<noteq> []) (fields @ [substr s l (n - l)]), Suc n)"
      using IH(2) True empty by (auto simp: tokenize_step_def [of s d "(filter _ fields, l)" n])
    moreover have "take (Suc n) s = concat (map (\<lambda>f. f @ [d]) (fields @ [substr s l (n - l)])) @ substr s (Suc n) (Suc n - Suc n)"
      using next' IH(4) True by (simp add: substr_def)
    ultimately show ?thesis using IH(5,6)
      by (intro exI [of _ "fields @ [substr s l (n - l)]"] exI [of _ "Suc n"]) (simp add: substr_def)
  next
    case False
    then have "foldl (split_step s d) ([], 0) [0..<Suc n] = (fields, l)"
      "foldl (tokenize_step s d) ([], 0) [0..<Suc n] = (filter (\<lambda>f. f \<noteq> []) fields, l)"
      using IH(1,2) by (simp_all add: split_step_def [of s d "(fields, l)" n] tokenize_step_def [of s d "(filter _ fields, l)" n])
    then show ?thesis using IH(3-6) next' grow False by (intro exI [of _ fields] exI [of _ l]) simp
  qed
qed (simp add: substr_def)

section \<open>UTF-8\<close>

text \<open>The lead byte of a sequence keeps its marker and its payload apart, and so do the bytes that follow.\<close>

lemma byte_range: "(w :: byte) < word_of_nat n \<Longrightarrow> n < 256 \<Longrightarrow> \<forall>k \<in> set [0..<n]. P (word_of_nat k) \<Longrightarrow> P w"
proof -
  assume w: "w < word_of_nat n" and n: "n < 256" and P: "\<forall>k \<in> set [0..<n]. P (word_of_nat k)"
  have "unat w < n" using w n by (simp add: word_less_nat_alt unat_of_nat_lt)
  then show "P w" using P by (metis atLeastLessThan_iff of_nat_unat_id set_upt zero_le)
qed

lemma utf8_lead2:
  "w < 32 \<Longrightarrow> (0xC0 OR w) AND 0x80 \<noteq> 0 \<and> (0xC0 OR w) AND 0xE0 = 0xC0 \<and> (0xC0 OR w) AND 0x1F = (w :: byte)"
  by (rule byte_range [of w 32], simp, simp, code_simp)

lemma utf8_lead3:
  "w < 16 \<Longrightarrow> (0xE0 OR w) AND 0x80 \<noteq> 0 \<and> (0xE0 OR w) AND 0xE0 \<noteq> 0xC0 \<and> (0xE0 OR w) AND 0xF0 = 0xE0 \<and>
    (0xE0 OR w) AND 0x0F = (w :: byte)"
  by (rule byte_range [of w 16], simp, simp, code_simp)

lemma utf8_lead4:
  "w < 8 \<Longrightarrow> (0xF0 OR w) AND 0x80 \<noteq> 0 \<and> (0xF0 OR w) AND 0xE0 \<noteq> 0xC0 \<and> (0xF0 OR w) AND 0xF0 \<noteq> 0xE0 \<and>
    (0xF0 OR w) AND 0xF8 = 0xF0 \<and> (0xF0 OR w) AND 0x07 = (w :: byte)"
  by (rule byte_range [of w 8], simp, simp, code_simp)

lemma utf8_trail: "w < 64 \<Longrightarrow> (0x80 OR w) AND 0xC0 = 0x80 \<and> (0x80 OR w) AND 0x3F = (w :: byte)"
  by (rule byte_range [of w 64], simp, simp, code_simp)

lemma utf8_single: "w < 128 \<Longrightarrow> w AND 0x80 = (0 :: byte)"
  by (rule byte_range [of w 128], simp, simp, code_simp)

lemma word_bits_below: "val < 2 ^ k \<Longrightarrow> bit (val :: u64) n \<Longrightarrow> n < k"
  by (metis bit_take_bit_iff less_mask_eq take_bit_eq_mask)

lemma ucast_below:
  assumes "val < 2 ^ (k + m)" "m < 8"
  shows "(ucast (drop_bit k (val :: u64)) :: byte) < 2 ^ m"
proof -
  have "take_bit m (ucast (drop_bit k val) :: byte) = ucast (drop_bit k val)"
    using word_bits_below [OF assms(1)] by (intro bit_word_eqI) (fastforce simp: bit_simps)
  with assms(2) show ?thesis using and_mask_less' [of m "ucast (drop_bit k val) :: byte"] by (simp add: take_bit_eq_mask)
qed

lemma six_mask: "(0x3F :: u64) = mask 6"
  by (simp add: mask_eq_exp_minus_1)

lemma ucast_six: "(ucast (val AND 0x3F :: u64) :: byte) < 64"
proof -
  have "take_bit 6 (ucast (val AND mask 6) :: byte) = ucast (val AND mask 6)"
    by (intro bit_word_eqI) (auto simp: bit_simps)
  then show ?thesis unfolding six_mask using and_mask_less' [of 6 "ucast (val AND mask 6) :: byte"] by (simp add: take_bit_eq_mask)
qed

lemma join_six: "push_bit 6 (drop_bit (k + 6) val) OR (drop_bit k val AND 0x3F) = drop_bit k (val :: u64)"
  unfolding six_mask by (rule bit_word_eqI) (auto simp: bit_simps)

lemma ucast_back:
  "val < 2 ^ (k + m) \<Longrightarrow> m < 8 \<Longrightarrow> (ucast (ucast (drop_bit k (val :: u64)) :: byte) :: u64) = drop_bit k val"
  using word_bits_below [of val "k + m"] by (intro bit_word_eqI) (fastforce simp: bit_simps)

lemma ucast_six_back: "(ucast (ucast (val AND 0x3F :: u64) :: byte) :: u64) = val AND 0x3F"
  unfolding six_mask by (rule bit_word_eqI) (auto simp: bit_simps)

lemma utf8_ranges:
  "val \<le> 0x7F \<longleftrightarrow> val < (2 :: u64) ^ 7" "val \<le> 0x7FF \<longleftrightarrow> val < (2 :: u64) ^ 11" "val \<le> 0xFFFF \<longleftrightarrow> val < (2 :: u64) ^ 16"
  "val \<le> 0x1FFFFF \<longleftrightarrow> val < (2 :: u64) ^ 21"
  by (auto simp: word_le_nat_alt word_less_nat_alt)

lemma utf8_decode_1: "val < 2 ^ 7 \<Longrightarrow> utf8_decode (ucast val # rest) = Some (1, val)"
  using ucast_below [of val 0 7] ucast_back [of val 0 7] utf8_single [of "ucast val"] by (simp add: utf8_decode_def)

lemma utf8_decode_2:
  assumes "val < 2 ^ 11"
  shows "utf8_decode ((0xC0 OR ucast (drop_bit 6 val)) # (0x80 OR ucast (val AND 0x3F)) # rest) = Some (2, val)"
  using ucast_below [of val 6 5] ucast_back [of val 6 5] utf8_lead2 [of "ucast (drop_bit 6 val)"] assms
    utf8_trail [OF ucast_six, of val] ucast_six_back [of val] join_six [of 0 val]
  by (simp add: utf8_decode_def Let_def)

lemma utf8_decode_3:
  assumes "val < 2 ^ 16"
  shows "utf8_decode ((0xE0 OR ucast (drop_bit 12 val)) # (0x80 OR ucast (drop_bit 6 val AND 0x3F)) #
      (0x80 OR ucast (val AND 0x3F)) # rest) = Some (3, val)"
proof -
  have "push_bit 12 (drop_bit 12 val) OR (push_bit 6 (drop_bit 6 val AND 0x3F) OR (val AND 0x3F)) = val"
    using arg_cong [OF join_six [of 6 val], of "push_bit 6"] join_six [of 0 val]
    by (simp only: push_bit_or push_bit_push_bit or.assoc [symmetric]) simp
  then show ?thesis
    using ucast_below [of val 12 4] ucast_back [of val 12 4] utf8_lead3 [of "ucast (drop_bit 12 val)"] assms
      utf8_trail [OF ucast_six, of val] ucast_six_back [of val]
      utf8_trail [OF ucast_six, of "drop_bit 6 val"] ucast_six_back [of "drop_bit 6 val"]
    by (simp add: utf8_decode_def Let_def)
qed

lemma utf8_decode_4:
  assumes "val < 2 ^ 21"
  shows "utf8_decode ((0xF0 OR ucast (drop_bit 18 val)) # (0x80 OR ucast (drop_bit 12 val AND 0x3F)) #
      (0x80 OR ucast (drop_bit 6 val AND 0x3F)) # (0x80 OR ucast (val AND 0x3F)) # rest) = Some (4, val)"
proof -
  have "push_bit 18 (drop_bit 18 val) OR (push_bit 6 (push_bit 6 (drop_bit 12 val AND 0x3F) OR (drop_bit 6 val AND 0x3F))
      OR (val AND 0x3F)) = val"
    using arg_cong [OF join_six [of 12 val], of "push_bit 12"] arg_cong [OF join_six [of 6 val], of "push_bit 6"]
      join_six [of 0 val]
    by (simp only: push_bit_or push_bit_push_bit or.assoc [symmetric]) simp
  then show ?thesis
    using ucast_below [of val 18 3] ucast_back [of val 18 3] utf8_lead4 [of "ucast (drop_bit 18 val)"] assms
      utf8_trail [OF ucast_six, of val] ucast_six_back [of val]
      utf8_trail [OF ucast_six, of "drop_bit 6 val"] ucast_six_back [of "drop_bit 6 val"]
      utf8_trail [OF ucast_six, of "drop_bit 12 val"] ucast_six_back [of "drop_bit 12 val"]
    by (simp add: utf8_decode_def Let_def)
qed

section \<open>Properties\<close>

text \<open>Decoding inverts encoding. Whatever the bytes of the source, percent-encoding with \<^verbatim>\<open>url_encode\<close> and back, the
  escape-character codes with any set of illegal characters, and hexadecimal with any delimiter give the source again,
  in buffers of the sizes the callers use.\<close>

theorem encodings_roundtrip:
  assumes "3 * length s < n" "length s < k" "0 < length b" "length s \<le> length b"
  shows "s_transform (s_transform s url_encode) url_decode = s \<and>
    (case encode illegal esc (replicate n 0) s of (len, e) \<Rightarrow>
       take (length s) (snd (decode esc (replicate k 0) (take len e))) = s \<and>
       fst (decode esc (replicate k 0) (take len e)) = length s) \<and>
    (case escape illegal esc (replicate n 0) s of (len, e) \<Rightarrow>
       take (length s) (snd (unescape esc (replicate k 0) (take len e))) = s \<and>
       fst (unescape esc (replicate k 0) (take len e)) = length s) \<and>
    hex_decode_with_delimiter d b (hex_encode_string_with_delimiter s d) = (length s, mem_write b 0 s)"
proof -
  let ?E = "\<lambda>x. concat (map (\<lambda>ch. if ch = esc \<or> strchr illegal ch then x ch else [ch]) s)"
  let ?e = "?E (\<lambda>ch. [esc, high_digit ch, low_digit ch])" and ?q = "?E (\<lambda>ch. [esc, ch])"
  let ?u = "concat (map (\<lambda>ch. if url_unsafe ch then [37, high_digit ch, low_digit ch] else [ch]) s)"
  have keep: "take (fst (terminate (replicate m 0) out)) (snd (terminate (replicate m 0) out)) = out"
    "fst (terminate (replicate m 0) out) = length out" if "length out < m" for m out
    using terminate_fills [of out "replicate m 0"] that by (simp_all add: terminate_def)
  have "encode illegal esc (replicate n 0) s = terminate (replicate n 0) ?e"
    "escape illegal esc (replicate n 0) s = terminate (replicate n 0) ?q"
    using assms(1) by (auto simp: encode_def escape_def encode_loop_all escape_loop_all)
  moreover have "length ?e < n" "length ?q < n"
    using encode_loop_room [of "[]" n illegal esc s] escape_loop_room [of "[]" n illegal esc s] assms(1)
    by (auto simp: encode_loop_all escape_loop_all)
  moreover have "decode esc (replicate k 0) ?e = terminate (replicate k 0) s"
    "unescape esc (replicate k 0) ?q = terminate (replicate k 0) s"
    using assms(2) by (auto simp: decode_def unescape_def decode_loop_inverse [of "[]"] unescape_loop_inverse [of "[]"])
  moreover have "s_transform s url_encode = ?u"
    using keep [of ?u "length s * 3 + 1"] url_encode_loop_room [of "[]" "length s * 3 + 1" s]
    by (simp add: s_transform_def url_encode_def url_encode_loop_all Let_def case_prod_unfold)
  moreover have "length s < length ?u + 1" by (induction s) auto
  then have "s_transform ?u url_decode = s"
    using keep [of s "length ?u + 1"]
    by (simp add: s_transform_def url_decode_def url_decode_loop_inverse [of "[]"] Let_def case_prod_unfold)
  moreover have "hex_decode_with_delimiter d b (hexed d s) = (length s, mem_write b 0 s)"
    using assms(3,4) by (auto simp: hex_decode_with_delimiter_def hex_decode_loop_inverse length_hexed Let_def)
  ultimately show ?thesis
    using keep [of ?e n] keep [of ?q n] keep [of s k] assms(2) by (simp add: case_prod_unfold hex_encode_string_spec)
qed

theorem encodings_roundtrip_witness:
  "s_transform (s_transform [37, 43, 200] url_encode) url_decode = [37, 43, 200] \<and>
   hex_decode_with_delimiter 58 (replicate 4 0) (hex_encode_string_with_delimiter [37, 43, 200] 58) =
     (3, mem_write (replicate 4 0) 0 [37, 43, 200])"
  using encodings_roundtrip [of "[37, 43, 200]" 10 4 "replicate 4 0"] by simp

text \<open>Splitting loses nothing. The fields that \<^verbatim>\<open>split\<close> returns contain no delimiter and joined by it give the
  source again, and \<^verbatim>\<open>tokenize\<close> returns exactly those of them that are not empty.\<close>

theorem split_tokenize:
  "join d (split s d) = s \<and> list_all (\<lambda>f. d \<notin> set f) (split s d) \<and> tokenize s d = filter (\<lambda>f. f \<noteq> []) (split s d)"
proof -
  obtain fields l where st: "foldl (split_step s d) ([], 0) [0..<length s] = (fields, l)"
    "foldl (tokenize_step s d) ([], 0) [0..<length s] = (filter (\<lambda>f. f \<noteq> []) fields, l)" "l \<le> length s"
    "s = concat (map (\<lambda>f. f @ [d]) fields) @ substr s l (length s - l)" "d \<notin> set (substr s l (length s - l))"
    "\<forall>f \<in> set fields. d \<notin> set f"
    using split_states [of "length s" s d] by auto
  have "substr s l (length s - l) = [] \<longleftrightarrow> l = length s" using st(3) by (auto simp: substr_def)
  moreover have "split s d = fields @ [substr s l (length s - l)]" by (simp add: split_def st(1))
  moreover have "tokenize s d = filter (\<lambda>f. f \<noteq> []) fields @ (if l \<noteq> length s then [substr s l (length s - l)] else [])"
    by (simp add: tokenize_def st(2))
  ultimately show ?thesis using st(4-6) join_snoc [of d fields "substr s l (length s - l)"]
    by (auto simp: list_all_iff)
qed

text \<open>UTF-8. Every value of at most 21 bits is encoded in the shortest of the four forms, and decoding the encoding,
  whatever follows it, gives the value and the number of bytes.\<close>

theorem utf8_roundtrip:
  assumes "val \<le> 0x1FFFFF"
  shows "utf8_decode (utf8_encode 4 val @ rest) = Some (length (utf8_encode 4 val), val) \<and>
    length (utf8_encode 4 val) = (if val \<le> 0x7F then 1 else if val \<le> 0x7FF then 2 else if val \<le> 0xFFFF then 3 else 4)"
  using assms utf8_decode_1 [of val rest] utf8_decode_2 [of val rest] utf8_decode_3 [of val rest] utf8_decode_4 [of val rest]
  unfolding utf8_ranges utf8_encode_def by simp

theorem utf8_roundtrip_witness:
  "utf8_encode 4 0x20AC = [0xE2, 0x82, 0xAC] \<and> utf8_decode ([0xE2, 0x82, 0xAC] @ [65]) = Some (3, 0x20AC)"
proof -
  have e: "utf8_encode 4 0x20AC = [0xE2, 0x82, 0xAC]" by code_simp
  then show ?thesis using utf8_roundtrip [of "0x20AC" "[65]"] by simp
qed

text \<open>Letters after F count as hexadecimal digits: every lower-case letter is accepted, and decoding \<^verbatim>\<open>gz\<close>
  succeeds with the one byte \<open>35\<close>, the digit \<open>z\<close> alone, since the sixteen that \<open>g\<close> stands for is shifted out of
  the byte.\<close>

theorem hex_decode_accepts_letters:
  "list_all (\<lambda>ch. hex_decode_digit (word_of_nat ch) \<noteq> None) [97..<123] \<and>
   hex_decode_with_delimiter 0 [0] [103, 122] = (1, [35])"
  by code_simp

end
