(* ===== verification/Message_Digest.thy ===== *)
theory Message_Digest
  imports Sha1 Md5 String_Encode
begin

text \<open>
  \<^verbatim>\<open>base/messagedigest.h\<close>, \<^verbatim>\<open>base/messagedigest.cc\<close>, \<^verbatim>\<open>base/md5digest.h\<close> and \<^verbatim>\<open>base/sha1digest.h\<close>: digest
  objects over the built-in digests (the build without OpenSSL), the factory by name, one-shot digests and the
  HMAC of RFC 2104. An object is its class and its context; \<open>h\<close> is the byte order of the host. An output buffer is a
  byte list that the operations return changed. The locale \<open>digest\<close> is what the one-shot functions rely on, and the
  HMAC theorem is proved in it once for both digests.
\<close>

datatype message_digest = Md5Digest md5_context | Sha1Digest sha1_ctx

definition DIGEST_MD5 :: string where "DIGEST_MD5 = ''md5''"
definition DIGEST_SHA_1 :: string where "DIGEST_SHA_1 = ''sha-1''"
definition DIGEST_SHA_224 :: string where "DIGEST_SHA_224 = ''sha-224''"
definition DIGEST_SHA_256 :: string where "DIGEST_SHA_256 = ''sha-256''"
definition DIGEST_SHA_384 :: string where "DIGEST_SHA_384 = ''sha-384''"
definition DIGEST_SHA_512 :: string where "DIGEST_SHA_512 = ''sha-512''"

definition kBlockSize :: nat where "kBlockSize = 64"

text \<open>The memory of a new object has no particular contents; the constructors initialize what is read.\<close>

definition Md5Digest_new :: "md5_context \<Rightarrow> message_digest" where
  "Md5Digest_new ctx = Md5Digest (MD5Init ctx)"

definition Sha1Digest_new :: "sha1_ctx \<Rightarrow> message_digest" where
  "Sha1Digest_new ctx = Sha1Digest (SHA1Init ctx)"

fun Size :: "message_digest \<Rightarrow> nat" where
  "Size (Md5Digest ctx) = 16"
| "Size (Sha1Digest ctx) = SHA1_DIGEST_SIZE"

fun Update :: "bool \<Rightarrow> byte list \<Rightarrow> message_digest \<Rightarrow> message_digest" where
  "Update h buf (Md5Digest ctx) = Md5Digest (MD5Update h ctx buf)"
| "Update h buf (Sha1Digest ctx) = Sha1Digest (SHA1Update h ctx buf)"

text \<open>\<^verbatim>\<open>Finish\<close>: the number of bytes written, the buffer and the object, reset for the next use. \<open>None\<close> would be a
  padding loop that does not end; \<open>Finish_returns\<close> excludes it.\<close>

fun Finish :: "bool \<Rightarrow> byte list \<Rightarrow> message_digest \<Rightarrow> (nat \<times> byte list \<times> message_digest) option" where
  "Finish h buf (Md5Digest ctx) =
     (if length buf < 16 then Some (0, buf, Md5Digest ctx)
      else let (digest, ctx) = MD5Final h ctx
           in Some (16, mem_write buf 0 digest, Md5Digest (MD5Init ctx)))"
| "Finish h buf (Sha1Digest ctx) =
     (if length buf < SHA1_DIGEST_SIZE then Some (0, buf, Sha1Digest ctx)
      else case SHA1Final h ctx of
             None \<Rightarrow> None
           | Some (digest, ctx) \<Rightarrow> Some (SHA1_DIGEST_SIZE, mem_write buf 0 digest, Sha1Digest (SHA1Init ctx)))"

definition fresh_md5 :: md5_context where
  "fresh_md5 = \<lparr>md5_buf = replicate 4 0, md5_bits0 = 0, md5_bits1 = 0, md5_in = replicate 64 0\<rparr>"

definition fresh_sha1 :: sha1_ctx where
  "fresh_sha1 = \<lparr>sha_state = replicate 5 0, sha_count0 = 0, sha_count1 = 0, sha_buffer = replicate 64 0\<rparr>"

definition MessageDigestFactory_Create :: "string \<Rightarrow> message_digest option" where
  "MessageDigestFactory_Create alg =
     (if alg = DIGEST_MD5 then Some (Md5Digest_new fresh_md5)
      else if alg = DIGEST_SHA_1 then Some (Sha1Digest_new fresh_sha1)
      else None)"

definition IsFips180DigestAlgorithm :: "string \<Rightarrow> bool" where
  "IsFips180DigestAlgorithm alg \<longleftrightarrow>
     alg = DIGEST_SHA_1 \<or> alg = DIGEST_SHA_224 \<or> alg = DIGEST_SHA_256 \<or> alg = DIGEST_SHA_384 \<or> alg = DIGEST_SHA_512"

section \<open>One-shot digests\<close>

definition ComputeDigest ::
    "bool \<Rightarrow> message_digest \<Rightarrow> byte list \<Rightarrow> byte list \<Rightarrow> (nat \<times> byte list \<times> message_digest) option" where
  "ComputeDigest h digest input output = Finish h output (Update h input digest)"

definition ComputeDigest_alg :: "bool \<Rightarrow> string \<Rightarrow> byte list \<Rightarrow> byte list \<Rightarrow> (nat \<times> byte list) option" where
  "ComputeDigest_alg h alg input output =
     (case MessageDigestFactory_Create alg of
        Some digest \<Rightarrow> map_option (\<lambda>(n, output, _). (n, output)) (ComputeDigest h digest input output)
      | None \<Rightarrow> Some (0, output))"

definition ComputeDigest_hex :: "bool \<Rightarrow> message_digest \<Rightarrow> byte list \<Rightarrow> (byte list \<times> message_digest) option" where
  "ComputeDigest_hex h digest input =
     do {
       (_, output, digest) \<leftarrow> ComputeDigest h digest input (replicate (Size digest) 0);
       Some (hex_encode (take (Size digest) output), digest)
     }"

text \<open>The variant with a result code: the flag, and the string it leaves in its output argument.\<close>

definition ComputeDigest_string :: "bool \<Rightarrow> string \<Rightarrow> byte list \<Rightarrow> byte list \<Rightarrow> (bool \<times> byte list) option" where
  "ComputeDigest_string h alg input output =
     (case MessageDigestFactory_Create alg of
        None \<Rightarrow> Some (False, output)
      | Some digest \<Rightarrow> map_option (\<lambda>(s, _). (True, s)) (ComputeDigest_hex h digest input))"

definition ComputeDigest_plain :: "bool \<Rightarrow> string \<Rightarrow> byte list \<Rightarrow> byte list option" where
  "ComputeDigest_plain h alg input = map_option snd (ComputeDigest_string h alg input [])"

definition MD5 :: "bool \<Rightarrow> byte list \<Rightarrow> byte list option" where
  "MD5 h input = ComputeDigest_plain h DIGEST_MD5 input"

section \<open>HMAC\<close>

definition ComputeHmac ::
    "bool \<Rightarrow> message_digest \<Rightarrow> byte list \<Rightarrow> byte list \<Rightarrow> byte list \<Rightarrow> (nat \<times> byte list \<times> message_digest) option" where
  "ComputeHmac h digest key input output =
     (let block_len = kBlockSize
      in if Size digest > 32 then Some (0, output, digest)
         else do {
           (new_key, digest) \<leftarrow>
             (if length key > block_len
              then do {
                (_, new_key, digest) \<leftarrow> ComputeDigest h digest key (replicate block_len 0);
                Some (mem_write new_key (Size digest) (replicate (block_len - Size digest) 0), digest)
              }
              else Some (mem_write (mem_write (replicate block_len 0) 0 key) (length key)
                     (replicate (block_len - length key) 0), digest));
           let o_pad = map (\<lambda>i. 0x5c XOR new_key ! i) [0..<block_len];
           let i_pad = map (\<lambda>i. 0x36 XOR new_key ! i) [0..<block_len];
           let digest = Update h input (Update h i_pad digest);
           (_, inner, digest) \<leftarrow> Finish h (replicate (Size digest) 0) digest;
           let digest = Update h (mem_read inner 0 (Size digest)) (Update h o_pad digest);
           Finish h output digest
         })"

definition ComputeHmac_alg :: "bool \<Rightarrow> string \<Rightarrow> byte list \<Rightarrow> byte list \<Rightarrow> byte list \<Rightarrow> (nat \<times> byte list) option" where
  "ComputeHmac_alg h alg key input output =
     (case MessageDigestFactory_Create alg of
        None \<Rightarrow> Some (0, output)
      | Some digest \<Rightarrow> map_option (\<lambda>(n, output, _). (n, output)) (ComputeHmac h digest key input output))"

definition ComputeHmac_hex :: "bool \<Rightarrow> message_digest \<Rightarrow> byte list \<Rightarrow> byte list \<Rightarrow> (byte list \<times> message_digest) option" where
  "ComputeHmac_hex h digest key input =
     do {
       (_, output, digest) \<leftarrow> ComputeHmac h digest key input (replicate (Size digest) 0);
       Some (hex_encode (take (Size digest) output), digest)
     }"

definition ComputeHmac_string :: "bool \<Rightarrow> string \<Rightarrow> byte list \<Rightarrow> byte list \<Rightarrow> byte list \<Rightarrow> (bool \<times> byte list) option" where
  "ComputeHmac_string h alg key input output =
     (case MessageDigestFactory_Create alg of
        None \<Rightarrow> Some (False, output)
      | Some digest \<Rightarrow> map_option (\<lambda>(s, _). (True, s)) (ComputeHmac_hex h digest key input))"

definition ComputeHmac_plain :: "bool \<Rightarrow> string \<Rightarrow> byte list \<Rightarrow> byte list \<Rightarrow> byte list option" where
  "ComputeHmac_plain h alg key input = map_option snd (ComputeHmac_string h alg key input [])"

section \<open>What a digest class promises\<close>

text \<open>The HMAC of RFC 2104 for a hash with blocks of 64 bytes.\<close>

definition hmac_key :: "(byte list \<Rightarrow> byte list) \<Rightarrow> byte list \<Rightarrow> byte list" where
  "hmac_key H key = (let k = (if length key > 64 then H key else key) in k @ replicate (64 - length k) 0)"

definition rfc2104 :: "(byte list \<Rightarrow> byte list) \<Rightarrow> byte list \<Rightarrow> byte list \<Rightarrow> byte list" where
  "rfc2104 H key text =
     H (map ((XOR) 0x5c) (hmac_key H key) @ H (map ((XOR) 0x36) (hmac_key H key) @ text))"

text \<open>\<open>holds m d\<close>: the object has been updated with the bytes \<open>m\<close> since it was created or last finished.\<close>

locale digest =
  fixes h :: bool
    and holds :: "byte list \<Rightarrow> message_digest \<Rightarrow> bool"
    and size :: nat
    and H :: "byte list \<Rightarrow> byte list"
  assumes Size_holds: "holds m d \<Longrightarrow> Size d = size"
    and Update_holds: "holds m d \<Longrightarrow> holds (m @ x) (Update h x d)"
    and Finish_short: "holds m d \<Longrightarrow> length buf < size \<Longrightarrow> Finish h buf d = Some (0, buf, d)"
    and Finish_holds: "holds m d \<Longrightarrow> size \<le> length buf \<Longrightarrow>
      \<exists>d'. Finish h buf d = Some (size, mem_write buf 0 (H m), d') \<and> holds [] d'"
    and length_H: "length (H m) = size"
    and size_bound: "0 < size" "size \<le> 32"
begin

lemma ComputeDigest_holds:
  assumes "holds [] d" "size \<le> length output"
  shows "\<exists>d'. ComputeDigest h d input output = Some (size, mem_write output 0 (H input), d') \<and> holds [] d'"
  using Finish_holds [OF Update_holds [OF assms(1), of input] assms(2)] by (simp add: ComputeDigest_def)

lemma ComputeDigest_short:
  assumes "holds [] d" "length output < size"
  shows "ComputeDigest h d input output = Some (0, output, Update h input d)"
  using Finish_short [OF Update_holds [OF assms(1), of input] assms(2)] by (simp add: ComputeDigest_def)

lemma key_block:
  assumes "holds [] d"
  shows "\<exists>d'. (if length key > 64
       then do {
         (_, new_key, digest) \<leftarrow> ComputeDigest h d key (replicate 64 0);
         Some (mem_write new_key (Size digest) (replicate (64 - Size digest) 0), digest)
       }
       else Some (mem_write (mem_write (replicate 64 0) 0 key) (length key) (replicate (64 - length key) 0), d)) =
     Some (hmac_key H key, d') \<and> holds [] d'"
proof (cases "length key > 64")
  case True
  obtain d' where d': "ComputeDigest h d key (replicate 64 0) = Some (size, mem_write (replicate 64 0) 0 (H key), d')"
    "holds [] d'" using ComputeDigest_holds [OF assms, of "replicate 64 0" key] size_bound by auto
  moreover have "mem_write (mem_write (replicate 64 0) 0 (H key)) size (replicate (64 - size) 0) = hmac_key H key"
    using True size_bound length_H [of key] by (simp add: mem_write_def hmac_key_def)
  ultimately show ?thesis using True Size_holds [OF d'(2)] by simp
next
  case False
  then have "mem_write (mem_write (replicate 64 0) 0 key) (length key) (replicate (64 - length key) 0) = hmac_key H key"
    by (simp add: mem_write_def hmac_key_def)
  with False assms show ?thesis by auto
qed

lemma length_hmac_key: "length (hmac_key H key) = 64"
  using length_H [of key] size_bound by (auto simp: hmac_key_def Let_def)

lemma pad_block: "map (\<lambda>i. c XOR hmac_key H key ! i) [0..<64] = map ((XOR) c) (hmac_key H key)"
  by (rule nth_equalityI) (simp_all add: length_hmac_key)

lemma updates_hold: "holds m d \<Longrightarrow> holds (m @ concat xs) (fold (Update h) xs d)"
proof (induction xs arbitrary: m d)
  case (Cons x xs)
  then show ?case using Cons.IH [OF Update_holds [OF Cons.prems, of x]] by simp
qed simp

text \<open>Up to the last call an HMAC leaves the object with what the outer hash is of.\<close>

lemma ComputeHmac_outer:
  assumes "holds [] d"
  shows "\<exists>d'. ComputeHmac h d key input output = Finish h output d' \<and>
    holds (map ((XOR) 0x5c) (hmac_key H key) @ H (map ((XOR) 0x36) (hmac_key H key) @ input)) d'"
proof -
  let ?k = "hmac_key H key"
  let ?o = "map ((XOR) 0x5c) ?k" and ?i = "map ((XOR) 0x36) ?k"
  obtain d1 where d1: "(if length key > 64
       then do {
         (_, new_key, digest) \<leftarrow> ComputeDigest h d key (replicate 64 0);
         Some (mem_write new_key (Size digest) (replicate (64 - Size digest) 0), digest)
       }
       else Some (mem_write (mem_write (replicate 64 0) 0 key) (length key) (replicate (64 - length key) 0), d)) =
     Some (?k, d1)" "holds [] d1" using key_block [OF assms] by blast
  define d2 where "d2 = Update h input (Update h ?i d1)"
  have d2: "holds (?i @ input) d2" unfolding d2_def using Update_holds [OF Update_holds [OF d1(2), of ?i], of input] by simp
  then obtain d3 where d3: "Finish h (replicate (Size d2) 0) d2 = Some (size, mem_write (replicate size 0) 0 (H (?i @ input)), d3)"
    "holds [] d3" using Finish_holds [OF d2, of "replicate size 0"] Size_holds [OF d2] by auto
  have inner: "mem_read (mem_write (replicate size 0) 0 (H (?i @ input))) 0 (Size d3) = H (?i @ input)"
    using Size_holds [OF d3(2)] length_H by (simp add: mem_write_def mem_read_def)
  define d4 where "d4 = Update h (H (?i @ input)) (Update h ?o d3)"
  have d4: "holds (?o @ H (?i @ input)) d4" unfolding d4_def using Update_holds [OF Update_holds [OF d3(2), of ?o]] by simp
  have "\<not> Size d > 32" using Size_holds [OF assms] size_bound by simp
  then have "ComputeHmac h d key input output = Finish h output d4"
    unfolding ComputeHmac_def kBlockSize_def Let_def d1(1)
    by (simp add: pad_block d2_def [symmetric] d3(1) inner d4_def [symmetric])
  with d4 show ?thesis by blast
qed

lemma ComputeHmac_result:
  assumes "holds [] d"
  shows "\<exists>d'. ComputeHmac h d key input output =
    Some (if size \<le> length output then (size, mem_write output 0 (rfc2104 H key input), d') else (0, output, d'))"
proof -
  obtain d' where d': "ComputeHmac h d key input output = Finish h output d'"
    "holds (map ((XOR) 0x5c) (hmac_key H key) @ H (map ((XOR) 0x36) (hmac_key H key) @ input)) d'"
    using ComputeHmac_outer [OF assms] by blast
  show ?thesis
    using Finish_holds [OF d'(2), of "output"] Finish_short [OF d'(2), of "output"] by (auto simp: d'(1) rfc2104_def)
qed

lemma ComputeDigest_result:
  assumes "holds [] d"
  shows "\<exists>d'. ComputeDigest h d input output =
    Some (if size \<le> length output then (size, mem_write output 0 (H input), d') else (0, output, d'))"
  using ComputeDigest_holds [OF assms, of "output" input] ComputeDigest_short [OF assms, of "output" input] by fastforce

end

definition md5_holds :: "byte list \<Rightarrow> message_digest \<Rightarrow> bool" where
  "md5_holds m d \<longleftrightarrow> (\<exists>c. d = Md5Digest c \<and> md5_absorbed m c)"

definition sha1_holds :: "byte list \<Rightarrow> message_digest \<Rightarrow> bool" where
  "sha1_holds m d \<longleftrightarrow> (\<exists>c. d = Sha1Digest c \<and> sha1_absorbed m c)"

lemma length_rfc_md5: "length (rfc_md5 m) = 16"
  using length_rfc_fold [of rfc_init "blocks (pad_with le64 m)"]
  by (simp add: rfc_md5_def length_concat comp_def sum_list_triv rfc_init_def)

lemma length_fips_sha1: "length (fips_sha1 m) = 20"
  using length_fips_fold [of fips_init "blocks (pad_with be64 m)"]
  by (simp add: fips_sha1_def length_concat comp_def sum_list_triv fips_init_def)

interpretation md5: digest h md5_holds 16 rfc_md5
proof unfold_locales
  fix m d and buf :: "byte list"
  assume d: "md5_holds m d" and len: "16 \<le> length buf"
  obtain c where c: "d = Md5Digest c" "md5_absorbed m c" using d by (auto simp: md5_holds_def)
  obtain c' where "MD5Final h c = (rfc_md5 m, c')" "length (md5_in c') = 64" using MD5Final_spec [OF c(2)] by blast
  then show "\<exists>d'. Finish h buf d = Some (16, mem_write buf 0 (rfc_md5 m), d') \<and> md5_holds [] d'"
    using len by (simp add: c(1) md5_holds_def MD5Init_absorbed)
qed (auto simp: md5_holds_def MD5Update_absorbed length_rfc_md5)

interpretation sha1: digest h sha1_holds 20 fips_sha1
proof unfold_locales
  fix m d and buf :: "byte list"
  assume d: "sha1_holds m d" and len: "20 \<le> length buf"
  obtain c where c: "d = Sha1Digest c" "sha1_absorbed m c" using d by (auto simp: sha1_holds_def)
  obtain c' where "SHA1Final h c = Some (fips_sha1 m, c')" "length (sha_buffer c') = 64" using SHA1Final_spec [OF c(2)] by blast
  then show "\<exists>d'. Finish h buf d = Some (20, mem_write buf 0 (fips_sha1 m), d') \<and> sha1_holds [] d'"
    using len by (simp add: c(1) sha1_holds_def SHA1Init_absorbed SHA1_DIGEST_SIZE_def)
qed (auto simp: sha1_holds_def SHA1Update_absorbed length_fips_sha1 SHA1_DIGEST_SIZE_def)

lemma new_holds:
  "length (md5_in c) = 64 \<Longrightarrow> md5_holds [] (Md5Digest_new c)" "length (sha_buffer c') = 64 \<Longrightarrow> sha1_holds [] (Sha1Digest_new c')"
  by (simp_all add: md5_holds_def sha1_holds_def Md5Digest_new_def Sha1Digest_new_def MD5Init_absorbed SHA1Init_absorbed)

lemma created_holds:
  "\<exists>d. MessageDigestFactory_Create DIGEST_MD5 = Some d \<and> md5_holds [] d"
  "\<exists>d. MessageDigestFactory_Create DIGEST_SHA_1 = Some d \<and> sha1_holds [] d"
  by (simp_all add: MessageDigestFactory_Create_def DIGEST_MD5_def DIGEST_SHA_1_def new_holds fresh_md5_def fresh_sha1_def)

lemma digest_alg:
  "ComputeDigest_alg h DIGEST_SHA_1 input output =
     Some (if 20 \<le> length output then (20, mem_write output 0 (fips_sha1 input)) else (0, output))"
  "ComputeDigest_alg h DIGEST_MD5 input output =
     Some (if 16 \<le> length output then (16, mem_write output 0 (rfc_md5 input)) else (0, output))"
  using created_holds sha1.ComputeDigest_result [of _ h input "output"] md5.ComputeDigest_result [of _ h input "output"]
  by (fastforce simp: ComputeDigest_alg_def)+

lemma hmac_alg:
  "ComputeHmac_alg h DIGEST_SHA_1 key input output =
     Some (if 20 \<le> length output then (20, mem_write output 0 (rfc2104 fips_sha1 key input)) else (0, output))"
  "ComputeHmac_alg h DIGEST_MD5 key input output =
     Some (if 16 \<le> length output then (16, mem_write output 0 (rfc2104 rfc_md5 key input)) else (0, output))"
  using created_holds sha1.ComputeHmac_result [of _ h key input "output"] md5.ComputeHmac_result [of _ h key input "output"]
  by (fastforce simp: ComputeHmac_alg_def)+

section \<open>Properties\<close>

text \<open>C26: the built-in SHA-1 is SHA-1. On hosts of either byte order, a digest object that is updated with any
  sequence of byte strings and finished into a large enough buffer writes the FIPS 180 digest of their
  concatenation, and is then ready for the next message.\<close>

theorem Sha1Digest_is_SHA1:
  assumes "length (sha_buffer c) = 64" "20 \<le> length buf"
  shows "\<exists>d. Finish h buf (fold (Update h) xs (Sha1Digest_new c)) =
      Some (20, mem_write buf 0 (fips_sha1 (concat xs)), d) \<and>
    (\<exists>d'. Finish h buf (fold (Update h) ys d) = Some (20, mem_write buf 0 (fips_sha1 (concat ys)), d'))"
proof -
  have "sha1_holds (concat xs) (fold (Update h) xs (Sha1Digest_new c))"
    using sha1.updates_hold [OF new_holds(2) [OF assms(1)], of xs h] by simp
  from sha1.Finish_holds [OF this assms(2)] obtain d where d: "sha1_holds [] d"
    "Finish h buf (fold (Update h) xs (Sha1Digest_new c)) = Some (20, mem_write buf 0 (fips_sha1 (concat xs)), d)" by auto
  have "sha1_holds (concat ys) (fold (Update h) ys d)" using sha1.updates_hold [OF d(1), of ys h] by simp
  from sha1.Finish_holds [OF this assms(2)] d(2) show ?thesis by auto
qed

theorem Sha1Digest_is_SHA1_witness:
  "\<exists>d. Finish True (replicate 20 0) (Update True [98, 99] (Update True [97] (Sha1Digest_new fresh_sha1))) =
      Some (20, mem_write (replicate 20 0) 0 (fips_sha1 [97, 98, 99]), d)"
  using Sha1Digest_is_SHA1 [of fresh_sha1 "replicate 20 0" True "[[97], [98, 99]]" "[]"] by (auto simp: fresh_sha1_def)

text \<open>C27: the built-in MD5 is MD5: the same for the digest of RFC 1321, also on big-endian hosts, where the words of
  the block and of the result are reversed.\<close>

theorem Md5Digest_is_MD5:
  assumes "length (md5_in c) = 64" "16 \<le> length buf"
  shows "\<exists>d. Finish h buf (fold (Update h) xs (Md5Digest_new c)) =
      Some (16, mem_write buf 0 (rfc_md5 (concat xs)), d) \<and>
    (\<exists>d'. Finish h buf (fold (Update h) ys d) = Some (16, mem_write buf 0 (rfc_md5 (concat ys)), d'))"
proof -
  have "md5_holds (concat xs) (fold (Update h) xs (Md5Digest_new c))"
    using md5.updates_hold [OF new_holds(1) [OF assms(1)], of xs h] by simp
  from md5.Finish_holds [OF this assms(2)] obtain d where d: "md5_holds [] d"
    "Finish h buf (fold (Update h) xs (Md5Digest_new c)) = Some (16, mem_write buf 0 (rfc_md5 (concat xs)), d)" by auto
  have "md5_holds (concat ys) (fold (Update h) ys d)" using md5.updates_hold [OF d(1), of ys h] by simp
  from md5.Finish_holds [OF this assms(2)] d(2) show ?thesis by auto
qed

theorem Md5Digest_is_MD5_witness:
  "\<exists>d. Finish True (replicate 16 0) (Update True [98, 99] (Update True [97] (Md5Digest_new fresh_md5))) =
      Some (16, mem_write (replicate 16 0) 0 (rfc_md5 [97, 98, 99]), d)"
  using Md5Digest_is_MD5 [of fresh_md5 "replicate 16 0" True "[[97], [98, 99]]" "[]"] by (auto simp: fresh_md5_def)

text \<open>C29: \<^verbatim>\<open>ComputeHmac\<close> by algorithm name is the HMAC of RFC 2104 over the standard's hash function, for keys of any
  length (longer ones than a block are hashed first); it writes nothing and returns 0 when the output is too small
  or the algorithm is unknown.\<close>

theorem ComputeHmac_is_RFC2104:
  "ComputeHmac_alg h alg key input output =
     (if alg = DIGEST_MD5 \<and> 16 \<le> length output then Some (16, mem_write output 0 (rfc2104 rfc_md5 key input))
      else if alg = DIGEST_SHA_1 \<and> 20 \<le> length output then Some (20, mem_write output 0 (rfc2104 fips_sha1 key input))
      else Some (0, output))"
proof (cases "alg = DIGEST_MD5 \<or> alg = DIGEST_SHA_1")
  case True
  then show ?thesis by (auto simp: hmac_alg)
next
  case False
  then show ?thesis by (simp add: ComputeHmac_alg_def MessageDigestFactory_Create_def)
qed

end
