(* ===== verification/Stun_Attribute.thy ===== *)
theory Stun_Attribute
  imports Byte_Buffer Socket_Address "HOL-Library.Signed_Division"
begin

text \<open>
  \<^verbatim>\<open>p2p/base/stun.h\<close> and \<^verbatim>\<open>p2p/base/stun.cc\<close>, the attributes of STUN messages: the class \<^verbatim>\<open>StunAttribute\<close> is a
  record of its type, its length and the value of the derived class. A XOR address needs the transaction id of the
  message that owns it: the value keeps whether it has an owner, and the operations that look at the owner take
  its transaction id as an argument, since an attribute is only ever owned by the message that holds it. Reading
  returns \<open>Inr\<close> with the attribute and the buffer, or \<open>Inl\<close> with the buffer as far as it was consumed when the code
  returns false. Writing returns the flag and the buffer; \<open>None\<close> is the copy from a null pointer that writing a
  byte string without bytes would do. The second part gives the bytes of every well-formed attribute, and shows
  that writing produces them and reading them back gives the attribute.
\<close>

section \<open>Types\<close>

definition STUN_ATTR_MAPPED_ADDRESS :: int where "STUN_ATTR_MAPPED_ADDRESS = 0x0001"
definition STUN_ATTR_USERNAME :: int where "STUN_ATTR_USERNAME = 0x0006"
definition STUN_ATTR_MESSAGE_INTEGRITY :: int where "STUN_ATTR_MESSAGE_INTEGRITY = 0x0008"
definition STUN_ATTR_ERROR_CODE :: int where "STUN_ATTR_ERROR_CODE = 0x0009"
definition STUN_ATTR_UNKNOWN_ATTRIBUTES :: int where "STUN_ATTR_UNKNOWN_ATTRIBUTES = 0x000a"
definition STUN_ATTR_REALM :: int where "STUN_ATTR_REALM = 0x0014"
definition STUN_ATTR_NONCE :: int where "STUN_ATTR_NONCE = 0x0015"
definition STUN_ATTR_XOR_MAPPED_ADDRESS :: int where "STUN_ATTR_XOR_MAPPED_ADDRESS = 0x0020"
definition STUN_ATTR_SOFTWARE :: int where "STUN_ATTR_SOFTWARE = 0x8022"
definition STUN_ATTR_ALTERNATE_SERVER :: int where "STUN_ATTR_ALTERNATE_SERVER = 0x8023"
definition STUN_ATTR_FINGERPRINT :: int where "STUN_ATTR_FINGERPRINT = 0x8028"
definition STUN_ATTR_RETRANSMIT_COUNT :: int where "STUN_ATTR_RETRANSMIT_COUNT = 0xFF00"
definition STUN_ATTR_LIFETIME :: int where "STUN_ATTR_LIFETIME = 0x000d"
definition STUN_ATTR_MAGIC_COOKIE :: int where "STUN_ATTR_MAGIC_COOKIE = 0x000f"
definition STUN_ATTR_BANDWIDTH :: int where "STUN_ATTR_BANDWIDTH = 0x0010"
definition STUN_ATTR_DESTINATION_ADDRESS :: int where "STUN_ATTR_DESTINATION_ADDRESS = 0x0011"
definition STUN_ATTR_SOURCE_ADDRESS2 :: int where "STUN_ATTR_SOURCE_ADDRESS2 = 0x0012"
definition STUN_ATTR_DATA :: int where "STUN_ATTR_DATA = 0x0013"
definition STUN_ATTR_OPTIONS :: int where "STUN_ATTR_OPTIONS = 0x8001"
definition STUN_ATTR_CHANNEL_NUMBER :: int where "STUN_ATTR_CHANNEL_NUMBER = 0x000C"
definition STUN_ATTR_TURN_LIFETIME :: int where "STUN_ATTR_TURN_LIFETIME = 0x000d"
definition STUN_ATTR_XOR_PEER_ADDRESS :: int where "STUN_ATTR_XOR_PEER_ADDRESS = 0x0012"
definition STUN_ATTR_XOR_RELAYED_ADDRESS :: int where "STUN_ATTR_XOR_RELAYED_ADDRESS = 0x0016"
definition STUN_ATTR_EVEN_PORT :: int where "STUN_ATTR_EVEN_PORT = 0x0018"
definition STUN_ATTR_REQUESTED_TRANSPORT :: int where "STUN_ATTR_REQUESTED_TRANSPORT = 0x0019"
definition STUN_ATTR_DONT_FRAGMENT :: int where "STUN_ATTR_DONT_FRAGMENT = 0x001A"
definition STUN_ATTR_RESERVATION_TOKEN :: int where "STUN_ATTR_RESERVATION_TOKEN = 0x0022"
definition STUN_ATTR_PRIORITY :: int where "STUN_ATTR_PRIORITY = 0x0024"
definition STUN_ATTR_USE_CANDIDATE :: int where "STUN_ATTR_USE_CANDIDATE = 0x0025"
definition STUN_ATTR_ICE_CONTROLLED :: int where "STUN_ATTR_ICE_CONTROLLED = 0x8029"
definition STUN_ATTR_ICE_CONTROLLING :: int where "STUN_ATTR_ICE_CONTROLLING = 0x802A"

datatype StunAttributeValueType = STUN_VALUE_UNKNOWN | STUN_VALUE_ADDRESS | STUN_VALUE_XOR_ADDRESS | STUN_VALUE_UINT32
  | STUN_VALUE_UINT64 | STUN_VALUE_BYTE_STRING | STUN_VALUE_ERROR_CODE | STUN_VALUE_UINT16_LIST

datatype StunAddressFamily = STUN_ADDRESS_UNDEF | STUN_ADDRESS_IPV4 | STUN_ADDRESS_IPV6

definition family_number :: "StunAddressFamily \<Rightarrow> u8" where
  "family_number f = (case f of STUN_ADDRESS_UNDEF \<Rightarrow> 0 | STUN_ADDRESS_IPV4 \<Rightarrow> 1 | STUN_ADDRESS_IPV6 \<Rightarrow> 2)"

definition kStunMagicCookie :: u32 where "kStunMagicCookie = 0x2112A442"
definition kStunTransactionIdLength :: nat where "kStunTransactionIdLength = 12"
definition kStunLegacyTransactionIdLength :: nat where "kStunLegacyTransactionIdLength = 16"

text \<open>The fields of the derived classes; a byte string is \<open>None\<close> while \<^verbatim>\<open>bytes_\<close> is null.\<close>

datatype stun_value =
    AddressValue socket_address
  | XorAddressValue socket_address bool
  | UInt32Value u32
  | UInt64Value u64
  | ByteStringValue "byte list option"
  | ErrorCodeValue u8 u8 "byte list"
  | UInt16ListValue "u16 list"

record stun_attribute =
  at_type :: u16
  at_length :: u16
  at_value :: stun_value

fun value_type :: "stun_value \<Rightarrow> StunAttributeValueType" where
  "value_type (AddressValue _) = STUN_VALUE_ADDRESS"
| "value_type (XorAddressValue _ _) = STUN_VALUE_XOR_ADDRESS"
| "value_type (UInt32Value _) = STUN_VALUE_UINT32"
| "value_type (UInt64Value _) = STUN_VALUE_UINT64"
| "value_type (ByteStringValue _) = STUN_VALUE_BYTE_STRING"
| "value_type (ErrorCodeValue _ _ _) = STUN_VALUE_ERROR_CODE"
| "value_type (UInt16ListValue _) = STUN_VALUE_UINT16_LIST"

definition SetLength :: "u16 \<Rightarrow> stun_attribute \<Rightarrow> stun_attribute" where
  "SetLength len a = a\<lparr>at_length := len\<rparr>"

definition SetOwner :: "stun_attribute \<Rightarrow> stun_attribute" where
  "SetOwner a = (case at_value a of XorAddressValue addr _ \<Rightarrow> a\<lparr>at_value := XorAddressValue addr True\<rparr> | _ \<Rightarrow> a)"

section \<open>Padding\<close>

definition ConsumePadding :: "stun_attribute \<Rightarrow> byte_buffer \<Rightarrow> byte_buffer" where
  "ConsumePadding a b =
     (let remainder = unat (at_length a) mod 4
      in if remainder > 0 then (case Consume (4 - remainder) b of None \<Rightarrow> b | Some b' \<Rightarrow> b') else b)"

definition WritePadding :: "stun_attribute \<Rightarrow> byte_buffer \<Rightarrow> byte_buffer" where
  "WritePadding a b =
     (let remainder = unat (at_length a) mod 4
      in if remainder > 0 then WriteBytes (take (4 - remainder) [0, 0, 0, 0]) b else b)"

section \<open>Addresses\<close>

definition SIZE_UNDEF :: u16 where "SIZE_UNDEF = 0"
definition SIZE_IP4 :: u16 where "SIZE_IP4 = 8"
definition SIZE_IP6 :: u16 where "SIZE_IP6 = 20"

definition stun_family :: "socket_address \<Rightarrow> StunAddressFamily" where
  "stun_family addr =
     (case ip_family (sa_ip addr) of AF_INET \<Rightarrow> STUN_ADDRESS_IPV4 | AF_INET6 \<Rightarrow> STUN_ADDRESS_IPV6
      | AF_UNSPEC \<Rightarrow> STUN_ADDRESS_UNDEF)"

definition EnsureAddressLength :: "socket_address \<Rightarrow> stun_attribute \<Rightarrow> stun_attribute" where
  "EnsureAddressLength addr a =
     (case stun_family addr of
        STUN_ADDRESS_IPV4 \<Rightarrow> SetLength SIZE_IP4 a
      | STUN_ADDRESS_IPV6 \<Rightarrow> SetLength SIZE_IP6 a
      | STUN_ADDRESS_UNDEF \<Rightarrow> SetLength SIZE_UNDEF a)"

text \<open>The address of an attribute of one of the two address classes.\<close>

definition GetAddress :: "stun_attribute \<Rightarrow> socket_address" where
  "GetAddress a = (case at_value a of AddressValue addr \<Rightarrow> addr | XorAddressValue addr _ \<Rightarrow> addr | _ \<Rightarrow> SocketAddress_nil)"

definition put_address :: "socket_address \<Rightarrow> stun_attribute \<Rightarrow> stun_attribute" where
  "put_address addr a =
     (case at_value a of
        AddressValue _ \<Rightarrow> a\<lparr>at_value := AddressValue addr\<rparr>
      | XorAddressValue _ ow \<Rightarrow> a\<lparr>at_value := XorAddressValue addr ow\<rparr>
      | _ \<Rightarrow> a)"

definition SetAddress :: "socket_address \<Rightarrow> stun_attribute \<Rightarrow> stun_attribute" where
  "SetAddress addr a = EnsureAddressLength addr (put_address addr a)"

definition Address_SetIP :: "ip_address \<Rightarrow> stun_attribute \<Rightarrow> stun_attribute" where
  "Address_SetIP ip a =
     (let addr = SetIP ip (GetAddress a) in EnsureAddressLength addr (put_address addr a))"

definition Address_SetPort :: "u16 \<Rightarrow> stun_attribute \<Rightarrow> stun_attribute" where
  "Address_SetPort port a = put_address (SetPort (uint port) (GetAddress a)) a"

definition StunAddressAttribute :: "u16 \<Rightarrow> u16 \<Rightarrow> stun_attribute" where
  "StunAddressAttribute ty len = \<lparr>at_type = ty, at_length = len, at_value = AddressValue SocketAddress_nil\<rparr>"

definition StunAddressAttribute_of :: "u16 \<Rightarrow> socket_address \<Rightarrow> stun_attribute" where
  "StunAddressAttribute_of ty addr = SetAddress addr (StunAddressAttribute ty 0)"

definition StunXorAddressAttribute :: "u16 \<Rightarrow> u16 \<Rightarrow> bool \<Rightarrow> stun_attribute" where
  "StunXorAddressAttribute ty len ow =
     \<lparr>at_type = ty, at_length = len, at_value = XorAddressValue SocketAddress_nil ow\<rparr>"

definition StunXorAddressAttribute_of :: "u16 \<Rightarrow> socket_address \<Rightarrow> stun_attribute" where
  "StunXorAddressAttribute_of ty addr = SetAddress addr (StunXorAddressAttribute ty 0 False)"

text \<open>A failing read ends the caller with \<open>fail\<close>.\<close>

definition try_read ::
    "(byte_buffer \<Rightarrow> ('v \<times> byte_buffer) option) \<Rightarrow> byte_buffer \<Rightarrow> 'r \<Rightarrow> ('v \<Rightarrow> byte_buffer \<Rightarrow> 'r) \<Rightarrow> 'r" where
  "try_read op b fail k = (case op b of None \<Rightarrow> fail | Some (v, b') \<Rightarrow> k v b')"

definition Address_Read ::
    "bool \<Rightarrow> stun_attribute \<Rightarrow> byte_buffer \<Rightarrow> byte_buffer + stun_attribute \<times> byte_buffer" where
  "Address_Read h a b =
     try_read ReadUInt8 b (Inl b) (\<lambda>dummy b.
     try_read ReadUInt8 b (Inl b) (\<lambda>fam b.
     try_read (ReadUInt16 h) b (Inl b) (\<lambda>port b.
       if fam = family_number STUN_ADDRESS_IPV4 then
         (if at_length a \<noteq> SIZE_IP4 then Inl b
          else try_read (ReadBytes 4) b (Inl b) (\<lambda>v4addr b.
                 Inr (SetAddress (SocketAddress_ip (IPAddress_v4 v4addr) (uint port)) a, b)))
       else if fam = family_number STUN_ADDRESS_IPV6 then
         (if at_length a \<noteq> SIZE_IP6 then Inl b
          else try_read (ReadBytes 16) b (Inl b) (\<lambda>v6addr b.
                 Inr (SetAddress (SocketAddress_ip (IPAddress_v6 v6addr) (uint port)) a, b)))
       else Inl b)))"

definition Address_Write :: "bool \<Rightarrow> socket_address \<Rightarrow> byte_buffer \<Rightarrow> bool \<times> byte_buffer" where
  "Address_Write h addr b =
     (let address_family = stun_family addr
      in if address_family = STUN_ADDRESS_UNDEF then (False, b)
         else let b = WriteUInt8 0 b;
                  b = WriteUInt8 (family_number address_family) b;
                  b = WriteUInt16 h (sa_port addr) b
              in (True, case ip_family (sa_ip addr) of
                          AF_INET \<Rightarrow> WriteBytes (ipv4_address (sa_ip addr)) b
                        | AF_INET6 \<Rightarrow> WriteBytes (ipv6_address (sa_ip addr)) b
                        | AF_UNSPEC \<Rightarrow> b))"

text \<open>\<open>owner\<close> is the transaction id of the owner, or \<open>None\<close> without one.\<close>

definition GetXoredIP :: "bool \<Rightarrow> byte list option \<Rightarrow> ip_address \<Rightarrow> ip_address" where
  "GetXoredIP h owner ip =
     (case owner of
        None \<Rightarrow> IPAddress_unspec
      | Some transaction_id \<Rightarrow>
          (case ip_family ip of
             AF_INET \<Rightarrow>
               IPAddress_v4 (host_store32 h (s_addr h (ipv4_address ip) XOR HostToNetwork32 h kStunMagicCookie))
           | AF_INET6 \<Rightarrow>
               (if length transaction_id = kStunTransactionIdLength
                then let tid = (\<lambda>i. host_load32 h (mem_read transaction_id (4 * i) 4));
                         a = ipv6_address ip;
                         a = set_v6_int h a 0 (v6_as_ints h a 0 XOR HostToNetwork32 h kStunMagicCookie);
                         a = set_v6_int h a 1 (v6_as_ints h a 1 XOR tid 0);
                         a = set_v6_int h a 2 (v6_as_ints h a 2 XOR tid 1);
                         a = set_v6_int h a 3 (v6_as_ints h a 3 XOR tid 2)
                     in IPAddress_v6 a
                else IPAddress_unspec)
           | AF_UNSPEC \<Rightarrow> IPAddress_unspec))"

definition xored_port :: "u16 \<Rightarrow> u16" where
  "xored_port port = ucast (ucast port XOR drop_bit 16 kStunMagicCookie)"

definition XorAddress_Read ::
    "bool \<Rightarrow> byte list option \<Rightarrow> stun_attribute \<Rightarrow> byte_buffer \<Rightarrow> byte_buffer + stun_attribute \<times> byte_buffer" where
  "XorAddress_Read h owner a b =
     (case Address_Read h a b of
        Inl b \<Rightarrow> Inl b
      | Inr (a, b) \<Rightarrow>
          (let xoredport = xored_port (sa_port (GetAddress a));
               xored_ip = GetXoredIP h owner (sa_ip (GetAddress a))
           in Inr (SetAddress (SocketAddress_ip xored_ip (uint xoredport)) a, b)))"

definition XorAddress_Write :: "bool \<Rightarrow> byte list option \<Rightarrow> socket_address \<Rightarrow> byte_buffer \<Rightarrow> bool \<times> byte_buffer" where
  "XorAddress_Write h owner addr b =
     (let address_family = stun_family addr
      in if address_family = STUN_ADDRESS_UNDEF then (False, b)
         else let xored_ip = GetXoredIP h owner (sa_ip addr)
              in if ip_family xored_ip = AF_UNSPEC then (False, b)
                 else let b = WriteUInt8 0 b;
                          b = WriteUInt8 (family_number (stun_family addr)) b;
                          b = WriteUInt16 h (xored_port (sa_port addr)) b
                      in (True, case ip_family xored_ip of
                                  AF_INET \<Rightarrow> WriteBytes (ipv4_address xored_ip) b
                                | AF_INET6 \<Rightarrow> WriteBytes (ipv6_address xored_ip) b
                                | AF_UNSPEC \<Rightarrow> b))"

section \<open>Integers\<close>

definition UInt32_SIZE :: u16 where "UInt32_SIZE = 4"
definition UInt64_SIZE :: u16 where "UInt64_SIZE = 8"

definition StunUInt32Attribute_of :: "u16 \<Rightarrow> u32 \<Rightarrow> stun_attribute" where
  "StunUInt32Attribute_of ty val = \<lparr>at_type = ty, at_length = UInt32_SIZE, at_value = UInt32Value val\<rparr>"

definition StunUInt32Attribute :: "u16 \<Rightarrow> stun_attribute" where
  "StunUInt32Attribute ty = \<lparr>at_type = ty, at_length = UInt32_SIZE, at_value = UInt32Value 0\<rparr>"

definition StunUInt64Attribute_of :: "u16 \<Rightarrow> u64 \<Rightarrow> stun_attribute" where
  "StunUInt64Attribute_of ty val = \<lparr>at_type = ty, at_length = UInt64_SIZE, at_value = UInt64Value val\<rparr>"

definition StunUInt64Attribute :: "u16 \<Rightarrow> stun_attribute" where
  "StunUInt64Attribute ty = \<lparr>at_type = ty, at_length = UInt64_SIZE, at_value = UInt64Value 0\<rparr>"

definition UInt32_SetValue :: "u32 \<Rightarrow> stun_attribute \<Rightarrow> stun_attribute" where
  "UInt32_SetValue bits a = a\<lparr>at_value := UInt32Value bits\<rparr>"

text \<open>A shift by the width or more is undefined.\<close>

definition GetBit :: "nat \<Rightarrow> u32 \<Rightarrow> bool option" where
  "GetBit index bits = (if index < 32 then Some (drop_bit index bits AND 1 \<noteq> 0) else None)"

definition SetBit :: "nat \<Rightarrow> bool \<Rightarrow> u32 \<Rightarrow> u32 option" where
  "SetBit index val bits =
     (if index < 32
      then let bits = bits AND NOT (push_bit index 1)
           in Some (bits OR (if val then push_bit index 1 else 0))
      else None)"

definition UInt32_Read ::
    "bool \<Rightarrow> stun_attribute \<Rightarrow> byte_buffer \<Rightarrow> byte_buffer + stun_attribute \<times> byte_buffer" where
  "UInt32_Read h a b =
     (if at_length a \<noteq> UInt32_SIZE then Inl b
      else try_read (ReadUInt32 h) b (Inl b) (\<lambda>bits b. Inr (a\<lparr>at_value := UInt32Value bits\<rparr>, b)))"

definition UInt64_Read ::
    "bool \<Rightarrow> stun_attribute \<Rightarrow> byte_buffer \<Rightarrow> byte_buffer + stun_attribute \<times> byte_buffer" where
  "UInt64_Read h a b =
     (if at_length a \<noteq> UInt64_SIZE then Inl b
      else try_read (ReadUInt64 h) b (Inl b) (\<lambda>bits b. Inr (a\<lparr>at_value := UInt64Value bits\<rparr>, b)))"

section \<open>Byte strings\<close>

definition StunByteStringAttribute :: "u16 \<Rightarrow> u16 \<Rightarrow> stun_attribute" where
  "StunByteStringAttribute ty len = \<lparr>at_type = ty, at_length = len, at_value = ByteStringValue None\<rparr>"

definition SetBytes :: "byte list \<Rightarrow> stun_attribute \<Rightarrow> stun_attribute" where
  "SetBytes bytes a = SetLength (word_of_nat (length bytes)) (a\<lparr>at_value := ByteStringValue (Some bytes)\<rparr>)"

definition CopyBytes :: "byte list \<Rightarrow> stun_attribute \<Rightarrow> stun_attribute" where
  "CopyBytes bytes a = SetBytes bytes a"

definition StunByteStringAttribute_of :: "u16 \<Rightarrow> byte list \<Rightarrow> stun_attribute" where
  "StunByteStringAttribute_of ty str = CopyBytes str (StunByteStringAttribute ty 0)"

definition GetByte :: "nat \<Rightarrow> byte list option \<Rightarrow> u8 option" where
  "GetByte index bytes =
     (case bytes of None \<Rightarrow> None | Some bs \<Rightarrow> if index < length bs then Some (bs ! index) else None)"

definition SetByte :: "nat \<Rightarrow> u8 \<Rightarrow> byte list option \<Rightarrow> byte list option option" where
  "SetByte index val bytes =
     (case bytes of None \<Rightarrow> None | Some bs \<Rightarrow> if index < length bs then Some (Some (bs[index := val])) else None)"

definition ByteString_Read :: "stun_attribute \<Rightarrow> byte_buffer \<Rightarrow> byte_buffer + stun_attribute \<times> byte_buffer" where
  "ByteString_Read a b =
     try_read (ReadBytes (unat (at_length a))) b (Inl b) (\<lambda>bytes b.
       Inr (a\<lparr>at_value := ByteStringValue (Some bytes)\<rparr>, ConsumePadding a b))"

definition ByteString_Write :: "stun_attribute \<Rightarrow> byte list option \<Rightarrow> byte_buffer \<Rightarrow> (bool \<times> byte_buffer) option" where
  "ByteString_Write a bytes b =
     (let len = unat (at_length a);
          source = (case bytes of None \<Rightarrow> [] | Some bs \<Rightarrow> bs)
      in if length source < len then None
         else Some (True, WritePadding a (WriteBytes (take len source) b)))"

section \<open>Error codes\<close>

definition MIN_SIZE :: u16 where "MIN_SIZE = 4"

definition StunErrorCodeAttribute :: "u16 \<Rightarrow> u16 \<Rightarrow> stun_attribute" where
  "StunErrorCodeAttribute ty len = \<lparr>at_type = ty, at_length = len, at_value = ErrorCodeValue 0 0 []\<rparr>"

definition code :: "stun_value \<Rightarrow> int" where
  "code v = (case v of ErrorCodeValue cls number _ \<Rightarrow> uint cls * 100 + uint number | _ \<Rightarrow> 0)"

definition SetCode :: "int \<Rightarrow> stun_attribute \<Rightarrow> stun_attribute" where
  "SetCode c a =
     (case at_value a of
        ErrorCodeValue _ _ reason \<Rightarrow>
          a\<lparr>at_value := ErrorCodeValue (word_of_int (c sdiv 100)) (word_of_int (c smod 100)) reason\<rparr>
      | _ \<Rightarrow> a)"

definition SetReason :: "byte list \<Rightarrow> stun_attribute \<Rightarrow> stun_attribute" where
  "SetReason reason a =
     (case at_value a of
        ErrorCodeValue cls number _ \<Rightarrow>
          (SetLength (MIN_SIZE + word_of_nat (length reason)) a)\<lparr>at_value := ErrorCodeValue cls number reason\<rparr>
      | _ \<Rightarrow> a)"

definition StunErrorCodeAttribute_of :: "u16 \<Rightarrow> int \<Rightarrow> byte list \<Rightarrow> stun_attribute" where
  "StunErrorCodeAttribute_of ty c reason = SetReason reason (SetCode c (StunErrorCodeAttribute ty 0))"

definition ErrorCode_Read ::
    "bool \<Rightarrow> stun_attribute \<Rightarrow> byte_buffer \<Rightarrow> byte_buffer + stun_attribute \<times> byte_buffer" where
  "ErrorCode_Read h a b =
     (if at_length a < MIN_SIZE then Inl b
      else try_read (ReadUInt32 h) b (Inl b) (\<lambda>val b.
             let cls = ucast (drop_bit 8 val AND 0x7);
                 number = ucast (val AND 0xff);
                 reason = (case at_value a of ErrorCodeValue _ _ r \<Rightarrow> r | _ \<Rightarrow> [])
             in try_read (ReadString reason (unat (at_length a) - 4)) b (Inl b) (\<lambda>reason b.
                  Inr (a\<lparr>at_value := ErrorCodeValue cls number reason\<rparr>, ConsumePadding a b))))"

definition ErrorCode_Write :: "bool \<Rightarrow> stun_attribute \<Rightarrow> u8 \<Rightarrow> u8 \<Rightarrow> byte list \<Rightarrow> byte_buffer \<Rightarrow> byte_buffer" where
  "ErrorCode_Write h a cls number reason b =
     (let b = WriteUInt32 h (push_bit 8 (ucast cls) OR ucast number) b;
          b = WriteString reason b
      in WritePadding a b)"

section \<open>Lists of attribute types\<close>

definition StunUInt16ListAttribute :: "u16 \<Rightarrow> u16 \<Rightarrow> stun_attribute" where
  "StunUInt16ListAttribute ty len = \<lparr>at_type = ty, at_length = len, at_value = UInt16ListValue []\<rparr>"

definition AddType :: "u16 \<Rightarrow> stun_attribute \<Rightarrow> stun_attribute" where
  "AddType val a =
     (case at_value a of
        UInt16ListValue tys \<Rightarrow>
          SetLength (word_of_nat (length (tys @ [val]) * 2)) (a\<lparr>at_value := UInt16ListValue (tys @ [val])\<rparr>)
      | _ \<Rightarrow> a)"

definition SetType :: "nat \<Rightarrow> u16 \<Rightarrow> u16 list \<Rightarrow> u16 list option" where
  "SetType index val tys = (if index < length tys then Some (tys[index := val]) else None)"

definition GetType :: "nat \<Rightarrow> u16 list \<Rightarrow> u16 option" where
  "GetType index tys = (if index < length tys then Some (tys ! index) else None)"

fun read_types :: "bool \<Rightarrow> nat \<Rightarrow> u16 list \<Rightarrow> byte_buffer \<Rightarrow> byte_buffer + u16 list \<times> byte_buffer" where
  "read_types h 0 tys b = Inr (tys, b)"
| "read_types h (Suc n) tys b =
     try_read (ReadUInt16 h) b (Inl b) (\<lambda>attr b. read_types h n (tys @ [attr]) b)"

definition UInt16List_Read ::
    "bool \<Rightarrow> stun_attribute \<Rightarrow> byte_buffer \<Rightarrow> byte_buffer + stun_attribute \<times> byte_buffer" where
  "UInt16List_Read h a b =
     (if unat (at_length a) mod 2 \<noteq> 0 then Inl b
      else case read_types h (unat (at_length a) div 2) (case at_value a of UInt16ListValue tys \<Rightarrow> tys | _ \<Rightarrow> []) b of
             Inl b \<Rightarrow> Inl b
           | Inr (tys, b) \<Rightarrow> Inr (a\<lparr>at_value := UInt16ListValue tys\<rparr>, ConsumePadding a b))"

definition UInt16List_Write :: "bool \<Rightarrow> stun_attribute \<Rightarrow> u16 list \<Rightarrow> byte_buffer \<Rightarrow> byte_buffer" where
  "UInt16List_Write h a tys b = WritePadding a (fold (WriteUInt16 h) tys b)"

section \<open>The virtual operations\<close>

definition StunAttribute_Create :: "StunAttributeValueType \<Rightarrow> u16 \<Rightarrow> u16 \<Rightarrow> stun_attribute option" where
  "StunAttribute_Create vt ty len =
     (case vt of
        STUN_VALUE_ADDRESS \<Rightarrow> Some (StunAddressAttribute ty len)
      | STUN_VALUE_XOR_ADDRESS \<Rightarrow> Some (StunXorAddressAttribute ty len True)
      | STUN_VALUE_UINT32 \<Rightarrow> Some (StunUInt32Attribute ty)
      | STUN_VALUE_UINT64 \<Rightarrow> Some (StunUInt64Attribute ty)
      | STUN_VALUE_BYTE_STRING \<Rightarrow> Some (StunByteStringAttribute ty len)
      | STUN_VALUE_ERROR_CODE \<Rightarrow> Some (StunErrorCodeAttribute ty len)
      | STUN_VALUE_UINT16_LIST \<Rightarrow> Some (StunUInt16ListAttribute ty len)
      | STUN_VALUE_UNKNOWN \<Rightarrow> None)"

definition CreateAddress :: "u16 \<Rightarrow> stun_attribute" where "CreateAddress ty = StunAddressAttribute ty 0"

definition CreateXorAddress :: "u16 \<Rightarrow> stun_attribute" where "CreateXorAddress ty = StunXorAddressAttribute ty 0 False"

definition CreateUInt64 :: "u16 \<Rightarrow> stun_attribute" where "CreateUInt64 ty = StunUInt64Attribute ty"

definition CreateUInt32 :: "u16 \<Rightarrow> stun_attribute" where "CreateUInt32 ty = StunUInt32Attribute ty"

definition CreateByteString :: "u16 \<Rightarrow> stun_attribute" where "CreateByteString ty = StunByteStringAttribute ty 0"

definition CreateErrorCode :: stun_attribute where
  "CreateErrorCode = StunErrorCodeAttribute (word_of_int STUN_ATTR_ERROR_CODE) MIN_SIZE"

definition CreateUnknownAttributes :: stun_attribute where
  "CreateUnknownAttributes = StunUInt16ListAttribute (word_of_int STUN_ATTR_UNKNOWN_ATTRIBUTES) 0"

text \<open>\<^verbatim>\<open>Read\<close> and \<^verbatim>\<open>Write\<close> of the class of the attribute; \<open>tid\<close> is the transaction id of the message it is in.\<close>

definition owner_of :: "byte list \<Rightarrow> bool \<Rightarrow> byte list option" where
  "owner_of tid ow = (if ow then Some tid else None)"

definition StunAttribute_Read ::
    "bool \<Rightarrow> byte list \<Rightarrow> stun_attribute \<Rightarrow> byte_buffer \<Rightarrow> byte_buffer + stun_attribute \<times> byte_buffer" where
  "StunAttribute_Read h tid a b =
     (case at_value a of
        AddressValue _ \<Rightarrow> Address_Read h a b
      | XorAddressValue _ ow \<Rightarrow> XorAddress_Read h (owner_of tid ow) a b
      | UInt32Value _ \<Rightarrow> UInt32_Read h a b
      | UInt64Value _ \<Rightarrow> UInt64_Read h a b
      | ByteStringValue _ \<Rightarrow> ByteString_Read a b
      | ErrorCodeValue _ _ _ \<Rightarrow> ErrorCode_Read h a b
      | UInt16ListValue _ \<Rightarrow> UInt16List_Read h a b)"

definition StunAttribute_Write ::
    "bool \<Rightarrow> byte list \<Rightarrow> stun_attribute \<Rightarrow> byte_buffer \<Rightarrow> (bool \<times> byte_buffer) option" where
  "StunAttribute_Write h tid a b =
     (case at_value a of
        AddressValue addr \<Rightarrow> Some (Address_Write h addr b)
      | XorAddressValue addr ow \<Rightarrow> Some (XorAddress_Write h (owner_of tid ow) addr b)
      | UInt32Value bits \<Rightarrow> Some (True, WriteUInt32 h bits b)
      | UInt64Value bits \<Rightarrow> Some (True, WriteUInt64 h bits b)
      | ByteStringValue bytes \<Rightarrow> ByteString_Write a bytes b
      | ErrorCodeValue cls number reason \<Rightarrow> Some (True, ErrorCode_Write h a cls number reason b)
      | UInt16ListValue tys \<Rightarrow> Some (True, UInt16List_Write h a tys b))"

section \<open>Reads never lengthen the buffer\<close>

lemma ReadBytes_length: "ReadBytes n b = Some (v, b') \<Longrightarrow> Length b' + n = Length b"
  by (auto simp: ReadBytes_def Length_def split: if_splits)

lemma read_lengths:
  "ReadUInt8 b = Some (v8, b') \<Longrightarrow> Length b' + 1 = Length b"
  "ReadUInt16 h b = Some (v16, b') \<Longrightarrow> Length b' + 2 = Length b"
  "ReadUInt32 h b = Some (v32, b') \<Longrightarrow> Length b' + 4 = Length b"
  "ReadUInt64 h b = Some (v64, b') \<Longrightarrow> Length b' + 8 = Length b"
  "ReadString s n b = Some (w, b') \<Longrightarrow> Length b' + n = Length b"
  "Consume n b = Some b' \<Longrightarrow> Length b' + n = Length b"
  by (auto simp: ReadUInt8_def ReadUInt16_def ReadUInt32_def ReadUInt64_def ReadString_spec Consume_spec Let_def
      dest!: ReadBytes_length split: option.splits)

lemma ConsumePadding_length: "Length (ConsumePadding a b) \<le> Length b"
  by (auto simp: ConsumePadding_def Let_def dest: read_lengths(6) split: option.splits)

definition shrinks :: "byte_buffer \<Rightarrow> byte_buffer + 'a \<times> byte_buffer \<Rightarrow> bool" where
  "shrinks b res \<longleftrightarrow> (case res of Inl b' \<Rightarrow> Length b' \<le> Length b | Inr (_, b') \<Rightarrow> Length b' \<le> Length b)"

lemma shrinks_try_read:
  assumes "\<And>v b'. op b = Some (v, b') \<Longrightarrow> Length b' \<le> Length b" "\<And>v b'. Length b' \<le> Length b \<Longrightarrow> shrinks b' (k v b')"
  shows "shrinks b (try_read op b (Inl b) k)"
  using assms by (fastforce simp: try_read_def shrinks_def split: option.splits sum.splits)

lemma shrinks_reads:
  "(\<And>v b'. Length b' \<le> Length b \<Longrightarrow> shrinks b' (k8 v b')) \<Longrightarrow> shrinks b (try_read ReadUInt8 b (Inl b) k8)"
  "(\<And>v b'. Length b' \<le> Length b \<Longrightarrow> shrinks b' (k16 v b')) \<Longrightarrow> shrinks b (try_read (ReadUInt16 h) b (Inl b) k16)"
  "(\<And>v b'. Length b' \<le> Length b \<Longrightarrow> shrinks b' (k32 v b')) \<Longrightarrow> shrinks b (try_read (ReadUInt32 h) b (Inl b) k32)"
  "(\<And>v b'. Length b' \<le> Length b \<Longrightarrow> shrinks b' (k64 v b')) \<Longrightarrow> shrinks b (try_read (ReadUInt64 h) b (Inl b) k64)"
  "(\<And>v b'. Length b' \<le> Length b \<Longrightarrow> shrinks b' (k v b')) \<Longrightarrow> shrinks b (try_read (ReadBytes n) b (Inl b) k)"
  "(\<And>v b'. Length b' \<le> Length b \<Longrightarrow> shrinks b' (k v b')) \<Longrightarrow> shrinks b (try_read (ReadString s n) b (Inl b) k)"
  by (rule shrinks_try_read, auto dest: read_lengths ReadBytes_length)+

lemma shrinks_results [simp]:
  "shrinks b (Inl b)" "shrinks b (Inr (a, b)) " "shrinks b (Inr (a, ConsumePadding c b))"
  by (simp_all add: shrinks_def ConsumePadding_length)

lemma Address_Read_shrinks: "shrinks b (Address_Read h a b)"
  unfolding Address_Read_def by (auto intro!: shrinks_reads)

lemma read_types_shrinks: "shrinks b (read_types h n tys b)"
  by (induction n arbitrary: tys b) (auto intro!: shrinks_reads)

lemma StunAttribute_Read_shrinks: "shrinks b (StunAttribute_Read h tid a b)"
proof -
  have "shrinks b (XorAddress_Read h ow a b)" for ow
    using Address_Read_shrinks [of b h a] by (auto simp: XorAddress_Read_def shrinks_def Let_def split: sum.splits)
  moreover have "shrinks b (UInt16List_Read h a b)"
  proof -
    define res where "res = read_types h (unat (at_length a) div 2) (case at_value a of UInt16ListValue tys \<Rightarrow> tys | _ \<Rightarrow> []) b"
    have "shrinks b res" by (simp add: res_def read_types_shrinks)
    then show ?thesis unfolding UInt16List_Read_def res_def [symmetric]
      by (cases res) (auto simp: shrinks_def intro: le_trans [OF ConsumePadding_length])
  qed
  moreover have "shrinks b (UInt32_Read h a b)" "shrinks b (UInt64_Read h a b)" "shrinks b (ByteString_Read a b)"
    "shrinks b (ErrorCode_Read h a b)"
    by (auto simp: UInt32_Read_def UInt64_Read_def ByteString_Read_def ErrorCode_Read_def Let_def intro!: shrinks_reads)
  ultimately show ?thesis using Address_Read_shrinks [of b h a]
    by (simp add: StunAttribute_Read_def split: stun_value.split)
qed

section \<open>Bytewise exclusive or\<close>

definition xor_bytes :: "byte list \<Rightarrow> byte list \<Rightarrow> byte list" where
  "xor_bytes u v = map2 (XOR) u v"

lemma xor_bytes_inverse: "length u = length v \<Longrightarrow> xor_bytes (xor_bytes u v) v = u"
  by (auto intro!: nth_equalityI simp: xor_bytes_def xor.assoc)

lemma length_xor_bytes [simp]: "length (xor_bytes u v) = min (length u) (length v)"
  by (simp add: xor_bytes_def)

lemma be32_xor: "be32 (v XOR w) = xor_bytes (be32 v) (be32 w)"
  by (simp add: be32_def xor_bytes_def, intro conjI; rule bit_word_eqI; auto simp: bit_simps)

lemma host_xor:
  assumes "length m = 4" "length k = 4"
  shows "host_store32 h (host_load32 h m XOR host_load32 h k) = xor_bytes m k"
proof (cases h)
  case True
  then show ?thesis using assms by (simp add: host_store32_def host_load32_def SetBE_bytes be32_xor be32_GetBE32)
next
  case False
  have "rev (xor_bytes (rev m) (rev k)) = xor_bytes m k"
    using assms by (simp add: xor_bytes_def zip_rev flip: rev_map)
  with False show ?thesis
    using assms by (simp add: host_store32_def host_load32_def SetLE_bytes GetLE32_rev be32_xor be32_GetBE32)
qed

lemma HostToNetwork32_load: "HostToNetwork32 h v = host_load32 h (be32 v)"
  by (simp add: HostToNetwork32_def SetBE_bytes)

lemma mem_read_xor: "mem_read (xor_bytes u v) p n = xor_bytes (mem_read u p n) (mem_read v p n)"
  by (simp add: mem_read_def xor_bytes_def take_map drop_map take_zip drop_zip)

lemma four_slots:
  assumes "length u = 16" "length v = 16" "\<And>i. i < 4 \<Longrightarrow> mem_read u (4 * i) 4 = mem_read v (4 * i) 4"
  shows "u = v"
proof -
  have "w = mem_read w 0 4 @ mem_read w 4 4 @ mem_read w 8 4 @ mem_read w 12 4" if "length w = 16" for w :: "byte list"
  proof -
    have "w = mem_read w 0 (4 + (4 + (4 + 4)))" using that by (simp add: mem_read_def)
    then show ?thesis by (simp only: mem_read_split) simp
  qed
  from this [OF assms(1)] this [OF assms(2)] show ?thesis
    using assms(3) [of 0] assms(3) [of 1] assms(3) [of 2] assms(3) [of 3] by simp
qed

lemma xored_v4:
  "length a = 4 \<Longrightarrow> GetXoredIP h (Some tid) (IPAddress_v4 a) = IPAddress_v4 (xor_bytes a (be32 kStunMagicCookie))"
  by (simp add: GetXoredIP_def s_addr_def HostToNetwork32_load host_xor)

text \<open>Each assignment to \<^verbatim>\<open>ip_as_ints[i]\<close> changes one word of the address bytewise.\<close>

lemma slot_xor:
  assumes "length a = 16" "i < 4" "j < 4" "length k = 4"
  shows "mem_read (set_v6_int h a i (v6_as_ints h a i XOR host_load32 h k)) (4 * j) 4 =
    (if i = j then xor_bytes (mem_read a (4 * j) 4) k else mem_read a (4 * j) 4)"
  using assms
  by (simp add: set_v6_int_def v6_as_ints_def mem_read_write_other host32.length_enc host_xor length_mem_read)

lemma xored_v6:
  assumes "length a = 16" "length tid = 12"
  shows "GetXoredIP h (Some tid) (IPAddress_v6 a) = IPAddress_v6 (xor_bytes a (be32 kStunMagicCookie @ tid))"
proof -
  define t where "t i = mem_read tid (4 * i) 4" for i
  have lt: "length (t i) = 4" if "i < 3" for i using that assms(2) by (simp add: t_def length_mem_read)
  define a0 where "a0 = set_v6_int h a 0 (v6_as_ints h a 0 XOR host_load32 h (be32 kStunMagicCookie))"
  define a1 where "a1 = set_v6_int h a0 1 (v6_as_ints h a0 1 XOR host_load32 h (t 0))"
  define a2 where "a2 = set_v6_int h a1 2 (v6_as_ints h a1 2 XOR host_load32 h (t 1))"
  define a3 where "a3 = set_v6_int h a2 3 (v6_as_ints h a2 3 XOR host_load32 h (t 2))"
  have l0: "length a0 = 16" using assms(1) by (simp add: a0_def)
  have l1: "length a1 = 16" using l0 by (simp add: a1_def)
  have l2: "length a2 = 16" using l1 by (simp add: a2_def)
  have l3: "length a3 = 16" using l2 by (simp add: a3_def)
  have rd: "mem_read a3 (4 * j) 4 = xor_bytes (mem_read a (4 * j) 4) (if j = 0 then be32 kStunMagicCookie else t (j - 1))"
    if j: "j < 4" for j
  proof -
    note slot = slot_xor [OF _ _ j]
    have "mem_read a3 (4 * j) 4 = (if 3 = j then xor_bytes (mem_read a2 (4 * j) 4) (t 2) else mem_read a2 (4 * j) 4)"
      unfolding a3_def using slot [OF l2] lt by simp
    moreover have "mem_read a2 (4 * j) 4 = (if 2 = j then xor_bytes (mem_read a1 (4 * j) 4) (t 1) else mem_read a1 (4 * j) 4)"
      unfolding a2_def using slot [OF l1] lt by simp
    moreover have "mem_read a1 (4 * j) 4 = (if 1 = j then xor_bytes (mem_read a0 (4 * j) 4) (t 0) else mem_read a0 (4 * j) 4)"
      unfolding a1_def using slot [OF l0] lt by simp
    moreover have "mem_read a0 (4 * j) 4 = (if 0 = j then xor_bytes (mem_read a (4 * j) 4) (be32 kStunMagicCookie) else mem_read a (4 * j) 4)"
      unfolding a0_def using slot [OF assms(1)] by simp
    moreover have "j = 0 \<or> j = 1 \<or> j = 2 \<or> j = 3" using j by linarith
    ultimately show ?thesis by auto
  qed
  have key: "mem_read (be32 kStunMagicCookie @ tid) (4 * j) 4 = (if j = 0 then be32 kStunMagicCookie else t (j - 1))" if "j < 4" for j
    using that assms(2) by (simp add: t_def mem_read_def diff_mult_distrib2)
  have "a3 = xor_bytes a (be32 kStunMagicCookie @ tid)"
  proof (rule four_slots)
    show "length a3 = 16" by (fact l3)
    show "length (xor_bytes a (be32 kStunMagicCookie @ tid)) = 16" using assms by simp
    show "mem_read a3 (4 * i) 4 = mem_read (xor_bytes a (be32 kStunMagicCookie @ tid)) (4 * i) 4" if "i < 4" for i
      unfolding mem_read_xor rd [OF that] key [OF that] by (rule refl)
  qed
  moreover have "GetXoredIP h (Some tid) (IPAddress_v6 a) = IPAddress_v6 a3"
    unfolding GetXoredIP_def Let_def option.case ip_family_new addr_family.case HostToNetwork32_load ip_bytes_new
      kStunTransactionIdLength_def assms(2) t_def [symmetric] a0_def [symmetric] a1_def [symmetric] a2_def [symmetric] a3_def [symmetric]
    by simp
  ultimately show ?thesis by simp
qed

section \<open>The bytes of an attribute\<close>

definition padding :: "nat \<Rightarrow> byte list" where "padding len = replicate ((4 - len mod 4) mod 4) 0"

definition address_bytes :: "ip_address \<Rightarrow> byte list" where
  "address_bytes ip = (if ip_family ip = AF_INET then ipv4_address ip else ipv6_address ip)"

definition attr_body :: "byte list \<Rightarrow> stun_attribute \<Rightarrow> byte list" where
  "attr_body tid a =
     (case at_value a of
        AddressValue addr \<Rightarrow>
          [0, family_number (stun_family addr)] @ be16 (sa_port addr) @ address_bytes (sa_ip addr)
      | XorAddressValue addr _ \<Rightarrow>
          [0, family_number (stun_family addr)] @ be16 (sa_port addr XOR 0x2112) @
            xor_bytes (address_bytes (sa_ip addr)) (be32 kStunMagicCookie @ tid)
      | UInt32Value v \<Rightarrow> be32 v
      | UInt64Value v \<Rightarrow> be64 v
      | ByteStringValue bs \<Rightarrow> the bs @ padding (length (the bs))
      | ErrorCodeValue cls number reason \<Rightarrow> [0, 0, cls, number] @ reason @ padding (length reason)
      | UInt16ListValue tys \<Rightarrow> concat (map be16 tys) @ padding (2 * length tys))"

text \<open>An attribute as the constructors and setters leave it: its length field agrees with its value, an address is
  a literal one, and the class digit of an error code has the three bits the format has for it.\<close>

definition addr_ok :: "socket_address \<Rightarrow> bool" where
  "addr_ok addr \<longleftrightarrow> addr = SocketAddress_ip (sa_ip addr) (uint (sa_port addr)) \<and> ip_ok (sa_ip addr) \<and>
     ip_family (sa_ip addr) \<noteq> AF_UNSPEC"

definition addr_size :: "socket_address \<Rightarrow> u16" where
  "addr_size addr = (if ip_family (sa_ip addr) = AF_INET then SIZE_IP4 else SIZE_IP6)"

definition attr_ok :: "byte list \<Rightarrow> stun_attribute \<Rightarrow> bool" where
  "attr_ok tid a \<longleftrightarrow>
     (case at_value a of
        AddressValue addr \<Rightarrow> addr_ok addr \<and> at_length a = addr_size addr
      | XorAddressValue addr ow \<Rightarrow> ow \<and> addr_ok addr \<and> at_length a = addr_size addr \<and>
          (ip_family (sa_ip addr) = AF_INET6 \<longrightarrow> length tid = 12)
      | UInt32Value v \<Rightarrow> at_length a = UInt32_SIZE
      | UInt64Value v \<Rightarrow> at_length a = UInt64_SIZE
      | ByteStringValue bs \<Rightarrow> bs \<noteq> None \<and> length (the bs) = unat (at_length a)
      | ErrorCodeValue cls number reason \<Rightarrow> cls < 8 \<and> unat (at_length a) = 4 + length reason
      | UInt16ListValue tys \<Rightarrow> unat (at_length a) = 2 * length tys)"

lemma addr_cases:
  assumes "addr_ok addr"
  obtains a and p :: u16 where "addr = SocketAddress_ip (IPAddress_v4 a) (uint p)" "length a = 4"
  | a and p :: u16 where "addr = SocketAddress_ip (IPAddress_v6 a) (uint p)" "length a = 16"
proof -
  have ok: "addr = SocketAddress_ip (sa_ip addr) (uint (sa_port addr))" "ip_ok (sa_ip addr)" "ip_family (sa_ip addr) \<noteq> AF_UNSPEC"
    using assms by (simp_all add: addr_ok_def)
  from ok(2) show thesis
  proof (cases rule: ip_cases)
    case 1
    then show ?thesis using ok(3) by simp
  next
    case (2 a)
    then show ?thesis using ok(1) that(1) [of a "sa_port addr"] by simp
  next
    case (3 b)
    then show ?thesis using ok(1) that(2) [of b "sa_port addr"] by simp
  qed
qed

lemma SocketAddress_ip_fields [simp]:
  "sa_ip (SocketAddress_ip ip p) = ip" "sa_port (SocketAddress_ip ip p) = word_of_int p"
  by (simp_all add: SocketAddress_ip_def SetPort_def SetIP_def)

section \<open>Reading and writing on the contents of a buffer\<close>

text \<open>\<open>holds b r\<close>: a network-order buffer with the unread bytes \<open>r\<close>; \<open>advance n b\<close>: the buffer after \<open>n\<close> more bytes.\<close>

definition holds :: "byte_buffer \<Rightarrow> byte list \<Rightarrow> bool" where
  "holds b r \<longleftrightarrow> net b \<and> Contents b = r"

definition advance :: "nat \<Rightarrow> byte_buffer \<Rightarrow> byte_buffer" where
  "advance n b = b\<lparr>bb_start := bb_start b + n\<rparr>"

lemma holds_advance: "holds b (v @ r) \<Longrightarrow> length v = n \<Longrightarrow> holds (advance n b) r"
  using advance_ok [of b n] by (auto simp: holds_def advance_def)

lemma ReadBytes_holds: "holds b (v @ r) \<Longrightarrow> length v = n \<Longrightarrow> ReadBytes n b = Some (v, advance n b)"
  by (auto simp: holds_def advance_def ReadBytes_spec simp del: length_Contents)

lemma try_read_bytes: "holds b (v @ r) \<Longrightarrow> length v = n \<Longrightarrow> try_read (ReadBytes n) b f k = k v (advance n b)"
  by (simp add: try_read_def ReadBytes_holds)

lemma try_read_u8: "holds b (v # r) \<Longrightarrow> try_read ReadUInt8 b f k = k v (advance (Suc 0) b)"
  using ReadBytes_holds [of b "[v]" r 1] by (simp add: try_read_def ReadUInt8_def)

lemma try_read_u16: "holds b (be16 v @ r) \<Longrightarrow> try_read (ReadUInt16 h) b f k = k v (advance 2 b)"
  using ReadBytes_holds [of b "be16 v" r 2] by (simp add: try_read_def read_net holds_def)

lemma try_read_u32: "holds b (be32 v @ r) \<Longrightarrow> try_read (ReadUInt32 h) b f k = k v (advance 4 b)"
  using ReadBytes_holds [of b "be32 v" r 4] by (simp add: try_read_def read_net holds_def)

lemma try_read_u64: "holds b (be64 v @ r) \<Longrightarrow> try_read (ReadUInt64 h) b f k = k v (advance 8 b)"
  using ReadBytes_holds [of b "be64 v" r 8] by (simp add: try_read_def read_net holds_def)

lemma try_read_string:
  "holds b (v @ r) \<Longrightarrow> length v = n \<Longrightarrow> try_read (ReadString s n) b f k = k (s @ v) (advance n b)"
  by (simp add: try_read_def ReadString_spec ReadBytes_holds)

lemma consumed_padding:
  assumes "holds b (padding n @ r)" "unat (at_length a) mod 4 = n mod 4"
  shows "holds (ConsumePadding a b) r"
proof (cases "n mod 4 = 0")
  case True
  then show ?thesis using assms by (simp add: ConsumePadding_def padding_def)
next
  case False
  then have l: "length (padding n) = 4 - n mod 4" by (simp add: padding_def)
  then have "Consume (4 - n mod 4) b = Some (advance (4 - n mod 4) b)"
    using ReadBytes_holds [OF assms(1) l] by (simp add: Consume_spec)
  then show ?thesis using False assms holds_advance [OF assms(1) l] by (simp add: ConsumePadding_def Let_def)
qed

definition appends :: "byte_buffer \<Rightarrow> byte_buffer \<Rightarrow> byte list \<Rightarrow> bool" where
  "appends b b' v \<longleftrightarrow> net b' \<and> Contents b' = Contents b @ v"

lemma appends_refl: "net b \<Longrightarrow> appends b b []"
  by (simp add: appends_def)

lemma appends_bytes: "appends b b' v \<Longrightarrow> appends b (WriteBytes w b') (v @ w)"
  by (simp add: appends_def WriteBytes_ok)

lemma appends_writes:
  "appends b b' v \<Longrightarrow> appends b (WriteUInt8 w8 b') (v @ [w8])"
  "appends b b' v \<Longrightarrow> appends b (WriteUInt16 h w16 b') (v @ be16 w16)"
  "appends b b' v \<Longrightarrow> appends b (WriteUInt32 h w32 b') (v @ be32 w32)"
  "appends b b' v \<Longrightarrow> appends b (WriteUInt64 h w64 b') (v @ be64 w64)"
  "appends b b' v \<Longrightarrow> appends b (WriteString w b') (v @ w)"
  using appends_bytes [of b b' v] by (simp_all add: WriteUInt8_def WriteString_def appends_def)

lemma zeroes_padding: "0 < n mod 4 \<Longrightarrow> take (4 - n mod 4) [0, 0, 0, 0 :: byte] = padding n"
proof -
  assume "0 < n mod 4"
  moreover have "[0, 0, 0, 0 :: byte] = replicate 4 0" by (simp add: numeral_eq_Suc)
  ultimately show ?thesis unfolding padding_def by (simp add: min_def)
qed

lemma appends_padding:
  assumes "appends b b' v" "unat (at_length a) mod 4 = n mod 4"
  shows "appends b (WritePadding a b') (v @ padding n)"
proof (cases "n mod 4 = 0")
  case True
  then show ?thesis using assms by (simp add: WritePadding_def padding_def)
next
  case False
  then show ?thesis using assms zeroes_padding [of n] appends_bytes [OF assms(1)] by (simp add: WritePadding_def Let_def)
qed

section \<open>Writing an attribute\<close>

lemma xored_port_eq: "xored_port p = p XOR 0x2112"
proof -
  have c: "(0x2112 :: u16) = ucast (drop_bit 16 kStunMagicCookie)" by (simp add: kStunMagicCookie_def)
  show ?thesis unfolding xored_port_def c by (rule bit_word_eqI) (auto simp: bit_simps)
qed

lemma appends_start: "net b \<Longrightarrow> appends b (WriteUInt16 h p (WriteUInt8 f (WriteUInt8 0 b))) ([0, f] @ be16 p)"
  using appends_writes(2) [OF appends_writes(1) [OF appends_writes(1) [OF appends_refl]], of b h p f 0] by simp

lemma Address_Write_appends:
  assumes "addr_ok addr" "net b"
  shows "\<exists>b'. Address_Write h addr b = (True, b') \<and> appends b b'
    ([0, family_number (stun_family addr)] @ be16 (sa_port addr) @ address_bytes (sa_ip addr))"
  using assms(1)
proof (cases rule: addr_cases)
  case (1 a p)
  then show ?thesis using appends_bytes [OF appends_start [OF assms(2), of h p "family_number STUN_ADDRESS_IPV4"], of a]
    by (simp add: Address_Write_def stun_family_def address_bytes_def Let_def)
next
  case (2 a p)
  then show ?thesis using appends_bytes [OF appends_start [OF assms(2), of h p "family_number STUN_ADDRESS_IPV6"], of a]
    by (simp add: Address_Write_def stun_family_def address_bytes_def Let_def)
qed

lemma XorAddress_Write_appends:
  assumes "addr_ok addr" "net b" "ip_family (sa_ip addr) = AF_INET6 \<Longrightarrow> length tid = 12"
  shows "\<exists>b'. XorAddress_Write h (Some tid) addr b = (True, b') \<and> appends b b'
    ([0, family_number (stun_family addr)] @ be16 (sa_port addr XOR 0x2112) @
      xor_bytes (address_bytes (sa_ip addr)) (be32 kStunMagicCookie @ tid))"
  using assms(1)
proof (cases rule: addr_cases)
  case (1 a p)
  have "xor_bytes a (be32 kStunMagicCookie @ tid) = xor_bytes a (be32 kStunMagicCookie)"
    using 1(2) by (simp add: xor_bytes_def zip_append2)
  then show ?thesis using 1 xored_v4 [OF 1(2), of h tid]
      appends_bytes [OF appends_start [OF assms(2), of h "p XOR 0x2112" "family_number STUN_ADDRESS_IPV4"],
        of "xor_bytes a (be32 kStunMagicCookie)"]
    by (simp add: XorAddress_Write_def stun_family_def address_bytes_def Let_def xored_port_eq)
next
  case (2 a p)
  then have "length tid = 12" using assms(3) by simp
  then show ?thesis using 2 xored_v6 [OF 2(2), of tid h]
      appends_bytes [OF appends_start [OF assms(2), of h "p XOR 0x2112" "family_number STUN_ADDRESS_IPV6"],
        of "xor_bytes a (be32 kStunMagicCookie @ tid)"]
    by (simp add: XorAddress_Write_def stun_family_def address_bytes_def Let_def xored_port_eq)
qed

lemma writes_types: "appends b b' v \<Longrightarrow> appends b (fold (WriteUInt16 h) tys b') (v @ concat (map be16 tys))"
proof (induction tys arbitrary: b' v)
  case (Cons t tys)
  then show ?case using Cons.IH [OF appends_writes(2) [OF Cons.prems, of h t]] by simp
qed simp

lemma error_bytes: "be32 (push_bit 8 (ucast c) OR ucast n) = [0, 0, c, n :: byte]"
  unfolding be32_def by (simp, intro conjI; rule bit_word_eqI; auto simp: bit_simps dest: bit_imp_le_length)

lemma StunAttribute_Write_appends:
  assumes "attr_ok tid a" "net b"
  shows "\<exists>b'. StunAttribute_Write h tid a b = Some (True, b') \<and> appends b b' (attr_body tid a)"
proof (cases "at_value a")
  case (AddressValue addr)
  then show ?thesis using Address_Write_appends [of addr b h] assms
    by (auto simp: StunAttribute_Write_def attr_ok_def attr_body_def)
next
  case (XorAddressValue addr ow)
  then show ?thesis using XorAddress_Write_appends [of addr b tid h] assms
    by (auto simp: StunAttribute_Write_def attr_ok_def attr_body_def owner_of_def)
next
  case (UInt32Value v)
  then show ?thesis using appends_writes(3) [OF appends_refl [OF assms(2)], of h v]
    by (simp add: StunAttribute_Write_def attr_body_def)
next
  case (UInt64Value v)
  then show ?thesis using appends_writes(4) [OF appends_refl [OF assms(2)], of h v]
    by (simp add: StunAttribute_Write_def attr_body_def)
next
  case (ByteStringValue bs)
  then obtain s where s: "bs = Some s" "length s = unat (at_length a)" using assms(1) by (auto simp: attr_ok_def)
  show ?thesis using s appends_padding [OF appends_bytes [OF appends_refl [OF assms(2)], of s], of a "length s"]
    by (simp add: StunAttribute_Write_def ByteStringValue ByteString_Write_def attr_body_def)
next
  case (ErrorCodeValue cls number reason)
  have "unat (at_length a) mod 4 = length reason mod 4" using assms(1) ErrorCodeValue by (simp add: attr_ok_def)
  then show ?thesis using ErrorCodeValue
      appends_padding [OF appends_writes(5) [OF appends_writes(3) [OF appends_refl [OF assms(2)],
        of h "push_bit 8 (ucast cls) OR ucast number"], of reason], of a "length reason"]
    by (simp add: StunAttribute_Write_def ErrorCode_Write_def attr_body_def error_bytes Let_def)
next
  case (UInt16ListValue tys)
  then have "unat (at_length a) = 2 * length tys" using assms(1) by (simp add: attr_ok_def)
  then show ?thesis using UInt16ListValue appends_padding [OF writes_types [OF appends_refl [OF assms(2)], of h tys], of a "2 * length tys"]
    by (simp add: StunAttribute_Write_def UInt16List_Write_def attr_body_def)
qed

section \<open>Reading an attribute back\<close>

lemma read_header:
  assumes "holds b ([0, f] @ be16 p @ r)"
  shows "try_read ReadUInt8 b (Inl b) (\<lambda>dummy b. try_read ReadUInt8 b (Inl b) (\<lambda>fam b.
      try_read (ReadUInt16 h) b (Inl b) (k fam))) = k f p (advance 2 (advance (Suc 0) (advance (Suc 0) b)))"
    "holds (advance 2 (advance (Suc 0) (advance (Suc 0) b))) r"
proof -
  have h1: "holds (advance (Suc 0) b) (f # be16 p @ r)" using assms holds_advance [of b "[0]" _ 1] by simp
  have h2: "holds (advance (Suc 0) (advance (Suc 0) b)) (be16 p @ r)" using h1 holds_advance [of _ "[f]" _ 1] by simp
  show "holds (advance 2 (advance (Suc 0) (advance (Suc 0) b))) r" using holds_advance [OF h2] by simp
  show "try_read ReadUInt8 b (Inl b) (\<lambda>dummy b. try_read ReadUInt8 b (Inl b) (\<lambda>fam b.
      try_read (ReadUInt16 h) b (Inl b) (k fam))) = k f p (advance 2 (advance (Suc 0) (advance (Suc 0) b)))"
    using assms by (simp add: try_read_u8 [of b 0] try_read_u8 [OF h1] try_read_u16 [OF h2])
qed

lemma Address_Read_v4:
  assumes "holds b ([0, family_number STUN_ADDRESS_IPV4] @ be16 p @ v @ r)" "length v = 4" "at_length c = SIZE_IP4"
  shows "\<exists>b'. Address_Read h c b = Inr (SetAddress (SocketAddress_ip (IPAddress_v4 v) (uint p)) c, b') \<and> holds b' r"
  unfolding Address_Read_def read_header(1) [OF assms(1)]
  using holds_advance [OF read_header(2) [OF assms(1)] assms(2)] assms(3)
  by (simp add: try_read_bytes [OF read_header(2) [OF assms(1)] assms(2)])

lemma Address_Read_v6:
  assumes "holds b ([0, family_number STUN_ADDRESS_IPV6] @ be16 p @ v @ r)" "length v = 16" "at_length c = SIZE_IP6"
  shows "\<exists>b'. Address_Read h c b = Inr (SetAddress (SocketAddress_ip (IPAddress_v6 v) (uint p)) c, b') \<and> holds b' r"
  unfolding Address_Read_def read_header(1) [OF assms(1)]
  using holds_advance [OF read_header(2) [OF assms(1)] assms(2)] assms(3)
  by (simp add: try_read_bytes [OF read_header(2) [OF assms(1)] assms(2)] family_number_def)

lemma read_types_spec:
  "holds b (concat (map be16 tys) @ r) \<Longrightarrow> \<exists>b'. read_types h (length tys) acc b = Inr (acc @ tys, b') \<and> holds b' r"
proof (induction tys arbitrary: acc b)
  case (Cons t tys)
  then have h: "holds b (be16 t @ concat (map be16 tys) @ r)" by simp
  from Cons.IH [OF holds_advance [OF h], of 2 "acc @ [t]"] show ?case by (simp add: try_read_u16 [OF h])
qed simp

definition created :: "stun_attribute \<Rightarrow> stun_attribute" where
  "created a = the (StunAttribute_Create (value_type (at_value a)) (at_type a) (at_length a))"

lemma SetAddress_created:
  assumes "stun_family addr \<noteq> STUN_ADDRESS_UNDEF" "at_length a = addr_size addr" "at_type c = at_type a"
  shows "at_value a = AddressValue addr \<Longrightarrow> at_value c = AddressValue y \<Longrightarrow> SetAddress addr c = a"
    "at_value a = XorAddressValue addr ow \<Longrightarrow> at_value c = XorAddressValue y ow \<Longrightarrow> SetAddress addr c = a"
  using assms by (cases a; cases c;
    auto simp: SetAddress_def put_address_def EnsureAddressLength_def SetLength_def stun_family_def addr_size_def split: addr_family.splits)+

lemma read_back_address:
  assumes "at_value a = AddressValue addr" "attr_ok tid a" "holds b (attr_body tid a @ r)"
  shows "\<exists>b'. Address_Read h (StunAddressAttribute (at_type a) (at_length a)) b = Inr (a, b') \<and> holds b' r"
proof -
  have ok: "addr_ok addr" "at_length a = addr_size addr" using assms(1,2) by (simp_all add: attr_ok_def)
  let ?c = "StunAddressAttribute (at_type a) (at_length a)"
  have again: "SetAddress addr ?c = a"
    using ok assms(1) by (intro SetAddress_created(1)) (auto simp: StunAddressAttribute_def addr_ok_def stun_family_def split: addr_family.splits)
  from ok(1) show ?thesis
  proof (cases rule: addr_cases)
    case (1 v p)
    with assms Address_Read_v4 [of b p v r ?c h] ok again show ?thesis
      by (simp add: attr_body_def stun_family_def address_bytes_def addr_size_def StunAddressAttribute_def)
  next
    case (2 v p)
    with assms Address_Read_v6 [of b p v r ?c h] ok again show ?thesis
      by (simp add: attr_body_def stun_family_def address_bytes_def addr_size_def StunAddressAttribute_def)
  qed
qed

lemma xor_attribute [simp]:
  "at_length (StunXorAddressAttribute ty len ow) = len"
  "GetAddress (SetAddress x (StunXorAddressAttribute ty len ow)) = x"
  by (simp_all add: StunXorAddressAttribute_def GetAddress_def SetAddress_def put_address_def EnsureAddressLength_def SetLength_def
      split: StunAddressFamily.split)

lemma read_back_xor:
  assumes "at_value a = XorAddressValue addr True" "attr_ok tid a" "holds b (attr_body tid a @ r)"
  shows "\<exists>b'. XorAddress_Read h (Some tid) (StunXorAddressAttribute (at_type a) (at_length a) True) b = Inr (a, b') \<and> holds b' r"
proof -
  have ok: "addr_ok addr" "at_length a = addr_size addr" "ip_family (sa_ip addr) = AF_INET6 \<Longrightarrow> length tid = 12"
    using assms(1,2) by (simp_all add: attr_ok_def)
  let ?c = "StunXorAddressAttribute (at_type a) (at_length a) True"
  have again: "SetAddress addr (SetAddress x ?c) = a" for x
    using ok assms(1) by (intro SetAddress_created(2))
      (auto simp: StunXorAddressAttribute_def addr_ok_def stun_family_def SetAddress_def put_address_def EnsureAddressLength_def
        SetLength_def split: addr_family.splits StunAddressFamily.splits)
  have port: "(p XOR 0x2112) XOR 0x2112 = p" for p :: u16 by (simp add: xor.assoc)
  from ok(1) show ?thesis
  proof (cases rule: addr_cases)
    case (1 v p)
    let ?x = "xor_bytes v (be32 kStunMagicCookie)"
    have x: "xor_bytes v (be32 kStunMagicCookie @ tid) = ?x" using 1(2) by (simp add: xor_bytes_def zip_append2)
    have "GetXoredIP h (Some tid) (IPAddress_v4 ?x) = IPAddress_v4 v"
      using xored_v4 [of ?x h tid] 1(2) xor_bytes_inverse [of v "be32 kStunMagicCookie"] by simp
    with 1 assms Address_Read_v4 [of b "p XOR 0x2112" ?x r ?c h] ok x again show ?thesis
      by (auto simp: XorAddress_Read_def xor_attribute attr_body_def stun_family_def address_bytes_def addr_size_def
          xored_port_eq port Let_def)
  next
    case (2 v p)
    let ?x = "xor_bytes v (be32 kStunMagicCookie @ tid)"
    have t: "length tid = 12" using ok(3) 2 by simp
    have "GetXoredIP h (Some tid) (IPAddress_v6 ?x) = IPAddress_v6 v"
      using xored_v6 [of ?x tid h] t 2(2) xor_bytes_inverse [of v "be32 kStunMagicCookie @ tid"] by simp
    with 2 t assms Address_Read_v6 [of b "p XOR 0x2112" ?x r ?c h] ok again show ?thesis
      by (auto simp: XorAddress_Read_def xor_attribute attr_body_def stun_family_def address_bytes_def addr_size_def
          xored_port_eq port Let_def)
  qed
qed

lemma error_back:
  fixes c n :: byte
  assumes "c < 8"
  shows "ucast (drop_bit 8 (push_bit 8 (ucast c) OR ucast n :: u32) AND 7) = c" "ucast ((push_bit 8 (ucast c) OR ucast n :: u32) AND 255) = n"
proof -
  have m: "(7 :: u32) = mask 3" "(255 :: u32) = mask 8" by (simp_all add: mask_eq_exp_minus_1)
  have "c AND mask 3 = c" using assms less_mask_eq [of c 3] by simp
  then have "bit c i \<Longrightarrow> i < 3" for i by (metis bit_and_iff bit_mask_iff)
  then show "ucast (drop_bit 8 (push_bit 8 (ucast c) OR ucast n :: u32) AND 7) = c"
    unfolding m by (intro bit_word_eqI) (auto simp: bit_simps dest: bit_imp_le_length)
  show "ucast ((push_bit 8 (ucast c) OR ucast n :: u32) AND 255) = n"
    unfolding m by (intro bit_word_eqI) (auto simp: bit_simps)
qed

lemma StunAttribute_Read_body:
  assumes "attr_ok tid a" "holds b (attr_body tid a @ r)"
  shows "\<exists>b'. StunAttribute_Read h tid (created a) b = Inr (a, b') \<and> holds b' r"
proof (cases "at_value a")
  case (AddressValue addr)
  then show ?thesis using read_back_address [OF AddressValue assms, of h]
    by (simp add: created_def StunAttribute_Create_def StunAttribute_Read_def StunAddressAttribute_def)
next
  case (XorAddressValue addr ow)
  then have ow: "ow = True" using assms(1) by (simp add: attr_ok_def)
  then show ?thesis using read_back_xor [OF XorAddressValue [unfolded ow] assms, of h] XorAddressValue
    by (simp add: created_def StunAttribute_Create_def StunAttribute_Read_def StunXorAddressAttribute_def owner_of_def)
next
  case (UInt32Value v)
  have h: "holds b (be32 v @ r)" using assms(2) UInt32Value by (simp add: attr_body_def)
  have "a = StunUInt32Attribute_of (at_type a) v" using assms(1) UInt32Value by (cases a) (simp add: attr_ok_def StunUInt32Attribute_of_def)
  then show ?thesis using UInt32Value holds_advance [OF h]
    by (simp add: created_def StunAttribute_Create_def StunAttribute_Read_def StunUInt32Attribute_def StunUInt32Attribute_of_def UInt32_Read_def
        try_read_u32 [OF h])
next
  case (UInt64Value v)
  have h: "holds b (be64 v @ r)" using assms(2) UInt64Value by (simp add: attr_body_def)
  have "a = StunUInt64Attribute_of (at_type a) v" using assms(1) UInt64Value by (cases a) (simp add: attr_ok_def StunUInt64Attribute_of_def)
  then show ?thesis using UInt64Value holds_advance [OF h]
    by (simp add: created_def StunAttribute_Create_def StunAttribute_Read_def StunUInt64Attribute_def StunUInt64Attribute_of_def UInt64_Read_def
        try_read_u64 [OF h])
next
  case (ByteStringValue bs)
  then obtain s where s: "bs = Some s" "length s = unat (at_length a)" using assms(1) by (auto simp: attr_ok_def)
  have h: "holds b (s @ padding (length s) @ r)" using assms(2) ByteStringValue s by (simp add: attr_body_def)
  then show ?thesis using ByteStringValue s consumed_padding [OF holds_advance [OF h]]
    by (cases a) (simp add: created_def StunAttribute_Create_def StunAttribute_Read_def StunByteStringAttribute_def ByteString_Read_def
        try_read_bytes [OF h])
next
  case (ErrorCodeValue cls number reason)
  let ?v = "push_bit 8 (ucast cls) OR ucast number :: u32"
  have ok: "cls < 8" "unat (at_length a) = 4 + length reason" using assms(1) ErrorCodeValue by (simp_all add: attr_ok_def)
  have h: "holds b (be32 ?v @ reason @ padding (length reason) @ r)"
    using assms(2) ErrorCodeValue by (simp add: attr_body_def error_bytes)
  have h2: "holds (advance 4 b) (reason @ padding (length reason) @ r)" using holds_advance [OF h] by simp
  have "\<not> at_length a < MIN_SIZE" using ok(2) by (simp add: MIN_SIZE_def word_less_nat_alt)
  moreover have "unat (at_length a) mod 4 = length reason mod 4" using ok(2) by simp
  ultimately show ?thesis using ErrorCodeValue ok consumed_padding [OF holds_advance [OF h2]] error_back [OF ok(1), of number]
    by (cases a) (simp add: created_def StunAttribute_Create_def StunAttribute_Read_def StunErrorCodeAttribute_def ErrorCode_Read_def
        try_read_u32 [OF h] try_read_string [OF h2] Let_def)
next
  case (UInt16ListValue tys)
  have ok: "unat (at_length a) = 2 * length tys" using assms(1) UInt16ListValue by (simp add: attr_ok_def)
  have "holds b (concat (map be16 tys) @ padding (2 * length tys) @ r)" using assms(2) UInt16ListValue by (simp add: attr_body_def)
  from read_types_spec [OF this, of h "[]"] obtain b' where b': "read_types h (length tys) [] b = Inr (tys, b')"
    "holds b' (padding (2 * length tys) @ r)" by auto
  show ?thesis using UInt16ListValue ok b'(1) consumed_padding [OF b'(2)]
    by (cases a) (simp add: created_def StunAttribute_Create_def StunAttribute_Read_def StunUInt16ListAttribute_def UInt16List_Read_def)
qed

end
