(* ===== verification/Stun_Message.thy ===== *)
theory Stun_Message
  imports Stun_Attribute Message_Digest Crc32
begin

text \<open>
  \<^verbatim>\<open>p2p/base/stun.h\<close> and \<^verbatim>\<open>p2p/base/stun.cc\<close>, the messages: \<^verbatim>\<open>StunMessage\<close> and the derived classes that know
  further attributes (\<^verbatim>\<open>RelayMessage\<close>, \<^verbatim>\<open>TurnMessage\<close>, \<^verbatim>\<open>IceMessage\<close>), the message types, and the long-term
  credential hash. A message is a record of its class and its fields, the attributes as the list that the vector of
  pointers holds. The pointer that \<^verbatim>\<open>AddMessageIntegrity\<close> and \<^verbatim>\<open>AddFingerprint\<close> keep to the attribute they have just
  added is the last element of the list. Functions on raw packets take the bytes; \<open>None\<close> is a read outside of them.
\<close>

datatype stun_class = StunClass | RelayClass | TurnClass | IceClass

record stun_message =
  msg_class :: stun_class
  msg_type :: u16
  msg_length :: u16
  msg_tid :: "byte list"
  msg_attrs :: "stun_attribute list"

definition kStunTypeMask :: int where "kStunTypeMask = 0x0110"
definition kStunAttributeHeaderSize :: nat where "kStunAttributeHeaderSize = 4"
definition kStunHeaderSize :: nat where "kStunHeaderSize = 20"
definition kStunTransactionIdOffset :: nat where "kStunTransactionIdOffset = 8"
definition kStunMagicCookieLength :: nat where "kStunMagicCookieLength = 4"
definition kStunMessageIntegritySize :: nat where "kStunMessageIntegritySize = 20"
definition STUN_FINGERPRINT_XOR_VALUE :: u32 where "STUN_FINGERPRINT_XOR_VALUE = 0x5354554E"
definition EMPTY_TRANSACTION_ID :: "byte list" where "EMPTY_TRANSACTION_ID = replicate 16 48"

section \<open>Construction and lookup\<close>

definition IsValidTransactionId :: "byte list \<Rightarrow> bool" where
  "IsValidTransactionId transaction_id \<longleftrightarrow>
     length transaction_id = kStunTransactionIdLength \<or> length transaction_id = kStunLegacyTransactionIdLength"

definition StunMessage_new :: "stun_class \<Rightarrow> stun_message" where
  "StunMessage_new c =
     \<lparr>msg_class = c, msg_type = 0, msg_length = 0, msg_tid = EMPTY_TRANSACTION_ID, msg_attrs = []\<rparr>"

definition CreateNew :: "stun_message \<Rightarrow> stun_message" where
  "CreateNew m = StunMessage_new (msg_class m)"

definition IsLegacy :: "stun_message \<Rightarrow> bool" where
  "IsLegacy m \<longleftrightarrow> length (msg_tid m) = kStunLegacyTransactionIdLength"

definition Message_SetType :: "int \<Rightarrow> stun_message \<Rightarrow> stun_message" where
  "Message_SetType ty m = m\<lparr>msg_type := word_of_int ty\<rparr>"

definition SetTransactionID :: "byte list \<Rightarrow> stun_message \<Rightarrow> bool \<times> stun_message" where
  "SetTransactionID str m = (if \<not> IsValidTransactionId str then (False, m) else (True, m\<lparr>msg_tid := str\<rparr>))"

definition StunMessage_GetAttributeValueType :: "int \<Rightarrow> StunAttributeValueType" where
  "StunMessage_GetAttributeValueType ty =
     (if ty = STUN_ATTR_MAPPED_ADDRESS then STUN_VALUE_ADDRESS
      else if ty = STUN_ATTR_USERNAME then STUN_VALUE_BYTE_STRING
      else if ty = STUN_ATTR_MESSAGE_INTEGRITY then STUN_VALUE_BYTE_STRING
      else if ty = STUN_ATTR_ERROR_CODE then STUN_VALUE_ERROR_CODE
      else if ty = STUN_ATTR_UNKNOWN_ATTRIBUTES then STUN_VALUE_UINT16_LIST
      else if ty = STUN_ATTR_REALM then STUN_VALUE_BYTE_STRING
      else if ty = STUN_ATTR_NONCE then STUN_VALUE_BYTE_STRING
      else if ty = STUN_ATTR_XOR_MAPPED_ADDRESS then STUN_VALUE_XOR_ADDRESS
      else if ty = STUN_ATTR_SOFTWARE then STUN_VALUE_BYTE_STRING
      else if ty = STUN_ATTR_ALTERNATE_SERVER then STUN_VALUE_BYTE_STRING
      else if ty = STUN_ATTR_FINGERPRINT then STUN_VALUE_UINT32
      else if ty = STUN_ATTR_RETRANSMIT_COUNT then STUN_VALUE_UINT32
      else STUN_VALUE_UNKNOWN)"

definition RelayMessage_GetAttributeValueType :: "int \<Rightarrow> StunAttributeValueType" where
  "RelayMessage_GetAttributeValueType ty =
     (if ty = STUN_ATTR_LIFETIME then STUN_VALUE_UINT32
      else if ty = STUN_ATTR_MAGIC_COOKIE then STUN_VALUE_BYTE_STRING
      else if ty = STUN_ATTR_BANDWIDTH then STUN_VALUE_UINT32
      else if ty = STUN_ATTR_DESTINATION_ADDRESS then STUN_VALUE_ADDRESS
      else if ty = STUN_ATTR_SOURCE_ADDRESS2 then STUN_VALUE_ADDRESS
      else if ty = STUN_ATTR_DATA then STUN_VALUE_BYTE_STRING
      else if ty = STUN_ATTR_OPTIONS then STUN_VALUE_UINT32
      else StunMessage_GetAttributeValueType ty)"

definition TurnMessage_GetAttributeValueType :: "int \<Rightarrow> StunAttributeValueType" where
  "TurnMessage_GetAttributeValueType ty =
     (if ty = STUN_ATTR_CHANNEL_NUMBER then STUN_VALUE_UINT32
      else if ty = STUN_ATTR_TURN_LIFETIME then STUN_VALUE_UINT32
      else if ty = STUN_ATTR_XOR_PEER_ADDRESS then STUN_VALUE_XOR_ADDRESS
      else if ty = STUN_ATTR_DATA then STUN_VALUE_BYTE_STRING
      else if ty = STUN_ATTR_XOR_RELAYED_ADDRESS then STUN_VALUE_XOR_ADDRESS
      else if ty = STUN_ATTR_EVEN_PORT then STUN_VALUE_BYTE_STRING
      else if ty = STUN_ATTR_REQUESTED_TRANSPORT then STUN_VALUE_UINT32
      else if ty = STUN_ATTR_DONT_FRAGMENT then STUN_VALUE_BYTE_STRING
      else if ty = STUN_ATTR_RESERVATION_TOKEN then STUN_VALUE_BYTE_STRING
      else StunMessage_GetAttributeValueType ty)"

definition IceMessage_GetAttributeValueType :: "int \<Rightarrow> StunAttributeValueType" where
  "IceMessage_GetAttributeValueType ty =
     (if ty = STUN_ATTR_PRIORITY then STUN_VALUE_UINT32
      else if ty = STUN_ATTR_USE_CANDIDATE then STUN_VALUE_BYTE_STRING
      else if ty = STUN_ATTR_ICE_CONTROLLED then STUN_VALUE_UINT64
      else if ty = STUN_ATTR_ICE_CONTROLLING then STUN_VALUE_UINT64
      else StunMessage_GetAttributeValueType ty)"

text \<open>The virtual call.\<close>

definition GetAttributeValueType :: "stun_class \<Rightarrow> int \<Rightarrow> StunAttributeValueType" where
  "GetAttributeValueType c ty =
     (case c of
        StunClass \<Rightarrow> StunMessage_GetAttributeValueType ty
      | RelayClass \<Rightarrow> RelayMessage_GetAttributeValueType ty
      | TurnClass \<Rightarrow> TurnMessage_GetAttributeValueType ty
      | IceClass \<Rightarrow> IceMessage_GetAttributeValueType ty)"

definition AddAttribute :: "stun_attribute \<Rightarrow> stun_message \<Rightarrow> bool \<times> stun_message" where
  "AddAttribute attr m =
     (if value_type (at_value attr) \<noteq> GetAttributeValueType (msg_class m) (uint (at_type attr)) then (False, m)
      else let m = m\<lparr>msg_attrs := msg_attrs m @ [SetOwner attr]\<rparr>;
               attr_length = unat (at_length attr);
               attr_length = (if attr_length mod 4 \<noteq> 0 then attr_length + (4 - attr_length mod 4) else attr_length)
           in (True, m\<lparr>msg_length := msg_length m + word_of_nat (attr_length + 4)\<rparr>))"

definition GetAttribute :: "stun_message \<Rightarrow> int \<Rightarrow> stun_attribute option" where
  "GetAttribute m ty = List.find (\<lambda>a. uint (at_type a) = ty) (msg_attrs m)"

definition Message_GetAddress :: "stun_message \<Rightarrow> int \<Rightarrow> stun_attribute option" where
  "Message_GetAddress m ty =
     (if ty = STUN_ATTR_MAPPED_ADDRESS
      then (case GetAttribute m STUN_ATTR_MAPPED_ADDRESS of
              None \<Rightarrow> GetAttribute m STUN_ATTR_XOR_MAPPED_ADDRESS
            | Some a \<Rightarrow> Some a)
      else GetAttribute m ty)"

definition GetUInt32 :: "stun_message \<Rightarrow> int \<Rightarrow> stun_attribute option" where "GetUInt32 m ty = GetAttribute m ty"

definition GetUInt64 :: "stun_message \<Rightarrow> int \<Rightarrow> stun_attribute option" where "GetUInt64 m ty = GetAttribute m ty"

definition GetByteString :: "stun_message \<Rightarrow> int \<Rightarrow> stun_attribute option" where
  "GetByteString m ty = GetAttribute m ty"

definition GetErrorCode :: "stun_message \<Rightarrow> stun_attribute option" where
  "GetErrorCode m = GetAttribute m STUN_ATTR_ERROR_CODE"

definition GetUnknownAttributes :: "stun_message \<Rightarrow> stun_attribute option" where
  "GetUnknownAttributes m = GetAttribute m STUN_ATTR_UNKNOWN_ATTRIBUTES"

definition CreateAttribute :: "stun_message \<Rightarrow> u16 \<Rightarrow> u16 \<Rightarrow> stun_attribute option" where
  "CreateAttribute m ty len = StunAttribute_Create (GetAttributeValueType (msg_class m) (uint ty)) ty len"

section \<open>Writing\<close>

fun write_attrs :: "bool \<Rightarrow> byte list \<Rightarrow> stun_attribute list \<Rightarrow> byte_buffer \<Rightarrow> (bool \<times> byte_buffer) option" where
  "write_attrs h tid [] buf = Some (True, buf)"
| "write_attrs h tid (a # as) buf =
     (let buf = WriteUInt16 h (at_type a) buf;
          buf = WriteUInt16 h (at_length a) buf
      in case StunAttribute_Write h tid a buf of
           None \<Rightarrow> None
         | Some (ok, buf) \<Rightarrow> if \<not> ok then Some (False, buf) else write_attrs h tid as buf)"

definition Message_Write :: "bool \<Rightarrow> stun_message \<Rightarrow> byte_buffer \<Rightarrow> (bool \<times> byte_buffer) option" where
  "Message_Write h m buf =
     (let buf = WriteUInt16 h (msg_type m) buf;
          buf = WriteUInt16 h (msg_length m) buf;
          buf = (if \<not> IsLegacy m then WriteUInt32 h kStunMagicCookie buf else buf);
          buf = WriteString (msg_tid m) buf
      in write_attrs h (msg_tid m) (msg_attrs m) buf)"

section \<open>Reading\<close>

text \<open>The loop over the attributes. The padded length of an attribute that is skipped is computed in 16 bits.\<close>

definition skip_length :: "u16 \<Rightarrow> u16" where
  "skip_length attr_length =
     (if unat attr_length mod 4 \<noteq> 0 then attr_length + word_of_nat (4 - unat attr_length mod 4) else attr_length)"

function read_attrs :: "bool \<Rightarrow> nat \<Rightarrow> stun_message \<Rightarrow> byte_buffer \<Rightarrow> bool \<times> stun_message \<times> byte_buffer" where
  "read_attrs h rest m buf =
     (if \<not> Length buf > rest then (True, m, buf)
      else case ReadUInt16 h buf of
        None \<Rightarrow> (False, m, buf)
      | Some (attr_type, buf) \<Rightarrow>
          (case ReadUInt16 h buf of
             None \<Rightarrow> (False, m, buf)
           | Some (attr_length, buf) \<Rightarrow>
               (case CreateAttribute m attr_type attr_length of
                  None \<Rightarrow>
                    (case Consume (unat (skip_length attr_length)) buf of
                       None \<Rightarrow> (False, m, buf)
                     | Some buf \<Rightarrow> read_attrs h rest m buf)
                | Some attr \<Rightarrow>
                    (case StunAttribute_Read h (msg_tid m) attr buf of
                       Inl buf \<Rightarrow> (False, m, buf)
                     | Inr (attr, buf) \<Rightarrow> read_attrs h rest (m\<lparr>msg_attrs := msg_attrs m @ [attr]\<rparr>) buf))))"
  by pat_completeness auto

termination
proof (relation "measure (\<lambda>(h, rest, m, buf). Length buf)", goal_cases)
  case (2 h rest m buf x ty b1 y len b2 b3)
  then show ?case by (auto dest!: read_lengths)
next
  case (3 h rest m buf x ty b1 y len b2 attr z attr' b3)
  then show ?case using StunAttribute_Read_shrinks [of b2 h "msg_tid m" attr] by (auto simp: shrinks_def dest!: read_lengths)
qed simp

declare read_attrs.simps [simp del]

definition Message_Read :: "bool \<Rightarrow> stun_message \<Rightarrow> byte_buffer \<Rightarrow> bool \<times> stun_message \<times> byte_buffer" where
  "Message_Read h m buf =
     try_read (ReadUInt16 h) buf (False, m, buf) (\<lambda>ty buf.
       let m = m\<lparr>msg_type := ty\<rparr>
       in if ty AND 0x8000 \<noteq> 0 then (False, m, buf)
          else try_read (ReadUInt16 h) buf (False, m, buf) (\<lambda>len buf.
            let m = m\<lparr>msg_length := len\<rparr>
            in try_read (ReadString [] kStunMagicCookieLength) buf (False, m, buf) (\<lambda>magic_cookie buf.
               try_read (ReadString [] kStunTransactionIdLength) buf (False, m, buf) (\<lambda>transaction_id buf.
                 let magic_cookie_int = host_load32 h magic_cookie;
                     transaction_id = (if NetworkToHost32 h magic_cookie_int \<noteq> kStunMagicCookie
                       then magic_cookie @ transaction_id else transaction_id);
                     m = m\<lparr>msg_tid := transaction_id\<rparr>
                 in if unat (msg_length m) \<noteq> Length buf then (False, m, buf)
                    else let m = m\<lparr>msg_attrs := []\<rparr>;
                             rest = Length buf - unat (msg_length m)
                         in read_attrs h rest m buf))))"

section \<open>Integrity and fingerprint\<close>

text \<open>The search for the attribute: its position, or \<open>None\<close> where the code returns false.\<close>

function find_integrity :: "byte list \<Rightarrow> nat \<Rightarrow> nat option" where
  "find_integrity data current_pos =
     (if current_pos < length data
      then let attr_type = GetBE16 (mem_read data current_pos 2);
               attr_length = unat (GetBE16 (mem_read data (current_pos + 2) 2))
           in if uint attr_type = STUN_ATTR_MESSAGE_INTEGRITY
              then (if attr_length \<noteq> kStunMessageIntegritySize \<or> current_pos + attr_length > length data then None
                    else Some current_pos)
              else find_integrity data
                     (current_pos + 2 + 2 + attr_length + (if attr_length mod 4 \<noteq> 0 then 4 - attr_length mod 4 else 0))
      else None)"
  by pat_completeness auto

termination
  by (relation "measure (\<lambda>(data, pos). length data - pos)") auto

declare find_integrity.simps [simp del]

definition ValidateMessageIntegrity :: "bool \<Rightarrow> byte list \<Rightarrow> byte list \<Rightarrow> bool option" where
  "ValidateMessageIntegrity h data password =
     (let size = length data
      in if size mod 4 \<noteq> 0 then Some False
         else if size < 4 then None
         else let msg_length = unat (GetBE16 (mem_read data 2 2))
         in if size \<noteq> msg_length + kStunHeaderSize then Some False
         else case find_integrity data kStunHeaderSize of
           None \<Rightarrow> Some False
         | Some mi_pos \<Rightarrow>
             (let temp_data = mem_read data 0 mi_pos;
                  behind = mi_pos + kStunAttributeHeaderSize + kStunMessageIntegritySize;
                  temp_data =
                    (if size > behind
                     then let extra_offset = size - behind;
                              new_adjusted_len = size - extra_offset - kStunHeaderSize
                          in mem_write temp_data 2 (SetBE16 (replicate 2 0) (word_of_nat new_adjusted_len))
                     else temp_data)
              in case ComputeHmac_alg h DIGEST_SHA_1 password temp_data (replicate kStunMessageIntegritySize 0) of
                   None \<Rightarrow> None
                 | Some (ret, hmac) \<Rightarrow>
                     (if ret \<noteq> kStunMessageIntegritySize then Some False
                      else if behind > size then None
                      else Some (memcmp (mem_read data (mi_pos + kStunAttributeHeaderSize) kStunMessageIntegritySize) hmac = 0))))"

definition AddMessageIntegrity :: "bool \<Rightarrow> byte list \<Rightarrow> stun_message \<Rightarrow> (bool \<times> stun_message) option" where
  "AddMessageIntegrity h key m =
     (let attr = StunByteStringAttribute_of (word_of_int STUN_ATTR_MESSAGE_INTEGRITY)
            (replicate kStunMessageIntegritySize 48);
          (_, m) = AddAttribute attr m
      in case Message_Write h m ByteBuffer_new of
           None \<Rightarrow> None
         | Some (ok, buf) \<Rightarrow>
             (if \<not> ok then Some (False, m)
              else let msg_len_for_hmac = Length buf - kStunAttributeHeaderSize - unat (at_length (last (msg_attrs m)))
                   in case ComputeHmac_alg h DIGEST_SHA_1 key (take msg_len_for_hmac (Contents buf))
                          (replicate kStunMessageIntegritySize 0) of
                        None \<Rightarrow> None
                      | Some (ret, hmac) \<Rightarrow>
                          (if ret \<noteq> kStunMessageIntegritySize then Some (False, m)
                           else Some (True, m\<lparr>msg_attrs := butlast (msg_attrs m) @ [CopyBytes hmac (last (msg_attrs m))]\<rparr>))))"

definition ValidateFingerprint :: "byte list \<Rightarrow> bool" where
  "ValidateFingerprint data =
     (let size = length data;
          fingerprint_attr_size = kStunAttributeHeaderSize + unat UInt32_SIZE
      in if size mod 4 \<noteq> 0 \<or> size < kStunHeaderSize + fingerprint_attr_size then False
         else if GetBE32 (mem_read data (kStunTransactionIdOffset - kStunMagicCookieLength) 4) \<noteq> kStunMagicCookie then False
         else let fingerprint_attr = size - fingerprint_attr_size
              in if uint (GetBE16 (mem_read data fingerprint_attr 2)) \<noteq> STUN_ATTR_FINGERPRINT \<or>
                    GetBE16 (mem_read data (fingerprint_attr + 2) 2) \<noteq> UInt32_SIZE then False
                 else let fingerprint = GetBE32 (mem_read data (fingerprint_attr + kStunAttributeHeaderSize) 4)
                      in fingerprint XOR STUN_FINGERPRINT_XOR_VALUE = ComputeCrc32 (take (size - fingerprint_attr_size) data))"

definition AddFingerprint :: "bool \<Rightarrow> stun_message \<Rightarrow> (bool \<times> stun_message) option" where
  "AddFingerprint h m =
     (let attr = StunUInt32Attribute_of (word_of_int STUN_ATTR_FINGERPRINT) 0;
          (_, m) = AddAttribute attr m
      in case Message_Write h m ByteBuffer_new of
           None \<Rightarrow> None
         | Some (ok, buf) \<Rightarrow>
             (if \<not> ok then Some (False, m)
              else let msg_len_for_crc32 = Length buf - kStunAttributeHeaderSize - unat (at_length (last (msg_attrs m)));
                       c = ComputeCrc32 (take msg_len_for_crc32 (Contents buf))
                   in Some (True, m\<lparr>msg_attrs := butlast (msg_attrs m) @
                        [UInt32_SetValue (c XOR STUN_FINGERPRINT_XOR_VALUE) (last (msg_attrs m))]\<rparr>)))"

section \<open>Message types\<close>

definition IsStunRequestType :: "int \<Rightarrow> bool" where "IsStunRequestType ty = (ty AND kStunTypeMask = 0x000)"

definition IsStunIndicationType :: "int \<Rightarrow> bool" where
  "IsStunIndicationType ty = (ty AND kStunTypeMask = 0x010)"

definition IsStunSuccessResponseType :: "int \<Rightarrow> bool" where
  "IsStunSuccessResponseType ty = (ty AND kStunTypeMask = 0x100)"

definition IsStunErrorResponseType :: "int \<Rightarrow> bool" where
  "IsStunErrorResponseType ty = (ty AND kStunTypeMask = 0x110)"

definition GetStunSuccessResponseType :: "int \<Rightarrow> int" where
  "GetStunSuccessResponseType req_type = (if IsStunRequestType req_type then req_type OR 0x100 else -1)"

definition GetStunErrorResponseType :: "int \<Rightarrow> int" where
  "GetStunErrorResponseType req_type = (if IsStunRequestType req_type then req_type OR 0x110 else -1)"

definition ComputeStunCredentialHash :: "bool \<Rightarrow> byte list \<Rightarrow> byte list \<Rightarrow> byte list \<Rightarrow> byte list option option" where
  "ComputeStunCredentialHash h username realm password =
     (let input = username @ [58] @ realm @ [58] @ password
      in case ComputeDigest_alg h DIGEST_MD5 input (replicate 64 0) of
           None \<Rightarrow> None
         | Some (n, md) \<Rightarrow> (if n = 0 then Some None else Some (Some (take n md))))"

section \<open>The bytes of a message\<close>

definition framed :: "(stun_attribute \<Rightarrow> byte list) \<Rightarrow> stun_attribute \<Rightarrow> byte list" where
  "framed body a = be16 (at_type a) @ be16 (at_length a) @ body a"

definition attrs_bytes :: "byte list \<Rightarrow> stun_attribute list \<Rightarrow> byte list" where
  "attrs_bytes tid as = concat (map (framed (attr_body tid)) as)"

definition header_bytes :: "stun_message \<Rightarrow> byte list" where
  "header_bytes m = be16 (msg_type m) @ be16 (msg_length m) @ (if IsLegacy m then [] else be32 kStunMagicCookie) @ msg_tid m"

definition message_bytes :: "stun_message \<Rightarrow> byte list" where
  "message_bytes m = header_bytes m @ attrs_bytes (msg_tid m) (msg_attrs m)"

definition padded :: "nat \<Rightarrow> nat" where "padded n = (if n mod 4 \<noteq> 0 then n + (4 - n mod 4) else n)"

lemma length_padding: "length xs = n \<Longrightarrow> length (xs @ padding n) = padded n"
  by (auto simp: padding_def padded_def)

lemma padded_mod4: "padded n mod 4 = 0"
proof -
  have "n mod 4 < 4" by simp
  then show ?thesis unfolding padded_def by (auto simp: mod_eq_0_iff_dvd) presburger
qed

lemma sum_list_2: "(\<Sum>x\<leftarrow>xs. 2 :: nat) = 2 * length xs"
  by (induction xs) auto

lemma length_attr_body:
  assumes "attr_ok tid a"
  shows "length (attr_body tid a) = padded (unat (at_length a))"
proof (cases "at_value a")
  case (AddressValue addr)
  with assms show ?thesis
    by (auto simp: attr_ok_def attr_body_def addr_size_def address_bytes_def SIZE_IP4_def SIZE_IP6_def padded_def elim: addr_cases)
next
  case (XorAddressValue addr ow)
  with assms show ?thesis
    by (auto simp: attr_ok_def attr_body_def addr_size_def address_bytes_def SIZE_IP4_def SIZE_IP6_def padded_def elim: addr_cases)
next
  case (ErrorCodeValue cls number reason)
  have "length (reason @ padding (length reason)) = padded (length reason)" by (rule length_padding) simp
  moreover have "padded (4 + n) = 4 + padded n" for n by (simp add: padded_def)
  ultimately show ?thesis using ErrorCodeValue assms by (simp add: attr_ok_def attr_body_def)
next
  case (UInt16ListValue tys)
  then show ?thesis using assms length_padding [of "concat (map be16 tys)" "2 * length tys"]
    by (simp add: attr_ok_def attr_body_def length_concat comp_def sum_list_2)
next
  case (ByteStringValue bs)
  then show ?thesis using assms length_padding [of "the bs" "length (the bs)"] by (simp add: attr_ok_def attr_body_def)
qed (use assms in \<open>simp_all add: attr_ok_def attr_body_def UInt32_SIZE_def UInt64_SIZE_def padded_def\<close>)

section \<open>What a message needs of its attributes\<close>

lemma ReadUInt16_holds: "holds b (be16 v @ r) \<Longrightarrow> ReadUInt16 h b = Some (v, advance 2 b)"
  using ReadBytes_holds [of b "be16 v" r 2] by (simp add: read_net holds_def)

locale attribute_codec =
  fixes h :: bool
    and tid :: "byte list"
    and ok :: "stun_attribute \<Rightarrow> bool"
    and body :: "stun_attribute \<Rightarrow> byte list"
  assumes write_body: "ok a \<Longrightarrow> net b \<Longrightarrow> \<exists>b'. StunAttribute_Write h tid a b = Some (True, b') \<and> appends b b' (body a)"
    and read_body: "ok a \<Longrightarrow> holds b (body a @ r) \<Longrightarrow> \<exists>b'. StunAttribute_Read h tid (created a) b = Inr (a, b') \<and> holds b' r"
    and length_body: "ok a \<Longrightarrow> length (body a) = padded (unat (at_length a))"
begin

lemma length_bytes: "ok a \<Longrightarrow> length (framed body a) = 4 + padded (unat (at_length a))"
  by (simp add: framed_def [of body a] length_body)

lemma appends_trans: "appends b b1 v \<Longrightarrow> appends b1 b2 w \<Longrightarrow> appends b b2 (v @ w)"
  by (simp add: appends_def)

lemma write_attrs_appends:
  "\<forall>a \<in> set as. ok a \<Longrightarrow> net b \<Longrightarrow> \<exists>b'. write_attrs h tid as b = Some (True, b') \<and> appends b b' (concat (map (framed body) as))"
proof (induction as arbitrary: b)
  case (Cons a as)
  define b1 where "b1 = WriteUInt16 h (at_length a) (WriteUInt16 h (at_type a) b)"
  have b1: "appends b b1 (be16 (at_type a) @ be16 (at_length a))"
    using appends_writes(2) [OF appends_writes(2) [OF appends_refl [OF Cons.prems(2)]], of h "at_length a" h "at_type a"]
    by (simp add: b1_def)
  then have "net b1" by (simp add: appends_def)
  then obtain b2 where b2: "StunAttribute_Write h tid a b1 = Some (True, b2)" "appends b1 b2 (body a)"
    using write_body Cons.prems(1) by fastforce
  then have "net b2" by (simp add: appends_def)
  then obtain b3 where b3: "write_attrs h tid as b2 = Some (True, b3)" "appends b2 b3 (concat (map (framed body) as))"
    using Cons.IH Cons.prems(1) by fastforce
  have "appends b b3 (framed body a @ concat (map (framed body) as))"
    using appends_trans [OF appends_trans [OF b1 b2(2)] b3(2)] by (simp add: framed_def [of body a])
  then show ?case using b2(1) b3(1) by (simp add: b1_def [symmetric] Let_def)
qed (simp add: appends_refl)

lemma read_attrs_back:
  assumes "\<forall>a \<in> set as. ok a \<and> value_type (at_value a) = GetAttributeValueType (msg_class m) (uint (at_type a))"
    "msg_tid m = tid" "holds b (concat (map (framed body) as))"
  shows "\<exists>b'. read_attrs h 0 m b = (True, m\<lparr>msg_attrs := msg_attrs m @ as\<rparr>, b') \<and> holds b' []"
  using assms
proof (induction as arbitrary: m b)
  case Nil
  then have "Length b = 0" using length_Contents [of b] by (simp add: holds_def)
  with Nil show ?case by (auto simp: read_attrs.simps)
next
  case (Cons a as)
  let ?r = "concat (map (framed body) as)"
  have h0: "holds b (be16 (at_type a) @ be16 (at_length a) @ body a @ ?r)" using Cons.prems(3) by (simp add: framed_def [of body a])
  have h1: "holds (advance 2 b) (be16 (at_length a) @ body a @ ?r)" using holds_advance [OF h0] by simp
  have h2: "holds (advance 2 (advance 2 b)) (body a @ ?r)" using holds_advance [OF h1] by simp
  have ok: "ok a" "value_type (at_value a) = GetAttributeValueType (msg_class m) (uint (at_type a))" using Cons.prems(1) by auto
  have c: "CreateAttribute m (at_type a) (at_length a) = Some (created a)"
    using ok(2) by (cases "at_value a") (simp_all add: CreateAttribute_def created_def StunAttribute_Create_def flip: ok(2))
  obtain b3 where b3: "StunAttribute_Read h tid (created a) (advance 2 (advance 2 b)) = Inr (a, b3)" "holds b3 ?r"
    using read_body [OF ok(1) h2] by blast
  have "0 < Length b" using h0 length_Contents [of b] by (simp add: holds_def)
  then have "read_attrs h 0 m b = read_attrs h 0 (m\<lparr>msg_attrs := msg_attrs m @ [a]\<rparr>) b3"
    by (subst read_attrs.simps) (simp add: ReadUInt16_holds [OF h0] ReadUInt16_holds [OF h1] c Cons.prems(2) b3(1))
  then show ?case using Cons.IH [of "m\<lparr>msg_attrs := msg_attrs m @ [a]\<rparr>" b3] Cons.prems(1,2) b3(2) by simp
qed

end

interpretation attr: attribute_codec h tid "attr_ok tid" "attr_body tid"
  by unfold_locales (simp_all add: StunAttribute_Write_appends StunAttribute_Read_body length_attr_body)

section \<open>Writing and reading a message\<close>

text \<open>A message that can be written: a valid transaction id, and attributes as their operations leave them, each of
  the kind that the class of the message knows for its type.\<close>

definition attrs_ok :: "stun_message \<Rightarrow> bool" where
  "attrs_ok m \<longleftrightarrow> IsValidTransactionId (msg_tid m) \<and>
     list_all (\<lambda>a. attr_ok (msg_tid m) a \<and>
       value_type (at_value a) = GetAttributeValueType (msg_class m) (uint (at_type a))) (msg_attrs m)"

text \<open>The length field counts the bytes behind the header.\<close>

definition length_ok :: "stun_message \<Rightarrow> bool" where
  "length_ok m \<longleftrightarrow> unat (msg_length m) = length (attrs_bytes (msg_tid m) (msg_attrs m))"

lemma length_header: "IsValidTransactionId (msg_tid m) \<Longrightarrow> length (header_bytes m) = 20"
  by (auto simp: header_bytes_def IsValidTransactionId_def IsLegacy_def kStunTransactionIdLength_def kStunLegacyTransactionIdLength_def)

lemma Message_Write_bytes:
  assumes "attrs_ok m" "net b"
  shows "\<exists>b'. Message_Write h m b = Some (True, b') \<and> appends b b' (message_bytes m)"
proof -
  define b1 where "b1 = WriteUInt16 h (msg_length m) (WriteUInt16 h (msg_type m) b)"
  define b2 where "b2 = (if \<not> IsLegacy m then WriteUInt32 h kStunMagicCookie b1 else b1)"
  define b3 where "b3 = WriteString (msg_tid m) b2"
  have b1: "appends b b1 (be16 (msg_type m) @ be16 (msg_length m))"
    using appends_writes(2) [OF appends_writes(2) [OF appends_refl [OF assms(2)]], of h "msg_length m" h "msg_type m"] by (simp add: b1_def)
  have b2: "appends b b2 (be16 (msg_type m) @ be16 (msg_length m) @ (if IsLegacy m then [] else be32 kStunMagicCookie))"
    using b1 appends_writes(3) [OF b1, of h kStunMagicCookie] by (simp add: b2_def)
  have b3: "appends b b3 (header_bytes m)"
    using appends_writes(5) [OF b2, of "msg_tid m"] by (simp add: b3_def header_bytes_def)
  then have "net b3" by (simp add: appends_def)
  moreover have "\<forall>a \<in> set (msg_attrs m). attr_ok (msg_tid m) a" using assms(1) by (simp add: attrs_ok_def list_all_iff)
  ultimately obtain b4 where b4: "write_attrs h (msg_tid m) (msg_attrs m) b3 = Some (True, b4)"
    "appends b3 b4 (attrs_bytes (msg_tid m) (msg_attrs m))"
    using attr.write_attrs_appends unfolding attrs_bytes_def by blast
  have "Message_Write h m b = Some (True, b4)" unfolding Message_Write_def Let_def b1_def [symmetric] b2_def [symmetric] b3_def [symmetric] by (rule b4(1))
  then show ?thesis using b3 b4(2) by (simp add: appends_def message_bytes_def)
qed

text \<open>What reading makes of a packet: the header, and the attributes behind it.\<close>

lemma Message_Read_header:
  assumes "holds b (be16 ty @ be16 len @ cookie @ tid @ r)" "length cookie = 4" "length tid = 12" "ty AND 0x8000 = 0"
    "unat len = length r"
  defines "full_id \<equiv> (if cookie = be32 kStunMagicCookie then tid else cookie @ tid)"
  shows "\<exists>b'. holds b' r \<and> Message_Read h m b =
    read_attrs h 0 (m\<lparr>msg_type := ty, msg_length := len, msg_tid := full_id, msg_attrs := []\<rparr>) b'"
proof -
  note h0 = assms(1)
  have h1: "holds (advance 2 b) (be16 len @ cookie @ tid @ r)" using holds_advance [OF h0] by simp
  have h2: "holds (advance 2 (advance 2 b)) (cookie @ tid @ r)" using holds_advance [OF h1] by simp
  have h3: "holds (advance 4 (advance 2 (advance 2 b))) (tid @ r)" using holds_advance [OF h2 assms(2)] by simp
  have h4: "holds (advance 12 (advance 4 (advance 2 (advance 2 b)))) r" using holds_advance [OF h3 assms(3)] by simp
  let ?b = "advance 12 (advance 4 (advance 2 (advance 2 b)))"
  have len: "Length ?b = unat len" using h4 length_Contents [of ?b] assms(5) by (simp add: holds_def)
  have cookie: "NetworkToHost32 h (host_load32 h cookie) = kStunMagicCookie \<longleftrightarrow> cookie = be32 kStunMagicCookie"
    using assms(2) big32.dec_eq_iff [of cookie kStunMagicCookie] by simp
  have "Message_Read h m b = read_attrs h 0 (m\<lparr>msg_type := ty, msg_length := len, msg_tid := full_id, msg_attrs := []\<rparr>) ?b"
    unfolding Message_Read_def kStunMagicCookieLength_def kStunTransactionIdLength_def try_read_u16 [OF h0] Let_def
      try_read_u16 [OF h1] try_read_string [OF h2 assms(2)] try_read_string [OF h3 assms(3)]
    using assms(4) len by (simp add: full_id_def cookie)
  with h4 show ?thesis by blast
qed

lemma header_parts:
  assumes "IsValidTransactionId (msg_tid m)" "IsLegacy m \<Longrightarrow> take 4 (msg_tid m) \<noteq> be32 kStunMagicCookie"
  obtains cookie tid where "header_bytes m = be16 (msg_type m) @ be16 (msg_length m) @ cookie @ tid" "length cookie = 4"
    "length tid = 12" "(if cookie = be32 kStunMagicCookie then tid else cookie @ tid) = msg_tid m"
proof (cases "IsLegacy m")
  case True
  then have "length (msg_tid m) = 16" by (simp add: IsLegacy_def kStunLegacyTransactionIdLength_def)
  then show thesis using True assms(2) by (intro that [of "take 4 (msg_tid m)" "drop 4 (msg_tid m)"]) (simp_all add: header_bytes_def)
next
  case False
  then have "length (msg_tid m) = 12"
    using assms(1) by (simp add: IsLegacy_def IsValidTransactionId_def kStunTransactionIdLength_def)
  then show thesis using False by (intro that [of "be32 kStunMagicCookie" "msg_tid m"]) (simp_all add: header_bytes_def)
qed

lemma Message_Read_bytes:
  assumes "attrs_ok m" "length_ok m" "msg_type m AND 0x8000 = 0" "IsLegacy m \<Longrightarrow> take 4 (msg_tid m) \<noteq> be32 kStunMagicCookie"
    "msg_class m0 = msg_class m" "holds b (message_bytes m)"
  shows "\<exists>b'. Message_Read h m0 b = (True, m, b') \<and> holds b' []"
proof -
  let ?r = "attrs_bytes (msg_tid m) (msg_attrs m)"
  have tid: "IsValidTransactionId (msg_tid m)" using assms(1) by (simp add: attrs_ok_def)
  from header_parts [OF tid assms(4)] obtain cookie tid where hd: "header_bytes m = be16 (msg_type m) @ be16 (msg_length m) @ cookie @ tid"
    "length cookie = 4" "length tid = 12" "(if cookie = be32 kStunMagicCookie then tid else cookie @ tid) = msg_tid m" by blast
  have "holds b (be16 (msg_type m) @ be16 (msg_length m) @ cookie @ tid @ ?r)" using assms(6) by (simp add: message_bytes_def hd(1))
  from Message_Read_header [OF this hd(2,3) assms(3)] assms(2) obtain b1 where b1: "holds b1 ?r"
    "Message_Read h m0 b = read_attrs h 0 (m0\<lparr>msg_type := msg_type m, msg_length := msg_length m, msg_tid := msg_tid m, msg_attrs := []\<rparr>) b1"
    by (auto simp: length_ok_def hd(4))
  have "\<exists>b'. read_attrs h 0 (m0\<lparr>msg_type := msg_type m, msg_length := msg_length m, msg_tid := msg_tid m, msg_attrs := []\<rparr>) b1 =
      (True, m0\<lparr>msg_type := msg_type m, msg_length := msg_length m, msg_tid := msg_tid m, msg_attrs := [] @ msg_attrs m\<rparr>, b') \<and> holds b' []"
    using attr.read_attrs_back [of "msg_attrs m" "msg_tid m" "m0\<lparr>msg_type := msg_type m, msg_length := msg_length m, msg_tid := msg_tid m, msg_attrs := []\<rparr>" b1 h]
      assms(1,5) b1(1) by (simp add: attrs_ok_def list_all_iff attrs_bytes_def)
  moreover have "m0\<lparr>msg_type := msg_type m, msg_length := msg_length m, msg_tid := msg_tid m, msg_attrs := msg_attrs m\<rparr> = m"
    using assms(5) by (cases m; cases m0) simp
  ultimately show ?thesis using b1(2) by simp
qed

section \<open>Adding attributes\<close>

lemma attrs_bytes_snoc: "attrs_bytes tid (as @ [a]) = attrs_bytes tid as @ framed (attr_body tid) a"
  by (simp add: attrs_bytes_def)

lemma SetOwner_fields [simp]: "at_type (SetOwner a) = at_type a" "at_length (SetOwner a) = at_length a"
  "value_type (at_value (SetOwner a)) = value_type (at_value a)"
  by (simp_all add: SetOwner_def split: stun_value.split)

lemma AddAttribute_known:
  "value_type (at_value a) = GetAttributeValueType (msg_class m) (uint (at_type a)) \<Longrightarrow>
   AddAttribute a m = (True, m\<lparr>msg_attrs := msg_attrs m @ [SetOwner a],
     msg_length := msg_length m + word_of_nat (padded (unat (at_length a)) + 4)\<rparr>)"
  by (simp add: AddAttribute_def padded_def Let_def)

lemma length_framed: "attr_ok tid a \<Longrightarrow> length (framed (attr_body tid) a) = 4 + padded (unat (at_length a))"
  by (simp add: framed_def length_attr_body)

lemma unat_add_word: "unat (l :: u16) + n < 65536 \<Longrightarrow> unat (l + word_of_nat n) = unat l + n"
  by (simp add: unat_word_ariths unat_of_nat_lt)

lemma AddAttribute_keeps:
  assumes "attrs_ok m" "length_ok m" "attr_ok (msg_tid m) (SetOwner a)"
    "value_type (at_value a) = GetAttributeValueType (msg_class m) (uint (at_type a))"
    "unat (msg_length m) + 4 + padded (unat (at_length a)) < 65536"
  shows "attrs_ok (snd (AddAttribute a m)) \<and> length_ok (snd (AddAttribute a m))"
proof -
  have "length (framed (attr_body (msg_tid m)) (SetOwner a)) = 4 + padded (unat (at_length a))"
    using length_framed [OF assms(3)] by simp
  moreover have "unat (msg_length m + word_of_nat (padded (unat (at_length a)) + 4)) = unat (msg_length m) + (padded (unat (at_length a)) + 4)"
    using assms(5) by (intro unat_add_word) simp
  ultimately show ?thesis using assms(1-4)
    by (simp add: AddAttribute_known attrs_ok_def length_ok_def attrs_bytes_snoc)
qed

lemma length_attrs_mod4: "list_all (attr_ok tid) as \<Longrightarrow> length (attrs_bytes tid as) mod 4 = 0"
proof (induction as rule: rev_induct)
  case (snoc a as)
  then have "length (attrs_bytes tid as) mod 4 = 0" "padded (unat (at_length a)) mod 4 = 0" by (simp_all add: padded_mod4)
  with snoc.prems show ?case by (simp add: attrs_bytes_snoc length_framed mod_add_eq)
     (metis add.right_neutral mod_add_left_eq mod_add_self1 mod_mod_trivial)
qed (simp add: attrs_bytes_def)

end
