(* ===== verification/Stun_Props.thy ===== *)
theory Stun_Props
  imports Stun_Message
begin

text \<open>
  The properties of STUN messages: the MESSAGE-INTEGRITY and FINGERPRINT attributes against the HMAC and the
  checksum they are defined by, and the statements about whole messages.
\<close>

section \<open>Finding the integrity attribute\<close>

lemma mem_read_at: "length u = n \<Longrightarrow> length v = k \<Longrightarrow> mem_read (u @ v @ r) n k = v"
  by (simp add: mem_read_def)

lemma find_integrity_header:
  assumes "data = pre @ framed body a @ r" "current_pos = length pre"
  shows "current_pos < length data" "GetBE16 (mem_read data current_pos 2) = at_type a"
    "GetBE16 (mem_read data (current_pos + 2) 2) = at_length a"
proof -
  have d: "data = pre @ be16 (at_type a) @ be16 (at_length a) @ body a @ r" using assms(1) by (simp add: framed_def)
  show "current_pos < length data" by (simp add: d assms(2))
  show "GetBE16 (mem_read data current_pos 2) = at_type a" unfolding d assms(2) by (subst mem_read_at) simp_all
  show "GetBE16 (mem_read data (current_pos + 2) 2) = at_length a"
    unfolding d assms(2) using mem_read_at [of "pre @ be16 (at_type a)" "length pre + 2" "be16 (at_length a)" 2 "body a @ r"] by simp
qed

lemma find_integrity_step:
  assumes "data = pre @ framed body a @ r"
  shows "find_integrity data (length pre) =
    (if uint (at_type a) = STUN_ATTR_MESSAGE_INTEGRITY
     then if unat (at_length a) \<noteq> kStunMessageIntegritySize \<or> length pre + unat (at_length a) > length data then None else Some (length pre)
     else find_integrity data (length pre + 2 + 2 + unat (at_length a) +
       (if unat (at_length a) mod 4 \<noteq> 0 then 4 - unat (at_length a) mod 4 else 0)))"
  using find_integrity_header(1) [OF assms refl]
  by (subst find_integrity.simps) (simp only: Let_def find_integrity_header(2,3) [OF assms refl] if_True)

lemma find_integrity_skips:
  assumes "list_all (\<lambda>a. attr_ok tid a \<and> uint (at_type a) \<noteq> STUN_ATTR_MESSAGE_INTEGRITY) as"
  shows "find_integrity (pre @ attrs_bytes tid as @ r) (length pre) =
    find_integrity (pre @ attrs_bytes tid as @ r) (length pre + length (attrs_bytes tid as))"
  using assms
proof (induction as arbitrary: pre)
  case (Cons a as)
  let ?f = "framed (attr_body tid) a"
  define data where "data = pre @ attrs_bytes tid (a # as) @ r"
  have split: "data = pre @ ?f @ attrs_bytes tid as @ r" "data = (pre @ ?f) @ attrs_bytes tid as @ r"
    by (simp_all add: attrs_bytes_def data_def)
  have a: "attr_ok tid a" "uint (at_type a) \<noteq> STUN_ATTR_MESSAGE_INTEGRITY" using Cons.prems by simp_all
  have pos: "length pre + 2 + 2 + unat (at_length a) + (if unat (at_length a) mod 4 \<noteq> 0 then 4 - unat (at_length a) mod 4 else 0) =
      length (pre @ ?f)"
    using length_framed [OF a(1)] by (simp add: padded_def)
  have "find_integrity data (length pre) = find_integrity data (length (pre @ ?f))"
    unfolding find_integrity_step [OF split(1)] pos using a(2) by simp
  also have "\<dots> = find_integrity data (length (pre @ ?f) + length (attrs_bytes tid as))"
    using Cons.IH [of "pre @ ?f"] Cons.prems unfolding split(2) by simp
  also have "length (pre @ ?f) + length (attrs_bytes tid as) = length pre + length (attrs_bytes tid (a # as))"
    by (simp add: attrs_bytes_def)
  finally show ?case unfolding data_def .
qed (simp add: attrs_bytes_def)

definition integrity_attr :: "byte list \<Rightarrow> stun_attribute" where
  "integrity_attr mac = StunByteStringAttribute_of (word_of_int STUN_ATTR_MESSAGE_INTEGRITY) mac"

lemma integrity_attr_fields [simp]:
  "length mac = 20 \<Longrightarrow> at_length (integrity_attr mac) = 20" "uint (at_type (integrity_attr mac)) = STUN_ATTR_MESSAGE_INTEGRITY"
  "at_value (integrity_attr mac) = ByteStringValue (Some mac)" "at_type (integrity_attr mac) = 8"
  by (simp_all add: integrity_attr_def StunByteStringAttribute_of_def CopyBytes_def SetBytes_def SetLength_def
      StunByteStringAttribute_def STUN_ATTR_MESSAGE_INTEGRITY_def)

lemma integrity_attr_ok: "length mac = 20 \<Longrightarrow> attr_ok tid (integrity_attr mac)"
  by (simp add: attr_ok_def)

lemma integrity_bytes: "length mac = 20 \<Longrightarrow> framed (attr_body tid) (integrity_attr mac) = be16 8 @ be16 20 @ mac"
  by (simp add: framed_def attr_body_def padding_def)

lemma find_integrity_finds:
  assumes "list_all (\<lambda>a. attr_ok tid a \<and> uint (at_type a) \<noteq> STUN_ATTR_MESSAGE_INTEGRITY) as" "length pre = 20" "length mac = 20"
  shows "find_integrity (pre @ attrs_bytes tid as @ framed (attr_body tid) (integrity_attr mac) @ rest) 20 =
    Some (20 + length (attrs_bytes tid as))"
proof -
  let ?p = "pre @ attrs_bytes tid as" and ?f = "framed (attr_body tid) (integrity_attr mac)"
  have "length ?f = 24" using assms(3) by (simp add: integrity_bytes)
  then have "find_integrity (?p @ ?f @ rest) (length ?p) = Some (length ?p)"
    unfolding find_integrity_step [OF refl] using assms(3) by (simp add: kStunMessageIntegritySize_def del: integrity_attr_fields(4))
  then show ?thesis using find_integrity_skips [OF assms(1), of pre "?f @ rest"] assms(2) by simp
qed

text \<open>The header with another length field.\<close>

definition with_length :: "u16 \<Rightarrow> stun_message \<Rightarrow> stun_message" where
  "with_length l m = m\<lparr>msg_length := l\<rparr>"

definition mac_input :: "stun_message \<Rightarrow> stun_attribute list \<Rightarrow> byte list" where
  "mac_input m as = header_bytes (with_length (word_of_nat (length (attrs_bytes (msg_tid m) as) + 24)) m) @ attrs_bytes (msg_tid m) as"

lemma header_length_field:
  "header_bytes m = be16 (msg_type m) @ be16 (msg_length m) @ drop 4 (header_bytes m)"
  "drop 4 (header_bytes (with_length l m)) = drop 4 (header_bytes m)"
  by (simp_all add: header_bytes_def with_length_def IsLegacy_def)

lemma write_length_field:
  "mem_write (header_bytes m @ v) 2 (be16 l) = header_bytes (with_length l m) @ v"
  by (simp add: mem_write_def header_bytes_def with_length_def IsLegacy_def)

text \<open>For a packet of well-formed attributes with one integrity attribute among them and any further bytes behind it,
  validation compares the attribute with the HMAC of what is before it, under a header whose length ends with the
  attribute.\<close>

lemma ValidateMessageIntegrity_spec:
  assumes "attrs_ok m" "list_all (\<lambda>a. uint (at_type a) \<noteq> STUN_ATTR_MESSAGE_INTEGRITY) (msg_attrs m)" "length mac = 20"
    "length rest mod 4 = 0" "length (attrs_bytes (msg_tid m) (msg_attrs m)) + 24 + length rest < 65536"
    "unat (msg_length m) = length (attrs_bytes (msg_tid m) (msg_attrs m)) + 24 + length rest"
  shows "ValidateMessageIntegrity h (message_bytes m @ framed (attr_body (msg_tid m)) (integrity_attr mac) @ rest) password =
    Some (mac = rfc2104 fips_sha1 password (mac_input m (msg_attrs m)))"
proof -
  let ?tid = "msg_tid m" and ?A = "attrs_bytes (msg_tid m) (msg_attrs m)"
  let ?f = "framed (attr_body ?tid) (integrity_attr mac)"
  define data where "data = header_bytes m @ ?A @ ?f @ rest"
  have d: "message_bytes m @ ?f @ rest = data" by (simp add: data_def message_bytes_def)
  have ok: "list_all (\<lambda>a. attr_ok ?tid a \<and> uint (at_type a) \<noteq> STUN_ATTR_MESSAGE_INTEGRITY) (msg_attrs m)" "list_all (attr_ok ?tid) (msg_attrs m)"
    and hd: "length (header_bytes m) = 20"
    using assms(1,2) length_header [of m] by (auto simp: attrs_ok_def list_all_iff)
  have lf: "length ?f = 24" using assms(3) by (simp add: integrity_bytes)
  have len: "length data = 20 + length ?A + 24 + length rest" by (simp add: data_def hd lf)
  obtain q1 q2 where "length ?A = 4 * q1" "length rest = 4 * q2"
    using length_attrs_mod4 [OF ok(2)] assms(4) unfolding mod_eq_0_iff_dvd by (elim dvdE)
  then have mod4: "length data mod 4 = 0" by (simp add: len mod_add_eq)
  have size: "length data = unat (msg_length m) + 20" using len assms(6) by simp
  have "data = (be16 (msg_type m) @ be16 (msg_length m)) @ drop 4 (header_bytes m) @ ?A @ ?f @ rest"
    unfolding data_def by (subst header_length_field(1)) simp
  then have l: "GetBE16 (mem_read data 2 2) = msg_length m"
    using mem_read_at [of "be16 (msg_type m)" 2 "be16 (msg_length m)" 2] by simp
  have find: "find_integrity data 20 = Some (20 + length ?A)"
    unfolding data_def by (rule find_integrity_finds [OF ok(1) hd assms(3)])
  have pre: "mem_read data 0 (20 + length ?A) = header_bytes m @ ?A" by (simp add: data_def mem_read_def hd)
  have mac: "mem_read data (20 + length ?A + 4) 20 = mac"
    using mem_read_at [of "header_bytes m @ ?A @ be16 8 @ be16 20" "20 + length ?A + 4" mac 20 rest] assms(3) hd
    by (simp add: data_def integrity_bytes)
  have temp: "(if length data > 20 + length ?A + 4 + 20
      then mem_write (header_bytes m @ ?A) 2 (SetBE16 (replicate 2 0)
        (word_of_nat (length data - (length data - (20 + length ?A + 4 + 20)) - 20)))
      else header_bytes m @ ?A) = mac_input m (msg_attrs m)"
  proof (cases "rest = []")
    case True
    then have "msg_length m = word_of_nat (length ?A + 24)" using assms(6) by (metis add.right_neutral list.size(3) of_nat_unat_id)
    then have "with_length (word_of_nat (length ?A + 24)) m = m" by (simp add: with_length_def)
    with True show ?thesis by (simp add: len mac_input_def)
  next
    case False
    then show ?thesis by (simp add: len SetBE_bytes write_length_field mac_input_def add.commute)
  qed
  let ?mac = "rfc2104 fips_sha1 password (mac_input m (msg_attrs m))"
  have len': "length ?mac = 20" by (simp add: rfc2104_def length_fips_sha1)
  then have "mem_write (replicate 20 0) 0 ?mac = ?mac" by (simp add: mem_write_def)
  moreover have "\<not> length data < 4" "\<not> 20 + length ?A + 4 + 20 > length data" using len by simp_all
  ultimately have "ValidateMessageIntegrity h data password = Some (memcmp mac ?mac = 0)"
    unfolding ValidateMessageIntegrity_def Let_def kStunHeaderSize_def kStunAttributeHeaderSize_def kStunMessageIntegritySize_def
      find option.case pre temp hmac_alg mac l using mod4 size by simp
  then show ?thesis using memcmp_zero [of mac ?mac] len' assms(3) by (simp add: d)
qed

section \<open>Adding the two attributes\<close>

lemma known_attributes:
  "GetAttributeValueType c STUN_ATTR_MESSAGE_INTEGRITY = STUN_VALUE_BYTE_STRING"
  "GetAttributeValueType c STUN_ATTR_FINGERPRINT = STUN_VALUE_UINT32"
  by (cases c; simp add: GetAttributeValueType_def StunMessage_GetAttributeValueType_def RelayMessage_GetAttributeValueType_def
      TurnMessage_GetAttributeValueType_def IceMessage_GetAttributeValueType_def STUN_ATTR_MESSAGE_INTEGRITY_def STUN_ATTR_FINGERPRINT_def
      STUN_ATTR_LIFETIME_def STUN_ATTR_MAGIC_COOKIE_def STUN_ATTR_BANDWIDTH_def STUN_ATTR_DESTINATION_ADDRESS_def
      STUN_ATTR_SOURCE_ADDRESS2_def STUN_ATTR_DATA_def STUN_ATTR_OPTIONS_def STUN_ATTR_CHANNEL_NUMBER_def STUN_ATTR_TURN_LIFETIME_def
      STUN_ATTR_XOR_PEER_ADDRESS_def STUN_ATTR_XOR_RELAYED_ADDRESS_def STUN_ATTR_EVEN_PORT_def STUN_ATTR_REQUESTED_TRANSPORT_def
      STUN_ATTR_DONT_FRAGMENT_def STUN_ATTR_RESERVATION_TOKEN_def STUN_ATTR_PRIORITY_def STUN_ATTR_USE_CANDIDATE_def
      STUN_ATTR_ICE_CONTROLLED_def STUN_ATTR_ICE_CONTROLLING_def STUN_ATTR_MAPPED_ADDRESS_def STUN_ATTR_USERNAME_def
      STUN_ATTR_ERROR_CODE_def STUN_ATTR_UNKNOWN_ATTRIBUTES_def STUN_ATTR_REALM_def STUN_ATTR_NONCE_def
      STUN_ATTR_XOR_MAPPED_ADDRESS_def STUN_ATTR_SOFTWARE_def STUN_ATTR_ALTERNATE_SERVER_def)+

definition fingerprint_attr :: "u32 \<Rightarrow> stun_attribute" where
  "fingerprint_attr v = StunUInt32Attribute_of (word_of_int STUN_ATTR_FINGERPRINT) v"

lemma fingerprint_attr_fields [simp]:
  "at_length (fingerprint_attr v) = 4" "uint (at_type (fingerprint_attr v)) = STUN_ATTR_FINGERPRINT"
  "at_value (fingerprint_attr v) = UInt32Value v" "at_type (fingerprint_attr v) = 0x8028"
  by (simp_all add: fingerprint_attr_def StunUInt32Attribute_of_def UInt32_SIZE_def STUN_ATTR_FINGERPRINT_def)

lemma fingerprint_bytes: "framed (attr_body tid) (fingerprint_attr v) = be16 0x8028 @ be16 4 @ be32 v"
  by (simp add: framed_def attr_body_def)

lemma fingerprint_attr_ok: "attr_ok tid (fingerprint_attr v)"
  by (simp add: attr_ok_def UInt32_SIZE_def)

lemma SetOwner_other [simp]: "SetOwner (integrity_attr mac) = integrity_attr mac" "SetOwner (fingerprint_attr v) = fingerprint_attr v"
  by (simp_all add: SetOwner_def)

text \<open>The message with one more attribute, and the bytes it is written as.\<close>

definition with_attr :: "stun_attribute \<Rightarrow> u16 \<Rightarrow> stun_message \<Rightarrow> stun_message" where
  "with_attr a l m = m\<lparr>msg_attrs := msg_attrs m @ [a], msg_length := msg_length m + l\<rparr>"

lemma message_bytes_with_attr:
  "message_bytes (with_attr a l m) =
     header_bytes (with_length (msg_length m + l) m) @ attrs_bytes (msg_tid m) (msg_attrs m) @ framed (attr_body (msg_tid m)) a"
  by (simp add: message_bytes_def with_attr_def header_bytes_def with_length_def IsLegacy_def attrs_bytes_snoc)

lemma with_attr_ok:
  assumes "attrs_ok m" "length_ok m" "attr_ok (msg_tid m) a"
    "value_type (at_value a) = GetAttributeValueType (msg_class m) (uint (at_type a))"
    "unat (msg_length m) + n < 65536" "length (framed (attr_body (msg_tid m)) a) = n" "l = word_of_nat n"
  shows "attrs_ok (with_attr a l m)" "length_ok (with_attr a l m)"
  using assms(1-6) unat_add_word [OF assms(5)] unfolding assms(7)
  by (simp_all add: with_attr_def attrs_ok_def length_ok_def attrs_bytes_snoc)

lemma written_prefix:
  assumes "attrs_ok (with_attr a l m)" "length (framed (attr_body (msg_tid m)) a) = k + 4"
  shows "\<exists>b. Message_Write h (with_attr a l m) ByteBuffer_new = Some (True, b) \<and>
    take (Length b - 4 - k) (Contents b) =
      header_bytes (with_length (msg_length m + l) m) @ attrs_bytes (msg_tid m) (msg_attrs m)"
proof -
  obtain b where b: "Message_Write h (with_attr a l m) ByteBuffer_new = Some (True, b)" "appends ByteBuffer_new b (message_bytes (with_attr a l m))"
    using Message_Write_bytes [OF assms(1), of ByteBuffer_new h] by auto
  then have c: "Contents b = message_bytes (with_attr a l m)" "buffer_ok b" by (simp_all add: appends_def)
  then have "Length b = length (message_bytes (with_attr a l m))" using length_Contents [OF c(2)] by simp
  then show ?thesis using b(1) assms(2) by (simp add: c(1) message_bytes_with_attr)
qed

lemma integrity_room:
  assumes "attrs_ok m" "length_ok m" "unat (msg_length m) + 24 < 65536" "length mac = 20"
  shows "attrs_ok (with_attr (integrity_attr mac) 24 m)" "length_ok (with_attr (integrity_attr mac) 24 m)"
  using with_attr_ok [OF assms(1,2) integrity_attr_ok [OF assms(4)] _ assms(3), of 24] assms(4)
  by (simp_all add: integrity_bytes known_attributes del: integrity_attr_fields(4))

lemma fingerprint_room:
  assumes "attrs_ok m" "length_ok m" "unat (msg_length m) + 8 < 65536"
  shows "attrs_ok (with_attr (fingerprint_attr v) 8 m)" "length_ok (with_attr (fingerprint_attr v) 8 m)"
  using with_attr_ok [OF assms(1,2) fingerprint_attr_ok _ assms(3), of v 8]
  by (simp_all add: fingerprint_bytes known_attributes del: fingerprint_attr_fields(4))

lemma AddMessageIntegrity_result:
  assumes "attrs_ok m" "length_ok m" "unat (msg_length m) + 24 < 65536"
  shows "AddMessageIntegrity h key m =
    Some (True, with_attr (integrity_attr (rfc2104 fips_sha1 key (mac_input m (msg_attrs m)))) 24 m)"
proof -
  let ?a = "integrity_attr (replicate 20 48)" and ?mac = "rfc2104 fips_sha1 key (mac_input m (msg_attrs m))"
  have add: "AddAttribute ?a m = (True, with_attr ?a 24 m)"
    by (subst AddAttribute_known) (simp_all add: known_attributes with_attr_def padded_def del: integrity_attr_fields(4))
  obtain b where b: "Message_Write h (with_attr ?a 24 m) ByteBuffer_new = Some (True, b)"
    "take (Length b - 4 - 20) (Contents b) = header_bytes (with_length (msg_length m + 24) m) @ attrs_bytes (msg_tid m) (msg_attrs m)"
    using written_prefix [OF integrity_room(1) [OF assms], of "replicate 20 48" 20 h] by (auto simp: integrity_bytes)
  have "msg_length m + 24 = word_of_nat (length (attrs_bytes (msg_tid m) (msg_attrs m)) + 24)"
    using assms(2) unfolding length_ok_def by (metis of_nat_add of_nat_numeral of_nat_unat_id)
  then have input: "take (Length b - 4 - 20) (Contents b) = mac_input m (msg_attrs m)" unfolding b(2) mac_input_def by (simp only:)
  have mac: "mem_write (replicate 20 0) 0 ?mac = ?mac" by (simp add: mem_write_def rfc2104_def length_fips_sha1)
  have last: "last (msg_attrs (with_attr ?a 24 m)) = ?a" "butlast (msg_attrs (with_attr ?a 24 m)) = msg_attrs m"
    by (simp_all add: with_attr_def)
  have copy: "CopyBytes ?mac ?a = integrity_attr ?mac"
    by (simp add: integrity_attr_def StunByteStringAttribute_of_def CopyBytes_def SetBytes_def SetLength_def)
  have "StunByteStringAttribute_of (word_of_int STUN_ATTR_MESSAGE_INTEGRITY) (replicate 20 48) = ?a" by (simp add: integrity_attr_def)
  then show ?thesis
    unfolding AddMessageIntegrity_def Let_def kStunMessageIntegritySize_def kStunAttributeHeaderSize_def
    by (simp only: add prod.case b(1) option.case last copy hmac_alg integrity_attr_fields(1) length_replicate mac)
      (use input in \<open>simp add: mac copy with_attr_def del: integrity_attr_fields(4)\<close>)
qed

lemma AddFingerprint_result:
  assumes "attrs_ok m" "length_ok m" "unat (msg_length m) + 8 < 65536"
  shows "AddFingerprint h m = Some (True, with_attr (fingerprint_attr (ComputeCrc32 (header_bytes (with_length (msg_length m + 8) m) @
    attrs_bytes (msg_tid m) (msg_attrs m)) XOR STUN_FINGERPRINT_XOR_VALUE)) 8 m)"
proof -
  let ?a = "fingerprint_attr 0"
  have add: "AddAttribute ?a m = (True, with_attr ?a 8 m)"
    by (subst AddAttribute_known) (simp_all add: known_attributes with_attr_def padded_def del: fingerprint_attr_fields(4))
  obtain b where b: "Message_Write h (with_attr ?a 8 m) ByteBuffer_new = Some (True, b)"
    "take (Length b - 4 - 4) (Contents b) = header_bytes (with_length (msg_length m + 8) m) @ attrs_bytes (msg_tid m) (msg_attrs m)"
    using written_prefix [OF fingerprint_room(1) [OF assms], of 0 4 h] by (auto simp: fingerprint_bytes)
  have last: "last (msg_attrs (with_attr ?a 8 m)) = ?a" "butlast (msg_attrs (with_attr ?a 8 m)) = msg_attrs m"
    by (simp_all add: with_attr_def)
  have set: "UInt32_SetValue v ?a = fingerprint_attr v" for v
    by (simp add: fingerprint_attr_def StunUInt32Attribute_of_def UInt32_SetValue_def)
  have "StunUInt32Attribute_of (word_of_int STUN_ATTR_FINGERPRINT) 0 = ?a" by (simp add: fingerprint_attr_def)
  then show ?thesis
    unfolding AddFingerprint_def Let_def kStunAttributeHeaderSize_def
    by (simp only: add prod.case b(1) option.case last set fingerprint_attr_fields(1))
      (use b(2) in \<open>simp add: with_attr_def del: fingerprint_attr_fields(4)\<close>)
qed

lemma UInt32_SIZE_nat: "unat UInt32_SIZE = 4"
  by (simp add: UInt32_SIZE_def)

lemma ValidateFingerprint_spec:
  assumes "length pre mod 4 = 0" "20 \<le> length pre" "mem_read pre 4 4 = be32 kStunMagicCookie"
  shows "ValidateFingerprint (pre @ framed (attr_body tid) (fingerprint_attr v)) \<longleftrightarrow>
    v XOR STUN_FINGERPRINT_XOR_VALUE = ComputeCrc32 pre"
proof -
  define data where "data = pre @ be16 0x8028 @ be16 4 @ be32 v"
  have len: "length data = length pre + 8" by (simp add: data_def)
  have mod: "length data mod 4 = 0" using assms(1) by (simp add: len mod_add_eq [symmetric])
  have "mem_read data 4 4 = mem_read pre 4 4" using assms(2) by (simp add: data_def mem_read_def)
  then have cookie: "GetBE32 (mem_read data 4 4) = kStunMagicCookie" by (simp add: assms(3))
  have ty: "GetBE16 (mem_read data (length pre) 2) = 0x8028" unfolding data_def by (subst mem_read_at) simp_all
  have l: "GetBE16 (mem_read data (length pre + 2) 2) = 4"
    using mem_read_at [of "pre @ be16 0x8028" "length pre + 2" "be16 4" 2 "be32 v"] by (simp add: data_def)
  have val: "GetBE32 (mem_read data (length pre + 4) 4) = v"
    using mem_read_at [of "pre @ be16 0x8028 @ be16 4" "length pre + 4" "be32 v" 4 "[]"] by (simp add: data_def)
  have pos: "length data - (4 + 4) = length pre" by (simp add: len)
  have "ValidateFingerprint data \<longleftrightarrow> v XOR STUN_FINGERPRINT_XOR_VALUE = ComputeCrc32 (take (length pre) data)"
    unfolding ValidateFingerprint_def Let_def kStunAttributeHeaderSize_def kStunHeaderSize_def kStunTransactionIdOffset_def
      kStunMagicCookieLength_def UInt32_SIZE_nat pos ty l val
    using mod len cookie assms(2) by (simp add: STUN_ATTR_FINGERPRINT_def UInt32_SIZE_def)
  then show ?thesis by (simp add: fingerprint_bytes data_def)
qed

text \<open>A validated packet ends in the attribute with the checksum of what is before it.\<close>

lemma ValidateFingerprint_shape:
  assumes "ValidateFingerprint data"
  obtains pre v where "data = pre @ be16 0x8028 @ be16 4 @ be32 v" "length pre mod 4 = 0" "20 \<le> length pre"
    "mem_read pre 4 4 = be32 kStunMagicCookie"
    "v XOR STUN_FINGERPRINT_XOR_VALUE = ComputeCrc32 pre"
proof -
  define n where "n = length data - 8"
  define v where "v = GetBE32 (mem_read data (n + 4) 4)"
  let ?pre = "take n data"
  have f: "length data mod 4 = 0" "28 \<le> length data" "GetBE32 (mem_read data 4 4) = kStunMagicCookie"
    "uint (GetBE16 (mem_read data n 2)) = 0x8028" "GetBE16 (mem_read data (n + 2) 2) = 4"
    "v XOR STUN_FINGERPRINT_XOR_VALUE = ComputeCrc32 ?pre"
    using assms unfolding ValidateFingerprint_def Let_def kStunAttributeHeaderSize_def kStunHeaderSize_def kStunTransactionIdOffset_def
      kStunMagicCookieLength_def UInt32_SIZE_nat by (auto simp: n_def v_def STUN_ATTR_FINGERPRINT_def UInt32_SIZE_def split: if_splits)
  have n: "n + 8 = length data" "20 \<le> n" using f(2) by (auto simp: n_def)
  have b: "mem_read data n 2 = be16 0x8028" "mem_read data (n + 2) 2 = be16 4" "mem_read data (n + 4) 4 = be32 v"
  proof -
    have "GetBE16 (mem_read data n 2) = 0x8028" using f(4) by (metis word_of_int_uint word_of_int_numeral)
    then show "mem_read data n 2 = be16 0x8028" using n by (subst big16.dec_eq_iff [symmetric]) (simp_all add: length_mem_read)
    show "mem_read data (n + 2) 2 = be16 4" using n f(5) by (subst big16.dec_eq_iff [symmetric]) (simp_all add: length_mem_read)
    show "mem_read data (n + 4) 4 = be32 v" unfolding v_def using n by (subst big32.dec_eq_iff [symmetric]) (simp_all add: length_mem_read)
  qed
  have "data = ?pre @ mem_read data n (2 + (2 + 4))" using n(1) by (simp add: mem_read_def)
  also have "\<dots> = ?pre @ be16 0x8028 @ be16 4 @ be32 v"
  proof -
    have "n + 2 + 2 = n + 4" by simp
    then show ?thesis by (simp only: mem_read_split b)
  qed
  finally have "data = ?pre @ be16 0x8028 @ be16 4 @ be32 v" .
  moreover have "mem_read ?pre 4 4 = be32 kStunMagicCookie"
  proof -
    have "mem_read ?pre 4 4 = mem_read data 4 4" using n by (simp add: mem_read_def drop_take min_def)
    then show ?thesis using f(2,3) by (subst big32.dec_eq_iff [symmetric]) (simp_all add: length_mem_read)
  qed
  moreover have "n mod 4 = 0" using f(1) n(1) by presburger
  ultimately show thesis using that [of ?pre v] n f(6) by simp
qed

lemma corrupted_fingerprint:
  assumes "ValidateFingerprint data" "i < length data" "v \<noteq> data ! i"
  shows "\<not> ValidateFingerprint (data[i := v])"
proof
  assume "ValidateFingerprint (data[i := v])"
  then obtain pre' w' where d': "data[i := v] = pre' @ be16 0x8028 @ be16 4 @ be32 w'" "w' XOR STUN_FINGERPRINT_XOR_VALUE = ComputeCrc32 pre'"
    by (rule ValidateFingerprint_shape)
  from assms(1) obtain pre w where d: "data = pre @ be16 0x8028 @ be16 4 @ be32 w" "w XOR STUN_FINGERPRINT_XOR_VALUE = ComputeCrc32 pre"
    by (rule ValidateFingerprint_shape)
  have len: "length pre' = length pre" using arg_cong [OF d(1), of length] arg_cong [OF d'(1), of length] by simp
  show False
  proof (cases "i < length pre")
    case True
    then have "data[i := v] = pre[i := v] @ be16 0x8028 @ be16 4 @ be32 w" by (simp add: d(1) list_update_append)
    then have e: "pre' = pre[i := v]" "be32 w' = be32 w" using d'(1) len by simp_all
    from e(2) have "w' = w" by (simp add: big32.enc_eq_iff)
    then have "ComputeCrc32 (pre[i := v]) = ComputeCrc32 pre" using d(2) d'(2) e(1) by simp
    moreover have "pre = take i pre @ pre ! i # drop (Suc i) pre" "pre[i := v] = take i pre @ v # drop (Suc i) pre"
      using True by (simp_all add: id_take_nth_drop upd_conv_take_nth_drop)
    moreover have "v \<noteq> pre ! i" using True assms(3) by (simp add: d(1) nth_append)
    ultimately show False using crc_detects_byte by metis
  next
    case False
    then have "pre' = pre" using d'(1) len by (metis append_eq_conv_conj d(1) linorder_not_less take_update_cancel)
    then have "w' = w" using d(2) d'(2) xor_right_cancel by metis
    then have "data[i := v] = data" using d(1) d'(1) \<open>pre' = pre\<close> by simp
    then show False using assms(2,3) by (metis nth_list_update_eq)
  qed
qed

section \<open>Properties\<close>

text \<open>C3: a message survives the network. Any message of well-formed attributes whose length field counts them, with a
  type of fewer than sixteen bits and, when it is of the old format, an id that does not begin with the magic cookie,
  is written successfully, and reading the written bytes on a host of either byte order into a message of the same
  class gives the same message and leaves nothing over.\<close>

theorem message_write_read:
  assumes "attrs_ok m" "length_ok m" "msg_type m AND 0x8000 = 0" "IsLegacy m \<Longrightarrow> take 4 (msg_tid m) \<noteq> be32 kStunMagicCookie"
    "msg_class m0 = msg_class m"
  shows "\<exists>b b'. Message_Write h m ByteBuffer_new = Some (True, b) \<and>
    Message_Read h' m0 (ByteBuffer_of (Contents b)) = (True, m, b') \<and> Length b' = 0"
proof -
  obtain b where b: "Message_Write h m ByteBuffer_new = Some (True, b)" "appends ByteBuffer_new b (message_bytes m)"
    using Message_Write_bytes [OF assms(1), of ByteBuffer_new h] by auto
  then have "holds (ByteBuffer_of (Contents b)) (message_bytes m)" by (simp add: holds_def appends_def)
  from Message_Read_bytes [OF assms(1-5) this, of h'] obtain b' where
    b': "Message_Read h' m0 (ByteBuffer_of (Contents b)) = (True, m, b')" "holds b' []" by auto
  then have "Length b' = 0" using length_Contents [of b'] by (simp add: holds_def)
  with b(1) b'(1) show ?thesis by blast
qed

text \<open>A binding response with a mapped address and an error code, for the witnesses.\<close>

definition example_message :: stun_message where
  "example_message =
     snd (AddAttribute (StunErrorCodeAttribute_of 9 420 [66, 97, 100])
       (snd (AddAttribute (StunXorAddressAttribute_of 0x20 (SocketAddress_ip (IPAddress_v4 [1, 2, 3, 4]) 80))
         ((StunMessage_new StunClass)\<lparr>msg_type := 0x0101, msg_tid := replicate 12 7\<rparr>))))"

lemma example_message_ok: "attrs_ok example_message" "length_ok example_message"
  "msg_type example_message = 0x0101" "msg_tid example_message = replicate 12 7" "msg_class example_message = StunClass"
  "msg_length example_message = 24" "list_all (\<lambda>a. uint (at_type a) \<noteq> STUN_ATTR_MESSAGE_INTEGRITY) (msg_attrs example_message)"
  by code_simp+

theorem message_write_read_witness:
  "\<exists>b b'. Message_Write True example_message ByteBuffer_new = Some (True, b) \<and>
    Message_Read False (StunMessage_new StunClass) (ByteBuffer_of (Contents b)) = (True, example_message, b') \<and> Length b' = 0"
  by (rule message_write_read)
    (simp_all add: example_message_ok IsLegacy_def kStunLegacyTransactionIdLength_def StunMessage_new_def)

lemma unsigned_prefix:
  fixes l :: u16
  assumes "attrs_ok m" "length (msg_tid m) = 12" "length mac = 20"
  defines "pre \<equiv> message_bytes (with_length l m) @ framed (attr_body (msg_tid m)) (integrity_attr mac)"
  shows "length pre mod 4 = 0 \<and> 20 \<le> length pre \<and> mem_read pre 4 4 = be32 kStunMagicCookie"
proof -
  let ?A = "attrs_bytes (msg_tid m) (msg_attrs m)"
  have pre: "pre = be16 (msg_type m) @ be16 l @ be32 kStunMagicCookie @ msg_tid m @ ?A @ be16 8 @ be16 20 @ mac"
    using assms(2,3) by (simp add: pre_def message_bytes_def header_bytes_def with_length_def IsLegacy_def
        kStunLegacyTransactionIdLength_def integrity_bytes)
  have "length ?A mod 4 = 0" using assms(1) by (intro length_attrs_mod4) (simp add: attrs_ok_def list_all_iff)
  then obtain q where "length ?A = 4 * q" unfolding mod_eq_0_iff_dvd by (elim dvdE)
  then have "length pre mod 4 = 0" using assms(2,3) by (simp add: pre mod_add_eq)
  moreover have "mem_read pre 4 4 = be32 kStunMagicCookie"
    using mem_read_at [of "be16 (msg_type m) @ be16 l" 4 "be32 kStunMagicCookie" 4] by (simp add: pre)
  ultimately show ?thesis using assms(2) by (simp add: pre)
qed

lemma signed_message:
  assumes "attrs_ok m" "length_ok m" "unat (msg_length m) + 32 < 65536" "length (msg_tid m) = 12"
    "list_all (\<lambda>a. uint (at_type a) \<noteq> STUN_ATTR_MESSAGE_INTEGRITY) (msg_attrs m)"
  obtains mac v m1 m2 where "length mac = 20" "m1 = with_attr (integrity_attr mac) 24 m" "m2 = with_attr (fingerprint_attr v) 8 m1"
    "\<And>h. AddMessageIntegrity h key m = Some (True, m1)" "\<And>h. AddFingerprint h m1 = Some (True, m2)"
    "attrs_ok m1" "length_ok m1" "attrs_ok m2" "length_ok m2" "\<And>h. ValidateMessageIntegrity h (message_bytes m1) key = Some True"
    "\<And>h. ValidateMessageIntegrity h (message_bytes m2) key = Some True" "ValidateFingerprint (message_bytes m2)"
proof -
  let ?A = "attrs_bytes (msg_tid m) (msg_attrs m)"
  define mac where "mac = rfc2104 fips_sha1 key (mac_input m (msg_attrs m))"
  define m1 where "m1 = with_attr (integrity_attr mac) 24 m"
  have mac: "length mac = 20" by (simp add: mac_def rfc2104_def length_fips_sha1)
  have m1: "attrs_ok m1" "length_ok m1" "unat (msg_length m1) = unat (msg_length m) + 24"
    using integrity_room [OF assms(1,2) _ mac] assms(3) unat_add_word [of "msg_length m" 24] by (simp_all add: m1_def with_attr_def)
  have A: "unat (msg_length m) = length ?A" using assms(2) by (simp add: length_ok_def)
  define v where "v = ComputeCrc32 (header_bytes (with_length (msg_length m1 + 8) m1) @ attrs_bytes (msg_tid m1) (msg_attrs m1))
      XOR STUN_FINGERPRINT_XOR_VALUE"
  define m2 where "m2 = with_attr (fingerprint_attr v) 8 m1"
  have m2: "attrs_ok m2" "length_ok m2" using fingerprint_room [OF m1(1,2)] m1(3) assms(3) by (simp_all add: m2_def)
  have add: "AddMessageIntegrity h key m = Some (True, m1)" "AddFingerprint h m1 = Some (True, m2)" for h
    using AddMessageIntegrity_result [OF assms(1,2)] AddFingerprint_result [OF m1(1,2)] m1(3) assms(3)
    by (simp_all add: m1_def mac_def m2_def v_def)
  let ?f = "framed (attr_body (msg_tid m)) (integrity_attr mac)" and ?g = "framed (attr_body (msg_tid m)) (fingerprint_attr v)"
  let ?h1 = "with_length (msg_length m + 24) m" and ?h2 = "with_length (msg_length m + 24 + 8) m"
  have bytes: "message_bytes m1 = message_bytes ?h1 @ ?f @ []" "message_bytes m2 = message_bytes ?h2 @ ?f @ ?g"
    by (simp_all add: m1_def m2_def message_bytes_def with_attr_def with_length_def header_bytes_def IsLegacy_def attrs_bytes_def)
  have len: "unat (msg_length m + 24) = length ?A + 24" "unat (msg_length m + 24 + 8) = length ?A + 24 + 8"
    using unat_add_word [of "msg_length m" 24] unat_add_word [of "msg_length m" 32] assms(3) A by (simp_all add: add.assoc)
  have mi: "ValidateMessageIntegrity h (message_bytes m1) key = Some True" "ValidateMessageIntegrity h (message_bytes m2) key = Some True" for h
    unfolding bytes using ValidateMessageIntegrity_spec [of ?h1 mac "[]" h key] ValidateMessageIntegrity_spec [of ?h2 mac ?g h key]
      assms len mac A
    by (simp_all add: with_length_def attrs_ok_def fingerprint_bytes mac_input_def header_bytes_def IsLegacy_def mac_def)
  have pre: "length (message_bytes ?h2 @ ?f) mod 4 = 0" "20 \<le> length (message_bytes ?h2 @ ?f)"
    "mem_read (message_bytes ?h2 @ ?f) 4 4 = be32 kStunMagicCookie"
    "message_bytes ?h2 @ ?f = header_bytes (with_length (msg_length m1 + 8) m1) @ attrs_bytes (msg_tid m1) (msg_attrs m1)"
    using unsigned_prefix [of m mac "msg_length m + 24 + 8"] assms(1,4) mac
    by (simp_all add: m1_def with_attr_def with_length_def message_bytes_def header_bytes_def IsLegacy_def attrs_bytes_snoc)
  have "ValidateFingerprint (message_bytes m2)"
    using ValidateFingerprint_spec [OF pre(1-3), of "msg_tid m" v] unfolding bytes(2) v_def pre(4) [symmetric]
    by (simp add: xor.assoc)
  from that [OF mac m1_def m2_def add m1(1,2) m2 mi this] show thesis .
qed

text \<open>C7: integrity and fingerprint end to end. A message with room for both attributes and no integrity attribute yet
  takes them one after the other; the packet that is then written passes the integrity check with the same key
  (whose length field is adjusted back over the fingerprint) and the fingerprint check, and the message without the
  fingerprint passes the integrity check too.\<close>

theorem signed_message_validates:
  assumes "attrs_ok m" "length_ok m" "unat (msg_length m) + 32 < 65536" "length (msg_tid m) = 12"
    "list_all (\<lambda>a. uint (at_type a) \<noteq> STUN_ATTR_MESSAGE_INTEGRITY) (msg_attrs m)"
  shows "\<exists>m1 m2 b1 b2. AddMessageIntegrity h key m = Some (True, m1) \<and> AddFingerprint h m1 = Some (True, m2) \<and>
    Message_Write h m1 ByteBuffer_new = Some (True, b1) \<and> Message_Write h m2 ByteBuffer_new = Some (True, b2) \<and>
    ValidateMessageIntegrity h' (Contents b1) key = Some True \<and>
    ValidateMessageIntegrity h' (Contents b2) key = Some True \<and> ValidateFingerprint (Contents b2)"
proof -
  from signed_message [OF assms, of key] obtain m1 m2 where
    m: "AddMessageIntegrity h key m = Some (True, m1)" "AddFingerprint h m1 = Some (True, m2)" "attrs_ok m1" "attrs_ok m2"
      "ValidateMessageIntegrity h' (message_bytes m1) key = Some True" "ValidateMessageIntegrity h' (message_bytes m2) key = Some True"
      "ValidateFingerprint (message_bytes m2)" by metis
  obtain b1 b2 where "Message_Write h m1 ByteBuffer_new = Some (True, b1)" "Message_Write h m2 ByteBuffer_new = Some (True, b2)"
    "Contents b1 = message_bytes m1" "Contents b2 = message_bytes m2"
    using Message_Write_bytes [OF m(3), of ByteBuffer_new h] Message_Write_bytes [OF m(4), of ByteBuffer_new h] by (auto simp: appends_def)
  with m show ?thesis by metis
qed

theorem signed_message_validates_witness:
  "\<exists>m1 m2 b1 b2. AddMessageIntegrity False [112, 119] example_message = Some (True, m1) \<and> AddFingerprint False m1 = Some (True, m2) \<and>
    Message_Write False m1 ByteBuffer_new = Some (True, b1) \<and> Message_Write False m2 ByteBuffer_new = Some (True, b2) \<and>
    ValidateMessageIntegrity True (Contents b1) [112, 119] = Some True \<and>
    ValidateMessageIntegrity True (Contents b2) [112, 119] = Some True \<and> ValidateFingerprint (Contents b2)"
  by (rule signed_message_validates) (simp_all add: example_message_ok)

text \<open>C19: what the integrity check accepts. For a packet of well-formed attributes that has one integrity attribute with
  the value \<open>mac\<close> and any bytes behind it, validation never reads outside the packet and succeeds exactly when
  \<open>mac\<close> is the HMAC-SHA1, under the password, of the packet up to the attribute with the length field of a packet
  that ends with it.\<close>

theorem integrity_check_is_hmac:
  assumes "attrs_ok m" "list_all (\<lambda>a. uint (at_type a) \<noteq> STUN_ATTR_MESSAGE_INTEGRITY) (msg_attrs m)" "length mac = 20"
    "length rest mod 4 = 0" "length (attrs_bytes (msg_tid m) (msg_attrs m)) + 24 + length rest < 65536"
    "unat (msg_length m) = length (attrs_bytes (msg_tid m) (msg_attrs m)) + 24 + length rest"
  shows "ValidateMessageIntegrity h (message_bytes m @ framed (attr_body (msg_tid m)) (integrity_attr mac) @ rest) password =
    Some (mac = rfc2104 fips_sha1 password (mac_input m (msg_attrs m)))"
  by (rule ValidateMessageIntegrity_spec [OF assms])

theorem integrity_check_is_hmac_witness:
  "\<exists>data ok. ValidateMessageIntegrity True data [112, 119] = Some ok \<and> length data = 68"
proof -
  let ?m = "with_length 48 example_message"
  have "attrs_bytes (msg_tid ?m) (msg_attrs ?m) = attrs_bytes (replicate 12 7) (msg_attrs example_message)"
    by (simp add: with_length_def example_message_ok)
  moreover have "length (attrs_bytes (replicate 12 7) (msg_attrs example_message)) = 24" by code_simp
  ultimately have len: "length (attrs_bytes (msg_tid ?m) (msg_attrs ?m)) = 24" by simp
  have ok: "attrs_ok ?m" "list_all (\<lambda>a. uint (at_type a) \<noteq> STUN_ATTR_MESSAGE_INTEGRITY) (msg_attrs ?m)" "msg_length ?m = 48"
    using example_message_ok by (simp_all add: with_length_def attrs_ok_def)
  have "length (header_bytes ?m) = 20" using ok(1) by (intro length_header) (simp add: attrs_ok_def)
  then have "length (message_bytes ?m @ framed (attr_body (msg_tid ?m)) (integrity_attr (replicate 20 0)) @ []) = 68"
    using len by (simp add: message_bytes_def integrity_bytes)
  moreover have "ValidateMessageIntegrity True (message_bytes ?m @ framed (attr_body (msg_tid ?m)) (integrity_attr (replicate 20 0)) @ []) [112, 119] =
      Some (replicate 20 0 = rfc2104 fips_sha1 [112, 119] (mac_input ?m (msg_attrs ?m)))"
    by (rule integrity_check_is_hmac [OF ok(1,2)]) (simp_all add: len ok(3))
  ultimately show ?thesis by blast
qed

text \<open>C25: the fingerprint detects every corrupted byte. When a packet passes the fingerprint check, no packet that differs
  from it in exactly one byte does, wherever the byte is: in the header, the attributes, or the fingerprint itself.\<close>

theorem fingerprint_detects_corruption:
  assumes "ValidateFingerprint data" "i < length data" "v \<noteq> data ! i"
  shows "\<not> ValidateFingerprint (data[i := v])"
  by (rule corrupted_fingerprint [OF assms])

definition fingerprinted :: "byte list" where
  "fingerprinted = (let pre = [0, 1, 0, 8, 0x21, 0x12, 0xA4, 0x42] @ replicate 12 9
     in pre @ be16 0x8028 @ be16 4 @ be32 (ComputeCrc32 pre XOR STUN_FINGERPRINT_XOR_VALUE))"

lemma fingerprinted_valid: "ValidateFingerprint fingerprinted"
proof -
  let ?pre = "[0, 1, 0, 8, 0x21, 0x12, 0xA4, 0x42] @ replicate 12 9 :: byte list"
  have "mem_read ?pre 4 4 = be32 kStunMagicCookie" by code_simp
  from ValidateFingerprint_spec [OF _ _ this, of "[]" "ComputeCrc32 ?pre XOR STUN_FINGERPRINT_XOR_VALUE"] show ?thesis
    unfolding fingerprinted_def Let_def by (simp add: fingerprint_bytes xor.assoc)
qed

theorem fingerprint_detects_corruption_witness: "\<not> ValidateFingerprint (fingerprinted[9 := 10])"
proof -
  have "fingerprinted ! 9 = 9" by (simp add: fingerprinted_def Let_def nth_append)
  then show ?thesis
    by (intro fingerprint_detects_corruption [OF fingerprinted_valid]) (simp_all add: fingerprinted_def Let_def)
qed

text \<open>Adding attributes keeps a message well formed. An attribute whose value is not of the kind that the class of
  the message knows for its type is rejected and the message stays as it is; any other one that is well formed
  once it has its owner, and for which the length field has room, is appended, and the length field still counts
  the bytes behind the header.\<close>

theorem AddAttribute_invariant:
  assumes "attrs_ok m" "length_ok m" "attr_ok (msg_tid m) (SetOwner a)"
    "unat (msg_length m) + 4 + padded (unat (at_length a)) < 65536" "AddAttribute a m = (ok, m')"
  shows "attrs_ok m' \<and> length_ok m' \<and> msg_attrs m' = (if ok then msg_attrs m @ [SetOwner a] else msg_attrs m) \<and>
    (ok \<longleftrightarrow> value_type (at_value a) = GetAttributeValueType (msg_class m) (uint (at_type a))) \<and> (\<not> ok \<longrightarrow> m' = m)"
proof (cases "value_type (at_value a) = GetAttributeValueType (msg_class m) (uint (at_type a))")
  case True
  with AddAttribute_keeps [OF assms(1-3) True assms(4)] AddAttribute_known [OF True] assms(5) show ?thesis by auto
next
  case False
  with assms show ?thesis by (auto simp: AddAttribute_def)
qed

theorem AddAttribute_invariant_witness:
  "let (ok, m') = AddAttribute (StunByteStringAttribute_of 6 [117, 58, 118]) example_message
   in attrs_ok m' \<and> length_ok m' \<and> length (msg_attrs m') = 3 \<and> ok"
proof -
  let ?a = "StunByteStringAttribute_of 6 [117, 58, 118]"
  obtain ok m' where e: "AddAttribute ?a example_message = (ok, m')" by fastforce
  have "attr_ok (msg_tid example_message) (SetOwner ?a)" "padded (unat (at_length ?a)) = 4"
    "value_type (at_value ?a) = GetAttributeValueType (msg_class example_message) (uint (at_type ?a))"
    "length (msg_attrs example_message) = 2" by code_simp+
  with AddAttribute_invariant [OF example_message_ok(1,2) _ _ e] e show ?thesis by (simp add: example_message_ok)
qed

lemma type_classes: "ty AND kStunTypeMask \<in> {0, 0x010, 0x100, 0x110}"
proof -
  have "kStunTypeMask = 16 OR 256" by (simp add: kStunTypeMask_def)
  then have "ty AND kStunTypeMask = (ty AND 16) OR (ty AND 256)" by (metis bit.conj_disj_distrib)
  moreover have "ty AND 2 ^ n = (if bit ty n then 2 ^ n else 0)" for n by (rule bit_eqI) (auto simp: bit_simps)
  from this [of 4] this [of 8] have "ty AND 16 = (if bit ty 4 then 16 else 0)" "ty AND 256 = (if bit ty 8 then 256 else 0)" by simp_all
  ultimately show ?thesis by (simp add: kStunTypeMask_def)
qed

lemma request_or:
  assumes "ty AND kStunTypeMask = 0" "c AND NOT kStunTypeMask = 0"
  shows "(ty OR c) AND kStunTypeMask = c \<and> (ty OR c) AND NOT kStunTypeMask = ty"
proof -
  have "c AND kStunTypeMask = c" "ty AND NOT kStunTypeMask = ty"
    using assms by (metis and.right_neutral bit.conj_disj_distrib bit.disj_cancel_right bit.disj_zero_right or.commute)+
  then show ?thesis using assms by (simp add: bit.conj_disj_distrib2)
qed

text \<open>The message types. Every type is exactly one of request, indication, success response and error response; the
  two response types of a request are a success and an error response that carry the method of the request, and
  there is no response type for anything else.\<close>

theorem stun_message_types:
  "of_bool (IsStunRequestType ty) + of_bool (IsStunIndicationType ty) + of_bool (IsStunSuccessResponseType ty) +
     of_bool (IsStunErrorResponseType ty) = (1 :: nat) \<and>
   (if IsStunRequestType ty
    then IsStunSuccessResponseType (GetStunSuccessResponseType ty) \<and> IsStunErrorResponseType (GetStunErrorResponseType ty) \<and>
      GetStunSuccessResponseType ty AND NOT kStunTypeMask = ty \<and> GetStunErrorResponseType ty AND NOT kStunTypeMask = ty
    else GetStunSuccessResponseType ty = -1 \<and> GetStunErrorResponseType ty = -1)"
proof -
  note defs = IsStunRequestType_def IsStunIndicationType_def IsStunSuccessResponseType_def IsStunErrorResponseType_def
    GetStunSuccessResponseType_def GetStunErrorResponseType_def
  have "0x100 AND NOT kStunTypeMask = 0" "0x110 AND NOT kStunTypeMask = 0" by (simp_all add: kStunTypeMask_def)
  then have "ty AND kStunTypeMask = 0 \<Longrightarrow>
      (ty OR 0x100) AND kStunTypeMask = 0x100 \<and> (ty OR 0x100) AND NOT kStunTypeMask = ty \<and>
      (ty OR 0x110) AND kStunTypeMask = 0x110 \<and> (ty OR 0x110) AND NOT kStunTypeMask = ty"
    using request_or by blast
  then show ?thesis using type_classes [of ty] unfolding defs by auto
qed

text \<open>The long-term credential hash of a user is the MD5 digest of user name, realm and password joined by
  colons.\<close>

theorem credential_hash_is_md5:
  "ComputeStunCredentialHash h username realm password =
    Some (Some (rfc_md5 (username @ [58] @ realm @ [58] @ password)))"
  by (simp add: ComputeStunCredentialHash_def digest_alg length_rfc_md5 mem_write_def)

text \<open>C39: the integrity check can leave the packet. The bound on the attribute leaves out its four-byte header: for a
  packet that ends sixteen bytes behind the header of the attribute, the comparison with the HMAC reads past the end
  of the packet, under every password; for an empty packet the length field itself is read outside of it.\<close>

theorem integrity_check_overread:
  assumes "length tid = 12" "length v = 16"
  shows "ValidateMessageIntegrity h (be16 ty @ be16 20 @ be32 kStunMagicCookie @ tid @ be16 8 @ be16 20 @ v) password = None \<and>
    ValidateMessageIntegrity h [] password = None"
proof -
  let ?pre = "be16 ty @ be16 20 @ be32 kStunMagicCookie @ tid"
  let ?data = "be16 ty @ be16 20 @ be32 kStunMagicCookie @ tid @ be16 8 @ be16 20 @ v"
  have len: "length ?data = 40" using assms by simp
  have l: "GetBE16 (mem_read ?data 2 2) = 20" by (subst mem_read_at) simp_all
  have t: "GetBE16 (mem_read ?data 20 2) = 8"
    using mem_read_at [of ?pre 20 "be16 8" 2 "be16 20 @ v"] assms by simp
  have n: "GetBE16 (mem_read ?data 22 2) = 20"
    using mem_read_at [of "?pre @ be16 8" 22 "be16 20" 2 v] assms by simp
  have "find_integrity ?data 20 = Some 20"
    by (subst find_integrity.simps) (simp add: t n len [simplified] STUN_ATTR_MESSAGE_INTEGRITY_def kStunMessageIntegritySize_def)
  then have "ValidateMessageIntegrity h ?data password = None"
    unfolding ValidateMessageIntegrity_def Let_def kStunHeaderSize_def kStunAttributeHeaderSize_def kStunMessageIntegritySize_def
      l len hmac_alg by simp
  moreover have "ValidateMessageIntegrity h [] password = None" by (simp add: ValidateMessageIntegrity_def)
  ultimately show ?thesis ..
qed

theorem integrity_check_overread_witness:
  "ValidateMessageIntegrity True (be16 1 @ be16 20 @ be32 kStunMagicCookie @ replicate 12 7 @ be16 8 @ be16 20 @ replicate 16 0) [112] = None"
  using integrity_check_overread [of "replicate 12 7" "replicate 16 0" True 1 "[112]"] by simp

lemma read_attrs_first:
  assumes "holds b (be16 attr_type @ be16 len @ v)"
  shows "read_attrs h 0 m b =
    (case CreateAttribute m attr_type len of
       None \<Rightarrow> (case Consume (unat (skip_length len)) (advance 2 (advance 2 b)) of
         None \<Rightarrow> (False, m, advance 2 (advance 2 b)) | Some b \<Rightarrow> read_attrs h 0 m b)
     | Some attr \<Rightarrow>
         (case StunAttribute_Read h (msg_tid m) attr (advance 2 (advance 2 b)) of
            Inl b \<Rightarrow> (False, m, b)
          | Inr (attr, b) \<Rightarrow> read_attrs h 0 (m\<lparr>msg_attrs := msg_attrs m @ [attr]\<rparr>) b)) \<and>
    holds (advance 2 (advance 2 b)) v"
proof -
  have h1: "holds (advance 2 b) (be16 len @ v)" using holds_advance [OF assms] by simp
  have "0 < Length b" using assms length_Contents [of b] by (simp add: holds_def)
  then show ?thesis using holds_advance [OF h1, of 2]
    by (subst read_attrs.simps) (simp add: ReadUInt16_holds [OF assms] ReadUInt16_holds [OF h1])
qed

lemma read_attrs_empty: "holds b [] \<Longrightarrow> read_attrs h 0 m b = (True, m, b)"
  using length_Contents [of b] by (simp add: read_attrs.simps holds_def)

lemma skip_length_wraps: "0xFFFD \<le> len \<Longrightarrow> skip_length len = 0"
proof -
  assume "0xFFFD \<le> len"
  then have "unat len \<in> {65533, 65534, 65535}" using unsigned_less [of len, where ?'a = nat] by (auto simp: word_le_nat_alt)
  then have "len \<in> {65533, 65534, 65535}" by (auto simp flip: word_unat_eq_iff simp: word_unat_eq_iff)
  then show ?thesis by (auto simp: skip_length_def)
qed

text \<open>What reading lets through. A packet may end with the header of an unknown attribute that claims a length of
  65533 to 65535 bytes: the padded length wraps to zero and nothing is skipped. And the length that a packet gives
  for a 32-bit attribute is not looked at: whatever it is, four bytes are taken as the value, and the attribute that
  results has the right length.\<close>

theorem lengths_not_checked:
  assumes "holds b (be16 ty @ be16 (4 + l) @ be32 kStunMagicCookie @ tid @ be16 attr_type @ be16 len @ v)" "length tid = 12"
    "ty AND 0x8000 = 0" "unat l = length v" "length v < 65532"
  shows "(GetAttributeValueType (msg_class m) (uint attr_type) = STUN_VALUE_UNKNOWN \<and> v = [] \<and> len \<ge> 0xFFFD \<longrightarrow>
      (\<exists>b'. Message_Read h m b = (True, m\<lparr>msg_type := ty, msg_length := 4, msg_tid := tid, msg_attrs := []\<rparr>, b'))) \<and>
    (GetAttributeValueType (msg_class m) (uint attr_type) = STUN_VALUE_UINT32 \<and> length v = 4 \<longrightarrow>
      (\<exists>b'. Message_Read h m b = (True, m\<lparr>msg_type := ty, msg_length := 8, msg_tid := tid,
        msg_attrs := [StunUInt32Attribute_of attr_type (GetBE32 v)]\<rparr>, b')))"
proof -
  have "holds b (be16 ty @ be16 (4 + l) @ be32 kStunMagicCookie @ tid @ (be16 attr_type @ be16 len @ v))" "unat (4 + l) = length (be16 attr_type @ be16 len @ v)"
    using assms(1,4,5) unat_add_word [of l 4] by (simp_all add: add.commute)
  from Message_Read_header [OF this(1) _ assms(2,3) this(2), of h m] obtain b1 where b1: "holds b1 (be16 attr_type @ be16 len @ v)"
    "Message_Read h m b = read_attrs h 0 (m\<lparr>msg_type := ty, msg_length := 4 + l, msg_tid := tid, msg_attrs := []\<rparr>) b1" by auto
  let ?m = "m\<lparr>msg_type := ty, msg_length := 4 + l, msg_tid := tid, msg_attrs := []\<rparr>" and ?b = "advance 2 (advance 2 b1)"
  note r = read_attrs_first [OF b1(1), of h ?m]
  have "Message_Read h m b = (True, m\<lparr>msg_type := ty, msg_length := 4, msg_tid := tid, msg_attrs := []\<rparr>, ?b)"
    if "GetAttributeValueType (msg_class m) (uint attr_type) = STUN_VALUE_UNKNOWN" "v = []" "len \<ge> 0xFFFD"
  proof -
    have "CreateAttribute ?m attr_type len = None" using that(1) by (simp add: CreateAttribute_def StunAttribute_Create_def)
    moreover have "Consume 0 ?b = Some ?b" "l = 0" using assms(4) that(2) by (simp_all add: Consume_def word_unat_eq_iff)
    ultimately show ?thesis using r that(2) skip_length_wraps [OF that(3)] b1(2) read_attrs_empty [of ?b h ?m] by simp
  qed
  moreover have "Message_Read h m b = (True, m\<lparr>msg_type := ty, msg_length := 8, msg_tid := tid,
      msg_attrs := [StunUInt32Attribute_of attr_type (GetBE32 v)]\<rparr>, advance 4 ?b)"
    if "GetAttributeValueType (msg_class m) (uint attr_type) = STUN_VALUE_UINT32" "length v = 4"
  proof -
    have "be32 (GetBE32 v) = v" using that(2) by (simp add: big32.enc_dec)
    then have hv: "holds ?b (be32 (GetBE32 v) @ [])" using r by simp
    have "CreateAttribute ?m attr_type len = Some (StunUInt32Attribute attr_type)"
      using that(1) by (simp add: CreateAttribute_def StunAttribute_Create_def)
    moreover have "StunAttribute_Read h tid (StunUInt32Attribute attr_type) ?b = Inr (StunUInt32Attribute_of attr_type (GetBE32 v), advance 4 ?b)"
      by (simp add: StunAttribute_Read_def UInt32_Read_def StunUInt32Attribute_def StunUInt32Attribute_of_def try_read_u32 [OF hv])
    moreover have "l = 4" using assms(4) that(2) by (simp add: word_unat_eq_iff)
    ultimately show ?thesis using r b1(2) read_attrs_empty [OF holds_advance [OF hv], of 4 h] by simp
  qed
  ultimately show ?thesis by blast
qed

theorem lengths_not_checked_witness:
  "\<exists>b'. Message_Read True (StunMessage_new StunClass) (ByteBuffer_of
      (be16 1 @ be16 8 @ be32 kStunMagicCookie @ replicate 12 7 @ be16 0x8028 @ be16 9 @ [1, 2, 3, 4])) =
    (True, (StunMessage_new StunClass)\<lparr>msg_type := 1, msg_length := 8, msg_tid := replicate 12 7,
      msg_attrs := [StunUInt32Attribute_of 0x8028 (GetBE32 [1, 2, 3, 4])]\<rparr>, b')"
proof -
  have "GetAttributeValueType StunClass 0x8028 = STUN_VALUE_UINT32" by code_simp
  then show ?thesis
    using lengths_not_checked [where l = 4 and v = "[1, 2, 3, 4]" and tid = "replicate 12 7" and ty = 1 and len = 9 and
        attr_type = "0x8028" and m = "StunMessage_new StunClass" and h = True and
        b = "ByteBuffer_of (be16 1 @ be16 8 @ be32 kStunMagicCookie @ replicate 12 7 @ be16 0x8028 @ be16 9 @ [1, 2, 3, 4])"]
    by (simp add: holds_def StunMessage_new_def)
qed

end
