(* ===== verification/Pseudo_Tcp.thy ===== *)
theory Pseudo_Tcp
  imports Byte_Buffer Fifo_Buffer Time_Utils
begin

text \<open>
  \<^verbatim>\<open>p2p/base/pseudotcp.h\<close> and \<^verbatim>\<open>p2p/base/pseudotcp.cc\<close>: TCP over an unreliable datagram channel.
  This theory holds the state and every operation, in the order of the source. The state record
  has the members of the class under their own names, and three more for the world around it: how
  often the clock was read, and the calls made to the \<^verbatim>\<open>IPseudoTcpNotify\<close> interface, newest first.
  The environment \<open>E\<close> supplies what the class does not own: the clock's readings, the network's
  answer to each packet and the host's byte order. Callbacks do not re-enter the object (in
  \<^verbatim>\<open>PseudoTcpChannel\<close> they post messages).

  An operation returns \<open>None\<close> where the C++ program would leave its defined behaviour: a packet
  larger than its buffer, a failed read of the send buffer (the release build would transmit
  uninitialised memory), the front of an empty list, a shift by 32 or more, a division by zero.
\<close>

section \<open>Types\<close>

datatype TcpState = TCP_LISTEN | TCP_SYN_SENT | TCP_SYN_RECEIVED | TCP_ESTABLISHED | TCP_CLOSED
datatype Shutdown = SD_NONE | SD_GRACEFUL | SD_FORCEFUL
datatype SendFlags = sfNone | sfDelayedAck | sfImmediateAck
datatype WriteResult = WR_SUCCESS | WR_TOO_LARGE | WR_FAIL
datatype TcpOption = OPT_NODELAY | OPT_ACKDELAY | OPT_RCVBUF | OPT_SNDBUF
datatype errno = E_NONE | EINVAL | ENOTCONN | EWOULDBLOCK | ECONNABORTED | ECONNRESET

datatype tcp_event =
    TcpWritePacket "byte list"
  | OnTcpOpen
  | OnTcpReadable
  | OnTcpWriteable
  | OnTcpClosed errno

text \<open>The enumeration is ordered by declaration, which \<^verbatim>\<open>m_state < TCP_ESTABLISHED\<close> uses.\<close>

fun state_number :: "TcpState \<Rightarrow> nat" where
  "state_number TCP_LISTEN = 0"
| "state_number TCP_SYN_SENT = 1"
| "state_number TCP_SYN_RECEIVED = 2"
| "state_number TCP_ESTABLISHED = 3"
| "state_number TCP_CLOSED = 4"

lemma state_number_eq: "state_number a = state_number b \<Longrightarrow> a = b"
  by (cases a; cases b) simp_all

instantiation TcpState :: linorder
begin

definition less_eq_TcpState :: "TcpState \<Rightarrow> TcpState \<Rightarrow> bool" where
  "less_eq_TcpState a b = (state_number a \<le> state_number b)"

definition less_TcpState :: "TcpState \<Rightarrow> TcpState \<Rightarrow> bool" where
  "less_TcpState a b = (state_number a < state_number b)"

instance
  by standard (auto simp: less_eq_TcpState_def less_TcpState_def intro: state_number_eq)

end

record Segment =
  seg_conv :: u32
  seg_seq :: u32
  seg_ack :: u32
  seg_flags :: u8
  seg_wnd :: u16
  seg_data :: "byte list"
  seg_len :: u32
  seg_tsval :: u32
  seg_tsecr :: u32

record SSegment =
  s_seq :: u32
  s_len :: u32
  s_xmit :: u8
  s_bCtrl :: bool

definition SSegment_new :: "u32 \<Rightarrow> u32 \<Rightarrow> bool \<Rightarrow> SSegment" where
  "SSegment_new s l c = \<lparr>s_seq = s, s_len = l, s_xmit = 0, s_bCtrl = c\<rparr>"

record RSegment =
  r_seq :: u32
  r_len :: u32

record pseudo_tcp =
  m_shutdown :: Shutdown
  m_error :: errno
  m_state :: TcpState
  m_conv :: u32
  m_bReadEnable :: bool
  m_bWriteEnable :: bool
  m_bOutgoing :: bool
  m_lasttraffic :: u32
  m_rlist :: "RSegment list"
  m_rbuf_len :: u32
  m_rcv_nxt :: u32
  m_rcv_wnd :: u32
  m_lastrecv :: u32
  m_rwnd_scale :: u8
  m_rbuf :: fifo_buffer
  m_slist :: "SSegment list"
  m_sbuf_len :: u32
  m_snd_nxt :: u32
  m_snd_wnd :: u32
  m_lastsend :: u32
  m_snd_una :: u32
  m_swnd_scale :: u8
  m_sbuf :: fifo_buffer
  m_mss :: u32
  m_msslevel :: u32
  m_largest :: u32
  m_mtu_advise :: u32
  m_rto_base :: u32
  m_ts_recent :: u32
  m_ts_lastack :: u32
  m_rx_rttvar :: u32
  m_rx_srtt :: u32
  m_rx_rto :: u32
  m_ssthresh :: u32
  m_cwnd :: u32
  m_dup_acks :: u8
  m_recover :: u32
  m_t_ack :: u32
  m_use_nagling :: bool
  m_ack_delay :: u32
  m_support_wnd_scale :: bool
  w_ticks :: nat
  w_events :: "tcp_event list"

record tcp_env =
  env_clock :: "nat \<Rightarrow> u32"
  env_write :: "tcp_event list \<Rightarrow> byte list \<Rightarrow> WriteResult"
  env_big_endian :: bool

section \<open>Constants\<close>

definition PACKET_MAXIMUMS :: "u32 list" where
  "PACKET_MAXIMUMS = [65535, 32000, 17914, 8166, 4352, 2002, 1492, 1006, 508, 296, 0]"

definition MAX_PACKET :: u32 where "MAX_PACKET = 65535"
definition MIN_PACKET :: u32 where "MIN_PACKET = 296"
definition IP_HEADER_SIZE :: u32 where "IP_HEADER_SIZE = 20"
definition UDP_HEADER_SIZE :: u32 where "UDP_HEADER_SIZE = 8"
definition JINGLE_HEADER_SIZE :: u32 where "JINGLE_HEADER_SIZE = 64"
definition DEFAULT_RCV_BUF_SIZE :: u32 where "DEFAULT_RCV_BUF_SIZE = 60 * 1024"
definition DEFAULT_SND_BUF_SIZE :: u32 where "DEFAULT_SND_BUF_SIZE = 90 * 1024"
definition HEADER_SIZE :: u32 where "HEADER_SIZE = 24"
definition PACKET_OVERHEAD :: u32 where
  "PACKET_OVERHEAD = HEADER_SIZE + UDP_HEADER_SIZE + IP_HEADER_SIZE + JINGLE_HEADER_SIZE"
definition MIN_RTO :: u32 where "MIN_RTO = 250"
definition DEF_RTO :: u32 where "DEF_RTO = 3000"
definition MAX_RTO :: u32 where "MAX_RTO = 60000"
definition DEF_ACK_DELAY :: u32 where "DEF_ACK_DELAY = 100"
definition FLAG_CTL :: u8 where "FLAG_CTL = 0x02"
definition FLAG_RST :: u8 where "FLAG_RST = 0x04"
definition CTL_CONNECT :: u8 where "CTL_CONNECT = 0"
definition TCP_OPT_EOL :: u8 where "TCP_OPT_EOL = 0"
definition TCP_OPT_NOOP :: u8 where "TCP_OPT_NOOP = 1"
definition TCP_OPT_MSS :: u8 where "TCP_OPT_MSS = 2"
definition TCP_OPT_WND_SCALE :: u8 where "TCP_OPT_WND_SCALE = 3"
definition DEFAULT_TIMEOUT :: int where "DEFAULT_TIMEOUT = 4000"
definition CLOSED_TIMEOUT :: int where "CLOSED_TIMEOUT = 60 * 1000"

lemmas size_consts = MAX_PACKET_def MIN_PACKET_def IP_HEADER_SIZE_def UDP_HEADER_SIZE_def
  JINGLE_HEADER_SIZE_def HEADER_SIZE_def PACKET_OVERHEAD_def DEFAULT_RCV_BUF_SIZE_def
  DEFAULT_SND_BUF_SIZE_def

section \<open>Helper functions\<close>

definition long_to_bytes :: "bool \<Rightarrow> u32 \<Rightarrow> byte list" where
  "long_to_bytes h val = host_store32 h (HostToNetwork32 h val)"

definition short_to_bytes :: "bool \<Rightarrow> u16 \<Rightarrow> byte list" where
  "short_to_bytes h val = host_store16 h (HostToNetwork16 h val)"

definition bytes_to_long :: "bool \<Rightarrow> byte list \<Rightarrow> u32" where
  "bytes_to_long h buf = NetworkToHost32 h (host_load32 h (take 4 buf))"

definition bytes_to_short :: "bool \<Rightarrow> byte list \<Rightarrow> u16" where
  "bytes_to_short h buf = NetworkToHost16 h (host_load16 h (take 2 buf))"

definition bound :: "u32 \<Rightarrow> u32 \<Rightarrow> u32 \<Rightarrow> u32" where
  "bound lower middle upper = std_min (std_max lower middle) upper"

text \<open>A C++ shift of a \<^verbatim>\<open>uint32\<close>: undefined from 32 on.\<close>

definition shl32 :: "u32 \<Rightarrow> u8 \<Rightarrow> u32 option" where
  "shl32 x k = (if unat k < 32 then Some (push_bit (unat k) x) else None)"

definition shr32 :: "u32 \<Rightarrow> u8 \<Rightarrow> u32 option" where
  "shr32 x k = (if unat k < 32 then Some (drop_bit (unat k) x) else None)"

definition Now :: "tcp_env \<Rightarrow> pseudo_tcp \<Rightarrow> u32 \<times> pseudo_tcp" where
  "Now E s = (env_clock E (w_ticks s), s\<lparr>w_ticks := Suc (w_ticks s)\<rparr>)"

definition notify :: "tcp_event \<Rightarrow> pseudo_tcp \<Rightarrow> pseudo_tcp" where
  "notify e s = s\<lparr>w_events := e # w_events s\<rparr>"

definition PseudoTcp_new :: "tcp_env \<Rightarrow> u32 \<Rightarrow> pseudo_tcp" where
  "PseudoTcp_new E conv =
     (let now = env_clock E 0;
          mss = MIN_PACKET - PACKET_OVERHEAD
      in \<lparr>m_shutdown = SD_NONE, m_error = E_NONE, m_state = TCP_LISTEN, m_conv = conv,
          m_bReadEnable = True, m_bWriteEnable = False, m_bOutgoing = False, m_lasttraffic = now,
          m_rlist = [], m_rbuf_len = DEFAULT_RCV_BUF_SIZE, m_rcv_nxt = 0,
          m_rcv_wnd = DEFAULT_RCV_BUF_SIZE, m_lastrecv = now, m_rwnd_scale = 0,
          m_rbuf = FifoBuffer_new (unat DEFAULT_RCV_BUF_SIZE),
          m_slist = [], m_sbuf_len = DEFAULT_SND_BUF_SIZE, m_snd_nxt = 0, m_snd_wnd = 1,
          m_lastsend = now, m_snd_una = 0, m_swnd_scale = 0,
          m_sbuf = FifoBuffer_new (unat DEFAULT_SND_BUF_SIZE),
          m_mss = mss, m_msslevel = 0, m_largest = 0, m_mtu_advise = MAX_PACKET,
          m_rto_base = 0, m_ts_recent = 0, m_ts_lastack = 0, m_rx_rttvar = 0, m_rx_srtt = 0,
          m_rx_rto = DEF_RTO, m_ssthresh = DEFAULT_RCV_BUF_SIZE, m_cwnd = 2 * mss,
          m_dup_acks = 0, m_recover = 0, m_t_ack = 0, m_use_nagling = True,
          m_ack_delay = DEF_ACK_DELAY, m_support_wnd_scale = True, w_ticks = 1, w_events = []\<rparr>)"

section \<open>Sending\<close>

definition queue :: "byte list \<Rightarrow> bool \<Rightarrow> pseudo_tcp \<Rightarrow> u32 \<times> pseudo_tcp" where
  "queue data bCtrl s =
     (let available_space = GetWriteRemaining (m_sbuf s);
          len = (if (word_of_nat (length data) :: u32) > word_of_nat available_space
                 then word_of_nat available_space else word_of_nat (length data));
          s = (if m_slist s \<noteq> [] \<and> s_bCtrl (last (m_slist s)) = bCtrl \<and> s_xmit (last (m_slist s)) = 0
               then s\<lparr>m_slist := butlast (m_slist s) @
                       [(last (m_slist s))\<lparr>s_len := s_len (last (m_slist s)) + len\<rparr>]\<rparr>
               else (let snd_buffered = GetBuffered (m_sbuf s);
                         sseg = SSegment_new (m_snd_una s + word_of_nat snd_buffered) len bCtrl
                     in s\<lparr>m_slist := m_slist s @ [sseg]\<rparr>));
          (_, written, sbuf) = FifoBuffer_Write (take (unat len) data) (m_sbuf s)
      in (word_of_nat written, s\<lparr>m_sbuf := sbuf\<rparr>))"

definition packet ::
    "tcp_env \<Rightarrow> u32 \<Rightarrow> u8 \<Rightarrow> u32 \<Rightarrow> u32 \<Rightarrow> pseudo_tcp \<Rightarrow> (WriteResult \<times> pseudo_tcp) option" where
  "packet E seq flags offset len s =
     (if unat HEADER_SIZE + unat len > unat MAX_PACKET then None
      else do {
        let h = env_big_endian E;
        let (now, s) = Now E s;
        wnd \<leftarrow> shr32 (m_rcv_wnd s) (m_rwnd_scale s);
        let header = long_to_bytes h (m_conv s) @ long_to_bytes h seq @ long_to_bytes h (m_rcv_nxt s)
              @ [0, flags] @ short_to_bytes h (ucast wnd)
              @ long_to_bytes h now @ long_to_bytes h (m_ts_recent s);
        let s = s\<lparr>m_ts_lastack := m_rcv_nxt s\<rparr>;
        payload \<leftarrow> (if len \<noteq> 0
              then (case ReadOffset (unat len) (unat offset) (m_sbuf s) of
                      (result, p) \<Rightarrow> if result = SR_SUCCESS \<and> length p = unat len then Some p else None)
              else Some []);
        let wres = env_write E (w_events s) (header @ payload);
        let s = notify (TcpWritePacket (header @ payload)) s;
        if wres \<noteq> WR_SUCCESS \<and> len \<noteq> 0 then Some (wres, s)
        else do {
          let s = s\<lparr>m_t_ack := 0\<rparr>;
          let s = (if len > 0 then s\<lparr>m_lastsend := now\<rparr> else s);
          let s = s\<lparr>m_lasttraffic := now, m_bOutgoing := True\<rparr>;
          Some (WR_SUCCESS, s)
        }
      })"

text \<open>The inner loop of \<^verbatim>\<open>transmit\<close>: the next smaller MTU level whose segment size is below
  \<open>nTransmit\<close>. \<open>Some None\<close> is the early return for "MTU too small", \<open>None\<close> a read past the table.\<close>

function next_mss :: "u32 \<Rightarrow> pseudo_tcp \<Rightarrow> (u32 \<times> pseudo_tcp) option option" where
  "next_mss nTransmit s =
     (if unat (m_msslevel s) + 1 \<ge> length PACKET_MAXIMUMS then None
      else if PACKET_MAXIMUMS ! (unat (m_msslevel s) + 1) = 0 then Some None
      else
        (let msslevel = m_msslevel s + 1;
             mss = PACKET_MAXIMUMS ! unat msslevel - PACKET_OVERHEAD;
             s' = s\<lparr>m_msslevel := msslevel, m_mss := mss, m_cwnd := 2 * mss\<rparr>
         in if mss < nTransmit then Some (Some (mss, s')) else next_mss nTransmit s'))"
  by pat_completeness auto
termination
proof (relation "measure (\<lambda>(n, s). length PACKET_MAXIMUMS - unat (m_msslevel s))", goal_cases)
  case (2 n s l m s')
  then have "unat (m_msslevel s) + 1 < 11" by (simp add: PACKET_MAXIMUMS_def)
  moreover from this have "unat (m_msslevel s + 1) = unat (m_msslevel s) + 1"
    by (simp add: unat_word_ariths)
  ultimately show ?case using 2 by (simp add: PACKET_MAXIMUMS_def)
qed simp

declare next_mss.simps [simp del]

text \<open>What \<^verbatim>\<open>packet\<close> and \<^verbatim>\<open>next_mss\<close> do to the MTU level: it is what makes the loop of
  \<^verbatim>\<open>transmit\<close> end.\<close>

lemma packet_msslevel: "packet E seq flags offset len s = Some (w, s') \<Longrightarrow> m_msslevel s' = m_msslevel s"
  by (auto simp: packet_def Now_def notify_def Let_def split: if_splits option.splits bind_splits)

lemma next_mss_level:
  "next_mss n s = Some (Some (n', s')) \<Longrightarrow>
   unat (m_msslevel s) < unat (m_msslevel s') \<and> unat (m_msslevel s') < length PACKET_MAXIMUMS"
proof (induction n s rule: next_mss.induct)
  case (1 n s)
  show ?case
  proof (cases "unat (m_msslevel s) + 1 \<ge> length PACKET_MAXIMUMS")
    case False
    then have suc: "unat (m_msslevel s + 1) = unat (m_msslevel s) + 1"
      by (simp add: unat_word_ariths PACKET_MAXIMUMS_def)
    with False 1 show ?thesis
      by (subst (asm) (2) next_mss.simps) (fastforce simp: Let_def split: if_splits)
  qed (use 1 in \<open>simp add: next_mss.simps\<close>)
qed

text \<open>The outer loop of \<^verbatim>\<open>transmit\<close>: offer the packet, and on \<^verbatim>\<open>WR_TOO_LARGE\<close> retry with fewer
  bytes. The first component is \<open>False\<close> for the early returns.\<close>

function transmit_loop ::
    "tcp_env \<Rightarrow> SSegment \<Rightarrow> u32 \<Rightarrow> pseudo_tcp \<Rightarrow> (bool \<times> u32 \<times> pseudo_tcp) option" where
  "transmit_loop E seg nTransmit s =
     (case packet E (s_seq seg) (if s_bCtrl seg then FLAG_CTL else 0) (s_seq seg - m_snd_una s) nTransmit s of
        None \<Rightarrow> None
      | Some (wres, s1) \<Rightarrow>
          (case wres of
             WR_SUCCESS \<Rightarrow> Some (True, nTransmit, s1)
           | WR_FAIL \<Rightarrow> Some (False, nTransmit, s1)
           | WR_TOO_LARGE \<Rightarrow>
               (case next_mss nTransmit s1 of
                  None \<Rightarrow> None
                | Some None \<Rightarrow> Some (False, nTransmit, s1)
                | Some (Some (nTransmit', s2)) \<Rightarrow> transmit_loop E seg nTransmit' s2)))"
  by pat_completeness auto
termination
  by (relation "measure (\<lambda>(E, seg, n, s). length PACKET_MAXIMUMS - unat (m_msslevel s))")
    (auto dest!: next_mss_level packet_msslevel)

declare transmit_loop.simps [simp del]

text \<open>\<^verbatim>\<open>transmit\<close> takes an iterator into \<^verbatim>\<open>m_slist\<close>: here the index of the segment.\<close>

definition transmit :: "tcp_env \<Rightarrow> nat \<Rightarrow> u32 \<Rightarrow> pseudo_tcp \<Rightarrow> (bool \<times> pseudo_tcp) option" where
  "transmit E i now s =
     (if i \<ge> length (m_slist s) then None
      else
        (let seg = m_slist s ! i
         in if s_xmit seg \<ge> (if m_state s = TCP_ESTABLISHED then 15 else 30) then Some (False, s)
            else
              (case transmit_loop E seg (std_min (s_len seg) (m_mss s)) s of
                 None \<Rightarrow> None
               | Some (False, _, s) \<Rightarrow> Some (False, s)
               | Some (True, nTransmit, s) \<Rightarrow>
                   (let (seg, rest) =
                          (if nTransmit < s_len seg
                           then (seg\<lparr>s_len := nTransmit\<rparr>,
                                 [(SSegment_new (s_seq seg + nTransmit) (s_len seg - nTransmit)
                                    (s_bCtrl seg))\<lparr>s_xmit := s_xmit seg\<rparr>])
                           else (seg, []));
                        s = (if s_xmit seg = 0 then s\<lparr>m_snd_nxt := m_snd_nxt s + s_len seg\<rparr> else s);
                        seg = seg\<lparr>s_xmit := s_xmit seg + 1\<rparr>;
                        s = s\<lparr>m_slist := take i (m_slist s) @ seg # rest @ drop (Suc i) (m_slist s)\<rparr>;
                        s = (if m_rto_base s = 0 then s\<lparr>m_rto_base := now\<rparr> else s)
                    in Some (True, s)))))"

text \<open>The index of the first segment that has not been transmitted; \<open>None\<close> if there is none
  (the C++ loop would run past the end of the list).\<close>

fun first_unsent :: "SSegment list \<Rightarrow> nat option" where
  "first_unsent [] = None"
| "first_unsent (x # xs) = (if s_xmit x > 0 then map_option Suc (first_unsent xs) else Some 0)"

definition send_window :: "pseudo_tcp \<Rightarrow> u32" where
  "send_window s =
     (let cwnd = m_cwnd s;
          cwnd = (if m_dup_acks s = 1 \<or> m_dup_acks s = 2 then cwnd + ucast (m_dup_acks s) * m_mss s else cwnd)
      in std_min (m_snd_wnd s) cwnd)"

definition send_available :: "pseudo_tcp \<Rightarrow> u32" where
  "send_available s =
     (let nWindow = send_window s;
          nInFlight = m_snd_nxt s - m_snd_una s;
          nUseable = (if nInFlight < nWindow then nWindow - nInFlight else 0);
          snd_buffered = GetBuffered (m_sbuf s);
          nAvailable = std_min (word_of_nat snd_buffered - nInFlight) (m_mss s)
      in if nAvailable > nUseable
         then (if nUseable * 4 < nWindow then 0 else nUseable)
         else nAvailable)"

text \<open>A segment that is too large for the window is broken into two.\<close>

definition break_segment :: "nat \<Rightarrow> u32 \<Rightarrow> pseudo_tcp \<Rightarrow> pseudo_tcp" where
  "break_segment i nAvailable s =
     (let seg = m_slist s ! i
      in if s_len seg > nAvailable
         then s\<lparr>m_slist := take i (m_slist s) @ seg\<lparr>s_len := nAvailable\<rparr>
                # SSegment_new (s_seq seg + nAvailable) (s_len seg - nAvailable) (s_bCtrl seg)
                # drop (Suc i) (m_slist s)\<rparr>
         else s)"

text \<open>The loop of \<^verbatim>\<open>attemptSend\<close> with fuel: every round that goes on transmits at least one byte of
  the send buffer, so one round per buffered byte and one more are enough.\<close>

fun attempt_send_loop :: "nat \<Rightarrow> tcp_env \<Rightarrow> u32 \<Rightarrow> SendFlags \<Rightarrow> pseudo_tcp \<Rightarrow> pseudo_tcp option" where
  "attempt_send_loop 0 E now sflags s = None"
| "attempt_send_loop (Suc fuel) E now sflags s =
     (let nAvailable = send_available s
      in if nAvailable = 0 then
           (if sflags = sfNone then Some s
            else if sflags = sfImmediateAck \<or> m_t_ack s \<noteq> 0
            then map_option snd (packet E (m_snd_nxt s) 0 0 0 s)
            else (let (now', s) = Now E s in Some (s\<lparr>m_t_ack := now'\<rparr>)))
         else if m_use_nagling s \<and> m_snd_nxt s > m_snd_una s \<and> nAvailable < m_mss s then Some s
         else
           (case first_unsent (m_slist s) of
              None \<Rightarrow> None
            | Some i \<Rightarrow>
                (case transmit E i now (break_segment i nAvailable s) of
                   None \<Rightarrow> None
                 | Some (False, s) \<Rightarrow> Some s
                 | Some (True, s) \<Rightarrow> attempt_send_loop fuel E now sfNone s)))"

definition attemptSend :: "tcp_env \<Rightarrow> SendFlags \<Rightarrow> pseudo_tcp \<Rightarrow> pseudo_tcp option" where
  "attemptSend E sflags s =
     (let (now, s) = Now E s;
          s = (if TimeDiff now (m_lastsend s) > int (unat (m_rx_rto s)) then s\<lparr>m_cwnd := m_mss s\<rparr> else s)
      in attempt_send_loop (Suc (GetBuffered (m_sbuf s))) E now sflags s)"

section \<open>Connection state and options\<close>

definition closedown :: "errno \<Rightarrow> pseudo_tcp \<Rightarrow> pseudo_tcp" where
  "closedown err s = notify (OnTcpClosed err) (s\<lparr>m_state := TCP_CLOSED\<rparr>)"

function mss_level :: "u32 \<Rightarrow> nat \<Rightarrow> nat" where
  "mss_level mtu_advise l =
     (if l + 1 < length PACKET_MAXIMUMS \<and> PACKET_MAXIMUMS ! (l + 1) > 0
      then (if PACKET_MAXIMUMS ! l \<le> mtu_advise then l else mss_level mtu_advise (l + 1))
      else l)"
  by pat_completeness auto
termination
  by (relation "measure (\<lambda>(m, l). length PACKET_MAXIMUMS - l)") auto

declare mss_level.simps [simp del]

definition adjustMTU :: "pseudo_tcp \<Rightarrow> pseudo_tcp" where
  "adjustMTU s =
     (let s = s\<lparr>m_msslevel := word_of_nat (mss_level (m_mtu_advise s) 0)\<rparr>;
          s = s\<lparr>m_mss := m_mtu_advise s - PACKET_OVERHEAD\<rparr>;
          s = s\<lparr>m_ssthresh := std_max (m_ssthresh s) (2 * m_mss s)\<rparr>
      in s\<lparr>m_cwnd := std_max (m_cwnd s) (m_mss s)\<rparr>)"

definition isReceiveBufferFull :: "pseudo_tcp \<Rightarrow> bool" where
  "isReceiveBufferFull s = (GetWriteRemaining (m_rbuf s) = 0)"

definition disableWindowScale :: "pseudo_tcp \<Rightarrow> pseudo_tcp" where
  "disableWindowScale s = s\<lparr>m_support_wnd_scale := False\<rparr>"

definition queueConnectMessage :: "pseudo_tcp \<Rightarrow> pseudo_tcp" where
  "queueConnectMessage s =
     (let buf = ByteBuffer_order ORDER_NETWORK;
          buf = WriteUInt8 CTL_CONNECT buf;
          buf = (if m_support_wnd_scale s
                 then WriteUInt8 (m_rwnd_scale s) (WriteUInt8 1 (WriteUInt8 TCP_OPT_WND_SCALE buf))
                 else buf);
          s = s\<lparr>m_snd_wnd := word_of_nat (Length buf)\<rparr>
      in snd (queue (Contents buf) True s))"

definition applyWindowScaleOption :: "u8 \<Rightarrow> pseudo_tcp \<Rightarrow> pseudo_tcp" where
  "applyWindowScaleOption scale_factor s = s\<lparr>m_swnd_scale := scale_factor\<rparr>"

definition applyOption :: "u8 \<Rightarrow> byte list \<Rightarrow> u32 \<Rightarrow> pseudo_tcp \<Rightarrow> pseudo_tcp" where
  "applyOption kind data len s =
     (if kind = TCP_OPT_MSS then s
      else if kind = TCP_OPT_WND_SCALE then
        (if len \<noteq> 1 then s else applyWindowScaleOption (data ! 0) s)
      else s)"

definition resizeSendBuffer :: "u32 \<Rightarrow> pseudo_tcp \<Rightarrow> pseudo_tcp" where
  "resizeSendBuffer new_size s =
     (let s = s\<lparr>m_sbuf_len := new_size\<rparr>
      in s\<lparr>m_sbuf := snd (SetCapacity (unat new_size) (m_sbuf s))\<rparr>)"

function scale_for :: "u32 \<Rightarrow> u8 \<Rightarrow> u32 \<times> u8" where
  "scale_for new_size scale_factor =
     (if new_size > 0xFFFF then scale_for (drop_bit 1 new_size) (scale_factor + 1)
      else (new_size, scale_factor))"
  by pat_completeness auto
termination
proof (relation "measure (\<lambda>(n, k). unat n)", goal_cases)
  case (2 n k)
  then have "0 < unat n" by (simp add: word_less_nat_alt)
  then show ?case by (simp add: drop_bit_eq_div unat_div_distrib)
qed simp

declare scale_for.simps [simp del]

definition resizeReceiveBuffer :: "u32 \<Rightarrow> pseudo_tcp \<Rightarrow> pseudo_tcp" where
  "resizeReceiveBuffer new_size s =
     (let (new_size, scale_factor) = scale_for new_size 0;
          new_size = push_bit (unat scale_factor) new_size;
          (_, rbuf) = SetCapacity (unat new_size) (m_rbuf s);
          s = s\<lparr>m_rbuf := rbuf, m_rbuf_len := new_size, m_rwnd_scale := scale_factor,
                m_ssthresh := new_size\<rparr>
      in s\<lparr>m_rcv_wnd := word_of_nat (GetWriteRemaining (m_rbuf s))\<rparr>)"

lemma ReadUInt8_Length: "ReadUInt8 b = Some (v, b') \<Longrightarrow> Length b' < Length b"
  by (auto simp: ReadUInt8_def ReadBytes_def Length_def split: if_splits)

lemma Consume_Length: "Consume n b = Some b' \<Longrightarrow> Length b' \<le> Length b"
  by (auto simp: Consume_def Length_def split: if_splits)

text \<open>The loop of \<^verbatim>\<open>parseOptions\<close>; the first component says whether it left through the early
  return for an invalid option length.\<close>

function parse_options_loop :: "byte_buffer \<Rightarrow> u8 list \<Rightarrow> pseudo_tcp \<Rightarrow> bool \<times> u8 list \<times> pseudo_tcp" where
  "parse_options_loop buf options_specified s =
     (case ReadUInt8 buf of
        None \<Rightarrow> (False, options_specified, s)
      | Some (kind, buf1) \<Rightarrow>
          if kind = TCP_OPT_EOL then (False, options_specified, s)
          else if kind = TCP_OPT_NOOP then parse_options_loop buf1 options_specified s
          else
            (case (case ReadUInt8 buf1 of None \<Rightarrow> (0, buf1) | Some (l, b) \<Rightarrow> (l, b)) of
               (opt_len, buf2) \<Rightarrow>
                 (case Consume (unat opt_len) buf2 of
                    None \<Rightarrow> (True, options_specified, s)
                  | Some buf3 \<Rightarrow>
                      parse_options_loop buf3 (kind # options_specified)
                        (applyOption kind (Contents buf2) (ucast opt_len) s))))"
  by pat_completeness auto
termination
  by (relation "measure (\<lambda>(b, opts, s). Length b)")
    (auto dest!: ReadUInt8_Length Consume_Length split: option.splits)

declare parse_options_loop.simps [simp del]

definition parseOptions :: "byte list \<Rightarrow> pseudo_tcp \<Rightarrow> pseudo_tcp" where
  "parseOptions data s =
     (case parse_options_loop (ByteBuffer_of data) [] s of
        (returned, options_specified, s) \<Rightarrow>
          if returned then s
          else if TCP_OPT_WND_SCALE \<notin> set options_specified \<and> m_rwnd_scale s > 0
          then (resizeReceiveBuffer DEFAULT_RCV_BUF_SIZE s)\<lparr>m_swnd_scale := 0\<rparr>
          else s)"

section \<open>Processing a segment\<close>

text \<open>\<^verbatim>\<open>process\<close>, cut into its phases. Control data: the result says whether to go on and whether
  this was a connect message.\<close>

definition process_control :: "Segment \<Rightarrow> pseudo_tcp \<Rightarrow> (bool \<times> bool \<times> pseudo_tcp) option" where
  "process_control seg s =
     (if seg_flags seg AND FLAG_CTL = 0 then Some (True, False, s)
      else if seg_len seg = 0 then Some (False, False, s)
      else if length (seg_data seg) < unat (seg_len seg) then None
      else if seg_data seg ! 0 = CTL_CONNECT then
        (let s = parseOptions (take (unat (seg_len seg) - 1) (tl (seg_data seg))) s;
             s = (if m_state s = TCP_LISTEN then queueConnectMessage (s\<lparr>m_state := TCP_SYN_RECEIVED\<rparr>)
                  else if m_state s = TCP_SYN_SENT
                  then notify OnTcpOpen (adjustMTU (s\<lparr>m_state := TCP_ESTABLISHED\<rparr>))
                  else s)
         in Some (True, True, s))
      else Some (False, False, s))"

definition process_timestamp :: "Segment \<Rightarrow> pseudo_tcp \<Rightarrow> pseudo_tcp" where
  "process_timestamp seg s =
     (if seg_seq seg \<le> m_ts_lastack s \<and> m_ts_lastack s < seg_seq seg + seg_len seg
      then s\<lparr>m_ts_recent := seg_tsval seg\<rparr> else s)"

definition update_rtt :: "u32 \<Rightarrow> Segment \<Rightarrow> pseudo_tcp \<Rightarrow> pseudo_tcp" where
  "update_rtt now seg s =
     (if seg_tsecr seg = 0 then s
      else
        (let rtt = TimeDiff now (seg_tsecr seg)
         in if rtt \<ge> 0 then
              (let s = (if m_rx_srtt s = 0
                        then s\<lparr>m_rx_srtt := word_of_int rtt, m_rx_rttvar := word_of_int (rtt div 2)\<rparr>
                        else
                          (let unsigned_rtt = word_of_int rtt;
                               abs_err = (if unsigned_rtt > m_rx_srtt s then unsigned_rtt - m_rx_srtt s
                                          else m_rx_srtt s - unsigned_rtt)
                           in s\<lparr>m_rx_rttvar := (3 * m_rx_rttvar s + abs_err) div 4,
                                m_rx_srtt := (7 * m_rx_srtt s + word_of_int rtt) div 8\<rparr>))
               in s\<lparr>m_rx_rto := bound MIN_RTO (m_rx_srtt s + std_max 1 (4 * m_rx_rttvar s)) MAX_RTO\<rparr>)
            else s))"

text \<open>Releasing acknowledged bytes from the segment list. A partly acknowledged front segment
  loses length and keeps its sequence number, as in the source.\<close>

fun free_segments :: "u32 \<Rightarrow> SSegment list \<Rightarrow> u32 \<Rightarrow> (SSegment list \<times> u32) option" where
  "free_segments nFree [] largest = (if nFree > 0 then None else Some ([], largest))"
| "free_segments nFree (x # xs) largest =
     (if nFree > 0
      then (if nFree < s_len x then Some (x\<lparr>s_len := s_len x - nFree\<rparr> # xs, largest)
            else free_segments (nFree - s_len x) xs (if s_len x > largest then s_len x else largest))
      else Some (x # xs, largest))"

definition grow_cwnd :: "pseudo_tcp \<Rightarrow> pseudo_tcp option" where
  "grow_cwnd s =
     (if m_cwnd s < m_ssthresh s then Some (s\<lparr>m_cwnd := m_cwnd s + m_mss s\<rparr>)
      else if m_cwnd s = 0 then None
      else Some (s\<lparr>m_cwnd := m_cwnd s + std_max 1 (m_mss s * m_mss s div m_cwnd s)\<rparr>))"

definition process_new_ack :: "tcp_env \<Rightarrow> u32 \<Rightarrow> Segment \<Rightarrow> pseudo_tcp \<Rightarrow> (bool \<times> pseudo_tcp) option" where
  "process_new_ack E now seg s = do {
     let s = update_rtt now seg s;
     wnd \<leftarrow> shl32 (ucast (seg_wnd seg)) (m_swnd_scale s);
     let nAcked = seg_ack seg - m_snd_una s;
     let s = s\<lparr>m_snd_wnd := wnd, m_snd_una := seg_ack seg\<rparr>;
     let s = s\<lparr>m_rto_base := (if m_snd_una s = m_snd_nxt s then 0 else now)\<rparr>;
     sbuf \<leftarrow> ConsumeReadData (unat nAcked) (m_sbuf s);
     (slist, largest) \<leftarrow> free_segments nAcked (m_slist s) (m_largest s);
     let s = s\<lparr>m_sbuf := sbuf, m_slist := slist, m_largest := largest\<rparr>;
     if m_dup_acks s \<ge> 3 then
       (if m_snd_una s \<ge> m_recover s then
          (let nInFlight = m_snd_nxt s - m_snd_una s
           in Some (True, s\<lparr>m_cwnd := std_min (m_ssthresh s) (nInFlight + m_mss s), m_dup_acks := 0\<rparr>))
        else do {
          (sent, s) \<leftarrow> transmit E 0 now s;
          if \<not> sent then Some (False, closedown ECONNABORTED s)
          else Some (True, s\<lparr>m_cwnd := m_cwnd s + (m_mss s - std_min nAcked (m_cwnd s))\<rparr>)
        })
     else do {
       s \<leftarrow> grow_cwnd (s\<lparr>m_dup_acks := 0\<rparr>);
       Some (True, s)
     }
   }"

definition process_dup_ack :: "tcp_env \<Rightarrow> u32 \<Rightarrow> Segment \<Rightarrow> pseudo_tcp \<Rightarrow> (bool \<times> pseudo_tcp) option" where
  "process_dup_ack E now seg s = do {
     wnd \<leftarrow> shl32 (ucast (seg_wnd seg)) (m_swnd_scale s);
     let s = s\<lparr>m_snd_wnd := wnd\<rparr>;
     if seg_len seg > 0 then Some (True, s)
     else if m_snd_una s \<noteq> m_snd_nxt s then
       (let s = s\<lparr>m_dup_acks := m_dup_acks s + 1\<rparr>
        in if m_dup_acks s = 3 then do {
             (sent, s) \<leftarrow> transmit E 0 now s;
             if \<not> sent then Some (False, closedown ECONNABORTED s)
             else
               (let s = s\<lparr>m_recover := m_snd_nxt s\<rparr>;
                    nInFlight = m_snd_nxt s - m_snd_una s;
                    s = s\<lparr>m_ssthresh := std_max (nInFlight div 2) (2 * m_mss s)\<rparr>
                in Some (True, s\<lparr>m_cwnd := m_ssthresh s + 3 * m_mss s\<rparr>))
           }
           else if m_dup_acks s > 3 then Some (True, s\<lparr>m_cwnd := m_cwnd s + m_mss s\<rparr>)
           else Some (True, s))
     else Some (True, s\<lparr>m_dup_acks := 0\<rparr>)
   }"

definition process_ack :: "tcp_env \<Rightarrow> u32 \<Rightarrow> Segment \<Rightarrow> pseudo_tcp \<Rightarrow> (bool \<times> pseudo_tcp) option" where
  "process_ack E now seg s =
     (if seg_ack seg > m_snd_una s \<and> seg_ack seg \<le> m_snd_nxt s then process_new_ack E now seg s
      else if seg_ack seg = m_snd_una s then process_dup_ack E now seg s
      else Some (True, s))"

definition process_open :: "bool \<Rightarrow> pseudo_tcp \<Rightarrow> pseudo_tcp" where
  "process_open bConnect s =
     (if m_state s = TCP_SYN_RECEIVED \<and> \<not> bConnect
      then notify OnTcpOpen (adjustMTU (s\<lparr>m_state := TCP_ESTABLISHED\<rparr>)) else s)"

definition process_writeable :: "pseudo_tcp \<Rightarrow> pseudo_tcp" where
  "process_writeable s =
     (let kIdealRefillSize = (m_sbuf_len s + m_rbuf_len s) div 2;
          snd_buffered = GetBuffered (m_sbuf s)
      in if m_bWriteEnable s \<and> (word_of_nat snd_buffered :: u32) < kIdealRefillSize
         then notify OnTcpWriteable (s\<lparr>m_bWriteEnable := False\<rparr>) else s)"

definition ack_flags :: "Segment \<Rightarrow> pseudo_tcp \<Rightarrow> SendFlags" where
  "ack_flags seg s =
     (if seg_seq seg \<noteq> m_rcv_nxt s then sfImmediateAck
      else if seg_len seg \<noteq> 0 then (if m_ack_delay s = 0 then sfImmediateAck else sfDelayedAck)
      else sfNone)"

definition trim_segment :: "Segment \<Rightarrow> pseudo_tcp \<Rightarrow> Segment" where
  "trim_segment seg s =
     (let seg = (if seg_seq seg < m_rcv_nxt s then
                   (let nAdjust = m_rcv_nxt s - seg_seq seg
                    in if nAdjust < seg_len seg
                       then seg\<lparr>seg_seq := seg_seq seg + nAdjust,
                                seg_data := drop (unat nAdjust) (seg_data seg),
                                seg_len := seg_len seg - nAdjust\<rparr>
                       else seg\<lparr>seg_len := 0\<rparr>)
                 else seg);
          available_space = (word_of_nat (GetWriteRemaining (m_rbuf s)) :: u32)
      in if seg_seq seg + seg_len seg - m_rcv_nxt s > available_space then
           (let nAdjust = seg_seq seg + seg_len seg - m_rcv_nxt s - available_space
            in if nAdjust < seg_len seg then seg\<lparr>seg_len := seg_len seg - nAdjust\<rparr>
               else seg\<lparr>seg_len := 0\<rparr>)
         else seg)"

text \<open>The loop over the segments that arrived early; it returns the ones that stay in the list.\<close>

fun recover_segments ::
    "RSegment list \<Rightarrow> SendFlags \<Rightarrow> pseudo_tcp \<Rightarrow> (RSegment list \<times> SendFlags \<times> pseudo_tcp) option" where
  "recover_segments [] sflags s = Some ([], sflags, s)"
| "recover_segments (it # rest) sflags s =
     (if r_seq it \<le> m_rcv_nxt s then
        (if r_seq it + r_len it > m_rcv_nxt s then
           (let nAdjust = r_seq it + r_len it - m_rcv_nxt s
            in case ConsumeWriteBuffer (unat nAdjust) (m_rbuf s) of
                 None \<Rightarrow> None
               | Some rbuf \<Rightarrow>
                   recover_segments rest sfImmediateAck
                     (s\<lparr>m_rbuf := rbuf, m_rcv_nxt := m_rcv_nxt s + nAdjust,
                        m_rcv_wnd := m_rcv_wnd s - nAdjust\<rparr>))
         else recover_segments rest sflags s)
      else Some (it # rest, sflags, s))"

definition insert_rseg :: "RSegment \<Rightarrow> RSegment list \<Rightarrow> RSegment list" where
  "insert_rseg rseg l =
     takeWhile (\<lambda>it. r_seq it < r_seq rseg) l @ rseg # dropWhile (\<lambda>it. r_seq it < r_seq rseg) l"

definition receive_data ::
    "Segment \<Rightarrow> SendFlags \<Rightarrow> pseudo_tcp \<Rightarrow> (SendFlags \<times> bool \<times> pseudo_tcp) option" where
  "receive_data seg sflags s =
     (let bIgnoreData = (seg_flags seg AND FLAG_CTL \<noteq> 0 \<or> m_shutdown s \<noteq> SD_NONE)
      in if seg_len seg > 0 then
           (if bIgnoreData then
              Some (sflags, False,
                if seg_seq seg = m_rcv_nxt s then s\<lparr>m_rcv_nxt := m_rcv_nxt s + seg_len seg\<rparr> else s)
            else if length (seg_data seg) < unat (seg_len seg) then None
            else
              (let nOffset = seg_seq seg - m_rcv_nxt s;
                   (_, _, rbuf) = WriteOffset (take (unat (seg_len seg)) (seg_data seg)) (unat nOffset) (m_rbuf s);
                   s = s\<lparr>m_rbuf := rbuf\<rparr>
               in if seg_seq seg = m_rcv_nxt s then do {
                    rbuf \<leftarrow> ConsumeWriteBuffer (unat (seg_len seg)) (m_rbuf s);
                    let s = s\<lparr>m_rbuf := rbuf, m_rcv_nxt := m_rcv_nxt s + seg_len seg,
                              m_rcv_wnd := m_rcv_wnd s - seg_len seg\<rparr>;
                    (rlist, sflags, s) \<leftarrow> recover_segments (m_rlist s) sflags s;
                    Some (sflags, True, s\<lparr>m_rlist := rlist\<rparr>)
                  }
                  else
                    Some (sflags, False,
                      s\<lparr>m_rlist := insert_rseg \<lparr>r_seq = seg_seq seg, r_len = seg_len seg\<rparr> (m_rlist s)\<rparr>)))
         else Some (sflags, False, s))"

definition process_readable :: "bool \<Rightarrow> pseudo_tcp \<Rightarrow> pseudo_tcp" where
  "process_readable bNewData s =
     (if bNewData \<and> m_bReadEnable s then notify OnTcpReadable (s\<lparr>m_bReadEnable := False\<rparr>) else s)"

definition process :: "tcp_env \<Rightarrow> Segment \<Rightarrow> pseudo_tcp \<Rightarrow> (bool \<times> pseudo_tcp) option" where
  "process E seg s =
     (if seg_conv seg \<noteq> m_conv s then Some (False, s)
      else do {
        let (now, s) = Now E s;
        let s = s\<lparr>m_lasttraffic := now, m_lastrecv := now, m_bOutgoing := False\<rparr>;
        if m_state s = TCP_CLOSED then Some (False, s)
        else if seg_flags seg AND FLAG_RST \<noteq> 0 then Some (False, closedown ECONNRESET s)
        else do {
          (go_on, bConnect, s) \<leftarrow> process_control seg s;
          if \<not> go_on then Some (False, s)
          else do {
            let s = process_timestamp seg s;
            (go_on, s) \<leftarrow> process_ack E now seg s;
            if \<not> go_on then Some (False, s)
            else do {
              let s = process_open bConnect s;
              let s = process_writeable s;
              let sflags = ack_flags seg s;
              let seg = trim_segment seg s;
              (sflags, bNewData, s) \<leftarrow> receive_data seg sflags s;
              s \<leftarrow> attemptSend E sflags s;
              Some (True, process_readable bNewData s)
            }
          }
        }
      })"

text \<open>\<^verbatim>\<open>parse\<close> only checks for 12 bytes and then reads all 24 of the header.\<close>

definition parse_segment :: "tcp_env \<Rightarrow> byte list \<Rightarrow> Segment" where
  "parse_segment E buffer =
     (let h = env_big_endian E
      in \<lparr>seg_conv = bytes_to_long h buffer,
          seg_seq = bytes_to_long h (drop 4 buffer),
          seg_ack = bytes_to_long h (drop 8 buffer),
          seg_flags = buffer ! 13,
          seg_wnd = bytes_to_short h (drop 14 buffer),
          seg_data = drop (unat HEADER_SIZE) buffer,
          seg_len = word_of_nat (length buffer) - HEADER_SIZE,
          seg_tsval = bytes_to_long h (drop 16 buffer),
          seg_tsecr = bytes_to_long h (drop 20 buffer)\<rparr>)"

definition parse :: "tcp_env \<Rightarrow> byte list \<Rightarrow> pseudo_tcp \<Rightarrow> (bool \<times> pseudo_tcp) option" where
  "parse E buffer s =
     (if length buffer < 12 then Some (False, s)
      else if length buffer < unat HEADER_SIZE then None
      else process E (parse_segment E buffer) s)"

section \<open>Public interface\<close>

definition Connect :: "tcp_env \<Rightarrow> pseudo_tcp \<Rightarrow> (int \<times> pseudo_tcp) option" where
  "Connect E s =
     (if m_state s \<noteq> TCP_LISTEN then Some (-1, s\<lparr>m_error := EINVAL\<rparr>)
      else do {
        let s = s\<lparr>m_state := TCP_SYN_SENT\<rparr>;
        let s = queueConnectMessage s;
        s \<leftarrow> attemptSend E sfNone s;
        Some (0, s)
      })"

definition NotifyMTU :: "u16 \<Rightarrow> pseudo_tcp \<Rightarrow> pseudo_tcp" where
  "NotifyMTU mtu s =
     (let s = s\<lparr>m_mtu_advise := ucast mtu\<rparr>
      in if m_state s = TCP_ESTABLISHED then adjustMTU s else s)"

text \<open>The three timers of \<^verbatim>\<open>NotifyClock\<close>. The first component is \<open>False\<close> when the connection was
  closed down and the function returned.\<close>

definition clock_retransmit :: "tcp_env \<Rightarrow> u32 \<Rightarrow> pseudo_tcp \<Rightarrow> (bool \<times> pseudo_tcp) option" where
  "clock_retransmit E now s =
     (if m_rto_base s \<noteq> 0 \<and> TimeDiff (m_rto_base s + m_rx_rto s) now \<le> 0 then
        (if m_slist s = [] then Some (True, s)
         else do {
           (sent, s) \<leftarrow> transmit E 0 now s;
           if \<not> sent then Some (False, closedown ECONNABORTED s)
           else do {
             let nInFlight = m_snd_nxt s - m_snd_una s;
             let s = s\<lparr>m_ssthresh := std_max (nInFlight div 2) (2 * m_mss s)\<rparr>;
             let s = s\<lparr>m_cwnd := m_mss s\<rparr>;
             let rto_limit = (if m_state s < TCP_ESTABLISHED then DEF_RTO else MAX_RTO);
             Some (True, s\<lparr>m_rx_rto := std_min rto_limit (m_rx_rto s * 2), m_rto_base := now\<rparr>)
           }
         })
      else Some (True, s))"

definition clock_probe :: "tcp_env \<Rightarrow> u32 \<Rightarrow> pseudo_tcp \<Rightarrow> (bool \<times> pseudo_tcp) option" where
  "clock_probe E now s =
     (if m_snd_wnd s = 0 \<and> TimeDiff (m_lastsend s + m_rx_rto s) now \<le> 0 then
        (if TimeDiff now (m_lastrecv s) \<ge> 15000 then Some (False, closedown ECONNABORTED s)
         else do {
           (_, s) \<leftarrow> packet E (m_snd_nxt s - 1) 0 0 0 s;
           Some (True, s\<lparr>m_lastsend := now, m_rx_rto := std_min MAX_RTO (m_rx_rto s * 2)\<rparr>)
         })
      else Some (True, s))"

definition clock_ack :: "tcp_env \<Rightarrow> u32 \<Rightarrow> pseudo_tcp \<Rightarrow> pseudo_tcp option" where
  "clock_ack E now s =
     (if m_t_ack s \<noteq> 0 \<and> TimeDiff (m_t_ack s + m_ack_delay s) now \<le> 0
      then map_option snd (packet E (m_snd_nxt s) 0 0 0 s)
      else Some s)"

definition NotifyClock :: "tcp_env \<Rightarrow> u32 \<Rightarrow> pseudo_tcp \<Rightarrow> pseudo_tcp option" where
  "NotifyClock E now s =
     (if m_state s = TCP_CLOSED then Some s
      else do {
        (go_on, s) \<leftarrow> clock_retransmit E now s;
        if \<not> go_on then Some s
        else do {
          (go_on, s) \<leftarrow> clock_probe E now s;
          if \<not> go_on then Some s else clock_ack E now s
        }
      })"

definition NotifyPacket :: "tcp_env \<Rightarrow> byte list \<Rightarrow> pseudo_tcp \<Rightarrow> (bool \<times> pseudo_tcp) option" where
  "NotifyPacket E buffer s =
     (if length buffer > unat MAX_PACKET then Some (False, s) else parse E buffer s)"

text \<open>\<open>None\<close> is the result \<^verbatim>\<open>false\<close> (the connection is done), \<open>Some t\<close> the time to the next call.\<close>

definition clock_check :: "u32 \<Rightarrow> pseudo_tcp \<Rightarrow> int option" where
  "clock_check now s =
     (if m_shutdown s = SD_FORCEFUL then None
      else if m_shutdown s = SD_GRACEFUL \<and>
              (m_state s \<noteq> TCP_ESTABLISHED \<or> (GetBuffered (m_sbuf s) = 0 \<and> m_t_ack s = 0)) then None
      else if m_state s = TCP_CLOSED then Some CLOSED_TIMEOUT
      else
        (let nTimeout = DEFAULT_TIMEOUT;
             nTimeout = (if m_t_ack s \<noteq> 0
                         then std_min nTimeout (TimeDiff (m_t_ack s + m_ack_delay s) now) else nTimeout);
             nTimeout = (if m_rto_base s \<noteq> 0
                         then std_min nTimeout (TimeDiff (m_rto_base s + m_rx_rto s) now) else nTimeout);
             nTimeout = (if m_snd_wnd s = 0
                         then std_min nTimeout (TimeDiff (m_lastsend s + m_rx_rto s) now) else nTimeout)
         in Some nTimeout))"

definition GetNextClock :: "u32 \<Rightarrow> pseudo_tcp \<Rightarrow> int option" where
  "GetNextClock now s = clock_check now s"

definition GetOption :: "TcpOption \<Rightarrow> pseudo_tcp \<Rightarrow> int" where
  "GetOption opt s =
     (if opt = OPT_NODELAY then (if m_use_nagling s then 0 else 1)
      else if opt = OPT_ACKDELAY then sint (m_ack_delay s)
      else if opt = OPT_SNDBUF then sint (m_sbuf_len s)
      else sint (m_rbuf_len s))"

definition SetOption :: "TcpOption \<Rightarrow> int \<Rightarrow> pseudo_tcp \<Rightarrow> pseudo_tcp" where
  "SetOption opt val s =
     (if opt = OPT_NODELAY then s\<lparr>m_use_nagling := (val = 0)\<rparr>
      else if opt = OPT_ACKDELAY then s\<lparr>m_ack_delay := word_of_int val\<rparr>
      else if opt = OPT_SNDBUF then resizeSendBuffer (word_of_int val) s
      else resizeReceiveBuffer (word_of_int val) s)"

definition GetCongestionWindow :: "pseudo_tcp \<Rightarrow> u32" where
  "GetCongestionWindow s = m_cwnd s"

definition GetBytesInFlight :: "pseudo_tcp \<Rightarrow> u32" where
  "GetBytesInFlight s = m_snd_nxt s - m_snd_una s"

definition GetBytesBufferedNotSent :: "pseudo_tcp \<Rightarrow> u32" where
  "GetBytesBufferedNotSent s = m_snd_una s + word_of_nat (GetBuffered (m_sbuf s)) - m_snd_nxt s"

definition GetRoundTripTimeEstimateMs :: "pseudo_tcp \<Rightarrow> u32" where
  "GetRoundTripTimeEstimateMs s = m_rx_srtt s"

definition Recv :: "tcp_env \<Rightarrow> nat \<Rightarrow> pseudo_tcp \<Rightarrow> (int \<times> byte list \<times> pseudo_tcp) option" where
  "Recv E len s =
     (if m_state s \<noteq> TCP_ESTABLISHED then Some (-1, [], s\<lparr>m_error := ENOTCONN\<rparr>)
      else
        (case FifoBuffer_Read len (m_rbuf s) of
           (result, p, rbuf) \<Rightarrow>
             if result = SR_BLOCK
             then Some (-1, [], s\<lparr>m_rbuf := rbuf, m_bReadEnable := True, m_error := EWOULDBLOCK\<rparr>)
             else do {
               let s = s\<lparr>m_rbuf := rbuf\<rparr>;
               let available_space = word_of_nat (GetWriteRemaining (m_rbuf s));
               s \<leftarrow> (if available_space - m_rcv_wnd s \<ge> std_min (m_rbuf_len s div 2) (m_mss s)
                    then (let bWasClosed = (m_rcv_wnd s = 0);
                              s = s\<lparr>m_rcv_wnd := available_space\<rparr>
                          in if bWasClosed then attemptSend E sfImmediateAck s else Some s)
                    else Some s);
               Some (sint (word_of_nat (length p) :: u32), p, s)
             }))"

definition Send :: "tcp_env \<Rightarrow> byte list \<Rightarrow> pseudo_tcp \<Rightarrow> (int \<times> pseudo_tcp) option" where
  "Send E buffer s =
     (if m_state s \<noteq> TCP_ESTABLISHED then Some (-1, s\<lparr>m_error := ENOTCONN\<rparr>)
      else if GetWriteRemaining (m_sbuf s) = 0
      then Some (-1, s\<lparr>m_bWriteEnable := True, m_error := EWOULDBLOCK\<rparr>)
      else
        (case queue buffer False s of
           (written, s) \<Rightarrow> do {
             s \<leftarrow> attemptSend E sfNone s;
             Some (sint written, s)
           }))"

definition Close :: "bool \<Rightarrow> pseudo_tcp \<Rightarrow> pseudo_tcp" where
  "Close force s = s\<lparr>m_shutdown := (if force then SD_FORCEFUL else SD_GRACEFUL)\<rparr>"

definition GetError :: "pseudo_tcp \<Rightarrow> errno" where
  "GetError s = m_error s"

end
