(* ===== verification/Pseudo_Tcp_Send.thy ===== *)
theory Pseudo_Tcp_Send
  imports Pseudo_Tcp
begin

text \<open>
  The sending half of \<^verbatim>\<open>PseudoTcp\<close>. The invariant ties the segment list to the send buffer: the
  segments tile the buffered bytes in sequence order from \<open>m_snd_una\<close>, those already transmitted
  come first and cover exactly the bytes in flight. Every operation that sends keeps it, never
  reads outside the send buffer or the packet buffer, and its loops end.
\<close>

section \<open>What sending changes\<close>

text \<open>The state with every member that \<^verbatim>\<open>transmit\<close> and \<^verbatim>\<open>attemptSend\<close> may assign blanked out: two
  states with the same rest differ only there.\<close>

definition tx_rest :: "pseudo_tcp \<Rightarrow> pseudo_tcp" where
  "tx_rest s = s\<lparr>m_mss := 0, m_msslevel := 0, m_cwnd := 0, m_slist := [], m_snd_nxt := 0,
     m_rto_base := 0, m_ts_lastack := 0, m_t_ack := 0, m_lastsend := 0, m_lasttraffic := 0,
     m_bOutgoing := False, w_ticks := 0, w_events := []\<rparr>"

lemma tx_rest_upd [simp]:
  "tx_rest (s\<lparr>m_mss := a\<rparr>) = tx_rest s" "tx_rest (s\<lparr>m_msslevel := a\<rparr>) = tx_rest s"
  "tx_rest (s\<lparr>m_cwnd := a\<rparr>) = tx_rest s" "tx_rest (s\<lparr>m_slist := l\<rparr>) = tx_rest s"
  "tx_rest (s\<lparr>m_snd_nxt := a\<rparr>) = tx_rest s" "tx_rest (s\<lparr>m_rto_base := a\<rparr>) = tx_rest s"
  "tx_rest (s\<lparr>m_ts_lastack := a\<rparr>) = tx_rest s" "tx_rest (s\<lparr>m_t_ack := a\<rparr>) = tx_rest s"
  "tx_rest (s\<lparr>m_lastsend := a\<rparr>) = tx_rest s" "tx_rest (s\<lparr>m_lasttraffic := a\<rparr>) = tx_rest s"
  "tx_rest (s\<lparr>m_bOutgoing := b\<rparr>) = tx_rest s" "tx_rest (s\<lparr>w_ticks := n\<rparr>) = tx_rest s"
  "tx_rest (s\<lparr>w_events := es\<rparr>) = tx_rest s" "tx_rest (notify e s) = tx_rest s"
  by (simp_all add: tx_rest_def notify_def)

lemma tx_restD:
  assumes "tx_rest s' = tx_rest s"
  shows "m_sbuf s' = m_sbuf s" "m_snd_una s' = m_snd_una s" "m_rwnd_scale s' = m_rwnd_scale s"
    "m_state s' = m_state s" "m_rbuf s' = m_rbuf s" "m_rlist s' = m_rlist s"
    "m_rcv_nxt s' = m_rcv_nxt s" "m_rcv_wnd s' = m_rcv_wnd s" "m_rbuf_len s' = m_rbuf_len s"
    "m_sbuf_len s' = m_sbuf_len s" "m_swnd_scale s' = m_swnd_scale s" "m_conv s' = m_conv s"
    "m_shutdown s' = m_shutdown s" "m_dup_acks s' = m_dup_acks s" "m_recover s' = m_recover s"
    "m_mtu_advise s' = m_mtu_advise s" "m_ack_delay s' = m_ack_delay s" "m_snd_wnd s' = m_snd_wnd s"
    "m_bReadEnable s' = m_bReadEnable s"
  using assms
    [THEN arg_cong, of m_sbuf] assms [THEN arg_cong, of m_snd_una]
    assms [THEN arg_cong, of m_rwnd_scale] assms [THEN arg_cong, of m_state]
    assms [THEN arg_cong, of m_rbuf] assms [THEN arg_cong, of m_rlist]
    assms [THEN arg_cong, of m_rcv_nxt] assms [THEN arg_cong, of m_rcv_wnd]
    assms [THEN arg_cong, of m_rbuf_len] assms [THEN arg_cong, of m_sbuf_len]
    assms [THEN arg_cong, of m_swnd_scale] assms [THEN arg_cong, of m_conv]
    assms [THEN arg_cong, of m_shutdown] assms [THEN arg_cong, of m_dup_acks]
    assms [THEN arg_cong, of m_recover] assms [THEN arg_cong, of m_mtu_advise]
    assms [THEN arg_cong, of m_ack_delay] assms [THEN arg_cong, of m_snd_wnd]
    assms [THEN arg_cong, of m_bReadEnable]
  by (simp_all add: tx_rest_def)

text \<open>\<^verbatim>\<open>packet\<close> changes even less.\<close>

definition pk_rest :: "pseudo_tcp \<Rightarrow> pseudo_tcp" where
  "pk_rest s = s\<lparr>m_ts_lastack := 0, m_t_ack := 0, m_lastsend := 0, m_lasttraffic := 0,
     m_bOutgoing := False, w_ticks := 0, w_events := []\<rparr>"

lemma pk_rest_upd [simp]:
  "pk_rest (s\<lparr>m_ts_lastack := a\<rparr>) = pk_rest s" "pk_rest (s\<lparr>m_t_ack := a\<rparr>) = pk_rest s"
  "pk_rest (s\<lparr>m_lastsend := a\<rparr>) = pk_rest s" "pk_rest (s\<lparr>m_lasttraffic := a\<rparr>) = pk_rest s"
  "pk_rest (s\<lparr>m_bOutgoing := b\<rparr>) = pk_rest s" "pk_rest (s\<lparr>w_ticks := n\<rparr>) = pk_rest s"
  "pk_rest (s\<lparr>w_events := es\<rparr>) = pk_rest s" "pk_rest (notify e s) = pk_rest s"
  by (simp_all add: pk_rest_def notify_def)

lemma pk_restD:
  assumes "pk_rest s' = pk_rest s"
  shows "tx_rest s' = tx_rest s" "m_slist s' = m_slist s" "m_snd_nxt s' = m_snd_nxt s"
    "m_mss s' = m_mss s" "m_msslevel s' = m_msslevel s" "m_cwnd s' = m_cwnd s" "m_rto_base s' = m_rto_base s"
proof -
  have "tx_rest s = tx_rest (pk_rest s)" for s by (simp add: tx_rest_def pk_rest_def)
  then show "tx_rest s' = tx_rest s" using assms by metis
qed (use assms [THEN arg_cong, of m_slist] assms [THEN arg_cong, of m_snd_nxt]
    assms [THEN arg_cong, of m_mss] assms [THEN arg_cong, of m_msslevel]
    assms [THEN arg_cong, of m_cwnd] assms [THEN arg_cong, of m_rto_base]
    in \<open>simp_all add: pk_rest_def\<close>)

section \<open>One packet\<close>

lemma packet_frame:
  "packet E seq flags off len s = Some (w, s') \<Longrightarrow> pk_rest s' = pk_rest s"
  by (auto simp: packet_def Now_def Let_def split: if_splits option.splits bind_splits)

lemma ReadOffset_full:
  assumes "open_fifo f" "off + n \<le> fb_data_length f" "0 < n"
  shows "ReadOffset n off f = (SR_SUCCESS, take n (drop off (fifo_contents f)))"
  using assms by (simp add: ReadOffset_def ReadOffset_spec open_fifo_def)

definition packet_header :: "tcp_env \<Rightarrow> u32 \<Rightarrow> u8 \<Rightarrow> pseudo_tcp \<Rightarrow> byte list" where
  "packet_header E seq flags s =
     (let h = env_big_endian E in
      long_to_bytes h (m_conv s) @ long_to_bytes h seq @ long_to_bytes h (m_rcv_nxt s)
      @ [0, flags] @ short_to_bytes h (ucast (drop_bit (unat (m_rwnd_scale s)) (m_rcv_wnd s)))
      @ long_to_bytes h (env_clock E (w_ticks s)) @ long_to_bytes h (m_ts_recent s))"

text \<open>When the payload lies in the send buffer and fits a packet, exactly one datagram goes out:
  the header and those bytes.\<close>

lemma packet_sends:
  assumes "open_fifo (m_sbuf s)" "unat off + unat len \<le> fb_data_length (m_sbuf s)"
    "unat len \<le> 65511" "unat (m_rwnd_scale s) < 32"
  obtains w s' where "packet E seq flags off len s = Some (w, s')" "pk_rest s' = pk_rest s"
    "w_events s' = TcpWritePacket (packet_header E seq flags s
        @ take (unat len) (drop (unat off) (fifo_contents (m_sbuf s)))) # w_events s"
    "len = 0 \<Longrightarrow> w = WR_SUCCESS"
proof -
  have rd: "ReadOffset (unat len) (unat off) (m_sbuf s) =
      (SR_SUCCESS, take (unat len) (drop (unat off) (fifo_contents (m_sbuf s))))" if "len \<noteq> 0"
    using assms(1,2) that by (intro ReadOffset_full) (auto simp: word_neq_0_conv word_less_nat_alt)
  have "packet E seq flags off len s \<noteq> None"
    using assms rd by (auto simp: packet_def size_consts Now_def shr32_def Let_def)
  then obtain w s' where p: "packet E seq flags off len s = Some (w, s')" by auto
  have "w_events s' = TcpWritePacket (packet_header E seq flags s
        @ take (unat len) (drop (unat off) (fifo_contents (m_sbuf s)))) # w_events s"
    using p assms rd
    by (cases "len = 0")
      (auto simp: packet_def size_consts Now_def shr32_def Let_def notify_def packet_header_def split: if_splits)
  moreover have "w = WR_SUCCESS" if "len = 0"
    using p that by (auto simp: packet_def Now_def Let_def split: if_splits bind_splits)
  ultimately show ?thesis using that p packet_frame [OF p] by blast
qed

section \<open>The segment list\<close>

definition seg_bytes :: "SSegment list \<Rightarrow> nat" where
  "seg_bytes l = (\<Sum>x\<leftarrow>l. unat (s_len x))"

definition sent_bytes :: "SSegment list \<Rightarrow> nat" where
  "sent_bytes l = seg_bytes (takeWhile (\<lambda>x. s_xmit x > 0) l)"

text \<open>The list starts at sequence number \<open>q\<close>, each segment begins where the one before ends, the
  transmitted ones come first, and only a last data segment that was never sent may be empty.\<close>

fun segs_ok :: "u32 \<Rightarrow> SSegment list \<Rightarrow> bool" where
  "segs_ok q [] \<longleftrightarrow> True"
| "segs_ok q (x # xs) \<longleftrightarrow>
     s_seq x = q \<and> (s_len x = 0 \<longrightarrow> xs = [] \<and> s_xmit x = 0 \<and> \<not> s_bCtrl x) \<and>
     (s_xmit x = 0 \<longrightarrow> list_all (\<lambda>y. s_xmit y = 0) xs) \<and> segs_ok (q + s_len x) xs"

lemma seg_bytes_simps [simp]:
  "seg_bytes [] = 0" "seg_bytes (x # xs) = unat (s_len x) + seg_bytes xs"
  "seg_bytes (xs @ ys) = seg_bytes xs + seg_bytes ys"
  by (simp_all add: seg_bytes_def)

lemma sent_bytes_simps [simp]:
  "sent_bytes [] = 0"
  "sent_bytes (x # xs) = (if s_xmit x > 0 then unat (s_len x) + sent_bytes xs else 0)"
  by (simp_all add: sent_bytes_def)

lemma sent_le_seg_bytes: "sent_bytes l \<le> seg_bytes l"
  by (induction l) auto

lemma unsent_sent_bytes: "list_all (\<lambda>y. s_xmit y = 0) l \<Longrightarrow> sent_bytes l = 0"
  by (cases l) auto

lemma sent_bytes_snoc: "s_xmit y = 0 \<Longrightarrow> sent_bytes (l @ [y]) = sent_bytes l"
  by (induction l) auto

lemma sent_bytes_append:
  "sent_bytes (xs @ ys) = (if list_all (\<lambda>y. s_xmit y > 0) xs then seg_bytes xs + sent_bytes ys else sent_bytes xs)"
  by (induction xs) auto

lemma segs_ok_append:
  "segs_ok q (xs @ ys) \<longleftrightarrow> segs_ok q xs \<and> segs_ok (q + word_of_nat (seg_bytes xs)) ys \<and>
     (ys \<noteq> [] \<longrightarrow> list_all (\<lambda>x. s_len x \<noteq> 0) xs) \<and>
     (list_ex (\<lambda>x. s_xmit x = 0) xs \<longrightarrow> list_all (\<lambda>y. s_xmit y = 0) ys)"
proof (induction xs arbitrary: q)
  case (Cons x xs)
  have "list_ex (\<lambda>x. s_xmit x = 0) xs \<longrightarrow> list_all (\<lambda>y. s_xmit y = 0) ys"
    if "list_all (\<lambda>y. s_xmit y = 0) (xs @ ys)" using that by simp
  then show ?case using Cons.IH [of "q + s_len x"]
    by (auto simp: list_ex_iff list_all_iff add.assoc)
qed simp

text \<open>Cutting an element in two keeps the list well formed when both parts are non-empty.\<close>

lemma segs_ok_split:
  assumes "segs_ok q (xs @ x # ys)" "0 < n" "n < s_len x"
    "y = x\<lparr>s_len := n\<rparr>" "z = (SSegment_new (s_seq x + n) (s_len x - n) c)\<lparr>s_xmit := s_xmit x\<rparr>"
  shows "segs_ok q (xs @ y # z # ys)" "seg_bytes (xs @ y # z # ys) = seg_bytes (xs @ x # ys)"
    "sent_bytes (xs @ y # z # ys) = sent_bytes (xs @ x # ys)"
proof -
  have ne: "s_len x - n \<noteq> 0" "n \<noteq> 0" using assms(2,3) by auto
  have sum: "unat n + unat (s_len x - n) = unat (s_len x)"
    using assms(3) by (simp add: unat_sub_le_nat less_imp_le word_less_nat_alt)
  show "seg_bytes (xs @ y # z # ys) = seg_bytes (xs @ x # ys)"
    "sent_bytes (xs @ y # z # ys) = sent_bytes (xs @ x # ys)"
    using sum assms(4,5) by (simp_all add: SSegment_new_def sent_bytes_append)
  show "segs_ok q (xs @ y # z # ys)"
    using assms ne by (auto simp: segs_ok_append SSegment_new_def add.assoc)
qed

text \<open>Counting one more transmission of a segment whose predecessors were all sent.\<close>

lemma segs_ok_sent:
  assumes "segs_ok q (xs @ x # ys)" "list_all (\<lambda>y. s_xmit y > 0) xs" "s_len x \<noteq> 0" "s_xmit x < 30"
    "y = x\<lparr>s_xmit := s_xmit x + 1\<rparr>"
  shows "segs_ok q (xs @ y # ys)" "seg_bytes (xs @ y # ys) = seg_bytes (xs @ x # ys)"
    "sent_bytes (xs @ y # ys) = sent_bytes (xs @ x # ys) + (if s_xmit x = 0 then unat (s_len x) else 0)"
proof -
  have "unat (s_xmit x + 1) = unat (s_xmit x) + 1"
    using assms(4) by (simp add: unat_word_ariths word_less_nat_alt)
  then have pos: "s_xmit x + 1 > 0" by (simp add: word_less_nat_alt)
  have no: "\<not> list_ex (\<lambda>x. s_xmit x = 0) xs" using assms(2) by (induction xs) auto
  have y: "s_seq y = s_seq x" "s_len y = s_len x" "s_xmit y \<noteq> 0" using assms(5) pos by auto
  show "segs_ok q (xs @ y # ys)" using assms(1,3) no y unfolding segs_ok_append by simp
  show "seg_bytes (xs @ y # ys) = seg_bytes (xs @ x # ys)" using assms by simp
  show "sent_bytes (xs @ y # ys) = sent_bytes (xs @ x # ys) + (if s_xmit x = 0 then unat (s_len x) else 0)"
    using assms pos by (auto simp: sent_bytes_append segs_ok_append unsent_sent_bytes word_gt_0)
qed

lemma first_unsent_Some:
  "first_unsent l = Some i \<Longrightarrow>
   i < length l \<and> s_xmit (l ! i) = 0 \<and> list_all (\<lambda>y. s_xmit y > 0) (take i l)"
  by (induction l arbitrary: i) (auto simp: word_gt_0 split: if_splits)

lemma first_unsent_exists:
  assumes "sent_bytes l < seg_bytes l"
  obtains i where "first_unsent l = Some i"
proof -
  have "\<exists>i. first_unsent l = Some i" using assms
    by (induction l) (auto split: if_splits)
  then show ?thesis using that by blast
qed

lemma first_unsent_nonempty:
  assumes "segs_ok q l" "first_unsent l = Some i" "sent_bytes l < seg_bytes l"
  shows "s_len (l ! i) \<noteq> 0"
  using assms by (induction l arbitrary: q i) (auto split: if_splits)

section \<open>The wire format of what is sent\<close>

lemma long_bytes [simp]: "long_to_bytes h v = be32 v" "length (be32 v) = 4"
  by (simp_all add: long_to_bytes_def be32_def)

lemma short_bytes [simp]: "short_to_bytes h v = be16 v" "length (be16 v) = 2"
  by (simp_all add: short_to_bytes_def be16_def)

lemma bytes_long [simp]: "bytes_to_long h (be32 v @ r) = v"
  by (simp add: bytes_to_long_def)

lemma bytes_short [simp]: "bytes_to_short h (be16 v @ r) = v"
  by (simp add: bytes_to_short_def)

lemma packet_header_bytes:
  "packet_header E seq flags s =
     be32 (m_conv s) @ be32 seq @ be32 (m_rcv_nxt s) @ [0, flags] @
     be16 (ucast (drop_bit (unat (m_rwnd_scale s)) (m_rcv_wnd s))) @
     be32 (env_clock E (w_ticks s)) @ be32 (m_ts_recent s)"
  by (simp add: packet_header_def Let_def)

lemma length_packet_header [simp]: "length (packet_header E seq flags s) = 24"
  by (simp add: packet_header_bytes)

text \<open>A datagram carries a slice of the buffered bytes: its payload is what the send buffer holds
  at the offset its sequence number names.\<close>

definition carries :: "tcp_env \<Rightarrow> pseudo_tcp \<Rightarrow> tcp_event \<Rightarrow> bool" where
  "carries E s e =
     (case e of
        TcpWritePacket b \<Rightarrow>
          (let p = drop 24 b; off = unat (bytes_to_long (env_big_endian E) (drop 4 b) - m_snd_una s)
           in 24 \<le> length b \<and> length b \<le> 65535 \<and>
              (p \<noteq> [] \<longrightarrow> off + length p \<le> GetBuffered (m_sbuf s) \<and>
                 p = take (length p) (drop off (fifo_contents (m_sbuf s)))))
      | _ \<Rightarrow> True)"

definition emits :: "tcp_env \<Rightarrow> pseudo_tcp \<Rightarrow> pseudo_tcp \<Rightarrow> bool" where
  "emits E s s' \<longleftrightarrow>
     (\<exists>new. w_events s' = new @ w_events s \<and> list_all (carries E s) new)"

lemma emits_refl [simp]: "w_events s' = w_events s \<Longrightarrow> emits E s s'"
  by (simp add: emits_def)

lemma carries_cong: "tx_rest s' = tx_rest s \<Longrightarrow> carries E s' = carries E s"
  using tx_restD [of s' s] by (simp add: carries_def fun_eq_iff split: tcp_event.splits)

lemma emits_trans:
  assumes "emits E s s1" "emits E s1 s2" "tx_rest s1 = tx_rest s"
  shows "emits E s s2"
proof -
  from assms(1,2) obtain n1 n2 where "w_events s1 = n1 @ w_events s" "list_all (carries E s) n1"
    "w_events s2 = n2 @ w_events s1" "list_all (carries E s1) n2" by (auto simp: emits_def)
  then have "w_events s2 = (n2 @ n1) @ w_events s" "list_all (carries E s) (n2 @ n1)"
    using carries_cong [OF assms(3)] by auto
  then show ?thesis unfolding emits_def by blast
qed

lemma emits_cong:
  assumes "emits E s s'" "w_events t = w_events s" "tx_rest t = tx_rest s" "w_events t' = w_events s'"
  shows "emits E t t'"
  using assms carries_cong [OF assms(3)] by (simp add: emits_def)

lemma packet_emits:
  assumes "open_fifo (m_sbuf s)" "len \<noteq> 0 \<Longrightarrow> off = seq - m_snd_una s"
    "unat off + unat len \<le> fb_data_length (m_sbuf s)"
    "unat len \<le> 65511" "unat (m_rwnd_scale s) < 32"
  obtains w s' where "packet E seq flags off len s = Some (w, s')" "pk_rest s' = pk_rest s"
    "emits E s s'"
proof -
  let ?p = "take (unat len) (drop (unat off) (fifo_contents (m_sbuf s)))"
  from packet_sends [OF assms(1,3-5)] obtain w s' where p: "packet E seq flags off len s = Some (w, s')"
    "pk_rest s' = pk_rest s" "w_events s' = TcpWritePacket (packet_header E seq flags s @ ?p) # w_events s"
    by blast
  have "length ?p = unat len" using assms(3) by simp
  moreover have "bytes_to_long h (drop 4 (packet_header E seq flags s @ ?p)) = seq" for h
    by (simp add: packet_header_bytes)
  moreover have "off = seq - m_snd_una s" if "?p \<noteq> []" using that assms(2) by (cases "len = 0") auto
  ultimately have "carries E s (TcpWritePacket (packet_header E seq flags s @ ?p))"
    using assms(3,4) unfolding carries_def Let_def tcp_event.case by (auto simp: GetBuffered_def)
  with p have "emits E s s'" unfolding emits_def by (intro exI [of _ "[_]"]) auto
  with p that show ?thesis by blast
qed

section \<open>The sender's invariant\<close>

definition sender_ok :: "pseudo_tcp \<Rightarrow> bool" where [inv_defs]:
  "sender_ok s \<longleftrightarrow> open_fifo (m_sbuf s) \<and> fb_buffer_length (m_sbuf s) < 2 ^ 32 \<and>
     segs_ok (m_snd_una s) (m_slist s) \<and> seg_bytes (m_slist s) = GetBuffered (m_sbuf s) \<and>
     sent_bytes (m_slist s) = unat (m_snd_nxt s - m_snd_una s)"

definition mss_ok :: "pseudo_tcp \<Rightarrow> bool" where [inv_defs]:
  "mss_ok s \<longleftrightarrow> unat (m_msslevel s) \<le> 9 \<and> 0 < unat (m_mss s) \<and> unat (m_mss s) \<le> 65419 \<and>
     unat (m_rwnd_scale s) < 32"

lemma mss_ok_pk: "pk_rest s' = pk_rest s \<Longrightarrow> mss_ok s' = mss_ok s"
  using pk_restD [of s' s] tx_restD [of s' s] by (simp add: mss_ok_def)

lemma PACKET_MAXIMUMS_range:
  assumes "l < 9"
  shows "116 < unat (PACKET_MAXIMUMS ! Suc l)" "unat (PACKET_MAXIMUMS ! Suc l) \<le> 65535"
proof -
  have "list_all (\<lambda>x. 116 < unat x \<and> unat x \<le> 65535) (take 9 (tl PACKET_MAXIMUMS))"
    by (simp add: PACKET_MAXIMUMS_def)
  moreover have "PACKET_MAXIMUMS ! Suc l = take 9 (tl PACKET_MAXIMUMS) ! l"
    "l < length (take 9 (tl PACKET_MAXIMUMS))"
    using assms by (simp_all add: nth_tl) (simp_all add: PACKET_MAXIMUMS_def)
  ultimately show "116 < unat (PACKET_MAXIMUMS ! Suc l)" "unat (PACKET_MAXIMUMS ! Suc l) \<le> 65535"
    unfolding list_all_length by simp_all
qed

lemma next_mss_ok:
  assumes "mss_ok s" "0 < unat n"
  shows "next_mss n s = Some None \<or>
    (\<exists>n' s'. next_mss n s = Some (Some (n', s')) \<and> 0 < unat n' \<and> unat n' < unat n \<and> mss_ok s' \<and>
       tx_rest s' = tx_rest s \<and> m_slist s' = m_slist s \<and> m_snd_nxt s' = m_snd_nxt s \<and>
       w_events s' = w_events s \<and> m_rto_base s' = m_rto_base s)"
  using assms
proof (induction n s rule: next_mss.induct)
  case (1 n s)
  let ?l = "unat (m_msslevel s)"
  show ?case
  proof (cases "PACKET_MAXIMUMS ! (?l + 1) = 0")
    case True
    with 1 show ?thesis
      by (subst (1) next_mss.simps) (simp add: mss_ok_def PACKET_MAXIMUMS_def)
  next
    case False
    then have l: "?l < 9" using 1(2) by (auto simp: mss_ok_def PACKET_MAXIMUMS_def le_less)
    then have suc: "unat (m_msslevel s + 1) = ?l + 1" by (simp add: unat_word_ariths)
    define m where "m = PACKET_MAXIMUMS ! (?l + 1) - PACKET_OVERHEAD"
    define s' where "s' = s\<lparr>m_msslevel := m_msslevel s + 1, m_mss := m, m_cwnd := 2 * m\<rparr>"
    have m: "0 < unat m" "unat m \<le> 65419"
      using PACKET_MAXIMUMS_range [OF l]
      by (simp_all add: m_def size_consts unat_sub_le_nat word_le_nat_alt)
    have s': "mss_ok s'" "tx_rest s' = tx_rest s" "m_slist s' = m_slist s" "m_snd_nxt s' = m_snd_nxt s"
      "w_events s' = w_events s" "m_rto_base s' = m_rto_base s"
      using 1(2) l suc m by (simp_all add: s'_def mss_ok_def)
    have step: "next_mss n s = (if m < n then Some (Some (m, s')) else next_mss n s')"
      using False l by (subst next_mss.simps)
        (simp add: PACKET_MAXIMUMS_def Let_def s'_def m_def suc)
    show ?thesis
    proof (cases "m < n")
      case True
      with step s' m show ?thesis by (auto simp: word_less_nat_alt)
    next
      case neg: False
      have "next_mss n s' = Some None \<or>
        (\<exists>n' s''. next_mss n s' = Some (Some (n', s'')) \<and> 0 < unat n' \<and> unat n' < unat n \<and> mss_ok s'' \<and>
           tx_rest s'' = tx_rest s' \<and> m_slist s'' = m_slist s' \<and> m_snd_nxt s'' = m_snd_nxt s' \<and>
           w_events s'' = w_events s' \<and> m_rto_base s'' = m_rto_base s')"
        using False l neg s' 1(3)
        by (intro 1(1) [OF _ False refl]) (simp_all add: PACKET_MAXIMUMS_def s'_def m_def suc)
      with step neg s' show ?thesis by simp
    qed
  qed
qed

section \<open>Transmitting a segment\<close>

lemma transmit_loop_ok:
  assumes "open_fifo (m_sbuf s)" "mss_ok s" "0 < unat n" "unat n \<le> 65511"
    "unat (s_seq seg - m_snd_una s) + unat n \<le> fb_data_length (m_sbuf s)"
  shows "\<exists>b n' s'. transmit_loop E seg n s = Some (b, n', s') \<and> 0 < unat n' \<and> unat n' \<le> unat n \<and>
    mss_ok s' \<and> tx_rest s' = tx_rest s \<and> m_slist s' = m_slist s \<and> m_snd_nxt s' = m_snd_nxt s \<and>
    m_rto_base s' = m_rto_base s \<and> emits E s s'"
  using assms
proof (induction E seg n s rule: transmit_loop.induct)
  case (1 E seg n s)
  let ?fl = "if s_bCtrl seg then FLAG_CTL else 0"
  have sc: "unat (m_rwnd_scale s) < 32" using 1(3) by (simp add: mss_ok_def)
  from packet_emits [OF 1(2) refl 1(6,5) sc]
  obtain w s1 where p: "packet E (s_seq seg) ?fl (s_seq seg - m_snd_una s) n s = Some (w, s1)"
    "pk_rest s1 = pk_rest s" and em: "emits E s s1" by blast
  note pk = pk_restD [OF p(2)]
  have s1: "mss_ok s1" "m_sbuf s1 = m_sbuf s" "m_snd_una s1 = m_snd_una s"
    using mss_ok_pk [OF p(2)] 1(3) tx_restD [OF pk(1)] by simp_all
  show ?case
  proof (cases w)
    case WR_TOO_LARGE
    from next_mss_ok [OF s1(1) 1(4)] consider "next_mss n s1 = Some None" |
      n' s2 where "next_mss n s1 = Some (Some (n', s2))" "0 < unat n'" "unat n' < unat n" "mss_ok s2"
        "tx_rest s2 = tx_rest s1" "m_slist s2 = m_slist s1" "m_snd_nxt s2 = m_snd_nxt s1"
        "w_events s2 = w_events s1" "m_rto_base s2 = m_rto_base s1" by blast
    then show ?thesis
    proof cases
      case 1
      with p WR_TOO_LARGE s1 pk em \<open>0 < unat n\<close> show ?thesis
        by (subst transmit_loop.simps) auto
    next
      case (2 n' s2)
      note r = tx_restD [OF 2(5)]
      have step: "transmit_loop E seg n s = transmit_loop E seg n' s2"
        using p(1) WR_TOO_LARGE 2(1) by (subst transmit_loop.simps) simp
      have em2: "emits E s s2" using em 2(8) by (simp add: emits_def)
      have "\<exists>b m s'. transmit_loop E seg n' s2 = Some (b, m, s') \<and> 0 < unat m \<and> unat m \<le> unat n' \<and>
          mss_ok s' \<and> tx_rest s' = tx_rest s2 \<and> m_slist s' = m_slist s2 \<and> m_snd_nxt s' = m_snd_nxt s2 \<and>
          m_rto_base s' = m_rto_base s2 \<and> emits E s2 s'"
        using 1(2-6) 2 s1 r WR_TOO_LARGE by (intro 1(1) [OF p(1) refl _ 2(1)]) auto
      then obtain b m s' where "transmit_loop E seg n' s2 = Some (b, m, s')" "0 < unat m"
        "unat m \<le> unat n'" "mss_ok s'" "tx_rest s' = tx_rest s2" "m_slist s' = m_slist s2"
        "m_snd_nxt s' = m_snd_nxt s2" "m_rto_base s' = m_rto_base s2" and em3: "emits E s2 s'" by blast
      moreover have "emits E s s'" using emits_trans [OF em2 em3] 2(5) pk(1) by simp
      ultimately show ?thesis using step 2 pk by auto
    qed
  qed (use p s1 pk em 1(4) in \<open>subst transmit_loop.simps, auto\<close>)+
qed

text \<open>The segment to transmit sits after segments that have all been sent; that is the front of
  the list for a retransmission and the first unsent segment otherwise.\<close>

lemma seg_offset:
  assumes "sender_ok s" "m_slist s = xs @ x # ys"
  shows "unat (s_seq x - m_snd_una s) = seg_bytes xs"
    "seg_bytes xs + unat (s_len x) + seg_bytes ys = fb_data_length (m_sbuf s)"
proof -
  show sum: "seg_bytes xs + unat (s_len x) + seg_bytes ys = fb_data_length (m_sbuf s)"
    using assms by (simp add: sender_ok_def GetBuffered_def)
  have "fb_data_length (m_sbuf s) < 2 ^ 32"
    using assms(1) by (auto simp: sender_ok_def open_fifo_def fifo_ok_def)
  then have "seg_bytes xs < 2 ^ LENGTH(32)" using sum by simp
  moreover have "s_seq x = m_snd_una s + word_of_nat (seg_bytes xs)"
    using assms by (simp add: sender_ok_def segs_ok_append)
  ultimately show "unat (s_seq x - m_snd_una s) = seg_bytes xs"
    by (simp add: unat_of_nat_lt)
qed

definition in_flight :: "pseudo_tcp \<Rightarrow> nat" where
  "in_flight s = unat (m_snd_nxt s - m_snd_una s)"

lemma in_flight_add:
  assumes "in_flight s + unat n < 2 ^ 32"
  shows "unat (m_snd_nxt s + n - m_snd_una s) = in_flight s + unat n"
proof -
  have "unat (m_snd_nxt s + n - m_snd_una s) = unat ((m_snd_nxt s - m_snd_una s) + n)"
    by (rule arg_cong [of _ _ unat]) simp
  then show ?thesis
    using assms unat_add_lem [of "m_snd_nxt s - m_snd_una s" n] by (simp add: in_flight_def)
qed

text \<open>The list after a transmission of \<open>n\<close> bytes of \<open>x\<close>, as \<^verbatim>\<open>transmit\<close> builds it.\<close>

definition sent_segs :: "u32 \<Rightarrow> SSegment \<Rightarrow> SSegment list" where
  "sent_segs n x =
     (if n < s_len x
      then [x\<lparr>s_len := n, s_xmit := s_xmit x + 1\<rparr>,
            (SSegment_new (s_seq x + n) (s_len x - n) (s_bCtrl x))\<lparr>s_xmit := s_xmit x\<rparr>]
      else [x\<lparr>s_xmit := s_xmit x + 1\<rparr>])"

lemma sent_segs_ok:
  assumes "segs_ok q (xs @ x # ys)" "list_all (\<lambda>y. s_xmit y > 0) xs" "s_len x \<noteq> 0" "s_xmit x < 30"
    "0 < n" "n \<le> s_len x"
  shows "segs_ok q (xs @ sent_segs n x @ ys)" "seg_bytes (xs @ sent_segs n x @ ys) = seg_bytes (xs @ x # ys)"
    "sent_bytes (xs @ sent_segs n x @ ys) = sent_bytes (xs @ x # ys) + (if s_xmit x = 0 then unat n else 0)"
proof (atomize (full), cases "n < s_len x")
  case True
  define y where "y = x\<lparr>s_len := n\<rparr>"
  define z where "z = (SSegment_new (s_seq x + n) (s_len x - n) (s_bCtrl x))\<lparr>s_xmit := s_xmit x\<rparr>"
  note split = segs_ok_split [OF assms(1,5) True y_def z_def]
  have "s_len y \<noteq> 0" "s_xmit y < 30" using assms(4,5) by (auto simp: y_def)
  note sent = segs_ok_sent [OF split(1) assms(2) this refl]
  show "segs_ok q (xs @ sent_segs n x @ ys) \<and> seg_bytes (xs @ sent_segs n x @ ys) = seg_bytes (xs @ x # ys) \<and>
      sent_bytes (xs @ sent_segs n x @ ys) = sent_bytes (xs @ x # ys) + (if s_xmit x = 0 then unat n else 0)"
    using True sent split(2,3) by (simp add: sent_segs_def y_def z_def)
next
  case False
  then have "n = s_len x" using assms(6) by simp
  with segs_ok_sent [OF assms(1-4) refl]
  show "segs_ok q (xs @ sent_segs n x @ ys) \<and> seg_bytes (xs @ sent_segs n x @ ys) = seg_bytes (xs @ x # ys) \<and>
      sent_bytes (xs @ sent_segs n x @ ys) = sent_bytes (xs @ x # ys) + (if s_xmit x = 0 then unat n else 0)"
    by (simp add: sent_segs_def)
qed

lemma transmit_step:
  assumes "m_slist s = xs @ x # ys" "transmit_loop E x (min (s_len x) (m_mss s)) s = Some (b, n, s1)"
    "m_slist s1 = m_slist s" "s_xmit x < (if m_state s = TCP_ESTABLISHED then 15 else 30)" "n \<le> s_len x"
  shows "transmit E (length xs) now s = Some (b, if b then
    s1\<lparr>m_snd_nxt := m_snd_nxt s1 + (if s_xmit x = 0 then n else 0),
       m_slist := xs @ sent_segs n x @ ys,
       m_rto_base := (if m_rto_base s1 = 0 then now else m_rto_base s1)\<rparr> else s1)"
proof -
  have "\<not> (if m_state s = TCP_ESTABLISHED then 15 else 30) \<le> s_xmit x" using assms(4) by simp
  moreover have "take (length xs) (m_slist s1) = xs" "drop (Suc (length xs)) (m_slist s1) = ys"
    using assms(1,3) by simp_all
  moreover have "n = s_len x" if "\<not> n < s_len x" using that assms(5) by simp
  ultimately show ?thesis
    using assms(1,2) by (cases b; cases "n < s_len x"; cases "s_xmit x = 0"; cases "m_rto_base s1 = 0")
      (simp_all add: transmit_def sent_segs_def Let_def)
qed

text \<open>What every sending operation guarantees: it ends in a state that satisfies the invariant,
  touches nothing but the members listed above, lets through only datagrams that carry buffered
  bytes, and does not take bytes out of flight.\<close>

definition sends :: "tcp_env \<Rightarrow> pseudo_tcp \<Rightarrow> pseudo_tcp \<Rightarrow> bool" where
  "sends E s s' \<longleftrightarrow> sender_ok s' \<and> mss_ok s' \<and> tx_rest s' = tx_rest s \<and> emits E s s' \<and>
     in_flight s \<le> in_flight s' \<and> (m_rto_base s' \<noteq> 0 \<longrightarrow> m_rto_base s \<noteq> 0 \<or> 0 < in_flight s')"

lemma sendsI:
  "sender_ok s' \<Longrightarrow> mss_ok s' \<Longrightarrow> tx_rest s' = tx_rest s \<Longrightarrow> emits E s s' \<Longrightarrow>
   in_flight s \<le> in_flight s' \<Longrightarrow> (m_rto_base s' \<noteq> 0 \<Longrightarrow> m_rto_base s \<noteq> 0 \<or> 0 < in_flight s') \<Longrightarrow>
   sends E s s'"
  by (simp add: sends_def)

lemma sendsD:
  assumes "sends E s s'"
  shows "sender_ok s'" "mss_ok s'" "tx_rest s' = tx_rest s" "emits E s s'" "in_flight s \<le> in_flight s'"
    "m_rto_base s' \<noteq> 0 \<Longrightarrow> m_rto_base s \<noteq> 0 \<or> 0 < in_flight s'"
  using assms by (simp_all add: sends_def)

lemma sends_trans:
  assumes "sends E s s1" "sends E s1 s2"
  shows "sends E s s2"
  using assms emits_trans [of E s s1 s2] by (auto simp: sends_def)

lemma transmit_ok:
  assumes ok: "sender_ok s" "mss_ok s"
    and l: "m_slist s = xs @ x # ys" "list_all (\<lambda>y. s_xmit y > 0) xs" "s_len x \<noteq> 0"
  obtains b s' where "transmit E (length xs) now s = Some (b, s')" "sends E s s'"
    "b \<Longrightarrow> s_xmit x = 0 \<Longrightarrow> in_flight s < in_flight s'"
proof (cases "s_xmit x < (if m_state s = TCP_ESTABLISHED then 15 else 30)")
  case False
  then have "transmit E (length xs) now s = Some (False, s)" using l by (simp add: transmit_def not_less)
  moreover have "sends E s s" using ok by (simp add: sends_def)
  ultimately show ?thesis by (intro that [of False s]) simp_all
next
  case True
  then have x30: "s_xmit x < 30" by (simp add: word_less_nat_alt split: if_splits)
  let ?n = "min (s_len x) (m_mss s)"
  note off = seg_offset [OF ok(1) l(1)]
  have op: "open_fifo (m_sbuf s)" using ok(1) by (simp add: sender_ok_def)
  have n0: "0 < unat ?n" "unat ?n \<le> 65511" "?n \<le> s_len x"
    using ok(2) l(3) by (auto simp: mss_ok_def min_def word_le_nat_alt unat_gt_0)
  then have "unat (s_seq x - m_snd_una s) + unat ?n \<le> fb_data_length (m_sbuf s)"
    using off by (simp add: word_le_nat_alt)
  from transmit_loop_ok [OF op ok(2) n0(1,2) this]
  obtain b n s1 where tl: "transmit_loop E x ?n s = Some (b, n, s1)" "0 < unat n" "unat n \<le> unat ?n"
    and s1: "mss_ok s1" "tx_rest s1 = tx_rest s" "m_slist s1 = m_slist s" "m_snd_nxt s1 = m_snd_nxt s"
      "m_rto_base s1 = m_rto_base s" "emits E s s1" by blast
  note r = tx_restD [OF s1(2)]
  have n: "0 < n" "n \<le> s_len x" using tl(2,3) n0(3) by (auto simp: word_less_nat_alt word_le_nat_alt)
  let ?s' = "s1\<lparr>m_snd_nxt := m_snd_nxt s1 + (if s_xmit x = 0 then n else 0),
       m_slist := xs @ sent_segs n x @ ys, m_rto_base := (if m_rto_base s1 = 0 then now else m_rto_base s1)\<rparr>"
  note step = transmit_step [OF l(1) tl(1) s1(3) True n(2), of now]
  have sok: "segs_ok (m_snd_una s) (xs @ x # ys)" "sent_bytes (xs @ x # ys) = in_flight s"
    "fb_data_length (m_sbuf s) < 2 ^ 32"
    using ok(1) l(1) by (auto simp: sender_ok_def in_flight_def open_fifo_def fifo_ok_def)
  note segs = sent_segs_ok [OF sok(1) l(2,3) x30 n]
  have sent_le: "sent_bytes (xs @ sent_segs n x @ ys) < 2 ^ 32"
    using sent_le_seg_bytes [of "xs @ sent_segs n x @ ys"] segs(2) off(2) sok(3) by simp
  have fl: "in_flight ?s' = in_flight s + (if s_xmit x = 0 then unat n else 0)"
    using in_flight_add [of s n] sent_le segs(3) sok(2) s1(4) r(2) by (simp add: in_flight_def split: if_splits)
  have ok': "sender_ok ?s'"
    using ok(1) segs sok(2) fl r(1,2) l(1) by (simp add: sender_ok_def in_flight_def)
  show ?thesis
  proof (cases b)
    case True
    have "mss_ok ?s'" using s1(1) by (simp add: mss_ok_def)
    moreover have "tx_rest ?s' = tx_rest s" "emits E s ?s'" using s1 by (simp_all add: emits_def)
    moreover have "0 < in_flight ?s'"
    proof (cases "s_xmit x = 0")
      case False
      then have "0 < sent_bytes (xs @ x # ys)"
        using l(2,3) by (simp add: sent_bytes_append word_gt_0 unat_gt_0)
      with sok(2) fl show ?thesis by simp
    qed (use fl tl(2) in simp)
    ultimately have "sends E s ?s'" using ok' fl by (intro sendsI) simp_all
    with True step fl tl(2) show ?thesis by (intro that [of True ?s']) simp_all
  next
    case False
    have "sender_ok s1" "in_flight s1 = in_flight s" using ok(1) s1 r by (simp_all add: sender_ok_def in_flight_def)
    then have "sends E s s1" using s1 by (simp add: sends_def)
    with False step show ?thesis by (intro that [of False s1]) simp_all
  qed
qed

section \<open>Sending what the windows allow\<close>

lemma sender_in_flight:
  assumes "sender_ok s"
  shows "in_flight s = sent_bytes (m_slist s)" "in_flight s \<le> GetBuffered (m_sbuf s)"
    "GetBuffered (m_sbuf s) < 2 ^ 32"
  using assms sent_le_seg_bytes [of "m_slist s"]
  by (auto simp: sender_ok_def in_flight_def open_fifo_def fifo_ok_def GetBuffered_def)

lemma unsent_word:
  assumes "sender_ok s"
  shows "unat (word_of_nat (GetBuffered (m_sbuf s)) - (m_snd_nxt s - m_snd_una s)) =
    GetBuffered (m_sbuf s) - in_flight s"
proof -
  note f = sender_in_flight [OF assms]
  have b: "unat (word_of_nat (GetBuffered (m_sbuf s)) :: u32) = GetBuffered (m_sbuf s)"
    using f(3) by (intro unat_of_nat_lt) simp
  have "m_snd_nxt s - m_snd_una s \<le> word_of_nat (GetBuffered (m_sbuf s))"
    using f(2) b by (simp add: word_le_nat_alt in_flight_def)
  from unat_sub_le_nat [OF this] b show ?thesis by (simp add: in_flight_def)
qed

lemma send_available_bounds:
  assumes "sender_ok s"
  shows "unat (send_available s) \<le> GetBuffered (m_sbuf s) - in_flight s"
    "unat (send_available s) \<le> unat (m_mss s)"
proof -
  define a :: u32 where "a = word_of_nat (GetBuffered (m_sbuf s)) - (m_snd_nxt s - m_snd_una s)"
  have a: "unat a = GetBuffered (m_sbuf s) - in_flight s"
    using unsent_word [OF assms] by (simp add: a_def)
  have "send_available s \<le> min a (m_mss s)"
    unfolding send_available_def Let_def std_min_eq a_def [symmetric] by (auto simp: not_less)
  then have "send_available s \<le> a" "send_available s \<le> m_mss s" by auto
  then show "unat (send_available s) \<le> GetBuffered (m_sbuf s) - in_flight s"
    "unat (send_available s) \<le> unat (m_mss s)" using a by (simp_all add: word_le_nat_alt)
qed

text \<open>The segment that \<^verbatim>\<open>attemptSend\<close> picks, cut to the available window.\<close>

lemma pick_segment:
  assumes "sender_ok s" "mss_ok s" "send_available s \<noteq> 0"
  obtains i xs x ys where "first_unsent (m_slist s) = Some i" "i = length xs"
    "list_all (\<lambda>y. s_xmit y > 0) xs" "s_len x \<noteq> 0" "s_xmit x = 0"
    "break_segment i (send_available s) s = s\<lparr>m_slist := xs @ x # ys\<rparr>"
    "sender_ok (s\<lparr>m_slist := xs @ x # ys\<rparr>)"
proof -
  let ?n = "send_available s" and ?l = "m_slist s"
  have n: "0 < ?n" using assms(3) by (simp add: word_gt_0)
  then have "sent_bytes ?l < seg_bytes ?l"
    using send_available_bounds(1) [OF assms(1)] assms(1) sender_in_flight(1) [OF assms(1)]
    by (simp add: sender_ok_def word_less_nat_alt)
  with assms(1) obtain i where i: "first_unsent ?l = Some i" "s_len (?l ! i) \<noteq> 0"
    using first_unsent_exists first_unsent_nonempty unfolding sender_ok_def by metis
  note fu = first_unsent_Some [OF i(1)]
  then have l: "?l = take i ?l @ ?l ! i # drop (Suc i) ?l" "length (take i ?l) = i"
    by (auto simp: id_take_nth_drop)
  show ?thesis
  proof (cases "s_len (?l ! i) > ?n")
    case False
    then show ?thesis using i fu l assms(1)
      by (intro that [of i "take i ?l" "?l ! i" "drop (Suc i) ?l"]) (simp_all add: break_segment_def)
  next
    case True
    define y where "y = (?l ! i)\<lparr>s_len := ?n\<rparr>"
    define z where "z = (SSegment_new (s_seq (?l ! i) + ?n) (s_len (?l ! i) - ?n) (s_bCtrl (?l ! i)))
        \<lparr>s_xmit := s_xmit (?l ! i)\<rparr>"
    have ok: "segs_ok (m_snd_una s) (take i ?l @ ?l ! i # drop (Suc i) ?l)"
      using assms(1) l(1) by (simp add: sender_ok_def)
    note sp = segs_ok_split [OF ok n True y_def z_def]
    have "z = SSegment_new (s_seq (?l ! i) + ?n) (s_len (?l ! i) - ?n) (s_bCtrl (?l ! i))"
      using fu by (simp add: z_def SSegment_new_def)
    moreover have "sender_ok (s\<lparr>m_slist := take i ?l @ y # z # drop (Suc i) ?l\<rparr>)"
      using assms(1) sp l(1) by (simp add: sender_ok_def)
    ultimately show ?thesis using True i fu l n
      by (intro that [of i "take i ?l" y "z # drop (Suc i) ?l"]) (auto simp: y_def Let_def break_segment_def)
  qed
qed

lemma ack_packet_ok:
  assumes "sender_ok s" "mss_ok s"
  obtains s' where "map_option snd (packet E seq 0 0 0 s) = Some s'" "pk_rest s' = pk_rest s" "emits E s s'"
proof -
  from assms have op: "open_fifo (m_sbuf s)" "unat (m_rwnd_scale s) < 32"
    by (simp_all add: sender_ok_def mss_ok_def)
  obtain w s' where "packet E seq 0 0 0 s = Some (w, s')" "pk_rest s' = pk_rest s" "emits E s s'"
    by (rule packet_emits [where s = s and len = 0 and off = 0 and seq = seq and flags = 0 and E = E])
      (use op in auto)
  with that show ?thesis by simp
qed

lemma sender_ok_pk: "pk_rest s' = pk_rest s \<Longrightarrow> sender_ok s' = sender_ok s"
  using pk_restD [of s' s] tx_restD [of s' s] by (simp add: sender_ok_def)

lemma sends_pk:
  assumes "pk_rest s' = pk_rest s" "emits E s s'" "sender_ok s" "mss_ok s"
  shows "sends E s s'"
proof -
  note p = pk_restD [OF assms(1)]
  have "in_flight s' = in_flight s" using p tx_restD(2) [OF p(1)] by (simp add: in_flight_def)
  then show ?thesis
    using assms(2-4) p(1,7) sender_ok_pk [OF assms(1)] mss_ok_pk [OF assms(1)] by (simp add: sends_def)
qed

text \<open>One round per unsent byte, and one more, is enough fuel: the loop returns.\<close>

lemma attempt_send_loop_ok:
  assumes "sender_ok s" "mss_ok s" "GetBuffered (m_sbuf s) - in_flight s < fuel"
  shows "\<exists>s'. attempt_send_loop fuel E now sflags s = Some s' \<and> sends E s s'"
  using assms
proof (induction fuel arbitrary: s sflags)
  case (Suc fuel)
  let ?n = "send_available s"
  show ?case
  proof (cases "?n = 0")
    case True
    from ack_packet_ok [OF Suc.prems(1,2)] obtain s' where
      "map_option snd (packet E (m_snd_nxt s) 0 0 0 s) = Some s'" "pk_rest s' = pk_rest s" "emits E s s'"
      by blast
    note ack = this
    define t where "t = s\<lparr>w_ticks := Suc (w_ticks s), m_t_ack := env_clock E (w_ticks s)\<rparr>"
    have t: "pk_rest t = pk_rest s" "emits E s t" by (simp_all add: t_def)
    have "attempt_send_loop (Suc fuel) E now sflags s =
        (if sflags = sfNone then Some s
         else if sflags = sfImmediateAck \<or> m_t_ack s \<noteq> 0 then Some s' else Some t)"
      using True ack(1) by (simp add: Let_def Now_def t_def)
    then obtain u where u: "attempt_send_loop (Suc fuel) E now sflags s = Some u"
      "pk_rest u = pk_rest s" "emits E s u"
      using t ack(2,3) by (metis emits_refl)
    then have "sends E s u" using Suc.prems by (intro sends_pk)
    with u(1) show ?thesis by blast
  next
    case False
    show ?thesis
    proof (cases "m_use_nagling s \<and> m_snd_nxt s > m_snd_una s \<and> ?n < m_mss s")
      case True
      then show ?thesis using False Suc.prems sends_pk [of s s] by (auto simp: Let_def)
    next
      case nagle: False
      obtain i xs x ys where pick: "first_unsent (m_slist s) = Some i" "i = length xs"
        "list_all (\<lambda>y. s_xmit y > 0) xs" "s_len x \<noteq> 0" "s_xmit x = 0"
        "break_segment i ?n s = s\<lparr>m_slist := xs @ x # ys\<rparr>" "sender_ok (s\<lparr>m_slist := xs @ x # ys\<rparr>)"
        by (rule pick_segment [OF Suc.prems(1,2) False])
      let ?s1 = "s\<lparr>m_slist := xs @ x # ys\<rparr>"
      have s1: "mss_ok ?s1" "m_slist ?s1 = xs @ x # ys" "tx_rest ?s1 = tx_rest s" "in_flight ?s1 = in_flight s"
        using Suc.prems(2) by (simp_all add: mss_ok_def in_flight_def)
      obtain b s2 where tr: "transmit E (length xs) now ?s1 = Some (b, s2)" "sends E ?s1 s2"
        "b \<Longrightarrow> s_xmit x = 0 \<Longrightarrow> in_flight ?s1 < in_flight s2"
        using transmit_ok [OF pick(7) s1(1,2) pick(3,4), of E now] by metis
      note sd1 = sendsD [OF tr(2)]
      have "sends E s ?s1" using pick(7) s1 by (simp add: sends_def)
      then have sd: "sends E s s2" using tr(2) by (rule sends_trans)
      have step: "attempt_send_loop (Suc fuel) E now sflags s =
          (if b then attempt_send_loop fuel E now sfNone s2 else Some s2)"
        using False nagle pick(1,2,6) tr(1) by (auto simp: Let_def)
      show ?thesis
      proof (cases b)
        case True
        have "GetBuffered (m_sbuf s2) = GetBuffered (m_sbuf s)" using tx_restD(1) [OF sd1(3)] by simp
        then have "GetBuffered (m_sbuf s2) - in_flight s2 < fuel"
          using tr(3) [OF True pick(5)] s1(4) Suc.prems(3) sender_in_flight(2) [OF sd1(1)] by simp
        from Suc.IH [OF sd1(1,2) this, of sfNone] sends_trans [OF sd] step True show ?thesis by auto
      qed (use step sd in simp)
    qed
  qed
qed simp

lemma attemptSend_ok:
  assumes "sender_ok s" "mss_ok s"
  obtains s' where "attemptSend E sflags s = Some s'" "sends E s s'"
proof -
  define now where "now = env_clock E (w_ticks s)"
  define s1 where "s1 = (let s0 = s\<lparr>w_ticks := Suc (w_ticks s)\<rparr> in
    if TimeDiff now (m_lastsend s) > int (unat (m_rx_rto s)) then s0\<lparr>m_cwnd := m_mss s\<rparr> else s0)"
  have s1: "sender_ok s1" "mss_ok s1" "tx_rest s1 = tx_rest s" "w_events s1 = w_events s"
    "in_flight s1 = in_flight s"
    "m_rto_base s1 = m_rto_base s"
    using assms by (auto simp: s1_def sender_ok_def mss_ok_def in_flight_def Let_def)
  have "attemptSend E sflags s = attempt_send_loop (Suc (GetBuffered (m_sbuf s1))) E now sflags s1"
    unfolding attemptSend_def Now_def
    by (auto simp: s1_def now_def Let_def simp del: attempt_send_loop.simps)
  moreover have "GetBuffered (m_sbuf s1) - in_flight s1 < Suc (GetBuffered (m_sbuf s1))" by simp
  ultimately obtain s' where "attemptSend E sflags s = Some s'" "sends E s1 s'"
    using attempt_send_loop_ok [OF s1(1,2)] by metis
  moreover have "sends E s s1" using s1 by (simp add: sends_def)
  ultimately show ?thesis using that sends_trans by blast
qed

section \<open>Queueing data\<close>

text \<open>\<^verbatim>\<open>queue\<close> accepts what fits into the send buffer and appends it to the bytes waiting there.\<close>

lemma segs_ok_extend_last:
  assumes "segs_ok q l" "l \<noteq> []" "s_xmit (last l) = 0" "unat (s_len (last l)) + n < 2 ^ 32"
    "y = (last l)\<lparr>s_len := s_len (last l) + word_of_nat n\<rparr>"
  shows "segs_ok q (butlast l @ [y])" "seg_bytes (butlast l @ [y]) = seg_bytes l + n"
    "sent_bytes (butlast l @ [y]) = sent_bytes l"
proof -
  have l: "l = butlast l @ [last l]" using assms(2) by simp
  have n: "unat (word_of_nat n :: u32) = n" using assms(4) by (intro unat_of_nat_lt) simp
  then have y: "unat (s_len y) = unat (s_len (last l)) + n"
    using assms(4,5) unat_add_lem [of "s_len (last l)" "word_of_nat n"] by simp
  show "seg_bytes (butlast l @ [y]) = seg_bytes l + n" using l y
    by (metis (no_types, lifting) seg_bytes_simps add.assoc add.right_neutral)
  have "s_xmit y = 0" "s_seq y = s_seq (last l)" "s_bCtrl y = s_bCtrl (last l)" using assms(3,5) by auto
  moreover have "s_len (last l) = 0" if "s_len y = 0" using y that by (simp add: unat_eq_0)
  ultimately have "s_xmit y = 0" "s_seq y = s_seq (last l)"
    "s_len y = 0 \<and> s_bCtrl y \<longrightarrow> s_len (last l) = 0 \<and> s_bCtrl (last l)" by auto
  with assms(1,3) show "segs_ok q (butlast l @ [y])"
    by (subst (asm) l) (auto simp: segs_ok_append)
  show "sent_bytes (butlast l @ [y]) = sent_bytes l"
    using \<open>s_xmit y = 0\<close> assms(3) sent_bytes_snoc l by metis
qed

lemma segs_ok_push:
  assumes "segs_ok q l" "list_all (\<lambda>x. s_len x \<noteq> 0) l" "c \<Longrightarrow> 0 < n" "y = SSegment_new (q + word_of_nat (seg_bytes l)) (word_of_nat n) c"
    "n < 2 ^ 32"
  shows "segs_ok q (l @ [y])" "seg_bytes (l @ [y]) = seg_bytes l + n" "sent_bytes (l @ [y]) = sent_bytes l"
proof -
  have "unat (word_of_nat n :: u32) = n" using assms(5) by (intro unat_of_nat_lt) simp
  moreover from this show "seg_bytes (l @ [y]) = seg_bytes l + n" using assms(4) by (simp add: SSegment_new_def)
  moreover have "word_of_nat n \<noteq> (0 :: u32)" if c using calculation assms(3) that by auto
  ultimately show "segs_ok q (l @ [y])" using assms(1-4) by (auto simp: segs_ok_append SSegment_new_def)
  show "sent_bytes (l @ [y]) = sent_bytes l"
    using assms(4) by (simp add: sent_bytes_snoc SSegment_new_def)
qed

lemma segs_ok_nonempty:
  assumes "segs_ok q l" "l \<noteq> []" "s_bCtrl (last l) \<or> s_xmit (last l) \<noteq> 0 \<or> s_len (last l) \<noteq> 0"
  shows "list_all (\<lambda>x. s_len x \<noteq> 0) l"
  using assms by (induction l arbitrary: q) (auto split: if_splits)

lemma FifoBuffer_Write_fits:
  assumes "open_fifo f" "length p \<le> GetWriteRemaining f"
  obtains r f' where "FifoBuffer_Write p f = (r, length p, f')" "open_fifo f'"
    "fb_buffer_length f' = fb_buffer_length f" "GetBuffered f' = GetBuffered f + length p"
    "fifo_contents f' = fifo_contents f @ p"
proof -
  obtain r c f' where w: "FifoBuffer_Write p f = (r, c, f')" by (cases "FifoBuffer_Write p f") auto
  note W = FifoBuffer_Write_refines [OF _ this]
  have ok: "fifo_ok f" "fb_state f = SS_OPEN" using assms(1) by (simp_all add: open_fifo_def)
  from W [OF ok(1)] have "spec_write p (fifo_abs f) = (r, c, fifo_abs f')" by blast
  then have "c = length p \<and> fifo_contents f' = fifo_contents f @ p"
    using assms(2) ok(2) by (auto simp: spec_write_def fifo_abs_def GetWriteRemaining_def Let_def split: if_splits)
  with w W [OF ok(1)] ok(2) that show ?thesis by (auto simp: open_fifo_def GetBuffered_def)
qed

definition queue_len :: "byte list \<Rightarrow> pseudo_tcp \<Rightarrow> nat" where
  "queue_len data s = min (unat (word_of_nat (length data) :: u32)) (GetWriteRemaining (m_sbuf s))"

lemma queue_ok:
  assumes "sender_ok s" "bCtrl \<Longrightarrow> m_slist s = [] \<and> 0 < queue_len data s"
  obtains l f where "queue data bCtrl s = (word_of_nat (queue_len data s), s\<lparr>m_slist := l, m_sbuf := f\<rparr>)"
    "sender_ok (s\<lparr>m_slist := l, m_sbuf := f\<rparr>)" "l \<noteq> []"
    "fb_buffer_length f = fb_buffer_length (m_sbuf s)"
    "fifo_contents f = fifo_contents (m_sbuf s) @ take (queue_len data s) data"
    "GetBuffered f = GetBuffered (m_sbuf s) + queue_len data s"
proof -
  let ?n = "queue_len data s" and ?l = "m_slist s" and ?b = "GetBuffered (m_sbuf s)"
  have op: "open_fifo (m_sbuf s)" and cap: "fb_buffer_length (m_sbuf s) < 2 ^ 32"
    and rem: "?b + GetWriteRemaining (m_sbuf s) = fb_buffer_length (m_sbuf s)"
    using assms(1) by (auto simp: sender_ok_def open_fifo_def fifo_ok_def GetBuffered_def GetWriteRemaining_def)
  have n: "?n \<le> length data" "?n \<le> GetWriteRemaining (m_sbuf s)"
    by (auto simp: queue_len_def unat_of_nat take_bit_eq_mod intro: min.coboundedI1)
  define len :: u32 where "len = (if (word_of_nat (length data) :: u32) > word_of_nat (GetWriteRemaining (m_sbuf s))
      then word_of_nat (GetWriteRemaining (m_sbuf s)) else word_of_nat (length data))"
  have "unat (word_of_nat (GetWriteRemaining (m_sbuf s)) :: u32) = GetWriteRemaining (m_sbuf s)"
    using rem cap by (intro unat_of_nat_lt) simp
  then have ulen: "unat len = ?n" by (auto simp: len_def queue_len_def word_less_nat_alt min_def)
  then have len: "len = word_of_nat ?n" by (metis of_nat_unat_id)
  define l where "l = (if ?l \<noteq> [] \<and> s_bCtrl (last ?l) = bCtrl \<and> s_xmit (last ?l) = 0
      then butlast ?l @ [(last ?l)\<lparr>s_len := s_len (last ?l) + len\<rparr>]
      else ?l @ [SSegment_new (m_snd_una s + word_of_nat ?b) len bCtrl])"
  obtain r f where w: "FifoBuffer_Write (take ?n data) (m_sbuf s) = (r, ?n, f)" and f: "open_fifo f"
    "fb_buffer_length f = fb_buffer_length (m_sbuf s)" "GetBuffered f = ?b + ?n"
    "fifo_contents f = fifo_contents (m_sbuf s) @ take ?n data"
    using FifoBuffer_Write_fits [OF op, of "take ?n data"] n by auto
  have q: "queue data bCtrl s = (word_of_nat ?n, s\<lparr>m_slist := l, m_sbuf := f\<rparr>)"
    using w by (simp add: queue_def Let_def l_def ulen flip: len_def)
  have ok: "segs_ok (m_snd_una s) ?l" "seg_bytes ?l = ?b" using assms(1) by (simp_all add: sender_ok_def)
  have "segs_ok (m_snd_una s) l \<and> seg_bytes l = ?b + ?n \<and> sent_bytes l = sent_bytes ?l"
  proof (cases "?l \<noteq> [] \<and> s_bCtrl (last ?l) = bCtrl \<and> s_xmit (last ?l) = 0")
    case True
    then have "?l = butlast ?l @ [last ?l]" by simp
    then have "unat (s_len (last ?l)) \<le> ?b" using ok(2) by (metis seg_bytes_simps(1,2,3) le_add2 add.right_neutral)
    then have "unat (s_len (last ?l)) + ?n < 2 ^ 32" using rem cap n(2) by simp
    with segs_ok_extend_last [OF ok(1) _ _ this refl] True ok(2) show ?thesis by (simp add: l_def len)
  next
    case False
    have "list_all (\<lambda>x. s_len x \<noteq> 0) ?l"
    proof (cases "?l = []")
      case nonempty: False
      then have "\<not> bCtrl" using assms(2) by blast
      with False nonempty show ?thesis by (intro segs_ok_nonempty [OF ok(1)]) auto
    qed simp
    from segs_ok_push [OF ok(1) this, of bCtrl ?n] False assms(2) rem cap n(2) ok(2)
    show ?thesis by (auto simp: l_def len)
  qed
  moreover have "l \<noteq> []" by (simp add: l_def)
  ultimately show ?thesis using that [OF q] f assms(1) cap by (simp add: sender_ok_def)
qed

section \<open>Acknowledgements\<close>

text \<open>\<open>n\<close> bytes from the front of the list end at the end of a segment.\<close>

fun at_boundary :: "nat \<Rightarrow> SSegment list \<Rightarrow> bool" where
  "at_boundary n [] \<longleftrightarrow> n = 0"
| "at_boundary n (x # xs) \<longleftrightarrow> n = 0 \<or> (unat (s_len x) \<le> n \<and> at_boundary (n - unat (s_len x)) xs)"

lemma free_segments_ok:
  assumes "segs_ok q l" "at_boundary (unat n) l" "unat n \<le> sent_bytes l"
  shows "\<exists>l' lg'. free_segments n l lg = Some (l', lg') \<and> segs_ok (q + n) l' \<and>
    seg_bytes l' = seg_bytes l - unat n \<and> sent_bytes l' = sent_bytes l - unat n"
  using assms
proof (induction l arbitrary: q n lg)
  case (Cons x xs)
  show ?case
  proof (cases "n = 0")
    case False
    then have n: "0 < n" "\<not> n < s_len x" "s_len x \<le> n" using Cons.prems(2)
      by (auto simp: word_gt_0 word_le_nat_alt not_less unat_eq_0)
    have x: "0 < s_xmit x" using Cons.prems(3) n by (auto simp: word_less_nat_alt split: if_splits)
    have u: "unat (n - s_len x) = unat n - unat (s_len x)" using n(3) by (rule unat_sub_le_nat)
    have "\<exists>l' lg'. free_segments (n - s_len x) xs lg0 = Some (l', lg') \<and>
        segs_ok (q + s_len x + (n - s_len x)) l' \<and> seg_bytes l' = seg_bytes xs - unat (n - s_len x) \<and>
        sent_bytes l' = sent_bytes xs - unat (n - s_len x)" for lg0
      using Cons.prems u x False by (intro Cons.IH) (auto simp: unat_eq_0)
    from this [of "if s_len x > lg then s_len x else lg"] n x u show ?thesis
      by (auto simp: word_le_nat_alt)
  qed (use Cons.prems in simp)
qed (auto simp: unat_eq_0)

text \<open>During fast recovery the recovery point lies among the bytes in flight, and the
  retransmission timer runs only while there are such bytes.\<close>

definition recover_ok :: "pseudo_tcp \<Rightarrow> bool" where [inv_defs]:
  "recover_ok s \<longleftrightarrow> m_state s \<noteq> TCP_CLOSED \<longrightarrow>
     (3 \<le> m_dup_acks s \<longrightarrow> unat (m_recover s - m_snd_una s) \<le> in_flight s) \<and>
     (m_rto_base s \<noteq> 0 \<longrightarrow> 0 < in_flight s)"

lemma sends_recover: "sends E s s' \<Longrightarrow> recover_ok s \<Longrightarrow> recover_ok s'"
  using tx_restD [of s' s] by (auto simp: recover_ok_def sends_def)

text \<open>The members that processing an acknowledgement leaves alone.\<close>

definition rx_side :: "pseudo_tcp \<Rightarrow> _" where
  "rx_side s = (m_rbuf s, m_rlist s, m_rcv_nxt s, m_rcv_wnd s, m_rbuf_len s, m_rwnd_scale s,
     m_mtu_advise s, m_shutdown s, m_conv s, m_swnd_scale s, m_ack_delay s, m_bReadEnable s)"

lemma rx_side_tx: "tx_rest s' = tx_rest s \<Longrightarrow> rx_side s' = rx_side s"
  using tx_restD [of s' s] by (simp add: rx_side_def)

lemma transmit_front_ok:
  assumes "sender_ok s" "mss_ok s" "0 < in_flight s"
  obtains b s' where "transmit E 0 now s = Some (b, s')" "sends E s s'"
proof -
  have "0 < sent_bytes (m_slist s)" using assms(1,3) by (simp add: sender_in_flight)
  moreover have "segs_ok (m_snd_una s) (m_slist s)" using assms(1) by (simp add: sender_ok_def)
  ultimately obtain x ys where l: "m_slist s = [] @ x # ys" "s_len x \<noteq> 0"
    by (cases "m_slist s") (auto split: if_splits)
  from transmit_ok [OF assms(1,2) l(1) _ l(2), of E now] that show ?thesis by auto
qed

section \<open>The stream of bytes\<close>

text \<open>\<open>\<sigma>\<close> assigns to each sequence number the byte that the application (or the connect message) put
  there. The send buffer holds a stretch of \<open>\<sigma>\<close>, and every datagram handed to the network so far
  carries a stretch of \<open>\<sigma>\<close> at the place its sequence number names.\<close>

definition stretch :: "(u32 \<Rightarrow> byte) \<Rightarrow> u32 \<Rightarrow> nat \<Rightarrow> byte list" where
  "stretch \<sigma> q n = map (\<lambda>i. \<sigma> (q + word_of_nat i)) [0..<n]"

definition on_stream :: "tcp_env \<Rightarrow> (u32 \<Rightarrow> byte) \<Rightarrow> tcp_event \<Rightarrow> bool" where
  "on_stream E \<sigma> e =
     (case e of
        TcpWritePacket b \<Rightarrow> 24 \<le> length b \<and> length b \<le> 65535 \<and>
          drop 24 b = stretch \<sigma> (bytes_to_long (env_big_endian E) (drop 4 b)) (length b - 24)
      | _ \<Rightarrow> True)"

definition tx_core :: "tcp_env \<Rightarrow> (u32 \<Rightarrow> byte) \<Rightarrow> pseudo_tcp \<Rightarrow> bool" where
  "tx_core E \<sigma> s \<longleftrightarrow> sender_ok s \<and> mss_ok s \<and>
     fifo_contents (m_sbuf s) = stretch \<sigma> (m_snd_una s) (GetBuffered (m_sbuf s)) \<and>
     list_all (on_stream E \<sigma>) (w_events s)"

definition tx_inv :: "tcp_env \<Rightarrow> (u32 \<Rightarrow> byte) \<Rightarrow> pseudo_tcp \<Rightarrow> bool" where
  "tx_inv E \<sigma> s \<longleftrightarrow> tx_core E \<sigma> s \<and> recover_ok s"

lemma length_stretch [simp]: "length (stretch \<sigma> q n) = n"
  by (simp add: stretch_def)

lemma take_drop_stretch:
  "k + n \<le> m \<Longrightarrow> take n (drop k (stretch \<sigma> q m)) = stretch \<sigma> (q + word_of_nat k) n"
  by (rule nth_equalityI) (auto simp: stretch_def add.assoc)

lemma stretch_append: "stretch \<sigma> q (m + n) = stretch \<sigma> q m @ stretch \<sigma> (q + word_of_nat m) n"
  by (rule nth_equalityI) (auto simp: stretch_def nth_append add.assoc simp flip: of_nat_add)

lemma carries_on_stream:
  assumes "carries E s e" "fifo_contents (m_sbuf s) = stretch \<sigma> (m_snd_una s) (GetBuffered (m_sbuf s))"
  shows "on_stream E \<sigma> e"
proof (cases e)
  case (TcpWritePacket b)
  define p where "p = drop 24 b"
  define off where "off = unat (bytes_to_long (env_big_endian E) (drop 4 b) - m_snd_una s)"
  have "24 \<le> length b \<and> length b \<le> 65535 \<and> (p \<noteq> [] \<longrightarrow> off + length p \<le> GetBuffered (m_sbuf s) \<and>
      p = take (length p) (drop off (fifo_contents (m_sbuf s))))"
    using assms(1) unfolding carries_def TcpWritePacket p_def off_def tcp_event.case Let_def .
  then have c: "24 \<le> length b" "length b \<le> 65535" "p \<noteq> [] \<Longrightarrow> off + length p \<le> GetBuffered (m_sbuf s) \<and>
      p = take (length p) (drop off (fifo_contents (m_sbuf s)))" by blast+
  have "p = stretch \<sigma> (m_snd_una s + word_of_nat off) (length p)"
  proof (cases "p = []")
    case False
    with c(3) assms(2) show ?thesis by (metis take_drop_stretch)
  qed (simp add: stretch_def)
  moreover have "length p = length b - 24" by (simp add: p_def)
  ultimately show ?thesis using c by (simp add: on_stream_def TcpWritePacket p_def off_def)
qed (simp_all add: on_stream_def)

lemma sends_tx_core:
  assumes "sends E s s'" "tx_core E \<sigma> s"
  shows "tx_core E \<sigma> s'"
proof -
  note d = sendsD [OF assms(1)] and r = tx_restD [OF sendsD(3) [OF assms(1)]]
  from assms(2) have t: "list_all (on_stream E \<sigma>) (w_events s)"
    "fifo_contents (m_sbuf s) = stretch \<sigma> (m_snd_una s) (GetBuffered (m_sbuf s))"
    by (simp_all add: tx_core_def)
  from d(4) obtain new where new: "w_events s' = new @ w_events s" "list_all (carries E s) new"
    by (auto simp: emits_def)
  have "list_all (on_stream E \<sigma>) new"
    using new(2) carries_on_stream [OF _ t(2)] by (auto simp: list_all_iff)
  then show ?thesis using d r t new by (simp add: tx_core_def)
qed

lemma sends_tx_inv: "sends E s s' \<Longrightarrow> tx_inv E \<sigma> s \<Longrightarrow> tx_inv E \<sigma> s'"
  using sends_tx_core sends_recover by (auto simp: tx_inv_def)

lemma tx_core_cong:
  assumes "tx_core E \<sigma> s" "m_sbuf s' = m_sbuf s" "m_slist s' = m_slist s" "m_snd_una s' = m_snd_una s"
    "m_snd_nxt s' = m_snd_nxt s" "w_events s' = w_events s" "mss_ok s'"
  shows "tx_core E \<sigma> s'"
  using assms by (simp add: tx_core_def sender_ok_def)

section \<open>Processing an acknowledgement\<close>

lemma update_rtt_frame:
  obtains a b c where "update_rtt now seg s = s\<lparr>m_rx_srtt := a, m_rx_rttvar := b, m_rx_rto := c\<rparr>"
proof -
  define u where "u = update_rtt now seg s"
  have "u = s\<lparr>m_rx_srtt := m_rx_srtt u, m_rx_rttvar := m_rx_rttvar u, m_rx_rto := m_rx_rto u\<rparr>"
    by (cases "m_rx_srtt s = 0") (simp_all add: u_def update_rtt_def Let_def)
  with that show ?thesis by (simp add: u_def)
qed

lemma word_between:
  assumes "(u :: u32) < a" "a \<le> n"
  shows "unat (a - u) = unat a - unat u" "unat (n - a) = unat n - unat a" "unat (n - u) = unat n - unat u"
  using assms by (simp_all add: unat_sub_le_nat)

lemma acked_state:
  assumes "tx_core E \<sigma> s" "m_snd_una s < a" "a \<le> m_snd_nxt s" "at_boundary (unat (a - m_snd_una s)) (m_slist s)"
  obtains f l lg where "ConsumeReadData (unat (a - m_snd_una s)) (m_sbuf s) = Some f"
    "free_segments (a - m_snd_una s) (m_slist s) (m_largest s) = Some (l, lg)"
    "\<And>s'. m_sbuf s' = f \<Longrightarrow> m_slist s' = l \<Longrightarrow> m_snd_una s' = a \<Longrightarrow> m_snd_nxt s' = m_snd_nxt s \<Longrightarrow>
       w_events s' = w_events s \<Longrightarrow> mss_ok s' \<Longrightarrow> tx_core E \<sigma> s'"
proof -
  let ?n = "a - m_snd_una s"
  note w = word_between [OF assms(2,3)]
  from assms(1) have ok: "open_fifo (m_sbuf s)" "segs_ok (m_snd_una s) (m_slist s)"
    "seg_bytes (m_slist s) = GetBuffered (m_sbuf s)" "sent_bytes (m_slist s) = unat (m_snd_nxt s - m_snd_una s)"
    "fifo_contents (m_sbuf s) = stretch \<sigma> (m_snd_una s) (GetBuffered (m_sbuf s))"
    by (simp_all add: tx_core_def sender_ok_def)
  have n: "unat ?n \<le> sent_bytes (m_slist s)" using ok(4) w assms(2,3) by (simp add: word_le_nat_alt)
  then have nb: "unat ?n \<le> fb_data_length (m_sbuf s)"
    using sent_le_seg_bytes [of "m_slist s"] ok(3) by (simp add: GetBuffered_def)
  from fb.drop_law [OF ok(1) nb] obtain f where f: "ConsumeReadData (unat ?n) (m_sbuf s) = Some f" "open_fifo f"
    "fb_buffer_length f = fb_buffer_length (m_sbuf s)" "fb_data_length f = fb_data_length (m_sbuf s) - unat ?n"
    "\<forall>i. ring_at f i = ring_at (m_sbuf s) (unat ?n + i)" by blast
  from free_segments_ok [OF ok(2) assms(4) n] obtain l lg where
    l: "free_segments ?n (m_slist s) (m_largest s) = Some (l, lg)" "segs_ok a l"
      "seg_bytes l = seg_bytes (m_slist s) - unat ?n" "sent_bytes l = sent_bytes (m_slist s) - unat ?n" by force
  have "fifo_contents f = drop (unat ?n) (fifo_contents (m_sbuf s))"
    using nb f(4,5) by (intro fifo_contents_drop) auto
  also have "\<dots> = take (GetBuffered f) (drop (unat ?n) (stretch \<sigma> (m_snd_una s) (GetBuffered (m_sbuf s))))"
    using f(4) ok(5) by (simp add: GetBuffered_def)
  also have "\<dots> = stretch \<sigma> a (GetBuffered f)"
    using f(4) nb by (subst take_drop_stretch) (auto simp: GetBuffered_def)
  finally have str: "fifo_contents f = stretch \<sigma> a (GetBuffered f)" .
  have fl: "sent_bytes l = unat (m_snd_nxt s - a)"
    using l(4) ok(4) w assms(2,3) by (simp add: word_le_nat_alt word_less_nat_alt)
  show ?thesis
    using assms(1) f l ok(3) str fl
    by (intro that [OF f(1) l(1)]) (simp add: tx_core_def sender_ok_def GetBuffered_def)
qed

lemma closedown_inv: "tx_core E \<sigma> s \<Longrightarrow> tx_inv E \<sigma> (closedown err s)"
  by (simp add: closedown_def notify_def tx_inv_def tx_core_def sender_ok_def mss_ok_def recover_ok_def in_flight_def on_stream_def)

lemma closedown_rx [simp]: "rx_side (closedown err s) = rx_side s" "m_state (closedown err s) = TCP_CLOSED"
  by (simp_all add: closedown_def notify_def rx_side_def)

text \<open>What is promised of a phase of \<^verbatim>\<open>process\<close>: it returns, keeps the sender's invariant and the
  receiving half, and if it does not let processing go on it has closed the connection.\<close>

definition tx_phase :: "tcp_env \<Rightarrow> (u32 \<Rightarrow> byte) \<Rightarrow> pseudo_tcp \<Rightarrow> (bool \<times> pseudo_tcp) option \<Rightarrow> bool" where
  "tx_phase E \<sigma> s r \<longleftrightarrow>
     (\<exists>b s'. r = Some (b, s') \<and> tx_inv E \<sigma> s' \<and> rx_side s' = rx_side s \<and>
        m_state s' = (if b then m_state s else TCP_CLOSED))"

lemma tx_phaseI:
  "tx_inv E \<sigma> s' \<Longrightarrow> rx_side s' = rx_side s \<Longrightarrow> m_state s' = (if b then m_state s else TCP_CLOSED) \<Longrightarrow>
   tx_phase E \<sigma> s (Some (b, s'))"
  by (simp add: tx_phase_def)

lemma tx_phase_upd:
  assumes "tx_core E \<sigma> s'" "rx_side s' = rx_side s" "m_state s' = m_state s"
    "m_sbuf t = m_sbuf s'" "m_slist t = m_slist s'" "m_snd_una t = m_snd_una s'" "m_snd_nxt t = m_snd_nxt s'"
    "w_events t = w_events s'" "m_mss t = m_mss s'" "m_msslevel t = m_msslevel s'"
    "rx_side t = rx_side s'" "m_state t = m_state s'" "recover_ok t"
  shows "tx_phase E \<sigma> s (Some (True, t))"
proof -
  have "m_rwnd_scale t = m_rwnd_scale s'" using assms(11) by (simp add: rx_side_def)
  then have "mss_ok t" using assms(1,9,10) by (simp add: tx_core_def mss_ok_def)
  with assms tx_core_cong [OF assms(1,4-8)] show ?thesis by (intro tx_phaseI) (simp_all add: tx_inv_def)
qed

lemma retransmit_phase:
  assumes "tx_core E \<sigma> s'" "rx_side s' = rx_side s" "m_state s' = m_state s" "0 < in_flight s'"
    "\<And>t. tx_core E \<sigma> t \<Longrightarrow> sends E s' t \<Longrightarrow> rx_side t = rx_side s \<Longrightarrow> m_state t = m_state s \<Longrightarrow>
       tx_phase E \<sigma> s (cont t)"
  shows "tx_phase E \<sigma> s (transmit E 0 now s' \<bind>
    (\<lambda>(sent, t). if \<not> sent then Some (False, closedown ECONNABORTED t) else cont t))"
proof -
  from assms(1) have "sender_ok s'" "mss_ok s'" by (simp_all add: tx_core_def)
  then obtain b t where t: "transmit E 0 now s' = Some (b, t)" "sends E s' t"
    by (rule transmit_front_ok [OF _ _ assms(4)])
  have inv: "tx_core E \<sigma> t" by (rule sends_tx_core [OF t(2) assms(1)])
  note r = tx_restD [OF sendsD(3) [OF t(2)]] and rx = rx_side_tx [OF sendsD(3) [OF t(2)]]
  have "tx_phase E \<sigma> s (Some (False, closedown ECONNABORTED t))"
    using closedown_inv [OF inv] rx assms(2) by (intro tx_phaseI) simp_all
  moreover have "tx_phase E \<sigma> s (cont t)" using assms(2,3,5) inv r rx t(2) by simp
  ultimately show ?thesis using t(1) by simp
qed

lemma recover_after_ack:
  assumes "recover_ok s" "m_snd_una s < a" "a \<le> m_snd_nxt s" "\<not> m_recover s \<le> a" "3 \<le> m_dup_acks s"
    "m_state s \<noteq> TCP_CLOSED"
  shows "unat (m_recover s - a) \<le> unat (m_snd_nxt s - a)" "0 < unat (m_snd_nxt s - a)"
proof -
  note w = word_between [OF assms(2,3)]
  have "unat (m_recover s - m_snd_una s) \<le> unat (m_snd_nxt s - m_snd_una s)"
    using assms(1,5,6) by (simp add: recover_ok_def in_flight_def)
  moreover have "unat (m_recover s - m_snd_una s) = unat (m_recover s) - unat (m_snd_una s)"
    "unat (m_recover s - a) = unat (m_recover s) - unat a"
    using assms(2,4) by (simp_all add: unat_sub_le_nat)
  ultimately show "unat (m_recover s - a) \<le> unat (m_snd_nxt s - a)" "0 < unat (m_snd_nxt s - a)"
    using w assms(2-4) by (simp_all add: word_less_nat_alt word_le_nat_alt)
qed

lemma process_new_ack_ok:
  assumes inv: "tx_inv E \<sigma> s" and ack: "m_snd_una s < seg_ack seg" "seg_ack seg \<le> m_snd_nxt s"
    and bd: "at_boundary (unat (seg_ack seg - m_snd_una s)) (m_slist s)"
    and cfg: "unat (m_swnd_scale s) < 32" "m_cwnd s \<noteq> 0" "m_state s \<noteq> TCP_CLOSED"
  shows "tx_phase E \<sigma> s (process_new_ack E now seg s)"
proof -
  obtain x y z where u: "update_rtt now seg s = s\<lparr>m_rx_srtt := x, m_rx_rttvar := y, m_rx_rto := z\<rparr>"
    by (rule update_rtt_frame)
  obtain f l lg where rel: "ConsumeReadData (unat (seg_ack seg - m_snd_una s)) (m_sbuf s) = Some f"
    "free_segments (seg_ack seg - m_snd_una s) (m_slist s) (m_largest s) = Some (l, lg)"
    and acked: "\<And>s'. m_sbuf s' = f \<Longrightarrow> m_slist s' = l \<Longrightarrow> m_snd_una s' = seg_ack seg \<Longrightarrow>
       m_snd_nxt s' = m_snd_nxt s \<Longrightarrow> w_events s' = w_events s \<Longrightarrow> mss_ok s' \<Longrightarrow> tx_core E \<sigma> s'"
    using acked_state [OF _ ack bd] inv unfolding tx_inv_def by blast
  define wnd where "wnd = push_bit (unat (m_swnd_scale s)) (ucast (seg_wnd seg) :: u32)"
  define s1 where "s1 = s\<lparr>m_rx_srtt := x, m_rx_rttvar := y, m_rx_rto := z, m_snd_wnd := wnd,
    m_snd_una := seg_ack seg, m_rto_base := (if seg_ack seg = m_snd_nxt s then 0 else now),
    m_sbuf := f, m_slist := l, m_largest := lg\<rparr>"
  define fin where "fin t = Some (True, t\<lparr>m_cwnd := m_cwnd t +
    (m_mss t - min (seg_ack seg - m_snd_una s) (m_cwnd t))\<rparr>)" for t :: pseudo_tcp
  define full where "full = s1\<lparr>m_cwnd := min (m_ssthresh s1) (m_snd_nxt s1 - m_snd_una s1 + m_mss s1), m_dup_acks := 0\<rparr>"
  have s1: "rx_side s1 = rx_side s" "m_state s1 = m_state s" "m_dup_acks s1 = m_dup_acks s"
    "m_recover s1 = m_recover s" "m_snd_una s1 = seg_ack seg" "m_snd_nxt s1 = m_snd_nxt s" "mss_ok s1"
    "m_cwnd s1 = m_cwnd s"
    using inv by (simp_all add: s1_def rx_side_def tx_inv_def tx_core_def mss_ok_def)
  have "m_snd_nxt s - seg_ack seg \<noteq> 0" if "seg_ack seg \<noteq> m_snd_nxt s" using that by auto
  then have rto: "0 < unat (m_snd_nxt s - seg_ack seg)" if "m_rto_base s1 \<noteq> 0"
    using that by (auto simp: s1_def unat_gt_0 split: if_splits)
  have eq: "process_new_ack E now seg s =
      (if 3 \<le> m_dup_acks s then
         (if m_recover s \<le> seg_ack seg then Some (True, full)
          else transmit E 0 now s1 \<bind>
            (\<lambda>(sent, t). if \<not> sent then Some (False, closedown ECONNABORTED t) else fin t))
       else grow_cwnd (s1\<lparr>m_dup_acks := 0\<rparr>) \<bind> (\<lambda>t. Some (True, t)))"
    using cfg(1) rel unfolding process_new_ack_def u
    by (simp add: shl32_def Let_def s1_def fin_def full_def wnd_def cong: if_cong)
  have core: "tx_core E \<sigma> s1" using s1(7) by (intro acked) (simp_all add: s1_def)
  have upd: "tx_phase E \<sigma> s (Some (True, s1\<lparr>m_dup_acks := 0, m_cwnd := c\<rparr>))" for c
    using s1 rto by (intro tx_phase_upd [OF core]) (simp_all add: rx_side_def recover_ok_def in_flight_def)
  show ?thesis
  proof (cases "3 \<le> m_dup_acks s")
    case False
    then show ?thesis
      using upd cfg(2) s1(8) by (simp add: eq grow_cwnd_def)
  next
    case dup: True
    show ?thesis
    proof (cases "m_recover s \<le> seg_ack seg")
      case True
      moreover have "full = s1\<lparr>m_dup_acks := 0, m_cwnd := m_cwnd full\<rparr>" by (simp add: full_def)
      ultimately show ?thesis using upd [of "m_cwnd full"] dup by (simp add: eq)
    next
      case False
      have "recover_ok s" using inv by (simp add: tx_inv_def)
      note rec = recover_after_ack [OF this ack False dup cfg(3)]
      have r1: "recover_ok s1" and fl: "0 < in_flight s1"
        using s1 rec rto by (simp_all add: recover_ok_def in_flight_def)
      have fin: "tx_phase E \<sigma> s (fin t)"
        if "tx_core E \<sigma> t" "sends E s1 t" "rx_side t = rx_side s" "m_state t = m_state s" for t
        unfolding fin_def using sends_recover [OF that(2) r1] that(4)
        by (intro tx_phase_upd [OF that(1,3,4)]) (simp_all add: rx_side_def recover_ok_def in_flight_def)
      show ?thesis
        using dup False retransmit_phase [OF core s1(1,2) fl fin] by (simp add: eq)
    qed
  qed
qed

lemma process_dup_ack_ok:
  assumes inv: "tx_inv E \<sigma> s" and cfg: "unat (m_swnd_scale s) < 32" "m_state s \<noteq> TCP_CLOSED"
  shows "tx_phase E \<sigma> s (process_dup_ack E now seg s)"
proof -
  define wnd where "wnd = push_bit (unat (m_swnd_scale s)) (ucast (seg_wnd seg) :: u32)"
  define s1 where "s1 = s\<lparr>m_snd_wnd := wnd, m_dup_acks := m_dup_acks s + 1\<rparr>"
  define fin where "fin t = (let t = t\<lparr>m_recover := m_snd_nxt t\<rparr>;
      t = t\<lparr>m_ssthresh := max ((m_snd_nxt t - m_snd_una t) div 2) (2 * m_mss t)\<rparr>
    in Some (True, t\<lparr>m_cwnd := m_ssthresh t + 3 * m_mss t\<rparr>))" for t :: pseudo_tcp
  have core: "tx_core E \<sigma> s" and rec: "recover_ok s" using inv by (simp_all add: tx_inv_def)
  have eq: "process_dup_ack E now seg s =
      (if seg_len seg > 0 then Some (True, s\<lparr>m_snd_wnd := wnd\<rparr>)
       else if m_snd_una s = m_snd_nxt s then Some (True, s\<lparr>m_snd_wnd := wnd, m_dup_acks := 0\<rparr>)
       else if m_dup_acks s + 1 = 3 then transmit E 0 now s1 \<bind>
         (\<lambda>(sent, t). if \<not> sent then Some (False, closedown ECONNABORTED t) else fin t)
       else Some (True, if m_dup_acks s + 1 > 3 then s1\<lparr>m_cwnd := m_cwnd s1 + m_mss s1\<rparr> else s1))"
    using cfg(1) unfolding process_dup_ack_def
    by (simp add: shl32_def Let_def s1_def fin_def wnd_def cong: if_cong)
  have same: "tx_phase E \<sigma> s (Some (True, t))" if "t = s\<lparr>m_snd_wnd := w, m_dup_acks := d, m_cwnd := c\<rparr>"
    "3 \<le> d \<Longrightarrow> 3 \<le> m_dup_acks s" for t w d c
    using that rec by (intro tx_phase_upd [OF core]) (simp_all add: rx_side_def recover_ok_def in_flight_def)
  have dup: "3 \<le> m_dup_acks s" if "3 \<le> m_dup_acks s + 1" "m_dup_acks s + 1 \<noteq> 3"
  proof -
    have "unat (m_dup_acks s + 1) \<noteq> unat (3 :: u8)" using that(2) by (metis word_unat_eq_iff)
    then show ?thesis using that(1) unat_lt [of "m_dup_acks s"]
      by (auto simp: word_le_nat_alt unat_word_ariths mod_if split: if_splits)
  qed
  show ?thesis
  proof (cases "seg_len seg > 0 \<or> m_snd_una s = m_snd_nxt s \<or> m_dup_acks s + 1 \<noteq> 3")
    case True
    define t where "t = (if seg_len seg > 0 then s\<lparr>m_snd_wnd := wnd\<rparr>
        else if m_snd_una s = m_snd_nxt s then s\<lparr>m_snd_wnd := wnd, m_dup_acks := 0\<rparr>
        else if m_dup_acks s + 1 > 3 then s1\<lparr>m_cwnd := m_cwnd s1 + m_mss s1\<rparr> else s1)"
    have res: "process_dup_ack E now seg s = Some (True, t)" using True by (auto simp: eq t_def)
    have upd: "t = s\<lparr>m_snd_wnd := wnd, m_dup_acks := m_dup_acks t, m_cwnd := m_cwnd t\<rparr>"
      by (simp add: t_def s1_def)
    have "3 \<le> m_dup_acks s" if "3 \<le> m_dup_acks t"
      using that dup True by (simp add: t_def s1_def split: if_splits)
    from same [OF upd this] res show ?thesis by simp
  next
    case False
    have s1: "tx_core E \<sigma> s1" "rx_side s1 = rx_side s" "m_state s1 = m_state s"
      using core by (auto simp: s1_def rx_side_def tx_core_def sender_ok_def mss_ok_def)
    have "m_snd_nxt s - m_snd_una s \<noteq> 0" using False by auto
    then have fl: "0 < in_flight s1" by (simp add: in_flight_def s1_def unat_gt_0)
    have fin: "tx_phase E \<sigma> s (fin t)"
      if "tx_core E \<sigma> t" "sends E s1 t" "rx_side t = rx_side s" "m_state t = m_state s" for t
      unfolding fin_def Let_def using that sendsD(5) [OF that(2)] fl
      by (intro tx_phase_upd [OF that(1,3,4)]) (simp_all add: rx_side_def recover_ok_def in_flight_def)
    show ?thesis using False retransmit_phase [OF s1 fl fin] by (simp add: eq)
  qed
qed

definition ack_fits :: "Segment \<Rightarrow> pseudo_tcp \<Rightarrow> bool" where
  "ack_fits seg s \<longleftrightarrow> (m_snd_una s < seg_ack seg \<and> seg_ack seg \<le> m_snd_nxt s \<longrightarrow>
     at_boundary (unat (seg_ack seg - m_snd_una s)) (m_slist s))"

lemma process_ack_ok:
  assumes "tx_inv E \<sigma> s" "unat (m_swnd_scale s) < 32" "m_cwnd s \<noteq> 0" "m_state s \<noteq> TCP_CLOSED" "ack_fits seg s"
  shows "tx_phase E \<sigma> s (process_ack E now seg s)"
  using assms process_new_ack_ok [OF assms(1) _ _ _ assms(2-4)] process_dup_ack_ok [OF assms(1,2,4)]
  by (auto simp: process_ack_def ack_fits_def tx_phaseI)

end
