(* ===== verification/Pseudo_Tcp_Recv.thy ===== *)
theory Pseudo_Tcp_Recv
  imports Pseudo_Tcp_Send
begin

text \<open>
  The receiving half of \<^verbatim>\<open>PseudoTcp\<close>. Segments may arrive late, early, twice, overlapping or
  partly outside the receive window. The invariant says that the receive buffer holds the stretch
  of the peer's stream that ends at \<open>m_rcv_nxt\<close>, and that the bytes announced by the list of early
  segments already lie in the free part of the buffer, at the place where they will be read.
\<close>

section \<open>Cutting a segment to the receive window\<close>

definition seg_honest :: "(u32 \<Rightarrow> byte) \<Rightarrow> Segment \<Rightarrow> bool" where
  "seg_honest \<rho> seg \<longleftrightarrow>
     unat (seg_seq seg) + unat (seg_len seg) < 2 ^ 32 \<and> unat (seg_len seg) \<le> length (seg_data seg) \<and>
     take (unat (seg_len seg)) (seg_data seg) = stretch \<rho> (seg_seq seg) (unat (seg_len seg))"

text \<open>Fewer than 4 GB have been received: the receive window does not reach past the last sequence
  number.\<close>

definition rcv_room :: "pseudo_tcp \<Rightarrow> bool" where
  "rcv_room s \<longleftrightarrow> unat (m_rcv_nxt s) + GetWriteRemaining (m_rbuf s) < 2 ^ 32"

definition in_window :: "pseudo_tcp \<Rightarrow> Segment \<Rightarrow> bool" where
  "in_window s seg \<longleftrightarrow> unat (m_rcv_nxt s) \<le> unat (seg_seq seg) \<and>
     unat (seg_seq seg) + unat (seg_len seg) \<le> unat (m_rcv_nxt s) + GetWriteRemaining (m_rbuf s)"

lemma stretch_drop: "k \<le> n \<Longrightarrow> drop k (stretch \<rho> q n) = stretch \<rho> (q + word_of_nat k) (n - k)"
  using take_drop_stretch [of k "n - k" n \<rho> q] by simp

lemma stretch_take: "k \<le> n \<Longrightarrow> take k (stretch \<rho> q n) = stretch \<rho> q k"
  using take_drop_stretch [of 0 k n \<rho> q] by simp

lemma seg_honest_front:
  assumes "seg_honest \<rho> seg" "unat k \<le> unat (seg_len seg)"
  shows "seg_honest \<rho> (seg\<lparr>seg_len := k\<rparr>)"
proof -
  have "take (unat k) (seg_data seg) = take (unat k) (take (unat (seg_len seg)) (seg_data seg))"
    using assms(2) by (simp add: min_def)
  with assms show ?thesis by (simp add: seg_honest_def stretch_take)
qed

lemma seg_honest_back:
  assumes "seg_honest \<rho> seg" "k < seg_len seg"
  shows "seg_honest \<rho> (seg\<lparr>seg_seq := seg_seq seg + k, seg_data := drop (unat k) (seg_data seg),
    seg_len := seg_len seg - k\<rparr>)"
    "unat (seg_seq seg + k) = unat (seg_seq seg) + unat k" "unat (seg_len seg - k) = unat (seg_len seg) - unat k"
proof -
  have k: "unat k < unat (seg_len seg)" using assms(2) by (simp add: word_less_nat_alt)
  show l: "unat (seg_len seg - k) = unat (seg_len seg) - unat k"
    using assms(2) by (simp add: unat_sub_le_nat less_imp_le)
  show q: "unat (seg_seq seg + k) = unat (seg_seq seg) + unat k"
    using assms(1) k by (subst unat_add_lem [symmetric]) (simp_all add: seg_honest_def)
  have "take (unat (seg_len seg) - unat k) (drop (unat k) (seg_data seg)) =
      drop (unat k) (take (unat (seg_len seg)) (seg_data seg))" by (simp add: drop_take)
  also have "\<dots> = stretch \<rho> (seg_seq seg + k) (unat (seg_len seg) - unat k)"
    using assms(1) k by (simp add: seg_honest_def stretch_drop)
  finally show "seg_honest \<rho> (seg\<lparr>seg_seq := seg_seq seg + k, seg_data := drop (unat k) (seg_data seg),
    seg_len := seg_len seg - k\<rparr>)"
    using assms(1) k l q by (auto simp: seg_honest_def)
qed

text \<open>The first cut of \<^verbatim>\<open>process\<close> removes what was already received, the second what does not fit.\<close>

definition trim_old :: "Segment \<Rightarrow> pseudo_tcp \<Rightarrow> Segment" where
  "trim_old seg s =
     (if seg_seq seg < m_rcv_nxt s then
        (let nAdjust = m_rcv_nxt s - seg_seq seg
         in if nAdjust < seg_len seg
            then seg\<lparr>seg_seq := seg_seq seg + nAdjust, seg_data := drop (unat nAdjust) (seg_data seg),
                     seg_len := seg_len seg - nAdjust\<rparr>
            else seg\<lparr>seg_len := 0\<rparr>)
      else seg)"

lemma trim_old_spec:
  assumes "seg_honest \<rho> seg"
  shows "seg_honest \<rho> (trim_old seg s)" "seg_flags (trim_old seg s) = seg_flags seg"
    "seg_len (trim_old seg s) = 0 \<or> unat (m_rcv_nxt s) \<le> unat (seg_seq (trim_old seg s))"
proof -
  let ?k = "m_rcv_nxt s - seg_seq seg"
  have "seg_honest \<rho> (trim_old seg s) \<and> seg_flags (trim_old seg s) = seg_flags seg \<and>
    (seg_len (trim_old seg s) = 0 \<or> unat (m_rcv_nxt s) \<le> unat (seg_seq (trim_old seg s)))"
  proof (cases "seg_seq seg < m_rcv_nxt s")
    case True
    then show ?thesis
      using seg_honest_back [OF assms, of ?k] seg_honest_front [OF assms, of 0]
      by (auto simp: trim_old_def Let_def)
  next
    case False
    then have "trim_old seg s = seg" by (simp add: trim_old_def)
    with False assms show ?thesis by (simp add: word_le_nat_alt not_less)
  qed
  then show "seg_honest \<rho> (trim_old seg s)" "seg_flags (trim_old seg s) = seg_flags seg"
    "seg_len (trim_old seg s) = 0 \<or> unat (m_rcv_nxt s) \<le> unat (seg_seq (trim_old seg s))" by blast+
qed

lemma trim_segment_spec:
  assumes "seg_honest \<rho> seg" "rcv_room s"
  shows "seg_honest \<rho> (trim_segment seg s)" "seg_flags (trim_segment seg s) = seg_flags seg"
    "seg_len (trim_segment seg s) = 0 \<or> in_window s (trim_segment seg s)"
proof -
  define g where "g = trim_old seg s"
  define rem where "rem = GetWriteRemaining (m_rbuf s)"
  define d where "d = seg_seq g + seg_len g - m_rcv_nxt s"
  note old = trim_old_spec [OF assms(1), of s, folded g_def]
  have rem: "unat (word_of_nat rem :: u32) = rem"
    using assms(2) by (intro unat_of_nat_lt) (simp add: rcv_room_def rem_def)
  have eq: "trim_segment seg s = (if d > word_of_nat rem then
      (if d - word_of_nat rem < seg_len g then g\<lparr>seg_len := seg_len g - (d - word_of_nat rem)\<rparr>
       else g\<lparr>seg_len := 0\<rparr>) else g)"
    by (simp add: trim_segment_def trim_old_def g_def d_def rem_def Let_def)
  have goal: "seg_honest \<rho> t \<and> seg_flags t = seg_flags seg \<and> (seg_len t = 0 \<or> in_window s t)"
    if t: "t = trim_segment seg s" for t
  proof (cases "seg_len g = 0")
    case True
    then show ?thesis using old seg_honest_front [OF old(1), of 0] by (auto simp: t eq)
  next
    case False
    have ge: "unat (m_rcv_nxt s) \<le> unat (seg_seq g)" using old(3) False by blast
    have sum: "unat (seg_seq g + seg_len g) = unat (seg_seq g) + unat (seg_len g)"
      using old(1) by (subst unat_add_lem [symmetric]) (simp_all add: seg_honest_def)
    have d: "unat d = unat (seg_seq g) + unat (seg_len g) - unat (m_rcv_nxt s)"
      using ge sum by (simp add: d_def unat_sub_le_nat word_le_nat_alt)
    have cut: "unat (d - word_of_nat rem) = unat d - rem" if "d > word_of_nat rem"
      using that rem by (simp add: unat_sub_le_nat less_imp_le)
    have len: "unat (seg_len g - (d - word_of_nat rem)) = unat (seg_len g) - (unat d - rem)"
      if "d > word_of_nat rem" "d - word_of_nat rem < seg_len g"
      using that cut by (simp add: unat_sub_le_nat less_imp_le)
    have fit: "unat d \<le> rem" if "\<not> d > word_of_nat rem"
      using that rem by (simp add: word_less_nat_alt)
    show ?thesis
    proof (cases "d > word_of_nat rem")
      case True
      have h: "seg_honest \<rho> (g\<lparr>seg_len := seg_len g - (d - word_of_nat rem)\<rparr>)"
        if "d - word_of_nat rem < seg_len g"
        using len [OF True that] by (intro seg_honest_front old) simp
      have z: "seg_honest \<rho> (g\<lparr>seg_len := 0\<rparr>)" by (rule seg_honest_front) (use old in auto)
      have "in_window s (g\<lparr>seg_len := seg_len g - (d - word_of_nat rem)\<rparr>)"
        if c: "d - word_of_nat rem < seg_len g"
      proof -
        have "unat d - rem < unat (seg_len g)" "rem < unat d"
          using c True cut rem by (simp_all add: word_less_nat_alt)
        with len [OF True c] d ge show ?thesis by (simp add: in_window_def rem_def)
      qed
      with True old(2) h z show ?thesis by (auto simp: t eq)
    next
      case False
      have "in_window s g" using fit [OF False] d ge by (simp add: in_window_def rem_def)
      with False old show ?thesis by (simp add: t eq)
    qed
  qed
  then show "seg_honest \<rho> (trim_segment seg s)" "seg_flags (trim_segment seg s) = seg_flags seg"
    "seg_len (trim_segment seg s) = 0 \<or> in_window s (trim_segment seg s)" by blast+
qed

section \<open>Early segments\<close>

text \<open>The bytes of the early segments lie ahead in the buffer \<open>f\<close> whose readable part ends at
  sequence number \<open>nxt\<close>.\<close>

definition early_ok :: "(u32 \<Rightarrow> byte) \<Rightarrow> fifo_buffer \<Rightarrow> u32 \<Rightarrow> RSegment list \<Rightarrow> bool" where
  "early_ok \<rho> f nxt l \<longleftrightarrow>
     (\<forall>r \<in> set l. unat (r_seq r) + unat (r_len r) \<le> unat nxt + GetWriteRemaining f \<and>
        (\<forall>k. unat nxt \<le> k \<longrightarrow> unat (r_seq r) \<le> k \<longrightarrow> k < unat (r_seq r) + unat (r_len r) \<longrightarrow>
           ring_at f (GetBuffered f + (k - unat nxt)) = \<rho> (word_of_nat k)))"

definition delivered :: "(u32 \<Rightarrow> byte) \<Rightarrow> fifo_buffer \<Rightarrow> u32 \<Rightarrow> bool" where
  "delivered \<rho> f nxt \<longleftrightarrow>
     fifo_contents f = stretch \<rho> (nxt - word_of_nat (GetBuffered f)) (GetBuffered f)"

text \<open>The buffer grows by \<open>n\<close> bytes that are already in place.\<close>

lemma grow_stream:
  assumes "open_fifo f" "unat nxt + GetWriteRemaining f < 2 ^ 32" "unat n \<le> GetWriteRemaining f"
    "\<And>k. unat nxt \<le> k \<Longrightarrow> k < unat nxt + unat n \<Longrightarrow>
       ring_at f (GetBuffered f + (k - unat nxt)) = \<rho> (word_of_nat k)"
    "delivered \<rho> f nxt" "early_ok \<rho> f nxt l"
  obtains f' where "ConsumeWriteBuffer (unat n) f = Some f'" "open_fifo f'"
    "GetBuffered f' = GetBuffered f + unat n" "GetWriteRemaining f' = GetWriteRemaining f - unat n"
    "fb_buffer_length f' = fb_buffer_length f"
    "unat (nxt + n) = unat nxt + unat n" "delivered \<rho> f' (nxt + n)" "early_ok \<rho> f' (nxt + n) l"
proof -
  let ?q = "stretch \<rho> nxt (unat n)"
  have cell: "ring_at f (fb_data_length f + i) = ?q ! i" if "i < length ?q" for i
    using assms(4) [of "unat nxt + i"] that by (simp add: stretch_def GetBuffered_def)
  have "length ?q \<le> fb_buffer_length f - fb_data_length f"
    using assms(3) by (simp add: GetWriteRemaining_def)
  from fb.grow_exposes [OF assms(1) this cell] obtain f' where f': "ConsumeWriteBuffer (unat n) f = Some f'"
    "open_fifo f'" "fb_buffer_length f' = fb_buffer_length f" "fb_data_length f' = fb_data_length f + unat n"
    "map (ring_at f') [0..<fb_data_length f'] = map (ring_at f) [0..<fb_data_length f] @ ?q"
    "\<And>i. ring_at f' i = ring_at f i" by auto
  have nn: "unat (nxt + n) = unat nxt + unat n"
    using assms(2,3) by (subst unat_add_lem [symmetric]) simp
  have "fifo_contents f' = stretch \<rho> (nxt - word_of_nat (GetBuffered f)) (GetBuffered f) @ ?q"
    using f'(5) assms(5) by (simp add: fifo_contents_def delivered_def)
  also have "\<dots> = stretch \<rho> (nxt - word_of_nat (GetBuffered f)) (GetBuffered f + unat n)"
    by (simp add: stretch_append)
  finally have del: "delivered \<rho> f' (nxt + n)"
    using f'(4) by (simp add: delivered_def GetBuffered_def)
  have early: "early_ok \<rho> f' (nxt + n) l"
    unfolding early_ok_def
  proof (intro ballI conjI allI impI)
    fix r assume r: "r \<in> set l"
    then have "unat (r_seq r) + unat (r_len r) \<le> unat nxt + GetWriteRemaining f"
      using assms(6) by (simp add: early_ok_def)
    then show "unat (r_seq r) + unat (r_len r) \<le> unat (nxt + n) + GetWriteRemaining f'"
      using nn f'(3,4) assms(3) by (simp add: GetWriteRemaining_def)
    fix k assume k: "unat (nxt + n) \<le> k" "unat (r_seq r) \<le> k" "k < unat (r_seq r) + unat (r_len r)"
    then have "ring_at f (GetBuffered f + (k - unat nxt)) = \<rho> (word_of_nat k)"
      using assms(6) r nn by (simp add: early_ok_def)
    moreover have "GetBuffered f' + (k - unat (nxt + n)) = GetBuffered f + (k - unat nxt)"
      using k(1) nn f'(4) by (simp add: GetBuffered_def)
    ultimately show "ring_at f' (GetBuffered f' + (k - unat (nxt + n))) = \<rho> (word_of_nat k)"
      using f'(6) by simp
  qed
  show ?thesis
    using f' nn del early that by (simp add: GetBuffered_def GetWriteRemaining_def)
qed

section \<open>The receiver's invariant\<close>

definition rx_inv :: "(u32 \<Rightarrow> byte) \<Rightarrow> pseudo_tcp \<Rightarrow> bool" where
  "rx_inv \<rho> s \<longleftrightarrow> open_fifo (m_rbuf s) \<and> delivered \<rho> (m_rbuf s) (m_rcv_nxt s) \<and>
     early_ok \<rho> (m_rbuf s) (m_rcv_nxt s) (m_rlist s)"

definition rlist_ok :: "u32 \<Rightarrow> RSegment list \<Rightarrow> bool" where
  "rlist_ok nxt l \<longleftrightarrow> sorted (map r_seq l) \<and> (\<forall>r \<in> set l. nxt < r_seq r)"

lemma early_ok_Cons:
  "early_ok \<rho> f nxt (r # l) \<longleftrightarrow> early_ok \<rho> f nxt [r] \<and> early_ok \<rho> f nxt l"
  by (auto simp: early_ok_def)

text \<open>The outcome of taking early segments into the readable part.\<close>

definition recovered :: "(u32 \<Rightarrow> byte) \<Rightarrow> pseudo_tcp \<Rightarrow> (RSegment list \<times> SendFlags \<times> pseudo_tcp) option \<Rightarrow> bool" where
  "recovered \<rho> s r \<longleftrightarrow> (\<exists>l' fl f nxt wnd.
     r = Some (l', fl, s\<lparr>m_rbuf := f, m_rcv_nxt := nxt, m_rcv_wnd := wnd\<rparr>) \<and> open_fifo f \<and>
     fb_buffer_length f = fb_buffer_length (m_rbuf s) \<and>
     delivered \<rho> f nxt \<and> early_ok \<rho> f nxt l' \<and> rlist_ok nxt l' \<and> unat (m_rcv_nxt s) \<le> unat nxt \<and>
     GetBuffered f = GetBuffered (m_rbuf s) + (unat nxt - unat (m_rcv_nxt s)))"

lemma recovered_none:
  "open_fifo (m_rbuf s) \<Longrightarrow> delivered \<rho> (m_rbuf s) (m_rcv_nxt s) \<Longrightarrow>
   early_ok \<rho> (m_rbuf s) (m_rcv_nxt s) l \<Longrightarrow> rlist_ok (m_rcv_nxt s) l \<Longrightarrow> recovered \<rho> s (Some (l, fl, s))"
  unfolding recovered_def
  by (intro exI [of _ l] exI [of _ fl] exI [of _ "m_rbuf s"] exI [of _ "m_rcv_nxt s"] exI [of _ "m_rcv_wnd s"])
    simp

lemma recovered_more:
  assumes "recovered \<rho> (s\<lparr>m_rbuf := f, m_rcv_nxt := m_rcv_nxt s + n, m_rcv_wnd := w\<rparr>) r"
    "GetBuffered f = GetBuffered (m_rbuf s) + unat n" "fb_buffer_length f = fb_buffer_length (m_rbuf s)"
    "unat (m_rcv_nxt s + n) = unat (m_rcv_nxt s) + unat n"
  shows "recovered \<rho> s r"
proof -
  from assms(1) obtain l' fl g nxt wnd where
    "r = Some (l', fl, s\<lparr>m_rbuf := g, m_rcv_nxt := nxt, m_rcv_wnd := wnd\<rparr>)" "open_fifo g"
    "fb_buffer_length g = fb_buffer_length f" "delivered \<rho> g nxt" "early_ok \<rho> g nxt l'" "rlist_ok nxt l'"
    "unat (m_rcv_nxt s + n) \<le> unat nxt"
    "GetBuffered g = GetBuffered f + (unat nxt - unat (m_rcv_nxt s + n))"
    unfolding recovered_def by auto
  then show ?thesis
    unfolding recovered_def using assms(2-4)
    by (intro exI [of _ l'] exI [of _ fl] exI [of _ g] exI [of _ nxt] exI [of _ wnd]) simp
qed

lemma recover_segments_ok:
  assumes "open_fifo (m_rbuf s)" "rcv_room s" "delivered \<rho> (m_rbuf s) (m_rcv_nxt s)"
    "early_ok \<rho> (m_rbuf s) (m_rcv_nxt s) l" "sorted (map r_seq l)"
  shows "recovered \<rho> s (recover_segments l sflags s)"
  using assms
proof (induction l sflags s rule: recover_segments.induct)
  case (1 sflags s)
  then show ?case using recovered_none [of s \<rho> "[]"] by (simp add: rlist_ok_def)
next
  case (2 it rest sflags s)
  let ?stop = "r_seq it + r_len it"
  have itb: "unat (r_seq it) + unat (r_len it) \<le> unat (m_rcv_nxt s) + GetWriteRemaining (m_rbuf s)"
    and itk: "\<And>k. unat (m_rcv_nxt s) \<le> k \<Longrightarrow> unat (r_seq it) \<le> k \<Longrightarrow> k < unat (r_seq it) + unat (r_len it) \<Longrightarrow>
      ring_at (m_rbuf s) (GetBuffered (m_rbuf s) + (k - unat (m_rcv_nxt s))) = \<rho> (word_of_nat k)"
    using 2(6) by (simp_all add: early_ok_def)
  have rest: "early_ok \<rho> (m_rbuf s) (m_rcv_nxt s) rest" "sorted (map r_seq rest)"
    using 2(6,7) early_ok_Cons [of \<rho> _ _ it rest] by auto
  have uend: "unat ?stop = unat (r_seq it) + unat (r_len it)"
    using itb 2(4) by (subst unat_add_lem [symmetric]) (simp add: rcv_room_def)
  consider (stop) "\<not> r_seq it \<le> m_rcv_nxt s" | (skip) "r_seq it \<le> m_rcv_nxt s" "\<not> ?stop > m_rcv_nxt s"
    | (take) "r_seq it \<le> m_rcv_nxt s" "?stop > m_rcv_nxt s" by blast
  then show ?case
  proof cases
    case stop
    have "rlist_ok (m_rcv_nxt s) (it # rest)"
      using stop 2(7) by (force simp: rlist_ok_def not_le)
    with stop 2(3-7) show ?thesis by (simp add: recovered_none)
  next
    case skip
    with 2(2) [OF skip 2(3-5) rest] show ?thesis by simp
  next
    case take
    define n where "n = ?stop - m_rcv_nxt s"
    have n: "unat n = unat (r_seq it) + unat (r_len it) - unat (m_rcv_nxt s)"
      using take(2) uend by (simp add: n_def unat_sub_le_nat less_imp_le)
    then have "unat n \<le> GetWriteRemaining (m_rbuf s)" using itb by simp
    moreover have "ring_at (m_rbuf s) (GetBuffered (m_rbuf s) + (k - unat (m_rcv_nxt s))) = \<rho> (word_of_nat k)"
      if "unat (m_rcv_nxt s) \<le> k" "k < unat (m_rcv_nxt s) + unat n" for k
      using itk [of k] that n take(1) by (simp add: word_le_nat_alt)
    ultimately obtain f' where f': "ConsumeWriteBuffer (unat n) (m_rbuf s) = Some f'" "open_fifo f'"
      "GetBuffered f' = GetBuffered (m_rbuf s) + unat n"
      "GetWriteRemaining f' = GetWriteRemaining (m_rbuf s) - unat n"
      "fb_buffer_length f' = fb_buffer_length (m_rbuf s)"
      "unat (m_rcv_nxt s + n) = unat (m_rcv_nxt s) + unat n" "delivered \<rho> f' (m_rcv_nxt s + n)"
      "early_ok \<rho> f' (m_rcv_nxt s + n) rest"
      using grow_stream [OF 2(3) 2(4) [unfolded rcv_room_def] _ _ 2(5) rest(1)] by metis
    let ?s = "s\<lparr>m_rbuf := f', m_rcv_nxt := m_rcv_nxt s + n, m_rcv_wnd := m_rcv_wnd s - n\<rparr>"
    have room: "rcv_room ?s"
      using 2(4) f'(4,6) \<open>unat n \<le> GetWriteRemaining (m_rbuf s)\<close> by (simp add: rcv_room_def)
    have "recovered \<rho> ?s (recover_segments rest sfImmediateAck ?s)"
      using f' room rest(2) by (intro 2(1) [OF take n_def f'(1)]) simp_all
    moreover have "recover_segments (it # rest) sflags s = recover_segments rest sfImmediateAck ?s"
      using take f'(1) by (simp add: Let_def n_def)
    ultimately show ?thesis using recovered_more f'(3,5,6) by simp
  qed
qed

section \<open>Storing a segment\<close>

text \<open>A segment of the stream, written ahead at its place, disturbs nothing that is there.\<close>

lemma store_early:
  assumes "open_fifo (m_rbuf s)" "delivered \<rho> (m_rbuf s) (m_rcv_nxt s)"
    "early_ok \<rho> (m_rbuf s) (m_rcv_nxt s) l" "seg_honest \<rho> seg" "seg_len seg \<noteq> 0" "in_window s seg"
    "WriteOffset (take (unat (seg_len seg)) (seg_data seg)) (unat (seg_seq seg - m_rcv_nxt s)) (m_rbuf s) = (r, c, f)"
  shows "open_fifo f \<and> fb_buffer_length f = fb_buffer_length (m_rbuf s) \<and>
    GetBuffered f = GetBuffered (m_rbuf s) \<and> delivered \<rho> f (m_rcv_nxt s) \<and>
    early_ok \<rho> f (m_rcv_nxt s) (\<lparr>r_seq = seg_seq seg, r_len = seg_len seg\<rparr> # l)"
proof -
  let ?g = "m_rbuf s" and ?nxt = "unat (m_rcv_nxt s)" and ?n = "unat (seg_len seg)" and ?q = "unat (seg_seq seg)"
  define off where "off = unat (seg_seq seg - m_rcv_nxt s)"
  have win: "?nxt \<le> ?q" "?q + ?n \<le> ?nxt + GetWriteRemaining ?g" using assms(6) by (simp_all add: in_window_def)
  have off: "off = ?q - ?nxt" using win(1) by (simp add: off_def unat_sub_le_nat word_le_nat_alt)
  have n: "0 < ?n" using assms(5) by (simp add: unat_gt_0)
  have lt: "fb_data_length ?g + off < fb_buffer_length ?g"
    using win n off by (simp add: GetWriteRemaining_def)
  note w = fb.write_law [OF assms(1) lt assms(7) [folded off_def]]
  have len: "length (take ?n (seg_data seg)) = ?n" using assms(4) by (simp add: seg_honest_def)
  have c: "c = ?n" using w len win off by (simp add: GetWriteRemaining_def)
  have f: "open_fifo f" "fb_data_length f = fb_data_length ?g" "fb_buffer_length f = fb_buffer_length ?g"
    using w by blast+
  have p: "take ?n (seg_data seg) ! i = \<rho> (word_of_nat (?q + i))" if "i < ?n" for i
    using assms(4) that by (simp add: seg_honest_def stretch_def)
  have new: "ring_at f (fb_data_length ?g + (k - ?nxt)) = \<rho> (word_of_nat k)" if "?q \<le> k" "k < ?q + ?n" for k
  proof -
    let ?i = "fb_data_length ?g + (k - ?nxt)"
    have i: "?i < fb_buffer_length ?g" "fb_data_length ?g + off \<le> ?i" "?i < fb_data_length ?g + off + ?n"
      "?i - (fb_data_length ?g + off) = k - ?q"
      using that win off lt by (auto simp: GetWriteRemaining_def)
    then have "ring_at f ?i = take ?n (seg_data seg) ! (k - ?q)" using w c by simp
    with p [of "k - ?q"] that show ?thesis by simp
  qed
  have old: "ring_at f i = ring_at ?g i"
    if "i < fb_buffer_length ?g" "i < fb_data_length ?g + off \<or> fb_data_length ?g + off + ?n \<le> i" for i
    using w that c by auto
  have "fifo_contents f = fifo_contents ?g"
    using lt f(2) by (auto simp: fifo_contents_def intro!: old)
  then have del: "delivered \<rho> f (m_rcv_nxt s)" using assms(2) f(2) by (simp add: delivered_def GetBuffered_def)
  have el: "early_ok \<rho> f (m_rcv_nxt s) l"
    unfolding early_ok_def
  proof (intro ballI conjI allI impI)
    fix r assume r: "r \<in> set l"
    with assms(3) f(2,3) show b: "unat (r_seq r) + unat (r_len r) \<le> ?nxt + GetWriteRemaining f"
      by (simp add: early_ok_def GetWriteRemaining_def)
    fix k assume k: "?nxt \<le> k" "unat (r_seq r) \<le> k" "k < unat (r_seq r) + unat (r_len r)"
    have k_old: "ring_at ?g (fb_data_length ?g + (k - ?nxt)) = \<rho> (word_of_nat k)"
      using assms(3) r k by (simp add: early_ok_def GetBuffered_def)
    have "fb_data_length ?g + (k - ?nxt) < fb_buffer_length ?g"
      using b k f(2,3) by (simp add: GetWriteRemaining_def)
    moreover have "fb_data_length ?g + (k - ?nxt) < fb_data_length ?g + off \<or>
        fb_data_length ?g + off + ?n \<le> fb_data_length ?g + (k - ?nxt)" if "\<not> (?q \<le> k \<and> k < ?q + ?n)"
      using that k(1) off win(1) by linarith
    ultimately show "ring_at f (GetBuffered f + (k - ?nxt)) = \<rho> (word_of_nat k)"
      using new [of k] old [of "fb_data_length ?g + (k - ?nxt)"] k_old f(2)
      by (cases "?q \<le> k \<and> k < ?q + ?n") (simp_all add: GetBuffered_def)
  qed
  have "ring_at f (fb_data_length ?g + k - ?nxt) = \<rho> (word_of_nat k)"
    if "?nxt \<le> k" "?q \<le> k" "k < ?q + ?n" for k using new [of k] that by simp
  then have "early_ok \<rho> f (m_rcv_nxt s) [\<lparr>r_seq = seg_seq seg, r_len = seg_len seg\<rparr>]"
    using win(2) f(2,3) by (simp add: early_ok_def GetBuffered_def GetWriteRemaining_def)
  with el have "early_ok \<rho> f (m_rcv_nxt s) (\<lparr>r_seq = seg_seq seg, r_len = seg_len seg\<rparr> # l)"
    by (subst early_ok_Cons) blast
  then show ?thesis using f del by (simp add: GetBuffered_def)
qed

lemma set_insert_rseg: "set (insert_rseg r l) = set (r # l)"
proof -
  have "set l = set (takeWhile (\<lambda>it. r_seq it < r_seq r) l) \<union> set (dropWhile (\<lambda>it. r_seq it < r_seq r) l)"
    by (metis set_append takeWhile_dropWhile_id)
  then show ?thesis by (auto simp: insert_rseg_def)
qed

lemma insert_rseg_sorted:
  assumes "rlist_ok nxt l" "nxt < r_seq r"
  shows "rlist_ok nxt (insert_rseg r l)"
proof -
  let ?P = "\<lambda>it. r_seq it < r_seq r"
  have s: "sorted (map r_seq (takeWhile ?P l) @ map r_seq (dropWhile ?P l))"
    using assms(1) by (simp add: rlist_ok_def flip: map_append)
  have "r_seq r \<le> r_seq x" if "x \<in> set (dropWhile ?P l)" for x
  proof (cases "dropWhile ?P l")
    case (Cons y ys)
    then have "r_seq r \<le> r_seq y" by (metis hd_dropWhile list.distinct(1) list.sel(1) not_less)
    moreover have "r_seq y \<le> r_seq x" using s that by (auto simp: Cons sorted_append)
    ultimately show ?thesis by simp
  next
    case Nil
    with that have "x \<in> set []" by metis
    then show ?thesis by simp
  qed
  moreover have "r_seq x < r_seq r" if "x \<in> set (takeWhile ?P l)" for x
    using that by (auto dest: set_takeWhileD)
  ultimately have "sorted (map r_seq (insert_rseg r l))"
    using s by (auto simp: insert_rseg_def sorted_append less_imp_le)
  then show ?thesis using assms set_insert_rseg [of r l] by (simp add: rlist_ok_def)
qed

lemma early_ok_set: "set l = set l' \<Longrightarrow> early_ok \<rho> f nxt l = early_ok \<rho> f nxt l'"
  by (simp add: early_ok_def)

section \<open>Receiving data\<close>

text \<open>What is promised of \<^verbatim>\<open>process\<close> for a data segment of the peer's stream: no fault, the
  invariant again, \<open>m_rcv_nxt\<close> does not go back, exactly the newly contiguous bytes become readable,
  and no early segment is left behind that could have been delivered.\<close>

definition received :: "(u32 \<Rightarrow> byte) \<Rightarrow> pseudo_tcp \<Rightarrow> (SendFlags \<times> bool \<times> pseudo_tcp) option \<Rightarrow> bool" where
  "received \<rho> s r \<longleftrightarrow> (\<exists>fl b f nxt wnd l.
     r = Some (fl, b, s\<lparr>m_rbuf := f, m_rcv_nxt := nxt, m_rcv_wnd := wnd, m_rlist := l\<rparr>) \<and> open_fifo f \<and>
     fb_buffer_length f = fb_buffer_length (m_rbuf s) \<and>
     delivered \<rho> f nxt \<and> early_ok \<rho> f nxt l \<and> rlist_ok nxt l \<and> unat (m_rcv_nxt s) \<le> unat nxt \<and>
     GetBuffered f = GetBuffered (m_rbuf s) + (unat nxt - unat (m_rcv_nxt s)))"

lemma receivedI:
  assumes "r = Some (fl, b, s\<lparr>m_rbuf := f, m_rcv_nxt := nxt, m_rcv_wnd := wnd, m_rlist := l\<rparr>)" "open_fifo f"
    "fb_buffer_length f = fb_buffer_length (m_rbuf s)" "delivered \<rho> f nxt" "early_ok \<rho> f nxt l"
    "rlist_ok nxt l" "unat (m_rcv_nxt s) \<le> unat nxt"
    "GetBuffered f = GetBuffered (m_rbuf s) + (unat nxt - unat (m_rcv_nxt s))"
  shows "received \<rho> s r"
  unfolding received_def using assms by blast

lemma receive_data_ok:
  assumes inv: "rx_inv \<rho> s" "rlist_ok (m_rcv_nxt s) (m_rlist s)" "rcv_room s"
    and seg: "seg_honest \<rho> seg" "seg_len seg = 0 \<or> in_window s seg"
    and data: "seg_flags seg AND FLAG_CTL = 0" "m_shutdown s = SD_NONE"
  shows "received \<rho> s (receive_data seg sflags s)"
proof (cases "seg_len seg = 0")
  case True
  then show ?thesis
    using inv by (intro receivedI [where fl = sflags and b = False and f = "m_rbuf s" and nxt = "m_rcv_nxt s" and wnd = "m_rcv_wnd s" and l = "m_rlist s"])
      (simp_all add: receive_data_def Let_def rx_inv_def)
next
  case False
  let ?r = "\<lparr>r_seq = seg_seq seg, r_len = seg_len seg\<rparr>" and ?p = "take (unat (seg_len seg)) (seg_data seg)"
  obtain x c f where w: "WriteOffset ?p (unat (seg_seq seg - m_rcv_nxt s)) (m_rbuf s) = (x, c, f)"
    by (cases "WriteOffset ?p (unat (seg_seq seg - m_rcv_nxt s)) (m_rbuf s)") auto
  have win: "in_window s seg" using seg(2) False by blast
  from inv(1) have ok: "open_fifo (m_rbuf s)" "delivered \<rho> (m_rbuf s) (m_rcv_nxt s)"
    "early_ok \<rho> (m_rbuf s) (m_rcv_nxt s) (m_rlist s)" by (simp_all add: rx_inv_def)
  from store_early [OF ok seg(1) False win w]
  have f: "open_fifo f" "fb_buffer_length f = fb_buffer_length (m_rbuf s)" "GetBuffered f = GetBuffered (m_rbuf s)"
    "delivered \<rho> f (m_rcv_nxt s)" "early_ok \<rho> f (m_rcv_nxt s) (?r # m_rlist s)" by blast+
  then have rem: "GetWriteRemaining f = GetWriteRemaining (m_rbuf s)"
    by (simp add: GetBuffered_def GetWriteRemaining_def)
  have len: "\<not> length (seg_data seg) < unat (seg_len seg)" "seg_len seg > 0"
    using seg(1) False by (simp_all add: seg_honest_def word_gt_0)
  show ?thesis
  proof (cases "seg_seq seg = m_rcv_nxt s")
    case eq: True
    let ?n = "seg_len seg"
    have fit: "unat ?n \<le> GetWriteRemaining f" using win eq rem by (simp add: in_window_def)
    have cells: "ring_at f (GetBuffered f + (k - unat (m_rcv_nxt s))) = \<rho> (word_of_nat k)"
      if "unat (m_rcv_nxt s) \<le> k" "k < unat (m_rcv_nxt s) + unat ?n" for k
      using f(5) that eq by (simp add: early_ok_def)
    have rest: "early_ok \<rho> f (m_rcv_nxt s) (m_rlist s)" using f(5) early_ok_Cons by blast
    obtain g where g: "ConsumeWriteBuffer (unat ?n) f = Some g" "open_fifo g" "GetBuffered g = GetBuffered f + unat ?n"
      "GetWriteRemaining g = GetWriteRemaining f - unat ?n" "fb_buffer_length g = fb_buffer_length f"
      "unat (m_rcv_nxt s + ?n) = unat (m_rcv_nxt s) + unat ?n" "delivered \<rho> g (m_rcv_nxt s + ?n)"
      "early_ok \<rho> g (m_rcv_nxt s + ?n) (m_rlist s)"
      using grow_stream [OF f(1) _ fit cells f(4) rest] inv(3) rem unfolding rcv_room_def by auto
    let ?s = "s\<lparr>m_rbuf := g, m_rcv_nxt := m_rcv_nxt s + ?n, m_rcv_wnd := m_rcv_wnd s - ?n\<rparr>"
    have "rcv_room ?s" using inv(3) g(4,6) rem fit by (simp add: rcv_room_def)
    moreover have "sorted (map r_seq (m_rlist s))" using inv(2) by (simp add: rlist_ok_def)
    ultimately have "recovered \<rho> ?s (recover_segments (m_rlist s) sflags ?s)"
      using g by (intro recover_segments_ok) simp_all
    from recovered_more [OF this] g(3,5,6) f(2,3)
    have "recovered \<rho> s (recover_segments (m_rlist s) sflags ?s)" by simp
    then obtain l fl h nxt wnd where h: "recover_segments (m_rlist s) sflags ?s =
        Some (l, fl, s\<lparr>m_rbuf := h, m_rcv_nxt := nxt, m_rcv_wnd := wnd\<rparr>)" and
      h': "open_fifo h" "fb_buffer_length h = fb_buffer_length (m_rbuf s)" "delivered \<rho> h nxt"
        "early_ok \<rho> h nxt l" "rlist_ok nxt l" "unat (m_rcv_nxt s) \<le> unat nxt"
        "GetBuffered h = GetBuffered (m_rbuf s) + (unat nxt - unat (m_rcv_nxt s))"
      unfolding recovered_def by auto
    have "receive_data seg sflags s =
        Some (fl, True, s\<lparr>m_rbuf := h, m_rcv_nxt := nxt, m_rcv_wnd := wnd, m_rlist := l\<rparr>)"
      using data len w eq g(1) h by (simp add: receive_data_def Let_def)
    from receivedI [OF this h'] show ?thesis .
  next
    case ne: False
    let ?l = "insert_rseg ?r (m_rlist s)"
    have "m_rcv_nxt s < seg_seq seg"
      using ne win by (simp add: in_window_def word_le_nat_alt order_less_le)
    then have l: "rlist_ok (m_rcv_nxt s) ?l" using insert_rseg_sorted [OF inv(2), of ?r] by simp
    have e: "early_ok \<rho> f (m_rcv_nxt s) ?l" using f(5) early_ok_set set_insert_rseg by metis
    have "receive_data seg sflags s = Some (sflags, False, s\<lparr>m_rbuf := f, m_rcv_nxt := m_rcv_nxt s,
        m_rcv_wnd := m_rcv_wnd s, m_rlist := ?l\<rparr>)"
      using data len w ne by (simp add: receive_data_def Let_def)
    from receivedI [OF this f(1,2,4) e l] f(3) show ?thesis by simp
  qed
qed

end
