(* ===== verification/Pseudo_Tcp_Conn.thy ===== *)
theory Pseudo_Tcp_Conn
  imports Pseudo_Tcp_Recv
begin

text \<open>
  A whole \<^verbatim>\<open>PseudoTcp\<close> endpoint: the wire format, the timers, the public operations and their
  reachable states. The sender's and the receiver's invariants hold together in every reachable
  state, no operation leaves the defined behaviour of C++ there, every datagram sent carries a
  stretch of the outgoing stream, and the bytes the application reads are the incoming stream in
  order.
\<close>

section \<open>The wire format\<close>

lemma parse_packet:
  assumes "length p \<le> 65511"
  shows "parse_segment E' (packet_header E seq flags s @ p) =
    \<lparr>seg_conv = m_conv s, seg_seq = seq, seg_ack = m_rcv_nxt s, seg_flags = flags,
     seg_wnd = ucast (drop_bit (unat (m_rwnd_scale s)) (m_rcv_wnd s)), seg_data = p,
     seg_len = word_of_nat (length p), seg_tsval = env_clock E (w_ticks s), seg_tsecr = m_ts_recent s\<rparr>"
proof -
  have "word_of_nat (24 + length p) - (24 :: u32) = word_of_nat (length p)" by simp
  then show ?thesis
    by (simp add: parse_segment_def packet_header_bytes HEADER_SIZE_def Let_def nth_append)
qed

lemma on_stream_honest:
  assumes "on_stream E \<rho> (TcpWritePacket b)"
    "unat (seg_seq (parse_segment E b)) + unat (seg_len (parse_segment E b)) < 2 ^ 32"
  shows "seg_honest \<rho> (parse_segment E b)"
proof -
  have b: "24 \<le> length b" "length b \<le> 65535"
    "drop 24 b = stretch \<rho> (bytes_to_long (env_big_endian E) (drop 4 b)) (length b - 24)"
    using assms(1) by (simp_all add: on_stream_def)
  have "word_of_nat (length b) - (24 :: u32) = word_of_nat (length b - 24)"
    using b(1) by (simp add: of_nat_diff)
  moreover have "unat (word_of_nat (length b - 24) :: u32) = length b - 24"
    using b(2) by (intro unat_of_nat_lt) simp
  ultimately show ?thesis
    using b assms(2) by (simp add: seg_honest_def parse_segment_def HEADER_SIZE_def Let_def)
qed

section \<open>Timers\<close>

lemma clock_retransmit_ok:
  assumes "tx_inv E \<sigma> s" "m_state s \<noteq> TCP_CLOSED"
  shows "tx_phase E \<sigma> s (clock_retransmit E now s)"
proof (cases "m_rto_base s \<noteq> 0 \<and> TimeDiff (m_rto_base s + m_rx_rto s) now \<le> 0 \<and> m_slist s \<noteq> []")
  case False
  then have "clock_retransmit E now s = Some (True, s)" by (auto simp: clock_retransmit_def)
  with assms show ?thesis by (simp add: tx_phaseI)
next
  case True
  define fin where "fin t = (let t = t\<lparr>m_ssthresh := max ((m_snd_nxt t - m_snd_una t) div 2) (2 * m_mss t)\<rparr>;
      t = t\<lparr>m_cwnd := m_mss t\<rparr>
    in Some (True, t\<lparr>m_rx_rto := min (if m_state t < TCP_ESTABLISHED then DEF_RTO else MAX_RTO) (m_rx_rto t * 2),
         m_rto_base := now\<rparr>))" for t :: pseudo_tcp
  have core: "tx_core E \<sigma> s" and rec: "recover_ok s" using assms(1) by (simp_all add: tx_inv_def)
  have fl: "0 < in_flight s" using rec True assms(2) by (simp add: recover_ok_def)
  have fin: "tx_phase E \<sigma> s (fin t)"
    if "tx_core E \<sigma> t" "sends E s t" "rx_side t = rx_side s" "m_state t = m_state s" for t
    unfolding fin_def Let_def using sends_recover [OF that(2) rec] sendsD(5) [OF that(2)] fl
    by (intro tx_phase_upd [OF that(1,3,4)]) (simp_all add: rx_side_def recover_ok_def in_flight_def)
  have "clock_retransmit E now s = transmit E 0 now s \<bind>
      (\<lambda>(sent, t). if \<not> sent then Some (False, closedown ECONNABORTED t) else fin t)"
    using True by (simp add: clock_retransmit_def fin_def Let_def cong: if_cong)
  with retransmit_phase [OF core refl refl fl fin] show ?thesis by simp
qed

lemma tx_phase_pk:
  assumes "tx_inv E \<sigma> s" "pk_rest t = pk_rest s" "emits E s t"
  shows "tx_inv E \<sigma> t" "rx_side t = rx_side s" "m_state t = m_state s"
proof -
  have "sends E s t" using assms by (intro sends_pk) (simp_all add: tx_inv_def tx_core_def)
  from sends_tx_inv [OF this assms(1)] show "tx_inv E \<sigma> t" .
  show "rx_side t = rx_side s" "m_state t = m_state s"
    using rx_side_tx tx_restD(4) pk_restD(1) [OF assms(2)] by blast+
qed

lemma clock_probe_ok:
  assumes "tx_inv E \<sigma> s"
  shows "tx_phase E \<sigma> s (clock_probe E now s)"
proof -
  have core: "tx_core E \<sigma> s" using assms by (simp add: tx_inv_def)
  then have "sender_ok s" "mss_ok s" by (simp_all add: tx_core_def)
  then obtain t where "map_option snd (packet E (m_snd_nxt s - 1) 0 0 0 s) = Some t"
    and pk: "pk_rest t = pk_rest s" "emits E s t" by (rule ack_packet_ok)
  then obtain w where p: "packet E (m_snd_nxt s - 1) 0 0 0 s = Some (w, t)" by auto
  note t = tx_phase_pk [OF assms pk]
  have "tx_phase E \<sigma> s (Some (True, t\<lparr>m_lastsend := now, m_rx_rto := min MAX_RTO (m_rx_rto t * 2)\<rparr>))"
    using t by (intro tx_phase_upd [OF _ t(2,3)]) (simp_all add: rx_side_def recover_ok_def in_flight_def tx_inv_def)
  moreover have "tx_phase E \<sigma> s (Some (False, closedown ECONNABORTED s))"
    using closedown_inv [OF core] by (intro tx_phaseI) simp_all
  moreover have "tx_phase E \<sigma> s (Some (True, s))" using assms by (simp add: tx_phaseI)
  ultimately show ?thesis using p by (simp add: clock_probe_def)
qed

lemma NotifyClock_ok:
  assumes "tx_inv E \<sigma> s"
  obtains s' where "NotifyClock E now s = Some s'" "tx_inv E \<sigma> s'" "rx_side s' = rx_side s"
    "m_state s' = m_state s \<or> m_state s' = TCP_CLOSED"
proof (cases "m_state s = TCP_CLOSED")
  case False
  from clock_retransmit_ok [OF assms False, of now] obtain b1 s1 where
    r: "clock_retransmit E now s = Some (b1, s1)" "tx_inv E \<sigma> s1" "rx_side s1 = rx_side s"
      "m_state s1 = (if b1 then m_state s else TCP_CLOSED)" unfolding tx_phase_def by blast
  from clock_probe_ok [OF r(2), of now] obtain b2 s2 where
    p: "clock_probe E now s1 = Some (b2, s2)" "tx_inv E \<sigma> s2" "rx_side s2 = rx_side s1"
      "m_state s2 = (if b2 then m_state s1 else TCP_CLOSED)" unfolding tx_phase_def by blast
  have "sender_ok s2" "mss_ok s2" using p(2) by (simp_all add: tx_inv_def tx_core_def)
  then obtain t where t: "map_option snd (packet E (m_snd_nxt s2) 0 0 0 s2) = Some t"
    and pk: "pk_rest t = pk_rest s2" "emits E s2 t" by (rule ack_packet_ok)
  note t' = tx_phase_pk [OF p(2) pk]
  obtain u where u: "clock_ack E now s2 = Some u" "tx_inv E \<sigma> u" "rx_side u = rx_side s2" "m_state u = m_state s2"
    using t t' p(2) by (cases "m_t_ack s2 \<noteq> 0 \<and> TimeDiff (m_t_ack s2 + m_ack_delay s2) now \<le> 0")
      (simp_all add: clock_ack_def)
  show ?thesis
  proof (cases "b1 \<and> b2")
    case True
    with r p u False show ?thesis by (intro that [of u]) (simp_all add: NotifyClock_def)
  next
    case neg: False
    show ?thesis
    proof (cases b1)
      case True
      with neg r p False show ?thesis by (intro that [of s2]) (simp_all add: NotifyClock_def)
    next
      case b1: False
      with r False show ?thesis by (intro that [of s1]) (simp_all add: NotifyClock_def)
    qed
  qed
qed (use assms that in \<open>simp add: NotifyClock_def\<close>)

section \<open>The invariant of an endpoint\<close>

text \<open>After \<^verbatim>\<open>Close\<close> incoming data is acknowledged and thrown away, so the receive buffer no longer
  follows the peer's stream.\<close>

definition rx_part :: "(u32 \<Rightarrow> byte) \<Rightarrow> pseudo_tcp \<Rightarrow> bool" where
  "rx_part \<rho> s \<longleftrightarrow> open_fifo (m_rbuf s) \<and>
     (m_shutdown s = SD_NONE \<longrightarrow> rx_inv \<rho> s \<and> rlist_ok (m_rcv_nxt s) (m_rlist s))"

definition conn_inv :: "tcp_env \<Rightarrow> (u32 \<Rightarrow> byte) \<Rightarrow> (u32 \<Rightarrow> byte) \<Rightarrow> pseudo_tcp \<Rightarrow> bool" where
  "conn_inv E \<sigma> \<rho> s \<longleftrightarrow> tx_inv E \<sigma> s \<and> rx_part \<rho> s \<and>
     116 < unat (m_mtu_advise s) \<and> unat (m_mtu_advise s) \<le> 65535 \<and>
     (m_state s = TCP_LISTEN \<longrightarrow> m_slist s = [])"

lemma conn_invD:
  assumes "conn_inv E \<sigma> \<rho> s"
  shows "tx_inv E \<sigma> s" "tx_core E \<sigma> s" "sender_ok s" "mss_ok s" "recover_ok s" "rx_part \<rho> s"
    "m_state s = TCP_LISTEN \<Longrightarrow> m_slist s = []" "open_fifo (m_rbuf s)"
    "116 < unat (m_mtu_advise s)" "unat (m_mtu_advise s) \<le> 65535"
  using assms by (simp_all add: conn_inv_def tx_inv_def tx_core_def rx_part_def)

text \<open>The sequence number of the next byte the application will read.\<close>

definition read_pos :: "pseudo_tcp \<Rightarrow> u32" where
  "read_pos s = m_rcv_nxt s - word_of_nat (GetBuffered (m_rbuf s))"

lemma read_pos_tx: "tx_rest s' = tx_rest s \<Longrightarrow> read_pos s' = read_pos s"
  using tx_restD [of s' s] by (simp add: read_pos_def)

lemma read_pos_rx: "rx_side s' = rx_side s \<Longrightarrow> read_pos s' = read_pos s"
  by (simp add: rx_side_def read_pos_def)

lemma rx_part_cong: "rx_side s' = rx_side s \<Longrightarrow> rx_part \<rho> s' = rx_part \<rho> s"
  by (simp add: rx_side_def rx_part_def rx_inv_def)

lemma conn_inv_tx:
  assumes "conn_inv E \<sigma> \<rho> s" "tx_inv E \<sigma> s'" "rx_side s' = rx_side s"
    "m_state s' = TCP_LISTEN \<Longrightarrow> m_slist s' = []"
  shows "conn_inv E \<sigma> \<rho> s'"
proof -
  have "m_mtu_advise s' = m_mtu_advise s" using assms(3) by (simp add: rx_side_def)
  with assms rx_part_cong [OF assms(3), of \<rho>] show ?thesis by (simp add: conn_inv_def)
qed

lemma notify_inv:
  assumes "\<And>b. e \<noteq> TcpWritePacket b"
  shows "tx_inv E \<sigma> (notify e s) = tx_inv E \<sigma> s" "rx_side (notify e s) = rx_side s"
    "m_state (notify e s) = m_state s" "m_slist (notify e s) = m_slist s"
proof -
  have "on_stream E \<sigma> e" using assms by (auto simp: on_stream_def split: tcp_event.splits)
  then show "tx_inv E \<sigma> (notify e s) = tx_inv E \<sigma> s"
    by (simp add: notify_def tx_inv_def tx_core_def sender_ok_def mss_ok_def recover_ok_def in_flight_def)
qed (simp_all add: notify_def rx_side_def)

lemma conn_notify:
  assumes "conn_inv E \<sigma> \<rho> s" "\<And>b. e \<noteq> TcpWritePacket b"
  shows "conn_inv E \<sigma> \<rho> (notify e s)"
  using conn_invD(1,7) [OF assms(1)] notify_inv [OF assms(2)]
  by (intro conn_inv_tx [OF assms(1)]) simp_all

lemma tx_inv_upd:
  assumes "tx_inv E \<sigma> s" "m_sbuf t = m_sbuf s" "m_slist t = m_slist s" "m_snd_una t = m_snd_una s"
    "m_snd_nxt t = m_snd_nxt s" "w_events t = w_events s" "m_dup_acks t = m_dup_acks s"
    "m_recover t = m_recover s" "m_rto_base t = m_rto_base s" "mss_ok t"
    "m_state s = TCP_CLOSED \<Longrightarrow> m_state t = TCP_CLOSED"
  shows "tx_inv E \<sigma> t"
  using assms tx_core_cong [OF _ assms(2-6,10)]
  by (auto simp: tx_inv_def recover_ok_def in_flight_def)

section \<open>Adjusting the MTU\<close>

lemma mss_level_bound: "l \<le> 9 \<Longrightarrow> mss_level m l \<le> 9"
proof (induction m l rule: mss_level.induct)
  case (1 m l)
  show ?case
  proof (cases "l = 9")
    case True
    then have "mss_level m l = 9"
      by (subst mss_level.simps) (simp add: PACKET_MAXIMUMS_def)
    then show ?thesis by simp
  next
    case False
    then show ?thesis using 1 by (subst mss_level.simps) simp
  qed
qed

lemma adjustMTU_ok:
  assumes "116 < unat (m_mtu_advise s)" "unat (m_mtu_advise s) \<le> 65535" "unat (m_rwnd_scale s) < 32"
  shows "mss_ok (adjustMTU s)"
proof -
  have "unat (m_mtu_advise s - 116) = unat (m_mtu_advise s) - 116"
    using assms(1) by (simp add: unat_sub_le_nat word_le_nat_alt)
  moreover have "unat (word_of_nat (mss_level (m_mtu_advise s) 0) :: u32) = mss_level (m_mtu_advise s) 0"
    using mss_level_bound [of 0 "m_mtu_advise s"] by (intro unat_of_nat_lt) simp
  ultimately show ?thesis
    using assms mss_level_bound [of 0 "m_mtu_advise s"]
    by (simp add: mss_ok_def adjustMTU_def Let_def size_consts)
qed

lemma adjustMTU_frame:
  "tx_rest (adjustMTU s\<lparr>m_ssthresh := 0\<rparr>) = tx_rest (s\<lparr>m_ssthresh := 0\<rparr>)"
  "m_slist (adjustMTU s) = m_slist s" "m_snd_nxt (adjustMTU s) = m_snd_nxt s" "m_sbuf (adjustMTU s) = m_sbuf s"
  "m_snd_una (adjustMTU s) = m_snd_una s" "w_events (adjustMTU s) = w_events s"
  "m_dup_acks (adjustMTU s) = m_dup_acks s" "m_recover (adjustMTU s) = m_recover s"
  "m_rto_base (adjustMTU s) = m_rto_base s" "m_state (adjustMTU s) = m_state s"
  "rx_side (adjustMTU s) = rx_side s"
  by (simp_all add: adjustMTU_def Let_def rx_side_def tx_rest_def)

lemma open_ok:
  assumes "conn_inv E \<sigma> \<rho> s" "m_state s \<noteq> TCP_CLOSED"
  shows "conn_inv E \<sigma> \<rho> (notify OnTcpOpen (adjustMTU (s\<lparr>m_state := TCP_ESTABLISHED\<rparr>)))"
proof -
  let ?t = "s\<lparr>m_state := TCP_ESTABLISHED\<rparr>"
  note i = conn_invD [OF assms(1)]
  have "mss_ok (adjustMTU ?t)"
    using i(4,9,10) by (intro adjustMTU_ok) (simp_all add: mss_ok_def)
  then have "tx_inv E \<sigma> (adjustMTU ?t)"
    using assms(2) by (intro tx_inv_upd [OF i(1)]) (simp_all add: adjustMTU_frame)
  then show ?thesis
    by (intro conn_inv_tx [OF assms(1)]) (simp_all add: notify_inv adjustMTU_frame, simp add: rx_side_def)
qed

lemma NotifyMTU_ok:
  assumes "conn_inv E \<sigma> \<rho> s" "116 < unat mtu"
  shows "conn_inv E \<sigma> \<rho> (NotifyMTU mtu s)"
proof -
  let ?t = "s\<lparr>m_mtu_advise := ucast mtu\<rparr>"
  have m: "unat (ucast mtu :: u32) = unat mtu" 
    using unat_lt [of mtu] by (simp add: unsigned_ucast_eq take_bit_nat_eq_self)
  note i = conn_invD [OF assms(1)]
  have "unat mtu < 65536" using unat_lt [of mtu] by simp
  then have t: "conn_inv E \<sigma> \<rho> ?t"
    using i assms(2) m tx_inv_upd [OF i(1), of ?t]
    by (simp add: conn_inv_def rx_part_def rx_inv_def mss_ok_def)
  note j = conn_invD [OF t]
  have "mss_ok (adjustMTU ?t)"
    using j(4,9,10) by (intro adjustMTU_ok) (simp_all add: mss_ok_def)
  then have "tx_inv E \<sigma> (adjustMTU ?t)" by (intro tx_inv_upd [OF j(1)]) (simp_all add: adjustMTU_frame)
  then have "conn_inv E \<sigma> \<rho> (adjustMTU ?t)"
    using j(7) by (intro conn_inv_tx [OF t]) (simp_all add: adjustMTU_frame)
  with t show ?thesis by (simp add: NotifyMTU_def Let_def)
qed

section \<open>Queueing and connecting\<close>

text \<open>The next bytes handed to \<^verbatim>\<open>queue\<close> are the next bytes of the outgoing stream.\<close>

definition extends :: "(u32 \<Rightarrow> byte) \<Rightarrow> byte list \<Rightarrow> pseudo_tcp \<Rightarrow> bool" where
  "extends \<sigma> data s \<longleftrightarrow> take (queue_len data s) data =
     stretch \<sigma> (m_snd_una s + word_of_nat (GetBuffered (m_sbuf s))) (queue_len data s)"

definition connect_bytes :: "pseudo_tcp \<Rightarrow> byte list" where
  "connect_bytes s = CTL_CONNECT # (if m_support_wnd_scale s then [TCP_OPT_WND_SCALE, 1, m_rwnd_scale s] else [])"

lemma queue_conn:
  assumes "conn_inv E \<sigma> \<rho> s" "extends \<sigma> data s" "m_state s \<noteq> TCP_LISTEN"
    "bCtrl \<Longrightarrow> m_slist s = [] \<and> 0 < queue_len data s"
  shows "conn_inv E \<sigma> \<rho> (snd (queue data bCtrl s))" "fst (queue data bCtrl s) = word_of_nat (queue_len data s)"
    "m_state (snd (queue data bCtrl s)) = m_state s"
proof -
  note i = conn_invD [OF assms(1)]
  obtain l f where q: "queue data bCtrl s = (word_of_nat (queue_len data s), s\<lparr>m_slist := l, m_sbuf := f\<rparr>)"
    "sender_ok (s\<lparr>m_slist := l, m_sbuf := f\<rparr>)"
    "fifo_contents f = fifo_contents (m_sbuf s) @ take (queue_len data s) data"
    "GetBuffered f = GetBuffered (m_sbuf s) + queue_len data s"
    using queue_ok [OF i(3) assms(4)] by metis
  have "fifo_contents f = stretch \<sigma> (m_snd_una s) (GetBuffered f)"
    using q(3,4) assms(2) i(2) by (simp add: extends_def tx_core_def stretch_append)
  then have "tx_inv E \<sigma> (s\<lparr>m_slist := l, m_sbuf := f\<rparr>)"
    using q(2) i by (simp add: tx_inv_def tx_core_def mss_ok_def recover_ok_def in_flight_def)
  then have "conn_inv E \<sigma> \<rho> (s\<lparr>m_slist := l, m_sbuf := f\<rparr>)"
    using assms(3) by (intro conn_inv_tx [OF assms(1)]) (simp_all add: rx_side_def)
  with q show "conn_inv E \<sigma> \<rho> (snd (queue data bCtrl s))"
    "fst (queue data bCtrl s) = word_of_nat (queue_len data s)"
    "m_state (snd (queue data bCtrl s)) = m_state s" by simp_all
qed

lemma connect_message:
  "queueConnectMessage s =
     snd (queue (connect_bytes s) True (s\<lparr>m_snd_wnd := word_of_nat (length (connect_bytes s))\<rparr>))"
proof -
  define buf where "buf = (let b = WriteUInt8 CTL_CONNECT (ByteBuffer_order ORDER_NETWORK)
    in if m_support_wnd_scale s then WriteUInt8 (m_rwnd_scale s) (WriteUInt8 1 (WriteUInt8 TCP_OPT_WND_SCALE b)) else b)"
  have buf: "buffer_ok buf" "Contents buf = connect_bytes s"
    by (simp_all add: buf_def connect_bytes_def Let_def WriteUInt8_def WriteBytes_ok)
  have "Length buf = length (connect_bytes s)" using buf length_Contents by metis
  then show ?thesis
    using buf(2) by (simp add: queueConnectMessage_def Let_def buf_def)
qed

lemma conn_inv_user:
  "conn_inv E \<sigma> \<rho> (s\<lparr>m_snd_wnd := w\<rparr>) = conn_inv E \<sigma> \<rho> s"
  "conn_inv E \<sigma> \<rho> (s\<lparr>m_bReadEnable := e\<rparr>) = conn_inv E \<sigma> \<rho> s"
  "conn_inv E \<sigma> \<rho> (s\<lparr>m_bWriteEnable := e\<rparr>) = conn_inv E \<sigma> \<rho> s"
  "conn_inv E \<sigma> \<rho> (s\<lparr>m_error := err\<rparr>) = conn_inv E \<sigma> \<rho> s"
  "conn_inv E \<sigma> \<rho> (s\<lparr>m_rcv_wnd := w\<rparr>) = conn_inv E \<sigma> \<rho> s"
  "conn_inv E \<sigma> \<rho> (s\<lparr>m_use_nagling := e\<rparr>) = conn_inv E \<sigma> \<rho> s"
  "conn_inv E \<sigma> \<rho> (s\<lparr>m_ack_delay := w\<rparr>) = conn_inv E \<sigma> \<rho> s"
  by (simp_all add: conn_inv_def rx_part_def rx_inv_def tx_inv_def tx_core_def sender_ok_def mss_ok_def
      recover_ok_def in_flight_def)

lemma listen_empty:
  assumes "sender_ok s" "m_slist s = []"
  shows "m_snd_nxt s = m_snd_una s" "GetBuffered (m_sbuf s) = 0" "0 < GetWriteRemaining (m_sbuf s)"
  using assms by (auto simp: sender_ok_def unat_eq_0 open_fifo_def fifo_ok_def GetBuffered_def GetWriteRemaining_def)

lemma queueConnectMessage_ok:
  assumes "conn_inv E \<sigma> \<rho> s" "m_state s = TCP_LISTEN" "extends \<sigma> (connect_bytes s) s" "st \<noteq> TCP_LISTEN" "st \<noteq> TCP_CLOSED"
  shows "conn_inv E \<sigma> \<rho> (queueConnectMessage (s\<lparr>m_state := st\<rparr>))"
    "m_state (queueConnectMessage (s\<lparr>m_state := st\<rparr>)) = st"
proof -
  let ?t = "s\<lparr>m_state := st, m_snd_wnd := word_of_nat (length (connect_bytes s))\<rparr>"
  note i = conn_invD [OF assms(1)]
  have l: "m_slist s = []" using i(7) assms(2) by simp
  note e = listen_empty [OF i(3) l]
  have "tx_inv E \<sigma> (s\<lparr>m_state := st\<rparr>)"
    using i assms(2) by (intro tx_inv_upd [OF i(1)]) (simp_all add: mss_ok_def)
  then have "conn_inv E \<sigma> \<rho> (s\<lparr>m_state := st\<rparr>)"
    using assms(4) by (intro conn_inv_tx [OF assms(1)]) (simp_all add: rx_side_def)
  then have "conn_inv E \<sigma> \<rho> ?t" using conn_inv_user(1) [where s = "s\<lparr>m_state := st\<rparr>"] by simp
  moreover have "extends \<sigma> (connect_bytes s) ?t" using assms(3) by (simp add: extends_def queue_len_def)
  moreover have "0 < queue_len (connect_bytes s) ?t"
    using e(3) by (simp add: queue_len_def connect_bytes_def)
  ultimately have "conn_inv E \<sigma> \<rho> (snd (queue (connect_bytes s) True ?t))"
    "m_state (snd (queue (connect_bytes s) True ?t)) = st"
    using queue_conn [of E \<sigma> \<rho> ?t "connect_bytes s" True] l assms(4) by simp_all
  moreover have "connect_bytes (s\<lparr>m_state := st\<rparr>) = connect_bytes s" by (simp add: connect_bytes_def)
  ultimately show "conn_inv E \<sigma> \<rho> (queueConnectMessage (s\<lparr>m_state := st\<rparr>))"
    "m_state (queueConnectMessage (s\<lparr>m_state := st\<rparr>)) = st"
    by (simp_all add: connect_message)
qed

lemma attemptSend_empty:
  assumes "sender_ok s" "m_slist s = []" "attemptSend E fl s = Some s'"
  shows "m_slist s' = []"
proof -
  note e = listen_empty [OF assms(1,2)]
  have z: "send_available t = 0" if "m_sbuf t = m_sbuf s" "m_snd_nxt t = m_snd_nxt s" "m_snd_una t = m_snd_una s"
    for t :: pseudo_tcp
    using that e by (simp add: send_available_def Let_def)
  have pk: "m_slist t' = []" if "packet E q 0 0 0 t = Some (w, t')" "m_slist t = []" for q w t t'
    using pk_restD(2) [OF packet_frame [OF that(1)]] that(2) by simp
  show ?thesis
    using assms(2,3) pk e
    by (auto simp: attemptSend_def Now_def Let_def z split: if_splits)
qed

lemma attemptSend_conn:
  assumes "conn_inv E \<sigma> \<rho> s"
  obtains s' where "attemptSend E fl s = Some s'" "conn_inv E \<sigma> \<rho> s'" "sends E s s'"
proof -
  note i = conn_invD [OF assms]
  obtain s' where s': "attemptSend E fl s = Some s'" "sends E s s'" by (rule attemptSend_ok [OF i(3,4)])
  note d = sendsD [OF s'(2)] and r = tx_restD [OF sendsD(3) [OF s'(2)]]
  have "m_slist s' = []" if "m_state s' = TCP_LISTEN"
    using attemptSend_empty [OF i(3) _ s'(1)] that i(7) r(4) by simp
  then have "conn_inv E \<sigma> \<rho> s'"
    using rx_side_tx [OF d(3)] sends_tx_inv [OF s'(2) i(1)] by (intro conn_inv_tx [OF assms])
  with s' that show ?thesis by blast
qed

section \<open>Control messages\<close>

lemma parse_options_frame:
  "\<exists>k. snd (snd (parse_options_loop b opts s)) = s\<lparr>m_swnd_scale := k\<rparr>"
proof (induction b opts s rule: parse_options_loop.induct)
  case (1 b opts s)
  have same: "\<exists>k. s = s\<lparr>m_swnd_scale := k\<rparr>" by (rule exI [of _ "m_swnd_scale s"]) simp
  have app: "\<exists>k. applyOption kind d len s = s\<lparr>m_swnd_scale := k\<rparr>" for kind d len
    using same by (auto simp: applyOption_def applyWindowScaleOption_def)
  show ?case
  proof (cases "ReadUInt8 b")
    case None
    then show ?thesis using same by (subst parse_options_loop.simps) simp
  next
    case (Some kb)
    obtain kind b1 where kb: "kb = (kind, b1)" by (cases kb)
    consider "kind = TCP_OPT_EOL" | "kind \<noteq> TCP_OPT_EOL" "kind = TCP_OPT_NOOP" |
      "kind \<noteq> TCP_OPT_EOL" "kind \<noteq> TCP_OPT_NOOP" by blast
    then show ?thesis
    proof cases
      case 1
      then show ?thesis using Some kb same by (subst parse_options_loop.simps) simp
    next
      case 2
      then show ?thesis using Some kb 1(1) [OF Some kb [symmetric]] by (subst parse_options_loop.simps) simp
    next
      case 3
      obtain l b2 where lb: "(case ReadUInt8 b1 of None \<Rightarrow> (0, b1) | Some (l, b) \<Rightarrow> (l, b)) = (l, b2)"
        by (cases "case ReadUInt8 b1 of None \<Rightarrow> (0, b1) | Some (l, b) \<Rightarrow> (l, b)")
      show ?thesis
      proof (cases "Consume (unat l) b2")
        case None
        then show ?thesis using Some kb 3 lb same by (subst parse_options_loop.simps) simp
      next
        case c: (Some b3)
        from app [of kind "Contents b2" "ucast l"] obtain k where
          k: "applyOption kind (Contents b2) (ucast l) s = s\<lparr>m_swnd_scale := k\<rparr>" by blast
        from 1(2) [OF Some kb [symmetric] 3 lb [symmetric] c] k show ?thesis
          using Some kb 3 lb c by (subst parse_options_loop.simps) auto
      qed
    qed
  qed
qed

lemma scale_default: "scale_for DEFAULT_RCV_BUF_SIZE 0 = (DEFAULT_RCV_BUF_SIZE, 0)"
  by (subst scale_for.simps) (simp add: DEFAULT_RCV_BUF_SIZE_def)

definition quiet :: "pseudo_tcp \<Rightarrow> bool" where
  "quiet s \<longleftrightarrow> GetBuffered (m_rbuf s) = 0 \<and> m_rlist s = []"

lemma rx_part_quiet: "open_fifo (m_rbuf s) \<Longrightarrow> quiet s \<Longrightarrow> rx_part \<rho> s"
  by (simp add: rx_part_def rx_inv_def quiet_def delivered_def early_ok_def rlist_ok_def stretch_def
      fifo_contents_def GetBuffered_def)

lemma resize_default_ok:
  assumes "conn_inv E \<sigma> \<rho> s" "quiet s" "t = (resizeReceiveBuffer DEFAULT_RCV_BUF_SIZE s)\<lparr>m_swnd_scale := 0\<rparr>"
  shows "conn_inv E \<sigma> \<rho> t" "quiet t" "m_rwnd_scale t = 0"
    "m_slist t = m_slist s" "m_snd_una t = m_snd_una s" "m_snd_nxt t = m_snd_nxt s" "m_state t = m_state s"
    "m_rcv_nxt t = m_rcv_nxt s" "m_shutdown t = m_shutdown s" "m_cwnd t = m_cwnd s" "m_conv t = m_conv s"
    "read_pos t = read_pos s"
proof -
  note i = conn_invD [OF assms(1)]
  obtain res f where f: "SetCapacity (unat DEFAULT_RCV_BUF_SIZE) (m_rbuf s) = (res, f)"
    by (cases "SetCapacity (unat DEFAULT_RCV_BUF_SIZE) (m_rbuf s)")
  have "0 < unat DEFAULT_RCV_BUF_SIZE" by (simp add: DEFAULT_RCV_BUF_SIZE_def)
  from SetCapacity_refines [OF _ this f] i(8) have f': "open_fifo f" "fb_data_length f = fb_data_length (m_rbuf s)"
    by (simp_all add: open_fifo_def)
  have t: "t = s\<lparr>m_rbuf := f, m_rbuf_len := DEFAULT_RCV_BUF_SIZE, m_rwnd_scale := 0,
      m_ssthresh := DEFAULT_RCV_BUF_SIZE, m_rcv_wnd := word_of_nat (GetWriteRemaining f), m_swnd_scale := 0\<rparr>"
    using f by (simp add: assms(3) resizeReceiveBuffer_def scale_default Let_def)
  show q: "quiet t" using assms(2) f'(2) by (simp add: quiet_def t GetBuffered_def)
  show "read_pos t = read_pos s" using f'(2) by (simp add: read_pos_def t GetBuffered_def)
  have "tx_inv E \<sigma> t" using i(4) by (intro tx_inv_upd [OF i(1)]) (simp_all add: t mss_ok_def)
  then show "conn_inv E \<sigma> \<rho> t"
    using rx_part_quiet [OF _ q, of \<rho>] f'(1) i by (simp add: conn_inv_def t)
qed (simp_all add: assms(3) resizeReceiveBuffer_def Let_def scale_default case_prod_beta)

lemma parseOptions_ok:
  assumes "conn_inv E \<sigma> \<rho> s" "quiet s \<or> m_rwnd_scale s = 0" "t = parseOptions d s"
  shows "conn_inv E \<sigma> \<rho> t \<and> (quiet s \<longrightarrow> quiet t) \<and> (m_rwnd_scale s = 0 \<longrightarrow> m_rwnd_scale t = 0) \<and>
    m_slist t = m_slist s \<and> m_snd_una t = m_snd_una s \<and> m_snd_nxt t = m_snd_nxt s \<and> m_state t = m_state s \<and>
    m_rcv_nxt t = m_rcv_nxt s \<and> m_shutdown t = m_shutdown s \<and> m_cwnd t = m_cwnd s \<and> m_conv t = m_conv s \<and>
    read_pos t = read_pos s"
proof -
  obtain r opts u where p: "parse_options_loop (ByteBuffer_of d) [] s = (r, opts, u)"
    by (cases "parse_options_loop (ByteBuffer_of d) [] s")
  with parse_options_frame [of "ByteBuffer_of d" "[]" s] obtain k where u: "u = s\<lparr>m_swnd_scale := k\<rparr>" by auto
  note i = conn_invD [OF assms(1)]
  have "tx_inv E \<sigma> u" using i(4) by (intro tx_inv_upd [OF i(1)]) (simp_all add: u mss_ok_def)
  then have cu: "conn_inv E \<sigma> \<rho> u" using assms(1) by (simp add: conn_inv_def u rx_part_def rx_inv_def)
  have qu: "quiet u = quiet s" by (simp add: u quiet_def)
  show ?thesis
  proof (cases "r \<or> TCP_OPT_WND_SCALE \<in> set opts \<or> m_rwnd_scale s = 0")
    case True
    then have "t = u" using p by (auto simp: assms(3) parseOptions_def u)
    with cu qu show ?thesis by (simp add: u read_pos_def)
  next
    case False
    then have t: "t = (resizeReceiveBuffer DEFAULT_RCV_BUF_SIZE u)\<lparr>m_swnd_scale := 0\<rparr>"
      using p by (simp add: assms(3) parseOptions_def u word_gt_0)
    have "quiet u" using False assms(2) qu by blast
    from resize_default_ok [OF cu this t] show ?thesis by (simp add: u) (simp add: read_pos_def)
  qed
qed

text \<open>A control message either comes before any data, or is a duplicate of one already seen when no
  receive window scaling is in use.\<close>

definition ctl_fits :: "Segment \<Rightarrow> pseudo_tcp \<Rightarrow> bool" where
  "ctl_fits seg s \<longleftrightarrow> (seg_flags seg AND FLAG_CTL \<noteq> 0 \<longrightarrow> quiet s \<or>
     m_rwnd_scale s = 0 \<and> unat (seg_seq seg) + unat (seg_len seg) \<le> unat (m_rcv_nxt s))"

text \<open>The connect message a listening endpoint answers with is the start of its stream.\<close>

definition answers :: "(u32 \<Rightarrow> byte) \<Rightarrow> Segment \<Rightarrow> pseudo_tcp \<Rightarrow> bool" where
  "answers \<sigma> seg s \<longleftrightarrow>
     (m_state s = TCP_LISTEN \<and> seg_flags seg AND FLAG_CTL \<noteq> 0 \<longrightarrow>
      (let t = parseOptions (take (unat (seg_len seg) - 1) (tl (seg_data seg))) s
       in extends \<sigma> (connect_bytes t) t))"

lemma queueConnectMessage_frame:
  "m_snd_una (queueConnectMessage s) = m_snd_una s" "m_snd_nxt (queueConnectMessage s) = m_snd_nxt s"
  "m_cwnd (queueConnectMessage s) = m_cwnd s" "m_rcv_nxt (queueConnectMessage s) = m_rcv_nxt s"
  "m_shutdown (queueConnectMessage s) = m_shutdown s" "m_rbuf (queueConnectMessage s) = m_rbuf s"
  "m_rlist (queueConnectMessage s) = m_rlist s" "m_rwnd_scale (queueConnectMessage s) = m_rwnd_scale s"
  "m_swnd_scale (queueConnectMessage s) = m_swnd_scale s" "m_conv (queueConnectMessage s) = m_conv s"
  by (simp_all add: queueConnectMessage_def queue_def Let_def case_prod_beta)

lemma open_frame:
  "t = notify OnTcpOpen (adjustMTU (s\<lparr>m_state := TCP_ESTABLISHED\<rparr>)) \<Longrightarrow>
   m_snd_una t = m_snd_una s \<and> m_snd_nxt t = m_snd_nxt s \<and> m_slist t = m_slist s \<and> m_rcv_nxt t = m_rcv_nxt s \<and>
   m_shutdown t = m_shutdown s \<and> m_rbuf t = m_rbuf s \<and> m_rlist t = m_rlist s \<and>
   m_rwnd_scale t = m_rwnd_scale s \<and> m_swnd_scale t = m_swnd_scale s \<and> (m_cwnd s \<noteq> 0 \<longrightarrow> m_cwnd t \<noteq> 0) \<and>
   m_state t = TCP_ESTABLISHED"
  by (auto simp: notify_def adjustMTU_def Let_def max_def word_gt_0 not_less)

lemma process_control_ok:
  assumes inv: "conn_inv E \<sigma> \<rho> s" "m_state s \<noteq> TCP_CLOSED"
    and seg: "unat (seg_len seg) \<le> length (seg_data seg)" "ctl_fits seg s" "answers \<sigma> seg s" "ack_fits seg s"
  shows "\<exists>go con s1. process_control seg s = Some (go, con, s1) \<and> conn_inv E \<sigma> \<rho> s1 \<and>
    m_state s1 \<noteq> TCP_CLOSED \<and> ctl_fits seg s1 \<and> ack_fits seg s1 \<and> (m_cwnd s \<noteq> 0 \<longrightarrow> m_cwnd s1 \<noteq> 0) \<and>
    read_pos s1 = read_pos s \<and> m_shutdown s1 = m_shutdown s \<and> m_rcv_nxt s1 = m_rcv_nxt s"
proof -
  have same: ?thesis if "process_control seg s = Some (go, con, s)" for go con
    using inv seg that by blast
  show ?thesis
  proof (cases "seg_flags seg AND FLAG_CTL \<noteq> 0 \<and> seg_len seg \<noteq> 0 \<and> seg_data seg ! 0 = CTL_CONNECT")
    case False
    then have "\<exists>go con. process_control seg s = Some (go, con, s)" using seg(1) by (auto simp: process_control_def)
    with same show ?thesis by blast
  next
    case True
    define t where "t = parseOptions (take (unat (seg_len seg) - 1) (tl (seg_data seg))) s"
    have q: "quiet s \<or> m_rwnd_scale s = 0" using seg(2) True by (auto simp: ctl_fits_def)
    note t = parseOptions_ok [OF inv(1) q t_def]
    define s1 where "s1 = (if m_state t = TCP_LISTEN then queueConnectMessage (t\<lparr>m_state := TCP_SYN_RECEIVED\<rparr>)
       else if m_state t = TCP_SYN_SENT then notify OnTcpOpen (adjustMTU (t\<lparr>m_state := TCP_ESTABLISHED\<rparr>)) else t)"
    have res: "process_control seg s = Some (True, True, s1)"
      using True seg(1) by (simp add: process_control_def s1_def t_def Let_def)
    have ct: "conn_inv E \<sigma> \<rho> t" and st: "m_state t = m_state s" using t by simp_all
    have ctl: "ctl_fits seg t" using seg(2) t by (auto simp: ctl_fits_def)
    have ack: "ack_fits seg t" using seg(4) t by (simp add: ack_fits_def)
    consider (listen) "m_state t = TCP_LISTEN" | (sent) "m_state t = TCP_SYN_SENT"
      | (other) "m_state t \<noteq> TCP_LISTEN" "m_state t \<noteq> TCP_SYN_SENT" by blast
    then have "conn_inv E \<sigma> \<rho> s1 \<and> m_state s1 \<noteq> TCP_CLOSED \<and> ctl_fits seg s1 \<and> ack_fits seg s1 \<and>
        (m_cwnd t \<noteq> 0 \<longrightarrow> m_cwnd s1 \<noteq> 0) \<and> read_pos s1 = read_pos t \<and> m_shutdown s1 = m_shutdown t \<and>
        m_rcv_nxt s1 = m_rcv_nxt t"
    proof cases
      case listen
      have ext: "extends \<sigma> (connect_bytes t) t"
        using seg(3) listen st True by (simp add: answers_def t_def Let_def)
      have "m_slist t = []" using conn_invD(7) [OF ct] listen by simp
      then have "m_snd_nxt t = m_snd_una t" using listen_empty(1) conn_invD(3) [OF ct] by blast
      then have "ack_fits seg s1" using listen by (auto simp: s1_def ack_fits_def queueConnectMessage_frame)
      moreover have "ctl_fits seg s1"
        using ctl listen by (simp add: s1_def ctl_fits_def quiet_def queueConnectMessage_frame)
      ultimately show ?thesis
        using queueConnectMessage_ok [OF ct listen ext, of TCP_SYN_RECEIVED] listen
        by (simp add: s1_def queueConnectMessage_frame read_pos_def)
    next
      case sent
      then have "m_state t \<noteq> TCP_CLOSED" by simp
      from open_ok [OF ct this] open_frame [OF refl, of t] sent ctl ack show ?thesis
        by (simp add: s1_def ctl_fits_def ack_fits_def quiet_def read_pos_def)
    next
      case other
      then show ?thesis using ct st inv(2) ctl ack by (simp add: s1_def)
    qed
    with res t show ?thesis by auto
  qed
qed

section \<open>Processing a segment\<close>

lemma conn_inv_upd:
  assumes "conn_inv E \<sigma> \<rho> s" "rx_side t = rx_side s" "m_sbuf t = m_sbuf s" "m_slist t = m_slist s"
    "m_snd_una t = m_snd_una s" "m_snd_nxt t = m_snd_nxt s" "w_events t = w_events s"
    "m_dup_acks t = m_dup_acks s" "m_recover t = m_recover s" "m_rto_base t = m_rto_base s"
    "m_mss t = m_mss s" "m_msslevel t = m_msslevel s" "m_state t = m_state s"
  shows "conn_inv E \<sigma> \<rho> t"
proof -
  note i = conn_invD [OF assms(1)]
  have "mss_ok t" using i(4) assms(2,11,12) by (simp add: mss_ok_def rx_side_def)
  then have "tx_inv E \<sigma> t" using assms by (intro tx_inv_upd [OF i(1)]) simp_all
  then show ?thesis using assms i(7) by (intro conn_inv_tx [OF assms(1)]) simp_all
qed

lemma trim_duplicate:
  assumes "unat (seg_seq seg) + unat (seg_len seg) \<le> unat (m_rcv_nxt s)"
  shows "seg_len (trim_segment seg s) = 0"
proof -
  define g where "g = trim_old seg s"
  define d where "d = seg_seq g + seg_len g - m_rcv_nxt s"
  define rem where "rem = (word_of_nat (GetWriteRemaining (m_rbuf s)) :: u32)"
  have eq: "trim_segment seg s = (if d > rem then
      (if d - rem < seg_len g then g\<lparr>seg_len := seg_len g - (d - rem)\<rparr> else g\<lparr>seg_len := 0\<rparr>) else g)"
    by (simp add: trim_segment_def trim_old_def g_def d_def rem_def Let_def)
  have "seg_len g = 0"
  proof (cases "seg_seq seg < m_rcv_nxt s")
    case True
    then have "unat (m_rcv_nxt s - seg_seq seg) = unat (m_rcv_nxt s) - unat (seg_seq seg)"
      by (simp add: unat_sub_le_nat less_imp_le)
    then have "\<not> m_rcv_nxt s - seg_seq seg < seg_len seg" using assms by (simp add: word_less_nat_alt)
    with True show ?thesis by (simp add: g_def trim_old_def Let_def)
  next
    case False
    then have "unat (seg_len seg) = 0" using assms by (simp add: word_less_nat_alt)
    with False show ?thesis by (simp add: g_def trim_old_def unat_eq_0)
  qed
  then show ?thesis by (simp add: eq)
qed

text \<open>A control message that is new takes up sequence numbers without delivering bytes.\<close>

definition shifts_stream :: "Segment \<Rightarrow> pseudo_tcp \<Rightarrow> bool" where
  "shifts_stream seg s \<longleftrightarrow> seg_flags seg AND FLAG_CTL \<noteq> 0 \<and>
     unat (m_rcv_nxt s) < unat (seg_seq seg) + unat (seg_len seg)"

lemma receive_conn:
  assumes inv: "conn_inv E \<sigma> \<rho> s" and seg: "seg_honest \<rho> seg" "ctl_fits seg s" and room: "rcv_room s"
  shows "\<exists>fl b s'. receive_data (trim_segment seg s) sflags s = Some (fl, b, s') \<and> conn_inv E \<sigma> \<rho> s' \<and>
    m_shutdown s' = m_shutdown s \<and>
    (m_shutdown s = SD_NONE \<and> \<not> shifts_stream seg s \<longrightarrow> read_pos s' = read_pos s)"
proof -
  define g where "g = trim_segment seg s"
  note tr = trim_segment_spec [OF seg(1) room, folded g_def]
  note i = conn_invD [OF inv]
  have keep: "conn_inv E \<sigma> \<rho> t" if "rx_part \<rho> t" "t = s\<lparr>m_rbuf := f, m_rcv_nxt := n, m_rcv_wnd := w, m_rlist := l\<rparr>" for t f n w l
  proof -
    have "tx_inv E \<sigma> t" using i(4) by (intro tx_inv_upd [OF i(1)]) (simp_all add: that(2) mss_ok_def)
    with that(1) i show ?thesis by (simp add: conn_inv_def that(2))
  qed
  show ?thesis
  proof (cases "seg_flags seg AND FLAG_CTL \<noteq> 0 \<or> m_shutdown s \<noteq> SD_NONE")
    case True
    define t where "t = s\<lparr>m_rcv_nxt := m_rcv_nxt s + seg_len g\<rparr>"
    have "rx_part \<rho> t" if "seg_len g \<noteq> 0"
    proof (cases "m_shutdown s = SD_NONE")
      case False
      with i(8) show ?thesis by (simp add: rx_part_def t_def)
    next
      case none: True
      have "quiet s"
        using True none seg(2) trim_duplicate [of seg s] that by (auto simp: ctl_fits_def g_def)
      with i(8) show ?thesis by (intro rx_part_quiet) (simp_all add: quiet_def t_def)
    qed
    moreover have "t = s\<lparr>m_rbuf := m_rbuf s, m_rcv_nxt := m_rcv_nxt s + seg_len g, m_rcv_wnd := m_rcv_wnd s,
      m_rlist := m_rlist s\<rparr>" by (simp add: t_def)
    ultimately have "conn_inv E \<sigma> \<rho> t" if "seg_len g \<noteq> 0" using keep that by blast
    moreover have "seg_len g = 0" if "m_shutdown s = SD_NONE" "\<not> shifts_stream seg s"
      using True that trim_duplicate [of seg s] by (auto simp: shifts_stream_def g_def)
    moreover have "receive_data g sflags s =
        Some (sflags, False, if seg_len g \<noteq> 0 \<and> seg_seq g = m_rcv_nxt s then t else s)"
      using True tr(2) by (auto simp: receive_data_def Let_def t_def word_gt_0)
    ultimately show ?thesis using inv by (auto simp: t_def simp flip: g_def)
  next
    case False
    then have rx: "rx_inv \<rho> s" "rlist_ok (m_rcv_nxt s) (m_rlist s)" using i(6) by (simp_all add: rx_part_def)
    have "received \<rho> s (receive_data g sflags s)"
      using False tr by (intro receive_data_ok rx room) simp_all
    then obtain fl b f nxt wnd l where
      "receive_data g sflags s = Some (fl, b, s\<lparr>m_rbuf := f, m_rcv_nxt := nxt, m_rcv_wnd := wnd, m_rlist := l\<rparr>)"
      "open_fifo f" "delivered \<rho> f nxt" "early_ok \<rho> f nxt l" "rlist_ok nxt l" and
      nxt: "unat (m_rcv_nxt s) \<le> unat nxt" "GetBuffered f = GetBuffered (m_rbuf s) + (unat nxt - unat (m_rcv_nxt s))"
      unfolding received_def by blast
    moreover have "(word_of_nat (unat nxt - unat (m_rcv_nxt s)) :: u32) = nxt - m_rcv_nxt s"
      using nxt(1) by (simp add: of_nat_diff)
    with nxt(2) have "nxt - word_of_nat (GetBuffered f) = read_pos s" by (simp add: read_pos_def)
    moreover from calculation have "rx_part \<rho> (s\<lparr>m_rbuf := f, m_rcv_nxt := nxt, m_rcv_wnd := wnd, m_rlist := l\<rparr>)"
      by (simp add: rx_part_def rx_inv_def)
    ultimately show ?thesis using keep by (auto simp: read_pos_def simp flip: g_def)
  qed
qed

lemma process_ack_listen:
  assumes "m_slist s = []" "m_snd_nxt s = m_snd_una s" "process_ack E now seg s = Some (b, s')"
  shows "m_slist s' = []"
  using assms by (auto simp: process_ack_def process_dup_ack_def Let_def split: if_splits bind_splits)

text \<open>What is assumed of an incoming segment: it carries a stretch of the peer's stream, its
  acknowledgement ends at a segment boundary, the announced window scale is a legal shift, and fewer
  than 4 GB have been transferred.\<close>

definition stamp :: "tcp_env \<Rightarrow> pseudo_tcp \<Rightarrow> pseudo_tcp" where
  "stamp E s = (let (now, s) = Now E s in s\<lparr>m_lasttraffic := now, m_lastrecv := now, m_bOutgoing := False\<rparr>)"

definition peer_ok :: "tcp_env \<Rightarrow> (u32 \<Rightarrow> byte) \<Rightarrow> (u32 \<Rightarrow> byte) \<Rightarrow> Segment \<Rightarrow> pseudo_tcp \<Rightarrow> bool" where
  "peer_ok E \<sigma> \<rho> seg s \<longleftrightarrow>
     (let t = stamp E s in
      seg_honest \<rho> seg \<and> ctl_fits seg t \<and> answers \<sigma> seg t \<and> ack_fits seg t \<and> m_cwnd t \<noteq> 0 \<and>
      (case process_control seg t of
         Some (_, _, s1) \<Rightarrow> unat (m_swnd_scale s1) < 32 \<and> rcv_room s1 | None \<Rightarrow> True))"

lemma process_tail:
  assumes "conn_inv E \<sigma> \<rho> s" "seg_honest \<rho> seg" "ctl_fits seg s" "rcv_room s" "m_state s \<noteq> TCP_CLOSED"
    "m_state s = TCP_LISTEN \<Longrightarrow> m_slist s = []"
  shows "\<exists>s'. (do {
      let s = process_open bConnect s;
      let s = process_writeable s;
      let sflags = ack_flags seg s;
      let seg = trim_segment seg s;
      (sflags, bNewData, s) \<leftarrow> receive_data seg sflags s;
      s \<leftarrow> attemptSend E sflags s;
      Some (True, process_readable bNewData s)
    }) = Some (True, s') \<and> conn_inv E \<sigma> \<rho> s' \<and> m_shutdown s' = m_shutdown s \<and>
    (m_shutdown s = SD_NONE \<and> \<not> shifts_stream seg s \<longrightarrow> read_pos s' = read_pos s)"
proof -
  define t where "t = process_open bConnect s"
  define u where "u = process_writeable t"
  have t: "conn_inv E \<sigma> \<rho> t" using open_ok [OF assms(1,5)] assms(1) by (simp add: t_def process_open_def)
  have u: "conn_inv E \<sigma> \<rho> u"
  proof (cases "u = t")
    case False
    then have e: "u = notify OnTcpWriteable (t\<lparr>m_bWriteEnable := False\<rparr>)"
      by (auto simp: u_def process_writeable_def Let_def split: if_splits)
    have "conn_inv E \<sigma> \<rho> (t\<lparr>m_bWriteEnable := False\<rparr>)" by (rule conn_inv_upd [OF t]) (simp_all add: rx_side_def)
    then show ?thesis unfolding e by (rule conn_notify) simp
  qed (use t in simp)
  have tr: "m_rbuf t = m_rbuf s" "m_rcv_nxt t = m_rcv_nxt s" "m_rlist t = m_rlist s" "m_rwnd_scale t = m_rwnd_scale s"
    "m_shutdown t = m_shutdown s"
    using open_frame [OF refl, of s] by (simp_all add: t_def process_open_def)
  have ur: "m_rbuf u = m_rbuf s" "m_rcv_nxt u = m_rcv_nxt s" "m_rlist u = m_rlist s" "m_rwnd_scale u = m_rwnd_scale s"
    "m_shutdown u = m_shutdown s"
    using tr by (simp_all add: u_def process_writeable_def Let_def notify_def)
  have "ctl_fits seg u" "rcv_room u" using assms(3,4) ur by (simp_all add: ctl_fits_def quiet_def rcv_room_def)
  from receive_conn [OF u assms(2) this] obtain fl b v where
    v: "receive_data (trim_segment seg u) (ack_flags seg u) u = Some (fl, b, v)" "conn_inv E \<sigma> \<rho> v"
      "m_shutdown v = m_shutdown u" "m_shutdown u = SD_NONE \<and> \<not> shifts_stream seg u \<longrightarrow> read_pos v = read_pos u" by blast
  obtain w where w: "attemptSend E fl v = Some w" "conn_inv E \<sigma> \<rho> w" "sends E v w" by (rule attemptSend_conn [OF v(2)])
  have pos: "read_pos u = read_pos s" "shifts_stream seg u = shifts_stream seg s"
    using ur by (simp_all add: read_pos_def shifts_stream_def)
  have wv: "read_pos w = read_pos v" "m_shutdown w = m_shutdown v"
    using read_pos_tx [OF sendsD(3) [OF w(3)]] tx_restD(13) [OF sendsD(3) [OF w(3)]] by simp_all
  have rd: "read_pos (process_readable b w) = read_pos w" "m_shutdown (process_readable b w) = m_shutdown w"
    by (simp_all add: process_readable_def read_pos_def notify_def)
  have "conn_inv E \<sigma> \<rho> (process_readable b w)"
  proof (cases "b \<and> m_bReadEnable w")
    case True
    have "conn_inv E \<sigma> \<rho> (notify OnTcpReadable (w\<lparr>m_bReadEnable := False\<rparr>))"
      using w(2) by (intro conn_notify) (simp_all add: conn_inv_user)
    with True show ?thesis by (simp add: process_readable_def)
  qed (use w in \<open>auto simp: process_readable_def\<close>)
  then show ?thesis using v w pos wv rd ur(5) by (simp add: Let_def t_def u_def)
qed

lemma process_unfold:
  assumes "seg_conv seg = m_conv s"
  shows "process E seg s =
    (if m_state (stamp E s) = TCP_CLOSED then Some (False, stamp E s)
     else if seg_flags seg AND FLAG_RST \<noteq> 0 then Some (False, closedown ECONNRESET (stamp E s))
     else do {
       (go_on, bConnect, s1) \<leftarrow> process_control seg (stamp E s);
       if \<not> go_on then Some (False, s1)
       else do {
         (go_on, s) \<leftarrow> process_ack E (env_clock E (w_ticks s)) seg (process_timestamp seg s1);
         if \<not> go_on then Some (False, s)
         else do {
           let s = process_open bConnect s;
           let s = process_writeable s;
           let sflags = ack_flags seg s;
           let seg = trim_segment seg s;
           (sflags, bNewData, s) \<leftarrow> receive_data seg sflags s;
           s \<leftarrow> attemptSend E sflags s;
           Some (True, process_readable bNewData s)
         }
       }
     })"
  using assms by (simp add: process_def stamp_def Now_def Let_def cong: if_cong)

lemma process_ok:
  assumes inv: "conn_inv E \<sigma> \<rho> s" and peer: "peer_ok E \<sigma> \<rho> seg s"
  shows "\<exists>b s'. process E seg s = Some (b, s') \<and> conn_inv E \<sigma> \<rho> s' \<and> m_shutdown s' = m_shutdown s \<and>
    (m_shutdown s = SD_NONE \<and> \<not> shifts_stream seg s \<longrightarrow> read_pos s' = read_pos s)"
proof (cases "seg_conv seg = m_conv s")
  case conv: True
  define t where "t = stamp E s"
  define now where "now = env_clock E (w_ticks s)"
  have ct: "conn_inv E \<sigma> \<rho> t"
    by (rule conn_inv_upd [OF inv]) (simp_all add: t_def stamp_def Now_def rx_side_def)
  note unf = process_unfold [OF conv, of E, folded t_def now_def]
  have rt: "read_pos t = read_pos s" "m_shutdown t = m_shutdown s" "m_rcv_nxt t = m_rcv_nxt s"
    by (simp_all add: t_def stamp_def Now_def read_pos_def)
  from peer have p: "seg_honest \<rho> seg" "ctl_fits seg t" "answers \<sigma> seg t" "ack_fits seg t" "m_cwnd t \<noteq> 0"
    "\<And>go con s1. process_control seg t = Some (go, con, s1) \<Longrightarrow> unat (m_swnd_scale s1) < 32 \<and> rcv_room s1"
    by (auto simp: peer_ok_def Let_def t_def)
  have len: "unat (seg_len seg) \<le> length (seg_data seg)" using p(1) by (simp add: seg_honest_def)
  consider (closed) "m_state t = TCP_CLOSED" | (rst) "m_state t \<noteq> TCP_CLOSED" "seg_flags seg AND FLAG_RST \<noteq> 0"
    | (go) "m_state t \<noteq> TCP_CLOSED" "seg_flags seg AND FLAG_RST = 0" by blast
  then show ?thesis
  proof cases
    case closed
    then have "process E seg s = Some (False, t)" by (simp add: unf)
    with ct rt show ?thesis by auto
  next
    case rst
    then have "process E seg s = Some (False, closedown ECONNRESET t)"
      by (simp add: unf)
    moreover have "conn_inv E \<sigma> \<rho> (closedown ECONNRESET t)"
      using closedown_inv conn_invD(2) [OF ct] by (intro conn_inv_tx [OF ct]) simp_all
    moreover have "read_pos (closedown ECONNRESET t) = read_pos t" "m_shutdown (closedown ECONNRESET t) = m_shutdown t"
      by (simp_all add: closedown_def notify_def read_pos_def)
    ultimately show ?thesis using rt by auto
  next
    case go
    from process_control_ok [OF ct go(1) len p(2-4)] p(5) obtain cont con s1 where
      s1: "process_control seg t = Some (cont, con, s1)" "conn_inv E \<sigma> \<rho> s1" "m_state s1 \<noteq> TCP_CLOSED"
        "ctl_fits seg s1" "ack_fits seg s1" "m_cwnd s1 \<noteq> 0"
        "read_pos s1 = read_pos t" "m_shutdown s1 = m_shutdown t" "m_rcv_nxt s1 = m_rcv_nxt t" by blast
    define s2 where "s2 = process_timestamp seg s1"
    have s2: "conn_inv E \<sigma> \<rho> s2" "m_state s2 \<noteq> TCP_CLOSED" "ack_fits seg s2" "m_cwnd s2 \<noteq> 0"
      "unat (m_swnd_scale s2) < 32" "rx_side s2 = rx_side s1"
      using conn_inv_upd [OF s1(2), of s2] s1(3,5,6) p(6) [OF s1(1)]
      by (simp_all add: s2_def process_timestamp_def rx_side_def ack_fits_def)
    from process_ack_ok [OF conn_invD(1) [OF s2(1)] s2(5,4,2,3), of now] obtain cont2 s3 where
      s3: "process_ack E now seg s2 = Some (cont2, s3)" "tx_inv E \<sigma> s3" "rx_side s3 = rx_side s2"
        "m_state s3 = (if cont2 then m_state s2 else TCP_CLOSED)" unfolding tx_phase_def by blast
    have l3: "m_slist s3 = []" if "m_state s3 = TCP_LISTEN"
    proof -
      have "m_slist s2 = []" using that s3(4) conn_invD(7) [OF s2(1)] by (simp split: if_splits)
      with listen_empty(1) [OF conn_invD(3) [OF s2(1)]] process_ack_listen [OF _ _ s3(1)] show ?thesis by simp
    qed
    have r3: "read_pos s3 = read_pos s" "m_shutdown s3 = m_shutdown s" "shifts_stream seg s3 = shifts_stream seg s"
      using s1(7-9) s2(6) s3(3) rt read_pos_rx [OF s3(3)] read_pos_rx [OF s2(6)]
      by (simp_all add: rx_side_def shifts_stream_def)
    have c3: "conn_inv E \<sigma> \<rho> s3" by (rule conn_inv_tx [OF s2(1) s3(2,3) l3])
    have "ctl_fits seg s3" "rcv_room s3"
      using s1(4) p(6) [OF s1(1)] s2(6) s3(3) by (simp_all add: ctl_fits_def quiet_def rcv_room_def rx_side_def)
    then have tail: "cont2 \<Longrightarrow> \<exists>s'. (do {
        let s = process_open con s3; let s = process_writeable s; let sflags = ack_flags seg s;
        let seg = trim_segment seg s; (sflags, bNewData, s) \<leftarrow> receive_data seg sflags s;
        s \<leftarrow> attemptSend E sflags s; Some (True, process_readable bNewData s) }) = Some (True, s') \<and> conn_inv E \<sigma> \<rho> s' \<and>
        m_shutdown s' = m_shutdown s3 \<and>
        (m_shutdown s3 = SD_NONE \<and> \<not> shifts_stream seg s3 \<longrightarrow> read_pos s' = read_pos s3)"
      using s3(4) s2(2) l3 by (intro process_tail [OF c3 p(1)]) simp_all
    show ?thesis
    proof (cases "cont \<and> cont2")
      case True
      with tail obtain s' where "process E seg s = Some (True, s')" "conn_inv E \<sigma> \<rho> s'" "m_shutdown s' = m_shutdown s3"
        "m_shutdown s3 = SD_NONE \<and> \<not> shifts_stream seg s3 \<longrightarrow> read_pos s' = read_pos s3"
        using go s1(1) s3(1) by (auto simp: unf s2_def)
      with r3 show ?thesis by auto
    next
      case False
      then have "process E seg s = Some (False, if cont then s3 else s1)"
        using go s1(1) s3(1) by (auto simp: unf s2_def)
      with c3 s1(2,7,8) r3 rt show ?thesis by auto
    qed
  qed
qed (use inv in \<open>auto simp: process_def\<close>)

section \<open>Reading and writing\<close>

lemma rx_inv_read:
  assumes "rx_inv \<rho> s" "FifoBuffer_Read n (m_rbuf s) = (r, p, f)" "t = s\<lparr>m_rbuf := f\<rparr>"
  shows "rx_inv \<rho> t" "p = stretch \<rho> (read_pos s) (length p)" "read_pos t = read_pos s + word_of_nat (length p)"
proof -
  let ?g = "m_rbuf s"
  from assms(1) have ok: "fifo_ok ?g" "fb_state ?g = SS_OPEN" "delivered \<rho> ?g (m_rcv_nxt s)"
    "early_ok \<rho> ?g (m_rcv_nxt s) (m_rlist s)" by (simp_all add: rx_inv_def open_fifo_def)
  from FifoBuffer_Read_refines [OF ok(1) assms(2)]
  have f: "fifo_ok f" "spec_read n (fifo_abs ?g) = (r, p, fifo_abs f)" "fb_state f = fb_state ?g"
    "fb_buffer_length f = fb_buffer_length ?g" "length p \<le> fb_data_length ?g"
    "fb_data_length f = fb_data_length ?g - length p" "\<And>i. ring_at f i = ring_at ?g (length p + i)" by simp_all
  have p: "p = take (length p) (fifo_contents ?g)"
    using f(2) by (auto simp: spec_read_def fifo_abs_def min_def split: if_splits)
  have c: "fifo_contents f = drop (length p) (fifo_contents ?g)"
    using f(5-7) by (intro fifo_contents_drop)
  have del: "fifo_contents ?g = stretch \<rho> (read_pos s) (GetBuffered ?g)"
    using ok(3) by (simp add: delivered_def read_pos_def)
  have le: "length p \<le> GetBuffered ?g" using f(5) by (simp add: GetBuffered_def)
  show "p = stretch \<rho> (read_pos s) (length p)" using p del le by (metis stretch_take)
  have "word_of_nat (fb_data_length ?g - length p) = (word_of_nat (fb_data_length ?g) - word_of_nat (length p) :: u32)"
    using f(5) by (simp add: of_nat_diff)
  then show pos: "read_pos t = read_pos s + word_of_nat (length p)"
    using f(6) by (simp add: read_pos_def assms(3) GetBuffered_def)
  have "fifo_contents f = stretch \<rho> (read_pos t) (GetBuffered f)"
    using c del le pos f(6) by (simp add: stretch_drop GetBuffered_def)
  then have "delivered \<rho> f (m_rcv_nxt s)" by (simp add: delivered_def read_pos_def assms(3))
  moreover have "early_ok \<rho> f (m_rcv_nxt s) (m_rlist s)"
    unfolding early_ok_def
  proof (intro ballI conjI allI impI)
    fix r assume r: "r \<in> set (m_rlist s)"
    with ok(4) f(4-6) show "unat (r_seq r) + unat (r_len r) \<le> unat (m_rcv_nxt s) + GetWriteRemaining f"
      by (force simp: early_ok_def GetWriteRemaining_def)
    fix k assume k: "unat (m_rcv_nxt s) \<le> k" "unat (r_seq r) \<le> k" "k < unat (r_seq r) + unat (r_len r)"
    have "length p + (GetBuffered f + (k - unat (m_rcv_nxt s))) = GetBuffered ?g + (k - unat (m_rcv_nxt s))"
      using f(5,6) by (simp add: GetBuffered_def)
    then show "ring_at f (GetBuffered f + (k - unat (m_rcv_nxt s))) = \<rho> (word_of_nat k)"
      using ok(4) r k f(7) by (simp add: early_ok_def)
  qed
  ultimately show "rx_inv \<rho> t" using f ok(2) by (simp add: rx_inv_def assms(3) open_fifo_def)
qed

lemma read_conn:
  assumes "conn_inv E \<sigma> \<rho> s" "FifoBuffer_Read n (m_rbuf s) = (r, p, f)"
  shows "conn_inv E \<sigma> \<rho> (s\<lparr>m_rbuf := f\<rparr>)"
proof -
  note i = conn_invD [OF assms(1)]
  have "fifo_ok (m_rbuf s)" using i(8) by (simp add: open_fifo_def)
  from FifoBuffer_Read_refines [OF this assms(2)] i(8) have "open_fifo f" by (simp add: open_fifo_def)
  then have "rx_part \<rho> (s\<lparr>m_rbuf := f\<rparr>)"
    using i(6) rx_inv_read(1) [OF _ assms(2) refl, of \<rho>] by (simp add: rx_part_def)
  moreover have "tx_inv E \<sigma> (s\<lparr>m_rbuf := f\<rparr>)"
    using i(4) by (intro tx_inv_upd [OF i(1)]) (simp_all add: mss_ok_def)
  ultimately show ?thesis using assms(1) by (simp add: conn_inv_def)
qed

lemma Recv_ok:
  assumes "conn_inv E \<sigma> \<rho> s"
  obtains v p s' where "Recv E n s = Some (v, p, s')" "conn_inv E \<sigma> \<rho> s'"
    "m_shutdown s = SD_NONE \<Longrightarrow> p = stretch \<rho> (read_pos s) (length p)"
    "read_pos s' = read_pos s + word_of_nat (length p)" "m_shutdown s' = m_shutdown s"
proof (cases "m_state s = TCP_ESTABLISHED")
  case False
  with assms that [of "-1" "[]" "s\<lparr>m_error := ENOTCONN\<rparr>"] show ?thesis
    by (simp add: Recv_def conn_inv_user read_pos_def stretch_def)
next
  case est: True
  obtain r p f where rd: "FifoBuffer_Read n (m_rbuf s) = (r, p, f)" by (cases "FifoBuffer_Read n (m_rbuf s)") auto
  note i = conn_invD [OF assms]
  define t where "t = s\<lparr>m_rbuf := f\<rparr>"
  have ct: "conn_inv E \<sigma> \<rho> t" using read_conn [OF assms rd] by (simp add: t_def)
  have fok: "fifo_ok (m_rbuf s)" using i(8) by (simp add: open_fifo_def)
  note ref = FifoBuffer_Read_refines [OF fok rd]
  have pos: "read_pos t = read_pos s + word_of_nat (length p)"
    using ref by (simp add: read_pos_def t_def GetBuffered_def of_nat_diff)
  have str: "p = stretch \<rho> (read_pos s) (length p)" if "m_shutdown s = SD_NONE"
    using rx_inv_read(2) [OF _ rd refl, of \<rho>] i(6) that by (simp add: rx_part_def)
  show ?thesis
  proof (cases "r = SR_BLOCK")
    case True
    then have "p = []" using ref by (auto simp: spec_read_def split: if_splits)
    with True est rd ct pos that [of "-1" "[]" "t\<lparr>m_bReadEnable := True, m_error := EWOULDBLOCK\<rparr>"] show ?thesis
      by (simp add: Recv_def conn_inv_user t_def read_pos_def stretch_def)
  next
    case False
    define a where "a = (word_of_nat (GetWriteRemaining f) :: u32)"
    have ca: "conn_inv E \<sigma> \<rho> (t\<lparr>m_rcv_wnd := a\<rparr>)" using ct by (simp add: conn_inv_user)
    obtain w where w: "attemptSend E sfImmediateAck (t\<lparr>m_rcv_wnd := a\<rparr>) = Some w" "conn_inv E \<sigma> \<rho> w"
      "sends E (t\<lparr>m_rcv_wnd := a\<rparr>) w" by (rule attemptSend_conn [OF ca])
    have wr: "read_pos w = read_pos t" "m_shutdown w = m_shutdown s"
      using read_pos_tx [OF sendsD(3) [OF w(3)]] tx_restD(13) [OF sendsD(3) [OF w(3)]]
      by (simp_all add: read_pos_def t_def)
    define u where "u = (if a - m_rcv_wnd s \<ge> min (m_rbuf_len s div 2) (m_mss s)
        then (if m_rcv_wnd s = 0 then w else t\<lparr>m_rcv_wnd := a\<rparr>) else t)"
    have "Recv E n s = Some (sint (word_of_nat (length p) :: u32), p, u)"
      using est rd False w(1) by (simp add: Recv_def u_def t_def a_def Let_def)
    moreover have "conn_inv E \<sigma> \<rho> u" using ct ca w(2) by (simp add: u_def)
    moreover have "read_pos u = read_pos s + word_of_nat (length p)" "m_shutdown u = m_shutdown s"
      using pos wr by (simp_all add: u_def) (simp_all add: t_def read_pos_def)
    ultimately show ?thesis using that str by blast
  qed
qed

lemma Send_ok:
  assumes "conn_inv E \<sigma> \<rho> s" "extends \<sigma> data s"
  obtains v s' where "Send E data s = Some (v, s')" "conn_inv E \<sigma> \<rho> s'"
    "v = (if m_state s \<noteq> TCP_ESTABLISHED \<or> GetWriteRemaining (m_sbuf s) = 0 then -1
          else sint (word_of_nat (queue_len data s) :: u32))"
proof (cases "m_state s \<noteq> TCP_ESTABLISHED \<or> GetWriteRemaining (m_sbuf s) = 0")
  case True
  then show ?thesis
    using assms(1) that [of "-1" "if m_state s \<noteq> TCP_ESTABLISHED then s\<lparr>m_error := ENOTCONN\<rparr>
      else s\<lparr>m_bWriteEnable := True, m_error := EWOULDBLOCK\<rparr>"]
    by (auto simp: Send_def conn_inv_user)
next
  case False
  then have st: "m_state s \<noteq> TCP_LISTEN" by auto
  obtain x t where q: "queue data False s = (x, t)" by (cases "queue data False s")
  with queue_conn [OF assms st, of False] have t: "conn_inv E \<sigma> \<rho> t" "x = word_of_nat (queue_len data s)" by simp_all
  obtain w where "attemptSend E sfNone t = Some w" "conn_inv E \<sigma> \<rho> w" by (rule attemptSend_conn [OF t(1)])
  with False q t(2) show ?thesis by (intro that [of "sint x" w]) (simp_all add: Send_def)
qed

lemma Connect_ok:
  assumes "conn_inv E \<sigma> \<rho> s" "m_state s = TCP_LISTEN \<Longrightarrow> extends \<sigma> (connect_bytes s) s"
  obtains v s' where "Connect E s = Some (v, s')" "conn_inv E \<sigma> \<rho> s'"
proof (cases "m_state s = TCP_LISTEN")
  case False
  with assms that show ?thesis by (simp add: Connect_def conn_inv_user)
next
  case True
  have "conn_inv E \<sigma> \<rho> (queueConnectMessage (s\<lparr>m_state := TCP_SYN_SENT\<rparr>))"
    using assms True by (intro queueConnectMessage_ok) simp_all
  then obtain w where "attemptSend E sfNone (queueConnectMessage (s\<lparr>m_state := TCP_SYN_SENT\<rparr>)) = Some w"
    "conn_inv E \<sigma> \<rho> w" by (rule attemptSend_conn)
  with True that show ?thesis by (simp add: Connect_def)
qed

section \<open>Options and the initial state\<close>

lemma unat_drop_bit_div: "unat (drop_bit i n) = unat n div 2 ^ i" for n :: u32
proof -
  have "unat (drop_bit i n) = drop_bit i (unat n)"
    using unat_lt [of n] by (subst unsigned_drop_bit_eq) (simp add: take_bit_nat_eq_self)
  then show ?thesis by (simp add: drop_bit_eq_div)
qed

lemma scale_for_spec:
  assumes "unat n < 2 ^ 16 * 2 ^ j" "unat k + j \<le> 32"
  shows "\<exists>i. scale_for n k = (drop_bit i n, k + word_of_nat i) \<and> i \<le> j \<and> unat (drop_bit i n) \<le> 65535 \<and>
    (i > 0 \<longrightarrow> 65535 < unat (drop_bit (i - 1) n))"
  using assms
proof (induction j arbitrary: n k)
  case 0
  then have "\<not> n > 0xFFFF" by (simp add: word_less_nat_alt)
  then show ?case using 0 by (subst scale_for.simps) (auto intro: exI [of _ 0])
next
  case (Suc j)
  show ?case
  proof (cases "n > 0xFFFF")
    case False
    then have "scale_for n k = (drop_bit 0 n, k + word_of_nat 0) \<and> unat (drop_bit 0 n) \<le> 65535"
      by (subst scale_for.simps) (simp add: word_less_nat_alt)
    then show ?thesis by (intro exI [of _ 0]) simp
  next
    case True
    have "unat (drop_bit 1 n) < 2 ^ 16 * 2 ^ j"
      using Suc.prems(1) by (simp add: drop_bit_eq_div unat_div_distrib)
    moreover have "unat (k + 1) = unat k + 1"
      using Suc.prems(2) by (simp add: unat_word_ariths)
    ultimately obtain i where i: "scale_for (drop_bit 1 n) (k + 1) = (drop_bit i (drop_bit 1 n), k + 1 + word_of_nat i)"
      "i \<le> j" "unat (drop_bit i (drop_bit 1 n)) \<le> 65535"
      "i > 0 \<longrightarrow> 65535 < unat (drop_bit (i - 1) (drop_bit 1 n))"
      using Suc.IH [of "drop_bit 1 n" "k + 1"] Suc.prems(2) by auto
    have d: "drop_bit i (drop_bit 1 n) = drop_bit (Suc i) n" "i > 0 \<Longrightarrow> drop_bit (i - 1) (drop_bit 1 n) = drop_bit i n"
      by (simp_all add: drop_bit_drop_bit)
    have "65535 < unat (drop_bit i n)"
    proof (cases "i = 0")
      case True
      with \<open>n > 0xFFFF\<close> show ?thesis by (simp add: word_less_nat_alt)
    qed (use i(4) d(2) in simp)
    then show ?thesis using i True d(1)
      by (intro exI [of _ "Suc i"]) (subst scale_for.simps, simp add: ac_simps)
  qed
qed

lemma receive_scale:
  fixes n :: u32
  obtains i where "scale_for n 0 = (drop_bit i n, word_of_nat i)" "i \<le> 16" "unat (drop_bit i n) \<le> 65535"
    "n \<noteq> 0 \<Longrightarrow> drop_bit i n \<noteq> 0"
proof -
  have "unat n < 2 ^ 16 * 2 ^ 16" using unat_lt32 [of n] by simp
  from scale_for_spec [OF this, of 0] obtain i where i: "scale_for n 0 = (drop_bit i n, word_of_nat i)" "i \<le> 16"
    "unat (drop_bit i n) \<le> 65535" "i > 0 \<longrightarrow> 65535 < unat (drop_bit (i - 1) n)" by auto
  have "drop_bit i n \<noteq> 0" if "n \<noteq> 0"
  proof (cases i)
    case (Suc j)
    have "unat (drop_bit (Suc j) n) = unat (drop_bit j n) div 2"
      by (simp add: unat_drop_bit_div div_mult2_eq [symmetric] mult.commute)
    with i(4) Suc show ?thesis by auto
  qed (use that in simp)
  with i that show ?thesis by blast
qed

lemma PseudoTcp_new_inv: "conn_inv E \<sigma> \<rho> (PseudoTcp_new E conv)"
  by (simp add: PseudoTcp_new_def Let_def conn_inv_def tx_inv_def tx_core_def sender_ok_def mss_ok_def recover_ok_def
      rx_part_def rx_inv_def rlist_ok_def early_ok_def delivered_def stretch_def in_flight_def size_consts open_fifo_def
      FifoBuffer_new_def fifo_ok_def fifo_contents_def GetBuffered_def)

lemma unat_round_down: "unat (push_bit i (drop_bit i n)) = unat n div 2 ^ i * 2 ^ i" for n :: u32
proof -
  have "unat n div 2 ^ i * 2 ^ i < 4294967296" using unat_lt32 [of n] by (meson div_times_less_eq_dividend le_less_trans)
  moreover have "unat (push_bit i (drop_bit i n)) = take_bit 32 (unat n div 2 ^ i * 2 ^ i)"
    by (subst unsigned_push_bit_eq) (simp add: unat_drop_bit_div push_bit_eq_mult)
  ultimately show ?thesis by (simp add: take_bit_nat_eq_self)
qed

lemma resizeReceiveBuffer_ok:
  assumes "conn_inv E \<sigma> \<rho> s" "quiet s" "n \<noteq> 0" "t = resizeReceiveBuffer n s"
  shows "conn_inv E \<sigma> \<rho> t" "read_pos t = read_pos s" "m_shutdown t = m_shutdown s"
    "fb_buffer_length (m_rbuf t) = unat (m_rbuf_len t)" "unat (m_rwnd_scale t) \<le> 16"
    "unat (m_rbuf_len t) = unat n div 2 ^ unat (m_rwnd_scale t) * 2 ^ unat (m_rwnd_scale t)"
    "unat (m_rbuf_len t) div 2 ^ unat (m_rwnd_scale t) \<le> 65535" "unat (m_rcv_wnd t) = unat (m_rbuf_len t)"
    "quiet t"
proof -
  note i = conn_invD [OF assms(1)]
  obtain k where k: "scale_for n 0 = (drop_bit k n, word_of_nat k)" "k \<le> 16" "unat (drop_bit k n) \<le> 65535"
    "drop_bit k n \<noteq> 0" using receive_scale [of n] assms(3) by metis
  have uk: "unat (word_of_nat k :: u8) = k" using k(2) by (intro unat_of_nat_lt) simp
  define m where "m = push_bit k (drop_bit k n)"
  have m: "unat m = unat n div 2 ^ k * 2 ^ k" by (simp add: m_def unat_round_down)
  have dm: "unat (drop_bit k n) = unat n div 2 ^ k" by (rule unat_drop_bit_div)
  then have m0: "0 < unat m" using k(4) m by (simp add: unat_gt_0 [symmetric])
  obtain res f where f: "SetCapacity (unat m) (m_rbuf s) = (res, f)" by (cases "SetCapacity (unat m) (m_rbuf s)")
  have fok: "fifo_ok (m_rbuf s)" using i(8) by (simp add: open_fifo_def)
  note ref = SetCapacity_refines [OF fok m0 f]
  have z: "fb_data_length (m_rbuf s) = 0" using assms(2) by (simp add: quiet_def GetBuffered_def)
  have f': "open_fifo f" "fb_data_length f = 0" "fb_buffer_length f = unat m"
    using ref i(8) z by (auto simp: open_fifo_def spec_resize_def fifo_abs_def split: if_splits)
  have t: "t = s\<lparr>m_rbuf := f, m_rbuf_len := m, m_rwnd_scale := word_of_nat k, m_ssthresh := m,
      m_rcv_wnd := word_of_nat (GetWriteRemaining f)\<rparr>"
    using f by (simp add: assms(4) resizeReceiveBuffer_def k(1) uk m_def Let_def)
  show q: "quiet t" using assms(2) f'(2) by (simp add: quiet_def t GetBuffered_def)
  have "tx_inv E \<sigma> t" using i(4) k(2) uk by (intro tx_inv_upd [OF i(1)]) (simp_all add: t mss_ok_def)
  then show "conn_inv E \<sigma> \<rho> t" using rx_part_quiet [OF _ q, of \<rho>] f'(1) i by (simp add: conn_inv_def t)
  show "read_pos t = read_pos s" using f'(2) z by (simp add: read_pos_def t GetBuffered_def)
  show "m_shutdown t = m_shutdown s" "fb_buffer_length (m_rbuf t) = unat (m_rbuf_len t)"
    "unat (m_rwnd_scale t) \<le> 16"
    "unat (m_rbuf_len t) = unat n div 2 ^ unat (m_rwnd_scale t) * 2 ^ unat (m_rwnd_scale t)"
    "unat (m_rbuf_len t) div 2 ^ unat (m_rwnd_scale t) \<le> 65535"
    using f' k(2,3) uk m dm by (simp_all add: t)
  show "unat (m_rcv_wnd t) = unat (m_rbuf_len t)" using f'(2,3) by (simp add: t GetWriteRemaining_def)
qed

lemma resizeSendBuffer_ok:
  assumes "conn_inv E \<sigma> \<rho> s" "m_slist s = []" "n \<noteq> 0"
  shows "conn_inv E \<sigma> \<rho> (resizeSendBuffer n s)"
proof -
  note i = conn_invD [OF assms(1)] and e = listen_empty [OF conn_invD(3) [OF assms(1)] assms(2)]
  obtain res f where f: "SetCapacity (unat n) (m_sbuf s) = (res, f)" by (cases "SetCapacity (unat n) (m_sbuf s)")
  have fok: "fifo_ok (m_sbuf s)" "fb_state (m_sbuf s) = SS_OPEN" using i(3) by (simp_all add: sender_ok_def open_fifo_def)
  have "0 < unat n" using assms(3) by (simp add: unat_gt_0)
  note ref = SetCapacity_refines [OF fok(1) this f]
  have f': "open_fifo f" "fb_data_length f = 0" "fb_buffer_length f = unat n"
    using ref fok(2) e(2) by (auto simp: open_fifo_def spec_resize_def fifo_abs_def GetBuffered_def split: if_splits)
  let ?t = "s\<lparr>m_sbuf_len := n, m_sbuf := f\<rparr>"
  have "sender_ok ?t"
    using i(3) f' assms(2) unat_lt32 [of n] by (simp add: sender_ok_def GetBuffered_def)
  then have "tx_inv E \<sigma> ?t"
    using i(2,5) f'(2) by (simp add: tx_inv_def tx_core_def recover_ok_def in_flight_def mss_ok_def
        GetBuffered_def stretch_def fifo_contents_def)
  then have "conn_inv E \<sigma> \<rho> ?t" using i(7) by (intro conn_inv_tx [OF assms(1)]) (simp_all add: rx_side_def)
  with f show ?thesis by (simp add: resizeSendBuffer_def Let_def)
qed

text \<open>The buffers are resized only before the connection is used, to a size that is not zero.\<close>

definition option_fits :: "TcpOption \<Rightarrow> int \<Rightarrow> pseudo_tcp \<Rightarrow> bool" where
  "option_fits opt v s \<longleftrightarrow>
     (opt = OPT_SNDBUF \<or> opt = OPT_RCVBUF \<longrightarrow> m_state s = TCP_LISTEN \<and> quiet s \<and> (word_of_int v :: u32) \<noteq> 0)"

lemma SetOption_ok:
  assumes "conn_inv E \<sigma> \<rho> s" "option_fits opt v s"
  shows "conn_inv E \<sigma> \<rho> (SetOption opt v s)" "read_pos (SetOption opt v s) = read_pos s"
    "m_shutdown (SetOption opt v s) = m_shutdown s"
proof -
  have "conn_inv E \<sigma> \<rho> (SetOption opt v s) \<and> read_pos (SetOption opt v s) = read_pos s \<and>
    m_shutdown (SetOption opt v s) = m_shutdown s"
  proof (cases opt)
    case OPT_RCVBUF
    then show ?thesis
      using assms resizeReceiveBuffer_ok(1-3) [OF assms(1) _ _ refl] by (simp add: SetOption_def option_fits_def)
  next
    case OPT_SNDBUF
    then show ?thesis
      using assms resizeSendBuffer_ok [OF assms(1)] conn_invD(7) [OF assms(1)]
      by (simp add: SetOption_def option_fits_def) (simp add: resizeSendBuffer_def read_pos_def Let_def)
  qed (use assms in \<open>simp_all add: SetOption_def conn_inv_user read_pos_def\<close>)
  then show "conn_inv E \<sigma> \<rho> (SetOption opt v s)" "read_pos (SetOption opt v s) = read_pos s"
    "m_shutdown (SetOption opt v s) = m_shutdown s" by simp_all
qed

section \<open>Runs of an endpoint\<close>

text \<open>\<^verbatim>\<open>NotifyPacket\<close> on a datagram that is too long or too short for a header is ignored; a
  datagram of 12 to 23 bytes would be read past its end.\<close>

definition packet_fits :: "tcp_env \<Rightarrow> (u32 \<Rightarrow> byte) \<Rightarrow> (u32 \<Rightarrow> byte) \<Rightarrow> byte list \<Rightarrow> pseudo_tcp \<Rightarrow> bool" where
  "packet_fits E \<sigma> \<rho> b s \<longleftrightarrow> length b > 65535 \<or> length b < 12 \<or>
     24 \<le> length b \<and> peer_ok E \<sigma> \<rho> (parse_segment E b) s"

lemma NotifyPacket_ok:
  assumes "conn_inv E \<sigma> \<rho> s" "packet_fits E \<sigma> \<rho> b s"
  obtains v s' where "NotifyPacket E b s = Some (v, s')" "conn_inv E \<sigma> \<rho> s'" "m_shutdown s' = m_shutdown s"
    "m_shutdown s = SD_NONE \<and> \<not> shifts_stream (parse_segment E b) s \<longrightarrow> read_pos s' = read_pos s"
proof (cases "length b > 65535 \<or> length b < 12")
  case True
  then have "NotifyPacket E b s = Some (False, s)" by (auto simp: NotifyPacket_def parse_def MAX_PACKET_def)
  with assms(1) that show ?thesis by blast
next
  case False
  then have "24 \<le> length b" "peer_ok E \<sigma> \<rho> (parse_segment E b) s" using assms(2) by (auto simp: packet_fits_def)
  moreover from this have "NotifyPacket E b s = process E (parse_segment E b) s"
    using False by (simp add: NotifyPacket_def parse_def MAX_PACKET_def HEADER_SIZE_def)
  ultimately show ?thesis using process_ok [OF assms(1)] that by metis
qed

lemma NotifyClock_empty:
  assumes "m_slist s = []" "NotifyClock E now s = Some t"
  shows "m_slist t = []"
proof -
  have pk: "m_slist t' = []" if "packet E q 0 0 0 u = Some (w, t')" "m_slist u = []" for q w u t'
    using pk_restD(2) [OF packet_frame [OF that(1)]] that(2) by simp
  have r: "clock_retransmit E now s = Some (True, s)" using assms(1) by (simp add: clock_retransmit_def)
  have p: "m_slist u = []" if "clock_probe E now s = Some (b, u)" for b u
    using that assms(1) pk by (auto simp: clock_probe_def closedown_def notify_def split: if_splits bind_splits)
  have a: "m_slist w = []" if "clock_ack E now u = Some w" "m_slist u = []" for u w
    using that pk by (auto simp: clock_ack_def split: if_splits)
  show ?thesis
    using assms r p a by (auto simp: NotifyClock_def split: if_splits bind_splits)
qed

text \<open>The states an endpoint can reach, with all the bytes its application has read so far.\<close>

inductive tcp_run ::
  "tcp_env \<Rightarrow> (u32 \<Rightarrow> byte) \<Rightarrow> (u32 \<Rightarrow> byte) \<Rightarrow> pseudo_tcp \<Rightarrow> byte list \<Rightarrow> bool" for E \<sigma> \<rho> where
  new: "tcp_run E \<sigma> \<rho> (PseudoTcp_new E conv) []"
| connect: "tcp_run E \<sigma> \<rho> s h \<Longrightarrow> (m_state s = TCP_LISTEN \<Longrightarrow> extends \<sigma> (connect_bytes s) s) \<Longrightarrow>
    Connect E s = Some (v, s') \<Longrightarrow> tcp_run E \<sigma> \<rho> s' h"
| mtu: "tcp_run E \<sigma> \<rho> s h \<Longrightarrow> 116 < unat mtu \<Longrightarrow> tcp_run E \<sigma> \<rho> (NotifyMTU mtu s) h"
| clock: "tcp_run E \<sigma> \<rho> s h \<Longrightarrow> NotifyClock E now s = Some s' \<Longrightarrow> tcp_run E \<sigma> \<rho> s' h"
| packet: "tcp_run E \<sigma> \<rho> s h \<Longrightarrow> packet_fits E \<sigma> \<rho> b s \<Longrightarrow>
    (shifts_stream (parse_segment E b) s \<Longrightarrow> h = []) \<Longrightarrow>
    NotifyPacket E b s = Some (r, s') \<Longrightarrow> tcp_run E \<sigma> \<rho> s' h"
| send: "tcp_run E \<sigma> \<rho> s h \<Longrightarrow> extends \<sigma> data s \<Longrightarrow> Send E data s = Some (v, s') \<Longrightarrow> tcp_run E \<sigma> \<rho> s' h"
| recv: "tcp_run E \<sigma> \<rho> s h \<Longrightarrow> Recv E n s = Some (v, p, s') \<Longrightarrow> tcp_run E \<sigma> \<rho> s' (h @ p)"
| close: "tcp_run E \<sigma> \<rho> s h \<Longrightarrow> tcp_run E \<sigma> \<rho> (Close force s) h"
| option: "tcp_run E \<sigma> \<rho> s h \<Longrightarrow> option_fits opt v s \<Longrightarrow> tcp_run E \<sigma> \<rho> (SetOption opt v s) h"

definition history :: "(u32 \<Rightarrow> byte) \<Rightarrow> pseudo_tcp \<Rightarrow> byte list \<Rightarrow> bool" where
  "history \<rho> s h \<longleftrightarrow>
     (m_shutdown s = SD_NONE \<longrightarrow> h = stretch \<rho> (read_pos s - word_of_nat (length h)) (length h))"

lemma history_same:
  "history \<rho> s h \<Longrightarrow> (m_shutdown s = SD_NONE \<longrightarrow> read_pos s' = read_pos s) \<Longrightarrow> m_shutdown s' = m_shutdown s \<Longrightarrow>
   history \<rho> s' h"
  by (simp add: history_def)

lemma Connect_frame:
  assumes "conn_inv E \<sigma> \<rho> s" "m_state s = TCP_LISTEN \<Longrightarrow> extends \<sigma> (connect_bytes s) s" "Connect E s = Some (v, s')"
  shows "conn_inv E \<sigma> \<rho> s'" "read_pos s' = read_pos s" "m_shutdown s' = m_shutdown s"
proof -
  show "conn_inv E \<sigma> \<rho> s'" using Connect_ok [OF assms(1,2)] assms(3) by (metis option.inject prod.inject)
  let ?t = "queueConnectMessage (s\<lparr>m_state := TCP_SYN_SENT\<rparr>)"
  have "read_pos s' = read_pos s \<and> m_shutdown s' = m_shutdown s"
  proof (cases "m_state s = TCP_LISTEN")
    case True
    have "conn_inv E \<sigma> \<rho> ?t" using assms(1,2) True by (intro queueConnectMessage_ok) simp_all
    then obtain w where w: "attemptSend E sfNone ?t = Some w" "sends E ?t w" by (rule attemptSend_conn)
    have "s' = w" using assms(3) True w(1) by (simp add: Connect_def)
    then show ?thesis
      using read_pos_tx [OF sendsD(3) [OF w(2)]] tx_restD(13) [OF sendsD(3) [OF w(2)]]
      by (simp add: read_pos_def queueConnectMessage_frame)
  qed (use assms(3) in \<open>auto simp: Connect_def read_pos_def\<close>)
  then show "read_pos s' = read_pos s" "m_shutdown s' = m_shutdown s" by simp_all
qed

lemma Send_frame:
  assumes "conn_inv E \<sigma> \<rho> s" "extends \<sigma> data s" "Send E data s = Some (v, s')"
  shows "conn_inv E \<sigma> \<rho> s'" "read_pos s' = read_pos s" "m_shutdown s' = m_shutdown s"
proof -
  show "conn_inv E \<sigma> \<rho> s'" using Send_ok [OF assms(1,2)] assms(3) by (metis option.inject prod.inject)
  have "read_pos s' = read_pos s \<and> m_shutdown s' = m_shutdown s"
  proof (cases "m_state s \<noteq> TCP_ESTABLISHED \<or> GetWriteRemaining (m_sbuf s) = 0")
    case True
    with assms(3) show ?thesis by (auto simp: Send_def read_pos_def split: if_splits)
  next
    case False
    then have st: "m_state s \<noteq> TCP_LISTEN" by auto
    obtain x t where q: "queue data False s = (x, t)" by (cases "queue data False s")
    with queue_conn [OF assms(1,2) st, of False] have t: "conn_inv E \<sigma> \<rho> t" by simp
    obtain w where w: "attemptSend E sfNone t = Some w" "sends E t w" by (rule attemptSend_conn [OF t])
    have "s' = w" using assms(3) False q w(1) by (simp add: Send_def)
    moreover have "read_pos t = read_pos s" "m_shutdown t = m_shutdown s"
      using q by (auto simp: queue_def Let_def case_prod_beta read_pos_def)
    ultimately show ?thesis
      using read_pos_tx [OF sendsD(3) [OF w(2)]] tx_restD(13) [OF sendsD(3) [OF w(2)]] by simp
  qed
  then show "read_pos s' = read_pos s" "m_shutdown s' = m_shutdown s" by simp_all
qed

lemma tcp_run_inv: "tcp_run E \<sigma> \<rho> s h \<Longrightarrow> conn_inv E \<sigma> \<rho> s \<and> history \<rho> s h"
proof (induction rule: tcp_run.induct)
  case (new conv)
  show ?case by (simp add: PseudoTcp_new_inv history_def stretch_def)
next
  case (connect s h v s')
  then show ?case using Connect_frame [of E \<sigma> \<rho> s v s'] history_same by metis
next
  case (mtu s h mtu)
  have "read_pos (NotifyMTU mtu s) = read_pos s" "m_shutdown (NotifyMTU mtu s) = m_shutdown s"
    by (simp_all add: NotifyMTU_def adjustMTU_def read_pos_def Let_def)
  then show ?case using mtu NotifyMTU_ok history_same by metis
next
  case (clock s h now s')
  then have c: "conn_inv E \<sigma> \<rho> s" "history \<rho> s h" by simp_all
  obtain t where t: "NotifyClock E now s = Some t" "tx_inv E \<sigma> t" "rx_side t = rx_side s"
    "m_state t = m_state s \<or> m_state t = TCP_CLOSED" by (rule NotifyClock_ok [OF conn_invD(1) [OF c(1)]])
  have "m_slist t = []" if "m_state t = TCP_LISTEN"
    using NotifyClock_empty [OF _ t(1)] conn_invD(7) [OF c(1)] t(4) that by simp
  then have "conn_inv E \<sigma> \<rho> t" by (rule conn_inv_tx [OF c(1) t(2,3)])
  moreover have "m_shutdown t = m_shutdown s" using t(3) by (simp add: rx_side_def)
  ultimately show ?case
    using history_same [OF c(2), of t] read_pos_rx [OF t(3)] t(1) clock(2) by simp
next
  case (packet s h b r s')
  then have c: "conn_inv E \<sigma> \<rho> s" "history \<rho> s h" by simp_all
  obtain v t where t: "NotifyPacket E b s = Some (v, t)" "conn_inv E \<sigma> \<rho> t" "m_shutdown t = m_shutdown s"
    "m_shutdown s = SD_NONE \<and> \<not> shifts_stream (parse_segment E b) s \<longrightarrow> read_pos t = read_pos s"
    by (rule NotifyPacket_ok [OF c(1) packet(2)])
  have "s' = t" using t(1) packet(4) by simp
  moreover have "history \<rho> t h"
  proof (cases "shifts_stream (parse_segment E b) s")
    case True
    then show ?thesis using packet(3) by (simp add: history_def stretch_def)
  next
    case False
    with t c(2) show ?thesis by (intro history_same [OF c(2)]) simp_all
  qed
  ultimately show ?case using t(2) by simp
next
  case (send s h data v s')
  then show ?case using Send_frame [of E \<sigma> \<rho> s data v s'] history_same by metis
next
  case (recv s h n v p s')
  then have c: "conn_inv E \<sigma> \<rho> s" "history \<rho> s h" by simp_all
  obtain v' p' t where t: "Recv E n s = Some (v', p', t)" "conn_inv E \<sigma> \<rho> t"
    "m_shutdown s = SD_NONE \<Longrightarrow> p' = stretch \<rho> (read_pos s) (length p')"
    "read_pos t = read_pos s + word_of_nat (length p')" "m_shutdown t = m_shutdown s"
    by (rule Recv_ok [where n = n, OF c(1)]) blast
  have eq: "p' = p" "t = s'" using t(1) recv(2) by simp_all
  have "history \<rho> s' (h @ p)"
    unfolding history_def
  proof
    assume "m_shutdown s' = SD_NONE"
    then have "h = stretch \<rho> (read_pos s - word_of_nat (length h)) (length h)" "p = stretch \<rho> (read_pos s) (length p)"
      using c(2) t(3,5) eq by (simp_all add: history_def)
    then have "h @ p = stretch \<rho> (read_pos s - word_of_nat (length h)) (length h + length p)"
      by (simp add: stretch_append)
    then show "h @ p = stretch \<rho> (read_pos s' - word_of_nat (length (h @ p))) (length (h @ p))"
      using t(4) eq by simp
  qed
  with t(2) eq show ?case by simp
next
  case (close s h force)
  then show ?case
    by (cases force) (auto simp: Close_def history_def conn_inv_def rx_part_def tx_inv_def tx_core_def sender_ok_def
        mss_ok_def recover_ok_def in_flight_def)
next
  case (option s h opt v)
  then show ?case using SetOption_ok history_same by metis
qed

end
