(* ===== verification/Pseudo_Tcp_Props.thy ===== *)
theory Pseudo_Tcp_Props
  imports Pseudo_Tcp_Conn
begin

text \<open>
  The properties of \<^verbatim>\<open>PseudoTcp\<close>, over the invariants of the sending and receiving halves and the
  runs of an endpoint.
\<close>

section \<open>A connecting endpoint\<close>

lemma packet_success:
  assumes "open_fifo (m_sbuf s)" "unat off + unat len \<le> fb_data_length (m_sbuf s)" "len \<noteq> 0"
    "unat len \<le> 65511" "unat (m_rwnd_scale s) < 32" "\<And>ev b. env_write E ev b = WR_SUCCESS"
  shows "packet E seq flags off len s = Some (WR_SUCCESS, s\<lparr>w_ticks := Suc (w_ticks s), m_ts_lastack := m_rcv_nxt s,
    w_events := TcpWritePacket (packet_header E seq flags s @
      take (unat len) (drop (unat off) (fifo_contents (m_sbuf s)))) # w_events s,
    m_t_ack := 0, m_lastsend := env_clock E (w_ticks s), m_lasttraffic := env_clock E (w_ticks s), m_bOutgoing := True\<rparr>)"
proof -
  have "ReadOffset (unat len) (unat off) (m_sbuf s) =
      (SR_SUCCESS, take (unat len) (drop (unat off) (fifo_contents (m_sbuf s))))"
    using assms(1-3) by (intro ReadOffset_full) (auto simp: unat_gt_0)
  then show ?thesis
    using assms by (simp add: packet_def size_consts Now_def shr32_def Let_def notify_def packet_header_def word_gt_0)
qed

lemma fresh_connect:
  assumes "\<And>ev b. env_write E ev b = WR_SUCCESS"
  shows "\<exists>s'. Connect E (PseudoTcp_new E conv) = Some (0, s') \<and> m_state s' = TCP_SYN_SENT \<and>
    (\<exists>c. w_events s' = [TcpWritePacket (be32 conv @ be32 0 @ be32 0 @ [0, FLAG_CTL] @ be16 61440 @ be32 c @ be32 0
      @ [CTL_CONNECT, TCP_OPT_WND_SCALE, 1, 0])])"
proof -
  let ?s = "PseudoTcp_new E conv" and ?d = "[CTL_CONNECT, TCP_OPT_WND_SCALE, 1, 0] :: byte list"
  have inv: "conn_inv E (\<lambda>_. 0) (\<lambda>_. 0) ?s" by (rule PseudoTcp_new_inv)
  have s: "m_support_wnd_scale ?s" "m_rwnd_scale ?s = 0" "m_slist ?s = []" "m_snd_una ?s = 0"
    "m_sbuf ?s = FifoBuffer_new 92160"
    by (simp_all add: PseudoTcp_new_def Let_def size_consts)
  have b: "GetBuffered (m_sbuf ?s) = 0" using listen_empty(2) [OF conn_invD(3) [OF inv] s(3)] .
  have rem: "GetWriteRemaining (m_sbuf ?s) = 92160" by (simp add: s(5) GetWriteRemaining_def FifoBuffer_new_def)
  have op: "open_fifo (m_sbuf ?s)" using conn_invD(3) [OF inv] by (simp add: sender_ok_def)
  have "length ?d \<le> GetWriteRemaining (m_sbuf ?s)" by (simp add: rem)
  then obtain r f where "FifoBuffer_Write ?d (m_sbuf ?s) = (r, length ?d, f)" "open_fifo f"
    "GetBuffered f = GetBuffered (m_sbuf ?s) + length ?d" "fifo_contents f = fifo_contents (m_sbuf ?s) @ ?d"
    by (rule FifoBuffer_Write_fits [OF op])
  then have f: "FifoBuffer_Write ?d (m_sbuf ?s) = (r, 4, f)" "open_fifo f" "GetBuffered f = 4" "fifo_contents f = ?d"
    using b fifo_contents_Nil [of "m_sbuf ?s"] by (simp_all add: GetBuffered_def)
  define t where "t = ?s\<lparr>m_state := TCP_SYN_SENT, m_snd_wnd := 4, m_slist := [SSegment_new 0 4 True], m_sbuf := f\<rparr>"
  have q: "queueConnectMessage (?s\<lparr>m_state := TCP_SYN_SENT\<rparr>) = t"
    using f(1) s(1-4) b rem by (simp add: connect_message connect_bytes_def queue_def Let_def t_def)
  have t: "m_snd_wnd t = 4" "m_slist t = [SSegment_new 0 4 True]" "m_sbuf t = f" "m_state t = TCP_SYN_SENT"
    "m_snd_una t = 0" "m_snd_nxt t = 0" "m_mss t = 180" "m_cwnd t = 360" "m_dup_acks t = 0" "m_rwnd_scale t = 0"
    "w_events t = []" "w_ticks t = 1" "m_rcv_nxt t = 0" "m_rcv_wnd t = 61440" "m_ts_recent t = 0" "m_conv t = conv"
    by (simp_all add: t_def PseudoTcp_new_def Let_def size_consts)
  define u where "u c = t\<lparr>w_ticks := Suc (Suc 0), m_cwnd := c\<rparr>" for c
  have u360: "u 360 = t\<lparr>w_ticks := Suc (Suc 0)\<rparr>" by (simp add: u_def t(8) [symmetric])
  have cu: "attemptSend E sfNone t = attempt_send_loop 5 E (env_clock E 1) sfNone
      (u (if TimeDiff (env_clock E 1) (m_lastsend t) > int (unat (m_rx_rto t)) then 180 else 360))"
    using t(7,12) f(3) t(3) u360 by (simp add: attemptSend_def Now_def Let_def del: attempt_send_loop.simps) (simp add: u_def)
  have step: "\<exists>v. attempt_send_loop 5 E (env_clock E 1) sfNone (u c) = Some v \<and> m_state v = TCP_SYN_SENT \<and>
    w_events v = [TcpWritePacket (packet_header E 0 FLAG_CTL (u c) @ ?d)]" if "c \<in> {180, 360}" for c
  proof -
    have av: "send_available (u c) = 4" using that t f(3)
      by (auto simp: send_available_def send_window_def u_def Let_def)
    let ?x = "SSegment_new 0 4 True" and ?n = "env_clock E 1"
    define p where "p = TcpWritePacket (packet_header E 0 FLAG_CTL (u c) @ ?d)"
    define w where "w = (u c)\<lparr>w_ticks := 3, m_ts_lastack := 0, w_events := [p], m_t_ack := 0,
      m_lastsend := env_clock E 2, m_lasttraffic := env_clock E 2, m_bOutgoing := True\<rparr>"
    have uc: "m_snd_wnd (u c) = 4" "m_slist (u c) = [?x]" "m_sbuf (u c) = f" "m_state (u c) = TCP_SYN_SENT"
      "m_snd_una (u c) = 0" "m_snd_nxt (u c) = 0" "m_mss (u c) = 180" "m_rwnd_scale (u c) = 0" "w_events (u c) = []"
      "w_ticks (u c) = 2" "m_rcv_nxt (u c) = 0"
      using t by (simp_all add: u_def)
    have "packet E 0 FLAG_CTL 0 4 (u c) = Some (WR_SUCCESS, w)"
      using f uc assms by (subst packet_success) (simp_all add: GetBuffered_def w_def p_def)
    then have "transmit_loop E ?x 4 (u c) = Some (True, 4, w)"
      using uc by (subst transmit_loop.simps) (simp add: SSegment_new_def)
    moreover have "min (s_len ?x) (m_mss (u c)) = 4" using uc by (simp add: SSegment_new_def)
    ultimately have tl: "transmit_loop E ?x (min (s_len ?x) (m_mss (u c))) (u c) = Some (True, 4, w)" by simp
    have wl: "m_slist w = m_slist (u c)" by (simp add: w_def)
    have l: "m_slist (u c) = [] @ ?x # []" using uc by simp
    define v where "v = w\<lparr>m_snd_nxt := 4, m_slist := [?x\<lparr>s_xmit := 1\<rparr>],
       m_rto_base := (if m_rto_base w = 0 then ?n else m_rto_base w)\<rparr>"
    have tr: "transmit E 0 ?n (u c) = Some (True, v)"
      using transmit_step [OF l tl wl, of ?n] uc
      by (simp add: v_def SSegment_new_def sent_segs_def) (simp add: w_def uc)
    have av2: "send_available v = 0" using f(3) uc by (simp add: send_available_def send_window_def v_def w_def Let_def)
    have "break_segment 0 4 (u c) = u c" using uc by (simp add: break_segment_def Let_def SSegment_new_def)
    moreover have "first_unsent (m_slist (u c)) = Some 0" using uc by (simp add: SSegment_new_def)
    moreover have "(5 :: nat) = Suc (Suc 3)" by simp
    ultimately have "attempt_send_loop 5 E ?n sfNone (u c) = Some v"
      using av av2 tr uc by (simp only: attempt_send_loop.simps Let_def) simp
    moreover have "m_state v = TCP_SYN_SENT" "w_events v = [p]" using uc by (simp_all add: v_def w_def)
    ultimately show ?thesis by (simp add: p_def)
  qed
  have hd: "packet_header E 0 FLAG_CTL (u c) = be32 conv @ be32 0 @ be32 0 @ [0, FLAG_CTL] @ be16 61440 @
      be32 (env_clock E (Suc (Suc 0))) @ be32 0" for c
    using t by (simp add: packet_header_bytes u_def)
  have "\<exists>v. attemptSend E sfNone t = Some v \<and> m_state v = TCP_SYN_SENT \<and>
      w_events v = [TcpWritePacket ((be32 conv @ be32 0 @ be32 0 @ [0, FLAG_CTL] @ be16 61440 @
        be32 (env_clock E (Suc (Suc 0))) @ be32 0) @ ?d)]"
    unfolding cu hd [symmetric, of "if TimeDiff (env_clock E 1) (m_lastsend t) > int (unat (m_rx_rto t)) then 180 else 360"]
    by (rule step) simp
  moreover have "m_state ?s = TCP_LISTEN" by (simp add: PseudoTcp_new_def Let_def)
  ultimately show ?thesis by (auto simp: Connect_def q)
qed
lemma bytes_to_long_host: "4 \<le> length b \<Longrightarrow> bytes_to_long h b = bytes_to_long h' b"
  by (simp add: bytes_to_long_def)

lemma bytes_to_short_host: "2 \<le> length b \<Longrightarrow> bytes_to_short h b = bytes_to_short h' b"
  by (simp add: bytes_to_short_def)

lemma parse_segment_host: "24 \<le> length b \<Longrightarrow> parse_segment E b = parse_segment E' b"
  using bytes_to_long_host [of _ "env_big_endian E" "env_big_endian E'"]
    bytes_to_short_host [of _ "env_big_endian E" "env_big_endian E'"]
  by (simp add: parse_segment_def Let_def)

text \<open>A small concrete setting: a host that counts its clock readings, a network that takes every packet,
  and a stream that starts with the connect message for window scale 0.\<close>

definition demo_env :: tcp_env where
  "demo_env = \<lparr>env_clock = word_of_nat, env_write = (\<lambda>_ _. WR_SUCCESS), env_big_endian = False\<rparr>"

definition demo_stream :: "u32 \<Rightarrow> byte" where
  "demo_stream q = (if q = 1 then 3 else if q = 2 then 1 else 0)"

lemma demo_extends: "extends demo_stream (connect_bytes (PseudoTcp_new demo_env 7)) (PseudoTcp_new demo_env 7)"
  by (simp add: extends_def queue_len_def connect_bytes_def PseudoTcp_new_def Let_def size_consts stretch_def
      demo_stream_def GetBuffered_def GetWriteRemaining_def FifoBuffer_new_def CTL_CONNECT_def TCP_OPT_WND_SCALE_def
      upt_rec)

lemma demo_connect:
  obtains s where "Connect demo_env (PseudoTcp_new demo_env 7) = Some (0, s)" "m_shutdown s = SD_NONE"
    "tcp_run demo_env demo_stream demo_stream s []"
proof -
  let ?s = "PseudoTcp_new demo_env 7"
  have inv: "conn_inv demo_env demo_stream demo_stream ?s" by (rule PseudoTcp_new_inv)
  obtain v s where s: "Connect demo_env ?s = Some (v, s)" by (rule Connect_ok [OF inv demo_extends])
  then have "v = 0" by (auto simp: Connect_def PseudoTcp_new_def Let_def split: bind_splits)
  moreover have "m_shutdown s = SD_NONE"
    using Connect_frame(3) [OF inv demo_extends s] by (simp add: PseudoTcp_new_def Let_def)
  moreover have "tcp_run demo_env demo_stream demo_stream s []"
    by (rule tcp_run.connect [OF tcp_run.new demo_extends s])
  ultimately show ?thesis using s that by simp
qed

section \<open>Properties of a run\<close>





text \<open>C8: Every datagram an endpoint hands to the network, whenever and however often, parses on any host to a
  segment that carries the sender's stream at the place its sequence number names: it is what the receiving
  side assumes of its peer.\<close>

theorem datagrams_carry_stream:
  assumes "tcp_run E \<sigma> \<rho> s h" "TcpWritePacket b \<in> set (w_events s)"
    "unat (seg_seq (parse_segment E' b)) + unat (seg_len (parse_segment E' b)) < 2 ^ 32"
  shows "seg_honest \<sigma> (parse_segment E' b)"
proof -
  have "on_stream E \<sigma> (TcpWritePacket b)"
    using tcp_run_inv [OF assms(1)] assms(2) by (auto simp: conn_inv_def tx_inv_def tx_core_def list_all_iff)
  moreover have "parse_segment E' b = parse_segment E b"
    using calculation by (intro parse_segment_host) (simp add: on_stream_def)
  ultimately show ?thesis using on_stream_honest assms(3) by simp
qed


theorem datagrams_carry_stream_witness:
  "\<exists>s b. Connect demo_env (PseudoTcp_new demo_env 7) = Some (0, s) \<and> TcpWritePacket b \<in> set (w_events s) \<and>
     length b = 28 \<and> seg_honest demo_stream (parse_segment demo_env b)"
proof -
  obtain s where s: "Connect demo_env (PseudoTcp_new demo_env 7) = Some (0, s)"
    "tcp_run demo_env demo_stream demo_stream s []" by (rule demo_connect)
  have "env_write demo_env ev b = WR_SUCCESS" for ev b by (simp add: demo_env_def)
  from fresh_connect [OF this, of 7] s(1) obtain c where
    e: "w_events s = [TcpWritePacket (be32 7 @ be32 0 @ be32 0 @ [0, FLAG_CTL] @ be16 61440 @ be32 c @ be32 0
      @ [CTL_CONNECT, TCP_OPT_WND_SCALE, 1, 0])]" by auto
  define b where "b = be32 7 @ be32 0 @ be32 0 @ [0, FLAG_CTL] @ be16 61440 @ be32 c @ be32 0
      @ [CTL_CONNECT, TCP_OPT_WND_SCALE, 1, 0]"
  have b: "TcpWritePacket b \<in> set (w_events s)" "length b = 28" by (simp_all add: e b_def)
  have "seg_seq (parse_segment demo_env b) = 0" "seg_len (parse_segment demo_env b) = 4"
    by (simp_all add: parse_segment_def b(2) HEADER_SIZE_def Let_def) (simp add: b_def)
  then have "unat (seg_seq (parse_segment demo_env b)) + unat (seg_len (parse_segment demo_env b)) < 2 ^ 32" by simp
  from datagrams_carry_stream [OF s(2) b(1) this] s(1) b show ?thesis by blast
qed

section \<open>Sending\<close>

lemma demo_sender: "sender_ok (PseudoTcp_new demo_env 7)" "mss_ok (PseudoTcp_new demo_env 7)"
  using conn_invD(3,4) [OF PseudoTcp_new_inv [of demo_env "\<lambda>_. 0" "\<lambda>_. 0" 7]] by simp_all

text \<open>C14: \<^verbatim>\<open>attemptSend\<close> always returns, whatever the network answers to its packets: the segments still tile the
  send buffer in sequence order with the transmitted ones first and covering exactly the bytes in flight,
  every datagram it sent carries buffered bytes, and the receiving half of the connection is untouched.\<close>

theorem attemptSend_returns:
  assumes "sender_ok s" "mss_ok s"
  shows "\<exists>s'. attemptSend E sflags s = Some s' \<and> sender_ok s' \<and> mss_ok s' \<and> emits E s s' \<and>
    m_sbuf s' = m_sbuf s \<and> m_snd_una s' = m_snd_una s \<and> in_flight s \<le> in_flight s' \<and>
    m_rbuf s' = m_rbuf s \<and> m_rlist s' = m_rlist s \<and> m_rcv_nxt s' = m_rcv_nxt s"
proof -
  obtain s' where "attemptSend E sflags s = Some s'" "sends E s s'" by (rule attemptSend_ok [OF assms])
  with sendsD [OF this(2)] tx_restD [OF sendsD(3) [OF this(2)]] show ?thesis by auto
qed

theorem attemptSend_returns_witness:
  "\<exists>s'. attemptSend demo_env sfImmediateAck (PseudoTcp_new demo_env 7) = Some s' \<and> sender_ok s' \<and>
     m_rcv_nxt s' = m_rcv_nxt (PseudoTcp_new demo_env 7)"
  using attemptSend_returns [OF demo_sender, of demo_env sfImmediateAck] by blast

text \<open>A packet that \<^verbatim>\<open>packet\<close> writes is read back by \<^verbatim>\<open>parse\<close> on a host of any byte order as the same segment:
  conversation, sequence number, acknowledgement, flags, scaled window, timestamps and payload.\<close>

theorem packet_parse_roundtrip:
  assumes "open_fifo (m_sbuf s)" "unat off + unat len \<le> GetBuffered (m_sbuf s)" "unat len \<le> 65511"
    "unat (m_rwnd_scale s) < 32"
  shows "\<exists>w s' b. packet E seq flags off len s = Some (w, s') \<and> w_events s' = TcpWritePacket b # w_events s \<and>
    parse_segment E' b =
      \<lparr>seg_conv = m_conv s, seg_seq = seq, seg_ack = m_rcv_nxt s, seg_flags = flags,
       seg_wnd = ucast (drop_bit (unat (m_rwnd_scale s)) (m_rcv_wnd s)),
       seg_data = take (unat len) (drop (unat off) (fifo_contents (m_sbuf s))), seg_len = len,
       seg_tsval = env_clock E (w_ticks s), seg_tsecr = m_ts_recent s\<rparr>"
proof -
  let ?p = "take (unat len) (drop (unat off) (fifo_contents (m_sbuf s)))"
  have fit: "unat off + unat len \<le> fb_data_length (m_sbuf s)" using assms(2) by (simp add: GetBuffered_def)
  obtain w s' where "packet E seq flags off len s = Some (w, s')"
    "w_events s' = TcpWritePacket (packet_header E seq flags s @ ?p) # w_events s"
    by (rule packet_sends [OF assms(1) fit assms(3,4)])
  moreover have "length ?p = unat len" using fit by simp
  then have "length ?p \<le> 65511" "word_of_nat (length ?p) = len" using assms(3) by simp_all
  ultimately show ?thesis using parse_packet [of ?p E' E seq flags s] by auto
qed

theorem packet_parse_roundtrip_witness:
  "\<exists>w s' b. packet demo_env 9 FLAG_RST 0 0 (PseudoTcp_new demo_env 7) = Some (w, s') \<and>
     w_events s' = [TcpWritePacket b] \<and> seg_conv (parse_segment demo_env b) = 7 \<and> seg_seq (parse_segment demo_env b) = 9"
proof -
  let ?s = "PseudoTcp_new demo_env 7"
  have "open_fifo (m_sbuf ?s)" "unat (m_rwnd_scale ?s) < 32"
    using demo_sender by (simp_all add: sender_ok_def mss_ok_def)
  with packet_parse_roundtrip [of ?s 0 0 demo_env 9 FLAG_RST demo_env] show ?thesis
    by (auto simp: PseudoTcp_new_def Let_def)
qed

text \<open>Sending leaves the send buffer and \<open>m_snd_una\<close> alone, in any state.\<close>

lemma next_mss_frame: "next_mss n s = Some (Some (n', s')) \<Longrightarrow> tx_rest s' = tx_rest s"
proof (induction n s rule: next_mss.induct)
  case (1 n s)
  show ?case
  proof (cases "unat (m_msslevel s) + 1 \<ge> length PACKET_MAXIMUMS \<or> PACKET_MAXIMUMS ! (unat (m_msslevel s) + 1) = 0")
    case True
    with 1(2) show ?thesis by (subst (asm) next_mss.simps) (auto split: if_splits)
  next
    case False
    with 1 show ?thesis
      by (subst (asm) (2) next_mss.simps) (fastforce simp: Let_def split: if_splits)
  qed
qed

lemma transmit_loop_frame: "transmit_loop E seg n s = Some (b, n', s') \<Longrightarrow> tx_rest s' = tx_rest s"
proof (induction E seg n s rule: transmit_loop.induct)
  case (1 E seg n s)
  let ?p = "packet E (s_seq seg) (if s_bCtrl seg then FLAG_CTL else 0) (s_seq seg - m_snd_una s) n s"
  from 1(2) obtain w s1 where p: "?p = Some (w, s1)" by (subst (asm) transmit_loop.simps) (auto split: option.splits)
  have r: "tx_rest s1 = tx_rest s" by (rule pk_restD(1) [OF packet_frame [OF p]])
  show ?case
  proof (cases w)
    case WR_TOO_LARGE
    show ?thesis
    proof (cases "next_mss n s1")
      case None
      with 1(2) p WR_TOO_LARGE show ?thesis by (subst (asm) transmit_loop.simps) simp
    next
      case (Some x)
      show ?thesis
      proof (cases x)
        case None
        with 1(2) p WR_TOO_LARGE Some r show ?thesis by (subst (asm) transmit_loop.simps) simp
      next
        case x: (Some ns)
        obtain n2 s2 where ns: "ns = (n2, s2)" by (cases ns)
        with 1(2) p WR_TOO_LARGE Some x have "transmit_loop E seg n2 s2 = Some (b, n', s')"
          by (subst (asm) transmit_loop.simps) simp
        from 1(1) [OF p refl WR_TOO_LARGE Some [unfolded x ns] refl refl this] next_mss_frame Some x ns r
        show ?thesis by simp
      qed
    qed
  qed (use 1(2) p r in \<open>subst (asm) transmit_loop.simps, simp\<close>)+
qed

lemma transmit_frame: "transmit E i now s = Some (b, s') \<Longrightarrow> tx_rest s' = tx_rest s"
  by (auto simp: transmit_def Let_def dest!: transmit_loop_frame split: if_splits option.splits bool.splits)

lemma process_new_ack_frame:
  assumes "process_new_ack E now seg s = Some (b, s')"
  shows "ConsumeReadData (unat (seg_ack seg - m_snd_una s)) (m_sbuf s) = Some (m_sbuf s') \<and> m_snd_una s' = seg_ack seg"
proof -
  obtain x y z where u: "update_rtt now seg s = s\<lparr>m_rx_srtt := x, m_rx_rttvar := y, m_rx_rto := z\<rparr>"
    by (rule update_rtt_frame)
  have tr: "m_sbuf t' = m_sbuf t \<and> m_snd_una t' = m_snd_una t" if "transmit E 0 now t = Some (c, t')" for t c t'
    using tx_restD(1,2) [OF transmit_frame [OF that]] by simp
  have cl: "m_sbuf (closedown e t) = m_sbuf t" "m_snd_una (closedown e t) = m_snd_una t" for e t
    by (simp_all add: closedown_def notify_def)
  show ?thesis
    using assms unfolding process_new_ack_def u Let_def
    by (auto simp: grow_cwnd_def cl dest!: tr split: if_splits bind_splits)
qed

text \<open>An acknowledgement that ends at a segment boundary releases exactly the acknowledged bytes: \<open>m_snd_una\<close>
  moves there, the send buffer keeps the rest of the stream, the segments still tile it and the bytes in flight
  are those between the new \<open>m_snd_una\<close> and \<open>m_snd_nxt\<close>.\<close>

theorem ack_releases_bytes:
  assumes "tx_inv E \<sigma> s" "m_snd_una s < seg_ack seg" "seg_ack seg \<le> m_snd_nxt s"
    "at_boundary (unat (seg_ack seg - m_snd_una s)) (m_slist s)"
    "unat (m_swnd_scale s) < 32" "m_cwnd s \<noteq> 0" "m_state s \<noteq> TCP_CLOSED"
  shows "\<exists>b s'. process_new_ack E now seg s = Some (b, s') \<and> m_snd_una s' = seg_ack seg \<and> sender_ok s' \<and>
    fifo_contents (m_sbuf s') = drop (unat (seg_ack seg - m_snd_una s)) (fifo_contents (m_sbuf s))"
proof -
  let ?n = "unat (seg_ack seg - m_snd_una s)"
  from process_new_ack_ok [OF assms, of now] obtain b s' where p: "process_new_ack E now seg s = Some (b, s')"
    "tx_inv E \<sigma> s'" unfolding tx_phase_def by blast
  note fr = process_new_ack_frame [OF p(1)]
  then have c: "ConsumeReadData ?n (m_sbuf s) = Some (m_sbuf s')" by blast
  then have le: "?n \<le> fb_data_length (m_sbuf s)" by (auto simp: ConsumeReadData_def split: if_splits)
  have "open_fifo (m_sbuf s)" using assms(1) by (simp add: tx_inv_def tx_core_def sender_ok_def)
  from fb.drop_law [OF this le] c have "fb_data_length (m_sbuf s') = fb_data_length (m_sbuf s) - ?n"
    "\<And>i. ring_at (m_sbuf s') i = ring_at (m_sbuf s) (?n + i)" by auto
  from fifo_contents_drop [OF le this] fr p show ?thesis
    by (auto simp: tx_inv_def tx_core_def)
qed

text \<open>A segment list with two sent segments of two bytes each, for the concrete applications.\<close>

definition demo_sent :: pseudo_tcp where
  "demo_sent = (PseudoTcp_new demo_env 7)\<lparr>m_state := TCP_ESTABLISHED, m_snd_nxt := 4,
     m_slist := [\<lparr>s_seq = 0, s_len = 2, s_xmit = 1, s_bCtrl = False\<rparr>, \<lparr>s_seq = 2, s_len = 2, s_xmit = 1, s_bCtrl = False\<rparr>],
     m_sbuf := \<lparr>fb_state = SS_OPEN, fb_buffer = [10, 11, 12, 13, 0, 0, 0, 0], fb_buffer_length = 8,
       fb_data_length = 4, fb_read_position = 0, fb_posted = []\<rparr>\<rparr>"

definition demo_ack :: "u32 \<Rightarrow> Segment" where
  "demo_ack a = \<lparr>seg_conv = 7, seg_seq = 0, seg_ack = a, seg_flags = 0, seg_wnd = 100, seg_data = [], seg_len = 0,
     seg_tsval = 0, seg_tsecr = 0\<rparr>"

lemma demo_sent_inv: "tx_inv demo_env (\<lambda>q. word_of_nat (10 + unat q)) demo_sent"
  by (simp add: demo_sent_def tx_inv_def tx_core_def sender_ok_def mss_ok_def recover_ok_def PseudoTcp_new_def Let_def
      size_consts open_fifo_def fifo_ok_def fifo_contents_def ring_at_def GetBuffered_def stretch_def in_flight_def
      upt_rec seg_bytes_def sent_bytes_def)

theorem ack_releases_bytes_witness:
  "\<exists>b s'. process_new_ack demo_env 50 (demo_ack 2) demo_sent = Some (b, s') \<and> m_snd_una s' = 2 \<and>
     fifo_contents (m_sbuf s') = [12, 13]"
proof -
  have "fifo_contents (m_sbuf demo_sent) = [10, 11, 12, 13]"
    by (simp add: demo_sent_def fifo_contents_def ring_at_def upt_rec)
  moreover have "m_snd_una demo_sent = 0" "m_snd_nxt demo_sent = 4" "m_swnd_scale demo_sent = 0" "m_cwnd demo_sent \<noteq> 0"
    "m_state demo_sent \<noteq> TCP_CLOSED" "seg_ack (demo_ack 2) = 2" "at_boundary 2 (m_slist demo_sent)"
    by (simp_all add: demo_sent_def demo_ack_def PseudoTcp_new_def Let_def size_consts)
  ultimately show ?thesis
    using ack_releases_bytes [OF demo_sent_inv, of "demo_ack 2" 50] by auto
qed

lemma unat_uminus: "n \<noteq> 0 \<Longrightarrow> unat (- n) = 2 ^ 32 - unat n" for n :: u32
proof -
  assume "n \<noteq> 0"
  then have "uint n \<noteq> 0" by (simp add: uint_0_iff)
  then have "uint (- n) = 4294967296 - uint n"
    using uint_lt32 [of n] by (simp add: uint_word_ariths zmod_zminus1_eq_if)
  then have "int (unat (- n)) = 4294967296 - int (unat n)" by simp
  then have "unat (- n) = 4294967296 - unat n" using unat_lt32 [of n] by linarith
  then show ?thesis by simp
qed

text \<open>C38: After an acknowledgement that ends inside the front segment, the front segment keeps its old sequence
  number, which now lies before \<open>m_snd_una\<close>: retransmitting it reads the send buffer at a negative offset, which
  fails, so that the packet would be sent with uninitialised memory.\<close>

theorem partial_ack_breaks_retransmission:
  assumes "m_slist s = x # xs" "s_seq x = m_snd_una s" "0 < n" "n < s_len x" "s_xmit x < 15" "m_mss s \<noteq> 0"
    "ConsumeReadData (unat n) (m_sbuf s) = Some f" "free_segments n (m_slist s) lg = Some (l, lg')"
    "GetBuffered f + unat n < 2 ^ 32"
  shows "transmit E 0 now (s\<lparr>m_snd_una := m_snd_una s + n, m_sbuf := f, m_slist := l\<rparr>) = None"
proof -
  let ?t = "s\<lparr>m_snd_una := m_snd_una s + n, m_sbuf := f, m_slist := l\<rparr>"
  let ?y = "x\<lparr>s_len := s_len x - n\<rparr>"
  let ?k = "min (s_len ?y) (m_mss ?t)"
  have l: "l = ?y # xs" using assms(1,3,4,8) by simp
  have "s_seq ?y - m_snd_una ?t = - n" using assms(2) by simp
  moreover have "unat (- n) = 2 ^ 32 - unat n"
    using assms(3) by (intro unat_uminus) (simp add: word_gt_0)
  ultimately have "fb_data_length f \<le> unat (s_seq ?y - m_snd_una ?t)"
    using assms(9) by (simp add: GetBuffered_def)
  then have rd: "fst (ReadOffset (unat ?k) (unat (s_seq ?y - m_snd_una ?t)) f) \<noteq> SR_SUCCESS"
    by (simp add: ReadOffset_def ReadOffsetLocked_def)
  have "s_len x - n \<noteq> 0" using assms(4) by auto
  then have k: "?k \<noteq> 0" using assms(6) by (simp add: min_def)
  have "packet E (s_seq ?y) fl (s_seq ?y - m_snd_una ?t) ?k ?t = None" for fl
    using rd k unfolding packet_def Let_def Now_def
    by (auto simp: case_prod_beta split: option.splits bind_splits)
  then have "transmit_loop E ?y ?k ?t = None" by (subst transmit_loop.simps) simp
  moreover have "\<not> 15 \<le> s_xmit ?y" "\<not> 30 \<le> s_xmit ?y" using assms(5) by (auto simp: word_le_nat_alt word_less_nat_alt)
  ultimately show ?thesis by (simp add: transmit_def l Let_def)
qed

theorem partial_ack_breaks_retransmission_witness:
  "\<exists>f l lg. ConsumeReadData 1 (m_sbuf demo_sent) = Some f \<and> free_segments 1 (m_slist demo_sent) 0 = Some (l, lg) \<and>
     transmit demo_env 0 50 (demo_sent\<lparr>m_snd_una := m_snd_una demo_sent + 1, m_sbuf := f, m_slist := l\<rparr>) = None"
proof -
  define f where "f = (m_sbuf demo_sent)\<lparr>fb_read_position := 1, fb_data_length := 3\<rparr>"
  have f: "ConsumeReadData (unat (1 :: u32)) (m_sbuf demo_sent) = Some f"
    by (simp add: demo_sent_def f_def ConsumeReadData_def)
  define x where "x = \<lparr>s_seq = 0, s_len = 2, s_xmit = 1, s_bCtrl = False\<rparr>"
  obtain xs where xs: "m_slist demo_sent = x # xs" by (simp add: demo_sent_def x_def)
  have free: "free_segments 1 (m_slist demo_sent) 0 = Some (x\<lparr>s_len := s_len x - 1\<rparr> # xs, 0)"
    by (simp add: xs x_def)
  have "m_snd_una demo_sent = 0" "m_mss demo_sent \<noteq> 0" "GetBuffered f = 3"
    by (simp_all add: demo_sent_def f_def PseudoTcp_new_def Let_def size_consts GetBuffered_def)
  then show ?thesis
    using partial_ack_breaks_retransmission [OF xs _ _ _ _ _ f free, of demo_env 50] f free by (auto simp: x_def)
qed

text \<open>Once the sequence numbers in flight wrap past \<open>2 ^ 32\<close>, no acknowledgement is accepted any more: the
  connection can only time out after 4 GB.\<close>

theorem acks_stop_after_wrap:
  assumes "m_snd_nxt s < m_snd_una s" "seg_ack seg \<noteq> m_snd_una s"
  shows "process_ack E now seg s = Some (True, s)"
  using assms by (auto simp: process_ack_def)

theorem acks_stop_after_wrap_witness:
  "process_ack demo_env 50 (demo_ack 1) (demo_sent\<lparr>m_snd_una := 0xFFFFFFFE, m_snd_nxt := 2\<rparr>) =
     Some (True, demo_sent\<lparr>m_snd_una := 0xFFFFFFFE, m_snd_nxt := 2\<rparr>)"
  by (rule acks_stop_after_wrap) (simp_all add: demo_ack_def)

section \<open>Receiving\<close>



text \<open>A datagram of 12 to 23 bytes passes the length check of \<^verbatim>\<open>parse\<close>, which then reads the header past its
  end; shorter ones are ignored.\<close>

theorem short_datagram:
  assumes "length b < 24"
  shows "NotifyPacket E b s = (if 12 \<le> length b then None else Some (False, s))"
  using assms by (simp add: NotifyPacket_def parse_def MAX_PACKET_def HEADER_SIZE_def)

theorem short_datagram_witness:
  "NotifyPacket demo_env (replicate 12 0) demo_sent = None \<and> NotifyPacket demo_env [1] demo_sent = Some (False, demo_sent)"
  using short_datagram [of "replicate 12 0" demo_env demo_sent] short_datagram [of "[1]" demo_env demo_sent] by simp

text \<open>The receive buffer size is rounded down so that the whole window, divided by the announced power of two,
  fits the 16-bit window field; at most \<open>2 ^ scale - 1\<close> bytes are given up, and the window offered is the whole
  empty buffer.\<close>

theorem receive_window_scaling:
  assumes "conn_inv E \<sigma> \<rho> s" "quiet s" "n \<noteq> 0" "t = resizeReceiveBuffer n s"
  shows "unat (m_rwnd_scale t) \<le> 16 \<and> unat (m_rbuf_len t) \<le> unat n \<and>
    unat n < unat (m_rbuf_len t) + 2 ^ unat (m_rwnd_scale t) \<and>
    unat (m_rcv_wnd t) div 2 ^ unat (m_rwnd_scale t) \<le> 65535 \<and> unat (m_rcv_wnd t) = GetWriteRemaining (m_rbuf t) \<and>
    fb_buffer_length (m_rbuf t) = unat (m_rbuf_len t)"
proof -
  note r = resizeReceiveBuffer_ok [OF assms]
  let ?k = "unat (m_rwnd_scale t)"
  have "unat n = unat n div 2 ^ ?k * 2 ^ ?k + unat n mod 2 ^ ?k" by (rule div_mult_mod_eq [symmetric])
  moreover have "unat n mod 2 ^ ?k < 2 ^ ?k" by simp
  ultimately have b: "unat (m_rbuf_len t) \<le> unat n" "unat n < unat (m_rbuf_len t) + 2 ^ ?k"
    using r(6) by linarith+
  have "GetWriteRemaining (m_rbuf t) = unat (m_rbuf_len t)"
    using r(4,9) by (simp add: quiet_def GetBuffered_def GetWriteRemaining_def)
  with r(4,5,7,8) b show ?thesis by simp
qed

theorem receive_window_scaling_witness:
  "unat (m_rwnd_scale (resizeReceiveBuffer 200001 (PseudoTcp_new demo_env 7))) \<le> 16 \<and>
   unat (m_rbuf_len (resizeReceiveBuffer 200001 (PseudoTcp_new demo_env 7))) \<le> 200001"
proof -
  have "quiet (PseudoTcp_new demo_env 7)"
    by (simp add: quiet_def PseudoTcp_new_def Let_def GetBuffered_def FifoBuffer_new_def)
  from receive_window_scaling [OF PseudoTcp_new_inv this, of 200001] show ?thesis by simp
qed

section \<open>Timers and connection state\<close>

text \<open>\<^verbatim>\<open>GetNextClock\<close> and \<^verbatim>\<open>NotifyClock\<close> agree on when work is due: as long as the time to the next call is
  positive, a call of \<^verbatim>\<open>NotifyClock\<close> at this moment changes nothing; and the time is at most the default
  timeout.\<close>

theorem clock_not_due:
  assumes "GetNextClock now s = Some t" "0 < t" "m_state s \<noteq> TCP_CLOSED"
  shows "NotifyClock E now s = Some s \<and> t \<le> DEFAULT_TIMEOUT"
proof -
  have t: "t \<le> DEFAULT_TIMEOUT"
    "m_t_ack s \<noteq> 0 \<Longrightarrow> t \<le> TimeDiff (m_t_ack s + m_ack_delay s) now"
    "m_rto_base s \<noteq> 0 \<Longrightarrow> t \<le> TimeDiff (m_rto_base s + m_rx_rto s) now"
    "m_snd_wnd s = 0 \<Longrightarrow> t \<le> TimeDiff (m_lastsend s + m_rx_rto s) now"
    using assms(1,3) by (auto simp: GetNextClock_def clock_check_def Let_def min_def split: if_splits)
  have "clock_retransmit E now s = Some (True, s)" using t(3) assms(2) by (auto simp: clock_retransmit_def)
  moreover have "clock_probe E now s = Some (True, s)" using t(4) assms(2) by (auto simp: clock_probe_def)
  moreover have "clock_ack E now s = Some s" using t(2) assms(2) by (auto simp: clock_ack_def)
  ultimately show ?thesis using t(1) assms(3) by (simp add: NotifyClock_def)
qed

theorem clock_not_due_witness:
  "GetNextClock 5 (PseudoTcp_new demo_env 7) = Some 4000 \<and>
   NotifyClock demo_env 5 (PseudoTcp_new demo_env 7) = Some (PseudoTcp_new demo_env 7)"
proof -
  have n: "GetNextClock 5 (PseudoTcp_new demo_env 7) = Some 4000"
    by (simp add: GetNextClock_def clock_check_def PseudoTcp_new_def Let_def DEFAULT_TIMEOUT_def)
  with clock_not_due [OF n, of demo_env] show ?thesis by (simp add: PseudoTcp_new_def Let_def)
qed

text \<open>Whatever round-trip times are measured, the retransmission timeout set by an acknowledgement lies between
  \<open>MIN_RTO\<close> and \<open>MAX_RTO\<close>.\<close>

theorem rto_bounded:
  assumes "seg_tsecr seg \<noteq> 0" "0 \<le> TimeDiff now (seg_tsecr seg)"
  shows "MIN_RTO \<le> m_rx_rto (update_rtt now seg s) \<and> m_rx_rto (update_rtt now seg s) \<le> MAX_RTO"
proof -
  have "MIN_RTO \<le> bound MIN_RTO x MAX_RTO \<and> bound MIN_RTO x MAX_RTO \<le> MAX_RTO" for x
    by (simp add: bound_def min_def max_def MIN_RTO_def MAX_RTO_def)
  with assms show ?thesis by (simp add: update_rtt_def Let_def)
qed

theorem rto_bounded_witness:
  "MIN_RTO \<le> m_rx_rto (update_rtt 1000 ((demo_ack 2)\<lparr>seg_tsecr := 600\<rparr>) demo_sent)"
proof -
  have "TimeDiff 1000 600 = 400" by (simp add: TimeDiff_def)
  with rto_bounded [of "(demo_ack 2)\<lparr>seg_tsecr := 600\<rparr>" 1000 demo_sent] show ?thesis by simp
qed

text \<open>C33: A segment is not retransmitted forever: when the timer expires after 15 transmissions on an established
  connection (30 while connecting), the connection is closed with \<open>ECONNABORTED\<close>.\<close>

theorem retransmission_limit:
  assumes "m_state s \<noteq> TCP_CLOSED" "m_slist s = x # xs" "m_rto_base s \<noteq> 0"
    "TimeDiff (m_rto_base s + m_rx_rto s) now \<le> 0"
    "(if m_state s = TCP_ESTABLISHED then 15 else 30) \<le> s_xmit x"
  shows "NotifyClock E now s = Some (closedown ECONNABORTED s)"
proof -
  have "transmit E 0 now s = Some (False, s)" using assms(2,5) by (simp add: transmit_def)
  then have "clock_retransmit E now s = Some (False, closedown ECONNABORTED s)"
    using assms(2-4) by (simp add: clock_retransmit_def)
  then show ?thesis using assms(1) by (simp add: NotifyClock_def)
qed

theorem retransmission_limit_witness:
  "NotifyClock demo_env 9000 (demo_sent\<lparr>m_rto_base := 1, m_slist := [\<lparr>s_seq = 0, s_len = 2, s_xmit = 15, s_bCtrl = False\<rparr>]\<rparr>) =
   Some (closedown ECONNABORTED (demo_sent\<lparr>m_rto_base := 1, m_slist := [\<lparr>s_seq = 0, s_len = 2, s_xmit = 15, s_bCtrl = False\<rparr>]\<rparr>))"
proof -
  let ?s = "demo_sent\<lparr>m_rto_base := 1, m_slist := [\<lparr>s_seq = 0, s_len = 2, s_xmit = 15, s_bCtrl = False\<rparr>]\<rparr>"
  have "TimeDiff (m_rto_base ?s + m_rx_rto ?s) 9000 \<le> 0"
    by (simp add: demo_sent_def PseudoTcp_new_def Let_def DEF_RTO_def TimeDiff_def)
  then show ?thesis
    using retransmission_limit [of ?s "\<lparr>s_seq = 0, s_len = 2, s_xmit = 15, s_bCtrl = False\<rparr>" "[]" 9000 demo_env]
    by (simp add: demo_sent_def)
qed

text \<open>A closed connection stays closed and silent: no timer, datagram, read or write reopens it, sends a
  packet, or hands out data; reading and writing fail with \<open>ENOTCONN\<close>.\<close>

theorem closed_is_final:
  assumes "m_state s = TCP_CLOSED"
  shows "NotifyClock E now s = Some s \<and>
    Recv E n s = Some (-1, [], s\<lparr>m_error := ENOTCONN\<rparr>) \<and>
    Send E data s = Some (-1, s\<lparr>m_error := ENOTCONN\<rparr>) \<and>
    Connect E s = Some (-1, s\<lparr>m_error := EINVAL\<rparr>) \<and>
    (24 \<le> length b \<longrightarrow> (\<exists>s'. NotifyPacket E b s = Some (False, s') \<and> m_state s' = TCP_CLOSED \<and>
       w_events s' = w_events s))"
proof -
  have "\<exists>s'. process E seg s = Some (False, s') \<and> m_state s' = TCP_CLOSED \<and> w_events s' = w_events s" for seg
    using assms by (cases "seg_conv seg = m_conv s") (simp_all add: process_def Now_def Let_def)
  then have "24 \<le> length b \<longrightarrow> (\<exists>s'. NotifyPacket E b s = Some (False, s') \<and> m_state s' = TCP_CLOSED \<and>
       w_events s' = w_events s)"
    using assms by (auto simp: NotifyPacket_def parse_def HEADER_SIZE_def)
  then show ?thesis
    using assms by (simp add: NotifyClock_def Recv_def Send_def Connect_def)
qed

theorem closed_is_final_witness:
  "Send demo_env [1, 2] (closedown ECONNRESET demo_sent) =
     Some (-1, (closedown ECONNRESET demo_sent)\<lparr>m_error := ENOTCONN\<rparr>)"
  using closed_is_final [of "closedown ECONNRESET demo_sent" demo_env 0 0 "[1, 2]" "[]"] by simp

lemma parse_scale_option:
  "parse_options_loop (ByteBuffer_of [TCP_OPT_WND_SCALE, 1, k]) [] s =
     (False, [TCP_OPT_WND_SCALE], s\<lparr>m_swnd_scale := k\<rparr>)"
  by (subst parse_options_loop.simps)
    (simp add: ReadUInt8_def ReadBytes_def ByteBuffer_of_def Construct_def Length_def mem_read_def mem_write_def
      Consume_def Contents_def TCP_OPT_EOL_def TCP_OPT_NOOP_def TCP_OPT_WND_SCALE_def TCP_OPT_MSS_def applyOption_def
      applyWindowScaleOption_def parse_options_loop.simps)

lemma parse_no_options: "parse_options_loop (ByteBuffer_of []) [] s = (False, [], s)"
  by (subst parse_options_loop.simps)
    (simp add: ReadUInt8_def ReadBytes_def ByteBuffer_of_def Construct_def Length_def mem_read_def mem_write_def)

text \<open>The options in a connect message are understood by the peer: after parsing the message one endpoint sends,
  the other scales the window field by the factor the first announced; against a peer without window scaling it
  falls back to the unscaled default buffer.\<close>

theorem connect_options_understood:
  "parseOptions (tl (connect_bytes a)) b =
     (if m_support_wnd_scale a then b\<lparr>m_swnd_scale := m_rwnd_scale a\<rparr>
      else if m_rwnd_scale b > 0 then (resizeReceiveBuffer DEFAULT_RCV_BUF_SIZE b)\<lparr>m_swnd_scale := 0\<rparr>
      else b)"
  by (simp add: parseOptions_def connect_bytes_def parse_scale_option parse_no_options)

lemma sint_of_nat32: "n < 2 ^ 31 \<Longrightarrow> sint (word_of_nat n :: u32) = int n"
  by (simp add: signed_of_nat signed_take_bit_int_eq_self)

text \<open>\<^verbatim>\<open>Send\<close> on an established connection accepts as many bytes as the send buffer has room for, reports that
  number, and appends exactly those bytes to the outgoing stream.\<close>

theorem send_appends:
  assumes "sender_ok s" "mss_ok s" "m_state s = TCP_ESTABLISHED" "0 < GetWriteRemaining (m_sbuf s)"
    "length data < 2 ^ 31" "n = min (length data) (GetWriteRemaining (m_sbuf s))"
  shows "\<exists>s'. Send E data s = Some (int n, s') \<and> sender_ok s' \<and>
    fifo_contents (m_sbuf s') = fifo_contents (m_sbuf s) @ take n data"
proof -
  have "unat (word_of_nat (length data) :: u32) = length data" using assms(5) by (intro unat_of_nat_lt) simp
  then have n: "queue_len data s = n" using assms(6) by (simp add: queue_len_def)
  obtain l f where q: "queue data False s = (word_of_nat n, s\<lparr>m_slist := l, m_sbuf := f\<rparr>)"
    "sender_ok (s\<lparr>m_slist := l, m_sbuf := f\<rparr>)" "fifo_contents f = fifo_contents (m_sbuf s) @ take n data"
    by (rule queue_ok [OF assms(1), where bCtrl = False and data = data]) (auto simp: n)
  have "mss_ok (s\<lparr>m_slist := l, m_sbuf := f\<rparr>)" using assms(2) by (simp add: mss_ok_def)
  with q(2) obtain s' where s': "attemptSend E sfNone (s\<lparr>m_slist := l, m_sbuf := f\<rparr>) = Some s'"
    "sends E (s\<lparr>m_slist := l, m_sbuf := f\<rparr>) s'" by (rule attemptSend_ok)
  have "m_sbuf s' = f" using tx_restD(1) [OF sendsD(3) [OF s'(2)]] by simp
  moreover have "sint (word_of_nat n :: u32) = int n" using assms(5,6) by (intro sint_of_nat32) simp
  ultimately show ?thesis using assms(3,4) q s' sendsD(1) [OF s'(2)] by (simp add: Send_def)
qed

theorem send_appends_witness:
  "\<exists>s'. Send demo_env [1, 2, 3, 4, 5, 6] demo_sent = Some (4, s') \<and>
     fifo_contents (m_sbuf s') = [10, 11, 12, 13, 1, 2, 3, 4]"
proof -
  have ok: "sender_ok demo_sent" "mss_ok demo_sent" using demo_sent_inv by (simp_all add: tx_inv_def tx_core_def)
  have st: "m_state demo_sent = TCP_ESTABLISHED" "GetWriteRemaining (m_sbuf demo_sent) = 4"
    "fifo_contents (m_sbuf demo_sent) = [10, 11, 12, 13]"
    by (simp_all add: demo_sent_def GetWriteRemaining_def fifo_contents_def ring_at_def upt_rec)
  have "0 < GetWriteRemaining (m_sbuf demo_sent)" "length [1, 2, 3, 4, 5, 6 :: byte] < 2 ^ 31"
    "4 = min (length [1, 2, 3, 4, 5, 6 :: byte]) (GetWriteRemaining (m_sbuf demo_sent))"
    by (simp_all add: st(2))
  from send_appends [OF ok st(1) this, of demo_env] obtain s' where
    s': "Send demo_env [1, 2, 3, 4, 5, 6] demo_sent = Some (int 4, s')"
    "fifo_contents (m_sbuf s') = fifo_contents (m_sbuf demo_sent) @ take 4 [1, 2, 3, 4, 5, 6]"
    by blast
  from s'(2) have "fifo_contents (m_sbuf s') = [10, 11, 12, 13, 1, 2, 3, 4]" by (simp add: st(3))
  with s'(1) show ?thesis by simp
qed

end
