(* ===== verification/Base64.thy ===== *)
theory Base64
  imports Prelude
begin

text \<open>
  \<^verbatim>\<open>base/base64.cc\<close> and \<^verbatim>\<open>base/base64.h\<close>: the encoder and the decoder with its options. Characters are bytes. The decode
  flags are the integers of the header; the decoder returns its boolean, the decoded bytes and the number of
  characters used.
\<close>

section \<open>Tables\<close>

definition kPad :: byte where "kPad = 61"
definition pd :: u8 where "pd = 0xFD"
definition sp :: u8 where "sp = 0xFE"
definition il :: u8 where "il = 0xFF"

definition Base64Table :: "byte list" where
  "Base64Table = [
     65, 66, 67, 68, 69, 70, 71, 72, 73, 74, 75, 76, 77, 78, 79, 80, 81, 82, 83, 84, 85, 86, 87, 88, 89, 90,
     97, 98, 99, 100, 101, 102, 103, 104, 105, 106, 107, 108, 109, 110, 111, 112, 113, 114, 115, 116, 117, 118, 119,
     120, 121, 122, 48, 49, 50, 51, 52, 53, 54, 55, 56, 57, 43, 47]"

definition DecodeTable :: "u8 list" where
  "DecodeTable = [
     il, il, il, il, il, il, il, il, il, sp,
     sp, sp, sp, sp, il, il, il, il, il, il,
     il, il, il, il, il, il, il, il, il, il,
     il, il, sp, il, il, il, il, il, il, il,
     il, il, il, 62, il, il, il, 63, 52, 53,
     54, 55, 56, 57, 58, 59, 60, 61, il, il,
     il, pd, il, il, il, 0, 1, 2, 3, 4,
     5, 6, 7, 8, 9, 10, 11, 12, 13, 14,
     15, 16, 17, 18, 19, 20, 21, 22, 23, 24,
     25, il, il, il, il, il, il, 26, 27, 28,
     29, 30, 31, 32, 33, 34, 35, 36, 37, 38,
     39, 40, 41, 42, 43, 44, 45, 46, 47, 48,
     49, 50, 51, il, il, il, il, il, il, il] @
     replicate 126 il"

definition DO_PARSE_STRICT :: int where "DO_PARSE_STRICT = 1"
definition DO_PARSE_WHITE :: int where "DO_PARSE_WHITE = 2"
definition DO_PARSE_ANY :: int where "DO_PARSE_ANY = 3"
definition DO_PARSE_MASK :: int where "DO_PARSE_MASK = 3"
definition DO_PAD_YES :: int where "DO_PAD_YES = 4"
definition DO_PAD_ANY :: int where "DO_PAD_ANY = 8"
definition DO_PAD_NO :: int where "DO_PAD_NO = 12"
definition DO_PAD_MASK :: int where "DO_PAD_MASK = 12"
definition DO_TERM_BUFFER :: int where "DO_TERM_BUFFER = 16"
definition DO_TERM_CHAR :: int where "DO_TERM_CHAR = 32"
definition DO_TERM_ANY :: int where "DO_TERM_ANY = 48"
definition DO_TERM_MASK :: int where "DO_TERM_MASK = 48"
definition DO_STRICT :: int where "DO_STRICT = (DO_PARSE_STRICT OR DO_PAD_YES) OR DO_TERM_BUFFER"
definition DO_LAX :: int where "DO_LAX = (DO_PARSE_ANY OR DO_PAD_ANY) OR DO_TERM_CHAR"

lemmas decode_flags = DO_PARSE_STRICT_def DO_PARSE_WHITE_def DO_PARSE_ANY_def DO_PARSE_MASK_def DO_PAD_YES_def DO_PAD_ANY_def
  DO_PAD_NO_def DO_PAD_MASK_def DO_TERM_BUFFER_def DO_TERM_CHAR_def DO_TERM_ANY_def DO_TERM_MASK_def

section \<open>Characters\<close>

definition IsBase64Char :: "byte \<Rightarrow> bool" where
  "IsBase64Char ch \<longleftrightarrow>
     65 \<le> ch \<and> ch \<le> 90 \<or> 97 \<le> ch \<and> ch \<le> 122 \<or> 48 \<le> ch \<and> ch \<le> 57 \<or> ch = 43 \<or> ch = 47"

text \<open>\<^verbatim>\<open>strchr\<close> finds the NUL that ends the table; the character behind it is outside of the array, hence \<open>None\<close>.
  Otherwise the inner option is the boolean with \<^verbatim>\<open>next_ch\<close>.\<close>

fun position :: "byte \<Rightarrow> byte list \<Rightarrow> nat option" where
  "position ch [] = None"
| "position ch (x # xs) = (if x = ch then Some 0 else map_option Suc (position ch xs))"

definition GetNextBase64Char :: "byte \<Rightarrow> byte option option" where
  "GetNextBase64Char ch =
     (case position ch (Base64Table @ [0]) of
        None \<Rightarrow> Some None
      | Some p \<Rightarrow>
          (if p + 1 > length Base64Table then None
           else let q = (Base64Table @ [0]) ! (p + 1) in Some (Some (if q \<noteq> 0 then q else Base64Table ! 0))))"

definition IsBase64Encoded :: "byte list \<Rightarrow> bool" where
  "IsBase64Encoded str = list_all IsBase64Char str"

section \<open>Encoding\<close>

function encode_loop :: "byte list \<Rightarrow> nat \<Rightarrow> byte list \<Rightarrow> byte list" where
  "encode_loop byte_data i result =
     (if i < length byte_data then
        (let c = drop_bit 2 (byte_data ! i) AND 0x3F;
             result = result @ [Base64Table ! unat c];
             c = push_bit 4 (byte_data ! i) AND 0x3F;
             i = i + 1;
             c = (if i < length byte_data then c OR (drop_bit 4 (byte_data ! i) AND 0x0F) else c);
             result = result @ [Base64Table ! unat c];
             (i, result) =
               (if i < length byte_data then
                  (let c = push_bit 2 (byte_data ! i) AND 0x3F;
                       i = i + 1;
                       c = (if i < length byte_data then c OR (drop_bit 6 (byte_data ! i) AND 0x03) else c)
                   in (i, result @ [Base64Table ! unat c]))
                else (i, result @ [kPad]));
             (i, result) =
               (if i < length byte_data then
                  (let c = byte_data ! i AND 0x3F in (i + 1, result @ [Base64Table ! unat c]))
                else (i, result @ [kPad]))
         in encode_loop byte_data i result)
      else result)"
  by pat_completeness auto

termination
  by (relation "measure (\<lambda>(d, i, _). length d - i)") (auto simp: Let_def split: if_splits)

declare encode_loop.simps [simp del]

definition EncodeFromArray :: "byte list \<Rightarrow> byte list" where
  "EncodeFromArray data = encode_loop data 0 []"

definition Encode :: "byte list \<Rightarrow> byte list" where "Encode data = EncodeFromArray data"

section \<open>Decoding\<close>

text \<open>One turn of the loop of \<^verbatim>\<open>GetNextQuantum\<close> on its locals \<^verbatim>\<open>byte_len\<close>, \<^verbatim>\<open>pad_len\<close> and \<^verbatim>\<open>pad_start\<close>, for the
  table entry \<open>v\<close> of the character at \<open>dpos\<close>: \<open>None\<close> is the \<^verbatim>\<open>break\<close>.\<close>

definition quantum_step :: "int \<Rightarrow> bool \<Rightarrow> nat \<Rightarrow> u8 \<Rightarrow> nat \<times> nat \<times> nat \<Rightarrow> (nat \<times> nat \<times> nat) option" where
  "quantum_step parse_flags illegal_pads dpos v st =
     (case st of (byte_len, pad_len, pad_start) \<Rightarrow>
        if il = v \<or> illegal_pads \<and> pd = v then (if parse_flags \<noteq> DO_PARSE_ANY then None else Some st)
        else if sp = v then (if parse_flags = DO_PARSE_STRICT then None else Some st)
        else if pd = v then
          (if byte_len < 2 then (if parse_flags \<noteq> DO_PARSE_ANY then None else Some st)
           else if byte_len + pad_len \<ge> 4 then (if parse_flags \<noteq> DO_PARSE_ANY then None else Some st)
           else Some (byte_len, pad_len + 1, if 1 = pad_len + 1 then dpos else pad_start))
        else if pad_len > 0 then
          (if parse_flags \<noteq> DO_PARSE_ANY then None else Some (byte_len + 1, 0, pad_start))
        else Some (byte_len + 1, pad_len, pad_start))"

function quantum_loop ::
    "int \<Rightarrow> bool \<Rightarrow> byte list \<Rightarrow> nat \<times> nat \<times> nat \<Rightarrow> nat \<Rightarrow> u8 list \<Rightarrow> (nat \<times> nat \<times> nat) \<times> nat \<times> u8 list" where
  "quantum_loop parse_flags illegal_pads data st dpos qbuf =
     (if fst st < 4 \<and> dpos < length data then
        (let v = DecodeTable ! unat (data ! dpos);
             qbuf = qbuf[fst st := v]
         in case quantum_step parse_flags illegal_pads dpos v st of
              None \<Rightarrow> (st, dpos, qbuf)
            | Some st \<Rightarrow> quantum_loop parse_flags illegal_pads data st (dpos + 1) qbuf)
      else (st, dpos, qbuf))"
  by pat_completeness auto

termination
  by (relation "measure (\<lambda>(_, _, d, _, dpos, _). length d - dpos)") auto

declare quantum_loop.simps [simp del]

text \<open>The result: \<^verbatim>\<open>byte_len\<close>, the new position, the quantum and \<^verbatim>\<open>padded\<close>.\<close>

definition GetNextQuantum ::
    "int \<Rightarrow> bool \<Rightarrow> byte list \<Rightarrow> nat \<Rightarrow> u8 list \<Rightarrow> nat \<times> nat \<times> u8 list \<times> bool" where
  "GetNextQuantum parse_flags illegal_pads data dpos qbuf =
     (case quantum_loop parse_flags illegal_pads data (0, 0, 0) dpos qbuf of
        ((byte_len, pad_len, pad_start), dpos, qbuf) \<Rightarrow>
          (let qbuf = take byte_len qbuf @ replicate (4 - byte_len) 0
           in if 4 = byte_len + pad_len then (byte_len, dpos, qbuf, True)
              else (byte_len, if pad_len \<noteq> 0 then pad_start else dpos, qbuf, False)))"

lemma quantum_step_counts:
  "quantum_step pf ip dpos v (bl, pl, ps) = Some (bl', pl', ps') \<Longrightarrow> bl' = bl \<or> bl' = bl + 1 \<and> pl' = 0"
  by (auto simp: quantum_step_def split: if_splits)

lemma quantum_loop_progress:
  assumes "quantum_loop pf ip data (bl, pl, ps) dpos q = ((bl', pl', ps'), dpos', q')" "bl \<le> 4" "bl = 4 \<Longrightarrow> pl = 0"
  shows "dpos + (bl' - bl) \<le> dpos' \<and> bl \<le> bl' \<and> bl' \<le> 4 \<and> (bl' = 4 \<longrightarrow> pl' = 0)"
  using assms
proof (induction pf ip data "(bl, pl, ps)" dpos q arbitrary: bl pl ps rule: quantum_loop.induct)
  case (1 pf ip data dpos q)
  let ?v = "DecodeTable ! unat (data ! dpos)"
  show ?case
  proof (cases "bl < 4 \<and> dpos < length data")
    case False
    with "1.prems" show ?thesis by (auto simp: quantum_loop.simps)
  next
    case True
    show ?thesis
    proof (cases "quantum_step pf ip dpos ?v (bl, pl, ps)")
      case None
      with "1.prems" True show ?thesis by (subst (asm) quantum_loop.simps) simp
    next
      case (Some st)
      obtain bl2 pl2 ps2 where st: "st = (bl2, pl2, ps2)" by (cases st)
      have "quantum_loop pf ip data (bl2, pl2, ps2) (dpos + 1) (q[bl := ?v]) = ((bl', pl', ps'), dpos', q')"
        using "1.prems"(1) True Some st by (subst (asm) quantum_loop.simps) (simp add: Let_def)
      then show ?thesis using "1.hyps" [OF _ refl refl, of bl2 pl2 ps2] True Some st quantum_step_counts [of pf ip dpos ?v bl pl ps bl2 pl2 ps2]
        by auto
    qed
  qed
qed

lemma GetNextQuantum_progress:
  "GetNextQuantum pf ip data dpos q = (qlen, dpos', q', padded) \<Longrightarrow> 4 \<le> qlen \<Longrightarrow> dpos < dpos'"
  by (auto simp: GetNextQuantum_def Let_def split: prod.splits if_splits dest!: quantum_loop_progress)

function decode_loop ::
    "int \<Rightarrow> int \<Rightarrow> int \<Rightarrow> byte list \<Rightarrow> nat \<Rightarrow> u8 list \<Rightarrow> byte list \<Rightarrow> bool \<times> byte list \<times> nat" where
  "decode_loop parse_flags pad_flags term_flags data dpos qbuf result =
     (if dpos < length data then
        (case GetNextQuantum parse_flags (DO_PAD_NO = pad_flags) data dpos qbuf of
           (qlen, dpos, qbuf, padded) \<Rightarrow>
             (let c = push_bit 2 (qbuf ! 0) OR (drop_bit 4 (qbuf ! 1) AND 0x3);
                  (c, result) =
                    (if qlen \<ge> 2 then
                       (let result = result @ [c];
                            c = (push_bit 4 (qbuf ! 1) AND 0xF0) OR (drop_bit 2 (qbuf ! 2) AND 0xF)
                        in if qlen \<ge> 3 then
                             (let result = result @ [c];
                                  c = (push_bit 6 (qbuf ! 2) AND 0xC0) OR qbuf ! 3
                              in if qlen \<ge> 4 then (0, result @ [c]) else (c, result))
                           else (c, result))
                     else (c, result))
              in if qlen < 4
                 then (\<not> (DO_TERM_ANY \<noteq> term_flags \<and> 0 \<noteq> c) \<and> \<not> (DO_PAD_YES = pad_flags \<and> \<not> padded), result, dpos)
                 else decode_loop parse_flags pad_flags term_flags data dpos qbuf result))
      else (True, result, dpos))"
  by pat_completeness auto

termination
  by (relation "measure (\<lambda>(_, _, _, d, dpos, _). length d - dpos)")
    (auto dest!: GetNextQuantum_progress [OF sym])

declare decode_loop.simps [simp del]

definition DecodeFromArray :: "byte list \<Rightarrow> int \<Rightarrow> bool \<times> byte list \<times> nat" where
  "DecodeFromArray data flags =
     (let parse_flags = flags AND DO_PARSE_MASK;
          pad_flags = flags AND DO_PAD_MASK;
          term_flags = flags AND DO_TERM_MASK;
          (success, result, dpos) = decode_loop parse_flags pad_flags term_flags data 0 (replicate 4 0) []
      in (success \<and> \<not> (DO_TERM_BUFFER = term_flags \<and> dpos \<noteq> length data), result, dpos))"

definition Decode :: "byte list \<Rightarrow> int \<Rightarrow> byte list" where
  "Decode data flags = fst (snd (DecodeFromArray data flags))"

definition Decode_checked :: "byte list \<Rightarrow> int \<Rightarrow> bool \<times> byte list \<times> nat" where
  "Decode_checked data flags = DecodeFromArray data flags"

section \<open>The encoding of RFC 4648\<close>

fun rfc_base64 :: "byte list \<Rightarrow> byte list" where
  "rfc_base64 [] = []"
| "rfc_base64 [a] = [Base64Table ! (unat a div 4), Base64Table ! (unat a mod 4 * 16), 61, 61]"
| "rfc_base64 [a, b] =
     [Base64Table ! (unat a div 4), Base64Table ! (unat a mod 4 * 16 + unat b div 16), Base64Table ! (unat b mod 16 * 4), 61]"
| "rfc_base64 (a # b # c # rest) =
     [Base64Table ! (unat a div 4), Base64Table ! (unat a mod 4 * 16 + unat b div 16),
      Base64Table ! (unat b mod 16 * 4 + unat c div 64), Base64Table ! (unat c mod 64)] @ rfc_base64 rest"

lemma nat_or_add:
  assumes "b < 2 ^ k"
  shows "(x * 2 ^ k) OR b = x * 2 ^ k + (b :: nat)"
proof (rule disjunctive_add [symmetric])
  fix n
  have "b = take_bit k b" using assms by (simp add: take_bit_nat_eq_self)
  then have "bit b n \<Longrightarrow> n < k" by (metis bit_take_bit_iff)
  then show "\<not> bit (x * 2 ^ k) n \<or> \<not> bit b n" by (auto simp: bit_simps simp flip: push_bit_eq_mult)
qed

lemma byte_parts:
  "unat (drop_bit k a) = unat (a :: u8) div 2 ^ k" "unat (a AND mask n) = unat a mod 2 ^ n"
  "k < 8 \<Longrightarrow> unat (push_bit k a) = unat a mod 2 ^ (8 - k) * 2 ^ k"
proof -
  show "unat (drop_bit k a) = unat a div 2 ^ k" by (subst unat_drop_bit_eq) (rule drop_bit_eq_div)
  show "unat (a AND mask n) = unat a mod 2 ^ n" by (metis take_bit_eq_mask unsigned_take_bit_eq take_bit_eq_mod)
  assume "k < 8"
  then have "(256 :: nat) = 2 ^ (8 - k) * 2 ^ k" by (simp flip: power_add)
  moreover have "unat (push_bit k a) = unat a * 2 ^ k mod 256"
    by (subst unsigned_push_bit_eq) (simp add: push_bit_eq_mult take_bit_eq_mod)
  ultimately show "unat (push_bit k a) = unat a mod 2 ^ (8 - k) * 2 ^ k" by (simp only: mult_mod_left)
qed

lemma byte_masks: "(0x3F :: u8) = mask 6" "(0x0F :: u8) = mask 4" "(0x03 :: u8) = mask 2" "(0xF :: u8) = mask 4"
  by (simp_all add: mask_eq_exp_minus_1)

lemma sextets:
  "unat (drop_bit 2 a AND 0x3F) = unat (a :: u8) div 4" "unat (push_bit 4 a AND 0x3F) = unat a mod 4 * 16"
  "unat (push_bit 2 b AND 0x3F) = unat (b :: u8) mod 16 * 4" "unat (c AND 0x3F) = unat (c :: u8) mod 64"
  "unat ((push_bit 4 a AND 0x3F) OR (drop_bit 4 b AND 0x0F)) = unat a mod 4 * 16 + unat b div 16"
  "unat ((push_bit 2 b AND 0x3F) OR (drop_bit 6 c AND 0x03)) = unat b mod 16 * 4 + unat c div 64"
proof -
  have lt: "unat (x :: u8) < 256" for x using unat_lt [of x] by simp
  have h: "unat x div 4 < 64" "unat x div 16 < 16" "unat x div 64 < 4" for x :: u8 using lt [of x] by auto
  have m: "unat x mod 16 * 16 mod 64 = unat x mod 4 * 16" "unat x mod 64 * 4 mod 64 = unat x mod 16 * 4" for x :: u8
    using mod_mult_mult2 [of "unat x mod 16" 16 4] mod_mult_mult2 [of "unat x mod 64" 4 16] by (simp_all add: mod_mod_cancel)
  show "unat (drop_bit 2 a AND 0x3F) = unat a div 4" "unat (push_bit 4 a AND 0x3F) = unat a mod 4 * 16"
    "unat (push_bit 2 b AND 0x3F) = unat b mod 16 * 4" "unat (c AND 0x3F) = unat c mod 64"
    unfolding byte_masks byte_parts(1,2) using byte_parts(3) [of 4 a] byte_parts(3) [of 2 b] h m by simp_all
  then show "unat ((push_bit 4 a AND 0x3F) OR (drop_bit 4 b AND 0x0F)) = unat a mod 4 * 16 + unat b div 16"
    "unat ((push_bit 2 b AND 0x3F) OR (drop_bit 6 c AND 0x03)) = unat b mod 16 * 4 + unat c div 64"
    unfolding unsigned_or_eq using nat_or_add [of "unat b div 16" 4 "unat a mod 4"] nat_or_add [of "unat c div 64" 2 "unat b mod 16"] h
    by (simp_all add: byte_masks(2,3) byte_parts)
qed

lemma dropped_nth: "k < length (drop i xs) \<Longrightarrow> xs ! (i + k) = drop i xs ! k"
  by simp

lemma dropped_length: "drop i xs = y # ys \<Longrightarrow> length xs = i + length (y # ys)"
  by (metis append_take_drop_id drop_all length_append length_take list.distinct(1) min.absorb2 nle_le)

lemma encode_loop_rfc: "encode_loop data i result = result @ rfc_base64 (drop i data)"
proof (induction "length data - i" arbitrary: i result rule: less_induct)
  case less
  consider "length data \<le> i" | a where "drop i data = [a]" | a b where "drop i data = [a, b]"
    | a b c rest where "drop i data = a # b # c # rest"
    by (metis drop_eq_Nil rfc_base64.cases)
  then show ?case
  proof cases
    case 1
    then show ?thesis by (simp add: encode_loop.simps)
  next
    case (2 a)
    then have "length data = i + 1" "data ! i = a" using dropped_nth [of 0 i data] dropped_length [OF 2] by auto
    then show ?thesis
      by (subst encode_loop.simps) (simp add: 2 Let_def sextets(1,2) encode_loop.simps [of _ "Suc i"] kPad_def)
  next
    case (3 a b)
    then have "length data = i + 2" "data ! i = a" "data ! Suc i = b" using dropped_nth [of 0 i data] dropped_nth [of 1 i data] dropped_length [OF 3] by auto
    then show ?thesis
      by (subst encode_loop.simps) (simp add: 3 Let_def sextets(1,3,5) encode_loop.simps [of _ "Suc (Suc i)"] kPad_def)
  next
    case (4 a b c rest)
    then have d: "length data = i + 3 + length rest" "data ! i = a" "data ! Suc i = b" "data ! Suc (Suc i) = c"
      using dropped_nth [of 0 i data] dropped_nth [of 1 i data] dropped_nth [of 2 i data] dropped_length [OF 4] by (auto simp: numeral_2_eq_2)
    have rest: "drop (i + 3) data = rest" using arg_cong [OF 4, of "drop 3"] by (simp add: add.commute)
    have "encode_loop data i result =
        encode_loop data (i + 3) (result @ [Base64Table ! (unat a div 4), Base64Table ! (unat a mod 4 * 16 + unat b div 16),
          Base64Table ! (unat b mod 16 * 4 + unat c div 64), Base64Table ! (unat c mod 64)])"
      by (subst encode_loop.simps) (simp add: d Let_def sextets(1,5,6) sextets(4) [of c] numeral_3_eq_3)
    then show ?thesis using less [of "i + 3"] d(1) by (simp add: 4 rest)
  qed
qed

lemma Encode_rfc: "Encode data = rfc_base64 data"
  by (simp add: Encode_def EncodeFromArray_def encode_loop_rfc)

section \<open>Reading a quantum\<close>

text \<open>The characters of the alphabet are those that the table maps to a value below 64, and it maps each to its place.\<close>

lemma table_facts:
  "list_all (\<lambda>(n, ch). unat (DecodeTable ! unat ch) = n) (zip [0..<64] Base64Table)"
  "list_all (\<lambda>(ch, v). v = il \<or> v = sp \<or> v = pd \<and> ch = 61 \<or> v < 64 \<and> Base64Table ! unat v = ch)
     (zip (map word_of_nat [0..<256]) DecodeTable)"
  "length DecodeTable = 256" "length Base64Table = 64"
  by code_simp+

lemma decode_table:
  assumes "v < 64"
  shows "DecodeTable ! unat (Base64Table ! v) = word_of_nat v"
proof -
  have "(v, Base64Table ! v) \<in> set (zip [0..<64] Base64Table)" using assms by (auto simp: in_set_zip table_facts(4) intro!: exI [of _ v])
  then have "unat (DecodeTable ! unat (Base64Table ! v)) = v" using table_facts(1) unfolding list_all_iff by fastforce
  then show ?thesis by (metis of_nat_unat_id)
qed

lemma decode_pad: "DecodeTable ! 61 = pd"
  by (simp add: DecodeTable_def)

lemma table_cases:
  obtains "DecodeTable ! unat ch = il" | "DecodeTable ! unat ch = sp" | "DecodeTable ! unat ch = pd" "ch = kPad"
  | "DecodeTable ! unat ch < 64" "ch = Base64Table ! unat (DecodeTable ! unat ch)"
proof -
  have "unat ch < 256" using unat_lt [of ch] by simp
  then have "(ch, DecodeTable ! unat ch) \<in> set (zip (map word_of_nat [0..<256]) DecodeTable)"
    by (auto simp: in_set_zip table_facts(3) intro!: exI [of _ "unat ch"])
  with table_facts(2) have "let v = DecodeTable ! unat ch in v = il \<or> v = sp \<or> v = pd \<and> ch = 61 \<or> v < 64 \<and> Base64Table ! unat v = ch"
    unfolding list_all_iff Let_def by fast
  then show thesis using that by (auto simp: Let_def kPad_def)
qed

lemma marks: "il \<noteq> sp" "il \<noteq> pd" "sp \<noteq> pd" "v < 64 \<Longrightarrow> il \<noteq> v \<and> sp \<noteq> v \<and> pd \<noteq> v"
  by (auto simp: il_def sp_def pd_def)

lemma quantum_step_data: "v < 64 \<Longrightarrow> quantum_step pf ip dpos v (bl, 0, ps) = Some (bl + 1, 0, ps)"
  using marks(4) [of v] by (auto simp: quantum_step_def)

lemma quantum_step_pad:
  "2 \<le> bl \<Longrightarrow> bl + pl < 4 \<Longrightarrow> quantum_step pf False dpos pd (bl, pl, ps) = Some (bl, pl + 1, if pl = 0 then dpos else ps)"
  using marks by (auto simp: quantum_step_def)

lemma quantum_turn:
  assumes "bl < 4" "dpos < length data" "quantum_step pf ip dpos (DecodeTable ! unat (data ! dpos)) (bl, pl, ps) = Some st"
  shows "quantum_loop pf ip data (bl, pl, ps) dpos q = quantum_loop pf ip data st (dpos + 1) (q[bl := DecodeTable ! unat (data ! dpos)])"
  using assms by (subst quantum_loop.simps) (simp add: Let_def)

lemma quantum_data:
  assumes "bl < 4" "dpos < length data" "data ! dpos = Base64Table ! n" "n < 64"
  shows "quantum_loop pf ip data (bl, 0, ps) dpos q = quantum_loop pf ip data (bl + 1, 0, ps) (dpos + 1) (q[bl := word_of_nat n])"
proof -
  have "(word_of_nat n :: u8) < 64" using assms(4) by (simp add: word_less_nat_alt unat_of_nat_lt)
  then show ?thesis using quantum_turn [OF assms(1,2)] quantum_step_data by (simp add: assms(3) decode_table [OF assms(4)])
qed

lemma quantum_pad:
  assumes "2 \<le> bl" "bl + pl < 4" "dpos < length data" "data ! dpos = 61"
  shows "quantum_loop pf False data (bl, pl, ps) dpos q =
    quantum_loop pf False data (bl, pl + 1, if pl = 0 then dpos else ps) (dpos + 1) (q[bl := pd])"
  using quantum_turn [OF _ assms(3)] quantum_step_pad [OF assms(1,2)] assms by (simp add: decode_pad)

lemma quantum_stop: "\<not> (fst st < 4 \<and> dpos < length data) \<Longrightarrow> quantum_loop pf ip data st dpos q = (st, dpos, q)"
  by (subst quantum_loop.simps) auto

lemma list4: "length q = 4 \<Longrightarrow> \<exists>w x y z. q = [w, x, y, z]"
  by (simp add: list_of_length4)

lemma quantum_full:
  assumes "a < 64" "b < 64" "c < 64" "d < 64" "length q = 4"
  shows "GetNextQuantum pf ip (pre @ [Base64Table ! a, Base64Table ! b, Base64Table ! c, Base64Table ! d] @ rest) (length pre) q =
    (4, length pre + 4, map word_of_nat [a, b, c, d], True)"
  using assms list4 [OF assms(5)]
  by (auto simp: GetNextQuantum_def quantum_data nth_append quantum_stop)

lemma quantum_pad1:
  assumes "a < 64" "b < 64" "c < 64" "length q = 4"
  shows "GetNextQuantum pf False (pre @ [Base64Table ! a, Base64Table ! b, Base64Table ! c, 61]) (length pre) q =
    (3, length pre + 4, map word_of_nat [a, b, c] @ [0], True)"
  using assms list4 [OF assms(4)]
  by (auto simp: GetNextQuantum_def quantum_data quantum_pad nth_append quantum_stop)

lemma quantum_pad2:
  assumes "a < 64" "b < 64" "length q = 4"
  shows "GetNextQuantum pf False (pre @ [Base64Table ! a, Base64Table ! b, 61, 61]) (length pre) q =
    (2, length pre + 4, map word_of_nat [a, b] @ [0, 0], True)"
  using assms list4 [OF assms(3)]
  by (auto simp: GetNextQuantum_def quantum_data quantum_pad nth_append quantum_stop numeral_2_eq_2)

section \<open>Decoding what was encoded\<close>

lemma sextet_words:
  "word_of_nat (unat a div 4) = drop_bit 2 a AND 0x3F"
  "word_of_nat (unat a mod 4 * 16 + unat b div 16) = (push_bit 4 a AND 0x3F) OR (drop_bit 4 b AND 0x0F)"
  "word_of_nat (unat b mod 16 * 4 + unat c div 64) = (push_bit 2 b AND 0x3F) OR (drop_bit 6 c AND 0x03)"
  "word_of_nat (unat c mod 64) = (c AND 0x3F :: u8)"
  by (metis of_nat_unat_id sextets)+

lemma byte_eqI: "(\<And>n. n \<in> {0, 1, 2, 3, 4, 5, 6, 7} \<Longrightarrow> bit v n = bit w n) \<Longrightarrow> v = (w :: u8)"
proof (rule bit_word_eqI)
  fix n :: nat
  assume "\<And>n. n \<in> {0, 1, 2, 3, 4, 5, 6, 7} \<Longrightarrow> bit v n = bit w n" "n < LENGTH(8)"
  moreover from this(2) have "n \<in> {0, 1, 2, 3, 4, 5, 6, 7}" by auto
  ultimately show "bit v n = bit w n" by blast
qed

lemma high_masks: "(0xF0 :: u8) = push_bit 4 (mask 4)" "(0xC0 :: u8) = push_bit 6 (mask 2)" "(3 :: u8) = mask 2"
  by (simp_all add: mask_eq_exp_minus_1 push_bit_eq_mult)

lemma octets:
  "push_bit 2 (word_of_nat (unat a div 4)) OR (drop_bit 4 (word_of_nat (unat a mod 4 * 16 + unat b div 16)) AND 0x3) = (a :: u8)"
  "(push_bit 4 (word_of_nat (unat a mod 4 * 16 + unat b div 16)) AND 0xF0) OR
     (drop_bit 2 (word_of_nat (unat b mod 16 * 4 + unat c div 64)) AND 0xF) = (b :: u8)"
  "(push_bit 6 (word_of_nat (unat b mod 16 * 4 + unat c div 64)) AND 0xC0) OR word_of_nat (unat c mod 64) = (c :: u8)"
  unfolding sextet_words unfolding high_masks byte_masks
    apply (rule byte_eqI, elim insertE emptyE; simp add: bit_simps)
   apply (rule byte_eqI, elim insertE emptyE; simp add: bit_simps)
  apply (rule byte_eqI, elim insertE emptyE; simp add: bit_simps)
  done

lemma octets_padded:
  "push_bit 2 (word_of_nat (unat a div 4)) OR (drop_bit 4 (word_of_nat (unat a mod 4 * 16)) AND 0x3) = (a :: u8)"
  "(push_bit 4 (word_of_nat (unat a mod 4 * 16)) AND 0xF0 :: u8) = 0"
  "(push_bit 4 (word_of_nat (unat a mod 4 * 16 + unat b div 16)) AND 0xF0) OR (drop_bit 2 (word_of_nat (unat b mod 16 * 4)) AND 0xF) = (b :: u8)"
  "(push_bit 6 (word_of_nat (unat b mod 16 * 4)) AND 0xC0 :: u8) = 0"
  using octets(1) [of a 0] octets(2) [of a 0 0] octets(2) [of a b 0] octets(3) [of b 0] by (simp_all del: of_nat_mult of_nat_add)

lemma sextet_bounds:
  "unat (a :: u8) div 4 < 64" "unat a mod 4 * 16 < 64" "unat a mod 4 * 16 + unat (b :: u8) div 16 < 64" "unat b mod 16 * 4 < 64"
  "unat b mod 16 * 4 + unat (c :: u8) div 64 < 64" "unat c mod 64 < 64"
proof -
  have "unat x < 256" for x :: u8 using unat_lt [of x] by simp
  then have "unat a div 4 < 64" "unat b div 16 < 16" "unat c div 64 < 4" by (simp_all add: less_mult_imp_div_less)
  moreover have "unat a mod 4 < 4" "unat b mod 16 < 16" by simp_all
  ultimately show "unat a div 4 < 64" "unat a mod 4 * 16 < 64" "unat a mod 4 * 16 + unat b div 16 < 64" "unat b mod 16 * 4 < 64"
    "unat b mod 16 * 4 + unat c div 64 < 64" "unat c mod 64 < 64" by linarith+
qed

lemma decode_encoded:
  "pad \<noteq> DO_PAD_NO \<Longrightarrow> length q = 4 \<Longrightarrow>
   decode_loop pf pad tf (pre @ rfc_base64 data) (length pre) q result =
     (True, result @ data, length pre + length (rfc_base64 data))"
proof (induction data arbitrary: pre q result rule: rfc_base64.induct)
  case 1
  then show ?case by (simp add: decode_loop.simps)
next
  case (2 a)
  then show ?case
    using quantum_pad2 [OF sextet_bounds(1,2) "2.prems"(2), of pf pre a a] by (subst decode_loop.simps) (simp add: octets_padded del: of_nat_mult of_nat_add)
next
  case (3 a b)
  then show ?case
    using quantum_pad1 [OF sextet_bounds(1,3,4) "3.prems"(2), of pf pre a a b b] by (subst decode_loop.simps) (simp add: octets octets_padded del: of_nat_mult of_nat_add)
next
  case (4 a b c rest)
  define four where "four = [Base64Table ! (unat a div 4), Base64Table ! (unat a mod 4 * 16 + unat b div 16),
      Base64Table ! (unat b mod 16 * 4 + unat c div 64), Base64Table ! (unat c mod 64)]"
  define q2 :: "u8 list" where "q2 = map word_of_nat [unat a div 4, unat a mod 4 * 16 + unat b div 16,
      unat b mod 16 * 4 + unat c div 64, unat c mod 64]"
  have four: "rfc_base64 (a # b # c # rest) = four @ rfc_base64 rest" "length four = 4" "length q2 = 4"
    by (simp_all add: four_def q2_def)
  have "GetNextQuantum pf False (pre @ four @ rfc_base64 rest) (length pre) q = (4, length pre + 4, q2, True)"
    unfolding four_def q2_def by (rule quantum_full [OF sextet_bounds(1,3,5,6) "4.prems"(2)])
  then have "decode_loop pf pad tf (pre @ four @ rfc_base64 rest) (length pre) q result =
      decode_loop pf pad tf (pre @ four @ rfc_base64 rest) (length pre + 4) q2 (result @ [a, b, c])"
    using "4.prems"(1) four(2) by (subst decode_loop.simps) (simp add: q2_def octets del: of_nat_mult of_nat_add)
  then show ?case unfolding four(1)
    using "4.IH" [OF "4.prems"(1) four(3), of "pre @ four" "result @ [a, b, c]"] by (simp add: four(2))
qed

section \<open>What the strict decoder accepts\<close>

text \<open>The loop, started at \<open>s\<close>, has read \<open>byte_len\<close> characters of the alphabet and then \<open>pad_len\<close> pads.\<close>

definition quantum_at :: "byte list \<Rightarrow> nat \<Rightarrow> nat \<times> nat \<times> nat \<Rightarrow> nat \<Rightarrow> u8 list \<Rightarrow> bool" where
  "quantum_at data s st dpos q \<longleftrightarrow>
     (case st of (bl, pl, ps) \<Rightarrow>
        dpos = s + bl + pl \<and> dpos \<le> length data \<and> bl + pl \<le> 4 \<and> (0 < pl \<longrightarrow> 2 \<le> bl) \<and> length q = 4 \<and>
        (\<forall>i < bl. q ! i < 64 \<and> data ! (s + i) = Base64Table ! unat (q ! i)) \<and> (\<forall>i < pl. data ! (s + bl + i) = kPad))"

lemma strict_step:
  assumes "quantum_at data s (bl, pl, ps) dpos q" "bl < 4" "dpos < length data"
    "quantum_step DO_PARSE_STRICT False dpos v (bl, pl, ps) = Some st" "v = DecodeTable ! unat (data ! dpos)"
  shows "quantum_at data s st (dpos + 1) (q[bl := v])"
proof (cases rule: table_cases [of "data ! dpos"])
  case 1
  with assms show ?thesis by (simp add: quantum_step_def decode_flags)
next
  case 2
  with assms show ?thesis using marks by (simp add: quantum_step_def)
next
  case 3
  with assms(4,5) have "2 \<le> bl" "bl + pl < 4" "fst st = bl" "fst (snd st) = pl + 1"
    using marks by (auto simp: quantum_step_def decode_flags split: if_splits)
  with assms(1,3) 3 show ?thesis by (cases st) (auto simp: quantum_at_def less_Suc_eq)
next
  case 4
  with assms(4,5) have "pl = 0" "fst st = bl + 1" "fst (snd st) = 0"
    using marks(4) by (auto simp: quantum_step_def decode_flags split: if_splits)
  moreover have "v < 64" "Base64Table ! unat v = data ! dpos" using 4 assms(5) by simp_all
  ultimately show ?thesis using assms(1,2,3) by (cases st) (auto simp: quantum_at_def less_Suc_eq nth_list_update)
qed

lemma strict_loop:
  assumes "quantum_loop DO_PARSE_STRICT False data st dpos q = (st', dpos', q')" "quantum_at data s st dpos q"
  shows "quantum_at data s st' dpos' q'"
  using assms
proof (induction "DO_PARSE_STRICT" False data st dpos q rule: quantum_loop.induct)
  case (1 data st dpos q)
  obtain bl pl ps where st: "st = (bl, pl, ps)" by (cases st)
  let ?v = "DecodeTable ! unat (data ! dpos)"
  show ?case
  proof (cases "bl < 4 \<and> dpos < length data")
    case False
    with "1.prems" st show ?thesis by (simp add: quantum_stop)
  next
    case True
    show ?thesis
    proof (cases "quantum_step DO_PARSE_STRICT False dpos ?v st")
      case None
      then have "quantum_loop DO_PARSE_STRICT False data st dpos q = (st, dpos, q[bl := ?v])"
        using True st by (subst quantum_loop.simps) (simp add: Let_def)
      with "1.prems" show ?thesis by (auto simp: st quantum_at_def)
    next
      case (Some st2)
      then show ?thesis
        using "1.hyps" [OF _ refl refl Some] "1.prems" True st strict_step [of data s bl pl ps dpos q ?v st2]
          quantum_turn [of bl dpos data DO_PARSE_STRICT False pl ps st2 q] by simp
    qed
  qed
qed

lemma drop4: "s + 4 \<le> length xs \<Longrightarrow> drop s xs = [xs ! s, xs ! (s + 1), xs ! (s + 2), xs ! (s + 3)] @ drop (s + 4) xs"
  using Cons_nth_drop_Suc [of s xs] Cons_nth_drop_Suc [of "s + 1" xs] Cons_nth_drop_Suc [of "s + 2" xs] Cons_nth_drop_Suc [of "s + 3" xs]
  by (simp add: eval_nat_numeral)

lemma strict_quantum:
  assumes "GetNextQuantum DO_PARSE_STRICT False data s q = (qlen, dpos, q', padded)" "length q = 4" "s \<le> length data"
    "qlen = 4 \<or> padded"
  obtains a b c d where "q' = [a, b, c, d]" "a < 64" "b < 64" "dpos = s + 4" "dpos \<le> length data"
    "drop s data = [Base64Table ! unat a, Base64Table ! unat b, if qlen < 3 then kPad else Base64Table ! unat c,
      if qlen < 4 then kPad else Base64Table ! unat d] @ drop dpos data"
    "if qlen < 3 then c = 0 else c < 64" "if qlen < 4 then d = 0 else d < 64" "2 \<le> qlen" "qlen \<le> 4"
proof -
  obtain bl pl ps dp qb where l: "quantum_loop DO_PARSE_STRICT False data (0, 0, 0) s q = ((bl, pl, ps), dp, qb)"
    by (cases "quantum_loop DO_PARSE_STRICT False data (0, 0, 0) s q") auto
  have at: "quantum_at data s (bl, pl, ps) dp qb"
    using strict_loop [OF l] assms(2,3) by (simp add: quantum_at_def)
  have bl: "bl \<le> 4 \<and> (bl = 4 \<longrightarrow> pl = 0)" using quantum_loop_progress [OF l] by simp
  have g: "qlen = bl" "bl + pl = 4" "dpos = dp" "q' = take bl qb @ replicate (4 - bl) 0"
    using assms(1,4) bl by (auto simp: GetNextQuantum_def l Let_def split: if_splits)
  obtain w x y z where qb: "qb = [w, x, y, z]" using at list4 [of qb] by (auto simp: quantum_at_def)
  have d: "drop s data = [data ! s, data ! (s + 1), data ! (s + 2), data ! (s + 3)] @ drop (s + 4) data"
    using at g(2) by (intro drop4) (simp add: quantum_at_def)
  have bp: "bl = 4 \<and> pl = 0 \<or> bl = 3 \<and> pl = 1 \<or> bl = 2 \<and> pl = 2" using bl g(2) at by (auto simp: quantum_at_def)
  have P: "i < bl \<Longrightarrow> qb ! i < 64 \<and> data ! (s + i) = Base64Table ! unat (qb ! i)" "i < pl \<Longrightarrow> data ! (s + bl + i) = kPad" for i
    using at by (simp_all add: quantum_at_def)
  have dp: "dp = s + 4" "dp \<le> length data" using at g(2) by (simp_all add: quantum_at_def)
  from bp consider "bl = 4" "pl = 0" | "bl = 3" "pl = 1" | "bl = 2" "pl = 2" by blast
  then show thesis
  proof cases
    case 1
    then show thesis using that [of w x y z] g d dp P(1) [of 0] P(1) [of 1] P(1) [of 2] P(1) [of 3] by (simp add: qb)
  next
    case 2
    then show thesis using that [of w x y 0] g d dp P(1) [of 0] P(1) [of 1] P(1) [of 2] P(2) [of 0] by (simp add: qb)
  next
    case 3
    then show thesis using that [of w x 0 0] g d dp P(1) [of 0] P(1) [of 1] P(2) [of 0] P(2) [of 1]
      by (simp add: qb numeral_2_eq_2 numeral_3_eq_3)
  qed
qed

lemma small_bits: "v < 64 \<Longrightarrow> \<not> bit v 6 \<and> \<not> bit (v :: u8) 7"
proof -
  assume "v < 64"
  then have "unat v < 2 ^ 6" by (simp add: word_less_nat_alt)
  then have "unat (take_bit 6 v) = unat v" by (simp only: unsigned_take_bit_eq take_bit_nat_eq_self)
  then have "take_bit 6 v = v" by (simp only: word_unat_eq_iff)
  then have "bit v n \<longleftrightarrow> n < 6 \<and> bit v n" for n by (metis bit_take_bit_iff)
  from this [of 6] this [of 7] show ?thesis by simp
qed

lemma sextets_back:
  fixes v0 v1 v2 v3 :: u8
  assumes "v0 < 64" "v1 < 64" "v2 < 64" "v3 < 64"
  defines "a \<equiv> push_bit 2 v0 OR (drop_bit 4 v1 AND 0x3)"
    and "b \<equiv> (push_bit 4 v1 AND 0xF0) OR (drop_bit 2 v2 AND 0xF)"
    and "c \<equiv> (push_bit 6 v2 AND 0xC0) OR v3"
  shows "unat a div 4 = unat v0" "unat a mod 4 * 16 + unat b div 16 = unat v1" "unat b mod 16 * 4 + unat c div 64 = unat v2"
    "unat c mod 64 = unat v3"
proof -
  note bits = small_bits [OF assms(1)] small_bits [OF assms(2)] small_bits [OF assms(3)] small_bits [OF assms(4)]
  have "drop_bit 2 a AND 0x3F = v0" unfolding a_def high_masks byte_masks
    by (rule byte_eqI, elim insertE emptyE; simp add: bit_simps bits)
  moreover have "(push_bit 4 a AND 0x3F) OR (drop_bit 4 b AND 0x0F) = v1" unfolding a_def b_def high_masks byte_masks
    by (rule byte_eqI, elim insertE emptyE; simp add: bit_simps bits)
  moreover have "(push_bit 2 b AND 0x3F) OR (drop_bit 6 c AND 0x03) = v2" unfolding b_def c_def high_masks byte_masks
    by (rule byte_eqI, elim insertE emptyE; simp add: bit_simps bits)
  moreover have "c AND 0x3F = v3" unfolding c_def high_masks byte_masks
    by (rule byte_eqI, elim insertE emptyE; simp add: bit_simps bits)
  ultimately show "unat a div 4 = unat v0" "unat a mod 4 * 16 + unat b div 16 = unat v1"
    "unat b mod 16 * 4 + unat c div 64 = unat v2" "unat c mod 64 = unat v3"
    using sextets(1) [of a] sextets(5) [of a b] sextets(6) [of b c] sextets(4) [of c] by simp_all
qed

lemma decode_strict:
  assumes "decode_loop DO_PARSE_STRICT DO_PAD_YES DO_TERM_BUFFER data s q result = (True, r, length data)"
    "length q = 4" "s \<le> length data"
  shows "\<exists>d. r = result @ d \<and> drop s data = rfc_base64 d"
  using assms
proof (induction "length data - s" arbitrary: s q result rule: less_induct)
  case less
  show ?case
  proof (cases "s < length data")
    case False
    then show ?thesis using less.prems by (simp add: decode_loop.simps)
  next
    case True
    obtain qlen dpos q' padded where g: "GetNextQuantum DO_PARSE_STRICT False data s q = (qlen, dpos, q', padded)"
      by (cases "GetNextQuantum DO_PARSE_STRICT False data s q") auto
    have fl: "DO_PAD_NO \<noteq> DO_PAD_YES" "DO_TERM_ANY \<noteq> DO_TERM_BUFFER" by (simp_all add: decode_flags)
    have "qlen = 4 \<or> padded"
    proof (rule ccontr)
      assume "\<not> ?thesis"
      moreover from this g have "\<not> 4 \<le> qlen"
        using quantum_loop_progress [of DO_PARSE_STRICT False data 0 0 0 s q]
        by (auto simp: GetNextQuantum_def Let_def split: prod.splits if_splits)
      ultimately show False using less.prems(1) True g fl by (subst (asm) decode_loop.simps) (auto simp: Let_def split: if_splits)
    qed
    then obtain v0 v1 v2 v3 where v: "q' = [v0, v1, v2, v3]" "v0 < 64" "v1 < 64" "dpos = s + 4" "dpos \<le> length data"
      "drop s data = [Base64Table ! unat v0, Base64Table ! unat v1, if qlen < 3 then kPad else Base64Table ! unat v2,
        if qlen < 4 then kPad else Base64Table ! unat v3] @ drop dpos data"
      "if qlen < 3 then v2 = 0 else v2 < 64" "if qlen < 4 then v3 = 0 else v3 < 64" "2 \<le> qlen" "qlen \<le> 4"
      using strict_quantum [OF g less.prems(2,3)] by metis
    define a where "a = push_bit 2 v0 OR (drop_bit 4 v1 AND 0x3)"
    define b where "b = (push_bit 4 v1 AND 0xF0) OR (drop_bit 2 v2 AND 0xF)"
    define c where "c = (push_bit 6 v2 AND 0xC0) OR v3"
    have v23: "v2 < 64" "v3 < 64" using v(7,8) by (auto split: if_splits)
    note sx = sextets_back [OF v(2,3) v23, folded a_def b_def c_def]
    from v(9,10) consider "qlen = 4" | "qlen = 3" | "qlen = 2" by linarith
    then show ?thesis
    proof cases
      case 1
      then have "decode_loop DO_PARSE_STRICT DO_PAD_YES DO_TERM_BUFFER data (s + 4) q' (result @ [a, b, c]) = (True, r, length data)"
        using less.prems(1) True g fl v(1,4) by (subst (asm) decode_loop.simps) (simp add: a_def b_def c_def)
      moreover have "length data - (s + 4) < length data - s" "length q' = 4" "s + 4 \<le> length data" using True v by simp_all
      ultimately obtain d where d: "r = (result @ [a, b, c]) @ d" "drop (s + 4) data = rfc_base64 d" using less.hyps by blast
      then have "r = result @ (a # b # c # d) \<and> drop s data = rfc_base64 (a # b # c # d)" using v(4,6) 1 sx by simp
      then show ?thesis by blast
    next
      case 2
      then have "r = result @ [a, b]" "c = 0" "dpos = length data"
        using less.prems(1) True g fl v(1,4) by (subst (asm) decode_loop.simps; simp add: a_def b_def c_def split: if_splits)+
      then have "r = result @ [a, b] \<and> drop s data = rfc_base64 [a, b]" using v(6,8) 2 sx by (simp add: kPad_def)
      then show ?thesis by blast
    next
      case 3
      then have "r = result @ [a]" "b = 0" "dpos = length data"
        using less.prems(1) True g fl v(1,4) by (subst (asm) decode_loop.simps; simp add: a_def b_def split: if_splits)+
      then have "r = result @ [a] \<and> drop s data = rfc_base64 [a]" using v(6,7,8) 3 sx by (simp add: kPad_def)
      then show ?thesis by blast
    qed
  qed
qed

section \<open>Properties\<close>

text \<open>Decoding inverts encoding. Under every combination of flags that does not forbid padding, the decoder accepts
  the encoding of any bytes, uses all of its characters and gives the bytes back; the encoding is that of RFC 4648.\<close>

theorem base64_roundtrip:
  assumes "flags AND DO_PAD_MASK \<noteq> DO_PAD_NO"
  shows "DecodeFromArray (Encode data) flags = (True, data, length (Encode data)) \<and> Encode data = rfc_base64 data \<and>
    length (Encode data) = (length data + 2) div 3 * 4"
proof -
  have "length (rfc_base64 data) = (length data + 2) div 3 * 4"
  proof (induction data rule: rfc_base64.induct)
    case (4 a b c rest)
    then show ?case using div_add_self1 [of 3 "length rest + 2"] by (simp add: add.commute)
  qed simp_all
  then show ?thesis using decode_encoded [OF assms, of "replicate 4 0" _ _ "[]" data "[]"]
    by (simp add: DecodeFromArray_def Encode_rfc)
qed

theorem base64_roundtrip_witness:
  "DecodeFromArray (Encode [0, 255, 7, 9]) DO_LAX = (True, [0, 255, 7, 9], 8)"
proof -
  have "DO_LAX AND DO_PAD_MASK \<noteq> DO_PAD_NO" by (simp add: DO_LAX_def decode_flags)
  note r = base64_roundtrip [OF this, of "[0, 255, 7, 9]"]
  have "length (Encode [0, 255, 7, 9]) = 8" using conjunct2 [OF conjunct2 [OF r]] by simp
  then show ?thesis by (simp only: conjunct1 [OF r])
qed

text \<open>C31: the strict decoder accepts exactly the encodings. A string is accepted with the strict flags if and only if it is
  the encoding of some bytes, which are then its result: no other spelling (white space, missing or extra padding,
  bits left over, characters behind the padding) is let through.\<close>

theorem base64_strict: "(\<exists>used. DecodeFromArray s DO_STRICT = (True, data, used)) \<longleftrightarrow> s = Encode data"
proof -
  have fl: "DO_STRICT AND DO_PARSE_MASK = DO_PARSE_STRICT" "DO_STRICT AND DO_PAD_MASK = DO_PAD_YES"
    "DO_STRICT AND DO_TERM_MASK = DO_TERM_BUFFER" "DO_PAD_YES \<noteq> DO_PAD_NO"
    by (simp_all add: DO_STRICT_def decode_flags)
  show ?thesis
  proof
    assume "\<exists>used. DecodeFromArray s DO_STRICT = (True, data, used)"
    then have "decode_loop DO_PARSE_STRICT DO_PAD_YES DO_TERM_BUFFER s 0 (replicate 4 0) [] = (True, data, length s)"
      by (auto simp: DecodeFromArray_def fl split: prod.splits)
    from decode_strict [OF this] show "s = Encode data" by (simp add: Encode_rfc)
  next
    assume "s = Encode data"
    then show "\<exists>used. DecodeFromArray s DO_STRICT = (True, data, used)"
      using decode_encoded [OF fl(4), of "replicate 4 0" DO_PARSE_STRICT DO_TERM_BUFFER "[]" data "[]"]
      by (auto simp: DecodeFromArray_def fl Encode_rfc)
  qed
qed

end
