(* ===== verification/Rtp_Utils.thy ===== *)
theory Rtp_Utils
  imports Byte_Order
begin

text \<open>
  \<^verbatim>\<open>media/base/rtputils.cc\<close>: access to the headers of RTP and RTCP packets. A packet is the block of \<^verbatim>\<open>len\<close> bytes that
  \<^verbatim>\<open>data\<close> points to (never null). A read or write outside of the block is \<open>None\<close>; inside, the getters give \<open>Some None\<close>
  where the code returns false and \<open>Some (Some v)\<close> for true with the value \<open>v\<close>, the setters the boolean and the changed
  block.
\<close>

definition kRtpVersion :: int where "kRtpVersion = 2"
definition kRtpFlagsOffset :: nat where "kRtpFlagsOffset = 0"
definition kRtpPayloadTypeOffset :: nat where "kRtpPayloadTypeOffset = 1"
definition kRtpSeqNumOffset :: nat where "kRtpSeqNumOffset = 2"
definition kRtpTimestampOffset :: nat where "kRtpTimestampOffset = 4"
definition kRtpSsrcOffset :: nat where "kRtpSsrcOffset = 8"
definition kRtcpPayloadTypeOffset :: nat where "kRtcpPayloadTypeOffset = 1"
definition kMinRtpPacketLen :: nat where "kMinRtpPacketLen = 12"
definition kMinRtcpPacketLen :: nat where "kMinRtcpPacketLen = 4"
definition kRtcpTypeSDES :: int where "kRtcpTypeSDES = 202"

lemmas rtp_consts = kRtpVersion_def kRtpFlagsOffset_def kRtpPayloadTypeOffset_def kRtpSeqNumOffset_def kRtpTimestampOffset_def
  kRtpSsrcOffset_def kRtcpPayloadTypeOffset_def kMinRtpPacketLen_def kMinRtcpPacketLen_def kRtcpTypeSDES_def

record RtpHeader =
  payload_type :: int
  seq_num :: int
  timestamp :: u32
  ssrc :: u32

section \<open>Fields at an offset\<close>

definition GetUint8 :: "byte list \<Rightarrow> nat \<Rightarrow> int option" where
  "GetUint8 data offset = (if offset < length data then Some (uint (data ! offset)) else None)"

definition GetUint16 :: "byte list \<Rightarrow> nat \<Rightarrow> int option" where
  "GetUint16 data offset = (if offset + 2 \<le> length data then Some (uint (GetBE16 (mem_read data offset 2))) else None)"

definition GetUint32 :: "byte list \<Rightarrow> nat \<Rightarrow> u32 option" where
  "GetUint32 data offset = (if offset + 4 \<le> length data then Some (GetBE32 (mem_read data offset 4)) else None)"

definition SetUint8 :: "byte list \<Rightarrow> nat \<Rightarrow> int \<Rightarrow> byte list option" where
  "SetUint8 data offset v = (if offset < length data then Some (Set8 data offset (word_of_int v)) else None)"

definition SetUint16 :: "byte list \<Rightarrow> nat \<Rightarrow> int \<Rightarrow> byte list option" where
  "SetUint16 data offset v =
     (if offset + 2 \<le> length data
      then Some (mem_write data offset (SetBE16 (mem_read data offset 2) (word_of_int v))) else None)"

definition SetUint32 :: "byte list \<Rightarrow> nat \<Rightarrow> u32 \<Rightarrow> byte list option" where
  "SetUint32 data offset v =
     (if offset + 4 \<le> length data then Some (mem_write data offset (SetBE32 (mem_read data offset 4) v)) else None)"

section \<open>Reading headers\<close>

definition GetRtpFlags :: "byte list \<Rightarrow> int option option" where
  "GetRtpFlags data =
     (if length data < kMinRtpPacketLen then Some None else map_option Some (GetUint8 data kRtpFlagsOffset))"

definition GetRtpPayloadType :: "byte list \<Rightarrow> int option option" where
  "GetRtpPayloadType data =
     (if length data < kMinRtpPacketLen then Some None
      else map_option (\<lambda>v. Some (v AND 0x7F)) (GetUint8 data kRtpPayloadTypeOffset))"

definition GetRtpSeqNum :: "byte list \<Rightarrow> int option option" where
  "GetRtpSeqNum data =
     (if length data < kMinRtpPacketLen then Some None else map_option Some (GetUint16 data kRtpSeqNumOffset))"

definition GetRtpTimestamp :: "byte list \<Rightarrow> u32 option option" where
  "GetRtpTimestamp data =
     (if length data < kMinRtpPacketLen then Some None else map_option Some (GetUint32 data kRtpTimestampOffset))"

definition GetRtpSsrc :: "byte list \<Rightarrow> u32 option option" where
  "GetRtpSsrc data =
     (if length data < kMinRtpPacketLen then Some None else map_option Some (GetUint32 data kRtpSsrcOffset))"

definition GetRtpHeaderLen :: "byte list \<Rightarrow> nat option option" where
  "GetRtpHeaderLen data =
     (if length data < kMinRtpPacketLen then Some None
      else let first = data ! 0;
               header_size = kMinRtpPacketLen + unat (first AND 0xF) * 4
           in if length data < header_size then Some None
              else if first AND 0x10 \<noteq> 0 then
                (if length data < header_size + 4 then Some None
                 else case GetUint16 data (header_size + 2) of
                        None \<Rightarrow> None
                      | Some ext \<Rightarrow>
                          (let header_size = header_size + (nat ext + 1) * 4
                           in if length data < header_size then Some None else Some (Some header_size)))
              else Some (Some header_size))"

definition GetRtpVersion :: "byte list \<Rightarrow> int option" where
  "GetRtpVersion data = (if length data = 0 then None else Some (uint (drop_bit 6 (data ! 0) AND 0x3)))"

definition GetRtpHeader :: "byte list \<Rightarrow> RtpHeader option option" where
  "GetRtpHeader data =
     (case GetRtpPayloadType data of None \<Rightarrow> None | Some None \<Rightarrow> Some None
      | Some (Some pt) \<Rightarrow> (case GetRtpSeqNum data of None \<Rightarrow> None | Some None \<Rightarrow> Some None
      | Some (Some sn) \<Rightarrow> (case GetRtpTimestamp data of None \<Rightarrow> None | Some None \<Rightarrow> Some None
      | Some (Some ts) \<Rightarrow> (case GetRtpSsrc data of None \<Rightarrow> None | Some None \<Rightarrow> Some None
      | Some (Some s) \<Rightarrow> Some (Some \<lparr>payload_type = pt, seq_num = sn, timestamp = ts, ssrc = s\<rparr>)))))"

definition GetRtcpType :: "byte list \<Rightarrow> int option option" where
  "GetRtcpType data =
     (if length data < kMinRtcpPacketLen then Some None else map_option Some (GetUint8 data kRtcpPayloadTypeOffset))"

definition GetRtcpSsrc :: "byte list \<Rightarrow> u32 option option" where
  "GetRtcpSsrc data =
     (if length data < kMinRtcpPacketLen + 4 then Some None
      else case GetRtcpType data of
             None \<Rightarrow> None
           | Some None \<Rightarrow> Some None
           | Some (Some pl_type) \<Rightarrow>
               (if pl_type = kRtcpTypeSDES then Some None else map_option Some (GetUint32 data 4)))"

section \<open>Writing headers\<close>

definition SetRtpHeaderFlags :: "byte list \<Rightarrow> bool \<Rightarrow> bool \<Rightarrow> int \<Rightarrow> (bool \<times> byte list) option" where
  "SetRtpHeaderFlags data padding extension csrc_count =
     (if csrc_count > 0x0F then Some (False, data)
      else let flags = push_bit 6 kRtpVersion;
               flags = flags OR push_bit 5 (if padding then 1 else 0);
               flags = flags OR push_bit 4 (if extension then 1 else 0);
               flags = flags OR csrc_count
           in map_option (Pair True) (SetUint8 data kRtpFlagsOffset flags))"

definition SetRtpPayloadType :: "byte list \<Rightarrow> int \<Rightarrow> (bool \<times> byte list) option" where
  "SetRtpPayloadType data v =
     (if v \<ge> 0x7F then Some (False, data) else map_option (Pair True) (SetUint8 data kRtpPayloadTypeOffset (v AND 0x7F)))"

definition SetRtpSeqNum :: "byte list \<Rightarrow> int \<Rightarrow> (bool \<times> byte list) option" where
  "SetRtpSeqNum data v = map_option (Pair True) (SetUint16 data kRtpSeqNumOffset v)"

definition SetRtpTimestamp :: "byte list \<Rightarrow> u32 \<Rightarrow> (bool \<times> byte list) option" where
  "SetRtpTimestamp data v = map_option (Pair True) (SetUint32 data kRtpTimestampOffset v)"

definition SetRtpSsrc :: "byte list \<Rightarrow> u32 \<Rightarrow> (bool \<times> byte list) option" where
  "SetRtpSsrc data v = map_option (Pair True) (SetUint32 data kRtpSsrcOffset v)"

definition and_then ::
    "(bool \<times> byte list) option \<Rightarrow> (byte list \<Rightarrow> (bool \<times> byte list) option) \<Rightarrow> (bool \<times> byte list) option" where
  "and_then r k = (case r of None \<Rightarrow> None | Some (ok, data) \<Rightarrow> if ok then k data else Some (False, data))"

definition SetRtpHeader :: "byte list \<Rightarrow> RtpHeader \<Rightarrow> (bool \<times> byte list) option" where
  "SetRtpHeader data header =
     and_then (SetRtpHeaderFlags data False False 0) (\<lambda>data.
     and_then (SetRtpPayloadType data (payload_type header)) (\<lambda>data.
     and_then (SetRtpSeqNum data (seq_num header)) (\<lambda>data.
     and_then (SetRtpTimestamp data (timestamp header)) (\<lambda>data.
     SetRtpSsrc data (ssrc header)))))"

section \<open>The bytes of a header\<close>

lemma list_of_length12: "length m = 12 \<Longrightarrow> \<exists>a b c d e f g h i j k l. m = [a, b, c, d, e, f, g, h, i, j, k, l]"
  by (auto simp: numeral_eq_Suc length_Suc_conv)

lemma twelve_bytes:
  assumes "12 \<le> length data"
  obtains a b c d e f g h i j k l where "data = [a, b, c, d, e, f, g, h, i, j, k, l] @ drop 12 data"
proof -
  have "length (take 12 data) = 12" using assms by simp
  from list_of_length12 [OF this] obtain a b c d e f g h i j k l where "take 12 data = [a, b, c, d, e, f, g, h, i, j, k, l]" by blast
  then show thesis using that append_take_drop_id [of 12 data] by metis
qed

lemma SetRtpHeader_bytes:
  assumes "12 \<le> length data" "payload_type hdr < 0x7F"
  shows "SetRtpHeader data hdr =
    Some (True, [0x80, word_of_int (payload_type hdr AND 0x7F)] @ be16 (word_of_int (seq_num hdr)) @ be32 (timestamp hdr) @
      be32 (ssrc hdr) @ drop 12 data)"
proof -
  obtain a b c d e f g h i j k l rest where d: "data = [a, b, c, d, e, f, g, h, i, j, k, l] @ rest"
    using twelve_bytes [OF assms(1)] by metis
  show ?thesis unfolding d using assms(2)
    by (simp add: SetRtpHeader_def and_then_def SetRtpHeaderFlags_def SetRtpPayloadType_def SetRtpSeqNum_def SetRtpTimestamp_def
        SetRtpSsrc_def SetUint8_def SetUint16_def SetUint32_def rtp_consts Set8_def SetBE_bytes mem_read_def mem_write_def)
qed

section \<open>Properties\<close>

text \<open>A header written by \<^verbatim>\<open>SetRtpHeader\<close> is read back. For a packet of at least twelve bytes, a payload type below
  127 and a sequence number of 16 bits, writing succeeds without touching what is behind the header, and the written
  packet has exactly this header, version 2 and a header length of twelve bytes.\<close>

theorem rtp_header_roundtrip:
  assumes "12 \<le> length data" "0 \<le> payload_type hdr" "payload_type hdr < 127" "0 \<le> seq_num hdr" "seq_num hdr < 65536"
  shows "\<exists>data'. SetRtpHeader data hdr = Some (True, data') \<and> GetRtpHeader data' = Some (Some hdr) \<and>
    GetRtpVersion data' = Some 2 \<and> GetRtpHeaderLen data' = Some (Some 12) \<and> length data' = length data \<and> drop 12 data' = drop 12 data"
proof -
  have pt: "payload_type hdr AND 0x7F = payload_type hdr"
    using assms(2,3) take_bit_eq_mask [of 7 "payload_type hdr"] take_bit_int_eq_self [of "payload_type hdr" 7] by (simp add: mask_eq_exp_minus_1)
  have u: "uint (word_of_int (payload_type hdr) :: byte) = payload_type hdr" "uint (word_of_int (seq_num hdr) :: u16) = seq_num hdr"
    using assms by (simp_all add: unsigned_of_int take_bit_int_eq_self)
  let ?d = "[0x80, word_of_int (payload_type hdr)] @ be16 (word_of_int (seq_num hdr)) @ be32 (timestamp hdr) @ be32 (ssrc hdr) @ drop 12 data"
  have "SetRtpHeader data hdr = Some (True, ?d)" using SetRtpHeader_bytes [OF assms(1)] assms(3) by (simp add: pt)
  moreover have "GetRtpHeader ?d = Some (Some hdr)"
    by (simp add: GetRtpHeader_def GetRtpPayloadType_def GetRtpSeqNum_def GetRtpTimestamp_def GetRtpSsrc_def
        GetUint8_def GetUint16_def GetUint32_def rtp_consts mem_read_def u pt)
  moreover have "GetRtpVersion ?d = Some 2" "GetRtpHeaderLen ?d = Some (Some 12)"
    by (simp_all add: GetRtpVersion_def GetRtpHeaderLen_def rtp_consts)
  moreover have "length ?d = length data" "drop 12 ?d = drop 12 data" using assms(1) by simp_all
  ultimately show ?thesis by blast
qed

theorem rtp_header_roundtrip_witness:
  "\<exists>data'. SetRtpHeader (replicate 14 1) \<lparr>payload_type = 96, seq_num = 65535, timestamp = 5, ssrc = 0xFFFFFFFF\<rparr> = Some (True, data') \<and>
    GetRtpHeader data' = Some (Some \<lparr>payload_type = 96, seq_num = 65535, timestamp = 5, ssrc = 0xFFFFFFFF\<rparr>)"
  using rtp_header_roundtrip [of "replicate 14 1" "\<lparr>payload_type = 96, seq_num = 65535, timestamp = 5, ssrc = 0xFFFFFFFF\<rparr>"] by auto

text \<open>No getter leaves the packet, whatever it holds. Every getter returns, and a header length that is reported
  (contributing sources and the extension counted) is a multiple of four between twelve and the size of the packet.\<close>

theorem rtp_reads_in_bounds:
  "GetRtpHeader data \<noteq> None \<and> GetRtpFlags data \<noteq> None \<and> GetRtcpType data \<noteq> None \<and> GetRtcpSsrc data \<noteq> None \<and>
   (\<exists>r. GetRtpHeaderLen data = Some r \<and> (case r of None \<Rightarrow> True | Some n \<Rightarrow> 12 \<le> n \<and> n \<le> length data \<and> n mod 4 = 0))"
proof -
  have "GetRtpHeader data \<noteq> None" "GetRtpFlags data \<noteq> None" "GetRtcpType data \<noteq> None"
    by (auto simp: GetRtpHeader_def GetRtpPayloadType_def GetRtpSeqNum_def GetRtpTimestamp_def GetRtpSsrc_def GetRtpFlags_def
        GetRtcpType_def GetUint8_def GetUint16_def GetUint32_def rtp_consts)
  moreover have "GetRtcpSsrc data \<noteq> None" by (auto simp: GetRtcpSsrc_def GetRtcpType_def GetUint8_def GetUint32_def rtp_consts)
  moreover have "\<exists>r. GetRtpHeaderLen data = Some r \<and> (case r of None \<Rightarrow> True | Some n \<Rightarrow> 12 \<le> n \<and> n \<le> length data \<and> n mod 4 = 0)"
    by (auto simp: GetRtpHeaderLen_def GetUint16_def rtp_consts Let_def)
  ultimately show ?thesis by blast
qed

end
