(* ===== verification/Stream_Params.thy ===== *)
theory Stream_Params
  imports Rtp_Utils
begin

text \<open>
  \<^verbatim>\<open>media/base/streamparams.cc\<close>, the description of media streams by their SSRCs, and \<^verbatim>\<open>session/media/bundlefilter.cc\<close>,
  the filter that decides which packets of a shared transport belong to a channel. The printing functions
  (\<^verbatim>\<open>ToString\<close>) are left out.
\<close>

record SsrcGroup =
  semantics :: string
  group_ssrcs :: "u32 list"

record StreamParams =
  groupid :: string
  stream_id :: string
  ssrcs :: "u32 list"
  ssrc_groups :: "SsrcGroup list"
  stream_type :: string
  display :: string
  cname :: string
  sync_label :: string

record StreamSelector =
  sel_ssrc :: u32
  sel_groupid :: string
  sel_streamid :: string

definition kFidSsrcGroupSemantics :: string where "kFidSsrcGroupSemantics = ''FID''"
definition kSimSsrcGroupSemantics :: string where "kSimSsrcGroupSemantics = ''SIM''"

section \<open>Streams\<close>

definition has_semantics :: "SsrcGroup \<Rightarrow> string \<Rightarrow> bool" where
  "has_semantics g semantics_in \<longleftrightarrow> semantics g = semantics_in \<and> length (group_ssrcs g) > 0"

definition StreamParams_new :: StreamParams where
  "StreamParams_new = \<lparr>groupid = [], stream_id = [], ssrcs = [], ssrc_groups = [], stream_type = [], display = [],
     cname = [], sync_label = []\<rparr>"

definition CreateLegacy :: "u32 \<Rightarrow> StreamParams" where
  "CreateLegacy s = StreamParams_new\<lparr>ssrcs := ssrcs StreamParams_new @ [s]\<rparr>"

definition first_ssrc :: "StreamParams \<Rightarrow> u32" where
  "first_ssrc p = (if ssrcs p = [] then 0 else ssrcs p ! 0)"

definition has_ssrc :: "StreamParams \<Rightarrow> u32 \<Rightarrow> bool" where
  "has_ssrc p s \<longleftrightarrow> List.find (\<lambda>x. x = s) (ssrcs p) \<noteq> None"

definition get_ssrc_group :: "StreamParams \<Rightarrow> string \<Rightarrow> SsrcGroup option" where
  "get_ssrc_group p sem = List.find (\<lambda>g. has_semantics g sem) (ssrc_groups p)"

definition AddSecondarySsrc :: "string \<Rightarrow> u32 \<Rightarrow> u32 \<Rightarrow> StreamParams \<Rightarrow> bool \<times> StreamParams" where
  "AddSecondarySsrc sem primary_ssrc secondary_ssrc p =
     (if \<not> has_ssrc p primary_ssrc then (False, p)
      else (True, p\<lparr>ssrcs := ssrcs p @ [secondary_ssrc],
        ssrc_groups := ssrc_groups p @ [\<lparr>semantics = sem, group_ssrcs = [primary_ssrc, secondary_ssrc]\<rparr>]\<rparr>))"

definition GetSecondarySsrc :: "string \<Rightarrow> u32 \<Rightarrow> StreamParams \<Rightarrow> u32 option" where
  "GetSecondarySsrc sem primary_ssrc p =
     map_option (\<lambda>g. group_ssrcs g ! 1)
       (List.find (\<lambda>g. has_semantics g sem \<and> length (group_ssrcs g) \<ge> 2 \<and> group_ssrcs g ! 0 = primary_ssrc) (ssrc_groups p))"

definition AddFidSsrc :: "u32 \<Rightarrow> u32 \<Rightarrow> StreamParams \<Rightarrow> bool \<times> StreamParams" where
  "AddFidSsrc primary_ssrc fid_ssrc p = AddSecondarySsrc kFidSsrcGroupSemantics primary_ssrc fid_ssrc p"

definition GetFidSsrc :: "u32 \<Rightarrow> StreamParams \<Rightarrow> u32 option" where
  "GetFidSsrc primary_ssrc p = GetSecondarySsrc kFidSsrcGroupSemantics primary_ssrc p"

definition StreamSelector_ssrc :: "u32 \<Rightarrow> StreamSelector" where
  "StreamSelector_ssrc s = \<lparr>sel_ssrc = s, sel_groupid = [], sel_streamid = []\<rparr>"

definition StreamSelector_ids :: "string \<Rightarrow> string \<Rightarrow> StreamSelector" where
  "StreamSelector_ids gid streamid = \<lparr>sel_ssrc = 0, sel_groupid = gid, sel_streamid = streamid\<rparr>"

definition Selector_Matches :: "StreamSelector \<Rightarrow> StreamParams \<Rightarrow> bool" where
  "Selector_Matches sel p =
     (if sel_ssrc sel = 0 then groupid p = sel_groupid sel \<and> stream_id p = sel_streamid sel else has_ssrc p (sel_ssrc sel))"

definition GetStream :: "StreamParams list \<Rightarrow> StreamSelector \<Rightarrow> StreamParams option" where
  "GetStream streams sel = List.find (Selector_Matches sel) streams"

definition GetStreamBySsrc :: "StreamParams list \<Rightarrow> u32 \<Rightarrow> StreamParams option" where
  "GetStreamBySsrc streams s = GetStream streams (StreamSelector_ssrc s)"

definition GetStreamByIds :: "StreamParams list \<Rightarrow> string \<Rightarrow> string \<Rightarrow> StreamParams option" where
  "GetStreamByIds streams gid streamid = GetStream streams (StreamSelector_ids gid streamid)"

text \<open>The loop that erases the matching streams.\<close>

fun remove_loop :: "StreamSelector \<Rightarrow> StreamParams list \<Rightarrow> bool \<Rightarrow> bool \<times> StreamParams list" where
  "remove_loop sel [] ret = (ret, [])"
| "remove_loop sel (p # ps) ret =
     (if Selector_Matches sel p then remove_loop sel ps True
      else (case remove_loop sel ps ret of (r, qs) \<Rightarrow> (r, p # qs)))"

definition RemoveStream :: "StreamParams list \<Rightarrow> StreamSelector \<Rightarrow> bool \<times> StreamParams list" where
  "RemoveStream streams sel = remove_loop sel streams False"

definition RemoveStreamBySsrc :: "StreamParams list \<Rightarrow> u32 \<Rightarrow> bool \<times> StreamParams list" where
  "RemoveStreamBySsrc streams s = RemoveStream streams (StreamSelector_ssrc s)"

definition RemoveStreamByIds :: "StreamParams list \<Rightarrow> string \<Rightarrow> string \<Rightarrow> bool \<times> StreamParams list" where
  "RemoveStreamByIds streams gid streamid = RemoveStream streams (StreamSelector_ids gid streamid)"

definition IsOneSsrcStream :: "StreamParams \<Rightarrow> bool" where
  "IsOneSsrcStream p =
     (if length (ssrcs p) = 1 \<and> ssrc_groups p = [] then True
      else if length (ssrcs p) = 2 then
        (case get_ssrc_group p kFidSsrcGroupSemantics of None \<Rightarrow> False | Some fid_group \<Rightarrow> ssrcs p = group_ssrcs fid_group)
      else False)"

definition RemoveFirst :: "u32 list \<Rightarrow> u32 \<Rightarrow> u32 list" where "RemoveFirst xs v = remove1 v xs"

definition IsSimulcastStream :: "StreamParams \<Rightarrow> bool" where
  "IsSimulcastStream p =
     (case get_ssrc_group p kSimSsrcGroupSemantics of
        None \<Rightarrow> False
      | Some sg \<Rightarrow>
          (if length (group_ssrcs sg) < 2 then False
           else let sp_ssrcs = foldl RemoveFirst (ssrcs p) (group_ssrcs sg);
                    sp_ssrcs = foldl (\<lambda>xs g. if semantics g \<noteq> kFidSsrcGroupSemantics \<or> length (group_ssrcs g) \<noteq> 2 then xs
                      else RemoveFirst xs (group_ssrcs g ! 1)) sp_ssrcs (ssrc_groups p)
                in length sp_ssrcs = 0))"

section \<open>The bundle filter\<close>

record bundle_filter =
  payload_types :: "int set"
  streams :: "StreamParams list"

definition kSsrc01 :: u32 where "kSsrc01 = 0x01"

definition BundleFilter_new :: bundle_filter where "BundleFilter_new = \<lparr>payload_types = {}, streams = []\<rparr>"

definition AddPayloadType :: "int \<Rightarrow> bundle_filter \<Rightarrow> bundle_filter" where
  "AddPayloadType pt f = f\<lparr>payload_types := insert pt (payload_types f)\<rparr>"

definition AddStream :: "StreamParams \<Rightarrow> bundle_filter \<Rightarrow> bool \<times> bundle_filter" where
  "AddStream stream f =
     (if GetStreamBySsrc (streams f) (first_ssrc stream) \<noteq> None then (False, f)
      else (True, f\<lparr>streams := streams f @ [stream]\<rparr>))"

definition Bundle_RemoveStream :: "u32 \<Rightarrow> bundle_filter \<Rightarrow> bool \<times> bundle_filter" where
  "Bundle_RemoveStream s f = (case RemoveStreamBySsrc (streams f) s of (r, ps) \<Rightarrow> (r, f\<lparr>streams := ps\<rparr>))"

definition HasStreams :: "bundle_filter \<Rightarrow> bool" where "HasStreams f \<longleftrightarrow> streams f \<noteq> []"

definition FindStream :: "u32 \<Rightarrow> bundle_filter \<Rightarrow> bool" where
  "FindStream s f = (if s = 0 then False else GetStreamBySsrc (streams f) s \<noteq> None)"

definition FindPayloadType :: "int \<Rightarrow> bundle_filter \<Rightarrow> bool" where
  "FindPayloadType pl_type f \<longleftrightarrow> pl_type \<in> payload_types f"

definition ClearAllPayloadTypes :: "bundle_filter \<Rightarrow> bundle_filter" where
  "ClearAllPayloadTypes f = f\<lparr>payload_types := {}\<rparr>"

definition DemuxPacket :: "byte list \<Rightarrow> bool \<Rightarrow> bundle_filter \<Rightarrow> bool option" where
  "DemuxPacket data rtcp f =
     (if \<not> rtcp then
        (case GetRtpPayloadType data of
           None \<Rightarrow> None
         | Some None \<Rightarrow> Some False
         | Some (Some pt) \<Rightarrow> Some (FindPayloadType pt f))
      else
        (case GetRtcpType data of
           None \<Rightarrow> None
         | Some None \<Rightarrow> Some False
         | Some (Some pl_type) \<Rightarrow>
             (if pl_type = kRtcpTypeSDES then Some True
              else case GetRtcpSsrc data of
                     None \<Rightarrow> None
                   | Some None \<Rightarrow> Some False
                   | Some (Some s) \<Rightarrow> (if s = kSsrc01 then Some True else Some (\<not> HasStreams f \<or> FindStream s f)))))"

section \<open>Looking up, adding and removing\<close>

lemma has_ssrc_iff: "has_ssrc p s \<longleftrightarrow> s \<in> set (ssrcs p)"
  by (auto simp: has_ssrc_def find_None_iff)

lemma remove_loop_filter:
  "remove_loop sel ps ret = (ret \<or> list_ex (Selector_Matches sel) ps, filter (\<lambda>p. \<not> Selector_Matches sel p) ps)"
  by (induction ps arbitrary: ret) auto

lemma GetStreamBySsrc_None:
  "s \<noteq> 0 \<Longrightarrow> GetStreamBySsrc ps s = None \<longleftrightarrow> (\<forall>p \<in> set ps. s \<notin> set (ssrcs p))"
  by (auto simp: GetStreamBySsrc_def GetStream_def find_None_iff StreamSelector_ssrc_def Selector_Matches_def has_ssrc_iff)

lemma FindStream_iff: "FindStream s f \<longleftrightarrow> s \<noteq> 0 \<and> (\<exists>p \<in> set (streams f). s \<in> set (ssrcs p))"
  using GetStreamBySsrc_None [of s "streams f"] by (auto simp: FindStream_def)

lemma Bundle_RemoveStream_iff:
  "s \<noteq> 0 \<Longrightarrow> Bundle_RemoveStream s f =
     (\<exists>p \<in> set (streams f). s \<in> set (ssrcs p), f\<lparr>streams := filter (\<lambda>p. s \<notin> set (ssrcs p)) (streams f)\<rparr>)"
  by (auto simp: Bundle_RemoveStream_def RemoveStreamBySsrc_def RemoveStream_def remove_loop_filter StreamSelector_ssrc_def
      Selector_Matches_def has_ssrc_iff list_ex_iff intro!: filter_cong)

text \<open>Removing the stream with SSRC 0 removes every stream without a name, whatever its SSRCs are.\<close>

lemma remove_zero:
  "RemoveStreamBySsrc ps 0 = (\<exists>p \<in> set ps. groupid p = [] \<and> stream_id p = [], filter (\<lambda>p. \<not> (groupid p = [] \<and> stream_id p = [])) ps)"
  by (auto simp: RemoveStreamBySsrc_def RemoveStream_def remove_loop_filter StreamSelector_ssrc_def Selector_Matches_def list_ex_iff)

section \<open>Properties\<close>

text \<open>Which packets the bundle filter lets through. It never reads outside a packet. An RTP packet passes exactly when
  it is at least twelve bytes long and its payload type is registered. An RTCP packet passes exactly when it is of type
  SDES (from four bytes on), or, from eight bytes on, comes from SSRC 1, or there are no streams yet, or it comes from
  an SSRC other than 0 of one of the streams.\<close>

theorem bundle_filter_decides:
  "DemuxPacket data False f = Some (12 \<le> length data \<and> uint (data ! 1) AND 0x7F \<in> payload_types f) \<and>
   DemuxPacket data True f = Some (4 \<le> length data \<and> (data ! 1 = 202 \<or> 8 \<le> length data \<and>
     (let s = GetBE32 (mem_read data 4 4) in s = 1 \<or> streams f = [] \<or> s \<noteq> 0 \<and> (\<exists>p \<in> set (streams f). s \<in> set (ssrcs p)))))"
proof -
  have t: "uint (data ! 1) = 202 \<longleftrightarrow> data ! 1 = 202" by (simp add: word_uint_eq_iff)
  show ?thesis
    by (auto simp: DemuxPacket_def GetRtpPayloadType_def GetRtcpType_def GetRtcpSsrc_def GetUint8_def GetUint32_def rtp_consts
        FindPayloadType_def HasStreams_def FindStream_iff kSsrc01_def Let_def t simp del: One_nat_def)
qed

text \<open>Adding and removing streams. A stream that is added makes the filter find each of its SSRCs other than 0, adding
  is refused exactly when a present stream has the new stream's first SSRC, and removing an SSRC makes the filter find
  it no more and keeps exactly the streams that do not have it.\<close>

theorem bundle_streams:
  assumes "first_ssrc p \<noteq> 0" "s \<noteq> 0"
  shows "(fst (AddStream p f) \<longleftrightarrow> \<not> FindStream (first_ssrc p) f) \<and>
    (fst (AddStream p f) \<longrightarrow> (\<forall>x. FindStream x (snd (AddStream p f)) \<longleftrightarrow> FindStream x f \<or> x \<noteq> 0 \<and> x \<in> set (ssrcs p))) \<and>
    (\<not> fst (AddStream p f) \<longrightarrow> snd (AddStream p f) = f) \<and>
    (fst (Bundle_RemoveStream s f) \<longleftrightarrow> FindStream s f) \<and> \<not> FindStream s (snd (Bundle_RemoveStream s f)) \<and>
    set (streams (snd (Bundle_RemoveStream s f))) = {q \<in> set (streams f). s \<notin> set (ssrcs q)}"
  using assms GetStreamBySsrc_None [OF assms(1), of "streams f"]
  by (auto simp: AddStream_def FindStream_iff Bundle_RemoveStream_iff)

theorem bundle_streams_witness:
  "FindStream 7 (snd (AddStream (CreateLegacy 7) BundleFilter_new)) \<and>
   \<not> FindStream 7 (snd (Bundle_RemoveStream 7 (snd (AddStream (CreateLegacy 7) BundleFilter_new))))"
proof -
  have l: "first_ssrc (CreateLegacy 7) \<noteq> 0" "(7 :: u32) \<noteq> 0" "ssrcs (CreateLegacy 7) = [7]" by code_simp+
  have "\<not> FindStream (first_ssrc (CreateLegacy 7)) BundleFilter_new" by (simp add: FindStream_iff BundleFilter_new_def)
  with bundle_streams [OF l(1,2), of BundleFilter_new] l(2,3)
  have "FindStream 7 (snd (AddStream (CreateLegacy 7) BundleFilter_new))" by simp
  with bundle_streams [OF l(1,2), of "snd (AddStream (CreateLegacy 7) BundleFilter_new)"] show ?thesis by blast
qed

end
