(* ===== verification/Rtcp_Mux_Filter.thy ===== *)
theory Rtcp_Mux_Filter
  imports Prelude
begin

text \<open>
  \<^verbatim>\<open>session/media/rtcpmuxfilter.cc\<close>: the negotiation of RTCP multiplexing by offers, provisional answers and answers, and the
  classification of packets. The theory also holds what the negotiating filters share: the source of a description
  (\<^verbatim>\<open>p2p/base/sessiondescription.h\<close>) and the locale of filters whose two ends stay in agreement.
\<close>

section \<open>Negotiation\<close>

datatype ContentSource = CS_LOCAL | CS_REMOTE

text \<open>What one side sends the other receives: an event of the negotiation, carrying the description \<open>'p\<close>, is seen by the
  two peers with opposite sources.\<close>

datatype 'p negotiation = Offer 'p ContentSource | PrAnswer 'p ContentSource | Answer 'p ContentSource

fun opposite :: "ContentSource \<Rightarrow> ContentSource" where
  "opposite CS_LOCAL = CS_REMOTE"
| "opposite CS_REMOTE = CS_LOCAL"

fun seen_by_peer :: "'p negotiation \<Rightarrow> 'p negotiation" where
  "seen_by_peer (Offer p src) = Offer p (opposite src)"
| "seen_by_peer (PrAnswer p src) = PrAnswer p (opposite src)"
| "seen_by_peer (Answer p src) = Answer p (opposite src)"

lemma opposite_opposite [simp]: "opposite (opposite s) = s"
  by (cases s) simp_all

text \<open>A run of a filter over the events: the results it returned, and its state in the end.\<close>

fun run :: "('p negotiation \<Rightarrow> 'f \<Rightarrow> bool \<times> 'f) \<Rightarrow> 'p negotiation list \<Rightarrow> 'f \<Rightarrow> bool list \<times> 'f" where
  "run step [] f = ([], f)"
| "run step (e # es) f = (case step e f of (r, f) \<Rightarrow> (case run step es f of (rs, f) \<Rightarrow> (r # rs, f)))"

text \<open>Filters whose two ends stay related, whatever they negotiate: the relation \<open>agree\<close> between the state of one end and
  the state of the other is kept by every event, and related ends return the same results and are active together.\<close>

locale negotiating_peers =
  fixes step :: "'p negotiation \<Rightarrow> 'f \<Rightarrow> bool \<times> 'f"
    and agree :: "'f \<Rightarrow> 'f \<Rightarrow> bool"
    and active :: "'f \<Rightarrow> bool"
    and start :: 'f
  assumes step_agree: "agree f g \<Longrightarrow>
      fst (step (seen_by_peer e) g) = fst (step e f) \<and> agree (snd (step e f)) (snd (step (seen_by_peer e) g))"
    and active_agree: "agree f g \<Longrightarrow> active g = active f"
    and start_agree: "agree start start"
begin

lemma run_agree: "agree f g \<Longrightarrow>
  fst (run step (map seen_by_peer es) g) = fst (run step es f) \<and> agree (snd (run step es f)) (snd (run step (map seen_by_peer es) g))"
proof (induction es arbitrary: f g)
  case (Cons e es)
  obtain r f1 where 1: "step e f = (r, f1)" by (cases "step e f")
  obtain g1 where 2: "step (seen_by_peer e) g = (r, g1)" "agree f1 g1" using step_agree [OF Cons.prems, of e] 1
    by (cases "step (seen_by_peer e) g") auto
  show ?case using Cons.IH [OF 2(2)] 1 2(1)
    by (cases "run step es f1"; cases "run step (map seen_by_peer es) g1") simp
qed simp

lemma peers_agree:
  "fst (run step (map seen_by_peer es) start) = fst (run step es start) \<and>
   active (snd (run step (map seen_by_peer es) start)) = active (snd (run step es start)) \<and>
   agree (snd (run step es start)) (snd (run step (map seen_by_peer es) start))"
  using run_agree [OF start_agree, of es] active_agree by blast

end

text \<open>Invariants of a filter over runs.\<close>

locale filter_invariant =
  fixes step :: "'p negotiation \<Rightarrow> 'f \<Rightarrow> bool \<times> 'f"
    and I :: "'f \<Rightarrow> bool"
  assumes step_keeps: "I f \<Longrightarrow> I (snd (step e f))"
begin

lemma run_keeps: "I f \<Longrightarrow> I (snd (run step es f))"
proof (induction es arbitrary: f)
  case (Cons e es)
  then show ?case using step_keeps [of f e] by (simp split: prod.split) (metis snd_conv)
qed simp

end

section \<open>The RTCP mux filter\<close>

datatype mux_state = MUX_INIT | MUX_RECEIVEDOFFER | MUX_SENTOFFER | MUX_SENTPRANSWER | MUX_RECEIVEDPRANSWER | MUX_ACTIVE

fun mux_index :: "mux_state \<Rightarrow> nat" where
  "mux_index MUX_INIT = 0"
| "mux_index MUX_RECEIVEDOFFER = 1"
| "mux_index MUX_SENTOFFER = 2"
| "mux_index MUX_SENTPRANSWER = 3"
| "mux_index MUX_RECEIVEDPRANSWER = 4"
| "mux_index MUX_ACTIVE = 5"

lemma mux_index_inject: "mux_index x = mux_index y \<Longrightarrow> x = y"
  by (cases x; cases y) simp_all

instantiation mux_state :: linorder
begin

definition less_eq_mux_state :: "mux_state \<Rightarrow> mux_state \<Rightarrow> bool" where "x \<le> y \<longleftrightarrow> mux_index x \<le> mux_index y"

definition less_mux_state :: "mux_state \<Rightarrow> mux_state \<Rightarrow> bool" where "x < y \<longleftrightarrow> mux_index x < mux_index y"

instance
  by standard (auto simp: less_eq_mux_state_def less_mux_state_def intro: mux_index_inject)

end

record rtcp_mux_filter =
  mux_state :: mux_state
  offer_enable :: bool

definition RtcpMuxFilter_new :: rtcp_mux_filter where
  "RtcpMuxFilter_new = \<lparr>mux_state = MUX_INIT, offer_enable = False\<rparr>"

definition Mux_IsActive :: "rtcp_mux_filter \<Rightarrow> bool" where
  "Mux_IsActive f \<longleftrightarrow> mux_state f = MUX_SENTPRANSWER \<or> mux_state f = MUX_RECEIVEDPRANSWER \<or> mux_state f = MUX_ACTIVE"

definition Mux_ExpectOffer :: "bool \<Rightarrow> ContentSource \<Rightarrow> rtcp_mux_filter \<Rightarrow> bool" where
  "Mux_ExpectOffer enable source f \<longleftrightarrow>
     mux_state f = MUX_INIT \<or> mux_state f = MUX_ACTIVE \<and> enable = offer_enable f \<or>
     mux_state f = MUX_SENTOFFER \<and> source = CS_LOCAL \<or> mux_state f = MUX_RECEIVEDOFFER \<and> source = CS_REMOTE"

definition Mux_ExpectAnswer :: "ContentSource \<Rightarrow> rtcp_mux_filter \<Rightarrow> bool" where
  "Mux_ExpectAnswer source f \<longleftrightarrow>
     mux_state f = MUX_SENTOFFER \<and> source = CS_REMOTE \<or> mux_state f = MUX_RECEIVEDOFFER \<and> source = CS_LOCAL \<or>
     mux_state f = MUX_SENTPRANSWER \<and> source = CS_LOCAL \<or> mux_state f = MUX_RECEIVEDPRANSWER \<and> source = CS_REMOTE"

definition Mux_SetOffer :: "bool \<Rightarrow> ContentSource \<Rightarrow> rtcp_mux_filter \<Rightarrow> bool \<times> rtcp_mux_filter" where
  "Mux_SetOffer enable src f =
     (if \<not> Mux_ExpectOffer enable src f then (False, f)
      else (True, f\<lparr>offer_enable := enable, mux_state := (if src = CS_LOCAL then MUX_SENTOFFER else MUX_RECEIVEDOFFER)\<rparr>))"

definition Mux_SetProvisionalAnswer :: "bool \<Rightarrow> ContentSource \<Rightarrow> rtcp_mux_filter \<Rightarrow> bool \<times> rtcp_mux_filter" where
  "Mux_SetProvisionalAnswer answer_enable src f =
     (if \<not> Mux_ExpectAnswer src f then (False, f)
      else if offer_enable f then
        (if answer_enable
         then (True, f\<lparr>mux_state := (if src = CS_REMOTE then MUX_RECEIVEDPRANSWER else MUX_SENTPRANSWER)\<rparr>)
         else (True, f\<lparr>mux_state := (if src = CS_REMOTE then MUX_SENTOFFER else MUX_RECEIVEDOFFER)\<rparr>))
      else if answer_enable then (False, f)
      else (True, f))"

definition Mux_SetAnswer :: "bool \<Rightarrow> ContentSource \<Rightarrow> rtcp_mux_filter \<Rightarrow> bool \<times> rtcp_mux_filter" where
  "Mux_SetAnswer answer_enable src f =
     (if \<not> Mux_ExpectAnswer src f then (False, f)
      else if offer_enable f \<and> answer_enable then (True, f\<lparr>mux_state := MUX_ACTIVE\<rparr>)
      else if answer_enable then (False, f)
      else (True, f\<lparr>mux_state := MUX_INIT\<rparr>))"

definition DemuxRtcp :: "byte list \<Rightarrow> rtcp_mux_filter \<Rightarrow> bool" where
  "DemuxRtcp data f =
     (if \<not> offer_enable f \<or> mux_state f < MUX_SENTOFFER then False
      else let ty = (if length data \<ge> 2 then uint (data ! 1 AND 0x7F) else 0) in ty \<ge> 64 \<and> ty < 96)"

fun mux_step :: "bool negotiation \<Rightarrow> rtcp_mux_filter \<Rightarrow> bool \<times> rtcp_mux_filter" where
  "mux_step (Offer enable src) f = Mux_SetOffer enable src f"
| "mux_step (PrAnswer enable src) f = Mux_SetProvisionalAnswer enable src f"
| "mux_step (Answer enable src) f = Mux_SetAnswer enable src f"

fun mux_mirror :: "mux_state \<Rightarrow> mux_state" where
  "mux_mirror MUX_RECEIVEDOFFER = MUX_SENTOFFER"
| "mux_mirror MUX_SENTOFFER = MUX_RECEIVEDOFFER"
| "mux_mirror MUX_SENTPRANSWER = MUX_RECEIVEDPRANSWER"
| "mux_mirror MUX_RECEIVEDPRANSWER = MUX_SENTPRANSWER"
| "mux_mirror st = st"

lemmas mux_defs = Mux_ExpectOffer_def Mux_ExpectAnswer_def Mux_SetOffer_def Mux_SetProvisionalAnswer_def Mux_SetAnswer_def
  Mux_IsActive_def RtcpMuxFilter_new_def

definition mux_peer :: "rtcp_mux_filter \<Rightarrow> rtcp_mux_filter \<Rightarrow> bool" where
  "mux_peer f g \<longleftrightarrow> g = f\<lparr>mux_state := mux_mirror (mux_state f)\<rparr>"

lemma mux_step_peer:
  "mux_step (seen_by_peer e) (f\<lparr>mux_state := mux_mirror (mux_state f)\<rparr>) =
     (case mux_step e f of (r, f') \<Rightarrow> (r, f'\<lparr>mux_state := mux_mirror (mux_state f')\<rparr>))"
proof -
  obtain p src where "e = Offer p src \<or> e = PrAnswer p src \<or> e = Answer p src" by (cases e) auto
  then show ?thesis by (cases f; cases "mux_state f"; cases src) (auto simp: mux_defs)
qed

interpretation mux: negotiating_peers mux_step mux_peer Mux_IsActive RtcpMuxFilter_new
proof
  fix e :: "bool negotiation" and f g :: rtcp_mux_filter
  assume "mux_peer f g"
  then show "fst (mux_step (seen_by_peer e) g) = fst (mux_step e f) \<and> mux_peer (snd (mux_step e f)) (snd (mux_step (seen_by_peer e) g))"
    by (cases "mux_step e f") (simp add: mux_peer_def mux_step_peer)
next
  fix f g :: rtcp_mux_filter
  assume "mux_peer f g"
  then show "Mux_IsActive g = Mux_IsActive f" by (cases "mux_state f") (simp_all add: Mux_IsActive_def mux_peer_def)
qed (simp add: RtcpMuxFilter_new_def mux_peer_def)

definition mux_enabled :: "rtcp_mux_filter \<Rightarrow> bool" where
  "mux_enabled f \<longleftrightarrow> (Mux_IsActive f \<longrightarrow> offer_enable f)"

interpretation mux_inv: filter_invariant mux_step mux_enabled
proof
  fix f and e :: "bool negotiation"
  assume "mux_enabled f"
  then show "mux_enabled (snd (mux_step e f))"
    by (cases e) (auto simp: mux_defs mux_enabled_def)
qed

section \<open>Properties\<close>

text \<open>C30: the two ends of a negotiation agree on RTCP multiplexing. Whatever offers, provisional answers and answers are
  exchanged, in whatever order, if the same ones reach the filters of both peers (sent by one, received by the other)
  then both filters return the same results and either both are active or none is.\<close>

theorem mux_peers_agree:
  "fst (run mux_step (map seen_by_peer es) RtcpMuxFilter_new) = fst (run mux_step es RtcpMuxFilter_new) \<and>
   Mux_IsActive (snd (run mux_step (map seen_by_peer es) RtcpMuxFilter_new)) = Mux_IsActive (snd (run mux_step es RtcpMuxFilter_new))"
  using mux.peers_agree by blast

text \<open>Multiplexing needs the consent of both. After any exchange the filter is active only if the last accepted offer
  enabled it, and no packet is taken for RTCP unless an offer has enabled it; an accepted final answer leaves it active
  exactly when it was offered and answered, and a packet of an active filter is taken for RTCP exactly when its type
  byte without the marker bit lies between 64 and 95.\<close>

theorem mux_needs_consent:
  "(let f = snd (run mux_step es RtcpMuxFilter_new)
    in (Mux_IsActive f \<longrightarrow> offer_enable f) \<and> (DemuxRtcp data f \<longrightarrow> offer_enable f) \<and>
       (fst (Mux_SetAnswer a src f) \<longrightarrow> Mux_IsActive (snd (Mux_SetAnswer a src f)) = (offer_enable f \<and> a)) \<and>
       (Mux_IsActive f \<longrightarrow> DemuxRtcp data f = (2 \<le> length data \<and> uint (data ! 1 AND 0x7F) \<in> {64..<96})))"
proof -
  have "mux_enabled RtcpMuxFilter_new" by (simp add: mux_enabled_def mux_defs)
  then have "mux_enabled (snd (run mux_step es RtcpMuxFilter_new))" by (rule mux_inv.run_keeps)
  then show ?thesis
    by (auto simp: Let_def mux_enabled_def DemuxRtcp_def mux_defs less_mux_state_def split: if_splits)
qed

theorem mux_needs_consent_witness:
  "DemuxRtcp [0x80, 200] (snd (run mux_step [Offer True CS_LOCAL, Answer True CS_REMOTE] RtcpMuxFilter_new))"
proof -
  have "Mux_IsActive (snd (run mux_step [Offer True CS_LOCAL, Answer True CS_REMOTE] RtcpMuxFilter_new))" by (simp add: mux_defs)
  then show ?thesis
    using mux_needs_consent [of "[Offer True CS_LOCAL, Answer True CS_REMOTE]" "[0x80, 200]" True CS_REMOTE] by (simp add: Let_def)
qed

text \<open>An active filter can be switched off. A new offer of the same kind by either side leaves the filter inactive until
  it is answered, and an answer that declines takes it back to its initial state, although the header says of the active
  state that the filter cannot be de-activated.\<close>

theorem mux_deactivated:
  assumes "mux_state f = MUX_ACTIVE"
  shows "fst (Mux_SetOffer (offer_enable f) src f) \<and> \<not> Mux_IsActive (snd (Mux_SetOffer (offer_enable f) src f)) \<and>
    Mux_SetAnswer False (opposite src) (snd (Mux_SetOffer (offer_enable f) src f)) = (True, f\<lparr>mux_state := MUX_INIT\<rparr>)"
  using assms by (cases f; cases src) (auto simp: mux_defs)

theorem mux_deactivated_witness:
  "Mux_SetAnswer False CS_REMOTE (snd (Mux_SetOffer True CS_LOCAL \<lparr>mux_state = MUX_ACTIVE, offer_enable = True\<rparr>)) =
     (True, \<lparr>mux_state = MUX_INIT, offer_enable = True\<rparr>)"
  using mux_deactivated [of "\<lparr>mux_state = MUX_ACTIVE, offer_enable = True\<rparr>" CS_LOCAL] by simp

end
