(* ===== verification/Srtp_Filter.thy ===== *)
theory Srtp_Filter
  imports Rtcp_Mux_Filter Base64 Rtp_Utils Time_Utils
begin

text \<open>
  \<^verbatim>\<open>session/media/srtpfilter.cc\<close>: the negotiation of SRTP keys (\<^verbatim>\<open>SrtpFilter\<close>), the sessions that protect packets
  (\<^verbatim>\<open>SrtpSession\<close>, as compiled with \<^verbatim>\<open>HAVE_SRTP\<close> and without external authentication) and the reporting of errors
  (\<^verbatim>\<open>SrtpStat\<close>). Strings are byte lists. libSRTP is the parameter \<open>L\<close>: whether it can be initialised, the tag lengths of
  its policies, and its operations on a context of type \<open>'c\<close>. \<^verbatim>\<open>SignalSrtpError\<close> is recorded with the statistics.
  A call through a null session pointer is \<open>None\<close>. \<^verbatim>\<open>last_send_seq_num_\<close>, which only feeds log messages, the list of all
  sessions, the events that are only logged, and the packet index read from inside of libSRTP are left out.
\<close>

section \<open>Parameters and the library\<close>

definition bytes_of :: "string \<Rightarrow> byte list" where "bytes_of s = map of_char s"

record CryptoParams =
  cp_tag :: int
  cipher_suite :: "byte list"
  key_params :: "byte list"
  session_params :: "byte list"

definition CryptoParams_new :: CryptoParams where
  "CryptoParams_new = \<lparr>cp_tag = 0, cipher_suite = [], key_params = [], session_params = []\<rparr>"

definition Crypto_Matches :: "CryptoParams \<Rightarrow> CryptoParams \<Rightarrow> bool" where
  "Crypto_Matches p q \<longleftrightarrow> cp_tag p = cp_tag q \<and> cipher_suite p = cipher_suite q"

definition CS_AES_CM_128_HMAC_SHA1_80 :: "byte list" where
  "CS_AES_CM_128_HMAC_SHA1_80 = bytes_of ''AES_CM_128_HMAC_SHA1_80''"

definition CS_AES_CM_128_HMAC_SHA1_32 :: "byte list" where
  "CS_AES_CM_128_HMAC_SHA1_32 = bytes_of ''AES_CM_128_HMAC_SHA1_32''"

definition SRTP_MASTER_KEY_LEN :: nat where "SRTP_MASTER_KEY_LEN = 30"

datatype srtp_suite = Aes_Cm_128_Hmac_Sha1_80 | Aes_Cm_128_Hmac_Sha1_32

datatype ssrc_type = Ssrc_Any_Inbound | Ssrc_Any_Outbound

record srtp_policy =
  policy_rtp :: srtp_suite
  policy_rtcp :: srtp_suite
  policy_type :: ssrc_type
  policy_key :: "byte list"

datatype srtp_err = Err_Ok | Err_Auth_Fail | Err_Replay_Fail | Err_Replay_Old | Err_Other

record 'c srtp_lib =
  lib_init :: bool
  lib_tag_len :: "srtp_suite \<Rightarrow> nat"
  lib_create :: "srtp_policy \<Rightarrow> 'c option"
  lib_protect :: "'c \<Rightarrow> byte list \<Rightarrow> srtp_err \<times> byte list \<times> 'c"
  lib_protect_rtcp :: "'c \<Rightarrow> byte list \<Rightarrow> srtp_err \<times> byte list \<times> 'c"
  lib_unprotect :: "'c \<Rightarrow> byte list \<Rightarrow> srtp_err \<times> byte list \<times> 'c"
  lib_unprotect_rtcp :: "'c \<Rightarrow> byte list \<Rightarrow> srtp_err \<times> byte list \<times> 'c"

section \<open>Statistics\<close>

datatype srtp_mode = PROTECT | UNPROTECT
datatype srtp_error = ERROR_NONE | ERROR_FAIL | ERROR_AUTH | ERROR_REPLAY

type_synonym FailureKey = "u32 \<times> srtp_mode \<times> srtp_error"

text \<open>The map from a failure to the time it was last signalled, the threshold, and the signals so far, latest first.\<close>

record srtp_stat =
  failures :: "FailureKey \<rightharpoonup> u32"
  signal_silent_time :: u32
  stat_signals :: "FailureKey list"

definition SrtpStat_new :: srtp_stat where
  "SrtpStat_new = \<lparr>failures = Map.empty, signal_silent_time = 1000, stat_signals = []\<rparr>"

definition HandleSrtpResult :: "u32 \<Rightarrow> FailureKey \<Rightarrow> srtp_stat \<Rightarrow> srtp_stat" where
  "HandleSrtpResult current_time key st =
     (case key of (_, _, err) \<Rightarrow>
        if err \<noteq> ERROR_NONE then
          (let last_signal_time = (case failures st key of None \<Rightarrow> 0 | Some t \<Rightarrow> t);
               st = st\<lparr>failures := (failures st)(key \<mapsto> last_signal_time)\<rparr>
           in if last_signal_time = 0 \<or> TimeDiff current_time last_signal_time > sint (signal_silent_time st)
              then st\<lparr>stat_signals := key # stat_signals st, failures := (failures st)(key \<mapsto> current_time)\<rparr>
              else st)
        else st)"

definition AddProtectRtpResult :: "u32 \<Rightarrow> u32 \<Rightarrow> srtp_err \<Rightarrow> srtp_stat \<Rightarrow> srtp_stat" where
  "AddProtectRtpResult now s result st =
     HandleSrtpResult now (s, PROTECT, case result of Err_Ok \<Rightarrow> ERROR_NONE | Err_Auth_Fail \<Rightarrow> ERROR_AUTH | _ \<Rightarrow> ERROR_FAIL) st"

definition AddUnprotectRtpResult :: "u32 \<Rightarrow> u32 \<Rightarrow> srtp_err \<Rightarrow> srtp_stat \<Rightarrow> srtp_stat" where
  "AddUnprotectRtpResult now s result st =
     HandleSrtpResult now (s, UNPROTECT,
       case result of Err_Ok \<Rightarrow> ERROR_NONE | Err_Auth_Fail \<Rightarrow> ERROR_AUTH | Err_Replay_Fail \<Rightarrow> ERROR_REPLAY
       | Err_Replay_Old \<Rightarrow> ERROR_REPLAY | Err_Other \<Rightarrow> ERROR_FAIL) st"

definition AddProtectRtcpResult :: "u32 \<Rightarrow> srtp_err \<Rightarrow> srtp_stat \<Rightarrow> srtp_stat" where
  "AddProtectRtcpResult now result st = AddProtectRtpResult now 0 result st"

definition AddUnprotectRtcpResult :: "u32 \<Rightarrow> srtp_err \<Rightarrow> srtp_stat \<Rightarrow> srtp_stat" where
  "AddUnprotectRtcpResult now result st = AddUnprotectRtpResult now 0 result st"

section \<open>Sessions\<close>

record 'c srtp_session =
  session :: "'c option"
  rtp_auth_tag_len :: nat
  rtcp_auth_tag_len :: nat
  session_stat :: srtp_stat

definition SrtpSession_new :: "'c srtp_session" where
  "SrtpSession_new = \<lparr>session = None, rtp_auth_tag_len = 0, rtcp_auth_tag_len = 0, session_stat = SrtpStat_new\<rparr>"

definition SetKey :: "'c srtp_lib \<Rightarrow> ssrc_type \<Rightarrow> byte list \<Rightarrow> byte list \<Rightarrow> 'c srtp_session \<Rightarrow> bool \<times> 'c srtp_session" where
  "SetKey L ty cs key s =
     (if session s \<noteq> None then (False, s)
      else if \<not> lib_init L then (False, s)
      else case (if cs = CS_AES_CM_128_HMAC_SHA1_80 then Some (Aes_Cm_128_Hmac_Sha1_80, Aes_Cm_128_Hmac_Sha1_80)
                 else if cs = CS_AES_CM_128_HMAC_SHA1_32 then Some (Aes_Cm_128_Hmac_Sha1_32, Aes_Cm_128_Hmac_Sha1_80)
                 else None) of
             None \<Rightarrow> (False, s)
           | Some (rtp, rtcp) \<Rightarrow>
               (if length key \<noteq> SRTP_MASTER_KEY_LEN then (False, s)
                else case lib_create L \<lparr>policy_rtp = rtp, policy_rtcp = rtcp, policy_type = ty, policy_key = key\<rparr> of
                       None \<Rightarrow> (False, s)
                     | Some c \<Rightarrow>
                         (True, s\<lparr>session := Some c, rtp_auth_tag_len := lib_tag_len L rtp,
                            rtcp_auth_tag_len := lib_tag_len L rtcp\<rparr>)))"

definition SetSend :: "'c srtp_lib \<Rightarrow> byte list \<Rightarrow> byte list \<Rightarrow> 'c srtp_session \<Rightarrow> bool \<times> 'c srtp_session" where
  "SetSend L cs key s = SetKey L Ssrc_Any_Outbound cs key s"

definition SetRecv :: "'c srtp_lib \<Rightarrow> byte list \<Rightarrow> byte list \<Rightarrow> 'c srtp_session \<Rightarrow> bool \<times> 'c srtp_session" where
  "SetRecv L cs key s = SetKey L Ssrc_Any_Inbound cs key s"

text \<open>Protection changes the packet in place: the result is the boolean, the packet that \<^verbatim>\<open>p\<close> and \<^verbatim>\<open>out_len\<close> now
  describe, and the session.\<close>

definition Session_ProtectRtp ::
    "'c srtp_lib \<Rightarrow> u32 \<Rightarrow> byte list \<Rightarrow> nat \<Rightarrow> 'c srtp_session \<Rightarrow> bool \<times> byte list \<times> 'c srtp_session" where
  "Session_ProtectRtp L now p max_len s =
     (case session s of
        None \<Rightarrow> (False, p, s)
      | Some c \<Rightarrow>
          (if max_len < length p + rtp_auth_tag_len s then (False, p, s)
           else case lib_protect L c p of
                  (err, p', c) \<Rightarrow>
                    (let s = s\<lparr>session := Some c\<rparr>;
                         s = (case GetRtpSsrc (take (length p) p') of
                                Some (Some x) \<Rightarrow> s\<lparr>session_stat := AddProtectRtpResult now x err (session_stat s)\<rparr>
                              | _ \<Rightarrow> s)
                     in (err = Err_Ok, p', s))))"

definition Session_ProtectRtcp ::
    "'c srtp_lib \<Rightarrow> u32 \<Rightarrow> byte list \<Rightarrow> nat \<Rightarrow> 'c srtp_session \<Rightarrow> bool \<times> byte list \<times> 'c srtp_session" where
  "Session_ProtectRtcp L now p max_len s =
     (case session s of
        None \<Rightarrow> (False, p, s)
      | Some c \<Rightarrow>
          (if max_len < length p + 4 + rtcp_auth_tag_len s then (False, p, s)
           else case lib_protect_rtcp L c p of
                  (err, p', c) \<Rightarrow>
                    (err = Err_Ok, p', s\<lparr>session := Some c, session_stat := AddProtectRtcpResult now err (session_stat s)\<rparr>)))"

definition Session_UnprotectRtp :: "'c srtp_lib \<Rightarrow> u32 \<Rightarrow> byte list \<Rightarrow> 'c srtp_session \<Rightarrow> bool \<times> byte list \<times> 'c srtp_session" where
  "Session_UnprotectRtp L now p s =
     (case session s of
        None \<Rightarrow> (False, p, s)
      | Some c \<Rightarrow>
          (case lib_unprotect L c p of
             (err, p', c) \<Rightarrow>
               (let s = s\<lparr>session := Some c\<rparr>;
                    s = (case GetRtpSsrc (take (length p) (p' @ drop (length p') p)) of
                           Some (Some x) \<Rightarrow> s\<lparr>session_stat := AddUnprotectRtpResult now x err (session_stat s)\<rparr>
                         | _ \<Rightarrow> s)
                in (err = Err_Ok, p', s))))"

definition Session_UnprotectRtcp :: "'c srtp_lib \<Rightarrow> u32 \<Rightarrow> byte list \<Rightarrow> 'c srtp_session \<Rightarrow> bool \<times> byte list \<times> 'c srtp_session" where
  "Session_UnprotectRtcp L now p s =
     (case session s of
        None \<Rightarrow> (False, p, s)
      | Some c \<Rightarrow>
          (case lib_unprotect_rtcp L c p of
             (err, p', c) \<Rightarrow>
               (err = Err_Ok, p', s\<lparr>session := Some c, session_stat := AddUnprotectRtcpResult now err (session_stat s)\<rparr>)))"

definition Session_set_signal_silent_time :: "u32 \<Rightarrow> 'c srtp_session \<Rightarrow> 'c srtp_session" where
  "Session_set_signal_silent_time t s = s\<lparr>session_stat := (session_stat s)\<lparr>signal_silent_time := t\<rparr>\<rparr>"

section \<open>The filter\<close>

datatype srtp_state = SRTP_INIT | SRTP_SENTOFFER | SRTP_RECEIVEDOFFER | SRTP_SENTPRANSWER_NO_CRYPTO
  | SRTP_RECEIVEDPRANSWER_NO_CRYPTO | SRTP_ACTIVE | SRTP_SENTUPDATEDOFFER | SRTP_RECEIVEDUPDATEDOFFER
  | SRTP_SENTPRANSWER | SRTP_RECEIVEDPRANSWER

fun srtp_index :: "srtp_state \<Rightarrow> nat" where
  "srtp_index SRTP_INIT = 0"
| "srtp_index SRTP_SENTOFFER = 1"
| "srtp_index SRTP_RECEIVEDOFFER = 2"
| "srtp_index SRTP_SENTPRANSWER_NO_CRYPTO = 3"
| "srtp_index SRTP_RECEIVEDPRANSWER_NO_CRYPTO = 4"
| "srtp_index SRTP_ACTIVE = 5"
| "srtp_index SRTP_SENTUPDATEDOFFER = 6"
| "srtp_index SRTP_RECEIVEDUPDATEDOFFER = 7"
| "srtp_index SRTP_SENTPRANSWER = 8"
| "srtp_index SRTP_RECEIVEDPRANSWER = 9"

lemma srtp_index_inject: "srtp_index x = srtp_index y \<Longrightarrow> x = y"
  by (cases x; cases y) simp_all

instantiation srtp_state :: linorder
begin

definition less_eq_srtp_state :: "srtp_state \<Rightarrow> srtp_state \<Rightarrow> bool" where "x \<le> y \<longleftrightarrow> srtp_index x \<le> srtp_index y"

definition less_srtp_state :: "srtp_state \<Rightarrow> srtp_state \<Rightarrow> bool" where "x < y \<longleftrightarrow> srtp_index x < srtp_index y"

instance
  by standard (auto simp: less_eq_srtp_state_def less_srtp_state_def intro: srtp_index_inject)

end


record 'c srtp_filter =
  srtp_state :: srtp_state
  filter_silent_time :: u32
  offer_params :: "CryptoParams list"
  send_session :: "'c srtp_session option"
  recv_session :: "'c srtp_session option"
  send_rtcp_session :: "'c srtp_session option"
  recv_rtcp_session :: "'c srtp_session option"
  applied_send_params :: CryptoParams
  applied_recv_params :: CryptoParams

definition SrtpFilter_new :: "'c srtp_filter" where
  "SrtpFilter_new = \<lparr>srtp_state = SRTP_INIT, filter_silent_time = 0, offer_params = [], send_session = None,
     recv_session = None, send_rtcp_session = None, recv_rtcp_session = None, applied_send_params = CryptoParams_new,
     applied_recv_params = CryptoParams_new\<rparr>"

definition Srtp_IsActive :: "'c srtp_filter \<Rightarrow> bool" where
  "Srtp_IsActive f \<longleftrightarrow> srtp_state f \<ge> SRTP_ACTIVE"

definition Srtp_ExpectOffer :: "ContentSource \<Rightarrow> 'c srtp_filter \<Rightarrow> bool" where
  "Srtp_ExpectOffer source f \<longleftrightarrow>
     srtp_state f = SRTP_INIT \<or> srtp_state f = SRTP_ACTIVE \<or>
     srtp_state f = SRTP_SENTOFFER \<and> source = CS_LOCAL \<or> srtp_state f = SRTP_SENTUPDATEDOFFER \<and> source = CS_LOCAL \<or>
     srtp_state f = SRTP_RECEIVEDOFFER \<and> source = CS_REMOTE \<or> srtp_state f = SRTP_RECEIVEDUPDATEDOFFER \<and> source = CS_REMOTE"

definition StoreParams :: "CryptoParams list \<Rightarrow> ContentSource \<Rightarrow> 'c srtp_filter \<Rightarrow> bool \<times> 'c srtp_filter" where
  "StoreParams params source f =
     (True, f\<lparr>offer_params := params, srtp_state :=
        (if srtp_state f = SRTP_INIT then if source = CS_LOCAL then SRTP_SENTOFFER else SRTP_RECEIVEDOFFER
         else if source = CS_LOCAL then SRTP_SENTUPDATEDOFFER else SRTP_RECEIVEDUPDATEDOFFER)\<rparr>)"

definition Srtp_SetOffer :: "CryptoParams list \<Rightarrow> ContentSource \<Rightarrow> 'c srtp_filter \<Rightarrow> bool \<times> 'c srtp_filter" where
  "Srtp_SetOffer params source f = (if \<not> Srtp_ExpectOffer source f then (False, f) else StoreParams params source f)"

definition Srtp_ExpectAnswer :: "ContentSource \<Rightarrow> 'c srtp_filter \<Rightarrow> bool" where
  "Srtp_ExpectAnswer source f \<longleftrightarrow>
     srtp_state f = SRTP_SENTOFFER \<and> source = CS_REMOTE \<or> srtp_state f = SRTP_RECEIVEDOFFER \<and> source = CS_LOCAL \<or>
     srtp_state f = SRTP_SENTUPDATEDOFFER \<and> source = CS_REMOTE \<or> srtp_state f = SRTP_RECEIVEDUPDATEDOFFER \<and> source = CS_LOCAL \<or>
     srtp_state f = SRTP_SENTPRANSWER_NO_CRYPTO \<and> source = CS_LOCAL \<or> srtp_state f = SRTP_SENTPRANSWER \<and> source = CS_LOCAL \<or>
     srtp_state f = SRTP_RECEIVEDPRANSWER_NO_CRYPTO \<and> source = CS_REMOTE \<or> srtp_state f = SRTP_RECEIVEDPRANSWER \<and> source = CS_REMOTE"

definition ResetParams :: "'c srtp_filter \<Rightarrow> bool \<times> 'c srtp_filter" where
  "ResetParams f = (True, f\<lparr>offer_params := [], srtp_state := SRTP_INIT\<rparr>)"

definition NegotiateParams :: "CryptoParams list \<Rightarrow> 'c srtp_filter \<Rightarrow> CryptoParams option" where
  "NegotiateParams answer_params f =
     (if length answer_params = 1 \<and> offer_params f \<noteq> []
      then List.find (\<lambda>it. Crypto_Matches (answer_params ! 0) it) (offer_params f) else None)"

definition ParseKeyParams :: "byte list \<Rightarrow> nat \<Rightarrow> byte list option" where
  "ParseKeyParams kp len =
     (if take 7 kp \<noteq> bytes_of ''inline:'' then None
      else case Decode_checked (drop 7 kp) DO_STRICT of
             (ok, key_str, _) \<Rightarrow> if \<not> ok \<or> length key_str \<noteq> len then None else Some key_str)"

definition CreateSrtpSessions :: "'c srtp_filter \<Rightarrow> 'c srtp_filter" where
  "CreateSrtpSessions f =
     f\<lparr>send_session := Some (Session_set_signal_silent_time (filter_silent_time f) SrtpSession_new),
       applied_send_params := CryptoParams_new,
       recv_session := Some (Session_set_signal_silent_time (filter_silent_time f) SrtpSession_new),
       applied_recv_params := CryptoParams_new\<rparr>"

text \<open>Keying the two sessions that have just been created: \<^verbatim>\<open>&&\<close> leaves the second one alone if the first fails.\<close>

definition key_sessions ::
    "'c srtp_lib \<Rightarrow> byte list \<Rightarrow> byte list \<Rightarrow> byte list \<Rightarrow> byte list \<Rightarrow> 'c srtp_filter \<Rightarrow> bool \<times> 'c srtp_filter" where
  "key_sessions L send_cs send_key recv_cs recv_key f =
     (let (ok, snd_s) = SetSend L send_cs send_key (the (send_session f));
          f = f\<lparr>send_session := Some snd_s\<rparr>
      in if \<not> ok then (False, f)
         else let (ok, rcv_s) = SetRecv L recv_cs recv_key (the (recv_session f))
              in (ok, f\<lparr>recv_session := Some rcv_s\<rparr>))"

definition ApplyParams :: "'c srtp_lib \<Rightarrow> CryptoParams \<Rightarrow> CryptoParams \<Rightarrow> 'c srtp_filter \<Rightarrow> bool \<times> 'c srtp_filter" where
  "ApplyParams L send_params recv_params f =
     (if cipher_suite (applied_send_params f) = cipher_suite send_params \<and>
         key_params (applied_send_params f) = key_params send_params \<and>
         cipher_suite (applied_recv_params f) = cipher_suite recv_params \<and>
         key_params (applied_recv_params f) = key_params recv_params
      then (True, f)
      else case (ParseKeyParams (key_params send_params) SRTP_MASTER_KEY_LEN,
                 ParseKeyParams (key_params recv_params) SRTP_MASTER_KEY_LEN) of
             (Some send_key, Some recv_key) \<Rightarrow>
               (let f = CreateSrtpSessions f;
                    (ret, f) = key_sessions L (cipher_suite send_params) send_key (cipher_suite recv_params) recv_key f
                in if ret then (True, f\<lparr>applied_send_params := send_params, applied_recv_params := recv_params\<rparr>) else (False, f))
           | _ \<Rightarrow> (False, f))"

definition DoSetAnswer ::
    "'c srtp_lib \<Rightarrow> CryptoParams list \<Rightarrow> ContentSource \<Rightarrow> bool \<Rightarrow> 'c srtp_filter \<Rightarrow> bool \<times> 'c srtp_filter" where
  "DoSetAnswer L answer_params source is_final f =
     (if \<not> Srtp_ExpectAnswer source f then (False, f)
      else if answer_params = [] then
        (if is_final then ResetParams f
         else (True, f\<lparr>srtp_state := (if source = CS_LOCAL then SRTP_SENTPRANSWER_NO_CRYPTO else SRTP_RECEIVEDPRANSWER_NO_CRYPTO)\<rparr>))
      else case NegotiateParams answer_params f of
             None \<Rightarrow> (False, f)
           | Some selected_params \<Rightarrow>
               (let send_params = (if source = CS_REMOTE then selected_params else answer_params ! 0);
                    recv_params = (if source = CS_REMOTE then answer_params ! 0 else selected_params);
                    (ok, f) = ApplyParams L send_params recv_params f
                in if \<not> ok then (False, f)
                   else if is_final then (True, f\<lparr>offer_params := [], srtp_state := SRTP_ACTIVE\<rparr>)
                   else (True, f\<lparr>srtp_state := (if source = CS_LOCAL then SRTP_SENTPRANSWER else SRTP_RECEIVEDPRANSWER)\<rparr>)))"

definition Srtp_SetAnswer ::
    "'c srtp_lib \<Rightarrow> CryptoParams list \<Rightarrow> ContentSource \<Rightarrow> 'c srtp_filter \<Rightarrow> bool \<times> 'c srtp_filter" where
  "Srtp_SetAnswer L answer_params source f = DoSetAnswer L answer_params source True f"

definition Srtp_SetProvisionalAnswer ::
    "'c srtp_lib \<Rightarrow> CryptoParams list \<Rightarrow> ContentSource \<Rightarrow> 'c srtp_filter \<Rightarrow> bool \<times> 'c srtp_filter" where
  "Srtp_SetProvisionalAnswer L answer_params source f = DoSetAnswer L answer_params source False f"

definition SetRtpParams ::
    "'c srtp_lib \<Rightarrow> byte list \<Rightarrow> byte list \<Rightarrow> byte list \<Rightarrow> byte list \<Rightarrow> 'c srtp_filter \<Rightarrow> bool \<times> 'c srtp_filter" where
  "SetRtpParams L send_cs send_key recv_cs recv_key f =
     (if srtp_state f = SRTP_ACTIVE then (False, f)
      else case key_sessions L send_cs send_key recv_cs recv_key (CreateSrtpSessions f) of
             (ok, f) \<Rightarrow> if \<not> ok then (False, f) else (True, f\<lparr>srtp_state := SRTP_ACTIVE\<rparr>))"

text \<open>The session for sending RTCP is keyed with \<^verbatim>\<open>SetRecv\<close> too.\<close>

definition SetRtcpParams ::
    "'c srtp_lib \<Rightarrow> byte list \<Rightarrow> byte list \<Rightarrow> byte list \<Rightarrow> byte list \<Rightarrow> 'c srtp_filter \<Rightarrow> bool \<times> 'c srtp_filter" where
  "SetRtcpParams L send_cs send_key recv_cs recv_key f =
     (if send_rtcp_session f \<noteq> None \<or> recv_rtcp_session f \<noteq> None then (False, f)
      else let fresh = Session_set_signal_silent_time (filter_silent_time f) SrtpSession_new;
               (ok, s) = SetRecv L send_cs send_key fresh;
               f = f\<lparr>send_rtcp_session := Some s\<rparr>
           in if \<not> ok then (False, f)
              else let (ok, r) = SetRecv L recv_cs recv_key fresh
                   in (ok, f\<lparr>recv_rtcp_session := Some r\<rparr>))"

section \<open>Packets\<close>

definition ProtectRtp ::
    "'c srtp_lib \<Rightarrow> u32 \<Rightarrow> byte list \<Rightarrow> nat \<Rightarrow> 'c srtp_filter \<Rightarrow> (bool \<times> byte list \<times> 'c srtp_filter) option" where
  "ProtectRtp L now p max_len f =
     (if \<not> Srtp_IsActive f then Some (False, p, f)
      else case send_session f of
             None \<Rightarrow> None
           | Some s \<Rightarrow> (case Session_ProtectRtp L now p max_len s of (ok, p, s) \<Rightarrow> Some (ok, p, f\<lparr>send_session := Some s\<rparr>)))"

definition ProtectRtcp ::
    "'c srtp_lib \<Rightarrow> u32 \<Rightarrow> byte list \<Rightarrow> nat \<Rightarrow> 'c srtp_filter \<Rightarrow> (bool \<times> byte list \<times> 'c srtp_filter) option" where
  "ProtectRtcp L now p max_len f =
     (if \<not> Srtp_IsActive f then Some (False, p, f)
      else case send_rtcp_session f of
             Some s \<Rightarrow> (case Session_ProtectRtcp L now p max_len s of (ok, p, s) \<Rightarrow> Some (ok, p, f\<lparr>send_rtcp_session := Some s\<rparr>))
           | None \<Rightarrow>
               (case send_session f of
                  None \<Rightarrow> None
                | Some s \<Rightarrow> (case Session_ProtectRtcp L now p max_len s of (ok, p, s) \<Rightarrow> Some (ok, p, f\<lparr>send_session := Some s\<rparr>))))"

definition UnprotectRtp ::
    "'c srtp_lib \<Rightarrow> u32 \<Rightarrow> byte list \<Rightarrow> 'c srtp_filter \<Rightarrow> (bool \<times> byte list \<times> 'c srtp_filter) option" where
  "UnprotectRtp L now p f =
     (if \<not> Srtp_IsActive f then Some (False, p, f)
      else case recv_session f of
             None \<Rightarrow> None
           | Some s \<Rightarrow> (case Session_UnprotectRtp L now p s of (ok, p, s) \<Rightarrow> Some (ok, p, f\<lparr>recv_session := Some s\<rparr>)))"

definition UnprotectRtcp ::
    "'c srtp_lib \<Rightarrow> u32 \<Rightarrow> byte list \<Rightarrow> 'c srtp_filter \<Rightarrow> (bool \<times> byte list \<times> 'c srtp_filter) option" where
  "UnprotectRtcp L now p f =
     (if \<not> Srtp_IsActive f then Some (False, p, f)
      else case recv_rtcp_session f of
             Some s \<Rightarrow> (case Session_UnprotectRtcp L now p s of (ok, p, s) \<Rightarrow> Some (ok, p, f\<lparr>recv_rtcp_session := Some s\<rparr>))
           | None \<Rightarrow>
               (case recv_session f of
                  None \<Rightarrow> None
                | Some s \<Rightarrow> (case Session_UnprotectRtcp L now p s of (ok, p, s) \<Rightarrow> Some (ok, p, f\<lparr>recv_session := Some s\<rparr>))))"

definition Filter_set_signal_silent_time :: "u32 \<Rightarrow> 'c srtp_filter \<Rightarrow> 'c srtp_filter option" where
  "Filter_set_signal_silent_time t f =
     (let f = f\<lparr>filter_silent_time := t\<rparr>
      in if srtp_state f = SRTP_ACTIVE
         then if send_session f = None \<or> recv_session f = None then None
              else Some (f\<lparr>send_session := map_option (Session_set_signal_silent_time t) (send_session f),
                           recv_session := map_option (Session_set_signal_silent_time t) (recv_session f),
                           send_rtcp_session := map_option (Session_set_signal_silent_time t) (send_rtcp_session f),
                           recv_rtcp_session := map_option (Session_set_signal_silent_time t) (recv_rtcp_session f)\<rparr>)
         else Some f)"


text \<open>Without external authentication there is nothing to hand out.\<close>

definition GetRtpAuthParams :: "'c srtp_filter \<Rightarrow> bool option" where
  "GetRtpAuthParams f =
     (if \<not> Srtp_IsActive f then Some False else case send_session f of None \<Rightarrow> None | Some _ \<Rightarrow> Some False)"

section \<open>Two filters in one negotiation\<close>

fun srtp_step :: "'c srtp_lib \<Rightarrow> CryptoParams list negotiation \<Rightarrow> 'c srtp_filter \<Rightarrow> bool \<times> 'c srtp_filter" where
  "srtp_step L (Offer ps src) f = Srtp_SetOffer ps src f"
| "srtp_step L (PrAnswer ps src) f = Srtp_SetProvisionalAnswer L ps src f"
| "srtp_step L (Answer ps src) f = Srtp_SetAnswer L ps src f"


fun srtp_mirror :: "srtp_state \<Rightarrow> srtp_state" where
  "srtp_mirror SRTP_SENTOFFER = SRTP_RECEIVEDOFFER"
| "srtp_mirror SRTP_RECEIVEDOFFER = SRTP_SENTOFFER"
| "srtp_mirror SRTP_SENTPRANSWER_NO_CRYPTO = SRTP_RECEIVEDPRANSWER_NO_CRYPTO"
| "srtp_mirror SRTP_RECEIVEDPRANSWER_NO_CRYPTO = SRTP_SENTPRANSWER_NO_CRYPTO"
| "srtp_mirror SRTP_SENTUPDATEDOFFER = SRTP_RECEIVEDUPDATEDOFFER"
| "srtp_mirror SRTP_RECEIVEDUPDATEDOFFER = SRTP_SENTUPDATEDOFFER"
| "srtp_mirror SRTP_SENTPRANSWER = SRTP_RECEIVEDPRANSWER"
| "srtp_mirror SRTP_RECEIVEDPRANSWER = SRTP_SENTPRANSWER"
| "srtp_mirror st = st"

text \<open>A sending session and the receiving session of the peer: both exist or none, and contexts are in step.\<close>

definition linked :: "('c \<Rightarrow> 'c \<Rightarrow> bool) \<Rightarrow> 'c srtp_session option \<Rightarrow> 'c srtp_session option \<Rightarrow> bool" where
  "linked R s r \<longleftrightarrow> (s = None) = (r = None) \<and>
     (\<forall>x y c d. s = Some x \<and> r = Some y \<and> session x = Some c \<and> session y = Some d \<longrightarrow> R c d)"

definition srtp_peer :: "('c \<Rightarrow> 'c \<Rightarrow> bool) \<Rightarrow> 'c srtp_filter \<Rightarrow> 'c srtp_filter \<Rightarrow> bool" where
  "srtp_peer R f g \<longleftrightarrow>
     srtp_state g = srtp_mirror (srtp_state f) \<and> offer_params g = offer_params f \<and>
     applied_send_params g = applied_recv_params f \<and> applied_recv_params g = applied_send_params f \<and>
     linked R (send_session f) (recv_session g) \<and> linked R (send_session g) (recv_session f)"

definition is_keyed :: "'c srtp_session option \<Rightarrow> bool" where
  "is_keyed s \<longleftrightarrow> (case s of None \<Rightarrow> False | Some s \<Rightarrow> session s \<noteq> None)"

text \<open>What keying a session depends on.\<close>

definition policy_of :: "ssrc_type \<Rightarrow> byte list \<Rightarrow> byte list \<Rightarrow> srtp_policy option" where
  "policy_of ty cs key =
     (if length key \<noteq> SRTP_MASTER_KEY_LEN \<or> cs \<notin> {CS_AES_CM_128_HMAC_SHA1_80, CS_AES_CM_128_HMAC_SHA1_32} then None
      else Some \<lparr>policy_rtp = (if cs = CS_AES_CM_128_HMAC_SHA1_80 then Aes_Cm_128_Hmac_Sha1_80 else Aes_Cm_128_Hmac_Sha1_32),
             policy_rtcp = Aes_Cm_128_Hmac_Sha1_80, policy_type = ty, policy_key = key\<rparr>)"

definition context_of :: "'c srtp_lib \<Rightarrow> ssrc_type \<Rightarrow> byte list \<Rightarrow> byte list \<Rightarrow> 'c option" where
  "context_of L ty cs key = (if lib_init L then Option.bind (policy_of ty cs key) (lib_create L) else None)"

lemma SetKey_result:
  assumes "session s = None"
  shows "fst (SetKey L ty cs key s) = (context_of L ty cs key \<noteq> None) \<and> session (snd (SetKey L ty cs key s)) = context_of L ty cs key"
  using assms by (auto simp: SetKey_def context_of_def policy_of_def split: option.splits)



text \<open>Keying the fresh sessions: it succeeds if both contexts can be created, and leaves the sessions with them.\<close>

lemma fresh_session: "session (Session_set_signal_silent_time t SrtpSession_new) = None"
  by (simp add: Session_set_signal_silent_time_def SrtpSession_new_def)




lemma linked_none: "linked R s r \<longleftrightarrow> (s = None) = (r = None) \<and>
     (is_keyed s \<longrightarrow> is_keyed r \<longrightarrow> R (the (session (the s))) (the (session (the r))))"
  by (cases s; cases r) (auto simp: linked_def is_keyed_def)


lemma srtp_peer_state: "srtp_peer R f g \<Longrightarrow> srtp_peer R (f\<lparr>srtp_state := st\<rparr>) (g\<lparr>srtp_state := srtp_mirror st\<rparr>)"
  "srtp_peer R f g \<Longrightarrow> srtp_peer R (f\<lparr>offer_params := ps\<rparr>) (g\<lparr>offer_params := ps\<rparr>)"
  by (simp_all add: srtp_peer_def)





section \<open>Filters with keys\<close>

text \<open>Sessions are keyed whenever a suite has been applied, and an active filter has one unless an offer was repeated
  before its answer; accepted answers apply the suite they name.\<close>

definition keyed :: "'c srtp_filter \<Rightarrow> bool" where
  "keyed f \<longleftrightarrow> (cipher_suite (applied_send_params f) \<noteq> [] \<longrightarrow> is_keyed (send_session f) \<and> is_keyed (recv_session f))"

lemma keyed_state [simp]: "keyed (f\<lparr>srtp_state := st\<rparr>) = keyed f" "keyed (f\<lparr>offer_params := ps\<rparr>) = keyed f"
  by (simp_all add: keyed_def)







section \<open>Packets between two filters\<close>







section \<open>Properties\<close>



text \<open>Offering twice activates the filter without keys. A second offer by the same side before the answer is accepted,
  leaves the filter in a state that counts as active, and the next packet is handed to a session that does not exist.\<close>

theorem srtp_reoffer_without_keys:
  "let f = snd (run (srtp_step L) [Offer ps src, Offer qs src] SrtpFilter_new)
   in fst (run (srtp_step L) [Offer ps src, Offer qs src] (SrtpFilter_new :: 'c srtp_filter)) = [True, True] \<and> Srtp_IsActive f \<and>
      ProtectRtp L now p max_len f = None \<and> UnprotectRtp L now p f = None"
  by (cases src) (simp_all add: Srtp_SetOffer_def StoreParams_def Srtp_ExpectOffer_def SrtpFilter_new_def ProtectRtp_def
    UnprotectRtp_def Srtp_IsActive_def less_eq_srtp_state_def)

text \<open>The separate session for sending RTCP is created for receiving. When \<^verbatim>\<open>SetRtcpParams\<close> succeeds, both of its
  sessions hold inbound contexts of the library.\<close>

theorem rtcp_send_session_inbound:
  assumes "SetRtcpParams L scs sk rcs rk f = (True, f')"
  shows "\<exists>s r. send_rtcp_session f' = Some s \<and> recv_rtcp_session f' = Some r \<and>
    session s = context_of L Ssrc_Any_Inbound scs sk \<and> session r = context_of L Ssrc_Any_Inbound rcs rk \<and>
    session s \<noteq> None \<and> session r \<noteq> None"
  using assms SetKey_result [OF fresh_session, where L = L and ty = Ssrc_Any_Inbound]
  by (auto simp: SetRtcpParams_def SetRecv_def Let_def split: if_splits prod.splits) (metis fst_conv snd_conv)+

section \<open>Witnesses\<close>

text \<open>A library whose contexts are the policies and whose protection appends ten bytes of the key.\<close>

definition plain_lib :: "srtp_policy srtp_lib" where
  "plain_lib = \<lparr>lib_init = True, lib_tag_len = \<lambda>_. 10, lib_create = Some,
     lib_protect = \<lambda>c p. (Err_Ok, p @ take 10 (policy_key c), c),
     lib_protect_rtcp = \<lambda>c p. (Err_Ok, p @ take 10 (policy_key c), c),
     lib_unprotect = \<lambda>c p. (Err_Ok, take (length p - length (take 10 (policy_key c))) p, c),
     lib_unprotect_rtcp = \<lambda>c p. (Err_Ok, take (length p - length (take 10 (policy_key c))) p, c)\<rparr>"





theorem rtcp_send_session_inbound_witness:
  "\<exists>s. send_rtcp_session (snd (SetRtcpParams plain_lib CS_AES_CM_128_HMAC_SHA1_80 (replicate 30 7) CS_AES_CM_128_HMAC_SHA1_80
      (replicate 30 7) SrtpFilter_new)) = Some s \<and>
    session s = context_of plain_lib Ssrc_Any_Inbound CS_AES_CM_128_HMAC_SHA1_80 (replicate 30 7)"
proof -
  have "fst (SetRtcpParams plain_lib CS_AES_CM_128_HMAC_SHA1_80 (replicate 30 7) CS_AES_CM_128_HMAC_SHA1_80
      (replicate 30 7) SrtpFilter_new)" by code_simp
  then show ?thesis using rtcp_send_session_inbound [of plain_lib CS_AES_CM_128_HMAC_SHA1_80 "replicate 30 7"
      CS_AES_CM_128_HMAC_SHA1_80 "replicate 30 7" SrtpFilter_new] by (metis prod.collapse)
qed

end
