(* ===== verification/Message_Queue.thy ===== *)
theory Message_Queue
  imports Time_Utils
begin

text \<open>
  \<^verbatim>\<open>base/messagequeue.cc\<close>: the message queue of a thread, with its delayed messages, and the manager of all queues.
  A handler is a value of type \<open>'h\<close> (\<open>None\<close> the null pointer) and the data of a message one of type \<open>'d\<close>. The priority
  queue of delayed messages is the list of its elements, the top first. Time is read at the start of an operation and after
  each wait. The socket server is a parameter of \<^verbatim>\<open>Get\<close>: the list of its answers to \<^verbatim>\<open>Wait\<close>, each a function of the time
  asked for that gives the result, the time afterwards and what other threads and the I/O have done to the queue
  in the meantime; when the list is used up the call is still waiting. The deletion of data, the wake-ups, locks and
  log messages are left out.
\<close>

section \<open>Messages\<close>

definition kForever :: int where "kForever = - 1"
definition kMaxMsgLatency :: u32 where "kMaxMsgLatency = 150"
definition MQID_ANY :: u32 where "MQID_ANY = - 1"
definition MQID_DISPOSE :: u32 where "MQID_DISPOSE = - 2"

record ('h, 'd) Message =
  phandler :: "'h option"
  message_id :: u32
  pdata :: "'d option"
  ts_sensitive :: u32

definition Message_new :: "('h, 'd) Message" where
  "Message_new = \<lparr>phandler = None, message_id = 0, pdata = None, ts_sensitive = 0\<rparr>"

definition Message_Match :: "'h option \<Rightarrow> u32 \<Rightarrow> ('h, 'd) Message \<Rightarrow> bool" where
  "Message_Match handler i m \<longleftrightarrow> (handler = None \<or> handler = phandler m) \<and> (i = MQID_ANY \<or> i = message_id m)"

record ('h, 'd) DelayedMessage =
  cmsDelay :: int
  msTrigger :: u32
  num :: u32
  dmsg :: "('h, 'd) Message"

definition Delayed_less :: "('h, 'd) DelayedMessage \<Rightarrow> ('h, 'd) DelayedMessage \<Rightarrow> bool" where
  "Delayed_less x y \<longleftrightarrow> msTrigger y < msTrigger x \<or> msTrigger y = msTrigger x \<and> num y < num x"

text \<open>The priority queue: the greatest element is on top.\<close>

fun pq_push :: "('h, 'd) DelayedMessage \<Rightarrow> ('h, 'd) DelayedMessage list \<Rightarrow> ('h, 'd) DelayedMessage list" where
  "pq_push x [] = [x]"
| "pq_push x (y # ys) = (if Delayed_less y x then x # y # ys else y # pq_push x ys)"

section \<open>The queue\<close>

record ('h, 'd) MessageQueue =
  fStop :: bool
  fPeekKeep :: bool
  msgPeek :: "('h, 'd) Message"
  msgq :: "('h, 'd) Message list"
  dmsgq :: "('h, 'd) DelayedMessage list"
  dmsgq_next_num :: u32

definition MessageQueue_new :: "('h, 'd) MessageQueue" where
  "MessageQueue_new = \<lparr>fStop = False, fPeekKeep = False, msgPeek = Message_new, msgq = [], dmsgq = [], dmsgq_next_num = 0\<rparr>"

definition Quit :: "('h, 'd) MessageQueue \<Rightarrow> ('h, 'd) MessageQueue" where
  "Quit q = q\<lparr>fStop := True\<rparr>"

definition IsQuitting :: "('h, 'd) MessageQueue \<Rightarrow> bool" where
  "IsQuitting q = fStop q"

definition Restart :: "('h, 'd) MessageQueue \<Rightarrow> ('h, 'd) MessageQueue" where
  "Restart q = q\<lparr>fStop := False\<rparr>"

definition Post :: "u32 \<Rightarrow> 'h option \<Rightarrow> u32 \<Rightarrow> 'd option \<Rightarrow> bool \<Rightarrow> ('h, 'd) MessageQueue \<Rightarrow> ('h, 'd) MessageQueue" where
  "Post now h i data time_sensitive q =
     (if fStop q then q
      else q\<lparr>msgq := msgq q @ [\<lparr>phandler = h, message_id = i, pdata = data,
                ts_sensitive = (if time_sensitive then now + kMaxMsgLatency else 0)\<rparr>]\<rparr>)"

definition DoDelayPost ::
    "int \<Rightarrow> u32 \<Rightarrow> 'h option \<Rightarrow> u32 \<Rightarrow> 'd option \<Rightarrow> ('h, 'd) MessageQueue \<Rightarrow> ('h, 'd) MessageQueue" where
  "DoDelayPost delay tstamp h i data q =
     (if fStop q then q
      else let msg = \<lparr>phandler = h, message_id = i, pdata = data, ts_sensitive = 0\<rparr>;
               d = \<lparr>cmsDelay = delay, msTrigger = tstamp, num = dmsgq_next_num q, dmsg = msg\<rparr>
           in q\<lparr>dmsgq := pq_push d (dmsgq q), dmsgq_next_num := dmsgq_next_num q + 1\<rparr>)"

definition PostDelayed ::
    "u32 \<Rightarrow> int \<Rightarrow> 'h option \<Rightarrow> u32 \<Rightarrow> 'd option \<Rightarrow> ('h, 'd) MessageQueue \<Rightarrow> ('h, 'd) MessageQueue" where
  "PostDelayed now delay h i data q = DoDelayPost delay (TimeAfter now delay) h i data q"

definition PostAt ::
    "u32 \<Rightarrow> u32 \<Rightarrow> 'h option \<Rightarrow> u32 \<Rightarrow> 'd option \<Rightarrow> ('h, 'd) MessageQueue \<Rightarrow> ('h, 'd) MessageQueue" where
  "PostAt now tstamp h i data q = DoDelayPost (TimeUntil now tstamp) tstamp h i data q"

definition Dispose :: "u32 \<Rightarrow> 'd option \<Rightarrow> ('h, 'd) MessageQueue \<Rightarrow> ('h, 'd) MessageQueue" where
  "Dispose now doomed q = (if doomed = None then q else Post now None MQID_DISPOSE doomed False q)"

definition GetDelay :: "u32 \<Rightarrow> ('h, 'd) MessageQueue \<Rightarrow> int" where
  "GetDelay now q =
     (if msgq q \<noteq> [] then 0
      else case dmsgq q of
             d # _ \<Rightarrow> (let delay = TimeUntil now (msTrigger d) in if delay < 0 then 0 else delay)
           | [] \<Rightarrow> kForever)"

definition mq_size :: "('h, 'd) MessageQueue \<Rightarrow> nat" where
  "mq_size q = length (msgq q) + length (dmsgq q) + (if fPeekKeep q then 1 else 0)"

definition mq_empty :: "('h, 'd) MessageQueue \<Rightarrow> bool" where
  "mq_empty q \<longleftrightarrow> mq_size q = 0"

text \<open>Clearing gives the messages that \<^verbatim>\<open>removed\<close> receives.\<close>

definition Clear :: "'h option \<Rightarrow> u32 \<Rightarrow> ('h, 'd) MessageQueue \<Rightarrow> ('h, 'd) Message list \<times> ('h, 'd) MessageQueue" where
  "Clear h i q =
     (let (removed, q) = (if fPeekKeep q \<and> Message_Match h i (msgPeek q) then ([msgPeek q], q\<lparr>fPeekKeep := False\<rparr>) else ([], q));
          removed = removed @ filter (Message_Match h i) (msgq q);
          q = q\<lparr>msgq := filter (\<lambda>m. \<not> Message_Match h i m) (msgq q)\<rparr>;
          removed = removed @ map dmsg (filter (\<lambda>d. Message_Match h i (dmsg d)) (dmsgq q))
      in (removed, q\<lparr>dmsgq := filter (\<lambda>d. \<not> Message_Match h i (dmsg d)) (dmsgq q)\<rparr>))"

section \<open>Getting messages\<close>

text \<open>The first pass moves the delayed messages that have been triggered, and gives the time to the next one.\<close>

fun move_due ::
    "u32 \<Rightarrow> ('h, 'd) DelayedMessage list \<Rightarrow> ('h, 'd) Message list \<Rightarrow> int \<times> ('h, 'd) DelayedMessage list \<times> ('h, 'd) Message list" where
  "move_due now [] ms = (kForever, [], ms)"
| "move_due now (d # ds) ms =
     (if TimeIsLater now (msTrigger d) then (TimeDiff (msTrigger d) now, d # ds, ms) else move_due now ds (ms @ [dmsg d]))"

text \<open>Pulling a message, with dispose messages skipped.\<close>

fun pull :: "('h, 'd) Message list \<Rightarrow> ('h, 'd) Message option \<times> ('h, 'd) Message list" where
  "pull [] = (None, [])"
| "pull (m # ms) = (if MQID_DISPOSE = message_id m then pull ms else (Some m, ms))"

definition Get_pass :: "u32 \<Rightarrow> ('h, 'd) MessageQueue \<Rightarrow> int \<times> ('h, 'd) Message option \<times> ('h, 'd) MessageQueue" where
  "Get_pass now q =
     (case move_due now (dmsgq q) (msgq q) of
        (cmsDelayNext, ds, ms) \<Rightarrow> (case pull ms of (r, ms) \<Rightarrow> (cmsDelayNext, r, q\<lparr>dmsgq := ds, msgq := ms\<rparr>)))"

definition next_wait :: "int \<Rightarrow> int \<Rightarrow> int \<Rightarrow> int" where
  "next_wait cmsWait cmsElapsed cmsDelayNext =
     (if cmsWait = kForever then cmsDelayNext
      else let cmsNext = max 0 (cmsWait - cmsElapsed)
           in if cmsDelayNext \<noteq> kForever \<and> cmsDelayNext < cmsNext then cmsDelayNext else cmsNext)"

datatype ('h, 'd) get_result = Got "('h, 'd) Message" | Got_None | Waiting int

type_synonym ('h, 'd) wait = "int \<Rightarrow> bool \<times> u32 \<times> (('h, 'd) MessageQueue \<Rightarrow> ('h, 'd) MessageQueue)"

fun Get_loop ::
    "int \<Rightarrow> u32 \<Rightarrow> u32 \<Rightarrow> ('h, 'd) wait list \<Rightarrow> ('h, 'd) MessageQueue \<Rightarrow> ('h, 'd) get_result \<times> ('h, 'd) MessageQueue" where
  "Get_loop cmsWait msStart msCurrent ss q =
     (case Get_pass msCurrent q of
        (_, Some m, q) \<Rightarrow> (Got m, q)
      | (cmsDelayNext, None, q) \<Rightarrow>
          (if fStop q then (Got_None, q)
           else let cmsNext = next_wait cmsWait (TimeDiff msCurrent msStart) cmsDelayNext
                in case ss of
                     [] \<Rightarrow> (Waiting cmsNext, q)
                   | s # ss \<Rightarrow>
                       (case s cmsNext of
                          (ok, now, others) \<Rightarrow>
                            (let q = others q
                             in if \<not> ok then (Got_None, q)
                                else if cmsWait \<noteq> kForever \<and> TimeDiff now msStart \<ge> cmsWait then (Got_None, q)
                                else Get_loop cmsWait msStart now ss q))))"

declare Get_loop.simps [simp del]

definition Get :: "u32 \<Rightarrow> int \<Rightarrow> ('h, 'd) wait list \<Rightarrow> ('h, 'd) MessageQueue \<Rightarrow> ('h, 'd) get_result \<times> ('h, 'd) MessageQueue" where
  "Get now cmsWait ss q =
     (if fPeekKeep q then (Got (msgPeek q), q\<lparr>fPeekKeep := False\<rparr>) else Get_loop cmsWait now now ss q)"

definition Peek :: "u32 \<Rightarrow> int \<Rightarrow> ('h, 'd) wait list \<Rightarrow> ('h, 'd) MessageQueue \<Rightarrow> ('h, 'd) get_result \<times> ('h, 'd) MessageQueue" where
  "Peek now cmsWait ss q =
     (if fPeekKeep q then (Got (msgPeek q), q)
      else case Get now cmsWait ss q of
             (Got m, q) \<Rightarrow> (Got m, q\<lparr>msgPeek := m, fPeekKeep := True\<rparr>)
           | r \<Rightarrow> r)"

section \<open>The manager\<close>

text \<open>The queues that exist, by their addresses; the manager exists while there is one.\<close>

type_synonym ('h, 'd) queues = "(nat \<times> ('h, 'd) MessageQueue) list"

definition Manager_Add :: "nat \<Rightarrow> ('h, 'd) MessageQueue \<Rightarrow> ('h, 'd) queues \<Rightarrow> ('h, 'd) queues" where
  "Manager_Add p q qs = qs @ [(p, q)]"

fun Manager_Remove :: "nat \<Rightarrow> ('h, 'd) queues \<Rightarrow> ('h, 'd) queues" where
  "Manager_Remove p [] = []"
| "Manager_Remove p (e # qs) = (if fst e = p then qs else e # Manager_Remove p qs)"

definition Manager_Clear :: "'h option \<Rightarrow> ('h, 'd) queues \<Rightarrow> ('h, 'd) queues" where
  "Manager_Clear h qs = map (\<lambda>(p, q). (p, snd (Clear h MQID_ANY q))) qs"

section \<open>Steps and the invariant\<close>

text \<open>What can happen to a queue between two looks at it, where \<open>P\<close> says for which handlers messages are posted. A call of
  \<^verbatim>\<open>Get\<close> that waits is a sequence of passes, with the steps of others in between.\<close>

inductive mq_step :: "('h option \<Rightarrow> bool) \<Rightarrow> ('h, 'd) MessageQueue \<Rightarrow> ('h, 'd) MessageQueue \<Rightarrow> bool" for P where
  post: "P h \<Longrightarrow> mq_step P q (Post now h i data ts q)"
| post_delayed: "P h \<Longrightarrow> mq_step P q (PostDelayed now delay h i data q)"
| post_at: "P h \<Longrightarrow> mq_step P q (PostAt now t h i data q)"
| dispose: "P None \<Longrightarrow> mq_step P q (Dispose now data q)"
| clear: "mq_step P q (snd (Clear h i q))"
| quit: "mq_step P q (Quit q)"
| restart: "mq_step P q (Restart q)"
| pass: "mq_step P q (snd (snd (Get_pass now q)))"
| peek: "fst (snd (Get_pass now q)) = Some m \<Longrightarrow>
    mq_step P q ((snd (snd (Get_pass now q)))\<lparr>msgPeek := m, fPeekKeep := True\<rparr>)"
| take_peek: "mq_step P q (q\<lparr>fPeekKeep := False\<rparr>)"

inductive_cases mq_stepE: "mq_step P q q'"

definition mq_inv :: "('h, 'd) MessageQueue \<Rightarrow> bool" where
  "mq_inv q \<longleftrightarrow> sorted_wrt (\<lambda>x y. \<not> Delayed_less x y) (dmsgq q)"

definition all_messages :: "('h, 'd) MessageQueue \<Rightarrow> ('h, 'd) Message list" where
  "all_messages q = (if fPeekKeep q then [msgPeek q] else []) @ msgq q @ map dmsg (dmsgq q)"

abbreviation due :: "u32 \<Rightarrow> ('h, 'd) DelayedMessage \<Rightarrow> bool" where
  "due now d \<equiv> \<not> TimeIsLater now (msTrigger d)"

abbreviation disposal :: "('h, 'd) Message \<Rightarrow> bool" where
  "disposal m \<equiv> message_id m = MQID_DISPOSE"

lemma set_pq_push [simp]: "set (pq_push d ds) = insert d (set ds)"
  by (induction ds) auto

lemma pq_push_sorted:
  "sorted_wrt (\<lambda>x y. \<not> Delayed_less x y) ds \<Longrightarrow> sorted_wrt (\<lambda>x y. \<not> Delayed_less x y) (pq_push d ds)"
proof (induction ds)
  case (Cons y ys)
  have trans: "Delayed_less y d \<Longrightarrow> Delayed_less d z \<Longrightarrow> Delayed_less y z" for z by (auto simp: Delayed_less_def)
  show ?case using Cons trans by (auto simp: Delayed_less_def)
qed simp

lemma move_due_eq:
  "move_due now ds ms =
     ((case dropWhile (due now) ds of [] \<Rightarrow> kForever | d # _ \<Rightarrow> TimeDiff (msTrigger d) now), dropWhile (due now) ds,
      ms @ map dmsg (takeWhile (due now) ds))"
  by (induction ds arbitrary: ms) auto

lemma pull_eq: "pull ms = (case dropWhile disposal ms of [] \<Rightarrow> (None, []) | m # ms \<Rightarrow> (Some m, ms))"
  by (induction ms) auto

lemma Get_pass_eq:
  "Get_pass now q =
     (let ds = dropWhile (due now) (dmsgq q); ms = dropWhile disposal (msgq q @ map dmsg (takeWhile (due now) (dmsgq q)))
      in ((case ds of [] \<Rightarrow> kForever | d # _ \<Rightarrow> TimeDiff (msTrigger d) now),
          (case ms of [] \<Rightarrow> None | m # _ \<Rightarrow> Some m), q\<lparr>dmsgq := ds, msgq := (case ms of [] \<Rightarrow> [] | _ # ms \<Rightarrow> ms)\<rparr>))"
  by (cases "dropWhile disposal (msgq q @ map dmsg (takeWhile (due now) (dmsgq q)))")
    (simp_all only: Get_pass_def move_due_eq pull_eq Let_def prod.case list.case)

lemma sorted_wrt_dropWhile: "sorted_wrt R xs \<Longrightarrow> sorted_wrt R (dropWhile P xs)"
  by (induction xs) auto

lemma Clear_fields [simp]:
  "dmsgq (snd (Clear h i q)) = filter (\<lambda>d. \<not> Message_Match h i (dmsg d)) (dmsgq q)"
  "msgq (snd (Clear h i q)) = filter (\<lambda>m. \<not> Message_Match h i m) (msgq q)"
  "fPeekKeep (snd (Clear h i q)) = (fPeekKeep q \<and> \<not> Message_Match h i (msgPeek q))"
  "msgPeek (snd (Clear h i q)) = msgPeek q" "fStop (snd (Clear h i q)) = fStop q"
  by (auto simp: Clear_def Let_def)

lemma mq_inv_step: "mq_step P q q' \<Longrightarrow> mq_inv q \<Longrightarrow> mq_inv q'"
  by (erule mq_stepE)
    (auto simp: mq_inv_def Post_def PostDelayed_def PostAt_def DoDelayPost_def Dispose_def Quit_def Restart_def Let_def
      Get_pass_eq intro: pq_push_sorted sorted_wrt_filter sorted_wrt_dropWhile)

definition mq_reachable :: "('h, 'd) MessageQueue \<Rightarrow> bool" where
  "mq_reachable q \<longleftrightarrow> (mq_step (\<lambda>_. True))\<^sup>*\<^sup>* MessageQueue_new q"

lemma mq_reachable_new: "mq_reachable MessageQueue_new"
  by (simp add: mq_reachable_def)

lemma mq_reachable_step: "mq_reachable q \<Longrightarrow> mq_step (\<lambda>_. True) q q' \<Longrightarrow> mq_reachable q'"
  by (simp add: mq_reachable_def rtranclp.rtrancl_into_rtrancl)

lemma mq_reachable_inv: "mq_reachable q \<Longrightarrow> mq_inv q"
  unfolding mq_reachable_def
  by (induction rule: rtranclp_induct) (auto simp: mq_inv_def MessageQueue_new_def intro: mq_inv_step [unfolded mq_inv_def])

text \<open>The clock has not wrapped between now and the delayed messages.\<close>

definition clock_ok :: "u32 \<Rightarrow> ('h, 'd) MessageQueue \<Rightarrow> bool" where
  "clock_ok now q \<longleftrightarrow> (\<forall>d\<in>set (dmsgq q). TimeIsLater now (msTrigger d) = (now < msTrigger d))"

text \<open>The messages that can be delivered now, in their order.\<close>

definition ready :: "u32 \<Rightarrow> ('h, 'd) MessageQueue \<Rightarrow> ('h, 'd) Message list" where
  "ready now q = filter (\<lambda>m. \<not> disposal m) (msgq q @ map dmsg (filter (\<lambda>d. msTrigger d \<le> now) (dmsgq q)))"

lemma sorted_split:
  assumes "mq_inv q" "clock_ok now q"
  shows "takeWhile (due now) (dmsgq q) = filter (\<lambda>d. msTrigger d \<le> now) (dmsgq q)"
    "dropWhile (due now) (dmsgq q) = filter (\<lambda>d. now < msTrigger d) (dmsgq q)"
proof -
  have "takeWhile (due now) ds = filter (\<lambda>d. msTrigger d \<le> now) ds \<and> dropWhile (due now) ds = filter (\<lambda>d. now < msTrigger d) ds"
    if "sorted_wrt (\<lambda>x y. \<not> Delayed_less x y) ds" "\<forall>d\<in>set ds. TimeIsLater now (msTrigger d) = (now < msTrigger d)" for ds :: "('a, 'b) DelayedMessage list"
    using that
  proof (induction ds)
    case (Cons d ds)
    have "\<forall>e\<in>set ds. now < msTrigger e" if "now < msTrigger d"
      using Cons.prems(1) that by (auto simp: Delayed_less_def not_less)
    then show ?case using Cons by (auto simp: not_less not_le filter_empty_conv filter_id_conv)
  qed simp
  from this [of "dmsgq q"] show "takeWhile (due now) (dmsgq q) = filter (\<lambda>d. msTrigger d \<le> now) (dmsgq q)"
    "dropWhile (due now) (dmsgq q) = filter (\<lambda>d. now < msTrigger d) (dmsgq q)"
    using assms by (simp_all add: mq_inv_def clock_ok_def)
qed

text \<open>One pass of \<^verbatim>\<open>Get\<close> in terms of what is ready.\<close>

lemma first_kept:
  "(case dropWhile P xs of [] \<Rightarrow> None | m # _ \<Rightarrow> Some m) = (case filter (\<lambda>x. \<not> P x) xs of [] \<Rightarrow> None | m # _ \<Rightarrow> Some m)"
  "filter (\<lambda>x. \<not> P x) (case dropWhile P xs of [] \<Rightarrow> [] | _ # ms \<Rightarrow> ms) = tl (filter (\<lambda>x. \<not> P x) xs)"
  by (induction xs) auto

lemma pass_ready:
  assumes "mq_inv q" "clock_ok now q"
  shows "fst (snd (Get_pass now q)) = (case ready now q of [] \<Rightarrow> None | m # _ \<Rightarrow> Some m)"
    and "filter (\<lambda>m. \<not> disposal m) (msgq (snd (snd (Get_pass now q)))) = tl (ready now q)"
    and "dmsgq (snd (snd (Get_pass now q))) = filter (\<lambda>d. now < msTrigger d) (dmsgq q)"
proof -
  define xs where "xs = msgq q @ map dmsg (filter (\<lambda>d. msTrigger d \<le> now) (dmsgq q))"
  have r: "ready now q = filter (\<lambda>m. \<not> disposal m) xs" by (simp only: ready_def xs_def)
  have p: "Get_pass now q = (case filter (\<lambda>d. now < msTrigger d) (dmsgq q) of [] \<Rightarrow> kForever | d # _ \<Rightarrow> TimeDiff (msTrigger d) now,
      case dropWhile disposal xs of [] \<Rightarrow> None | m # _ \<Rightarrow> Some m,
      q\<lparr>dmsgq := filter (\<lambda>d. now < msTrigger d) (dmsgq q), msgq := (case dropWhile disposal xs of [] \<Rightarrow> [] | _ # ms \<Rightarrow> ms)\<rparr>)"
    by (simp only: Get_pass_eq Let_def xs_def sorted_split [OF assms])
  show "fst (snd (Get_pass now q)) = (case ready now q of [] \<Rightarrow> None | m # _ \<Rightarrow> Some m)"
    "filter (\<lambda>m. \<not> disposal m) (msgq (snd (snd (Get_pass now q)))) = tl (ready now q)"
    "dmsgq (snd (snd (Get_pass now q))) = filter (\<lambda>d. now < msTrigger d) (dmsgq q)"
    unfolding p r using first_kept [of disposal xs] by simp_all
qed

lemma pass_keeps:
  "fStop (snd (snd (Get_pass now q))) = fStop q" "fPeekKeep (snd (snd (Get_pass now q))) = fPeekKeep q"
  by (simp_all add: Get_pass_eq Let_def)

lemma pass_stable:
  assumes "mq_inv q" "clock_ok now q"
  defines "q' \<equiv> snd (snd (Get_pass now q))"
  shows "mq_inv q' \<and> clock_ok now q' \<and> ready now q' = tl (ready now q)"
proof -
  have "mq_inv q'" using mq_inv_step [OF mq_step.pass assms(1)] by (simp add: q'_def)
  moreover have "clock_ok now q'" using assms(2) pass_ready(3) [OF assms(1,2)] by (simp add: q'_def clock_ok_def)
  moreover have "ready now q' = tl (ready now q)"
  proof -
    have "filter (\<lambda>d. msTrigger d \<le> now) (dmsgq q') = []" using pass_ready(3) [OF assms(1,2)] by (auto simp: q'_def filter_empty_conv)
    then show ?thesis using pass_ready(2) [OF assms(1,2)] by (simp add: q'_def ready_def [of now "snd (snd (Get_pass now q))"])
  qed
  ultimately show ?thesis by simp
qed

lemma Get_of_pass:
  assumes "\<not> fPeekKeep q"
  shows "Get now w ss q = (case Get_pass now q of (_, Some m, q) \<Rightarrow> (Got m, q) | _ \<Rightarrow> Get_loop w now now ss q)"
proof (cases "Get_pass now q")
  case (fields del r q')
  then show ?thesis using assms by (cases r) (simp_all add: Get_def, simp add: Get_loop.simps)
qed

section \<open>Properties\<close>

text \<open>Successive calls of \<^verbatim>\<open>Get\<close> that do not wait.\<close>

fun gets :: "u32 \<Rightarrow> nat \<Rightarrow> ('h, 'd) MessageQueue \<Rightarrow> ('h, 'd) Message list" where
  "gets now 0 q = []"
| "gets now (Suc n) q = (case Get now 0 [] q of (Got m, q) \<Rightarrow> m # gets now n q | _ \<Rightarrow> [])"

lemma gets_ready:
  "mq_inv q \<Longrightarrow> clock_ok now q \<Longrightarrow> \<not> fPeekKeep q \<Longrightarrow> gets now n q = take n (ready now q)"
proof (induction n arbitrary: q)
  case (Suc n)
  obtain del r q' where p: "Get_pass now q = (del, r, q')" by (cases "Get_pass now q")
  note pr = pass_ready [OF Suc.prems(1,2)] pass_stable [OF Suc.prems(1,2)]
  show ?case
  proof (cases "ready now q")
    case Nil
    then have "r = None" using pr p by simp
    then have "\<exists>x q'. Get now 0 [] q = (x, q') \<and> (\<forall>m. x \<noteq> Got m)"
      using p Suc.prems by (simp add: Get_of_pass Get_loop.simps Let_def)
    then show ?thesis using Nil by (auto split: get_result.splits)
  next
    case (Cons m ms)
    then have "Get now 0 [] q = (Got m, q')" using pr p Suc.prems by (simp add: Get_of_pass)
    moreover have "gets now n q' = take n (ready now q')"
      using Suc.IH [of q'] pr p Suc.prems(3) pass_keeps(2) [of now q] by simp
    ultimately show ?thesis using pr p Cons by simp
  qed
qed simp


text \<open>\<^verbatim>\<open>Get\<close> never oversleeps. When it has nothing to deliver, the time it asks the socket server to wait ends no later
  than any delayed message that is still to come and than the time the caller allowed, and it is unlimited exactly when
  the caller set no limit and no message is to come.\<close>

theorem queue_never_oversleeps:
  assumes "mq_reachable q" "clock_ok now q" "fst (Get_loop cmsWait msStart now [] q) = Waiting c"
    "cmsWait = kForever \<or> 0 \<le> cmsWait"
  shows "(c = kForever) = (cmsWait = kForever \<and> filter (\<lambda>d. now < msTrigger d) (dmsgq q) = []) \<and>
    (cmsWait \<noteq> kForever \<longrightarrow> 0 \<le> c \<and> c \<le> max 0 (cmsWait - TimeDiff now msStart)) \<and>
    (\<forall>d\<in>set (dmsgq q). now < msTrigger d \<longrightarrow> c \<le> uint (msTrigger d) - uint now)"
proof -
  note inv = mq_reachable_inv [OF assms(1)]
  define later where "later = filter (\<lambda>d. now < msTrigger d) (dmsgq q)"
  obtain del r q' where p: "Get_pass now q = (del, r, q')" by (cases "Get_pass now q")
  have del: "del = (case later of [] \<Rightarrow> kForever | d # _ \<Rightarrow> TimeDiff (msTrigger d) now)"
    using p sorted_split(2) [OF inv assms(2)] by (simp add: Get_pass_eq Let_def later_def)
  have c: "c = next_wait cmsWait (TimeDiff now msStart) del"
    using assms(3) p by (auto simp: Get_loop.simps Let_def split: option.splits if_splits)
  show ?thesis
  proof (cases later)
    case Nil
    then have "\<forall>d\<in>set (dmsgq q). \<not> now < msTrigger d" by (simp add: later_def filter_empty_conv)
    then show ?thesis using Nil del c assms(4) by (auto simp: later_def [symmetric] next_wait_def Let_def kForever_def)
  next
    case (Cons d ds)
    have d: "now < msTrigger d" "d \<in> set (dmsgq q)" using Cons later_def [symmetric] filter_set [of _ "dmsgq q"] by (auto simp: filter_eq_Cons_iff)
    then have "TimeIsLater now (msTrigger d)" using assms(2) by (simp add: clock_ok_def)
    then have del': "del = uint (msTrigger d) - uint now" "0 < del"
      using d(1) del Cons by (auto simp: TimeIsLater_dist TimeDiff_dist uint_diff_u32 word_less_def)
    have "sorted_wrt (\<lambda>x y. \<not> Delayed_less x y) later" using inv by (simp add: later_def mq_inv_def sorted_wrt_filter)
    then have "uint (msTrigger d) \<le> uint (msTrigger e)" if "e \<in> set later" for e
      using that Cons by (auto simp: Delayed_less_def word_le_def [symmetric] not_less)
    then have "del \<le> uint (msTrigger e) - uint now" if "e \<in> set (dmsgq q)" "now < msTrigger e" for e
      using that del'(1) by (auto simp: later_def)
    moreover have "c \<le> del" "c \<noteq> kForever" using c del' assms(4) by (auto simp: next_wait_def Let_def kForever_def)
    ultimately have "\<forall>e\<in>set (dmsgq q). now < msTrigger e \<longrightarrow> c \<le> uint (msTrigger e) - uint now" "c \<noteq> kForever"
      by (auto intro: order_trans)
    moreover have "cmsWait \<noteq> kForever \<longrightarrow> 0 \<le> c \<and> c \<le> max 0 (cmsWait - TimeDiff now msStart)"
      using c del' by (auto simp: next_wait_def Let_def)
    ultimately show ?thesis using Cons by (simp add: later_def [symmetric])
  qed
qed

text \<open>Only posts put messages into a queue.\<close>

lemma move_due_set: "move_due now ds ms = (del, ds', ms') \<Longrightarrow> set ds' \<subseteq> set ds \<and> set ms' \<subseteq> set ms \<union> dmsg ` set ds"
  by (induction now ds ms rule: move_due.induct) (auto split: if_splits)

lemma pull_set: "pull ms = (r, ms') \<Longrightarrow> set ms' \<subseteq> set ms \<and> set_option r \<subseteq> set ms"
  by (induction ms rule: pull.induct) (auto split: if_splits)

lemma pass_set:
  "set (msgq (snd (snd (Get_pass now q)))) \<union> dmsg ` set (dmsgq (snd (snd (Get_pass now q)))) \<union> set_option (fst (snd (Get_pass now q)))
    \<subseteq> set (msgq q) \<union> dmsg ` set (dmsgq q)"
proof -
  obtain del ds ms where m: "move_due now (dmsgq q) (msgq q) = (del, ds, ms)" by (cases "move_due now (dmsgq q) (msgq q)")
  obtain r ms' where p: "pull ms = (r, ms')" by (cases "pull ms")
  show ?thesis using move_due_set [OF m] pull_set [OF p] m p by (auto simp: Get_pass_def)
qed

lemma all_messages_step:
  assumes "mq_step P q q'"
  shows "set (all_messages q') \<subseteq> set (all_messages q) \<union> {m. P (phandler m)}"
  using assms
proof cases
  case (pass now)
  then show ?thesis using pass_set [of now q] pass_keeps [of now q] by (auto simp: all_messages_def Get_pass_eq Let_def)
next
  case (peek now m)
  then show ?thesis using pass_set [of now q] by (auto simp: all_messages_def)
qed (auto simp: all_messages_def Post_def PostDelayed_def PostAt_def DoDelayPost_def Dispose_def Quit_def Restart_def Let_def
  split: if_splits)

lemma Clear_removed:
  "fst (Clear h i q) = filter (Message_Match h i) (all_messages q)" "all_messages (snd (Clear h i q)) = filter (\<lambda>m. \<not> Message_Match h i m) (all_messages q)"
  by (auto simp: Clear_def Let_def all_messages_def filter_map comp_def)

text \<open>C32: a cleared handler hears nothing more. Clearing removes exactly the messages of the handler and keeps the others in
  their order; and whatever happens to the queue afterwards, as long as nobody posts to the handler again, the queue
  holds no message for it, and a pass of \<^verbatim>\<open>Get\<close> gives none.\<close>

theorem cleared_handler_is_silent:
  assumes "(mq_step (\<lambda>x. x \<noteq> Some h))\<^sup>*\<^sup>* (snd (Clear (Some h) MQID_ANY q)) q'"
  shows "fst (Clear (Some h) MQID_ANY q) = filter (\<lambda>m. phandler m = Some h) (all_messages q) \<and>
    all_messages (snd (Clear (Some h) MQID_ANY q)) = filter (\<lambda>m. phandler m \<noteq> Some h) (all_messages q) \<and>
    (\<forall>m\<in>set (all_messages q'). phandler m \<noteq> Some h) \<and>
    (\<forall>m. fst (snd (Get_pass now q')) = Some m \<longrightarrow> phandler m \<noteq> Some h)"
proof -
  have m: "Message_Match (Some h) MQID_ANY = (\<lambda>m. phandler m = Some h)" by (auto simp: Message_Match_def)
  have "\<forall>m\<in>set (all_messages q'). phandler m \<noteq> Some h"
    using assms
  proof (induction rule: rtranclp_induct)
    case base
    then show ?case by (simp add: Clear_removed m)
  next
    case (step y z)
    then show ?case using all_messages_step [OF step.hyps(2)] by blast
  qed
  moreover from this have "\<forall>m. fst (snd (Get_pass now q')) = Some m \<longrightarrow> phandler m \<noteq> Some h"
    using pass_set [of now q'] by (auto simp: all_messages_def)
  ultimately show ?thesis by (simp add: Clear_removed m)
qed

text \<open>A queue that quits still delivers what is ready. After \<^verbatim>\<open>Quit\<close> posts change nothing, \<^verbatim>\<open>Get\<close> never waits whatever the
  socket server would do, it delivers the ready messages in their order, and then returns without one.\<close>

theorem quit_delivers_ready:
  assumes "mq_reachable q" "\<not> fPeekKeep q" "clock_ok now q"
  shows "fst (Get now w ss (Quit q)) = (case ready now q of [] \<Rightarrow> Got_None | m # _ \<Rightarrow> Got m) \<and>
    gets now n (Quit q) = take n (ready now q) \<and>
    Post now h i data ts (Quit q) = Quit q \<and> DoDelayPost delay t h i data (Quit q) = Quit q"
proof -
  have q: "mq_inv (Quit q)" "clock_ok now (Quit q)" "\<not> fPeekKeep (Quit q)" "ready now (Quit q) = ready now q"
    using mq_reachable_inv [OF assms(1)] assms by (simp_all add: Quit_def mq_inv_def clock_ok_def ready_def)
  obtain del r q' where p: "Get_pass now (Quit q) = (del, r, q')" by (cases "Get_pass now (Quit q)")
  have "fStop q'" using pass_keeps(1) [of now "Quit q"] p by (simp add: Quit_def)
  then have "fst (Get now w ss (Quit q)) = (case ready now q of [] \<Rightarrow> Got_None | m # _ \<Rightarrow> Got m)"
    using pass_ready(1) [OF q(1,2)] q(3,4) p by (simp add: Get_def Get_loop.simps split: list.splits)
  then show ?thesis using gets_ready [OF q(1-3)] q(4) by (simp add: Post_def DoDelayPost_def Quit_def)
qed

text \<open>C37: delayed messages block each other around the wrap of the clock. They are ordered by their trigger times as plain
  numbers; so a message triggered after the wrap, which is not due, comes before one that is due before it, and the due
  message is neither delivered nor counted when the time to wait is computed.\<close>

theorem wrapped_timer_blocks:
  assumes "mq_reachable q" "d \<in> set (dmsgq q)" "e \<in> set (dmsgq q)" "\<not> TimeIsLater now (msTrigger d)"
    "TimeIsLater now (msTrigger e)" "msTrigger e < msTrigger d"
  shows "d \<in> set (dmsgq (snd (snd (Get_pass now q)))) \<and> fst (Get_pass now q) > 0"
proof -
  have "d \<in> set (dropWhile (due now) ds) \<and> (\<exists>x xs. dropWhile (due now) ds = x # xs \<and> TimeIsLater now (msTrigger x))"
    if "sorted_wrt (\<lambda>x y. \<not> Delayed_less x y) ds" "d \<in> set ds" "e \<in> set ds" for ds
    using that assms(4-6) by (induction ds) (auto simp: Delayed_less_def)
  from this [OF _ assms(2,3)] obtain x xs where x: "dropWhile (due now) (dmsgq q) = x # xs" "TimeIsLater now (msTrigger x)" "d \<in> set (x # xs)"
    using mq_reachable_inv [OF assms(1)] by (auto simp: mq_inv_def)
  moreover have "TimeDiff (msTrigger x) now > 0" using x(2) by (simp add: TimeIsLater_dist TimeDiff_dist)
  ultimately show ?thesis by (auto simp: Get_pass_eq Let_def)
qed

section \<open>Witnesses\<close>

text \<open>A queue with a posted message and two delayed ones, just before the clock wraps.\<close>

definition sample_queue :: "u32 \<Rightarrow> (nat, nat) MessageQueue" where
  "sample_queue t = PostDelayed t 50 (Some 1) 5 None (PostDelayed t 10 (Some 2) 6 None (Post t (Some 3) 7 None False MessageQueue_new))"

lemma sample_reachable: "mq_reachable (sample_queue t)"
  unfolding sample_queue_def
  by (rule mq_reachable_step [OF mq_reachable_step [OF mq_reachable_step [OF mq_reachable_new]]]; rule mq_step.intros; simp)

lemmas sample_defs = sample_queue_def PostDelayed_def Post_def DoDelayPost_def MessageQueue_new_def TimeAfter_def Let_def

lemma sample_fields:
  "\<not> fPeekKeep (sample_queue t)" "map (phandler) (msgq (sample_queue t)) = [Some 3]"
  "d \<in> set (dmsgq (sample_queue t)) \<Longrightarrow> msTrigger d = t + 10 \<or> msTrigger d = t + 50" "\<not> fStop (sample_queue t)"
  by (auto simp: sample_defs split: if_splits)

lemma sample_clock: "clock_ok 1020 (sample_queue 1000)"
  using sample_fields(3) [of _ 1000] by (force simp: clock_ok_def TimeIsLater_dist)


theorem queue_never_oversleeps_witness:
  "list_all (\<lambda>d. 30 \<le> uint (msTrigger d) - uint (1020 :: u32))
     (dmsgq (PostDelayed 1000 50 (Some 1) 5 None (MessageQueue_new :: (nat, nat) MessageQueue)))"
proof -
  define q :: "(nat, nat) MessageQueue" where "q = PostDelayed 1000 50 (Some 1) 5 None MessageQueue_new"
  have r: "mq_reachable q" unfolding q_def by (rule mq_reachable_step [OF mq_reachable_new]) (rule mq_step.intros, simp)
  have d: "dmsgq q = [\<lparr>cmsDelay = 50, msTrigger = 1050, num = 0, dmsg = \<lparr>phandler = Some 1, message_id = 5, pdata = None, ts_sensitive = 0\<rparr>\<rparr>]"
    by (simp add: q_def sample_defs)
  have "fst (Get_loop kForever 1000 1020 [] q) = Waiting 30"
    by (simp add: q_def sample_defs Get_loop.simps Get_pass_def TimeIsLater_dist TimeDiff_dist next_wait_def)
  moreover have "clock_ok 1020 q" by (simp add: clock_ok_def d TimeIsLater_dist)
  ultimately have "\<forall>d\<in>set (dmsgq q). 1020 < msTrigger d \<longrightarrow> 30 \<le> uint (msTrigger d) - uint (1020 :: u32)"
    using queue_never_oversleeps [OF r, of 1020 kForever 1000 30] by blast
  then have "list_all (\<lambda>d. 30 \<le> uint (msTrigger d) - uint (1020 :: u32)) (dmsgq q)" by (simp add: d)
  then show ?thesis by (simp only: q_def)
qed

theorem cleared_handler_is_silent_witness:
  "filter (\<lambda>m. phandler m = Some 1) (all_messages (Post 1 (Some 2) 8 None False (snd (Clear (Some 1) MQID_ANY (sample_queue 0))))) = []"
proof -
  have "(mq_step (\<lambda>x. x \<noteq> Some 1))\<^sup>*\<^sup>* (snd (Clear (Some 1) MQID_ANY (sample_queue 0)))
      (Post 1 (Some 2) 8 None False (snd (Clear (Some 1) MQID_ANY (sample_queue 0))))"
    by (rule r_into_rtranclp) (rule mq_step.intros, simp)
  from cleared_handler_is_silent [OF this] show ?thesis by (simp add: filter_empty_conv)
qed

theorem quit_delivers_ready_witness:
  "map phandler (gets 1020 9 (Quit (sample_queue 1000))) = [Some 3, Some 2]"
  using quit_delivers_ready [OF sample_reachable sample_fields(1) sample_clock, of 0 "[]" 9]
  by (simp add: sample_defs Delayed_less_def MQID_DISPOSE_def ready_def)

theorem wrapped_timer_blocks_witness:
  "\<exists>d\<in>set (dmsgq (sample_queue 0xFFFFFFE0)). \<not> TimeIsLater 0xFFFFFFF0 (msTrigger d) \<and>
     d \<in> set (dmsgq (snd (snd (Get_pass 0xFFFFFFF0 (sample_queue 0xFFFFFFE0)))))"
proof -
  have t: "msTrigger ` set (dmsgq (sample_queue 0xFFFFFFE0)) = {0xFFFFFFEA, 0x100000012}"
    by (simp add: sample_defs Delayed_less_def insert_commute)
  have "0xFFFFFFEA \<in> msTrigger ` set (dmsgq (sample_queue 0xFFFFFFE0))" by (simp only: t insert_iff simp_thms)
  then obtain d where d: "d \<in> set (dmsgq (sample_queue 0xFFFFFFE0))" "msTrigger d = 0xFFFFFFEA" by (elim imageE) simp
  have "0x100000012 \<in> msTrigger ` set (dmsgq (sample_queue 0xFFFFFFE0))" by (simp only: t insert_iff simp_thms)
  then obtain e where e: "e \<in> set (dmsgq (sample_queue 0xFFFFFFE0))" "msTrigger e = 0x100000012" by (elim imageE) simp
  note de = d(1) e(1) d(2) e(2)
  have "\<not> TimeIsLater 0xFFFFFFF0 (msTrigger d)" "TimeIsLater 0xFFFFFFF0 (msTrigger e)" "msTrigger e < msTrigger d"
    by (simp_all add: de TimeIsLater_dist)
  with de wrapped_timer_blocks [OF sample_reachable de(1,2)] show ?thesis by blast
qed

end
