(* ===== verification/Stun_Request.thy ===== *)
theory Stun_Request
  imports Stun_Props Message_Queue "HOL-Library.AList"
begin

text \<open>
  \<^verbatim>\<open>p2p/base/stunrequest.cc\<close>: requests that are sent again and again until they are answered or time out, on the messages of
  \<open>Stun_Message\<close> and the queue of \<open>Message_Queue\<close>. The requests live in a store from addresses to objects; a call
  through an address that holds none is \<open>None\<close>. What the virtual methods and \<^verbatim>\<open>SignalSendPacket\<close> are called with is
  recorded as events, with the time of the call where one is sent; \<^verbatim>\<open>Prepare\<close> is the parameter \<open>prep\<close> and the random
  transaction id an argument.
\<close>

section \<open>Requests\<close>

definition MSG_STUN_SEND :: u32 where "MSG_STUN_SEND = 1"
definition MAX_SENDS :: nat where "MAX_SENDS = 9"
definition DELAY_UNIT :: int where "DELAY_UNIT = 100"
definition DELAY_MAX_FACTOR :: int where "DELAY_MAX_FACTOR = 16"

record StunRequest =
  rq_count :: nat
  rq_timeout :: bool
  rq_manager :: bool
  rq_msg :: stun_message
  rq_tstamp :: u32

definition StunRequest_of :: "stun_message \<Rightarrow> byte list \<Rightarrow> StunRequest" where
  "StunRequest_of m random_id =
     \<lparr>rq_count = 0, rq_timeout = False, rq_manager = False, rq_msg = snd (SetTransactionID random_id m), rq_tstamp = 0\<rparr>"

definition StunRequest_new :: "byte list \<Rightarrow> StunRequest" where
  "StunRequest_new random_id = StunRequest_of (StunMessage_new StunClass) random_id"

definition rq_id :: "StunRequest \<Rightarrow> byte list" where "rq_id r = msg_tid (rq_msg r)"

definition rq_type :: "StunRequest \<Rightarrow> int" where "rq_type r = uint (msg_type (rq_msg r))"

definition Elapsed :: "u32 \<Rightarrow> StunRequest \<Rightarrow> u32" where
  "Elapsed now r = word_of_int (TimeSince now (rq_tstamp r))"

definition Construct :: "(stun_message \<Rightarrow> stun_message) \<Rightarrow> StunRequest \<Rightarrow> StunRequest" where
  "Construct prep r = (if msg_type (rq_msg r) = 0 then r\<lparr>rq_msg := prep (rq_msg r)\<rparr> else r)"

definition set_manager :: "StunRequest \<Rightarrow> StunRequest" where "set_manager r = r\<lparr>rq_manager := True\<rparr>"

definition GetNextDelay :: "StunRequest \<Rightarrow> int \<times> StunRequest" where
  "GetNextDelay r =
     (let delay = DELAY_UNIT * min (2 ^ rq_count r) DELAY_MAX_FACTOR;
          r = r\<lparr>rq_count := rq_count r + 1\<rparr>
      in (delay, if rq_count r = MAX_SENDS then r\<lparr>rq_timeout := True\<rparr> else r))"

section \<open>The manager\<close>

datatype rq_event = SendPacket u32 "byte list" nat | OnResponse nat stun_message | OnErrorResponse nat stun_message | OnTimeout nat

record stun_world =
  objects :: "nat \<rightharpoonup> StunRequest"
  requests :: "(byte list \<times> nat) list"
  thread :: "(nat, unit) MessageQueue"
  events :: "rq_event list"

definition signal :: "rq_event \<Rightarrow> stun_world \<Rightarrow> stun_world" where
  "signal e w = w\<lparr>events := events w @ [e]\<rparr>"

definition SendDelayed :: "(stun_message \<Rightarrow> stun_message) \<Rightarrow> u32 \<Rightarrow> nat \<Rightarrow> int \<Rightarrow> stun_world \<Rightarrow> stun_world option" where
  "SendDelayed prep now p delay w =
     (case objects w p of
        None \<Rightarrow> None
      | Some r \<Rightarrow>
          (let r = Construct prep (set_manager r)
           in Some (w\<lparr>objects := (objects w)(p \<mapsto> r), requests := AList.update (rq_id r) p (requests w),
                      thread := PostDelayed now delay (Some p) MSG_STUN_SEND None (thread w)\<rparr>)))"

definition Request_Send :: "(stun_message \<Rightarrow> stun_message) \<Rightarrow> u32 \<Rightarrow> nat \<Rightarrow> stun_world \<Rightarrow> stun_world option" where
  "Request_Send prep now p w = SendDelayed prep now p 0 w"

definition Remove :: "nat \<Rightarrow> stun_world \<Rightarrow> stun_world option" where
  "Remove p w =
     (case objects w p of
        None \<Rightarrow> None
      | Some r \<Rightarrow>
          (if map_of (requests w) (rq_id r) = None then Some w
           else Some (w\<lparr>requests := AList.delete (rq_id r) (requests w), thread := snd (Clear (Some p) MQID_ANY (thread w))\<rparr>)))"

text \<open>The destructor of a request.\<close>

definition delete_request :: "nat \<Rightarrow> stun_world \<Rightarrow> stun_world option" where
  "delete_request p w =
     (case objects w p of
        None \<Rightarrow> None
      | Some r \<Rightarrow>
          (if rq_manager r
           then case Remove p w of
                  None \<Rightarrow> None
                | Some w \<Rightarrow> Some (w\<lparr>thread := snd (Clear (Some p) MQID_ANY (thread w)), objects := (objects w)(p := None)\<rparr>)
           else Some (w\<lparr>objects := (objects w)(p := None)\<rparr>)))"

fun delete_all :: "nat list \<Rightarrow> stun_world \<Rightarrow> stun_world option" where
  "delete_all [] w = Some w"
| "delete_all (p # ps) w = (case delete_request p w of None \<Rightarrow> None | Some w \<Rightarrow> delete_all ps w)"

definition Requests_Clear :: "stun_world \<Rightarrow> stun_world option" where
  "Requests_Clear w = delete_all (map snd (requests w)) w"

text \<open>The destructor of the manager: each request is taken out of the map before it is deleted.\<close>

fun destroy_loop :: "(byte list \<times> nat) list \<Rightarrow> stun_world \<Rightarrow> stun_world option" where
  "destroy_loop [] w = Some w"
| "destroy_loop ((i, p) # rs) w =
     (case delete_request p (w\<lparr>requests := rs\<rparr>) of None \<Rightarrow> None | Some w \<Rightarrow> destroy_loop rs w)"

definition Manager_destroy :: "stun_world \<Rightarrow> stun_world option" where
  "Manager_destroy w = destroy_loop (requests w) w"

definition CheckResponse_msg :: "stun_message \<Rightarrow> stun_world \<Rightarrow> (bool \<times> stun_world) option" where
  "CheckResponse_msg msg w =
     (case map_of (requests w) (msg_tid msg) of
        None \<Rightarrow> Some (False, w)
      | Some p \<Rightarrow>
          (case objects w p of
             None \<Rightarrow> None
           | Some r \<Rightarrow>
               (if uint (msg_type msg) = GetStunSuccessResponseType (rq_type r)
                then map_option (Pair True) (delete_request p (signal (OnResponse p msg) w))
                else if uint (msg_type msg) = GetStunErrorResponseType (rq_type r)
                then map_option (Pair True) (delete_request p (signal (OnErrorResponse p msg) w))
                else Some (False, w))))"

definition CheckResponse :: "bool \<Rightarrow> byte list \<Rightarrow> stun_world \<Rightarrow> (bool \<times> stun_world) option" where
  "CheckResponse h data w =
     (if length data < 20 then Some (False, w)
      else let i = mem_read data kStunTransactionIdOffset kStunTransactionIdLength
           in case map_of (requests w) i of
                None \<Rightarrow> Some (False, w)
              | Some p \<Rightarrow>
                  (case objects w p of
                     None \<Rightarrow> None
                   | Some r \<Rightarrow>
                       (case Message_Read h (CreateNew (rq_msg r)) (ByteBuffer_of data) of
                          (ok, response, _) \<Rightarrow> if \<not> ok then Some (False, w) else CheckResponse_msg response w)))"

definition requests_empty :: "stun_world \<Rightarrow> bool" where "requests_empty w \<longleftrightarrow> requests w = []"

text \<open>\<^verbatim>\<open>GetNextDelay\<close> is virtual: \<open>nd\<close> is the one of the class of the request.\<close>

definition OnMessage_with :: "(StunRequest \<Rightarrow> int \<times> StunRequest) \<Rightarrow> bool \<Rightarrow> u32 \<Rightarrow> nat \<Rightarrow> stun_world \<Rightarrow> stun_world option" where
  "OnMessage_with nd h now p w =
     (case objects w p of
        None \<Rightarrow> None
      | Some r \<Rightarrow>
          (if rq_timeout r then delete_request p (signal (OnTimeout p) w)
           else case Message_Write h (rq_msg r) ByteBuffer_new of
                  None \<Rightarrow> None
                | Some (_, buf) \<Rightarrow>
                    (let r = r\<lparr>rq_tstamp := now\<rparr>;
                         w = signal (SendPacket now (Contents buf) p) (w\<lparr>objects := (objects w)(p \<mapsto> r)\<rparr>);
                         (delay, r) = nd r
                     in Some (w\<lparr>objects := (objects w)(p \<mapsto> r),
                                thread := PostDelayed now delay (Some p) MSG_STUN_SEND None (thread w)\<rparr>))))"

definition OnMessage :: "bool \<Rightarrow> u32 \<Rightarrow> nat \<Rightarrow> stun_world \<Rightarrow> stun_world option" where
  "OnMessage h now p w = OnMessage_with GetNextDelay h now p w"

lemmas OnMessage_defs = OnMessage_def OnMessage_with_def

text \<open>A turn of the loop of the thread that does not wait: one message is taken and dispatched to its handler.\<close>

definition turn :: "bool \<Rightarrow> u32 \<Rightarrow> stun_world \<Rightarrow> stun_world option" where
  "turn h now w =
     (case Get now 0 [] (thread w) of
        (Got m, q) \<Rightarrow> (case phandler m of None \<Rightarrow> None | Some p \<Rightarrow> OnMessage h now p (w\<lparr>thread := q\<rparr>))
      | (_, q) \<Rightarrow> Some (w\<lparr>thread := q\<rparr>))"

section \<open>Steps and the invariant\<close>

text \<open>Counting what happened to a request. An address stands for one request only.\<close>

fun is_send :: "nat \<Rightarrow> rq_event \<Rightarrow> bool" where
  "is_send p (SendPacket t b q) = (q = p)"
| "is_send p e = False"

fun is_final :: "nat \<Rightarrow> rq_event \<Rightarrow> bool" where
  "is_final p (OnResponse q m) = (q = p)"
| "is_final p (OnErrorResponse q m) = (q = p)"
| "is_final p (OnTimeout q) = (q = p)"
| "is_final p (SendPacket t b q) = False"

definition sends :: "nat \<Rightarrow> stun_world \<Rightarrow> nat" where "sends p w = length (filter (is_send p) (events w))"

definition finals :: "nat \<Rightarrow> stun_world \<Rightarrow> nat" where "finals p w = length (filter (is_final p) (events w))"

definition registered :: "nat \<Rightarrow> stun_world \<Rightarrow> bool" where "registered p w \<longleftrightarrow> p \<in> snd ` set (requests w)"

definition waiting :: "nat \<Rightarrow> stun_world \<Rightarrow> nat" where
  "waiting p w = length (filter (\<lambda>m. phandler m = Some p) (all_messages (thread w)))"

definition stun_world_new :: stun_world where
  "stun_world_new = \<lparr>objects = Map.empty, requests = [], thread = MessageQueue_new, events = []\<rparr>"

text \<open>What can happen: requests with fresh addresses and transaction ids are created and sent once, removed and deleted; data
  arrives; the thread turns.\<close>

inductive rq_step :: "bool \<Rightarrow> stun_world \<Rightarrow> stun_world \<Rightarrow> bool" for h where
  create: "objects w p = None \<Longrightarrow> sends p w = 0 \<Longrightarrow> finals p w = 0 \<Longrightarrow> length i = 12 \<Longrightarrow>
    (\<And>q s. objects w q = Some s \<Longrightarrow> rq_id s \<noteq> i) \<Longrightarrow> rq_step h w (w\<lparr>objects := (objects w)(p \<mapsto> StunRequest_of m i)\<rparr>)"
| send: "objects w p = Some r \<Longrightarrow> \<not> rq_manager r \<Longrightarrow> (\<And>m. msg_tid (prep m) = msg_tid m) \<Longrightarrow>
    attrs_ok (rq_msg (Construct prep r)) \<Longrightarrow> SendDelayed prep now p delay w = Some w' \<Longrightarrow> rq_step h w w'"
| remove: "objects w p = Some r \<Longrightarrow> rq_manager r \<Longrightarrow> Remove p w = Some w' \<Longrightarrow> rq_step h w w'"
| delete: "objects w p = Some r \<Longrightarrow> rq_manager r \<Longrightarrow> delete_request p w = Some w' \<Longrightarrow> rq_step h w w'"
| clear: "Requests_Clear w = Some w' \<Longrightarrow> rq_step h w w'"
| response: "CheckResponse h data w = Some (ok, w') \<Longrightarrow> rq_step h w w'"
| turn: "turn h now w = Some w' \<Longrightarrow> rq_step h w w'"

text \<open>The map and the objects; the queue, where \<open>X\<close> is the request whose message is being handled; and the events.\<close>

definition map_wf :: "stun_world \<Rightarrow> bool" where
  "map_wf w \<longleftrightarrow> distinct (map fst (requests w)) \<and>
     (\<forall>i p. (i, p) \<in> set (requests w) \<longrightarrow> (\<exists>r. objects w p = Some r \<and> rq_manager r \<and> rq_id r = i \<and> attrs_ok (rq_msg r))) \<and>
     (\<forall>p q r s. objects w p = Some r \<longrightarrow> objects w q = Some s \<longrightarrow> rq_id r = rq_id s \<longrightarrow> p = q)"

definition queue_wf :: "nat option \<Rightarrow> stun_world \<Rightarrow> bool" where
  "queue_wf X w \<longleftrightarrow> \<not> fStop (thread w) \<and> \<not> fPeekKeep (thread w) \<and>
     (\<forall>m\<in>set (all_messages (thread w)). message_id m = MSG_STUN_SEND \<and> (\<exists>p. phandler m = Some p \<and> registered p w)) \<and>
     (\<forall>p. registered p w \<longrightarrow> waiting p w = (if X = Some p then 0 else 1))"

definition events_wf :: "stun_world \<Rightarrow> bool" where
  "events_wf w \<longleftrightarrow>
     (\<forall>p r. objects w p = Some r \<longrightarrow> rq_count r = sends p w \<and> rq_timeout r = (sends p w = MAX_SENDS) \<and> finals p w = 0) \<and>
     (\<forall>p. sends p w \<le> MAX_SENDS \<and> finals p w \<le> 1 \<and> (OnTimeout p \<in> set (events w) \<longrightarrow> sends p w = MAX_SENDS))"

definition rq_inv :: "stun_world \<Rightarrow> bool" where
  "rq_inv w \<longleftrightarrow> map_wf w \<and> queue_wf None w \<and> events_wf w"

lemma map_of_requests:
  assumes "map_wf w" "objects w p = Some r"
  shows "map_of (requests w) (rq_id r) = (if registered p w then Some p else None)"
proof (cases "map_of (requests w) (rq_id r)")
  case None
  then have "rq_id r \<notin> fst ` set (requests w)" by (simp add: map_of_eq_None_iff)
  then show ?thesis using assms None unfolding map_wf_def registered_def by force
next
  case (Some q)
  then have q: "(rq_id r, q) \<in> set (requests w)" by (rule map_of_SomeD)
  then have "q = p" using assms unfolding map_wf_def by metis
  then show ?thesis using Some q by (force simp: registered_def)
qed

lemma delete_requests:
  assumes "map_wf w" "objects w p = Some r"
  shows "set (AList.delete (rq_id r) (requests w)) = {(i, q). (i, q) \<in> set (requests w) \<and> q \<noteq> p}"
proof -
  have "set (AList.delete (rq_id r) (requests w)) = {(i, q). (i, q) \<in> set (requests w) \<and> i \<noteq> rq_id r}"
    by (auto simp: AList.delete_eq)
  moreover have "(i, q) \<in> set (requests w) \<Longrightarrow> i \<noteq> rq_id r \<longleftrightarrow> q \<noteq> p" for i q
    using assms unfolding map_wf_def by (metis option.inject)
  ultimately show ?thesis by auto
qed

text \<open>A request that is unregistered: what removing and deleting it leaves.\<close>

definition without :: "nat \<Rightarrow> stun_world \<Rightarrow> stun_world \<Rightarrow> bool" where
  "without p w w' \<longleftrightarrow> set (requests w') = {(i, q). (i, q) \<in> set (requests w) \<and> q \<noteq> p} \<and> distinct (map fst (requests w')) \<and>
     all_messages (thread w') = filter (\<lambda>m. phandler m \<noteq> Some p) (all_messages (thread w)) \<and>
     fStop (thread w') = fStop (thread w) \<and> (fPeekKeep (thread w') \<longrightarrow> fPeekKeep (thread w)) \<and> events w' = events w"

lemma Clear_all: "all_messages (snd (Clear (Some p) MQID_ANY q)) = filter (\<lambda>m. phandler m \<noteq> Some p) (all_messages q)"
  by (auto simp: Clear_removed Message_Match_def intro: filter_cong)

lemma Clear_twice: "snd (Clear h i (snd (Clear h i q))) = snd (Clear h i q)"
  by (simp add: Clear_def Let_def)

lemma response_types_differ:
  fixes x :: u16
  assumes "uint x = GetStunErrorResponseType t"
  shows "uint x \<noteq> GetStunSuccessResponseType t"
proof
  assume eq: "uint x = GetStunSuccessResponseType t"
  have "0 \<le> uint x" by simp
  then have r: "t AND 0x110 = 0" "t OR 0x110 = t OR 0x100"
    using assms eq by (auto simp: GetStunErrorResponseType_def GetStunSuccessResponseType_def IsStunRequestType_def kStunTypeMask_def split: if_splits)
  have "bit (t OR 0x110) 4" by (simp add: bit_or_iff)
  moreover have "\<not> bit (t AND 0x110) 4" by (simp add: r(1))
  ultimately show False using r(2) by (simp add: bit_or_iff bit_and_iff)
qed

lemma no_messages:
  "queue_wf X w \<Longrightarrow> \<not> registered p w \<Longrightarrow> filter (\<lambda>m. phandler m \<noteq> Some p) (all_messages (thread w)) = all_messages (thread w)"
  by (auto simp: queue_wf_def filter_id_conv)

lemma Remove_without:
  assumes "map_wf w" "queue_wf X w" "objects w p = Some r"
  shows "\<exists>w'. Remove p w = Some w' \<and> without p w w' \<and> objects w' = objects w"
proof (cases "registered p w")
  case True
  have "distinct (map fst (AList.delete (rq_id r) (requests w)))" using assms(1) by (simp add: map_wf_def distinct_delete)
  then show ?thesis using True map_of_requests [OF assms(1,3)] delete_requests [OF assms(1,3)] assms(3)
    by (auto simp: Remove_def without_def Clear_all)
next
  case False
  then have "set (requests w) = {(i, q). (i, q) \<in> set (requests w) \<and> q \<noteq> p}" by (force simp: registered_def)
  then show ?thesis using False map_of_requests [OF assms(1,3)] assms no_messages [OF assms(2) False]
    by (auto simp: Remove_def without_def map_wf_def)
qed

lemma delete_without:
  assumes "map_wf w" "queue_wf X w" "objects w p = Some r" "rq_manager r"
  shows "\<exists>w'. delete_request p w = Some w' \<and> without p w w' \<and> objects w' = (objects w)(p := None)"
proof -
  obtain w1 where "Remove p w = Some w1" "without p w w1" "objects w1 = objects w" using Remove_without [OF assms(1-3)] by blast
  then show ?thesis using assms(3,4) by (auto simp: delete_request_def without_def Clear_all)
qed

lemma without_wf:
  assumes "without p w w'" "map_wf w" "queue_wf X w" "X = None \<or> X = Some p"
    "objects w' = objects w \<or> objects w' = (objects w)(p := None)"
  shows "map_wf w'" "queue_wf None w'"
proof -
  have r: "registered q w' \<longleftrightarrow> registered q w \<and> q \<noteq> p" for q using assms(1) by (force simp: without_def registered_def)
  have "\<exists>r. objects w' q = Some r \<and> rq_manager r \<and> rq_id r = i \<and> attrs_ok (rq_msg r)" if "(i, q) \<in> set (requests w')" for i q
  proof -
    have "(i, q) \<in> set (requests w)" "q \<noteq> p" using that assms(1) by (auto simp: without_def)
    then show ?thesis using assms(2,5) by (auto simp: map_wf_def)
  qed
  moreover have "objects w' q = Some s \<Longrightarrow> objects w q = Some s" for q s using assms(5) by (auto split: if_splits)
  ultimately show "map_wf w'" using assms(1,2) unfolding map_wf_def without_def by blast
  have "waiting q w' = waiting q w" if "q \<noteq> p" for q
    using that assms(1) by (simp add: waiting_def without_def) (metis (mono_tags, lifting) filter_cong option.inject)
  then show "queue_wf None w'" using assms(1,3,4) r by (auto simp: queue_wf_def without_def)
qed

text \<open>The events: sends, final events, and both of them against the objects.\<close>

lemma events_step:
  assumes "events_wf w" "events w' = events w" "\<And>q s. objects w' q = Some s \<Longrightarrow> objects w q = Some s"
  shows "events_wf w'"
  using assms by (auto simp: events_wf_def sends_def finals_def)

lemma events_final:
  assumes "events_wf w" "events w' = events w @ [e]" "is_final p e" "objects w p = Some r" "objects w' = (objects w)(p := None)"
    "e = OnTimeout p \<Longrightarrow> rq_timeout r"
  shows "events_wf w'"
proof -
  have "\<not> is_send q e" "is_final q e \<longleftrightarrow> q = p" for q using assms(3) by (cases e; auto)+
  then have c: "sends q w' = sends q w" "finals q w' = finals q w + (if q = p then 1 else 0)" for q
    using assms(2) by (simp_all add: sends_def finals_def)
  have p: "finals p w = 0" "rq_timeout r = (sends p w = MAX_SENDS)" using assms(1,4) by (auto simp: events_wf_def)
  have "sends q w' = MAX_SENDS" if "OnTimeout q \<in> set (events w')" for q
  proof (cases "OnTimeout q \<in> set (events w)")
    case False
    then have "e = OnTimeout q" using that assms(2) by auto
    then show ?thesis using assms(3,6) p(2) c(1) by auto
  qed (use assms(1) c(1) in \<open>auto simp: events_wf_def\<close>)
  then show ?thesis using assms(1,5) c p(1) by (auto simp: events_wf_def split: if_splits)
qed

lemma signal_wf [simp]:
  "map_wf (signal e w) = map_wf w" "queue_wf X (signal e w) = queue_wf X w" "objects (signal e w) = objects w"
  "requests (signal e w) = requests w" "thread (signal e w) = thread w" "events (signal e w) = events w @ [e]"
  by (simp_all add: signal_def map_wf_def queue_wf_def registered_def waiting_def)

text \<open>Finishing a request: an event, then its deletion.\<close>

lemma finish_inv:
  assumes "map_wf w" "queue_wf X w" "events_wf w" "X = None \<or> X = Some p" "objects w p = Some r" "rq_manager r"
    "is_final p e" "e = OnTimeout p \<Longrightarrow> rq_timeout r"
  shows "\<exists>w'. delete_request p (signal e w) = Some w' \<and> rq_inv w' \<and> events w' = events w @ [e] \<and> without p (signal e w) w' \<and>
    objects w' = (objects w)(p := None)"
proof -
  obtain w' where w': "delete_request p (signal e w) = Some w'" "without p (signal e w) w'" "objects w' = (objects w)(p := None)"
    using delete_without [of "signal e w" X p r] assms by auto
  have ev: "events w' = events w @ [e]" using w'(2) by (simp add: without_def)
  have "events_wf w'" by (rule events_final [OF assms(3) ev assms(7,5) w'(3) assms(8)])
  moreover have "map_wf w'" "queue_wf None w'" using without_wf [OF w'(2), of X] assms w'(3) by simp_all
  ultimately show ?thesis using w' ev by (auto simp: rq_inv_def)
qed

lemma delete_inv:
  assumes "rq_inv w" "objects w p = Some r" "rq_manager r" "delete_request p w = Some w'"
  shows "rq_inv w'"
proof -
  obtain x where x: "delete_request p w = Some x" "without p w x" "objects x = (objects w)(p := None)"
    using delete_without [OF _ _ assms(2,3)] assms(1) by (auto simp: rq_inv_def)
  have "events_wf x"
    by (rule events_step [of w]) (use assms(1) x in \<open>auto simp: rq_inv_def without_def split: if_splits\<close>)
  then show ?thesis using without_wf [OF x(2), of None] assms x by (simp add: rq_inv_def)
qed

lemma delete_all_inv:
  "rq_inv w \<Longrightarrow> distinct ps \<Longrightarrow> set ps \<subseteq> {p. registered p w} \<Longrightarrow> \<exists>w'. delete_all ps w = Some w' \<and> rq_inv w' \<and>
    (\<forall>q. registered q w' \<longleftrightarrow> registered q w \<and> q \<notin> set ps)"
proof (induction ps arbitrary: w)
  case (Cons p ps)
  obtain r where r: "objects w p = Some r" "rq_manager r" using Cons.prems by (force simp: rq_inv_def map_wf_def registered_def)
  obtain w1 where w1: "delete_request p w = Some w1" "without p w w1"
    using delete_without [OF _ _ r] Cons.prems(1) by (auto simp: rq_inv_def)
  then have reg: "registered q w1 \<longleftrightarrow> registered q w \<and> q \<noteq> p" for q by (force simp: without_def registered_def)
  then have "\<exists>w'. delete_all ps w1 = Some w' \<and> rq_inv w' \<and> (\<forall>q. registered q w' \<longleftrightarrow> registered q w1 \<and> q \<notin> set ps)"
    using Cons.IH [OF delete_inv [OF Cons.prems(1) r w1(1)]] Cons.prems by auto
  then show ?case using w1(1) reg by auto
qed auto

lemma clear_inv:
  assumes "rq_inv w"
  shows "\<exists>w'. Requests_Clear w = Some w' \<and> rq_inv w' \<and> requests w' = []"
proof -
  have "distinct (map snd (requests w))"
    using assms unfolding rq_inv_def map_wf_def
    by (auto simp: distinct_map inj_on_def) (metis option.inject)
  then obtain w' where w': "Requests_Clear w = Some w'" "rq_inv w'" "\<forall>q. registered q w' \<longleftrightarrow> registered q w \<and> q \<notin> snd ` set (requests w)"
    using delete_all_inv [OF assms, of "map snd (requests w)"] by (auto simp: Requests_Clear_def registered_def)
  then have "requests w' = []" by (cases "requests w'") (auto simp: registered_def)
  then show ?thesis using w' by blast
qed

lemma CheckResponse_inv:
  assumes "rq_inv w"
  shows "\<exists>ok w'. CheckResponse h data w = Some (ok, w') \<and> rq_inv w' \<and> (\<not> ok \<longrightarrow> w' = w)"
proof -
  have reg: "\<exists>r. objects w p = Some r \<and> rq_manager r" if "map_of (requests w) i = Some p" for i p
    using map_of_SomeD [OF that] assms unfolding rq_inv_def map_wf_def by blast
  have msg: "\<exists>ok w'. CheckResponse_msg m w = Some (ok, w') \<and> rq_inv w' \<and> (\<not> ok \<longrightarrow> w' = w)" for m
  proof (cases "map_of (requests w) (msg_tid m)")
    case None
    then show ?thesis using assms by (auto simp: CheckResponse_msg_def)
  next
    case (Some p)
    obtain r where r: "objects w p = Some r" "rq_manager r" using reg [OF Some] by blast
    note fin = finish_inv [of w None p r, OF _ _ _ _ r]
    obtain w1 where w1: "delete_request p (signal (OnResponse p m) w) = Some w1" "rq_inv w1"
      using fin [of "OnResponse p m"] assms by (auto simp: rq_inv_def)
    obtain w2 where w2: "delete_request p (signal (OnErrorResponse p m) w) = Some w2" "rq_inv w2"
      using fin [of "OnErrorResponse p m"] assms by (auto simp: rq_inv_def)
    show ?thesis using Some r w1 w2 assms by (auto simp: CheckResponse_msg_def)
  qed
  define i where "i = mem_read data kStunTransactionIdOffset kStunTransactionIdLength"
  show ?thesis
  proof (cases "length data < 20 \<or> map_of (requests w) i = None")
    case True
    then show ?thesis using assms by (auto simp: CheckResponse_def Let_def i_def)
  next
    case False
    then obtain p where p: "\<not> length data < 20" "map_of (requests w) i = Some p" by auto
    then obtain r where r: "objects w p = Some r" using reg by blast
    obtain ok resp b where m: "Message_Read h (CreateNew (rq_msg r)) (ByteBuffer_of data) = (ok, resp, b)"
      by (cases "Message_Read h (CreateNew (rq_msg r)) (ByteBuffer_of data)")
    show ?thesis using assms msg [of resp] p r m by (cases ok) (auto simp: CheckResponse_def Let_def i_def)
  qed
qed

text \<open>Taking a message from the queue, and handling it.\<close>

lemma move_due_count:
  "move_due now ds ms = (del, ds', ms') \<Longrightarrow>
    length (filter P ms') + length (filter P (map dmsg ds')) = length (filter P ms) + length (filter P (map dmsg ds))"
  by (induction now ds ms rule: move_due.induct) (auto split: if_splits)

lemma pull_cases: "pull ms = (r, ms') \<Longrightarrow> \<forall>m\<in>set ms. \<not> disposal m \<Longrightarrow> (case r of None \<Rightarrow> ms = [] \<and> ms' = [] | Some m \<Rightarrow> ms = m # ms')"
  by (cases ms) auto

definition taken :: "(nat, unit) Message option \<Rightarrow> (nat, unit) MessageQueue \<Rightarrow> (nat, unit) MessageQueue \<Rightarrow> bool" where
  "taken r q q' \<longleftrightarrow> set_option r \<union> set (all_messages q') \<subseteq> set (all_messages q) \<and> fPeekKeep q' = fPeekKeep q \<and> fStop q' = fStop q \<and>
     (\<forall>P. length (filter P (all_messages q)) = length (filter P (all_messages q')) + length (filter P (case r of None \<Rightarrow> [] | Some m \<Rightarrow> [m])))"

lemma pass_taken:
  assumes "\<not> fPeekKeep q" "\<forall>m\<in>set (all_messages q). \<not> disposal m"
  shows "taken (fst (snd (Get_pass now q))) q (snd (snd (Get_pass now q)))"
proof -
  obtain del ds ms where m: "move_due now (dmsgq q) (msgq q) = (del, ds, ms)" by (cases "move_due now (dmsgq q) (msgq q)")
  obtain r ms' where p: "pull ms = (r, ms')" by (cases "pull ms")
  have g: "Get_pass now q = (del, r, q\<lparr>dmsgq := ds, msgq := ms'\<rparr>)" using m p by (simp add: Get_pass_def)
  have "\<forall>m\<in>set ms. \<not> disposal m" using move_due_set [OF m] assms by (auto simp: all_messages_def)
  then have r: "ms = (case r of None \<Rightarrow> [] | Some m \<Rightarrow> [m]) @ ms'" using pull_cases [OF p] by (auto split: option.splits)
  have "length (filter P (all_messages q)) = length (filter P ms) + length (filter P (map dmsg ds))" for P
    using move_due_count [OF m, of P] assms(1) by (simp add: all_messages_def)
  then show ?thesis using assms(1) g pass_set [of now q] r by (auto simp: taken_def all_messages_def)
qed

lemma Get_taken:
  assumes "\<not> fPeekKeep q" "\<forall>m\<in>set (all_messages q). \<not> disposal m"
  shows "\<exists>r q'. Get now 0 [] q = (case r of Some m \<Rightarrow> (Got m, q') | None \<Rightarrow> (if fStop q then Got_None else Waiting 0, q')) \<and> taken r q q'"
proof -
  obtain del r q' where g: "Get_pass now q = (del, r, q')" by (cases "Get_pass now q")
  have t: "taken r q q'" using pass_taken [OF assms, of now] g by simp
  then have "fStop q' = fStop q" by (simp add: taken_def)
  moreover have "del < 0 \<longrightarrow> del = kForever"
    using g by (auto simp: Get_pass_eq Let_def TimeDiff_dist dropWhile_eq_Cons_conv TimeIsLater_dist split: list.splits)
  then have "next_wait 0 0 del = 0" by (auto simp: next_wait_def Let_def kForever_def)
  ultimately show ?thesis using t g assms(1)
    by (intro exI [of _ r] exI [of _ q']) (cases r; simp add: Get_def Get_loop.simps TimeDiff_dist Let_def)
qed

lemma taken_queue_wf:
  assumes "queue_wf None w" "taken r (thread w) q"
  shows "queue_wf (map_option (\<lambda>m. the (phandler m)) r) (w\<lparr>thread := q\<rparr>)" "\<And>m. r = Some m \<Longrightarrow> \<exists>p. phandler m = Some p \<and> registered p w"
proof -
  have reg: "registered p (w\<lparr>thread := q\<rparr>) = registered p w" for p by (simp add: registered_def)
  have m: "\<exists>p. phandler m = Some p \<and> registered p w" if "r = Some m" for m
    using assms that by (auto simp: taken_def queue_wf_def)
  then show "\<And>m. r = Some m \<Longrightarrow> \<exists>p. phandler m = Some p \<and> registered p w" .
  have "waiting p (w\<lparr>thread := q\<rparr>) = (if map_option (\<lambda>m. the (phandler m)) r = Some p then 0 else 1)" if "registered p w" for p
  proof -
    have "waiting p w = 1" using assms(1) that by (simp add: queue_wf_def)
    moreover have "waiting p w = waiting p (w\<lparr>thread := q\<rparr>) + length (filter (\<lambda>m. phandler m = Some p) (case r of None \<Rightarrow> [] | Some m \<Rightarrow> [m]))"
      using assms(2) by (simp add: waiting_def taken_def)
    ultimately show ?thesis using m by (cases r) auto
  qed
  then show "queue_wf (map_option (\<lambda>m. the (phandler m)) r) (w\<lparr>thread := q\<rparr>)"
    using assms reg by (auto simp: queue_wf_def taken_def)
qed

lemma set_all_PostDelayed:
  "\<not> fStop q \<Longrightarrow> set (all_messages (PostDelayed now delay h i data q)) =
    insert \<lparr>phandler = h, message_id = i, pdata = data, ts_sensitive = 0\<rparr> (set (all_messages q))"
  by (auto simp: PostDelayed_def DoDelayPost_def all_messages_def Let_def)

lemma filter_pq_push: "length (filter (P \<circ> dmsg) (pq_push d ds)) = length (filter (P \<circ> dmsg) ds) + (if P (dmsg d) then 1 else 0)"
  by (induction ds) auto

lemma count_PostDelayed:
  "\<not> fStop q \<Longrightarrow> length (filter P (all_messages (PostDelayed now delay h i data q))) =
    length (filter P (all_messages q)) + (if P \<lparr>phandler = h, message_id = i, pdata = data, ts_sensitive = 0\<rparr> then 1 else 0)"
  by (simp add: PostDelayed_def DoDelayPost_def all_messages_def Let_def filter_pq_push)

lemma PostDelayed_flags [simp]:
  "fStop (PostDelayed now delay h i data q) = fStop q" "fPeekKeep (PostDelayed now delay h i data q) = fPeekKeep q"
  by (simp_all add: PostDelayed_def DoDelayPost_def Let_def)

text \<open>Posting for a registered request that has no message.\<close>

lemma post_queue_wf:
  assumes "queue_wf (Some p) w" "registered p w'" "thread w' = PostDelayed now delay (Some p) MSG_STUN_SEND None (thread w)"
    "\<And>q. registered q w' \<longleftrightarrow> registered q w \<or> q = p" "waiting p w = 0"
  shows "queue_wf None w'"
proof -
  have s: "\<not> fStop (thread w)" using assms(1) by (simp add: queue_wf_def)
  have "waiting q w' = waiting q w + (if q = p then 1 else 0)" for q
    using count_PostDelayed [OF s, of "\<lambda>m. phandler m = Some q"] by (auto simp: waiting_def assms(3))
  then have "waiting q w' = 1" if "registered q w'" for q
    using that assms(1,4,5) by (cases "q = p") (auto simp: queue_wf_def)
  then show ?thesis using assms(1,2,4) set_all_PostDelayed [OF s] by (auto simp: queue_wf_def assms(3))
qed

lemma write_succeeds: "attrs_ok m \<Longrightarrow> \<exists>b. Message_Write h m ByteBuffer_new = Some (True, b) \<and> Contents b = message_bytes m"
  using Message_Write_bytes [of m ByteBuffer_new h] by (auto simp: appends_def)

lemma map_wf_update:
  assumes "map_wf w" "objects w p = Some r" "rq_manager r \<Longrightarrow> rq_manager r'" "rq_id r' = rq_id r"
    "attrs_ok (rq_msg r) \<Longrightarrow> attrs_ok (rq_msg r')" "requests w' = requests w" "objects w' = (objects w)(p \<mapsto> r')"
  shows "map_wf w'"
proof -
  have "\<exists>s. objects w' q = Some s \<and> rq_manager s \<and> rq_id s = i \<and> attrs_ok (rq_msg s)" if mem: "(i, q) \<in> set (requests w)" for i q
  proof -
    obtain s where "objects w q = Some s \<and> rq_manager s \<and> rq_id s = i \<and> attrs_ok (rq_msg s)"
      using assms(1) mem unfolding map_wf_def by blast
    then show ?thesis using assms by (cases "q = p") auto
  qed
  moreover have "q = q'" if same: "objects w' q = Some s" "objects w' q' = Some s'" "rq_id s = rq_id s'" for q q' s s'
  proof -
    obtain t where "objects w q = Some t" "rq_id t = rq_id s" using same(1) assms(2,4,7) by (auto split: if_splits)
    moreover obtain t' where "objects w q' = Some t'" "rq_id t' = rq_id s'" using same(2) assms(2,4,7) by (auto split: if_splits)
    ultimately show ?thesis using assms(1) same(3) unfolding map_wf_def by metis
  qed
  ultimately show ?thesis using assms(1,6) unfolding map_wf_def by metis
qed

lemma map_wf_register:
  assumes "map_wf w" "objects w p = Some r" "rq_manager r" "attrs_ok (rq_msg r)" "rq_id r \<notin> fst ` set (requests w)"
    "requests w' = requests w @ [(rq_id r, p)]" "objects w' = objects w"
  shows "map_wf w'"
proof -
  have "(i, q) \<in> set (requests w') \<longleftrightarrow> (i, q) \<in> set (requests w) \<or> i = rq_id r \<and> q = p" for i q using assms(6) by auto
  moreover have "distinct (map fst (requests w'))" using assms(1,5,6) by (simp add: map_wf_def)
  ultimately show ?thesis using assms(1-4) unfolding map_wf_def assms(7) by simp
qed

lemma update_fresh: "k \<notin> fst ` set al \<Longrightarrow> AList.update k v al = al @ [(k, v)]"
  by (induction al) auto

lemma OnMessage_inv:
  assumes "map_wf w" "queue_wf (Some p) w" "events_wf w" "registered p w"
  shows "\<exists>w'. OnMessage h now p w = Some w' \<and> rq_inv w'"
proof -
  obtain i r where r: "(i, p) \<in> set (requests w)" "objects w p = Some r" "rq_manager r" "attrs_ok (rq_msg r)"
    using assms(1,4) unfolding map_wf_def registered_def by fastforce
  show ?thesis
  proof (cases "rq_timeout r")
    case True
    then show ?thesis using finish_inv [OF assms(1-3) _ r(2,3), of "OnTimeout p"] r(2) by (auto simp: OnMessage_defs)
  next
    case False
    obtain b where b: "Message_Write h (rq_msg r) ByteBuffer_new = Some (True, b)" using write_succeeds [OF r(4)] by blast
    obtain delay r' where d: "GetNextDelay (r\<lparr>rq_tstamp := now\<rparr>) = (delay, r')" by fastforce
    have r': "rq_count r' = rq_count r + 1" "rq_timeout r' = (rq_count r + 1 = MAX_SENDS)" "rq_manager r' = rq_manager r" "rq_msg r' = rq_msg r"
      using d False by (auto simp: GetNextDelay_def Let_def split: if_splits)
    define w' where "w' = w\<lparr>objects := (objects w)(p \<mapsto> r'), events := events w @ [SendPacket now (Contents b) p],
        thread := PostDelayed now delay (Some p) MSG_STUN_SEND None (thread w)\<rparr>"
    have w': "OnMessage h now p w = Some w'"
      using r(2) False b d by (simp add: OnMessage_defs Let_def signal_def w'_def)
    have "map_wf w'" by (rule map_wf_update [OF assms(1) r(2)]) (use r' in \<open>simp_all add: w'_def rq_id_def\<close>)
    moreover have "queue_wf None w'"
      by (rule post_queue_wf [OF assms(2)]) (use assms(2,4) in \<open>auto simp: w'_def registered_def queue_wf_def\<close>)
    moreover have "events_wf w'"
    proof -
      have "sends q w' = sends q w + (if q = p then 1 else 0)" "finals q w' = finals q w" for q by (auto simp: w'_def sends_def finals_def)
      moreover have "sends p w < MAX_SENDS" "rq_count r = sends p w" "\<not> OnTimeout p \<in> set (events w)" "finals p w = 0"
        using assms(3) r(2) False by (auto simp: events_wf_def order.strict_iff_order)
      ultimately show ?thesis using assms(3) r' by (simp add: events_wf_def) (simp add: w'_def)
    qed
    ultimately show ?thesis using w' by (auto simp: rq_inv_def)
  qed
qed

lemma no_disposals: "queue_wf X w \<Longrightarrow> \<forall>m\<in>set (all_messages (thread w)). \<not> disposal m"
  by (auto simp: queue_wf_def MSG_STUN_SEND_def MQID_DISPOSE_def)

lemma turn_inv:
  assumes "rq_inv w"
  shows "\<exists>w'. turn h now w = Some w' \<and> rq_inv w'"
proof -
  have wf: "map_wf w" "queue_wf None w" "events_wf w" using assms by (simp_all add: rq_inv_def)
  obtain r q where q: "Get now 0 [] (thread w) = (case r of Some m \<Rightarrow> (Got m, q) | None \<Rightarrow> (if fStop (thread w) then Got_None else Waiting 0, q))"
      "taken r (thread w) q"
    using Get_taken [OF _ no_disposals [OF wf(2)]] wf(2) unfolding queue_wf_def by blast
  have same: "map_wf (w\<lparr>thread := q\<rparr>)" "events_wf (w\<lparr>thread := q\<rparr>)"
    using wf by (simp_all add: map_wf_def events_wf_def sends_def finals_def)
  note tq = taken_queue_wf [OF wf(2) q(2)]
  show ?thesis
  proof (cases r)
    case None
    then show ?thesis using q(1) same tq(1) by (auto simp: turn_def rq_inv_def)
  next
    case (Some m)
    then obtain p where p: "phandler m = Some p" "registered p w" using tq(2) by blast
    then have "\<exists>w'. OnMessage h now p (w\<lparr>thread := q\<rparr>) = Some w' \<and> rq_inv w'"
      using OnMessage_inv [OF same(1) _ same(2)] tq(1) Some by (simp add: registered_def)
    then show ?thesis using q(1) Some p by (simp add: turn_def)
  qed
qed

lemma send_inv:
  assumes "rq_inv w" "objects w p = Some r" "\<not> rq_manager r" "\<And>m. msg_tid (prep m) = msg_tid m" "attrs_ok (rq_msg (Construct prep r))"
    "SendDelayed prep now p delay w = Some w'"
  shows "rq_inv w'"
proof -
  define r' where "r' = Construct prep (set_manager r)"
  have wf: "map_wf w" "queue_wf None w" "events_wf w" using assms(1) by (simp_all add: rq_inv_def)
  have un: "\<not> registered p w" using wf(1) assms(2,3) unfolding map_wf_def registered_def by force
  then have fresh: "map_of (requests w) (rq_id r) = None" using map_of_requests [OF wf(1) assms(2)] by simp
  have r': "rq_manager r'" "rq_id r' = rq_id r" "rq_count r' = rq_count r" "rq_timeout r' = rq_timeout r" "attrs_ok (rq_msg r')"
    using assms(4,5) by (auto simp: r'_def Construct_def set_manager_def rq_id_def)
  have w': "w' = w\<lparr>objects := (objects w)(p \<mapsto> r'), requests := requests w @ [(rq_id r, p)],
      thread := PostDelayed now delay (Some p) MSG_STUN_SEND None (thread w)\<rparr>"
    using assms(2,6) r'(2) update_fresh [of "rq_id r" "requests w" p] fresh
    by (simp add: SendDelayed_def Let_def r'_def map_of_eq_None_iff)
  have "map_wf (w\<lparr>objects := (objects w)(p \<mapsto> r')\<rparr>)"
    by (rule map_wf_update [OF wf(1) assms(2)]) (use r' in simp_all)
  then have "map_wf w'"
    by (rule map_wf_register [of _ p r']) (use r' fresh in \<open>simp_all add: w' map_of_eq_None_iff\<close>)
  moreover have "queue_wf None w'"
  proof (rule post_queue_wf)
    show "queue_wf (Some p) w" using wf(2) un by (auto simp: queue_wf_def)
    show "waiting p w = 0" using wf(2) un by (auto simp: waiting_def queue_wf_def filter_empty_conv)
  qed (auto simp: w' registered_def)
  moreover have "events_wf w'" using wf(3) assms(2) r' by (auto simp: events_wf_def w' sends_def finals_def)
  ultimately show ?thesis by (simp add: rq_inv_def)
qed

lemma step_inv: "rq_step h w w' \<Longrightarrow> rq_inv w \<Longrightarrow> rq_inv w'"
proof (induction rule: rq_step.induct)
  case (create w p i m)
  have "rq_id (StunRequest_of m i) = i" using create.hyps(4)
    by (simp add: StunRequest_of_def rq_id_def SetTransactionID_def IsValidTransactionId_def kStunTransactionIdLength_def)
  moreover have "p \<notin> snd ` set (requests w)" using create unfolding rq_inv_def map_wf_def by fastforce
  ultimately show ?case using create
    by (auto simp: rq_inv_def map_wf_def queue_wf_def registered_def waiting_def events_wf_def sends_def finals_def StunRequest_of_def MAX_SENDS_def image_iff)
next
  case (remove w p r w')
  obtain x where x: "Remove p w = Some x" "without p w x" "objects x = objects w"
    using Remove_without [OF _ _ remove.hyps(1)] remove.prems by (auto simp: rq_inv_def)
  have "events_wf x" by (rule events_step [of w]) (use remove.prems x in \<open>auto simp: rq_inv_def without_def\<close>)
  then show ?case using without_wf [OF x(2), of None] remove x by (simp add: rq_inv_def)
next
  case (send w p r prep now delay w')
  then show ?case using send_inv by blast
next
  case (delete w p r w')
  then show ?case using delete_inv by blast
next
  case (clear w w')
  then show ?case using clear_inv [of w] by auto
next
  case (response data w ok w')
  then show ?case using CheckResponse_inv [of w h data] by auto
next
  case (turn now w w')
  then show ?case using turn_inv [of w h now] by auto
qed

definition rq_reachable :: "bool \<Rightarrow> stun_world \<Rightarrow> bool" where
  "rq_reachable h w \<longleftrightarrow> (rq_step h)\<^sup>*\<^sup>* stun_world_new w"

lemma reachable_inv: "rq_reachable h w \<Longrightarrow> rq_inv w"
  unfolding rq_reachable_def
proof (induction rule: rtranclp_induct)
  case base
  then show ?case by (simp add: rq_inv_def map_wf_def queue_wf_def events_wf_def stun_world_new_def registered_def waiting_def
      sends_def finals_def MessageQueue_new_def all_messages_def MAX_SENDS_def)
qed (rule step_inv)

section \<open>Properties\<close>

text \<open>C13: the life of a request. Whatever requests are created, sent, removed and answered and however the turns of the thread
  interleave with the packets that arrive, a request is sent at most nine times, it times out only after nine sends, it gets
  at most one of a response, an error response and a timeout, and then it is gone and nothing is scheduled for it; while
  it is registered exactly one message is scheduled for it.\<close>

theorem request_lifecycle:
  assumes "rq_reachable h w"
  shows "sends p w \<le> MAX_SENDS \<and> finals p w \<le> 1 \<and> (OnTimeout p \<in> set (events w) \<longrightarrow> sends p w = MAX_SENDS) \<and>
    (0 < finals p w \<longrightarrow> objects w p = None \<and> waiting p w = 0) \<and> (registered p w \<longrightarrow> waiting p w = 1 \<and> finals p w = 0)"
proof -
  have wf: "map_wf w" "queue_wf None w" "events_wf w" using reachable_inv [OF assms] by (simp_all add: rq_inv_def)
  have live: "\<exists>r. objects w p = Some r" if "registered p w"
    using that wf(1) unfolding map_wf_def registered_def by fastforce
  have none: "objects w p = None" if "0 < finals p w" using that wf(3) by (cases "objects w p") (auto simp: events_wf_def)
  have "waiting p w = 0" if "\<not> registered p w" using that wf(2) by (auto simp: waiting_def queue_wf_def filter_empty_conv)
  moreover have "\<not> registered p w" if "0 < finals p w" using live none [OF that] by auto
  moreover have "waiting p w = 1" if "registered p w" using that wf(2) by (simp add: queue_wf_def)
  moreover have "sends p w \<le> MAX_SENDS" "finals p w \<le> 1" "OnTimeout p \<in> set (events w) \<longrightarrow> sends p w = MAX_SENDS"
    using wf(3) by (simp_all add: events_wf_def)
  ultimately show ?thesis using none by (metis gr0I)
qed

lemma destroy_inv:
  "rq_inv w \<Longrightarrow> requests w = rs \<Longrightarrow> \<exists>w'. destroy_loop rs w = Some w' \<and> requests w' = []"
proof (induction rs arbitrary: w)
  case (Cons e rs)
  obtain i p where e: "e = (i, p)" by fastforce
  have wf: "map_wf w" "queue_wf None w" "events_wf w" using Cons.prems(1) by (simp_all add: rq_inv_def)
  obtain r where r: "objects w p = Some r" "rq_manager r" "rq_id r = i"
    using wf(1) Cons.prems(2) e unfolding map_wf_def by (metis list.set_intros(1))
  have "i \<notin> fst ` set rs" using wf(1) Cons.prems(2) e by (simp add: map_wf_def)
  then have del: "AList.delete i (requests w) = rs" using Cons.prems(2) e by (force simp: AList.delete_eq filter_id_conv)
  have reg: "registered p w" using Cons.prems(2) e by (auto simp: registered_def)
  have "delete_request p (w\<lparr>requests := rs\<rparr>) = delete_request p w"
  proof -
    have "i \<notin> fst ` set rs" using wf(1) Cons.prems(2) e by (auto simp: map_wf_def)
    then have "map_of rs i = None" by (simp add: map_of_eq_None_iff)
    moreover have "map_of (requests w) i = Some p" using map_of_requests [OF wf(1) r(1)] r(3) reg by simp
    ultimately show ?thesis using r del by (simp add: delete_request_def Remove_def Clear_twice)
  qed
  moreover obtain w1 where w1: "delete_request p w = Some w1" "without p w w1" "objects w1 = (objects w)(p := None)"
    using delete_without [OF wf(1,2) r(1,2)] by blast
  moreover have "requests w1 = rs" using w1(1) r del map_of_requests [OF wf(1) r(1)] reg by (auto simp: delete_request_def Remove_def)
  ultimately show ?case using Cons.IH [OF delete_inv [OF Cons.prems(1) r(1,2) w1(1)]] e by simp
qed simp

text \<open>C24: no call goes through a dangling pointer. In every state that can be reached the thread can turn, every packet can be
  checked, and the manager can be cleared and destroyed; a packet that is not taken for a response changes nothing, and
  clearing leaves no request.\<close>

theorem requests_never_fault:
  assumes "rq_reachable h w"
  shows "turn h now w \<noteq> None \<and> (\<exists>ok w'. CheckResponse h data w = Some (ok, w') \<and> (\<not> ok \<longrightarrow> w' = w)) \<and>
    (\<exists>w'. Requests_Clear w = Some w' \<and> requests w' = []) \<and> (\<exists>w'. Manager_destroy w = Some w' \<and> requests w' = [])"
  using turn_inv CheckResponse_inv clear_inv destroy_inv [OF _ refl] reachable_inv [OF assms]
  unfolding Manager_destroy_def by (metis option.distinct(1))

text \<open>C22: a response finds its request. When a request is waiting, the bytes of any well-formed message of its class that has
  its transaction id and the type of its success or error response are accepted, on a host of either byte order: the
  request is told the message itself, is deleted, and nothing is scheduled for it any more.\<close>

theorem response_finds_request:
  assumes "rq_reachable h w" "registered p w" "objects w p = Some r" "attrs_ok m" "length_ok m" "msg_type m AND 0x8000 = 0"
    "msg_tid m = rq_id r" "length (rq_id r) = 12" "msg_class m = msg_class (rq_msg r)"
    "uint (msg_type m) = GetStunSuccessResponseType (rq_type r) \<and> e = OnResponse p m \<or>
     uint (msg_type m) = GetStunErrorResponseType (rq_type r) \<and> e = OnErrorResponse p m"
  shows "\<exists>b w'. Message_Write h' m ByteBuffer_new = Some (True, b) \<and> CheckResponse h (Contents b) w = Some (True, w') \<and>
    events w' = events w @ [e] \<and> objects w' = (objects w)(p := None) \<and> \<not> registered p w' \<and> waiting p w' = 0"
proof -
  have inv: "rq_inv w" "map_wf w" "queue_wf None w" "events_wf w" using reachable_inv [OF assms(1)] by (simp_all add: rq_inv_def)
  obtain b where b: "Message_Write h' m ByteBuffer_new = Some (True, b)" "Contents b = message_bytes m" using write_succeeds [OF assms(4)] by blast
  have leg: "\<not> IsLegacy m" using assms(7,8) by (simp add: IsLegacy_def kStunLegacyTransactionIdLength_def)
  have "mem_read (message_bytes m) 8 12 = rq_id r"
    using assms(7,8) leg mem_read_at [of "be16 (msg_type m) @ be16 (msg_length m) @ be32 kStunMagicCookie" 8 "msg_tid m" 12
      "attrs_bytes (msg_tid m) (msg_attrs m)"] by (simp add: message_bytes_def header_bytes_def)
  moreover have "20 \<le> length (message_bytes m)"
    using assms(4) length_header [of m] by (simp add: message_bytes_def attrs_ok_def)
  moreover obtain b' where "Message_Read h (CreateNew (rq_msg r)) (ByteBuffer_of (message_bytes m)) = (True, m, b')"
    using Message_Read_bytes [OF assms(4-6), of "CreateNew (rq_msg r)" "ByteBuffer_of (message_bytes m)" h] leg assms(9)
    by (auto simp: CreateNew_def StunMessage_new_def holds_def)
  moreover have map: "map_of (requests w) (rq_id r) = Some p" using map_of_requests [OF inv(2) assms(3)] assms(2) by simp
  ultimately have c: "CheckResponse h (Contents b) w = CheckResponse_msg m w"
    using assms(3) b(2) by (simp add: CheckResponse_def kStunTransactionIdOffset_def kStunTransactionIdLength_def)
  have man: "rq_manager r" using inv(2) assms(2,3) unfolding map_wf_def registered_def by force
  have fin: "is_final p e" "e \<noteq> OnTimeout p" using assms(10) by auto
  obtain w' where w': "delete_request p (signal e w) = Some w'" "events w' = events w @ [e]" "without p (signal e w) w'"
      "objects w' = (objects w)(p := None)"
    using finish_inv [OF inv(2-4) _ assms(3) man fin(1)] fin(2) by auto
  have "CheckResponse_msg m w = Some (True, w')"
    using assms(3,7,10) map w'(1) response_types_differ [of "msg_type m" "rq_type r"] by (auto simp: CheckResponse_msg_def)
  moreover have "\<not> registered p w'" "waiting p w' = 0" using w'(3) by (auto simp: without_def registered_def waiting_def filter_empty_conv)
  ultimately show ?thesis using b(1) c w' by auto
qed









section \<open>Witnesses\<close>

definition sample_request :: StunRequest where
  "sample_request = StunRequest_of ((StunMessage_new StunClass)\<lparr>msg_type := 1\<rparr>) (replicate 12 7)"

definition created_world :: stun_world where
  "created_world = stun_world_new\<lparr>objects := (objects stun_world_new)(5 \<mapsto> sample_request)\<rparr>"

definition sent_world :: stun_world where
  "sent_world = the (Request_Send id 1000 5 created_world)"

lemma sample_facts:
  "attrs_ok (rq_msg sample_request)" "rq_id sample_request = replicate 12 7" "\<not> rq_manager sample_request"
  "msg_type (rq_msg sample_request) = 1" "msg_class (rq_msg sample_request) = StunClass"
  by (simp_all add: sample_request_def StunRequest_of_def StunMessage_new_def SetTransactionID_def IsValidTransactionId_def
    kStunTransactionIdLength_def attrs_ok_def rq_id_def)

lemma sent_world_eq:
  "sent_world = created_world\<lparr>objects := [5 \<mapsto> sample_request\<lparr>rq_manager := True\<rparr>], requests := [(replicate 12 7, 5)],
     thread := PostDelayed 1000 0 (Some 5) MSG_STUN_SEND None MessageQueue_new\<rparr>"
  using sample_facts(2,4)
  by (simp add: sent_world_def Request_Send_def SendDelayed_def created_world_def stun_world_new_def Construct_def set_manager_def
    Let_def rq_id_def)

lemma sent_world_reachable: "rq_reachable True sent_world"
proof -
  have "rq_step True stun_world_new created_world"
    unfolding created_world_def sample_request_def
    by (rule rq_step.create) (simp_all add: stun_world_new_def sends_def finals_def)
  moreover have "rq_step True created_world sent_world"
  proof (rule rq_step.send)
    show "objects created_world 5 = Some sample_request" by (simp add: created_world_def)
    show "SendDelayed id 1000 5 0 created_world = Some sent_world"
      by (simp add: sent_world_def Request_Send_def SendDelayed_def created_world_def Let_def)
  qed (use sample_facts in \<open>simp_all add: Construct_def\<close>)
  ultimately show ?thesis by (auto simp: rq_reachable_def)
qed

theorem request_lifecycle_witness: "waiting 5 sent_world = 1"
  using request_lifecycle [OF sent_world_reachable, of 5] by (simp add: sent_world_eq registered_def)

theorem requests_never_fault_witness: "turn True 7 sent_world \<noteq> None \<and> (\<exists>w'. Manager_destroy sent_world = Some w' \<and> requests w' = [])"
  using requests_never_fault [OF sent_world_reachable] by blast

definition sample_response :: stun_message where
  "sample_response = (StunMessage_new StunClass)\<lparr>msg_type := 0x0101, msg_tid := replicate 12 7\<rparr>"

theorem response_finds_request_witness:
  "\<exists>b w'. Message_Write False sample_response ByteBuffer_new = Some (True, b) \<and>
    CheckResponse True (Contents b) sent_world = Some (True, w') \<and> events w' = [OnResponse 5 sample_response]"
proof -
  have "attrs_ok sample_response" "length_ok sample_response" "msg_type sample_response AND 0x8000 = 0"
      "msg_tid sample_response = replicate 12 7" "msg_class sample_response = StunClass"
    by code_simp+
  moreover have "uint (msg_type sample_response) = GetStunSuccessResponseType (rq_type (sample_request\<lparr>rq_manager := True\<rparr>))" by code_simp
  ultimately show ?thesis
    using response_finds_request [OF sent_world_reachable, of 5 "sample_request\<lparr>rq_manager := True\<rparr>" sample_response
      "OnResponse 5 sample_response" False] sample_facts
    by (auto simp: sent_world_eq registered_def rq_id_def created_world_def stun_world_new_def)
qed


end
