(* ===== verification/Ice_Candidate.thy ===== *)
theory Ice_Candidate
  imports Socket_Address Crc32 Base64 Time_Utils "HOL-Library.Signed_Division"
begin

text \<open>
  \<^verbatim>\<open>p2p/base/candidate.h\<close>, the functions of \<^verbatim>\<open>p2p/base/port.cc\<close> that need no port, and \<^verbatim>\<open>base/ratetracker.cc\<close>:
  candidates and their priorities, the priority of a pair, foundations, names of protocols, the two tests on unanswered
  pings, and the rate of a stream of bytes. Left out is the conversion of priorities to and from floating point.
\<close>

section \<open>Candidates\<close>

record Candidate =
  cd_id :: string
  cd_component :: int
  cd_protocol :: string
  cd_address :: socket_address
  cd_priority :: u32
  cd_username :: "byte list"
  cd_password :: "byte list"
  cd_type :: string
  cd_network_name :: string
  cd_generation :: u32
  cd_foundation :: string
  cd_related_address :: socket_address

definition Candidate_new :: Candidate where
  "Candidate_new =
     \<lparr>cd_id = [], cd_component = 0, cd_protocol = [], cd_address = SocketAddress_nil, cd_priority = 0, cd_username = [],
      cd_password = [], cd_type = [], cd_network_name = [], cd_generation = 0, cd_foundation = [],
      cd_related_address = SocketAddress_nil\<rparr>"

definition Candidate_of ::
    "string \<Rightarrow> int \<Rightarrow> string \<Rightarrow> socket_address \<Rightarrow> u32 \<Rightarrow> byte list \<Rightarrow> byte list \<Rightarrow> string \<Rightarrow> string \<Rightarrow> u32 \<Rightarrow> string \<Rightarrow> Candidate" where
  "Candidate_of i component protocol address priority username password ty network_name generation foundation =
     \<lparr>cd_id = i, cd_component = component, cd_protocol = protocol, cd_address = address, cd_priority = priority,
      cd_username = username, cd_password = password, cd_type = ty, cd_network_name = network_name,
      cd_generation = generation, cd_foundation = foundation, cd_related_address = SocketAddress_nil\<rparr>"

definition generation_str :: "Candidate \<Rightarrow> string" where "generation_str c = decimal (unat (cd_generation c))"

definition IsEquivalent :: "bool \<Rightarrow> Candidate \<Rightarrow> Candidate \<Rightarrow> bool" where
  "IsEquivalent h a c \<longleftrightarrow>
     cd_id a = cd_id c \<and> cd_component a = cd_component c \<and> cd_protocol a = cd_protocol c \<and>
     SocketAddress_eq h (cd_address a) (cd_address c) \<and> cd_username a = cd_username c \<and> cd_password a = cd_password c \<and>
     cd_type a = cd_type c \<and> cd_generation a = cd_generation c \<and> cd_foundation a = cd_foundation c \<and>
     SocketAddress_eq h (cd_related_address a) (cd_related_address c)"

text \<open>The preferences are \<^verbatim>\<open>int\<close>s, the result is converted to 32 bits.\<close>

definition GetPriority :: "bool \<Rightarrow> Candidate \<Rightarrow> u32 \<Rightarrow> int \<Rightarrow> u32" where
  "GetPriority h c type_preference network_adapter_preference =
     (let addr_pref = IPAddressPrecedence h (sa_ip (cd_address c));
          local_preference = push_bit 8 network_adapter_preference OR addr_pref
      in push_bit 24 type_preference OR word_of_int (push_bit 8 local_preference) OR word_of_int (256 - cd_component c))"

definition ICE_TYPE_PREFERENCE_RELAY :: u32 where "ICE_TYPE_PREFERENCE_RELAY = 2"
definition ICE_TYPE_PREFERENCE_HOST_TCP :: u32 where "ICE_TYPE_PREFERENCE_HOST_TCP = 90"
definition ICE_TYPE_PREFERENCE_SRFLX :: u32 where "ICE_TYPE_PREFERENCE_SRFLX = 100"
definition ICE_TYPE_PREFERENCE_PRFLX :: u32 where "ICE_TYPE_PREFERENCE_PRFLX = 110"
definition ICE_TYPE_PREFERENCE_HOST :: u32 where "ICE_TYPE_PREFERENCE_HOST = 126"

definition prflx_priority :: "u32 \<Rightarrow> u32" where
  "prflx_priority priority = push_bit 24 ICE_TYPE_PREFERENCE_PRFLX OR (priority AND 0x00FFFFFF)"

section \<open>Protocols and foundations\<close>

definition PRFLX_PORT_TYPE :: string where "PRFLX_PORT_TYPE = ''prflx''"

datatype ProtocolType = PROTO_UDP | PROTO_TCP | PROTO_SSLTCP

definition ProtoToString :: "ProtocolType \<Rightarrow> string" where
  "ProtoToString proto = (case proto of PROTO_UDP \<Rightarrow> ''udp'' | PROTO_TCP \<Rightarrow> ''tcp'' | PROTO_SSLTCP \<Rightarrow> ''ssltcp'')"

definition lower :: "char \<Rightarrow> char" where
  "lower c = (let n = of_char c :: nat in if 65 \<le> n \<and> n \<le> 90 then char_of (n + 32) else c)"

text \<open>\<^verbatim>\<open>_stricmp\<close> on the strings up to their NULs.\<close>

definition stricmp_eq :: "string \<Rightarrow> string \<Rightarrow> bool" where
  "stricmp_eq a b \<longleftrightarrow> map lower (c_str a) = map lower (c_str b)"

definition StringToProto :: "string \<Rightarrow> ProtocolType option" where
  "StringToProto val = List.find (\<lambda>p. stricmp_eq (ProtoToString p) val) [PROTO_UDP, PROTO_TCP, PROTO_SSLTCP]"

definition string_bytes :: "string \<Rightarrow> byte list" where "string_bytes s = map of_char s"

definition ComputeFoundation ::
    "(addr_family \<Rightarrow> byte list \<Rightarrow> string option) \<Rightarrow> string \<Rightarrow> string \<Rightarrow> socket_address \<Rightarrow> string" where
  "ComputeFoundation ntop ty protocol base_address =
     decimal (unat (ComputeCrc32 (string_bytes (ty @ IPAddress_ToString ntop (sa_ip base_address) @ protocol))))"

text \<open>A username fragment for RTCP: the last character is the next one of the Base64 table. \<open>None\<close> is the read behind the
  table that \<^verbatim>\<open>GetNextBase64Char\<close> does on a NUL, and the use of its result when it has none.\<close>

definition GetRtcpUfragFromRtpUfrag :: "byte list \<Rightarrow> byte list option" where
  "GetRtcpUfragFromRtpUfrag rtp_ufrag =
     (if rtp_ufrag = [] then Some rtp_ufrag
      else case GetNextBase64Char (last rtp_ufrag) of
             Some (Some new_last_char) \<Rightarrow> Some (butlast rtp_ufrag @ [new_last_char])
           | _ \<Rightarrow> None)"

section \<open>Unanswered pings\<close>

definition TooManyFailures :: "u32 list \<Rightarrow> nat \<Rightarrow> u32 \<Rightarrow> u32 \<Rightarrow> bool" where
  "TooManyFailures pings_since_last_response maximum_failures rtt_estimate now =
     (if length pings_since_last_response < maximum_failures then False
      else pings_since_last_response ! (maximum_failures - 1) + rtt_estimate < now)"

definition TooLongWithoutResponse :: "u32 list \<Rightarrow> u32 \<Rightarrow> u32 \<Rightarrow> bool" where
  "TooLongWithoutResponse pings_since_last_response maximum_time now =
     (if pings_since_last_response = [] then False else pings_since_last_response ! 0 + maximum_time < now)"

definition MINIMUM_RTT :: u32 where "MINIMUM_RTT = 100"
definition MAXIMUM_RTT :: u32 where "MAXIMUM_RTT = 3000"
definition DEFAULT_RTT :: u32 where "DEFAULT_RTT = MAXIMUM_RTT"
definition RTT_RATIO :: u32 where "RTT_RATIO = 3"

definition ConservativeRTTEstimate :: "u32 \<Rightarrow> u32" where
  "ConservativeRTTEstimate rtt = std_max MINIMUM_RTT (std_min MAXIMUM_RTT (2 * rtt))"

section \<open>The priority of a pair\<close>

datatype IceRole = ICEROLE_CONTROLLING | ICEROLE_CONTROLLED | ICEROLE_UNKNOWN

text \<open>\<open>l\<close> and \<open>r\<close> are the priorities of the local and the remote candidate; the doubling is in 32 bits.\<close>

definition pair_priority :: "IceRole \<Rightarrow> u32 \<Rightarrow> u32 \<Rightarrow> u64" where
  "pair_priority role l r =
     (if role \<noteq> ICEROLE_UNKNOWN
      then let g = (if role = ICEROLE_CONTROLLING then l else r);
               d = (if role = ICEROLE_CONTROLLING then r else l)
           in push_bit 32 (ucast (std_min g d)) + ucast (2 * std_max g d + (if g > d then 1 else 0))
      else 0)"

section \<open>Rates\<close>

text \<open>\<^verbatim>\<open>size_t\<close> has 64 bits, \<^verbatim>\<open>int\<close> 32; the product of two \<^verbatim>\<open>int\<close>s is taken modulo their width.\<close>

record RateTracker =
  total_units :: u64
  rt_units_second :: u64
  last_units_second_time :: u32
  last_units_second_calc :: u64

definition RateTracker_new :: RateTracker where
  "RateTracker_new = \<lparr>total_units = 0, rt_units_second = 0, last_units_second_time = -1, last_units_second_calc = 0\<rparr>"

definition units_second :: "u32 \<Rightarrow> RateTracker \<Rightarrow> u64 \<times> RateTracker" where
  "units_second current_time t =
     (let t =
        (if last_units_second_time t \<noteq> -1
         then let delta = TimeDiff current_time (last_units_second_time t)
              in if delta \<ge> 1000
                 then let fraction_time = delta mod 1000;
                          seconds = delta div 1000;
                          fraction_units =
                            sint (ucast (total_units t - last_units_second_calc t) * word_of_int fraction_time :: u32) sdiv delta
                      in t\<lparr>rt_units_second :=
                             (total_units t - last_units_second_calc t - word_of_int fraction_units) div word_of_int seconds,
                           last_units_second_time := current_time - word_of_int fraction_time,
                           last_units_second_calc := total_units t - word_of_int fraction_units\<rparr>
                 else t
         else t);
          t =
        (if last_units_second_time t = -1
         then t\<lparr>last_units_second_time := current_time, last_units_second_calc := total_units t\<rparr>
         else t)
      in (rt_units_second t, t))"

definition RateTracker_Update :: "u64 \<Rightarrow> RateTracker \<Rightarrow> RateTracker" where
  "RateTracker_Update units t = t\<lparr>total_units := total_units t + units\<rparr>"

section \<open>Properties of priorities\<close>

lemma push_or_add: "0 \<le> b \<Longrightarrow> b < 2 ^ n \<Longrightarrow> push_bit n a OR b = a * 2 ^ n + (b :: int)"
proof -
  assume "0 \<le> b" "b < 2 ^ n"
  then have b: "take_bit n b = b" by (simp add: take_bit_int_eq_self)
  have "push_bit n a AND b = push_bit n a AND take_bit n b" by (simp add: b)
  also have "\<dots> = 0" by (rule bit_eqI) (auto simp: bit_simps)
  finally have "push_bit n a AND b = 0" .
  from disjunctive_add_eq_or [OF this] show ?thesis by (simp add: push_bit_eq_mult)
qed

lemma IPAddressPrecedence_bounds: "0 \<le> IPAddressPrecedence h ip \<and> IPAddressPrecedence h ip \<le> 60"
  by (simp add: IPAddressPrecedence_def)

text \<open>The RFC's formula for the priority of a candidate.\<close>

lemma GetPriority_formula:
  assumes "type_preference < 128" "0 \<le> pref" "pref < 256" "1 \<le> cd_component c" "cd_component c \<le> 256"
  shows "uint (GetPriority h c type_preference pref) =
    2 ^ 24 * uint type_preference + 2 ^ 8 * (2 ^ 8 * pref + IPAddressPrecedence h (sa_ip (cd_address c))) + (256 - cd_component c)"
proof -
  let ?a = "IPAddressPrecedence h (sa_ip (cd_address c))" and ?c = "256 - cd_component c"
  have a: "0 \<le> ?a" "?a < 2 ^ 8" using IPAddressPrecedence_bounds [of h "sa_ip (cd_address c)"] by auto
  have t: "0 \<le> uint type_preference" "uint type_preference < 128" using assms(1) by (simp_all add: word_less_def)
  have l: "push_bit 8 pref OR ?a = pref * 2 ^ 8 + ?a" using push_or_add [OF a] .
  define lp where "lp = pref * 2 ^ 8 + ?a"
  have lp: "0 \<le> lp" "lp < 65536" using a assms(2,3) by (auto simp: lp_def)
  have c: "0 \<le> ?c" "?c < 2 ^ 8" using assms(4,5) by auto
  have u: "uint (push_bit 24 type_preference) = push_bit 24 (uint type_preference)"
    using t by (simp add: push_bit_eq_mult uint_word_ariths)
  have v: "uint (word_of_int (push_bit 8 lp) :: u32) = push_bit 8 lp" "uint (word_of_int ?c :: u32) = ?c"
  proof -
    have id: "uint (word_of_int x :: u32) = x" if "0 \<le> x" "x < 4294967296" for x
      using that by (simp add: unsigned_of_int take_bit_int_eq_self)
    show "uint (word_of_int (push_bit 8 lp) :: u32) = push_bit 8 lp" using lp by (intro id) (simp_all add: push_bit_eq_mult)
    show "uint (word_of_int ?c :: u32) = ?c" using c by (intro id) simp_all
  qed
  have "uint (GetPriority h c type_preference pref) = (push_bit 24 (uint type_preference) OR push_bit 8 lp) OR ?c"
    by (simp only: GetPriority_def Let_def l lp_def [symmetric] unsigned_or_eq u v or.assoc)
  also have "\<dots> = push_bit 8 (push_bit 16 (uint type_preference) OR lp) OR ?c"
    by (simp add: push_bit_or push_bit_push_bit)
  also have "\<dots> = (uint type_preference * 2 ^ 16 + lp) * 2 ^ 8 + ?c"
  proof -
    have "push_bit 16 (uint type_preference) OR lp = uint type_preference * 2 ^ 16 + lp" using lp by (intro push_or_add) simp_all
    then show ?thesis by (simp only: push_or_add [OF c])
  qed
  finally show ?thesis by (simp add: lp_def)
qed

lemma uint_double32: "uint (2 * (x :: u32) + b) = (2 * uint x + uint b) mod 4294967296"
  by (simp add: uint_word_ariths mod_add_eq mod_simps)

lemma pair_priority_parts:
  "uint (push_bit 32 (ucast (m :: u32)) + ucast (x :: u32) :: u64) = 2 ^ 32 * uint m + uint x"
proof -
  have t: "take_bit 64 (uint y) = uint y" for y :: u32 using uint_lt32 [of y] by (simp add: take_bit_int_eq_self)
  have "uint (push_bit 32 (ucast m) + ucast x :: u64) = (2 ^ 32 * uint m + uint x) mod 2 ^ 64"
    by (simp add: uint_word_ariths push_bit_eq_mult unsigned_ucast_eq mult.commute t mod_simps)
  moreover have "0 \<le> 2 ^ 32 * uint m + uint x \<and> 2 ^ 32 * uint m + uint x < 2 ^ 64" using uint_lt32 [of m] uint_lt32 [of x] by simp
  ultimately show ?thesis by simp
qed

lemma pair_priority_value:
  assumes "role \<noteq> ICEROLE_UNKNOWN"
  shows "uint (pair_priority role l r) = 2 ^ 32 * min (uint l) (uint r) +
    (2 * max (uint l) (uint r) + (if (if role = ICEROLE_CONTROLLING then l > r else r > l) then 1 else 0)) mod 2 ^ 32"
proof -
  have m: "uint (min a b) = min (uint a) (uint b)" "uint (max a b) = max (uint a) (uint b)" for a b :: u32
    by (simp_all add: min_def max_def word_le_def)
  show ?thesis using assms
    by (auto simp: pair_priority_def Let_def pair_priority_parts uint_double32 m min.commute max.commute)
qed

lemma mod_wrap_once: "0 \<le> x \<Longrightarrow> x < 2 * 4294967296 \<Longrightarrow> x mod 4294967296 = (if x < 4294967296 then x else x - 4294967296 :: int)"
  using mod_pos_pos_trivial [of "x - 4294967296" 4294967296] by (auto simp: not_less minus_mod_self2)

lemma pair_priority_exact:
  "uint (pair_priority ICEROLE_CONTROLLING l r) = 2 ^ 32 * min (uint l) (uint r) + 2 * max (uint l) (uint r) +
     (if l > r then 1 else 0) - (if max l r < 0x80000000 then 0 else 2 ^ 32)"
proof -
  define x where "x = 2 * max (uint l) (uint r) + (if l > r then 1 else 0 :: int)"
  have "max (uint l) (uint r) < 2 ^ 32" "0 \<le> max (uint l) (uint r)" by (auto simp: max_def uint_lt32)
  then have x: "0 \<le> x" "x < 2 * 4294967296" "x < 4294967296 \<longleftrightarrow> max l r < 0x80000000"
    by (auto simp: x_def max_def word_less_def word_le_def)
  have "uint (pair_priority ICEROLE_CONTROLLING l r) = 2 ^ 32 * min (uint l) (uint r) + x mod 4294967296"
    by (simp add: pair_priority_value x_def)
  then show ?thesis unfolding mod_wrap_once [OF x(1,2)] x(3) by (simp add: x_def)
qed

text \<open>C28: whatever the pair, both ends give it the same priority, each in its role. It is that of RFC 5245 except that the doubled
  larger priority is cut to 32 bits, which priorities below \<open>2\<^sup>3\<^sup>1\<close> do not feel; those that \<^verbatim>\<open>GetPriority\<close> makes from type
  preferences of the RFC, and components from 1 to 256, are below. Pairs are always ordered by the smaller priority first.\<close>

theorem pair_priority_agrees:
  "pair_priority ICEROLE_CONTROLLING l r = pair_priority ICEROLE_CONTROLLED r l \<and>
   uint (pair_priority ICEROLE_CONTROLLING l r) = 2 ^ 32 * min (uint l) (uint r) + 2 * max (uint l) (uint r) +
     (if l > r then 1 else 0) - (if max l r < 0x80000000 then 0 else 2 ^ 32) \<and>
   (min l r < min l' r' \<longrightarrow> pair_priority ICEROLE_CONTROLLING l r < pair_priority ICEROLE_CONTROLLING l' r') \<and>
   (type_preference < 128 \<longrightarrow> 0 \<le> pref \<longrightarrow> pref < 256 \<longrightarrow> 1 \<le> cd_component c \<longrightarrow> cd_component c \<le> 256 \<longrightarrow>
      GetPriority h c type_preference pref < 0x80000000)"
proof (intro conjI impI)
  show "pair_priority ICEROLE_CONTROLLING l r = pair_priority ICEROLE_CONTROLLED r l" by (simp add: pair_priority_def)
next
  assume "min l r < min l' r'"
  then have m: "min (uint l) (uint r) + 1 \<le> min (uint l') (uint r')" by (simp add: min_def word_less_def word_le_def split: if_splits)
  define x where "x = (2 * max (uint l) (uint r) + (if l > r then 1 else 0)) mod 2 ^ 32"
  define x' where "x' = (2 * max (uint l') (uint r') + (if l' > r' then 1 else 0)) mod 2 ^ 32"
  have "0 \<le> x" "x < 2 ^ 32" "0 \<le> x'" by (simp_all add: x_def x'_def)
  moreover have "uint (pair_priority ICEROLE_CONTROLLING l r) = 2 ^ 32 * min (uint l) (uint r) + x"
      "uint (pair_priority ICEROLE_CONTROLLING l' r') = 2 ^ 32 * min (uint l') (uint r') + x'"
    by (simp_all add: pair_priority_value x_def x'_def)
  ultimately show "pair_priority ICEROLE_CONTROLLING l r < pair_priority ICEROLE_CONTROLLING l' r'"
    using m unfolding word_less_def by (simp del: min_less_iff_conj min.bounded_iff)
next
  assume a: "type_preference < 128" "0 \<le> pref" "pref < 256" "1 \<le> cd_component c" "cd_component c \<le> 256"
  from GetPriority_formula [OF this, of h] IPAddressPrecedence_bounds [of h "sa_ip (cd_address c)"]
  show "GetPriority h c type_preference pref < 0x80000000" using a(1-5) by (simp add: word_less_def)
qed (rule pair_priority_exact)

theorem pair_priority_agrees_witness:
  "pair_priority ICEROLE_CONTROLLING 7 5 < pair_priority ICEROLE_CONTROLLING 6 7 \<and>
   GetPriority True (Candidate_new\<lparr>cd_component := 1\<rparr>) ICE_TYPE_PREFERENCE_HOST 2 < 0x80000000"
  using pair_priority_agrees [of 7 5 6 7 ICE_TYPE_PREFERENCE_HOST 2 "Candidate_new\<lparr>cd_component := 1\<rparr>" True, THEN conjunct2, THEN conjunct2]
  by (simp add: ICE_TYPE_PREFERENCE_HOST_def)

end
