(* ===== verification/Ice_Port.thy ===== *)
theory Ice_Port
  imports Ice_Candidate Stun_Request "HOL-Library.Monad_Syntax"
begin

text \<open>
  \<^verbatim>\<open>p2p/base/port.h\<close> and \<^verbatim>\<open>p2p/base/port.cc\<close>: a port, its connections and the STUN pings by which they are checked, over the
  requests of \<open>Stun_Request\<close>. The state is one port and a store from addresses to its connections; \<open>None\<close> is a call
  through an address that holds none, or a read outside of an object. Signals, packets handed to the virtual
  \<^verbatim>\<open>SendTo\<close> and messages posted to the thread are recorded as events in their order. A connection keeps its
  \<^verbatim>\<open>StunRequestManager\<close> with the part of the thread's queue that belongs to its requests. The clock (\<open>now\<close>), random
  strings, \<^verbatim>\<open>inet_ntop\<close> (\<open>ntop\<close>) and the results of \<^verbatim>\<open>SendTo\<close> are arguments.
\<close>

section \<open>Data\<close>

definition STUN_BINDING_REQUEST :: int where "STUN_BINDING_REQUEST = 0x0001"
definition STUN_BINDING_INDICATION :: int where "STUN_BINDING_INDICATION = 0x0011"
definition STUN_BINDING_RESPONSE :: int where "STUN_BINDING_RESPONSE = 0x0101"
definition STUN_BINDING_ERROR_RESPONSE :: int where "STUN_BINDING_ERROR_RESPONSE = 0x0111"

definition STUN_ERROR_BAD_REQUEST :: int where "STUN_ERROR_BAD_REQUEST = 400"
definition STUN_ERROR_UNAUTHORIZED :: int where "STUN_ERROR_UNAUTHORIZED = 401"
definition STUN_ERROR_UNKNOWN_ATTRIBUTE :: int where "STUN_ERROR_UNKNOWN_ATTRIBUTE = 420"
definition STUN_ERROR_STALE_CREDENTIALS :: int where "STUN_ERROR_STALE_CREDENTIALS = 430"
definition STUN_ERROR_ROLE_CONFLICT :: int where "STUN_ERROR_ROLE_CONFLICT = 487"
definition STUN_ERROR_SERVER_ERROR :: int where "STUN_ERROR_SERVER_ERROR = 500"
definition STUN_ERROR_GLOBAL_FAILURE :: int where "STUN_ERROR_GLOBAL_FAILURE = 600"

definition STUN_ERROR_REASON_BAD_REQUEST :: "byte list" where
  "STUN_ERROR_REASON_BAD_REQUEST = string_bytes ''Bad Request''"
definition STUN_ERROR_REASON_UNAUTHORIZED :: "byte list" where
  "STUN_ERROR_REASON_UNAUTHORIZED = string_bytes ''Unauthorized''"
definition STUN_ERROR_REASON_ROLE_CONFLICT :: "byte list" where
  "STUN_ERROR_REASON_ROLE_CONFLICT = string_bytes ''Role Conflict''"

definition CONNECTION_READ_TIMEOUT :: u32 where "CONNECTION_READ_TIMEOUT = 30 * 1000"
definition CONNECTION_WRITE_TIMEOUT :: u32 where "CONNECTION_WRITE_TIMEOUT = 15 * 1000"
definition CONNECTION_WRITE_CONNECT_TIMEOUT :: u32 where "CONNECTION_WRITE_CONNECT_TIMEOUT = 5 * 1000"
definition CONNECTION_WRITE_CONNECT_FAILURES :: nat where "CONNECTION_WRITE_CONNECT_FAILURES = 5"
definition CONNECTION_RESPONSE_TIMEOUT :: int where "CONNECTION_RESPONSE_TIMEOUT = 5 * 1000"
definition kPortTimeoutDelay :: int where "kPortTimeoutDelay = 30 * 1000"
definition ICE_CANDIDATE_COMPONENT_RTCP :: int where "ICE_CANDIDATE_COMPONENT_RTCP = 2"
definition ICE_CANDIDATE_COMPONENT_DEFAULT :: int where "ICE_CANDIDATE_COMPONENT_DEFAULT = 1"

datatype IceProtocolType = ICEPROTO_GOOGLE | ICEPROTO_HYBRID | ICEPROTO_RFC5245
datatype IceMode = ICEMODE_FULL | ICEMODE_LITE
datatype ReadState = STATE_READ_INIT | STATE_READABLE | STATE_READ_TIMEOUT
datatype WriteState = STATE_WRITABLE | STATE_WRITE_UNRELIABLE | STATE_WRITE_INIT | STATE_WRITE_TIMEOUT
datatype CheckState = STATE_WAITING | STATE_INPROGRESS | STATE_SUCCEEDED | STATE_FAILED

text \<open>\<^verbatim>\<open>network_\<close> is represented by what is asked of it.\<close>

record Port =
  p_type :: string
  send_retransmit_count_attribute :: bool
  network_preference :: int
  network_name :: string
  p_ip :: ip_address
  min_port :: int
  max_port :: int
  content_name :: string
  p_component :: int
  p_generation :: u32
  ice_username_fragment :: "byte list"
  p_password :: "byte list"
  candidates :: "Candidate list"
  connections :: "(socket_address \<times> nat) list"
  timeout_delay :: int
  enable_port_packets :: bool
  ice_protocol :: IceProtocolType
  ice_role :: IceRole
  tiebreaker :: u64
  shared_socket :: bool

record Connection =
  local_candidate_index :: nat
  remote_candidate :: Candidate
  read_state :: ReadState
  write_state :: WriteState
  connected :: bool
  pruned :: bool
  use_candidate_attr :: bool
  remote_ice_mode :: IceMode
  conn_requests :: stun_world
  rtt :: u32
  last_ping_sent :: u32
  last_ping_received :: u32
  last_data_received :: u32
  last_ping_response_received :: u32
  pings_since_last_response :: "u32 list"
  recv_rate_tracker :: RateTracker
  send_rate_tracker :: RateTracker
  reported :: bool
  check_state :: CheckState
  conn_error :: int

text \<open>A change of state is signalled with the write state that a listener finds.\<close>

datatype ice_event =
    SendTo "byte list" socket_address
  | SignalCandidateReady Candidate
  | SignalPortComplete
  | SignalConnectionCreated nat
  | SignalPortReadPacket "byte list" socket_address
  | SignalUnknownAddress socket_address ProtocolType stun_message "byte list"
  | SignalRoleConflict
  | SignalStateChange nat WriteState
  | SignalReadPacket nat "byte list"
  | SignalUseCandidate nat
  | SignalReadyToSend nat
  | SignalConnectionDestroyed nat
  | SignalPortDestroyed
  | PostDelete nat
  | PostCheckTimeout int

record ice_world =
  the_port :: Port
  conns :: "nat \<rightharpoonup> Connection"
  sigs :: "ice_event list"

definition emit :: "ice_event \<Rightarrow> ice_world \<Rightarrow> ice_world" where "emit e w = w\<lparr>sigs := sigs w @ [e]\<rparr>"

definition put :: "nat \<Rightarrow> Connection \<Rightarrow> ice_world \<Rightarrow> ice_world" where "put k c w = w\<lparr>conns := (conns w)(k \<mapsto> c)\<rparr>"

definition add :: "stun_attribute \<Rightarrow> stun_message \<Rightarrow> stun_message" where "add a m = snd (AddAttribute a m)"

section \<open>The map from addresses to connections\<close>

definition same_key :: "bool \<Rightarrow> socket_address \<Rightarrow> socket_address \<Rightarrow> bool" where
  "same_key h a b \<longleftrightarrow> \<not> SocketAddress_less h a b \<and> \<not> SocketAddress_less h b a"

fun map_find :: "bool \<Rightarrow> (socket_address \<times> nat) list \<Rightarrow> socket_address \<Rightarrow> nat option" where
  "map_find h [] a = None"
| "map_find h ((b, k) # m) a = (if same_key h a b then Some k else map_find h m a)"

text \<open>Assignment through \<^verbatim>\<open>operator[]\<close>: an equivalent key stays, a new one goes to its place in the order.\<close>

fun map_assign :: "bool \<Rightarrow> socket_address \<Rightarrow> nat \<Rightarrow> (socket_address \<times> nat) list \<Rightarrow> (socket_address \<times> nat) list" where
  "map_assign h a k [] = [(a, k)]"
| "map_assign h a k ((b, j) # m) =
     (if SocketAddress_less h a b then (a, k) # (b, j) # m
      else if SocketAddress_less h b a then (b, j) # map_assign h a k m
      else (b, k) # m)"

fun map_erase :: "bool \<Rightarrow> socket_address \<Rightarrow> (socket_address \<times> nat) list \<Rightarrow> (socket_address \<times> nat) list" where
  "map_erase h a [] = []"
| "map_erase h a ((b, j) # m) = (if same_key h a b then m else (b, j) # map_erase h a m)"

section \<open>The port\<close>

definition IsStandardIce :: "Port \<Rightarrow> bool" where "IsStandardIce p \<longleftrightarrow> ice_protocol p = ICEPROTO_RFC5245"
definition IsGoogleIce :: "Port \<Rightarrow> bool" where "IsGoogleIce p \<longleftrightarrow> ice_protocol p = ICEPROTO_GOOGLE"
definition IsHybridIce :: "Port \<Rightarrow> bool" where "IsHybridIce p \<longleftrightarrow> ice_protocol p = ICEPROTO_HYBRID"

definition SetIceProtocolType :: "IceProtocolType \<Rightarrow> Port \<Rightarrow> Port" where
  "SetIceProtocolType protocol p = p\<lparr>ice_protocol := protocol\<rparr>"

definition SetIceRole :: "IceRole \<Rightarrow> Port \<Rightarrow> Port" where "SetIceRole role p = p\<lparr>ice_role := role\<rparr>"

definition SetIceTiebreaker :: "u64 \<Rightarrow> Port \<Rightarrow> Port" where "SetIceTiebreaker t p = p\<lparr>tiebreaker := t\<rparr>"

definition set_content_name :: "string \<Rightarrow> Port \<Rightarrow> Port" where "set_content_name name p = p\<lparr>content_name := name\<rparr>"

definition set_component :: "int \<Rightarrow> Port \<Rightarrow> Port" where "set_component component p = p\<lparr>p_component := component\<rparr>"

definition set_generation :: "u32 \<Rightarrow> Port \<Rightarrow> Port" where "set_generation g p = p\<lparr>p_generation := g\<rparr>"

definition set_send_retransmit_count_attribute :: "bool \<Rightarrow> Port \<Rightarrow> Port" where
  "set_send_retransmit_count_attribute enable p = p\<lparr>send_retransmit_count_attribute := enable\<rparr>"

definition set_timeout_delay :: "int \<Rightarrow> Port \<Rightarrow> Port" where "set_timeout_delay delay p = p\<lparr>timeout_delay := delay\<rparr>"

definition EnablePortPackets :: "Port \<Rightarrow> Port" where "EnablePortPackets p = p\<lparr>enable_port_packets := True\<rparr>"

text \<open>\<open>rnd_ufrag\<close> and \<open>rnd_pwd\<close> are the random strings that are made up when there are none.\<close>

definition Port_Construct :: "byte list \<Rightarrow> byte list \<Rightarrow> Port \<Rightarrow> Port" where
  "Port_Construct rnd_ufrag rnd_pwd p =
     (if ice_username_fragment p = [] then p\<lparr>ice_username_fragment := rnd_ufrag, p_password := rnd_pwd\<rparr> else p)"

definition Port_new ::
    "string \<Rightarrow> int \<Rightarrow> string \<Rightarrow> ip_address \<Rightarrow> int \<Rightarrow> int \<Rightarrow> byte list \<Rightarrow> byte list \<Rightarrow> bool \<Rightarrow> byte list \<Rightarrow> byte list \<Rightarrow> Port" where
  "Port_new ty preference name ip mn mx username_fragment password shared rnd_ufrag rnd_pwd =
     Port_Construct rnd_ufrag rnd_pwd
       \<lparr>p_type = ty, send_retransmit_count_attribute = False, network_preference = preference, network_name = name, p_ip = ip,
        min_port = mn, max_port = mx, content_name = [], p_component = ICE_CANDIDATE_COMPONENT_DEFAULT, p_generation = 0,
        ice_username_fragment = username_fragment, p_password = password, candidates = [], connections = [],
        timeout_delay = kPortTimeoutDelay, enable_port_packets = False, ice_protocol = ICEPROTO_HYBRID,
        ice_role = ICEROLE_UNKNOWN, tiebreaker = 0, shared_socket = shared\<rparr>"

definition username_fragment :: "Port \<Rightarrow> byte list option" where
  "username_fragment p =
     (if \<not> IsStandardIce p \<and> p_component p = ICE_CANDIDATE_COMPONENT_RTCP
      then GetRtcpUfragFromRtpUfrag (ice_username_fragment p)
      else Some (ice_username_fragment p))"

definition GetConnection :: "bool \<Rightarrow> Port \<Rightarrow> socket_address \<Rightarrow> nat option" where
  "GetConnection h p remote_addr = map_find h (connections p) remote_addr"

definition AddAddress ::
    "bool \<Rightarrow> (addr_family \<Rightarrow> byte list \<Rightarrow> string option) \<Rightarrow> string \<Rightarrow> socket_address \<Rightarrow> socket_address \<Rightarrow> socket_address \<Rightarrow> string \<Rightarrow>
     string \<Rightarrow> u32 \<Rightarrow> bool \<Rightarrow> ice_world \<Rightarrow> ice_world option" where
  "AddAddress h ntop rnd address base_address related_address protocol ty type_preference final w =
     do {
       let p = the_port w;
       let c = Candidate_new\<lparr>cd_id := rnd, cd_component := p_component p, cd_type := ty, cd_protocol := protocol, cd_address := address\<rparr>;
       let c = c\<lparr>cd_priority := GetPriority h c type_preference (network_preference p)\<rparr>;
       ufrag \<leftarrow> username_fragment p;
       let c = c\<lparr>cd_username := ufrag, cd_password := p_password p, cd_network_name := network_name p,
                 cd_generation := p_generation p, cd_related_address := related_address,
                 cd_foundation := ComputeFoundation ntop ty protocol base_address\<rparr>;
       let w = emit (SignalCandidateReady c) (w\<lparr>the_port := p\<lparr>candidates := candidates p @ [c]\<rparr>\<rparr>);
       Some (if final then emit SignalPortComplete w else w)
     }"

definition AddPrflxCandidate :: "Candidate \<Rightarrow> Port \<Rightarrow> nat \<times> Port" where
  "AddPrflxCandidate local p = (length (candidates p), p\<lparr>candidates := candidates p @ [local]\<rparr>)"

definition IsCompatibleAddress :: "bool \<Rightarrow> Port \<Rightarrow> socket_address \<Rightarrow> bool" where
  "IsCompatibleAddress h p addr =
     (let family = ip_family (p_ip p)
      in if ip_family (sa_ip addr) \<noteq> family then False
         else if family = AF_INET6 \<and> IPIsPrivate h (p_ip p) \<noteq> IPIsPrivate h (sa_ip addr) then False
         else True)"

definition GetString :: "stun_attribute \<Rightarrow> byte list" where
  "GetString a = (case at_value a of ByteStringValue (Some bytes) \<Rightarrow> take (unat (at_length a)) bytes | _ \<Rightarrow> [])"

definition uint64_value :: "stun_attribute \<Rightarrow> u64" where
  "uint64_value a = (case at_value a of UInt64Value v \<Rightarrow> v | _ \<Rightarrow> 0)"

definition uint32_value :: "stun_attribute \<Rightarrow> u32" where
  "uint32_value a = (case at_value a of UInt32Value v \<Rightarrow> v | _ \<Rightarrow> 0)"

text \<open>The local and the remote fragment and the protocol, or \<open>Some None\<close> for the result false.\<close>

definition ParseStunUsername :: "Port \<Rightarrow> stun_message \<Rightarrow> (byte list \<times> byte list \<times> IceProtocolType) option option" where
  "ParseStunUsername p stun_msg =
     (case GetByteString stun_msg STUN_ATTR_USERNAME of
        None \<Rightarrow> Some None
      | Some username_attr \<Rightarrow>
          (let str = GetString username_attr;
               colon_pos = position 58 str;
               remote_protocol_type =
                 (if IsHybridIce p then (if colon_pos \<noteq> None then ICEPROTO_RFC5245 else ICEPROTO_GOOGLE) else ice_protocol p)
           in if remote_protocol_type = ICEPROTO_RFC5245
              then (case colon_pos of
                      None \<Rightarrow> Some None
                    | Some i \<Rightarrow> Some (Some (take i str, drop (i + 1) str, remote_protocol_type)))
              else do {
                ufrag \<leftarrow> username_fragment p;
                if length str < length ufrag then Some None
                else Some (Some (take (length ufrag) str, drop (length ufrag) str, remote_protocol_type))
              }))"

definition CreateStunUsername :: "Port \<Rightarrow> byte list \<Rightarrow> byte list option" where
  "CreateStunUsername p remote_username =
     do {
       ufrag \<leftarrow> username_fragment p;
       Some (remote_username @ (if IsStandardIce p then [58] else []) @ ufrag)
     }"

definition SetClass :: "u8 \<Rightarrow> stun_attribute \<Rightarrow> stun_attribute" where
  "SetClass eclass a =
     (case at_value a of ErrorCodeValue _ number reason \<Rightarrow> a\<lparr>at_value := ErrorCodeValue eclass number reason\<rparr> | _ \<Rightarrow> a)"

definition SetNumber :: "u8 \<Rightarrow> stun_attribute \<Rightarrow> stun_attribute" where
  "SetNumber number a =
     (case at_value a of ErrorCodeValue eclass _ reason \<Rightarrow> a\<lparr>at_value := ErrorCodeValue eclass number reason\<rparr> | _ \<Rightarrow> a)"

definition error_response :: "bool \<Rightarrow> Port \<Rightarrow> stun_message \<Rightarrow> int \<Rightarrow> byte list \<Rightarrow> stun_message option" where
  "error_response h p request error_code reason =
     do {
       let response = Message_SetType STUN_BINDING_ERROR_RESPONSE (StunMessage_new StunClass);
       let response = snd (SetTransactionID (msg_tid request) response);
       let error_attr = CreateErrorCode;
       let error_attr =
         (if IsStandardIce p then SetCode error_code error_attr
          else if IsGoogleIce p
          then SetNumber (word_of_int (error_code mod 256)) (SetClass (word_of_int (error_code div 256)) error_attr)
          else error_attr);
       let response = add (SetReason reason error_attr) response;
       if IsStandardIce p
       then do {
         response \<leftarrow>
           (if error_code \<noteq> STUN_ERROR_BAD_REQUEST \<and> error_code \<noteq> STUN_ERROR_UNAUTHORIZED
            then map_option snd (AddMessageIntegrity h (p_password p) response) else Some response);
         map_option snd (AddFingerprint h response)
       }
       else if IsGoogleIce p
       then Some (case GetByteString request STUN_ATTR_USERNAME of
                    None \<Rightarrow> response
                  | Some a \<Rightarrow> add (StunByteStringAttribute_of (word_of_int STUN_ATTR_USERNAME) (GetString a)) response)
       else Some response
     }"

definition SendBindingErrorResponse ::
    "bool \<Rightarrow> stun_message \<Rightarrow> socket_address \<Rightarrow> int \<Rightarrow> byte list \<Rightarrow> ice_world \<Rightarrow> ice_world option" where
  "SendBindingErrorResponse h request addr error_code reason w =
     do {
       response \<leftarrow> error_response h (the_port w) request error_code reason;
       (_, buf) \<leftarrow> Message_Write h response ByteBuffer_new;
       Some (emit (SendTo (Contents buf) addr) w)
     }"

definition MaybeIceRoleConflict ::
    "bool \<Rightarrow> socket_address \<Rightarrow> stun_message \<Rightarrow> byte list \<Rightarrow> ice_world \<Rightarrow> (bool \<times> ice_world) option" where
  "MaybeIceRoleConflict h addr stun_msg remote_ufrag w =
     do {
       let p = the_port w;
       let (remote_ice_role, remote_tiebreaker) =
         (case GetUInt64 stun_msg STUN_ATTR_ICE_CONTROLLING of
            Some a \<Rightarrow> (ICEROLE_CONTROLLING, uint64_value a)
          | None \<Rightarrow> (ICEROLE_UNKNOWN, 0));
       ufrag \<leftarrow> username_fragment p;
       if remote_ice_role = ICEROLE_CONTROLLING \<and> ufrag = remote_ufrag \<and> remote_tiebreaker = tiebreaker p then Some (True, w)
       else do {
         let (remote_ice_role, remote_tiebreaker) =
           (case GetUInt64 stun_msg STUN_ATTR_ICE_CONTROLLED of
              Some a \<Rightarrow> (ICEROLE_CONTROLLED, uint64_value a)
            | None \<Rightarrow> (remote_ice_role, remote_tiebreaker));
         case ice_role p of
           ICEROLE_CONTROLLING \<Rightarrow>
             (if remote_ice_role = ICEROLE_CONTROLLING
              then if remote_tiebreaker \<ge> tiebreaker p then Some (True, emit SignalRoleConflict w)
                   else map_option (Pair False)
                          (SendBindingErrorResponse h stun_msg addr STUN_ERROR_ROLE_CONFLICT STUN_ERROR_REASON_ROLE_CONFLICT w)
              else Some (True, w))
         | ICEROLE_CONTROLLED \<Rightarrow>
             (if remote_ice_role = ICEROLE_CONTROLLED
              then if remote_tiebreaker < tiebreaker p then Some (True, emit SignalRoleConflict w)
                   else map_option (Pair False)
                          (SendBindingErrorResponse h stun_msg addr STUN_ERROR_ROLE_CONFLICT STUN_ERROR_REASON_ROLE_CONFLICT w)
              else Some (True, w))
         | ICEROLE_UNKNOWN \<Rightarrow> Some (True, w)
       }
     }"

text \<open>The result, \<^verbatim>\<open>*out_msg\<close> and \<^verbatim>\<open>*out_username\<close>.\<close>

definition GetStunMessage ::
    "bool \<Rightarrow> byte list \<Rightarrow> socket_address \<Rightarrow> ice_world \<Rightarrow> ((bool \<times> stun_message option \<times> byte list) \<times> ice_world) option" where
  "GetStunMessage h data addr w =
     (let p = the_port w
      in if IsStandardIce p \<and> \<not> ValidateFingerprint data then Some ((False, None, []), w)
         else case Message_Read h (StunMessage_new IceClass) (ByteBuffer_of data) of
           (ok, stun_msg, buf) \<Rightarrow>
             (if \<not> ok \<or> Length buf > 0 then Some ((False, None, []), w)
              else if uint (msg_type stun_msg) = STUN_BINDING_REQUEST
              then if GetByteString stun_msg STUN_ATTR_USERNAME = None \<or>
                      IsStandardIce p \<and> GetByteString stun_msg STUN_ATTR_MESSAGE_INTEGRITY = None
                   then do {
                     w \<leftarrow> SendBindingErrorResponse h stun_msg addr STUN_ERROR_BAD_REQUEST STUN_ERROR_REASON_BAD_REQUEST w;
                     Some ((True, None, []), w)
                   }
                   else do {
                     parsed \<leftarrow> ParseStunUsername p stun_msg;
                     case parsed of
                       None \<Rightarrow> do {
                         w \<leftarrow> SendBindingErrorResponse h stun_msg addr STUN_ERROR_UNAUTHORIZED STUN_ERROR_REASON_UNAUTHORIZED w;
                         Some ((True, None, []), w)
                       }
                     | Some (local_ufrag, remote_ufrag, remote_protocol_type) \<Rightarrow> do {
                         ufrag \<leftarrow> username_fragment p;
                         if local_ufrag \<noteq> ufrag
                         then do {
                           w \<leftarrow> SendBindingErrorResponse h stun_msg addr STUN_ERROR_UNAUTHORIZED STUN_ERROR_REASON_UNAUTHORIZED w;
                           Some ((True, None, []), w)
                         }
                         else do {
                           let w = (if IsHybridIce p then w\<lparr>the_port := SetIceProtocolType remote_protocol_type p\<rparr> else w);
                           let p = the_port w;
                           valid \<leftarrow> (if IsStandardIce p then ValidateMessageIntegrity h data (p_password p) else Some True);
                           if \<not> valid
                           then do {
                             w \<leftarrow> SendBindingErrorResponse h stun_msg addr STUN_ERROR_UNAUTHORIZED STUN_ERROR_REASON_UNAUTHORIZED w;
                             Some ((True, None, []), w)
                           }
                           else Some ((True, Some stun_msg, remote_ufrag), w)
                         }
                       }
                   }
              else if uint (msg_type stun_msg) = STUN_BINDING_RESPONSE then Some ((True, Some stun_msg, []), w)
              else if uint (msg_type stun_msg) = STUN_BINDING_ERROR_RESPONSE
              then Some ((True, if GetErrorCode stun_msg \<noteq> None then Some stun_msg else None, []), w)
              else if uint (msg_type stun_msg) = STUN_BINDING_INDICATION then Some ((True, Some stun_msg, []), w)
              else Some ((True, None, []), w)))"

definition Port_OnReadPacket ::
    "bool \<Rightarrow> byte list \<Rightarrow> socket_address \<Rightarrow> ProtocolType \<Rightarrow> ice_world \<Rightarrow> ice_world option" where
  "Port_OnReadPacket h data addr proto w =
     (if enable_port_packets (the_port w) then Some (emit (SignalPortReadPacket data addr) w)
      else do {
        ((ok, msg, remote_username), w) \<leftarrow> GetStunMessage h data addr w;
        case msg of
          None \<Rightarrow> Some w
        | Some msg \<Rightarrow>
            (if uint (msg_type msg) = STUN_BINDING_REQUEST
             then do {
               (go, w) \<leftarrow>
                 (if IsStandardIce (the_port w) then MaybeIceRoleConflict h addr msg remote_username w else Some (True, w));
               Some (if go then emit (SignalUnknownAddress addr proto msg remote_username) w else w)
             }
             else Some w)
      })"

section \<open>The connection\<close>

definition Connection_new :: "nat \<Rightarrow> Candidate \<Rightarrow> Connection" where
  "Connection_new index candidate =
     \<lparr>local_candidate_index = index, remote_candidate = candidate, read_state = STATE_READ_INIT, write_state = STATE_WRITE_INIT,
      connected = True, pruned = False, use_candidate_attr = False, remote_ice_mode = ICEMODE_FULL,
      conn_requests = stun_world_new, rtt = DEFAULT_RTT, last_ping_sent = 0, last_ping_received = 0, last_data_received = 0,
      last_ping_response_received = 0, pings_since_last_response = [], recv_rate_tracker = RateTracker_new,
      send_rate_tracker = RateTracker_new, reported = False, check_state = STATE_WAITING, conn_error = 0\<rparr>"

definition AddConnection :: "bool \<Rightarrow> nat \<Rightarrow> ice_world \<Rightarrow> ice_world option" where
  "AddConnection h k w =
     do {
       c \<leftarrow> conns w k;
       let p = the_port w;
       let p = p\<lparr>connections := map_assign h (cd_address (remote_candidate c)) k (connections p)\<rparr>;
       Some (emit (SignalConnectionCreated k) (w\<lparr>the_port := p\<rparr>))
     }"

definition local_candidate :: "Port \<Rightarrow> Connection \<Rightarrow> Candidate option" where
  "local_candidate p c =
     (if local_candidate_index c < length (candidates p) then Some (candidates p ! local_candidate_index c) else None)"

definition Connection_priority :: "Port \<Rightarrow> Connection \<Rightarrow> u64 option" where
  "Connection_priority p c =
     (if ice_role p \<noteq> ICEROLE_UNKNOWN
      then do {
        local \<leftarrow> local_candidate p c;
        Some (pair_priority (ice_role p) (cd_priority local) (cd_priority (remote_candidate c)))
      }
      else Some 0)"

definition Connection_CheckTimeout :: "nat \<Rightarrow> ice_world \<Rightarrow> ice_world option" where
  "Connection_CheckTimeout k w =
     do {
       c \<leftarrow> conns w k;
       Some (if (read_state c = STATE_READ_TIMEOUT \<or> read_state c = STATE_READ_INIT) \<and> write_state c = STATE_WRITE_TIMEOUT
             then emit (PostDelete k) w else w)
     }"

definition set_read_state :: "nat \<Rightarrow> ReadState \<Rightarrow> ice_world \<Rightarrow> ice_world option" where
  "set_read_state k val w =
     do {
       c \<leftarrow> conns w k;
       let w = put k (c\<lparr>read_state := val\<rparr>) w;
       if val \<noteq> read_state c then Connection_CheckTimeout k (emit (SignalStateChange k (write_state c)) w) else Some w
     }"

definition set_write_state :: "nat \<Rightarrow> WriteState \<Rightarrow> ice_world \<Rightarrow> ice_world option" where
  "set_write_state k val w =
     do {
       c \<leftarrow> conns w k;
       let w = put k (c\<lparr>write_state := val\<rparr>) w;
       if val \<noteq> write_state c then Connection_CheckTimeout k (emit (SignalStateChange k val) w) else Some w
     }"

definition set_state :: "nat \<Rightarrow> CheckState \<Rightarrow> ice_world \<Rightarrow> ice_world option" where
  "set_state k val w = do { c \<leftarrow> conns w k; Some (put k (c\<lparr>check_state := val\<rparr>) w) }"

definition set_connected :: "bool \<Rightarrow> Connection \<Rightarrow> Connection" where
  "set_connected val c = c\<lparr>connected := val\<rparr>"

definition set_use_candidate_attr :: "bool \<Rightarrow> Connection \<Rightarrow> Connection" where
  "set_use_candidate_attr enable c = c\<lparr>use_candidate_attr := enable\<rparr>"

definition set_remote_ice_mode :: "IceMode \<Rightarrow> Connection \<Rightarrow> Connection" where
  "set_remote_ice_mode mode c = c\<lparr>remote_ice_mode := mode\<rparr>"

definition set_reported :: "bool \<Rightarrow> Connection \<Rightarrow> Connection" where "set_reported r c = c\<lparr>reported := r\<rparr>"

definition ReceivedPing :: "u32 \<Rightarrow> nat \<Rightarrow> ice_world \<Rightarrow> ice_world option" where
  "ReceivedPing now k w =
     do {
       c \<leftarrow> conns w k;
       set_read_state k STATE_READABLE (put k (c\<lparr>last_ping_received := now\<rparr>) w)
     }"

definition Prune :: "nat \<Rightarrow> ice_world \<Rightarrow> ice_world option" where
  "Prune k w =
     do {
       c \<leftarrow> conns w k;
       if \<not> pruned c
       then do {
         rqs \<leftarrow> Requests_Clear (conn_requests c);
         set_write_state k STATE_WRITE_TIMEOUT (put k (c\<lparr>pruned := True, conn_requests := rqs\<rparr>) w)
       }
       else Some w
     }"

definition Connection_Destroy :: "nat \<Rightarrow> ice_world \<Rightarrow> ice_world option" where
  "Connection_Destroy k w =
     do {
       w \<leftarrow> set_read_state k STATE_READ_TIMEOUT w;
       set_write_state k STATE_WRITE_TIMEOUT w
     }"

definition UpdateState :: "u32 \<Rightarrow> nat \<Rightarrow> ice_world \<Rightarrow> ice_world option" where
  "UpdateState now k w =
     do {
       c \<leftarrow> conns w k;
       let r = ConservativeRTTEstimate (rtt c);
       w \<leftarrow>
         (if IsGoogleIce (the_port w) \<and> read_state c = STATE_READABLE \<and>
             last_ping_received c + CONNECTION_READ_TIMEOUT \<le> now \<and> last_data_received c + CONNECTION_READ_TIMEOUT \<le> now
          then set_read_state k STATE_READ_TIMEOUT w else Some w);
       c \<leftarrow> conns w k;
       w \<leftarrow>
         (if write_state c = STATE_WRITABLE \<and>
             TooManyFailures (pings_since_last_response c) CONNECTION_WRITE_CONNECT_FAILURES r now \<and>
             TooLongWithoutResponse (pings_since_last_response c) CONNECTION_WRITE_CONNECT_TIMEOUT now
          then set_write_state k STATE_WRITE_UNRELIABLE w else Some w);
       c \<leftarrow> conns w k;
       if (write_state c = STATE_WRITE_UNRELIABLE \<or> write_state c = STATE_WRITE_INIT) \<and>
          TooLongWithoutResponse (pings_since_last_response c) CONNECTION_WRITE_TIMEOUT now
       then set_write_state k STATE_WRITE_TIMEOUT w else Some w
     }"

section \<open>Pings\<close>

definition Prepare :: "bool \<Rightarrow> Port \<Rightarrow> Connection \<Rightarrow> stun_message \<Rightarrow> stun_message option" where
  "Prepare h p c request =
     do {
       let m = Message_SetType STUN_BINDING_REQUEST request;
       username \<leftarrow> CreateStunUsername p (cd_username (remote_candidate c));
       let m = add (StunByteStringAttribute_of (word_of_int STUN_ATTR_USERNAME) username) m;
       let m =
         (if send_retransmit_count_attribute p
          then add (StunUInt32Attribute_of (word_of_int STUN_ATTR_RETRANSMIT_COUNT)
                 (word_of_int (int (length (pings_since_last_response c)) - 1))) m
          else m);
       if IsStandardIce p
       then do {
         let m =
           (case ice_role p of
              ICEROLE_CONTROLLING \<Rightarrow>
                (let m = add (StunUInt64Attribute_of (word_of_int STUN_ATTR_ICE_CONTROLLING) (tiebreaker p)) m
                 in if use_candidate_attr c then add (StunByteStringAttribute (word_of_int STUN_ATTR_USE_CANDIDATE) 0) m else m)
            | ICEROLE_CONTROLLED \<Rightarrow> add (StunUInt64Attribute_of (word_of_int STUN_ATTR_ICE_CONTROLLED) (tiebreaker p)) m
            | ICEROLE_UNKNOWN \<Rightarrow> m);
         local \<leftarrow> local_candidate p c;
         let m = add (StunUInt32Attribute_of (word_of_int STUN_ATTR_PRIORITY) (prflx_priority (cd_priority local))) m;
         (_, m) \<leftarrow> AddMessageIntegrity h (cd_password (remote_candidate c)) m;
         (_, m) \<leftarrow> AddFingerprint h m;
         Some m
       }
       else Some m
     }"

definition Request_GetNextDelay :: "StunRequest \<Rightarrow> int \<times> StunRequest" where
  "Request_GetNextDelay r = (CONNECTION_RESPONSE_TIMEOUT, r\<lparr>rq_timeout := True\<rparr>)"

text \<open>\<open>q\<close> is the address of the new request.\<close>

definition Ping :: "bool \<Rightarrow> u32 \<Rightarrow> byte list \<Rightarrow> nat \<Rightarrow> nat \<Rightarrow> ice_world \<Rightarrow> ice_world option" where
  "Ping h now random_id q k w =
     do {
       c \<leftarrow> conns w k;
       let c = c\<lparr>last_ping_sent := now, pings_since_last_response := pings_since_last_response c @ [now]\<rparr>;
       let req = StunRequest_of (StunMessage_new IceClass) random_id;
       m \<leftarrow> Prepare h (the_port w) c (rq_msg req);
       let rqs = conn_requests c;
       rqs \<leftarrow> Request_Send (\<lambda>_. m) now q (rqs\<lparr>objects := (objects rqs)(q \<mapsto> req)\<rparr>);
       Some (put k (c\<lparr>conn_requests := rqs, check_state := STATE_INPROGRESS\<rparr>) w)
     }"

text \<open>A message of the thread for a request of the connection: its packet goes to \<^verbatim>\<open>OnSendStunPacket\<close>, a timeout to
  \<^verbatim>\<open>OnConnectionRequestTimeout\<close>, which only logs.\<close>

definition OnSendStunPacket :: "nat \<Rightarrow> byte list \<Rightarrow> ice_world \<Rightarrow> ice_world option" where
  "OnSendStunPacket k data w = do { c \<leftarrow> conns w k; Some (emit (SendTo data (cd_address (remote_candidate c))) w) }"

definition request_callback :: "nat \<Rightarrow> rq_event \<Rightarrow> ice_world \<Rightarrow> ice_world option" where
  "request_callback k e w = (case e of SendPacket _ data _ \<Rightarrow> OnSendStunPacket k data w | _ \<Rightarrow> Some w)"

fun request_callbacks :: "nat \<Rightarrow> rq_event list \<Rightarrow> ice_world \<Rightarrow> ice_world option" where
  "request_callbacks k [] w = Some w"
| "request_callbacks k (e # es) w = do { w \<leftarrow> request_callback k e w; request_callbacks k es w }"

definition Request_OnMessage :: "bool \<Rightarrow> u32 \<Rightarrow> nat \<Rightarrow> nat \<Rightarrow> ice_world \<Rightarrow> ice_world option" where
  "Request_OnMessage h now q k w =
     do {
       c \<leftarrow> conns w k;
       rqs \<leftarrow> OnMessage_with Request_GetNextDelay h now q ((conn_requests c)\<lparr>events := []\<rparr>);
       request_callbacks k (events rqs) (put k (c\<lparr>conn_requests := rqs\<rparr>) w)
     }"

definition requests_turn :: "bool \<Rightarrow> u32 \<Rightarrow> nat \<Rightarrow> ice_world \<Rightarrow> ice_world option" where
  "requests_turn h now k w =
     do {
       c \<leftarrow> conns w k;
       let rqs = conn_requests c;
       case Get now 0 [] (thread rqs) of
         (Got m, mq) \<Rightarrow>
           do {
             q \<leftarrow> phandler m;
             Request_OnMessage h now q k (put k (c\<lparr>conn_requests := rqs\<lparr>thread := mq\<rparr>\<rparr>) w)
           }
       | (_, mq) \<Rightarrow> Some (put k (c\<lparr>conn_requests := rqs\<lparr>thread := mq\<rparr>\<rparr>) w)
     }"

section \<open>Responses\<close>

definition binding_response :: "bool \<Rightarrow> Port \<Rightarrow> stun_message \<Rightarrow> stun_attribute \<Rightarrow> socket_address \<Rightarrow> stun_message option" where
  "binding_response h p request username_attr addr =
     do {
       let response = Message_SetType STUN_BINDING_RESPONSE (StunMessage_new StunClass);
       let response = snd (SetTransactionID (msg_tid request) response);
       let response =
         (case GetUInt32 request STUN_ATTR_RETRANSMIT_COUNT of
            None \<Rightarrow> response
          | Some a \<Rightarrow> add (StunUInt32Attribute_of (word_of_int STUN_ATTR_RETRANSMIT_COUNT) (uint32_value a)) response);
       if IsStandardIce p
       then do {
         let response = add (StunXorAddressAttribute_of (word_of_int STUN_ATTR_XOR_MAPPED_ADDRESS) addr) response;
         (_, response) \<leftarrow> AddMessageIntegrity h (p_password p) response;
         (_, response) \<leftarrow> AddFingerprint h response;
         Some response
       }
       else if IsGoogleIce p
       then Some (add (StunByteStringAttribute_of (word_of_int STUN_ATTR_USERNAME) (GetString username_attr))
              (add (StunAddressAttribute_of (word_of_int STUN_ATTR_MAPPED_ADDRESS) addr) response))
       else Some response
     }"

definition SendBindingResponse :: "bool \<Rightarrow> u32 \<Rightarrow> stun_message \<Rightarrow> socket_address \<Rightarrow> ice_world \<Rightarrow> ice_world option" where
  "SendBindingResponse h now request addr w =
     (case GetByteString request STUN_ATTR_USERNAME of
        None \<Rightarrow> Some w
      | Some username_attr \<Rightarrow>
          do {
            response \<leftarrow> binding_response h (the_port w) request username_attr addr;
            (_, buf) \<leftarrow> Message_Write h response ByteBuffer_new;
            let w = emit (SendTo (Contents buf) addr) w;
            case GetConnection h (the_port w) addr of None \<Rightarrow> Some w | Some k \<Rightarrow> ReceivedPing now k w
          })"

definition MaybeAddPrflxCandidate ::
    "bool \<Rightarrow> (addr_family \<Rightarrow> byte list \<Rightarrow> string option) \<Rightarrow> string \<Rightarrow> nat \<Rightarrow> StunRequest \<Rightarrow> stun_message \<Rightarrow> ice_world \<Rightarrow> ice_world option" where
  "MaybeAddPrflxCandidate h ntop rnd k request response w =
     (case Message_GetAddress response STUN_ATTR_XOR_MAPPED_ADDRESS of
        None \<Rightarrow> Some w
      | Some addr \<Rightarrow>
          (if list_ex (\<lambda>cand. SocketAddress_eq h (cd_address cand) (GetAddress addr)) (candidates (the_port w)) then Some w
           else case GetUInt32 (rq_msg request) STUN_ATTR_PRIORITY of
                  None \<Rightarrow> Some w
                | Some priority_attr \<Rightarrow>
                    do {
                      c \<leftarrow> conns w k;
                      local \<leftarrow> local_candidate (the_port w) c;
                      let new_local_candidate =
                        Candidate_new\<lparr>cd_id := rnd, cd_component := cd_component local, cd_type := PRFLX_PORT_TYPE,
                          cd_protocol := cd_protocol local, cd_address := GetAddress addr,
                          cd_priority := uint32_value priority_attr, cd_username := cd_username local,
                          cd_password := cd_password local, cd_network_name := cd_network_name local,
                          cd_related_address := cd_address local,
                          cd_foundation := ComputeFoundation ntop PRFLX_PORT_TYPE (cd_protocol local) (cd_address local)\<rparr>;
                      let (index, p) = AddPrflxCandidate new_local_candidate (the_port w);
                      Some (emit (SignalStateChange k (write_state c)) (put k (c\<lparr>local_candidate_index := index\<rparr>) (w\<lparr>the_port := p\<rparr>)))
                    }))"

definition OnConnectionRequestResponse ::
    "bool \<Rightarrow> (addr_family \<Rightarrow> byte list \<Rightarrow> string option) \<Rightarrow> u32 \<Rightarrow> string \<Rightarrow> nat \<Rightarrow> StunRequest \<Rightarrow> stun_message \<Rightarrow> ice_world \<Rightarrow>
     ice_world option" where
  "OnConnectionRequestResponse h ntop now rnd k request response w =
     do {
       let new_rtt = Elapsed now request;
       w \<leftarrow> set_write_state k STATE_WRITABLE w;
       w \<leftarrow> set_state k STATE_SUCCEEDED w;
       c \<leftarrow> conns w k;
       w \<leftarrow> (if remote_ice_mode c = ICEMODE_LITE then ReceivedPing now k w else Some w);
       c \<leftarrow> conns w k;
       let c = c\<lparr>pings_since_last_response := [], last_ping_response_received := now,
                 rtt := (RTT_RATIO * rtt c + new_rtt) div (RTT_RATIO + 1)\<rparr>;
       let w = put k c w;
       if IsStandardIce (the_port w) then MaybeAddPrflxCandidate h ntop rnd k request response w else Some w
     }"

definition HandleRoleConflictFromPeer :: "ice_world \<Rightarrow> ice_world" where
  "HandleRoleConflictFromPeer w = emit SignalRoleConflict w"

definition eclass :: "stun_attribute \<Rightarrow> int" where
  "eclass a = (case at_value a of ErrorCodeValue cls _ _ \<Rightarrow> uint cls | _ \<Rightarrow> 0)"

definition enumber :: "stun_attribute \<Rightarrow> int" where
  "enumber a = (case at_value a of ErrorCodeValue _ number _ \<Rightarrow> uint number | _ \<Rightarrow> 0)"

definition OnConnectionRequestErrorResponse :: "nat \<Rightarrow> stun_message \<Rightarrow> ice_world \<Rightarrow> ice_world option" where
  "OnConnectionRequestErrorResponse k response w =
     (let error_code =
        (case GetErrorCode response of
           None \<Rightarrow> STUN_ERROR_GLOBAL_FAILURE
         | Some a \<Rightarrow> if IsGoogleIce (the_port w) then eclass a * 256 + enumber a else code (at_value a))
      in if error_code = STUN_ERROR_UNKNOWN_ATTRIBUTE \<or> error_code = STUN_ERROR_SERVER_ERROR \<or> error_code = STUN_ERROR_UNAUTHORIZED
         then Some w
         else if error_code = STUN_ERROR_STALE_CREDENTIALS then Some w
         else if error_code = STUN_ERROR_ROLE_CONFLICT then Some (HandleRoleConflictFromPeer w)
         else do {
           w \<leftarrow> set_state k STATE_FAILED w;
           set_write_state k STATE_WRITE_TIMEOUT w
         })"

text \<open>The manager calls the request back before it deletes it; the callbacks do not touch the manager.\<close>

definition response_callback ::
    "bool \<Rightarrow> (addr_family \<Rightarrow> byte list \<Rightarrow> string option) \<Rightarrow> u32 \<Rightarrow> string \<Rightarrow> nat \<Rightarrow> (nat \<rightharpoonup> StunRequest) \<Rightarrow> rq_event \<Rightarrow> ice_world \<Rightarrow>
     ice_world option" where
  "response_callback h ntop now rnd k objs e w =
     (case e of
        OnResponse q m \<Rightarrow> do { r \<leftarrow> objs q; OnConnectionRequestResponse h ntop now rnd k r m w }
      | OnErrorResponse q m \<Rightarrow> OnConnectionRequestErrorResponse k m w
      | _ \<Rightarrow> Some w)"

definition Connection_CheckResponse ::
    "bool \<Rightarrow> (addr_family \<Rightarrow> byte list \<Rightarrow> string option) \<Rightarrow> u32 \<Rightarrow> string \<Rightarrow> nat \<Rightarrow> stun_message \<Rightarrow> ice_world \<Rightarrow> ice_world option" where
  "Connection_CheckResponse h ntop now rnd k msg w =
     do {
       c \<leftarrow> conns w k;
       (_, rqs) \<leftarrow> CheckResponse_msg msg ((conn_requests c)\<lparr>events := []\<rparr>);
       let w = put k (c\<lparr>conn_requests := rqs\<rparr>) w;
       case events rqs of
         [] \<Rightarrow> Some w
       | e # _ \<Rightarrow> response_callback h ntop now rnd k (objects (conn_requests c)) e w
     }"

section \<open>Packets\<close>

text \<open>If timed out sending writability checks, start up again.\<close>

definition restart_checks :: "nat \<Rightarrow> ice_world \<Rightarrow> ice_world option" where
  "restart_checks k w =
     do {
       c \<leftarrow> conns w k;
       if \<not> pruned c \<and> write_state c = STATE_WRITE_TIMEOUT then set_write_state k STATE_WRITE_INIT w else Some w
     }"

definition OnReadPacket ::
    "bool \<Rightarrow> (addr_family \<Rightarrow> byte list \<Rightarrow> string option) \<Rightarrow> u32 \<Rightarrow> string \<Rightarrow> nat \<Rightarrow> byte list \<Rightarrow> ice_world \<Rightarrow> ice_world option" where
  "OnReadPacket h ntop now rnd k data w =
     do {
       c \<leftarrow> conns w k;
       let addr = cd_address (remote_candidate c);
       ((ok, msg, remote_ufrag), w) \<leftarrow> GetStunMessage h data addr w;
       if \<not> ok
       then (if read_state c = STATE_READABLE
             then do {
               let c = c\<lparr>last_data_received := now, recv_rate_tracker := RateTracker_Update (word_of_nat (length data)) (recv_rate_tracker c)\<rparr>;
               restart_checks k (emit (SignalReadPacket k data) (put k c w))
             }
             else Some w)
       else case msg of
         None \<Rightarrow> Some w
       | Some msg \<Rightarrow>
           (if uint (msg_type msg) = STUN_BINDING_REQUEST
            then if remote_ufrag = cd_username (remote_candidate c)
                 then do {
                   (go, w) \<leftarrow>
                     (if IsStandardIce (the_port w) then MaybeIceRoleConflict h addr msg remote_ufrag w else Some (True, w));
                   if \<not> go then Some w
                   else do {
                     w \<leftarrow> SendBindingResponse h now msg addr w;
                     w \<leftarrow> restart_checks k w;
                     Some (if IsStandardIce (the_port w) \<and> ice_role (the_port w) = ICEROLE_CONTROLLED \<and>
                              GetByteString msg STUN_ATTR_USE_CANDIDATE \<noteq> None
                           then emit (SignalUseCandidate k) w else w)
                   }
                 }
                 else SendBindingErrorResponse h msg addr STUN_ERROR_UNAUTHORIZED STUN_ERROR_REASON_UNAUTHORIZED w
            else if uint (msg_type msg) = STUN_BINDING_RESPONSE \<or> uint (msg_type msg) = STUN_BINDING_ERROR_RESPONSE
            then do {
              valid \<leftarrow>
                (if IsGoogleIce (the_port w) then Some True
                 else ValidateMessageIntegrity h data (cd_password (remote_candidate c)));
              if valid then Connection_CheckResponse h ntop now rnd k msg w else Some w
            }
            else if uint (msg_type msg) = STUN_BINDING_INDICATION
            then (if IsStandardIce (the_port w) \<and> read_state c = STATE_READABLE then ReceivedPing now k w else Some w)
            else Some w)
     }"

definition Connection_OnReadyToSend :: "nat \<Rightarrow> ice_world \<Rightarrow> ice_world option" where
  "Connection_OnReadyToSend k w =
     do {
       c \<leftarrow> conns w k;
       Some (if write_state c = STATE_WRITABLE then emit (SignalReadyToSend k) w else w)
     }"

fun each_ready :: "(socket_address \<times> nat) list \<Rightarrow> ice_world \<Rightarrow> ice_world option" where
  "each_ready [] w = Some w"
| "each_ready ((a, k) # m) w = do { w \<leftarrow> Connection_OnReadyToSend k w; each_ready m w }"

definition Port_OnReadyToSend :: "ice_world \<Rightarrow> ice_world option" where
  "Port_OnReadyToSend w = each_ready (connections (the_port w)) w"

text \<open>\<open>sent\<close> is the result of \<^verbatim>\<open>SendTo\<close> and \<open>err\<close> the error of the port behind it.\<close>

definition EWOULDBLOCK :: int where "EWOULDBLOCK = 11"

definition ProxyConnection_Send :: "int \<Rightarrow> int \<Rightarrow> nat \<Rightarrow> byte list \<Rightarrow> ice_world \<Rightarrow> (int \<times> ice_world) option" where
  "ProxyConnection_Send sent err k data w =
     do {
       c \<leftarrow> conns w k;
       if write_state c = STATE_WRITE_INIT \<or> write_state c = STATE_WRITE_TIMEOUT
       then Some (-1, put k (c\<lparr>conn_error := EWOULDBLOCK\<rparr>) w)
       else do {
         let w = emit (SendTo data (cd_address (remote_candidate c))) w;
         Some (sent,
           if sent \<le> 0 then put k (c\<lparr>conn_error := err\<rparr>) w
           else put k (c\<lparr>send_rate_tracker := RateTracker_Update (word_of_int sent) (send_rate_tracker c)\<rparr>) w)
       }
     }"

definition recv_bytes_second :: "u32 \<Rightarrow> Connection \<Rightarrow> u64 \<times> Connection" where
  "recv_bytes_second now c = (let (n, t) = units_second now (recv_rate_tracker c) in (n, c\<lparr>recv_rate_tracker := t\<rparr>))"

definition sent_bytes_second :: "u32 \<Rightarrow> Connection \<Rightarrow> u64 \<times> Connection" where
  "sent_bytes_second now c = (let (n, t) = units_second now (send_rate_tracker c) in (n, c\<lparr>send_rate_tracker := t\<rparr>))"

definition recv_total_bytes :: "Connection \<Rightarrow> u64" where "recv_total_bytes c = total_units (recv_rate_tracker c)"

definition sent_total_bytes :: "Connection \<Rightarrow> u64" where "sent_total_bytes c = total_units (send_rate_tracker c)"

section \<open>Deletion\<close>

text \<open>Erasing at the end of the map is undefined.\<close>

definition OnConnectionDestroyed :: "bool \<Rightarrow> nat \<Rightarrow> ice_world \<Rightarrow> ice_world option" where
  "OnConnectionDestroyed h k w =
     do {
       c \<leftarrow> conns w k;
       let p = the_port w;
       let addr = cd_address (remote_candidate c);
       _ \<leftarrow> map_find h (connections p) addr;
       let w = w\<lparr>the_port := p\<lparr>connections := map_erase h addr (connections p)\<rparr>\<rparr>;
       Some (if ice_role p = ICEROLE_CONTROLLED then emit (PostCheckTimeout (timeout_delay p)) w else w)
     }"

text \<open>The message \<^verbatim>\<open>MSG_DELETE\<close> of a connection, with its destructor.\<close>

definition Connection_OnMessage :: "bool \<Rightarrow> nat \<Rightarrow> ice_world \<Rightarrow> ice_world option" where
  "Connection_OnMessage h k w =
     do {
       w \<leftarrow> OnConnectionDestroyed h k (emit (SignalConnectionDestroyed k) w);
       c \<leftarrow> conns w k;
       _ \<leftarrow> Manager_destroy (conn_requests c);
       Some (w\<lparr>conns := (conns w)(k := None)\<rparr>)
     }"

text \<open>The message \<^verbatim>\<open>MSG_CHECKTIMEOUT\<close> of the port: without connections it destroys itself, after which the boolean is false.\<close>

definition Port_CheckTimeout :: "ice_world \<Rightarrow> bool \<times> ice_world" where
  "Port_CheckTimeout w = (if connections (the_port w) = [] then (False, emit SignalPortDestroyed w) else (True, w))"

text \<open>The destructor of the port deletes the connections of the map; they do not signal it.\<close>

fun delete_conns :: "(socket_address \<times> nat) list \<Rightarrow> ice_world \<Rightarrow> ice_world option" where
  "delete_conns [] w = Some w"
| "delete_conns ((a, k) # m) w =
     do {
       c \<leftarrow> conns w k;
       _ \<leftarrow> Manager_destroy (conn_requests c);
       delete_conns m (w\<lparr>conns := (conns w)(k := None)\<rparr>)
     }"

definition Port_destroy :: "ice_world \<Rightarrow> ice_world option" where
  "Port_destroy w = delete_conns (connections (the_port w)) w"

end
