(* ===== verification/Ice_Check.thy ===== *)
theory Ice_Check
  imports Ice_Port
begin

text \<open>
  The messages of connectivity checks: what \<^verbatim>\<open>ConnectionRequest::Prepare\<close>, \<^verbatim>\<open>SendBindingResponse\<close> and
  \<^verbatim>\<open>SendBindingErrorResponse\<close> write, and what \<^verbatim>\<open>GetStunMessage\<close> makes of it at the other end.
\<close>

section \<open>Byte strings without bytes\<close>

text \<open>\<^verbatim>\<open>USE-CANDIDATE\<close> is added as a byte string whose pointer is null. It is written as an empty one is, and read as one.\<close>

definition fill_attr :: "stun_attribute \<Rightarrow> stun_attribute" where
  "fill_attr a = (case at_value a of ByteStringValue None \<Rightarrow> a\<lparr>at_value := ByteStringValue (Some [])\<rparr> | _ \<Rightarrow> a)"

definition fill :: "stun_message \<Rightarrow> stun_message" where "fill m = m\<lparr>msg_attrs := map fill_attr (msg_attrs m)\<rparr>"

lemma fill_attr_fields [simp]: "at_type (fill_attr a) = at_type a" "at_length (fill_attr a) = at_length a"
  "value_type (at_value (fill_attr a)) = value_type (at_value a)"
  by (simp_all add: fill_attr_def split: stun_value.split option.split)

lemma fill_fields [simp]: "msg_class (fill m) = msg_class m" "msg_type (fill m) = msg_type m" "msg_length (fill m) = msg_length m"
  "msg_tid (fill m) = msg_tid m" "msg_attrs (fill m) = map fill_attr (msg_attrs m)" "IsLegacy (fill m) = IsLegacy m"
  by (simp_all add: fill_def IsLegacy_def)

lemma fill_write: "StunAttribute_Write h tid (fill_attr a) b = StunAttribute_Write h tid a b"
  by (cases "at_value a")
    (auto simp: fill_attr_def StunAttribute_Write_def ByteString_Write_def WritePadding_def Let_def split: option.split)

lemma fill_write_attrs: "write_attrs h tid (map fill_attr as) b = write_attrs h tid as b"
  by (induction as arbitrary: b) (auto simp: fill_write Let_def split: option.split)

lemma fill_Write: "Message_Write h (fill m) b = Message_Write h m b"
  by (simp add: Message_Write_def fill_write_attrs Let_def)

lemma fill_add:
  assumes "at_value a \<noteq> ByteStringValue None"
  shows "AddAttribute a (fill m) = map_prod id fill (AddAttribute a m)"
proof -
  have "fill_attr (SetOwner a) = SetOwner a"
    using assms by (auto simp: fill_attr_def SetOwner_def split: stun_value.split option.split)
  then show ?thesis by (simp add: AddAttribute_def fill_def Let_def)
qed

lemma fill_last: "msg_attrs m \<noteq> [] \<Longrightarrow> last (msg_attrs (fill m)) = fill_attr (last (msg_attrs m))"
  by (simp add: last_map)

lemma fill_replace_last:
  assumes "fill_attr b = b"
  shows "(fill m)\<lparr>msg_attrs := butlast (msg_attrs (fill m)) @ [b]\<rparr> = fill (m\<lparr>msg_attrs := butlast (msg_attrs m) @ [b]\<rparr>)"
  using assms by (simp add: fill_def map_butlast)

lemma fill_attr_values:
  "fill_attr (CopyBytes bs a) = CopyBytes bs a" "CopyBytes bs (fill_attr a) = CopyBytes bs a"
  "fill_attr (UInt32_SetValue v a) = UInt32_SetValue v a" "UInt32_SetValue v (fill_attr a) = UInt32_SetValue v a"
  by (auto simp: fill_attr_def CopyBytes_def SetBytes_def SetLength_def UInt32_SetValue_def split: stun_value.split option.split)

text \<open>Integrity and fingerprint are computed from what is written.\<close>

lemma added_attrs: "AddAttribute a m = (True, m1) \<Longrightarrow> msg_attrs m1 \<noteq> []"
  by (auto simp: AddAttribute_def Let_def split: if_splits)

lemma fill_AddMessageIntegrity:
  assumes "AddMessageIntegrity h key (fill m) = Some (True, m')"
  shows "\<exists>m1. AddMessageIntegrity h key m = Some (True, m1) \<and> fill m1 = m'"
proof -
  let ?a = "StunByteStringAttribute_of (word_of_int STUN_ATTR_MESSAGE_INTEGRITY) (replicate kStunMessageIntegritySize 48)"
  have v: "value_type (at_value ?a) = GetAttributeValueType (msg_class m) (uint (at_type ?a))" "at_value ?a \<noteq> ByteStringValue None"
    using known_attributes integrity_attr_fields unfolding integrity_attr_def kStunMessageIntegritySize_def by auto
  obtain n where n: "AddAttribute ?a m = (True, n)" using AddAttribute_known [OF v(1)] by blast
  then have f: "AddAttribute ?a (fill m) = (True, fill n)" using fill_add [OF v(2)] by simp
  show ?thesis using assms added_attrs [OF n]
    unfolding AddMessageIntegrity_def Let_def n f prod.case fill_Write
    by (auto simp: fill_last fill_attr_values fill_replace_last simp del: fill_fields(5) split: option.splits if_splits)
qed

lemma fill_AddFingerprint:
  assumes "AddFingerprint h (fill m) = Some (True, m')"
  shows "\<exists>m1. AddFingerprint h m = Some (True, m1) \<and> fill m1 = m'"
proof -
  let ?a = "StunUInt32Attribute_of (word_of_int STUN_ATTR_FINGERPRINT) 0"
  have v: "value_type (at_value ?a) = GetAttributeValueType (msg_class m) (uint (at_type ?a))" "at_value ?a \<noteq> ByteStringValue None"
    using known_attributes fingerprint_attr_fields unfolding fingerprint_attr_def by auto
  obtain n where n: "AddAttribute ?a m = (True, n)" using AddAttribute_known [OF v(1)] by blast
  then have f: "AddAttribute ?a (fill m) = (True, fill n)" using fill_add [OF v(2)] by simp
  show ?thesis using assms added_attrs [OF n]
    unfolding AddFingerprint_def Let_def n f prod.case fill_Write
    by (auto simp: fill_last fill_attr_values fill_replace_last simp del: fill_fields(5) split: option.splits if_splits)
qed

section \<open>Adding several attributes\<close>

lemma fill_add_attr: "fill (add a m) = add (fill_attr a) (fill m)"
  by (auto simp: add_def AddAttribute_def fill_def fill_attr_def SetOwner_def Let_def split: stun_value.split option.split)

lemma fill_fold: "fill (fold add as m) = fold add (map fill_attr as) (fill m)"
  by (induction as arbitrary: m) (simp_all add: fill_add_attr)

definition fits :: "stun_message \<Rightarrow> stun_attribute \<Rightarrow> bool" where
  "fits m a \<longleftrightarrow> attr_ok (msg_tid m) (SetOwner a) \<and> value_type (at_value a) = GetAttributeValueType (msg_class m) (uint (at_type a))"

definition good :: "nat \<Rightarrow> stun_message \<Rightarrow> bool" where
  "good n m \<longleftrightarrow> attrs_ok m \<and> length_ok m \<and> unat (msg_length m) \<le> n"

lemma padded_bound: "padded n \<le> n + 3"
  by (simp add: padded_def) arith

lemma add_fields [simp]: "msg_tid (add a m) = msg_tid m" "msg_class (add a m) = msg_class m" "msg_type (add a m) = msg_type m"
  by (simp_all add: add_def AddAttribute_def Let_def)

lemma add_attrs: "fits m a \<Longrightarrow> msg_attrs (add a m) = msg_attrs m @ [SetOwner a]"
  by (simp add: add_def fits_def AddAttribute_known)

lemma fits_add: "fits (add b m) = fits m"
  by (rule ext) (simp add: fits_def)

lemma good_add:
  assumes "good n m" "fits m a" "n + 7 + unat (at_length a) < 65536"
  shows "good (n + 7 + unat (at_length a)) (add a m)"
proof -
  have l: "unat (msg_length m) + 4 + padded (unat (at_length a)) \<le> n + 7 + unat (at_length a)"
    using assms(1) padded_bound [of "unat (at_length a)"] by (simp add: good_def)
  have f: "attr_ok (msg_tid m) (SetOwner a)" "value_type (at_value a) = GetAttributeValueType (msg_class m) (uint (at_type a))"
    using assms(2) by (simp_all add: fits_def)
  have "unat (msg_length (add a m)) = unat (msg_length m) + (padded (unat (at_length a)) + 4)"
    using unat_add_word [of "msg_length m" "padded (unat (at_length a)) + 4"] l assms(3)
    by (simp add: add_def AddAttribute_known [OF f(2)] del: of_nat_add)
  then show ?thesis using AddAttribute_keeps [of m a] assms f l by (simp add: good_def add_def)
qed

lemma good_fold:
  "good n m \<Longrightarrow> list_all (fits m) as \<Longrightarrow> n + sum_list (map (\<lambda>a. 7 + unat (at_length a)) as) < 65536 \<Longrightarrow>
    good (n + sum_list (map (\<lambda>a. 7 + unat (at_length a)) as)) (fold add as m) \<and>
    msg_attrs (fold add as m) = msg_attrs m @ map SetOwner as \<and> msg_tid (fold add as m) = msg_tid m \<and>
    msg_class (fold add as m) = msg_class m \<and> msg_type (fold add as m) = msg_type m"
proof (induction as arbitrary: n m)
  case (Cons a as)
  have f: "fits m a" "list_all (fits (add a m)) as" using Cons.prems(2) by (simp_all add: fits_add)
  have "good (n + 7 + unat (at_length a)) (add a m)" using good_add [OF Cons.prems(1) f(1)] Cons.prems(3) by simp
  from Cons.IH [OF this f(2)] Cons.prems(3) show ?case by (simp add: add_attrs [OF f(1)] add.assoc)
qed simp

text \<open>A message that is made of attributes and then signed.\<close>

lemma signed_fold:
  assumes "length (msg_tid m0) = 12" "msg_attrs m0 = []" "msg_length m0 = 0" "list_all (fits m0) as"
    "sum_list (map (\<lambda>a. 7 + unat (at_length a)) as) < 65500" "list_all (\<lambda>a. uint (at_type a) \<noteq> STUN_ATTR_MESSAGE_INTEGRITY) as"
  obtains mac v m1 m2 where "length mac = 20" "msg_attrs m2 = map SetOwner as @ [integrity_attr mac, fingerprint_attr v]"
    "\<And>h. AddMessageIntegrity h key (fold add as m0) = Some (True, m1)" "\<And>h. AddFingerprint h m1 = Some (True, m2)"
    "attrs_ok m2" "length_ok m2" "\<And>h. ValidateMessageIntegrity h (message_bytes m2) key = Some True"
    "ValidateFingerprint (message_bytes m2)" "msg_class m2 = msg_class m0" "msg_type m2 = msg_type m0" "msg_tid m2 = msg_tid m0"
proof -
  define m where "m = fold add as m0"
  have "good 0 m0" using assms(1-3)
    by (simp add: good_def attrs_ok_def length_ok_def attrs_bytes_def IsValidTransactionId_def kStunTransactionIdLength_def)
  from good_fold [OF this assms(4)] assms(2,5)
  have m: "good (sum_list (map (\<lambda>a. 7 + unat (at_length a)) as)) m" "msg_attrs m = map SetOwner as" "msg_tid m = msg_tid m0"
      "msg_class m = msg_class m0" "msg_type m = msg_type m0"
    by (simp_all add: m_def)
  have no_mi: "list_all (\<lambda>a. uint (at_type a) \<noteq> STUN_ATTR_MESSAGE_INTEGRITY) (msg_attrs m)"
    using assms(6) by (simp add: m(2) list_all_iff)
  have room: "unat (msg_length m) + 32 < 65536" "attrs_ok m" "length_ok m" using m(1) assms(5) by (simp_all add: good_def)
  from signed_message [OF room(2,3,1) _ no_mi, of key] m(3) assms(1) obtain mac v m1 m2 where
    s: "length mac = 20" "m1 = with_attr (integrity_attr mac) 24 m" "m2 = with_attr (fingerprint_attr v) 8 m1"
      "\<And>h. AddMessageIntegrity h key m = Some (True, m1)" "\<And>h. AddFingerprint h m1 = Some (True, m2)" "attrs_ok m2" "length_ok m2"
      "\<And>h. ValidateMessageIntegrity h (message_bytes m2) key = Some True" "ValidateFingerprint (message_bytes m2)"
    by metis
  have "msg_attrs m2 = map SetOwner as @ [integrity_attr mac, fingerprint_attr v]" "msg_class m2 = msg_class m0"
      "msg_type m2 = msg_type m0" "msg_tid m2 = msg_tid m0"
    by (simp_all add: s(2,3) with_attr_def m(2-5))
  with that s m_def show thesis by metis
qed

section \<open>The request\<close>

definition check_attrs :: "Port \<Rightarrow> Connection \<Rightarrow> Candidate \<Rightarrow> stun_attribute list" where
  "check_attrs p c local =
     [StunByteStringAttribute_of (word_of_int STUN_ATTR_USERNAME)
        (cd_username (remote_candidate c) @ [58] @ ice_username_fragment p)] @
     (if send_retransmit_count_attribute p
      then [StunUInt32Attribute_of (word_of_int STUN_ATTR_RETRANSMIT_COUNT)
              (word_of_int (int (length (pings_since_last_response c)) - 1))] else []) @
     (case ice_role p of
        ICEROLE_CONTROLLING \<Rightarrow>
          StunUInt64Attribute_of (word_of_int STUN_ATTR_ICE_CONTROLLING) (tiebreaker p) #
          (if use_candidate_attr c then [StunByteStringAttribute (word_of_int STUN_ATTR_USE_CANDIDATE) 0] else [])
      | ICEROLE_CONTROLLED \<Rightarrow> [StunUInt64Attribute_of (word_of_int STUN_ATTR_ICE_CONTROLLED) (tiebreaker p)]
      | ICEROLE_UNKNOWN \<Rightarrow> []) @
     [StunUInt32Attribute_of (word_of_int STUN_ATTR_PRIORITY) (prflx_priority (cd_priority local))]"

lemma Prepare_eq:
  assumes "IsStandardIce p" "local_candidate p c = Some local"
  shows "Prepare h p c request =
    do {
      (_, m) \<leftarrow> AddMessageIntegrity h (cd_password (remote_candidate c))
        (fold add (check_attrs p c local) (Message_SetType STUN_BINDING_REQUEST request));
      (_, m) \<leftarrow> AddFingerprint h m;
      Some m
    }"
  using assms by (cases "ice_role p") (simp_all add: Prepare_def check_attrs_def CreateStunUsername_def username_fragment_def Let_def)

lemma ice_types:
  "GetAttributeValueType IceClass STUN_ATTR_USERNAME = STUN_VALUE_BYTE_STRING"
  "GetAttributeValueType IceClass STUN_ATTR_RETRANSMIT_COUNT = STUN_VALUE_UINT32"
  "GetAttributeValueType IceClass STUN_ATTR_ICE_CONTROLLING = STUN_VALUE_UINT64"
  "GetAttributeValueType IceClass STUN_ATTR_ICE_CONTROLLED = STUN_VALUE_UINT64"
  "GetAttributeValueType IceClass STUN_ATTR_USE_CANDIDATE = STUN_VALUE_BYTE_STRING"
  "GetAttributeValueType IceClass STUN_ATTR_PRIORITY = STUN_VALUE_UINT32"
  "GetAttributeValueType StunClass STUN_ATTR_USERNAME = STUN_VALUE_BYTE_STRING"
  "GetAttributeValueType StunClass STUN_ATTR_RETRANSMIT_COUNT = STUN_VALUE_UINT32"
  "GetAttributeValueType StunClass STUN_ATTR_XOR_MAPPED_ADDRESS = STUN_VALUE_XOR_ADDRESS"
  "GetAttributeValueType StunClass STUN_ATTR_ERROR_CODE = STUN_VALUE_ERROR_CODE"
  by code_simp+

lemma ice_numbers:
  "uint (word_of_int STUN_ATTR_USERNAME :: u16) = STUN_ATTR_USERNAME"
  "uint (word_of_int STUN_ATTR_RETRANSMIT_COUNT :: u16) = STUN_ATTR_RETRANSMIT_COUNT"
  "uint (word_of_int STUN_ATTR_ICE_CONTROLLING :: u16) = STUN_ATTR_ICE_CONTROLLING"
  "uint (word_of_int STUN_ATTR_ICE_CONTROLLED :: u16) = STUN_ATTR_ICE_CONTROLLED"
  "uint (word_of_int STUN_ATTR_USE_CANDIDATE :: u16) = STUN_ATTR_USE_CANDIDATE"
  "uint (word_of_int STUN_ATTR_PRIORITY :: u16) = STUN_ATTR_PRIORITY"
  "uint (word_of_int STUN_ATTR_XOR_MAPPED_ADDRESS :: u16) = STUN_ATTR_XOR_MAPPED_ADDRESS"
  "uint (word_of_int STUN_ATTR_ERROR_CODE :: u16) = STUN_ATTR_ERROR_CODE"
  by code_simp+

lemma byte_string_attr:
  "at_type (StunByteStringAttribute_of ty bs) = ty" "at_length (StunByteStringAttribute_of ty bs) = word_of_nat (length bs)"
  "at_value (StunByteStringAttribute_of ty bs) = ByteStringValue (Some bs)"
  "SetOwner (StunByteStringAttribute_of ty bs) = StunByteStringAttribute_of ty bs"
  "fill_attr (StunByteStringAttribute_of ty bs) = StunByteStringAttribute_of ty bs"
  "fill_attr (StunByteStringAttribute ty 0) = StunByteStringAttribute_of ty []"
  by (simp_all add: StunByteStringAttribute_of_def StunByteStringAttribute_def CopyBytes_def SetBytes_def SetLength_def
      SetOwner_def fill_attr_def)

lemma uint_attr:
  "at_type (StunUInt32Attribute_of ty v) = ty" "at_length (StunUInt32Attribute_of ty v) = 4"
  "at_value (StunUInt32Attribute_of ty v) = UInt32Value v" "SetOwner (StunUInt32Attribute_of ty v) = StunUInt32Attribute_of ty v"
  "fill_attr (StunUInt32Attribute_of ty v) = StunUInt32Attribute_of ty v"
  "at_type (StunUInt64Attribute_of ty x) = ty" "at_length (StunUInt64Attribute_of ty x) = 8"
  "at_value (StunUInt64Attribute_of ty x) = UInt64Value x" "SetOwner (StunUInt64Attribute_of ty x) = StunUInt64Attribute_of ty x"
  "fill_attr (StunUInt64Attribute_of ty x) = StunUInt64Attribute_of ty x"
  by (simp_all add: StunUInt32Attribute_of_def StunUInt64Attribute_of_def UInt32_SIZE_def UInt64_SIZE_def SetOwner_def fill_attr_def)

lemmas attr_simps = byte_string_attr uint_attr ice_types ice_numbers

text \<open>What a receiver finds in a check of \<open>c\<close> on the port \<open>p\<close>.\<close>

definition check_ok :: "Port \<Rightarrow> Connection \<Rightarrow> byte list \<Rightarrow> stun_message \<Rightarrow> bool" where
  "check_ok p c tid m \<longleftrightarrow>
     attrs_ok m \<and> length_ok m \<and> msg_class m = IceClass \<and> uint (msg_type m) = STUN_BINDING_REQUEST \<and> msg_tid m = tid \<and>
     (\<forall>h. ValidateMessageIntegrity h (message_bytes m) (cd_password (remote_candidate c)) = Some True) \<and>
     ValidateFingerprint (message_bytes m) \<and>
     map_option GetString (GetByteString m STUN_ATTR_USERNAME) =
       Some (cd_username (remote_candidate c) @ [58] @ ice_username_fragment p) \<and>
     GetByteString m STUN_ATTR_MESSAGE_INTEGRITY \<noteq> None \<and>
     map_option uint64_value (GetUInt64 m STUN_ATTR_ICE_CONTROLLING) =
       (if ice_role p = ICEROLE_CONTROLLING then Some (tiebreaker p) else None) \<and>
     map_option uint64_value (GetUInt64 m STUN_ATTR_ICE_CONTROLLED) =
       (if ice_role p = ICEROLE_CONTROLLED then Some (tiebreaker p) else None) \<and>
     (GetByteString m STUN_ATTR_USE_CANDIDATE \<noteq> None) = (ice_role p = ICEROLE_CONTROLLING \<and> use_candidate_attr c) \<and>
     (GetUInt32 m STUN_ATTR_RETRANSMIT_COUNT \<noteq> None) = send_retransmit_count_attribute p \<and>
     map_option uint32_value (GetUInt32 m STUN_ATTR_PRIORITY) = map_option (\<lambda>l. prflx_priority (cd_priority l)) (local_candidate p c)"

definition names_fit :: "Port \<Rightarrow> Connection \<Rightarrow> bool" where
  "names_fit p c \<longleftrightarrow> length (cd_username (remote_candidate c)) + length (ice_username_fragment p) < 65000"

abbreviation fresh_request :: "byte list \<Rightarrow> stun_message" where
  "fresh_request tid \<equiv> rq_msg (StunRequest_of (StunMessage_new IceClass) tid)"

lemma fresh_request_fields:
  assumes "length tid = 12"
  shows "msg_class (fresh_request tid) = IceClass" "msg_tid (fresh_request tid) = tid" "msg_attrs (fresh_request tid) = []"
    "msg_length (fresh_request tid) = 0" "msg_type (fresh_request tid) = 0"
  using assms by (simp_all add: StunRequest_of_def StunMessage_new_def SetTransactionID_def IsValidTransactionId_def kStunTransactionIdLength_def)

lemma username_attr_ok:
  assumes "length bs < 65536"
  shows "attr_ok tid (StunByteStringAttribute_of ty bs)"
  using assms by (simp add: attr_ok_def byte_string_attr unat_of_nat_lt)

lemma uint_attr_ok: "attr_ok tid (StunUInt32Attribute_of ty v)" "attr_ok tid (StunUInt64Attribute_of ty x)"
  by (simp_all add: attr_ok_def uint_attr UInt32_SIZE_def UInt64_SIZE_def)

lemma check_attrs_fit:
  assumes "names_fit p c" "length tid = 12"
  defines "m \<equiv> Message_SetType STUN_BINDING_REQUEST (fresh_request tid)"
  shows "list_all (fits m) (map fill_attr (check_attrs p c local))"
    "sum_list (map (\<lambda>a. 7 + unat (at_length a)) (map fill_attr (check_attrs p c local))) < 65200"
    "map SetOwner (map fill_attr (check_attrs p c local)) = map fill_attr (check_attrs p c local)"
proof -
  have m: "msg_class m = IceClass" "msg_tid m = tid"
    using fresh_request_fields [OF assms(2)] by (simp_all add: m_def Message_SetType_def)
  have u: "length (cd_username (remote_candidate c) @ [58] @ ice_username_fragment p) < 65536" using assms(1) by (simp add: names_fit_def)
  show "list_all (fits m) (map fill_attr (check_attrs p c local))"
    using username_attr_ok [OF u] username_attr_ok [of "[]"]
    by (cases "ice_role p") (simp_all add: check_attrs_def fits_def m attr_simps uint_attr_ok)
  show "sum_list (map (\<lambda>a. 7 + unat (at_length a)) (map fill_attr (check_attrs p c local))) < 65200"
    using assms(1) unat_of_nat_lt [of "length (cd_username (remote_candidate c)) + (1 + length (ice_username_fragment p))", where 'a = 16]
    by (cases "ice_role p") (simp_all add: check_attrs_def attr_simps names_fit_def)
  show "map SetOwner (map fill_attr (check_attrs p c local)) = map fill_attr (check_attrs p c local)"
    by (cases "ice_role p") (simp_all add: check_attrs_def attr_simps)
qed

lemmas ice_constants = STUN_ATTR_USERNAME_def STUN_ATTR_RETRANSMIT_COUNT_def STUN_ATTR_ICE_CONTROLLING_def STUN_ATTR_ICE_CONTROLLED_def
  STUN_ATTR_USE_CANDIDATE_def STUN_ATTR_PRIORITY_def STUN_ATTR_MESSAGE_INTEGRITY_def STUN_ATTR_FINGERPRINT_def
  STUN_ATTR_XOR_MAPPED_ADDRESS_def STUN_ATTR_ERROR_CODE_def STUN_ATTR_MAPPED_ADDRESS_def

lemma Prepare_check:
  assumes "IsStandardIce p" "local_candidate p c = Some local" "names_fit p c" "length tid = 12"
  shows "\<exists>m. Prepare h p c (fresh_request tid) = Some m \<and> check_ok p c tid (fill m)"
proof -
  let ?as = "map fill_attr (check_attrs p c local)" and ?key = "cd_password (remote_candidate c)"
  define m0 where "m0 = Message_SetType STUN_BINDING_REQUEST (fresh_request tid)"
  note fit = check_attrs_fit [OF assms(3,4), of local, folded m0_def]
  have m0: "msg_class m0 = IceClass" "msg_tid m0 = tid" "msg_attrs m0 = []" "msg_length m0 = 0" "uint (msg_type m0) = STUN_BINDING_REQUEST"
    using fresh_request_fields [OF assms(4)] by (simp_all add: m0_def Message_SetType_def STUN_BINDING_REQUEST_def)
  have no_mi: "list_all (\<lambda>a. uint (at_type a) \<noteq> STUN_ATTR_MESSAGE_INTEGRITY) ?as"
    by (cases "ice_role p") (simp_all add: check_attrs_def attr_simps, simp_all add: ice_constants)
  have sum: "sum_list (map (\<lambda>a. 7 + unat (at_length a)) ?as) < 65500" using fit(2) by (simp del: map_map)
  have tid: "length (msg_tid m0) = 12" using m0(2) assms(4) by simp
  obtain mac v m1 m2 where s: "msg_attrs m2 = map SetOwner ?as @ [integrity_attr mac, fingerprint_attr v]"
      "AddMessageIntegrity h ?key (fold add ?as m0) = Some (True, m1)" "AddFingerprint h m1 = Some (True, m2)" "attrs_ok m2" "length_ok m2"
      "\<And>h. ValidateMessageIntegrity h (message_bytes m2) ?key = Some True" "ValidateFingerprint (message_bytes m2)"
      "msg_class m2 = msg_class m0" "msg_type m2 = msg_type m0" "msg_tid m2 = msg_tid m0"
    by (rule signed_fold [OF tid m0(3,4) fit(1) sum no_mi, of ?key]) blast
  define r where "r = fold add (check_attrs p c local) m0"
  have "fill m0 = m0" using m0(3) by (cases m0) (simp add: fill_def)
  then have r: "fill r = fold add ?as m0" by (simp add: r_def fill_fold)
  obtain r1 where r1: "AddMessageIntegrity h ?key r = Some (True, r1)" "fill r1 = m1" using fill_AddMessageIntegrity [of h ?key r] s(2) r by metis
  obtain r2 where r2: "AddFingerprint h r1 = Some (True, r2)" "fill r2 = m2" using fill_AddFingerprint [of h r1] s(3) r1 by metis
  have prep: "Prepare h p c (fresh_request tid) = Some r2"
    unfolding Prepare_eq [OF assms(1,2)] m0_def [symmetric] r_def [symmetric] by (simp add: r1 r2)
  have attrs: "msg_attrs m2 = ?as @ [integrity_attr mac, fingerprint_attr v]" using s(1) unfolding fit(3) .
  have f: "msg_class m2 = IceClass" "uint (msg_type m2) = STUN_BINDING_REQUEST" "msg_tid m2 = tid" using s(8-10) m0 by simp_all
  have user: "GetString (StunByteStringAttribute_of ty bs) = bs" if "length bs < 65536" for ty :: u16 and bs
    using that by (simp add: GetString_def byte_string_attr unat_of_nat_lt)
  have u: "length (cd_username (remote_candidate c) @ [58] @ ice_username_fragment p) < 65536" using assms(3) by (simp add: names_fit_def)
  note lookup = GetByteString_def GetUInt64_def GetUInt32_def GetAttribute_def attrs check_attrs_def byte_string_attr uint_attr ice_constants
  have l: "GetByteString m2 STUN_ATTR_USERNAME = Some (StunByteStringAttribute_of (word_of_int STUN_ATTR_USERNAME)
      (cd_username (remote_candidate c) @ [58] @ ice_username_fragment p))"
    by (simp add: lookup)
  have l2: "GetByteString m2 STUN_ATTR_MESSAGE_INTEGRITY \<noteq> None" by (cases "ice_role p") (simp_all add: lookup)
  have l3: "map_option uint64_value (GetUInt64 m2 STUN_ATTR_ICE_CONTROLLING) =
      (if ice_role p = ICEROLE_CONTROLLING then Some (tiebreaker p) else None)"
    by (cases "ice_role p") (simp_all add: lookup uint64_value_def)
  have l4: "map_option uint64_value (GetUInt64 m2 STUN_ATTR_ICE_CONTROLLED) =
      (if ice_role p = ICEROLE_CONTROLLED then Some (tiebreaker p) else None)"
    by (cases "ice_role p") (simp_all add: lookup uint64_value_def)
  have l5: "(GetByteString m2 STUN_ATTR_USE_CANDIDATE \<noteq> None) = (ice_role p = ICEROLE_CONTROLLING \<and> use_candidate_attr c)"
    by (cases "ice_role p") (simp_all add: lookup)
  have l6: "(GetUInt32 m2 STUN_ATTR_RETRANSMIT_COUNT \<noteq> None) = send_retransmit_count_attribute p"
    by (cases "ice_role p") (simp_all add: lookup)
  have l7: "map_option uint32_value (GetUInt32 m2 STUN_ATTR_PRIORITY) = map_option (\<lambda>l. prflx_priority (cd_priority l)) (local_candidate p c)"
    by (cases "ice_role p") (simp_all add: lookup uint32_value_def assms(2))
  have "check_ok p c tid m2"
    unfolding check_ok_def l option.map using s(4-7) f user [OF u] l2 l3 l4 l5 l6 l7 by (intro conjI) simp_all
  with prep r2(2) show ?thesis by blast
qed

lemma position_colon: "58 \<notin> set u \<Longrightarrow> position 58 (u @ [58] @ v) = Some (length u)"
  by (induction u) auto

lemma read_message:
  assumes "attrs_ok m" "length_ok m" "msg_class m = IceClass" "length (msg_tid m) = 12" "msg_type m AND 0x8000 = 0"
  shows "\<exists>b. Message_Read h (StunMessage_new IceClass) (ByteBuffer_of (message_bytes m)) = (True, m, b) \<and> Length b = 0"
proof -
  have "\<not> IsLegacy m" using assms(4) by (simp add: IsLegacy_def kStunLegacyTransactionIdLength_def)
  then obtain b where b: "Message_Read h (StunMessage_new IceClass) (ByteBuffer_of (message_bytes m)) = (True, m, b)" "holds b []"
    using Message_Read_bytes [OF assms(1,2,5), of "StunMessage_new IceClass" "ByteBuffer_of (message_bytes m)" h] assms(3)
    by (auto simp: StunMessage_new_def holds_def)
  then show ?thesis using length_Contents [of b] by (auto simp: holds_def)
qed

lemma binding_types:
  "uint (ty :: u16) = STUN_BINDING_REQUEST \<longleftrightarrow> ty = 1" "uint ty = STUN_BINDING_RESPONSE \<longleftrightarrow> ty = 0x101"
  "uint ty = STUN_BINDING_ERROR_RESPONSE \<longleftrightarrow> ty = 0x111" "uint ty = STUN_BINDING_INDICATION \<longleftrightarrow> ty = 0x11"
  by (simp_all add: word_uint_eq_iff STUN_BINDING_REQUEST_def STUN_BINDING_RESPONSE_def STUN_BINDING_ERROR_RESPONSE_def STUN_BINDING_INDICATION_def)

lemma GetStunMessage_check:
  assumes "check_ok p c tid m" "length tid = 12" "IsStandardIce (the_port w)"
    "cd_username (remote_candidate c) = ice_username_fragment (the_port w)" "58 \<notin> set (ice_username_fragment (the_port w))"
    "cd_password (remote_candidate c) = p_password (the_port w)"
  shows "GetStunMessage h (message_bytes m) addr w = Some ((True, Some m, ice_username_fragment p), w)"
proof -
  have m: "attrs_ok m" "length_ok m" "msg_class m = IceClass" "msg_type m = 1" "length (msg_tid m) = 12"
      "ValidateMessageIntegrity h (message_bytes m) (p_password (the_port w)) = Some True" "ValidateFingerprint (message_bytes m)"
      "GetByteString m STUN_ATTR_MESSAGE_INTEGRITY \<noteq> None"
    using assms(1,2,6) by (simp_all add: check_ok_def binding_types)
  obtain a where a: "GetByteString m STUN_ATTR_USERNAME = Some a" "GetString a = ice_username_fragment (the_port w) @ [58] @ ice_username_fragment p"
    using assms(1,4) by (auto simp: check_ok_def)
  obtain b where b: "Message_Read h (StunMessage_new IceClass) (ByteBuffer_of (message_bytes m)) = (True, m, b)" "Length b = 0"
    using read_message [OF m(1-3,5), of h] m(4) by auto
  have parse: "ParseStunUsername (the_port w) m = Some (Some (ice_username_fragment (the_port w), ice_username_fragment p, ICEPROTO_RFC5245))"
    using assms(3) position_colon [OF assms(5)] by (simp add: ParseStunUsername_def a IsHybridIce_def IsStandardIce_def Let_def)
  have "username_fragment (the_port w) = Some (ice_username_fragment (the_port w))" using assms(3) by (simp add: username_fragment_def)
  moreover have "\<not> IsHybridIce (the_port w)" using assms(3) by (simp add: IsHybridIce_def IsStandardIce_def)
  moreover have "uint (msg_type m) = STUN_BINDING_REQUEST" by (simp add: m(4) STUN_BINDING_REQUEST_def)
  ultimately show ?thesis using assms(3) m(6-8) a(1) b parse by (auto simp: GetStunMessage_def Let_def)
qed

section \<open>The answers\<close>

text \<open>A message of the base class, read as an ICE message.\<close>

definition as_ice :: "stun_message \<Rightarrow> stun_message" where "as_ice m = m\<lparr>msg_class := IceClass\<rparr>"

lemma as_ice_fields [simp]: "msg_class (as_ice m) = IceClass" "msg_type (as_ice m) = msg_type m" "msg_tid (as_ice m) = msg_tid m"
  "msg_attrs (as_ice m) = msg_attrs m" "message_bytes (as_ice m) = message_bytes m"
  by (simp_all add: as_ice_def message_bytes_def header_bytes_def IsLegacy_def)

lemma ice_knows_more:
  "StunMessage_GetAttributeValueType ty \<noteq> STUN_VALUE_UNKNOWN \<Longrightarrow> IceMessage_GetAttributeValueType ty = StunMessage_GetAttributeValueType ty"
proof -
  have "StunMessage_GetAttributeValueType STUN_ATTR_PRIORITY = STUN_VALUE_UNKNOWN" "StunMessage_GetAttributeValueType STUN_ATTR_USE_CANDIDATE = STUN_VALUE_UNKNOWN"
      "StunMessage_GetAttributeValueType STUN_ATTR_ICE_CONTROLLED = STUN_VALUE_UNKNOWN"
      "StunMessage_GetAttributeValueType STUN_ATTR_ICE_CONTROLLING = STUN_VALUE_UNKNOWN"
    by code_simp+
  then show "StunMessage_GetAttributeValueType ty \<noteq> STUN_VALUE_UNKNOWN \<Longrightarrow> IceMessage_GetAttributeValueType ty = StunMessage_GetAttributeValueType ty"
    unfolding IceMessage_GetAttributeValueType_def by metis
qed

lemma value_type_known: "value_type v \<noteq> STUN_VALUE_UNKNOWN" by (cases v) simp_all

lemma as_ice_ok:
  assumes "attrs_ok m" "length_ok m" "msg_class m = StunClass"
  shows "attrs_ok (as_ice m)" "length_ok (as_ice m)"
proof -
  have "value_type v = GetAttributeValueType StunClass ty \<Longrightarrow> value_type v = GetAttributeValueType IceClass ty" for v ty
    using value_type_known [of v] by (simp add: GetAttributeValueType_def ice_knows_more)
  then show "attrs_ok (as_ice m)" using assms(1,3) by (auto simp: attrs_ok_def list_all_iff)
  show "length_ok (as_ice m)" using assms(2) by (simp add: length_ok_def as_ice_def)
qed

text \<open>The start of an answer, and what both kinds have in common.\<close>

abbreviation answer :: "int \<Rightarrow> byte list \<Rightarrow> stun_message" where
  "answer ty tid \<equiv> snd (SetTransactionID tid (Message_SetType ty (StunMessage_new StunClass)))"

lemma answer_fields:
  assumes "length tid = 12"
  shows "msg_class (answer ty tid) = StunClass" "msg_tid (answer ty tid) = tid" "msg_attrs (answer ty tid) = []"
    "msg_length (answer ty tid) = 0" "msg_type (answer ty tid) = word_of_int ty"
  using assms by (simp_all add: StunMessage_new_def SetTransactionID_def IsValidTransactionId_def kStunTransactionIdLength_def Message_SetType_def)

definition answer_ok :: "byte list \<Rightarrow> byte list \<Rightarrow> stun_message \<Rightarrow> bool" where
  "answer_ok pw tid m \<longleftrightarrow>
     attrs_ok m \<and> length_ok m \<and> msg_class m = IceClass \<and> msg_tid m = tid \<and>
     (\<forall>h. ValidateMessageIntegrity h (message_bytes m) pw = Some True) \<and> ValidateFingerprint (message_bytes m)"

lemma written: "attrs_ok m \<Longrightarrow> \<exists>b. Message_Write h m ByteBuffer_new = Some (True, b) \<and> Contents b = message_bytes m"
  using Message_Write_bytes [of m ByteBuffer_new h] by (auto simp: appends_def)

lemma xor_address_attr:
  "at_type (StunXorAddressAttribute_of ty addr) = ty" "SetOwner (StunXorAddressAttribute_of ty addr) = (StunXorAddressAttribute_of ty addr)\<lparr>at_value := XorAddressValue addr True\<rparr>"
  "value_type (at_value (StunXorAddressAttribute_of ty addr)) = STUN_VALUE_XOR_ADDRESS"
  by (simp_all add: StunXorAddressAttribute_of_def StunXorAddressAttribute_def SetAddress_def put_address_def EnsureAddressLength_def
      SetLength_def SetOwner_def split: StunAddressFamily.split)

lemma xor_address_ok:
  assumes "addr_ok addr" "length tid = 12"
  shows "attr_ok tid (SetOwner (StunXorAddressAttribute_of ty addr))" "unat (at_length (StunXorAddressAttribute_of ty addr)) \<le> 20"
  using assms addr_cases [OF assms(1)]
  by (auto simp: attr_ok_def StunXorAddressAttribute_of_def StunXorAddressAttribute_def SetAddress_def put_address_def EnsureAddressLength_def
      SetLength_def SetOwner_def stun_family_def addr_ok_def addr_size_def SIZE_IP4_def SIZE_IP6_def split: addr_family.splits)

lemma binding_response_ok:
  assumes "IsStandardIce p" "addr_ok addr" "length (msg_tid request) = 12"
  shows "\<exists>m. binding_response h p request a addr = Some m \<and> attrs_ok m \<and> answer_ok (p_password p) (msg_tid request) (as_ice m) \<and>
    uint (msg_type m) = STUN_BINDING_RESPONSE \<and>
    map_option GetAddress (Message_GetAddress (as_ice m) STUN_ATTR_XOR_MAPPED_ADDRESS) = Some addr"
proof -
  define m0 where "m0 = answer STUN_BINDING_RESPONSE (msg_tid request)"
  define rc where "rc = (case GetUInt32 request STUN_ATTR_RETRANSMIT_COUNT of None \<Rightarrow> []
    | Some a \<Rightarrow> [StunUInt32Attribute_of (word_of_int STUN_ATTR_RETRANSMIT_COUNT) (uint32_value a)])"
  define x where "x = StunXorAddressAttribute_of (word_of_int STUN_ATTR_XOR_MAPPED_ADDRESS) addr"
  note m0 = answer_fields [OF assms(3), of STUN_BINDING_RESPONSE, folded m0_def]
  have fit: "list_all (fits m0) (rc @ [x])"
    using xor_address_ok(1) [OF assms(2,3)] by (auto simp: fits_def m0 rc_def x_def attr_simps xor_address_attr(1,3) uint_attr_ok split: option.split)
  have sum: "sum_list (map (\<lambda>a. 7 + unat (at_length a)) (rc @ [x])) < 65500"
    using xor_address_ok(2) [OF assms(2,3), of "word_of_int STUN_ATTR_XOR_MAPPED_ADDRESS"] by (simp add: rc_def x_def uint_attr split: option.split)
  have no_mi: "list_all (\<lambda>a. uint (at_type a) \<noteq> STUN_ATTR_MESSAGE_INTEGRITY) (rc @ [x])"
    by (auto simp: rc_def x_def uint_attr xor_address_attr(1) ice_constants split: option.split)
  have tid: "length (msg_tid m0) = 12" using m0(2) assms(3) by simp
  obtain mac v m1 m2 where s: "msg_attrs m2 = map SetOwner (rc @ [x]) @ [integrity_attr mac, fingerprint_attr v]"
      "AddMessageIntegrity h (p_password p) (fold add (rc @ [x]) m0) = Some (True, m1)" "AddFingerprint h m1 = Some (True, m2)" "attrs_ok m2" "length_ok m2"
      "\<And>h. ValidateMessageIntegrity h (message_bytes m2) (p_password p) = Some True" "ValidateFingerprint (message_bytes m2)"
      "msg_class m2 = msg_class m0" "msg_type m2 = msg_type m0" "msg_tid m2 = msg_tid m0"
    by (rule signed_fold [OF tid m0(3,4) fit sum no_mi, of "p_password p"]) blast
  have "fold add (rc @ [x]) m0 =
      add x (case GetUInt32 request STUN_ATTR_RETRANSMIT_COUNT of None \<Rightarrow> m0
        | Some a \<Rightarrow> add (StunUInt32Attribute_of (word_of_int STUN_ATTR_RETRANSMIT_COUNT) (uint32_value a)) m0)"
    by (simp add: rc_def split: option.split)
  with s(2,3) assms(1) have "binding_response h p request a addr = Some m2"
    unfolding binding_response_def Let_def m0_def [symmetric] x_def [symmetric] by simp
  moreover have "answer_ok (p_password p) (msg_tid request) (as_ice m2)"
    using as_ice_ok [OF s(4,5)] s(6-10) m0 by (simp add: answer_ok_def)
  moreover have "uint (msg_type m2) = STUN_BINDING_RESPONSE" by (simp add: s(9) m0 STUN_BINDING_RESPONSE_def)
  moreover have "Message_GetAddress (as_ice m2) STUN_ATTR_XOR_MAPPED_ADDRESS = Some (SetOwner x)"
    by (auto simp: Message_GetAddress_def GetAttribute_def s(1) rc_def x_def uint_attr xor_address_attr(1) ice_constants split: option.split)
  moreover have "GetAddress (SetOwner x) = addr" by (simp add: x_def xor_address_attr(2) GetAddress_def)
  ultimately show ?thesis using s(4) by simp
qed

text \<open>The error response for a conflict of roles.\<close>

lemma error_attr_ok:
  assumes "length reason < 65000"
  defines "a \<equiv> SetReason reason (SetCode 487 CreateErrorCode)"
  shows "at_type a = word_of_int STUN_ATTR_ERROR_CODE" "at_value a = ErrorCodeValue 4 87 reason" "unat (at_length a) = 4 + length reason" "SetOwner a = a"
  using assms(1) unat_add_word [of 4 "length reason"]
  by (simp_all add: a_def SetReason_def SetCode_def CreateErrorCode_def StunErrorCodeAttribute_def SetLength_def MIN_SIZE_def SetOwner_def)

lemma error_response_ok:
  assumes "IsStandardIce p" "length (msg_tid request) = 12"
  shows "\<exists>m. error_response h p request STUN_ERROR_ROLE_CONFLICT STUN_ERROR_REASON_ROLE_CONFLICT = Some m \<and> attrs_ok m \<and>
    answer_ok (p_password p) (msg_tid request) (as_ice m) \<and> uint (msg_type m) = STUN_BINDING_ERROR_RESPONSE \<and>
    map_option (\<lambda>a. code (at_value a)) (GetErrorCode (as_ice m)) = Some STUN_ERROR_ROLE_CONFLICT"
proof -
  define m0 where "m0 = answer STUN_BINDING_ERROR_RESPONSE (msg_tid request)"
  define x where "x = SetReason STUN_ERROR_REASON_ROLE_CONFLICT (SetCode STUN_ERROR_ROLE_CONFLICT CreateErrorCode)"
  note m0 = answer_fields [OF assms(2), of STUN_BINDING_ERROR_RESPONSE, folded m0_def]
  have r: "length STUN_ERROR_REASON_ROLE_CONFLICT = 13" by (simp add: STUN_ERROR_REASON_ROLE_CONFLICT_def string_bytes_def)
  note x = error_attr_ok [of STUN_ERROR_REASON_ROLE_CONFLICT, unfolded r, simplified, folded STUN_ERROR_ROLE_CONFLICT_def x_def]
  have fit: "list_all (fits m0) [x]" by (simp add: fits_def x m0 attr_simps attr_ok_def r)
  have sum: "sum_list (map (\<lambda>a. 7 + unat (at_length a)) [x]) < 65500" by (simp add: x)
  have no_mi: "list_all (\<lambda>a. uint (at_type a) \<noteq> STUN_ATTR_MESSAGE_INTEGRITY) [x]" by (simp add: x ice_constants)
  have tid: "length (msg_tid m0) = 12" using m0(2) assms(2) by simp
  obtain mac v m1 m2 where s: "msg_attrs m2 = map SetOwner [x] @ [integrity_attr mac, fingerprint_attr v]"
      "AddMessageIntegrity h (p_password p) (fold add [x] m0) = Some (True, m1)" "AddFingerprint h m1 = Some (True, m2)" "attrs_ok m2" "length_ok m2"
      "\<And>h. ValidateMessageIntegrity h (message_bytes m2) (p_password p) = Some True" "ValidateFingerprint (message_bytes m2)"
      "msg_class m2 = msg_class m0" "msg_type m2 = msg_type m0" "msg_tid m2 = msg_tid m0"
    by (rule signed_fold [OF tid m0(3,4) fit sum no_mi, of "p_password p"]) blast
  have "error_response h p request STUN_ERROR_ROLE_CONFLICT STUN_ERROR_REASON_ROLE_CONFLICT = Some m2"
    using s(2,3) assms(1)
    by (simp add: error_response_def Let_def m0_def x_def STUN_ERROR_ROLE_CONFLICT_def STUN_ERROR_BAD_REQUEST_def STUN_ERROR_UNAUTHORIZED_def)
  moreover have "answer_ok (p_password p) (msg_tid request) (as_ice m2)"
    using as_ice_ok [OF s(4,5)] s(6-10) m0 by (simp add: answer_ok_def)
  moreover have "uint (msg_type m2) = STUN_BINDING_ERROR_RESPONSE" by (simp add: s(9) m0 STUN_BINDING_ERROR_RESPONSE_def)
  moreover have "GetErrorCode (as_ice m2) = Some x" by (simp add: GetErrorCode_def GetAttribute_def s(1) x ice_constants)
  ultimately show ?thesis using s(4) by (simp add: x code_def STUN_ERROR_ROLE_CONFLICT_def)
qed

lemma GetStunMessage_answer:
  assumes "answer_ok pw tid m" "length tid = 12" "IsStandardIce (the_port w)"
    "uint (msg_type m) = STUN_BINDING_RESPONSE \<or> uint (msg_type m) = STUN_BINDING_ERROR_RESPONSE \<and> GetErrorCode m \<noteq> None"
  shows "GetStunMessage h (message_bytes m) addr w = Some ((True, Some m, []), w)"
proof -
  have m: "attrs_ok m" "length_ok m" "msg_class m = IceClass" "length (msg_tid m) = 12" "ValidateFingerprint (message_bytes m)"
    using assms(1,2) by (simp_all add: answer_ok_def)
  have "msg_type m AND 0x8000 = 0" using assms(4) by (auto simp: binding_types)
  then obtain b where b: "Message_Read h (StunMessage_new IceClass) (ByteBuffer_of (message_bytes m)) = (True, m, b)" "Length b = 0"
    using read_message [OF m(1-4), of h] by auto
  show ?thesis using assms(3,4) m(5) b
    by (auto simp: GetStunMessage_def Let_def STUN_BINDING_REQUEST_def STUN_BINDING_RESPONSE_def STUN_BINDING_ERROR_RESPONSE_def)
qed

end
