(* ===== verification/Ice_Props.thy ===== *)
theory Ice_Props
  imports Ice_Check
begin

text \<open>
  The properties of ports and connections: a connectivity check from end to end, conflicts of roles, what makes a connection
  readable and writable, its timeouts, and the store of connections over all calls.
\<close>

section \<open>Sending a check\<close>

definition idle :: "stun_world \<Rightarrow> bool" where
  "idle rqs \<longleftrightarrow> requests rqs = [] \<and> \<not> fStop (thread rqs) \<and> \<not> fPeekKeep (thread rqs) \<and> msgq (thread rqs) = [] \<and> dmsgq (thread rqs) = []"

lemma fill_message_bytes:
  assumes "attrs_ok (fill m)"
  shows "\<exists>b. Message_Write h m ByteBuffer_new = Some (True, b) \<and> Contents b = message_bytes (fill m)"
  using written [OF assms, of h] by (simp add: fill_Write)

lemma check_ok_cong:
  "remote_candidate c' = remote_candidate c \<Longrightarrow> use_candidate_attr c' = use_candidate_attr c \<Longrightarrow>
   local_candidate_index c' = local_candidate_index c \<Longrightarrow> check_ok p c' tid m = check_ok p c tid m"
  by (simp add: check_ok_def local_candidate_def)

lemma Ping_turn:
  assumes "conns w k = Some c" "IsStandardIce (the_port w)" "local_candidate (the_port w) c = Some local" "names_fit (the_port w) c"
    "length tid = 12" "idle (conn_requests c)"
  shows "\<exists>m rqs r c' w1. Ping h t tid q k w = Some w1 \<and> check_ok (the_port w) c tid (fill m) \<and>
    requests_turn h t k w1 = Some (emit (SendTo (message_bytes (fill m)) (cd_address (remote_candidate c))) (put k c' w)) \<and>
    c' = c\<lparr>last_ping_sent := t, pings_since_last_response := pings_since_last_response c @ [t],
      check_state := STATE_INPROGRESS, conn_requests := rqs\<rparr> \<and>
    objects rqs q = Some r \<and> rq_msg r = m \<and> rq_manager r \<and> rq_tstamp r = t \<and> requests rqs = [(tid, q)]"
proof -
  define c1 where "c1 = c\<lparr>last_ping_sent := t, pings_since_last_response := pings_since_last_response c @ [t]\<rparr>"
  have l: "local_candidate (the_port w) c1 = Some local" "names_fit (the_port w) c1"
    using assms(3,4) by (auto simp: c1_def local_candidate_def names_fit_def split: if_splits)
  obtain m where m: "Prepare h (the_port w) c1 (fresh_request tid) = Some m" "check_ok (the_port w) c1 tid (fill m)"
    using Prepare_check [OF assms(2) l assms(5)] by blast
  have ok: "check_ok (the_port w) c tid (fill m)" using m(2) check_ok_cong [of c1 c] by (simp add: c1_def)
  then have f: "attrs_ok (fill m)" "msg_tid m = tid" "msg_type m \<noteq> 0"
    by (auto simp: check_ok_def STUN_BINDING_REQUEST_def)
  obtain b where b: "Message_Write h m ByteBuffer_new = Some (True, b)" "Contents b = message_bytes (fill m)"
    using fill_message_bytes [OF f(1)] by blast
  let ?req = "StunRequest_of (StunMessage_new IceClass) tid"
  define r1 where "r1 = ?req\<lparr>rq_manager := True, rq_msg := m\<rparr>"
  define rqs1 where "rqs1 = (conn_requests c)\<lparr>objects := (objects (conn_requests c))(q \<mapsto> r1), requests := [(tid, q)],
    thread := PostDelayed t 0 (Some q) MSG_STUN_SEND None (thread (conn_requests c))\<rparr>"
  define w1 where "w1 = put k (c1\<lparr>conn_requests := rqs1, check_state := STATE_INPROGRESS\<rparr>) w"
  have ping: "Ping h t tid q k w = Some w1"
    unfolding Ping_def c1_def [symmetric] Let_def
    using assms(1,6) m(1) fresh_request_fields(5) [OF assms(5)] f(2)
    by (simp add: c1_def Request_Send_def SendDelayed_def Construct_def set_manager_def w1_def rqs1_def r1_def idle_def rq_id_def Let_def)
  define r2 where "r2 = r1\<lparr>rq_tstamp := t, rq_timeout := True\<rparr>"
  define mq where "mq = (thread rqs1)\<lparr>dmsgq := []\<rparr>"
  define rqs2 where "rqs2 = rqs1\<lparr>objects := (objects rqs1)(q \<mapsto> r2), events := [SendPacket t (message_bytes (fill m)) q],
    thread := PostDelayed t CONNECTION_RESPONSE_TIMEOUT (Some q) MSG_STUN_SEND None mq\<rparr>"
  have "\<not> TimeIsLater t t" by (simp add: TimeIsLater_dist)
  then have got: "Get t 0 [] (thread rqs1) = (Got \<lparr>phandler = Some q, message_id = MSG_STUN_SEND, pdata = None, ts_sensitive = 0\<rparr>, mq)"
    using assms(6) by (simp add: rqs1_def mq_def idle_def PostDelayed_def DoDelayPost_def TimeAfter_def Get_def Get_loop.simps Get_pass_def
        MSG_STUN_SEND_def MQID_DISPOSE_def Let_def)
  have "OnMessage_with Request_GetNextDelay h t q (rqs1\<lparr>thread := mq, events := []\<rparr>) = Some rqs2"
    using b by (simp add: OnMessage_with_def rqs1_def r1_def r2_def rqs2_def Request_GetNextDelay_def signal_def StunRequest_of_def Let_def)
  then have turn: "requests_turn h t k w1 = Some (emit (SendTo (message_bytes (fill m)) (cd_address (remote_candidate c)))
      (put k (c1\<lparr>check_state := STATE_INPROGRESS, conn_requests := rqs2\<rparr>) w))"
    using got by (simp add: requests_turn_def w1_def put_def Request_OnMessage_def rqs2_def request_callback_def OnSendStunPacket_def c1_def
        emit_def Let_def)
  show ?thesis
    using ping turn ok by (intro exI [of _ m] exI [of _ rqs2] exI [of _ r2] exI conjI) (simp_all add: c1_def rqs2_def r2_def r1_def rqs1_def)
qed

section \<open>Receiving a check\<close>

abbreviation state_changes :: "nat \<Rightarrow> ice_event set" where "state_changes k \<equiv> range (SignalStateChange k)"

text \<open>The connection after a valid check arrived, and the events that this leaves.\<close>

definition pinged :: "u32 \<Rightarrow> Connection \<Rightarrow> Connection" where
  "pinged now c = c\<lparr>last_ping_received := now, read_state := STATE_READABLE,
     write_state := (if \<not> pruned c \<and> write_state c = STATE_WRITE_TIMEOUT then STATE_WRITE_INIT else write_state c)\<rparr>"

lemma ReceivedPing_eq:
  assumes "conns w k = Some c"
  shows "ReceivedPing now k w = Some (w\<lparr>conns := (conns w)(k \<mapsto> c\<lparr>last_ping_received := now, read_state := STATE_READABLE\<rparr>),
    sigs := sigs w @ (if read_state c = STATE_READABLE then [] else [SignalStateChange k (write_state c)])\<rparr>)"
  using assms by (auto simp: ReceivedPing_def set_read_state_def put_def emit_def Connection_CheckTimeout_def)

lemma restart_checks_eq:
  assumes "conns w k = Some c" "read_state c = STATE_READABLE"
  shows "\<exists>es. restart_checks k w = Some (w\<lparr>conns := (conns w)(k \<mapsto> c\<lparr>write_state :=
      if \<not> pruned c \<and> write_state c = STATE_WRITE_TIMEOUT then STATE_WRITE_INIT else write_state c\<rparr>), sigs := sigs w @ es\<rparr>) \<and>
    set es \<subseteq> (if write_state c = STATE_WRITABLE then {} else {SignalStateChange k STATE_WRITE_INIT})"
proof (cases "\<not> pruned c \<and> write_state c = STATE_WRITE_TIMEOUT")
  case True
  then show ?thesis using assms
    by (intro exI [of _ "[SignalStateChange k STATE_WRITE_INIT]"]) (simp add: restart_checks_def set_write_state_def put_def emit_def Connection_CheckTimeout_def)
next
  case False
  moreover have "w = w\<lparr>conns := (conns w)(k \<mapsto> c\<lparr>write_state := write_state c\<rparr>), sigs := sigs w @ []\<rparr>"
    using assms(1) by (cases w) (auto simp: fun_upd_idem)
  ultimately show ?thesis using assms by (intro exI [of _ "[]"]) (auto simp: restart_checks_def)
qed

lemma accept_check:
  assumes "conns w k = Some c" "IsStandardIce (the_port w)" "check_ok pa ca tid m" "length tid = 12"
    "cd_username (remote_candidate ca) = ice_username_fragment (the_port w)" "58 \<notin> set (ice_username_fragment (the_port w))"
    "cd_password (remote_candidate ca) = p_password (the_port w)" "cd_username (remote_candidate c) = ice_username_fragment pa"
    "addr_ok (cd_address (remote_candidate c))" "GetConnection h (the_port w) (cd_address (remote_candidate c)) = Some k"
    "MaybeIceRoleConflict h (cd_address (remote_candidate c)) m (ice_username_fragment pa) w = Some (True, w\<lparr>sigs := sigs w @ es0\<rparr>)"
  shows "\<exists>reply es. OnReadPacket h ntop now rnd k (message_bytes m) w =
      Some (w\<lparr>conns := (conns w)(k \<mapsto> pinged now c), sigs := sigs w @ es0 @ SendTo (message_bytes reply) (cd_address (remote_candidate c)) # es\<rparr>) \<and>
    answer_ok (p_password (the_port w)) tid reply \<and> uint (msg_type reply) = STUN_BINDING_RESPONSE \<and>
    map_option GetAddress (Message_GetAddress reply STUN_ATTR_XOR_MAPPED_ADDRESS) = Some (cd_address (remote_candidate c)) \<and>
    set es \<subseteq> insert (SignalUseCandidate k) (state_changes k) \<and>
    (SignalUseCandidate k \<in> set es) = (ice_role (the_port w) = ICEROLE_CONTROLLED \<and> ice_role pa = ICEROLE_CONTROLLING \<and> use_candidate_attr ca) \<and>
    (\<exists>us. es = us @ (if SignalUseCandidate k \<in> set es then [SignalUseCandidate k] else []) \<and>
       set us \<subseteq> SignalStateChange k ` {st. (st = STATE_WRITABLE) = (write_state c = STATE_WRITABLE)})"
proof -
  let ?addr = "cd_address (remote_candidate c)"
  note get = GetStunMessage_check [OF assms(3,4,2,5,6,7), of h ?addr]
  have m: "uint (msg_type m) = STUN_BINDING_REQUEST" "msg_tid m = tid"
      "(GetByteString m STUN_ATTR_USE_CANDIDATE \<noteq> None) = (ice_role pa = ICEROLE_CONTROLLING \<and> use_candidate_attr ca)"
    using assms(3) by (simp_all add: check_ok_def)
  obtain a where a: "GetByteString m STUN_ATTR_USERNAME = Some a" using assms(3) by (auto simp: check_ok_def)
  define w0 where "w0 = w\<lparr>sigs := sigs w @ es0\<rparr>"
  have p: "IsStandardIce (the_port w0)" "length (msg_tid m) = 12" using assms(2,4) m(2) by (simp_all add: w0_def)
  obtain r where r: "binding_response h (the_port w0) m a ?addr = Some r" "attrs_ok r" "answer_ok (p_password (the_port w0)) (msg_tid m) (as_ice r)"
      "uint (msg_type r) = STUN_BINDING_RESPONSE" "map_option GetAddress (Message_GetAddress (as_ice r) STUN_ATTR_XOR_MAPPED_ADDRESS) = Some ?addr"
    using binding_response_ok [OF p(1) assms(9) p(2), of h a] by blast
  obtain b where b: "Message_Write h r ByteBuffer_new = Some (True, b)" "Contents b = message_bytes (as_ice r)" using written [OF r(2)] by auto
  define e1 where "e1 = (if read_state c = STATE_READABLE then [] else [SignalStateChange k (write_state c)])"
  define w1 where "w1 = w\<lparr>conns := (conns w)(k \<mapsto> c\<lparr>last_ping_received := now, read_state := STATE_READABLE\<rparr>),
      sigs := sigs w @ es0 @ SendTo (Contents b) ?addr # e1\<rparr>"
  have send: "SendBindingResponse h now m ?addr w0 = Some w1"
    using a r(1) b(1) assms(1,10) ReceivedPing_eq [of "emit (SendTo (Contents b) ?addr) w0" k c now]
    by (simp add: SendBindingResponse_def w1_def w0_def e1_def emit_def Let_def)
  have "conns w1 k = Some (c\<lparr>last_ping_received := now, read_state := STATE_READABLE\<rparr>)" by (simp add: w1_def)
  from restart_checks_eq [OF this] obtain e2 where e2: "restart_checks k w1 =
      Some (w\<lparr>conns := (conns w)(k \<mapsto> pinged now c), sigs := sigs w1 @ e2\<rparr>)"
      "set e2 \<subseteq> (if write_state c = STATE_WRITABLE then {} else {SignalStateChange k STATE_WRITE_INIT})"
    by (auto simp: w1_def pinged_def cong: if_cong)
  define e3 where "e3 = (if ice_role (the_port w) = ICEROLE_CONTROLLED \<and> ice_role pa = ICEROLE_CONTROLLING \<and> use_candidate_attr ca
    then [SignalUseCandidate k] else [])"
  have "OnReadPacket h ntop now rnd k (message_bytes m) w = Some (w\<lparr>conns := (conns w)(k \<mapsto> pinged now c),
      sigs := sigs w @ es0 @ SendTo (message_bytes (as_ice r)) ?addr # e1 @ e2 @ e3\<rparr>)"
    unfolding OnReadPacket_def
    using assms(1,2,8,11) m(1,3) get send e2(1) b(2) by (simp add: w0_def Let_def e3_def emit_def) (simp add: w1_def)
  moreover have "set (e1 @ e2 @ e3) \<subseteq> insert (SignalUseCandidate k) (state_changes k)"
      "(SignalUseCandidate k \<in> set (e1 @ e2 @ e3)) = (ice_role (the_port w) = ICEROLE_CONTROLLED \<and> ice_role pa = ICEROLE_CONTROLLING \<and> use_candidate_attr ca)"
    using e2(2) by (auto simp: e1_def e3_def split: if_splits)
  moreover have "e1 @ e2 @ e3 = (e1 @ e2) @ (if SignalUseCandidate k \<in> set (e1 @ e2 @ e3) then [SignalUseCandidate k] else [])"
      "set (e1 @ e2) \<subseteq> SignalStateChange k ` {st. (st = STATE_WRITABLE) = (write_state c = STATE_WRITABLE)}"
    using e2(2) by (auto simp: e1_def e3_def split: if_splits)
  ultimately show ?thesis using r(3-5) m(2) by (intro exI [of _ "as_ice r"] exI [of _ "e1 @ e2 @ e3"]) (simp add: w0_def)
qed

section \<open>Receiving an answer\<close>

lemma set_write_state_eq:
  assumes "conns w k = Some c"
  shows "set_write_state k v w = Some (w\<lparr>conns := (conns w)(k \<mapsto> c\<lparr>write_state := v\<rparr>),
    sigs := sigs w @ (if v = write_state c then [] else SignalStateChange k v #
      (if read_state c \<noteq> STATE_READABLE \<and> v = STATE_WRITE_TIMEOUT then [PostDelete k] else []))\<rparr>)"
  using assms by (cases "read_state c") (simp_all add: set_write_state_def put_def emit_def Connection_CheckTimeout_def)

lemma set_read_state_eq:
  assumes "conns w k = Some c"
  shows "set_read_state k v w = Some (w\<lparr>conns := (conns w)(k \<mapsto> c\<lparr>read_state := v\<rparr>),
    sigs := sigs w @ (if v = read_state c then [] else SignalStateChange k (write_state c) #
      (if v \<noteq> STATE_READABLE \<and> write_state c = STATE_WRITE_TIMEOUT then [PostDelete k] else []))\<rparr>)"
  using assms by (cases v) (simp_all add: set_read_state_def put_def emit_def Connection_CheckTimeout_def)

text \<open>A manager that has the transaction of a message calls back and forgets the request.\<close>

lemma CheckResponse_hit:
  assumes "map_of (requests rqs) (msg_tid m) = Some q" "objects rqs q = Some r" "rq_id r = msg_tid m" "rq_manager r"
    "msg_type (rq_msg r) = 1"
    "uint (msg_type m) = STUN_BINDING_RESPONSE \<and> e = OnResponse q m \<or> uint (msg_type m) = STUN_BINDING_ERROR_RESPONSE \<and> e = OnErrorResponse q m"
  shows "\<exists>rqs'. CheckResponse_msg m rqs = Some (True, rqs') \<and> events rqs' = events rqs @ [e] \<and>
    requests rqs' = AList.delete (msg_tid m) (requests rqs) \<and> objects rqs' = (objects rqs)(q := None)"
proof -
  have ty: "GetStunSuccessResponseType (rq_type r) = STUN_BINDING_RESPONSE" "GetStunErrorResponseType (rq_type r) = STUN_BINDING_ERROR_RESPONSE"
    unfolding rq_type_def assms(5) by code_simp+
  show ?thesis using assms ty
    by (auto simp: CheckResponse_msg_def delete_request_def Remove_def signal_def STUN_BINDING_RESPONSE_def STUN_BINDING_ERROR_RESPONSE_def)
qed

definition answered :: "u32 \<Rightarrow> u32 \<Rightarrow> Connection \<Rightarrow> Connection" where
  "answered now elapsed c =
     (let c = c\<lparr>write_state := STATE_WRITABLE, check_state := STATE_SUCCEEDED\<rparr>;
          c = (if remote_ice_mode c = ICEMODE_LITE then c\<lparr>last_ping_received := now, read_state := STATE_READABLE\<rparr> else c)
      in c\<lparr>pings_since_last_response := [], last_ping_response_received := now,
           rtt := (RTT_RATIO * rtt c + elapsed) div (RTT_RATIO + 1)\<rparr>)"

lemma OnConnectionRequestResponse_eq:
  assumes "conns w k = Some c" "IsStandardIce (the_port w)"
  shows "\<exists>es. OnConnectionRequestResponse h ntop now rnd k r m w = MaybeAddPrflxCandidate h ntop rnd k r m
      (w\<lparr>sigs := sigs w @ es, conns := (conns w)(k \<mapsto> answered now (Elapsed now r) c)\<rparr>) \<and> set es \<subseteq> state_changes k \<and>
    (write_state c \<noteq> STATE_WRITABLE \<longrightarrow> SignalStateChange k STATE_WRITABLE \<in> set es)"
proof -
  obtain e1 where e1: "set_write_state k STATE_WRITABLE w = Some (w\<lparr>conns := (conns w)(k \<mapsto> c\<lparr>write_state := STATE_WRITABLE\<rparr>), sigs := sigs w @ e1\<rparr>)"
      "set e1 \<subseteq> state_changes k" "write_state c \<noteq> STATE_WRITABLE \<longrightarrow> SignalStateChange k STATE_WRITABLE \<in> set e1"
    using set_write_state_eq [OF assms(1), of STATE_WRITABLE] by (auto split: if_splits)
  define c2 where "c2 = c\<lparr>write_state := STATE_WRITABLE, check_state := STATE_SUCCEEDED\<rparr>"
  define w2 where "w2 = w\<lparr>conns := (conns w)(k \<mapsto> c2), sigs := sigs w @ e1\<rparr>"
  have w2: "set_state k STATE_SUCCEEDED (w\<lparr>conns := (conns w)(k \<mapsto> c\<lparr>write_state := STATE_WRITABLE\<rparr>), sigs := sigs w @ e1\<rparr>) = Some w2"
      "conns w2 k = Some c2"
    by (simp_all add: set_state_def put_def w2_def c2_def)
  show ?thesis
  proof (cases "remote_ice_mode c = ICEMODE_LITE")
    case True
    then show ?thesis using e1 w2 ReceivedPing_eq [OF w2(2), of now] assms(2)
      by (intro exI [of _ "e1 @ (if read_state c = STATE_READABLE then [] else [SignalStateChange k STATE_WRITABLE])"])
        (simp add: OnConnectionRequestResponse_def put_def answered_def Let_def, simp add: w2_def c2_def)
  next
    case False
    then show ?thesis using e1 w2 assms(2)
      by (intro exI [of _ e1]) (simp add: OnConnectionRequestResponse_def put_def answered_def Let_def, simp add: w2_def c2_def)
  qed
qed

lemma answer_accepted:
  assumes "conns w k = Some c" "IsStandardIce (the_port w)" "answer_ok (cd_password (remote_candidate c)) tid m" "length tid = 12"
    "uint (msg_type m) = STUN_BINDING_RESPONSE" "map_of (requests (conn_requests c)) tid = Some q"
    "objects (conn_requests c) q = Some r" "rq_id r = tid" "rq_manager r" "msg_type (rq_msg r) = 1"
    "local_candidate (the_port w) c = Some local" "map_option GetAddress (Message_GetAddress m STUN_ATTR_XOR_MAPPED_ADDRESS) = Some addr"
    "map_option uint32_value (GetUInt32 (rq_msg r) STUN_ATTR_PRIORITY) = Some prio"
  shows "\<exists>w' c' l es. OnReadPacket h ntop now rnd k (message_bytes m) w = Some w' \<and> conns w' k = Some c' \<and>
    write_state c' = STATE_WRITABLE \<and> check_state c' = STATE_SUCCEEDED \<and> pings_since_last_response c' = [] \<and>
    last_ping_response_received c' = now \<and> requests (conn_requests c') = AList.delete tid (requests (conn_requests c)) \<and>
    objects (conn_requests c') q = None \<and> local_candidate (the_port w') c' = Some l \<and>
    (if list_ex (\<lambda>cand. SocketAddress_eq h (cd_address cand) addr) (candidates (the_port w)) then l = local
     else cd_address l = addr \<and> cd_priority l = prio \<and> cd_type l = PRFLX_PORT_TYPE \<and> cd_related_address l = cd_address local) \<and>
    sigs w' = sigs w @ es \<and> set es \<subseteq> state_changes k \<and> (write_state c \<noteq> STATE_WRITABLE \<longrightarrow> SignalStateChange k STATE_WRITABLE \<in> set es)"
proof -
  let ?addr = "cd_address (remote_candidate c)" and ?rqs = "(conn_requests c)\<lparr>events := []\<rparr>"
  have m: "msg_tid m = tid" "ValidateMessageIntegrity h (message_bytes m) (cd_password (remote_candidate c)) = Some True"
    using assms(3) by (simp_all add: answer_ok_def)
  have get: "GetStunMessage h (message_bytes m) ?addr w = Some ((True, Some m, []), w)"
    using GetStunMessage_answer [OF assms(3,4,2)] assms(5) by blast
  obtain rqs' where rqs': "CheckResponse_msg m ?rqs = Some (True, rqs')" "events rqs' = [OnResponse q m]"
      "requests rqs' = AList.delete tid (requests (conn_requests c))" "objects rqs' = (objects (conn_requests c))(q := None)"
    using CheckResponse_hit [of ?rqs m q r "OnResponse q m"] assms(5-10) m(1) by auto
  define w0 where "w0 = put k (c\<lparr>conn_requests := rqs'\<rparr>) w"
  have w0: "conns w0 k = Some (c\<lparr>conn_requests := rqs'\<rparr>)" "IsStandardIce (the_port w0)" using assms(2) by (simp_all add: w0_def put_def)
  define ca where "ca = answered now (Elapsed now r) (c\<lparr>conn_requests := rqs'\<rparr>)"
  obtain es where es: "OnConnectionRequestResponse h ntop now rnd k r m w0 = MaybeAddPrflxCandidate h ntop rnd k r m
      (w0\<lparr>sigs := sigs w0 @ es, conns := (conns w0)(k \<mapsto> ca)\<rparr>)" "set es \<subseteq> state_changes k"
      "write_state c \<noteq> STATE_WRITABLE \<longrightarrow> SignalStateChange k STATE_WRITABLE \<in> set es"
    using OnConnectionRequestResponse_eq [OF w0, of h ntop now rnd r m] by (auto simp: ca_def)
  have read: "OnReadPacket h ntop now rnd k (message_bytes m) w = OnConnectionRequestResponse h ntop now rnd k r m w0"
    using assms(1,2,5,7) get m rqs'(1,2)
    by (simp add: OnReadPacket_def Connection_CheckResponse_def response_callback_def w0_def Let_def IsGoogleIce_def IsStandardIce_def
        STUN_BINDING_REQUEST_def STUN_BINDING_RESPONSE_def)
  obtain a where a: "Message_GetAddress m STUN_ATTR_XOR_MAPPED_ADDRESS = Some a" "GetAddress a = addr" using assms(12) by blast
  obtain pa where pa: "GetUInt32 (rq_msg r) STUN_ATTR_PRIORITY = Some pa" "uint32_value pa = prio" using assms(13) by blast
  have ca: "write_state ca = STATE_WRITABLE" "check_state ca = STATE_SUCCEEDED" "pings_since_last_response ca = []"
      "last_ping_response_received ca = now" "conn_requests ca = rqs'" "local_candidate_index ca = local_candidate_index c"
    by (simp_all add: ca_def answered_def Let_def)
  have l: "local_candidate (the_port w) ca = Some local" using assms(11) unfolding local_candidate_def ca(6) .
  show ?thesis
  proof (cases "list_ex (\<lambda>cand. SocketAddress_eq h (cd_address cand) addr) (candidates (the_port w))")
    case True
    then have "OnReadPacket h ntop now rnd k (message_bytes m) w = Some (w0\<lparr>sigs := sigs w0 @ es, conns := (conns w0)(k \<mapsto> ca)\<rparr>)"
      unfolding read es(1) by (simp add: MaybeAddPrflxCandidate_def a w0_def put_def)
    then show ?thesis using True ca l rqs'(3,4) es(2,3) by (simp add: w0_def put_def)
  next
    case False
    define l' where "l' = Candidate_new\<lparr>cd_id := rnd, cd_component := cd_component local, cd_type := PRFLX_PORT_TYPE,
      cd_protocol := cd_protocol local, cd_address := addr, cd_priority := prio, cd_username := cd_username local,
      cd_password := cd_password local, cd_network_name := cd_network_name local, cd_related_address := cd_address local,
      cd_foundation := ComputeFoundation ntop PRFLX_PORT_TYPE (cd_protocol local) (cd_address local)\<rparr>"
    define p' where "p' = (the_port w)\<lparr>candidates := candidates (the_port w) @ [l']\<rparr>"
    define c' where "c' = ca\<lparr>local_candidate_index := length (candidates (the_port w))\<rparr>"
    have "OnReadPacket h ntop now rnd k (message_bytes m) w =
        Some (w\<lparr>the_port := p', conns := (conns w)(k \<mapsto> c'), sigs := sigs w @ es @ [SignalStateChange k STATE_WRITABLE]\<rparr>)"
      unfolding read es(1) using False a pa l ca(1)
      by (simp add: MaybeAddPrflxCandidate_def w0_def put_def emit_def AddPrflxCandidate_def Let_def c'_def p'_def l'_def)
    moreover have "local_candidate p' c' = Some l'" by (simp add: local_candidate_def p'_def c'_def)
    ultimately show ?thesis using False ca rqs'(3,4) es(2,3) by (simp add: c'_def l'_def)
  qed
qed

section \<open>Conflicts of roles\<close>

text \<open>The port gives way: it is told of the conflict, and will change its role.\<close>

definition gives_way :: "IceRole \<Rightarrow> u64 \<Rightarrow> u64 \<Rightarrow> bool" where
  "gives_way role own other \<longleftrightarrow> (role = ICEROLE_CONTROLLING \<and> own \<le> other) \<or> (role = ICEROLE_CONTROLLED \<and> other < own)"

lemma no_conflict:
  assumes "check_ok pa ca tid m" "IsStandardIce (the_port w)" "ice_role pa \<noteq> ice_role (the_port w)"
  shows "MaybeIceRoleConflict h addr m uf w = Some (True, w)"
  using assms by (cases "ice_role pa"; cases "ice_role (the_port w)")
    (auto simp: MaybeIceRoleConflict_def check_ok_def username_fragment_def Let_def split: option.splits)

lemma conflict:
  assumes "check_ok pa ca tid m" "IsStandardIce (the_port w)" "ice_role pa = ice_role (the_port w)" "ice_role pa \<noteq> ICEROLE_UNKNOWN"
    "tiebreaker pa \<noteq> tiebreaker (the_port w)"
  shows "MaybeIceRoleConflict h addr m uf w =
    (if gives_way (ice_role pa) (tiebreaker (the_port w)) (tiebreaker pa) then Some (True, emit SignalRoleConflict w)
     else map_option (Pair False) (SendBindingErrorResponse h m addr STUN_ERROR_ROLE_CONFLICT STUN_ERROR_REASON_ROLE_CONFLICT w))"
  using assms by (cases "ice_role pa")
    (auto simp: MaybeIceRoleConflict_def check_ok_def username_fragment_def gives_way_def Let_def split: option.splits)

lemma send_conflict_error:
  assumes "IsStandardIce (the_port w)" "length (msg_tid m) = 12"
  shows "\<exists>e. SendBindingErrorResponse h m addr STUN_ERROR_ROLE_CONFLICT STUN_ERROR_REASON_ROLE_CONFLICT w =
      Some (emit (SendTo (message_bytes e) addr) w) \<and> answer_ok (p_password (the_port w)) (msg_tid m) e \<and>
      uint (msg_type e) = STUN_BINDING_ERROR_RESPONSE \<and> map_option (\<lambda>a. code (at_value a)) (GetErrorCode e) = Some STUN_ERROR_ROLE_CONFLICT"
proof -
  obtain r where r: "error_response h (the_port w) m STUN_ERROR_ROLE_CONFLICT STUN_ERROR_REASON_ROLE_CONFLICT = Some r" "attrs_ok r"
      "answer_ok (p_password (the_port w)) (msg_tid m) (as_ice r)" "uint (msg_type r) = STUN_BINDING_ERROR_RESPONSE"
      "map_option (\<lambda>a. code (at_value a)) (GetErrorCode (as_ice r)) = Some STUN_ERROR_ROLE_CONFLICT"
    using error_response_ok [OF assms, of h] by blast
  obtain b where "Message_Write h r ByteBuffer_new = Some (True, b)" "Contents b = message_bytes (as_ice r)" using written [OF r(2)] by auto
  with r show ?thesis by (intro exI [of _ "as_ice r"]) (simp add: SendBindingErrorResponse_def)
qed

text \<open>An error response that reports the conflict is passed on by the connection that asked.\<close>

lemma conflict_reported:
  assumes "conns w k = Some c" "IsStandardIce (the_port w)" "answer_ok (cd_password (remote_candidate c)) tid m" "length tid = 12"
    "uint (msg_type m) = STUN_BINDING_ERROR_RESPONSE" "map_option (\<lambda>a. code (at_value a)) (GetErrorCode m) = Some STUN_ERROR_ROLE_CONFLICT"
    "map_of (requests (conn_requests c)) tid = Some q" "objects (conn_requests c) q = Some r" "rq_id r = tid" "rq_manager r"
    "msg_type (rq_msg r) = 1"
  shows "\<exists>w' c'. OnReadPacket h ntop now rnd k (message_bytes m) w = Some w' \<and> sigs w' = sigs w @ [SignalRoleConflict] \<and>
    conns w' k = Some c' \<and> write_state c' = write_state c \<and> read_state c' = read_state c"
proof -
  let ?addr = "cd_address (remote_candidate c)" and ?rqs = "(conn_requests c)\<lparr>events := []\<rparr>"
  have m: "msg_tid m = tid" "ValidateMessageIntegrity h (message_bytes m) (cd_password (remote_candidate c)) = Some True"
    using assms(3) by (simp_all add: answer_ok_def)
  obtain a where a: "GetErrorCode m = Some a" "code (at_value a) = STUN_ERROR_ROLE_CONFLICT" using assms(6) by blast
  have get: "GetStunMessage h (message_bytes m) ?addr w = Some ((True, Some m, []), w)"
    using GetStunMessage_answer [OF assms(3,4,2)] assms(5) a(1) by simp
  obtain rqs' where rqs': "CheckResponse_msg m ?rqs = Some (True, rqs')" "events rqs' = [OnErrorResponse q m]"
    using CheckResponse_hit [of ?rqs m q r "OnErrorResponse q m"] assms(5,7-11) m(1) by auto
  have "OnReadPacket h ntop now rnd k (message_bytes m) w = Some (emit SignalRoleConflict (put k (c\<lparr>conn_requests := rqs'\<rparr>) w))"
    using assms(1,2,5) get m rqs' a
    by (simp add: OnReadPacket_def Connection_CheckResponse_def response_callback_def OnConnectionRequestErrorResponse_def
        HandleRoleConflictFromPeer_def put_def IsGoogleIce_def IsStandardIce_def STUN_BINDING_REQUEST_def STUN_BINDING_ERROR_RESPONSE_def
        STUN_BINDING_RESPONSE_def STUN_ERROR_ROLE_CONFLICT_def STUN_ERROR_UNKNOWN_ATTRIBUTE_def STUN_ERROR_SERVER_ERROR_def
        STUN_ERROR_UNAUTHORIZED_def STUN_ERROR_STALE_CREDENTIALS_def Let_def)
  then show ?thesis by (simp add: emit_def put_def)
qed

section \<open>Two ends\<close>

text \<open>The connection \<open>ka\<close> of one end and \<open>kb\<close> of the other have exchanged their candidates, both with RFC 5245: each knows the
  fragment and the password of the other, and the second port has its connection under the address of the first.\<close>

definition joined :: "bool \<Rightarrow> ice_world \<Rightarrow> nat \<Rightarrow> ice_world \<Rightarrow> nat \<Rightarrow> bool" where
  "joined h wa ka wb kb =
     (case (conns wa ka, conns wb kb) of
        (Some ca, Some cb) \<Rightarrow>
          (let pa = the_port wa; pb = the_port wb; ra = remote_candidate ca; rb = remote_candidate cb
           in IsStandardIce pa \<and> IsStandardIce pb \<and> names_fit pa ca \<and> idle (conn_requests ca) \<and> local_candidate pa ca \<noteq> None \<and>
              cd_username ra = ice_username_fragment pb \<and> cd_password ra = p_password pb \<and> 58 \<notin> set (ice_username_fragment pb) \<and>
              cd_username rb = ice_username_fragment pa \<and> addr_ok (cd_address rb) \<and> GetConnection h pb (cd_address rb) = Some kb)
      | _ \<Rightarrow> False)"

lemma find_map: "List.find P (map f xs) = map_option f (List.find (\<lambda>x. P (f x)) xs)"
  by (induction xs) auto

lemma joined_check:
  assumes "joined h' wa ka wb kb" "conns wa ka = Some ca" "length tid = 12"
  obtains m rqs r c' wa1 wa2 where "Ping h t tid q ka wa = Some wa1" "requests_turn h t ka wa1 = Some wa2"
    "sigs wa2 = sigs wa @ [SendTo (message_bytes m) (cd_address (remote_candidate ca))]" "check_ok (the_port wa) ca tid m"
    "conns wa2 ka = Some c'" "the_port wa2 = the_port wa" "remote_candidate c' = remote_candidate ca" "local_candidate (the_port wa) c' = local_candidate (the_port wa) ca"
    "objects (conn_requests c') q = Some r" "rq_id r = tid" "rq_manager r" "msg_type (rq_msg r) = 1"
    "map_option uint32_value (GetUInt32 (rq_msg r) STUN_ATTR_PRIORITY) = map_option (\<lambda>l. prflx_priority (cd_priority l)) (local_candidate (the_port wa) ca)"
    "requests (conn_requests c') = [(tid, q)]"
proof -
  have j: "IsStandardIce (the_port wa)" "names_fit (the_port wa) ca" "idle (conn_requests ca)" "local_candidate (the_port wa) ca \<noteq> None"
    using assms(1,2) by (auto simp: joined_def Let_def split: option.splits)
  then obtain local where l: "local_candidate (the_port wa) ca = Some local" by auto
  from Ping_turn [OF assms(2) j(1) l j(2) assms(3) j(3), of h t q] obtain m rqs r c' wa1 where
    p: "Ping h t tid q ka wa = Some wa1" "check_ok (the_port wa) ca tid (fill m)"
      "requests_turn h t ka wa1 = Some (emit (SendTo (message_bytes (fill m)) (cd_address (remote_candidate ca))) (put ka c' wa))"
      "c' = ca\<lparr>last_ping_sent := t, pings_since_last_response := pings_since_last_response ca @ [t], check_state := STATE_INPROGRESS, conn_requests := rqs\<rparr>"
      "objects rqs q = Some r" "rq_msg r = m" "rq_manager r" "requests rqs = [(tid, q)]"
    by blast
  have get: "GetUInt32 (fill x) ty = map_option fill_attr (GetUInt32 x ty)" for x ty
    by (cases x) (simp add: GetUInt32_def GetAttribute_def find_map fill_def)
  have val: "uint32_value (fill_attr a) = uint32_value a" for a
    by (auto simp: uint32_value_def fill_attr_def split: stun_value.split option.split)
  have f: "msg_tid m = tid" "msg_type m = 1"
    "map_option uint32_value (GetUInt32 m STUN_ATTR_PRIORITY) = map_option (\<lambda>l. prflx_priority (cd_priority l)) (local_candidate (the_port wa) ca)"
    using p(2) by (simp_all add: check_ok_def binding_types get option.map_comp comp_def val)
  show thesis
    using that [OF p(1,3)] p(2,4-8) f by (simp add: emit_def put_def rq_id_def local_candidate_def)
qed

text \<open>C4: a connectivity check succeeds. When two ends have exchanged their candidates and have complementary roles, the ping of
  one is sent as soon as its thread turns; the other end takes the packet for a valid check, becomes readable (starting its own
  checks again unless it was pruned), answers, and reports the nomination exactly when a controlling peer nominates;
  the answer makes the first end writable, clears its unanswered pings and its request, and its local candidate becomes
  the peer-reflexive one with the address the other end saw, unless that address belongs to a candidate already.\<close>

theorem connectivity_check_completes:
  assumes "joined h' wa ka wb kb" "conns wa ka = Some ca" "conns wb kb = Some cb" "length tid = 12"
    "(ice_role (the_port wa), ice_role (the_port wb)) \<in>
       {(ICEROLE_CONTROLLING, ICEROLE_CONTROLLED), (ICEROLE_CONTROLLED, ICEROLE_CONTROLLING)}"
    "local_candidate (the_port wa) ca = Some local"
  shows "\<exists>request reply wa1 wa2 wa3 wb' es es' ca' l. Ping h t tid q ka wa = Some wa1 \<and> requests_turn h t ka wa1 = Some wa2 \<and>
    sigs wa2 = sigs wa @ [SendTo request (cd_address (remote_candidate ca))] \<and>
    OnReadPacket h' ntop' t' rnd' kb request wb = Some wb' \<and> conns wb' kb = Some (pinged t' cb) \<and>
    sigs wb' = sigs wb @ SendTo reply (cd_address (remote_candidate cb)) # es \<and>
    (SignalUseCandidate kb \<in> set es) = (ice_role (the_port wa) = ICEROLE_CONTROLLING \<and> use_candidate_attr ca) \<and>
    OnReadPacket h ntop t2 rnd ka reply wa2 = Some wa3 \<and> conns wa3 ka = Some ca' \<and> write_state ca' = STATE_WRITABLE \<and>
    check_state ca' = STATE_SUCCEEDED \<and> pings_since_last_response ca' = [] \<and> requests (conn_requests ca') = [] \<and>
    sigs wa3 = sigs wa2 @ es' \<and> SignalRoleConflict \<notin> set (es @ es') \<and> local_candidate (the_port wa3) ca' = Some l \<and>
    (if list_ex (\<lambda>cand. SocketAddress_eq h (cd_address cand) (cd_address (remote_candidate cb))) (candidates (the_port wa)) then l = local
     else cd_address l = cd_address (remote_candidate cb) \<and> cd_priority l = prflx_priority (cd_priority local))"
proof -
  let ?addr = "cd_address (remote_candidate cb)"
  have j: "IsStandardIce (the_port wa)" "IsStandardIce (the_port wb)" "cd_username (remote_candidate ca) = ice_username_fragment (the_port wb)"
      "cd_password (remote_candidate ca) = p_password (the_port wb)" "58 \<notin> set (ice_username_fragment (the_port wb))"
      "cd_username (remote_candidate cb) = ice_username_fragment (the_port wa)" "addr_ok ?addr" "GetConnection h' (the_port wb) ?addr = Some kb"
    using assms(1-3) by (simp_all add: joined_def Let_def)
  obtain m rqs r c' wa1 wa2 where a: "Ping h t tid q ka wa = Some wa1" "requests_turn h t ka wa1 = Some wa2"
      "sigs wa2 = sigs wa @ [SendTo (message_bytes m) (cd_address (remote_candidate ca))]" "check_ok (the_port wa) ca tid m"
      "conns wa2 ka = Some c'" "the_port wa2 = the_port wa" "remote_candidate c' = remote_candidate ca"
      "local_candidate (the_port wa) c' = local_candidate (the_port wa) ca" "objects (conn_requests c') q = Some r" "rq_id r = tid" "rq_manager r"
      "msg_type (rq_msg r) = 1"
      "map_option uint32_value (GetUInt32 (rq_msg r) STUN_ATTR_PRIORITY) = map_option (\<lambda>l. prflx_priority (cd_priority l)) (local_candidate (the_port wa) ca)"
      "requests (conn_requests c') = [(tid, q)]"
    by (rule joined_check [OF assms(1,2,4), of h t q])
  have role: "ice_role (the_port wa) \<noteq> ice_role (the_port wb)" using assms(5) by auto
  have go: "MaybeIceRoleConflict h' ?addr m (ice_username_fragment (the_port wa)) wb = Some (True, wb\<lparr>sigs := sigs wb @ []\<rparr>)"
    using no_conflict [OF a(4) j(2) role] by simp
  from accept_check [OF assms(3) j(2) a(4) assms(4) j(3,5,4,6-8) go, of ntop' t' rnd'] obtain reply es where
    b: "OnReadPacket h' ntop' t' rnd' kb (message_bytes m) wb = Some (wb\<lparr>conns := (conns wb)(kb \<mapsto> pinged t' cb), sigs := sigs wb @ [] @ SendTo (message_bytes reply) ?addr # es\<rparr>)"
      "answer_ok (p_password (the_port wb)) tid reply" "uint (msg_type reply) = STUN_BINDING_RESPONSE"
      "map_option GetAddress (Message_GetAddress reply STUN_ATTR_XOR_MAPPED_ADDRESS) = Some ?addr" "set es \<subseteq> insert (SignalUseCandidate kb) (state_changes kb)"
      "(SignalUseCandidate kb \<in> set es) = (ice_role (the_port wb) = ICEROLE_CONTROLLED \<and> ice_role (the_port wa) = ICEROLE_CONTROLLING \<and> use_candidate_attr ca)"
    by blast
  have c: "IsStandardIce (the_port wa2)" "answer_ok (cd_password (remote_candidate c')) tid reply" "map_of (requests (conn_requests c')) tid = Some q"
      "local_candidate (the_port wa2) c' = Some local"
      "map_option uint32_value (GetUInt32 (rq_msg r) STUN_ATTR_PRIORITY) = Some (prflx_priority (cd_priority local))"
    using a j(1,4) b(2) assms(6) by simp_all
  from answer_accepted [OF a(5) c(1,2) assms(4) b(3) c(3) a(9-12) c(4) b(4) c(5), of h ntop t2 rnd] obtain wa3 ca' l es' where
    d: "OnReadPacket h ntop t2 rnd ka (message_bytes reply) wa2 = Some wa3" "conns wa3 ka = Some ca'" "write_state ca' = STATE_WRITABLE"
      "check_state ca' = STATE_SUCCEEDED" "pings_since_last_response ca' = []" "requests (conn_requests ca') = AList.delete tid (requests (conn_requests c'))"
      "local_candidate (the_port wa3) ca' = Some l" "sigs wa3 = sigs wa2 @ es'" "set es' \<subseteq> state_changes ka"
      "if list_ex (\<lambda>cand. SocketAddress_eq h (cd_address cand) ?addr) (candidates (the_port wa2)) then l = local
       else cd_address l = ?addr \<and> cd_priority l = prflx_priority (cd_priority local) \<and> cd_type l = PRFLX_PORT_TYPE \<and> cd_related_address l = cd_address local"
    by blast
  define wb' where "wb' = wb\<lparr>conns := (conns wb)(kb \<mapsto> pinged t' cb), sigs := sigs wb @ [] @ SendTo (message_bytes reply) ?addr # es\<rparr>"
  have b': "OnReadPacket h' ntop' t' rnd' kb (message_bytes m) wb = Some wb'" "conns wb' kb = Some (pinged t' cb)"
      "sigs wb' = sigs wb @ SendTo (message_bytes reply) ?addr # es"
      "(SignalUseCandidate kb \<in> set es) = (ice_role (the_port wa) = ICEROLE_CONTROLLING \<and> use_candidate_attr ca)"
    using b(1,6) assms(5) by (auto simp: wb'_def)
  have d': "requests (conn_requests ca') = []" "SignalRoleConflict \<notin> set (es @ es')" using b(5) d(9) by (auto simp: d(6) a(14))
  have l: "if list_ex (\<lambda>cand. SocketAddress_eq h (cd_address cand) ?addr) (candidates (the_port wa)) then l = local
     else cd_address l = ?addr \<and> cd_priority l = prflx_priority (cd_priority local)"
    using d(10) unfolding a(6) by presburger
  show ?thesis by (intro exI conjI) (rule a(1-3) b' d(1-5) d'(1) d(8) d'(2) d(7) l)+
qed

text \<open>C9: a conflict of roles is settled in one exchange. When both ends have the same role and different tie-breakers, a
  check from one to the other leads to exactly one of them being told to change its role: the other end, which then accepts the check, or
  the first one, by the 487 response to its check. It is the same end whichever of the two asks, and the end with the larger
  tie-breaker is the controlling one afterwards.\<close>

theorem role_conflict_settled:
  assumes "joined h' wa ka wb kb" "conns wa ka = Some ca" "conns wb kb = Some cb" "length tid = 12"
    "ice_role (the_port wa) = role" "ice_role (the_port wb) = role" "role \<noteq> ICEROLE_UNKNOWN"
    "tiebreaker (the_port wa) \<noteq> tiebreaker (the_port wb)"
  shows "\<exists>request reply wa1 wa2 wa3 wb' es es'. Ping h t tid q ka wa = Some wa1 \<and> requests_turn h t ka wa1 = Some wa2 \<and>
    sigs wa2 = sigs wa @ [SendTo request (cd_address (remote_candidate ca))] \<and>
    OnReadPacket h' ntop' t' rnd' kb request wb = Some wb' \<and> sigs wb' = sigs wb @ es \<and> SendTo reply (cd_address (remote_candidate cb)) \<in> set es \<and>
    OnReadPacket h ntop t2 rnd ka reply wa2 = Some wa3 \<and> sigs wa3 = sigs wa2 @ es' \<and>
    (SignalRoleConflict \<in> set es) = gives_way role (tiebreaker (the_port wb)) (tiebreaker (the_port wa)) \<and>
    (SignalRoleConflict \<in> set es') = gives_way role (tiebreaker (the_port wa)) (tiebreaker (the_port wb)) \<and>
    (SignalRoleConflict \<in> set es) \<noteq> (SignalRoleConflict \<in> set es') \<and>
    (tiebreaker (the_port wb) < tiebreaker (the_port wa)) = ((role = ICEROLE_CONTROLLING) = (SignalRoleConflict \<in> set es))"
proof -
  let ?addr = "cd_address (remote_candidate cb)" and ?g = "gives_way role (tiebreaker (the_port wb)) (tiebreaker (the_port wa))"
  have j: "IsStandardIce (the_port wa)" "IsStandardIce (the_port wb)" "cd_username (remote_candidate ca) = ice_username_fragment (the_port wb)"
      "cd_password (remote_candidate ca) = p_password (the_port wb)" "58 \<notin> set (ice_username_fragment (the_port wb))"
      "cd_username (remote_candidate cb) = ice_username_fragment (the_port wa)" "addr_ok ?addr" "GetConnection h' (the_port wb) ?addr = Some kb"
    using assms(1-3) by (simp_all add: joined_def Let_def)
  obtain local where local: "local_candidate (the_port wa) ca = Some local" using assms(1-3) by (auto simp: joined_def Let_def)
  obtain m rqs r c' wa1 wa2 where a: "Ping h t tid q ka wa = Some wa1" "requests_turn h t ka wa1 = Some wa2"
      "sigs wa2 = sigs wa @ [SendTo (message_bytes m) (cd_address (remote_candidate ca))]" "check_ok (the_port wa) ca tid m"
      "conns wa2 ka = Some c'" "the_port wa2 = the_port wa" "remote_candidate c' = remote_candidate ca"
      "local_candidate (the_port wa) c' = local_candidate (the_port wa) ca" "objects (conn_requests c') q = Some r" "rq_id r = tid" "rq_manager r"
      "msg_type (rq_msg r) = 1"
      "map_option uint32_value (GetUInt32 (rq_msg r) STUN_ATTR_PRIORITY) = map_option (\<lambda>l. prflx_priority (cd_priority l)) (local_candidate (the_port wa) ca)"
      "requests (conn_requests c') = [(tid, q)]"
    by (rule joined_check [OF assms(1,2,4), of h t q])
  have same: "ice_role (the_port wa) = ice_role (the_port wb)" "ice_role (the_port wa) \<noteq> ICEROLE_UNKNOWN" using assms(5-7) by simp_all
  note conf = conflict [OF a(4) j(2) same assms(8), of h' ?addr "ice_username_fragment (the_port wa)", unfolded assms(5)]
  have c: "IsStandardIce (the_port wa2)" "cd_password (remote_candidate c') = p_password (the_port wb)" "map_of (requests (conn_requests c')) tid = Some q"
      "local_candidate (the_port wa2) c' = Some local"
      "map_option uint32_value (GetUInt32 (rq_msg r) STUN_ATTR_PRIORITY) = Some (prflx_priority (cd_priority local))"
    using a j(1,4) local by simp_all
  have way: "gives_way role (tiebreaker (the_port wa)) (tiebreaker (the_port wb)) \<longleftrightarrow> \<not> ?g"
    "(tiebreaker (the_port wb) < tiebreaker (the_port wa)) = ((role = ICEROLE_CONTROLLING) = ?g)"
    using assms(7,8) by (cases role; auto simp: gives_way_def)+
  show ?thesis
  proof (cases ?g)
    case True
    then have go: "MaybeIceRoleConflict h' ?addr m (ice_username_fragment (the_port wa)) wb = Some (True, wb\<lparr>sigs := sigs wb @ [SignalRoleConflict]\<rparr>)"
      using conf by (simp add: emit_def)
    from accept_check [OF assms(3) j(2) a(4) assms(4) j(3,5,4,6-8) go, of ntop' t' rnd'] obtain reply es where
      b: "OnReadPacket h' ntop' t' rnd' kb (message_bytes m) wb = Some (wb\<lparr>conns := (conns wb)(kb \<mapsto> pinged t' cb),
          sigs := sigs wb @ [SignalRoleConflict] @ SendTo (message_bytes reply) ?addr # es\<rparr>)"
        "answer_ok (p_password (the_port wb)) tid reply" "uint (msg_type reply) = STUN_BINDING_RESPONSE"
        "map_option GetAddress (Message_GetAddress reply STUN_ATTR_XOR_MAPPED_ADDRESS) = Some ?addr" "set es \<subseteq> insert (SignalUseCandidate kb) (state_changes kb)"
      by blast
    have ok: "answer_ok (cd_password (remote_candidate c')) tid reply" using b(2) c(2) by simp
    from answer_accepted [OF a(5) c(1) ok assms(4) b(3) c(3) a(9-12) c(4) b(4) c(5), of h ntop t2 rnd] obtain wa3 es' where
      d: "OnReadPacket h ntop t2 rnd ka (message_bytes reply) wa2 = Some wa3" "sigs wa3 = sigs wa2 @ es'" "set es' \<subseteq> state_changes ka"
      by blast
    have "SignalRoleConflict \<notin> set es'" using d(3) by auto
    moreover define wb' where "wb' = wb\<lparr>conns := (conns wb)(kb \<mapsto> pinged t' cb), sigs := sigs wb @ [SignalRoleConflict] @ SendTo (message_bytes reply) ?addr # es\<rparr>"
    moreover define es0 where "es0 = [SignalRoleConflict] @ SendTo (message_bytes reply) ?addr # es"
    ultimately have r: "sigs wb' = sigs wb @ es0" "SendTo (message_bytes reply) ?addr \<in> set es0" "(SignalRoleConflict \<in> set es0) = ?g"
        "(SignalRoleConflict \<in> set es') = gives_way role (tiebreaker (the_port wa)) (tiebreaker (the_port wb))"
        "(SignalRoleConflict \<in> set es0) \<noteq> (SignalRoleConflict \<in> set es')"
        "(tiebreaker (the_port wb) < tiebreaker (the_port wa)) = ((role = ICEROLE_CONTROLLING) = (SignalRoleConflict \<in> set es0))"
      using True way by auto
    show ?thesis by (intro exI conjI) (rule a(1-3) b(1) [folded wb'_def] r(1,2) d(1,2) r(3-6))+
  next
    case False
    have m: "msg_tid m = tid" "uint (msg_type m) = STUN_BINDING_REQUEST" using a(4) by (simp_all add: check_ok_def)
    obtain e where e: "SendBindingErrorResponse h' m ?addr STUN_ERROR_ROLE_CONFLICT STUN_ERROR_REASON_ROLE_CONFLICT wb =
        Some (emit (SendTo (message_bytes e) ?addr) wb)" "answer_ok (p_password (the_port wb)) tid e"
        "uint (msg_type e) = STUN_BINDING_ERROR_RESPONSE" "map_option (\<lambda>a. code (at_value a)) (GetErrorCode e) = Some STUN_ERROR_ROLE_CONFLICT"
      using send_conflict_error [OF j(2), of m h' ?addr] m(1) assms(4) by auto
    have b: "OnReadPacket h' ntop' t' rnd' kb (message_bytes m) wb = Some (emit (SendTo (message_bytes e) ?addr) wb)"
      using assms(3) j(2,6) GetStunMessage_check [OF a(4) assms(4) j(2,3,5,4), of h' ?addr] conf False e(1) m(2)
      by (simp add: OnReadPacket_def Let_def)
    have ok: "answer_ok (cd_password (remote_candidate c')) tid e" using e(2) c(2) by simp
    from conflict_reported [OF a(5) c(1) ok assms(4) e(3,4) c(3) a(9-12), of h ntop t2 rnd] obtain wa3 where
      d: "OnReadPacket h ntop t2 rnd ka (message_bytes e) wa2 = Some wa3" "sigs wa3 = sigs wa2 @ [SignalRoleConflict]" by blast
    have r: "sigs (emit (SendTo (message_bytes e) ?addr) wb) = sigs wb @ [SendTo (message_bytes e) ?addr]"
        "SendTo (message_bytes e) ?addr \<in> set [SendTo (message_bytes e) ?addr]" "(SignalRoleConflict \<in> set [SendTo (message_bytes e) ?addr]) = ?g"
        "(SignalRoleConflict \<in> set [SignalRoleConflict]) = gives_way role (tiebreaker (the_port wa)) (tiebreaker (the_port wb))"
        "(SignalRoleConflict \<in> set [SendTo (message_bytes e) ?addr]) \<noteq> (SignalRoleConflict \<in> set [SignalRoleConflict])"
        "(tiebreaker (the_port wb) < tiebreaker (the_port wa)) =
          ((role = ICEROLE_CONTROLLING) = (SignalRoleConflict \<in> set [SendTo (message_bytes e) ?addr]))"
      using False way by (simp_all add: emit_def)
    show ?thesis by (intro exI conjI) (rule a(1-3) b r(1,2) d r(3-6))+
  qed
qed

section \<open>Timeouts\<close>






lemma UpdateState_eq:
  assumes "conns w k = Some c"
  shows "\<exists>es c'. UpdateState now k w = Some (w\<lparr>conns := (conns w)(k \<mapsto> c'), sigs := sigs w @ es\<rparr>) \<and> set es \<subseteq> insert (PostDelete k) (state_changes k) \<and>
    c' = c\<lparr>read_state := read_state c', write_state := write_state c'\<rparr> \<and>
    read_state c' = (if IsGoogleIce (the_port w) \<and> read_state c = STATE_READABLE \<and> last_ping_received c + CONNECTION_READ_TIMEOUT \<le> now \<and>
      last_data_received c + CONNECTION_READ_TIMEOUT \<le> now then STATE_READ_TIMEOUT else read_state c) \<and>
    write_state c' =
      (let long = (\<lambda>ms. TooLongWithoutResponse (pings_since_last_response c) ms now);
           st = (if write_state c = STATE_WRITABLE \<and>
             TooManyFailures (pings_since_last_response c) CONNECTION_WRITE_CONNECT_FAILURES (ConservativeRTTEstimate (rtt c)) now \<and>
             long CONNECTION_WRITE_CONNECT_TIMEOUT then STATE_WRITE_UNRELIABLE else write_state c)
       in if (st = STATE_WRITE_UNRELIABLE \<or> st = STATE_WRITE_INIT) \<and> long CONNECTION_WRITE_TIMEOUT then STATE_WRITE_TIMEOUT else st) \<and>
    (PostDelete k \<in> set es) = ((read_state c', write_state c') \<noteq> (read_state c, write_state c) \<and> read_state c' \<noteq> STATE_READABLE \<and> write_state c' = STATE_WRITE_TIMEOUT) \<and>
    (SignalStateChange k STATE_WRITABLE \<in> set es \<longrightarrow> IsGoogleIce (the_port w))"
proof -
  let ?r = "IsGoogleIce (the_port w) \<and> read_state c = STATE_READABLE \<and> last_ping_received c + CONNECTION_READ_TIMEOUT \<le> now \<and>
      last_data_received c + CONNECTION_READ_TIMEOUT \<le> now"
  let ?long = "\<lambda>ms. TooLongWithoutResponse (pings_since_last_response c) ms now"
  let ?w = "write_state c = STATE_WRITABLE \<and> TooManyFailures (pings_since_last_response c) CONNECTION_WRITE_CONNECT_FAILURES
      (ConservativeRTTEstimate (rtt c)) now \<and> ?long CONNECTION_WRITE_CONNECT_TIMEOUT"
  define c1 where "c1 = (if ?r then c\<lparr>read_state := STATE_READ_TIMEOUT\<rparr> else c)"
  define e1 where "e1 = (if ?r then SignalStateChange k (write_state c) # (if write_state c = STATE_WRITE_TIMEOUT then [PostDelete k] else []) else [])"
  define w1 where "w1 = w\<lparr>conns := (conns w)(k \<mapsto> c1), sigs := sigs w @ e1\<rparr>"
  have id: "w\<lparr>conns := (conns w)(k \<mapsto> c), sigs := sigs w @ []\<rparr> = w" using assms by (cases w) (simp add: fun_upd_idem)
  have 1: "(if ?r then set_read_state k STATE_READ_TIMEOUT w else Some w) = Some w1"
    using set_read_state_eq [OF assms, of STATE_READ_TIMEOUT] id by (auto simp: w1_def c1_def e1_def)
  define c2 where "c2 = (if ?w then c1\<lparr>write_state := STATE_WRITE_UNRELIABLE\<rparr> else c1)"
  define e2 where "e2 = (if ?w then [SignalStateChange k STATE_WRITE_UNRELIABLE] else [])"
  define w2 where "w2 = w1\<lparr>conns := (conns w1)(k \<mapsto> c2), sigs := sigs w1 @ e2\<rparr>"
  have k1: "conns w1 k = Some c1" by (simp add: w1_def)
  have id1: "w1\<lparr>conns := (conns w1)(k \<mapsto> c1), sigs := sigs w1 @ []\<rparr> = w1" using k1 by (cases w1) (simp add: fun_upd_idem)
  have f1: "write_state c1 = write_state c" "pings_since_last_response c1 = pings_since_last_response c" by (simp_all add: c1_def)
  have 2: "(if ?w then set_write_state k STATE_WRITE_UNRELIABLE w1 else Some w1) = Some w2"
    using set_write_state_eq [OF k1, of STATE_WRITE_UNRELIABLE] id1 f1 by (auto simp: w2_def c2_def e2_def)
  have k2: "conns w2 k = Some c2" by (simp add: w2_def)
  have id2: "w2\<lparr>conns := (conns w2)(k \<mapsto> c2), sigs := sigs w2 @ []\<rparr> = w2" using k2 by (cases w2) (simp add: fun_upd_idem)
  have f2: "pings_since_last_response c2 = pings_since_last_response c" by (simp add: c2_def f1)
  let ?t = "(write_state c2 = STATE_WRITE_UNRELIABLE \<or> write_state c2 = STATE_WRITE_INIT) \<and> ?long CONNECTION_WRITE_TIMEOUT"
  define c3 where "c3 = (if ?t then c2\<lparr>write_state := STATE_WRITE_TIMEOUT\<rparr> else c2)"
  define e3 where "e3 = (if ?t then SignalStateChange k STATE_WRITE_TIMEOUT # (if read_state c2 \<noteq> STATE_READABLE then [PostDelete k] else []) else [])"
  have 3: "(if ?t then set_write_state k STATE_WRITE_TIMEOUT w2 else Some w2) = Some (w2\<lparr>conns := (conns w2)(k \<mapsto> c3), sigs := sigs w2 @ e3\<rparr>)"
    using set_write_state_eq [OF k2, of STATE_WRITE_TIMEOUT] id2 by (auto simp: c3_def e3_def)
  have "UpdateState now k w = Some (w2\<lparr>conns := (conns w2)(k \<mapsto> c3), sigs := sigs w2 @ e3\<rparr>)"
    unfolding UpdateState_def Let_def using assms 1 2 3 k1 k2 f1 f2 by simp
  also have "w2\<lparr>conns := (conns w2)(k \<mapsto> c3), sigs := sigs w2 @ e3\<rparr> = w\<lparr>conns := (conns w)(k \<mapsto> c3), sigs := sigs w @ (e1 @ e2 @ e3)\<rparr>"
    by (simp add: w2_def w1_def)
  finally have "UpdateState now k w = Some (w\<lparr>conns := (conns w)(k \<mapsto> c3), sigs := sigs w @ (e1 @ e2 @ e3)\<rparr>)" .
  then show ?thesis
    by (intro exI [of _ "e1 @ e2 @ e3"] exI [of _ c3]) (auto simp: e1_def e2_def e3_def c1_def c2_def c3_def Let_def)
qed


text \<open>The same timers around the wrap of the clock. The sums are compared as plain numbers, so a connection whose first unanswered
  ping was sent less than fifteen seconds before the clock wraps times out at once, in the very millisecond of the ping.\<close>

theorem timeout_at_wrap:
  assumes "conns w k = Some c" "write_state c = STATE_WRITE_INIT" "pings_since_last_response c = now # ps"
    "4294967296 \<le> unat now + 15000"
  shows "\<exists>w' c'. UpdateState now k w = Some w' \<and> conns w' k = Some c' \<and> write_state c' = STATE_WRITE_TIMEOUT"
proof -
  have "unat (now + 15000) = unat now + 15000 - 4294967296"
    using assms(4) unat_lt32 [of now] by (simp add: unat_word_ariths mod_if)
  then have "now + 15000 < now" using unat_lt32 [of now] assms(4) by (simp add: word_less_nat_alt)
  then have "TooLongWithoutResponse (pings_since_last_response c) CONNECTION_WRITE_TIMEOUT now"
    using assms(3) by (simp add: TooLongWithoutResponse_def CONNECTION_WRITE_TIMEOUT_def)
  then show ?thesis using UpdateState_eq [OF assms(1), of now] assms(2) by (auto simp: Let_def)
qed

section \<open>Answers without integrity\<close>

lemma find_integrity_none:
  assumes "list_all (\<lambda>a. attr_ok tid a \<and> uint (at_type a) \<noteq> STUN_ATTR_MESSAGE_INTEGRITY) as" "length pre = 20"
  shows "find_integrity (pre @ attrs_bytes tid as) 20 = None"
  using find_integrity_skips [OF assms(1), of pre "[]"] assms(2) by (simp add: find_integrity.simps)

lemma no_integrity:
  assumes "attrs_ok m" "length_ok m" "length (msg_tid m) = 12" "list_all (\<lambda>a. uint (at_type a) \<noteq> STUN_ATTR_MESSAGE_INTEGRITY) (msg_attrs m)"
  shows "ValidateMessageIntegrity h (message_bytes m) key = Some False"
proof -
  have hd: "length (header_bytes m) = 20" using assms(1) length_header [of m] by (simp add: attrs_ok_def)
  have len: "GetBE16 (mem_read (message_bytes m) 2 2) = msg_length m"
    using mem_read_at [of "be16 (msg_type m)" 2 "be16 (msg_length m)" 2] by (simp add: message_bytes_def header_bytes_def)
  have "list_all (attr_ok (msg_tid m)) (msg_attrs m)" using assms(1) by (auto simp: attrs_ok_def list_all_iff)
  then have "length (attrs_bytes (msg_tid m) (msg_attrs m)) mod 4 = 0" by (rule length_attrs_mod4)
  then have "length (message_bytes m) mod 4 = 0" "length (message_bytes m) = unat (msg_length m) + 20"
    using hd assms(2) by (simp_all add: message_bytes_def length_ok_def) presburger
  moreover have "find_integrity (message_bytes m) 20 = None"
    using find_integrity_none [of "msg_tid m" "msg_attrs m" "header_bytes m"] assms(1,4) hd
    by (auto simp: message_bytes_def attrs_ok_def list_all_iff)
  ultimately show ?thesis using hd by (simp add: ValidateMessageIntegrity_def len kStunHeaderSize_def message_bytes_def Let_def)
qed

lemma fingerprint_alone:
  assumes "attrs_ok m" "length_ok m" "unat (msg_length m) + 8 < 65536" "length (msg_tid m) = 12"
  obtains v where "\<And>h. AddFingerprint h m = Some (True, with_attr (fingerprint_attr v) 8 m)"
    "ValidateFingerprint (message_bytes (with_attr (fingerprint_attr v) 8 m))"
proof -
  let ?A = "attrs_bytes (msg_tid m) (msg_attrs m)"
  define pre where "pre = header_bytes (with_length (msg_length m + 8) m) @ ?A"
  define v where "v = ComputeCrc32 pre XOR STUN_FINGERPRINT_XOR_VALUE"
  have add: "AddFingerprint h m = Some (True, with_attr (fingerprint_attr v) 8 m)" for h
    using AddFingerprint_result [OF assms(1-3), of h] by (simp add: v_def pre_def)
  have hd: "length (header_bytes (with_length (msg_length m + 8) m)) = 20"
    using assms(1) length_header [of "with_length (msg_length m + 8) m"] by (simp add: attrs_ok_def with_length_def)
  have "list_all (attr_ok (msg_tid m)) (msg_attrs m)" using assms(1) by (auto simp: attrs_ok_def list_all_iff)
  then have "length ?A mod 4 = 0" by (rule length_attrs_mod4)
  then have "length pre mod 4 = 0" "20 \<le> length pre" using hd by (simp_all add: pre_def) presburger
  moreover have "mem_read pre 4 4 = be32 kStunMagicCookie"
    using assms(4) mem_read_at [of "be16 (msg_type m) @ be16 (msg_length m + 8)" 4 "be32 kStunMagicCookie" 4]
    by (simp add: pre_def header_bytes_def with_length_def IsLegacy_def kStunLegacyTransactionIdLength_def)
  ultimately have "ValidateFingerprint (pre @ framed (attr_body (msg_tid m)) (fingerprint_attr v))"
    by (subst ValidateFingerprint_spec) (simp_all add: v_def xor.assoc)
  then show thesis using that [OF add] by (simp add: message_bytes_with_attr pre_def)
qed

lemma rejection_ok:
  assumes "IsStandardIce p" "length (msg_tid request) = 12" "n \<in> {STUN_ERROR_BAD_REQUEST, STUN_ERROR_UNAUTHORIZED}"
    "length reason < 65000"
  shows "\<exists>m. error_response h p request n reason = Some m \<and> attrs_ok m \<and> length_ok m \<and> msg_class m = StunClass \<and>
    msg_tid m = msg_tid request \<and> uint (msg_type m) = STUN_BINDING_ERROR_RESPONSE \<and> GetErrorCode m \<noteq> None \<and>
    list_all (\<lambda>a. uint (at_type a) \<noteq> STUN_ATTR_MESSAGE_INTEGRITY) (msg_attrs m) \<and> ValidateFingerprint (message_bytes m)"
proof -
  define m0 where "m0 = answer STUN_BINDING_ERROR_RESPONSE (msg_tid request)"
  define x where "x = SetReason reason (SetCode n CreateErrorCode)"
  note m0 = answer_fields [OF assms(2), of STUN_BINDING_ERROR_RESPONSE, folded m0_def]
  have x: "at_type x = word_of_int STUN_ATTR_ERROR_CODE" "\<exists>num. at_value x = ErrorCodeValue 4 num reason" "unat (at_length x) = 4 + length reason" "SetOwner x = x"
    using assms(3,4) unat_add_word [of 4 "length reason"]
    by (auto simp: x_def SetReason_def SetCode_def CreateErrorCode_def StunErrorCodeAttribute_def SetLength_def MIN_SIZE_def SetOwner_def
        STUN_ERROR_BAD_REQUEST_def STUN_ERROR_UNAUTHORIZED_def)
  have fit: "fits m0 x" using x by (auto simp: fits_def m0 attr_simps attr_ok_def)
  have "good 0 m0" using assms(2)
    by (simp add: good_def m0 attrs_ok_def length_ok_def attrs_bytes_def IsValidTransactionId_def kStunTransactionIdLength_def)
  from good_add [OF this fit] x(3) assms(4) have g: "attrs_ok (add x m0)" "length_ok (add x m0)" "unat (msg_length (add x m0)) + 8 < 65536"
    by (simp_all add: good_def)
  have "length (msg_tid (add x m0)) = 12" by (simp add: m0 assms(2))
  from fingerprint_alone [OF g this] obtain v where v: "AddFingerprint h (add x m0) = Some (True, with_attr (fingerprint_attr v) 8 (add x m0))"
      "ValidateFingerprint (message_bytes (with_attr (fingerprint_attr v) 8 (add x m0)))" by blast
  have "error_response h p request n reason = Some (with_attr (fingerprint_attr v) 8 (add x m0))"
    using assms(1,3) v(1) unfolding error_response_def Let_def m0_def [symmetric] by (auto simp: x_def)
  moreover have "attrs_ok (with_attr (fingerprint_attr v) 8 (add x m0))" "length_ok (with_attr (fingerprint_attr v) 8 (add x m0))"
    using fingerprint_room [OF g] by auto
  ultimately show ?thesis using add_attrs [OF fit] m0 x(1,4) v(2)
    by (intro exI [of _ "with_attr (fingerprint_attr v) 8 (add x m0)"])
      (simp add: with_attr_def GetErrorCode_def GetAttribute_def attr_simps, simp add: ice_constants STUN_BINDING_ERROR_RESPONSE_def)
qed

text \<open>C40: refusals are not heard. With RFC 5245 the answers 400 and 401 carry no integrity attribute, and the connection that asked
  accepts no answer without one: it drops the packet and changes nothing, so its branch for these codes is never reached, and
  a check with the wrong password is not told from a lost one.\<close>

theorem refusal_not_heard:
  assumes "IsStandardIce p" "length (msg_tid request) = 12" "n \<in> {STUN_ERROR_BAD_REQUEST, STUN_ERROR_UNAUTHORIZED}" "length reason < 65000"
    "conns w k = Some c" "IsStandardIce (the_port w)"
  shows "\<exists>m b. error_response h p request n reason = Some m \<and> Message_Write h m ByteBuffer_new = Some (True, b) \<and>
    OnReadPacket h' ntop now rnd k (Contents b) w = Some w"
proof -
  obtain m where m: "error_response h p request n reason = Some m" "attrs_ok m" "length_ok m" "msg_class m = StunClass" "msg_tid m = msg_tid request"
      "uint (msg_type m) = STUN_BINDING_ERROR_RESPONSE" "GetErrorCode m \<noteq> None" "list_all (\<lambda>a. uint (at_type a) \<noteq> STUN_ATTR_MESSAGE_INTEGRITY) (msg_attrs m)"
      "ValidateFingerprint (message_bytes m)"
    using rejection_ok [OF assms(1-4), of h] by blast
  obtain b where b: "Message_Write h m ByteBuffer_new = Some (True, b)" "Contents b = message_bytes (as_ice m)" using written [OF m(2)] by auto
  have ice: "attrs_ok (as_ice m)" "length_ok (as_ice m)" using as_ice_ok [OF m(2-4)] .
  have tid: "length (msg_tid (as_ice m)) = 12" using m(5) assms(2) by simp
  have bad: "ValidateMessageIntegrity h' (message_bytes (as_ice m)) (cd_password (remote_candidate c)) = Some False"
    using no_integrity [OF ice tid] m(8) by simp
  have ty: "msg_type m AND 0x8000 = 0" using m(6) by (simp add: binding_types)
  obtain b' where b': "Message_Read h' (StunMessage_new IceClass) (ByteBuffer_of (message_bytes (as_ice m))) = (True, as_ice m, b')" "Length b' = 0"
    using read_message [OF ice _ tid, of h'] ty by auto
  have e: "GetErrorCode (as_ice m) = GetErrorCode m" by (simp add: GetErrorCode_def GetAttribute_def)
  have get: "GetStunMessage h' (message_bytes (as_ice m)) addr w = Some ((True, Some (as_ice m), []), w)" for addr
    using b' m(6,7,9) e by (auto simp: GetStunMessage_def Let_def STUN_BINDING_REQUEST_def STUN_BINDING_RESPONSE_def STUN_BINDING_ERROR_RESPONSE_def)
  have "OnReadPacket h' ntop now rnd k (Contents b) w = Some w"
    unfolding b(2) using get bad assms(5,6) m(6)
    by (simp add: OnReadPacket_def Let_def IsGoogleIce_def IsStandardIce_def STUN_BINDING_REQUEST_def STUN_BINDING_RESPONSE_def STUN_BINDING_ERROR_RESPONSE_def)
  then show ?thesis using m(1) b(1) by blast
qed

section \<open>Hybrid ports\<close>

lemma table_distinct: "distinct (Base64Table @ [0])" "length Base64Table = 64"
  by (simp_all add: Base64Table_def)

lemma position_Some: "position ch xs = Some p \<Longrightarrow> p < length xs \<and> xs ! p = ch"
  by (induction xs arbitrary: p) (auto split: if_splits)

lemma position_None: "position ch xs = None \<longleftrightarrow> ch \<notin> set xs"
  by (induction xs) auto

lemma next_char_differs:
  assumes "ch \<in> set Base64Table"
  shows "\<exists>d. GetNextBase64Char ch = Some (Some d) \<and> d \<noteq> ch"
proof -
  let ?T = "Base64Table @ [0]"
  have dist: "i < 65 \<Longrightarrow> j < 65 \<Longrightarrow> ?T ! i = ?T ! j \<longleftrightarrow> i = j" for i j
    using nth_eq_iff_index_eq [OF table_distinct(1)] table_distinct(2) by simp
  obtain p where p: "position ch ?T = Some p" using assms position_None [of ch ?T] by auto
  then have q: "p < 65" "?T ! p = ch" using position_Some [OF p] table_distinct(2) by auto
  have zero: "?T ! 64 = 0" by (simp add: nth_append table_distinct(2))
  have "ch \<noteq> 0" using assms table_distinct(1) by auto
  then have p64: "p < 64" using q zero by (cases "p = 64") auto
  define d where "d = (let q = ?T ! (p + 1) in if q \<noteq> 0 then q else Base64Table ! 0)"
  have "GetNextBase64Char ch = Some (Some d)" using p p64 table_distinct(2) by (simp add: GetNextBase64Char_def d_def Let_def)
  moreover have "d \<noteq> ch"
  proof (cases "p + 1 < 64")
    case True
    then show ?thesis using dist [of "p + 1" 64] dist [of "p + 1" p] zero q p64 by (simp add: d_def Let_def)
  next
    case False
    then have "?T ! (p + 1) = 0" using p64 zero by (simp add: less_Suc_eq eval_nat_numeral)
    then show ?thesis using dist [of 0 p] q p64 False table_distinct(2) by (auto simp: d_def nth_append)
  qed
  ultimately show ?thesis by blast
qed

lemma rtcp_fragment_differs:
  assumes "uf \<noteq> []" "last uf \<in> set Base64Table"
  shows "\<exists>uf'. GetRtcpUfragFromRtpUfrag uf = Some uf' \<and> uf' \<noteq> uf"
  using next_char_differs [OF assms(2)] assms(1) by (auto simp: GetRtcpUfragFromRtpUfrag_def) (metis last_snoc)

lemma hybrid_rejection:
  assumes "IsHybridIce p" "length (msg_tid request) = 12" "length reason < 65000"
  shows "\<exists>m. error_response h p request n reason = Some m \<and> attrs_ok m \<and> GetErrorCode m \<noteq> None \<and>
    list_all (\<lambda>a. at_value a = ErrorCodeValue 0 0 reason) (msg_attrs m)"
proof -
  define m0 where "m0 = answer STUN_BINDING_ERROR_RESPONSE (msg_tid request)"
  define x where "x = SetReason reason CreateErrorCode"
  note m0 = answer_fields [OF assms(2), of STUN_BINDING_ERROR_RESPONSE, folded m0_def]
  have x: "at_type x = word_of_int STUN_ATTR_ERROR_CODE" "at_value x = ErrorCodeValue 0 0 reason" "unat (at_length x) = 4 + length reason" "SetOwner x = x"
    using assms(3) unat_add_word [of 4 "length reason"]
    by (auto simp: x_def SetReason_def CreateErrorCode_def StunErrorCodeAttribute_def SetLength_def MIN_SIZE_def SetOwner_def)
  have fit: "fits m0 x" using x by (auto simp: fits_def m0 attr_simps attr_ok_def)
  have "good 0 m0" using assms(2)
    by (simp add: good_def m0 attrs_ok_def length_ok_def attrs_bytes_def IsValidTransactionId_def kStunTransactionIdLength_def)
  from good_add [OF this fit] x(3) assms(3) have "attrs_ok (add x m0)" by (simp add: good_def)
  moreover have "error_response h p request n reason = Some (add x m0)"
    using assms(1) unfolding error_response_def Let_def m0_def [symmetric]
    by (simp add: x_def IsHybridIce_def IsStandardIce_def IsGoogleIce_def)
  ultimately show ?thesis using add_attrs [OF fit] x(1,2,4) m0(3) by (simp add: GetErrorCode_def GetAttribute_def attr_simps)
qed

text \<open>C36: a port that does not know the protocol yet. A check of a peer with RFC 5245 that has the right fragment and password makes the
  hybrid port of the RTP component a standard one and is accepted. The same check at the RTCP component is refused, because there the port
  compares the fragment with the one that only Google's protocol gives RTCP; it stays hybrid, and the refusal has the error code 0.\<close>

theorem hybrid_port_detects:
  assumes "check_ok pa ca tid m" "length tid = 12" "IsHybridIce (the_port w)"
    "cd_username (remote_candidate ca) = ice_username_fragment (the_port w)" "58 \<notin> set (ice_username_fragment (the_port w))"
    "cd_password (remote_candidate ca) = p_password (the_port w)" "ice_username_fragment (the_port w) \<noteq> []"
    "last (ice_username_fragment (the_port w)) \<in> set Base64Table"
  shows "if p_component (the_port w) \<noteq> ICE_CANDIDATE_COMPONENT_RTCP
    then GetStunMessage h (message_bytes m) addr w =
      Some ((True, Some m, ice_username_fragment pa), w\<lparr>the_port := SetIceProtocolType ICEPROTO_RFC5245 (the_port w)\<rparr>)
    else \<exists>e b. GetStunMessage h (message_bytes m) addr w = Some ((True, None, []), emit (SendTo (Contents b) addr) w) \<and>
      Message_Write h e ByteBuffer_new = Some (True, b) \<and> map_option (\<lambda>a. code (at_value a)) (GetErrorCode e) = Some 0"
proof -
  let ?uf = "ice_username_fragment (the_port w)"
  have m: "attrs_ok m" "length_ok m" "msg_class m = IceClass" "msg_type m = 1" "length (msg_tid m) = 12"
      "ValidateMessageIntegrity h (message_bytes m) (p_password (the_port w)) = Some True"
    using assms(1,2,6) by (simp_all add: check_ok_def binding_types)
  obtain a where a: "GetByteString m STUN_ATTR_USERNAME = Some a" "GetString a = ?uf @ [58] @ ice_username_fragment pa"
    using assms(1,4) by (auto simp: check_ok_def)
  obtain b where b: "Message_Read h (StunMessage_new IceClass) (ByteBuffer_of (message_bytes m)) = (True, m, b)" "Length b = 0"
    using read_message [OF m(1-3,5), of h] m(4) by auto
  have parse: "ParseStunUsername (the_port w) m = Some (Some (?uf, ice_username_fragment pa, ICEPROTO_RFC5245))"
    using assms(3) position_colon [OF assms(5), of "ice_username_fragment pa"] by (simp add: ParseStunUsername_def a Let_def)
  have std: "\<not> IsStandardIce (the_port w)" using assms(3) by (simp add: IsHybridIce_def IsStandardIce_def)
  have ty: "uint (msg_type m) = STUN_BINDING_REQUEST" by (simp add: m(4) STUN_BINDING_REQUEST_def)
  show ?thesis
  proof (cases "p_component (the_port w) = ICE_CANDIDATE_COMPONENT_RTCP")
    case False
    then have "username_fragment (the_port w) = Some ?uf" by (simp add: username_fragment_def)
    moreover have "IsStandardIce (SetIceProtocolType ICEPROTO_RFC5245 (the_port w))" by (simp add: IsStandardIce_def SetIceProtocolType_def)
    moreover have "p_password (SetIceProtocolType ICEPROTO_RFC5245 (the_port w)) = p_password (the_port w)" by (simp add: SetIceProtocolType_def)
    ultimately show ?thesis using False assms(3) std m(6) a(1) b parse ty by (simp add: GetStunMessage_def Let_def)
  next
    case True
    obtain uf' where uf': "username_fragment (the_port w) = Some uf'" "uf' \<noteq> ?uf"
      using rtcp_fragment_differs [OF assms(7,8)] True std by (auto simp: username_fragment_def)
    have r: "length STUN_ERROR_REASON_UNAUTHORIZED < 65000" by (simp add: STUN_ERROR_REASON_UNAUTHORIZED_def string_bytes_def)
    obtain e where e: "error_response h (the_port w) m STUN_ERROR_UNAUTHORIZED STUN_ERROR_REASON_UNAUTHORIZED = Some e" "attrs_ok e"
        "GetErrorCode e \<noteq> None" "list_all (\<lambda>a. at_value a = ErrorCodeValue 0 0 STUN_ERROR_REASON_UNAUTHORIZED) (msg_attrs e)"
      using hybrid_rejection [OF assms(3) m(5) r, of h STUN_ERROR_UNAUTHORIZED] by blast
    obtain be where be: "Message_Write h e ByteBuffer_new = Some (True, be)" using written [OF e(2)] by blast
    have "GetStunMessage h (message_bytes m) addr w = Some ((True, None, []), emit (SendTo (Contents be) addr) w)"
      using std a(1) b parse ty uf' e(1) be by (simp add: GetStunMessage_def SendBindingErrorResponse_def Let_def)
    moreover have "map_option (\<lambda>a. code (at_value a)) (GetErrorCode e) = Some 0"
      using e(3,4) by (auto simp: GetErrorCode_def GetAttribute_def list_all_iff find_Some_iff code_def)
    ultimately show ?thesis using True be by auto
  qed
qed

end
