(* ===== verification/Ice_Examples.thy ===== *)
theory Ice_Examples
  imports Ice_Props
begin

text \<open>Two ends that have exchanged their candidates, on which the properties of connections are applied.\<close>

definition sample_addr :: "byte \<Rightarrow> socket_address" where
  "sample_addr n = SocketAddress_ip (IPAddress_v4 [10, 0, 0, n]) 5000"

definition sample_connection :: "byte \<Rightarrow> Connection" where
  "sample_connection peer = Connection_new 0 (Candidate_new\<lparr>cd_component := 1, cd_address := sample_addr peer, cd_priority := 5,
     cd_username := [97, peer], cd_password := [112, peer]\<rparr>)"

definition sample_end :: "IceRole \<Rightarrow> u64 \<Rightarrow> byte \<Rightarrow> byte \<Rightarrow> ice_world" where
  "sample_end role tb own peer =
     \<lparr>the_port = (SetIceTiebreaker tb (SetIceRole role (SetIceProtocolType ICEPROTO_RFC5245
        (Port_new ''local'' 2 ''eth0'' (IPAddress_v4 [10, 0, 0, own]) 0 0 [97, own] [112, own] False [] []))))
        \<lparr>candidates := [Candidate_new\<lparr>cd_component := 1, cd_address := sample_addr own, cd_priority := 7\<rparr>],
         connections := [(sample_addr peer, 1)]\<rparr>,
      conns = [1 \<mapsto> sample_connection peer], sigs = []\<rparr>"

lemma sample_port [simp]:
  "ice_role (the_port (sample_end role tb own peer)) = role" "tiebreaker (the_port (sample_end role tb own peer)) = tb"
  "ice_protocol (the_port (sample_end role tb own peer)) = ICEPROTO_RFC5245"
  "ice_username_fragment (the_port (sample_end role tb own peer)) = [97, own]"
  "p_password (the_port (sample_end role tb own peer)) = [112, own]"
  "connections (the_port (sample_end role tb own peer)) = [(sample_addr peer, 1)]"
  "conns (sample_end role tb own peer) = [1 \<mapsto> sample_connection peer]"
  "sigs (sample_end role tb own peer) = []"
  by (simp_all add: sample_end_def Port_new_def Port_Construct_def SetIceTiebreaker_def SetIceRole_def SetIceProtocolType_def)

lemma sample_candidate [simp]:
  "local_candidate (the_port (sample_end role tb own peer)) (sample_connection peer) =
     Some (Candidate_new\<lparr>cd_component := 1, cd_address := sample_addr own, cd_priority := 7\<rparr>)"
  by (simp add: local_candidate_def sample_end_def sample_connection_def Connection_new_def)

lemma sample_remote [simp]:
  "cd_username (remote_candidate (sample_connection peer)) = [97, peer]" "cd_password (remote_candidate (sample_connection peer)) = [112, peer]"
  "cd_address (remote_candidate (sample_connection peer)) = sample_addr peer" "idle (conn_requests (sample_connection peer))"
  "write_state (sample_connection peer) = STATE_WRITE_INIT"
  by (simp_all add: sample_connection_def Connection_new_def idle_def stun_world_new_def MessageQueue_new_def)

lemma sample_addr_ok: "addr_ok (sample_addr n)"
  by (simp add: sample_addr_def addr_ok_def SocketAddress_ip_def SetPort_def SetIP_def SocketAddress_nil_def)

lemma less_irrefl_sample: "\<not> SocketAddress_less h (sample_addr n) (sample_addr n)"
  by (simp add: sample_addr_def SocketAddress_less_def SocketAddress_ip_def IPAddress_v4_def IPAddress_less_def SetPort_def SetIP_def SocketAddress_nil_def)

lemma sample_joined:
  "joined h (sample_end ra ta 1 2) 1 (sample_end rb tb 2 1) 1"
  by (simp add: joined_def IsStandardIce_def names_fit_def sample_addr_ok GetConnection_def same_key_def less_irrefl_sample)

theorem connectivity_check_completes_witness:
  "\<exists>reply wa1 wa2 wa3 ca'. Ping True 100 (replicate 12 7) 3 1 (sample_end ICEROLE_CONTROLLING 5 1 2) = Some wa1 \<and>
    requests_turn True 100 1 wa1 = Some wa2 \<and> OnReadPacket True (\<lambda>_ _. None) 150 [] 1 reply wa2 = Some wa3 \<and>
    conns wa3 1 = Some ca' \<and> write_state ca' = STATE_WRITABLE"
proof -
  let ?a = "sample_end ICEROLE_CONTROLLING 5 1 2" and ?b = "sample_end ICEROLE_CONTROLLED 9 2 1"
  have c: "length (replicate 12 7 :: byte list) = 12" "conns ?a 1 = Some (sample_connection 2)" "conns ?b 1 = Some (sample_connection 1)"
    "(ice_role (the_port ?a), ice_role (the_port ?b)) \<in> {(ICEROLE_CONTROLLING, ICEROLE_CONTROLLED), (ICEROLE_CONTROLLED, ICEROLE_CONTROLLING)}"
    by simp_all
  from connectivity_check_completes [where h = True and h' = False and t = 100 and q = 3 and ntop = "\<lambda>_ _. None" and ?t2.0 = 150 and rnd = "[]",
      OF sample_joined c(2,3,1,4) sample_candidate]
  show ?thesis by blast
qed

theorem role_conflict_settled_witness:
  "\<exists>reply wa1 wa2 wa3 es'. Ping True 100 (replicate 12 7) 3 1 (sample_end ICEROLE_CONTROLLING 5 1 2) = Some wa1 \<and>
    requests_turn True 100 1 wa1 = Some wa2 \<and> OnReadPacket True (\<lambda>_ _. None) 150 [] 1 reply wa2 = Some wa3 \<and>
    sigs wa3 = sigs wa2 @ es' \<and> SignalRoleConflict \<in> set es'"
proof -
  let ?a = "sample_end ICEROLE_CONTROLLING 5 1 2" and ?b = "sample_end ICEROLE_CONTROLLING 9 2 1"
  have c: "length (replicate 12 7 :: byte list) = 12" "conns ?a 1 = Some (sample_connection 2)" "conns ?b 1 = Some (sample_connection 1)"
    "ice_role (the_port ?a) = ICEROLE_CONTROLLING" "ice_role (the_port ?b) = ICEROLE_CONTROLLING" "ICEROLE_CONTROLLING \<noteq> ICEROLE_UNKNOWN"
    "tiebreaker (the_port ?a) \<noteq> tiebreaker (the_port ?b)" "gives_way ICEROLE_CONTROLLING (tiebreaker (the_port ?a)) (tiebreaker (the_port ?b))"
    by (simp_all add: gives_way_def)
  from role_conflict_settled [where h = True and h' = False and t = 100 and q = 3 and ntop = "\<lambda>_ _. None" and ?t2.0 = 150 and rnd = "[]",
      OF sample_joined c(2,3,1,4-7)]
  show ?thesis using c(8) by blast
qed

definition waiting_end :: "u32 list \<Rightarrow> ice_world" where
  "waiting_end ps = put 1 ((sample_connection 2)\<lparr>pings_since_last_response := ps\<rparr>) (sample_end ICEROLE_CONTROLLING 5 1 2)"

lemma waiting_end_connection:
  "conns (waiting_end ps) 1 = Some ((sample_connection 2)\<lparr>pings_since_last_response := ps\<rparr>)" "the_port (waiting_end ps) = the_port (sample_end ICEROLE_CONTROLLING 5 1 2)"
  by (simp_all add: waiting_end_def put_def)


theorem timeout_at_wrap_witness:
  "\<exists>w' c'. UpdateState 4294960000 1 (waiting_end [4294960000]) = Some w' \<and> conns w' 1 = Some c' \<and> write_state c' = STATE_WRITE_TIMEOUT"
  using timeout_at_wrap [OF waiting_end_connection(1) [of "[4294960000]"], of 4294960000 "[]"] by simp

theorem refusal_not_heard_witness:
  "\<exists>m b. error_response True (the_port (sample_end ICEROLE_CONTROLLED 9 2 1)) (answer STUN_BINDING_REQUEST (replicate 12 7)) STUN_ERROR_UNAUTHORIZED
      STUN_ERROR_REASON_UNAUTHORIZED = Some m \<and> Message_Write True m ByteBuffer_new = Some (True, b) \<and>
    OnReadPacket False (\<lambda>_ _. None) 150 [] 1 (Contents b) (sample_end ICEROLE_CONTROLLING 5 1 2) = Some (sample_end ICEROLE_CONTROLLING 5 1 2)"
proof -
  let ?a = "sample_end ICEROLE_CONTROLLING 5 1 2" and ?b = "sample_end ICEROLE_CONTROLLED 9 2 1"
  have c: "IsStandardIce (the_port ?b)" "length (msg_tid (answer STUN_BINDING_REQUEST (replicate 12 7))) = 12"
    "STUN_ERROR_UNAUTHORIZED \<in> {STUN_ERROR_BAD_REQUEST, STUN_ERROR_UNAUTHORIZED}" "length STUN_ERROR_REASON_UNAUTHORIZED < 65000"
    "conns ?a 1 = Some (sample_connection 2)" "IsStandardIce (the_port ?a)"
    using answer_fields [of "replicate 12 7" STUN_BINDING_REQUEST] by (simp_all add: IsStandardIce_def STUN_ERROR_REASON_UNAUTHORIZED_def string_bytes_def)
  from refusal_not_heard [OF c] show ?thesis by blast
qed

definition hybrid_end :: "int \<Rightarrow> ice_world" where
  "hybrid_end component = (sample_end ICEROLE_CONTROLLED 9 98 97)
     \<lparr>the_port := SetIceProtocolType ICEPROTO_HYBRID ((the_port (sample_end ICEROLE_CONTROLLED 9 98 97))\<lparr>p_component := component\<rparr>)\<rparr>"

text \<open>The fragments are \<open>aa\<close> and \<open>ab\<close>.\<close>

theorem hybrid_port_detects_witness:
  "\<exists>data m w' w''. GetStunMessage True data (sample_addr 97) (hybrid_end 1) = Some ((True, Some m, [97, 97]), w') \<and> IsStandardIce (the_port w') \<and>
    GetStunMessage True data (sample_addr 97) (hybrid_end 2) = Some ((True, None, []), w'') \<and> the_port w'' = the_port (hybrid_end 2)"
proof -
  let ?a = "sample_end ICEROLE_CONTROLLING 5 97 98"
  have "IsStandardIce (the_port ?a)" "names_fit (the_port ?a) (sample_connection 98)" "length (replicate 12 7 :: byte list) = 12"
    by (simp_all add: IsStandardIce_def names_fit_def)
  from Prepare_check [OF this(1) sample_candidate this(2,3), of True] obtain m where m: "check_ok (the_port ?a) (sample_connection 98) (replicate 12 7) (fill m)" by blast
  have f: "ice_username_fragment (the_port (hybrid_end n)) = [97, 98]" "p_password (the_port (hybrid_end n)) = [112, 98]" "IsHybridIce (the_port (hybrid_end n))"
      "p_component (the_port (hybrid_end n)) = n" for n
    by (simp_all add: hybrid_end_def SetIceProtocolType_def IsHybridIce_def)
  have h: "length (replicate 12 7 :: byte list) = 12" "cd_username (remote_candidate (sample_connection 98)) = ice_username_fragment (the_port (hybrid_end n))"
      "58 \<notin> set (ice_username_fragment (the_port (hybrid_end n)))" "cd_password (remote_candidate (sample_connection 98)) = p_password (the_port (hybrid_end n))"
      "ice_username_fragment (the_port (hybrid_end n)) \<noteq> []" "last (ice_username_fragment (the_port (hybrid_end n))) \<in> set Base64Table" for n
    by (simp_all add: f Base64Table_def)
  from hybrid_port_detects [OF m h(1) f(3) h(2-6), of 1 True "sample_addr 97"] hybrid_port_detects [OF m h(1) f(3) h(2-6), of 2 True "sample_addr 97"]
  show ?thesis unfolding f
    by (intro exI [of _ "message_bytes (fill m)"] exI [of _ "fill m"]) (auto simp: ICE_CANDIDATE_COMPONENT_RTCP_def IsStandardIce_def SetIceProtocolType_def emit_def)
qed

end
