(* ===== verification/Ice_Frame.thy ===== *)
theory Ice_Frame
  imports Ice_Props
begin

text \<open>
  What the operations of ports and connections leave alone: the relation \<open>frame\<close> holds between the states before and after
  all of them except the creation and the deletion of connections, and the collection \<open>framed\<close> has the rule of each.
\<close>

named_theorems framed

definition refers :: "ice_event \<Rightarrow> nat option" where
  "refers e =
     (case e of
        SignalStateChange k _ \<Rightarrow> Some k | SignalUseCandidate k \<Rightarrow> Some k | SignalReadPacket k _ \<Rightarrow> Some k
      | SignalReadyToSend k \<Rightarrow> Some k | SignalConnectionDestroyed k \<Rightarrow> Some k | SignalConnectionCreated k \<Rightarrow> Some k
      | PostDelete k \<Rightarrow> Some k | _ \<Rightarrow> None)"

definition mild :: "(nat \<rightharpoonup> Connection) \<Rightarrow> ice_event \<Rightarrow> bool" where
  "mild m e \<longleftrightarrow> (\<forall>k. refers e = Some k \<longrightarrow> m k \<noteq> None) \<and> (\<forall>k. e \<noteq> SignalConnectionDestroyed k) \<and> e \<noteq> SignalPortDestroyed"

text \<open>What no operation on a connection changes in it.\<close>

definition same_conn :: "Port \<Rightarrow> Connection \<Rightarrow> Port \<Rightarrow> Connection \<Rightarrow> bool" where
  "same_conn p c p' c' \<longleftrightarrow> remote_candidate c' = remote_candidate c \<and> connected c' = connected c \<and>
     (local_candidate p c \<noteq> None \<longrightarrow> local_candidate p' c' \<noteq> None)"

definition same_port :: "Port \<Rightarrow> Port \<Rightarrow> bool" where
  "same_port p p' \<longleftrightarrow> (\<exists>cs proto. p' = p\<lparr>candidates := candidates p @ cs, ice_protocol := proto\<rparr> \<and>
     (ice_protocol p \<noteq> ICEPROTO_HYBRID \<longrightarrow> proto = ice_protocol p))"

definition frame :: "ice_world \<Rightarrow> ice_world \<Rightarrow> bool" where
  "frame w w' \<longleftrightarrow> same_port (the_port w) (the_port w') \<and> dom (conns w') = dom (conns w) \<and>
     (\<forall>k c c'. conns w k = Some c \<longrightarrow> conns w' k = Some c' \<longrightarrow> same_conn (the_port w) c (the_port w') c') \<and>
     (\<exists>es. sigs w' = sigs w @ es \<and> list_all (mild (conns w)) es)"

lemma same_port_refl [simp]: "same_port p p"
  by (auto simp: same_port_def intro!: exI [of _ "[]"] exI [of _ "ice_protocol p"])

lemma same_port_fields:
  assumes "same_port p p'"
  shows "connections p' = connections p" "network_name p' = network_name p" "p_generation p' = p_generation p"
    "ice_role p' = ice_role p" "tiebreaker p' = tiebreaker p" "p_ip p' = p_ip p" "shared_socket p' = shared_socket p"
    "ice_username_fragment p' = ice_username_fragment p" "p_password p' = p_password p"
    "ice_protocol p \<noteq> ICEPROTO_HYBRID \<Longrightarrow> ice_protocol p' = ice_protocol p" "\<exists>cs. candidates p' = candidates p @ cs"
  using assms by (auto simp: same_port_def)

lemma same_port_trans: "same_port p q \<Longrightarrow> same_port q r \<Longrightarrow> same_port p r"
  unfolding same_port_def
proof (elim exE conjE)
  fix cs proto cs' proto'
  assume "q = p\<lparr>candidates := candidates p @ cs, ice_protocol := proto\<rparr>" "ice_protocol p \<noteq> ICEPROTO_HYBRID \<longrightarrow> proto = ice_protocol p"
    "r = q\<lparr>candidates := candidates q @ cs', ice_protocol := proto'\<rparr>" "ice_protocol q \<noteq> ICEPROTO_HYBRID \<longrightarrow> proto' = ice_protocol q"
  then show "\<exists>cs proto. r = p\<lparr>candidates := candidates p @ cs, ice_protocol := proto\<rparr> \<and>
      (ice_protocol p \<noteq> ICEPROTO_HYBRID \<longrightarrow> proto = ice_protocol p)"
    by (intro exI [of _ "cs @ cs'"] exI [of _ proto']) auto
qed

lemma frame_refl [simp, framed]: "frame w w"
  by (auto simp: frame_def same_conn_def intro: exI [of _ "[]"])

lemma mild_dom: "dom m = dom m' \<Longrightarrow> mild m = mild m'"
  by (auto simp: mild_def dom_def fun_eq_iff set_eq_iff)

lemma frame_trans: "frame u v \<Longrightarrow> frame v w \<Longrightarrow> frame u w"
  unfolding frame_def
proof (intro conjI; (elim conjE exE)?)
  fix es fs
  assume p: "same_port (the_port u) (the_port v)" "same_port (the_port v) (the_port w)"
    and d: "dom (conns v) = dom (conns u)" "dom (conns w) = dom (conns v)"
    and c: "\<forall>k c c'. conns u k = Some c \<longrightarrow> conns v k = Some c' \<longrightarrow> same_conn (the_port u) c (the_port v) c'"
      "\<forall>k c c'. conns v k = Some c \<longrightarrow> conns w k = Some c' \<longrightarrow> same_conn (the_port v) c (the_port w) c'"
    and e: "sigs v = sigs u @ es" "list_all (mild (conns u)) es" "sigs w = sigs v @ fs" "list_all (mild (conns v)) fs"
  show "same_port (the_port u) (the_port w)" using p by (rule same_port_trans)
  show "dom (conns w) = dom (conns u)" using d by simp
  show "\<forall>k c c'. conns u k = Some c \<longrightarrow> conns w k = Some c' \<longrightarrow> same_conn (the_port u) c (the_port w) c'"
  proof (intro allI impI)
    fix k a b assume k: "conns u k = Some a" "conns w k = Some b"
    then have "k \<in> dom (conns v)" using d by auto
    then obtain m where "conns v k = Some m" by blast
    with k c have "same_conn (the_port u) a (the_port v) m" "same_conn (the_port v) m (the_port w) b" by blast+
    then show "same_conn (the_port u) a (the_port w) b" by (simp add: same_conn_def)
  qed
  have "mild (conns v) = mild (conns u)" using d(1) by (rule mild_dom)
  then show "\<exists>es. sigs w = sigs u @ es \<and> list_all (mild (conns u)) es" using e by (intro exI [of _ "es @ fs"]) simp
qed

text \<open>The steps that operations are made of.\<close>

lemma frame_put [framed]:
  assumes "conns w k = Some c" "same_conn (the_port w) c (the_port w) c'"
  shows "frame w (put k c' w)"
  using assms by (auto simp: frame_def put_def same_conn_def intro: exI [of _ "[]"])

lemma frame_emit [framed]: "mild (conns w) e \<Longrightarrow> frame w (emit e w)"
  by (auto simp: frame_def emit_def same_conn_def)

lemma frame_emit_after: "frame w v \<Longrightarrow> mild (conns v) e \<Longrightarrow> frame w (emit e v)"
  using frame_trans frame_emit by blast

lemma frame_emit_then: "frame (emit e w) w' \<Longrightarrow> mild (conns w) e \<Longrightarrow> frame w w'"
  using frame_trans frame_emit by blast

lemma same_conn_upd:
  "remote_candidate c' = remote_candidate c \<Longrightarrow> connected c' = connected c \<Longrightarrow> local_candidate_index c' = local_candidate_index c \<Longrightarrow>
   same_conn p c p c'"
  by (simp add: same_conn_def local_candidate_def)

lemma mild_send [simp]: "mild m (SendTo b a)" "mild m (SignalPortReadPacket b a)" "mild m (SignalUnknownAddress a pr msg uf)"
    "mild m SignalRoleConflict" "mild m (SignalCandidateReady cand)" "mild m SignalPortComplete"
  by (simp_all add: mild_def refers_def)

lemma mild_conn [simp]: "mild m (SignalStateChange k st) = (m k \<noteq> None)" "mild m (SignalUseCandidate k) = (m k \<noteq> None)"
    "mild m (SignalReadPacket k b) = (m k \<noteq> None)" "mild m (SignalReadyToSend k) = (m k \<noteq> None)" "mild m (PostDelete k) = (m k \<noteq> None)"
  by (simp_all add: mild_def refers_def)

lemma frame_CheckTimeout [framed]: "Connection_CheckTimeout k w = Some w' \<Longrightarrow> frame w w'"
  by (auto simp: Connection_CheckTimeout_def bind_eq_Some_conv split: if_splits intro!: frame_emit)

lemma frame_set_read_state [framed]:
  assumes "set_read_state k v w = Some w'" shows "frame w w'"
proof -
  obtain c where c: "conns w k = Some c" using assms by (auto simp: set_read_state_def bind_eq_Some_conv)
  have 1: "frame w (put k (c\<lparr>read_state := v\<rparr>) w)" using c by (rule frame_put) (simp add: same_conn_upd)
  have 2: "frame (put k (c\<lparr>read_state := v\<rparr>) w) (emit (SignalStateChange k st) (put k (c\<lparr>read_state := v\<rparr>) w))" for st
    by (rule frame_emit) (simp add: put_def)
  show ?thesis using assms c frame_trans [OF frame_trans [OF 1 2] frame_CheckTimeout] 1
    by (auto simp: set_read_state_def Let_def split: if_splits)
qed

lemma frame_set_write_state [framed]:
  assumes "set_write_state k v w = Some w'" shows "frame w w'"
proof -
  obtain c where c: "conns w k = Some c" using assms by (auto simp: set_write_state_def bind_eq_Some_conv)
  have 1: "frame w (put k (c\<lparr>write_state := v\<rparr>) w)" using c by (rule frame_put) (simp add: same_conn_upd)
  have 2: "frame (put k (c\<lparr>write_state := v\<rparr>) w) (emit (SignalStateChange k st) (put k (c\<lparr>write_state := v\<rparr>) w))" for st
    by (rule frame_emit) (simp add: put_def)
  show ?thesis using assms c frame_trans [OF frame_trans [OF 1 2] frame_CheckTimeout] 1
    by (auto simp: set_write_state_def Let_def split: if_splits)
qed

lemma frame_set_state [framed]: "set_state k v w = Some w' \<Longrightarrow> frame w w'"
  by (auto simp: set_state_def bind_eq_Some_conv intro!: frame_put same_conn_upd)

lemma frame_ReceivedPing [framed]:
  assumes "ReceivedPing now k w = Some w'" shows "frame w w'"
proof -
  obtain c where c: "conns w k = Some c" "set_read_state k STATE_READABLE (put k (c\<lparr>last_ping_received := now\<rparr>) w) = Some w'"
    using assms by (auto simp: ReceivedPing_def bind_eq_Some_conv)
  have "frame w (put k (c\<lparr>last_ping_received := now\<rparr>) w)" using c(1) by (rule frame_put) (simp add: same_conn_upd)
  then show ?thesis using frame_set_read_state [OF c(2)] by (rule frame_trans)
qed


section \<open>Operations of connections\<close>

text \<open>A step on the connection \<open>k\<close> itself and then an operation that is framed.\<close>

lemma frame_put_then:
  assumes "frame (put k c' w) w'" "conns w k = Some c" "same_conn (the_port w) c (the_port w) c'"
  shows "frame w w'"
  using frame_trans [OF frame_put [OF assms(2,3)] assms(1)] .

lemma frame_Prune [framed]: "Prune k w = Some w' \<Longrightarrow> frame w w'"
  by (auto simp: Prune_def bind_eq_Some_conv split: if_splits dest!: frame_set_write_state elim!: frame_put_then intro!: same_conn_upd)

lemma frame_Destroy [framed]: "Connection_Destroy k w = Some w' \<Longrightarrow> frame w w'"
  by (auto simp: Connection_Destroy_def bind_eq_Some_conv intro: frame_trans framed)

lemma frame_UpdateState [framed]:
  assumes "UpdateState now k w = Some w'" shows "frame w w'"
proof -
  have 1: "frame u v" if "(if b then set_read_state k st u else Some u) = Some v" for b st u v
    using that by (auto split: if_splits intro: framed)
  have 2: "frame u v" if "(if b then set_write_state k st u else Some u) = Some v" for b st u v
    using that by (auto split: if_splits intro: framed)
  from assms show ?thesis
    unfolding UpdateState_def Let_def bind_eq_Some_conv by (elim exE conjE) (blast intro: frame_trans dest: 1 2)
qed

lemma frame_set_nomination:
  "do { c \<leftarrow> conns w k; Some (put k (set_use_candidate_attr b c) w) } = Some w' \<Longrightarrow> frame w w'"
  by (auto simp: bind_eq_Some_conv set_use_candidate_attr_def intro!: frame_put same_conn_upd)

lemma frame_Ping [framed]: "Ping h now i q k w = Some w' \<Longrightarrow> frame w w'"
  by (auto simp: Ping_def Let_def bind_eq_Some_conv intro!: frame_put same_conn_upd)

lemma frame_OnSendStunPacket [framed]: "OnSendStunPacket k data w = Some w' \<Longrightarrow> frame w w'"
  by (auto simp: OnSendStunPacket_def bind_eq_Some_conv intro!: frame_emit)

lemma frame_request_callback [framed]: "request_callback k e w = Some w' \<Longrightarrow> frame w w'"
  by (auto simp: request_callback_def split: rq_event.splits intro: framed)

lemma frame_request_callbacks [framed]: "request_callbacks k es w = Some w' \<Longrightarrow> frame w w'"
  by (induction es arbitrary: w) (auto simp: bind_eq_Some_conv intro: frame_trans framed)

lemma frame_Request_OnMessage [framed]: "Request_OnMessage h now q k w = Some w' \<Longrightarrow> frame w w'"
  by (auto simp: Request_OnMessage_def bind_eq_Some_conv dest!: frame_request_callbacks elim!: frame_put_then intro!: same_conn_upd)

lemma frame_requests_turn [framed]: "requests_turn h now k w = Some w' \<Longrightarrow> frame w w'"
  by (cases "Get now 0 [] (thread (conn_requests (the (conns w k))))")
    (auto simp: requests_turn_def Let_def bind_eq_Some_conv split: get_result.splits dest!: frame_Request_OnMessage elim!: frame_put_then
      intro!: same_conn_upd frame_put)

section \<open>Packets\<close>

lemma frame_SendBindingErrorResponse [framed]: "SendBindingErrorResponse h m addr n reason w = Some w' \<Longrightarrow> frame w w'"
  by (auto simp: SendBindingErrorResponse_def bind_eq_Some_conv intro!: frame_emit)

lemma frame_MaybeIceRoleConflict [framed]: "MaybeIceRoleConflict h addr m uf w = Some (b, w') \<Longrightarrow> frame w w'"
  by (auto simp: MaybeIceRoleConflict_def Let_def bind_eq_Some_conv split: if_splits IceRole.splits option.splits prod.splits
      intro: framed frame_emit)

lemma frame_protocol: "IsHybridIce (the_port w) \<Longrightarrow> frame w (w\<lparr>the_port := SetIceProtocolType proto (the_port w)\<rparr>)"
  by (auto simp: frame_def same_port_def same_conn_def IsHybridIce_def SetIceProtocolType_def local_candidate_def
      intro!: exI [of _ "[]"] exI [of _ proto])

text \<open>The ways in which \<open>GetStunMessage\<close> leaves the state.\<close>

definition with_protocol :: "IceProtocolType \<Rightarrow> ice_world \<Rightarrow> ice_world" where
  "with_protocol proto w = (if IsHybridIce (the_port w) then w\<lparr>the_port := SetIceProtocolType proto (the_port w)\<rparr> else w)"

lemma GetStunMessage_world:
  assumes "GetStunMessage h data addr w = Some (res, w')"
  shows "w' = w \<or> (\<exists>proto. w' = with_protocol proto w) \<or>
    (\<exists>m n reason proto. SendBindingErrorResponse h m addr n reason w = Some w' \<or>
       SendBindingErrorResponse h m addr n reason (with_protocol proto w) = Some w')"
proof (cases "IsStandardIce (the_port w) \<and> \<not> ValidateFingerprint data")
  case True then show ?thesis using assms by (simp add: GetStunMessage_def)
next
  case fp: False
  obtain ok m b where r: "Message_Read h (StunMessage_new IceClass) (ByteBuffer_of data) = (ok, m, b)" by (cases rule: prod_cases3) auto
  show ?thesis
  proof (cases "ok \<and> Length b = 0 \<and> uint (msg_type m) = STUN_BINDING_REQUEST \<and> GetByteString m STUN_ATTR_USERNAME \<noteq> None \<and>
      (IsStandardIce (the_port w) \<longrightarrow> GetByteString m STUN_ATTR_MESSAGE_INTEGRITY \<noteq> None)")
    case False
    then show ?thesis using assms fp r
      by (auto simp: GetStunMessage_def Let_def bind_eq_Some_conv split: if_split_asm)
  next
    case ok: True
    then have np: "\<not> (IsStandardIce (the_port w) \<and> GetByteString m STUN_ATTR_MESSAGE_INTEGRITY = None)" by auto
    have True: "ok \<and> Length b = 0 \<and> uint (msg_type m) = STUN_BINDING_REQUEST \<and> GetByteString m STUN_ATTR_USERNAME \<noteq> None" using ok by blast
    then obtain parsed where p: "ParseStunUsername (the_port w) m = Some parsed"
      using assms fp r np by (auto simp: GetStunMessage_def Let_def bind_eq_Some_conv)
    show ?thesis
    proof (cases parsed)
      case None
      then show ?thesis using assms fp r np True p by (auto simp: GetStunMessage_def Let_def bind_eq_Some_conv)
    next
      case (Some t)
      then obtain lu ru proto where t: "parsed = Some (lu, ru, proto)" by (cases t) auto
      obtain uf where uf: "username_fragment (the_port w) = Some uf"
        using assms fp r np True p t by (auto simp: GetStunMessage_def Let_def bind_eq_Some_conv)
      show ?thesis
      proof (cases "lu = uf")
        case False
        then show ?thesis using assms fp r np True p t uf by (auto simp: GetStunMessage_def Let_def bind_eq_Some_conv)
      next
        case same: True
        have "(do {
              valid \<leftarrow> (if IsStandardIce (the_port (with_protocol proto w))
                then ValidateMessageIntegrity h data (p_password (the_port (with_protocol proto w))) else Some True);
              if \<not> valid
              then do { w \<leftarrow> SendBindingErrorResponse h m addr STUN_ERROR_UNAUTHORIZED STUN_ERROR_REASON_UNAUTHORIZED (with_protocol proto w);
                        Some ((True, None, []), w) }
              else Some ((True, Some m, ru), with_protocol proto w) }) = Some (res, w')"
          using assms fp r np True p t uf same unfolding GetStunMessage_def Let_def with_protocol_def by (simp del: not_None_eq)
        then show ?thesis by (auto simp: bind_eq_Some_conv split: if_split_asm)
      qed
    qed
  qed
qed

lemma GetStunMessage_conns: "GetStunMessage h data addr w = Some (res, w') \<Longrightarrow> conns w' = conns w"
  by (drule GetStunMessage_world) (auto simp: with_protocol_def SendBindingErrorResponse_def emit_def bind_eq_Some_conv)

lemma frame_with_protocol: "frame w (with_protocol proto w)"
  by (simp add: with_protocol_def frame_protocol)

lemma frame_GetStunMessage [framed]:
  assumes "GetStunMessage h data addr w = Some (res, w')" shows "frame w w'"
  using GetStunMessage_world [OF assms] frame_trans [OF frame_with_protocol frame_SendBindingErrorResponse]
  by (auto intro: frame_SendBindingErrorResponse frame_with_protocol)

lemma frame_Port_OnReadPacket [framed]:
  assumes "Port_OnReadPacket h data addr proto w = Some w'" shows "frame w w'"
proof (cases "enable_port_packets (the_port w)")
  case True
  then show ?thesis using assms by (auto simp: Port_OnReadPacket_def intro!: frame_emit)
next
  case False
  then obtain ok msg uf v where v: "GetStunMessage h data addr w = Some ((ok, msg, uf), v)"
    using assms by (auto simp: Port_OnReadPacket_def bind_eq_Some_conv)
  have "frame v w'" using assms False v
    by (auto simp: Port_OnReadPacket_def bind_eq_Some_conv split: option.splits if_splits
        dest!: frame_MaybeIceRoleConflict intro: frame_emit_after frame_emit)
  then show ?thesis using frame_trans [OF frame_GetStunMessage [OF v]] by blast
qed

lemma frame_SendBindingResponse [framed]: "SendBindingResponse h now m addr w = Some w' \<Longrightarrow> frame w w'"
  using frame_emit_then [of "SendTo _ addr" w]
  by (auto simp: SendBindingResponse_def Let_def bind_eq_Some_conv split: option.splits dest!: frame_ReceivedPing
      intro: frame_emit elim: frame_emit_then)

lemma frame_MaybeAddPrflx [framed]:
  assumes "MaybeAddPrflxCandidate h ntop rnd k r m w = Some w'" shows "frame w w'"
proof -
  have "frame w (emit (SignalStateChange k (write_state c)) (put k (c\<lparr>local_candidate_index := length (candidates (the_port w))\<rparr>)
      (w\<lparr>the_port := (the_port w)\<lparr>candidates := candidates (the_port w) @ [l]\<rparr>\<rparr>)))" if "conns w k = Some c" for c l
    using that by (auto simp: frame_def emit_def put_def same_conn_def local_candidate_def same_port_def nth_append
        intro!: exI [of _ "[l]"] exI [of _ "ice_protocol (the_port w)"] split: if_splits)
  then show ?thesis using assms
    by (auto simp: MaybeAddPrflxCandidate_def AddPrflxCandidate_def Let_def bind_eq_Some_conv split: option.splits if_splits)
qed

lemma frame_OnConnectionRequestResponse [framed]:
  assumes "OnConnectionRequestResponse h ntop now rnd k r m w = Some w'" shows "frame w w'"
proof -
  obtain w1 w2 c w3 c2 where s: "set_write_state k STATE_WRITABLE w = Some w1" "set_state k STATE_SUCCEEDED w1 = Some w2" "conns w2 k = Some c"
      "(if remote_ice_mode c = ICEMODE_LITE then ReceivedPing now k w2 else Some w2) = Some w3" "conns w3 k = Some c2"
      "(let w = put k (c2\<lparr>pings_since_last_response := [], last_ping_response_received := now,
          rtt := (RTT_RATIO * rtt c2 + Elapsed now r) div (RTT_RATIO + 1)\<rparr>) w3
        in if IsStandardIce (the_port w) then MaybeAddPrflxCandidate h ntop rnd k r m w else Some w) = Some w'"
    using assms by (auto simp: OnConnectionRequestResponse_def bind_eq_Some_conv Let_def)
  have a: "frame w w2" using frame_trans [OF frame_set_write_state [OF s(1)] frame_set_state [OF s(2)]] .
  have b: "frame w2 w3" using s(4) by (auto split: if_splits intro: framed)
  have "frame w3 w'" using s(5,6)
    by (auto simp: Let_def split: if_splits dest!: frame_MaybeAddPrflx elim!: frame_put_then intro!: frame_put same_conn_upd)
  then show ?thesis using frame_trans [OF frame_trans [OF a b]] by blast
qed

lemma frame_OnConnectionRequestErrorResponse [framed]: "OnConnectionRequestErrorResponse k m w = Some w' \<Longrightarrow> frame w w'"
  by (auto simp: OnConnectionRequestErrorResponse_def HandleRoleConflictFromPeer_def Let_def bind_eq_Some_conv split: if_splits
      intro: frame_trans framed frame_emit)

lemma frame_response_callback [framed]: "response_callback h ntop now rnd k objs e w = Some w' \<Longrightarrow> frame w w'"
  by (auto simp: response_callback_def bind_eq_Some_conv split: rq_event.splits intro: framed)

lemma frame_CheckResponse [framed]:
  assumes "Connection_CheckResponse h ntop now rnd k m w = Some w'" shows "frame w w'"
proof -
  obtain c b rqs where c: "conns w k = Some c" "CheckResponse_msg m ((conn_requests c)\<lparr>events := []\<rparr>) = Some (b, rqs)"
    using assms by (auto simp: Connection_CheckResponse_def bind_eq_Some_conv)
  have "frame w (put k (c\<lparr>conn_requests := rqs\<rparr>) w)" using c(1) by (rule frame_put) (simp add: same_conn_upd)
  moreover have "frame (put k (c\<lparr>conn_requests := rqs\<rparr>) w) w'"
    using assms c by (cases "events rqs") (auto simp: Connection_CheckResponse_def Let_def intro: frame_response_callback)
  ultimately show ?thesis by (rule frame_trans)
qed

lemma frame_restart_checks [framed]: "restart_checks k w = Some w' \<Longrightarrow> frame w w'"
  by (auto simp: restart_checks_def bind_eq_Some_conv split: if_splits intro: framed)

lemma frame_conns: "frame w w' \<Longrightarrow> conns w k \<noteq> None \<Longrightarrow> conns w' k \<noteq> None"
  by (auto simp: frame_def dom_def)

lemma frame_OnReadPacket_request:
  assumes "do { (go, w) \<leftarrow> (if b then MaybeIceRoleConflict h addr msg uf w else Some (True, w));
      if \<not> go then Some w
      else do { w \<leftarrow> SendBindingResponse h now msg addr w; w \<leftarrow> restart_checks k w; Some (if p w then emit (SignalUseCandidate k) w else w) } } = Some w'"
    "conns w k \<noteq> None"
  shows "frame w w'"
proof -
  obtain go v where v: "(if b then MaybeIceRoleConflict h addr msg uf w else Some (True, w)) = Some (go, v)"
    using assms(1) by (auto simp: bind_eq_Some_conv)
  have f: "frame w v" using v by (auto split: if_splits intro: framed)
  show ?thesis
  proof (cases go)
    case False then show ?thesis using assms(1) v f by simp
  next
    case True
    then obtain u u2 where u: "SendBindingResponse h now msg addr v = Some u" "restart_checks k u = Some u2"
        "w' = (if p u2 then emit (SignalUseCandidate k) u2 else u2)"
      using assms(1) v by (auto simp: bind_eq_Some_conv)
    have g: "frame w u2" using frame_trans [OF frame_trans [OF f frame_SendBindingResponse [OF u(1)]] frame_restart_checks [OF u(2)]] .
    then have "conns u2 k \<noteq> None" using assms(2) by (rule frame_conns)
    then show ?thesis using u(3) g frame_trans [OF g frame_emit [of u2 "SignalUseCandidate k"]] by simp
  qed
qed

lemma frame_OnReadPacket [framed]:
  assumes "OnReadPacket h ntop now rnd k data w = Some w'" shows "frame w w'"
proof -
  obtain c ok msg uf v where v: "conns w k = Some c" "GetStunMessage h data (cd_address (remote_candidate c)) w = Some ((ok, msg, uf), v)"
    using assms by (auto simp: OnReadPacket_def Let_def bind_eq_Some_conv)
  note f = frame_GetStunMessage [OF v(2)]
  have dv: "conns v k \<noteq> None" using frame_conns [OF f] v(1) by simp
  note cv = GetStunMessage_conns [OF v(2)]
  have "frame v w'"
  proof (cases "ok \<and> (\<exists>m. msg = Some m \<and> uint (msg_type m) = STUN_BINDING_REQUEST \<and> uf = cd_username (remote_candidate c))")
    case True
    then obtain m where m: "msg = Some m" "uint (msg_type m) = STUN_BINDING_REQUEST" by blast
    show ?thesis using assms v(1) True m unfolding OnReadPacket_def v(2)
      by (intro frame_OnReadPacket_request [OF _ dv]) (simp add: v Let_def)
  next
    case False
    have data: "frame v w'" if "restart_checks k (emit (SignalReadPacket k data) (put k (c\<lparr>last_data_received := now, recv_rate_tracker := rt\<rparr>) v)) = Some w'" for rt
    proof -
      have "frame v (put k (c\<lparr>last_data_received := now, recv_rate_tracker := rt\<rparr>) v)" using v(1) cv by (intro frame_put [of _ _ c]) (simp_all add: same_conn_upd)
      moreover have "frame \<dots> (emit (SignalReadPacket k data) \<dots>)" by (rule frame_emit) (simp add: put_def)
      ultimately show ?thesis using frame_restart_checks [OF that] frame_trans by blast
    qed
    show ?thesis using assms v False
      by (auto simp: OnReadPacket_def Let_def bind_eq_Some_conv split: if_splits option.splits intro: framed data)
  qed
  then show ?thesis using frame_trans [OF f] by blast
qed

lemma frame_OnReadyToSend [framed]: "Connection_OnReadyToSend k w = Some w' \<Longrightarrow> frame w w'"
  by (auto simp: Connection_OnReadyToSend_def bind_eq_Some_conv intro!: frame_emit)

lemma frame_each_ready: "each_ready m w = Some w' \<Longrightarrow> frame w w'"
  by (induction m w rule: each_ready.induct) (auto simp: bind_eq_Some_conv intro: frame_trans framed)

lemma frame_Port_OnReadyToSend [framed]: "Port_OnReadyToSend w = Some w' \<Longrightarrow> frame w w'"
  unfolding Port_OnReadyToSend_def by (rule frame_each_ready)

lemma frame_Send [framed]: "ProxyConnection_Send sent err k data w = Some (n, w') \<Longrightarrow> frame w w'"
proof -
  assume a: "ProxyConnection_Send sent err k data w = Some (n, w')"
  then obtain c where c: "conns w k = Some c" by (auto simp: ProxyConnection_Send_def bind_eq_Some_conv)
  have "frame w (put k c' (emit (SendTo data x) w))" if "same_conn (the_port w) c (the_port w) c'" for c' x
    using that c by (intro frame_trans [OF frame_emit [of w "SendTo data x"] frame_put [of _ k c]]) (auto simp: emit_def)
  moreover have "frame w (put k (c\<lparr>conn_error := EWOULDBLOCK\<rparr>) w)" using c by (rule frame_put) (simp add: same_conn_upd)
  ultimately show ?thesis using a c
    by (auto simp: ProxyConnection_Send_def Let_def bind_eq_Some_conv same_conn_upd split: if_splits)
qed

end
