(* ===== verification/P2p_Channel.thy ===== *)
theory P2p_Channel
  imports Ice_Port
begin

text \<open>
  \<^verbatim>\<open>p2p/base/p2ptransportchannel.cc\<close> with the state of \<^verbatim>\<open>p2p/base/transportchannel.cc\<close>: a channel over several ports, which
  makes connections from every port to every remote candidate, pings them in turn, sorts them, and sends over the best one. A
  connection is named by its port and its address in the store of that port. The ports are UDP ports: the virtual
  \<^verbatim>\<open>CreateConnection\<close> is that of \<^verbatim>\<open>UDPPort\<close>. Signals of ports and connections reach the channel in their order, by
  \<open>port_op\<close>, which runs an operation of a port; signals of the channel, messages posted to its thread and calls to the
  allocator are recorded as events. The addresses that \<^verbatim>\<open>new\<close> returns for connections are taken from the list \<open>news\<close>; an
  operation reads the clock once.
\<close>

section \<open>Data\<close>

definition LOCAL_PORT_TYPE :: string where "LOCAL_PORT_TYPE = ''local''"
definition STUN_PORT_TYPE :: string where "STUN_PORT_TYPE = ''stun''"
definition RELAY_PORT_TYPE :: string where "RELAY_PORT_TYPE = ''relay''"
definition UDP_PROTOCOL_NAME :: string where "UDP_PROTOCOL_NAME = ''udp''"

definition STUN_ERROR_REASON_STALE_CREDENTIALS :: "byte list" where
  "STUN_ERROR_REASON_STALE_CREDENTIALS = string_bytes ''Stale Credentials''"
definition STUN_ERROR_REASON_SERVER_ERROR :: "byte list" where
  "STUN_ERROR_REASON_SERVER_ERROR = string_bytes ''Server Error''"

definition PING_PACKET_SIZE :: u32 where "PING_PACKET_SIZE = 60 * 8"
definition WRITABLE_DELAY :: u32 where "WRITABLE_DELAY = 1000 * PING_PACKET_SIZE div 1000"
definition UNWRITABLE_DELAY :: u32 where "UNWRITABLE_DELAY = 1000 * PING_PACKET_SIZE div 10000"
definition MAX_CURRENT_WRITABLE_DELAY :: u32 where "MAX_CURRENT_WRITABLE_DELAY = 900"
definition kMinImprovement :: nat where "kMinImprovement = 10"
definition EINVAL :: int where "EINVAL = 22"
definition OPT_DSCP :: int where "OPT_DSCP = 5"
definition DSCP_NO_CHANGE :: int where "DSCP_NO_CHANGE = -1"

type_synonym conn_ref = "nat \<times> nat"

datatype CandidateOrigin = ORIGIN_THIS_PORT | ORIGIN_OTHER_PORT | ORIGIN_MESSAGE

text \<open>A session of the allocator: its generation and whether it is getting ports.\<close>

type_synonym allocator_session = "u32 \<times> bool"

record p2p_channel =
  ch_component :: int
  ch_readable :: bool
  ch_writable :: bool
  incoming_only :: bool
  waiting_for_signaling :: bool
  ch_error :: int
  allocator_sessions :: "allocator_session list"
  ch_ports :: "nat list"
  ch_connections :: "conn_ref list"
  best_connection :: "conn_ref option"
  pending_best_connection :: "conn_ref option"
  remote_candidates :: "(Candidate \<times> nat option) list"
  sort_dirty :: bool
  was_writable :: bool
  options :: "(int \<times> int) list"
  ch_ice_ufrag :: "byte list"
  ch_ice_pwd :: "byte list"
  remote_ice_ufrag :: "byte list"
  remote_ice_pwd :: "byte list"
  protocol_type :: IceProtocolType
  ch_remote_ice_mode :: IceMode
  ch_ice_role :: IceRole
  ch_tiebreaker :: u64
  remote_candidate_generation :: u32

datatype p2p_event =
    SignalReadableState
  | SignalWritableState
  | ChannelReadyToSend
  | ChannelReadPacket "byte list"
  | SignalRouteChange Candidate
  | SignalRequestSignaling
  | ChannelCandidateReady Candidate
  | SignalCandidatesAllocationDone
  | ChannelRoleConflict
  | SignalConnectionRemoved
  | PostSort
  | PostPing u32
  | ClearMessages
  | CreateSession int "byte list" "byte list"
  | StartGettingPorts nat
  | StopGettingPorts nat
  | DeleteSession nat
  | PortSetOption nat int int

record p2p_world =
  chan :: p2p_channel
  ports :: "nat \<rightharpoonup> ice_world"
  news :: "nat list"
  outs :: "p2p_event list"

definition P2PTransportChannel_new :: "int \<Rightarrow> p2p_channel" where
  "P2PTransportChannel_new component =
     \<lparr>ch_component = component, ch_readable = False, ch_writable = False, incoming_only = False, waiting_for_signaling = False,
      ch_error = 0, allocator_sessions = [], ch_ports = [], ch_connections = [], best_connection = None,
      pending_best_connection = None, remote_candidates = [], sort_dirty = False, was_writable = False, options = [],
      ch_ice_ufrag = [], ch_ice_pwd = [], remote_ice_ufrag = [], remote_ice_pwd = [], protocol_type = ICEPROTO_HYBRID,
      ch_remote_ice_mode = ICEMODE_FULL, ch_ice_role = ICEROLE_UNKNOWN, ch_tiebreaker = 0, remote_candidate_generation = 0\<rparr>"

definition out :: "p2p_event \<Rightarrow> p2p_world \<Rightarrow> p2p_world" where "out e W = W\<lparr>outs := outs W @ [e]\<rparr>"

definition set_chan :: "(p2p_channel \<Rightarrow> p2p_channel) \<Rightarrow> p2p_world \<Rightarrow> p2p_world" where "set_chan f W = W\<lparr>chan := f (chan W)\<rparr>"

definition set_readable :: "bool \<Rightarrow> p2p_world \<Rightarrow> p2p_world" where
  "set_readable r W =
     (if ch_readable (chan W) \<noteq> r then out SignalReadableState (set_chan (\<lambda>c. c\<lparr>ch_readable := r\<rparr>) W) else W)"

definition set_writable :: "bool \<Rightarrow> p2p_world \<Rightarrow> p2p_world" where
  "set_writable b W =
     (if ch_writable (chan W) \<noteq> b
      then let W = set_chan (\<lambda>c. c\<lparr>ch_writable := b\<rparr>) W;
               W = (if b then out ChannelReadyToSend W else W)
           in out SignalWritableState W
      else W)"

section \<open>Signals of connections and ports\<close>

definition connection_of :: "p2p_world \<Rightarrow> conn_ref \<Rightarrow> Connection option" where
  "connection_of W r = do { w \<leftarrow> ports W (fst r); conns w (snd r) }"

definition RequestSort :: "p2p_world \<Rightarrow> p2p_world" where
  "RequestSort W = (if \<not> sort_dirty (chan W) then set_chan (\<lambda>c. c\<lparr>sort_dirty := True\<rparr>) (out PostSort W) else W)"

definition SwitchBestConnectionTo :: "conn_ref option \<Rightarrow> p2p_world \<Rightarrow> p2p_world option" where
  "SwitchBestConnectionTo conn W =
     (let W = set_chan (\<lambda>c. c\<lparr>best_connection := conn\<rparr>) W
      in case conn of
           None \<Rightarrow> Some W
         | Some r \<Rightarrow> do { c \<leftarrow> connection_of W r; Some (out (SignalRouteChange (remote_candidate c)) W) })"

text \<open>\<open>st\<close> is the write state of the connection when it signals.\<close>

definition OnConnectionStateChange :: "conn_ref \<Rightarrow> WriteState \<Rightarrow> p2p_world \<Rightarrow> p2p_world option" where
  "OnConnectionStateChange r st W =
     (let c = chan W
      in do {
        W \<leftarrow> (if protocol_type c = ICEPROTO_RFC5245 \<and> ch_ice_role c = ICEROLE_CONTROLLED \<and>
               pending_best_connection c = Some r \<and> st = STATE_WRITABLE
             then SwitchBestConnectionTo (Some r) (set_chan (\<lambda>c. c\<lparr>pending_best_connection := None\<rparr>) W)
             else Some W);
        Some (RequestSort W)
      })"

definition OnUseCandidate :: "conn_ref \<Rightarrow> p2p_world \<Rightarrow> p2p_world option" where
  "OnUseCandidate r W =
     do {
       c \<leftarrow> connection_of W r;
       if write_state c = STATE_WRITABLE
       then if best_connection (chan W) \<noteq> Some r
            then do {
              W \<leftarrow> SwitchBestConnectionTo (Some r) (set_chan (\<lambda>c. c\<lparr>pending_best_connection := None\<rparr>) W);
              Some (RequestSort W)
            }
            else Some W
       else Some (set_chan (\<lambda>c. c\<lparr>pending_best_connection := Some r\<rparr>) W)
     }"

text \<open>Erasing at the end of the list is undefined.\<close>

definition Channel_OnConnectionDestroyed :: "conn_ref \<Rightarrow> p2p_world \<Rightarrow> p2p_world option" where
  "Channel_OnConnectionDestroyed r W =
     (if r \<notin> set (ch_connections (chan W)) then None
      else do {
        let W = set_chan (\<lambda>c. c\<lparr>ch_connections := remove1 r (ch_connections c)\<rparr>) W;
        let W = (if pending_best_connection (chan W) = Some r then set_chan (\<lambda>c. c\<lparr>pending_best_connection := None\<rparr>) W else W);
        W \<leftarrow> (if best_connection (chan W) = Some r
             then do { W \<leftarrow> SwitchBestConnectionTo None W; Some (RequestSort W) }
             else Some W);
        Some (out SignalConnectionRemoved W)
      })"

definition OnPortDestroyed :: "nat \<Rightarrow> p2p_world \<Rightarrow> p2p_world" where
  "OnPortDestroyed p W = set_chan (\<lambda>c. c\<lparr>ch_ports := remove1 p (ch_ports c)\<rparr>) W"

definition Channel_OnReadPacket :: "conn_ref \<Rightarrow> byte list \<Rightarrow> p2p_world \<Rightarrow> p2p_world" where
  "Channel_OnReadPacket r data W = (if r \<in> set (ch_connections (chan W)) then out (ChannelReadPacket data) W else W)"

definition Channel_OnReadyToSend :: "conn_ref \<Rightarrow> p2p_world \<Rightarrow> p2p_world" where
  "Channel_OnReadyToSend r W =
     (if best_connection (chan W) = Some r \<and> ch_writable (chan W) then out ChannelReadyToSend W else W)"

definition OnRoleConflict :: "p2p_world \<Rightarrow> p2p_world" where "OnRoleConflict W = out ChannelRoleConflict W"

definition on_event :: "nat \<Rightarrow> ice_event \<Rightarrow> p2p_world \<Rightarrow> p2p_world option" where
  "on_event p e W =
     (case e of
        SignalStateChange k st \<Rightarrow> OnConnectionStateChange (p, k) st W
      | SignalUseCandidate k \<Rightarrow> OnUseCandidate (p, k) W
      | SignalConnectionDestroyed k \<Rightarrow> Channel_OnConnectionDestroyed (p, k) W
      | SignalReadPacket k data \<Rightarrow> Some (Channel_OnReadPacket (p, k) data W)
      | SignalReadyToSend k \<Rightarrow> Some (Channel_OnReadyToSend (p, k) W)
      | SignalRoleConflict \<Rightarrow> Some (OnRoleConflict W)
      | SignalPortDestroyed \<Rightarrow> Some (OnPortDestroyed p W)
      | _ \<Rightarrow> Some W)"

fun on_events :: "nat \<Rightarrow> ice_event list \<Rightarrow> p2p_world \<Rightarrow> p2p_world option" where
  "on_events p [] W = Some W"
| "on_events p (e # es) W = do { W \<leftarrow> on_event p e W; on_events p es W }"

text \<open>An operation of the port \<open>p\<close>, with what it signals.\<close>

definition port_op :: "nat \<Rightarrow> (ice_world \<Rightarrow> ice_world option) \<Rightarrow> p2p_world \<Rightarrow> p2p_world option" where
  "port_op p f W =
     do {
       w \<leftarrow> ports W p;
       w' \<leftarrow> f (w\<lparr>sigs := []\<rparr>);
       on_events p (sigs w') (W\<lparr>ports := (ports W)(p \<mapsto> w'\<lparr>sigs := sigs w @ sigs w'\<rparr>)\<rparr>)
     }"

section \<open>Comparing connections\<close>

text \<open>What a comparison reads of a connection.\<close>

record conn_key =
  ck_ref :: conn_ref
  ck_write :: WriteState
  ck_priority :: u64
  ck_generation :: u32
  ck_rtt :: u32
  ck_network :: string

definition conn_key_of :: "p2p_world \<Rightarrow> conn_ref \<Rightarrow> conn_key option" where
  "conn_key_of W r =
     do {
       w \<leftarrow> ports W (fst r);
       c \<leftarrow> conns w (snd r);
       priority \<leftarrow> Connection_priority (the_port w) c;
       Some \<lparr>ck_ref = r, ck_write = write_state c, ck_priority = priority,
             ck_generation = cd_generation (remote_candidate c) + p_generation (the_port w), ck_rtt = rtt c,
             ck_network = network_name (the_port w)\<rparr>
     }"

fun conn_keys :: "p2p_world \<Rightarrow> conn_ref list \<Rightarrow> conn_key list option" where
  "conn_keys W [] = Some []"
| "conn_keys W (r # rs) = do { k \<leftarrow> conn_key_of W r; ks \<leftarrow> conn_keys W rs; Some (k # ks) }"

text \<open>The values of the enumeration.\<close>

definition write_rank :: "WriteState \<Rightarrow> nat" where
  "write_rank st =
     (case st of STATE_WRITABLE \<Rightarrow> 0 | STATE_WRITE_UNRELIABLE \<Rightarrow> 1 | STATE_WRITE_INIT \<Rightarrow> 2 | STATE_WRITE_TIMEOUT \<Rightarrow> 3)"

definition CompareConnectionCandidates :: "conn_key \<Rightarrow> conn_key \<Rightarrow> int" where
  "CompareConnectionCandidates a b =
     (if ck_priority a > ck_priority b then 1
      else if ck_priority a < ck_priority b then -1
      else sint (ck_generation a - ck_generation b))"

definition CompareConnections :: "conn_key \<Rightarrow> conn_key \<Rightarrow> int" where
  "CompareConnections a b =
     (if write_rank (ck_write a) < write_rank (ck_write b) then 1
      else if write_rank (ck_write a) > write_rank (ck_write b) then -1
      else CompareConnectionCandidates a b)"

definition ConnectionCompare :: "conn_key \<Rightarrow> conn_key \<Rightarrow> bool" where
  "ConnectionCompare a b =
     (let cmp = CompareConnections a b
      in if cmp > 0 then True else if cmp < 0 then False else ck_rtt a < ck_rtt b)"

text \<open>The improvement is added in floating point, where 32-bit numbers are exact.\<close>

definition ShouldSwitch :: "conn_key option \<Rightarrow> conn_key option \<Rightarrow> bool" where
  "ShouldSwitch a_conn b_conn =
     (if map_option ck_ref a_conn = map_option ck_ref b_conn then False
      else case (a_conn, b_conn) of
             (Some a, Some b) \<Rightarrow>
               (let prefs_cmp = CompareConnections a b
                in if prefs_cmp < 0 then True
                   else if prefs_cmp > 0 then False
                   else unat (ck_rtt b) \<le> unat (ck_rtt a) + kMinImprovement)
           | _ \<Rightarrow> True)"

text \<open>\<^verbatim>\<open>std::stable_sort\<close>.\<close>

fun stable_insert :: "('a \<Rightarrow> 'a \<Rightarrow> bool) \<Rightarrow> 'a \<Rightarrow> 'a list \<Rightarrow> 'a list" where
  "stable_insert lt x [] = [x]"
| "stable_insert lt x (y # ys) = (if lt y x then y # stable_insert lt x ys else x # y # ys)"

definition stable_sort :: "('a \<Rightarrow> 'a \<Rightarrow> bool) \<Rightarrow> 'a list \<Rightarrow> 'a list" where
  "stable_sort lt xs = foldr (stable_insert lt) xs []"

section \<open>Sorting\<close>

fun update_states :: "u32 \<Rightarrow> conn_ref list \<Rightarrow> p2p_world \<Rightarrow> p2p_world option" where
  "update_states now [] W = Some W"
| "update_states now (r # rs) W = do { W \<leftarrow> port_op (fst r) (UpdateState now (snd r)) W; update_states now rs W }"

definition UpdateConnectionStates :: "u32 \<Rightarrow> p2p_world \<Rightarrow> p2p_world option" where
  "UpdateConnectionStates now W = update_states now (ch_connections (chan W)) W"

fun any_readable :: "conn_ref list \<Rightarrow> p2p_world \<Rightarrow> bool option" where
  "any_readable [] W = Some False"
| "any_readable (r # rs) W = do { c \<leftarrow> connection_of W r; if read_state c = STATE_READABLE then Some True else any_readable rs W }"

definition UpdateChannelState :: "p2p_world \<Rightarrow> p2p_world option" where
  "UpdateChannelState W = do { readable \<leftarrow> any_readable (ch_connections (chan W)) W; Some (set_readable readable W) }"

definition stop_sessions :: "allocator_session list \<Rightarrow> p2p_event list" where
  "stop_sessions ss = concat (map (\<lambda>(i, g, getting). if getting then [StopGettingPorts i] else []) (enumerate 0 ss))"

definition HandleWritable :: "p2p_world \<Rightarrow> p2p_world" where
  "HandleWritable W =
     (let W = (if \<not> ch_writable (chan W)
               then set_chan (\<lambda>c. c\<lparr>allocator_sessions := map (\<lambda>(g, _). (g, False)) (allocator_sessions c)\<rparr>)
                      (W\<lparr>outs := outs W @ stop_sessions (allocator_sessions (chan W))\<rparr>)
               else W);
          W = set_chan (\<lambda>c. c\<lparr>was_writable := True\<rparr>) W
      in set_writable True W)"

definition HandleNotWritable :: "p2p_world \<Rightarrow> p2p_world" where
  "HandleNotWritable W =
     (if was_writable (chan W) then set_writable False (set_chan (\<lambda>c. c\<lparr>was_writable := False\<rparr>) W) else W)"

definition HandleAllTimedOut :: "p2p_world \<Rightarrow> p2p_world" where "HandleAllTimedOut W = HandleNotWritable W"

text \<open>\<open>order\<close> are the connections in sorted order. The best connection need not be among them.\<close>

definition GetBestConnectionOnNetwork :: "conn_key option \<Rightarrow> conn_key list \<Rightarrow> string \<Rightarrow> conn_key option" where
  "GetBestConnectionOnNetwork best order network =
     (case best of
        Some b \<Rightarrow> if ck_network b = network then Some b else List.find (\<lambda>k. ck_network k = network) order
      | None \<Rightarrow> List.find (\<lambda>k. ck_network k = network) order)"

definition to_prune :: "conn_key option \<Rightarrow> conn_key list \<Rightarrow> string \<Rightarrow> conn_ref list" where
  "to_prune best order network =
     (case GetBestConnectionOnNetwork best order network of
        None \<Rightarrow> []
      | Some primier \<Rightarrow>
          (if ck_write primier \<noteq> STATE_WRITABLE then []
           else map ck_ref (filter (\<lambda>k. ck_ref k \<noteq> ck_ref primier \<and> ck_network k = network \<and>
                                        CompareConnectionCandidates primier k \<ge> 0) order)))"

fun prune_all :: "conn_ref list \<Rightarrow> p2p_world \<Rightarrow> p2p_world option" where
  "prune_all [] W = Some W"
| "prune_all (r # rs) W = do { W \<leftarrow> port_op (fst r) (Prune (snd r)) W; prune_all rs W }"

fun all_timed_out :: "conn_ref list \<Rightarrow> p2p_world \<Rightarrow> bool option" where
  "all_timed_out [] W = Some True"
| "all_timed_out (r # rs) W =
     do { c \<leftarrow> connection_of W r; if write_state c \<noteq> STATE_WRITE_TIMEOUT then Some False else all_timed_out rs W }"

definition option_key :: "p2p_world \<Rightarrow> conn_ref option \<Rightarrow> conn_key option option" where
  "option_key W r = (case r of None \<Rightarrow> Some None | Some r \<Rightarrow> map_option Some (conn_key_of W r))"

text \<open>The set of networks is visited in the order of their pointers, which is not determined; pruning on one does not affect
  another, and the model takes them in the order of the connections. Pruning changes neither the premier connection nor what
  the comparison of candidates reads, so the connections to prune are found first.\<close>

definition SortConnections :: "u32 \<Rightarrow> p2p_world \<Rightarrow> p2p_world option" where
  "SortConnections now W =
     do {
       W \<leftarrow> UpdateConnectionStates now W;
       if protocol_type (chan W) = ICEPROTO_HYBRID then UpdateChannelState W
       else do {
         let W = set_chan (\<lambda>c. c\<lparr>sort_dirty := False\<rparr>) W;
         keys \<leftarrow> conn_keys W (ch_connections (chan W));
         let networks = remdups (map ck_network keys);
         let order = stable_sort ConnectionCompare keys;
         let W = set_chan (\<lambda>c. c\<lparr>ch_connections := map ck_ref order\<rparr>) W;
         let top_connection = (case order of [] \<Rightarrow> None | k # _ \<Rightarrow> Some k);
         best \<leftarrow> option_key W (best_connection (chan W));
         W \<leftarrow>
           (if (protocol_type (chan W) \<noteq> ICEPROTO_RFC5245 \<or> ch_ice_role (chan W) = ICEROLE_CONTROLLING) \<and>
               ShouldSwitch best top_connection
            then SwitchBestConnectionTo (map_option ck_ref top_connection) W else Some W);
         best \<leftarrow> option_key W (best_connection (chan W));
         W \<leftarrow> prune_all (concat (map (to_prune best order) networks)) W;
         all_connections_timedout \<leftarrow> all_timed_out (ch_connections (chan W)) W;
         best \<leftarrow> option_key W (best_connection (chan W));
         let W =
           (case best of
              Some b \<Rightarrow>
                (if ck_write b = STATE_WRITABLE then HandleWritable W
                 else if all_connections_timedout then HandleAllTimedOut W else HandleNotWritable W)
            | None \<Rightarrow> if all_connections_timedout then HandleAllTimedOut W else HandleNotWritable W);
         UpdateChannelState W
       }
     }"

definition OnSort :: "u32 \<Rightarrow> p2p_world \<Rightarrow> p2p_world option" where "OnSort now W = SortConnections now W"

section \<open>Pings\<close>

definition IsPingable :: "p2p_channel \<Rightarrow> Connection \<Rightarrow> bool" where
  "IsPingable ch conn =
     (if \<not> connected conn then False
      else if ch_writable ch then write_state conn \<noteq> STATE_WRITE_TIMEOUT
      else write_state conn \<noteq> STATE_WRITE_TIMEOUT \<or> read_state conn \<noteq> STATE_READ_TIMEOUT)"

fun find_oldest :: "p2p_world \<Rightarrow> conn_ref list \<Rightarrow> conn_ref option \<Rightarrow> u32 \<Rightarrow> conn_ref option option" where
  "find_oldest W [] oldest_conn oldest_time = Some oldest_conn"
| "find_oldest W (r # rs) oldest_conn oldest_time =
     do {
       c \<leftarrow> connection_of W r;
       if IsPingable (chan W) c \<and> last_ping_sent c < oldest_time
       then find_oldest W rs (Some r) (last_ping_sent c)
       else find_oldest W rs oldest_conn oldest_time
     }"

definition best_overdue :: "u32 \<Rightarrow> p2p_world \<Rightarrow> bool option" where
  "best_overdue now W =
     (case best_connection (chan W) of
        None \<Rightarrow> Some False
      | Some r \<Rightarrow>
          do {
            c \<leftarrow> connection_of W r;
            Some (write_state c = STATE_WRITABLE \<and> last_ping_sent c + MAX_CURRENT_WRITABLE_DELAY \<le> now)
          })"

definition FindNextPingableConnection :: "u32 \<Rightarrow> p2p_world \<Rightarrow> conn_ref option option" where
  "FindNextPingableConnection now W =
     do {
       overdue \<leftarrow> best_overdue now W;
       if overdue then Some (best_connection (chan W)) else find_oldest W (ch_connections (chan W)) None 0xFFFFFFFF
     }"

definition nominates :: "p2p_world \<Rightarrow> conn_ref \<Rightarrow> bool option" where
  "nominates W r =
     (let ch = chan W
      in if protocol_type ch \<noteq> ICEPROTO_RFC5245 then Some False
         else if ch_remote_ice_mode ch = ICEMODE_FULL \<and> ch_ice_role ch = ICEROLE_CONTROLLING
         then (case best_connection ch of
                 None \<Rightarrow> Some True
               | Some b \<Rightarrow>
                   (if r = b then Some True
                    else do {
                      bk \<leftarrow> conn_key_of W b;
                      k \<leftarrow> conn_key_of W r;
                      Some (ck_write bk \<noteq> STATE_WRITABLE \<or> ck_priority k > ck_priority bk)
                    }))
         else if ch_remote_ice_mode ch = ICEMODE_LITE \<and> best_connection ch = Some r
         then map_option (\<lambda>c. write_state c = STATE_WRITABLE) (connection_of W r)
         else Some False)"

text \<open>\<open>tid\<close> and \<open>q\<close> are the transaction id and the address of the new request.\<close>

definition set_nomination :: "nat \<Rightarrow> bool \<Rightarrow> ice_world \<Rightarrow> ice_world option" where
  "set_nomination k use_candidate w = do { c \<leftarrow> conns w k; Some (put k (set_use_candidate_attr use_candidate c) w) }"

definition PingConnection :: "bool \<Rightarrow> u32 \<Rightarrow> byte list \<Rightarrow> nat \<Rightarrow> conn_ref \<Rightarrow> p2p_world \<Rightarrow> p2p_world option" where
  "PingConnection h now tid q r W =
     do {
       use_candidate \<leftarrow> nominates W r;
       port_op (fst r) (\<lambda>w. do { w \<leftarrow> set_nomination (snd r) use_candidate w; Ping h now tid q (snd r) w }) W
     }"

definition OnPing :: "bool \<Rightarrow> u32 \<Rightarrow> byte list \<Rightarrow> nat \<Rightarrow> p2p_world \<Rightarrow> p2p_world option" where
  "OnPing h now tid q W =
     do {
       W \<leftarrow> UpdateConnectionStates now W;
       conn \<leftarrow> FindNextPingableConnection now W;
       W \<leftarrow> (case conn of None \<Rightarrow> Some W | Some r \<Rightarrow> PingConnection h now tid q r W);
       Some (out (PostPing (if ch_writable (chan W) then WRITABLE_DELAY else UNWRITABLE_DELAY)) W)
     }"

section \<open>Creating connections\<close>

definition GetOrigin :: "nat \<Rightarrow> nat option \<Rightarrow> CandidateOrigin" where
  "GetOrigin port origin_port =
     (case origin_port of
        None \<Rightarrow> ORIGIN_MESSAGE
      | Some p \<Rightarrow> if port = p then ORIGIN_THIS_PORT else ORIGIN_OTHER_PORT)"

text \<open>\<^verbatim>\<open>UDPPort::CreateConnection\<close>: \<open>k\<close> is the address of the new connection. The outer \<open>None\<close> is the access to the first
  candidate of a port that has none.\<close>

definition UDPPort_accepts :: "bool \<Rightarrow> Candidate \<Rightarrow> Port \<Rightarrow> bool option" where
  "UDPPort_accepts h address p =
     (if cd_protocol address \<noteq> UDP_PROTOCOL_NAME then Some False
      else if \<not> IsCompatibleAddress h p (cd_address address) then Some False
      else if shared_socket p
      then (case candidates p of [] \<Rightarrow> None | c # _ \<Rightarrow> Some (cd_type c = LOCAL_PORT_TYPE))
      else Some True)"

definition UDPPort_CreateConnection :: "bool \<Rightarrow> Candidate \<Rightarrow> nat \<Rightarrow> ice_world \<Rightarrow> ice_world option" where
  "UDPPort_CreateConnection h address k w =
     (if conns w k \<noteq> None then None else AddConnection h k (put k (Connection_new 0 address) w))"

text \<open>The new connection, if the port makes one.\<close>

definition port_create :: "bool \<Rightarrow> nat \<Rightarrow> Candidate \<Rightarrow> p2p_world \<Rightarrow> (nat option \<times> p2p_world) option" where
  "port_create h p cand W =
     do {
       w \<leftarrow> ports W p;
       accepted \<leftarrow> UDPPort_accepts h cand (the_port w);
       if \<not> accepted then Some (None, W)
       else case news W of
              [] \<Rightarrow> None
            | k # ks \<Rightarrow> do {
                W \<leftarrow> port_op p (UDPPort_CreateConnection h cand k) (W\<lparr>news := ks\<rparr>);
                Some (Some k, W)
              }
     }"

definition Channel_AddConnection :: "conn_ref \<Rightarrow> p2p_world \<Rightarrow> p2p_world option" where
  "Channel_AddConnection r W =
     (let W = set_chan (\<lambda>c. c\<lparr>ch_connections := ch_connections c @ [r]\<rparr>) W
      in port_op (fst r) (\<lambda>w. do { c \<leftarrow> conns w (snd r);
                                   Some (put (snd r) (set_remote_ice_mode (ch_remote_ice_mode (chan W)) c) w) }) W)"

definition CreateConnection ::
    "bool \<Rightarrow> u32 \<Rightarrow> nat \<Rightarrow> Candidate \<Rightarrow> nat option \<Rightarrow> bool \<Rightarrow> p2p_world \<Rightarrow> (bool \<times> p2p_world) option" where
  "CreateConnection h now p cand origin_port readable W =
     do {
       w \<leftarrow> ports W p;
       (connection, W) \<leftarrow>
         (case GetConnection h (the_port w) (cd_address cand) of
            Some k \<Rightarrow>
              do {
                c \<leftarrow> conns w k;
                Some (if IsEquivalent h cand (remote_candidate c) then Some k else None, W)
              }
          | None \<Rightarrow>
              (if GetOrigin p origin_port = ORIGIN_MESSAGE \<and> incoming_only (chan W) then Some (None, W)
               else do {
                 (connection, W) \<leftarrow> port_create h p cand W;
                 case connection of
                   None \<Rightarrow> Some (None, W)
                 | Some k \<Rightarrow> do { W \<leftarrow> Channel_AddConnection (p, k) W; Some (Some k, W) }
               }));
       case connection of
         None \<Rightarrow> Some (False, W)
       | Some k \<Rightarrow>
           (if readable then do { W \<leftarrow> port_op p (ReceivedPing now k) W; Some (True, W) } else Some (True, W))
     }"

definition GetRemoteCandidateGeneration :: "Candidate \<Rightarrow> p2p_channel \<Rightarrow> u32" where
  "GetRemoteCandidateGeneration candidate ch =
     (if protocol_type ch = ICEPROTO_GOOGLE then cd_generation candidate else remote_candidate_generation ch)"

definition IsDuplicateRemoteCandidate :: "bool \<Rightarrow> Candidate \<Rightarrow> p2p_channel \<Rightarrow> bool" where
  "IsDuplicateRemoteCandidate h candidate ch = list_ex (\<lambda>(c, _). IsEquivalent h c candidate) (remote_candidates ch)"

definition RememberRemoteCandidate :: "bool \<Rightarrow> Candidate \<Rightarrow> nat option \<Rightarrow> p2p_channel \<Rightarrow> p2p_channel" where
  "RememberRemoteCandidate h cand origin_port ch =
     (let ch = ch\<lparr>remote_candidates := filter (\<lambda>(c, _). \<not> cd_generation c < cd_generation cand) (remote_candidates ch)\<rparr>
      in if IsDuplicateRemoteCandidate h cand ch then ch
         else ch\<lparr>remote_candidates := remote_candidates ch @ [(cand, origin_port)]\<rparr>)"

text \<open>\<open>made\<close> is whether the origin port has made its connection.\<close>

fun create_on_ports ::
    "bool \<Rightarrow> u32 \<Rightarrow> nat list \<Rightarrow> Candidate \<Rightarrow> nat option \<Rightarrow> bool \<Rightarrow> bool \<Rightarrow> p2p_world \<Rightarrow> (bool \<times> p2p_world) option" where
  "create_on_ports h now [] cand origin_port readable made W = Some (made, W)"
| "create_on_ports h now (p # ps) cand origin_port readable made W =
     do {
       (ok, W) \<leftarrow> CreateConnection h now p cand origin_port readable W;
       create_on_ports h now ps cand origin_port readable (made \<or> ok \<and> Some p = origin_port) W
     }"

definition completed :: "Candidate \<Rightarrow> p2p_channel \<Rightarrow> Candidate" where
  "completed cand ch =
     (let c = cand\<lparr>cd_generation := GetRemoteCandidateGeneration cand ch\<rparr>;
          c = (if cd_username cand = [] then c\<lparr>cd_username := remote_ice_ufrag ch\<rparr> else c)
      in if cd_password cand = [] then c\<lparr>cd_password := remote_ice_pwd ch\<rparr> else c)"

definition CreateConnections ::
    "bool \<Rightarrow> u32 \<Rightarrow> Candidate \<Rightarrow> nat option \<Rightarrow> bool \<Rightarrow> p2p_world \<Rightarrow> (bool \<times> p2p_world) option" where
  "CreateConnections h now cand origin_port readable W =
     (let new_remote_candidate = completed cand (chan W)
      in if origin_port = None \<and> IsDuplicateRemoteCandidate h new_remote_candidate (chan W) then Some (True, W)
         else do {
           (made, W) \<leftarrow> create_on_ports h now (rev (ch_ports (chan W))) new_remote_candidate origin_port readable False W;
           (made, W) \<leftarrow>
             (case origin_port of
                Some p \<Rightarrow>
                  (if p \<notin> set (ch_ports (chan W))
                   then do {
                     (ok, W) \<leftarrow> CreateConnection h now p new_remote_candidate origin_port readable W;
                     Some (made \<or> ok, W)
                   }
                   else Some (made, W))
              | None \<Rightarrow> Some (made, W));
           Some (made, set_chan (RememberRemoteCandidate h new_remote_candidate origin_port) W)
         })"

definition OnCandidate :: "bool \<Rightarrow> u32 \<Rightarrow> Candidate \<Rightarrow> p2p_world \<Rightarrow> p2p_world option" where
  "OnCandidate h now candidate W =
     do {
       (_, W) \<leftarrow> CreateConnections h now candidate None False W;
       SortConnections now W
     }"

fun create_for_candidates :: "bool \<Rightarrow> u32 \<Rightarrow> nat \<Rightarrow> (Candidate \<times> nat option) list \<Rightarrow> p2p_world \<Rightarrow> p2p_world option" where
  "create_for_candidates h now p [] W = Some W"
| "create_for_candidates h now p ((c, origin) # cs) W =
     do { (_, W) \<leftarrow> CreateConnection h now p c origin False W; create_for_candidates h now p cs W }"

text \<open>\<open>w\<close> is the new port, under the number \<open>p\<close>.\<close>

definition OnPortReady :: "bool \<Rightarrow> u32 \<Rightarrow> nat \<Rightarrow> ice_world \<Rightarrow> p2p_world \<Rightarrow> p2p_world option" where
  "OnPortReady h now p w W =
     do {
       let ch = chan W;
       let W = W\<lparr>outs := outs W @ map (\<lambda>(opt, val). PortSetOption p opt val) (options ch)\<rparr>;
       let port = SetIceTiebreaker (ch_tiebreaker ch) (SetIceRole (ch_ice_role ch) (SetIceProtocolType (protocol_type ch) (the_port w)));
       let W = W\<lparr>ports := (ports W)(p \<mapsto> w\<lparr>the_port := port\<rparr>)\<rparr>;
       let W = set_chan (\<lambda>c. c\<lparr>ch_ports := ch_ports c @ [p]\<rparr>) W;
       W \<leftarrow> create_for_candidates h now p (remote_candidates (chan W)) W;
       SortConnections now W
     }"

section \<open>Checks from unknown addresses\<close>

definition SendError :: "bool \<Rightarrow> nat \<Rightarrow> stun_message \<Rightarrow> socket_address \<Rightarrow> int \<Rightarrow> byte list \<Rightarrow> p2p_world \<Rightarrow> p2p_world option" where
  "SendError h p m address error_code reason W = port_op p (SendBindingErrorResponse h m address error_code reason) W"

text \<open>The candidate of the remote end that is meant, with its password, or none if its fragment is unknown.\<close>

definition ufrag_per_port :: "(Candidate \<times> nat option) list \<Rightarrow> bool" where
  "ufrag_per_port cs =
     (case cs of [] \<Rightarrow> False | (c, _) # _ \<Rightarrow> list_ex (\<lambda>(d, _). cd_username d \<noteq> cd_username c) cs)"

fun find_remote ::
    "bool \<Rightarrow> bool \<Rightarrow> byte list \<Rightarrow> socket_address \<Rightarrow> ProtocolType \<Rightarrow> (Candidate \<times> nat option) list \<Rightarrow> byte list option \<Rightarrow>
     byte list option \<times> Candidate option" where
  "find_remote h per_port remote_username address proto [] password = (password, None)"
| "find_remote h per_port remote_username address proto ((c, _) # cs) password =
     (if cd_username c = remote_username
      then if per_port \<or> SocketAddress_eq h (cd_address c) address \<and> cd_protocol c = ProtoToString proto
           then (Some (cd_password c), Some c)
           else find_remote h per_port remote_username address proto cs (Some (cd_password c))
      else find_remote h per_port remote_username address proto cs password)"

definition unknown_candidate ::
    "bool \<Rightarrow> string \<Rightarrow> int \<Rightarrow> Port \<Rightarrow> socket_address \<Rightarrow> ProtocolType \<Rightarrow> byte list \<Rightarrow> byte list \<Rightarrow> Candidate" where
  "unknown_candidate h rnd component p address proto remote_username remote_password =
     (let ty = (if ice_protocol p = ICEPROTO_RFC5245 then PRFLX_PORT_TYPE
                else if p_type p = RELAY_PORT_TYPE \<or> shared_socket p then STUN_PORT_TYPE
                else p_type p);
          c = Candidate_of rnd component (ProtoToString proto) address 0 remote_username remote_password ty (network_name p) 0
                (decimal (unat (ComputeCrc32 (string_bytes rnd))))
      in c\<lparr>cd_priority := GetPriority h c ICE_TYPE_PREFERENCE_SRFLX (network_preference p)\<rparr>)"

definition OnUnknownAddress ::
    "bool \<Rightarrow> u32 \<Rightarrow> string \<Rightarrow> nat \<Rightarrow> socket_address \<Rightarrow> ProtocolType \<Rightarrow> stun_message \<Rightarrow> byte list \<Rightarrow> bool \<Rightarrow> p2p_world \<Rightarrow>
     p2p_world option" where
  "OnUnknownAddress h now rnd p address proto stun_msg remote_username port_muxed W =
     (let per_port = ufrag_per_port (remote_candidates (chan W))
      in case find_remote h per_port remote_username address proto (remote_candidates (chan W)) None of
           (None, _) \<Rightarrow>
             (if port_muxed then Some W
              else SendError h p stun_msg address STUN_ERROR_STALE_CREDENTIALS STUN_ERROR_REASON_STALE_CREDENTIALS W)
         | (Some remote_password, candidate) \<Rightarrow>
             do {
               w \<leftarrow> ports W p;
               let port = the_port w;
               let new_remote_candidate =
                 (case candidate of
                    Some c \<Rightarrow> if per_port then c\<lparr>cd_address := address\<rparr> else c
                  | None \<Rightarrow> unknown_candidate h rnd (ch_component (chan W)) port address proto remote_username remote_password);
               if ice_protocol port = ICEPROTO_RFC5245
               then (case GetUInt32 stun_msg STUN_ATTR_PRIORITY of
                       None \<Rightarrow> SendError h p stun_msg address STUN_ERROR_BAD_REQUEST STUN_ERROR_REASON_BAD_REQUEST W
                     | Some priority_attr \<Rightarrow>
                         (let new_remote_candidate = new_remote_candidate\<lparr>cd_priority := uint32_value priority_attr\<rparr>
                          in if GetConnection h port (cd_address new_remote_candidate) \<noteq> None
                             then if port_muxed then Some W
                                  else SendError h p stun_msg address STUN_ERROR_SERVER_ERROR STUN_ERROR_REASON_SERVER_ERROR W
                             else do {
                               (connection, W) \<leftarrow> port_create h p new_remote_candidate W;
                               case connection of
                                 None \<Rightarrow> SendError h p stun_msg address STUN_ERROR_SERVER_ERROR STUN_ERROR_REASON_SERVER_ERROR W
                               | Some k \<Rightarrow> do {
                                   W \<leftarrow> Channel_AddConnection (p, k) W;
                                   W \<leftarrow> port_op p (ReceivedPing now k) W;
                                   W \<leftarrow> port_op p (SendBindingResponse h now stun_msg address) W;
                                   SortConnections now W
                                 }
                             }))
               else do {
                 (made, W) \<leftarrow> CreateConnections h now new_remote_candidate (Some p) True W;
                 if \<not> made
                 then SendError h p stun_msg address STUN_ERROR_SERVER_ERROR STUN_ERROR_REASON_SERVER_ERROR W
                 else do {
                   W \<leftarrow> port_op p (SendBindingResponse h now stun_msg address) W;
                   SortConnections now W
                 }
               }
             })"

text \<open>\<^verbatim>\<open>UDPPort::OnReadPacket\<close> for packets that are not from the STUN server: a packet for a connection goes to it, any other to
  the port, which hands checks from unknown addresses to the channel as the last thing it does.\<close>

fun unknown_address :: "ice_event list \<Rightarrow> (socket_address \<times> ProtocolType \<times> stun_message \<times> byte list) option" where
  "unknown_address [] = None"
| "unknown_address (SignalUnknownAddress addr proto m uf # es) = Some (addr, proto, m, uf)"
| "unknown_address (e # es) = unknown_address es"

definition UDPPort_OnReadPacket ::
    "bool \<Rightarrow> (addr_family \<Rightarrow> byte list \<Rightarrow> string option) \<Rightarrow> u32 \<Rightarrow> string \<Rightarrow> nat \<Rightarrow> byte list \<Rightarrow> socket_address \<Rightarrow> p2p_world \<Rightarrow>
     p2p_world option" where
  "UDPPort_OnReadPacket h ntop now rnd p data remote_addr W =
     do {
       w \<leftarrow> ports W p;
       case GetConnection h (the_port w) remote_addr of
         Some k \<Rightarrow> port_op p (OnReadPacket h ntop now rnd k data) W
       | None \<Rightarrow>
           do {
             W \<leftarrow> port_op p (Port_OnReadPacket h data remote_addr PROTO_UDP) W;
             w' \<leftarrow> ports W p;
             case unknown_address (drop (length (sigs w)) (sigs w')) of
               None \<Rightarrow> Some W
             | Some (addr, proto, m, uf) \<Rightarrow> OnUnknownAddress h now rnd p addr proto m uf False W
           }
     }"

section \<open>The remaining operations\<close>

fun on_ports :: "(Port \<Rightarrow> Port) \<Rightarrow> nat list \<Rightarrow> p2p_world \<Rightarrow> p2p_world option" where
  "on_ports f [] W = Some W"
| "on_ports f (p # ps) W = do { W \<leftarrow> port_op p (\<lambda>w. Some (w\<lparr>the_port := f (the_port w)\<rparr>)) W; on_ports f ps W }"

definition Channel_SetIceRole :: "IceRole \<Rightarrow> p2p_world \<Rightarrow> p2p_world option" where
  "Channel_SetIceRole role W =
     (if ch_ice_role (chan W) \<noteq> role
      then on_ports (SetIceRole role) (ch_ports (chan W)) (set_chan (\<lambda>c. c\<lparr>ch_ice_role := role\<rparr>) W)
      else Some W)"

definition Channel_SetIceTiebreaker :: "u64 \<Rightarrow> p2p_world \<Rightarrow> p2p_world" where
  "Channel_SetIceTiebreaker t W = (if ch_ports (chan W) \<noteq> [] then W else set_chan (\<lambda>c. c\<lparr>ch_tiebreaker := t\<rparr>) W)"

definition Channel_SetIceProtocolType :: "IceProtocolType \<Rightarrow> p2p_world \<Rightarrow> p2p_world option" where
  "Channel_SetIceProtocolType ty W =
     on_ports (SetIceProtocolType ty) (ch_ports (chan W)) (set_chan (\<lambda>c. c\<lparr>protocol_type := ty\<rparr>) W)"

definition Allocate :: "p2p_world \<Rightarrow> p2p_world" where
  "Allocate W = out SignalRequestSignaling (set_chan (\<lambda>c. c\<lparr>waiting_for_signaling := True\<rparr>) W)"

definition SetIceCredentials :: "byte list \<Rightarrow> byte list \<Rightarrow> p2p_world \<Rightarrow> p2p_world" where
  "SetIceCredentials ufrag pwd W =
     (let ch = chan W;
          ice_restart = (if ch_ice_ufrag ch \<noteq> [] \<and> ch_ice_pwd ch \<noteq> [] then ch_ice_ufrag ch \<noteq> ufrag \<or> ch_ice_pwd ch \<noteq> pwd else False);
          W = set_chan (\<lambda>c. c\<lparr>ch_ice_ufrag := ufrag, ch_ice_pwd := pwd\<rparr>) W
      in if ice_restart then Allocate W else W)"

definition SetRemoteIceCredentials :: "byte list \<Rightarrow> byte list \<Rightarrow> p2p_world \<Rightarrow> p2p_world" where
  "SetRemoteIceCredentials ufrag pwd W =
     (let ch = chan W;
          ice_restart =
            (if remote_ice_ufrag ch \<noteq> [] \<and> remote_ice_pwd ch \<noteq> [] then remote_ice_ufrag ch \<noteq> ufrag \<or> remote_ice_pwd ch \<noteq> pwd
             else False);
          W = set_chan (\<lambda>c. c\<lparr>remote_ice_ufrag := ufrag, remote_ice_pwd := pwd\<rparr>) W
      in if ice_restart
         then set_chan (\<lambda>c. c\<lparr>remote_candidate_generation := remote_candidate_generation c + 1\<rparr>) W else W)"

definition SetRemoteIceMode :: "IceMode \<Rightarrow> p2p_world \<Rightarrow> p2p_world" where
  "SetRemoteIceMode mode W = set_chan (\<lambda>c. c\<lparr>ch_remote_ice_mode := mode\<rparr>) W"

definition Channel_Connect :: "p2p_world \<Rightarrow> p2p_world" where "Channel_Connect W = out (PostPing 0) (Allocate W)"

text \<open>Deleting the sessions deletes their ports with all connections.\<close>

definition Reset :: "bool \<Rightarrow> p2p_world \<Rightarrow> p2p_world" where
  "Reset connect_requested W =
     (let W = W\<lparr>ports := Map.empty, outs := outs W @ map DeleteSession [0..<length (allocator_sessions (chan W))]\<rparr>;
          W = set_chan (\<lambda>c. c\<lparr>allocator_sessions := [], ch_ports := [], ch_connections := [], best_connection := None,
                              remote_candidates := []\<rparr>) W;
          W = set_writable False (set_readable False W);
          W = set_chan (\<lambda>c. c\<lparr>waiting_for_signaling := False, sort_dirty := False\<rparr>) W;
          W = (if connect_requested then Allocate W else W)
      in out (PostPing 0) (out ClearMessages W))"

definition AddAllocatorSession :: "p2p_world \<Rightarrow> p2p_world" where
  "AddAllocatorSession W =
     (let n = length (allocator_sessions (chan W))
      in out (StartGettingPorts n)
           (set_chan (\<lambda>c. c\<lparr>allocator_sessions := allocator_sessions c @ [(word_of_nat n, True)], ch_ports := []\<rparr>) W))"

definition OnSignalingReady :: "p2p_world \<Rightarrow> p2p_world" where
  "OnSignalingReady W =
     (let ch = chan W
      in if waiting_for_signaling ch
         then AddAllocatorSession (out (CreateSession (ch_component ch) (ch_ice_ufrag ch) (ch_ice_pwd ch))
                (set_chan (\<lambda>c. c\<lparr>waiting_for_signaling := False\<rparr>) W))
         else W)"

definition OnCandidatesReady :: "Candidate list \<Rightarrow> p2p_world \<Rightarrow> p2p_world" where
  "OnCandidatesReady cs W = W\<lparr>outs := outs W @ map ChannelCandidateReady cs\<rparr>"

definition OnCandidatesAllocationDone :: "p2p_world \<Rightarrow> p2p_world" where
  "OnCandidatesAllocationDone W = out SignalCandidatesAllocationDone W"

definition Channel_SetOption :: "int \<Rightarrow> int \<Rightarrow> p2p_world \<Rightarrow> p2p_world" where
  "Channel_SetOption opt val W =
     (if map_of (options (chan W)) opt = Some val then W
      else let W = set_chan (\<lambda>c. c\<lparr>options := AList.update opt val (options c)\<rparr>) W
           in W\<lparr>outs := outs W @ map (\<lambda>p. PortSetOption p opt val) (ch_ports (chan W))\<rparr>)"

definition DefaultDscpValue :: "p2p_channel \<Rightarrow> int" where
  "DefaultDscpValue ch = (case map_of (options ch) OPT_DSCP of None \<Rightarrow> DSCP_NO_CHANGE | Some v \<Rightarrow> v)"

text \<open>\<open>sent\<close> and \<open>err\<close> are the result of the socket and the error of the port behind it.\<close>

definition SendPacket :: "int \<Rightarrow> int \<Rightarrow> byte list \<Rightarrow> int \<Rightarrow> p2p_world \<Rightarrow> (int \<times> p2p_world) option" where
  "SendPacket sent err data flags W =
     (if flags \<noteq> 0 then Some (-1, set_chan (\<lambda>c. c\<lparr>ch_error := EINVAL\<rparr>) W)
      else case best_connection (chan W) of
             None \<Rightarrow> Some (-1, set_chan (\<lambda>c. c\<lparr>ch_error := EWOULDBLOCK\<rparr>) W)
           | Some r \<Rightarrow>
               do {
                 w \<leftarrow> ports W (fst r);
                 (n, w') \<leftarrow> ProxyConnection_Send sent err (snd r) data w;
                 c \<leftarrow> conns w' (snd r);
                 let W = W\<lparr>ports := (ports W)(fst r \<mapsto> w')\<rparr>;
                 Some (n, if n \<le> 0 then set_chan (\<lambda>ch. ch\<lparr>ch_error := conn_error c\<rparr>) W else W)
               })"

record ConnectionInfo =
  ci_best_connection :: bool
  ci_writable :: bool
  ci_readable :: bool
  ci_timeout :: bool
  ci_new_connection :: bool
  ci_rtt :: u32
  ci_sent_total_bytes :: u64
  ci_sent_bytes_second :: u64
  ci_recv_total_bytes :: u64
  ci_recv_bytes_second :: u64
  ci_local_candidate :: Candidate
  ci_remote_candidate :: Candidate
  ci_key :: conn_ref

fun collect_stats :: "u32 \<Rightarrow> conn_ref list \<Rightarrow> p2p_world \<Rightarrow> (ConnectionInfo list \<times> p2p_world) option" where
  "collect_stats now [] W = Some ([], W)"
| "collect_stats now (r # rs) W =
     do {
       w \<leftarrow> ports W (fst r);
       c \<leftarrow> conns w (snd r);
       local \<leftarrow> local_candidate (the_port w) c;
       let (sent, c') = sent_bytes_second now (set_reported True c);
       let (recv, c') = recv_bytes_second now c';
       (infos, W) \<leftarrow> collect_stats now rs (W\<lparr>ports := (ports W)(fst r \<mapsto> put (snd r) c' w)\<rparr>);
       Some (\<lparr>ci_best_connection = (best_connection (chan W) = Some r), ci_writable = (write_state c = STATE_WRITABLE),
              ci_readable = (read_state c = STATE_READABLE), ci_timeout = (write_state c = STATE_WRITE_TIMEOUT),
              ci_new_connection = (\<not> reported c), ci_rtt = rtt c, ci_sent_total_bytes = sent_total_bytes c,
              ci_sent_bytes_second = sent, ci_recv_total_bytes = recv_total_bytes c, ci_recv_bytes_second = recv,
              ci_local_candidate = local, ci_remote_candidate = remote_candidate c, ci_key = r\<rparr> # infos, W)
     }"

definition GetStats :: "u32 \<Rightarrow> p2p_world \<Rightarrow> (ConnectionInfo list \<times> p2p_world) option" where
  "GetStats now W = collect_stats now (ch_connections (chan W)) W"

end
