(* ===== verification/P2p_Frame.thy ===== *)
theory P2p_Frame
  imports P2p_Channel Ice_Frame
begin

text \<open>
  The invariant of a channel over the operations of its ports: the channel knows exactly the connections that are in the stores
  of its ports, its best and its pending connection are among them, and every port finds each of its connections
  under the address of its remote candidate.
\<close>

section \<open>The invariant\<close>

definition live :: "(nat \<rightharpoonup> ice_world) \<Rightarrow> conn_ref set" where
  "live ps = {(p, k). \<exists>w. ps p = Some w \<and> conns w k \<noteq> None}"

definition port_ok :: "bool \<Rightarrow> ice_world \<Rightarrow> bool" where
  "port_ok h w \<longleftrightarrow> candidates (the_port w) \<noteq> [] \<and>
     sorted_wrt (\<lambda>x y. SocketAddress_less h (fst x) (fst y)) (connections (the_port w)) \<and>
     (\<forall>(a, k) \<in> set (connections (the_port w)). sa_ok a \<and> (\<exists>c. conns w k = Some c \<and> cd_address (remote_candidate c) = a)) \<and>
     (\<forall>k c. conns w k = Some c \<longrightarrow>
        (cd_address (remote_candidate c), k) \<in> set (connections (the_port w)) \<and> local_candidate (the_port w) c \<noteq> None)"

definition chan_ok :: "p2p_channel \<Rightarrow> conn_ref set \<Rightarrow> bool" where
  "chan_ok ch L \<longleftrightarrow> distinct (ch_connections ch) \<and> set (ch_connections ch) = L \<and> set_option (best_connection ch) \<subseteq> L \<and>
     set_option (pending_best_connection ch) \<subseteq> L \<and> (ch_writable ch \<longrightarrow> was_writable ch)"

definition channel_ok :: "bool \<Rightarrow> p2p_world \<Rightarrow> bool" where
  "channel_ok h W \<longleftrightarrow> chan_ok (chan W) (live (ports W)) \<and> (\<forall>p w. ports W p = Some w \<longrightarrow> port_ok h w) \<and>
     (\<forall>p\<in>set (ch_ports (chan W)). ports W p \<noteq> None)"

lemma live_iff: "r \<in> live (ports W) \<longleftrightarrow> connection_of W r \<noteq> None"
  by (cases r) (auto simp: live_def connection_of_def bind_eq_Some_conv split: Option.bind_split)

section \<open>Events\<close>

text \<open>The fields of the channel that events leave alone.\<close>

definition same_chan :: "p2p_channel \<Rightarrow> p2p_channel \<Rightarrow> bool" where
  "same_chan ch ch' \<longleftrightarrow> (\<exists>b pd d. ch' = ch\<lparr>best_connection := b, pending_best_connection := pd, sort_dirty := d\<rparr>)"

lemma same_chan_refl [simp]: "same_chan ch ch"
  by (cases ch; simp add: same_chan_def)

lemma same_chan_trans: "same_chan a b \<Longrightarrow> same_chan b c \<Longrightarrow> same_chan a c"
  by (auto simp: same_chan_def) (metis)

lemma same_chan_fields:
  assumes "same_chan ch ch'"
  shows "ch_connections ch' = ch_connections ch" "ch_ports ch' = ch_ports ch" "protocol_type ch' = protocol_type ch"
    "ch_ice_role ch' = ch_ice_role ch" "ch_writable ch' = ch_writable ch" "was_writable ch' = was_writable ch"
    "remote_candidates ch' = remote_candidates ch" "ch_readable ch' = ch_readable ch" "ch_remote_ice_mode ch' = ch_remote_ice_mode ch"
    "incoming_only ch' = incoming_only ch"
  using assms by (auto simp: same_chan_def)

lemma set_chan_fields [simp]: "chan (set_chan f W) = f (chan W)" "ports (set_chan f W) = ports W" "news (set_chan f W) = news W"
    "outs (set_chan f W) = outs W"
  by (simp_all add: set_chan_def)

lemma out_fields [simp]: "chan (out e W) = chan W" "ports (out e W) = ports W" "news (out e W) = news W"
  by (simp_all add: out_def)

lemma same_chan_best [simp]: "same_chan ch (ch\<lparr>best_connection := b\<rparr>)" "same_chan ch (ch\<lparr>pending_best_connection := pend\<rparr>)"
    "same_chan ch (ch\<lparr>sort_dirty := d\<rparr>)" "same_chan ch (ch\<lparr>pending_best_connection := pend, best_connection := b\<rparr>)"
  by (cases ch; simp add: same_chan_def)+

lemma RequestSort_fields [simp]: "ports (RequestSort W) = ports W" "news (RequestSort W) = news W" "same_chan (chan W) (chan (RequestSort W))"
    "best_connection (chan (RequestSort W)) = best_connection (chan W)"
    "pending_best_connection (chan (RequestSort W)) = pending_best_connection (chan W)"
  by (simp_all add: RequestSort_def)

lemma Switch_fields:
  assumes "SwitchBestConnectionTo r W = Some W'"
  shows "ports W' = ports W \<and> news W' = news W \<and> chan W' = (chan W)\<lparr>best_connection := r\<rparr>"
  using assms by (auto simp: SwitchBestConnectionTo_def Let_def bind_eq_Some_conv split: option.splits)

definition picked :: "p2p_channel \<Rightarrow> conn_ref set" where
  "picked ch = set_option (best_connection ch) \<union> set_option (pending_best_connection ch)"

lemma picked_RequestSort [simp]: "picked (chan (RequestSort W)) = picked (chan W)"
  by (simp add: picked_def)

lemma on_event_mild:
  assumes "on_event p e W = Some W'" "\<And>k. e \<noteq> SignalConnectionDestroyed k" "e \<noteq> SignalPortDestroyed"
  shows "ports W' = ports W \<and> news W' = news W \<and> same_chan (chan W) (chan W') \<and>
    picked (chan W') \<subseteq> picked (chan W) \<union> (case refers e of None \<Rightarrow> {} | Some k \<Rightarrow> {(p, k)})"
proof (cases e)
  case (SignalStateChange k st)
  let ?hit = "protocol_type (chan W) = ICEPROTO_RFC5245 \<and> ch_ice_role (chan W) = ICEROLE_CONTROLLED \<and>
    pending_best_connection (chan W) = Some (p, k) \<and> st = STATE_WRITABLE"
  obtain V where V: "(if ?hit then SwitchBestConnectionTo (Some (p, k)) (set_chan (\<lambda>c. c\<lparr>pending_best_connection := None\<rparr>) W) else Some W) = Some V"
      "W' = RequestSort V"
    using assms(1) by (auto simp: SignalStateChange on_event_def OnConnectionStateChange_def Let_def bind_eq_Some_conv)
  show ?thesis
  proof (cases ?hit)
    case True
    with V(1) have "SwitchBestConnectionTo (Some (p, k)) (set_chan (\<lambda>c. c\<lparr>pending_best_connection := None\<rparr>) W) = Some V" by simp
    from Switch_fields [OF this] show ?thesis
      using same_chan_trans [OF _ RequestSort_fields(3) [of V]] by (simp add: V(2) SignalStateChange refers_def picked_def)
  next
    case False
    then show ?thesis using V by auto
  qed
next
  case (SignalUseCandidate k)
  obtain c where c: "connection_of W (p, k) = Some c"
    using assms(1) by (auto simp: SignalUseCandidate on_event_def OnUseCandidate_def bind_eq_Some_conv)
  show ?thesis
  proof (cases "write_state c = STATE_WRITABLE \<and> best_connection (chan W) \<noteq> Some (p, k)")
    case True
    then obtain V where V: "SwitchBestConnectionTo (Some (p, k)) (set_chan (\<lambda>c. c\<lparr>pending_best_connection := None\<rparr>) W) = Some V"
        "W' = RequestSort V"
      using assms(1) c by (auto simp: SignalUseCandidate on_event_def OnUseCandidate_def bind_eq_Some_conv)
    from Switch_fields [OF V(1)] show ?thesis
      using same_chan_trans [OF _ RequestSort_fields(3) [of V]] by (simp add: V(2) SignalUseCandidate refers_def picked_def)
  next
    case False
    then show ?thesis using assms(1) c by (auto simp: SignalUseCandidate on_event_def OnUseCandidate_def refers_def picked_def split: if_splits)
  qed
qed (use assms in \<open>auto simp: on_event_def Channel_OnReadPacket_def Channel_OnReadyToSend_def OnRoleConflict_def refers_def split: if_split_asm\<close>)

lemma on_events_mild:
  assumes "on_events p es W = Some W'" "list_all (mild m) es"
  shows "ports W' = ports W \<and> news W' = news W \<and> same_chan (chan W) (chan W') \<and>
    picked (chan W') \<subseteq> picked (chan W) \<union> {p} \<times> dom m"
  using assms
proof (induction es arbitrary: W)
  case (Cons e es)
  then obtain V where V: "on_event p e W = Some V" "on_events p es V = Some W'" by (auto simp: bind_eq_Some_conv)
  have e: "mild m e" using Cons.prems(2) by simp
  have 1: "ports V = ports W \<and> news V = news W \<and> same_chan (chan W) (chan V) \<and>
      picked (chan V) \<subseteq> picked (chan W) \<union> (case refers e of None \<Rightarrow> {} | Some k \<Rightarrow> {(p, k)})"
    using on_event_mild [OF V(1)] e by (simp add: mild_def)
  have 2: "(case refers e of None \<Rightarrow> {} | Some k \<Rightarrow> {(p, k)}) \<subseteq> {p} \<times> dom m" using e by (auto simp: mild_def split: option.splits)
  show ?case using Cons.IH [OF V(2)] Cons.prems(2) 1 2 same_chan_trans [of "chan W" "chan V" "chan W'"] by auto
qed simp

section \<open>Operations of ports\<close>

text \<open>The relation between the worlds around a framed operation: the ports are related one by one, and the channel changes only its
  choices, to connections that live.\<close>

definition ports_frame :: "(nat \<rightharpoonup> ice_world) \<Rightarrow> (nat \<rightharpoonup> ice_world) \<Rightarrow> bool" where
  "ports_frame ps ps' \<longleftrightarrow> dom ps' = dom ps \<and> (\<forall>p w w'. ps p = Some w \<longrightarrow> ps' p = Some w' \<longrightarrow> frame w w')"

definition wframe :: "p2p_world \<Rightarrow> p2p_world \<Rightarrow> bool" where
  "wframe W W' \<longleftrightarrow> ports_frame (ports W) (ports W') \<and> news W' = news W \<and> same_chan (chan W) (chan W') \<and>
     picked (chan W') \<subseteq> picked (chan W) \<union> live (ports W)"

lemma ports_frame_refl [simp]: "ports_frame ps ps"
  by (auto simp: ports_frame_def)

lemma ports_frame_trans: "ports_frame ps qs \<Longrightarrow> ports_frame qs rs \<Longrightarrow> ports_frame ps rs"
  unfolding ports_frame_def
proof (elim conjE, intro conjI allI impI)
  fix p w w'
  assume d: "dom qs = dom ps" "dom rs = dom qs" and f: "\<forall>p w w'. ps p = Some w \<longrightarrow> qs p = Some w' \<longrightarrow> frame w w'"
    "\<forall>p w w'. qs p = Some w \<longrightarrow> rs p = Some w' \<longrightarrow> frame w w'" and p: "ps p = Some w" "rs p = Some w'"
  then have "p \<in> dom qs" by auto
  then obtain v where "qs p = Some v" by blast
  then show "frame w w'" using f p frame_trans by blast
qed auto

lemma ports_frame_live: "ports_frame ps qs \<Longrightarrow> live qs = live ps"
proof -
  assume f: "ports_frame ps qs"
  have "(\<exists>w. qs p = Some w \<and> conns w k \<noteq> None) = (\<exists>w. ps p = Some w \<and> conns w k \<noteq> None)" for p k
  proof (cases "ps p")
    case None
    then have "qs p = None" using f unfolding ports_frame_def by (metis domIff)
    then show ?thesis using None by simp
  next
    case (Some w)
    then have "p \<in> dom qs" using f by (auto simp: ports_frame_def)
    then obtain w' where w': "qs p = Some w'" by blast
    then have "dom (conns w') = dom (conns w)" using f Some by (simp add: ports_frame_def frame_def)
    then have "conns w' k \<noteq> None \<longleftrightarrow> conns w k \<noteq> None" by (simp add: dom_def set_eq_iff)
    then show ?thesis using Some w' by simp
  qed
  then show ?thesis by (simp add: live_def)
qed

lemma wframe_refl [simp]: "wframe W W"
  by (auto simp: wframe_def)

lemma wframe_trans: "wframe U V \<Longrightarrow> wframe V W \<Longrightarrow> wframe U W"
  using ports_frame_live [of "ports U" "ports V"] by (auto simp: wframe_def intro: ports_frame_trans same_chan_trans)

lemma frame_sigs:
  assumes "frame (w\<lparr>sigs := []\<rparr>) w'"
  shows "frame w (w'\<lparr>sigs := sigs w @ sigs w'\<rparr>)" "list_all (mild (conns w)) (sigs w')"
  using assms by (auto simp: frame_def)

lemma wframe_port_op:
  assumes "port_op p f W = Some W'" "\<And>w w'. f w = Some w' \<Longrightarrow> frame w w'"
  shows "wframe W W'"
proof -
  obtain w w' where w: "ports W p = Some w" "f (w\<lparr>sigs := []\<rparr>) = Some w'"
      "on_events p (sigs w') (W\<lparr>ports := (ports W)(p \<mapsto> w'\<lparr>sigs := sigs w @ sigs w'\<rparr>)\<rparr>) = Some W'"
    using assms(1) by (auto simp: port_op_def bind_eq_Some_conv)
  note f = frame_sigs [OF assms(2) [OF w(2)]]
  from on_events_mild [OF w(3) f(2)] have 1: "ports W' = (ports W)(p \<mapsto> w'\<lparr>sigs := sigs w @ sigs w'\<rparr>)" "news W' = news W"
      "same_chan (chan W) (chan W')" "picked (chan W') \<subseteq> picked (chan W) \<union> {p} \<times> dom (conns w)" by simp_all
  have "ports_frame (ports W) (ports W')" using w(1) f(1) 1(1) by (auto simp: ports_frame_def)
  moreover have "{p} \<times> dom (conns w) \<subseteq> live (ports W)" using w(1) by (auto simp: live_def)
  ultimately show ?thesis using 1 by (auto simp: wframe_def)
qed

lemma frame_port_ok:
  assumes "frame w w'" "port_ok h w" shows "port_ok h w'"
proof -
  have p: "connections (the_port w') = connections (the_port w)" "\<exists>cs. candidates (the_port w') = candidates (the_port w) @ cs"
    using assms(1) same_port_fields by (auto simp: frame_def)
  have d: "conns w' k \<noteq> None \<longleftrightarrow> conns w k \<noteq> None" for k using assms(1) by (auto simp: frame_def dom_def)
  have c: "same_conn (the_port w) c (the_port w') c'" if "conns w k = Some c" "conns w' k = Some c'" for k c c'
    using assms(1) that by (auto simp: frame_def)
  have 1: "\<exists>c. conns w' k = Some c \<and> cd_address (remote_candidate c) = a" if r: "conns w k = Some c" "cd_address (remote_candidate c) = a" for k c a
  proof -
    obtain c' where c': "conns w' k = Some c'" using d [of k] r(1) by auto
    with c [OF r(1) c'] r(2) show ?thesis by (simp add: same_conn_def)
  qed
  have 2: "(cd_address (remote_candidate c'), k) \<in> set (connections (the_port w)) \<and> local_candidate (the_port w') c' \<noteq> None"
    if r: "conns w' k = Some c'" for k c'
  proof -
    obtain c0 where c0: "conns w k = Some c0" using d [of k] r by auto
    then show ?thesis using assms(2) c [OF c0 r] by (auto simp: port_ok_def same_conn_def)
  qed
  have 3: "sa_ok a \<and> (\<exists>c. conns w' k = Some c \<and> cd_address (remote_candidate c) = a)" if "(a, k) \<in> set (connections (the_port w))" for a k
    using assms(2) that 1 by (auto simp: port_ok_def)
  show ?thesis using assms(2) p 2 3 by (auto simp: port_ok_def)
qed

lemma wframe_ok: "wframe W W' \<Longrightarrow> channel_ok h W \<Longrightarrow> channel_ok h W'"
  unfolding channel_ok_def wframe_def
proof (intro conjI; (elim conjE)?)
  assume f: "ports_frame (ports W) (ports W')" "same_chan (chan W) (chan W')" "picked (chan W') \<subseteq> picked (chan W) \<union> live (ports W)"
    and ok: "chan_ok (chan W) (live (ports W))" "\<forall>p w. ports W p = Some w \<longrightarrow> port_ok h w" "\<forall>p\<in>set (ch_ports (chan W)). ports W p \<noteq> None"
  show "chan_ok (chan W') (live (ports W'))"
    using ok(1) f(3) same_chan_fields [OF f(2)] ports_frame_live [OF f(1)] by (auto simp: chan_ok_def picked_def)
  have d: "ports W' p \<noteq> None \<longleftrightarrow> ports W p \<noteq> None" for p using f(1) by (auto simp: ports_frame_def dom_def)
  show "\<forall>p w. ports W' p = Some w \<longrightarrow> port_ok h w"
  proof (intro allI impI)
    fix p w' assume w': "ports W' p = Some w'"
    then obtain w where "ports W p = Some w" using d [of p] by auto
    then show "port_ok h w'" using w' f(1) ok(2) frame_port_ok [of w w' h] by (auto simp: ports_frame_def)
  qed
  show "\<forall>p\<in>set (ch_ports (chan W')). ports W' p \<noteq> None" using ok(3) d same_chan_fields(2) [OF f(2)] by simp
qed

end
