(* ===== verification/P2p_Sort.thy ===== *)
theory P2p_Sort
  imports P2p_Frame "HOL-Library.Multiset"
begin

text \<open>
  Sorting the connections of a channel: the comparison is an order as long as the generations are small, \<^verbatim>\<open>std::stable_sort\<close>
  sorts by it, and what \<^verbatim>\<open>SortConnections\<close> does to the channel and its connections.
\<close>

section \<open>Stable sorting\<close>

lemma mset_stable_insert: "mset (stable_insert lt x xs) = add_mset x (mset xs)"
  by (induction xs) auto

lemma set_stable_insert [simp]: "set (stable_insert lt x xs) = insert x (set xs)"
  by (induction xs) auto

lemma mset_stable_sort [simp]: "mset (stable_sort lt xs) = mset xs"
  by (induction xs) (simp_all add: stable_sort_def mset_stable_insert)

lemma set_stable_sort [simp]: "set (stable_sort lt xs) = set xs"
  using mset_eq_setD [OF mset_stable_sort] .

lemma distinct_stable_sort [simp]: "distinct (map f (stable_sort lt xs)) = distinct (map f xs)"
proof -
  have "mset (map f (stable_sort lt xs)) = mset (map f xs)" by simp
  then show ?thesis by (rule mset_eq_imp_distinct_iff)
qed

text \<open>In every order of keys the result is sorted, and keys that are equal stay in their places.\<close>

context key_order
begin

abbreviation le :: "'a \<Rightarrow> 'a \<Rightarrow> bool" where "le x y \<equiv> \<not> lt y x"

lemma le_trans: "ok a \<Longrightarrow> ok b \<Longrightarrow> ok c \<Longrightarrow> le a b \<Longrightarrow> le b c \<Longrightarrow> le a c"
  using trichotomy lt_eq_trans eq_lt_trans eq_sym lt_trans lt_asym by metis

lemma sorted_stable_insert:
  assumes "ok x" "list_all ok xs" "sorted_wrt le xs"
  shows "sorted_wrt le (stable_insert lt x xs)"
  using assms
proof (induction xs)
  case (Cons y ys)
  show ?case
  proof (cases "lt y x")
    case True
    have "le y z" if "z \<in> set (stable_insert lt x ys)" for z
      using that Cons.prems True lt_asym by (auto simp: list_all_iff)
    then show ?thesis using Cons True by simp
  next
    case False
    have "le x z" if "z \<in> set ys" for z
      using Cons.prems False that le_trans [of x y z] by (auto simp: list_all_iff)
    then show ?thesis using Cons False by simp
  qed
qed simp

lemma sorted_stable_sort:
  assumes "list_all ok xs"
  shows "sorted_wrt le (stable_sort lt xs)"
  using assms
proof (induction xs)
  case (Cons x xs)
  then have "list_all ok (stable_sort lt xs)" by (simp add: list_all_iff)
  then show ?case using Cons sorted_stable_insert [of x "stable_sort lt xs"] by (simp add: stable_sort_def)
qed (simp add: stable_sort_def)

lemma filter_stable_insert:
  assumes "ok x" "ok z" "list_all ok xs"
  shows "filter (eq z) (stable_insert lt x xs) = filter (eq z) (x # xs)"
  using assms
proof (induction xs)
  case (Cons y ys)
  have "\<not> (eq z y \<and> eq z x)" if "lt y x"
    using that Cons.prems trichotomy [of y x] eq_trans [of y z x] eq_sym [of z y] by auto
  then show ?case using Cons by auto
qed simp

lemma stable_stable_sort:
  assumes "ok z" "list_all ok xs"
  shows "filter (eq z) (stable_sort lt xs) = filter (eq z) xs"
  using assms
proof (induction xs)
  case (Cons x xs)
  then have "list_all ok (stable_sort lt xs)" by (simp add: list_all_iff)
  then show ?case using Cons filter_stable_insert [of x z "stable_sort lt xs"] by (simp add: stable_sort_def)
qed (simp add: stable_sort_def)

end

section \<open>The order of connections\<close>

text \<open>Generations below \<open>2\<^sup>3\<^sup>1\<close> are compared as numbers.\<close>

definition small_key :: "conn_key \<Rightarrow> bool" where "small_key k \<longleftrightarrow> uint (ck_generation k) < 2 ^ 31"

lemma sint_diff_small:
  fixes a b :: u32
  assumes "uint a < 2 ^ 31" "uint b < 2 ^ 31"
  shows "sint (a - b) = uint a - uint b"
proof -
  have u: "sint x = uint x" if "uint x < 2 ^ 31" for x :: u32
  proof -
    have "signed_take_bit 31 (uint x) = uint x" using that uint_ge_0 [of x] by (intro signed_take_bit_int_eq_self) linarith+
    then show ?thesis by (simp add: sint_uint)
  qed
  have "sint (a - b) = signed_take_bit 31 (sint a - sint b)" by (simp add: sint_word_ariths)
  also have "\<dots> = uint a - uint b" unfolding u [OF assms(1)] u [OF assms(2)]
    using assms uint_ge_0 [of a] uint_ge_0 [of b] by (intro signed_take_bit_int_eq_self) linarith+
  finally show ?thesis .
qed

lemma compare_lex:
  assumes "small_key a" "small_key b"
  shows "CompareConnectionCandidates a b > 0 \<longleftrightarrow> ck_priority a > ck_priority b \<or>
      ck_priority a = ck_priority b \<and> ck_generation a > ck_generation b"
    "CompareConnectionCandidates a b < 0 \<longleftrightarrow> ck_priority a < ck_priority b \<or>
      ck_priority a = ck_priority b \<and> ck_generation a < ck_generation b"
proof -
  have g: "sint (ck_generation a - ck_generation b) = uint (ck_generation a) - uint (ck_generation b)"
    using assms by (simp add: small_key_def sint_diff_small)
  have "ck_generation a < ck_generation b \<longleftrightarrow> uint (ck_generation a) < uint (ck_generation b)"
    "ck_generation b < ck_generation a \<longleftrightarrow> uint (ck_generation b) < uint (ck_generation a)" by (simp_all add: word_less_def)
  then show "CompareConnectionCandidates a b > 0 \<longleftrightarrow> ck_priority a > ck_priority b \<or>
      ck_priority a = ck_priority b \<and> ck_generation a > ck_generation b"
    "CompareConnectionCandidates a b < 0 \<longleftrightarrow> ck_priority a < ck_priority b \<or>
      ck_priority a = ck_priority b \<and> ck_generation a < ck_generation b"
    by (auto simp: CompareConnectionCandidates_def g)
qed

lemma ConnectionCompare_lex:
  assumes "small_key a" "small_key b"
  shows "ConnectionCompare a b \<longleftrightarrow> write_rank (ck_write a) < write_rank (ck_write b) \<or>
    write_rank (ck_write a) = write_rank (ck_write b) \<and> (ck_priority a > ck_priority b \<or>
      ck_priority a = ck_priority b \<and> (ck_generation a > ck_generation b \<or>
        ck_generation a = ck_generation b \<and> ck_rtt a < ck_rtt b))"
  using compare_lex [OF assms] linorder_less_linear [of "ck_generation a" "ck_generation b"]
  by (auto simp: ConnectionCompare_def CompareConnections_def Let_def)

lemma write_rank_inj [simp]: "write_rank a = write_rank b \<longleftrightarrow> a = b"
  by (cases a; cases b) (simp_all add: write_rank_def)

interpretation ck: key_order ConnectionCompare "\<lambda>a b. \<not> ConnectionCompare a b \<and> \<not> ConnectionCompare b a" small_key
proof unfold_locales
  fix a b c assume "small_key a" "small_key b" "small_key c" "ConnectionCompare a b" "ConnectionCompare b c"
  then show "ConnectionCompare a c" by (auto simp: ConnectionCompare_lex)
next
  fix a b c assume k: "small_key a" "small_key b" "small_key c" "\<not> ConnectionCompare a b \<and> \<not> ConnectionCompare b a"
    "\<not> ConnectionCompare b c \<and> \<not> ConnectionCompare c b"
  have eq: "ck_write x = ck_write y \<and> ck_priority x = ck_priority y \<and> ck_generation x = ck_generation y \<and> ck_rtt x = ck_rtt y"
    if "\<not> ConnectionCompare x y \<and> \<not> ConnectionCompare y x" "small_key x" "small_key y" for x y
    using that by (auto simp: ConnectionCompare_lex not_less)
  from eq [OF k(4,1,2)] eq [OF k(5,2,3)] k(1-3) show "\<not> ConnectionCompare a c \<and> \<not> ConnectionCompare c a"
    by (simp add: ConnectionCompare_lex)
next
  fix a assume "small_key a" then show "\<not> ConnectionCompare a a" by (simp add: ConnectionCompare_lex)
qed simp

section \<open>Quiet events\<close>

text \<open>Signals that let the channel do no more than ask for a sort.\<close>

definition quiet :: "p2p_channel \<Rightarrow> ice_event \<Rightarrow> bool" where
  "quiet ch e \<longleftrightarrow> (\<exists>k st. e = SignalStateChange k st \<and>
      (st \<noteq> STATE_WRITABLE \<or> protocol_type ch \<noteq> ICEPROTO_RFC5245 \<or> ch_ice_role ch \<noteq> ICEROLE_CONTROLLED)) \<or> (\<exists>k. e = PostDelete k)"

definition dirtied :: "p2p_world \<Rightarrow> p2p_world \<Rightarrow> bool" where
  "dirtied W W' \<longleftrightarrow> ports W' = ports W \<and> news W' = news W \<and> (\<exists>d. chan W' = (chan W)\<lparr>sort_dirty := d\<rparr>) \<and>
     (\<exists>n. outs W' = outs W @ replicate n PostSort)"

lemma dirtied_refl [simp]: "dirtied W W"
  by (cases W; cases "chan W") (auto simp: dirtied_def intro: exI [of _ 0])

lemma dirtied_trans: "dirtied U V \<Longrightarrow> dirtied V W \<Longrightarrow> dirtied U W"
  unfolding dirtied_def
proof (elim conjE exE, intro conjI)
  fix d n d' n'
  assume "outs V = outs U @ replicate n PostSort" "outs W = outs V @ replicate n' PostSort"
  then show "\<exists>n. outs W = outs U @ replicate n PostSort" by (intro exI [of _ "n + n'"]) (simp add: replicate_add)
qed auto

lemma dirtied_RequestSort: "dirtied W (RequestSort W)"
proof (cases "sort_dirty (chan W)")
  case False
  then show ?thesis by (auto simp: RequestSort_def dirtied_def set_chan_def out_def intro!: exI [of _ 1])
qed (simp add: RequestSort_def)

lemma quiet_event:
  assumes "quiet (chan W) e"
  shows "\<exists>W'. on_event p e W = Some W' \<and> dirtied W W'"
proof -
  have "\<exists>W'. OnConnectionStateChange (p, k) st W = Some W' \<and> dirtied W W'"
    if "st \<noteq> STATE_WRITABLE \<or> protocol_type (chan W) \<noteq> ICEPROTO_RFC5245 \<or> ch_ice_role (chan W) \<noteq> ICEROLE_CONTROLLED" for k st
    using that dirtied_RequestSort by (auto simp: OnConnectionStateChange_def Let_def)
  then show ?thesis using assms by (auto simp: quiet_def on_event_def)
qed

lemma quiet_cong: "chan W' = (chan W)\<lparr>sort_dirty := d\<rparr> \<Longrightarrow> quiet (chan W') = quiet (chan W)"
  by (simp add: quiet_def fun_eq_iff)

lemma quiet_events:
  assumes "list_all (quiet (chan W)) es"
  shows "\<exists>W'. on_events p es W = Some W' \<and> dirtied W W'"
  using assms
proof (induction es arbitrary: W)
  case (Cons e es)
  obtain V where V: "on_event p e W = Some V" "dirtied W V" using quiet_event [of W e p] Cons.prems by auto
  from V(2) obtain d where "chan V = (chan W)\<lparr>sort_dirty := d\<rparr>" by (auto simp: dirtied_def)
  from quiet_cong [OF this] have "list_all (quiet (chan V)) es" using Cons.prems by simp
  from Cons.IH [OF this] V show ?case by (auto intro: dirtied_trans)
qed simp

text \<open>An operation that changes one connection and is quiet.\<close>

lemma quiet_port_op:
  assumes "ports W p = Some w" "f (w\<lparr>sigs := []\<rparr>) = Some (w\<lparr>conns := (conns w)(k \<mapsto> c'), sigs := es\<rparr>)" "list_all (quiet (chan W)) es"
  shows "\<exists>W'. port_op p f W = Some W' \<and>
    dirtied (W\<lparr>ports := (ports W)(p \<mapsto> w\<lparr>conns := (conns w)(k \<mapsto> c'), sigs := sigs w @ es\<rparr>)\<rparr>) W'"
  using assms quiet_events [of "W\<lparr>ports := (ports W)(p \<mapsto> w\<lparr>conns := (conns w)(k \<mapsto> c'), sigs := sigs w @ es\<rparr>)\<rparr>" es p]
  by (simp add: port_op_def)

definition agrees :: "p2p_world \<Rightarrow> bool" where
  "agrees W \<longleftrightarrow> (protocol_type (chan W) = ICEPROTO_RFC5245 \<longrightarrow> (\<forall>p w. ports W p = Some w \<longrightarrow> \<not> IsGoogleIce (the_port w)))"

section \<open>Operations on every connection\<close>

text \<open>Around these operations the ports stay, every connection is related to itself by \<open>R\<close>, and the channel may be dirtied.\<close>

definition each_conn :: "(conn_ref \<Rightarrow> Connection \<Rightarrow> Connection \<Rightarrow> bool) \<Rightarrow> p2p_world \<Rightarrow> p2p_world \<Rightarrow> bool" where
  "each_conn R W W' \<longleftrightarrow> (\<exists>d. chan W' = (chan W)\<lparr>sort_dirty := d\<rparr>) \<and> news W' = news W \<and>
     (\<forall>p. map_option the_port (ports W' p) = map_option the_port (ports W p)) \<and>
     (\<forall>r. connection_of W r = None \<longrightarrow> connection_of W' r = None) \<and>
     (\<forall>r c. connection_of W r = Some c \<longrightarrow> (\<exists>c'. connection_of W' r = Some c' \<and> R r c c'))"

lemma each_conn_trans:
  assumes "each_conn R U V" "each_conn S V W" "\<And>r a b c. R r a b \<Longrightarrow> S r b c \<Longrightarrow> T r a c"
  shows "each_conn T U W"
  using assms unfolding each_conn_def by fastforce

lemma each_conn_refl: "(\<And>r c. R r c c) \<Longrightarrow> each_conn R W W"
  by (cases W; cases "chan W") (auto simp: each_conn_def)

lemma each_conn_mono: "each_conn R W W' \<Longrightarrow> (\<And>r c c'. R r c c' \<Longrightarrow> S r c c') \<Longrightarrow> each_conn S W W'"
  unfolding each_conn_def by blast

lemma connection_of_cong: "ports W' = ports W \<Longrightarrow> connection_of W' = connection_of W"
  by (simp add: connection_of_def fun_eq_iff)

lemma each_conn_one:
  assumes "connection_of W (p, k) = Some c" "ports W p = Some w"
    "dirtied (W\<lparr>ports := (ports W)(p \<mapsto> w\<lparr>conns := (conns w)(k \<mapsto> c'), sigs := ss\<rparr>)\<rparr>) W'"
  shows "each_conn (\<lambda>r a b. b = (if r = (p, k) then c' else a)) W W'"
proof -
  have p: "ports W' = (ports W)(p \<mapsto> w\<lparr>conns := (conns w)(k \<mapsto> c'), sigs := ss\<rparr>)" using assms(3) by (simp add: dirtied_def)
  have c: "conns w k = Some c" using assms(1,2) by (simp add: connection_of_def)
  have "connection_of W' r = (if r = (p, k) then Some c' else connection_of W r)" for r
    using assms(2) p c by (cases r) (auto simp: connection_of_def)
  then show ?thesis using assms p by (auto simp: each_conn_def dirtied_def)
qed

lemma each_agrees: "each_conn R W W' \<Longrightarrow> agrees W \<Longrightarrow> agrees W'"
proof -
  assume e: "each_conn R W W'" and a: "agrees W"
  have p: "\<not> IsGoogleIce (the_port w)" if "protocol_type (chan W) = ICEPROTO_RFC5245" "ports W' p = Some w" for p w
  proof -
    have "map_option the_port (ports W p) = Some (the_port w)" using e that(2) unfolding each_conn_def by (metis option.simps(9))
    then obtain v where "ports W p = Some v" "the_port v = the_port w" by auto
    then show ?thesis using a that(1) by (metis agrees_def)
  qed
  then show ?thesis using e by (auto simp: agrees_def each_conn_def)
qed

definition restated :: "conn_ref \<Rightarrow> Connection \<Rightarrow> Connection \<Rightarrow> bool" where
  "restated r c c' \<longleftrightarrow> c' = c\<lparr>read_state := read_state c', write_state := write_state c'\<rparr>"

lemma restated_refl [simp]: "restated r c c"
  by (simp add: restated_def)

lemma restated_trans: "restated r a b \<Longrightarrow> restated r b c \<Longrightarrow> restated r a c"
  by (cases a; cases b; cases c) (simp add: restated_def)

lemma update_step:
  assumes "connection_of W (p, k) = Some c" "agrees W"
  shows "\<exists>W'. port_op p (UpdateState now k) W = Some W' \<and> each_conn restated W W'"
proof -
  obtain w where w: "ports W p = Some w" "conns w k = Some c" using assms(1) by (auto simp: connection_of_def bind_eq_Some_conv)
  have k: "conns (w\<lparr>sigs := []\<rparr>) k = Some c" using w(2) by simp
  from UpdateState_eq [OF k, of now] obtain es c' where u: "UpdateState now k (w\<lparr>sigs := []\<rparr>) = Some (w\<lparr>conns := (conns w)(k \<mapsto> c'), sigs := es\<rparr>)"
      "set es \<subseteq> insert (PostDelete k) (state_changes k)" "restated (p, k) c c'"
      "SignalStateChange k STATE_WRITABLE \<in> set es \<longrightarrow> IsGoogleIce (the_port w)"
    by (auto simp: restated_def)
  have "list_all (quiet (chan W)) es" using u(2,4) assms(2) w(1) by (fastforce simp: list_all_iff quiet_def agrees_def)
  from quiet_port_op [where f = "UpdateState now k", OF w(1) u(1) this] obtain W' where W': "port_op p (UpdateState now k) W = Some W'"
      "dirtied (W\<lparr>ports := (ports W)(p \<mapsto> w\<lparr>conns := (conns w)(k \<mapsto> c'), sigs := sigs w @ es\<rparr>)\<rparr>) W'" by blast
  have "each_conn (\<lambda>r a b. b = (if r = (p, k) then c' else a)) W W'" using each_conn_one [OF assms(1) w(1) W'(2)] .
  moreover have "connection_of W (p, k) = Some c" by (rule assms(1))
  ultimately have "each_conn restated W W'" using u(3) unfolding each_conn_def by (auto simp: restated_def)
  then show ?thesis using W'(1) by blast
qed

lemma update_states_total:
  assumes "\<forall>r\<in>set rs. connection_of W r \<noteq> None" "agrees W"
  shows "\<exists>W'. update_states now rs W = Some W' \<and> each_conn restated W W'"
  using assms
proof (induction rs arbitrary: W)
  case Nil
  then show ?case by (auto intro: each_conn_refl)
next
  case (Cons r rs)
  obtain p k where r: "r = (p, k)" by (cases r)
  obtain c where "connection_of W (p, k) = Some c" using Cons.prems(1) r by auto
  from update_step [OF this Cons.prems(2), of now] obtain V where V: "port_op p (UpdateState now k) W = Some V" "each_conn restated W V" by blast
  have "\<forall>r\<in>set rs. connection_of V r \<noteq> None" using V(2) Cons.prems(1) unfolding each_conn_def by fastforce
  from Cons.IH [OF this each_agrees [OF V(2) Cons.prems(2)]] obtain W' where
    W': "update_states now rs V = Some W'" "each_conn restated V W'" by blast
  show ?case using V W' each_conn_trans [OF V(2) W'(2) restated_trans] by (auto simp: r)
qed

definition pruned_by :: "conn_ref set \<Rightarrow> conn_ref \<Rightarrow> Connection \<Rightarrow> Connection \<Rightarrow> bool" where
  "pruned_by S r c c' \<longleftrightarrow> (\<exists>rqs. c' = (if r \<in> S \<and> \<not> pruned c
     then c\<lparr>pruned := True, conn_requests := rqs, write_state := STATE_WRITE_TIMEOUT\<rparr> else c))"

definition clearable :: "Connection \<Rightarrow> bool" where
  "clearable c \<longleftrightarrow> pruned c \<or> Requests_Clear (conn_requests c) \<noteq> None"

lemma prune_step:
  assumes "connection_of W (p, k) = Some c" "clearable c"
  shows "\<exists>W'. port_op p (Prune k) W = Some W' \<and> each_conn (pruned_by {(p, k)}) W W'"
proof -
  obtain w where w: "ports W p = Some w" "conns w k = Some c" using assms(1) by (auto simp: connection_of_def bind_eq_Some_conv)
  show ?thesis
  proof (cases "pruned c")
    case True
    have "port_op p (Prune k) W = Some W" using w True
      by (cases w) (auto simp: port_op_def Prune_def fun_upd_idem)
    moreover have "each_conn (pruned_by {(p, k)}) W W"
      using assms(1) True by (cases W; cases "chan W") (auto simp: each_conn_def pruned_by_def)
    ultimately show ?thesis by blast
  next
    case False
    then obtain rqs where rqs: "Requests_Clear (conn_requests c) = Some rqs" using assms(2) by (auto simp: clearable_def)
    define c' where "c' = c\<lparr>pruned := True, conn_requests := rqs, write_state := STATE_WRITE_TIMEOUT\<rparr>"
    have k: "conns (put k (c\<lparr>pruned := True, conn_requests := rqs\<rparr>) (w\<lparr>sigs := []\<rparr>)) k = Some (c\<lparr>pruned := True, conn_requests := rqs\<rparr>)"
      by (simp add: put_def)
    define es where "es = (if STATE_WRITE_TIMEOUT = write_state c then [] else SignalStateChange k STATE_WRITE_TIMEOUT #
      (if read_state c \<noteq> STATE_READABLE then [PostDelete k] else []))"
    have es: "Prune k (w\<lparr>sigs := []\<rparr>) = Some (w\<lparr>conns := (conns w)(k \<mapsto> c'), sigs := es\<rparr>)"
        "set es \<subseteq> {SignalStateChange k STATE_WRITE_TIMEOUT, PostDelete k}"
      using w(2) False rqs set_write_state_eq [OF k, of STATE_WRITE_TIMEOUT] by (simp add: Prune_def c'_def put_def es_def, auto simp: es_def)
    have "list_all (quiet (chan W)) es" using es(2) by (auto simp: list_all_iff quiet_def)
    from quiet_port_op [where f = "Prune k", OF w(1) es(1) this] obtain W' where W': "port_op p (Prune k) W = Some W'"
        "dirtied (W\<lparr>ports := (ports W)(p \<mapsto> w\<lparr>conns := (conns w)(k \<mapsto> c'), sigs := sigs w @ es\<rparr>)\<rparr>) W'" by blast
    have "each_conn (\<lambda>r a b. b = (if r = (p, k) then c' else a)) W W'" using each_conn_one [OF assms(1) w(1) W'(2)] .
    then have "each_conn (pruned_by {(p, k)}) W W'" using assms(1) False unfolding each_conn_def
      by (auto simp: pruned_by_def c'_def)
    then show ?thesis using W'(1) by blast
  qed
qed

lemma pruned_by_trans: "pruned_by S r a b \<Longrightarrow> pruned_by T r b c \<Longrightarrow> pruned_by (S \<union> T) r a c"
  by (auto simp: pruned_by_def split: if_splits)

lemma pruned_by_clearable: "pruned_by S r c c' \<Longrightarrow> clearable c \<Longrightarrow> clearable c'"
  by (auto simp: pruned_by_def clearable_def split: if_splits)

lemma prune_all_total:
  assumes "\<forall>r\<in>set rs. \<exists>c. connection_of W r = Some c \<and> clearable c"
  shows "\<exists>W'. prune_all rs W = Some W' \<and> each_conn (pruned_by (set rs)) W W'"
  using assms
proof (induction rs arbitrary: W)
  case Nil
  then show ?case by (auto intro: each_conn_refl simp: pruned_by_def)
next
  case (Cons r rs)
  obtain p k where r: "r = (p, k)" by (cases r)
  obtain c where c: "connection_of W (p, k) = Some c" "clearable c" using Cons.prems r by auto
  from prune_step [OF c] obtain V where V: "port_op p (Prune k) W = Some V" "each_conn (pruned_by {(p, k)}) W V" by blast
  have "\<forall>r\<in>set rs. \<exists>c. connection_of V r = Some c \<and> clearable c"
    using V(2) Cons.prems pruned_by_clearable unfolding each_conn_def by (metis list.set_intros(2))
  from Cons.IH [OF this] obtain W' where W': "prune_all rs V = Some W'" "each_conn (pruned_by (set rs)) V W'" by blast
  have "each_conn (pruned_by (insert r (set rs))) W W'"
    using each_conn_trans [OF V(2) W'(2), of "pruned_by (insert r (set rs))"] pruned_by_trans [of "{r}" _ _ _ "set rs"] r by auto
  then show ?case using V W' by (simp add: r)
qed

section \<open>What sorting does\<close>

lemma conn_keys_Some: "conn_keys W rs = Some ks \<longleftrightarrow> list_all2 (\<lambda>r k. conn_key_of W r = Some k) rs ks"
proof (induction rs arbitrary: ks)
  case Nil show ?case by (cases ks) auto
next
  case (Cons r rs) show ?case by (cases ks) (auto simp: Cons bind_eq_Some_conv)
qed

lemma conn_key_ref: "conn_key_of W r = Some k \<Longrightarrow> ck_ref k = r"
  by (auto simp: conn_key_of_def Let_def bind_eq_Some_conv)

lemma conn_keys_refs: "conn_keys W rs = Some ks \<Longrightarrow> map ck_ref ks = rs"
  unfolding conn_keys_Some by (induction rule: list_all2_induct) (auto simp: conn_key_ref)

lemma conn_keys_mem: "conn_keys W rs = Some ks \<Longrightarrow> k \<in> set ks \<Longrightarrow> conn_key_of W (ck_ref k) = Some k \<and> ck_ref k \<in> set rs"
  unfolding conn_keys_Some
proof (induction rule: list_all2_induct)
  case (Cons r rs y ks)
  have "ck_ref y = r" using Cons.hyps(1) by (rule conn_key_ref)
  then show ?case using Cons by auto
qed simp

lemma conn_keys_get: "conn_keys W rs = Some ks \<Longrightarrow> r \<in> set rs \<Longrightarrow> \<exists>k\<in>set ks. conn_key_of W r = Some k"
  unfolding conn_keys_Some by (induction rule: list_all2_induct) auto

lemma conn_keys_total:
  "(\<And>r. r \<in> set rs \<Longrightarrow> conn_key_of W r \<noteq> None) \<Longrightarrow> \<exists>ks. conn_keys W rs = Some ks"
  by (induction rs) fastforce+

lemma conn_key_of_cong: "ports W' = ports W \<Longrightarrow> conn_key_of W' = conn_key_of W"
  by (simp add: conn_key_of_def fun_eq_iff)

lemma conn_key_live: "conn_key_of W r = Some k \<Longrightarrow> \<exists>c. connection_of W r = Some c \<and> write_state c = ck_write k"
  by (auto simp: conn_key_of_def connection_of_def Let_def bind_eq_Some_conv)

lemma any_readable_eq:
  "(\<And>r. r \<in> set rs \<Longrightarrow> connection_of W r \<noteq> None) \<Longrightarrow>
   any_readable rs W = Some (\<exists>r\<in>set rs. map_option read_state (connection_of W r) = Some STATE_READABLE)"
  by (induction rs) (fastforce split: if_splits)+

lemma all_timed_out_total:
  "(\<And>r. r \<in> set rs \<Longrightarrow> connection_of W r \<noteq> None) \<Longrightarrow> \<exists>b. all_timed_out rs W = Some b"
  by (induction rs) fastforce+

text \<open>After sorting: the write state of a key may have been lost by pruning, the rest of it stays.\<close>

lemma each_conn_key:
  assumes "each_conn R W W'" "\<And>r c c'. R r c c' \<Longrightarrow> remote_candidate c' = remote_candidate c \<and>
      local_candidate_index c' = local_candidate_index c \<and> rtt c' = rtt c" "conn_key_of W r = Some k"
  shows "\<exists>c'. connection_of W' r = Some c' \<and> conn_key_of W' r = Some (k\<lparr>ck_write := write_state c'\<rparr>)"
proof -
  obtain w c where c: "ports W (fst r) = Some w" "conns w (snd r) = Some c" "Connection_priority (the_port w) c = Some (ck_priority k)"
      "k = \<lparr>ck_ref = r, ck_write = write_state c, ck_priority = ck_priority k,
             ck_generation = cd_generation (remote_candidate c) + p_generation (the_port w), ck_rtt = rtt c,
             ck_network = network_name (the_port w)\<rparr>"
    using assms(3) by (auto simp: conn_key_of_def Let_def bind_eq_Some_conv)
  have "connection_of W r = Some c" using c(1,2) by (simp add: connection_of_def)
  then obtain c' where c': "connection_of W' r = Some c'" "R r c c'" using assms(1) unfolding each_conn_def by blast
  note same = assms(2) [OF c'(2)]
  obtain w' where w': "ports W' (fst r) = Some w'" "conns w' (snd r) = Some c'" using c'(1) by (auto simp: connection_of_def bind_eq_Some_conv)
  have "map_option the_port (ports W' (fst r)) = map_option the_port (ports W (fst r))" using assms(1) by (simp add: each_conn_def)
  then have p: "the_port w' = the_port w" using w'(1) c(1) by simp
  have "Connection_priority (the_port w) c' = Connection_priority (the_port w) c"
    using same by (simp add: Connection_priority_def local_candidate_def)
  then have "conn_key_of W' r = Some (k\<lparr>ck_write := write_state c'\<rparr>)"
    using w' p c(3) same by (subst c(4)) (simp add: conn_key_of_def)
  then show ?thesis using c'(1) by blast
qed

text \<open>The best connection in the channel after the choice, from the sorted keys.\<close>

definition controls :: "p2p_channel \<Rightarrow> bool" where
  "controls ch \<longleftrightarrow> protocol_type ch \<noteq> ICEPROTO_RFC5245 \<or> ch_ice_role ch = ICEROLE_CONTROLLING"

definition chosen :: "p2p_channel \<Rightarrow> conn_key list \<Rightarrow> conn_ref option" where
  "chosen ch order = (if controls ch then map_option ck_ref (case order of [] \<Rightarrow> None | k # _ \<Rightarrow> Some k) else best_connection ch)"

text \<open>The first key is never worse than the best connection, so the channel always switches to it.\<close>

lemma ShouldSwitch_top:
  assumes "list_all small_key (k # ks)" "sorted_wrt (\<lambda>x y. \<not> ConnectionCompare y x) (k # ks)" "b \<in> set (k # ks)"
  shows "ShouldSwitch (Some b) (Some k) \<longleftrightarrow> ck_ref b \<noteq> ck_ref k"
proof (cases "b = k")
  case False
  then have le: "\<not> ConnectionCompare b k" using assms(2,3) by auto
  have s: "small_key b" "small_key k" using assms(1,3) by (auto simp: list_all_iff)
  have "CompareConnections b k \<le> 0" using le by (auto simp: ConnectionCompare_def Let_def split: if_splits)
  moreover have "unat (ck_rtt k) \<le> unat (ck_rtt b)" if "CompareConnections b k = 0"
    using le that by (auto simp: ConnectionCompare_def word_le_nat_alt not_less)
  ultimately show ?thesis by (auto simp: ShouldSwitch_def Let_def)
qed (simp add: ShouldSwitch_def)

text \<open>The keys to prune: on every network, those that the writable premier connection is at least as good as.\<close>

definition premier :: "conn_key option \<Rightarrow> conn_key list \<Rightarrow> conn_key \<Rightarrow> bool" where
  "premier best order m \<longleftrightarrow> GetBestConnectionOnNetwork best order (ck_network m) = Some m"

definition superseded :: "conn_key option \<Rightarrow> conn_key list \<Rightarrow> conn_key \<Rightarrow> bool" where
  "superseded best order k \<longleftrightarrow> (\<exists>m. premier best order m \<and> ck_network m = ck_network k \<and> ck_ref m \<noteq> ck_ref k \<and>
     ck_write m = STATE_WRITABLE \<and> CompareConnectionCandidates m k \<ge> 0)"

lemma find_network: "List.find (\<lambda>k. ck_network k = n) ks = Some m \<Longrightarrow> ck_network m = n \<and> m \<in> set ks"
  by (auto simp: find_Some_iff)

lemma BestOnNetwork_network: "GetBestConnectionOnNetwork best ks n = Some m \<Longrightarrow> ck_network m = n"
  by (auto simp: GetBestConnectionOnNetwork_def dest: find_network split: option.splits if_split_asm)

lemma prune_list:
  "set (concat (map (to_prune best ks) (remdups (map ck_network keys)))) =
   ck_ref ` {k \<in> set ks. superseded best ks k \<and> ck_network k \<in> ck_network ` set keys}"
proof -
  have "set (to_prune best ks n) = ck_ref ` {k \<in> set ks. superseded best ks k \<and> ck_network k = n}" for n
  proof (cases "GetBestConnectionOnNetwork best ks n")
    case None
    then have "\<not> superseded best ks k" if "ck_network k = n" for k using that by (auto simp: superseded_def premier_def)
    then show ?thesis using None by (auto simp: to_prune_def)
  next
    case (Some m)
    note n = BestOnNetwork_network [OF Some]
    have "superseded best ks k \<longleftrightarrow> ck_ref m \<noteq> ck_ref k \<and> ck_write m = STATE_WRITABLE \<and> CompareConnectionCandidates m k \<ge> 0"
      if nk: "ck_network k = n" for k
    proof
      assume "superseded best ks k"
      then obtain m' where m': "premier best ks m'" "ck_network m' = n" "ck_ref m' \<noteq> ck_ref k" "ck_write m' = STATE_WRITABLE"
          "CompareConnectionCandidates m' k \<ge> 0" using nk by (auto simp: superseded_def)
      then have "m' = m" using Some by (simp add: premier_def)
      then show "ck_ref m \<noteq> ck_ref k \<and> ck_write m = STATE_WRITABLE \<and> CompareConnectionCandidates m k \<ge> 0" using m' by simp
    next
      assume "ck_ref m \<noteq> ck_ref k \<and> ck_write m = STATE_WRITABLE \<and> CompareConnectionCandidates m k \<ge> 0"
      then show "superseded best ks k" unfolding superseded_def premier_def using Some n nk by auto
    qed
    then have "{k \<in> set ks. superseded best ks k \<and> ck_network k = n} = {k \<in> set ks. ck_ref m \<noteq> ck_ref k \<and>
        ck_write m = STATE_WRITABLE \<and> CompareConnectionCandidates m k \<ge> 0 \<and> ck_network k = n}" by blast
    then show ?thesis using Some by (auto simp: to_prune_def)
  qed
  then show ?thesis by auto
qed

lemma best_not_superseded: "\<not> superseded (Some b) ks b"
  by (auto simp: superseded_def premier_def GetBestConnectionOnNetwork_def split: if_splits)

text \<open>The choice among the sorted keys.\<close>

lemma option_key_total:
  assumes "conn_keys W rs = Some keys" "set_option r \<subseteq> set rs"
  shows "\<exists>b. option_key W r = Some b \<and> map_option ck_ref b = r \<and> set_option b \<subseteq> set keys"
proof (cases r)
  case (Some x)
  then obtain k where "k \<in> set keys" "conn_key_of W x = Some k" using conn_keys_get [OF assms(1), of x] assms(2) by auto
  then show ?thesis using Some conn_key_ref by (auto simp: option_key_def)
qed (simp add: option_key_def)

abbreviation top_key :: "conn_key list \<Rightarrow> conn_key option" where
  "top_key order \<equiv> (case order of [] \<Rightarrow> None | k # _ \<Rightarrow> Some k)"

lemma switch_step:
  assumes keys: "conn_keys V rs = Some keys" "list_all small_key keys" and best: "set_option (best_connection (chan V)) \<subseteq> set rs"
    and order: "order = stable_sort ConnectionCompare keys"
  shows "\<exists>b V'. option_key V (best_connection (chan V)) = Some b \<and>
    (if controls (chan V) \<and> ShouldSwitch b (top_key order) then SwitchBestConnectionTo (map_option ck_ref (top_key order)) V
     else Some V) = Some V' \<and> ports V' = ports V \<and> chan V' = (chan V)\<lparr>best_connection := chosen (chan V) order\<rparr>"
proof -
  obtain b where b: "option_key V (best_connection (chan V)) = Some b" "map_option ck_ref b = best_connection (chan V)"
      "set_option b \<subseteq> set keys"
    using option_key_total [OF keys(1) best] by blast
  have stay: "(chan V)\<lparr>best_connection := best_connection (chan V)\<rparr> = chan V" by (cases "chan V") simp
  show ?thesis
  proof (cases "controls (chan V) \<and> ShouldSwitch b (top_key order)")
    case True
    have "\<exists>V'. SwitchBestConnectionTo (map_option ck_ref (top_key order)) V = Some V'"
    proof (cases order)
      case (Cons k ks)
      then have "k \<in> set keys" using order by (metis list.set_intros(1) set_stable_sort)
      then have "conn_key_of V (ck_ref k) = Some k" using conn_keys_mem [OF keys(1)] by simp
      then show ?thesis using Cons conn_key_live [of V "ck_ref k" k]
        by (auto simp: SwitchBestConnectionTo_def connection_of_def bind_eq_Some_conv)
    qed (simp add: SwitchBestConnectionTo_def)
    then obtain V' where V': "SwitchBestConnectionTo (map_option ck_ref (top_key order)) V = Some V'" by blast
    from Switch_fields [OF V'] b(1) V' True show ?thesis by (simp add: chosen_def)
  next
    case False
    have "chosen (chan V) order = best_connection (chan V)"
    proof (cases "controls (chan V)")
      case True
      then have no: "\<not> ShouldSwitch b (top_key order)" using False by simp
      show ?thesis
      proof (cases order)
        case Nil
        then have "keys = []" using order by (metis set_empty set_stable_sort)
        then show ?thesis using b Nil True by (simp add: chosen_def)
      next
        case (Cons k ks)
        with no obtain c where c: "b = Some c" by (cases b) (auto simp: ShouldSwitch_def)
        have "list_all small_key (k # ks)" "c \<in> set (k # ks)"
          using keys(2) b(3) c order Cons by (metis list_all_iff set_stable_sort, metis option.set_intros set_stable_sort subsetD)
        moreover have "sorted_wrt (\<lambda>x y. \<not> ConnectionCompare y x) (k # ks)"
          using ck.sorted_stable_sort [OF keys(2)] order Cons by simp
        ultimately have "ck_ref c = ck_ref k" using ShouldSwitch_top no c Cons by auto
        then show ?thesis using b(2) c Cons True by (simp add: chosen_def)
      qed
    qed (simp add: chosen_def)
    then show ?thesis using b(1) False stay by auto
  qed
qed

lemma chosen_mem:
  assumes "set_option (best_connection ch) \<subseteq> set rs" "set order = set keys" "map ck_ref keys = rs"
  shows "set_option (chosen ch order) \<subseteq> set rs"
proof (cases order)
  case (Cons k ks)
  then have "k \<in> set keys" using assms(2) by auto
  then show ?thesis using assms Cons by (auto simp: chosen_def)
qed (use assms in \<open>auto simp: chosen_def\<close>)

text \<open>The last steps: the state of the channel.\<close>

definition announce :: "conn_key option \<Rightarrow> bool \<Rightarrow> p2p_world \<Rightarrow> p2p_world" where
  "announce best all_connections_timedout W =
     (case best of
        Some b \<Rightarrow>
          (if ck_write b = STATE_WRITABLE then HandleWritable W
           else if all_connections_timedout then HandleAllTimedOut W else HandleNotWritable W)
      | None \<Rightarrow> if all_connections_timedout then HandleAllTimedOut W else HandleNotWritable W)"

lemma set_writable_fields [simp]: "ports (set_writable b W) = ports W" "ch_writable (chan (set_writable b W)) = b"
    "ch_connections (chan (set_writable b W)) = ch_connections (chan W)" "best_connection (chan (set_writable b W)) = best_connection (chan W)"
  by (simp_all add: set_writable_def Let_def)

lemma announce_fields:
  assumes "ch_writable (chan W) \<longrightarrow> was_writable (chan W)"
  shows "ports (announce best t W) = ports W" "ch_connections (chan (announce best t W)) = ch_connections (chan W)"
    "best_connection (chan (announce best t W)) = best_connection (chan W)"
    "ch_writable (chan (announce best t W)) \<longleftrightarrow> map_option ck_write best = Some STATE_WRITABLE"
  using assms by (auto simp: announce_def HandleWritable_def HandleAllTimedOut_def HandleNotWritable_def Let_def split: option.splits)

lemma set_readable_fields [simp]: "ports (set_readable b W) = ports W" "ch_readable (chan (set_readable b W)) = b"
    "ch_writable (chan (set_readable b W)) = ch_writable (chan W)" "ch_connections (chan (set_readable b W)) = ch_connections (chan W)"
    "best_connection (chan (set_readable b W)) = best_connection (chan W)"
  by (simp_all add: set_readable_def Let_def)

text \<open>The worlds between the parts of \<^verbatim>\<open>SortConnections\<close>.\<close>

lemma SortConnections_parts:
  assumes "UpdateConnectionStates now W = Some W1" "protocol_type (chan W1) \<noteq> ICEPROTO_HYBRID"
    "conn_keys W1 (ch_connections (chan W1)) = Some keys" "order = stable_sort ConnectionCompare keys"
    "WA = set_chan (\<lambda>c. c\<lparr>ch_connections := map ck_ref order\<rparr>) (set_chan (\<lambda>c. c\<lparr>sort_dirty := False\<rparr>) W1)"
    "option_key WA (best_connection (chan WA)) = Some b"
    "(if controls (chan WA) \<and> ShouldSwitch b (top_key order) then SwitchBestConnectionTo (map_option ck_ref (top_key order)) WA
      else Some WA) = Some WB"
    "option_key WB (best_connection (chan WB)) = Some best"
    "prune_all (concat (map (to_prune best order) (remdups (map ck_network keys)))) WB = Some WC"
    "all_timed_out (ch_connections (chan WC)) WC = Some t" "option_key WC (best_connection (chan WC)) = Some best'"
  shows "SortConnections now W = UpdateChannelState (announce best' t WC)"
proof -
  have k: "conn_keys (set_chan (\<lambda>c. c\<lparr>sort_dirty := False\<rparr>) W1) rs = conn_keys W1 rs" for rs
    by (induction rs) (simp_all add: conn_key_of_cong [of "set_chan _ W1" W1])
  show ?thesis
    using assms(1-3,6-11) unfolding SortConnections_def assms(4,5) controls_def announce_def by (simp add: k)
qed

lemma prune_list_all:
  assumes "set order = set keys"
  shows "set (concat (map (to_prune best order) (remdups (map ck_network keys)))) = ck_ref ` {k \<in> set keys. superseded best order k}"
proof -
  have "{k \<in> set order. superseded best order k \<and> ck_network k \<in> ck_network ` set keys} = {k \<in> set keys. superseded best order k}"
    using assms by auto
  then show ?thesis unfolding prune_list by (rule arg_cong)
qed

lemma controls_cong:
  "protocol_type ch' = protocol_type ch \<Longrightarrow> ch_ice_role ch' = ch_ice_role ch \<Longrightarrow> best_connection ch' = best_connection ch \<Longrightarrow>
   chosen ch' order = chosen ch order"
  by (simp add: controls_def chosen_def)

lemma clearable_restated: "restated r c c' \<Longrightarrow> clearable c' = clearable c"
  by (cases c; cases c') (simp add: restated_def clearable_def)

lemma pruned_keeps:
  "pruned_by S r c c' \<Longrightarrow> remote_candidate c' = remote_candidate c \<and> local_candidate_index c' = local_candidate_index c \<and> rtt c' = rtt c"
  by (auto simp: pruned_by_def)

lemma best_not_pruned:
  assumes "conn_keys W rs = Some keys" "k \<in> set keys"
  shows "ck_ref k \<notin> ck_ref ` {x \<in> set keys. superseded (Some k) order x}"
proof
  assume "ck_ref k \<in> ck_ref ` {x \<in> set keys. superseded (Some k) order x}"
  then obtain k' where k': "k' \<in> set keys" "ck_ref k' = ck_ref k" "superseded (Some k) order k'" by auto
  then have "Some k' = Some k" using conn_keys_mem [OF assms(1)] assms(2) by metis
  then show False using k'(3) best_not_superseded by simp
qed

text \<open>The best connection keeps its write state: no premier connection supersedes it.\<close>

lemma best_kept:
  assumes keys: "conn_keys W rs = Some keys" and each: "each_conn (pruned_by (ck_ref ` {k \<in> set keys. superseded best order k})) W W'"
    and best: "set_option best \<subseteq> set keys"
  shows "\<exists>best'. option_key W' (map_option ck_ref best) = Some best' \<and> map_option ck_write best' = map_option ck_write best"
proof (cases best)
  case (Some k)
  let ?P = "ck_ref ` {k \<in> set keys. superseded best order k}"
  have k: "conn_key_of W (ck_ref k) = Some k" using conn_keys_mem [OF keys] Some best by auto
  have "ck_ref k \<notin> ?P" using best_not_pruned [OF keys] best Some by auto
  moreover obtain c where c: "connection_of W (ck_ref k) = Some c" "write_state c = ck_write k" using conn_key_live [OF k] by blast
  moreover obtain c' where c': "connection_of W' (ck_ref k) = Some c'" "pruned_by ?P (ck_ref k) c c'"
    using each c(1) unfolding each_conn_def by blast
  ultimately have "write_state c' = ck_write k" by (simp add: pruned_by_def)
  moreover obtain c'' where "connection_of W' (ck_ref k) = Some c''" "conn_key_of W' (ck_ref k) = Some (k\<lparr>ck_write := write_state c''\<rparr>)"
    using each_conn_key [where R = "pruned_by ?P", OF each pruned_keeps k] by fast
  ultimately show ?thesis using c' Some by (simp add: option_key_def)
qed (simp add: option_key_def)

text \<open>Everything \<^verbatim>\<open>SortConnections\<close> does, after the states have been updated.\<close>

lemma sort_outcome:
  assumes ok: "channel_ok h W" "agrees W" "protocol_type (chan W) \<noteq> ICEPROTO_HYBRID"
    and W1: "UpdateConnectionStates now W = Some W1" "conn_keys W1 (ch_connections (chan W1)) = Some keys" "list_all small_key keys"
    and clear: "\<forall>r\<in>set (ch_connections (chan W)). \<exists>c. connection_of W r = Some c \<and> clearable c"
    and order: "order = stable_sort ConnectionCompare keys"
  shows "\<exists>W' best. SortConnections now W = Some W' \<and> option_key W1 (chosen (chan W) order) = Some best \<and>
    map_option ck_ref best = chosen (chan W) order \<and> set_option best \<subseteq> set keys \<and>
    ch_connections (chan W') = map ck_ref order \<and> best_connection (chan W') = chosen (chan W) order \<and>
    (ch_writable (chan W') \<longleftrightarrow> map_option ck_write best = Some STATE_WRITABLE) \<and>
    (ch_readable (chan W') \<longleftrightarrow> (\<exists>r\<in>set (map ck_ref order). map_option read_state (connection_of W' r) = Some STATE_READABLE)) \<and>
    (\<forall>r c. connection_of W1 r = Some c \<longrightarrow> (\<exists>c'. connection_of W' r = Some c' \<and>
       pruned_by (ck_ref ` {k \<in> set keys. superseded best order k}) r c c'))"
proof -
  have lives: "\<forall>r\<in>set (ch_connections (chan W)). connection_of W r \<noteq> None" using clear by fastforce
  from update_states_total [OF lives ok(2), of now] W1(1) have e1: "each_conn restated W W1" by (simp add: UpdateConnectionStates_def)
  obtain d where d: "chan W1 = (chan W)\<lparr>sort_dirty := d\<rparr>" using e1 by (auto simp: each_conn_def)
  let ?rs = "ch_connections (chan W)"
  have refs: "map ck_ref keys = ?rs" using conn_keys_refs [OF W1(2)] d by simp
  have best1: "set_option (best_connection (chan W)) \<subseteq> set ?rs" using ok(1) by (simp add: channel_ok_def chan_ok_def)
  have set_order: "set order = set keys" using order by simp
  define WA where "WA = set_chan (\<lambda>c. c\<lparr>ch_connections := map ck_ref order\<rparr>) (set_chan (\<lambda>c. c\<lparr>sort_dirty := False\<rparr>) W1)"
  have A: "ports WA = ports W1" "best_connection (chan WA) = best_connection (chan W)" "chosen (chan WA) order = chosen (chan W) order"
      "ch_connections (chan WA) = map ck_ref order" "was_writable (chan WA) = was_writable (chan W)" "ch_writable (chan WA) = ch_writable (chan W)"
    by (simp_all add: WA_def d, rule controls_cong, simp_all)
  have keys_of: "conn_keys V rs = conn_keys W1 rs" if "ports V = ports W1" for V rs
    by (induction rs) (simp_all add: conn_key_of_cong [OF that])
  have kA: "conn_keys WA ?rs = Some keys" using W1(2) keys_of [OF A(1)] d by simp
  from switch_step [OF kA W1(3) _ order] A(2) best1 obtain b WB where B: "option_key WA (best_connection (chan WA)) = Some b"
      "(if controls (chan WA) \<and> ShouldSwitch b (top_key order) then SwitchBestConnectionTo (map_option ck_ref (top_key order)) WA
        else Some WA) = Some WB" "ports WB = ports W1" "chan WB = (chan WA)\<lparr>best_connection := chosen (chan W) order\<rparr>"
    using A by auto
  have kB: "conn_keys WB ?rs = Some keys" using W1(2) keys_of [OF B(3)] d by simp
  have ch: "set_option (chosen (chan W) order) \<subseteq> set ?rs" using chosen_mem [OF best1 set_order refs] .
  from option_key_total [OF kB ch] obtain best where best: "option_key WB (chosen (chan W) order) = Some best"
      "map_option ck_ref best = chosen (chan W) order" "set_option best \<subseteq> set keys" by blast
  let ?prs = "concat (map (to_prune best order) (remdups (map ck_network keys)))"
  have prs: "set ?prs = ck_ref ` {k \<in> set keys. superseded best order k}" by (rule prune_list_all [OF set_order])
  have clB: "\<forall>r\<in>set ?prs. \<exists>c. connection_of WB r = Some c \<and> clearable c"
  proof
    fix r assume "r \<in> set ?prs"
    then have "r \<in> set ?rs" unfolding prs refs [symmetric] by auto
    then obtain c where c: "connection_of W r = Some c" "clearable c" using clear by blast
    then obtain c' where c': "connection_of W1 r = Some c'" "restated r c c'" using e1 unfolding each_conn_def by blast
    then have "clearable c'" using c(2) clearable_restated by blast
    then show "\<exists>c. connection_of WB r = Some c \<and> clearable c" using c'(1) by (simp add: connection_of_cong [OF B(3)])
  qed
  from prune_all_total [OF clB] obtain WC where C: "prune_all ?prs WB = Some WC" "each_conn (pruned_by (set ?prs)) WB WC" by blast
  obtain dC where dC: "chan WC = (chan WB)\<lparr>sort_dirty := dC\<rparr>" using C(2) by (auto simp: each_conn_def)
  have inC: "\<exists>c'. connection_of WC r = Some c' \<and> pruned_by (set ?prs) r c c'" if "connection_of W1 r = Some c" for r c
    using C(2) that unfolding each_conn_def connection_of_cong [OF B(3)] by blast
  have liveC: "connection_of WC r \<noteq> None" if r: "r \<in> set (map ck_ref order)" for r
  proof -
    have "r \<in> set ?rs" using r set_order refs [symmetric] by simp
    then have "connection_of W1 r \<noteq> None" using lives e1 unfolding each_conn_def by fastforce
    then show ?thesis using inC by fastforce
  qed
  have cC: "ch_connections (chan WC) = map ck_ref order" "best_connection (chan WC) = chosen (chan W) order"
      "ch_writable (chan WC) \<longrightarrow> was_writable (chan WC)" using A B(4) dC ok(1) by (auto simp: channel_ok_def chan_ok_def)
  from all_timed_out_total [of "map ck_ref order" WC] liveC obtain t where t: "all_timed_out (ch_connections (chan WC)) WC = Some t"
    using cC by auto
  have "\<exists>best'. option_key WC (best_connection (chan WC)) = Some best' \<and> map_option ck_write best' = map_option ck_write best"
    using best_kept [OF kB C(2) [unfolded prs] best(3)] best(2) cC(2) by simp
  then obtain best' where best': "option_key WC (best_connection (chan WC)) = Some best'" "map_option ck_write best' = map_option ck_write best"
    by blast
  define WD where "WD = announce best' t WC"
  have pD: "ports WD = ports WC" "ch_connections (chan WD) = map ck_ref order" "best_connection (chan WD) = chosen (chan W) order"
      "ch_writable (chan WD) \<longleftrightarrow> map_option ck_write best = Some STATE_WRITABLE"
    unfolding WD_def announce_fields [OF cC(3)] cC best'(2) by (rule refl)+
  have rd: "any_readable (ch_connections (chan WD)) WD = Some (\<exists>r\<in>set (map ck_ref order). map_option read_state (connection_of WC r) = Some STATE_READABLE)"
    unfolding pD(2) using any_readable_eq [of "map ck_ref order" WD] liveC connection_of_cong [OF pD(1)] by simp
  have res: "SortConnections now W = UpdateChannelState WD"
    unfolding WD_def using SortConnections_parts [OF W1(1) _ W1(2) order WA_def B(1,2) _ C(1) t best'(1)] ok(3) d best(1) B(4) by simp
  obtain W' where W': "SortConnections now W = Some W'" "W' = set_readable (\<exists>r\<in>set (map ck_ref order). map_option read_state (connection_of WC r) = Some STATE_READABLE) WD"
    using res rd by (simp add: UpdateChannelState_def)
  have cn: "connection_of W' = connection_of WC" by (rule connection_of_cong) (simp add: W'(2) pD(1))
  have ob: "option_key W1 (chosen (chan W) order) = Some best" using best(1) unfolding option_key_def conn_key_of_cong [OF B(3)] .
  have prC: "\<forall>r c. connection_of W1 r = Some c \<longrightarrow> (\<exists>c'. connection_of W' r = Some c' \<and>
       pruned_by (ck_ref ` {k \<in> set keys. superseded best order k}) r c c')"
    using inC unfolding prs cn by blast
  have "ch_connections (chan W') = map ck_ref order" "best_connection (chan W') = chosen (chan W) order"
    "ch_writable (chan W') \<longleftrightarrow> map_option ck_write best = Some STATE_WRITABLE"
    "ch_readable (chan W') \<longleftrightarrow> (\<exists>r\<in>set (map ck_ref order). map_option read_state (connection_of W' r) = Some STATE_READABLE)"
    unfolding cn unfolding W'(2) set_readable_fields pD by (rule refl)+
  then show ?thesis using W'(1) ob best(2,3) prC by blast
qed

end
