(* ===== verification/P2p_Run.thy ===== *)
theory P2p_Run
  imports P2p_Sort
begin

text \<open>
  The channel over time: a step relation of everything that can happen to a channel, and the invariant that its lists and
  pointers always agree with the connections that exist in its ports.
\<close>

section \<open>The map of a port\<close>

abbreviation keys_sorted :: "bool \<Rightarrow> (socket_address \<times> nat) list \<Rightarrow> bool" where
  "keys_sorted h m \<equiv> sorted_wrt (\<lambda>x y. SocketAddress_less h (fst x) (fst y)) m"

abbreviation keys_ok :: "(socket_address \<times> nat) list \<Rightarrow> bool" where
  "keys_ok m \<equiv> \<forall>(a, k)\<in>set m. sa_ok a"

lemma map_assign_new:
  assumes "map_find h m a = None" "keys_sorted h m" "keys_ok m" "sa_ok a"
  shows "set (map_assign h a k m) = insert (a, k) (set m) \<and> keys_sorted h (map_assign h a k m)"
  using assms
proof (induction m)
  case (Cons x m)
  obtain b j where x: "x = (b, j)" by (cases x)
  note IH = Cons.IH and less = sa.lt_trans [where h = h]
  show ?case
  proof (cases "SocketAddress_less h a b")
    case True
    have "SocketAddress_less h a c" if "(c, i) \<in> set m" for c i
    proof -
      have "sa_ok c" "SocketAddress_less h b c" using that Cons.prems(2,3) x by fastforce+
      then show ?thesis using True Cons.prems(3,4) x less [of a b c] by simp
    qed
    then show ?thesis using True Cons.prems x by auto
  next
    case False
    then have ba: "SocketAddress_less h b a" "map_find h m a = None"
      using Cons.prems x by (auto simp: same_key_def split: if_splits)
    then show ?thesis using False IH Cons.prems x by auto
  qed
qed simp

lemma same_key_refl: "sa_ok a \<Longrightarrow> same_key h a a"
  using sa.lt_irrefl [of a h] by (simp add: same_key_def)

lemma map_find_mem:
  assumes "(a, k) \<in> set m" "keys_sorted h m" "sa_ok a"
  shows "map_find h m a = Some k \<and> set (map_erase h a m) = set m - {(a, k)} \<and> keys_sorted h (map_erase h a m)"
  using assms
proof (induction m)
  case (Cons x m)
  obtain b j where x: "x = (b, j)" by (cases x)
  show ?case
  proof (cases "(a, k) = (b, j)")
    case True
    have "(b, j) \<notin> set m" using Cons.prems x True sa.lt_irrefl [of a h] by auto
    then show ?thesis using True Cons.prems x same_key_refl by auto
  next
    case False
    then have m: "(a, k) \<in> set m" using Cons.prems(1) x by auto
    then have "SocketAddress_less h b a" using Cons.prems(2) x by auto
    then have "\<not> same_key h a b" by (simp add: same_key_def)
    moreover have "set (map_erase h a m) = set m - {(a, k)}" "keys_sorted h (map_erase h a m)" "map_find h m a = Some k"
      using Cons.IH [OF m] Cons.prems(2,3) by simp_all
    ultimately show ?thesis using False Cons.prems(2) x by auto
  qed
qed simp

section \<open>The invariant\<close>

lemma channel_ok_cong:
  assumes "channel_ok h W" "ports W' = ports W" "set (ch_connections (chan W')) = set (ch_connections (chan W))"
    "distinct (ch_connections (chan W'))" "picked (chan W') \<subseteq> picked (chan W) \<union> live (ports W)"
    "ch_writable (chan W') \<longrightarrow> was_writable (chan W')" "set (ch_ports (chan W')) \<subseteq> set (ch_ports (chan W))"
  shows "channel_ok h W'"
  using assms unfolding channel_ok_def chan_ok_def picked_def by auto

lemma channel_okD:
  assumes "channel_ok h W"
  shows "distinct (ch_connections (chan W))" "set (ch_connections (chan W)) = live (ports W)" "picked (chan W) \<subseteq> live (ports W)"
    "ch_writable (chan W) \<Longrightarrow> was_writable (chan W)" "ports W p = Some w \<Longrightarrow> port_ok h w" "p \<in> set (ch_ports (chan W)) \<Longrightarrow> ports W p \<noteq> None"
  using assms by (auto simp: channel_ok_def chan_ok_def picked_def)

lemma wframe_update_states: "update_states now rs W = Some W' \<Longrightarrow> wframe W W'"
  by (induction rs arbitrary: W)
    (auto simp: bind_eq_Some_conv intro: wframe_trans dest!: wframe_port_op [OF _ frame_UpdateState])

lemma wframe_prune_all: "prune_all rs W = Some W' \<Longrightarrow> wframe W W'"
  by (induction rs arbitrary: W)
    (auto simp: bind_eq_Some_conv intro: wframe_trans dest!: wframe_port_op [OF _ frame_Prune])

section \<open>Sorting and pinging\<close>

lemma set_readable_same:
  "was_writable (chan (set_readable b W)) = was_writable (chan W)" "pending_best_connection (chan (set_readable b W)) = pending_best_connection (chan W)"
  "ch_ports (chan (set_readable b W)) = ch_ports (chan W)" "remote_candidates (chan (set_readable b W)) = remote_candidates (chan W)"
  by (simp_all add: set_readable_def)

lemma set_writable_same:
  "was_writable (chan (set_writable b W)) = was_writable (chan W)" "pending_best_connection (chan (set_writable b W)) = pending_best_connection (chan W)"
  "ch_ports (chan (set_writable b W)) = ch_ports (chan W)" "remote_candidates (chan (set_writable b W)) = remote_candidates (chan W)"
  by (simp_all add: set_writable_def Let_def)

lemma announce_same:
  assumes "ch_writable (chan W) \<longrightarrow> was_writable (chan W)"
  shows "ch_writable (chan (announce best t W)) \<longrightarrow> was_writable (chan (announce best t W))"
    "picked (chan (announce best t W)) = picked (chan W)" "ch_ports (chan (announce best t W)) = ch_ports (chan W)"
    "remote_candidates (chan (announce best t W)) = remote_candidates (chan W)"
  using assms by (auto simp: announce_def HandleWritable_def HandleAllTimedOut_def HandleNotWritable_def Let_def set_writable_same
      picked_def split: option.splits)

lemma announce_ok:
  assumes "channel_ok h W" shows "channel_ok h (announce best t W)"
proof -
  have w: "ch_writable (chan W) \<longrightarrow> was_writable (chan W)" using channel_okD(4) [OF assms] by simp
  show ?thesis
    by (rule channel_ok_cong [OF assms]) (use announce_fields [OF w] announce_same [OF w] channel_okD(1) [OF assms] in auto)
qed

lemma set_readable_ok: "channel_ok h W \<Longrightarrow> channel_ok h (set_readable b W)"
  by (rule channel_ok_cong) (auto simp: set_readable_same picked_def channel_okD(1,4))

definition same_lists :: "p2p_world \<Rightarrow> p2p_world \<Rightarrow> bool" where
  "same_lists W W' \<longleftrightarrow> remote_candidates (chan W') = remote_candidates (chan W) \<and> ch_ports (chan W') = ch_ports (chan W)"

lemma same_lists_refl [simp]: "same_lists W W"
  by (simp add: same_lists_def)

lemma same_lists_trans: "same_lists U V \<Longrightarrow> same_lists V W \<Longrightarrow> same_lists U W"
  by (simp add: same_lists_def)

lemma UpdateChannelState_ok:
  assumes "UpdateChannelState W = Some W'" "channel_ok h W"
  shows "channel_ok h W' \<and> same_lists W W'"
  using assms set_readable_ok by (auto simp: UpdateChannelState_def bind_eq_Some_conv set_readable_same same_lists_def)

lemma wframe_lists: "wframe W W' \<Longrightarrow> same_lists W W'"
  using same_chan_fields(2,7) by (auto simp: wframe_def same_lists_def)

text \<open>What sorting goes through: the updates, the new order, the switch, the prunings and the announcements.\<close>

lemma SortConnections_ok:
  assumes "SortConnections now W = Some W'" "channel_ok h W"
  shows "channel_ok h W' \<and> same_lists W W'"
proof -
  obtain W1 where W1: "UpdateConnectionStates now W = Some W1" using assms(1) by (auto simp: SortConnections_def bind_eq_Some_conv)
  then have f1: "wframe W W1" by (simp add: UpdateConnectionStates_def wframe_update_states)
  note ok1 = wframe_ok [OF f1 assms(2)]
  show ?thesis
  proof (cases "protocol_type (chan W1) = ICEPROTO_HYBRID")
    case True
    then show ?thesis using assms(1) W1 UpdateChannelState_ok [OF _ ok1] wframe_lists [OF f1]
      by (auto simp: SortConnections_def intro: same_lists_trans)
  next
    case False
    let ?V = "set_chan (\<lambda>c. c\<lparr>sort_dirty := False\<rparr>) W1"
    from assms(1) W1 False obtain keys where keys: "conn_keys ?V (ch_connections (chan ?V)) = Some keys"
      by (auto simp: SortConnections_def Let_def bind_eq_Some_conv)
    define order where "order = stable_sort ConnectionCompare keys"
    define WA where "WA = set_chan (\<lambda>c. c\<lparr>ch_connections := map ck_ref order\<rparr>) ?V"
    from assms(1) W1 False keys obtain b WB best WC t best' where parts:
        "(if (protocol_type (chan WA) \<noteq> ICEPROTO_RFC5245 \<or> ch_ice_role (chan WA) = ICEROLE_CONTROLLING) \<and> ShouldSwitch b (top_key order)
          then SwitchBestConnectionTo (map_option ck_ref (top_key order)) WA else Some WA) = Some WB"
        "prune_all (concat (map (to_prune best order) (remdups (map ck_network keys)))) WB = Some WC"
        "UpdateChannelState (announce best' t WC) = Some W'"
      unfolding SortConnections_def WA_def order_def announce_def by (auto simp: Let_def bind_eq_Some_conv)
    have refs: "map ck_ref keys = ch_connections (chan W1)" using conn_keys_refs [OF keys] by simp
    have perm: "set (map ck_ref order) = set (ch_connections (chan W1))" "distinct (map ck_ref order)"
      using refs channel_okD(1) [OF ok1] by (simp_all add: order_def refs [symmetric])
    have okA: "channel_ok h WA" using perm channel_okD(4) [OF ok1] unfolding WA_def
      by (intro channel_ok_cong [OF ok1]) (auto simp: picked_def)
    have "channel_ok h WB \<and> same_lists WA WB"
    proof (cases "WB = WA")
      case False
      then have sw: "SwitchBestConnectionTo (map_option ck_ref (top_key order)) WA = Some WB" using parts(1) by (auto split: if_splits)
      have "set_option (map_option ck_ref (top_key order)) \<subseteq> set (ch_connections (chan WA))"
        by (cases order) (auto simp: WA_def)
      then show ?thesis using Switch_fields [OF sw] channel_okD [OF okA]
        by (auto intro!: channel_ok_cong [OF okA] simp: picked_def same_lists_def)
    qed (simp add: okA)
    then have okC: "channel_ok h WC" "same_lists WA WC"
      using wframe_prune_all [OF parts(2)] wframe_ok wframe_lists same_lists_trans by blast+
    have w: "ch_writable (chan WC) \<longrightarrow> was_writable (chan WC)" using channel_okD(4) [OF okC(1)] by simp
    show ?thesis
      using UpdateChannelState_ok [OF parts(3) announce_ok [OF okC(1)]] announce_same(3,4) [OF w] okC(2) wframe_lists [OF f1]
      by (simp add: WA_def same_lists_def)
  qed
qed

lemma frame_nominated_ping:
  "do { w \<leftarrow> set_nomination k b w; Ping h now tid q k w } = Some w' \<Longrightarrow> frame w w'"
  unfolding set_nomination_def using frame_set_nomination frame_Ping frame_trans by (fastforce simp: bind_eq_Some_conv)

lemma PingConnection_wframe: "PingConnection h now tid q r W = Some W' \<Longrightarrow> wframe W W'"
  unfolding PingConnection_def by (auto simp: bind_eq_Some_conv intro: wframe_port_op frame_nominated_ping)

lemma OnPing_ok:
  assumes "OnPing h now tid q W = Some W'" "channel_ok h W"
  shows "channel_ok h W' \<and> same_lists W W'"
proof -
  obtain V conn X where p: "UpdateConnectionStates now W = Some V" "(case conn of None \<Rightarrow> Some V | Some r \<Rightarrow> PingConnection h now tid q r V) = Some X"
      "W' = out (PostPing (if ch_writable (chan X) then WRITABLE_DELAY else UNWRITABLE_DELAY)) X"
    using assms(1) by (auto simp: OnPing_def bind_eq_Some_conv)
  have "wframe W V" using p(1) by (simp add: UpdateConnectionStates_def wframe_update_states)
  moreover have "wframe V X" using p(2) PingConnection_wframe by (auto split: option.splits)
  ultimately have f: "wframe W X" by (rule wframe_trans)
  have "channel_ok h W'" unfolding p(3) using channel_okD [OF wframe_ok [OF f assms(2)]]
    by (intro channel_ok_cong [OF wframe_ok [OF f assms(2)]]) auto
  then show ?thesis using wframe_lists [OF f] p(3) by (simp add: same_lists_def)
qed

section \<open>New connections\<close>

text \<open>The world after a connection has been made and the channel has taken it.\<close>

definition grown :: "bool \<Rightarrow> nat \<Rightarrow> nat \<Rightarrow> Candidate \<Rightarrow> p2p_world \<Rightarrow> p2p_world \<Rightarrow> bool" where
  "grown h p k cand W W' \<longleftrightarrow> (\<exists>w w' c. ports W p = Some w \<and> conns w k = None \<and> ports W' = (ports W)(p \<mapsto> w') \<and>
     the_port w' = (the_port w)\<lparr>connections := map_assign h (cd_address cand) k (connections (the_port w))\<rparr> \<and>
     conns w' = (conns w)(k \<mapsto> c) \<and> remote_candidate c = cand \<and> local_candidate_index c = 0 \<and>
     chan W' = (chan W)\<lparr>ch_connections := ch_connections (chan W) @ [(p, k)]\<rparr>)"

lemma create_grown:
  assumes "port_create h p cand W = Some (Some k, V)" "Channel_AddConnection (p, k) V = Some W'"
  shows "grown h p k cand W W'"
proof -
  obtain w ks where w: "ports W p = Some w" "news W = k # ks" "port_op p (UDPPort_CreateConnection h cand k) (W\<lparr>news := ks\<rparr>) = Some V"
    using assms(1) by (auto simp: port_create_def bind_eq_Some_conv split: if_splits list.splits)
  have k: "conns w k = None" using w(1,3) by (auto simp: port_op_def UDPPort_CreateConnection_def bind_eq_Some_conv split: if_splits)
  define w1 where "w1 = w\<lparr>conns := (conns w)(k \<mapsto> Connection_new 0 cand),
      the_port := (the_port w)\<lparr>connections := map_assign h (cd_address cand) k (connections (the_port w))\<rparr>,
      sigs := sigs w @ [SignalConnectionCreated k]\<rparr>"
  have V: "V = W\<lparr>news := ks, ports := (ports W)(p \<mapsto> w1)\<rparr>"
    using w(1,3) k by (simp add: port_op_def UDPPort_CreateConnection_def AddConnection_def Let_def put_def emit_def on_event_def
        Connection_new_def w1_def)
  define c where "c = set_remote_ice_mode (ch_remote_ice_mode (chan W)) (Connection_new 0 cand)"
  have "W' = V\<lparr>chan := (chan W)\<lparr>ch_connections := ch_connections (chan W) @ [(p, k)]\<rparr>, ports := (ports W)(p \<mapsto> put k c w1)\<rparr>"
    using assms(2) unfolding V by (simp add: Channel_AddConnection_def port_op_def Let_def put_def w1_def set_chan_def c_def)
  then show ?thesis unfolding grown_def using w(1) k
    by (intro exI [of _ w] exI [of _ "put k c w1"] exI [of _ c])
      (simp add: put_def w1_def c_def set_remote_ice_mode_def Connection_new_def)
qed

lemma grown_live: "grown h p k cand W W' \<Longrightarrow> live (ports W') = insert (p, k) (live (ports W))"
  by (auto simp: grown_def live_def split: if_splits)

lemma grown_port_ok:
  assumes "port_ok h w" "conns w k = None" "GetConnection h (the_port w) (cd_address cand) = None" "sa_ok (cd_address cand)"
    "the_port w' = (the_port w)\<lparr>connections := map_assign h (cd_address cand) k (connections (the_port w))\<rparr>"
    "conns w' = (conns w)(k \<mapsto> c)" "remote_candidate c = cand" "local_candidate_index c = 0"
  shows "port_ok h w'"
proof -
  have m: "set (connections (the_port w')) = insert (cd_address cand, k) (set (connections (the_port w)))" "keys_sorted h (connections (the_port w'))"
    using map_assign_new [of h "connections (the_port w)" "cd_address cand" k] assms(1,3,4,5) by (auto simp: port_ok_def GetConnection_def)
  have l: "local_candidate (the_port w') d = local_candidate (the_port w) d" for d using assms(5) by (simp add: local_candidate_def)
  have "local_candidate (the_port w) c \<noteq> None" using assms(1,8) by (simp add: local_candidate_def port_ok_def)
  then show ?thesis
    using assms(1,2,4-7) m(2) [unfolded assms(5)] unfolding port_ok_def m(1) l by (auto simp: assms(5))
qed

lemma grown_ok:
  assumes "grown h p k cand W W'" "channel_ok h W" "sa_ok (cd_address cand)"
    "\<And>w. ports W p = Some w \<Longrightarrow> GetConnection h (the_port w) (cd_address cand) = None"
  shows "channel_ok h W' \<and> same_lists W W'"
proof -
  obtain w w' c where g: "ports W p = Some w" "conns w k = None" "ports W' = (ports W)(p \<mapsto> w')"
      "the_port w' = (the_port w)\<lparr>connections := map_assign h (cd_address cand) k (connections (the_port w))\<rparr>"
      "conns w' = (conns w)(k \<mapsto> c)" "remote_candidate c = cand" "local_candidate_index c = 0"
      "chan W' = (chan W)\<lparr>ch_connections := ch_connections (chan W) @ [(p, k)]\<rparr>"
    using assms(1) by (auto simp: grown_def)
  note ok = channel_okD [OF assms(2)]
  have "port_ok h w'" using grown_port_ok [OF ok(5) [OF g(1)] g(2) assms(4) [OF g(1)] assms(3) g(4-7)] .
  moreover have "(p, k) \<notin> live (ports W)" using g(1,2) by (simp add: live_def)
  ultimately show ?thesis
    using ok g(8) assms(2) unfolding channel_ok_def chan_ok_def grown_live [OF assms(1)] by (auto simp: picked_def g(3) same_lists_def)
qed

text \<open>The addresses of the remembered candidates are part of the invariant of runs.\<close>

definition run_ok :: "bool \<Rightarrow> p2p_world \<Rightarrow> bool" where
  "run_ok h W \<longleftrightarrow> channel_ok h W \<and> distinct (ch_ports (chan W)) \<and>
     (\<forall>(c, origin)\<in>set (remote_candidates (chan W)). sa_ok (cd_address c))"

lemma run_ok_channel: "run_ok h W \<Longrightarrow> channel_ok h W"
  by (simp add: run_ok_def)

lemma run_ok_step: "channel_ok h W' \<and> same_lists W W' \<Longrightarrow> run_ok h W \<Longrightarrow> run_ok h W'"
  by (simp add: run_ok_def same_lists_def)

lemma run_ok_frame: "wframe W W' \<Longrightarrow> run_ok h W \<Longrightarrow> run_ok h W'"
  using wframe_ok wframe_lists run_ok_step run_ok_channel by blast

lemma run_ok_port_op: "port_op p f W = Some W' \<Longrightarrow> run_ok h W \<Longrightarrow> (\<And>w w'. f w = Some w' \<Longrightarrow> frame w w') \<Longrightarrow> run_ok h W'"
  using run_ok_frame wframe_port_op by blast

lemma run_ok_sort: "SortConnections now W = Some W' \<Longrightarrow> run_ok h W \<Longrightarrow> run_ok h W'"
  using SortConnections_ok run_ok_step run_ok_channel by blast

lemma run_ok_grown:
  assumes "grown h p k cand W W'" "run_ok h W" "sa_ok (cd_address cand)" "ports W p = Some w" "GetConnection h (the_port w) (cd_address cand) = None"
  shows "run_ok h W'"
proof -
  have "channel_ok h W" using assms(2) by (simp add: run_ok_def)
  from grown_ok [OF assms(1) this assms(3)] assms(4,5) show ?thesis using run_ok_step [OF _ assms(2)] by simp
qed

lemma port_create_none: "port_create h p cand W = Some (None, V) \<Longrightarrow> V = W"
  by (auto simp: port_create_def bind_eq_Some_conv split: if_splits list.splits)

lemma CreateConnection_ok:
  assumes "CreateConnection h now p cand origin_port readable W = Some (b, W')" "sa_ok (cd_address cand)" "run_ok h W"
  shows "run_ok h W'"
proof -
  obtain w where w: "ports W p = Some w" using assms(1) by (auto simp: CreateConnection_def bind_eq_Some_conv)
  obtain made V where V: "(case GetConnection h (the_port w) (cd_address cand) of
            Some k \<Rightarrow> do { c \<leftarrow> conns w k; Some (if IsEquivalent h cand (remote_candidate c) then Some k else None, W) }
          | None \<Rightarrow>
              (if GetOrigin p origin_port = ORIGIN_MESSAGE \<and> incoming_only (chan W) then Some (None, W)
               else do {
                 (connection, W) \<leftarrow> port_create h p cand W;
                 case connection of
                   None \<Rightarrow> Some (None, W)
                 | Some k \<Rightarrow> do { W \<leftarrow> Channel_AddConnection (p, k) W; Some (Some k, W) }
               })) = Some (made, V)"
      "(case made of None \<Rightarrow> Some (False, V)
        | Some k \<Rightarrow> if readable then do { W \<leftarrow> port_op p (ReceivedPing now k) V; Some (True, W) } else Some (True, V)) = Some (b, W')"
    using assms(1) w by (auto simp: CreateConnection_def bind_eq_Some_conv)
  have "run_ok h V"
  proof (cases "GetConnection h (the_port w) (cd_address cand)")
    case None
    show ?thesis
    proof (cases "GetOrigin p origin_port = ORIGIN_MESSAGE \<and> incoming_only (chan W)")
      case False
      then obtain m U where c: "port_create h p cand W = Some (m, U)"
          "(case m of None \<Rightarrow> Some (None, U) | Some k \<Rightarrow> do { W \<leftarrow> Channel_AddConnection (p, k) U; Some (Some k, W) }) = Some (made, V)"
        using V(1) None by (auto simp: bind_eq_Some_conv)
      show ?thesis
      proof (cases m)
        case None
        then show ?thesis using c port_create_none [of h p cand W U] assms(3) by simp
      next
        case (Some k)
        then have "grown h p k cand W V" using c create_grown by (auto simp: bind_eq_Some_conv)
        then show ?thesis using run_ok_grown assms(2,3) w None by blast
      qed
    qed (use V(1) None assms(3) in auto)
  next
    case (Some k)
    then show ?thesis using V(1) assms(3) by (auto simp: bind_eq_Some_conv)
  qed
  then show ?thesis using V(2) run_ok_port_op [OF _ _ frame_ReceivedPing] by (auto simp: bind_eq_Some_conv split: option.splits if_splits)
qed

lemma create_on_ports_ok:
  "create_on_ports h now ps cand origin_port readable made W = Some (b, W') \<Longrightarrow> sa_ok (cd_address cand) \<Longrightarrow> run_ok h W \<Longrightarrow> run_ok h W'"
  by (induction ps arbitrary: made W) (auto simp: bind_eq_Some_conv dest: CreateConnection_ok)

lemma Remember_ok:
  assumes "run_ok h W" "sa_ok (cd_address cand)" shows "run_ok h (set_chan (RememberRemoteCandidate h' cand origin_port) W)"
proof -
  let ?ch = "RememberRemoteCandidate h' cand origin_port (chan W)"
  have "?ch = (chan W)\<lparr>remote_candidates := remote_candidates ?ch\<rparr>" by (simp add: RememberRemoteCandidate_def Let_def)
  moreover have "set (remote_candidates ?ch) \<subseteq> insert (cand, origin_port) (set (remote_candidates (chan W)))"
    by (auto simp: RememberRemoteCandidate_def Let_def)
  ultimately obtain rs where rs: "?ch = (chan W)\<lparr>remote_candidates := rs\<rparr>" "set rs \<subseteq> insert (cand, origin_port) (set (remote_candidates (chan W)))" by blast
  have c: "channel_ok h W" using assms(1) by (simp add: run_ok_def)
  have "channel_ok h (set_chan (RememberRemoteCandidate h' cand origin_port) W)"
    by (rule channel_ok_cong [OF c]) (use channel_okD(1,4) [OF c] in \<open>auto simp: rs(1) picked_def\<close>)
  then show ?thesis using assms rs by (auto simp: run_ok_def)
qed

lemma completed_address [simp]: "cd_address (completed cand ch) = cd_address cand"
  by (simp add: completed_def Let_def)

lemma CreateConnections_ok:
  assumes "CreateConnections h now cand origin_port readable W = Some (b, W')" "sa_ok (cd_address cand)" "run_ok h W"
  shows "run_ok h W'"
proof (cases "origin_port = None \<and> IsDuplicateRemoteCandidate h (completed cand (chan W)) (chan W)")
  case True
  then show ?thesis using assms by (simp add: CreateConnections_def)
next
  case False
  let ?c = "completed cand (chan W)"
  obtain made V U where V: "create_on_ports h now (rev (ch_ports (chan W))) ?c origin_port readable False W = Some (made, V)"
      "(case origin_port of
          Some p \<Rightarrow> (if p \<notin> set (ch_ports (chan V)) then do { (ok, W) \<leftarrow> CreateConnection h now p ?c origin_port readable V; Some (made \<or> ok, W) }
            else Some (made, V))
        | None \<Rightarrow> Some (made, V)) = Some (b, U)"
      "W' = set_chan (RememberRemoteCandidate h ?c origin_port) U"
    using assms(1) False by (auto simp: CreateConnections_def Let_def bind_eq_Some_conv)
  have a: "sa_ok (cd_address ?c)" using assms(2) by simp
  have v: "run_ok h V" using create_on_ports_ok [OF V(1) a assms(3)] .
  have "run_ok h U" using V(2) v CreateConnection_ok [OF _ a v] by (auto simp: bind_eq_Some_conv split: option.splits if_splits)
  then show ?thesis using V(3) Remember_ok a by simp
qed

section \<open>Candidates and ports\<close>

lemma OnCandidate_ok: "OnCandidate h now cand W = Some W' \<Longrightarrow> sa_ok (cd_address cand) \<Longrightarrow> run_ok h W \<Longrightarrow> run_ok h W'"
  by (auto simp: OnCandidate_def bind_eq_Some_conv intro: run_ok_sort dest: CreateConnections_ok)

lemma create_for_candidates_ok:
  "create_for_candidates h now p cs W = Some W' \<Longrightarrow> \<forall>(c, origin)\<in>set cs. sa_ok (cd_address c) \<Longrightarrow> run_ok h W \<Longrightarrow> run_ok h W'"
proof (induction cs arbitrary: W)
  case (Cons x cs)
  obtain c origin where x: "x = (c, origin)" by (cases x)
  then obtain b V where V: "CreateConnection h now p c origin False W = Some (b, V)" "create_for_candidates h now p cs V = Some W'"
    using Cons.prems(1) by (auto simp: bind_eq_Some_conv)
  have "run_ok h V" using CreateConnection_ok [OF V(1)] Cons.prems x by simp
  then show ?case using Cons.IH [OF V(2)] Cons.prems(2) by simp
qed simp

text \<open>A change of a port that keeps its map and its candidates.\<close>

definition keeps_map :: "(Port \<Rightarrow> Port) \<Rightarrow> bool" where
  "keeps_map f \<longleftrightarrow> (\<forall>p. connections (f p) = connections p \<and> candidates (f p) = candidates p)"

lemma keeps_map_ok: "keeps_map f \<Longrightarrow> port_ok h (w\<lparr>the_port := f (the_port w)\<rparr>) = port_ok h w"
proof -
  assume k: "keeps_map f"
  then have "local_candidate (f (the_port w)) c = local_candidate (the_port w) c" for c by (simp add: keeps_map_def local_candidate_def)
  then show ?thesis using k by (simp add: keeps_map_def port_ok_def)
qed

lemma keeps_map_set [simp]: "keeps_map (SetIceRole r)" "keeps_map (SetIceProtocolType ty)"
    "keeps_map (\<lambda>p. SetIceTiebreaker t (SetIceRole r (SetIceProtocolType ty p)))"
  by (simp_all add: keeps_map_def SetIceRole_def SetIceProtocolType_def SetIceTiebreaker_def)

definition fresh_port :: "ice_world \<Rightarrow> bool" where
  "fresh_port w \<longleftrightarrow> conns w = Map.empty \<and> connections (the_port w) = [] \<and> candidates (the_port w) \<noteq> []"

lemma fresh_port_ok: "fresh_port w \<Longrightarrow> port_ok h w"
  by (simp add: fresh_port_def port_ok_def)

lemma OnPortReady_ok:
  assumes "OnPortReady h now p w W = Some W'" "ports W p = None" "fresh_port w" "run_ok h W"
  shows "run_ok h W'"
proof -
  define port where "port = SetIceTiebreaker (ch_tiebreaker (chan W)) (SetIceRole (ch_ice_role (chan W)) (SetIceProtocolType (protocol_type (chan W)) (the_port w)))"
  define V where "V = (set_chan (\<lambda>c. c\<lparr>ch_ports := ch_ports c @ [p]\<rparr>)
      (W\<lparr>outs := outs W @ map (\<lambda>(opt, val). PortSetOption p opt val) (options (chan W)), ports := (ports W)(p \<mapsto> w\<lparr>the_port := port\<rparr>)\<rparr>))"
  obtain U where U: "create_for_candidates h now p (remote_candidates (chan V)) V = Some U" "SortConnections now U = Some W'"
    using assms(1) by (auto simp: OnPortReady_def Let_def bind_eq_Some_conv V_def port_def)
  have "fresh_port (w\<lparr>the_port := port\<rparr>)"
    using assms(3) by (simp add: fresh_port_def port_def SetIceTiebreaker_def SetIceRole_def SetIceProtocolType_def)
  then have po: "port_ok h (w\<lparr>the_port := port\<rparr>)" by (rule fresh_port_ok)
  have live: "live ((ports W)(p \<mapsto> w\<lparr>the_port := port\<rparr>)) = live (ports W)"
    using assms(2,3) by (auto simp: live_def fresh_port_def split: if_split_asm)
  have v: "run_ok h V"
    using assms(2,4) po unfolding run_ok_def channel_ok_def V_def by (auto simp: live chan_ok_def)
  then have "run_ok h U" using create_for_candidates_ok [OF U(1)] by (simp add: run_ok_def)
  then show ?thesis using run_ok_sort U(2) by blast
qed

lemma port_op_silent:
  assumes "ports W p = Some w"
  shows "port_op p (\<lambda>w. Some (w\<lparr>the_port := f (the_port w)\<rparr>)) W = Some (W\<lparr>ports := (ports W)(p \<mapsto> w\<lparr>the_port := f (the_port w)\<rparr>)\<rparr>)"
  using assms by (simp add: port_op_def)

lemma live_upd: "ports W p = Some w \<Longrightarrow> conns w' = conns w \<Longrightarrow> live ((ports W)(p \<mapsto> w')) = live (ports W)"
  by (auto simp: live_def split: if_splits)

lemma on_ports_ok:
  assumes "on_ports f ps W = Some W'" "keeps_map f" "run_ok h W" shows "run_ok h W'"
  using assms(1,3)
proof (induction ps arbitrary: W)
  case (Cons p ps)
  obtain w where w: "ports W p = Some w" using Cons.prems(1) by (auto simp: port_op_def bind_eq_Some_conv)
  let ?w = "w\<lparr>the_port := f (the_port w)\<rparr>" and ?V = "W\<lparr>ports := (ports W)(p \<mapsto> w\<lparr>the_port := f (the_port w)\<rparr>)\<rparr>"
  have "on_ports f ps ?V = Some W'" using Cons.prems(1) port_op_silent [OF w] by simp
  moreover have "port_ok h w" using Cons.prems(2) w by (auto simp: run_ok_def channel_ok_def)
  then have "port_ok h ?w" using keeps_map_ok [OF assms(2)] by simp
  then have "run_ok h ?V" using Cons.prems(2) w live_upd [OF w, of ?w] by (auto simp: run_ok_def channel_ok_def)
  ultimately show ?case using Cons.IH by blast
qed simp

lemma run_ok_chan:
  assumes "run_ok h W" "ports W' = ports W" "set (ch_connections (chan W')) = set (ch_connections (chan W))"
    "distinct (ch_connections (chan W'))" "picked (chan W') \<subseteq> picked (chan W) \<union> live (ports W)"
    "ch_writable (chan W') \<longrightarrow> was_writable (chan W')" "set (ch_ports (chan W')) \<subseteq> set (ch_ports (chan W))" "distinct (ch_ports (chan W'))"
    "remote_candidates (chan W') = remote_candidates (chan W)"
  shows "run_ok h W'"
  using assms channel_ok_cong [of h W W'] by (simp add: run_ok_def)

lemma run_okD:
  assumes "run_ok h W"
  shows "distinct (ch_connections (chan W))" "set (ch_connections (chan W)) = live (ports W)" "picked (chan W) \<subseteq> live (ports W)"
    "ch_writable (chan W) \<Longrightarrow> was_writable (chan W)" "ports W p = Some w \<Longrightarrow> port_ok h w" "p \<in> set (ch_ports (chan W)) \<Longrightarrow> ports W p \<noteq> None"
    "(c, origin) \<in> set (remote_candidates (chan W)) \<Longrightarrow> sa_ok (cd_address c)" "distinct (ch_ports (chan W))"
  using assms channel_okD [of h W] unfolding run_ok_def by auto

lemma Channel_SetIceRole_ok: "Channel_SetIceRole role W = Some W' \<Longrightarrow> run_ok h W \<Longrightarrow> run_ok h W'"
proof -
  assume a: "Channel_SetIceRole role W = Some W'" and ok: "run_ok h W"
  have "run_ok h (set_chan (\<lambda>c. c\<lparr>ch_ice_role := role\<rparr>) W)"
    by (rule run_ok_chan [OF ok]) (use run_okD(1,4,8) [OF ok] in \<open>auto simp: picked_def\<close>)
  then show ?thesis using a ok on_ports_ok [OF _ keeps_map_set(1)] by (auto simp: Channel_SetIceRole_def split: if_splits)
qed

lemma Channel_SetIceProtocolType_ok: "Channel_SetIceProtocolType ty W = Some W' \<Longrightarrow> run_ok h W \<Longrightarrow> run_ok h W'"
proof -
  assume a: "Channel_SetIceProtocolType ty W = Some W'" and ok: "run_ok h W"
  have "run_ok h (set_chan (\<lambda>c. c\<lparr>protocol_type := ty\<rparr>) W)"
    by (rule run_ok_chan [OF ok]) (use run_okD(1,4,8) [OF ok] in \<open>auto simp: picked_def\<close>)
  then show ?thesis using a on_ports_ok [OF _ keeps_map_set(2)] by (auto simp: Channel_SetIceProtocolType_def)
qed

section \<open>Deletion\<close>

lemma destroyed_chan:
  assumes "Channel_OnConnectionDestroyed r V = Some V'"
  shows "ports V' = ports V \<and> ch_connections (chan V') = remove1 r (ch_connections (chan V)) \<and> picked (chan V') \<subseteq> picked (chan V) - {r} \<and>
    ch_writable (chan V') = ch_writable (chan V) \<and> was_writable (chan V') = was_writable (chan V) \<and>
    ch_ports (chan V') = ch_ports (chan V) \<and> remote_candidates (chan V') = remote_candidates (chan V)"
proof -
  let ?A = "set_chan (\<lambda>c. c\<lparr>ch_connections := remove1 r (ch_connections c)\<rparr>) V"
  define B where "B = (if pending_best_connection (chan ?A) = Some r then set_chan (\<lambda>c. c\<lparr>pending_best_connection := None\<rparr>) ?A else ?A)"
  have b: "ports B = ports V" "ch_connections (chan B) = remove1 r (ch_connections (chan V))" "best_connection (chan B) = best_connection (chan V)"
    "set_option (pending_best_connection (chan B)) \<subseteq> set_option (pending_best_connection (chan V)) - {r}"
    "ch_writable (chan B) = ch_writable (chan V)" "was_writable (chan B) = was_writable (chan V)" "ch_ports (chan B) = ch_ports (chan V)"
    "remote_candidates (chan B) = remote_candidates (chan V)"
    by (auto simp: B_def)
  obtain C where C: "(if best_connection (chan B) = Some r then do { W \<leftarrow> SwitchBestConnectionTo None B; Some (RequestSort W) } else Some B) = Some C"
      "V' = out SignalConnectionRemoved C"
    using assms by (auto simp: Channel_OnConnectionDestroyed_def Let_def B_def bind_eq_Some_conv split: if_split_asm)
  show ?thesis
  proof (cases "best_connection (chan B) = Some r")
    case True
    then obtain D where D: "SwitchBestConnectionTo None B = Some D" "C = RequestSort D" using C(1) by (auto simp: bind_eq_Some_conv)
    note f = Switch_fields [OF D(1)] and g = same_chan_fields [OF RequestSort_fields(3) [of D]]
    show ?thesis using f g b unfolding C(2) D(2) by (auto simp: picked_def)
  next
    case False
    then show ?thesis using C b by (auto simp: picked_def)
  qed
qed

lemma shrunk_port_ok:
  assumes "port_ok h w" "conns w k = Some c" "the_port w' = (the_port w)\<lparr>connections := map_erase h (cd_address (remote_candidate c)) (connections (the_port w))\<rparr>"
    "conns w' = (conns w)(k := None)"
  shows "port_ok h w'"
proof -
  let ?m = "connections (the_port w)" and ?a = "cd_address (remote_candidate c)"
  have a: "(?a, k) \<in> set ?m" "sa_ok ?a" "keys_sorted h ?m" using assms(1,2) by (auto simp: port_ok_def)
  from map_find_mem [OF a(1,3,2)] have m: "set (connections (the_port w')) = set ?m - {(?a, k)}" "keys_sorted h (connections (the_port w'))"
    using assms(3) by simp_all
  have l: "local_candidate (the_port w') d = local_candidate (the_port w) d" for d using assms(3) by (simp add: local_candidate_def)
  have other: "j \<noteq> k \<and> sa_ok b \<and> (\<exists>d. conns w' j = Some d \<and> cd_address (remote_candidate d) = b)" if bj: "(b, j) \<in> set ?m - {(?a, k)}" for b j
  proof -
    obtain d where d: "sa_ok b" "conns w j = Some d" "cd_address (remote_candidate d) = b" using bj assms(1) by (auto simp: port_ok_def)
    have "j \<noteq> k" using d bj assms(2) by auto
    then show ?thesis using d assms(4) by simp
  qed
  have kept: "(cd_address (remote_candidate d), j) \<in> set ?m - {(?a, k)} \<and> local_candidate (the_port w) d \<noteq> None" if "conns w' j = Some d" for j d
    using that assms(1,4) by (auto simp: port_ok_def split: if_splits)
  have "candidates (the_port w') \<noteq> []" using assms(1,3) by (simp add: port_ok_def)
  then show ?thesis using m(2) other kept unfolding port_ok_def m(1) l by fastforce
qed

lemma delete_ok:
  assumes "port_op p (Connection_OnMessage h k) W = Some W'" "run_ok h W"
  shows "run_ok h W'"
proof -
  obtain w where w: "ports W p = Some w" using assms(1) by (auto simp: port_op_def bind_eq_Some_conv)
  note ok = run_okD [OF assms(2)]
  obtain c where c: "conns w k = Some c"
    using assms(1) w by (auto simp: port_op_def Connection_OnMessage_def OnConnectionDestroyed_def emit_def bind_eq_Some_conv)
  define w' where "w' = w\<lparr>the_port := (the_port w)\<lparr>connections := map_erase h (cd_address (remote_candidate c)) (connections (the_port w))\<rparr>,
      conns := (conns w)(k := None),
      sigs := sigs w @ SignalConnectionDestroyed k # (if ice_role (the_port w) = ICEROLE_CONTROLLED then [PostCheckTimeout (timeout_delay (the_port w))] else [])\<rparr>"
  have "Channel_OnConnectionDestroyed (p, k) (W\<lparr>ports := (ports W)(p \<mapsto> w')\<rparr>) = Some W'"
    using assms(1) w c unfolding w'_def
    by (auto simp: port_op_def Connection_OnMessage_def OnConnectionDestroyed_def Let_def emit_def bind_eq_Some_conv on_event_def split: if_split_asm)
  from destroyed_chan [OF this] have d: "ports W' = (ports W)(p \<mapsto> w')" "ch_connections (chan W') = remove1 (p, k) (ch_connections (chan W))"
      "picked (chan W') \<subseteq> picked (chan W) - {(p, k)}" "ch_writable (chan W') = ch_writable (chan W)" "was_writable (chan W') = was_writable (chan W)"
      "ch_ports (chan W') = ch_ports (chan W)" "remote_candidates (chan W') = remote_candidates (chan W)" by simp_all
  have live: "live (ports W') = live (ports W) - {(p, k)}" using w by (auto simp: d(1) live_def w'_def split: if_split_asm)
  have "port_ok h w'" by (rule shrunk_port_ok [OF ok(5) [OF w] c]) (simp_all add: w'_def)
  moreover have "set (ch_connections (chan W')) = live (ports W) - {(p, k)}" "distinct (ch_connections (chan W'))"
    using ok(1,2) by (simp_all add: d(2))
  ultimately show ?thesis using d ok(3-8) assms(2) unfolding run_ok_def channel_ok_def chan_ok_def live
    by (auto simp: d(1) picked_def)
qed

section \<open>Packets\<close>

lemma find_remote_mem:
  "find_remote h per_port uf a proto cs pw = (pw', Some c) \<Longrightarrow> \<exists>origin. (c, origin) \<in> set cs"
  by (induction h per_port uf a proto cs pw rule: find_remote.induct) (auto split: if_splits)

lemma SendError_ok: "SendError h p m a n reason W = Some W' \<Longrightarrow> run_ok h W \<Longrightarrow> run_ok h W'"
  unfolding SendError_def by (rule run_ok_port_op) (auto intro: frame_SendBindingErrorResponse)

lemma unknown_candidate_address [simp]: "cd_address (unknown_candidate h rnd component p a proto uf pw) = a"
  by (simp add: unknown_candidate_def Let_def Candidate_of_def)

lemma OnUnknownAddress_ok:
  assumes "OnUnknownAddress h now rnd p a proto m uf muxed W = Some W'" "sa_ok a" "run_ok h W"
  shows "run_ok h W'"
proof -
  note ok = run_okD [OF assms(3)]
  let ?pp = "ufrag_per_port (remote_candidates (chan W))"
  obtain pw cand where f: "find_remote h ?pp uf a proto (remote_candidates (chan W)) None = (pw, cand)" by (cases "find_remote h ?pp uf a proto (remote_candidates (chan W)) None")
  show ?thesis
  proof (cases pw)
    case None
    then show ?thesis using assms f SendError_ok by (auto simp: OnUnknownAddress_def Let_def split: if_splits)
  next
    case (Some password)
    obtain w where w: "ports W p = Some w" using assms(1) f Some by (auto simp: OnUnknownAddress_def Let_def bind_eq_Some_conv)
    define c where "c = (case cand of Some c \<Rightarrow> if ?pp then c\<lparr>cd_address := a\<rparr> else c
      | None \<Rightarrow> unknown_candidate h rnd (ch_component (chan W)) (the_port w) a proto uf password)"
    have c: "sa_ok (cd_address c)"
    proof (cases cand)
      case (Some d)
      then obtain origin where "(d, origin) \<in> set (remote_candidates (chan W))" using f find_remote_mem by blast
      then show ?thesis using Some ok(7) assms(2) by (simp add: c_def)
    qed (simp add: c_def assms(2))
    show ?thesis
    proof (cases "ice_protocol (the_port w) = ICEPROTO_RFC5245")
      case False
      then obtain made V where V: "CreateConnections h now c (Some p) True W = Some (made, V)"
          "(if \<not> made then SendError h p m a STUN_ERROR_SERVER_ERROR STUN_ERROR_REASON_SERVER_ERROR V
            else do { W \<leftarrow> port_op p (SendBindingResponse h now m a) V; SortConnections now W }) = Some W'"
        using assms(1) f Some w c_def by (auto simp: OnUnknownAddress_def Let_def bind_eq_Some_conv)
      have "run_ok h V" using CreateConnections_ok [OF V(1) c assms(3)] .
      then show ?thesis using V(2) SendError_ok run_ok_sort run_ok_port_op [OF _ _ frame_SendBindingResponse]
        by (auto simp: bind_eq_Some_conv split: if_splits)
    next
      case True
      show ?thesis
      proof (cases "GetUInt32 m STUN_ATTR_PRIORITY")
        case None
        then show ?thesis using assms f Some w True SendError_ok by (auto simp: OnUnknownAddress_def Let_def)
      next
        case priority: (Some q)
        define d where "d = c\<lparr>cd_priority := uint32_value q\<rparr>"
        have d: "sa_ok (cd_address d)" using c by (simp add: d_def)
        show ?thesis
        proof (cases "GetConnection h (the_port w) (cd_address d)")
          case conn: (Some j)
          then show ?thesis using assms f Some w True priority SendError_ok unfolding OnUnknownAddress_def d_def c_def
            by (auto simp: Let_def split: if_splits)
        next
          case None
          obtain made V where V: "port_create h p d W = Some (made, V)"
              "(case made of None \<Rightarrow> SendError h p m a STUN_ERROR_SERVER_ERROR STUN_ERROR_REASON_SERVER_ERROR V
                | Some k \<Rightarrow> do { W \<leftarrow> Channel_AddConnection (p, k) V; W \<leftarrow> port_op p (ReceivedPing now k) W;
                               W \<leftarrow> port_op p (SendBindingResponse h now m a) W; SortConnections now W }) = Some W'"
            using assms(1) f Some w True priority None unfolding OnUnknownAddress_def d_def c_def by (auto simp: Let_def bind_eq_Some_conv)
          show ?thesis
          proof (cases made)
            case None
            then show ?thesis using V port_create_none [of h p d W V] SendError_ok assms(3) by simp
          next
            case made: (Some k)
            then obtain U X Y where U: "Channel_AddConnection (p, k) V = Some U" "port_op p (ReceivedPing now k) U = Some X"
                "port_op p (SendBindingResponse h now m a) X = Some Y" "SortConnections now Y = Some W'"
              using V(2) by (auto simp: bind_eq_Some_conv)
            have "grown h p k d W U" using create_grown V(1) U(1) made by simp
            then have "run_ok h U" using run_ok_grown [OF _ assms(3) d w None] by blast
            then have "run_ok h X" by (rule run_ok_port_op [OF U(2)]) (erule frame_ReceivedPing)
            then have "run_ok h Y" by (rule run_ok_port_op [OF U(3)]) (erule frame_SendBindingResponse)
            then show ?thesis using U(4) run_ok_sort by blast
          qed
        qed
      qed
    qed
  qed
qed

text \<open>A port reports unknown addresses only for the sender of the packet.\<close>

definition heard :: "socket_address \<Rightarrow> ice_event \<Rightarrow> bool" where
  "heard a e \<longleftrightarrow> (case e of SignalUnknownAddress b _ _ _ \<Rightarrow> b = a | _ \<Rightarrow> True)"

definition speaks :: "socket_address \<Rightarrow> ice_world \<Rightarrow> ice_world \<Rightarrow> bool" where
  "speaks a w w' \<longleftrightarrow> (\<exists>es. sigs w' = sigs w @ es \<and> list_all (heard a) es)"

lemma speaks_refl [simp]: "speaks a w w"
  by (simp add: speaks_def)

lemma speaks_emit: "heard a e \<Longrightarrow> speaks a w v \<Longrightarrow> speaks a w (emit e v)"
  by (auto simp: speaks_def emit_def)

lemma speaks_error: "SendBindingErrorResponse h m addr n reason w = Some w' \<Longrightarrow> speaks a w w'"
  by (auto simp: SendBindingErrorResponse_def bind_eq_Some_conv heard_def intro: speaks_emit)

lemma speaks_GetStunMessage:
  assumes "GetStunMessage h data addr w = Some (res, w')" shows "speaks a w w'"
proof -
  have s: "sigs (with_protocol proto w) = sigs w" for proto by (simp add: with_protocol_def)
  have "speaks a w w'" if "SendBindingErrorResponse h m addr n reason (with_protocol proto w) = Some w'" for m n reason proto
    using speaks_error [OF that, of a] s by (simp add: speaks_def)
  moreover have "speaks a w w'" if "w' = with_protocol proto w" for proto using s that by (simp add: speaks_def)
  ultimately show ?thesis using GetStunMessage_world [OF assms] by (auto intro: speaks_error)
qed

lemma speaks_conflict: "MaybeIceRoleConflict h addr m uf w = Some (b, w') \<Longrightarrow> speaks a w w'"
  by (auto simp: MaybeIceRoleConflict_def Let_def bind_eq_Some_conv heard_def split: if_splits IceRole.splits option.splits prod.splits
      intro: speaks_error speaks_emit)

lemma speaks_trans: "speaks a u v \<Longrightarrow> speaks a v w \<Longrightarrow> speaks a u w"
  by (auto simp: speaks_def)

lemma speaks_Port_OnReadPacket:
  assumes "Port_OnReadPacket h data a proto w = Some w'" shows "speaks a w w'"
proof (cases "enable_port_packets (the_port w)")
  case True
  then show ?thesis using assms by (auto simp: Port_OnReadPacket_def heard_def intro: speaks_emit)
next
  case False
  then obtain ok msg uf v where v: "GetStunMessage h data a w = Some ((ok, msg, uf), v)"
    using assms by (auto simp: Port_OnReadPacket_def bind_eq_Some_conv)
  have "speaks a v w'" using assms False v
    by (auto simp: Port_OnReadPacket_def bind_eq_Some_conv heard_def split: option.splits if_splits dest!: speaks_conflict [where a = a] intro: speaks_emit)
  then show ?thesis using speaks_trans speaks_GetStunMessage [OF v] by blast
qed

lemma unknown_address_mem: "unknown_address es = Some (a, proto, m, uf) \<Longrightarrow> SignalUnknownAddress a proto m uf \<in> set es"
  by (induction es rule: unknown_address.induct) auto

lemma UDPPort_OnReadPacket_ok:
  assumes "UDPPort_OnReadPacket h ntop now rnd p data a W = Some W'" "sa_ok a" "run_ok h W"
  shows "run_ok h W'"
proof -
  obtain w where w: "ports W p = Some w" using assms(1) by (auto simp: UDPPort_OnReadPacket_def bind_eq_Some_conv)
  show ?thesis
  proof (cases "GetConnection h (the_port w) a")
    case (Some k)
    then have "port_op p (OnReadPacket h ntop now rnd k data) W = Some W'" using assms(1) w by (simp add: UDPPort_OnReadPacket_def)
    then show ?thesis by (rule run_ok_port_op [OF _ assms(3)]) (erule frame_OnReadPacket)
  next
    case None
    then obtain V w' where V: "port_op p (Port_OnReadPacket h data a PROTO_UDP) W = Some V" "ports V p = Some w'"
        "(case unknown_address (drop (length (sigs w)) (sigs w')) of None \<Rightarrow> Some V
          | Some (addr, proto, m, uf) \<Rightarrow> OnUnknownAddress h now rnd p addr proto m uf False V) = Some W'"
      using assms(1) w by (auto simp: UDPPort_OnReadPacket_def bind_eq_Some_conv)
    have v: "run_ok h V" by (rule run_ok_port_op [OF V(1) assms(3)]) (erule frame_Port_OnReadPacket)
    obtain u where u: "Port_OnReadPacket h data a PROTO_UDP (w\<lparr>sigs := []\<rparr>) = Some u"
        "on_events p (sigs u) (W\<lparr>ports := (ports W)(p \<mapsto> u\<lparr>sigs := sigs w @ sigs u\<rparr>)\<rparr>) = Some V"
      using V(1) w by (auto simp: port_op_def bind_eq_Some_conv)
    have "list_all (mild (conns w)) (sigs u)" using frame_sigs(2) [OF frame_Port_OnReadPacket [OF u(1)]] .
    from on_events_mild [OF u(2) this] have "w' = u\<lparr>sigs := sigs w @ sigs u\<rparr>" using V(2) by simp
    then have d: "drop (length (sigs w)) (sigs w') = sigs u" by simp
    have a: "b = a" if "unknown_address (sigs u) = Some (b, proto, m, uf)" for b proto m uf
      using unknown_address_mem [OF that] speaks_Port_OnReadPacket [OF u(1)] by (auto simp: speaks_def list_all_iff heard_def)
    show ?thesis
    proof (cases "unknown_address (sigs u)")
      case None
      then show ?thesis using V(3) v d by simp
    next
      case (Some t)
      then obtain proto m uf where "unknown_address (sigs u) = Some (a, proto, m, uf)" using a by (cases t) auto
      then show ?thesis using V(3) d OnUnknownAddress_ok [OF _ assms(2) v] by simp
    qed
  qed
qed

section \<open>The other operations\<close>

lemma run_ok_port: "ports W p = Some w \<Longrightarrow> frame w w' \<Longrightarrow> run_ok h W \<Longrightarrow> run_ok h (W\<lparr>ports := (ports W)(p \<mapsto> w')\<rparr>)"
  by (erule run_ok_frame [rotated]) (auto simp: wframe_def ports_frame_def)

lemma SendPacket_ok:
  assumes "SendPacket sent err data flags W = Some (n, W')" "run_ok h W"
  shows "run_ok h W'"
proof -
  have error: "run_ok h (set_chan (\<lambda>c. c\<lparr>ch_error := e\<rparr>) V)" if v: "run_ok h V" for e V
    by (rule run_ok_chan [OF v]) (use run_okD(1,4,8) [OF v] in \<open>auto simp: picked_def\<close>)
  show ?thesis
  proof (cases "flags \<noteq> 0 \<or> best_connection (chan W) = None")
    case True
    then show ?thesis using assms error [OF assms(2)] by (auto simp: SendPacket_def split: if_split_asm)
  next
    case False
    then obtain p k where r: "best_connection (chan W) = Some (p, k)" "flags = 0" by auto
    obtain w w' where w: "ports W p = Some w" "ProxyConnection_Send sent err k data w = Some (n, w')"
        "(\<exists>e. W' = set_chan (\<lambda>ch. ch\<lparr>ch_error := e\<rparr>) (W\<lparr>ports := (ports W)(p \<mapsto> w')\<rparr>)) \<or> W' = W\<lparr>ports := (ports W)(p \<mapsto> w')\<rparr>"
      using assms(1) r by (auto simp: SendPacket_def Let_def bind_eq_Some_conv split: if_split_asm)
    have "run_ok h (W\<lparr>ports := (ports W)(p \<mapsto> w')\<rparr>)" using run_ok_port [OF w(1) frame_Send [OF w(2)] assms(2)] .
    then show ?thesis using error w(3) by auto
  qed
qed

lemma same_conn_stats:
  "sent_bytes_second now (set_reported True c) = (sent, c1) \<Longrightarrow> recv_bytes_second now c1 = (recv, c') \<Longrightarrow> same_conn p c p c'"
  by (auto simp: sent_bytes_second_def recv_bytes_second_def set_reported_def same_conn_def local_candidate_def Let_def split: prod.splits)

lemma collect_stats_ok: "collect_stats now rs W = Some (infos, W') \<Longrightarrow> run_ok h W \<Longrightarrow> run_ok h W'"
proof (induction rs arbitrary: W infos)
  case (Cons r rs)
  obtain w c where w: "ports W (fst r) = Some w" "conns w (snd r) = Some c" using Cons.prems(1) by (auto simp: bind_eq_Some_conv)
  obtain sent c1 where s: "sent_bytes_second now (set_reported True c) = (sent, c1)" by fastforce
  obtain recv c' where r: "recv_bytes_second now c1 = (recv, c')" by fastforce
  obtain js where js: "collect_stats now rs (W\<lparr>ports := (ports W)(fst r \<mapsto> put (snd r) c' w)\<rparr>) = Some (js, W')"
    using Cons.prems(1) by (auto simp: w s r Let_def bind_eq_Some_conv)
  have "frame w (put (snd r) c' w)" using frame_put [OF w(2) same_conn_stats [OF s r]] .
  from run_ok_port [OF w(1) this Cons.prems(2)] show ?case using Cons.IH [OF js] by blast
qed simp

text \<open>A port that has no connections when its timeout comes destroys itself.\<close>

definition PortTimeout :: "nat \<Rightarrow> p2p_world \<Rightarrow> p2p_world option" where
  "PortTimeout p W =
     do {
       w \<leftarrow> ports W p;
       W \<leftarrow> port_op p (\<lambda>w. Some (snd (Port_CheckTimeout w))) W;
       Some (if fst (Port_CheckTimeout w) then W else W\<lparr>ports := (ports W)(p := None)\<rparr>)
     }"

lemma PortTimeout_ok:
  assumes "PortTimeout p W = Some W'" "run_ok h W"
  shows "run_ok h W'"
proof -
  obtain w where w: "ports W p = Some w" using assms(1) by (auto simp: PortTimeout_def bind_eq_Some_conv)
  note ok = run_okD [OF assms(2)]
  show ?thesis
  proof (cases "connections (the_port w) = []")
    case False
    then have "port_op p (\<lambda>w. Some w) W = Some W'" using assms(1) w by (simp add: PortTimeout_def Port_CheckTimeout_def port_op_def bind_eq_Some_conv)
    then show ?thesis by (rule run_ok_port_op [OF _ assms(2)]) simp
  next
    case True
    then have no: "conns w = Map.empty" using ok(5) [OF w] by (fastforce simp: port_ok_def)
    have W': "W' = (OnPortDestroyed p W)\<lparr>ports := (ports W)(p := None)\<rparr>"
      using assms(1) w True by (auto simp: PortTimeout_def Port_CheckTimeout_def port_op_def emit_def on_event_def OnPortDestroyed_def set_chan_def)
    have "live (ports W') = live (ports W)" using w no by (auto simp: W' live_def split: if_split_asm)
    moreover have "p \<notin> set (ch_ports (chan W'))" "set (ch_ports (chan W')) \<subseteq> set (ch_ports (chan W))" "distinct (ch_ports (chan W'))"
      using ok(8) set_remove1_subset by (auto simp: W' OnPortDestroyed_def)
    ultimately show ?thesis using ok(6) assms(2) unfolding run_ok_def channel_ok_def chan_ok_def
      by (auto simp: W' OnPortDestroyed_def)
  qed
qed

section \<open>The step relation\<close>

text \<open>What can happen to a channel: the messages of its thread, the calls of the transport, the events of the allocator sessions, and
  the packets, timers and messages of its ports. New ports have a number of their own. A restart of the channel is taken while no
  nomination is pending.\<close>

inductive channel_step :: "bool \<Rightarrow> p2p_world \<Rightarrow> p2p_world \<Rightarrow> bool" for h where
  step_sort: "OnSort now W = Some W' \<Longrightarrow> channel_step h W W'"
| step_ping: "OnPing h now tid q W = Some W' \<Longrightarrow> channel_step h W W'"
| step_candidate: "OnCandidate h now cand W = Some W' \<Longrightarrow> sa_ok (cd_address cand) \<Longrightarrow> channel_step h W W'"
| step_port_ready: "OnPortReady h now p w W = Some W' \<Longrightarrow> ports W p = None \<Longrightarrow> fresh_port w \<Longrightarrow> channel_step h W W'"
| step_packet: "UDPPort_OnReadPacket h ntop now rnd p data a W = Some W' \<Longrightarrow> sa_ok a \<Longrightarrow> channel_step h W W'"
| step_ready: "port_op p Port_OnReadyToSend W = Some W' \<Longrightarrow> channel_step h W W'"
| step_resend: "port_op p (requests_turn h now k) W = Some W' \<Longrightarrow> channel_step h W W'"
| step_destroy: "port_op p (Connection_Destroy k) W = Some W' \<Longrightarrow> channel_step h W W'"
| step_delete: "port_op p (Connection_OnMessage h k) W = Some W' \<Longrightarrow> channel_step h W W'"
| step_timeout: "PortTimeout p W = Some W' \<Longrightarrow> channel_step h W W'"
| step_send: "SendPacket sent err data flags W = Some (n, W') \<Longrightarrow> channel_step h W W'"
| step_stats: "GetStats now W = Some (infos, W') \<Longrightarrow> channel_step h W W'"
| step_role: "Channel_SetIceRole role W = Some W' \<Longrightarrow> channel_step h W W'"
| step_protocol: "Channel_SetIceProtocolType ty W = Some W' \<Longrightarrow> channel_step h W W'"
| step_tiebreaker: "channel_step h W (Channel_SetIceTiebreaker t W)"
| step_credentials: "channel_step h W (SetIceCredentials ufrag pwd W)"
| step_remote_credentials: "channel_step h W (SetRemoteIceCredentials ufrag pwd W)"
| step_remote_mode: "channel_step h W (SetRemoteIceMode mode W)"
| step_connect: "channel_step h W (Channel_Connect W)"
| step_reset: "pending_best_connection (chan W) = None \<Longrightarrow> channel_step h W (Reset again W)"
| step_signaling: "channel_step h W (OnSignalingReady W)"
| step_candidates: "channel_step h W (OnCandidatesReady cs W)"
| step_allocated: "channel_step h W (OnCandidatesAllocationDone W)"
| step_option: "channel_step h W (Channel_SetOption opt val W)"

lemma run_ok_fields:
  assumes "run_ok h W" "ports W' = ports W" "ch_connections (chan W') = ch_connections (chan W)" "picked (chan W') = picked (chan W)"
    "ch_writable (chan W') = ch_writable (chan W)" "was_writable (chan W') = was_writable (chan W)" "same_lists W W'"
  shows "run_ok h W'"
  by (rule run_ok_chan [OF assms(1)]) (use assms run_okD(1,4,8) [OF assms(1)] in \<open>auto simp: same_lists_def\<close>)

lemma OnSignalingReady_ok: "run_ok h W \<Longrightarrow> run_ok h (OnSignalingReady W)"
proof -
  assume ok: "run_ok h W"
  show ?thesis
  proof (cases "waiting_for_signaling (chan W)")
    case True
    show ?thesis
      by (rule run_ok_chan [OF ok]) (use True run_okD(1,4,8) [OF ok] in \<open>auto simp: OnSignalingReady_def AddAllocatorSession_def Let_def picked_def\<close>)
  qed (simp add: OnSignalingReady_def ok)
qed

lemma Reset_ok:
  assumes "run_ok h W" "pending_best_connection (chan W) = None" shows "run_ok h (Reset again W)"
proof -
  have "ports (Reset again W) = Map.empty" "ch_connections (chan (Reset again W)) = []" "best_connection (chan (Reset again W)) = None"
    "pending_best_connection (chan (Reset again W)) = None" "ch_ports (chan (Reset again W)) = []" "remote_candidates (chan (Reset again W)) = []"
    "\<not> ch_writable (chan (Reset again W))"
    using assms(2) by (simp_all add: Reset_def Allocate_def Let_def set_readable_same set_writable_same)
  then show ?thesis by (simp add: run_ok_def channel_ok_def chan_ok_def live_def)
qed

lemmas simple_ops = Channel_SetIceTiebreaker_def SetIceCredentials_def SetRemoteIceCredentials_def SetRemoteIceMode_def Channel_Connect_def
  Allocate_def OnCandidatesReady_def OnCandidatesAllocationDone_def Channel_SetOption_def Let_def picked_def same_lists_def

lemma channel_step_ok:
  assumes "channel_step h W W'" "run_ok h W" shows "run_ok h W'"
  using assms(1)
proof cases
  case (step_sort now)
  then show ?thesis using run_ok_sort assms(2) by (auto simp: OnSort_def)
next
  case (step_ping now tid q)
  then show ?thesis using OnPing_ok [OF _ run_ok_channel [OF assms(2)]] run_ok_step assms(2) by blast
next
  case (step_candidate now cand)
  then show ?thesis using OnCandidate_ok assms(2) by blast
next
  case (step_port_ready now p w)
  then show ?thesis using OnPortReady_ok assms(2) by blast
next
  case (step_packet ntop now rnd p data a)
  then show ?thesis using UDPPort_OnReadPacket_ok assms(2) by blast
next
  case (step_ready p)
  then show ?thesis by (rule run_ok_port_op [OF _ assms(2)]) (erule frame_Port_OnReadyToSend)
next
  case (step_resend p now k)
  then show ?thesis by (rule run_ok_port_op [OF _ assms(2)]) (erule frame_requests_turn)
next
  case (step_destroy p k)
  then show ?thesis by (rule run_ok_port_op [OF _ assms(2)]) (erule frame_Destroy)
next
  case (step_delete p k)
  then show ?thesis using delete_ok assms(2) by blast
next
  case (step_timeout p)
  then show ?thesis using PortTimeout_ok assms(2) by blast
next
  case (step_send sent err data flags n)
  then show ?thesis using SendPacket_ok assms(2) by blast
next
  case (step_stats now infos)
  then show ?thesis using collect_stats_ok assms(2) by (auto simp: GetStats_def)
next
  case (step_role role)
  then show ?thesis using Channel_SetIceRole_ok assms(2) by blast
next
  case (step_protocol ty)
  then show ?thesis using Channel_SetIceProtocolType_ok assms(2) by blast
next
  case (step_reset again)
  then show ?thesis using Reset_ok assms(2) by blast
next
  case step_signaling
  then show ?thesis using OnSignalingReady_ok assms(2) by blast
qed (rule run_ok_fields [OF assms(2)]; simp add: simple_ops)+

end
