(* ===== verification/P2p_Props.thy ===== *)
theory P2p_Props
  imports P2p_Run
begin

text \<open>The properties of channels: which connection is chosen, which connections are given up, and an invariant over all operations.\<close>

section \<open>Sorting\<close>



section \<open>The lists and pointers of a channel\<close>





end
