(* ===== verification/P2p_Nominate.thy ===== *)
theory P2p_Nominate
  imports P2p_Run
begin

text \<open>
  The nomination of a connection between two channels: a controlling channel nominates in its checks the connection it sends over, and
  the controlled channel sends over the nominated connection as soon as it is writable.
\<close>

section \<open>Events of one connection\<close>

abbreviation follows :: "p2p_channel \<Rightarrow> bool" where
  "follows ch \<equiv> protocol_type ch = ICEPROTO_RFC5245 \<and> ch_ice_role ch = ICEROLE_CONTROLLED"

lemma connection_of_chan [simp]: "connection_of (set_chan f W) = connection_of W" "connection_of (out e W) = connection_of W"
  by (simp_all add: connection_of_def fun_eq_iff)

text \<open>State changes of one connection can only make the pending connection the best.\<close>

lemma on_changes:
  assumes "set us \<subseteq> state_changes k" "connection_of V (p, k) \<noteq> None"
  shows "\<exists>V'. on_events p us V = Some V' \<and> ports V' = ports V \<and> same_chan (chan V) (chan V') \<and>
    (if follows (chan V) \<and> pending_best_connection (chan V) = Some (p, k) \<and> SignalStateChange k STATE_WRITABLE \<in> set us
     then best_connection (chan V') = Some (p, k) \<and> pending_best_connection (chan V') = None
     else best_connection (chan V') = best_connection (chan V) \<and> pending_best_connection (chan V') = pending_best_connection (chan V))"
  using assms
proof (induction us arbitrary: V)
  case (Cons u us)
  obtain st where u: "u = SignalStateChange k st" using Cons.prems(1) by auto
  let ?hit = "follows (chan V) \<and> pending_best_connection (chan V) = Some (p, k) \<and> st = STATE_WRITABLE"
  obtain U where U: "on_event p u V = Some U" "ports U = ports V" "same_chan (chan V) (chan U)"
      "if ?hit then best_connection (chan U) = Some (p, k) \<and> pending_best_connection (chan U) = None
       else best_connection (chan U) = best_connection (chan V) \<and> pending_best_connection (chan U) = pending_best_connection (chan V)"
  proof (cases ?hit)
    case True
    obtain c where c: "connection_of V (p, k) = Some c" using Cons.prems(2) by auto
    define A where "A = out (SignalRouteChange (remote_candidate c)) (set_chan (\<lambda>c. c\<lparr>best_connection := Some (p, k)\<rparr>)
        (set_chan (\<lambda>c. c\<lparr>pending_best_connection := None\<rparr>) V))"
    have "on_event p u V = Some (RequestSort A)" using True c
      by (simp add: u on_event_def OnConnectionStateChange_def SwitchBestConnectionTo_def A_def)
    moreover have "same_chan (chan V) (chan A)" by (simp add: A_def)
    ultimately show thesis using that [of "RequestSort A"] True same_chan_trans [OF _ RequestSort_fields(3)] by (simp add: A_def)
  next
    case False
    then have "on_event p u V = Some (RequestSort V)" by (auto simp: u on_event_def OnConnectionStateChange_def Let_def)
    then show thesis using that [of "RequestSort V"] False by simp
  qed
  have us: "set us \<subseteq> state_changes k" "connection_of U (p, k) \<noteq> None"
    using Cons.prems connection_of_cong [OF U(2)] by auto
  from Cons.IH [OF us] obtain V' where V': "on_events p us U = Some V'" "ports V' = ports U" "same_chan (chan U) (chan V')"
      "if follows (chan U) \<and> pending_best_connection (chan U) = Some (p, k) \<and> SignalStateChange k STATE_WRITABLE \<in> set us
       then best_connection (chan V') = Some (p, k) \<and> pending_best_connection (chan V') = None
       else best_connection (chan V') = best_connection (chan U) \<and> pending_best_connection (chan V') = pending_best_connection (chan U)" by blast
  have "follows (chan U) = follows (chan V)" using same_chan_fields(3,4) [OF U(3)] by simp
  then show ?case using U V' u same_chan_trans [OF U(3) V'(3)] by (intro exI [of _ V']) (auto split: if_split_asm)
qed auto

lemma on_events_append: "on_events p (es @ fs) V = do { U \<leftarrow> on_events p es V; on_events p fs U }"
proof (induction es arbitrary: V)
  case (Cons e es)
  then show ?case by (cases "on_event p e V") simp_all
qed simp

section \<open>Nomination\<close>

lemma other_events:
  assumes "\<forall>k st. e \<noteq> SignalStateChange k st" "\<forall>k. e \<noteq> SignalUseCandidate k" "\<exists>b a. e = SendTo b a"
  shows "on_event p e V = Some V"
  using assms by (auto simp: on_event_def)

text \<open>The events of an accepted check that nominates.\<close>

lemma on_nomination:
  assumes "set us \<subseteq> SignalStateChange k ` {st. (st = STATE_WRITABLE) = (write_state c = STATE_WRITABLE)}" "follows (chan V)"
    "connection_of V (p, k) = Some c'" "(write_state c' = STATE_WRITABLE) = (write_state c = STATE_WRITABLE)"
  shows "\<exists>V'. on_events p (SendTo data a # us @ [SignalUseCandidate k]) V = Some V' \<and> ports V' = ports V \<and>
    (if write_state c = STATE_WRITABLE then best_connection (chan V') = Some (p, k)
     else best_connection (chan V') = best_connection (chan V) \<and> pending_best_connection (chan V') = Some (p, k))"
proof -
  have us: "set us \<subseteq> state_changes k" "connection_of V (p, k) \<noteq> None" using assms(1,3) by auto
  from on_changes [OF us] obtain U where U: "on_events p us V = Some U" "ports U = ports V" "same_chan (chan V) (chan U)"
      "if follows (chan V) \<and> pending_best_connection (chan V) = Some (p, k) \<and> SignalStateChange k STATE_WRITABLE \<in> set us
       then best_connection (chan U) = Some (p, k) \<and> pending_best_connection (chan U) = None
       else best_connection (chan U) = best_connection (chan V) \<and> pending_best_connection (chan U) = pending_best_connection (chan V)" by blast
  have c: "connection_of U (p, k) = Some c'" using assms(3) connection_of_cong [OF U(2)] by simp
  have "\<exists>V'. OnUseCandidate (p, k) U = Some V' \<and> ports V' = ports U \<and>
      (if write_state c = STATE_WRITABLE then best_connection (chan V') = Some (p, k)
       else best_connection (chan V') = best_connection (chan U) \<and> pending_best_connection (chan V') = Some (p, k))"
    using c assms(4) by (auto simp: OnUseCandidate_def SwitchBestConnectionTo_def)
  then obtain V' where V': "OnUseCandidate (p, k) U = Some V'" "ports V' = ports U"
      "if write_state c = STATE_WRITABLE then best_connection (chan V') = Some (p, k)
       else best_connection (chan V') = best_connection (chan U) \<and> pending_best_connection (chan V') = Some (p, k)" by blast
  have "best_connection (chan U) = best_connection (chan V)" if "write_state c \<noteq> STATE_WRITABLE"
    using U(4) assms(1) that by (auto split: if_split_asm)
  then show ?thesis using U(1,2) V' by (auto simp: on_event_def on_events_append split: if_split_asm)
qed

text \<open>A controlled channel that receives the nominating check of a controlling peer.\<close>

lemma nomination_received:
  assumes W: "ports W p = Some w" "conns w k = Some c" "follows (chan W)"
    and w: "IsStandardIce (the_port w)" "ice_role (the_port w) = ICEROLE_CONTROLLED" "check_ok pa ca tid m" "length tid = 12"
      "cd_username (remote_candidate ca) = ice_username_fragment (the_port w)" "58 \<notin> set (ice_username_fragment (the_port w))"
      "cd_password (remote_candidate ca) = p_password (the_port w)" "cd_username (remote_candidate c) = ice_username_fragment pa"
      "addr_ok (cd_address (remote_candidate c))" "GetConnection h (the_port w) (cd_address (remote_candidate c)) = Some k"
      "ice_role pa = ICEROLE_CONTROLLING" "use_candidate_attr ca"
  shows "\<exists>W'. UDPPort_OnReadPacket h ntop now rnd p (message_bytes m) (cd_address (remote_candidate c)) W = Some W' \<and>
    (if write_state c = STATE_WRITABLE then best_connection (chan W') = Some (p, k)
     else best_connection (chan W') = best_connection (chan W) \<and> pending_best_connection (chan W') = Some (p, k))"
proof -
  let ?addr = "cd_address (remote_candidate c)" and ?w = "w\<lparr>sigs := []\<rparr>"
  have k: "conns ?w k = Some c" "IsStandardIce (the_port ?w)" using W(2) w(1) by simp_all
  have role: "ice_role pa \<noteq> ice_role (the_port ?w)" using w(2,11) by simp
  have go: "MaybeIceRoleConflict h ?addr m (ice_username_fragment pa) ?w = Some (True, ?w\<lparr>sigs := sigs ?w @ []\<rparr>)"
    using no_conflict [OF w(3) k(2) role] by simp
  have n: "cd_username (remote_candidate ca) = ice_username_fragment (the_port ?w)" "58 \<notin> set (ice_username_fragment (the_port ?w))"
      "cd_password (remote_candidate ca) = p_password (the_port ?w)" "GetConnection h (the_port ?w) ?addr = Some k"
    using w(5-7,10) by simp_all
  from accept_check [OF k w(3,4) n(1-3) w(8,9) n(4) go, of ntop now rnd] obtain reply es where
    b: "OnReadPacket h ntop now rnd k (message_bytes m) ?w = Some (?w\<lparr>conns := (conns ?w)(k \<mapsto> pinged now c), sigs := sigs ?w @ [] @ SendTo (message_bytes reply) ?addr # es\<rparr>)"
      "(SignalUseCandidate k \<in> set es) = (ice_role (the_port ?w) = ICEROLE_CONTROLLED \<and> ice_role pa = ICEROLE_CONTROLLING \<and> use_candidate_attr ca)"
      "\<exists>us. es = us @ (if SignalUseCandidate k \<in> set es then [SignalUseCandidate k] else []) \<and>
         set us \<subseteq> SignalStateChange k ` {st. (st = STATE_WRITABLE) = (write_state c = STATE_WRITABLE)}"
    by blast
  obtain us where us: "es = us @ [SignalUseCandidate k]" "set us \<subseteq> SignalStateChange k ` {st. (st = STATE_WRITABLE) = (write_state c = STATE_WRITABLE)}"
    using b(2,3) w(2,11,12) by auto
  define V where "V = W\<lparr>ports := (ports W)(p \<mapsto> w\<lparr>conns := (conns w)(k \<mapsto> pinged now c), sigs := sigs w @ SendTo (message_bytes reply) ?addr # es\<rparr>)\<rparr>"
  have V: "connection_of V (p, k) = Some (pinged now c)" "chan V = chan W" by (simp_all add: V_def connection_of_def)
  have st: "(write_state (pinged now c) = STATE_WRITABLE) = (write_state c = STATE_WRITABLE)" by (simp add: pinged_def)
  have run: "UDPPort_OnReadPacket h ntop now rnd p (message_bytes m) ?addr W = on_events p (SendTo (message_bytes reply) ?addr # us @ [SignalUseCandidate k]) V"
    using W(1) w(10) b(1) us(1) by (simp add: UDPPort_OnReadPacket_def port_op_def V_def)
  have f: "follows (chan V)" using W(3) V(2) by simp
  from on_nomination [OF us(2) f V(1) st] show ?thesis unfolding run V(2) by blast
qed

text \<open>A channel that pings a connection, until its check is on the wire.\<close>

lemma Ping_sigs: "Ping h t tid q k w = Some w1 \<Longrightarrow> sigs w1 = sigs w"
  by (auto simp: Ping_def Let_def bind_eq_Some_conv put_def)

lemma check_sent:
  assumes W: "ports W p = Some w" "conns w k = Some c" "nominates W (p, k) = Some u"
    and j: "joined h' w k wb kb" "length tid = 12"
  obtains m r c' w1 w2 W1 W2 where "PingConnection h t tid q (p, k) W = Some W1" "port_op p (requests_turn h t k) W1 = Some W2"
    "chan W2 = chan W" "ports W2 = (ports W)(p \<mapsto> w2\<lparr>sigs := sigs w @ [SendTo (message_bytes m) (cd_address (remote_candidate c))]\<rparr>)"
    "check_ok (the_port w) (c\<lparr>use_candidate_attr := u\<rparr>) tid m"
    "conns w2 k = Some c'" "the_port w2 = the_port w" "remote_candidate c' = remote_candidate c" "write_state c' = write_state c"
    "local_candidate (the_port w) c' = local_candidate (the_port w) c"
    "objects (conn_requests c') q = Some r" "rq_id r = tid" "rq_manager r" "msg_type (rq_msg r) = 1"
    "map_option uint32_value (GetUInt32 (rq_msg r) STUN_ATTR_PRIORITY) = map_option (\<lambda>l. prflx_priority (cd_priority l)) (local_candidate (the_port w) c)"
    "requests (conn_requests c') = [(tid, q)]"
proof -
  let ?c = "c\<lparr>use_candidate_attr := u\<rparr>"
  define w0 where "w0 = w\<lparr>sigs := [], conns := (conns w)(k \<mapsto> ?c)\<rparr>"
  have w0: "set_nomination k u (w\<lparr>sigs := []\<rparr>) = Some w0" "conns w0 k = Some ?c" "the_port w0 = the_port w" "sigs w0 = []"
    using W(2) by (simp_all add: set_nomination_def set_use_candidate_attr_def put_def w0_def)
  have l: "local_candidate (the_port w) ?c = local_candidate (the_port w) c" by (simp add: local_candidate_def)
  have j0: "joined h' w0 k wb kb" using j(1) W(2) l by (auto simp: joined_def w0_def names_fit_def split: option.splits)
  obtain m rqs r c' w1 w2 where a: "Ping h t tid q k w0 = Some w1" "requests_turn h t k w1 = Some w2"
      "sigs w2 = sigs w0 @ [SendTo (message_bytes m) (cd_address (remote_candidate ?c))]" "check_ok (the_port w0) ?c tid m"
      "conns w2 k = Some c'" "the_port w2 = the_port w0" "remote_candidate c' = remote_candidate ?c"
      "local_candidate (the_port w0) c' = local_candidate (the_port w0) ?c" "objects (conn_requests c') q = Some r" "rq_id r = tid" "rq_manager r"
      "msg_type (rq_msg r) = 1"
      "map_option uint32_value (GetUInt32 (rq_msg r) STUN_ATTR_PRIORITY) = map_option (\<lambda>l. prflx_priority (cd_priority l)) (local_candidate (the_port w0) ?c)"
      "requests (conn_requests c') = [(tid, q)]"
    by (rule joined_check [OF j0 w0(2) j(2), of h t q])
  have s1: "sigs w1 = []" using Ping_sigs [OF a(1)] w0(4) by simp
  have same: "w1\<lparr>sigs := []\<rparr> = w1" using s1 by (cases w1) simp
  have e: "PingConnection h t tid q (p, k) W = Some (W\<lparr>ports := (ports W)(p \<mapsto> w1\<lparr>sigs := sigs w\<rparr>)\<rparr>)"
      "port_op p (requests_turn h t k) (W\<lparr>ports := (ports W)(p \<mapsto> w1\<lparr>sigs := sigs w\<rparr>)\<rparr>) =
       Some (W\<lparr>ports := (ports W)(p \<mapsto> w2\<lparr>sigs := sigs w @ [SendTo (message_bytes m) (cd_address (remote_candidate c))]\<rparr>)\<rparr>)"
    using W(1,3) w0(1,4) a(1-3) s1 by (simp_all add: PingConnection_def port_op_def on_event_def same)
  obtain l where pre: "IsStandardIce (the_port w0)" "local_candidate (the_port w0) ?c = Some l" "names_fit (the_port w0) ?c" "idle (conn_requests ?c)"
    using j0 w0(2) by (auto simp: joined_def Let_def split: option.splits)
  from Ping_turn [OF w0(2) pre(1,2,3) j(2) pre(4), of h t q] a(1,2) obtain x y rqs where
    x: "w2 = emit y (put k x w0)" "x = ?c\<lparr>last_ping_sent := t, pings_since_last_response := pings_since_last_response ?c @ [t],
      check_state := STATE_INPROGRESS, conn_requests := rqs\<rparr>" by auto
  then have "c' = x" using a(5) by (simp add: emit_def put_def)
  then have "write_state c' = write_state c" using x(2) by simp
  then show thesis using that [OF e] a l w0(3) by simp
qed

text \<open>C11: a nomination reaches the peer. A controlling channel of RFC 5245 that pings the connection it sends over, or any connection while
  it has none, nominates it in the check, and the controlled channel at the other end sends over its connection to that
  candidate from then on, if that is writable; otherwise it keeps it as the pending one.\<close>

theorem nomination_reaches_peer:
  assumes "ports WA pa = Some wa" "conns wa ka = Some ca" "protocol_type (chan WA) = ICEPROTO_RFC5245" "ch_ice_role (chan WA) = ICEROLE_CONTROLLING"
    "ch_remote_ice_mode (chan WA) = ICEMODE_FULL" "best_connection (chan WA) \<in> {None, Some (pa, ka)}" "ice_role (the_port wa) = ICEROLE_CONTROLLING"
    and "ports WB pb = Some wb" "conns wb kb = Some cb" "protocol_type (chan WB) = ICEPROTO_RFC5245" "ch_ice_role (chan WB) = ICEROLE_CONTROLLED"
    "ice_role (the_port wb) = ICEROLE_CONTROLLED"
    and "joined h' wa ka wb kb" "length tid = 12"
  shows "\<exists>request WA1 WA2 wa2 WB'. PingConnection h t tid q (pa, ka) WA = Some WA1 \<and> port_op pa (requests_turn h t ka) WA1 = Some WA2 \<and>
    ports WA2 pa = Some wa2 \<and> sigs wa2 = sigs wa @ [SendTo request (cd_address (remote_candidate ca))] \<and>
    UDPPort_OnReadPacket h' ntop' t' rnd' pb request (cd_address (remote_candidate cb)) WB = Some WB' \<and>
    (if write_state cb = STATE_WRITABLE then best_connection (chan WB') = Some (pb, kb)
     else best_connection (chan WB') = best_connection (chan WB) \<and> pending_best_connection (chan WB') = Some (pb, kb))"
proof -
  have u: "nominates WA (pa, ka) = Some True" using assms(3-6) by (auto simp: nominates_def)
  obtain m r c' w1 w2 W1 W2 where a: "PingConnection h t tid q (pa, ka) WA = Some W1" "port_op pa (requests_turn h t ka) W1 = Some W2"
      "ports W2 = (ports WA)(pa \<mapsto> w2\<lparr>sigs := sigs wa @ [SendTo (message_bytes m) (cd_address (remote_candidate ca))]\<rparr>)"
      "check_ok (the_port wa) (ca\<lparr>use_candidate_attr := True\<rparr>) tid m"
    by (rule check_sent [OF assms(1,2) u assms(13,14), of h t q]) blast
  let ?ca = "ca\<lparr>use_candidate_attr := True\<rparr>"
  have j: "IsStandardIce (the_port wb)" "cd_username (remote_candidate ?ca) = ice_username_fragment (the_port wb)" "58 \<notin> set (ice_username_fragment (the_port wb))"
      "cd_password (remote_candidate ?ca) = p_password (the_port wb)" "cd_username (remote_candidate cb) = ice_username_fragment (the_port wa)"
      "addr_ok (cd_address (remote_candidate cb))" "GetConnection h' (the_port wb) (cd_address (remote_candidate cb)) = Some kb" "use_candidate_attr ?ca"
    using assms(2,9,13) by (simp_all add: joined_def Let_def)
  have f: "follows (chan WB)" using assms(10,11) by simp
  from nomination_received [OF assms(8,9) f j(1) assms(12) a(4) assms(14) j(2-7) assms(7) j(8), of ntop' t' rnd'] obtain WB' where
    "UDPPort_OnReadPacket h' ntop' t' rnd' pb (message_bytes m) (cd_address (remote_candidate cb)) WB = Some WB'"
    "if write_state cb = STATE_WRITABLE then best_connection (chan WB') = Some (pb, kb)
     else best_connection (chan WB') = best_connection (chan WB) \<and> pending_best_connection (chan WB') = Some (pb, kb)" by blast
  then show ?thesis using a(1-3)
    by (intro exI [of _ "message_bytes m"] exI [of _ W1] exI [of _ W2] exI [of _ "w2\<lparr>sigs := sigs wa @ [SendTo (message_bytes m) (cd_address (remote_candidate ca))]\<rparr>"] exI [of _ WB']) simp
qed

text \<open>A channel whose connection is answered.\<close>

lemma answer_received:
  assumes W: "ports W p = Some w" "conns w k = Some c" "write_state c \<noteq> STATE_WRITABLE" "GetConnection h (the_port w) (cd_address (remote_candidate c)) = Some k"
    and a: "IsStandardIce (the_port w)" "answer_ok (cd_password (remote_candidate c)) tid m" "length tid = 12" "uint (msg_type m) = STUN_BINDING_RESPONSE"
      "map_of (requests (conn_requests c)) tid = Some q" "objects (conn_requests c) q = Some r" "rq_id r = tid" "rq_manager r" "msg_type (rq_msg r) = 1"
      "local_candidate (the_port w) c = Some local" "map_option GetAddress (Message_GetAddress m STUN_ATTR_XOR_MAPPED_ADDRESS) = Some addr"
      "map_option uint32_value (GetUInt32 (rq_msg r) STUN_ATTR_PRIORITY) = Some prio"
  shows "\<exists>W' c'. UDPPort_OnReadPacket h ntop now rnd p (message_bytes m) (cd_address (remote_candidate c)) W = Some W' \<and>
    connection_of W' (p, k) = Some c' \<and> write_state c' = STATE_WRITABLE \<and>
    (if follows (chan W) \<and> pending_best_connection (chan W) = Some (p, k)
     then best_connection (chan W') = Some (p, k) \<and> pending_best_connection (chan W') = None
     else best_connection (chan W') = best_connection (chan W) \<and> pending_best_connection (chan W') = pending_best_connection (chan W))"
proof -
  let ?w = "w\<lparr>sigs := []\<rparr>"
  have w: "conns ?w k = Some c" "IsStandardIce (the_port ?w)" "local_candidate (the_port ?w) c = Some local" using W(2) a(1,10) by simp_all
  from answer_accepted [OF w(1,2) a(2-9) w(3) a(11,12), of h ntop now rnd] obtain v c' es where
    v: "OnReadPacket h ntop now rnd k (message_bytes m) ?w = Some v" "conns v k = Some c'" "write_state c' = STATE_WRITABLE" "sigs v = sigs ?w @ es"
      "set es \<subseteq> state_changes k" "write_state c \<noteq> STATE_WRITABLE \<longrightarrow> SignalStateChange k STATE_WRITABLE \<in> set es"
    by blast
  define V where "V = W\<lparr>ports := (ports W)(p \<mapsto> v\<lparr>sigs := sigs w @ sigs v\<rparr>)\<rparr>"
  have V: "connection_of V (p, k) = Some c'" "chan V = chan W" using v(2) by (simp_all add: V_def connection_of_def)
  have run: "UDPPort_OnReadPacket h ntop now rnd p (message_bytes m) (cd_address (remote_candidate c)) W = on_events p es V"
    using W(1,4) v(1,4) by (simp add: UDPPort_OnReadPacket_def port_op_def V_def)
  have hit: "SignalStateChange k STATE_WRITABLE \<in> set es" using v(6) W(3) by blast
  have "connection_of V (p, k) \<noteq> None" using V(1) by simp
  from on_changes [OF v(5) this] obtain W' where W': "on_events p es V = Some W'" "ports W' = ports V"
      "if follows (chan V) \<and> pending_best_connection (chan V) = Some (p, k) \<and> SignalStateChange k STATE_WRITABLE \<in> set es
       then best_connection (chan W') = Some (p, k) \<and> pending_best_connection (chan W') = None
       else best_connection (chan W') = best_connection (chan V) \<and> pending_best_connection (chan W') = pending_best_connection (chan V)" by blast
  have "connection_of W' (p, k) = Some c'" using V(1) connection_of_cong [OF W'(2)] by simp
  then show ?thesis using W'(1,3) v(3) hit unfolding run V(2) by simp
qed

text \<open>C12: a nominated connection is selected once it works. When the connection that a controlled channel has pending is pinged, the peer
  accepts the check and answers it, and the answer makes the connection writable, after which it is the one the channel
  sends over, and none is pending.\<close>

theorem nominee_selected:
  assumes "ports W p = Some w" "conns w k = Some c" "protocol_type (chan W) = ICEPROTO_RFC5245" "ch_ice_role (chan W) = ICEROLE_CONTROLLED"
    "pending_best_connection (chan W) = Some (p, k)" "write_state c \<noteq> STATE_WRITABLE" "ice_role (the_port w) = ICEROLE_CONTROLLED"
    "GetConnection h (the_port w) (cd_address (remote_candidate c)) = Some k"
    and "joined h' w k wb kb" "conns wb kb = Some cb" "ice_role (the_port wb) = ICEROLE_CONTROLLING" "length tid = 12"
  shows "\<exists>request reply W1 W2 w2 wb' W' c' es. PingConnection h t tid q (p, k) W = Some W1 \<and> port_op p (requests_turn h t k) W1 = Some W2 \<and>
    ports W2 p = Some w2 \<and> sigs w2 = sigs w @ [SendTo request (cd_address (remote_candidate c))] \<and>
    OnReadPacket h' ntop' t' rnd' kb request wb = Some wb' \<and> sigs wb' = sigs wb @ SendTo reply (cd_address (remote_candidate cb)) # es \<and>
    UDPPort_OnReadPacket h ntop t2 rnd p reply (cd_address (remote_candidate c)) W2 = Some W' \<and>
    connection_of W' (p, k) = Some c' \<and> write_state c' = STATE_WRITABLE \<and>
    best_connection (chan W') = Some (p, k) \<and> pending_best_connection (chan W') = None"
proof -
  have lc: "IsStandardIce (the_port w)" "local_candidate (the_port w) c \<noteq> None" "cd_password (remote_candidate c) = p_password (the_port wb)"
    using assms(2,9,10) by (simp_all add: joined_def Let_def)
  then obtain local where local: "local_candidate (the_port w) c = Some local" by auto
  have "nominates W (p, k) \<noteq> None" using assms(1-4) by (simp add: nominates_def Let_def connection_of_def) (auto intro: exI [of _ False])
  then obtain u where u: "nominates W (p, k) = Some u" by auto
  obtain m r c1 w1 w2 W1 W2 where a: "PingConnection h t tid q (p, k) W = Some W1" "port_op p (requests_turn h t k) W1 = Some W2"
      "chan W2 = chan W" "ports W2 = (ports W)(p \<mapsto> w2\<lparr>sigs := sigs w @ [SendTo (message_bytes m) (cd_address (remote_candidate c))]\<rparr>)"
      "check_ok (the_port w) (c\<lparr>use_candidate_attr := u\<rparr>) tid m" "conns w2 k = Some c1" "the_port w2 = the_port w" "remote_candidate c1 = remote_candidate c"
      "write_state c1 = write_state c" "local_candidate (the_port w) c1 = local_candidate (the_port w) c"
      "objects (conn_requests c1) q = Some r" "rq_id r = tid" "rq_manager r" "msg_type (rq_msg r) = 1"
      "map_option uint32_value (GetUInt32 (rq_msg r) STUN_ATTR_PRIORITY) = map_option (\<lambda>l. prflx_priority (cd_priority l)) (local_candidate (the_port w) c)"
      "requests (conn_requests c1) = [(tid, q)]"
    by (rule check_sent [OF assms(1,2) u assms(9,12), of h t q])
  let ?c = "c\<lparr>use_candidate_attr := u\<rparr>" and ?addr = "cd_address (remote_candidate cb)"
  have j: "IsStandardIce (the_port wb)" "cd_username (remote_candidate ?c) = ice_username_fragment (the_port wb)" "58 \<notin> set (ice_username_fragment (the_port wb))"
      "cd_password (remote_candidate ?c) = p_password (the_port wb)" "cd_username (remote_candidate cb) = ice_username_fragment (the_port w)"
      "addr_ok ?addr" "GetConnection h' (the_port wb) ?addr = Some kb"
    using assms(2,9,10) by (simp_all add: joined_def Let_def)
  have role: "ice_role (the_port w) \<noteq> ice_role (the_port wb)" using assms(7,11) by simp
  have go: "MaybeIceRoleConflict h' ?addr m (ice_username_fragment (the_port w)) wb = Some (True, wb\<lparr>sigs := sigs wb @ []\<rparr>)"
    using no_conflict [OF a(5) j(1) role] by simp
  from accept_check [OF assms(10) j(1) a(5) assms(12) j(2-7) go, of ntop' t' rnd'] obtain reply es where
    b: "OnReadPacket h' ntop' t' rnd' kb (message_bytes m) wb = Some (wb\<lparr>conns := (conns wb)(kb \<mapsto> pinged t' cb), sigs := sigs wb @ [] @ SendTo (message_bytes reply) ?addr # es\<rparr>)"
      "answer_ok (p_password (the_port wb)) tid reply" "uint (msg_type reply) = STUN_BINDING_RESPONSE"
      "map_option GetAddress (Message_GetAddress reply STUN_ATTR_XOR_MAPPED_ADDRESS) = Some ?addr"
    by blast
  define w2' where "w2' = w2\<lparr>sigs := sigs w @ [SendTo (message_bytes m) (cd_address (remote_candidate c))]\<rparr>"
  have d: "ports W2 p = Some w2'" "conns w2' k = Some c1" "write_state c1 \<noteq> STATE_WRITABLE" "GetConnection h (the_port w2') (cd_address (remote_candidate c1)) = Some k"
      "IsStandardIce (the_port w2')" "answer_ok (cd_password (remote_candidate c1)) tid reply" "map_of (requests (conn_requests c1)) tid = Some q"
      "local_candidate (the_port w2') c1 = Some local"
      "map_option uint32_value (GetUInt32 (rq_msg r) STUN_ATTR_PRIORITY) = Some (prflx_priority (cd_priority local))"
    using a lc assms(6,8) b(2) local by (simp_all add: w2'_def)
  from answer_received [OF d(1-6) assms(12) b(3) d(7) a(11-14) d(8) b(4) d(9), of ntop t2 rnd] obtain W' c' where
    W': "UDPPort_OnReadPacket h ntop t2 rnd p (message_bytes reply) (cd_address (remote_candidate c)) W2 = Some W'"
      "connection_of W' (p, k) = Some c'" "write_state c' = STATE_WRITABLE" "best_connection (chan W') = Some (p, k)" "pending_best_connection (chan W') = None"
    using assms(3-5) unfolding a(3,8) by auto
  define wb' where "wb' = wb\<lparr>conns := (conns wb)(kb \<mapsto> pinged t' cb), sigs := sigs wb @ [] @ SendTo (message_bytes reply) ?addr # es\<rparr>"
  have e: "sigs w2' = sigs w @ [SendTo (message_bytes m) (cd_address (remote_candidate c))]" "sigs wb' = sigs wb @ SendTo (message_bytes reply) ?addr # es"
    by (simp_all add: w2'_def wb'_def)
  show ?thesis by (intro exI conjI) (rule a(1,2) d(1) e(1) b(1) [folded wb'_def] e(2) W')+
qed

end
