(* ===== verification/P2p_Examples.thy ===== *)
theory P2p_Examples
  imports P2p_Props P2p_Nominate Ice_Examples
begin

text \<open>A channel of one port with three connections, of which the second is writable, on which the properties of channels are applied.\<close>

definition sample_peer :: "byte \<Rightarrow> u32 \<Rightarrow> Connection" where
  "sample_peer n priority = Connection_new 0 (Candidate_new\<lparr>cd_component := 1, cd_address := sample_addr n, cd_priority := priority,
     cd_username := [97, n], cd_password := [112, n]\<rparr>)"

definition sample_port :: "IceRole \<Rightarrow> ice_world" where
  "sample_port role = (sample_end role 5 1 2)
     \<lparr>the_port := (the_port (sample_end role 5 1 2))\<lparr>connections := [(sample_addr 2, 1), (sample_addr 3, 2), (sample_addr 4, 3)]\<rparr>,
      conns := [1 \<mapsto> sample_peer 2 50, 2 \<mapsto> (sample_peer 3 40)\<lparr>write_state := STATE_WRITABLE\<rparr>, 3 \<mapsto> sample_peer 4 30]\<rparr>"

definition sample_channel :: "IceRole \<Rightarrow> p2p_world" where
  "sample_channel role =
     \<lparr>chan = (P2PTransportChannel_new 1)\<lparr>ch_ports := [0], ch_connections := [(0, 1), (0, 2), (0, 3)], protocol_type := ICEPROTO_RFC5245,
         ch_ice_role := role\<rparr>,
      ports = [0 \<mapsto> sample_port role], news = [4, 5, 6], outs = []\<rparr>"


lemma sample_port_fields [simp]:
  "ice_protocol (the_port (sample_port role)) = ICEPROTO_RFC5245" "ice_role (the_port (sample_port role)) = role"
  "candidates (the_port (sample_port role)) = [Candidate_new\<lparr>cd_component := 1, cd_address := sample_addr 1, cd_priority := 7\<rparr>]"
  "connections (the_port (sample_port role)) = [(sample_addr 2, 1), (sample_addr 3, 2), (sample_addr 4, 3)]"
  "conns (sample_port role) = [1 \<mapsto> sample_peer 2 50, 2 \<mapsto> (sample_peer 3 40)\<lparr>write_state := STATE_WRITABLE\<rparr>, 3 \<mapsto> sample_peer 4 30]"
  "network_name (the_port (sample_port role)) = ''eth0''" "p_generation (the_port (sample_port role)) = 0" "sigs (sample_port role) = []"
  by (simp_all add: sample_port_def sample_end_def Port_new_def Port_Construct_def SetIceTiebreaker_def SetIceRole_def SetIceProtocolType_def)

lemma sample_peer_fields [simp]:
  "read_state (sample_peer n q) = STATE_READ_INIT" "write_state (sample_peer n q) = STATE_WRITE_INIT" "\<not> pruned (sample_peer n q)"
  "local_candidate_index (sample_peer n q) = 0" "cd_address (remote_candidate (sample_peer n q)) = sample_addr n"
  "cd_priority (remote_candidate (sample_peer n q)) = q" "cd_generation (remote_candidate (sample_peer n q)) = 0"
  "pings_since_last_response (sample_peer n q) = []" "rtt (sample_peer n q) = DEFAULT_RTT" "conn_requests (sample_peer n q) = stun_world_new"
  by (simp_all add: sample_peer_def Connection_new_def Candidate_new_def)



lemma sample_sa_ok [simp]: "sa_ok (sample_addr n)"
  using sample_addr_ok [of n] by (simp add: addr_ok_def sa_ok_def)





lemma sample_port_quiet [simp]: "sample_port role\<lparr>sigs := []\<rparr> = sample_port role"
  by (simp add: sample_port_def sample_end_def)

lemma sample_channel_same [simp]: "sample_channel role\<lparr>ports := [0 \<mapsto> sample_port role]\<rparr> = sample_channel role"
  by (simp add: sample_channel_def)











section \<open>A run\<close>






section \<open>Two channels\<close>

definition sample_side :: "IceRole \<Rightarrow> u64 \<Rightarrow> byte \<Rightarrow> byte \<Rightarrow> conn_ref option \<Rightarrow> p2p_world" where
  "sample_side role tb own peer pend =
     \<lparr>chan = (P2PTransportChannel_new 1)\<lparr>ch_ports := [0], ch_connections := [(0, 1)], protocol_type := ICEPROTO_RFC5245, ch_ice_role := role,
         pending_best_connection := pend\<rparr>,
      ports = [0 \<mapsto> sample_end role tb own peer], news = [], outs = []\<rparr>"

lemma sample_side_fields [simp]:
  "ports (sample_side role tb own peer pend) 0 = Some (sample_end role tb own peer)"
  "best_connection (chan (sample_side role tb own peer pend)) = None" "pending_best_connection (chan (sample_side role tb own peer pend)) = pend"
  "protocol_type (chan (sample_side role tb own peer pend)) = ICEPROTO_RFC5245" "ch_ice_role (chan (sample_side role tb own peer pend)) = role"
  "ch_remote_ice_mode (chan (sample_side role tb own peer pend)) = ICEMODE_FULL"
  by (simp_all add: sample_side_def P2PTransportChannel_new_def)

theorem nomination_reaches_peer_witness:
  "\<exists>request WB'. UDPPort_OnReadPacket True (\<lambda>_ _. None) 150 [] 0 request (sample_addr 1) (sample_side ICEROLE_CONTROLLED 9 2 1 None) = Some WB' \<and>
     pending_best_connection (chan WB') = Some (0, 1)"
proof -
  let ?A = "sample_side ICEROLE_CONTROLLING 5 1 2 None" and ?B = "sample_side ICEROLE_CONTROLLED 9 2 1 None"
  let ?a = "sample_end ICEROLE_CONTROLLING 5 1 2" and ?b = "sample_end ICEROLE_CONTROLLED 9 2 1"
  have c: "ports ?A 0 = Some ?a" "conns ?a 1 = Some (sample_connection 2)" "protocol_type (chan ?A) = ICEPROTO_RFC5245" "ch_ice_role (chan ?A) = ICEROLE_CONTROLLING"
    "ch_remote_ice_mode (chan ?A) = ICEMODE_FULL" "best_connection (chan ?A) \<in> {None, Some (0, 1)}" "ice_role (the_port ?a) = ICEROLE_CONTROLLING"
    "ports ?B 0 = Some ?b" "conns ?b 1 = Some (sample_connection 1)" "protocol_type (chan ?B) = ICEPROTO_RFC5245" "ch_ice_role (chan ?B) = ICEROLE_CONTROLLED"
    "ice_role (the_port ?b) = ICEROLE_CONTROLLED" "length (replicate 12 7 :: byte list) = 12" by simp_all
  from nomination_reaches_peer [where h = True and h' = True and t = 100 and q = 3 and ntop' = "\<lambda>_ _. None" and t' = 150 and rnd' = "[]",
      OF c(1-12) sample_joined c(13)]
  show ?thesis by auto
qed

lemma sample_joined_back: "joined h (sample_end ra ta 2 1) 1 (sample_end rb tb 1 2) 1"
  by (simp add: joined_def IsStandardIce_def names_fit_def sample_addr_ok GetConnection_def same_key_def less_irrefl_sample)

theorem nominee_selected_witness:
  "\<exists>W2 reply W'. UDPPort_OnReadPacket True (\<lambda>_ _. None) 150 [] 0 reply (sample_addr 1) W2 = Some W' \<and> best_connection (chan W') = Some (0, 1)"
proof -
  let ?W = "sample_side ICEROLE_CONTROLLED 9 2 1 (Some (0, 1))" and ?w = "sample_end ICEROLE_CONTROLLED 9 2 1" and ?b = "sample_end ICEROLE_CONTROLLING 5 1 2"
  have c: "ports ?W 0 = Some ?w" "conns ?w 1 = Some (sample_connection 1)" "protocol_type (chan ?W) = ICEPROTO_RFC5245" "ch_ice_role (chan ?W) = ICEROLE_CONTROLLED"
    "pending_best_connection (chan ?W) = Some (0, 1)" "write_state (sample_connection 1) \<noteq> STATE_WRITABLE" "ice_role (the_port ?w) = ICEROLE_CONTROLLED"
    "GetConnection True (the_port ?w) (cd_address (remote_candidate (sample_connection 1))) = Some 1"
    "conns ?b 1 = Some (sample_connection 2)" "ice_role (the_port ?b) = ICEROLE_CONTROLLING" "length (replicate 12 7 :: byte list) = 12"
    by (simp_all add: GetConnection_def same_key_def less_irrefl_sample)
  from nominee_selected [where h = True and h' = True and t = 100 and q = 3 and ntop = "\<lambda>_ _. None" and ntop' = "\<lambda>_ _. None" and ?t2.0 = 150
      and t' = 120 and rnd = "[]" and rnd' = "[]", OF c(1-8) sample_joined_back c(9-11)]
  show ?thesis by auto
qed

end
