(* ===== verification/Spec2Isabelle.thy ===== *)
theory Spec2Isabelle
  imports Prelude Byte_Order Time_Utils Byte_Buffer Fifo_Buffer Crc32 Ip_Address Socket_Address Block_Hash Sha1 Md5
    String_Encode Message_Digest Stun_Attribute Stun_Message Stun_Props Pseudo_Tcp Pseudo_Tcp_Send Pseudo_Tcp_Recv
    Pseudo_Tcp_Conn Pseudo_Tcp_Props Base64 Rtp_Utils Stream_Params Rtcp_Mux_Filter Srtp_Filter Message_Queue Stun_Request
    Ice_Candidate Ice_Port Ice_Check Ice_Props Ice_Examples Ice_Frame P2p_Channel P2p_Frame P2p_Sort P2p_Run P2p_Props P2p_Nominate
    P2p_Examples
begin

text \<open>
  A verification of the transport core of libjingle, the peer-to-peer session library under \<^verbatim>\<open>src/\<close>.

  \<^bold>\<open>The program.\<close> libjingle connects two peers through NATs and runs sessions between them. At the bottom are
  utilities (\<^verbatim>\<open>base/\<close>): byte buffers, byte order, checksums and digests, string codecs, addresses. On them rest the
  STUN messages (\<^verbatim>\<open>p2p/base/stun.cc\<close>) by which peers probe each other, and pseudo-TCP
  (\<^verbatim>\<open>p2p/base/pseudotcp.cc\<close>), which turns the datagrams of a probed path into a reliable stream. Threads run on message
  queues with timers (\<^verbatim>\<open>base/messagequeue.cc\<close>), by which STUN requests are sent again until they are answered. A port
  (\<^verbatim>\<open>p2p/base/port.cc\<close>) has connections to the candidates of the peer, whose paths it checks with such requests. A
  transport channel (\<^verbatim>\<open>p2p/base/p2ptransportchannel.cc\<close>) spans several ports: it makes their connections, sorts them, and
  sends over the best one. Media flows as RTP packets, which filters negotiate, sort and protect (\<^verbatim>\<open>session/media/\<close>). Transports, sessions and
  XMPP are built on top of these. The development covers the layers named first, from the bytes up to complete STUN
  messages and requests, ICE ports and their connections, transport channels, complete pseudo-TCP endpoints, and the filters
  of the media channels.

  \<^bold>\<open>How the code is modelled.\<close> A class is a record of its fields, a method a function from the record to its result
  and the changed record, an enumeration a datatype or its constants, and \<^verbatim>\<open>uint8\<close> to \<^verbatim>\<open>uint64\<close> are words of that
  width, so that wrap-around is that of the machine. Functions that depend on the byte order of the host take it as
  the argument \<open>h\<close> (big-endian when true), and the theorems hold for both. Memory blocks are byte lists. A boolean
  result with output parameters is a pair or an option; where the code would read or write outside an object, throw,
  or fail an assertion that keeps memory safe, the result is \<open>None\<close>, and theorems show when that cannot happen.
  Code outside the repository (\<^verbatim>\<open>inet_pton\<close>, \<^verbatim>\<open>inet_ntop\<close>, the clock, random strings, libSRTP, the waiting of the socket server, and the
  network behind \<^verbatim>\<open>IPseudoTcpNotify\<close>) is an argument of the functions that call it. Logging is left out throughout.

  \<^bold>\<open>The theories.\<close>
  \<^item> \<open>Prelude\<close>: types, memory reads and writes, and lemmas on lists, words and options.
  \<^item> \<open>Byte_Order\<close> (\<^verbatim>\<open>base/byteorder.h\<close>): the accessors and conversions; the locale of a codec is interpreted on
    every width and order, and its laws carry the proofs about wire formats.
  \<^item> \<open>Time_Utils\<close> (\<^verbatim>\<open>base/timeutils.cc\<close>): comparisons on a wrapping clock, in both compiled variants.
  \<^item> \<open>Byte_Buffer\<close> (\<^verbatim>\<open>base/bytebuffer.cc\<close>): the buffer on its block of memory, shown to be a byte channel.
  \<^item> \<open>Fifo_Buffer\<close> (\<^verbatim>\<open>base/stream.cc\<close>): the ring buffer, shown to refine a bounded queue.
  \<^item> \<open>Crc32\<close> (\<^verbatim>\<open>base/crc32.cc\<close>): the lazily built table against bit-serial division, and the detection of bytes.
  \<^item> \<open>Ip_Address\<close>, \<open>Socket_Address\<close> (\<^verbatim>\<open>base/ipaddress.cc\<close>, \<^verbatim>\<open>base/socketaddress.cc\<close>): order, classification,
    masks, text and socket structures.
  \<^item> \<open>Block_Hash\<close>, \<open>Sha1\<close>, \<open>Md5\<close> (\<^verbatim>\<open>base/sha1.cc\<close>, \<^verbatim>\<open>base/md5.cc\<close>): the incremental hashes against FIPS 180 and
    RFC 1321 written down directly; \<open>Block_Hash\<close> holds what the two share.
  \<^item> \<open>String_Encode\<close> (\<^verbatim>\<open>base/stringencode.cc\<close>): the codecs, through one locale for loops that fill a buffer.
  \<^item> \<open>Message_Digest\<close> (\<^verbatim>\<open>base/messagedigest.cc\<close>): the digest interface as a locale, interpreted on both digests, and
    HMAC against RFC 2104.
  \<^item> \<open>Stun_Attribute\<close>, \<open>Stun_Message\<close>, \<open>Stun_Props\<close> (\<^verbatim>\<open>p2p/base/stun.cc\<close>): the attribute classes, the messages over
    the locale of what a message needs of its attributes, and the properties: messages survive the wire, integrity
    and fingerprint are what they should be, and where malformed packets are not caught.
  \<^item> \<open>Pseudo_Tcp\<close>, \<open>Pseudo_Tcp_Send\<close>, \<open>Pseudo_Tcp_Recv\<close>, \<open>Pseudo_Tcp_Conn\<close>, \<open>Pseudo_Tcp_Props\<close>
    (\<^verbatim>\<open>p2p/base/pseudotcp.cc\<close>): every operation of the protocol on the ring buffers above; the invariant of the send
    side (segments tile the buffer), of the receive side (early segments lie in the window and agree with the
    stream), and of the connection; a step relation of all calls an endpoint can receive, and the properties over its
    reachable states: the stream is delivered in order, no call faults or loops, every datagram carries the stream.

  \<^item> \<open>Base64\<close> (\<^verbatim>\<open>base/base64.cc\<close>): encoding and decoding with all flags, against RFC 4648.
  \<^item> \<open>Rtp_Utils\<close> (\<^verbatim>\<open>media/base/rtputils.cc\<close>): the fields of RTP and RTCP headers, in bounds on every packet.
  \<^item> \<open>Stream_Params\<close> (\<^verbatim>\<open>media/base/streamparams.cc\<close>, \<^verbatim>\<open>session/media/bundlefilter.cc\<close>): descriptions of streams, and the
    filter that decides which packets of a bundle are for a channel.
  \<^item> \<open>Rtcp_Mux_Filter\<close> (\<^verbatim>\<open>session/media/rtcpmuxfilter.cc\<close>): the negotiation of RTCP multiplexing. The locale of filters whose
    two ends stay related through any negotiation is interpreted here, and its laws are shown for the SRTP filter too.
  \<^item> \<open>Srtp_Filter\<close> (\<^verbatim>\<open>session/media/srtpfilter.cc\<close>): the negotiation of keys on \<open>Base64\<close> and \<open>Rtp_Utils\<close>, sessions over a
    library that is a parameter, and the delivery of packets between two filters that have negotiated.
  \<^item> \<open>Message_Queue\<close> (\<^verbatim>\<open>base/messagequeue.cc\<close>): posted and delayed messages, waiting and clearing; a step relation of all that
    can happen to a queue, and the order of delivery over its reachable states.
  \<^item> \<open>Stun_Request\<close> (\<^verbatim>\<open>p2p/base/stunrequest.cc\<close>): requests that are sent again until answered, composed of the messages of
    \<open>Stun_Message\<close> and the queue of \<open>Message_Queue\<close>, with the store of request objects explicit; a step relation over
    all calls, the invariant that ties the map, the queue and the objects together, and the schedule of sends.
  \<^item> \<open>Ice_Candidate\<close> (\<^verbatim>\<open>p2p/base/candidate.h\<close>, \<^verbatim>\<open>base/ratetracker.cc\<close>): candidates, their priorities and those of pairs.
  \<^item> \<open>Ice_Port\<close> (\<^verbatim>\<open>p2p/base/port.cc\<close>): ports and connections over the requests and messages above, with the connections
    in a store; every operation, in the order of the code. \<open>Ice_Check\<close> shows what the checks and answers they write are
    for a receiver, \<open>Ice_Props\<close> the behaviour of two ends and of the timers, \<open>Ice_Examples\<close> applies it to two ports.
    \<open>Ice_Frame\<close> has for every operation what it leaves alone, as rules for the components above.
  \<^item> \<open>P2p_Channel\<close> (\<^verbatim>\<open>p2p/base/p2ptransportchannel.cc\<close>): the channel over UDP ports, each with its store of connections. An
    operation of a port is run by \<open>port_op\<close>, which hands the signals it gives to the handlers of the channel in their order.
    \<open>P2p_Frame\<close> states the invariant of the channel and shows that operations of ports keep it; \<open>P2p_Sort\<close> interprets the
    locale of ordered keys on the comparison of connections and shows what sorting does; \<open>P2p_Run\<close> is the step relation of
    all that can happen to a channel, with the invariant over its runs; \<open>P2p_Props\<close> has the properties; \<open>P2p_Nominate\<close> follows
    a nomination from one channel to another; \<open>P2p_Examples\<close> applies them to channels of one port and to a run.

  \<^bold>\<open>Bounds and fuel.\<close> Loops whose end depends on the network (\<^verbatim>\<open>attemptSend\<close>, \<^verbatim>\<open>transmit\<close>) take fuel; the
  properties show that the fuel the model passes is never used up. The padding loop of \<^verbatim>\<open>SHA1Final\<close> takes fuel 64,
  which suffices because each turn moves the count by one byte modulo 64. All other loops are recursions with a
  termination proof. Sequence numbers and lengths have the width of the code; theorems that need them not to wrap say
  so, and the wrapping cases are stated as properties of their own where the code goes wrong there.

  \<^bold>\<open>Not modelled.\<close> Within the files above: locks and owner threads, logging, the statistics that are compiled out,
  the HTML and XML codecs, and the other streams of \<^verbatim>\<open>base/stream.cc\<close>. Outside of them: sockets, threads, files,
  devices and TLS (calls into the system and libraries), vendored code (JsonCpp, sigslot, usrsctp), the subclasses of
  \<^verbatim>\<open>Port\<close> but for how UDP ports make connections and dispatch packets, STUN and relay servers, and the layers above:
  the allocation of ports, transports and their other channels (DTLS, raw), sessions and media channels, XMPP and XML. A
  channel reads the clock once in each operation; the set of its networks, which the code keeps in the order of pointers, is
  visited in the order of the connections, on which the result does not depend.
\<close>

end
